(* ===== verification/Prelude.thy ===== *)
theory Prelude
  imports Main "HOL-Library.Word" "HOL-Library.Char_ord" "HOL-Library.List_Lexorder"
    "HOL-Library.Product_Lexorder"
begin

text \<open>
  Shared vocabulary of the development: machine integers, results, instants, identifiers,
  UTF-8 strings, and the generic facts about them that the component theories use.

  \<^item> Rust's \<open>u16\<close>, \<open>u32\<close> and \<open>u64\<close> are words of that width.
    \<open>usize\<close> lengths are \<open>nat\<close>: they are only ever compared with a constant bound.
  \<^item> \<open>Result<T, E>\<close> is the sum \<open>'e + 'a\<close>; \<open>Err\<close> and \<open>Ok\<close> abbreviate the injections.
  \<^item> \<open>UtcTimestamp\<close> (\<open>time.rs\<close>) wraps the time library's instant. The development uses
    its total order, so an instant is an \<open>int\<close> (nanoseconds since the epoch); every
    arithmetic operation of that library is an argument of the definition that calls it.
  \<^item> A Rust \<open>str\<close> is its UTF-8 encoding, so a \<open>string\<close> here is a list of bytes and its
    \<open>length\<close> is \<open>str::len\<close>.
\<close>

named_theorems word_arith \<open>unsigned readings of the bounded operations\<close>
named_theorems text_simps \<open>the string predicates\<close>

section \<open>Machine integers\<close>

type_synonym u8 = "8 word"
type_synonym u16 = "16 word"
type_synonym u32 = "32 word"
type_synonym u64 = "64 word"
type_synonym uuid = "128 word"
type_synonym instant = int
type_synonym RunId = uuid
type_synonym WorkspaceId = uuid
type_synonym PrincipalId = uuid
type_synonym iso_date = int

definition checked_add :: "'w::len word \<Rightarrow> 'w word \<Rightarrow> 'w word option" where
  "checked_add a b = (if unat a + unat b < 2 ^ LENGTH('w) then Some (a + b) else None)"

definition saturating_add :: "'w::len word \<Rightarrow> 'w word \<Rightarrow> 'w word" where
  "saturating_add a b = (if unat a + unat b < 2 ^ LENGTH('w) then a + b else - 1)"

definition saturating_sub :: "'w::len word \<Rightarrow> 'w word \<Rightarrow> 'w word" where
  "saturating_sub a b = (if b \<le> a then a - b else 0)"

definition saturating_mul :: "'w::len word \<Rightarrow> 'w word \<Rightarrow> 'w word" where
  "saturating_mul a b = (if unat a * unat b < 2 ^ LENGTH('w) then a * b else - 1)"

lemma unat_minus_one_word_eq [word_arith]: "unat (- 1 :: 'w::len word) = 2 ^ LENGTH('w) - 1"
  by (simp add: unsigned_minus_1_eq_mask mask_eq_exp_minus_1)

lemma checked_add_Some [word_arith]:
  "checked_add a b = Some c \<Longrightarrow> unat c = unat a + unat b"
  by (auto simp: checked_add_def unat_word_ariths split: if_splits)

lemma checked_add_None_iff:
  "checked_add (a :: 'w::len word) b = None \<longleftrightarrow> 2 ^ LENGTH('w) \<le> unat a + unat b"
  by (auto simp: checked_add_def)

lemma checked_add_one_Some_iff:
  "(\<exists>c. checked_add (a :: 'w::len word) 1 = Some c) \<longleftrightarrow> a \<noteq> - 1"
proof -
  have b: "unat a < 2 ^ LENGTH('w)" by (rule unsigned_less)
  have "a = - 1 \<longleftrightarrow> unat a = unat (- 1 :: 'w word)"
    by (rule word_unat_eq_iff)
  then have "a = - 1 \<longleftrightarrow> unat a = 2 ^ LENGTH('w) - 1" by (simp only: unat_minus_one_word_eq)
  moreover from b have "unat a + 1 < 2 ^ LENGTH('w) \<longleftrightarrow> unat a \<noteq> 2 ^ LENGTH('w) - 1"
    by linarith
  ultimately show ?thesis by (simp add: checked_add_def)
qed

lemma unat_saturating_add [word_arith]:
  "unat (saturating_add (a :: 'w::len word) b) = min (unat a + unat b) (2 ^ LENGTH('w) - 1)"
  by (auto simp: saturating_add_def unat_minus_one_word_eq unat_word_ariths)

lemma unat_saturating_sub [word_arith]:
  "unat (saturating_sub a b) = unat a - unat b"
  by (auto simp: saturating_sub_def unat_sub word_le_nat_alt)

lemma unat_saturating_mul [word_arith]:
  "unat (saturating_mul (a :: 'w::len word) b) = min (unat a * unat b) (2 ^ LENGTH('w) - 1)"
  by (auto simp: saturating_mul_def unat_minus_one_word_eq unat_word_ariths)

lemma saturating_add_mono:
  "unat a \<le> unat (saturating_add a (b :: 'w::len word))"
proof -
  have "unat a < 2 ^ LENGTH('w)" by (rule unsigned_less)
  then have "unat a \<le> 2 ^ LENGTH('w) - 1" by linarith
  then show ?thesis by (simp add: unat_saturating_add)
qed

section \<open>Results and options\<close>

abbreviation Err :: "'e \<Rightarrow> 'e + 'a" where "Err \<equiv> Inl"
abbreviation Ok :: "'a \<Rightarrow> 'e + 'a" where "Ok \<equiv> Inr"

definition is_ok :: "'e + 'a \<Rightarrow> bool" where
  "is_ok r = (case r of Err _ \<Rightarrow> False | Ok _ \<Rightarrow> True)"

lemma is_ok_simps [simp]: "is_ok (Ok x)" "\<not> is_ok (Err e)"
  by (simp_all add: is_ok_def)

lemma is_ok_iff: "is_ok r \<longleftrightarrow> (\<exists>x. r = Ok x)"
  by (cases r) simp_all

text \<open>The \<open>?\<close> operator of Rust: an error returns at once.\<close>

definition and_then :: "'e + 'a \<Rightarrow> ('a \<Rightarrow> 'e + 'b) \<Rightarrow> 'e + 'b" where
  "and_then r f = (case r of Err e \<Rightarrow> Err e | Ok x \<Rightarrow> f x)"

lemma and_then_simps [simp]: "and_then (Ok x) f = f x" "and_then (Err e) f = Err e"
  by (simp_all add: and_then_def)

lemma and_then_Ok_iff: "and_then r f = Ok y \<longleftrightarrow> (\<exists>x. r = Ok x \<and> f x = Ok y)"
  by (cases r) simp_all

definition ok_or :: "'a option \<Rightarrow> 'e \<Rightarrow> 'e + 'a" where
  "ok_or x e = (case x of None \<Rightarrow> Err e | Some y \<Rightarrow> Ok y)"

lemma ok_or_simps [simp]: "ok_or (Some y) e = Ok y" "ok_or None e = Err e"
  by (simp_all add: ok_or_def)

lemma ok_or_Ok_iff [simp]: "ok_or x e = Ok y \<longleftrightarrow> x = Some y"
  by (cases x) simp_all

text \<open>\<open>Result::ok\<close>: forget which error it was.\<close>

definition ok :: "'e + 'a \<Rightarrow> 'a option" where
  "ok r = (case r of Err _ \<Rightarrow> None | Ok x \<Rightarrow> Some x)"

lemma ok_simps [simp]: "ok (Ok x) = Some x" "ok (Err e) = None" "ok (ok_or y e) = y"
  by (simp_all add: ok_def ok_or_def split: option.split)

lemma ok_Some_iff: "ok r = Some x \<longleftrightarrow> r = Ok x"
  by (cases r) simp_all

definition is_some_and :: "'a option \<Rightarrow> ('a \<Rightarrow> bool) \<Rightarrow> bool" where
  "is_some_and x p = (case x of None \<Rightarrow> False | Some y \<Rightarrow> p y)"

definition is_none_or :: "'a option \<Rightarrow> ('a \<Rightarrow> bool) \<Rightarrow> bool" where
  "is_none_or x p = (case x of None \<Rightarrow> True | Some y \<Rightarrow> p y)"

lemma is_some_and_simps [simp]:
  "is_some_and (Some y) p = p y" "\<not> is_some_and None p"
  "is_none_or (Some y) p = p y" "is_none_or None p"
  by (simp_all add: is_some_and_def is_none_or_def)

section \<open>Strings as UTF-8 byte lists\<close>

definition byte :: "char \<Rightarrow> nat" where
  "byte c = of_char c"

text \<open>
  \<open>char::is_control\<close> holds of U+0000..U+001F and U+007F..U+009F. In UTF-8 the first range and
  U+007F are single bytes, and U+0080..U+009F are the byte 0xC2 followed by 0x80..0x9F; in
  well-formed text 0xC2 occurs only as such a lead byte.
\<close>

fun has_control :: "string \<Rightarrow> bool" where
  "has_control [] = False"
| "has_control (c # cs) =
     (byte c < 32 \<or> byte c = 127 \<or>
      (byte c = 194 \<and> (case cs of [] \<Rightarrow> False | d # _ \<Rightarrow> 128 \<le> byte d \<and> byte d \<le> 159)) \<or>
      has_control cs)"

definition contains_nul :: "string \<Rightarrow> bool" where
  "contains_nul s = list_ex (\<lambda>c. byte c = 0) s"

definition is_ascii_lowercase :: "char \<Rightarrow> bool" where
  "is_ascii_lowercase c = (97 \<le> byte c \<and> byte c \<le> 122)"

definition is_ascii_digit :: "char \<Rightarrow> bool" where
  "is_ascii_digit c = (48 \<le> byte c \<and> byte c \<le> 57)"

definition to_ascii_lowercase :: "char \<Rightarrow> char" where
  "to_ascii_lowercase c = (if 65 \<le> byte c \<and> byte c \<le> 90 then char_of (byte c + 32) else c)"

definition eq_ignore_ascii_case :: "string \<Rightarrow> string \<Rightarrow> bool" where
  "eq_ignore_ascii_case s t = (map to_ascii_lowercase s = map to_ascii_lowercase t)"

lemma eq_ignore_ascii_case_refl [simp]: "eq_ignore_ascii_case s s"
  by (simp add: eq_ignore_ascii_case_def)

lemma eq_ignore_ascii_case_sym: "eq_ignore_ascii_case s t \<Longrightarrow> eq_ignore_ascii_case t s"
  by (simp add: eq_ignore_ascii_case_def)

lemma eq_ignore_ascii_case_trans:
  "eq_ignore_ascii_case s t \<Longrightarrow> eq_ignore_ascii_case t u \<Longrightarrow> eq_ignore_ascii_case s u"
  by (simp add: eq_ignore_ascii_case_def)

text \<open>\<open>str::split\<close> on one character: never empty, and \<open>join_with\<close> puts the text back.\<close>

fun split_on :: "char \<Rightarrow> string \<Rightarrow> string list" where
  "split_on sep [] = [[]]"
| "split_on sep (c # cs) =
     (if c = sep then [] # split_on sep cs
      else (case split_on sep cs of [] \<Rightarrow> [[c]] | s # ss \<Rightarrow> (c # s) # ss))"

fun join_with :: "char \<Rightarrow> string list \<Rightarrow> string" where
  "join_with sep [] = []"
| "join_with sep [s] = s"
| "join_with sep (s # t # ss) = s @ sep # join_with sep (t # ss)"

lemma split_on_not_Nil [simp]: "split_on sep s \<noteq> []"
  by (cases s) (auto split: list.split)

lemma join_with_Cons: "ss \<noteq> [] \<Longrightarrow> join_with sep (s # ss) = s @ sep # join_with sep ss"
  by (cases ss) simp_all

lemma join_split [simp]: "join_with sep (split_on sep s) = s"
proof (induction s)
  case Nil
  show ?case by simp
next
  case (Cons c s)
  obtain t ts where ts: "split_on sep s = t # ts"
    by (cases "split_on sep s") auto
  with Cons show ?case by (cases ts) (auto simp: join_with_Cons)
qed

lemma split_on_inj: "split_on sep s = split_on sep t \<Longrightarrow> s = t"
  by (metis join_split)

lemma split_on_no_sep: "t \<in> set (split_on sep s) \<Longrightarrow> sep \<notin> set t"
  by (induction s arbitrary: t) (auto split: list.splits if_splits)

lemma split_on_bytes: "t \<in> set (split_on sep s) \<Longrightarrow> set t \<subseteq> set s"
proof (induction s arbitrary: t)
  case Nil
  then show ?case by simp
next
  case (Cons c s)
  obtain u us where us: "split_on sep s = u # us"
    by (cases "split_on sep s") auto
  with Cons.prems Cons.IH show ?case by (fastforce split: if_splits)
qed

text \<open>A text that is not empty, at most \<open>n\<close> bytes and free of control characters, the rule most
  of the bounded newtypes of the domain share; and its variant that refuses only NUL.\<close>

definition bounded_text :: "nat \<Rightarrow> string \<Rightarrow> bool" where
  "bounded_text n s = (s \<noteq> [] \<and> length s \<le> n \<and> \<not> has_control s)"

definition bounded_nul_free :: "nat \<Rightarrow> string \<Rightarrow> bool" where
  "bounded_nul_free n s = (s \<noteq> [] \<and> length s \<le> n \<and> \<not> contains_nul s)"

lemma has_control_nul: "contains_nul s \<Longrightarrow> has_control s"
  by (induction s) (auto simp: contains_nul_def)

lemma bounded_text_nul_free: "bounded_text n s \<Longrightarrow> bounded_nul_free n s"
  using has_control_nul by (auto simp: bounded_text_def bounded_nul_free_def)

lemma find_SomeD: "find p xs = Some x \<Longrightarrow> p x \<and> x \<in> set xs"
  by (auto simp: find_Some_iff)

section \<open>Lists without repeats\<close>

text \<open>Sorting and dropping adjacent repeats leaves the length alone only when nothing repeats.\<close>

lemma sorted_dedup_distinct:
  "sorted (map f zs) \<Longrightarrow> inj_on f (set zs) \<Longrightarrow> distinct (remdups_adj zs)"
  by (induction zs rule: remdups_adj.induct) (auto simp: inj_on_def)

lemma sort_dedup_distinct:
  assumes "inj_on f (set xs)"
  shows "length (remdups_adj (sort_key f xs)) = length xs \<longleftrightarrow> distinct xs"
proof -
  have "distinct (remdups_adj (sort_key f xs))"
    by (rule sorted_dedup_distinct [where f = f]) (simp_all add: assms)
  moreover have "set (remdups_adj (sort_key f xs)) = set xs" by simp
  ultimately have "length (remdups_adj (sort_key f xs)) = card (set xs)"
    by (metis distinct_card)
  then show ?thesis using card_distinct distinct_card by metis
qed

end
