(* ===== verification/Interfaces.thy ===== *)
theory Interfaces
  imports Prelude
begin

text \<open>
  The contracts several components of the domain share, each as a locale with the lemmas a
  client may use. The component theories interpret them on the definitions that model the code.

  \<^item> \<open>spelling\<close>: an enumeration with the stored or wire spelling of each member and its
    parser (\<open>as_contract_str\<close> and \<open>parse\<close> of the domain's enumerations).
  \<^item> \<open>edge_table\<close>: a transition table with absorbing terminal states
    (\<open>RunState\<close>, \<open>ToolCallState\<close>, \<open>ApprovalState\<close>).
  \<^item> \<open>version_counter\<close>: something advanced under optimistic concurrency, where a request names
    the version it expects (a row of a store); \<open>versioned\<close> adds a transition table and that a
    refusal changes nothing (\<open>RunLifecycle::apply\<close>, \<open>LedgerEntry::apply\<close>,
    \<open>DurableApproval::apply\<close>).
  \<^item> \<open>staged\<close>: an aggregate whose accepted steps only ever lead to a later stage, so that no
    state is entered twice (\<open>LedgerEntry\<close>, \<open>DurableApproval\<close>).
\<close>

section \<open>Enumerations with a stored spelling\<close>

locale spelling =
  fixes all :: "'a list"
    and as_str :: "'a \<Rightarrow> string"
    and parse :: "string \<Rightarrow> 'a option"
  assumes all_complete: "x \<in> set all"
    and spellings_distinct: "distinct (map as_str all)"
    and parse_find: "parse s = find (\<lambda>x. as_str x = s) all"
begin

lemma as_str_eq_iff: "as_str x = as_str y \<longleftrightarrow> x = y"
  using spellings_distinct all_complete by (auto simp: distinct_map inj_on_def)

lemma parse_SomeD: "parse s = Some x \<Longrightarrow> as_str x = s"
  by (auto simp: parse_find find_Some_iff)

lemma parse_as_str: "parse (as_str x) = Some x"
proof -
  have "parse (as_str x) \<noteq> None"
    using all_complete [of x] by (auto simp: parse_find find_None_iff)
  then obtain y where "parse (as_str x) = Some y" by blast
  with parse_SomeD [OF this] show ?thesis by (simp add: as_str_eq_iff)
qed

lemma parse_Some_iff: "parse s = Some x \<longleftrightarrow> s = as_str x"
  by (auto simp: parse_as_str dest: parse_SomeD)

lemma parse_None_iff: "parse s = None \<longleftrightarrow> s \<notin> range as_str"
proof -
  have "parse s = None \<longleftrightarrow> (\<forall>x. parse s \<noteq> Some x)" by simp
  then show ?thesis by (auto simp: parse_Some_iff)
qed

end

section \<open>Transition tables\<close>

locale edge_table =
  fixes can :: "'s \<Rightarrow> 's \<Rightarrow> bool"
    and terminal :: "'s \<Rightarrow> bool"
  assumes terminal_absorbs: "terminal s \<Longrightarrow> \<not> can s t"
    and live_has_exit: "\<not> terminal s \<Longrightarrow> \<exists>t. can s t"
    and no_self_edge: "\<not> can s s"
    and terminal_in_reach: "\<exists>t. can\<^sup>*\<^sup>* s t \<and> terminal t"
begin

lemma stuck_iff_terminal: "(\<forall>t. \<not> can s t) \<longleftrightarrow> terminal s"
  using terminal_absorbs live_has_exit by blast

lemma terminal_reaches_itself_only:
  assumes "can\<^sup>*\<^sup>* s t" and "terminal s"
  shows "t = s"
  using assms by (induction rule: converse_rtranclp_induct) (auto dest: terminal_absorbs)

text \<open>On any run of the table at most one terminal state is entered, and it is the last one.\<close>

lemma path_terminal_last:
  assumes "successively can ss" and "i < length ss" and "terminal (ss ! i)"
  shows "Suc i = length ss"
proof (rule ccontr)
  assume "Suc i \<noteq> length ss"
  with assms(2) have "Suc i < length ss" by simp
  with assms(1) have "can (ss ! i) (ss ! Suc i)" by (simp add: successively_conv_nth)
  with assms(3) show False by (simp add: terminal_absorbs)
qed

end

section \<open>Optimistic concurrency\<close>

text \<open>Offer a list of requests in order; collect each answer and the final aggregate.\<close>

fun run_steps :: "('e \<Rightarrow> 'c \<Rightarrow> ('x + 'r) \<times> 'e) \<Rightarrow> 'e \<Rightarrow> 'c list \<Rightarrow> ('x + 'r) list \<times> 'e" where
  "run_steps f e [] = ([], e)"
| "run_steps f e (c # cs) =
     (case f e c of (r, e') \<Rightarrow> (case run_steps f e' cs of (rs, e'') \<Rightarrow> (r # rs, e'')))"

lemma run_steps_Cons_iff:
  "run_steps f e (c # cs) = (rs, e'') \<longleftrightarrow>
     (\<exists>r rs' e'. f e c = (r, e') \<and> run_steps f e' cs = (rs', e'') \<and> rs = r # rs')"
  by (auto split: prod.splits)

lemma length_run_steps: "run_steps f e cs = (rs, e') \<Longrightarrow> length rs = length cs"
  by (induction cs arbitrary: e rs) (auto split: prod.splits)

locale version_counter =
  fixes step :: "'e \<Rightarrow> 'c \<Rightarrow> ('x + 'r) \<times> 'e"
    and expected :: "'c \<Rightarrow> u64"
    and version :: "'e \<Rightarrow> u64"
  assumes accepted_expected: "step e c = (Ok r, e') \<Longrightarrow> expected c = version e"
    and accepted_version: "step e c = (Ok r, e') \<Longrightarrow> unat (version e') = Suc (unat (version e))"
    and refused_version: "step e c = (Err x, e') \<Longrightarrow> version e' = version e"
begin

lemma run_version:
  "run_steps step e cs = (rs, e') \<Longrightarrow>
     unat (version e') = unat (version e) + length (filter is_ok rs)"
proof (induction cs arbitrary: e rs)
  case Nil
  then show ?case by simp
next
  case (Cons c cs)
  then obtain r rs' e1 where 1: "step e c = (r, e1)" "run_steps step e1 cs = (rs', e')" "rs = r # rs'"
    by (auto simp: run_steps_Cons_iff simp del: run_steps.simps)
  show ?case
  proof (cases r)
    case (Inl x)
    with 1 Cons.IH [OF 1(2)] refused_version [of e c x e1] show ?thesis by simp
  next
    case (Inr y)
    with 1 Cons.IH [OF 1(2)] accepted_version [of e c y e1] show ?thesis by simp
  qed
qed

lemma later_expectation_grows:
  "run_steps step e cs = (rs, e') \<Longrightarrow> i < length cs \<Longrightarrow> is_ok (rs ! i) \<Longrightarrow>
     unat (version e) \<le> unat (expected (cs ! i))"
proof (induction cs arbitrary: e rs i)
  case Nil
  then show ?case by simp
next
  case (Cons c cs)
  then obtain r rs' e1 where 1: "step e c = (r, e1)" "run_steps step e1 cs = (rs', e')" "rs = r # rs'"
    by (auto simp: run_steps_Cons_iff simp del: run_steps.simps)
  have mono: "unat (version e) \<le> unat (version e1)"
    using 1(1) accepted_version refused_version by (cases r) auto
  show ?case
  proof (cases i)
    case 0
    with Cons.prems 1 show ?thesis by (auto simp: is_ok_iff dest: accepted_expected)
  next
    case (Suc k)
    with Cons.prems 1 Cons.IH [OF 1(2), of k] mono show ?thesis by simp
  qed
qed

text \<open>Of several requests naming one expected version, at most one is accepted, in any order.\<close>

lemma single_winner:
  "run_steps step e cs = (rs, e') \<Longrightarrow> i < j \<Longrightarrow> j < length cs \<Longrightarrow>
     expected (cs ! i) = expected (cs ! j) \<Longrightarrow> is_ok (rs ! i) \<Longrightarrow> \<not> is_ok (rs ! j)"
proof (induction cs arbitrary: e rs i j)
  case Nil
  then show ?case by simp
next
  case (Cons c cs)
  then obtain r rs' e1 where 1: "step e c = (r, e1)" "run_steps step e1 cs = (rs', e')" "rs = r # rs'"
    by (auto simp: run_steps_Cons_iff simp del: run_steps.simps)
  obtain l where j: "j = Suc l" using Cons.prems by (cases j) auto
  show ?case
  proof (cases i)
    case 0
    with Cons.prems 1 obtain y where r: "r = Ok y" by (auto simp: is_ok_iff)
    show ?thesis
    proof
      assume "is_ok (rs ! j)"
      with 1 j Cons.prems later_expectation_grows [OF 1(2), of l]
      have "unat (version e1) \<le> unat (expected (cs ! l))" by simp
      moreover have "unat (version e1) = Suc (unat (version e))" "expected c = version e"
        using 1 r accepted_version accepted_expected by auto
      ultimately show False using Cons.prems 0 j by simp
    qed
  next
    case (Suc k)
    with Cons.prems 1 j Cons.IH [OF 1(2), of k l] show ?thesis by simp
  qed
qed

lemma stale_refused:
  assumes "expected c \<noteq> version e"
  shows "\<not> is_ok (fst (step e c))"
  using assms accepted_expected by (cases "step e c") (auto simp: is_ok_iff)

end

text \<open>An aggregate that also moves along a table and is left alone by a refusal.\<close>

locale versioned = version_counter step expected version
  for step :: "'e \<Rightarrow> 'c \<Rightarrow> ('x + 'r) \<times> 'e" and expected and version +
  fixes target :: "'c \<Rightarrow> 's"
    and state :: "'e \<Rightarrow> 's"
    and can :: "'s \<Rightarrow> 's \<Rightarrow> bool"
  assumes accepted_edge: "step e c = (Ok r, e') \<Longrightarrow> can (state e) (target c)"
    and accepted_state: "step e c = (Ok r, e') \<Longrightarrow> state e' = target c"
    and refused_keeps: "step e c = (Err x, e') \<Longrightarrow> version e \<noteq> - 1 \<Longrightarrow> e' = e"
begin

lemma no_edge_refused:
  assumes "\<not> can (state e) (target c)" and "version e \<noteq> - 1"
  shows "\<exists>x. step e c = (Err x, e)"
proof (cases "step e c")
  case (Pair r e1)
  with assms show ?thesis by (cases r) (auto dest: accepted_edge refused_keeps)
qed

end

section \<open>Stages\<close>

locale staged =
  fixes step :: "'e \<Rightarrow> 'c \<Rightarrow> ('x + 'r) \<times> 'e"
    and entered :: "'r \<Rightarrow> 's"
    and state :: "'e \<Rightarrow> 's"
    and stage :: "'s \<Rightarrow> nat"
    and last_stage :: nat
  assumes stage_bound: "stage s \<le> last_stage"
    and stage_kept: "step e c = (r, e') \<Longrightarrow> stage (state e) \<le> stage (state e')"
    and stage_entered: "step e c = (Ok t, e') \<Longrightarrow> stage (state e) < stage (entered t)"
    and state_entered: "step e c = (Ok t, e') \<Longrightarrow> state e' = entered t"
begin

lemma history_stage:
  assumes "run_steps step e cs = (rs, e')" and "i < length cs" and "rs ! i = Ok t"
  shows "stage (state e) < stage (entered t)"
  using assms
proof (induction cs arbitrary: e rs i)
  case Nil
  then show ?case by simp
next
  case (Cons c cs)
  then obtain r rs' e1 where 1: "step e c = (r, e1)" "run_steps step e1 cs = (rs', e')" "rs = r # rs'"
    by (auto simp: run_steps_Cons_iff simp del: run_steps.simps)
  show ?case
  proof (cases i)
    case 0
    with 1 Cons.prems(3) have "step e c = (Ok t, e1)" by simp
    then show ?thesis by (rule stage_entered)
  next
    case (Suc j)
    with 1 Cons.prems(2,3) Cons.IH [OF 1(2), of j] stage_kept [OF 1(1)] show ?thesis by simp
  qed
qed

lemma history_stages_increase:
  assumes "run_steps step e cs = (rs, e')" and "i < j" and "j < length cs"
    and "rs ! i = Ok t" and "rs ! j = Ok u"
  shows "stage (entered t) < stage (entered u)"
  using assms
proof (induction cs arbitrary: e rs i j)
  case Nil
  then show ?case by simp
next
  case (Cons c cs)
  then obtain r rs' e1 where 1: "step e c = (r, e1)" "run_steps step e1 cs = (rs', e')" "rs = r # rs'"
    by (auto simp: run_steps_Cons_iff simp del: run_steps.simps)
  obtain m where j: "j = Suc m" using Cons.prems(2) by (cases j) auto
  show ?case
  proof (cases i)
    case 0
    with 1 Cons.prems(4) have "step e c = (Ok t, e1)" by simp
    with state_entered [OF this] history_stage [OF 1(2), of m u] j 1(3) Cons.prems(3,5)
    show ?thesis by simp
  next
    case (Suc n)
    with 1 j Cons.prems(2-5) Cons.IH [OF 1(2), of n m] show ?thesis by simp
  qed
qed

lemma history_length:
  "run_steps step e cs = (rs, e') \<Longrightarrow> stage (state e) + length (filter is_ok rs) \<le> stage (state e')"
proof (induction cs arbitrary: e rs)
  case Nil
  then show ?case by simp
next
  case (Cons c cs)
  then obtain r rs' e1 where 1: "step e c = (r, e1)" "run_steps step e1 cs = (rs', e')" "rs = r # rs'"
    by (auto simp: run_steps_Cons_iff simp del: run_steps.simps)
  show ?case
  proof (cases r)
    case (Inl x)
    with 1 Cons.IH [OF 1(2)] stage_kept [OF 1(1)] show ?thesis by simp
  next
    case (Inr t)
    with 1 have "step e c = (Ok t, e1)" by simp
    with stage_entered [OF this] state_entered [OF this] 1 Inr Cons.IH [OF 1(2)] show ?thesis by simp
  qed
qed

lemma history_bounded:
  assumes "run_steps step e cs = (rs, e')"
  shows "stage (state e) + length (filter is_ok rs) \<le> last_stage"
  using history_length [OF assms] stage_bound [of "state e'"] by linarith

lemma history_distinct:
  assumes "run_steps step e cs = (rs, e')" and "i < j" and "j < length cs"
    and "rs ! i = Ok t" and "rs ! j = Ok u"
  shows "entered t \<noteq> entered u"
  using history_stages_increase [OF assms] by auto

end

end
