(* ===== verification/Domain_Error.thy ===== *)
theory Domain_Error
  imports Interfaces
begin

text \<open>
  The vocabulary of \<open>error.rs\<close>: the state enumerations and version counters its variants
  carry (\<open>run/state.rs\<close>, \<open>tool/ledger.rs\<close>, \<open>tool/approval.rs\<close>) and \<open>DomainError\<close> itself with
  its stable code and its retry flag.
\<close>

datatype RunState =
    Received | ContextBuilding | Planning | AwaitingModel | AwaitingApproval | ExecutingTool
  | Observing | Waiting | Responding | Completed | Failed | Cancelled

datatype ToolCallState =
    Requested | Validated | Denied | WaitingApproval | Approved | Reserved | Executing
  | Reconciling | Succeeded | Failed | Cancelled

datatype ApprovalState =
    Pending | Approved | Rejected | Expired | Cancelled | Consumed | Invalidated

type_synonym RunVersion = u64
type_synonym ToolCallVersion = u64
type_synonym ApprovalVersion = u64

datatype (plugins only: code size) DomainError =
    InvalidIdentifier string
  | InvalidTimestamp
  | SystemClockUnavailable
  | UnboundedProviderValue
  | StreamSequenceExhausted
  | StreamCallMismatch
  | StreamSequenceNotMonotonic
  | StreamAlreadyStarted
  | UnknownToolCall
  | ToolArgumentsMismatch
  | UnfinishedToolCall
  | ToolArgumentsNotExecutable
  | OrphanedToolResult
  | DuplicateToolCallId
  | InvalidPolicyLayer
  | DeliveryNotIncremental
  | ModelSettingsInvalid
  | PolicyNotFound
  | PolicyVersionConflict
  | PolicyUnsatisfied
  | EvidenceMissing
  | EvidenceStale
  | ExceptionRequired
  | ExceptionExpired
  | RunTransitionNotAllowed RunState RunState
  | RunVersionConflict RunVersion RunVersion
  | RunAlreadyTerminal RunState
  | RunVersionExhausted
  | InvalidTransitionReason
  | ContextBudgetInvalid
  | ContextCandidatesUnbounded
  | ContextCandidateInvalid
  | ToolIdentifierNotCanonical
  | ToolDefinitionInvalid string
  | ToolIdentityConflict
  | ToolSourceConflict
  | ToolNotRegistered
  | ApprovalStateConflict ApprovalState ApprovalState
  | ApprovalVersionConflict ApprovalVersion ApprovalVersion
  | ApprovalFingerprintMismatch
  | ToolCallStateConflict ToolCallState ToolCallState
  | ToolCallVersionConflict ToolCallVersion ToolCallVersion

primrec domain_error_code :: "DomainError \<Rightarrow> string" where
  "domain_error_code (InvalidIdentifier _) = ''jarvis.invalid_identifier''"
| "domain_error_code InvalidTimestamp = ''jarvis.invalid_timestamp''"
| "domain_error_code SystemClockUnavailable = ''jarvis.system_clock_unavailable''"
| "domain_error_code UnboundedProviderValue = ''jarvis.unbounded_provider_value''"
| "domain_error_code StreamSequenceExhausted = ''jarvis.stream_sequence_exhausted''"
| "domain_error_code StreamCallMismatch = ''jarvis.stream_call_mismatch''"
| "domain_error_code StreamSequenceNotMonotonic = ''jarvis.stream_sequence_not_monotonic''"
| "domain_error_code StreamAlreadyStarted = ''jarvis.stream_already_started''"
| "domain_error_code UnknownToolCall = ''jarvis.unknown_tool_call''"
| "domain_error_code ToolArgumentsMismatch = ''jarvis.tool_arguments_mismatch''"
| "domain_error_code UnfinishedToolCall = ''jarvis.unfinished_tool_call''"
| "domain_error_code ToolArgumentsNotExecutable = ''jarvis.tool_arguments_not_executable''"
| "domain_error_code OrphanedToolResult = ''jarvis.orphaned_tool_result''"
| "domain_error_code DuplicateToolCallId = ''jarvis.duplicate_tool_call_id''"
| "domain_error_code InvalidPolicyLayer = ''jarvis.invalid_policy_layer''"
| "domain_error_code DeliveryNotIncremental = ''jarvis.delivery_not_incremental''"
| "domain_error_code ModelSettingsInvalid = ''model.settings_invalid''"
| "domain_error_code PolicyNotFound = ''model.policy_not_found''"
| "domain_error_code PolicyVersionConflict = ''model.policy_version_conflict''"
| "domain_error_code PolicyUnsatisfied = ''model.policy_unsatisfied''"
| "domain_error_code EvidenceMissing = ''model.evidence_missing''"
| "domain_error_code EvidenceStale = ''model.evidence_stale''"
| "domain_error_code ExceptionRequired = ''model.exception_required''"
| "domain_error_code ExceptionExpired = ''model.exception_expired''"
| "domain_error_code (RunTransitionNotAllowed _ _) = ''jarvis.run_transition_not_allowed''"
| "domain_error_code (RunVersionConflict _ _) = ''jarvis.run_version_conflict''"
| "domain_error_code (RunAlreadyTerminal _) = ''jarvis.run_already_terminal''"
| "domain_error_code RunVersionExhausted = ''jarvis.run_version_exhausted''"
| "domain_error_code InvalidTransitionReason = ''jarvis.invalid_transition_reason''"
| "domain_error_code ContextBudgetInvalid = ''jarvis.context_budget_invalid''"
| "domain_error_code ContextCandidatesUnbounded = ''jarvis.context_candidates_unbounded''"
| "domain_error_code ContextCandidateInvalid = ''jarvis.context_candidate_invalid''"
| "domain_error_code ToolIdentifierNotCanonical = ''tool.identifier_not_canonical''"
| "domain_error_code (ToolDefinitionInvalid _) = ''tool.definition_invalid''"
| "domain_error_code ToolIdentityConflict = ''tool.conflict''"
| "domain_error_code ToolSourceConflict = ''tool.source_conflict''"
| "domain_error_code ToolNotRegistered = ''tool.not_found''"
| "domain_error_code (ApprovalStateConflict _ _) = ''approval.state_conflict''"
| "domain_error_code (ApprovalVersionConflict _ _) = ''approval.version_conflict''"
| "domain_error_code ApprovalFingerprintMismatch = ''approval.fingerprint_mismatch''"
| "domain_error_code (ToolCallStateConflict _ _) = ''tool.state_conflict''"
| "domain_error_code (ToolCallVersionConflict _ _) = ''tool.version_conflict''"

definition domain_error_retryable :: "DomainError \<Rightarrow> bool" where
  "domain_error_retryable e = (case e of RunVersionConflict _ _ \<Rightarrow> True | _ \<Rightarrow> False)"

end
