(* ===== verification/Model_Identity.thy ===== *)
theory Model_Identity
  imports Domain_Error
begin

text \<open>
  \<open>model/identity.rs\<close>: the lowercase dotted names of providers, models, revisions and regions,
  the reference to one model, and the class of an endpoint. A name is a newtype over
  \<open>String\<close> whose only constructor is \<open>parse\<close>, so it is a \<open>string\<close> here and
  \<open>validate_name\<close> says which strings are names.
\<close>

section \<open>Names\<close>

definition MAX_NAME_BYTES :: nat where "MAX_NAME_BYTES = 64"

definition name_byte :: "char \<Rightarrow> bool" where
  "name_byte c \<longleftrightarrow> is_ascii_lowercase c \<or> is_ascii_digit c \<or> c = CHR ''-'' \<or> c = CHR ''_''"

text \<open>The closure of \<open>validate_name\<close>. The last byte passed \<open>allowed\<close> or the first-byte test, so
  \<open>is_ascii_alphanumeric\<close> of it is being a lowercase letter or a digit; an uppercase letter
  never gets that far.\<close>

definition is_ascii_alphanumeric :: "char \<Rightarrow> bool" where
  "is_ascii_alphanumeric c \<longleftrightarrow>
     is_ascii_lowercase c \<or> (65 \<le> byte c \<and> byte c \<le> 90) \<or> is_ascii_digit c"

definition name_segment :: "string \<Rightarrow> bool" where
  "name_segment segment =
     (case segment of [] \<Rightarrow> False
      | first # bytes \<Rightarrow>
          (is_ascii_lowercase first \<or> is_ascii_digit first) \<and> list_all name_byte bytes \<and>
          is_ascii_alphanumeric (last (first # bytes)))"

definition validate_name :: "string \<Rightarrow> string \<Rightarrow> DomainError + unit" where
  "validate_name value kind =
     (if value = [] \<or> length value > MAX_NAME_BYTES then Err (InvalidIdentifier kind)
      else if list_all name_segment (split_on CHR ''.'' value) then Ok ()
      else Err (InvalidIdentifier kind))"

definition owner_name_parse :: "string \<Rightarrow> string \<Rightarrow> DomainError + string" where
  "owner_name_parse kind value = and_then (validate_name value kind) (\<lambda>_. Ok value)"

definition owner_name_from_literal :: "string \<Rightarrow> string \<Rightarrow> string option" where
  "owner_name_from_literal kind value = map_option (\<lambda>_. value) (ok (validate_name value kind))"

type_synonym ProviderId = string
type_synonym ModelId = string
type_synonym ModelRevision = string
type_synonym Region = string

section \<open>References to models\<close>

record ModelRef =
  mr_provider_id :: ProviderId
  mr_model_id :: ModelId
  mr_revision :: "ModelRevision option"

definition model_ref_new :: "ProviderId \<Rightarrow> ModelId \<Rightarrow> ModelRef" where
  "model_ref_new p m = \<lparr>mr_provider_id = p, mr_model_id = m, mr_revision = None\<rparr>"

definition model_ref_with_revision :: "ModelRef \<Rightarrow> ModelRevision \<Rightarrow> ModelRef" where
  "model_ref_with_revision r revision = r\<lparr>mr_revision := Some revision\<rparr>"

definition model_ref_display :: "ModelRef \<Rightarrow> string" where
  "model_ref_display r =
     (case mr_revision r of
        Some revision \<Rightarrow> mr_provider_id r @ ''/'' @ mr_model_id r @ ''@'' @ revision
      | None \<Rightarrow> mr_provider_id r @ ''/'' @ mr_model_id r)"

datatype EndpointClass = Local | PrivateNetwork | ApprovedCloud

definition requires_network :: "EndpointClass \<Rightarrow> bool" where
  "requires_network c \<longleftrightarrow> c \<noteq> EndpointClass.Local"

section \<open>Names never contain a separator\<close>

definition valid_name :: "string \<Rightarrow> bool" where
  "valid_name s \<longleftrightarrow> validate_name s [] = Ok ()"

lemma valid_name_iff: "validate_name s kind = Ok () \<longleftrightarrow> valid_name s"
  by (auto simp: validate_name_def valid_name_def split: if_splits)

lemma owner_name_parse_Ok_iff: "owner_name_parse kind s = Ok t \<longleftrightarrow> t = s \<and> valid_name s"
  by (auto simp: owner_name_parse_def and_then_Ok_iff valid_name_iff)

lemma name_segment_bytes: "name_segment s \<Longrightarrow> c \<in> set s \<Longrightarrow> name_byte c"
  by (auto simp: name_segment_def name_byte_def list_all_iff split: list.splits)

lemma split_on_covers: "c \<in> set s \<Longrightarrow> c = sep \<or> (\<exists>t \<in> set (split_on sep s). c \<in> set t)"
  by (induction s) (auto split: list.splits)

lemma valid_name_bytes:
  assumes "valid_name s" and "c \<in> set s"
  shows "c = CHR ''.'' \<or> name_byte c"
proof -
  have "list_all name_segment (split_on CHR ''.'' s)"
    using assms(1) by (auto simp: valid_name_def validate_name_def split: if_splits)
  with split_on_covers [OF assms(2), of "CHR ''.''"] show ?thesis
    by (auto simp: list_all_iff dest: name_segment_bytes)
qed

lemma valid_name_separators:
  assumes "valid_name s"
  shows "CHR ''/'' \<notin> set s" and "CHR ''@'' \<notin> set s"
  using valid_name_bytes [OF assms, of "CHR ''/''"] valid_name_bytes [OF assms, of "CHR ''@''"]
  by (auto simp: name_byte_def is_ascii_lowercase_def is_ascii_digit_def byte_def)

lemma append_sep_inject:
  assumes "a @ sep # b = c @ sep # d" and "sep \<notin> set a" and "sep \<notin> set c"
  shows "a = c \<and> b = d"
  using assms
proof (induction a arbitrary: c)
  case Nil
  then show ?case by (cases c) auto
next
  case (Cons x a)
  then show ?case by (cases c) auto
qed

definition model_ref_ok :: "ModelRef \<Rightarrow> bool" where
  "model_ref_ok r \<longleftrightarrow> valid_name (mr_provider_id r) \<and> valid_name (mr_model_id r) \<and>
     (case mr_revision r of None \<Rightarrow> True | Some revision \<Rightarrow> valid_name revision)"

lemma model_tail_inject:
  assumes "valid_name m" "valid_name n"
    and "(case r of Some revision \<Rightarrow> m @ ''@'' @ revision | None \<Rightarrow> m) =
         (case q of Some revision \<Rightarrow> n @ ''@'' @ revision | None \<Rightarrow> n)"
  shows "m = n \<and> r = q"
proof (cases r; cases q)
  fix x y
  assume "r = Some x" "q = Some y"
  with assms append_sep_inject [of m "CHR ''@''" x n y] valid_name_separators(2)
  show ?thesis by auto
next
  fix x
  assume "r = Some x" "q = None"
  with assms valid_name_separators(2) [of n] show ?thesis by auto
next
  fix y
  assume "r = None" "q = Some y"
  with assms valid_name_separators(2) [of m] show ?thesis by auto
qed (use assms in auto)

text \<open>Two model references with valid names display alike only when they are the same
  reference: a name never holds the separators \<open>/\<close> and \<open>@\<close>, so an allow list of displayed
  models cannot confuse two models.\<close>

theorem model_ref_display_inject:
  assumes "model_ref_ok a" and "model_ref_ok b" and "model_ref_display a = model_ref_display b"
  shows "a = b"
proof -
  have d: "model_ref_display r = mr_provider_id r @ CHR ''/'' #
      (case mr_revision r of Some revision \<Rightarrow> mr_model_id r @ ''@'' @ revision | None \<Rightarrow> mr_model_id r)" for r
    by (simp add: model_ref_display_def split: option.split)
  from assms have v: "valid_name (mr_provider_id a)" "valid_name (mr_provider_id b)"
      "valid_name (mr_model_id a)" "valid_name (mr_model_id b)"
    by (simp_all add: model_ref_ok_def)
  from assms(3) append_sep_inject [of "mr_provider_id a" "CHR ''/''" _ "mr_provider_id b"]
      valid_name_separators(1) [OF v(1)] valid_name_separators(1) [OF v(2)]
  have "mr_provider_id a = mr_provider_id b" and
    "(case mr_revision a of Some revision \<Rightarrow> mr_model_id a @ ''@'' @ revision | None \<Rightarrow> mr_model_id a) =
     (case mr_revision b of Some revision \<Rightarrow> mr_model_id b @ ''@'' @ revision | None \<Rightarrow> mr_model_id b)"
    unfolding d by blast+
  with model_tail_inject [OF v(3,4)] show ?thesis by auto
qed

theorem model_ref_display_inject_witness:
  "\<lparr>mr_provider_id = ''openai'', mr_model_id = ''gpt.4'', mr_revision = Some ''v2''\<rparr> =
   model_ref_with_revision (model_ref_new ''openai'' ''gpt.4'') ''v2''"
  by (rule model_ref_display_inject)
    (simp_all add: model_ref_ok_def valid_name_def validate_name_def MAX_NAME_BYTES_def
      name_segment_def name_byte_def is_ascii_lowercase_def is_ascii_digit_def
      is_ascii_alphanumeric_def byte_def model_ref_with_revision_def model_ref_new_def)

end
