(* ===== verification/Model_Policy.thy ===== *)
theory Model_Policy
  imports Model_Identity "HOL-Library.Multiset"
begin

text \<open>
  \<open>model/policy.rs\<close>: the ordered enumerations of the data-policy rules, the rule set itself, how
  two rule sets merge into the stricter one, how the contributions of the layers resolve, and
  what a route decision records. Rust's derived \<open>Ord\<close> of an enumeration is declaration order;
  here each is a \<open>linorder\<close> through its declaration rank.
\<close>

section \<open>Ordered enumerations\<close>

datatype Locality = LocalOnly | PrivateNetworkAllowed | ApprovedCloudAllowed

datatype ProviderRetention = NoneDocumented | BoundedDocumented | ProviderDefaultAllowed

datatype TrainingUse = DisallowedDocumented | AccountPolicyAllowed | ProviderDefaultAllowed

datatype Telemetry = Disabled | LocalOnly

datatype Sensitivity = Public | Internal | Confidential | Restricted

datatype FallbackPermission = Denied | CompliantOnly

datatype PolicyLayer = LegalOrAdministrator | Workspace | ResourceSensitivity | TaskRestriction | UserPreference | ProviderDefault


primrec locality_rank :: "Locality \<Rightarrow> nat" where
  "locality_rank Locality.LocalOnly = 0"
| "locality_rank Locality.PrivateNetworkAllowed = 1"
| "locality_rank Locality.ApprovedCloudAllowed = 2"

primrec provider_retention_rank :: "ProviderRetention \<Rightarrow> nat" where
  "provider_retention_rank ProviderRetention.NoneDocumented = 0"
| "provider_retention_rank ProviderRetention.BoundedDocumented = 1"
| "provider_retention_rank ProviderRetention.ProviderDefaultAllowed = 2"

primrec training_use_rank :: "TrainingUse \<Rightarrow> nat" where
  "training_use_rank TrainingUse.DisallowedDocumented = 0"
| "training_use_rank TrainingUse.AccountPolicyAllowed = 1"
| "training_use_rank TrainingUse.ProviderDefaultAllowed = 2"

primrec telemetry_rank :: "Telemetry \<Rightarrow> nat" where
  "telemetry_rank Telemetry.Disabled = 0"
| "telemetry_rank Telemetry.LocalOnly = 1"

primrec sensitivity_rank :: "Sensitivity \<Rightarrow> nat" where
  "sensitivity_rank Sensitivity.Public = 0"
| "sensitivity_rank Sensitivity.Internal = 1"
| "sensitivity_rank Sensitivity.Confidential = 2"
| "sensitivity_rank Sensitivity.Restricted = 3"

primrec fallback_permission_rank :: "FallbackPermission \<Rightarrow> nat" where
  "fallback_permission_rank FallbackPermission.Denied = 0"
| "fallback_permission_rank FallbackPermission.CompliantOnly = 1"

primrec policy_layer_rank :: "PolicyLayer \<Rightarrow> nat" where
  "policy_layer_rank PolicyLayer.LegalOrAdministrator = 0"
| "policy_layer_rank PolicyLayer.Workspace = 1"
| "policy_layer_rank PolicyLayer.ResourceSensitivity = 2"
| "policy_layer_rank PolicyLayer.TaskRestriction = 3"
| "policy_layer_rank PolicyLayer.UserPreference = 4"
| "policy_layer_rank PolicyLayer.ProviderDefault = 5"

text \<open>The derived orders.\<close>

lemma locality_rank_inject: "locality_rank x = locality_rank y \<Longrightarrow> x = y"
  by (cases x; cases y) simp_all

instantiation Locality :: linorder
begin

definition less_eq_Locality :: "Locality \<Rightarrow> Locality \<Rightarrow> bool" where
  "less_eq_Locality x y \<longleftrightarrow> locality_rank x \<le> locality_rank y"

definition less_Locality :: "Locality \<Rightarrow> Locality \<Rightarrow> bool" where
  "less_Locality x y \<longleftrightarrow> locality_rank x < locality_rank y"

instance
  by standard (auto simp: less_eq_Locality_def less_Locality_def intro: locality_rank_inject)

end

lemma provider_retention_rank_inject: "provider_retention_rank x = provider_retention_rank y \<Longrightarrow> x = y"
  by (cases x; cases y) simp_all

instantiation ProviderRetention :: linorder
begin

definition less_eq_ProviderRetention :: "ProviderRetention \<Rightarrow> ProviderRetention \<Rightarrow> bool" where
  "less_eq_ProviderRetention x y \<longleftrightarrow> provider_retention_rank x \<le> provider_retention_rank y"

definition less_ProviderRetention :: "ProviderRetention \<Rightarrow> ProviderRetention \<Rightarrow> bool" where
  "less_ProviderRetention x y \<longleftrightarrow> provider_retention_rank x < provider_retention_rank y"

instance
  by standard (auto simp: less_eq_ProviderRetention_def less_ProviderRetention_def intro: provider_retention_rank_inject)

end

lemma training_use_rank_inject: "training_use_rank x = training_use_rank y \<Longrightarrow> x = y"
  by (cases x; cases y) simp_all

instantiation TrainingUse :: linorder
begin

definition less_eq_TrainingUse :: "TrainingUse \<Rightarrow> TrainingUse \<Rightarrow> bool" where
  "less_eq_TrainingUse x y \<longleftrightarrow> training_use_rank x \<le> training_use_rank y"

definition less_TrainingUse :: "TrainingUse \<Rightarrow> TrainingUse \<Rightarrow> bool" where
  "less_TrainingUse x y \<longleftrightarrow> training_use_rank x < training_use_rank y"

instance
  by standard (auto simp: less_eq_TrainingUse_def less_TrainingUse_def intro: training_use_rank_inject)

end

lemma telemetry_rank_inject: "telemetry_rank x = telemetry_rank y \<Longrightarrow> x = y"
  by (cases x; cases y) simp_all

instantiation Telemetry :: linorder
begin

definition less_eq_Telemetry :: "Telemetry \<Rightarrow> Telemetry \<Rightarrow> bool" where
  "less_eq_Telemetry x y \<longleftrightarrow> telemetry_rank x \<le> telemetry_rank y"

definition less_Telemetry :: "Telemetry \<Rightarrow> Telemetry \<Rightarrow> bool" where
  "less_Telemetry x y \<longleftrightarrow> telemetry_rank x < telemetry_rank y"

instance
  by standard (auto simp: less_eq_Telemetry_def less_Telemetry_def intro: telemetry_rank_inject)

end

lemma sensitivity_rank_inject: "sensitivity_rank x = sensitivity_rank y \<Longrightarrow> x = y"
  by (cases x; cases y) simp_all

instantiation Sensitivity :: linorder
begin

definition less_eq_Sensitivity :: "Sensitivity \<Rightarrow> Sensitivity \<Rightarrow> bool" where
  "less_eq_Sensitivity x y \<longleftrightarrow> sensitivity_rank x \<le> sensitivity_rank y"

definition less_Sensitivity :: "Sensitivity \<Rightarrow> Sensitivity \<Rightarrow> bool" where
  "less_Sensitivity x y \<longleftrightarrow> sensitivity_rank x < sensitivity_rank y"

instance
  by standard (auto simp: less_eq_Sensitivity_def less_Sensitivity_def intro: sensitivity_rank_inject)

end

lemma fallback_permission_rank_inject: "fallback_permission_rank x = fallback_permission_rank y \<Longrightarrow> x = y"
  by (cases x; cases y) simp_all

instantiation FallbackPermission :: linorder
begin

definition less_eq_FallbackPermission :: "FallbackPermission \<Rightarrow> FallbackPermission \<Rightarrow> bool" where
  "less_eq_FallbackPermission x y \<longleftrightarrow> fallback_permission_rank x \<le> fallback_permission_rank y"

definition less_FallbackPermission :: "FallbackPermission \<Rightarrow> FallbackPermission \<Rightarrow> bool" where
  "less_FallbackPermission x y \<longleftrightarrow> fallback_permission_rank x < fallback_permission_rank y"

instance
  by standard (auto simp: less_eq_FallbackPermission_def less_FallbackPermission_def intro: fallback_permission_rank_inject)

end

lemma policy_layer_rank_inject: "policy_layer_rank x = policy_layer_rank y \<Longrightarrow> x = y"
  by (cases x; cases y) simp_all

instantiation PolicyLayer :: linorder
begin

definition less_eq_PolicyLayer :: "PolicyLayer \<Rightarrow> PolicyLayer \<Rightarrow> bool" where
  "less_eq_PolicyLayer x y \<longleftrightarrow> policy_layer_rank x \<le> policy_layer_rank y"

definition less_PolicyLayer :: "PolicyLayer \<Rightarrow> PolicyLayer \<Rightarrow> bool" where
  "less_PolicyLayer x y \<longleftrightarrow> policy_layer_rank x < policy_layer_rank y"

instance
  by standard (auto simp: less_eq_PolicyLayer_def less_PolicyLayer_def intro: policy_layer_rank_inject)

end

lemmas enum_orders =
  less_eq_Locality_def less_Locality_def
  less_eq_ProviderRetention_def less_ProviderRetention_def
  less_eq_TrainingUse_def less_TrainingUse_def
  less_eq_Telemetry_def less_Telemetry_def
  less_eq_Sensitivity_def less_Sensitivity_def
  less_eq_FallbackPermission_def less_FallbackPermission_def
  less_eq_PolicyLayer_def less_PolicyLayer_def

primrec sensitivity_as_str :: "Sensitivity \<Rightarrow> string" where
  "sensitivity_as_str Sensitivity.Public = ''public''"
| "sensitivity_as_str Sensitivity.Internal = ''internal''"
| "sensitivity_as_str Sensitivity.Confidential = ''confidential''"
| "sensitivity_as_str Sensitivity.Restricted = ''restricted''"

section \<open>Rule sets and the stricter of two\<close>

record PolicyRules =
  pr_locality :: Locality
  pr_allowed_providers :: "string set"
  pr_allowed_models :: "string set"
  pr_maximum_provider_retention :: ProviderRetention
  pr_provider_training_use :: TrainingUse
  pr_telemetry :: Telemetry
  pr_allowed_residency_regions :: "string set"
  pr_maximum_sensitivity :: Sensitivity
  pr_allow_fallback :: FallbackPermission

definition permissive :: PolicyRules where
  "permissive =
     \<lparr>pr_locality = Locality.ApprovedCloudAllowed, pr_allowed_providers = {},
      pr_allowed_models = {},
      pr_maximum_provider_retention = ProviderRetention.ProviderDefaultAllowed,
      pr_provider_training_use = TrainingUse.ProviderDefaultAllowed,
      pr_telemetry = Telemetry.LocalOnly, pr_allowed_residency_regions = {},
      pr_maximum_sensitivity = Sensitivity.Restricted,
      pr_allow_fallback = FallbackPermission.CompliantOnly\<rparr>"

definition intersect :: "string set \<Rightarrow> string set \<Rightarrow> DomainError + string set" where
  "intersect accumulated stricter =
     (if accumulated = {} then Ok stricter
      else if stricter = {} then Ok accumulated
      else if accumulated \<inter> stricter = {} then Err InvalidPolicyLayer
      else Ok (accumulated \<inter> stricter))"

definition merge_stricter :: "PolicyRules \<Rightarrow> PolicyRules \<Rightarrow> DomainError + PolicyRules" where
  "merge_stricter self stricter =
     and_then (intersect (pr_allowed_providers self) (pr_allowed_providers stricter)) (\<lambda>ps.
     and_then (intersect (pr_allowed_models self) (pr_allowed_models stricter)) (\<lambda>ms.
     and_then (intersect (pr_allowed_residency_regions self) (pr_allowed_residency_regions stricter)) (\<lambda>rs.
     Ok \<lparr>pr_locality = min (pr_locality self) (pr_locality stricter),
         pr_allowed_providers = ps,
         pr_allowed_models = ms,
         pr_maximum_provider_retention =
           min (pr_maximum_provider_retention self) (pr_maximum_provider_retention stricter),
         pr_provider_training_use =
           min (pr_provider_training_use self) (pr_provider_training_use stricter),
         pr_telemetry = min (pr_telemetry self) (pr_telemetry stricter),
         pr_allowed_residency_regions = rs,
         pr_maximum_sensitivity =
           min (pr_maximum_sensitivity self) (pr_maximum_sensitivity stricter),
         pr_allow_fallback = min (pr_allow_fallback self) (pr_allow_fallback stricter)\<rparr>)))"

section \<open>Layers\<close>

definition policy_layer_ordered :: "PolicyLayer list" where
  "policy_layer_ordered =
     [PolicyLayer.LegalOrAdministrator, PolicyLayer.Workspace, PolicyLayer.ResourceSensitivity,
      PolicyLayer.TaskRestriction, PolicyLayer.UserPreference, PolicyLayer.ProviderDefault]"

primrec policy_layer_as_contract_str :: "PolicyLayer \<Rightarrow> string" where
  "policy_layer_as_contract_str PolicyLayer.LegalOrAdministrator = ''legal-or-administrator''"
| "policy_layer_as_contract_str PolicyLayer.Workspace = ''workspace''"
| "policy_layer_as_contract_str PolicyLayer.ResourceSensitivity = ''resource-sensitivity''"
| "policy_layer_as_contract_str PolicyLayer.TaskRestriction = ''task-restriction''"
| "policy_layer_as_contract_str PolicyLayer.UserPreference = ''user-preference''"
| "policy_layer_as_contract_str PolicyLayer.ProviderDefault = ''provider-default''"

definition policy_layer_parse :: "string \<Rightarrow> PolicyLayer option" where
  "policy_layer_parse value =
     find (\<lambda>layer. policy_layer_as_contract_str layer = value) policy_layer_ordered"

datatype ModelDataPolicyStatus = Active | Archived

primrec policy_status_as_str :: "ModelDataPolicyStatus \<Rightarrow> string" where
  "policy_status_as_str ModelDataPolicyStatus.Active = ''active''"
| "policy_status_as_str ModelDataPolicyStatus.Archived = ''archived''"

definition policy_status_from_stored :: "string \<Rightarrow> ModelDataPolicyStatus option" where
  "policy_status_from_stored value =
     (if value = ''active'' then Some ModelDataPolicyStatus.Active
      else if value = ''archived'' then Some ModelDataPolicyStatus.Archived
      else None)"

type_synonym ModelDataPolicyId = uuid

record PolicyVersionRef =
  pv_policy_id :: ModelDataPolicyId
  pv_version :: u32

record PolicyLayerContribution =
  pc_layer :: PolicyLayer
  pc_rules :: PolicyRules
  pc_policy_version :: "PolicyVersionRef option"

record ResolvedPolicy =
  rp_rules :: PolicyRules
  rp_layers :: "PolicyLayerContribution list"

text \<open>The loop of \<open>ResolvedPolicy::merge\<close> over the contributions, left to right.\<close>

fun merge_layers :: "PolicyRules \<Rightarrow> PolicyLayerContribution list \<Rightarrow> DomainError + PolicyRules" where
  "merge_layers rules [] = Ok rules"
| "merge_layers rules (c # cs) =
     and_then (merge_stricter rules (pc_rules c)) (\<lambda>next. merge_layers next cs)"

definition resolved_policy_merge :: "PolicyLayerContribution list \<Rightarrow> DomainError + ResolvedPolicy" where
  "resolved_policy_merge layers =
     (let ordered = sort_key pc_layer layers in
      and_then (merge_layers permissive ordered) (\<lambda>rules.
        Ok \<lparr>rp_rules = rules, rp_layers = ordered\<rparr>))"

fun narrowing_from :: "PolicyRules \<Rightarrow> PolicyLayerContribution list \<Rightarrow> PolicyLayer list" where
  "narrowing_from accumulated [] = []"
| "narrowing_from accumulated (c # cs) =
     (case merge_stricter accumulated (pc_rules c) of
        Err _ \<Rightarrow> narrowing_from accumulated cs
      | Ok next \<Rightarrow>
          (if next \<noteq> accumulated then pc_layer c # narrowing_from next cs
           else narrowing_from next cs))"

definition narrowing_layers :: "ResolvedPolicy \<Rightarrow> PolicyLayer list" where
  "narrowing_layers self = narrowing_from permissive (rp_layers self)"

section \<open>What a decision records\<close>

record RequestedDataPolicy =
  rd_locality :: Locality
  rd_maximum_provider_retention :: ProviderRetention
  rd_provider_training_use :: TrainingUse
  rd_telemetry :: Telemetry
  rd_allowed_residency_regions :: "string set"
  rd_sensitivity :: Sensitivity

definition requested_data_policy_from :: "PolicyRules \<Rightarrow> RequestedDataPolicy" where
  "requested_data_policy_from rules =
     \<lparr>rd_locality = pr_locality rules,
      rd_maximum_provider_retention = pr_maximum_provider_retention rules,
      rd_provider_training_use = pr_provider_training_use rules,
      rd_telemetry = pr_telemetry rules,
      rd_allowed_residency_regions = pr_allowed_residency_regions rules,
      rd_sensitivity = pr_maximum_sensitivity rules\<rparr>"

datatype EffectiveResidency = LocalDevice | Region
datatype EffectiveRetention = NotApplicableLocal | BoundedDocumented | NoneDocumented | ProviderDefault
datatype EffectiveTrainingUse = NotApplicableLocal | DisallowedDocumented | AccountPolicy

record EffectiveDataPolicy =
  ed_model :: ModelRef
  ed_endpoint_class :: EndpointClass
  ed_retention :: EffectiveRetention
  ed_training_use :: EffectiveTrainingUse
  ed_telemetry :: Telemetry
  ed_residency :: EffectiveResidency

definition is_self_consistent :: "EffectiveDataPolicy \<Rightarrow> bool" where
  "is_self_consistent self =
     (case ed_endpoint_class self of
        EndpointClass.Local \<Rightarrow>
          ed_retention self = EffectiveRetention.NotApplicableLocal \<and>
          ed_training_use self = EffectiveTrainingUse.NotApplicableLocal \<and>
          ed_residency self = EffectiveResidency.LocalDevice
      | _ \<Rightarrow>
          ed_retention self \<noteq> EffectiveRetention.NotApplicableLocal \<and>
          ed_training_use self \<noteq> EffectiveTrainingUse.NotApplicableLocal)"

datatype RejectionReason =
    ProviderNotAllowed | ModelNotAllowed | LocalityViolated | RetentionUnsatisfied
  | TrainingUseUnsatisfied | ResidencyUnsatisfied | CapabilityUnattested | EvidenceStale
  | EvidenceMissing | SensitivityExceedsPolicy

record RejectedCandidate =
  rc_model :: ModelRef
  rc_reason :: RejectionReason

record ModelRouteDecision =
  md_policy :: PolicyVersionRef
  md_requested :: RequestedDataPolicy
  md_effective :: EffectiveDataPolicy
  md_evidence_refs :: "string list"
  md_rejected_candidates :: "RejectedCandidate list"
  md_exception_ref :: "string option"
  md_decided_at :: instant

definition relied_on_exception :: "ModelRouteDecision \<Rightarrow> bool" where
  "relied_on_exception d \<longleftrightarrow> md_exception_ref d \<noteq> None"

section \<open>The meaning of a rule set\<close>

text \<open>
  What a rule set is for: a call with these traits may go ahead, or not. An empty allow list
  leaves its dimension open. \<open>rules_admit\<close> is the specification the merge refines.
\<close>

record CallTraits =
  ct_locality :: Locality
  ct_provider :: string
  ct_model :: string
  ct_retention :: ProviderRetention
  ct_training :: TrainingUse
  ct_telemetry :: Telemetry
  ct_region :: string
  ct_sensitivity :: Sensitivity
  ct_fallback :: FallbackPermission

definition open_or_in :: "string set \<Rightarrow> string \<Rightarrow> bool" where
  "open_or_in allowed x \<longleftrightarrow> allowed = {} \<or> x \<in> allowed"

definition rules_admit :: "PolicyRules \<Rightarrow> CallTraits \<Rightarrow> bool" where
  "rules_admit r c \<longleftrightarrow>
     ct_locality c \<le> pr_locality r \<and> open_or_in (pr_allowed_providers r) (ct_provider c) \<and>
     open_or_in (pr_allowed_models r) (ct_model c) \<and>
     ct_retention c \<le> pr_maximum_provider_retention r \<and>
     ct_training c \<le> pr_provider_training_use r \<and> ct_telemetry c \<le> pr_telemetry r \<and>
     open_or_in (pr_allowed_residency_regions r) (ct_region c) \<and>
     ct_sensitivity c \<le> pr_maximum_sensitivity r \<and> ct_fallback c \<le> pr_allow_fallback r"

lemma intersect_Ok:
  "intersect a b = Ok c \<Longrightarrow> open_or_in c x \<longleftrightarrow> open_or_in a x \<and> open_or_in b x"
  by (auto simp: intersect_def open_or_in_def split: if_splits)

lemma intersect_Err: "intersect a b = Err e \<Longrightarrow> \<not> (open_or_in a x \<and> open_or_in b x)"
  by (auto simp: intersect_def open_or_in_def split: if_splits)

lemma intersect_Err_code: "intersect a b = Err e \<Longrightarrow> e = InvalidPolicyLayer"
  by (auto simp: intersect_def split: if_splits)

lemma merge_stricter_Ok:
  assumes "merge_stricter a b = Ok c"
  shows "rules_admit c x \<longleftrightarrow> rules_admit a x \<and> rules_admit b x"
proof -
  from assms obtain ps ms rs where
    "intersect (pr_allowed_providers a) (pr_allowed_providers b) = Ok ps"
    "intersect (pr_allowed_models a) (pr_allowed_models b) = Ok ms"
    "intersect (pr_allowed_residency_regions a) (pr_allowed_residency_regions b) = Ok rs"
    by (auto simp: merge_stricter_def and_then_Ok_iff)
  note i = this
  show ?thesis
    using assms intersect_Ok [OF i(1)] intersect_Ok [OF i(2)] intersect_Ok [OF i(3)]
    by (auto simp: merge_stricter_def i rules_admit_def)
qed

lemma merge_stricter_Err:
  assumes "merge_stricter a b = Err e"
  shows "\<not> (rules_admit a x \<and> rules_admit b x)" and "e = InvalidPolicyLayer"
proof -
  consider
      "intersect (pr_allowed_providers a) (pr_allowed_providers b) = Err e"
    | "intersect (pr_allowed_models a) (pr_allowed_models b) = Err e"
    | "intersect (pr_allowed_residency_regions a) (pr_allowed_residency_regions b) = Err e"
    using assms
    by (cases "intersect (pr_allowed_providers a) (pr_allowed_providers b)";
        cases "intersect (pr_allowed_models a) (pr_allowed_models b)";
        cases "intersect (pr_allowed_residency_regions a) (pr_allowed_residency_regions b)")
      (auto simp: merge_stricter_def)
  note which = this
  from which show "\<not> (rules_admit a x \<and> rules_admit b x)"
    by cases (auto simp: rules_admit_def dest: intersect_Err)
  from which show "e = InvalidPolicyLayer"
    by cases (auto dest: intersect_Err_code)
qed

lemma rules_admit_inhabited: "\<exists>x. rules_admit r x"
proof -
  define pick where "pick s = (if s = {} then [] else SOME x. x \<in> s)" for s :: "string set"
  have p: "open_or_in s (pick s)" for s
    by (auto simp: open_or_in_def pick_def some_in_eq)
  have "rules_admit r \<lparr>ct_locality = pr_locality r, ct_provider = pick (pr_allowed_providers r),
      ct_model = pick (pr_allowed_models r), ct_retention = pr_maximum_provider_retention r,
      ct_training = pr_provider_training_use r, ct_telemetry = pr_telemetry r,
      ct_region = pick (pr_allowed_residency_regions r),
      ct_sensitivity = pr_maximum_sensitivity r, ct_fallback = pr_allow_fallback r\<rparr>"
    by (simp add: rules_admit_def p)
  then show ?thesis by blast
qed

lemma merge_layers_admit:
  "merge_layers r cs = Ok r' \<Longrightarrow>
     rules_admit r' x \<longleftrightarrow> rules_admit r x \<and> (\<forall>c \<in> set cs. rules_admit (pc_rules c) x)"
proof (induction cs arbitrary: r)
  case Nil
  then show ?case by simp
next
  case (Cons c cs)
  then obtain r1 where "merge_stricter r (pc_rules c) = Ok r1" "merge_layers r1 cs = Ok r'"
    by (auto simp: and_then_Ok_iff)
  with Cons.IH [of r1] merge_stricter_Ok [of r "pc_rules c" r1 x] show ?case by simp
qed

lemma merge_layers_Err:
  "merge_layers r cs = Err e \<Longrightarrow>
     \<not> (rules_admit r x \<and> (\<forall>c \<in> set cs. rules_admit (pc_rules c) x)) \<and> e = InvalidPolicyLayer"
proof (induction cs arbitrary: r)
  case Nil
  then show ?case by simp
next
  case (Cons c cs)
  then show ?case
    using merge_stricter_Ok [of r "pc_rules c" _ x] merge_stricter_Err(1) [of r "pc_rules c" _ x]
      merge_stricter_Err(2) [of r "pc_rules c"]
    by (cases "merge_stricter r (pc_rules c)") auto
qed

lemma enum_tops [simp]:
  "l \<le> Locality.ApprovedCloudAllowed" "t \<le> Telemetry.LocalOnly"
  "r \<le> ProviderRetention.ProviderDefaultAllowed" "u \<le> TrainingUse.ProviderDefaultAllowed"
  "s \<le> Sensitivity.Restricted" "f \<le> FallbackPermission.CompliantOnly"
       apply (cases l; simp add: enum_orders)
      apply (cases t; simp add: enum_orders)
     apply (cases r; simp add: enum_orders)
    apply (cases u; simp add: enum_orders)
   apply (cases s; simp add: enum_orders)
  apply (cases f; simp add: enum_orders)
  done

lemma permissive_admits [simp]: "rules_admit permissive x"
  by (simp add: rules_admit_def permissive_def open_or_in_def)

interpretation policy_layer_spelling: spelling policy_layer_ordered policy_layer_as_contract_str
  policy_layer_parse
proof
  show "x \<in> set policy_layer_ordered" for x
    by (cases x) (simp_all add: policy_layer_ordered_def)
qed (simp_all add: policy_layer_ordered_def policy_layer_parse_def)

section \<open>Properties\<close>

text \<open>C16: Merging the layers of a policy never widens and never narrows too much: the merged
  rules admit exactly the calls every layer admits, and the merge is refused, with
  \<open>InvalidPolicyLayer\<close>, exactly when no call at all satisfies every layer.\<close>

theorem resolved_policy_is_the_conjunction:
  "case resolved_policy_merge layers of
     Ok p \<Rightarrow> (\<forall>x. rules_admit (rp_rules p) x \<longleftrightarrow> list_all (\<lambda>c. rules_admit (pc_rules c) x) layers) \<and>
       (\<exists>x. list_all (\<lambda>c. rules_admit (pc_rules c) x) layers)
   | Err e \<Rightarrow> e = InvalidPolicyLayer \<and> (\<nexists>x. list_all (\<lambda>c. rules_admit (pc_rules c) x) layers)"
proof (cases "merge_layers permissive (sort_key pc_layer layers)")
  case (Inl e)
  with merge_layers_Err [OF this] show ?thesis
    by (auto simp: resolved_policy_merge_def Let_def list_all_iff)
next
  case (Inr r)
  with merge_layers_admit [OF this] rules_admit_inhabited [of r] show ?thesis
    by (auto simp: resolved_policy_merge_def Let_def list_all_iff)
qed

text \<open>A merge keeps every contribution, ordered by layer from the legal one down, and
  contributions of the same layer keep the order they were given in.\<close>

theorem resolved_policy_layers_kept:
  assumes "resolved_policy_merge layers = Ok p"
  shows "mset (rp_layers p) = mset layers \<and> sorted (map pc_layer (rp_layers p)) \<and>
    filter (\<lambda>c. pc_layer c = k) (rp_layers p) = filter (\<lambda>c. pc_layer c = k) layers"
proof -
  from assms have "rp_layers p = sort_key pc_layer layers"
    by (auto simp: resolved_policy_merge_def Let_def and_then_Ok_iff)
  moreover have "filter (\<lambda>c. pc_layer c = k) (sort_key pc_layer layers) =
      filter (\<lambda>c. pc_layer c = k) layers"
    using sort_key_stable [of pc_layer k layers] by (simp add: eq_commute)
  ultimately show ?thesis by simp
qed

definition local_only_layer :: PolicyLayerContribution where
  "local_only_layer =
     \<lparr>pc_layer = PolicyLayer.Workspace, pc_rules = permissive\<lparr>pr_locality := Locality.LocalOnly\<rparr>,
      pc_policy_version = None\<rparr>"

theorem resolved_policy_layers_kept_witness:
  "mset (rp_layers (projr (resolved_policy_merge [local_only_layer]))) = {#local_only_layer#}"
  using resolved_policy_layers_kept
    [of "[local_only_layer]" "projr (resolved_policy_merge [local_only_layer])"]
  by (simp add: resolved_policy_merge_def Let_def local_only_layer_def merge_stricter_def
      permissive_def intersect_def)

end
