(* ===== verification/Model_Usage.thy ===== *)
theory Model_Usage
  imports Model_Policy
begin

text \<open>
  The consumption types of \<open>model/stream.rs\<close>: the budget one call is given (\<open>CallLimits\<close>), what
  a provider reports (\<open>Usage\<close>), and how the reports of a run's calls fold into one.
\<close>

record CallLimits =
  cl_deadline :: "instant option"
  cl_max_output_tokens :: "u64 option"
  cl_max_cost_microunits :: "u64 option"

record Usage =
  us_input_tokens :: "u64 option"
  us_output_tokens :: "u64 option"
  us_cached_input_tokens :: "u64 option"
  us_reasoning_tokens :: "u64 option"
  us_provider_reported :: bool
  us_estimated_cost_microunits :: "u64 option"
  us_currency :: "string option"

definition has_any_counter :: "Usage \<Rightarrow> bool" where
  "has_any_counter u \<longleftrightarrow>
     us_input_tokens u \<noteq> None \<or> us_output_tokens u \<noteq> None \<or>
     us_cached_input_tokens u \<noteq> None \<or> us_reasoning_tokens u \<noteq> None"

text \<open>The local function \<open>add\<close> of \<open>folding\<close>.\<close>

fun add_counters :: "u64 option \<Rightarrow> u64 option \<Rightarrow> u64 option" where
  "add_counters (Some a) (Some b) = Some (saturating_add a b)"
| "add_counters (Some a) None = Some a"
| "add_counters None (Some a) = Some a"
| "add_counters None None = None"

definition folding :: "Usage \<Rightarrow> Usage \<Rightarrow> Usage" where
  "folding self other =
     \<lparr>us_input_tokens = add_counters (us_input_tokens self) (us_input_tokens other),
      us_output_tokens = add_counters (us_output_tokens self) (us_output_tokens other),
      us_cached_input_tokens =
        add_counters (us_cached_input_tokens self) (us_cached_input_tokens other),
      us_reasoning_tokens = add_counters (us_reasoning_tokens self) (us_reasoning_tokens other),
      us_provider_reported = (us_provider_reported self \<and> us_provider_reported other),
      us_estimated_cost_microunits =
        add_counters (us_estimated_cost_microunits self) (us_estimated_cost_microunits other),
      us_currency =
        (case us_currency self of Some c \<Rightarrow> Some c | None \<Rightarrow> us_currency other)\<rparr>"

definition summed :: "Usage list \<Rightarrow> Usage option" where
  "summed calls = (case calls of [] \<Rightarrow> None | first # rest \<Rightarrow> Some (foldl folding first rest))"

section \<open>The fold is a saturating sum of what was measured\<close>

text \<open>The specification of one counter over a run: silent when every call was silent, else the
  exact sum of the reported values, capped at \<open>u64::MAX\<close>.\<close>

definition counter_total :: "u64 option list \<Rightarrow> nat option" where
  "counter_total cs =
     (if list_all (\<lambda>c. c = None) cs then None
      else Some (min (sum_list (map (\<lambda>c. case c of None \<Rightarrow> 0 | Some a \<Rightarrow> unat a) cs)) (2 ^ 64 - 1)))"

lemma counter_total_add:
  "counter_total (add_counters a b # cs) = counter_total (a # b # cs)"
proof (cases a; cases b)
  fix x y
  assume [simp]: "a = Some x" "b = Some y"
  show ?thesis
    by (auto simp: counter_total_def unat_saturating_add)
qed (auto simp: counter_total_def)

lemma counter_total_single: "counter_total [c] = map_option unat c"
proof (cases c)
  case None
  then show ?thesis by (simp add: counter_total_def)
next
  case (Some x)
  have "unat x < 2 ^ 64" using unsigned_less [of x] by simp
  with Some show ?thesis by (simp add: counter_total_def)
qed

lemma counter_total_fold:
  assumes "\<And>u v. get (folding u v) = add_counters (get u) (get v)"
  shows "map_option unat (get (foldl folding u us)) = counter_total (get u # map get us)"
proof (induction us arbitrary: u)
  case Nil
  show ?case by (simp add: counter_total_single)
next
  case (Cons v us)
  then show ?case by (simp add: assms counter_total_add)
qed

lemma fold_reported:
  "us_provider_reported (foldl folding u us) \<longleftrightarrow>
     us_provider_reported u \<and> list_all us_provider_reported us"
  by (induction us arbitrary: u) (auto simp: folding_def)

text \<open>The summed usage of a run reports each counter exactly as its calls did: unreported
  only when no call reported it, else the sum of the reported values saturated at \<open>u64::MAX\<close>;
  and it counts as provider-reported only when every call was.\<close>

theorem summed_usage_is_the_saturating_sum:
  "case summed calls of
     None \<Rightarrow> calls = []
   | Some t \<Rightarrow> calls \<noteq> [] \<and>
       map_option unat (us_input_tokens t) = counter_total (map us_input_tokens calls) \<and>
       map_option unat (us_output_tokens t) = counter_total (map us_output_tokens calls) \<and>
       map_option unat (us_cached_input_tokens t) =
         counter_total (map us_cached_input_tokens calls) \<and>
       map_option unat (us_reasoning_tokens t) =
         counter_total (map us_reasoning_tokens calls) \<and>
       map_option unat (us_estimated_cost_microunits t) =
         counter_total (map us_estimated_cost_microunits calls) \<and>
       us_provider_reported t = list_all us_provider_reported calls"
proof (cases calls)
  case Nil
  then show ?thesis by (simp add: summed_def)
next
  case (Cons u us)
  then show ?thesis
    by (simp add: summed_def fold_reported counter_total_fold folding_def)
qed

end
