(* ===== verification/Run_Budget.thy ===== *)
theory Run_Budget
  imports Model_Usage
begin

text \<open>
  \<open>run/budget.rs\<close> and \<open>run/retry.rs\<close>: the limits a run executes under, whether a deadline still
  permits a step, whether a reported usage breaches a ceiling, and whether a failed attempt is
  tried again.

  The time library is not part of the repository, so its three operations are arguments:
  \<open>ds deadline now\<close> is \<open>duration_since\<close> (a signed duration in nanoseconds), \<open>ms\<close> its reading
  \<open>as_millis\<close>, and \<open>add\<close> is \<open>checked_add\<close> of a number of milliseconds. \<open>clock_laws\<close> states what
  the library documents of the first two: the difference is exact and \<open>as_millis\<close> truncates.
\<close>

section \<open>Retry policies\<close>

record RetryPolicy =
  rp_max_attempts :: u32
  rp_base_backoff_ms :: u64
  rp_max_backoff_ms :: u64

definition MAX_ATTEMPTS :: u32 where "MAX_ATTEMPTS = 5"
definition MAX_BACKOFF_MS :: u64 where "MAX_BACKOFF_MS = 60000"
definition DEFAULT_MAX_ATTEMPTS :: u32 where "DEFAULT_MAX_ATTEMPTS = 3"
definition DEFAULT_BASE_BACKOFF_MS :: u64 where "DEFAULT_BASE_BACKOFF_MS = 250"
definition DEFAULT_MAX_BACKOFF_MS :: u64 where "DEFAULT_MAX_BACKOFF_MS = 2000"

datatype RetryError = AttemptsOutOfRange | BackoffOutOfRange

primrec retry_error_code :: "RetryError \<Rightarrow> string" where
  "retry_error_code AttemptsOutOfRange = ''run.retry_attempts_out_of_range''"
| "retry_error_code BackoffOutOfRange = ''run.retry_backoff_out_of_range''"

definition retry_policy_none :: RetryPolicy where
  "retry_policy_none = \<lparr>rp_max_attempts = 1, rp_base_backoff_ms = 0, rp_max_backoff_ms = 0\<rparr>"

definition retry_default_for_run :: RetryPolicy where
  "retry_default_for_run =
     \<lparr>rp_max_attempts = DEFAULT_MAX_ATTEMPTS, rp_base_backoff_ms = DEFAULT_BASE_BACKOFF_MS,
      rp_max_backoff_ms = DEFAULT_MAX_BACKOFF_MS\<rparr>"

definition retry_policy_new :: "u32 \<Rightarrow> u64 \<Rightarrow> u64 \<Rightarrow> RetryError + RetryPolicy" where
  "retry_policy_new max_attempts base_backoff_ms max_backoff_ms =
     (if max_attempts = 0 \<or> max_attempts > MAX_ATTEMPTS then Err AttemptsOutOfRange
      else if base_backoff_ms > max_backoff_ms \<or> max_backoff_ms > MAX_BACKOFF_MS
        then Err BackoffOutOfRange
      else Ok \<lparr>rp_max_attempts = max_attempts, rp_base_backoff_ms = base_backoff_ms,
               rp_max_backoff_ms = max_backoff_ms\<rparr>)"

definition permits_attempt :: "RetryPolicy \<Rightarrow> u32 \<Rightarrow> bool" where
  "permits_attempt self next_attempt \<longleftrightarrow> next_attempt \<le> rp_max_attempts self"

definition backoff_ms :: "RetryPolicy \<Rightarrow> u32 \<Rightarrow> u64" where
  "backoff_ms self attempt =
     (if attempt \<le> 1 then 0
      else
        (let exponent = saturating_sub attempt 2;
             doublings = (if exponent > 31 then 31 else exponent);
             scaled = saturating_mul (rp_base_backoff_ms self) (push_bit (unat doublings) 1)
         in if scaled > rp_max_backoff_ms self then rp_max_backoff_ms self else scaled))"

section \<open>Budgets\<close>

definition MAX_STEP_TIMEOUT_MS :: u64 where "MAX_STEP_TIMEOUT_MS = 3600000"
definition DEFAULT_RUN_DEADLINE_MS :: u64 where "DEFAULT_RUN_DEADLINE_MS = 900000"
definition DEFAULT_MAX_OUTPUT_TOKENS :: u64 where "DEFAULT_MAX_OUTPUT_TOKENS = 4096"
definition DEFAULT_STEP_TIMEOUT_MS :: u64 where "DEFAULT_STEP_TIMEOUT_MS = 120000"
definition MAX_CONTEXT_BUDGET_TOKENS :: u64 where "MAX_CONTEXT_BUDGET_TOKENS = 10000000"

type_synonym ModelRouteDecisionId = uuid

record RunRoute =
  ro_model :: ModelRef
  ro_decision :: ModelRouteDecisionId
  ro_exception_ref :: "string option"

record RunBudget =
  rb_deadline :: "instant option"
  rb_step_timeout_ms :: "u64 option"
  rb_max_output_tokens :: "u64 option"
  rb_max_context_tokens :: "u64 option"
  rb_max_cost_microunits :: "u64 option"
  rb_started_at :: "instant option"
  rb_policy :: "PolicyVersionRef option"
  rb_max_context_sensitivity :: "Sensitivity option"
  rb_retry :: RetryPolicy
  rb_route :: "RunRoute option"

datatype BudgetStatus = Unbounded | Remaining instant u64 | Expired instant
datatype BudgetLimit = OutputTokens | Cost
datatype BudgetError = StepTimeoutOutOfRange | ContextTokensOutOfRange | Malformed

primrec budget_limit_code :: "BudgetLimit \<Rightarrow> string" where
  "budget_limit_code OutputTokens = ''run.budget_output_tokens_exceeded''"
| "budget_limit_code Cost = ''run.budget_cost_exceeded''"

primrec budget_error_code :: "BudgetError \<Rightarrow> string" where
  "budget_error_code StepTimeoutOutOfRange = ''run.budget_step_timeout_out_of_range''"
| "budget_error_code ContextTokensOutOfRange = ''run.budget_context_tokens_out_of_range''"
| "budget_error_code Malformed = ''run.budget_malformed''"

definition is_permitted :: "BudgetStatus \<Rightarrow> bool" where
  "is_permitted s = (case s of Expired _ \<Rightarrow> False | _ \<Rightarrow> True)"

definition run_budget_default :: RunBudget where
  "run_budget_default =
     \<lparr>rb_deadline = None, rb_step_timeout_ms = None, rb_max_output_tokens = None,
      rb_max_context_tokens = None, rb_max_cost_microunits = None, rb_started_at = None,
      rb_policy = None, rb_max_context_sensitivity = None, rb_retry = retry_policy_none,
      rb_route = None\<rparr>"

definition budget_with_deadline :: "instant \<Rightarrow> RunBudget" where
  "budget_with_deadline deadline = run_budget_default\<lparr>rb_deadline := Some deadline\<rparr>"

definition budget_with_policy :: "RunBudget \<Rightarrow> PolicyVersionRef \<Rightarrow> Sensitivity \<Rightarrow> RunBudget" where
  "budget_with_policy self policy ceiling =
     self\<lparr>rb_policy := Some policy, rb_max_context_sensitivity := Some ceiling\<rparr>"

definition budget_with_route :: "RunBudget \<Rightarrow> RunRoute \<Rightarrow> RunBudget" where
  "budget_with_route self route = self\<lparr>rb_route := Some route\<rparr>"

definition routed_model :: "RunBudget \<Rightarrow> ModelRef option" where
  "routed_model self = map_option ro_model (rb_route self)"

definition budget_with_context_tokens :: "RunBudget \<Rightarrow> u64 \<Rightarrow> BudgetError + RunBudget" where
  "budget_with_context_tokens self tokens =
     (if tokens = 0 \<or> tokens > MAX_CONTEXT_BUDGET_TOKENS then Err ContextTokensOutOfRange
      else Ok (self\<lparr>rb_max_context_tokens := Some tokens\<rparr>))"

text \<open>\<open>i64::try_from\<close> cannot fail below the bound the first test enforces; it is kept as written.\<close>

definition budget_expiring_after ::
  "(instant \<Rightarrow> int \<Rightarrow> instant option) \<Rightarrow> instant \<Rightarrow> u64 \<Rightarrow> BudgetError + RunBudget"
where
  "budget_expiring_after add start after_ms =
     (if after_ms = 0 \<or> after_ms > MAX_STEP_TIMEOUT_MS then Err StepTimeoutOutOfRange
      else if uint after_ms \<ge> 2 ^ 63 then Err Malformed
      else (case add start (uint after_ms) of
              None \<Rightarrow> Err Malformed
            | Some deadline \<Rightarrow> Ok (budget_with_deadline deadline)))"

definition budget_with_retry :: "RunBudget \<Rightarrow> RetryPolicy \<Rightarrow> RunBudget" where
  "budget_with_retry self retry = self\<lparr>rb_retry := retry\<rparr>"

definition budget_with_step_timeout :: "RunBudget \<Rightarrow> u64 \<Rightarrow> BudgetError + RunBudget" where
  "budget_with_step_timeout self millis =
     (if millis = 0 \<or> millis > MAX_STEP_TIMEOUT_MS then Err StepTimeoutOutOfRange
      else Ok (self\<lparr>rb_step_timeout_ms := Some millis\<rparr>))"

definition budget_with_default_step_timeout :: "RunBudget \<Rightarrow> RunBudget" where
  "budget_with_default_step_timeout self = self\<lparr>rb_step_timeout_ms := Some DEFAULT_STEP_TIMEOUT_MS\<rparr>"

definition budget_with_default_output_tokens :: "RunBudget \<Rightarrow> RunBudget" where
  "budget_with_default_output_tokens self =
     self\<lparr>rb_max_output_tokens := Some DEFAULT_MAX_OUTPUT_TOKENS\<rparr>"

definition over_cap :: "u64 option \<Rightarrow> u64 option \<Rightarrow> bool" where
  "over_cap cap actual =
     (case (cap, actual) of (Some c, Some a) \<Rightarrow> a > c | _ \<Rightarrow> False)"

definition exceeded_by :: "RunBudget \<Rightarrow> Usage \<Rightarrow> BudgetLimit option" where
  "exceeded_by self usage =
     (if over_cap (rb_max_output_tokens self) (us_output_tokens usage) then Some OutputTokens
      else if over_cap (rb_max_cost_microunits self) (us_estimated_cost_microunits usage)
        then Some Cost
      else None)"

definition budget_is_verifiable :: "RunBudget \<Rightarrow> Usage \<Rightarrow> bool" where
  "budget_is_verifiable self usage \<longleftrightarrow>
     (rb_max_output_tokens self = None \<or> us_output_tokens usage \<noteq> None) \<and>
     (rb_max_cost_microunits self = None \<or> us_estimated_cost_microunits usage \<noteq> None)"

definition has_consumption_ceiling :: "RunBudget \<Rightarrow> bool" where
  "has_consumption_ceiling self \<longleftrightarrow>
     rb_max_output_tokens self \<noteq> None \<or> rb_max_cost_microunits self \<noteq> None"

definition status_at ::
  "(instant \<Rightarrow> instant \<Rightarrow> int) \<Rightarrow> (int \<Rightarrow> int) \<Rightarrow> RunBudget \<Rightarrow> instant \<Rightarrow> BudgetStatus"
where
  "status_at ds ms self now =
     (case rb_deadline self of
        None \<Rightarrow> Unbounded
      | Some deadline \<Rightarrow>
          (let remaining = ds deadline now in
           if remaining < 0 \<or> remaining = 0 then Expired deadline
           else Remaining deadline
             (if 0 \<le> ms remaining \<and> ms remaining < 2 ^ 64 then word_of_int (ms remaining) else - 1)))"

definition permits_step_at ::
  "(instant \<Rightarrow> instant \<Rightarrow> int) \<Rightarrow> (int \<Rightarrow> int) \<Rightarrow> RunBudget \<Rightarrow> instant \<Rightarrow> bool"
where
  "permits_step_at ds ms self now = is_permitted (status_at ds ms self now)"

definition budget_call_limits :: "RunBudget \<Rightarrow> CallLimits" where
  "budget_call_limits self =
     \<lparr>cl_deadline = rb_deadline self, cl_max_output_tokens = rb_max_output_tokens self,
      cl_max_cost_microunits = rb_max_cost_microunits self\<rparr>"

section \<open>Deciding a retry\<close>

datatype FailureClass = Transient | Permanent
datatype FailureSite = BeforeAcceptance | AfterAcceptance

datatype RetryRefusal =
    AmbiguousAfterAcceptance | NotRetryable | AttemptsExhausted | DeadlineExceeded
  | BackoffOutlivesDeadline

datatype RetryDecision = Retry u32 u64 | GiveUp RetryRefusal

primrec retry_refusal_code :: "RetryRefusal \<Rightarrow> string" where
  "retry_refusal_code AmbiguousAfterAcceptance = ''run.retry_ambiguous_request''"
| "retry_refusal_code NotRetryable = ''run.retry_not_retryable''"
| "retry_refusal_code AttemptsExhausted = ''run.retry_attempts_exhausted''"
| "retry_refusal_code DeadlineExceeded = ''run.deadline_exceeded''"
| "retry_refusal_code BackoffOutlivesDeadline = ''run.retry_backoff_outlives_deadline''"

definition is_retry :: "RetryDecision \<Rightarrow> bool" where
  "is_retry d = (case d of Retry _ _ \<Rightarrow> True | GiveUp _ \<Rightarrow> False)"

definition refused_by_budget :: "RetryDecision \<Rightarrow> bool" where
  "refused_by_budget d =
     (case d of
        GiveUp r \<Rightarrow> r = DeadlineExceeded \<or> r = BackoffOutlivesDeadline
      | Retry _ _ \<Rightarrow> False)"

definition retry_decide ::
  "(instant \<Rightarrow> instant \<Rightarrow> int) \<Rightarrow> (int \<Rightarrow> int) \<Rightarrow> RetryPolicy \<Rightarrow> FailureClass \<Rightarrow> FailureSite \<Rightarrow> u32 \<Rightarrow>
   RunBudget \<Rightarrow> instant \<Rightarrow> RetryDecision"
where
  "retry_decide ds ms policy class site completed_attempts budget now =
     (if site = AfterAcceptance then GiveUp AmbiguousAfterAcceptance
      else if class \<noteq> Transient then GiveUp NotRetryable
      else
        (let next_attempt = saturating_add completed_attempts 1 in
         if \<not> permits_attempt policy next_attempt then GiveUp AttemptsExhausted
         else
           (let delay_ms = backoff_ms policy next_attempt in
            if \<not> permits_step_at ds ms budget now then GiveUp DeadlineExceeded
            else
              (case status_at ds ms budget now of
                 Remaining _ millis \<Rightarrow>
                   (if millis \<le> delay_ms then GiveUp BackoffOutlivesDeadline
                    else Retry next_attempt delay_ms)
               | _ \<Rightarrow> Retry next_attempt delay_ms))))"

section \<open>The clock\<close>

definition clock_laws :: "(instant \<Rightarrow> instant \<Rightarrow> int) \<Rightarrow> (int \<Rightarrow> int) \<Rightarrow> bool" where
  "clock_laws ds ms \<longleftrightarrow> (\<forall>a b. ds a b = a - b) \<and> (\<forall>d. 0 \<le> d \<longrightarrow> ms d = d div 1000000)"

lemma clock_lawsD:
  assumes "clock_laws ds ms"
  shows "ds a b = a - b" and "0 \<le> d \<Longrightarrow> ms d = d div 1000000"
  using assms by (auto simp: clock_laws_def)

lemma status_at_cases:
  assumes "clock_laws ds ms"
  shows "status_at ds ms b now =
    (case rb_deadline b of
       None \<Rightarrow> Unbounded
     | Some t \<Rightarrow> if t \<le> now then Expired t
                else Remaining t (word_of_int (min ((t - now) div 1000000) (2 ^ 64 - 1))))"
proof -
  have "(- 1 :: u64) = word_of_int (2 ^ 64 - 1)" by simp
  then show ?thesis
    using clock_lawsD [OF assms]
    by (auto simp: status_at_def Let_def min_def split: option.split)
qed

lemma permits_step_at_iff:
  assumes "clock_laws ds ms"
  shows "permits_step_at ds ms b now \<longleftrightarrow> (case rb_deadline b of None \<Rightarrow> True | Some t \<Rightarrow> now < t)"
  by (auto simp: permits_step_at_def is_permitted_def status_at_cases [OF assms] split: option.split)

lemma status_at_Remaining:
  assumes "clock_laws ds ms" and "status_at ds ms b now = Remaining t m"
  shows "rb_deadline b = Some t" and "now < t" and "now + uint m * 1000000 \<le> t"
proof -
  from assms have t: "rb_deadline b = Some t" "now < t"
    and m: "m = word_of_int (min ((t - now) div 1000000) (2 ^ 64 - 1))"
    by (auto simp: status_at_cases [OF assms(1)] split: option.splits if_splits)
  let ?q = "min ((t - now) div 1000000) (2 ^ 64 - 1)"
  from t have "0 \<le> ?q" "?q < 2 ^ 64" by auto
  then have "uint m = ?q" by (simp add: m unsigned_of_int take_bit_int_eq_self)
  then have "uint m * 1000000 \<le> (t - now) div 1000000 * 1000000" by simp
  also have "\<dots> \<le> t - now" by (simp add: minus_mod_eq_div_mult [symmetric])
  finally show "now + uint m * 1000000 \<le> t" by simp
  show "rb_deadline b = Some t" "now < t" by (fact t)+
qed

section \<open>Backoff\<close>

lemma unat_doubling:
  assumes "k \<le> 31"
  shows "unat (push_bit k 1 :: u64) = 2 ^ k"
proof -
  from assms have "(2 :: nat) ^ k < 2 ^ 64" by (intro power_strict_increasing) auto
  then have "(2 :: nat) ^ k mod 2 ^ 64 = 2 ^ k" by (rule mod_less)
  moreover have "(push_bit k 1 :: u64) = of_nat (2 ^ k)" by (simp add: push_bit_of_1)
  moreover have "unat (of_nat (2 ^ k) :: u64) = 2 ^ k mod 2 ^ LENGTH(64)" by (rule unat_of_nat)
  ultimately show ?thesis by simp
qed

definition doublings_of :: "u32 \<Rightarrow> nat" where
  "doublings_of attempt = min (unat attempt - 2) 31"

lemma capped_scale:
  fixes base cap factor :: u64
  shows "unat (if saturating_mul base factor > cap then cap else saturating_mul base factor) =
    min (unat base * unat factor) (unat cap)"
  using unsigned_less [of cap, where ?'a = nat]
  by (auto simp: word_less_nat_alt unat_saturating_mul)

lemma unat_backoff:
  "unat (backoff_ms p n) =
     (if unat n \<le> 1 then 0
      else min (unat (rp_base_backoff_ms p) * 2 ^ doublings_of n) (unat (rp_max_backoff_ms p)))"
proof -
  define k where "k = (if saturating_sub n 2 > (31 :: u32) then 31 else saturating_sub n 2)"
  have k: "unat k = doublings_of n"
    by (simp add: k_def doublings_of_def word_less_nat_alt unat_saturating_sub)
  have d: "unat (push_bit (unat k) 1 :: u64) = 2 ^ doublings_of n"
    unfolding k by (rule unat_doubling) (simp add: doublings_of_def)
  have n: "n \<le> 1 \<longleftrightarrow> unat n \<le> 1" by (simp add: word_le_nat_alt)
  let ?scaled = "saturating_mul (rp_base_backoff_ms p) (push_bit (unat k) 1)"
  have "backoff_ms p n =
      (if n \<le> 1 then 0 else if ?scaled > rp_max_backoff_ms p then rp_max_backoff_ms p else ?scaled)"
    by (simp only: backoff_ms_def Let_def k_def)
  moreover note capped_scale [where base = "rp_base_backoff_ms p" and cap = "rp_max_backoff_ms p"
      and factor = "push_bit (unat k) 1", unfolded d]
  ultimately show ?thesis by (cases "unat n \<le> 1") (simp_all only: n if_True if_False unat_0)
qed

lemma retry_policy_new_Ok_iff:
  "retry_policy_new a b c = Ok p \<longleftrightarrow>
     p = \<lparr>rp_max_attempts = a, rp_base_backoff_ms = b, rp_max_backoff_ms = c\<rparr> \<and>
     1 \<le> unat a \<and> unat a \<le> 5 \<and> unat b \<le> unat c \<and> unat c \<le> 60000"
proof -
  have z: "a = 0 \<longleftrightarrow> unat a = 0" by (simp add: unat_eq_0)
  show ?thesis
    unfolding retry_policy_new_def MAX_ATTEMPTS_def MAX_BACKOFF_MS_def word_less_nat_alt z
    by auto
qed

section \<open>Properties\<close>

text \<open>A run's deadline is enforced to the instant: a step is permitted exactly when there is
  no deadline or it lies strictly ahead, and the remaining milliseconds a status reports never
  reach past the deadline.\<close>

theorem deadline_is_exact:
  assumes "clock_laws ds ms"
  shows "(permits_step_at ds ms b now \<longleftrightarrow>
            (case rb_deadline b of None \<Rightarrow> True | Some t \<Rightarrow> now < t)) \<and>
    (case status_at ds ms b now of
       Unbounded \<Rightarrow> rb_deadline b = None
     | Remaining t m \<Rightarrow> rb_deadline b = Some t \<and> now < t \<and> now + uint m * 1000000 \<le> t
     | Expired t \<Rightarrow> rb_deadline b = Some t \<and> t \<le> now)"
proof (intro conjI)
  show "permits_step_at ds ms b now \<longleftrightarrow> (case rb_deadline b of None \<Rightarrow> True | Some t \<Rightarrow> now < t)"
    by (rule permits_step_at_iff [OF assms])
  show "case status_at ds ms b now of
       Unbounded \<Rightarrow> rb_deadline b = None
     | Remaining t m \<Rightarrow> rb_deadline b = Some t \<and> now < t \<and> now + uint m * 1000000 \<le> t
     | Expired t \<Rightarrow> rb_deadline b = Some t \<and> t \<le> now"
  proof (cases "status_at ds ms b now")
    case (Remaining t m)
    with status_at_Remaining [OF assms Remaining] show ?thesis by simp
  qed (simp_all add: status_at_cases [OF assms] split: option.splits if_splits)
qed

theorem deadline_is_exact_witness:
  "\<not> permits_step_at (\<lambda>a b. a - b) (\<lambda>d. d div 1000000) (budget_with_deadline 5) 5 \<and>
   permits_step_at (\<lambda>a b. a - b) (\<lambda>d. d div 1000000) (budget_with_deadline 5) 4"
  using deadline_is_exact [of "\<lambda>a b. a - b" "\<lambda>d. d div 1000000" "budget_with_deadline 5" 5]
    deadline_is_exact [of "\<lambda>a b. a - b" "\<lambda>d. d div 1000000" "budget_with_deadline 5" 4]
  by (simp add: clock_laws_def budget_with_deadline_def)

text \<open>The backoff before an attempt is the base doubled once per attempt after the second,
  at most 31 times, and capped at the policy's ceiling, with no wrap-around whatever the base;
  so it never shrinks from one attempt to the next.\<close>

theorem backoff_is_capped_doubling:
  "unat (backoff_ms p n) =
     (if unat n \<le> 1 then 0
      else min (unat (rp_base_backoff_ms p) * 2 ^ min (unat n - 2) 31) (unat (rp_max_backoff_ms p)))
   \<and> (unat n \<le> unat m \<longrightarrow> unat (backoff_ms p n) \<le> unat (backoff_ms p m))"
proof -
  have "unat n \<le> unat m \<Longrightarrow> (2 :: nat) ^ doublings_of n \<le> 2 ^ doublings_of m"
    by (intro power_increasing) (auto simp: doublings_of_def)
  then have "unat n \<le> unat m \<Longrightarrow>
      unat (rp_base_backoff_ms p) * 2 ^ doublings_of n \<le> unat (rp_base_backoff_ms p) * 2 ^ doublings_of m"
    by simp
  then show ?thesis by (auto simp: unat_backoff doublings_of_def [symmetric] min.coboundedI1)
qed

theorem backoff_is_capped_doubling_witness:
  "unat (backoff_ms retry_default_for_run 2) \<le> unat (backoff_ms retry_default_for_run 3)"
  using backoff_is_capped_doubling [of retry_default_for_run 2 3] by simp

lemma zdiv_le_bound: "(n :: int) \<le> k div 1000000 \<longleftrightarrow> n * 1000000 \<le> k"
proof
  assume "n \<le> k div 1000000"
  then have "n * 1000000 \<le> k div 1000000 * 1000000" by simp
  also have "\<dots> \<le> k" by (simp add: minus_mod_eq_div_mult [symmetric])
  finally show "n * 1000000 \<le> k" .
next
  assume "n * 1000000 \<le> k"
  then have "n * 1000000 div 1000000 \<le> k div 1000000" by (rule zdiv_mono1) simp
  then show "n \<le> k div 1000000" by simp
qed

text \<open>What is left of a budget covers a wait exactly when the deadline lies at least a whole millisecond behind its end:
  the time left is counted in whole milliseconds.\<close>

lemma wait_fits:
  assumes "clock_laws ds ms" and "unat delay \<le> 60000"
  shows "(case status_at ds ms b now of Remaining _ m \<Rightarrow> delay < m | Expired _ \<Rightarrow> False | Unbounded \<Rightarrow> True) \<longleftrightarrow>
    (case rb_deadline b of None \<Rightarrow> True | Some t \<Rightarrow> now + (uint delay + 1) * 1000000 \<le> t)"
proof (cases "rb_deadline b")
  case None
  then show ?thesis by (simp add: status_at_cases [OF assms(1)])
next
  case (Some t)
  let ?q = "min ((t - now) div 1000000) (2 ^ 64 - 1)"
  have "int (unat delay) \<le> 60000" using assms(2) by linarith
  then have d: "uint delay \<le> 60000" by simp
  show ?thesis
  proof (cases "t \<le> now")
    case True
    moreover have "0 \<le> uint delay * 1000000" by simp
    ultimately have "\<not> now + (uint delay * 1000000 + 1000000) \<le> t" by linarith
    then have "\<not> now + (uint delay + 1) * 1000000 \<le> t" by (simp add: distrib_right)
    with Some True show ?thesis by (simp add: status_at_cases [OF assms(1)])
  next
    case False
    then have "0 \<le> ?q" "?q < 2 ^ 64" by auto
    then have "uint (word_of_int ?q :: u64) = ?q" by (simp add: unsigned_of_int take_bit_int_eq_self)
    then have "delay < word_of_int ?q \<longleftrightarrow> uint delay + 1 \<le> (t - now) div 1000000" using d by (auto simp: word_less_def min_def add1_zle_eq)
    also have "\<dots> \<longleftrightarrow> (uint delay + 1) * 1000000 \<le> t - now"
      by (rule zdiv_le_bound)
    finally show ?thesis using Some False by (auto simp: status_at_cases [OF assms(1)] algebra_simps)
  qed
qed

text \<open>C18: Under a policy the constructor built, and where the time library subtracts instants and cuts durations to
  milliseconds as it documents, a retry is decided exactly when the failed request was certainly not accepted, its failure
  was transient, the policy has an attempt left, and the wait ends at least a whole millisecond before the deadline, if
  there is one. The attempt it names is then the next one, at most the fifth, and its wait the policy's backoff, at most a
  minute.\<close>

theorem retry_only_when_safe:
  assumes "clock_laws ds ms" and "retry_policy_new a b c = Ok policy"
  shows "(retry_decide ds ms policy cls site completed budget now = Retry attempt delay \<longleftrightarrow>
      site = BeforeAcceptance \<and> cls = Transient \<and> unat attempt = Suc (unat completed) \<and> unat attempt \<le> unat a \<and>
      delay = backoff_ms policy attempt \<and>
      (case rb_deadline budget of None \<Rightarrow> True | Some t \<Rightarrow> now + (uint delay + 1) * 1000000 \<le> t)) \<and>
    (retry_decide ds ms policy cls site completed budget now = Retry attempt delay \<longrightarrow>
      unat attempt \<le> 5 \<and> unat delay \<le> 60000)"
proof -
  from assms(2) have pol: "rp_max_attempts policy = a" "unat a \<le> 5" "unat (rp_max_backoff_ms policy) \<le> 60000"
    by (auto simp: retry_policy_new_Ok_iff)
  have d: "unat (backoff_ms policy n) \<le> 60000" for n using pol(3) by (auto simp: unat_backoff intro: min.coboundedI2)
  have succ: "attempt = saturating_add completed 1 \<and> permits_attempt policy attempt \<longleftrightarrow>
      unat attempt = Suc (unat completed) \<and> unat attempt \<le> unat a"
  proof -
    have "attempt = saturating_add completed 1 \<longleftrightarrow> unat attempt = min (unat completed + 1) (2 ^ 32 - 1)"
      unfolding word_unat_eq_iff by (simp add: unat_saturating_add)
    with pol show ?thesis by (auto simp: permits_attempt_def word_le_nat_alt min_def split: if_split_asm)
  qed
  have "retry_decide ds ms policy cls site completed budget now = Retry attempt delay \<longleftrightarrow>
      site = BeforeAcceptance \<and> cls = Transient \<and>
      (attempt = saturating_add completed 1 \<and> permits_attempt policy attempt) \<and> delay = backoff_ms policy attempt \<and>
      (case status_at ds ms budget now of Remaining _ m \<Rightarrow> delay < m | Expired _ \<Rightarrow> False | Unbounded \<Rightarrow> True)"
    by (cases site; cases cls; cases "status_at ds ms budget now")
       (auto simp: retry_decide_def Let_def permits_step_at_def is_permitted_def not_le)
  then show ?thesis
    unfolding succ using d pol(2) wait_fits [OF assms(1) d [of attempt], of budget now] by auto
qed

theorem retry_only_when_safe_witness:
  "retry_decide (\<lambda>a b. a - b) (\<lambda>d. d div 1000000) retry_default_for_run Transient
     BeforeAcceptance 1 (budget_with_deadline 1000000000) 0 = Retry 2 250 \<and>
   unat (2 :: u32) \<le> 5 \<and> (0 :: int) + (uint (250 :: u64) + 1) * 1000000 \<le> 1000000000"
proof -
  have r: "retry_decide (\<lambda>a b. a - b) (\<lambda>d. d div 1000000) retry_default_for_run Transient
     BeforeAcceptance 1 (budget_with_deadline 1000000000) 0 = Retry 2 250"
    by (simp add: retry_decide_def Let_def saturating_add_def permits_attempt_def
        retry_default_for_run_def DEFAULT_MAX_ATTEMPTS_def DEFAULT_BASE_BACKOFF_MS_def
        DEFAULT_MAX_BACKOFF_MS_def backoff_ms_def saturating_sub_def saturating_mul_def
        word_le_nat_alt word_less_nat_alt permits_step_at_def is_permitted_def status_at_def budget_with_deadline_def)
  have p: "retry_policy_new 3 250 2000 = Ok retry_default_for_run"
    by (simp add: retry_policy_new_Ok_iff retry_default_for_run_def DEFAULT_MAX_ATTEMPTS_def
        DEFAULT_BASE_BACKOFF_MS_def DEFAULT_MAX_BACKOFF_MS_def)
  have laws: "clock_laws (\<lambda>a b. a - b) (\<lambda>d. d div 1000000)" by (simp add: clock_laws_def)
  show ?thesis
    using retry_only_when_safe [OF laws p, of Transient BeforeAcceptance 1 "budget_with_deadline 1000000000" 0 2 250] r
    by (simp add: budget_with_deadline_def)
qed

text \<open>A reported usage breaches a budget exactly when some counter that was reported lies
  strictly above its ceiling, the output-token ceiling named first; so under a budget the usage
  can verify, no breach means every ceiling was kept.\<close>

theorem budget_breach_is_exact:
  "(exceeded_by b u = Some OutputTokens \<longleftrightarrow>
      (\<exists>c a. rb_max_output_tokens b = Some c \<and> us_output_tokens u = Some a \<and> unat c < unat a)) \<and>
   (exceeded_by b u = None \<and> budget_is_verifiable b u \<longleftrightarrow>
      (case rb_max_output_tokens b of None \<Rightarrow> True
       | Some c \<Rightarrow> (\<exists>a. us_output_tokens u = Some a \<and> unat a \<le> unat c)) \<and>
      (case rb_max_cost_microunits b of None \<Rightarrow> True
       | Some c \<Rightarrow> (\<exists>a. us_estimated_cost_microunits u = Some a \<and> unat a \<le> unat c)))"
  by (auto simp: exceeded_by_def over_cap_def budget_is_verifiable_def word_less_nat_alt
      split: option.splits)

end
