(* ===== verification/Run_State.thy ===== *)
theory Run_State
  imports Domain_Error
begin

text \<open>
  \<open>run/state.rs\<close>: the states of a run, the table of legal edges, who may cause a transition,
  the bounded reason a transition carries, and the optimistic version counter.
\<close>

section \<open>States and edges\<close>

definition run_state_is_terminal :: "RunState \<Rightarrow> bool" where [simp]:
  "run_state_is_terminal s =
     (s = RunState.Completed \<or> s = RunState.Failed \<or> s = RunState.Cancelled)"

definition run_state_is_waiting :: "RunState \<Rightarrow> bool" where [simp]:
  "run_state_is_waiting s = (s = RunState.AwaitingApproval \<or> s = RunState.Waiting)"

primrec allowed_targets :: "RunState \<Rightarrow> RunState list" where
  "allowed_targets RunState.Received =
     [RunState.ContextBuilding, RunState.Cancelled, RunState.Failed]"
| "allowed_targets RunState.ContextBuilding =
     [RunState.Planning, RunState.Failed, RunState.Cancelled]"
| "allowed_targets RunState.Waiting =
     [RunState.Planning, RunState.Failed, RunState.Cancelled]"
| "allowed_targets RunState.Planning =
     [RunState.AwaitingModel, RunState.Responding, RunState.Failed, RunState.Cancelled]"
| "allowed_targets RunState.AwaitingModel =
     [RunState.Responding, RunState.ExecutingTool, RunState.AwaitingApproval, RunState.Failed,
      RunState.Cancelled]"
| "allowed_targets RunState.AwaitingApproval =
     [RunState.ExecutingTool, RunState.Observing, RunState.Failed, RunState.Cancelled]"
| "allowed_targets RunState.ExecutingTool =
     [RunState.Observing, RunState.AwaitingApproval, RunState.Failed, RunState.Cancelled]"
| "allowed_targets RunState.Observing =
     [RunState.Planning, RunState.Waiting, RunState.Failed, RunState.Cancelled]"
| "allowed_targets RunState.Responding =
     [RunState.Completed, RunState.Failed, RunState.Cancelled]"
| "allowed_targets RunState.Completed = []"
| "allowed_targets RunState.Failed = []"
| "allowed_targets RunState.Cancelled = []"

definition run_can_transition_to :: "RunState \<Rightarrow> RunState \<Rightarrow> bool" where
  "run_can_transition_to from to \<longleftrightarrow> to \<in> set (allowed_targets from)"

primrec run_state_display :: "RunState \<Rightarrow> string" where
  "run_state_display RunState.Received = ''received''"
| "run_state_display RunState.ContextBuilding = ''context_building''"
| "run_state_display RunState.Planning = ''planning''"
| "run_state_display RunState.AwaitingModel = ''awaiting_model''"
| "run_state_display RunState.AwaitingApproval = ''awaiting_approval''"
| "run_state_display RunState.ExecutingTool = ''executing_tool''"
| "run_state_display RunState.Observing = ''observing''"
| "run_state_display RunState.Waiting = ''waiting''"
| "run_state_display RunState.Responding = ''responding''"
| "run_state_display RunState.Completed = ''completed''"
| "run_state_display RunState.Failed = ''failed''"
| "run_state_display RunState.Cancelled = ''cancelled''"

section \<open>Actors, reasons and versions\<close>

datatype TransitionActor =
  Principal | Controller | Policy | Scheduler | ExternalRuntime | Operator | Supervisor

primrec transition_actor_as_str :: "TransitionActor \<Rightarrow> string" where
  "transition_actor_as_str TransitionActor.Principal = ''principal''"
| "transition_actor_as_str TransitionActor.Controller = ''controller''"
| "transition_actor_as_str TransitionActor.Policy = ''policy''"
| "transition_actor_as_str TransitionActor.Scheduler = ''scheduler''"
| "transition_actor_as_str TransitionActor.ExternalRuntime = ''external_runtime''"
| "transition_actor_as_str TransitionActor.Operator = ''operator''"
| "transition_actor_as_str TransitionActor.Supervisor = ''supervisor''"

definition MAX_REASON_BYTES :: nat where "MAX_REASON_BYTES = 256"

datatype TransitionReason = TransitionReason (reason_as_str: string)

definition transition_reason_new :: "string \<Rightarrow> DomainError + TransitionReason" where
  "transition_reason_new value =
     (if value = [] \<or> length value > MAX_REASON_BYTES \<or> contains_nul value
      then Err InvalidTransitionReason else Ok (TransitionReason value))"

definition run_version_first :: RunVersion where "run_version_first = 1"

definition run_version_next :: "RunVersion \<Rightarrow> DomainError + RunVersion" where
  "run_version_next v = ok_or (checked_add v 1) RunVersionExhausted"

section \<open>Facts about the table\<close>

lemma run_can_transition_simps [simp]:
  "run_can_transition_to from to \<longleftrightarrow> to \<in> set (allowed_targets from)"
  by (fact run_can_transition_to_def)

lemma terminal_no_targets: "run_state_is_terminal s \<longleftrightarrow> allowed_targets s = []"
  by (cases s) simp_all

lemma live_can_fail: "\<not> run_state_is_terminal s \<Longrightarrow> run_can_transition_to s RunState.Failed"
  by (cases s) simp_all

lemma live_can_cancel: "\<not> run_state_is_terminal s \<Longrightarrow> run_can_transition_to s RunState.Cancelled"
  by (cases s) simp_all

lemma completed_only_after_responding:
  "run_can_transition_to s RunState.Completed \<longleftrightarrow> s = RunState.Responding"
  by (cases s) simp_all

interpretation run_table: edge_table run_can_transition_to run_state_is_terminal
proof
  fix s t
  show "run_state_is_terminal s \<Longrightarrow> \<not> run_can_transition_to s t"
    by auto
  show "\<not> run_state_is_terminal s \<Longrightarrow> \<exists>t. run_can_transition_to s t"
    using live_can_fail by blast
  show "\<not> run_can_transition_to s s" by (cases s) simp_all
  show "\<exists>t. run_can_transition_to\<^sup>*\<^sup>* s t \<and> run_state_is_terminal t"
  proof (cases "run_state_is_terminal s")
    case True
    then show ?thesis by blast
  next
    case False
    then have "run_can_transition_to\<^sup>*\<^sup>* s RunState.Failed" by (blast intro: live_can_fail)
    then show ?thesis by auto
  qed
qed

lemma transition_reason_new_Ok_iff:
  "transition_reason_new s = Ok r \<longleftrightarrow>
     r = TransitionReason s \<and> bounded_nul_free MAX_REASON_BYTES s"
  by (auto simp: transition_reason_new_def bounded_nul_free_def)

lemma run_version_next_Ok: "run_version_next v = Ok w \<Longrightarrow> unat w = Suc (unat v)"
  by (auto simp: run_version_next_def dest: checked_add_Some)

lemma run_version_next_Err_iff:
  "(\<exists>e. run_version_next v = Err e) \<longleftrightarrow> v = - 1"
  using checked_add_one_Some_iff [of v]
  by (cases "checked_add v 1") (auto simp: run_version_next_def)

end
