(* ===== verification/Run_Lifecycle.thy ===== *)
theory Run_Lifecycle
  imports Run_State
begin

text \<open>
  \<open>run/lifecycle.rs\<close>: the request, the record and the aggregate of a run, and
  \<open>RunLifecycle::apply\<close>, the one place where a run changes state. The method mutates through
  \<open>&mut self\<close> and may return an error after a field was written, so the model returns the
  answer together with the aggregate the method leaves behind, on every branch.
\<close>

section \<open>Data\<close>

type_synonym CorrelationId = uuid

record RunTransition =
  rt_expected_from :: RunState
  rt_to :: RunState
  rt_expected_version :: RunVersion
  rt_actor :: TransitionActor
  rt_reason :: TransitionReason
  rt_occurred_at :: instant
  rt_correlation_id :: "CorrelationId option"

definition run_transition_new ::
  "RunState \<Rightarrow> RunState \<Rightarrow> RunVersion \<Rightarrow> TransitionActor \<Rightarrow> TransitionReason \<Rightarrow> instant \<Rightarrow> RunTransition"
where
  "run_transition_new expected_from to expected_version actor reason occurred_at =
     \<lparr>rt_expected_from = expected_from, rt_to = to, rt_expected_version = expected_version,
      rt_actor = actor, rt_reason = reason, rt_occurred_at = occurred_at,
      rt_correlation_id = None\<rparr>"

definition run_transition_with_correlation :: "RunTransition \<Rightarrow> CorrelationId \<Rightarrow> RunTransition" where
  "run_transition_with_correlation t c = t\<lparr>rt_correlation_id := Some c\<rparr>"

record RunTransitionRecord =
  rr_from :: RunState
  rr_to :: RunState
  rr_prior_version :: RunVersion
  rr_version :: RunVersion
  rr_actor :: TransitionActor
  rr_reason :: TransitionReason
  rr_occurred_at :: instant
  rr_correlation_id :: "CorrelationId option"

record RunLifecycle =
  rl_state :: RunState
  rl_version :: RunVersion
  rl_terminal_at :: "instant option"

definition run_lifecycle_new :: RunLifecycle where
  "run_lifecycle_new =
     \<lparr>rl_state = RunState.Received, rl_version = run_version_first, rl_terminal_at = None\<rparr>"

definition run_lifecycle_is_terminal :: "RunLifecycle \<Rightarrow> bool" where
  "run_lifecycle_is_terminal l = run_state_is_terminal (rl_state l)"

section \<open>Applying a transition\<close>

definition run_apply ::
  "RunLifecycle \<Rightarrow> RunTransition \<Rightarrow> (DomainError + RunTransitionRecord) \<times> RunLifecycle"
where
  "run_apply self t =
     (if rl_terminal_at self \<noteq> None then (Err (RunAlreadyTerminal (rl_state self)), self)
      else if rt_expected_version t \<noteq> rl_version self
        then (Err (RunVersionConflict (rt_expected_version t) (rl_version self)), self)
      else if rt_expected_from t \<noteq> rl_state self
        then (Err (RunTransitionNotAllowed (rl_state self) (rt_to t)), self)
      else if \<not> run_can_transition_to (rl_state self) (rt_to t)
        then (Err (RunTransitionNotAllowed (rl_state self) (rt_to t)), self)
      else
        (let prior_version = rl_version self;
             moved = self\<lparr>rl_state := rt_to t\<rparr>
         in case run_version_next (rl_version moved) of
              Err e \<Rightarrow> (Err e, moved)
            | Ok v \<Rightarrow>
                (let bumped = moved\<lparr>rl_version := v\<rparr>;
                     done = (if run_state_is_terminal (rt_to t)
                             then bumped\<lparr>rl_terminal_at := Some (rt_occurred_at t)\<rparr> else bumped)
                 in (Ok \<lparr>rr_from = rt_expected_from t, rr_to = rt_to t,
                          rr_prior_version = prior_version, rr_version = rl_version done,
                          rr_actor = rt_actor t, rr_reason = rt_reason t,
                          rr_occurred_at = rt_occurred_at t,
                          rr_correlation_id = rt_correlation_id t\<rparr>, done))))"

definition run_apply_all ::
  "RunLifecycle \<Rightarrow> RunTransition list \<Rightarrow> (DomainError + RunTransitionRecord) list \<times> RunLifecycle"
where
  "run_apply_all = run_steps run_apply"

section \<open>Every branch of \<open>apply\<close>\<close>

lemma run_apply_terminal:
  "rl_terminal_at l = Some at \<Longrightarrow> run_apply l t = (Err (RunAlreadyTerminal (rl_state l)), l)"
  by (simp add: run_apply_def)

lemma run_apply_stale:
  "rl_terminal_at l = None \<Longrightarrow> rt_expected_version t \<noteq> rl_version l \<Longrightarrow>
     run_apply l t = (Err (RunVersionConflict (rt_expected_version t) (rl_version l)), l)"
  by (simp add: run_apply_def)

lemma run_apply_illegal:
  "rl_terminal_at l = None \<Longrightarrow> rt_expected_version t = rl_version l \<Longrightarrow>
     rt_expected_from t \<noteq> rl_state l \<or> \<not> run_can_transition_to (rl_state l) (rt_to t) \<Longrightarrow>
     run_apply l t = (Err (RunTransitionNotAllowed (rl_state l) (rt_to t)), l)"
  by (auto simp: run_apply_def)

text \<open>A request the checks admit, whatever the version counter then says.\<close>

definition admissible :: "RunLifecycle \<Rightarrow> RunTransition \<Rightarrow> bool" where
  "admissible l t \<longleftrightarrow>
     rl_terminal_at l = None \<and> rt_expected_version t = rl_version l \<and>
     rt_expected_from t = rl_state l \<and> run_can_transition_to (rl_state l) (rt_to t)"

lemma run_apply_exhausted:
  assumes "admissible l t" and "rl_version l = - 1"
  shows "run_apply l t = (Err RunVersionExhausted, l\<lparr>rl_state := rt_to t\<rparr>)"
  using assms
  by (simp add: run_apply_def admissible_def run_version_next_def checked_add_def
      unat_minus_one_word_eq)

lemma run_apply_accepts:
  assumes "admissible l t" and "rl_version l \<noteq> - 1"
  obtains r l' where "run_apply l t = (Ok r, l')"
proof -
  from assms(2) obtain v where "checked_add (rl_version l) 1 = Some v"
    using checked_add_one_Some_iff by blast
  with assms(1) that show thesis
    by (simp add: run_apply_def admissible_def run_version_next_def Let_def)
qed

lemma run_apply_OkD:
  assumes "run_apply l t = (Ok r, l')"
  shows "admissible l t"
    and "unat (rl_version l') = Suc (unat (rl_version l))"
    and "rl_state l' = rt_to t"
    and "rl_terminal_at l' =
           (if run_state_is_terminal (rt_to t) then Some (rt_occurred_at t) else None)"
    and "r = \<lparr>rr_from = rl_state l, rr_to = rt_to t, rr_prior_version = rl_version l,
              rr_version = rl_version l', rr_actor = rt_actor t, rr_reason = rt_reason t,
              rr_occurred_at = rt_occurred_at t, rr_correlation_id = rt_correlation_id t\<rparr>"
  using assms
  by (auto simp: run_apply_def admissible_def Let_def
      split: if_splits sum.splits dest: run_version_next_Ok)

lemma run_apply_ErrD:
  assumes "run_apply l t = (Err x, l')"
  shows "rl_version l' = rl_version l" and "rl_version l \<noteq> - 1 \<Longrightarrow> l' = l"
  using assms run_version_next_Err_iff [of "rl_version l"]
  by (auto simp: run_apply_def Let_def split: if_splits sum.splits)

interpretation run_versioned: versioned run_apply rt_expected_version rl_version rt_to rl_state
  run_can_transition_to
  by unfold_locales
    (auto simp: admissible_def dest: run_apply_OkD(1) run_apply_ErrD(1)
      intro: run_apply_OkD(2) run_apply_OkD(3) run_apply_ErrD(2))

section \<open>The invariant of a lifecycle\<close>

definition lifecycle_ok :: "RunLifecycle \<Rightarrow> bool" where
  "lifecycle_ok l \<longleftrightarrow>
     (rl_terminal_at l \<noteq> None \<longleftrightarrow> run_state_is_terminal (rl_state l)) \<and> rl_version l \<noteq> 0"

lemma lifecycle_new_ok: "lifecycle_ok run_lifecycle_new"
  by (simp add: lifecycle_ok_def run_lifecycle_new_def run_version_first_def)

lemma run_apply_Ok_lifecycle_ok: "run_apply l t = (Ok r, l') \<Longrightarrow> lifecycle_ok l'"
  using run_apply_OkD [of l t r l'] by (auto simp: lifecycle_ok_def)

lemma run_apply_lifecycle_ok:
  assumes "lifecycle_ok l" and "rl_version l \<noteq> - 1" and "run_apply l t = (r, l')"
  shows "lifecycle_ok l'"
proof (cases r)
  case (Inl x)
  with assms run_apply_ErrD(2) [of l t x l'] show ?thesis by simp
next
  case (Inr y)
  with assms run_apply_Ok_lifecycle_ok show ?thesis by auto
qed

inductive reachable_lifecycle :: "RunLifecycle \<Rightarrow> bool" where
  created: "reachable_lifecycle run_lifecycle_new"
| advanced: "reachable_lifecycle l \<Longrightarrow> run_apply l t = (Ok r, l') \<Longrightarrow> reachable_lifecycle l'"

inductive_cases reachable_lifecycleE: "reachable_lifecycle l"

lemma reachable_lifecycle_ok: "reachable_lifecycle l \<Longrightarrow> lifecycle_ok l"
  by (induction rule: reachable_lifecycle.induct)
    (auto intro: lifecycle_new_ok run_apply_Ok_lifecycle_ok)

lemma reachable_lifecycle_path:
  "reachable_lifecycle l \<Longrightarrow> run_can_transition_to\<^sup>*\<^sup>* RunState.Received (rl_state l)"
proof (induction rule: reachable_lifecycle.induct)
  case created
  show ?case by (simp add: run_lifecycle_new_def)
next
  case (advanced l t r l')
  then show ?case
    using run_apply_OkD(1,3) [OF advanced(2)]
    by (auto simp: admissible_def simp del: run_can_transition_simps)
qed

lemma run_apply_all_terminal:
  assumes "rl_terminal_at l = Some at"
  shows "run_apply_all l ts =
    (replicate (length ts) (Err (RunAlreadyTerminal (rl_state l))), l)"
proof (induction ts)
  case Nil
  show ?case by (simp add: run_apply_all_def)
next
  case (Cons t ts)
  then show ?case by (simp add: run_apply_all_def run_apply_terminal [OF assms])
qed

lemma run_apply_all_version:
  "run_apply_all l ts = (rs, l') \<Longrightarrow>
     unat (rl_version l') = unat (rl_version l) + length (filter is_ok rs)"
  by (auto simp: run_apply_all_def intro: run_versioned.run_version)

text \<open>The states an accepted history walks through, one record per accepted request.\<close>

definition accepted_records :: "(DomainError + RunTransitionRecord) list \<Rightarrow> RunTransitionRecord list" where
  "accepted_records rs = map projr (filter is_ok rs)"

fun linked_records :: "RunState \<Rightarrow> RunVersion \<Rightarrow> RunTransitionRecord list \<Rightarrow> RunState \<Rightarrow> bool" where
  "linked_records s v [] s' = (s = s')"
| "linked_records s v (r # rs) s' =
     (rr_from r = s \<and> rr_prior_version r = v \<and> unat (rr_version r) = Suc (unat v) \<and>
      run_can_transition_to s (rr_to r) \<and> linked_records (rr_to r) (rr_version r) rs s')"

lemma linked_records_edges:
  "linked_records s v rs s' \<Longrightarrow> successively run_can_transition_to (s # map rr_to rs)"
  by (induction rs arbitrary: s v) (auto simp: successively_Cons)

lemma run_apply_all_linked:
  assumes "run_apply_all l ts = (rs, l')" and "unat (rl_version l) + length ts < 2 ^ 64"
  shows "linked_records (rl_state l) (rl_version l) (accepted_records rs) (rl_state l')"
  using assms
proof (induction ts arbitrary: l rs)
  case Nil
  then show ?case by (simp add: run_apply_all_def accepted_records_def)
next
  case (Cons t ts)
  obtain r rs' l1 where 1: "run_apply l t = (r, l1)" "run_apply_all l1 ts = (rs', l')" "rs = r # rs'"
    using Cons.prems(1) by (auto simp: run_apply_all_def split: prod.splits)
  have nz: "rl_version l \<noteq> - 1" using Cons.prems(2) by (auto simp: unat_minus_one_word_eq)
  show ?case
  proof (cases r)
    case (Inl x)
    with 1 nz run_apply_ErrD(2) [of l t x l1] have "l1 = l" by simp
    with 1 Inl Cons.IH [OF 1(2)] Cons.prems(2) show ?thesis by (simp add: accepted_records_def)
  next
    case (Inr y)
    with 1 have a: "run_apply l t = (Ok y, l1)" by simp
    note d = run_apply_OkD [OF a]
    from d(2) Cons.prems(2) have "unat (rl_version l1) + length ts < 2 ^ 64" by simp
    from Cons.IH [OF 1(2) this] d 1(3) Inr show ?thesis
      by (simp add: accepted_records_def admissible_def del: run_can_transition_simps)
  qed
qed

section \<open>Properties\<close>

text \<open>C1: Of any requests that name one expected version, offered to a run in any order and mixed
  with any others, at most one is accepted: two workers cannot both advance a run.\<close>

theorem run_single_winner:
  assumes "run_apply_all l ts = (rs, l')"
    and "i < j" and "j < length ts"
    and "rt_expected_version (ts ! i) = rt_expected_version (ts ! j)"
  shows "\<not> (is_ok (rs ! i) \<and> is_ok (rs ! j))"
  using assms run_versioned.single_winner [of l ts rs l' i j]
  by (auto simp: run_apply_all_def)

definition start_request :: "RunState \<Rightarrow> RunTransition" where
  "start_request to =
     run_transition_new RunState.Received to run_version_first TransitionActor.Controller
       (TransitionReason ''start'') 7"

theorem run_single_winner_witness:
  "\<not> (is_ok (fst (run_apply_all run_lifecycle_new
        [start_request RunState.ContextBuilding, start_request RunState.Cancelled]) ! 0) \<and>
      is_ok (fst (run_apply_all run_lifecycle_new
        [start_request RunState.ContextBuilding, start_request RunState.Cancelled]) ! 1))"
  by (rule run_single_winner [OF prod.collapse [symmetric]])
    (simp_all add: start_request_def run_transition_new_def)

text \<open>C12: As long as a history of requests cannot exhaust the version counter (the version the run starts
  with plus the number of requests stays below \<open>2 ^ 64\<close>), the records of the accepted requests form one
  chain: each names the state and the version the previous one left, each version is the previous plus
  one, each edge is in the table, and the chain ends in the run's present state and version. So replaying
  the stored records gives the run back. At the last version the chain breaks: the
  request is refused with the state already moved (\<open>exhausted_apply_moves_state\<close>).\<close>

theorem run_history_is_a_chain:
  assumes "run_apply_all l ts = (rs, l')" and "unat (rl_version l) + length ts < 2 ^ 64"
  shows "linked_records (rl_state l) (rl_version l) (accepted_records rs) (rl_state l') \<and>
    unat (rl_version l') = unat (rl_version l) + length (accepted_records rs)"
  using run_apply_all_linked [OF assms] run_apply_all_version [OF assms(1)]
  by (simp add: accepted_records_def)

theorem run_history_is_a_chain_witness:
  "linked_records RunState.Received 1
     (accepted_records (fst (run_apply_all run_lifecycle_new [start_request RunState.Cancelled])))
     (rl_state (snd (run_apply_all run_lifecycle_new [start_request RunState.Cancelled])))"
  using run_history_is_a_chain [of run_lifecycle_new "[start_request RunState.Cancelled]"
      "fst (run_apply_all run_lifecycle_new [start_request RunState.Cancelled])"
      "snd (run_apply_all run_lifecycle_new [start_request RunState.Cancelled])"]
  by (simp add: run_lifecycle_new_def run_version_first_def)

text \<open>Once a run has ended, no list of later requests changes anything: each is answered
  \<open>RunAlreadyTerminal\<close> with the state it ended in, and the aggregate stays as it was. A run
  every accepted transition of which started from \<open>new\<close> has ended exactly when its state is
  terminal.\<close>

theorem terminal_run_absorbs:
  assumes "reachable_lifecycle l" and "run_state_is_terminal (rl_state l)"
  shows "run_apply_all l ts =
    (replicate (length ts) (Err (RunAlreadyTerminal (rl_state l))), l)"
proof -
  from reachable_lifecycle_ok [OF assms(1)] assms(2) obtain at where "rl_terminal_at l = Some at"
    unfolding lifecycle_ok_def by blast
  then show ?thesis by (rule run_apply_all_terminal)
qed

definition cancelled_run :: RunLifecycle where
  "cancelled_run = snd (run_apply run_lifecycle_new (start_request RunState.Cancelled))"

lemma cancelled_run_eq:
  "cancelled_run = \<lparr>rl_state = RunState.Cancelled, rl_version = 2, rl_terminal_at = Some 7\<rparr>"
  "is_ok (fst (run_apply run_lifecycle_new (start_request RunState.Cancelled)))"
  by (simp_all add: cancelled_run_def run_apply_def start_request_def run_transition_new_def
      run_lifecycle_new_def run_version_first_def run_version_next_def checked_add_def Let_def)

lemma cancelled_run_reachable: "reachable_lifecycle cancelled_run"
proof -
  obtain r where "run_apply run_lifecycle_new (start_request RunState.Cancelled) = (Ok r, cancelled_run)"
    using cancelled_run_eq(2)
    by (cases "run_apply run_lifecycle_new (start_request RunState.Cancelled)")
      (auto simp: is_ok_iff cancelled_run_def)
  then show ?thesis by (rule reachable_lifecycle.advanced [OF reachable_lifecycle.created])
qed

theorem terminal_run_absorbs_witness:
  "run_apply_all cancelled_run [start_request RunState.ContextBuilding] =
     ([Err (RunAlreadyTerminal RunState.Cancelled)], cancelled_run)"
  using terminal_run_absorbs [of cancelled_run "[start_request RunState.ContextBuilding]"]
    cancelled_run_reachable
  by (simp add: cancelled_run_eq(1))

text \<open>\<open>apply\<close> is not atomic at the last version: a request the checks admit on a run at
  version \<open>u64::MAX\<close> is answered \<open>RunVersionExhausted\<close>, yet the aggregate has already taken the
  requested state, and a terminal one without its end time.\<close>

theorem exhausted_apply_moves_state:
  assumes "admissible l t" and "rl_version l = - 1"
  shows "run_apply l t = (Err RunVersionExhausted, l\<lparr>rl_state := rt_to t\<rparr>) \<and>
    rl_state (snd (run_apply l t)) \<noteq> rl_state l \<and> rl_terminal_at (snd (run_apply l t)) = None"
proof -
  from assms(1) have "rt_to t \<noteq> rl_state l"
    using run_table.no_self_edge [of "rl_state l"] by (auto simp: admissible_def)
  with run_apply_exhausted [OF assms] assms(1) show ?thesis by (simp add: admissible_def)
qed

theorem exhausted_apply_moves_state_witness:
  "rl_state (snd (run_apply \<lparr>rl_state = RunState.Received, rl_version = - 1, rl_terminal_at = None\<rparr>
      (start_request RunState.Cancelled\<lparr>rt_expected_version := - 1\<rparr>))) \<noteq> RunState.Received"
  using exhausted_apply_moves_state
    [of "\<lparr>rl_state = RunState.Received, rl_version = - 1, rl_terminal_at = None\<rparr>"
        "start_request RunState.Cancelled\<lparr>rt_expected_version := - 1\<rparr>"]
  by (simp add: admissible_def start_request_def run_transition_new_def)

end
