(* ===== verification/Run_Recovery.thy ===== *)
theory Run_Recovery
  imports Run_Lifecycle
begin

text \<open>
  \<open>run/recovery.rs\<close>: what to do with a run the previous process left behind. Every state that
  is not terminal has an action, and every action moves the run to \<open>Failed\<close>.
\<close>

datatype RecoveryAction = Resumable RunState | Abandoned RunState

definition recovery_target_state :: "RecoveryAction \<Rightarrow> RunState" where
  "recovery_target_state a = RunState.Failed"

primrec recovery_reason :: "RecoveryAction \<Rightarrow> string" where
  "recovery_reason (Resumable _) = ''interrupted_while_waiting''"
| "recovery_reason (Abandoned _) = ''interrupted_while_working''"

definition recovery_error_code :: "RecoveryAction \<Rightarrow> string" where
  "recovery_error_code a = ''run.interrupted_by_restart''"

definition was_resumable :: "RecoveryAction \<Rightarrow> bool" where
  "was_resumable a = (case a of Resumable _ \<Rightarrow> True | Abandoned _ \<Rightarrow> False)"

definition classify :: "RunState \<Rightarrow> RecoveryAction option" where
  "classify s =
     (case s of
        RunState.Completed \<Rightarrow> None
      | RunState.Failed \<Rightarrow> None
      | RunState.Cancelled \<Rightarrow> None
      | RunState.AwaitingApproval \<Rightarrow> Some (Resumable s)
      | RunState.Waiting \<Rightarrow> Some (Resumable s)
      | _ \<Rightarrow> Some (Abandoned s))"

definition needs_recovery :: "RunState \<Rightarrow> bool" where
  "needs_recovery s \<longleftrightarrow> classify s \<noteq> None"

text \<open>The transition \<open>recovery::apply\<close> of the application builds from an action.\<close>

definition recovery_transition :: "RunLifecycle \<Rightarrow> RecoveryAction \<Rightarrow> TransitionReason \<Rightarrow> instant \<Rightarrow> RunTransition"
where
  "recovery_transition l a reason at =
     run_transition_new (rl_state l) (recovery_target_state a) (rl_version l)
       TransitionActor.Supervisor reason at"

lemma classify_None_iff: "classify s = None \<longleftrightarrow> run_state_is_terminal s"
  by (cases s) (simp_all add: classify_def)

lemma classify_resumable_iff:
  "classify s = Some a \<Longrightarrow> was_resumable a \<longleftrightarrow> run_state_is_waiting s"
  by (cases s) (auto simp: classify_def was_resumable_def)

lemma recovery_reason_accepted:
  "transition_reason_new (recovery_reason a) = Ok (TransitionReason (recovery_reason a))"
  by (cases a) (simp_all add: transition_reason_new_def MAX_REASON_BYTES_def contains_nul_def byte_def)

lemma recovery_admissible:
  assumes "lifecycle_ok l" and "classify (rl_state l) = Some a"
  shows "admissible l (recovery_transition l a reason at)"
proof -
  have "\<not> run_state_is_terminal (rl_state l)"
    using assms(2) classify_None_iff [of "rl_state l"] by auto
  with assms(1) live_can_fail [of "rl_state l"] show ?thesis
    by (auto simp: admissible_def recovery_transition_def run_transition_new_def
        recovery_target_state_def lifecycle_ok_def)
qed

text \<open>After a restart every reachable run that has not ended is recovered: it is classified,
  the reason its transition carries is accepted, the transition is accepted too, and the run is
  then \<open>Failed\<close>, ended at the recovery instant and not classified again.\<close>

theorem recovery_settles_every_live_run:
  assumes "reachable_lifecycle l" and "\<not> run_state_is_terminal (rl_state l)"
    and "rl_version l \<noteq> - 1"
  shows "\<exists>a r l'. classify (rl_state l) = Some a \<and>
    (was_resumable a \<longleftrightarrow> run_state_is_waiting (rl_state l)) \<and>
    transition_reason_new (recovery_reason a) = Ok (TransitionReason (recovery_reason a)) \<and>
    run_apply l (recovery_transition l a (TransitionReason (recovery_reason a)) at) = (Ok r, l') \<and>
    rl_state l' = RunState.Failed \<and> rl_terminal_at l' = Some at \<and> classify (rl_state l') = None"
proof -
  from assms(2) obtain a where a: "classify (rl_state l) = Some a"
    using classify_None_iff [of "rl_state l"] by (cases "classify (rl_state l)") auto
  let ?t = "recovery_transition l a (TransitionReason (recovery_reason a)) at"
  have "admissible l ?t"
    by (rule recovery_admissible [OF reachable_lifecycle_ok [OF assms(1)] a])
  then obtain r l' where r: "run_apply l ?t = (Ok r, l')"
    using assms(3) run_apply_accepts by blast
  have t: "rt_to ?t = RunState.Failed" "rt_occurred_at ?t = at"
    by (simp_all add: recovery_transition_def run_transition_new_def recovery_target_state_def)
  with run_apply_OkD(3,4) [OF r] have "rl_state l' = RunState.Failed" "rl_terminal_at l' = Some at"
    by simp_all
  moreover from this have "classify (rl_state l') = None" by (simp add: classify_None_iff)
  ultimately show ?thesis
    using a r classify_resumable_iff [OF a] recovery_reason_accepted [of a] by blast
qed

theorem recovery_settles_every_live_run_witness:
  "\<exists>a r l'. classify RunState.Received = Some a \<and>
     run_apply run_lifecycle_new
       (recovery_transition run_lifecycle_new a (TransitionReason (recovery_reason a)) 9) = (Ok r, l') \<and>
     rl_state l' = RunState.Failed"
  using recovery_settles_every_live_run [OF reachable_lifecycle.created, of 9]
  by (auto simp: run_lifecycle_new_def run_version_first_def)

end
