(* ===== verification/Text_Codec.thy ===== *)
theory Text_Codec
  imports Prelude
begin

text \<open>
  The text operations of Rust's standard library the domain's identifiers are parsed and
  displayed with: \<open>str::split_once\<close>, decimal integers, and two-digit lowercase hexadecimal
  bytes, with the facts that each reading inverts its writing.
\<close>

section \<open>Splitting once\<close>

fun split_once :: "char \<Rightarrow> string \<Rightarrow> (string \<times> string) option" where
  "split_once sep [] = None"
| "split_once sep (c # cs) =
     (if c = sep then Some ([], cs)
      else map_option (\<lambda>(a, b). (c # a, b)) (split_once sep cs))"

lemma split_once_Some_iff:
  "split_once sep s = Some (a, b) \<longleftrightarrow> s = a @ sep # b \<and> sep \<notin> set a"
proof (induction s arbitrary: a)
  case Nil
  show ?case by simp
next
  case (Cons c s)
  show ?case
  proof (cases "c = sep")
    case True
    then show ?thesis by (cases a) auto
  next
    case False
    then have "split_once sep (c # s) = Some (a, b) \<longleftrightarrow>
        (\<exists>a'. a = c # a' \<and> split_once sep s = Some (a', b))"
      by (cases "split_once sep s") auto
    also have "\<dots> \<longleftrightarrow> c # s = a @ sep # b \<and> sep \<notin> set a"
      using False by (cases a) (auto simp: Cons.IH)
    finally show ?thesis .
  qed
qed

lemma split_once_None_iff: "split_once sep s = None \<longleftrightarrow> sep \<notin> set s"
  by (induction s) auto

lemma split_on_clean: "sep \<notin> set s \<Longrightarrow> split_on sep s = [s]"
  by (induction s) auto

lemma split_on_append: "sep \<notin> set s \<Longrightarrow> split_on sep (s @ sep # u) = s # split_on sep u"
  by (induction s) auto

lemma split_on_join:
  "ts \<noteq> [] \<Longrightarrow> \<forall>t \<in> set ts. sep \<notin> set t \<Longrightarrow> split_on sep (join_with sep ts) = ts"
  by (induction sep ts rule: join_with.induct) (auto simp: split_on_clean split_on_append)

lemma split_on_eq_iff:
  "split_on sep s = ts \<longleftrightarrow> ts \<noteq> [] \<and> s = join_with sep ts \<and> (\<forall>t \<in> set ts. sep \<notin> set t)"
  using split_on_join split_on_no_sep by (auto simp del: join_split) (metis join_split)+

section \<open>Decimal numbers\<close>

definition digit_char :: "nat \<Rightarrow> char" where
  "digit_char d = char_of (48 + d)"

definition digit_value :: "char \<Rightarrow> nat" where
  "digit_value c = byte c - 48"

fun show_nat :: "nat \<Rightarrow> string" where
  "show_nat n = (if n < 10 then [digit_char n] else show_nat (n div 10) @ [digit_char (n mod 10)])"

declare show_nat.simps [simp del]

definition digits_value :: "string \<Rightarrow> nat" where
  "digits_value s = foldl (\<lambda>acc c. acc * 10 + digit_value c) 0 s"

text \<open>\<open>str::parse::<u32>\<close> on a text of digits: the value, or nothing when it does not fit.\<close>

definition parse_u32_digits :: "string \<Rightarrow> u32 option" where
  "parse_u32_digits s =
     (if digits_value s < 2 ^ 32 then Some (of_nat (digits_value s)) else None)"

text \<open>A number as it is displayed: digits only, and no leading zero unless it is zero.\<close>

definition canonical_decimal :: "string \<Rightarrow> bool" where
  "canonical_decimal s \<longleftrightarrow>
     s \<noteq> [] \<and> list_all is_ascii_digit s \<and> \<not> (length s > 1 \<and> hd s = CHR ''0'')"

lemma byte_char_of: "n < 256 \<Longrightarrow> byte (char_of n) = n"
  by (simp add: byte_def of_char_of)

lemma digit_char_digit [simp]: "d < 10 \<Longrightarrow> is_ascii_digit (digit_char d)"
  by (simp add: is_ascii_digit_def digit_char_def byte_char_of)

lemma digit_value_char [simp]: "d < 10 \<Longrightarrow> digit_value (digit_char d) = d"
  by (simp add: digit_value_def digit_char_def byte_char_of)

lemma digit_char_value: "is_ascii_digit c \<Longrightarrow> digit_char (digit_value c) = c"
  by (simp add: is_ascii_digit_def digit_char_def digit_value_def byte_def)

lemma digit_value_lt: "is_ascii_digit c \<Longrightarrow> digit_value c < 10"
  by (auto simp: is_ascii_digit_def digit_value_def)

lemma digit_value_zero [simp]: "digit_value CHR ''0'' = 0"
  by (simp add: digit_value_def byte_def)

lemma digit_char_zero [simp]: "digit_char 0 = CHR ''0''"
  using digit_char_value [of "CHR ''0''"] by (simp add: is_ascii_digit_def byte_def)

lemma digits_value_snoc [simp]: "digits_value (s @ [c]) = digits_value s * 10 + digit_value c"
  by (simp add: digits_value_def)

lemma digits_value_single [simp]: "digits_value [c] = digit_value c"
  by (simp add: digits_value_def)

lemma digits_value_show: "digits_value (show_nat n) = n"
  by (induction n rule: show_nat.induct) (subst show_nat.simps, simp)

lemma show_nat_digits: "list_all is_ascii_digit (show_nat n)"
  by (induction n rule: show_nat.induct) (subst show_nat.simps, simp)

lemma show_nat_not_Nil [simp]: "show_nat n \<noteq> []"
  by (subst show_nat.simps) simp

lemma show_nat_hd: "0 < n \<Longrightarrow> hd (show_nat n) \<noteq> CHR ''0''"
proof (induction n rule: show_nat.induct)
  case (1 n)
  show ?case
  proof (cases "n < 10")
    case True
    have "digit_char n \<noteq> CHR ''0''"
    proof
      assume "digit_char n = CHR ''0''"
      then have "digit_value (digit_char n) = digit_value CHR ''0''" by (rule arg_cong)
      with True 1 show False by simp
    qed
    with True show ?thesis by (subst show_nat.simps) simp
  next
    case False
    with 1 show ?thesis by (subst show_nat.simps) (simp add: hd_append)
  qed
qed

lemma canonical_show: "canonical_decimal (show_nat n)"
proof (cases "n = 0")
  case True
  then show ?thesis
    by (simp add: canonical_decimal_def show_nat.simps is_ascii_digit_def byte_def)
next
  case False
  then show ?thesis using show_nat_hd [of n] show_nat_digits [of n] by (simp add: canonical_decimal_def)
qed

lemma digits_value_pos:
  assumes "list_all is_ascii_digit s" and "s \<noteq> []" and "hd s \<noteq> CHR ''0''"
  shows "0 < digits_value s"
  using assms
proof (induction s rule: rev_induct)
  case Nil
  then show ?case by simp
next
  case (snoc c s)
  show ?case
  proof (cases "s = []")
    case True
    have "digit_value c \<noteq> 0"
    proof
      assume "digit_value c = 0"
      with digit_char_value [of c] snoc.prems(1) have "c = digit_char 0" by simp
      with True snoc.prems(3) show False by simp
    qed
    with True show ?thesis by simp
  next
    case False
    with snoc show ?thesis by simp
  qed
qed

lemma show_digits_value: "canonical_decimal s \<Longrightarrow> show_nat (digits_value s) = s"
proof (induction s rule: rev_induct)
  case Nil
  then show ?case by (simp add: canonical_decimal_def)
next
  case (snoc c s)
  then have c: "is_ascii_digit c" by (simp add: canonical_decimal_def)
  show ?case
  proof (cases "s = []")
    case True
    with c digit_value_lt [OF c] digit_char_value [OF c] show ?thesis
      by (subst show_nat.simps) simp
  next
    case False
    with snoc.prems have s: "canonical_decimal s" "hd s \<noteq> CHR ''0''"
      by (auto simp: canonical_decimal_def Suc_le_eq hd_append)
    with False digits_value_pos [of s] have "0 < digits_value s" by (simp add: canonical_decimal_def)
    with digit_value_lt [OF c] digit_char_value [OF c] snoc.IH [OF s(1)] show ?thesis
      by (subst show_nat.simps) simp
  qed
qed

section \<open>Hexadecimal bytes\<close>

definition is_lower_hex :: "char \<Rightarrow> bool" where
  "is_lower_hex c \<longleftrightarrow> is_ascii_digit c \<or> (97 \<le> byte c \<and> byte c \<le> 102)"

definition hex_value :: "char \<Rightarrow> nat" where
  "hex_value c = (if byte c \<le> 57 then byte c - 48 else byte c - 87)"

definition hex_char :: "nat \<Rightarrow> char" where
  "hex_char d = (if d < 10 then char_of (48 + d) else char_of (87 + d))"

definition show_hex_byte :: "u8 \<Rightarrow> string" where
  "show_hex_byte b = [hex_char (unat b div 16), hex_char (unat b mod 16)]"

fun parse_hex_bytes :: "string \<Rightarrow> u8 list" where
  "parse_hex_bytes (a # b # s) = of_nat (hex_value a * 16 + hex_value b) # parse_hex_bytes s"
| "parse_hex_bytes s = []"

definition show_hex_bytes :: "u8 list \<Rightarrow> string" where
  "show_hex_bytes bs = concat (map show_hex_byte bs)"

lemma hex_char_lower [simp]: "d < 16 \<Longrightarrow> is_lower_hex (hex_char d)"
  by (simp add: is_lower_hex_def hex_char_def is_ascii_digit_def byte_char_of)

lemma hex_value_char [simp]: "d < 16 \<Longrightarrow> hex_value (hex_char d) = d"
  by (simp add: hex_value_def hex_char_def byte_char_of)

lemma hex_char_value: "is_lower_hex c \<Longrightarrow> hex_char (hex_value c) = c"
  by (auto simp: is_lower_hex_def hex_char_def hex_value_def is_ascii_digit_def byte_def)

lemma hex_value_lt: "is_lower_hex c \<Longrightarrow> hex_value c < 16"
  by (auto simp: is_lower_hex_def hex_value_def is_ascii_digit_def)

lemma unat_byte_lt: "unat (b :: u8) < 256"
  using unsigned_less [of b, where ?'a = nat] by simp

lemma parse_show_hex: "parse_hex_bytes (show_hex_bytes bs) = bs"
proof (induction bs)
  case Nil
  show ?case by (simp add: show_hex_bytes_def)
next
  case (Cons b bs)
  have "unat b div 16 < 16" "unat b mod 16 < 16" using unat_byte_lt [of b] by auto
  then show ?case using Cons by (simp add: show_hex_bytes_def show_hex_byte_def)
qed

lemma show_hex_lower: "list_all is_lower_hex (show_hex_bytes bs)"
proof (induction bs)
  case Nil
  show ?case by (simp add: show_hex_bytes_def)
next
  case (Cons b bs)
  have "unat b div 16 < 16" "unat b mod 16 < 16" using unat_byte_lt [of b] by auto
  then show ?case using Cons by (simp add: show_hex_bytes_def show_hex_byte_def)
qed

lemma length_show_hex [simp]: "length (show_hex_bytes bs) = 2 * length bs"
  by (induction bs) (simp_all add: show_hex_bytes_def show_hex_byte_def)

lemma length_parse_hex [simp]: "length (parse_hex_bytes s) = length s div 2"
  by (induction s rule: parse_hex_bytes.induct) simp_all

lemma show_parse_hex:
  "list_all is_lower_hex s \<Longrightarrow> even (length s) \<Longrightarrow> show_hex_bytes (parse_hex_bytes s) = s"
proof (induction s rule: parse_hex_bytes.induct)
  case (1 a b s)
  then have v: "hex_value a < 16" "hex_value b < 16" by (simp_all add: hex_value_lt)
  have "unat (of_nat (hex_value a * 16 + hex_value b) :: u8) = (hex_value a * 16 + hex_value b) mod 256"
    by (simp only: unat_of_nat) simp
  also have "\<dots> = hex_value a * 16 + hex_value b" using v by simp
  finally have "show_hex_byte (of_nat (hex_value a * 16 + hex_value b)) = [a, b]"
    using v 1 by (simp add: show_hex_byte_def hex_char_value)
  with 1 show ?case by (simp add: show_hex_bytes_def)
qed (simp_all add: show_hex_bytes_def)

end
