(* ===== verification/Tool_Identity.thy ===== *)
theory Tool_Identity
  imports Text_Codec Model_Policy
begin

text \<open>
  \<open>tool/identity.rs\<close>: the canonical name of a capability, the version and the source of a
  tool, the fingerprint of its schema, and the identity the three make up. The parsers accept
  exactly the texts the displays produce, so one identity has one spelling.
\<close>

section \<open>Text rules\<close>

definition MAX_TOOL_SEGMENT_BYTES :: nat where "MAX_TOOL_SEGMENT_BYTES = 64"
definition MAX_TOOL_MAJOR :: u32 where "MAX_TOOL_MAJOR = 999999"

definition owner_byte :: "char \<Rightarrow> bool" where
  "owner_byte c \<longleftrightarrow> is_ascii_lowercase c \<or> is_ascii_digit c \<or>
     c = CHR ''_'' \<or> c = CHR ''-'' \<or> c = CHR ''.''"

definition is_owner :: "string \<Rightarrow> bool" where
  "is_owner value =
     (if value = [] \<or> length value > MAX_TOOL_SEGMENT_BYTES * 2 then False
      else if \<not> is_ascii_lowercase (hd value) then False
      else if \<not> list_all owner_byte value then False
      else list_all (\<lambda>part. part \<noteq> []) (split_on CHR ''.'' value))"

definition segment_byte :: "char \<Rightarrow> bool" where
  "segment_byte c \<longleftrightarrow> is_ascii_lowercase c \<or> is_ascii_digit c \<or> c = CHR ''_''"

definition is_segment :: "string \<Rightarrow> bool" where
  "is_segment value =
     (if value = [] \<or> length value > MAX_TOOL_SEGMENT_BYTES then False
      else if \<not> is_ascii_lowercase (hd value) then False
      else list_all segment_byte value)"

definition parse_decimal :: "string \<Rightarrow> u32 \<Rightarrow> u32 option" where
  "parse_decimal value limit =
     (if value = [] \<or> \<not> list_all is_ascii_digit value then None
      else if length value > 1 \<and> hd value = CHR ''0'' then None
      else (case parse_u32_digits value of
              None \<Rightarrow> None
            | Some parsed \<Rightarrow> if parsed \<le> limit \<and> parsed > 0 then Some parsed else None))"

section \<open>Capabilities\<close>

record ToolCapability =
  tc_namespace :: string
  tc_name :: string
  tc_major :: u32

definition tool_capability_parse :: "string \<Rightarrow> DomainError + ToolCapability" where
  "tool_capability_parse value =
     and_then (ok_or (split_once CHR ''@'' value) ToolIdentifierNotCanonical) (\<lambda>(capability, major).
     if CHR ''@'' \<in> set major then Err ToolIdentifierNotCanonical else
     and_then (ok_or (split_once CHR ''.'' capability) ToolIdentifierNotCanonical) (\<lambda>(namespace, name).
     if CHR ''.'' \<in> set name then Err ToolIdentifierNotCanonical
     else if \<not> is_segment namespace \<or> \<not> is_segment name then Err ToolIdentifierNotCanonical else
     and_then (ok_or (parse_decimal major MAX_TOOL_MAJOR) ToolIdentifierNotCanonical) (\<lambda>m.
     Ok \<lparr>tc_namespace = namespace, tc_name = name, tc_major = m\<rparr>)))"

definition tool_capability_new :: "string \<Rightarrow> string \<Rightarrow> u32 \<Rightarrow> DomainError + ToolCapability" where
  "tool_capability_new namespace name major =
     (if \<not> is_segment namespace \<or> \<not> is_segment name \<or> major = 0 \<or> major > MAX_TOOL_MAJOR
      then Err ToolIdentifierNotCanonical
      else Ok \<lparr>tc_namespace = namespace, tc_name = name, tc_major = major\<rparr>)"

definition tool_capability_display :: "ToolCapability \<Rightarrow> string" where
  "tool_capability_display c =
     tc_namespace c @ ''.'' @ tc_name c @ ''@'' @ show_nat (unat (tc_major c))"

section \<open>Versions\<close>

record ToolVersion =
  tv_major :: u32
  tv_minor :: u32
  tv_patch :: u32
  tv_pre_release :: "string option"

definition suffix_byte :: "char \<Rightarrow> bool" where
  "suffix_byte c \<longleftrightarrow> is_ascii_alphanumeric c \<or> c = CHR ''.'' \<or> c = CHR ''-''"

definition version_component :: "string \<Rightarrow> DomainError + u32" where
  "version_component value =
     (if value = [] \<or> \<not> list_all is_ascii_digit value \<or> (length value > 1 \<and> hd value = CHR ''0'')
      then Err (ToolDefinitionInvalid ''version'')
      else ok_or (parse_u32_digits value) (ToolDefinitionInvalid ''version''))"

definition tool_version_parse :: "string \<Rightarrow> DomainError + ToolVersion" where
  "tool_version_parse value =
     and_then
       (case split_once CHR ''-'' value of
          Some (numbers, suffix) \<Rightarrow>
            (if suffix = [] \<or> length suffix > MAX_TOOL_SEGMENT_BYTES \<or> \<not> list_all suffix_byte suffix
             then Err (ToolDefinitionInvalid ''version'')
             else Ok (numbers, Some suffix))
        | None \<Rightarrow> Ok (value, None))
       (\<lambda>(numbers, pre_release).
          case split_on CHR ''.'' numbers of
            [major, minor, patch] \<Rightarrow>
              and_then (version_component major) (\<lambda>a.
              and_then (version_component minor) (\<lambda>b.
              and_then (version_component patch) (\<lambda>c.
              Ok \<lparr>tv_major = a, tv_minor = b, tv_patch = c, tv_pre_release = pre_release\<rparr>)))
          | _ \<Rightarrow> Err (ToolDefinitionInvalid ''version''))"

definition tool_version_display :: "ToolVersion \<Rightarrow> string" where
  "tool_version_display v =
     show_nat (unat (tv_major v)) @ ''.'' @ show_nat (unat (tv_minor v)) @ ''.'' @
     show_nat (unat (tv_patch v)) @
     (case tv_pre_release v of None \<Rightarrow> [] | Some pre \<Rightarrow> ''-'' @ pre)"

section \<open>Sources, fingerprints, identities\<close>

datatype SourceKind = Native | Connector | McpServer | Runtime | Plugin

definition source_kind_all :: "SourceKind list" where
  "source_kind_all = [SourceKind.Native, SourceKind.Connector, SourceKind.McpServer,
     SourceKind.Runtime, SourceKind.Plugin]"

primrec source_kind_as_contract_str :: "SourceKind \<Rightarrow> string" where
  "source_kind_as_contract_str SourceKind.Native = ''native''"
| "source_kind_as_contract_str SourceKind.Connector = ''connector''"
| "source_kind_as_contract_str SourceKind.McpServer = ''mcp_server''"
| "source_kind_as_contract_str SourceKind.Runtime = ''runtime''"
| "source_kind_as_contract_str SourceKind.Plugin = ''plugin''"

definition source_kind_is_external :: "SourceKind \<Rightarrow> bool" where
  "source_kind_is_external k \<longleftrightarrow>
     k = SourceKind.McpServer \<or> k = SourceKind.Runtime \<or> k = SourceKind.Plugin"

record ToolSource =
  ts_kind :: SourceKind
  ts_owner :: string
  ts_version :: ToolVersion

definition tool_source_new :: "SourceKind \<Rightarrow> string \<Rightarrow> ToolVersion \<Rightarrow> DomainError + ToolSource" where
  "tool_source_new kind owner version =
     (if \<not> is_owner owner then Err (ToolDefinitionInvalid ''source.owner'')
      else Ok \<lparr>ts_kind = kind, ts_owner = owner, ts_version = version\<rparr>)"

definition tool_source_display :: "ToolSource \<Rightarrow> string" where
  "tool_source_display s =
     source_kind_as_contract_str (ts_kind s) @ '':'' @ ts_owner s @ ''@'' @
     tool_version_display (ts_version s)"

text \<open>The array of 32 bytes is a list; \<open>fingerprint_ok\<close> says it has that length.\<close>

type_synonym SchemaFingerprint = "u8 list"

definition FINGERPRINT_ALGORITHM :: string where "FINGERPRINT_ALGORITHM = ''sha256''"
definition FINGERPRINT_HEX_LENGTH :: nat where "FINGERPRINT_HEX_LENGTH = 64"

fun strip_prefix :: "string \<Rightarrow> string \<Rightarrow> string option" where
  "strip_prefix [] s = Some s"
| "strip_prefix (p # ps) [] = None"
| "strip_prefix (p # ps) (c # cs) = (if p = c then strip_prefix ps cs else None)"

definition schema_fingerprint_parse :: "string \<Rightarrow> DomainError + SchemaFingerprint" where
  "schema_fingerprint_parse value =
     (case Option.bind (strip_prefix FINGERPRINT_ALGORITHM value) (strip_prefix '':'') of
        None \<Rightarrow> Err (ToolDefinitionInvalid ''schema_fingerprint'')
      | Some hex \<Rightarrow>
          (if length hex \<noteq> FINGERPRINT_HEX_LENGTH \<or> \<not> list_all is_lower_hex hex
           then Err (ToolDefinitionInvalid ''schema_fingerprint'')
           else Ok (parse_hex_bytes hex)))"

definition schema_fingerprint_display :: "SchemaFingerprint \<Rightarrow> string" where
  "schema_fingerprint_display f = FINGERPRINT_ALGORITHM @ '':'' @ show_hex_bytes f"

record ToolIdentity =
  ti_capability :: ToolCapability
  ti_source :: ToolSource
  ti_schema_fingerprint :: SchemaFingerprint

definition identity_authorizes :: "ToolIdentity \<Rightarrow> ToolIdentity \<Rightarrow> bool" where
  "identity_authorizes self candidate \<longleftrightarrow> self = candidate"

definition is_replacement_of :: "ToolIdentity \<Rightarrow> ToolIdentity \<Rightarrow> bool" where
  "is_replacement_of self candidate \<longleftrightarrow>
     ti_capability self = ti_capability candidate \<and> self \<noteq> candidate"

section \<open>What the parsers accept\<close>

definition capability_ok :: "ToolCapability \<Rightarrow> bool" where
  "capability_ok c \<longleftrightarrow> is_segment (tc_namespace c) \<and> is_segment (tc_name c) \<and>
     0 < tc_major c \<and> tc_major c \<le> MAX_TOOL_MAJOR"

lemma segment_separators:
  assumes "is_segment s"
  shows "CHR ''.'' \<notin> set s" and "CHR ''@'' \<notin> set s"
  using assms
  by (auto simp: is_segment_def list_all_iff segment_byte_def is_ascii_lowercase_def
      is_ascii_digit_def byte_def split: if_splits)

lemma digits_not_special:
  assumes "list_all is_ascii_digit s"
  shows "CHR ''.'' \<notin> set s" and "CHR ''@'' \<notin> set s" and "CHR ''-'' \<notin> set s"
  using assms by (auto simp: list_all_iff is_ascii_digit_def byte_def)

lemma show_nat_not_special:
  "CHR ''.'' \<notin> set (show_nat n)" "CHR ''@'' \<notin> set (show_nat n)" "CHR ''-'' \<notin> set (show_nat n)"
  by (rule digits_not_special [OF show_nat_digits])+

lemma parse_u32_digits_Some_iff:
  "parse_u32_digits s = Some v \<longleftrightarrow> unat v = digits_value s"
proof -
  have v: "unat v < 2 ^ 32" using unsigned_less [of v, where ?'a = nat] by simp
  have "of_nat (digits_value s) = v \<longleftrightarrow> unat v = digits_value s" if "digits_value s < 2 ^ 32"
  proof -
    have "unat (of_nat (digits_value s) :: u32) = digits_value s"
      using that by (simp only: unat_of_nat) simp
    then show ?thesis by (metis word_unat_eq_iff)
  qed
  with v show ?thesis by (auto simp: parse_u32_digits_def)
qed

lemma canonical_value_iff:
  "canonical_decimal s \<and> unat v = digits_value s \<longleftrightarrow> s = show_nat (unat (v :: u32))"
  using canonical_show digits_value_show show_digits_value by metis

lemma parse_decimal_Some_iff:
  "parse_decimal s limit = Some m \<longleftrightarrow> s = show_nat (unat m) \<and> 0 < m \<and> m \<le> limit"
proof -
  have "parse_decimal s limit = Some m \<longleftrightarrow>
      canonical_decimal s \<and> parse_u32_digits s = Some m \<and> 0 < m \<and> m \<le> limit"
    by (auto simp: parse_decimal_def canonical_decimal_def split: option.splits if_splits)
  then show ?thesis
    using canonical_value_iff [of s m] by (auto simp: parse_u32_digits_Some_iff)
qed

lemma tool_capability_parse_Ok_iff:
  "tool_capability_parse s = Ok c \<longleftrightarrow> capability_ok c \<and> s = tool_capability_display c"
proof
  assume "tool_capability_parse s = Ok c"
  then obtain capability major namespace name m where
    1: "split_once CHR ''@'' s = Some (capability, major)"
    and 2: "split_once CHR ''.'' capability = Some (namespace, name)"
    and 3: "is_segment namespace" "is_segment name"
    and 4: "parse_decimal major MAX_TOOL_MAJOR = Some m"
    and 5: "c = \<lparr>tc_namespace = namespace, tc_name = name, tc_major = m\<rparr>"
    by (auto simp: tool_capability_parse_def and_then_Ok_iff split: if_splits prod.splits)
  from 1 2 have "s = (namespace @ CHR ''.'' # name) @ CHR ''@'' # major"
    by (simp add: split_once_Some_iff)
  with 3 4 5 show "capability_ok c \<and> s = tool_capability_display c"
    by (simp add: capability_ok_def tool_capability_display_def parse_decimal_Some_iff)
next
  assume c: "capability_ok c \<and> s = tool_capability_display c"
  let ?major = "show_nat (unat (tc_major c))"
  from c have seg: "is_segment (tc_namespace c)" "is_segment (tc_name c)" by (simp_all add: capability_ok_def)
  note ns = segment_separators [OF seg(1)] and nm = segment_separators [OF seg(2)]
  have 1: "split_once CHR ''@'' s = Some (tc_namespace c @ ''.'' @ tc_name c, ?major)"
    using c ns nm by (simp add: split_once_Some_iff tool_capability_display_def)
  have 2: "split_once CHR ''.'' (tc_namespace c @ ''.'' @ tc_name c) = Some (tc_namespace c, tc_name c)"
    using ns by (simp add: split_once_Some_iff)
  have 3: "parse_decimal ?major MAX_TOOL_MAJOR = Some (tc_major c)"
    using c by (simp add: parse_decimal_Some_iff capability_ok_def)
  show "tool_capability_parse s = Ok c"
    by (simp add: tool_capability_parse_def 1 2 [simplified] 3 seg nm show_nat_not_special)
qed

lemma tool_capability_new_Ok_iff:
  "tool_capability_new ns n m = Ok c \<longleftrightarrow>
     c = \<lparr>tc_namespace = ns, tc_name = n, tc_major = m\<rparr> \<and> capability_ok c"
  by (auto simp: tool_capability_new_def capability_ok_def word_gt_0)

definition version_ok :: "ToolVersion \<Rightarrow> bool" where
  "version_ok v =
     (case tv_pre_release v of
        None \<Rightarrow> True
      | Some pre \<Rightarrow> pre \<noteq> [] \<and> length pre \<le> MAX_TOOL_SEGMENT_BYTES \<and> list_all suffix_byte pre)"

lemma version_component_Ok_iff: "version_component s = Ok v \<longleftrightarrow> s = show_nat (unat v)"
proof -
  have "version_component s = Ok v \<longleftrightarrow> canonical_decimal s \<and> parse_u32_digits s = Some v"
    by (auto simp: version_component_def canonical_decimal_def split: if_splits)
  then show ?thesis using canonical_value_iff [of s v] by (simp add: parse_u32_digits_Some_iff)
qed

definition version_numbers :: "ToolVersion \<Rightarrow> string" where
  "version_numbers v = join_with CHR ''.''
     [show_nat (unat (tv_major v)), show_nat (unat (tv_minor v)), show_nat (unat (tv_patch v))]"

lemma version_numbers_split:
  "split_on CHR ''.'' (version_numbers v) =
     [show_nat (unat (tv_major v)), show_nat (unat (tv_minor v)), show_nat (unat (tv_patch v))]"
  unfolding version_numbers_def by (rule split_on_join) (simp_all add: show_nat_not_special)

lemma tool_version_display_alt:
  "tool_version_display v =
     version_numbers v @ (case tv_pre_release v of None \<Rightarrow> [] | Some pre \<Rightarrow> CHR ''-'' # pre)"
  by (simp add: tool_version_display_def version_numbers_def split: option.split)

lemma version_numbers_no_dash: "CHR ''-'' \<notin> set (version_numbers v)"
  by (simp add: version_numbers_def show_nat_not_special)

lemma version_tail:
  "(case split_on CHR ''.'' numbers of
      [major, minor, patch] \<Rightarrow>
        and_then (version_component major) (\<lambda>a.
        and_then (version_component minor) (\<lambda>b.
        and_then (version_component patch) (\<lambda>c.
        Ok \<lparr>tv_major = a, tv_minor = b, tv_patch = c, tv_pre_release = pre\<rparr>)))
    | _ \<Rightarrow> Err (ToolDefinitionInvalid ''version'')) = Ok v \<longleftrightarrow>
   numbers = version_numbers v \<and> tv_pre_release v = pre" (is "?L = Ok v \<longleftrightarrow> ?R")
proof
  assume L: "?L = Ok v"
  then obtain x y z where "split_on CHR ''.'' numbers = [x, y, z]"
    "version_component x = Ok (tv_major v)" "version_component y = Ok (tv_minor v)"
    "version_component z = Ok (tv_patch v)" "tv_pre_release v = pre"
    by (auto simp: and_then_Ok_iff split: list.splits)
  then show ?R by (simp add: split_on_eq_iff version_component_Ok_iff version_numbers_def)
next
  assume ?R
  moreover have "version_component (show_nat (unat w)) = Ok w" for w
    by (simp add: version_component_Ok_iff)
  ultimately show "?L = Ok v" by (auto simp: version_numbers_split)
qed

lemma tool_version_parse_Ok_iff:
  "tool_version_parse s = Ok v \<longleftrightarrow> version_ok v \<and> s = tool_version_display v"
proof (cases "split_once CHR ''-'' s")
  case None
  then have "tool_version_parse s = Ok v \<longleftrightarrow> s = version_numbers v \<and> tv_pre_release v = None"
    by (simp add: tool_version_parse_def version_tail)
  moreover have "CHR ''-'' \<notin> set s" using None by (simp add: split_once_None_iff)
  ultimately show ?thesis
    by (auto simp: tool_version_display_alt version_ok_def split: option.split)
next
  case (Some p)
  then obtain n x where p: "split_once CHR ''-'' s = Some (n, x)" by (cases p) auto
  then have s: "s = n @ CHR ''-'' # x" "CHR ''-'' \<notin> set n" by (simp_all add: split_once_Some_iff)
  have "tool_version_parse s = Ok v \<longleftrightarrow>
      x \<noteq> [] \<and> length x \<le> MAX_TOOL_SEGMENT_BYTES \<and> list_all suffix_byte x \<and>
      n = version_numbers v \<and> tv_pre_release v = Some x"
    using version_tail [where numbers = n and pre = "Some x"] by (auto simp: tool_version_parse_def p)
  also have "\<dots> \<longleftrightarrow> version_ok v \<and> s = tool_version_display v"
  proof (cases "tv_pre_release v")
    case None
    have "CHR ''-'' \<in> set s" using s(1) by simp
    then have "s \<noteq> version_numbers v" using version_numbers_no_dash [of v] by blast
    with None show ?thesis by (simp add: tool_version_display_alt)
  next
    case (Some y)
    then have "s = tool_version_display v \<longleftrightarrow> n = version_numbers v \<and> x = y"
      using s version_numbers_no_dash [of v] append_sep_inject [of n "CHR ''-''" x "version_numbers v" y]
      by (auto simp: tool_version_display_alt)
    with Some show ?thesis by (auto simp: version_ok_def)
  qed
  finally show ?thesis .
qed

lemma strip_prefix_Some_iff: "strip_prefix p s = Some t \<longleftrightarrow> s = p @ t"
  by (induction p s rule: strip_prefix.induct) auto

lemma schema_fingerprint_parse_Ok_iff:
  "schema_fingerprint_parse s = Ok f \<longleftrightarrow> length f = 32 \<and> s = schema_fingerprint_display f"
proof -
  have "schema_fingerprint_parse s = Ok f \<longleftrightarrow>
      (\<exists>hex. s = ''sha256:'' @ hex \<and> length hex = 64 \<and> list_all is_lower_hex hex \<and> f = parse_hex_bytes hex)"
    by (auto simp: schema_fingerprint_parse_def FINGERPRINT_ALGORITHM_def FINGERPRINT_HEX_LENGTH_def
        strip_prefix_Some_iff bind_eq_Some_conv split: option.splits if_splits)
  also have "\<dots> \<longleftrightarrow> length f = 32 \<and> s = schema_fingerprint_display f"
    using show_parse_hex parse_show_hex show_hex_lower
    by (auto simp: schema_fingerprint_display_def FINGERPRINT_ALGORITHM_def)
  finally show ?thesis .
qed

section \<open>Properties\<close>

text \<open>A capability name has one canonical spelling: the parser accepts a text exactly when it
  is what the display of some valid capability prints, and gives that capability back. So no
  two texts, with a leading zero or a second separator, name one capability.\<close>

theorem capability_spelling_is_canonical:
  "tool_capability_parse s = Ok c \<longleftrightarrow> capability_ok c \<and> s = tool_capability_display c"
  by (rule tool_capability_parse_Ok_iff)

text \<open>Versions and schema fingerprints round trip both ways as well: what parses prints back
  byte for byte, and what is printed parses to the value printed.\<close>

theorem version_and_fingerprint_round_trip:
  "(tool_version_parse s = Ok v \<longleftrightarrow> version_ok v \<and> s = tool_version_display v) \<and>
   (schema_fingerprint_parse t = Ok f \<longleftrightarrow> length f = 32 \<and> t = schema_fingerprint_display f)"
  by (simp add: tool_version_parse_Ok_iff schema_fingerprint_parse_Ok_iff)

end
