(* ===== verification/Tool_Classification.thy ===== *)
theory Tool_Classification
  imports Tool_Identity
begin

text \<open>
  \<open>tool/classification.rs\<close> and \<open>tool/error_class.rs\<close>: what a tool declares about itself
  (effects, risk, scopes, approval hint, idempotency, data classes, execution defaults) and how
  a failed call is classed, with the retry posture of each class. Every enumeration is an
  instance of \<open>spelling\<close>.
\<close>

section \<open>Effects and risk\<close>

definition MAX_TOOL_EFFECTS :: nat where "MAX_TOOL_EFFECTS = 8"
definition MAX_TOOL_SCOPES :: nat where "MAX_TOOL_SCOPES = 16"
definition MAX_SCOPE_BYTES :: nat where "MAX_SCOPE_BYTES = 128"

datatype Effect =
    ReadOnly | Write | ExternalCommunication | Destructive | CodeExecution | Financial | Privileged
  | Physical

definition effect_all :: "Effect list" where
  "effect_all =
     [Effect.ReadOnly, Effect.Write, Effect.ExternalCommunication, Effect.Destructive,
      Effect.CodeExecution, Effect.Financial, Effect.Privileged, Effect.Physical]"

primrec effect_as_contract_str :: "Effect \<Rightarrow> string" where
  "effect_as_contract_str Effect.ReadOnly = ''read_only''"
| "effect_as_contract_str Effect.Write = ''write''"
| "effect_as_contract_str Effect.ExternalCommunication = ''external_communication''"
| "effect_as_contract_str Effect.Destructive = ''destructive''"
| "effect_as_contract_str Effect.CodeExecution = ''code_execution''"
| "effect_as_contract_str Effect.Financial = ''financial''"
| "effect_as_contract_str Effect.Privileged = ''privileged''"
| "effect_as_contract_str Effect.Physical = ''physical''"

definition effect_parse :: "string \<Rightarrow> DomainError + Effect" where
  "effect_parse value =
     ok_or (find (\<lambda>e. effect_as_contract_str e = value) effect_all) (ToolDefinitionInvalid ''effects'')"

definition effect_is_consequential :: "Effect \<Rightarrow> bool" where
  "effect_is_consequential e \<longleftrightarrow>
     e = Effect.Destructive \<or> e = Effect.Financial \<or> e = Effect.Privileged \<or> e = Effect.Physical"

datatype Risk = Low | Moderate | High | Critical

definition risk_all :: "Risk list" where
  "risk_all = [Risk.Low, Risk.Moderate, Risk.High, Risk.Critical]"

primrec risk_rank :: "Risk \<Rightarrow> nat" where
  "risk_rank Risk.Low = 0"
| "risk_rank Risk.Moderate = 1"
| "risk_rank Risk.High = 2"
| "risk_rank Risk.Critical = 3"

primrec risk_as_contract_str :: "Risk \<Rightarrow> string" where
  "risk_as_contract_str Risk.Low = ''low''"
| "risk_as_contract_str Risk.Moderate = ''moderate''"
| "risk_as_contract_str Risk.High = ''high''"
| "risk_as_contract_str Risk.Critical = ''critical''"

definition risk_parse :: "string \<Rightarrow> DomainError + Risk" where
  "risk_parse value =
     (if value = ''low'' then Ok Risk.Low
      else if value = ''moderate'' then Ok Risk.Moderate
      else if value = ''high'' then Ok Risk.High
      else if value = ''critical'' then Ok Risk.Critical
      else Err (ToolDefinitionInvalid ''risk''))"

lemma risk_rank_inject: "risk_rank x = risk_rank y \<Longrightarrow> x = y"
  by (cases x; cases y) simp_all

instantiation Risk :: linorder
begin

definition less_eq_Risk :: "Risk \<Rightarrow> Risk \<Rightarrow> bool" where
  "less_eq_Risk x y \<longleftrightarrow> risk_rank x \<le> risk_rank y"

definition less_Risk :: "Risk \<Rightarrow> Risk \<Rightarrow> bool" where
  "less_Risk x y \<longleftrightarrow> risk_rank x < risk_rank y"

instance
  by standard (auto simp: less_eq_Risk_def less_Risk_def intro: risk_rank_inject)

end

section \<open>Scopes, hints, idempotency, data classes, execution\<close>

datatype Scope = Scope (scope_as_str: string)

definition scope_new :: "string \<Rightarrow> DomainError + Scope" where
  "scope_new value =
     (if value \<noteq> [] \<and> length value \<le> MAX_SCOPE_BYTES \<and>
         list_all (\<lambda>c. is_ascii_lowercase c \<or> is_ascii_digit c \<or> c = CHR ''.'' \<or> c = CHR ''_'' \<or>
                       c = CHR ''-'') value
      then Ok (Scope value) else Err (ToolDefinitionInvalid ''required_scopes''))"

datatype ApprovalHint = Allow | Ask | Deny

primrec approval_hint_as_contract_str :: "ApprovalHint \<Rightarrow> string" where
  "approval_hint_as_contract_str ApprovalHint.Allow = ''allow''"
| "approval_hint_as_contract_str ApprovalHint.Ask = ''ask''"
| "approval_hint_as_contract_str ApprovalHint.Deny = ''deny''"

definition approval_hint_parse :: "string \<Rightarrow> DomainError + ApprovalHint" where
  "approval_hint_parse value =
     (if value = ''allow'' then Ok ApprovalHint.Allow
      else if value = ''ask'' then Ok ApprovalHint.Ask
      else if value = ''deny'' then Ok ApprovalHint.Deny
      else Err (ToolDefinitionInvalid ''default_approval''))"

datatype Idempotency = NoIdempotency | CallerKeyed | NaturallyIdempotent

primrec idempotency_as_contract_str :: "Idempotency \<Rightarrow> string" where
  "idempotency_as_contract_str Idempotency.NoIdempotency = ''none''"
| "idempotency_as_contract_str Idempotency.CallerKeyed = ''caller_keyed''"
| "idempotency_as_contract_str Idempotency.NaturallyIdempotent = ''naturally_idempotent''"

definition idempotency_parse :: "string \<Rightarrow> DomainError + Idempotency" where
  "idempotency_parse value =
     (if value = ''none'' then Ok Idempotency.NoIdempotency
      else if value = ''caller_keyed'' then Ok Idempotency.CallerKeyed
      else if value = ''naturally_idempotent'' then Ok Idempotency.NaturallyIdempotent
      else Err (ToolDefinitionInvalid ''idempotency''))"

definition requires_caller_key :: "Idempotency \<Rightarrow> bool" where
  "requires_caller_key i \<longleftrightarrow> i = Idempotency.CallerKeyed"

record DataClasses =
  dc_input :: Sensitivity
  dc_output :: Sensitivity

definition data_classes_new :: "Sensitivity \<Rightarrow> Sensitivity \<Rightarrow> DomainError + DataClasses" where
  "data_classes_new inp out =
     (if out < inp then Err (ToolDefinitionInvalid ''data_classes'')
      else Ok \<lparr>dc_input = inp, dc_output = out\<rparr>)"

record ExecutionDefaults =
  xd_timeout_ms :: u64
  xd_max_attempts :: u32

definition MAX_TOOL_TIMEOUT_MS :: u64 where "MAX_TOOL_TIMEOUT_MS = 3600000"
definition MAX_TOOL_ATTEMPTS :: u32 where "MAX_TOOL_ATTEMPTS = 5"

definition execution_defaults_new :: "u64 \<Rightarrow> u32 \<Rightarrow> DomainError + ExecutionDefaults" where
  "execution_defaults_new timeout_ms max_attempts =
     (if timeout_ms = 0 \<or> timeout_ms > MAX_TOOL_TIMEOUT_MS
        then Err (ToolDefinitionInvalid ''timeout_ms'')
      else if max_attempts = 0 \<or> max_attempts > MAX_TOOL_ATTEMPTS
        then Err (ToolDefinitionInvalid ''max_attempts'')
      else Ok \<lparr>xd_timeout_ms = timeout_ms, xd_max_attempts = max_attempts\<rparr>)"

definition is_display_name :: "string \<Rightarrow> bool" where
  "is_display_name value \<longleftrightarrow>
     value \<noteq> [] \<and> length value \<le> MAX_TOOL_SEGMENT_BYTES * 2 \<and> \<not> has_control value"

section \<open>Error classes\<close>

datatype RetryPosture = Never | Safe | OnlyIfIdempotent

datatype ToolErrorClass =
    NotFound | Unavailable | SchemaInvalid | PermissionDenied | ApprovalRequired | ApprovalRejected
  | ApprovalExpired | Conflict | RateLimited | Timeout | Cancelled | ProviderAuth | ProviderError
  | OutputInvalid | OutcomeAmbiguous | LimitExceeded

definition error_class_all :: "ToolErrorClass list" where
  "error_class_all =
     [ToolErrorClass.NotFound, ToolErrorClass.Unavailable, ToolErrorClass.SchemaInvalid,
      ToolErrorClass.PermissionDenied, ToolErrorClass.ApprovalRequired,
      ToolErrorClass.ApprovalRejected, ToolErrorClass.ApprovalExpired, ToolErrorClass.Conflict,
      ToolErrorClass.RateLimited, ToolErrorClass.Timeout, ToolErrorClass.Cancelled,
      ToolErrorClass.ProviderAuth, ToolErrorClass.ProviderError, ToolErrorClass.OutputInvalid,
      ToolErrorClass.OutcomeAmbiguous, ToolErrorClass.LimitExceeded]"

primrec error_class_as_contract_str :: "ToolErrorClass \<Rightarrow> string" where
  "error_class_as_contract_str ToolErrorClass.NotFound = ''tool.not_found''"
| "error_class_as_contract_str ToolErrorClass.Unavailable = ''tool.unavailable''"
| "error_class_as_contract_str ToolErrorClass.SchemaInvalid = ''tool.schema_invalid''"
| "error_class_as_contract_str ToolErrorClass.PermissionDenied = ''tool.permission_denied''"
| "error_class_as_contract_str ToolErrorClass.ApprovalRequired = ''tool.approval_required''"
| "error_class_as_contract_str ToolErrorClass.ApprovalRejected = ''tool.approval_rejected''"
| "error_class_as_contract_str ToolErrorClass.ApprovalExpired = ''tool.approval_expired''"
| "error_class_as_contract_str ToolErrorClass.Conflict = ''tool.conflict''"
| "error_class_as_contract_str ToolErrorClass.RateLimited = ''tool.rate_limited''"
| "error_class_as_contract_str ToolErrorClass.Timeout = ''tool.timeout''"
| "error_class_as_contract_str ToolErrorClass.Cancelled = ''tool.cancelled''"
| "error_class_as_contract_str ToolErrorClass.ProviderAuth = ''tool.provider_auth''"
| "error_class_as_contract_str ToolErrorClass.ProviderError = ''tool.provider_error''"
| "error_class_as_contract_str ToolErrorClass.OutputInvalid = ''tool.output_invalid''"
| "error_class_as_contract_str ToolErrorClass.OutcomeAmbiguous = ''tool.outcome_ambiguous''"
| "error_class_as_contract_str ToolErrorClass.LimitExceeded = ''tool.limit_exceeded''"

definition error_class_parse :: "string \<Rightarrow> DomainError + ToolErrorClass" where
  "error_class_parse value =
     ok_or (find (\<lambda>c. error_class_as_contract_str c = value) error_class_all)
       (ToolDefinitionInvalid ''error_class'')"

primrec retry_posture :: "ToolErrorClass \<Rightarrow> RetryPosture" where
  "retry_posture ToolErrorClass.NotFound = RetryPosture.Never"
| "retry_posture ToolErrorClass.Unavailable = RetryPosture.Safe"
| "retry_posture ToolErrorClass.SchemaInvalid = RetryPosture.Never"
| "retry_posture ToolErrorClass.PermissionDenied = RetryPosture.Never"
| "retry_posture ToolErrorClass.ApprovalRequired = RetryPosture.Never"
| "retry_posture ToolErrorClass.ApprovalRejected = RetryPosture.Never"
| "retry_posture ToolErrorClass.ApprovalExpired = RetryPosture.Never"
| "retry_posture ToolErrorClass.Conflict = RetryPosture.Never"
| "retry_posture ToolErrorClass.RateLimited = RetryPosture.Safe"
| "retry_posture ToolErrorClass.Timeout = RetryPosture.OnlyIfIdempotent"
| "retry_posture ToolErrorClass.Cancelled = RetryPosture.Never"
| "retry_posture ToolErrorClass.ProviderAuth = RetryPosture.Never"
| "retry_posture ToolErrorClass.ProviderError = RetryPosture.OnlyIfIdempotent"
| "retry_posture ToolErrorClass.OutputInvalid = RetryPosture.Never"
| "retry_posture ToolErrorClass.OutcomeAmbiguous = RetryPosture.Never"
| "retry_posture ToolErrorClass.LimitExceeded = RetryPosture.Never"

definition retryable_for :: "ToolErrorClass \<Rightarrow> Idempotency \<Rightarrow> bool" where
  "retryable_for self idempotency =
     (case retry_posture self of
        RetryPosture.Never \<Rightarrow> False
      | RetryPosture.Safe \<Rightarrow> True
      | RetryPosture.OnlyIfIdempotent \<Rightarrow> idempotency \<noteq> Idempotency.NoIdempotency)"

definition error_class_is_unsettled :: "ToolErrorClass \<Rightarrow> bool" where
  "error_class_is_unsettled c \<longleftrightarrow>
     c = ToolErrorClass.Timeout \<or> c = ToolErrorClass.ProviderError \<or> c = ToolErrorClass.OutcomeAmbiguous"

section \<open>Spellings\<close>

interpretation effect_spelling: spelling effect_all effect_as_contract_str "\<lambda>s. ok (effect_parse s)"
proof
  show "x \<in> set effect_all" for x by (cases x) (simp_all add: effect_all_def)
qed (simp_all add: effect_all_def effect_parse_def)

interpretation risk_spelling: spelling risk_all risk_as_contract_str "\<lambda>s. ok (risk_parse s)"
proof
  show "x \<in> set risk_all" for x by (cases x) (simp_all add: risk_all_def)
qed (auto simp: risk_all_def risk_parse_def)

interpretation hint_spelling: spelling "[ApprovalHint.Allow, ApprovalHint.Ask, ApprovalHint.Deny]"
  approval_hint_as_contract_str "\<lambda>s. ok (approval_hint_parse s)"
proof
  show "x \<in> set [ApprovalHint.Allow, ApprovalHint.Ask, ApprovalHint.Deny]" for x by (cases x) simp_all
qed (auto simp: approval_hint_parse_def)

interpretation idempotency_spelling: spelling
  "[Idempotency.NoIdempotency, Idempotency.CallerKeyed, Idempotency.NaturallyIdempotent]"
  idempotency_as_contract_str "\<lambda>s. ok (idempotency_parse s)"
proof
  show "x \<in> set [Idempotency.NoIdempotency, Idempotency.CallerKeyed, Idempotency.NaturallyIdempotent]"
    for x by (cases x) simp_all
qed (auto simp: idempotency_parse_def)

interpretation error_class_spelling: spelling error_class_all error_class_as_contract_str
  "\<lambda>s. ok (error_class_parse s)"
proof
  show "x \<in> set error_class_all" for x by (cases x) (simp_all add: error_class_all_def)
qed (simp_all add: error_class_all_def error_class_parse_def)

section \<open>Properties\<close>

text \<open>A call whose effect may have landed is never retried blindly: a class that leaves the
  outcome unsettled is retryable only for a tool that declares itself idempotent, and an
  ambiguous outcome for none; no other class's verdict depends on what the tool declares.\<close>

theorem unsettled_never_retried_blindly:
  "(error_class_is_unsettled c \<longrightarrow> \<not> retryable_for c Idempotency.NoIdempotency) \<and>
   \<not> retryable_for ToolErrorClass.OutcomeAmbiguous i \<and>
   (\<not> error_class_is_unsettled c \<longrightarrow> retryable_for c i = retryable_for c j)"
  by (cases c) (simp_all add: error_class_is_unsettled_def retryable_for_def)

theorem unsettled_never_retried_blindly_witness:
  "\<not> retryable_for ToolErrorClass.Timeout Idempotency.NoIdempotency \<and>
   retryable_for ToolErrorClass.Unavailable Idempotency.NoIdempotency"
  using unsettled_never_retried_blindly [of ToolErrorClass.Timeout Idempotency.NoIdempotency Idempotency.CallerKeyed]
    unsettled_never_retried_blindly [of ToolErrorClass.Unavailable Idempotency.NoIdempotency Idempotency.CallerKeyed]
  by (simp add: error_class_is_unsettled_def retryable_for_def)

text \<open>The stored spellings of effects, risks and error classes each name one member, and
  parsing reads back exactly what was written and refuses every other text.\<close>

theorem tool_spellings_round_trip:
  "effect_parse (effect_as_contract_str e) = Ok e \<and> risk_parse (risk_as_contract_str r) = Ok r \<and>
   error_class_parse (error_class_as_contract_str c) = Ok c \<and>
   (ok (effect_parse s) = None \<longleftrightarrow> s \<notin> range effect_as_contract_str) \<and>
   (ok (risk_parse s) = None \<longleftrightarrow> s \<notin> range risk_as_contract_str) \<and>
   (ok (error_class_parse s) = None \<longleftrightarrow> s \<notin> range error_class_as_contract_str)"
  by (metis effect_spelling.parse_as_str effect_spelling.parse_None_iff risk_spelling.parse_as_str
      risk_spelling.parse_None_iff error_class_spelling.parse_as_str
      error_class_spelling.parse_None_iff ok_Some_iff)

end
