(* ===== verification/Tool_Call_Body.thy ===== *)
theory Tool_Call_Body
  imports Tool_Classification
begin

text \<open>
  \<open>tool/call.rs\<close>: the bounded texts and bodies of a tool call and its result. \<open>iter().sum()\<close>
  of \<open>u64\<close> values wraps in a release build, which is what the sum of words does here.
\<close>

definition MAX_ARGUMENT_BYTES :: nat where "MAX_ARGUMENT_BYTES = 64 * 1024"
definition MAX_RESULT_BYTES :: nat where "MAX_RESULT_BYTES = 256 * 1024"
definition MAX_RESULT_BLOCKS :: nat where "MAX_RESULT_BLOCKS = 64"
definition MAX_PROVIDER_REFERENCE_BYTES :: nat where "MAX_PROVIDER_REFERENCE_BYTES = 256"

definition usable_text :: "string \<Rightarrow> nat \<Rightarrow> bool" where
  "usable_text value limit \<longleftrightarrow> value \<noteq> [] \<and> length value \<le> limit \<and> \<not> contains_nul value"

datatype ToolArguments = ToolArguments (arguments_as_str: string)

definition tool_arguments_new :: "string \<Rightarrow> DomainError + ToolArguments" where
  "tool_arguments_new value =
     (if \<not> usable_text value MAX_ARGUMENT_BYTES then Err (ToolDefinitionInvalid ''arguments'')
      else Ok (ToolArguments value))"

datatype ResultPayload = ResultPayload (payload_as_str: string)

definition result_payload_new :: "string \<Rightarrow> DomainError + ResultPayload" where
  "result_payload_new value =
     (if \<not> usable_text value MAX_RESULT_BYTES then Err (ToolDefinitionInvalid ''content'')
      else Ok (ResultPayload value))"

datatype ContentBlock = Json ResultPayload | Text ResultPayload | Artifact string string u64

definition content_block_json :: "string \<Rightarrow> DomainError + ContentBlock" where
  "content_block_json value = and_then (result_payload_new value) (\<lambda>p. Ok (ContentBlock.Json p))"

definition content_block_text :: "string \<Rightarrow> DomainError + ContentBlock" where
  "content_block_text value = and_then (result_payload_new value) (\<lambda>p. Ok (ContentBlock.Text p))"

definition content_block_artifact :: "string \<Rightarrow> string \<Rightarrow> u64 \<Rightarrow> DomainError + ContentBlock" where
  "content_block_artifact ident media_type sz =
     (if \<not> usable_text ident MAX_PROVIDER_REFERENCE_BYTES \<or>
         \<not> usable_text media_type MAX_PROVIDER_REFERENCE_BYTES
        then Err (ToolDefinitionInvalid ''artifact'')
      else if sz = 0 then Err (ToolDefinitionInvalid ''artifact.size'')
      else Ok (ContentBlock.Artifact ident media_type sz))"

primrec block_size_bytes :: "ContentBlock \<Rightarrow> u64" where
  "block_size_bytes (ContentBlock.Json p) = of_nat (length (payload_as_str p))"
| "block_size_bytes (ContentBlock.Text p) = of_nat (length (payload_as_str p))"
| "block_size_bytes (ContentBlock.Artifact _ _ sz) = sz"

record ToolResultBody =
  rb_content :: "ContentBlock list"
  rb_provider_reference :: "string option"
  rb_sensitivity :: Sensitivity

definition body_size_bytes :: "ToolResultBody \<Rightarrow> u64" where
  "body_size_bytes b = sum_list (map block_size_bytes (rb_content b))"

definition body_is_within_bound :: "ToolResultBody \<Rightarrow> bool" where
  "body_is_within_bound b \<longleftrightarrow> body_size_bytes b \<le> of_nat MAX_RESULT_BYTES"

definition body_has_artifacts :: "ToolResultBody \<Rightarrow> bool" where
  "body_has_artifacts b =
     list_ex (\<lambda>x. case x of ContentBlock.Artifact _ _ _ \<Rightarrow> True | _ \<Rightarrow> False) (rb_content b)"

definition tool_result_body_new ::
  "ContentBlock list \<Rightarrow> string option \<Rightarrow> Sensitivity \<Rightarrow> DomainError + ToolResultBody"
where
  "tool_result_body_new content provider_reference sensitivity =
     (if content = [] then Err (ToolDefinitionInvalid ''content'')
      else if length content > MAX_RESULT_BLOCKS then Err (ToolDefinitionInvalid ''content'')
      else if is_some_and provider_reference (\<lambda>r. \<not> usable_text r MAX_PROVIDER_REFERENCE_BYTES)
        then Err (ToolDefinitionInvalid ''provider_reference'')
      else
        (let body = \<lparr>rb_content = content, rb_provider_reference = provider_reference,
                     rb_sensitivity = sensitivity\<rparr>
         in if \<not> body_is_within_bound body then Err (ToolDefinitionInvalid ''result'') else Ok body))"

record ToolCallIntent =
  tci_call_id :: uuid
  tci_capability :: string
  tci_arguments :: ToolArguments
  tci_reason_summary :: "string option"

definition tool_call_intent_new ::
  "uuid \<Rightarrow> string \<Rightarrow> ToolArguments \<Rightarrow> string option \<Rightarrow> DomainError + ToolCallIntent"
where
  "tool_call_intent_new call_id capability arguments reason_summary =
     (if \<not> usable_text capability (MAX_TOOL_SEGMENT_BYTES * 3)
        then Err (ToolDefinitionInvalid ''capability'')
      else if is_some_and reason_summary (\<lambda>r. \<not> usable_text r MAX_PROVIDER_REFERENCE_BYTES)
        then Err (ToolDefinitionInvalid ''reason_summary'')
      else Ok \<lparr>tci_call_id = call_id, tci_capability = capability, tci_arguments = arguments,
               tci_reason_summary = reason_summary\<rparr>)"

section \<open>What an accepted body bounds\<close>

definition block_ok :: "ContentBlock \<Rightarrow> bool" where
  "block_ok b =
     (case b of
        ContentBlock.Json p \<Rightarrow> usable_text (payload_as_str p) MAX_RESULT_BYTES
      | ContentBlock.Text p \<Rightarrow> usable_text (payload_as_str p) MAX_RESULT_BYTES
      | ContentBlock.Artifact i m sz \<Rightarrow>
          usable_text i MAX_PROVIDER_REFERENCE_BYTES \<and> usable_text m MAX_PROVIDER_REFERENCE_BYTES \<and> sz \<noteq> 0)"

lemma block_constructors_ok:
  "content_block_json s = Ok b \<Longrightarrow> block_ok b"
  "content_block_text s = Ok b \<Longrightarrow> block_ok b"
  "content_block_artifact i m sz = Ok b \<Longrightarrow> block_ok b"
  by (auto simp: content_block_json_def content_block_text_def content_block_artifact_def
      result_payload_new_def block_ok_def and_then_Ok_iff split: if_splits)

fun payload_bytes :: "ContentBlock \<Rightarrow> nat" where
  "payload_bytes (ContentBlock.Json p) = length (payload_as_str p)"
| "payload_bytes (ContentBlock.Text p) = length (payload_as_str p)"
| "payload_bytes (ContentBlock.Artifact _ _ _) = 0"

lemma payload_block_size:
  assumes "block_ok b" and "\<not> (case b of ContentBlock.Artifact _ _ _ \<Rightarrow> True | _ \<Rightarrow> False)"
  shows "unat (block_size_bytes b) = payload_bytes b" and "payload_bytes b \<le> MAX_RESULT_BYTES"
proof -
  have "payload_bytes b \<le> MAX_RESULT_BYTES"
    using assms by (cases b) (auto simp: block_ok_def usable_text_def)
  then show "payload_bytes b \<le> MAX_RESULT_BYTES" .
  then have "payload_bytes b mod 2 ^ 64 = payload_bytes b" by (simp add: MAX_RESULT_BYTES_def)
  moreover have "block_size_bytes b = of_nat (payload_bytes b)" using assms by (cases b) simp_all
  ultimately show "unat (block_size_bytes b) = payload_bytes b"
    by (simp only: unat_of_nat) simp
qed

lemma inline_sum:
  assumes "list_all block_ok bs"
    and "\<not> list_ex (\<lambda>x. case x of ContentBlock.Artifact _ _ _ \<Rightarrow> True | _ \<Rightarrow> False) bs"
    and "length bs \<le> MAX_RESULT_BLOCKS"
  shows "unat (sum_list (map block_size_bytes bs)) = sum_list (map payload_bytes bs) \<and>
    sum_list (map payload_bytes bs) \<le> length bs * MAX_RESULT_BYTES"
  using assms
proof (induction bs)
  case Nil
  then show ?case by simp
next
  case (Cons b bs)
  then have IH: "unat (sum_list (map block_size_bytes bs)) = sum_list (map payload_bytes bs)"
      "sum_list (map payload_bytes bs) \<le> length bs * MAX_RESULT_BYTES"
    by simp_all
  have b: "unat (block_size_bytes b) = payload_bytes b" "payload_bytes b \<le> MAX_RESULT_BYTES"
    using payload_block_size [of b] Cons.prems by simp_all
  have le: "payload_bytes b + sum_list (map payload_bytes bs) \<le> length (b # bs) * MAX_RESULT_BYTES"
    using IH(2) b(2) by simp
  also have "\<dots> \<le> 64 * MAX_RESULT_BYTES" using Cons.prems(3) by (simp add: MAX_RESULT_BLOCKS_def)
  finally have "(payload_bytes b + sum_list (map payload_bytes bs)) mod 2 ^ 64 =
      payload_bytes b + sum_list (map payload_bytes bs)"
    by (simp add: MAX_RESULT_BYTES_def)
  with le IH(1) b(1) show ?case by (simp add: unat_word_ariths)
qed

text \<open>A result without artifacts that the constructor accepts really is within its bound:
  between 1 and 64 blocks whose payloads together have at most 256 KiB, with no wrap-around in
  the size it computed.\<close>

theorem inline_result_is_bounded:
  assumes "list_all block_ok content" and "tool_result_body_new content r s = Ok body"
    and "\<not> body_has_artifacts body"
  shows "0 < length (rb_content body) \<and> length (rb_content body) \<le> 64 \<and>
    sum_list (map payload_bytes (rb_content body)) \<le> 262144 \<and>
    unat (body_size_bytes body) = sum_list (map payload_bytes (rb_content body))"
proof -
  from assms(2) have c: "rb_content body = content" "content \<noteq> []" "length content \<le> MAX_RESULT_BLOCKS"
      "body_size_bytes body \<le> of_nat MAX_RESULT_BYTES"
    by (auto simp: tool_result_body_new_def Let_def body_is_within_bound_def split: if_splits)
  with assms(1,3) inline_sum [of content]
  have s: "unat (body_size_bytes body) = sum_list (map payload_bytes content)"
    by (simp add: body_size_bytes_def body_has_artifacts_def)
  from c(4) have "unat (body_size_bytes body) \<le> 262144"
    by (simp add: word_le_nat_alt MAX_RESULT_BYTES_def)
  with s c show ?thesis by (simp add: MAX_RESULT_BLOCKS_def)
qed

theorem inline_result_is_bounded_witness:
  "sum_list (map payload_bytes [ContentBlock.Text (ResultPayload ''ok'')]) \<le> 262144"
  using inline_result_is_bounded
    [of "[ContentBlock.Text (ResultPayload ''ok'')]" None Sensitivity.Public
        "\<lparr>rb_content = [ContentBlock.Text (ResultPayload ''ok'')], rb_provider_reference = None,
          rb_sensitivity = Sensitivity.Public\<rparr>"]
  by (simp add: block_ok_def usable_text_def contains_nul_def byte_def tool_result_body_new_def
      Let_def body_is_within_bound_def body_size_bytes_def body_has_artifacts_def
      MAX_RESULT_BYTES_def MAX_RESULT_BLOCKS_def word_le_nat_alt)

text \<open>With artifacts the bound can be passed by: the sizes are summed with wrap-around, so two
  valid artifacts of 2^63 bytes each make a body of size 0, and it is accepted.\<close>

theorem artifact_sizes_wrap:
  assumes "content_block_artifact i m (2 ^ 63) = Ok a"
  shows "\<exists>body. tool_result_body_new [a, a] None s = Ok body \<and> body_size_bytes body = 0 \<and>
    sum_list (map (\<lambda>b. unat (block_size_bytes b)) (rb_content body)) = 2 ^ 64"
proof -
  from assms have a: "a = ContentBlock.Artifact i m (2 ^ 63)"
    by (simp add: content_block_artifact_def split: if_splits)
  then show ?thesis
    by (simp add: tool_result_body_new_def Let_def body_is_within_bound_def body_size_bytes_def
        MAX_RESULT_BLOCKS_def MAX_RESULT_BYTES_def word_le_nat_alt)
qed

theorem artifact_sizes_wrap_witness:
  "\<exists>body. tool_result_body_new
       [ContentBlock.Artifact ''a'' ''b'' (2 ^ 63), ContentBlock.Artifact ''a'' ''b'' (2 ^ 63)]
       None Sensitivity.Public = Ok body"
  using artifact_sizes_wrap
    [of "''a''" "''b''" "ContentBlock.Artifact ''a'' ''b'' (2 ^ 63)" Sensitivity.Public]
  by (auto simp: content_block_artifact_def usable_text_def contains_nul_def byte_def
      MAX_PROVIDER_REFERENCE_BYTES_def)

end
