(* ===== verification/Tool_Canonical.thy ===== *)
theory Tool_Canonical
  imports Tool_Call_Body "HOL-Library.AList"
begin

text \<open>
  \<open>tool/canonical.rs\<close>: the envelope that names one action (who, where, which tool, with which
  effects, risk and arguments), its canonical text, and the digest an approval is bound to. The
  digest itself is SHA-256 of the canonical text, computed outside this crate; what the domain
  is responsible for is that two different actions never share a canonical text.

  The text of an identifier comes from the UUID library: it is the argument \<open>show_id\<close>.
\<close>

section \<open>The envelope\<close>

definition FINGERPRINT_FORMAT_VERSION :: string where "FINGERPRINT_FORMAT_VERSION = ''1''"
definition MAX_FINGERPRINT_FIELDS :: nat where "MAX_FINGERPRINT_FIELDS = 64"
definition MAX_FINGERPRINT_KEY_BYTES :: nat where "MAX_FINGERPRINT_KEY_BYTES = 128"
definition MAX_FINGERPRINT_VALUE_BYTES :: nat where "MAX_FINGERPRINT_VALUE_BYTES = MAX_ARGUMENT_BYTES"

datatype FingerprintError = UnusableKey | UnusableValue | TooManyFields

primrec fingerprint_error_code :: "FingerprintError \<Rightarrow> string" where
  "fingerprint_error_code UnusableKey = ''tool.fingerprint_key_invalid''"
| "fingerprint_error_code UnusableValue = ''tool.fingerprint_value_invalid''"
| "fingerprint_error_code TooManyFields = ''tool.fingerprint_too_many_fields''"

definition is_usable_key :: "string \<Rightarrow> bool" where
  "is_usable_key value \<longleftrightarrow> value \<noteq> [] \<and> length value \<le> MAX_FINGERPRINT_KEY_BYTES \<and>
     \<not> contains_nul value \<and> \<not> has_control value"

definition is_usable_value :: "string \<Rightarrow> bool" where
  "is_usable_value value \<longleftrightarrow> length value \<le> MAX_FINGERPRINT_VALUE_BYTES \<and> \<not> contains_nul value"

record FingerprintParts =
  fp_version :: string
  fp_identity :: ToolIdentity
  fp_workspace :: uuid
  fp_principal :: uuid
  fp_effects :: "Effect list"
  fp_risk :: Risk
  fp_arguments :: ToolArguments

text \<open>The \<open>BTreeMap\<close> of fields, as an association list in insertion order.\<close>

type_synonym FingerprintFields = "(string \<times> string) list"

definition fingerprint_insert ::
  "FingerprintFields \<Rightarrow> string \<Rightarrow> string \<Rightarrow> FingerprintError + FingerprintFields"
where
  "fingerprint_insert fs key value =
     (if \<not> is_usable_key key \<or> key \<in> set (map fst fs) then Err UnusableKey
      else if \<not> is_usable_value value then Err UnusableValue
      else if length fs \<ge> MAX_FINGERPRINT_FIELDS then Err TooManyFields
      else Ok (fs @ [(key, value)]))"

fun join_comma :: "string list \<Rightarrow> string" where
  "join_comma ss = join_with CHR '','' ss"

definition effects_text :: "Effect list \<Rightarrow> string" where
  "effects_text effects = join_comma (remdups_adj (sort (map effect_as_contract_str effects)))"

definition fingerprint_fields :: "(uuid \<Rightarrow> string) \<Rightarrow> FingerprintParts \<Rightarrow> (string \<times> string) list" where
  "fingerprint_fields show_id parts =
     [(''fingerprint_version'', fp_version parts),
      (''principal'', show_id (fp_principal parts)),
      (''workspace'', show_id (fp_workspace parts)),
      (''tool_capability'', tool_capability_display (ti_capability (fp_identity parts))),
      (''tool_source'', tool_source_display (ti_source (fp_identity parts))),
      (''schema_fingerprint'', schema_fingerprint_display (ti_schema_fingerprint (fp_identity parts))),
      (''effects'', effects_text (fp_effects parts)),
      (''risk'', risk_as_contract_str (fp_risk parts)),
      (''arguments'', arguments_as_str (fp_arguments parts))]"

text \<open>\<open>FingerprintInput::new\<close> inserts the nine fields one after another, stopping at the first
  refusal.\<close>

fun insert_all :: "FingerprintFields \<Rightarrow> (string \<times> string) list \<Rightarrow> FingerprintError + FingerprintFields" where
  "insert_all fs [] = Ok fs"
| "insert_all fs ((k, v) # rest) =
     and_then (fingerprint_insert fs k v) (\<lambda>next. insert_all next rest)"

definition fingerprint_input_new ::
  "(uuid \<Rightarrow> string) \<Rightarrow> FingerprintParts \<Rightarrow> FingerprintError + FingerprintFields"
where
  "fingerprint_input_new show_id parts =
     and_then (insert_all [] (fingerprint_fields show_id parts)) (\<lambda>fs.
       if length fs > MAX_FINGERPRINT_FIELDS then Err TooManyFields else Ok fs)"

section \<open>The canonical text\<close>

text \<open>\<open>encode_utf16\<close> of well-formed UTF-8: decode each character, then one unit, or two surrogates.\<close>

fun utf8_points :: "nat list \<Rightarrow> nat list" where
  "utf8_points [] = []"
| "utf8_points (a # bs) =
     (if a < 128 then a # utf8_points bs
      else if a < 224 then
        (case bs of b # cs \<Rightarrow> ((a - 192) * 64 + (b - 128)) # utf8_points cs | _ \<Rightarrow> [])
      else if a < 240 then
        (case bs of b # c # ds \<Rightarrow>
           ((a - 224) * 4096 + (b - 128) * 64 + (c - 128)) # utf8_points ds | _ \<Rightarrow> [])
      else
        (case bs of b # c # d # es \<Rightarrow>
           ((a - 240) * 262144 + (b - 128) * 4096 + (c - 128) * 64 + (d - 128)) # utf8_points es
         | _ \<Rightarrow> []))"

definition utf16_of_point :: "nat \<Rightarrow> nat list" where
  "utf16_of_point p =
     (if p < 65536 then [p] else [55296 + (p - 65536) div 1024, 56320 + (p - 65536) mod 1024])"

definition utf16_units :: "string \<Rightarrow> nat list" where
  "utf16_units s = concat (map utf16_of_point (utf8_points (map byte s)))"

text \<open>\<open>compare_utf16\<close> compares the unit sequences lexicographically, the shorter first.\<close>

fun compare_units :: "nat list \<Rightarrow> nat list \<Rightarrow> int" where
  "compare_units [] [] = 0"
| "compare_units [] (_ # _) = - 1"
| "compare_units (_ # _) [] = 1"
| "compare_units (a # as) (b # bs) = (if a = b then compare_units as bs else if a < b then - 1 else 1)"

definition compare_utf16 :: "string \<Rightarrow> string \<Rightarrow> int" where
  "compare_utf16 l r = compare_units (utf16_units l) (utf16_units r)"

text \<open>Every character \<open>escape_into\<close> treats specially is one byte of UTF-8, and no byte of a longer
  encoding equals one, so escaping byte by byte is escaping character by character.\<close>

definition escape_byte :: "char \<Rightarrow> string" where
  "escape_byte c =
     (if byte c = 34 then [CHR 0x5C, CHR 0x22]
      else if byte c = 92 then [CHR 0x5C, CHR 0x5C]
      else if byte c = 8 then [CHR 0x5C, CHR ''b'']
      else if byte c = 9 then [CHR 0x5C, CHR ''t'']
      else if byte c = 10 then [CHR 0x5C, CHR ''n'']
      else if byte c = 12 then [CHR 0x5C, CHR ''f'']
      else if byte c = 13 then [CHR 0x5C, CHR ''r'']
      else if byte c < 32 then
        [CHR 0x5C, CHR ''u'', CHR ''0'', CHR ''0'', hex_char (byte c div 16), hex_char (byte c mod 16)]
      else [c])"

definition escape_text :: "string \<Rightarrow> string" where
  "escape_text value = CHR 0x22 # concat (map escape_byte value) @ [CHR 0x22]"

text \<open>The keys of the \<open>BTreeMap\<close> come in byte order; \<open>sort_by\<close> then sorts them stably by UTF-16.\<close>

definition canonical_names :: "FingerprintFields \<Rightarrow> string list" where
  "canonical_names fs = sort_key utf16_units (sort (map fst fs))"

definition canonical_form :: "FingerprintFields \<Rightarrow> string" where
  "canonical_form fs =
     ''{'' @
     join_comma (map (\<lambda>name. escape_text name @ '':'' @ escape_text (the (map_of fs name)))
                   (canonical_names fs)) @
     ''}''"

section \<open>Digests\<close>

type_synonym ActionDigest = "u8 list"

definition action_digest_parse :: "string \<Rightarrow> FingerprintError + ActionDigest" where
  "action_digest_parse value =
     (case Option.bind (strip_prefix FINGERPRINT_ALGORITHM value) (strip_prefix '':'') of
        None \<Rightarrow> Err UnusableValue
      | Some hex \<Rightarrow>
          (if length hex \<noteq> FINGERPRINT_HEX_LENGTH \<or> \<not> list_all is_lower_hex hex then Err UnusableValue
           else Ok (parse_hex_bytes hex)))"

definition action_digest_display :: "ActionDigest \<Rightarrow> string" where
  "action_digest_display d = FINGERPRINT_ALGORITHM @ '':'' @ show_hex_bytes d"

section \<open>Escaping can be undone\<close>

lemma compare_utf16_order:
  "compare_utf16 l r < 0 \<longleftrightarrow> utf16_units l < utf16_units r"
  "compare_utf16 l r = 0 \<longleftrightarrow> utf16_units l = utf16_units r"
proof -
  have "(compare_units x y < 0 \<longleftrightarrow> x < y) \<and> (compare_units x y = 0 \<longleftrightarrow> x = y)" for x y
    by (induction x y rule: compare_units.induct) auto
  then show "compare_utf16 l r < 0 \<longleftrightarrow> utf16_units l < utf16_units r"
    "compare_utf16 l r = 0 \<longleftrightarrow> utf16_units l = utf16_units r"
    by (simp_all add: compare_utf16_def)
qed

definition read_byte :: "string \<Rightarrow> (char \<times> string) option" where
  "read_byte s =
     (case s of
        [] \<Rightarrow> None
      | c # r \<Rightarrow>
          (if byte c = 92 then
             (case r of
                [] \<Rightarrow> None
              | d # r2 \<Rightarrow>
                  (if byte d = 34 \<or> byte d = 92 then Some (d, r2)
                   else if d = CHR ''b'' then Some (char_of (8 :: nat), r2)
                   else if d = CHR ''t'' then Some (char_of (9 :: nat), r2)
                   else if d = CHR ''n'' then Some (char_of (10 :: nat), r2)
                   else if d = CHR ''f'' then Some (char_of (12 :: nat), r2)
                   else if d = CHR ''r'' then Some (char_of (13 :: nat), r2)
                   else (case r2 of
                           _ # _ # x # y # r3 \<Rightarrow> Some (char_of (hex_value x * 16 + hex_value y), r3)
                         | _ \<Rightarrow> None)))
           else Some (c, r)))"

lemma byte_literals:
  "byte (CHR 0x5C) = 92" "byte (CHR 0x22) = 34" "byte CHR ''b'' = 98" "byte CHR ''t'' = 116"
  "byte CHR ''n'' = 110" "byte CHR ''f'' = 102" "byte CHR ''r'' = 114" "byte CHR ''u'' = 117"
  by (simp_all add: byte_def)

lemma char_of_byte: "char_of (byte c) = c"
  by (simp add: byte_def)

lemma byte_inject: "byte c = byte d \<longleftrightarrow> c = d"
  by (metis char_of_byte)

lemma read_escape: "read_byte (escape_byte c @ r) = Some (c, r)"
proof -
  have hex: "byte c < 32 \<Longrightarrow> hex_value (hex_char (byte c div 16)) * 16 + hex_value (hex_char (byte c mod 16)) = byte c"
    by simp
  have q: "c = CHR 0x22" if "byte c = 34" using that byte_inject [of c "CHR 0x22"] byte_literals by simp
  have b: "c = CHR 0x5C" if "byte c = 92" using that byte_inject [of c "CHR 0x5C"] byte_literals by simp
  show ?thesis
    using q b hex char_of_byte [of c]
    by (auto simp: escape_byte_def read_byte_def byte_literals)
qed

lemma escape_byte_head: "escape_byte c @ r \<noteq> CHR 0x22 # s"
  by (auto simp: escape_byte_def byte_literals)

lemma escape_body_inject:
  "concat (map escape_byte a) @ CHR 0x22 # r = concat (map escape_byte b) @ CHR 0x22 # s \<Longrightarrow> a = b \<and> r = s"
proof (induction a arbitrary: b)
  case Nil
  show ?case
  proof (cases b)
    case (Cons c b')
    with Nil have "escape_byte c @ (concat (map escape_byte b') @ CHR 0x22 # s) = CHR 0x22 # r" by simp
    with escape_byte_head show ?thesis by blast
  qed (use Nil in simp)
next
  case (Cons c a)
  show ?case
  proof (cases b)
    case Nil
    with Cons.prems have "escape_byte c @ (concat (map escape_byte a) @ CHR 0x22 # r) = CHR 0x22 # s" by simp
    with escape_byte_head show ?thesis by blast
  next
    case (Cons d b')
    let ?x = "concat (map escape_byte a) @ CHR 0x22 # r" and ?y = "concat (map escape_byte b') @ CHR 0x22 # s"
    have "escape_byte c @ ?x = escape_byte d @ ?y" using Cons.prems Cons by simp
    then have "read_byte (escape_byte c @ ?x) = read_byte (escape_byte d @ ?y)" by simp
    then have "c = d \<and> ?x = ?y" by (simp only: read_escape) simp
    with Cons.IH [of b'] Cons show ?thesis by simp
  qed
qed

lemma escape_text_inject: "escape_text a @ r = escape_text b @ s \<Longrightarrow> a = b \<and> r = s"
  using escape_body_inject [of a r b s] by (simp add: escape_text_def)

section \<open>The envelope can be read back\<close>

lemma insert_all_Ok: "insert_all acc xs = Ok fs \<Longrightarrow> fs = acc @ xs"
proof (induction acc xs arbitrary: fs rule: insert_all.induct)
  case (2 acc k v rest)
  then obtain n where "fingerprint_insert acc k v = Ok n" "insert_all n rest = Ok fs"
    by (auto simp: and_then_Ok_iff)
  moreover from this(1) have "n = acc @ [(k, v)]"
    by (auto simp: fingerprint_insert_def split: if_splits)
  ultimately show ?case using "2.IH" by fastforce
qed simp

lemma fingerprint_input_new_Ok:
  "fingerprint_input_new show_id p = Ok fs \<Longrightarrow> fs = fingerprint_fields show_id p"
  by (auto simp: fingerprint_input_new_def and_then_Ok_iff dest: insert_all_Ok split: if_splits)

lemma join_items_inject:
  assumes "join_comma (map (\<lambda>n. escape_text n @ '':'' @ escape_text (F n)) ns) @ ''}'' =
           join_comma (map (\<lambda>n. escape_text n @ '':'' @ escape_text (G n)) ns) @ ''}''"
    and "n \<in> set ns"
  shows "F n = G n"
  using assms
proof (induction ns)
  case Nil
  then show ?case by simp
next
  case (Cons m ns)
  define X where "X H = (if ns = [] then [] else CHR '','' #
    join_comma (map (\<lambda>n. escape_text n @ '':'' @ escape_text (H n)) ns)) @ ''}''" for H
  have split: "join_comma (map (\<lambda>n. escape_text n @ '':'' @ escape_text (H n)) (m # ns)) @ ''}'' =
      (escape_text m @ '':'') @ escape_text (H m) @ X H" for H
    by (cases ns) (simp_all add: X_def)
  from Cons.prems(1) have "escape_text (F m) @ X F = escape_text (G m) @ X G"
    unfolding split by simp
  then have e: "F m = G m" "X F = X G" using escape_text_inject by blast+
  show ?case
  proof (cases "n = m")
    case False
    with Cons.prems(2) have n: "n \<in> set ns" "ns \<noteq> []" by auto
    with e(2) have "join_comma (map (\<lambda>n. escape_text n @ '':'' @ escape_text (F n)) ns) @ ''}'' =
        join_comma (map (\<lambda>n. escape_text n @ '':'' @ escape_text (G n)) ns) @ ''}''"
      by (simp add: X_def)
    from Cons.IH [OF this n(1)] show ?thesis .
  qed (use e(1) in simp)
qed

lemma canonical_form_values:
  assumes "canonical_form f = canonical_form g" and "map fst f = map fst g" and "k \<in> set (map fst f)"
  shows "the (map_of f k) = the (map_of g k)"
proof -
  let ?body = "\<lambda>h ns. join_comma (map (\<lambda>n. escape_text n @ '':'' @ escape_text (the (map_of h n))) ns) @ ''}''"
  have form: "canonical_form h = CHR ''{'' # ?body h (canonical_names h)" for h
    by (simp add: canonical_form_def)
  have names: "canonical_names f = canonical_names g" using assms(2) by (simp add: canonical_names_def)
  have "CHR ''{'' # ?body f (canonical_names g) = CHR ''{'' # ?body g (canonical_names g)"
    using assms(1) unfolding form names .
  then have "?body f (canonical_names g) = ?body g (canonical_names g)" by (rule list.inject [THEN iffD1, THEN conjunct2])
  moreover have "k \<in> set (canonical_names g)" using assms(2,3) by (simp add: canonical_names_def)
  ultimately show ?thesis by (rule join_items_inject)
qed

definition source_ok :: "ToolSource \<Rightarrow> bool" where
  "source_ok s \<longleftrightarrow> is_owner (ts_owner s) \<and> version_ok (ts_version s)"

definition identity_ok :: "ToolIdentity \<Rightarrow> bool" where
  "identity_ok i \<longleftrightarrow> capability_ok (ti_capability i) \<and> source_ok (ti_source i) \<and>
     length (ti_schema_fingerprint i) = 32"

lemma capability_display_inject:
  "capability_ok a \<Longrightarrow> capability_ok b \<Longrightarrow> tool_capability_display a = tool_capability_display b \<Longrightarrow> a = b"
  using tool_capability_parse_Ok_iff [of "tool_capability_display a"] by (metis Inr_inject)

lemma version_display_inject:
  "version_ok a \<Longrightarrow> version_ok b \<Longrightarrow> tool_version_display a = tool_version_display b \<Longrightarrow> a = b"
  using tool_version_parse_Ok_iff [of "tool_version_display a"] by (metis Inr_inject)

lemma fingerprint_display_inject:
  "length a = 32 \<Longrightarrow> length b = 32 \<Longrightarrow> schema_fingerprint_display a = schema_fingerprint_display b \<Longrightarrow> a = b"
  using schema_fingerprint_parse_Ok_iff [of "schema_fingerprint_display a"] by (metis Inr_inject)

lemma source_kind_text:
  "CHR '':'' \<notin> set (source_kind_as_contract_str k)"
  "source_kind_as_contract_str k = source_kind_as_contract_str j \<Longrightarrow> k = j"
  by (cases k; simp) (cases k; cases j; simp)

lemma owner_no_at: "is_owner s \<Longrightarrow> CHR ''@'' \<notin> set s"
  by (auto simp: is_owner_def list_all_iff owner_byte_def is_ascii_lowercase_def is_ascii_digit_def
      byte_def split: if_splits)

lemma source_display_inject:
  assumes "source_ok a" and "source_ok b" and "tool_source_display a = tool_source_display b"
  shows "a = b"
proof -
  from assms(3) have "source_kind_as_contract_str (ts_kind a) @ CHR '':'' #
        (ts_owner a @ CHR ''@'' # tool_version_display (ts_version a)) =
      source_kind_as_contract_str (ts_kind b) @ CHR '':'' #
        (ts_owner b @ CHR ''@'' # tool_version_display (ts_version b))"
    by (simp add: tool_source_display_def)
  from append_sep_inject [OF this] have k: "ts_kind a = ts_kind b" and
    "ts_owner a @ CHR ''@'' # tool_version_display (ts_version a) =
     ts_owner b @ CHR ''@'' # tool_version_display (ts_version b)"
    using source_kind_text by blast+
  from append_sep_inject [OF this(2)] assms(1,2)
  have "ts_owner a = ts_owner b" "tool_version_display (ts_version a) = tool_version_display (ts_version b)"
    by (simp_all add: source_ok_def owner_no_at)
  with k assms(1,2) version_display_inject show ?thesis
    by (auto simp: source_ok_def)
qed

lemma identity_display_inject:
  assumes "identity_ok a" and "identity_ok b"
    and "tool_capability_display (ti_capability a) = tool_capability_display (ti_capability b)"
    and "tool_source_display (ti_source a) = tool_source_display (ti_source b)"
    and "schema_fingerprint_display (ti_schema_fingerprint a) =
         schema_fingerprint_display (ti_schema_fingerprint b)"
  shows "a = b"
  using assms capability_display_inject source_display_inject fingerprint_display_inject
  by (auto simp: identity_ok_def)

lemma join_comma_inject:
  assumes "join_comma xs = join_comma ys"
    and "\<forall>x \<in> set xs. x \<noteq> [] \<and> CHR '','' \<notin> set x" and "\<forall>y \<in> set ys. y \<noteq> [] \<and> CHR '','' \<notin> set y"
  shows "xs = ys"
proof -
  have nil: "join_with CHR '','' zs = [] \<Longrightarrow> \<forall>z \<in> set zs. z \<noteq> [] \<Longrightarrow> zs = []" for zs
    by (cases zs; cases "tl zs") auto
  show ?thesis
  proof (cases "xs = [] \<or> ys = []")
    case True
    with assms nil [of xs] nil [of ys] show ?thesis by auto
  next
    case False
    then have "split_on CHR '','' (join_with CHR '','' xs) = xs"
      "split_on CHR '','' (join_with CHR '','' ys) = ys"
      using assms(2,3) by (auto intro!: split_on_join)
    with assms(1) show ?thesis by (metis join_comma.simps)
  qed
qed

lemma effect_text_plain: "effect_as_contract_str e \<noteq> [] \<and> CHR '','' \<notin> set (effect_as_contract_str e)"
  by (cases e) simp_all

lemma effects_text_inject:
  assumes "effects_text a = effects_text b"
  shows "set a = set b"
proof -
  have "remdups_adj (sort (map effect_as_contract_str a)) = remdups_adj (sort (map effect_as_contract_str b))"
    by (rule join_comma_inject) (use assms effect_text_plain in \<open>auto simp: effects_text_def\<close>)
  from arg_cong [OF this, of set] have "effect_as_contract_str ` set a = effect_as_contract_str ` set b"
    by simp
  moreover have "inj effect_as_contract_str" by (simp add: inj_def effect_spelling.as_str_eq_iff)
  ultimately show ?thesis by (simp add: inj_image_eq_iff)
qed

section \<open>Properties\<close>

text \<open>C11: Two actions share a canonical text only when they are the same action: the same format
  version, tool identity, workspace, principal, set of effects, risk and arguments. So an
  approval bound to the digest of one action cannot fit another, up to collisions of the hash.
  It relies on the UUID library giving different identifiers different texts.\<close>

theorem canonical_form_identifies_action:
  assumes "inj show_id" and "identity_ok (fp_identity p)" and "identity_ok (fp_identity q)"
    and "fingerprint_input_new show_id p = Ok f" and "fingerprint_input_new show_id q = Ok g"
    and "canonical_form f = canonical_form g"
  shows "fp_version p = fp_version q \<and> fp_identity p = fp_identity q \<and>
    fp_workspace p = fp_workspace q \<and> fp_principal p = fp_principal q \<and>
    set (fp_effects p) = set (fp_effects q) \<and> fp_risk p = fp_risk q \<and>
    fp_arguments p = fp_arguments q"
proof -
  let ?P = "fingerprint_fields show_id p" and ?Q = "fingerprint_fields show_id q"
  have fg: "f = ?P" "g = ?Q" using assms(4,5) fingerprint_input_new_Ok by blast+
  have keys: "map fst ?P = map fst ?Q" by (simp add: fingerprint_fields_def)
  note field_eq = canonical_form_values [OF assms(6) [unfolded fg] keys]
  have v: "fp_version p = fp_version q"
    using field_eq [of "''fingerprint_version''"] by (simp add: fingerprint_fields_def)
  have pr: "show_id (fp_principal p) = show_id (fp_principal q)"
    using field_eq [of "''principal''"] by (simp add: fingerprint_fields_def)
  have w: "show_id (fp_workspace p) = show_id (fp_workspace q)"
    using field_eq [of "''workspace''"] by (simp add: fingerprint_fields_def)
  have c: "tool_capability_display (ti_capability (fp_identity p)) =
      tool_capability_display (ti_capability (fp_identity q))"
    using field_eq [of "''tool_capability''"] by (simp add: fingerprint_fields_def)
  have so: "tool_source_display (ti_source (fp_identity p)) = tool_source_display (ti_source (fp_identity q))"
    using field_eq [of "''tool_source''"] by (simp add: fingerprint_fields_def)
  have sf: "schema_fingerprint_display (ti_schema_fingerprint (fp_identity p)) =
      schema_fingerprint_display (ti_schema_fingerprint (fp_identity q))"
    using field_eq [of "''schema_fingerprint''"] by (simp add: fingerprint_fields_def)
  have e: "effects_text (fp_effects p) = effects_text (fp_effects q)"
    using field_eq [of "''effects''"] by (simp add: fingerprint_fields_def)
  have r: "risk_as_contract_str (fp_risk p) = risk_as_contract_str (fp_risk q)"
    using field_eq [of "''risk''"] by (simp add: fingerprint_fields_def)
  have a: "arguments_as_str (fp_arguments p) = arguments_as_str (fp_arguments q)"
    using field_eq [of "''arguments''"] by (simp add: fingerprint_fields_def)
  show ?thesis
    using v injD [OF assms(1) pr] injD [OF assms(1) w] effects_text_inject [OF e]
      identity_display_inject [OF assms(2,3) c so sf] r [unfolded risk_spelling.as_str_eq_iff]
      ToolArguments.expand [of "fp_arguments p" "fp_arguments q"] a
    by blast
qed

definition read_identity :: ToolIdentity where
  "read_identity =
     \<lparr>ti_capability = \<lparr>tc_namespace = ''files'', tc_name = ''read'', tc_major = 1\<rparr>,
      ti_source = \<lparr>ts_kind = SourceKind.Native, ts_owner = ''jarvis'',
        ts_version = \<lparr>tv_major = 1, tv_minor = 0, tv_patch = 0, tv_pre_release = None\<rparr>\<rparr>,
      ti_schema_fingerprint = replicate 32 0\<rparr>"

definition read_parts :: FingerprintParts where
  "read_parts =
     \<lparr>fp_version = FINGERPRINT_FORMAT_VERSION, fp_identity = read_identity, fp_workspace = 1,
      fp_principal = 2, fp_effects = [Effect.ReadOnly], fp_risk = Risk.Low,
      fp_arguments = ToolArguments ''{}''\<rparr>"

lemma read_identity_ok: "identity_ok read_identity"
  by (simp add: identity_ok_def read_identity_def capability_ok_def source_ok_def version_ok_def
      is_segment_def is_owner_def owner_byte_def segment_byte_def is_ascii_lowercase_def
      is_ascii_digit_def byte_def MAX_TOOL_SEGMENT_BYTES_def MAX_TOOL_MAJOR_def word_le_nat_alt
      word_less_nat_alt)

lemma show_nat_inj: "inj (\<lambda>u :: uuid. show_nat (unat u))"
  by (rule injI) (metis digits_value_show word_unat_eq_iff)

lemma hex_char_plain: "d < 16 \<Longrightarrow> byte (hex_char d) \<noteq> 0"
  by (simp add: hex_char_def byte_char_of)

lemma show_hex_no_nul: "\<not> contains_nul (show_hex_bytes bs)"
proof (induction bs)
  case Nil
  show ?case by (simp add: show_hex_bytes_def contains_nul_def)
next
  case (Cons b bs)
  have "unat b div 16 < 16" "unat b mod 16 < 16" using unat_byte_lt [of b] by auto
  with Cons show ?case
    by (simp add: show_hex_bytes_def show_hex_byte_def contains_nul_def hex_char_plain)
qed

lemma read_parts_accepted:
  "fingerprint_input_new (\<lambda>u. show_nat (unat u)) read_parts =
     Ok (fingerprint_fields (\<lambda>u. show_nat (unat u)) read_parts)"
proof -
  have d: "show_nat 0 = ''0''" "show_nat 1 = ''1''" "show_nat 2 = ''2''"
    by (simp_all add: show_nat.simps digit_char_def char_of_def bit_0)
  have h: "is_usable_value (schema_fingerprint_display (replicate 32 0))"
    using show_hex_no_nul [of "replicate 32 0"]
    by (simp add: is_usable_value_def schema_fingerprint_display_def FINGERPRINT_ALGORITHM_def
        MAX_FINGERPRINT_VALUE_BYTES_def MAX_ARGUMENT_BYTES_def contains_nul_def byte_def)
  have v: "list_all (\<lambda>(k, v). is_usable_key k \<and> is_usable_value v)
      (fingerprint_fields (\<lambda>u. show_nat (unat u)) read_parts)"
    using h d
    by (simp add: fingerprint_fields_def read_parts_def read_identity_def is_usable_key_def
        is_usable_value_def FINGERPRINT_FORMAT_VERSION_def tool_capability_display_def
        tool_source_display_def tool_version_display_def effects_text_def contains_nul_def byte_def
        MAX_FINGERPRINT_KEY_BYTES_def MAX_FINGERPRINT_VALUE_BYTES_def MAX_ARGUMENT_BYTES_def)
  then show ?thesis
    by (simp add: fingerprint_input_new_def fingerprint_fields_def fingerprint_insert_def
        MAX_FINGERPRINT_FIELDS_def)
qed

lemma repeated_effect_same_fields:
  "fingerprint_fields show_id (read_parts\<lparr>fp_effects := [Effect.ReadOnly, Effect.ReadOnly]\<rparr>) =
   fingerprint_fields show_id read_parts"
  by (simp add: fingerprint_fields_def read_parts_def effects_text_def)

theorem canonical_form_identifies_action_witness:
  "set (fp_effects read_parts) =
   set (fp_effects (read_parts\<lparr>fp_effects := [Effect.ReadOnly, Effect.ReadOnly]\<rparr>))"
proof -
  have "fingerprint_input_new (\<lambda>u. show_nat (unat u))
      (read_parts\<lparr>fp_effects := [Effect.ReadOnly, Effect.ReadOnly]\<rparr>) =
      Ok (fingerprint_fields (\<lambda>u. show_nat (unat u)) read_parts)"
    using read_parts_accepted by (simp add: fingerprint_input_new_def repeated_effect_same_fields)
  from canonical_form_identifies_action [OF show_nat_inj _ _ read_parts_accepted this refl]
  show ?thesis using read_identity_ok by (simp add: read_parts_def)
qed

end
