(* ===== verification/Model_Exception.thy ===== *)
theory Model_Exception
  imports Tool_Classification
begin

text \<open>
  \<open>model/exception.rs\<close>: bounded, accountable exceptions to one rule of a data policy, and the
  assurance ladder that granting one, or deciding an approval, has to meet.
  \<open>RejectionReason::policy_rule\<close> of \<open>model/policy.rs\<close> is here because it names these rules.
\<close>

section \<open>Assurance\<close>

datatype RequiredAssurance = Standard | Elevated

fun assurance_is_satisfied_by :: "RequiredAssurance \<Rightarrow> RequiredAssurance \<Rightarrow> bool" where
  "assurance_is_satisfied_by Standard Standard = True"
| "assurance_is_satisfied_by Standard Elevated = True"
| "assurance_is_satisfied_by Elevated Elevated = True"
| "assurance_is_satisfied_by Elevated Standard = False"

definition assurance_required_for :: "Risk \<Rightarrow> RequiredAssurance" where
  "assurance_required_for risk =
     (case risk of Risk.Low \<Rightarrow> Standard | Risk.Moderate \<Rightarrow> Standard | Risk.High \<Rightarrow> Standard
      | Risk.Critical \<Rightarrow> Elevated)"

section \<open>Rules\<close>

definition MAX_EXCEPTION_REASON_BYTES :: nat where "MAX_EXCEPTION_REASON_BYTES = 1024"

datatype PolicyRuleKey =
    Locality | AllowedProviders | AllowedModels | MaximumProviderRetention | ProviderTrainingUse
  | Telemetry | ResidencyRegions | MaximumSensitivity | AllowFallback

definition policy_rule_key_all :: "PolicyRuleKey list" where
  "policy_rule_key_all =
     [PolicyRuleKey.Locality, PolicyRuleKey.AllowedProviders, PolicyRuleKey.AllowedModels,
      PolicyRuleKey.MaximumProviderRetention, PolicyRuleKey.ProviderTrainingUse,
      PolicyRuleKey.Telemetry, PolicyRuleKey.ResidencyRegions, PolicyRuleKey.MaximumSensitivity,
      PolicyRuleKey.AllowFallback]"

primrec policy_rule_key_as_str :: "PolicyRuleKey \<Rightarrow> string" where
  "policy_rule_key_as_str PolicyRuleKey.Locality = ''locality''"
| "policy_rule_key_as_str PolicyRuleKey.AllowedProviders = ''allowed_providers''"
| "policy_rule_key_as_str PolicyRuleKey.AllowedModels = ''allowed_models''"
| "policy_rule_key_as_str PolicyRuleKey.MaximumProviderRetention = ''maximum_provider_retention''"
| "policy_rule_key_as_str PolicyRuleKey.ProviderTrainingUse = ''provider_training_use''"
| "policy_rule_key_as_str PolicyRuleKey.Telemetry = ''telemetry''"
| "policy_rule_key_as_str PolicyRuleKey.ResidencyRegions = ''residency_regions''"
| "policy_rule_key_as_str PolicyRuleKey.MaximumSensitivity = ''maximum_sensitivity''"
| "policy_rule_key_as_str PolicyRuleKey.AllowFallback = ''allow_fallback''"

definition policy_rule_key_from_stored :: "string \<Rightarrow> PolicyRuleKey option" where
  "policy_rule_key_from_stored value = find (\<lambda>k. policy_rule_key_as_str k = value) policy_rule_key_all"

definition is_waivable :: "PolicyRuleKey \<Rightarrow> bool" where
  "is_waivable k =
     (case k of
        PolicyRuleKey.AllowedProviders \<Rightarrow> False
      | PolicyRuleKey.AllowedModels \<Rightarrow> False
      | PolicyRuleKey.MaximumSensitivity \<Rightarrow> False
      | _ \<Rightarrow> True)"

definition requires_step_up :: "PolicyRuleKey \<Rightarrow> bool" where
  "requires_step_up k \<longleftrightarrow> k = PolicyRuleKey.Locality \<or> k = PolicyRuleKey.ResidencyRegions"

primrec rejection_policy_rule :: "RejectionReason \<Rightarrow> PolicyRuleKey option" where
  "rejection_policy_rule ProviderNotAllowed = Some PolicyRuleKey.AllowedProviders"
| "rejection_policy_rule ModelNotAllowed = Some PolicyRuleKey.AllowedModels"
| "rejection_policy_rule LocalityViolated = Some PolicyRuleKey.Locality"
| "rejection_policy_rule RetentionUnsatisfied = Some PolicyRuleKey.MaximumProviderRetention"
| "rejection_policy_rule TrainingUseUnsatisfied = Some PolicyRuleKey.ProviderTrainingUse"
| "rejection_policy_rule ResidencyUnsatisfied = Some PolicyRuleKey.ResidencyRegions"
| "rejection_policy_rule SensitivityExceedsPolicy = Some PolicyRuleKey.MaximumSensitivity"
| "rejection_policy_rule CapabilityUnattested = None"
| "rejection_policy_rule RejectionReason.EvidenceStale = None"
| "rejection_policy_rule RejectionReason.EvidenceMissing = None"

section \<open>Exceptions\<close>

datatype ExceptionState = Issued | Expired | Revoked | Consumed

primrec exception_state_as_str :: "ExceptionState \<Rightarrow> string" where
  "exception_state_as_str ExceptionState.Issued = ''issued''"
| "exception_state_as_str ExceptionState.Expired = ''expired''"
| "exception_state_as_str ExceptionState.Revoked = ''revoked''"
| "exception_state_as_str ExceptionState.Consumed = ''consumed''"

definition exception_state_is_usable :: "ExceptionState \<Rightarrow> bool" where
  "exception_state_is_usable s \<longleftrightarrow> s = ExceptionState.Issued"

record ExceptionScope =
  es_provider_id :: "string option"
  es_model_id :: "string option"
  es_region :: "Region option"
  es_maximum_sensitivity :: "Sensitivity option"
  es_locality :: "Locality option"

definition exception_scope_covers :: "ExceptionScope \<Rightarrow> ModelRef \<Rightarrow> bool" where
  "exception_scope_covers self model \<longleftrightarrow>
     is_none_or (es_provider_id self) (\<lambda>i. i = mr_provider_id model) \<and>
     is_none_or (es_model_id self) (\<lambda>i. i = mr_model_id model)"

record PolicyException =
  pe_id :: uuid
  pe_workspace_id :: uuid
  pe_policy :: PolicyVersionRef
  pe_granting_principal_id :: uuid
  pe_rule :: PolicyRuleKey
  pe_scope :: ExceptionScope
  pe_reason_ref :: string
  pe_required_assurance :: RequiredAssurance
  pe_single_use :: bool
  pe_issued_at :: instant
  pe_expires_at :: instant
  pe_revoked_at :: "instant option"
  pe_consumed_at :: "instant option"

record NewPolicyException =
  ne_id :: uuid
  ne_workspace_id :: uuid
  ne_policy :: PolicyVersionRef
  ne_granting_principal_id :: uuid
  ne_granting_assurance :: RequiredAssurance
  ne_rule :: PolicyRuleKey
  ne_scope :: ExceptionScope
  ne_reason_ref :: string
  ne_single_use :: bool
  ne_issued_at :: instant
  ne_expires_at :: instant

definition exception_grant :: "NewPolicyException \<Rightarrow> DomainError + PolicyException" where
  "exception_grant request =
     (if \<not> is_waivable (ne_rule request) then Err ExceptionRequired
      else if ne_reason_ref request = [] \<or>
              length (ne_reason_ref request) > MAX_EXCEPTION_REASON_BYTES \<or>
              contains_nul (ne_reason_ref request)
        then Err InvalidTransitionReason
      else if ne_expires_at request \<le> ne_issued_at request then Err ExceptionExpired
      else
        (let required_assurance =
           (if requires_step_up (ne_rule request) \<or> es_maximum_sensitivity (ne_scope request) \<noteq> None
            then Elevated else Standard)
         in if \<not> assurance_is_satisfied_by required_assurance (ne_granting_assurance request)
            then Err ExceptionRequired
            else Ok \<lparr>pe_id = ne_id request, pe_workspace_id = ne_workspace_id request,
                     pe_policy = ne_policy request,
                     pe_granting_principal_id = ne_granting_principal_id request,
                     pe_rule = ne_rule request, pe_scope = ne_scope request,
                     pe_reason_ref = ne_reason_ref request,
                     pe_required_assurance = required_assurance,
                     pe_single_use = ne_single_use request, pe_issued_at = ne_issued_at request,
                     pe_expires_at = ne_expires_at request, pe_revoked_at = None,
                     pe_consumed_at = None\<rparr>))"

definition exception_state_at :: "PolicyException \<Rightarrow> instant \<Rightarrow> ExceptionState" where
  "exception_state_at self now =
     (if pe_revoked_at self \<noteq> None then ExceptionState.Revoked
      else if pe_consumed_at self \<noteq> None then ExceptionState.Consumed
      else if now \<ge> pe_expires_at self then ExceptionState.Expired
      else ExceptionState.Issued)"

definition exception_is_usable_at :: "PolicyException \<Rightarrow> instant \<Rightarrow> bool" where
  "exception_is_usable_at self now = exception_state_is_usable (exception_state_at self now)"

definition exception_relaxes :: "PolicyException \<Rightarrow> PolicyRuleKey \<Rightarrow> bool" where
  "exception_relaxes self rule \<longleftrightarrow> pe_rule self = rule"

lemma is_waivable_iff:
  "is_waivable k \<longleftrightarrow>
     k \<notin> {PolicyRuleKey.AllowedProviders, PolicyRuleKey.AllowedModels, PolicyRuleKey.MaximumSensitivity}"
  by (cases k) (simp_all add: is_waivable_def)

lemma exception_grant_OkD:
  assumes "exception_grant request = Ok e"
  shows "pe_rule e = ne_rule request" and "is_waivable (ne_rule request)"
    and "pe_scope e = ne_scope request" and "pe_reason_ref e = ne_reason_ref request"
    and "bounded_nul_free 1024 (ne_reason_ref request)"
    and "pe_issued_at e < pe_expires_at e" and "pe_revoked_at e = None" and "pe_consumed_at e = None"
    and "pe_required_assurance e =
      (if requires_step_up (ne_rule request) \<or> es_maximum_sensitivity (ne_scope request) \<noteq> None
       then Elevated else Standard)"
    and "assurance_is_satisfied_by (pe_required_assurance e) (ne_granting_assurance request)"
  using assms
  by (simp_all add: exception_grant_def Let_def bounded_nul_free_def MAX_EXCEPTION_REASON_BYTES_def
      split: if_split_asm) auto

lemma exception_is_usable_iff:
  "exception_is_usable_at e now \<longleftrightarrow>
     pe_revoked_at e = None \<and> pe_consumed_at e = None \<and> now < pe_expires_at e"
  by (simp add: exception_is_usable_at_def exception_state_at_def exception_state_is_usable_def not_le)

interpretation rule_key_spelling: spelling policy_rule_key_all policy_rule_key_as_str policy_rule_key_from_stored
proof
  show "x \<in> set policy_rule_key_all" for x by (cases x) (simp_all add: policy_rule_key_all_def)
qed (simp_all add: policy_rule_key_all_def policy_rule_key_from_stored_def)

text \<open>An exception is only ever granted with authority and a limit: never for the provider or
  model lists or the sensitivity ceiling, only with elevated assurance where data crosses a
  locality, a region or a sensitivity bound, and it is usable at exactly the instants before its
  expiry, the first of which lies after it was issued.\<close>

theorem exception_granted_with_authority:
  assumes "exception_grant request = Ok e"
  shows "is_waivable (pe_rule e) \<and>
    pe_rule e \<notin> {PolicyRuleKey.AllowedProviders, PolicyRuleKey.AllowedModels, PolicyRuleKey.MaximumSensitivity} \<and>
    (pe_rule e \<in> {PolicyRuleKey.Locality, PolicyRuleKey.ResidencyRegions} \<or>
       es_maximum_sensitivity (pe_scope e) \<noteq> None \<longrightarrow>
       ne_granting_assurance request = Elevated \<and> pe_required_assurance e = Elevated) \<and>
    bounded_nul_free 1024 (pe_reason_ref e) \<and> pe_issued_at e < pe_expires_at e \<and>
    (exception_is_usable_at e now \<longleftrightarrow> now < pe_expires_at e)"
proof -
  note d = exception_grant_OkD [OF assms]
  have elev: "assurance_is_satisfied_by Elevated a \<Longrightarrow> a = Elevated" for a by (cases a) simp_all
  have "pe_rule e \<in> {PolicyRuleKey.Locality, PolicyRuleKey.ResidencyRegions} \<or>
      es_maximum_sensitivity (pe_scope e) \<noteq> None \<longrightarrow>
      ne_granting_assurance request = Elevated \<and> pe_required_assurance e = Elevated"
    using d(9,10) elev [of "ne_granting_assurance request"] unfolding d(1,3)
    by (auto simp: requires_step_up_def)
  moreover have "is_waivable (pe_rule e)" unfolding d(1) by (rule d(2))
  ultimately show ?thesis
    using d(4,5,6,7,8) by (simp add: is_waivable_iff exception_is_usable_iff)
qed

definition sample_exception_request :: NewPolicyException where
  "sample_exception_request =
     \<lparr>ne_id = 1, ne_workspace_id = 2, ne_policy = \<lparr>pv_policy_id = 3, pv_version = 1\<rparr>,
      ne_granting_principal_id = 4, ne_granting_assurance = Elevated,
      ne_rule = PolicyRuleKey.Locality,
      ne_scope = \<lparr>es_provider_id = None, es_model_id = None, es_region = None,
                  es_maximum_sensitivity = None, es_locality = None\<rparr>,
      ne_reason_ref = ''r'', ne_single_use = True, ne_issued_at = 1, ne_expires_at = 5\<rparr>"

theorem exception_granted_with_authority_witness:
  "exception_is_usable_at (projr (exception_grant sample_exception_request)) 4 \<and>
   \<not> exception_is_usable_at (projr (exception_grant sample_exception_request)) 5"
  using exception_granted_with_authority
      [of sample_exception_request "projr (exception_grant sample_exception_request)" 4]
    exception_granted_with_authority
      [of sample_exception_request "projr (exception_grant sample_exception_request)" 5]
  by (simp add: exception_grant_def sample_exception_request_def is_waivable_def requires_step_up_def
      contains_nul_def byte_def MAX_EXCEPTION_REASON_BYTES_def)

end
