(* ===== verification/Tool_Approval.thy ===== *)
theory Tool_Approval
  imports Tool_Canonical Model_Exception
begin

text \<open>
  \<open>tool/approval.rs\<close>: the durable approval of one action, its state machine, who may decide it
  and through which channel, and what it covers once approved.
\<close>

section \<open>Bounded texts\<close>

definition MAX_SUMMARY_BYTES :: nat where "MAX_SUMMARY_BYTES = 512"
definition MAX_APPROVAL_CHANNELS :: nat where "MAX_APPROVAL_CHANNELS = 8"
definition MAX_PREVIEW_ITEMS :: nat where "MAX_PREVIEW_ITEMS = 64"
definition MAX_PREVIEW_TEXT_BYTES :: nat where "MAX_PREVIEW_TEXT_BYTES = 1024"
definition MAX_DECISION_NOTE_BYTES :: nat where "MAX_DECISION_NOTE_BYTES = 512"

fun has_disallowed_control :: "string \<Rightarrow> bool" where
  "has_disallowed_control [] = False"
| "has_disallowed_control (c # cs) =
     ((byte c < 32 \<and> byte c \<noteq> 9 \<and> byte c \<noteq> 10 \<and> byte c \<noteq> 13) \<or> byte c = 127 \<or>
      (byte c = 194 \<and> (case cs of [] \<Rightarrow> False | d # _ \<Rightarrow> 128 \<le> byte d \<and> byte d \<le> 159)) \<or>
      has_disallowed_control cs)"

datatype DecisionNote = DecisionNote (note_as_str: string)

definition decision_note_new :: "string \<Rightarrow> DomainError + DecisionNote" where
  "decision_note_new value =
     (if value = [] \<or> length value > MAX_DECISION_NOTE_BYTES then Err (ToolDefinitionInvalid ''note'')
      else if has_disallowed_control value then Err (ToolDefinitionInvalid ''note'')
      else Ok (DecisionNote value))"

definition usable :: "string \<Rightarrow> bool" where
  "usable value \<longleftrightarrow> value \<noteq> [] \<and> length value \<le> MAX_PREVIEW_TEXT_BYTES \<and> \<not> has_control value"

record PreviewItem =
  pi_key :: string
  pi_value :: string

definition preview_item_new :: "string \<Rightarrow> string \<Rightarrow> DomainError + PreviewItem" where
  "preview_item_new key value =
     (if \<not> usable key \<or> \<not> usable value then Err (ToolDefinitionInvalid ''preview'')
      else Ok \<lparr>pi_key = key, pi_value = value\<rparr>)"

definition is_usable_summary :: "string \<Rightarrow> bool" where
  "is_usable_summary value \<longleftrightarrow>
     value \<noteq> [] \<and> length value \<le> MAX_SUMMARY_BYTES \<and> \<not> has_control value"

datatype ApprovalSummary = ApprovalSummary (summary_as_str: string)

definition approval_summary_new :: "string \<Rightarrow> DomainError + ApprovalSummary" where
  "approval_summary_new value =
     (if is_usable_summary value then Ok (ApprovalSummary value)
      else Err (ToolDefinitionInvalid ''summary''))"

datatype ApprovalPreview = ApprovalPreview (preview_items: "PreviewItem list")

definition approval_preview_new :: "PreviewItem list \<Rightarrow> DomainError + ApprovalPreview" where
  "approval_preview_new items =
     (if length items > MAX_PREVIEW_ITEMS then Err (ToolDefinitionInvalid ''preview'')
      else Ok (ApprovalPreview items))"

section \<open>Versions, states, channels\<close>

definition approval_version_first :: ApprovalVersion where "approval_version_first = 1"

definition approval_version_next :: "ApprovalVersion \<Rightarrow> DomainError + ApprovalVersion" where
  "approval_version_next v = ok_or (checked_add v 1) (ApprovalVersionConflict v v)"

definition approval_state_is_terminal :: "ApprovalState \<Rightarrow> bool" where [simp]:
  "approval_state_is_terminal s \<longleftrightarrow>
     s = ApprovalState.Rejected \<or> s = ApprovalState.Expired \<or> s = ApprovalState.Cancelled \<or>
     s = ApprovalState.Consumed \<or> s = ApprovalState.Invalidated"

primrec approval_targets :: "ApprovalState \<Rightarrow> ApprovalState list" where
  "approval_targets ApprovalState.Pending =
     [ApprovalState.Approved, ApprovalState.Rejected, ApprovalState.Expired, ApprovalState.Cancelled]"
| "approval_targets ApprovalState.Approved =
     [ApprovalState.Consumed, ApprovalState.Invalidated, ApprovalState.Expired, ApprovalState.Cancelled]"
| "approval_targets ApprovalState.Rejected = []"
| "approval_targets ApprovalState.Expired = []"
| "approval_targets ApprovalState.Cancelled = []"
| "approval_targets ApprovalState.Consumed = []"
| "approval_targets ApprovalState.Invalidated = []"

definition approval_can_transition_to :: "ApprovalState \<Rightarrow> ApprovalState \<Rightarrow> bool" where
  "approval_can_transition_to from to \<longleftrightarrow> to \<in> set (approval_targets from)"

definition approval_can_advance :: "ApprovalState \<Rightarrow> bool" where
  "approval_can_advance s \<longleftrightarrow> \<not> approval_state_is_terminal s"

definition approval_has_any_transition :: "ApprovalState \<Rightarrow> bool" where
  "approval_has_any_transition s \<longleftrightarrow> s = ApprovalState.Pending \<or> s = ApprovalState.Approved"

primrec approval_state_as_contract_str :: "ApprovalState \<Rightarrow> string" where
  "approval_state_as_contract_str ApprovalState.Pending = ''pending''"
| "approval_state_as_contract_str ApprovalState.Approved = ''approved''"
| "approval_state_as_contract_str ApprovalState.Rejected = ''rejected''"
| "approval_state_as_contract_str ApprovalState.Expired = ''expired''"
| "approval_state_as_contract_str ApprovalState.Cancelled = ''cancelled''"
| "approval_state_as_contract_str ApprovalState.Consumed = ''consumed''"
| "approval_state_as_contract_str ApprovalState.Invalidated = ''invalidated''"

definition approval_state_parse :: "string \<Rightarrow> DomainError + ApprovalState" where
  "approval_state_parse value =
     (if value = ''pending'' then Ok ApprovalState.Pending
      else if value = ''approved'' then Ok ApprovalState.Approved
      else if value = ''rejected'' then Ok ApprovalState.Rejected
      else if value = ''expired'' then Ok ApprovalState.Expired
      else if value = ''cancelled'' then Ok ApprovalState.Cancelled
      else if value = ''consumed'' then Ok ApprovalState.Consumed
      else if value = ''invalidated'' then Ok ApprovalState.Invalidated
      else Err (ToolDefinitionInvalid ''state''))"

datatype ApprovalScopeKind = OneShot | Standing

definition is_consumed_on_use :: "ApprovalScopeKind \<Rightarrow> bool" where
  "is_consumed_on_use k \<longleftrightarrow> k = OneShot"

primrec approval_scope_as_contract_str :: "ApprovalScopeKind \<Rightarrow> string" where
  "approval_scope_as_contract_str OneShot = ''one_shot''"
| "approval_scope_as_contract_str Standing = ''standing''"

datatype ApprovalChannel = Cli | Desktop | Mobile | Voice | Api

primrec approval_channel_as_contract_str :: "ApprovalChannel \<Rightarrow> string" where
  "approval_channel_as_contract_str Cli = ''cli''"
| "approval_channel_as_contract_str Desktop = ''desktop''"
| "approval_channel_as_contract_str Mobile = ''mobile''"
| "approval_channel_as_contract_str Voice = ''voice''"
| "approval_channel_as_contract_str Api = ''api''"

definition approval_channel_parse :: "string \<Rightarrow> DomainError + ApprovalChannel" where
  "approval_channel_parse value =
     (if value = ''cli'' then Ok Cli
      else if value = ''desktop'' then Ok Desktop
      else if value = ''mobile'' then Ok Mobile
      else if value = ''voice'' then Ok Voice
      else if value = ''api'' then Ok Api
      else Err (ToolDefinitionInvalid ''allowed_channels''))"

datatype AllowedChannels = AllowedChannels (channels_as_slice: "ApprovalChannel list")

definition allowed_channels_new :: "ApprovalChannel list \<Rightarrow> DomainError + AllowedChannels" where
  "allowed_channels_new channels =
     (if channels = [] \<or> length channels > MAX_APPROVAL_CHANNELS
      then Err (ToolDefinitionInvalid ''allowed_channels'') else Ok (AllowedChannels channels))"

definition channels_permits :: "AllowedChannels \<Rightarrow> ApprovalChannel \<Rightarrow> bool" where
  "channels_permits self channel \<longleftrightarrow> channel \<in> set (channels_as_slice self)"

section \<open>Approvals\<close>

record ApprovalRequestParts =
  ap_workspace :: uuid
  ap_requesting_principal :: uuid
  ap_run :: uuid
  ap_tool_call :: uuid
  ap_identity :: ToolIdentity
  ap_action_digest :: ActionDigest
  ap_risk :: Risk
  ap_effects :: "Effect list"
  ap_summary :: ApprovalSummary
  ap_preview :: ApprovalPreview
  ap_allowed_channels :: AllowedChannels
  ap_expires_at :: instant
  ap_scope :: ApprovalScopeKind

record DurableApproval =
  da_id :: uuid
  da_workspace :: uuid
  da_requesting_principal :: uuid
  da_run :: uuid
  da_tool_call :: uuid
  da_identity :: ToolIdentity
  da_action_digest :: ActionDigest
  da_risk :: Risk
  da_effects :: "Effect list"
  da_summary :: ApprovalSummary
  da_preview :: ApprovalPreview
  da_allowed_channels :: AllowedChannels
  da_expires_at :: instant
  da_scope :: ApprovalScopeKind
  da_state :: ApprovalState
  da_version :: ApprovalVersion
  da_decided_by :: "uuid option"
  da_decided_via :: "ApprovalChannel option"
  da_decided_assurance :: "RequiredAssurance option"
  da_decided_at :: "instant option"

definition approval_request :: "uuid \<Rightarrow> ApprovalRequestParts \<Rightarrow> DurableApproval" where
  "approval_request fresh_id parts =
     \<lparr>da_id = fresh_id, da_workspace = ap_workspace parts,
      da_requesting_principal = ap_requesting_principal parts, da_run = ap_run parts,
      da_tool_call = ap_tool_call parts, da_identity = ap_identity parts,
      da_action_digest = ap_action_digest parts, da_risk = ap_risk parts,
      da_effects = ap_effects parts, da_summary = ap_summary parts, da_preview = ap_preview parts,
      da_allowed_channels = ap_allowed_channels parts, da_expires_at = ap_expires_at parts,
      da_scope = ap_scope parts, da_state = ApprovalState.Pending,
      da_version = approval_version_first, da_decided_by = None, da_decided_via = None,
      da_decided_assurance = None, da_decided_at = None\<rparr>"

datatype ApprovalActor =
    ActorDecided uuid ApprovalChannel RequiredAssurance "DecisionNote option"
  | ActorExpired instant
  | ActorInvalidated string
  | ActorConsumed uuid
  | ActorCancelled uuid "DecisionNote option"

definition actor_channel :: "ApprovalActor \<Rightarrow> ApprovalChannel option" where
  "actor_channel a = (case a of ActorDecided _ channel _ _ \<Rightarrow> Some channel | _ \<Rightarrow> None)"

definition actor_assurance :: "ApprovalActor \<Rightarrow> RequiredAssurance option" where
  "actor_assurance a = (case a of ActorDecided _ _ assurance _ \<Rightarrow> Some assurance | _ \<Rightarrow> None)"

definition actor_note :: "ApprovalActor \<Rightarrow> DecisionNote option" where
  "actor_note a =
     (case a of ActorDecided _ _ _ note \<Rightarrow> note | ActorCancelled _ reason \<Rightarrow> reason | _ \<Rightarrow> None)"

record ApprovalTransitionRecord =
  at_id :: uuid
  at_from :: ApprovalState
  at_to :: ApprovalState
  at_prior_version :: ApprovalVersion
  at_version :: ApprovalVersion
  at_actor :: ApprovalActor
  at_occurred_at :: instant

definition approval_is_decided :: "DurableApproval \<Rightarrow> bool" where
  "approval_is_decided a \<longleftrightarrow> da_decided_at a \<noteq> None"

definition is_lapsed_at :: "DurableApproval \<Rightarrow> instant \<Rightarrow> bool" where
  "is_lapsed_at self now \<longleftrightarrow> now \<ge> da_expires_at self"

definition approval_covers :: "DurableApproval \<Rightarrow> ActionDigest \<Rightarrow> instant \<Rightarrow> bool" where
  "approval_covers self action_digest now \<longleftrightarrow>
     da_state self = ApprovalState.Approved \<and> da_action_digest self = action_digest \<and>
     \<not> is_lapsed_at self now"

definition record_decision :: "DurableApproval \<Rightarrow> ApprovalActor \<Rightarrow> instant \<Rightarrow> DurableApproval" where
  "record_decision a actor occurred_at =
     (case actor of
        ActorDecided pr channel assurance _ \<Rightarrow>
          a\<lparr>da_decided_by := Some pr, da_decided_via := Some channel,
            da_decided_assurance := Some assurance, da_decided_at := Some occurred_at\<rparr>
      | _ \<Rightarrow> a)"

definition approval_apply ::
  "DurableApproval \<Rightarrow> ApprovalState \<Rightarrow> ApprovalVersion \<Rightarrow> ApprovalActor \<Rightarrow> instant \<Rightarrow>
   (DomainError + ApprovalTransitionRecord) \<times> DurableApproval"
where
  "approval_apply self to expected_version actor occurred_at =
     (if expected_version \<noteq> da_version self
        then (Err (ApprovalVersionConflict expected_version (da_version self)), self)
      else if \<not> approval_can_transition_to (da_state self) to
        then (Err (ApprovalStateConflict (da_state self) to), self)
      else if is_some_and (actor_channel actor) (\<lambda>channel.
                (to = ApprovalState.Approved \<or> to = ApprovalState.Rejected) \<and>
                \<not> channels_permits (da_allowed_channels self) channel)
        then (Err (ToolDefinitionInvalid ''allowed_channels''), self)
      else
        (let from = da_state self;
             prior_version = da_version self;
             moved = self\<lparr>da_state := to\<rparr>
         in case approval_version_next (da_version moved) of
              Err e \<Rightarrow> (Err e, moved)
            | Ok v \<Rightarrow>
                (let done = record_decision (moved\<lparr>da_version := v\<rparr>) actor occurred_at
                 in (Ok \<lparr>at_id = da_id done, at_from = from, at_to = to,
                          at_prior_version = prior_version, at_version = da_version done,
                          at_actor = actor, at_occurred_at = occurred_at\<rparr>, done))))"

section \<open>The table\<close>

lemma approval_can_transition_simps [simp]:
  "approval_can_transition_to from to \<longleftrightarrow> to \<in> set (approval_targets from)"
  by (fact approval_can_transition_to_def)

primrec approval_stage :: "ApprovalState \<Rightarrow> nat" where
  "approval_stage ApprovalState.Pending = 0"
| "approval_stage ApprovalState.Approved = 1"
| "approval_stage ApprovalState.Rejected = 2"
| "approval_stage ApprovalState.Expired = 2"
| "approval_stage ApprovalState.Cancelled = 2"
| "approval_stage ApprovalState.Consumed = 2"
| "approval_stage ApprovalState.Invalidated = 2"

lemma approval_stage_increases: "approval_can_transition_to s t \<Longrightarrow> approval_stage s < approval_stage t"
  by (cases s) auto

lemma approval_stage_le: "approval_stage s \<le> 2"
  by (cases s) simp_all

interpretation approval_table: edge_table approval_can_transition_to approval_state_is_terminal
proof
  fix s t
  show "approval_state_is_terminal s \<Longrightarrow> \<not> approval_can_transition_to s t" by auto
  show "\<not> approval_state_is_terminal s \<Longrightarrow> \<exists>t. approval_can_transition_to s t" by (cases s) auto
  show "\<not> approval_can_transition_to s s" using approval_stage_increases [of s s] by auto
  show "\<exists>t. approval_can_transition_to\<^sup>*\<^sup>* s t \<and> approval_state_is_terminal t"
  proof (cases "approval_state_is_terminal s")
    case False
    then have "approval_can_transition_to s ApprovalState.Cancelled" by (cases s) simp_all
    then show ?thesis by (intro exI [of _ ApprovalState.Cancelled]) auto
  qed blast
qed

interpretation approval_state_spelling: spelling
  "[ApprovalState.Pending, ApprovalState.Approved, ApprovalState.Rejected, ApprovalState.Expired,
    ApprovalState.Cancelled, ApprovalState.Consumed, ApprovalState.Invalidated]"
  approval_state_as_contract_str "\<lambda>s. ok (approval_state_parse s)"
proof
  show "x \<in> set [ApprovalState.Pending, ApprovalState.Approved, ApprovalState.Rejected,
      ApprovalState.Expired, ApprovalState.Cancelled, ApprovalState.Consumed, ApprovalState.Invalidated]" for x
    by (cases x) simp_all
qed (auto simp: approval_state_parse_def)

interpretation approval_channel_spelling: spelling "[Cli, Desktop, Mobile, Voice, Api]"
  approval_channel_as_contract_str "\<lambda>s. ok (approval_channel_parse s)"
proof
  show "x \<in> set [Cli, Desktop, Mobile, Voice, Api]" for x by (cases x) simp_all
qed (auto simp: approval_channel_parse_def)

section \<open>Applying a transition\<close>

lemma approval_version_next_Ok: "approval_version_next v = Ok w \<Longrightarrow> unat w = Suc (unat v)"
  by (auto simp: approval_version_next_def dest: checked_add_Some)

lemma approval_version_next_Err_iff: "(\<exists>e. approval_version_next v = Err e) \<longleftrightarrow> v = - 1"
  using checked_add_one_Some_iff [of v]
  by (cases "checked_add v 1") (auto simp: approval_version_next_def)

lemma record_decision_fields [simp]:
  "da_state (record_decision a actor at) = da_state a"
  "da_version (record_decision a actor at) = da_version a"
  "da_id (record_decision a actor at) = da_id a"
  "da_action_digest (record_decision a actor at) = da_action_digest a"
  "da_expires_at (record_decision a actor at) = da_expires_at a"
  "da_allowed_channels (record_decision a actor at) = da_allowed_channels a"
  by (simp_all add: record_decision_def split: ApprovalActor.split)

lemma approval_apply_OkD:
  assumes "approval_apply a to ver actor at = (Ok r, a')"
  shows "ver = da_version a" and "approval_can_transition_to (da_state a) to"
    and "unat (da_version a') = Suc (unat (da_version a))"
    and "a' = record_decision (a\<lparr>da_state := to, da_version := da_version a'\<rparr>) actor at"
    and "at_to r = to" and "at_actor r = actor" and "at_occurred_at r = at"
    and "actor_channel actor = Some c \<Longrightarrow> to \<in> {ApprovalState.Approved, ApprovalState.Rejected} \<Longrightarrow>
      channels_permits (da_allowed_channels a) c"
  using assms
  by (auto simp: approval_apply_def Let_def split: if_split_asm sum.split_asm
      dest: approval_version_next_Ok)

lemma approval_apply_ErrD:
  assumes "approval_apply a to ver actor at = (Err x, a')"
  shows "da_version a' = da_version a" and "da_version a \<noteq> - 1 \<Longrightarrow> a' = a"
  using assms approval_version_next_Err_iff [of "da_version a"]
  by (auto simp: approval_apply_def Let_def split: if_split_asm sum.split_asm)

record ApprovalRequest =
  aq_to :: ApprovalState
  aq_expected_version :: ApprovalVersion
  aq_actor :: ApprovalActor
  aq_occurred_at :: instant

definition approval_step ::
  "DurableApproval \<Rightarrow> ApprovalRequest \<Rightarrow> (DomainError + ApprovalTransitionRecord) \<times> DurableApproval"
where
  "approval_step a q = approval_apply a (aq_to q) (aq_expected_version q) (aq_actor q) (aq_occurred_at q)"

definition approval_apply_all ::
  "DurableApproval \<Rightarrow> ApprovalRequest list \<Rightarrow> (DomainError + ApprovalTransitionRecord) list \<times> DurableApproval"
where
  "approval_apply_all = run_steps approval_step"

interpretation approval_versioned: versioned approval_step aq_expected_version da_version aq_to da_state
  approval_can_transition_to
proof
  fix e c r e'
  assume "approval_step e c = (Ok r, e')"
  note d = approval_apply_OkD [OF this [unfolded approval_step_def]]
  show "aq_expected_version c = da_version e" by (fact d(1))
  show "approval_can_transition_to (da_state e) (aq_to c)" by (fact d(2))
  show "unat (da_version e') = Suc (unat (da_version e))" by (fact d(3))
  show "da_state e' = aq_to c" by (subst d(4)) simp
next
  fix e c x e'
  assume "approval_step e c = (Err x, e')"
  note d = approval_apply_ErrD [OF this [unfolded approval_step_def]]
  show "da_version e' = da_version e" by (fact d(1))
  show "da_version e \<noteq> - 1 \<Longrightarrow> e' = e" by (fact d(2))
qed

lemma approval_apply_stage:
  "approval_stage (da_state a) \<le> approval_stage (da_state (snd (approval_apply a to ver actor at)))"
  using approval_stage_increases [of "da_state a" to]
  by (auto simp: approval_apply_def Let_def less_imp_le split: sum.split)

interpretation approval_staged: staged approval_step at_to da_state approval_stage 2
proof
  show "approval_stage s \<le> 2" for s by (rule approval_stage_le)
  fix a q
  show "approval_stage (da_state a) \<le> approval_stage (da_state a')" if "approval_step a q = (r, a')" for r a'
    using that approval_apply_stage [of a] by (metis approval_step_def snd_conv)
  fix t a'
  assume "approval_step a q = (Ok t, a')"
  note d = approval_apply_OkD [OF this [unfolded approval_step_def]]
  show "approval_stage (da_state a) < approval_stage (at_to t)"
    unfolding d(5) by (rule approval_stage_increases [OF d(2)])
  show "da_state a' = at_to t" unfolding d(5) by (subst d(4)) simp
qed

section \<open>Histories\<close>

lemma approval_step_keeps:
  assumes "approval_step a q = (r, a')"
  shows "da_action_digest a' = da_action_digest a" and "da_expires_at a' = da_expires_at a"
    and "da_allowed_channels a' = da_allowed_channels a"
  using assms
  by (auto simp: approval_step_def approval_apply_def Let_def split: if_split_asm sum.split_asm)

lemma approval_history_keeps:
  "run_steps approval_step a qs = (rs, a') \<Longrightarrow>
     da_action_digest a' = da_action_digest a \<and> da_expires_at a' = da_expires_at a \<and>
     da_allowed_channels a' = da_allowed_channels a"
proof (induction qs arbitrary: a rs)
  case Nil
  then show ?case by simp
next
  case (Cons q qs)
  then obtain r rs' a1 where "approval_step a q = (r, a1)" "run_steps approval_step a1 qs = (rs', a')"
    by (auto simp: run_steps_Cons_iff simp del: run_steps.simps)
  with Cons.IH approval_step_keeps show ?case by metis
qed

text \<open>An approval in state \<open>Approved\<close> got there by an accepted request, and nothing followed.\<close>

lemma approved_was_decided:
  assumes "run_steps approval_step a qs = (rs, a')" and "da_state a = ApprovalState.Pending"
    and "da_state a' = ApprovalState.Approved" and "da_version a \<noteq> - 1"
  shows "\<exists>i < length qs. \<exists>t. rs ! i = Ok t \<and> at_to t = ApprovalState.Approved \<and> at_actor t = aq_actor (qs ! i) \<and>
    (\<forall>c. actor_channel (aq_actor (qs ! i)) = Some c \<longrightarrow> channels_permits (da_allowed_channels a) c)"
  using assms
proof (induction qs arbitrary: a rs)
  case Nil
  then show ?case by simp
next
  case (Cons q qs)
  then obtain r rs' a1 where 1: "approval_step a q = (r, a1)"
      "run_steps approval_step a1 qs = (rs', a')" "rs = r # rs'"
    by (auto simp: run_steps_Cons_iff simp del: run_steps.simps)
  show ?case
  proof (cases r)
    case (Inl x)
    with 1(1) Cons.prems(4) have "a1 = a"
      using approval_versioned.refused_keeps by blast
    with Cons.IH [OF 1(2)] Cons.prems(2-4) 1(3) show ?thesis
      by (metis Suc_less_eq length_Cons nth_Cons_Suc)
  next
    case (Inr t)
    with 1(1) have ok: "approval_step a q = (Ok t, a1)" by simp
    note d = approval_apply_OkD [OF ok [unfolded approval_step_def]]
    have s1: "da_state a1 = at_to t" by (rule approval_staged.state_entered [OF ok])
    have "approval_stage (da_state a1) \<le> approval_stage (da_state a')"
      using approval_staged.history_length [OF 1(2)] by simp
    with s1 Cons.prems(2,3) d(2,5) have "at_to t = ApprovalState.Approved" by auto
    with d 1(3) Inr show ?thesis by (intro exI [of _ 0]) auto
  qed
qed

section \<open>Properties\<close>

text \<open>An approval is given once and used once: whatever requests are applied to it in whatever
  order, at most two are accepted, no state is entered twice, and so at most one request
  consumes it; and of requests naming one version at most one is accepted.\<close>

theorem approval_consumed_at_most_once:
  assumes "approval_apply_all a qs = (rs, a')"
  shows "length (filter is_ok rs) \<le> 2 \<and>
    (i < j \<and> j < length qs \<and> rs ! i = Ok t \<and> rs ! j = Ok u \<longrightarrow>
       at_to t \<noteq> at_to u \<and> aq_expected_version (qs ! i) \<noteq> aq_expected_version (qs ! j))"
proof -
  note h = assms [unfolded approval_apply_all_def]
  have "length (filter is_ok rs) \<le> 2" using approval_staged.history_bounded [OF h] by linarith
  moreover have "at_to t \<noteq> at_to u \<and> aq_expected_version (qs ! i) \<noteq> aq_expected_version (qs ! j)"
    if "i < j" "j < length qs" "rs ! i = Ok t" "rs ! j = Ok u"
    using approval_staged.history_distinct [OF h that]
      approval_versioned.single_winner [OF h that(1,2)] that(3,4) by auto
  ultimately show ?thesis by blast
qed

definition sample_parts :: ApprovalRequestParts where
  "sample_parts =
     \<lparr>ap_workspace = 1, ap_requesting_principal = 2, ap_run = 3, ap_tool_call = 4,
      ap_identity = read_identity, ap_action_digest = replicate 32 7, ap_risk = Risk.Low,
      ap_effects = [Effect.ReadOnly], ap_summary = ApprovalSummary ''read'',
      ap_preview = ApprovalPreview [], ap_allowed_channels = AllowedChannels [Cli],
      ap_expires_at = 100, ap_scope = OneShot\<rparr>"

definition sample_approval :: DurableApproval where
  "sample_approval = approval_request 9 sample_parts"

definition sample_decision :: ApprovalRequest where
  "sample_decision = \<lparr>aq_to = ApprovalState.Approved, aq_expected_version = 1,
     aq_actor = ActorDecided 2 Cli Standard None, aq_occurred_at = 10\<rparr>"

lemma sample_decision_run:
  "approval_apply_all sample_approval [sample_decision] =
     (fst (approval_apply_all sample_approval [sample_decision]),
      sample_approval\<lparr>da_state := ApprovalState.Approved, da_version := 2, da_decided_by := Some 2,
        da_decided_via := Some Cli, da_decided_assurance := Some Standard, da_decided_at := Some 10\<rparr>)"
  by (simp add: approval_apply_all_def sample_decision_def sample_approval_def sample_parts_def
      approval_request_def approval_step_def approval_apply_def actor_channel_def
      channels_permits_def Let_def approval_version_first_def approval_version_next_def
      checked_add_def record_decision_def)

theorem approval_consumed_at_most_once_witness:
  "length (filter is_ok (fst (approval_apply_all sample_approval [sample_decision]))) \<le> 2"
  using approval_consumed_at_most_once [OF sample_decision_run] by simp

text \<open>An approval covers exactly the action it was requested for and only while it lasts: after
  any history of a requested approval, if it covers a digest at an instant then that is the
  digest of the request, the instant is before the requested expiry, and some accepted request
  approved it, through a permitted channel if its actor named one.\<close>

theorem covering_approval_was_approved:
  assumes "approval_apply_all (approval_request ident parts) qs = (rs, a')"
    and "approval_covers a' digest now"
  shows "digest = ap_action_digest parts \<and> now < ap_expires_at parts \<and>
    (\<exists>i < length qs. \<exists>t. rs ! i = Ok t \<and> at_to t = ApprovalState.Approved \<and>
       (case actor_channel (aq_actor (qs ! i)) of None \<Rightarrow> True
        | Some c \<Rightarrow> channels_permits (ap_allowed_channels parts) c))"
proof -
  let ?a = "approval_request ident parts"
  have f: "da_action_digest ?a = ap_action_digest parts" "da_expires_at ?a = ap_expires_at parts"
    "da_allowed_channels ?a = ap_allowed_channels parts" "da_state ?a = ApprovalState.Pending"
    "da_version ?a = 1"
    by (simp_all add: approval_request_def approval_version_first_def)
  note h = assms(1) [unfolded approval_apply_all_def]
  from assms(2) have c: "da_state a' = ApprovalState.Approved" "da_action_digest a' = digest"
      "now < da_expires_at a'"
    by (simp_all add: approval_covers_def is_lapsed_at_def not_le)
  from approved_was_decided [OF h f(4) c(1)] f(3,5)
  have "\<exists>i < length qs. \<exists>t. rs ! i = Ok t \<and> at_to t = ApprovalState.Approved \<and>
       (case actor_channel (aq_actor (qs ! i)) of None \<Rightarrow> True
        | Some c \<Rightarrow> channels_permits (ap_allowed_channels parts) c)"
    by (auto split: option.split)
  with approval_history_keeps [OF h] f c show ?thesis by simp
qed

theorem covering_approval_was_approved_witness:
  "\<exists>i < 1. \<exists>t. fst (approval_apply_all sample_approval [sample_decision]) ! i = Ok t \<and>
     at_to t = ApprovalState.Approved"
proof -
  have "approval_covers (snd (approval_apply_all sample_approval [sample_decision])) (replicate 32 7) 99"
    by (subst sample_decision_run)
      (simp add: approval_covers_def is_lapsed_at_def sample_approval_def approval_request_def sample_parts_def)
  from covering_approval_was_approved [OF prod.collapse [symmetric], of 9 sample_parts "[sample_decision]",
      folded sample_approval_def, OF this]
  show ?thesis by auto
qed

text \<open>An approval can be given by nobody: a request to approve whose actor is not a decision
  carries no channel, so the channel test is skipped; it is accepted and leaves an approved
  record that names no decider, channel or assurance.\<close>

theorem approval_without_decider:
  assumes "da_state a = ApprovalState.Pending" and "da_version a \<noteq> - 1"
    and "da_decided_by a = None" and "actor_channel actor = None"
  shows "\<exists>r a'. approval_apply a ApprovalState.Approved (da_version a) actor at = (Ok r, a') \<and>
    da_state a' = ApprovalState.Approved \<and> da_decided_by a' = None"
proof -
  from assms(2) obtain v where v: "checked_add (da_version a) 1 = Some v"
    using checked_add_one_Some_iff by blast
  have "record_decision x actor at = x" for x
    using assms(4) by (cases actor) (simp_all add: record_decision_def actor_channel_def)
  with assms v show ?thesis
    by (simp add: approval_apply_def approval_version_next_def Let_def)
qed

theorem approval_without_decider_witness:
  "\<exists>r a'. approval_apply sample_approval ApprovalState.Approved 1 (ActorExpired 100) 5 = (Ok r, a') \<and>
     da_state a' = ApprovalState.Approved \<and> da_decided_by a' = None"
  using approval_without_decider [of sample_approval "ActorExpired 100" 5]
  by (simp add: sample_approval_def approval_request_def approval_version_first_def actor_channel_def)

text \<open>A second decision can arrive: the record of who approved is replaced by whoever cancels with
  a decision actor, though the comment in \<open>apply\<close> says no second decision can.\<close>

lemma second_decision_overwrites:
  assumes "da_state a = ApprovalState.Approved" and "da_version a \<noteq> - 1"
  shows "\<exists>r a'. approval_apply a ApprovalState.Cancelled (da_version a)
      (ActorDecided pr c s n) at = (Ok r, a') \<and> da_decided_by a' = Some pr \<and> da_decided_via a' = Some c"
proof -
  from assms(2) obtain v where "checked_add (da_version a) 1 = Some v"
    using checked_add_one_Some_iff by blast
  with assms show ?thesis
    by (simp add: approval_apply_def approval_version_next_def Let_def record_decision_def actor_channel_def)
qed

end
