(* ===== verification/Tool_Definition.thy ===== *)
theory Tool_Definition
  imports Tool_Classification
begin

text \<open>
  \<open>tool/definition.rs\<close>: a tool's declaration and the rules \<open>ToolDefinition::new\<close> enforces
  before a tool can be offered at all.
\<close>

text \<open>\<open>char::is_whitespace\<close> on UTF-8: U+0009..U+000D, U+0020, U+0085, U+00A0, U+1680,
  U+2000..U+200A, U+2028, U+2029, U+202F, U+205F and U+3000, each by its encoding.\<close>

fun all_whitespace :: "string \<Rightarrow> bool" where
  "all_whitespace [] = True"
| "all_whitespace [a] = ((9 \<le> byte a \<and> byte a \<le> 13) \<or> byte a = 32)"
| "all_whitespace [a, b] =
     (if (9 \<le> byte a \<and> byte a \<le> 13) \<or> byte a = 32 then all_whitespace [b]
      else byte a = 194 \<and> (byte b = 133 \<or> byte b = 160))"
| "all_whitespace (a # b # c # cs) =
     (if (9 \<le> byte a \<and> byte a \<le> 13) \<or> byte a = 32 then all_whitespace (b # c # cs)
      else if byte a = 194 \<and> (byte b = 133 \<or> byte b = 160) then all_whitespace (c # cs)
      else if (byte a = 225 \<and> byte b = 154 \<and> byte c = 128) \<or>
              (byte a = 226 \<and> byte b = 128 \<and>
               ((128 \<le> byte c \<and> byte c \<le> 138) \<or> byte c = 168 \<or> byte c = 169 \<or> byte c = 175)) \<or>
              (byte a = 226 \<and> byte b = 129 \<and> byte c = 159) \<or>
              (byte a = 227 \<and> byte b = 128 \<and> byte c = 128)
        then all_whitespace cs
      else False)"

primrec effect_rank :: "Effect \<Rightarrow> nat" where
  "effect_rank Effect.ReadOnly = 0"
| "effect_rank Effect.Write = 1"
| "effect_rank Effect.ExternalCommunication = 2"
| "effect_rank Effect.Destructive = 3"
| "effect_rank Effect.CodeExecution = 4"
| "effect_rank Effect.Financial = 5"
| "effect_rank Effect.Privileged = 6"
| "effect_rank Effect.Physical = 7"

record ToolDefinition =
  td_identity :: ToolIdentity
  td_display_name :: string
  td_purpose :: string
  td_source_version :: ToolVersion
  td_effects :: "Effect list"
  td_risk :: Risk
  td_required_scopes :: "Scope list"
  td_default_approval :: ApprovalHint
  td_idempotency :: Idempotency
  td_data_classes :: DataClasses
  td_execution :: ExecutionDefaults

definition tool_definition_new ::
  "ToolIdentity \<Rightarrow> string \<Rightarrow> string \<Rightarrow> Effect list \<Rightarrow> Risk \<Rightarrow> Scope list \<Rightarrow> ApprovalHint \<Rightarrow>
   Idempotency \<Rightarrow> DataClasses \<Rightarrow> ExecutionDefaults \<Rightarrow> DomainError + ToolDefinition"
where
  "tool_definition_new identity display_name purpose effects risk required_scopes default_approval
     idempotency data_classes execution =
     (if \<not> is_display_name display_name then Err (ToolDefinitionInvalid ''display_name'')
      else if purpose = [] \<or> all_whitespace purpose then Err (ToolDefinitionInvalid ''purpose'')
      else if effects = [] \<or> length effects > MAX_TOOL_EFFECTS then Err (ToolDefinitionInvalid ''effects'')
      else if length (remdups_adj (sort_key effect_rank effects)) \<noteq> length effects
        then Err (ToolDefinitionInvalid ''effects'')
      else if Effect.ReadOnly \<in> set effects \<and> length effects > 1
        then Err (ToolDefinitionInvalid ''effects'')
      else if length required_scopes > MAX_TOOL_SCOPES
        then Err (ToolDefinitionInvalid ''required_scopes'')
      else if length (remdups_adj (sort_key scope_as_str required_scopes)) \<noteq> length required_scopes
        then Err (ToolDefinitionInvalid ''required_scopes'')
      else if required_scopes = [] \<and> default_approval = ApprovalHint.Allow \<and> risk \<ge> Risk.High
        then Err (ToolDefinitionInvalid ''default_approval'')
      else if tc_major (ti_capability identity) \<noteq> tv_major (ts_version (ti_source identity))
        then Err (ToolDefinitionInvalid ''source.version'')
      else Ok \<lparr>td_identity = identity, td_display_name = display_name, td_purpose = purpose,
               td_source_version = ts_version (ti_source identity), td_effects = effects,
               td_risk = risk, td_required_scopes = required_scopes,
               td_default_approval = default_approval, td_idempotency = idempotency,
               td_data_classes = data_classes, td_execution = execution\<rparr>)"

definition definition_capability :: "ToolDefinition \<Rightarrow> ToolCapability" where
  "definition_capability d = ti_capability (td_identity d)"

definition definition_source :: "ToolDefinition \<Rightarrow> ToolSource" where
  "definition_source d = ti_source (td_identity d)"

definition has_effect :: "ToolDefinition \<Rightarrow> Effect \<Rightarrow> bool" where
  "has_effect d e \<longleftrightarrow> e \<in> set (td_effects d)"

definition definition_is_consequential :: "ToolDefinition \<Rightarrow> bool" where
  "definition_is_consequential d = list_ex effect_is_consequential (td_effects d)"

definition is_same_tool_as :: "ToolDefinition \<Rightarrow> ToolDefinition \<Rightarrow> bool" where
  "is_same_tool_as d candidate = identity_authorizes (td_identity d) (td_identity candidate)"

section \<open>What a definition guarantees\<close>

lemma effect_rank_inject: "effect_rank x = effect_rank y \<Longrightarrow> x = y"
  by (cases x; cases y) simp_all

definition definition_ok :: "ToolDefinition \<Rightarrow> bool" where
  "definition_ok d \<longleftrightarrow>
     is_display_name (td_display_name d) \<and> td_purpose d \<noteq> [] \<and> \<not> all_whitespace (td_purpose d) \<and>
     td_effects d \<noteq> [] \<and> length (td_effects d) \<le> MAX_TOOL_EFFECTS \<and> distinct (td_effects d) \<and>
     (has_effect d Effect.ReadOnly \<longrightarrow> td_effects d = [Effect.ReadOnly]) \<and>
     length (td_required_scopes d) \<le> MAX_TOOL_SCOPES \<and> distinct (td_required_scopes d) \<and>
     (td_required_scopes d = [] \<and> td_default_approval d = ApprovalHint.Allow \<longrightarrow> td_risk d < Risk.High) \<and>
     tc_major (definition_capability d) = tv_major (ts_version (definition_source d)) \<and>
     td_source_version d = ts_version (definition_source d)"

lemma tool_definition_new_ok:
  assumes "tool_definition_new i n p es r ss h idem dc x = Ok d"
  shows "definition_ok d"
proof -
  have e: "length (remdups_adj (sort_key effect_rank es)) = length es \<longleftrightarrow> distinct es"
    by (rule sort_dedup_distinct) (auto intro: inj_onI effect_rank_inject)
  have s: "length (remdups_adj (sort_key scope_as_str ss)) = length ss \<longleftrightarrow> distinct ss"
    by (rule sort_dedup_distinct) (auto intro: inj_onI Scope.expand)
  have one: "Effect.ReadOnly \<in> set es \<Longrightarrow> \<not> length es > 1 \<Longrightarrow> es = [Effect.ReadOnly]"
    by (cases es; cases "tl es") auto
  show ?thesis
    using assms one
    by (auto simp: tool_definition_new_def e s definition_ok_def has_effect_def
        definition_capability_def definition_source_def not_le not_less split: if_splits)
qed

end
