(* ===== verification/Tool_Policy.thy ===== *)
theory Tool_Policy
  imports Tool_Approval Tool_Definition
begin

text \<open>
  \<open>tool/policy.rs\<close>: may this principal invoke this tool on these arguments now? The decision
  walks deny rules, availability, grants, their constraints, approvals, autonomy and the tool's
  declared default, in that order. A \<open>BTreeSet\<close> is the list of its members.
\<close>

section \<open>Vocabulary\<close>

datatype PolicyOutcome = Allow | Ask | Deny

primrec policy_outcome_as_contract_str :: "PolicyOutcome \<Rightarrow> string" where
  "policy_outcome_as_contract_str PolicyOutcome.Allow = ''ALLOW''"
| "policy_outcome_as_contract_str PolicyOutcome.Ask = ''ASK''"
| "policy_outcome_as_contract_str PolicyOutcome.Deny = ''DENY''"

datatype PolicyReason =
    ExplicitDeny | NoGrant | MissingScope | EffectNotPermitted | IdentityReplaced
  | RiskAboveCeiling | SensitivityAboveCeiling | GrantExpired | ToolDisabled | DeadlinePassed
  | EffectDenied | ApprovalMatched | ApprovalFingerprintMismatch | ApprovalExpired
  | ApprovalConsumed | DefaultAsk | DefaultDeny | LowRiskReadOnly | AutonomyAllowed

datatype AutonomyLevel = Ask | Balanced | Autonomous

definition auto_allows :: "AutonomyLevel \<Rightarrow> Effect list \<Rightarrow> Risk \<Rightarrow> bool" where
  "auto_allows self effects risk =
     (if effects = [] then False
      else (case self of
              AutonomyLevel.Ask \<Rightarrow> False
            | AutonomyLevel.Balanced \<Rightarrow>
                list_all (\<lambda>e. e = Effect.ReadOnly) effects \<and> risk \<le> Risk.Low
            | AutonomyLevel.Autonomous \<Rightarrow>
                list_all (\<lambda>e. e = Effect.ReadOnly \<or> e = Effect.Write) effects \<and> risk \<le> Risk.Moderate))"

primrec autonomy_as_contract_str :: "AutonomyLevel \<Rightarrow> string" where
  "autonomy_as_contract_str AutonomyLevel.Ask = ''ask''"
| "autonomy_as_contract_str AutonomyLevel.Balanced = ''balanced''"
| "autonomy_as_contract_str AutonomyLevel.Autonomous = ''autonomous''"

definition autonomy_parse :: "string \<Rightarrow> AutonomyLevel option" where
  "autonomy_parse value =
     (if value = ''ask'' then Some AutonomyLevel.Ask
      else if value = ''balanced'' then Some AutonomyLevel.Balanced
      else if value = ''autonomous'' then Some AutonomyLevel.Autonomous
      else None)"

record Grant =
  gr_identity :: ToolIdentity
  gr_workspace :: uuid
  gr_principal :: uuid
  gr_scopes :: "Scope list"
  gr_effects :: "Effect list"
  gr_risk_ceiling :: Risk
  gr_sensitivity_ceiling :: Sensitivity
  gr_expires_at :: "instant option"

definition grant_is_expired_at :: "Grant \<Rightarrow> instant \<Rightarrow> bool" where
  "grant_is_expired_at self now = is_some_and (gr_expires_at self) (\<lambda>expires_at. now \<ge> expires_at)"

definition grant_applies_at :: "Grant \<Rightarrow> ToolIdentity \<Rightarrow> uuid \<Rightarrow> uuid \<Rightarrow> instant \<Rightarrow> bool" where
  "grant_applies_at self identity workspace pr now \<longleftrightarrow>
     gr_identity self = identity \<and> gr_workspace self = workspace \<and> gr_principal self = pr \<and>
     \<not> grant_is_expired_at self now"

definition names_identity_but_expired :: "Grant \<Rightarrow> ToolIdentity \<Rightarrow> uuid \<Rightarrow> uuid \<Rightarrow> instant \<Rightarrow> bool" where
  "names_identity_but_expired self identity workspace pr now \<longleftrightarrow>
     gr_identity self = identity \<and> gr_workspace self = workspace \<and> gr_principal self = pr \<and>
     grant_is_expired_at self now"

record ApprovalRecord =
  ar_identity :: ToolIdentity
  ar_principal :: uuid
  ar_workspace :: uuid
  ar_action_digest :: ActionDigest
  ar_expires_at :: instant
  ar_standing :: bool
  ar_consumed :: bool

record DenyRule =
  dr_identity :: "ToolIdentity option"
  dr_principal :: "uuid option"
  dr_workspace :: "uuid option"
  dr_effects :: "Effect list"

record PolicyRequest =
  pq_identity :: ToolIdentity
  pq_principal :: uuid
  pq_workspace :: uuid
  pq_effects :: "Effect list"
  pq_risk :: Risk
  pq_required_scopes :: "Scope list"
  pq_default_approval :: ApprovalHint
  pq_sensitivity :: Sensitivity
  pq_action_digest :: ActionDigest
  pq_tool_enabled :: bool
  pq_deadline :: "instant option"

definition deny_rule_matches :: "DenyRule \<Rightarrow> PolicyRequest \<Rightarrow> bool" where
  "deny_rule_matches self request =
     (if dr_identity self = None \<and> dr_principal self = None \<and> dr_workspace self = None \<and>
         dr_effects self = [] then False
      else if is_some_and (dr_identity self) (\<lambda>i. i \<noteq> pq_identity request) then False
      else if is_some_and (dr_principal self) (\<lambda>p. p \<noteq> pq_principal request) then False
      else if is_some_and (dr_workspace self) (\<lambda>w. w \<noteq> pq_workspace request) then False
      else if dr_effects self \<noteq> [] \<and> \<not> list_ex (\<lambda>e. e \<in> set (pq_effects request)) (dr_effects self)
        then False
      else True)"

record PolicyInputs =
  pn_now :: instant
  pn_grants :: "Grant list"
  pn_approvals :: "ApprovalRecord list"
  pn_deny_rules :: "DenyRule list"

record GrantRef =
  gf_principal :: uuid
  gf_workspace :: uuid

record PolicyDecision =
  pd_outcome :: PolicyOutcome
  pd_reasons :: "PolicyReason list"
  pd_grant :: "GrantRef option"
  pd_final_outcome :: bool

definition decision_is_allowed :: "PolicyDecision \<Rightarrow> bool" where
  "decision_is_allowed d \<longleftrightarrow> pd_outcome d = PolicyOutcome.Allow"

definition decision_needs_approval :: "PolicyDecision \<Rightarrow> bool" where
  "decision_needs_approval d \<longleftrightarrow> pd_outcome d = PolicyOutcome.Ask"

definition decision_is_denied :: "PolicyDecision \<Rightarrow> bool" where
  "decision_is_denied d \<longleftrightarrow> pd_outcome d = PolicyOutcome.Deny"

definition decision_reason :: "PolicyDecision \<Rightarrow> PolicyReason option" where
  "decision_reason d = (case pd_reasons d of [] \<Rightarrow> None | r # _ \<Rightarrow> Some r)"

definition decision_error_class :: "PolicyDecision \<Rightarrow> ToolErrorClass option" where
  "decision_error_class d =
     (case pd_outcome d of
        PolicyOutcome.Allow \<Rightarrow> None
      | PolicyOutcome.Ask \<Rightarrow> Some ToolErrorClass.ApprovalRequired
      | PolicyOutcome.Deny \<Rightarrow>
          Some (case pd_reasons d of
                  PolicyReason.ApprovalExpired # _ \<Rightarrow> ToolErrorClass.ApprovalExpired
                | PolicyReason.ApprovalFingerprintMismatch # _ \<Rightarrow> ToolErrorClass.ApprovalRejected
                | PolicyReason.ApprovalConsumed # _ \<Rightarrow> ToolErrorClass.ApprovalRejected
                | _ \<Rightarrow> ToolErrorClass.PermissionDenied))"

section \<open>The steps of a decision\<close>

definition missing_scope :: "Scope list \<Rightarrow> Scope list \<Rightarrow> Scope option" where
  "missing_scope held required = find (\<lambda>s. s \<notin> set held) required"

definition refusal :: "PolicyReason \<Rightarrow> PolicyDecision" where
  "refusal reason = \<lparr>pd_outcome = PolicyOutcome.Deny, pd_reasons = [reason], pd_grant = None,
     pd_final_outcome = True\<rparr>"

definition resolve_grant :: "PolicyRequest \<Rightarrow> Grant list \<Rightarrow> instant \<Rightarrow> PolicyReason + Grant" where
  "resolve_grant request grants now =
     (case find (\<lambda>g. grant_applies_at g (pq_identity request) (pq_workspace request)
                    (pq_principal request) now) grants of
        Some g \<Rightarrow> Ok g
      | None \<Rightarrow>
          (let expired = list_ex (\<lambda>g. names_identity_but_expired g (pq_identity request)
                 (pq_workspace request) (pq_principal request) now) grants;
               replaced = list_ex (\<lambda>g. gr_workspace g = pq_workspace request \<and>
                 gr_principal g = pq_principal request \<and>
                 ti_capability (gr_identity g) = ti_capability (pq_identity request) \<and>
                 gr_identity g \<noteq> pq_identity request) grants
           in Err (if expired then GrantExpired else if replaced then IdentityReplaced else NoGrant)))"

definition failed_constraints :: "PolicyRequest \<Rightarrow> Grant \<Rightarrow> PolicyReason list" where
  "failed_constraints request grant =
     (if missing_scope (gr_scopes grant) (pq_required_scopes request) \<noteq> None then [MissingScope] else []) @
     (if list_ex (\<lambda>e. e \<notin> set (gr_effects grant)) (pq_effects request) then [EffectNotPermitted] else []) @
     (if pq_risk request > gr_risk_ceiling grant then [RiskAboveCeiling] else []) @
     (if pq_sensitivity request > gr_sensitivity_ceiling grant then [SensitivityAboveCeiling] else [])"

datatype ApprovalOutcome = Matched | Mismatched PolicyReason | Absent

text \<open>The loop of \<open>resolve_approval\<close>, with the reason remembered so far.\<close>

fun resolve_approval_from ::
  "PolicyReason option \<Rightarrow> PolicyRequest \<Rightarrow> ApprovalRecord list \<Rightarrow> instant \<Rightarrow> ApprovalOutcome"
where
  "resolve_approval_from most_specific request [] now =
     (case most_specific of Some reason \<Rightarrow> Mismatched reason | None \<Rightarrow> Absent)"
| "resolve_approval_from most_specific request (a # as) now =
     (let get_or_insert = (\<lambda>r. case most_specific of None \<Rightarrow> Some r | Some x \<Rightarrow> Some x) in
      if ar_identity a \<noteq> pq_identity request \<or> ar_principal a \<noteq> pq_principal request \<or>
         ar_workspace a \<noteq> pq_workspace request
        then resolve_approval_from most_specific request as now
      else if \<not> ar_standing a \<and> ar_action_digest a \<noteq> pq_action_digest request
        then resolve_approval_from (get_or_insert PolicyReason.ApprovalFingerprintMismatch) request as now
      else if ar_consumed a
        then resolve_approval_from (get_or_insert PolicyReason.ApprovalConsumed) request as now
      else if now \<ge> ar_expires_at a
        then resolve_approval_from (get_or_insert PolicyReason.ApprovalExpired) request as now
      else Matched)"

definition resolve_approval :: "PolicyRequest \<Rightarrow> ApprovalRecord list \<Rightarrow> instant \<Rightarrow> ApprovalOutcome" where
  "resolve_approval request approvals now = resolve_approval_from None request approvals now"

definition finalize_default :: "PolicyRequest \<Rightarrow> GrantRef \<Rightarrow> PolicyReason option \<Rightarrow> PolicyDecision" where
  "finalize_default request grant_ref approval_mismatch =
     (let read_only_and_low_risk =
            Effect.ReadOnly \<in> set (pq_effects request) \<and>
            \<not> list_ex effect_is_consequential (pq_effects request) \<and> pq_risk request \<le> Risk.Low;
          decide = (\<lambda>asks.
            \<lparr>pd_outcome = (if asks then PolicyOutcome.Ask else PolicyOutcome.Deny),
             pd_reasons = [case approval_mismatch of Some r \<Rightarrow> r
                           | None \<Rightarrow> if asks then DefaultAsk else DefaultDeny],
             pd_grant = Some grant_ref, pd_final_outcome = (\<not> asks)\<rparr>)
      in case pq_default_approval request of
           ApprovalHint.Allow \<Rightarrow>
             (if read_only_and_low_risk
              then \<lparr>pd_outcome = PolicyOutcome.Allow, pd_reasons = [LowRiskReadOnly],
                    pd_grant = Some grant_ref, pd_final_outcome = False\<rparr>
              else decide True)
         | ApprovalHint.Ask \<Rightarrow> decide True
         | ApprovalHint.Deny \<Rightarrow> decide False)"

definition evaluate_at :: "PolicyRequest \<Rightarrow> PolicyInputs \<Rightarrow> AutonomyLevel \<Rightarrow> PolicyDecision" where
  "evaluate_at request inputs autonomy =
     (let now = pn_now inputs in
      if list_ex (\<lambda>rule. deny_rule_matches rule request) (pn_deny_rules inputs) then refusal ExplicitDeny
      else if \<not> pq_tool_enabled request then refusal ToolDisabled
      else if is_some_and (pq_deadline request) (\<lambda>deadline. now \<ge> deadline) then refusal DeadlinePassed
      else
        (case resolve_grant request (pn_grants inputs) now of
           Err reason \<Rightarrow> refusal reason
         | Ok grant \<Rightarrow>
             (let grant_ref = \<lparr>gf_principal = gr_principal grant, gf_workspace = gr_workspace grant\<rparr>;
                  failed = failed_constraints request grant
              in if failed \<noteq> []
                 then \<lparr>pd_outcome = PolicyOutcome.Deny, pd_reasons = failed,
                       pd_grant = Some grant_ref, pd_final_outcome = True\<rparr>
                 else
                   (case resolve_approval request (pn_approvals inputs) now of
                      Matched \<Rightarrow>
                        \<lparr>pd_outcome = PolicyOutcome.Allow, pd_reasons = [ApprovalMatched],
                         pd_grant = Some grant_ref, pd_final_outcome = False\<rparr>
                    | outcome \<Rightarrow>
                        (let approval_mismatch =
                           (case outcome of Mismatched reason \<Rightarrow> Some reason | _ \<Rightarrow> None)
                         in if pq_default_approval request \<noteq> ApprovalHint.Deny \<and>
                               auto_allows autonomy (pq_effects request) (pq_risk request)
                            then \<lparr>pd_outcome = PolicyOutcome.Allow, pd_reasons = [AutonomyAllowed],
                                  pd_grant = Some grant_ref, pd_final_outcome = False\<rparr>
                            else finalize_default request grant_ref approval_mismatch)))))"

definition evaluate :: "PolicyRequest \<Rightarrow> PolicyInputs \<Rightarrow> PolicyDecision" where
  "evaluate request inputs = evaluate_at request inputs AutonomyLevel.Ask"

section \<open>The steps characterised\<close>

definition covers_request :: "Grant \<Rightarrow> PolicyRequest \<Rightarrow> bool" where
  "covers_request g q \<longleftrightarrow>
     set (pq_required_scopes q) \<subseteq> set (gr_scopes g) \<and> set (pq_effects q) \<subseteq> set (gr_effects g) \<and>
     pq_risk q \<le> gr_risk_ceiling g \<and> pq_sensitivity q \<le> gr_sensitivity_ceiling g"

definition approval_live :: "ApprovalRecord \<Rightarrow> PolicyRequest \<Rightarrow> instant \<Rightarrow> bool" where
  "approval_live a q now \<longleftrightarrow>
     ar_identity a = pq_identity q \<and> ar_principal a = pq_principal q \<and>
     ar_workspace a = pq_workspace q \<and> (ar_standing a \<or> ar_action_digest a = pq_action_digest q) \<and>
     \<not> ar_consumed a \<and> now < ar_expires_at a"

lemma missing_scope_None: "missing_scope held required = None \<longleftrightarrow> set required \<subseteq> set held"
  by (auto simp: missing_scope_def find_None_iff)

lemma failed_constraints_Nil: "failed_constraints q g = [] \<longleftrightarrow> covers_request g q"
  by (auto simp: failed_constraints_def covers_request_def missing_scope_None list_ex_iff
      simp flip: not_le)

lemma resolve_approval_from_Matched:
  "resolve_approval_from m q as now = Matched \<longleftrightarrow> (\<exists>a \<in> set as. approval_live a q now)"
  by (induction as arbitrary: m) (auto simp: approval_live_def Let_def split: option.split)

lemma resolve_approval_Matched:
  "resolve_approval q as now = Matched \<longleftrightarrow> (\<exists>a \<in> set as. approval_live a q now)"
  by (simp add: resolve_approval_def resolve_approval_from_Matched)

lemma resolve_grant_Ok:
  assumes "resolve_grant q gs now = Ok g"
  shows "g \<in> set gs" and "grant_applies_at g (pq_identity q) (pq_workspace q) (pq_principal q) now"
  using assms
  by (auto simp: resolve_grant_def Let_def find_Some_iff split: option.split_asm)

lemma resolve_grant_Err:
  "(\<exists>r. resolve_grant q gs now = Err r) \<longleftrightarrow>
     (\<forall>g \<in> set gs. \<not> grant_applies_at g (pq_identity q) (pq_workspace q) (pq_principal q) now)"
  by (auto simp: resolve_grant_def Let_def find_None_iff find_Some_iff split: option.split)

definition unattended :: "PolicyRequest \<Rightarrow> AutonomyLevel \<Rightarrow> bool" where
  "unattended q level \<longleftrightarrow>
     (pq_default_approval q \<noteq> ApprovalHint.Deny \<and> auto_allows level (pq_effects q) (pq_risk q)) \<or>
     (pq_default_approval q = ApprovalHint.Allow \<and> Effect.ReadOnly \<in> set (pq_effects q) \<and>
      \<not> list_ex effect_is_consequential (pq_effects q) \<and> pq_risk q \<le> Risk.Low)"

definition gates_pass :: "PolicyRequest \<Rightarrow> PolicyInputs \<Rightarrow> bool" where
  "gates_pass q n \<longleftrightarrow>
     \<not> list_ex (\<lambda>rule. deny_rule_matches rule q) (pn_deny_rules n) \<and> pq_tool_enabled q \<and>
     \<not> is_some_and (pq_deadline q) (\<lambda>d. pn_now n \<ge> d)"

lemma finalize_default_Allow:
  "pd_outcome (finalize_default q r m) = PolicyOutcome.Allow \<longleftrightarrow>
     pq_default_approval q = ApprovalHint.Allow \<and> Effect.ReadOnly \<in> set (pq_effects q) \<and>
     \<not> list_ex effect_is_consequential (pq_effects q) \<and> pq_risk q \<le> Risk.Low"
  by (simp add: finalize_default_def Let_def split: ApprovalHint.split)

lemma finalize_default_Deny:
  "pd_outcome (finalize_default q r m) = PolicyOutcome.Deny \<longleftrightarrow>
     pq_default_approval q = ApprovalHint.Deny"
  by (simp add: finalize_default_def Let_def split: ApprovalHint.split)

lemma evaluate_at_gates:
  "\<not> gates_pass q n \<Longrightarrow> pd_outcome (evaluate_at q n level) = PolicyOutcome.Deny"
  by (auto simp: evaluate_at_def gates_pass_def refusal_def Let_def)

lemma evaluate_at_no_grant:
  "gates_pass q n \<Longrightarrow> resolve_grant q (pn_grants n) (pn_now n) = Err r \<Longrightarrow>
   evaluate_at q n level = refusal r"
  by (simp add: evaluate_at_def gates_pass_def)

lemma evaluate_at_not_covered:
  "gates_pass q n \<Longrightarrow> resolve_grant q (pn_grants n) (pn_now n) = Ok g \<Longrightarrow> \<not> covers_request g q \<Longrightarrow>
   pd_outcome (evaluate_at q n level) = PolicyOutcome.Deny"
  by (simp add: evaluate_at_def gates_pass_def Let_def failed_constraints_Nil)

lemma evaluate_at_covered:
  assumes "gates_pass q n" "resolve_grant q (pn_grants n) (pn_now n) = Ok g" "covers_request g q"
  shows "pd_outcome (evaluate_at q n level) =
    (if (\<exists>a \<in> set (pn_approvals n). approval_live a q (pn_now n)) \<or> unattended q level
     then PolicyOutcome.Allow
     else if pq_default_approval q = ApprovalHint.Deny then PolicyOutcome.Deny
     else PolicyOutcome.Ask)"
proof -
  let ?fin = "\<lambda>m. finalize_default q
    \<lparr>gf_principal = gr_principal g, gf_workspace = gr_workspace g\<rparr> m"
  have fin: "pd_outcome (?fin m) =
      (if pq_default_approval q = ApprovalHint.Allow \<and> Effect.ReadOnly \<in> set (pq_effects q) \<and>
          \<not> list_ex effect_is_consequential (pq_effects q) \<and> pq_risk q \<le> Risk.Low
       then PolicyOutcome.Allow
       else if pq_default_approval q = ApprovalHint.Deny then PolicyOutcome.Deny
       else PolicyOutcome.Ask)" for m
    by (simp add: finalize_default_def Let_def split: ApprovalHint.split)
  show ?thesis
    using assms resolve_approval_Matched [of q "pn_approvals n" "pn_now n"]
    by (cases "resolve_approval q (pn_approvals n) (pn_now n)")
       (simp_all add: evaluate_at_def gates_pass_def Let_def failed_constraints_Nil fin
         unattended_def)
qed

lemma evaluate_at_allowed_iff:
  "pd_outcome (evaluate_at q n level) = PolicyOutcome.Allow \<longleftrightarrow>
     gates_pass q n \<and>
     (\<exists>g. resolve_grant q (pn_grants n) (pn_now n) = Ok g \<and> covers_request g q) \<and>
     ((\<exists>a \<in> set (pn_approvals n). approval_live a q (pn_now n)) \<or> unattended q level)"
proof (cases "gates_pass q n")
  case True
  then show ?thesis
  proof (cases "resolve_grant q (pn_grants n) (pn_now n)")
    case (Inl r)
    then show ?thesis using evaluate_at_no_grant [OF True Inl] by (simp add: refusal_def)
  next
    case (Inr g)
    then show ?thesis
      using True evaluate_at_not_covered [OF True Inr] evaluate_at_covered [OF True Inr]
      by (cases "covers_request g q") simp_all
  qed
qed (simp add: evaluate_at_gates)

lemma auto_allows_Ask [simp]: "\<not> auto_allows AutonomyLevel.Ask es r"
  by (simp add: auto_allows_def)

lemma auto_allows_mono:
  "auto_allows AutonomyLevel.Balanced es r \<Longrightarrow> auto_allows AutonomyLevel.Autonomous es r"
  by (auto simp: auto_allows_def list_all_iff less_eq_Risk_def)

lemma unattended_mono:
  "unattended q AutonomyLevel.Ask \<Longrightarrow> unattended q level"
  "unattended q AutonomyLevel.Balanced \<Longrightarrow> unattended q AutonomyLevel.Autonomous"
  using auto_allows_mono by (auto simp: unattended_def)

lemma unattended_not_denied: "unattended q level \<Longrightarrow> pq_default_approval q \<noteq> ApprovalHint.Deny"
  by (auto simp: unattended_def)

text \<open>Whether a decision is a refusal does not depend on the autonomy level.\<close>

lemma evaluate_at_denied_iff:
  "pd_outcome (evaluate_at q n level) = PolicyOutcome.Deny \<longleftrightarrow>
     \<not> gates_pass q n \<or>
     \<not> (\<exists>g. resolve_grant q (pn_grants n) (pn_now n) = Ok g \<and> covers_request g q) \<or>
     (pq_default_approval q = ApprovalHint.Deny \<and>
      \<not> (\<exists>a \<in> set (pn_approvals n). approval_live a q (pn_now n)))"
proof (cases "gates_pass q n")
  case True
  then show ?thesis
  proof (cases "resolve_grant q (pn_grants n) (pn_now n)")
    case (Inl r)
    then show ?thesis using evaluate_at_no_grant [OF True Inl] by (simp add: refusal_def)
  next
    case (Inr g)
    then show ?thesis
      using True evaluate_at_not_covered [OF True Inr] evaluate_at_covered [OF True Inr]
        unattended_not_denied
      by (cases "covers_request g q") auto
  qed
qed (simp add: evaluate_at_gates)

lemma not_some_and_deadline:
  "\<not> is_some_and d (\<lambda>x. now \<ge> x) \<longleftrightarrow> (\<forall>x. d = Some x \<longrightarrow> (now :: instant) < x)"
  by (cases d) auto

section \<open>Properties\<close>

text \<open>C3: A tool call is allowed only when no deny rule matches it, the tool is enabled, its
  deadline has not passed, and an unexpired grant for exactly this identity, workspace and principal
  covers its scopes, effects, risk and sensitivity; and, beyond the grant, either an unconsumed and
  unexpired approval for the same action (or a standing one) exists, or the tool does not declare
  itself denied and the autonomy level admits its effects and risk, or it declares itself allowed
  and is a low-risk read.\<close>

theorem allow_only_under_grant:
  assumes "decision_is_allowed (evaluate_at q n level)"
  shows "(\<forall>rule \<in> set (pn_deny_rules n). \<not> deny_rule_matches rule q) \<and> pq_tool_enabled q \<and>
    (\<forall>d. pq_deadline q = Some d \<longrightarrow> pn_now n < d) \<and>
    (\<exists>g \<in> set (pn_grants n). gr_identity g = pq_identity q \<and> gr_workspace g = pq_workspace q \<and>
       gr_principal g = pq_principal q \<and> (\<forall>e. gr_expires_at g = Some e \<longrightarrow> pn_now n < e) \<and>
       set (pq_required_scopes q) \<subseteq> set (gr_scopes g) \<and> set (pq_effects q) \<subseteq> set (gr_effects g) \<and>
       pq_risk q \<le> gr_risk_ceiling g \<and> pq_sensitivity q \<le> gr_sensitivity_ceiling g) \<and>
    ((\<exists>a \<in> set (pn_approvals n). ar_identity a = pq_identity q \<and> ar_principal a = pq_principal q \<and>
       ar_workspace a = pq_workspace q \<and> (ar_standing a \<or> ar_action_digest a = pq_action_digest q) \<and>
       \<not> ar_consumed a \<and> pn_now n < ar_expires_at a) \<or>
     (pq_default_approval q \<noteq> ApprovalHint.Deny \<and> auto_allows level (pq_effects q) (pq_risk q)) \<or>
     (pq_default_approval q = ApprovalHint.Allow \<and> Effect.ReadOnly \<in> set (pq_effects q) \<and>
      (\<forall>e \<in> set (pq_effects q). \<not> effect_is_consequential e) \<and> pq_risk q \<le> Risk.Low))"
proof -
  from assms obtain g where g: "resolve_grant q (pn_grants n) (pn_now n) = Ok g" "covers_request g q"
    and gates: "gates_pass q n"
    and why: "(\<exists>a \<in> set (pn_approvals n). approval_live a q (pn_now n)) \<or> unattended q level"
    by (auto simp: decision_is_allowed_def evaluate_at_allowed_iff)
  have "\<exists>g \<in> set (pn_grants n). gr_identity g = pq_identity q \<and> gr_workspace g = pq_workspace q \<and>
       gr_principal g = pq_principal q \<and> (\<forall>e. gr_expires_at g = Some e \<longrightarrow> pn_now n < e) \<and>
       set (pq_required_scopes q) \<subseteq> set (gr_scopes g) \<and> set (pq_effects q) \<subseteq> set (gr_effects g) \<and>
       pq_risk q \<le> gr_risk_ceiling g \<and> pq_sensitivity q \<le> gr_sensitivity_ceiling g"
    using resolve_grant_Ok [OF g(1)] g(2)
    by (intro bexI [of _ g])
       (simp_all add: grant_applies_at_def grant_is_expired_at_def not_some_and_deadline
         covers_request_def)
  then show ?thesis
    using gates why
    by (simp add: gates_pass_def not_some_and_deadline list_ex_iff approval_live_def unattended_def)
qed

definition sample_grant :: Grant where
  "sample_grant = \<lparr>gr_identity = read_identity, gr_workspace = 1, gr_principal = 2,
     gr_scopes = [], gr_effects = [Effect.ReadOnly], gr_risk_ceiling = Risk.Moderate,
     gr_sensitivity_ceiling = Sensitivity.Internal, gr_expires_at = Some 100\<rparr>"

definition sample_policy_request :: PolicyRequest where
  "sample_policy_request = \<lparr>pq_identity = read_identity, pq_principal = 2, pq_workspace = 1,
     pq_effects = [Effect.ReadOnly], pq_risk = Risk.Low, pq_required_scopes = [],
     pq_default_approval = ApprovalHint.Ask, pq_sensitivity = Sensitivity.Internal,
     pq_action_digest = replicate 32 7, pq_tool_enabled = True, pq_deadline = Some 60\<rparr>"

definition sample_inputs :: PolicyInputs where
  "sample_inputs = \<lparr>pn_now = 50, pn_grants = [sample_grant], pn_approvals = [],
     pn_deny_rules = [\<lparr>dr_identity = None, dr_principal = Some 3, dr_workspace = None, dr_effects = []\<rparr>]\<rparr>"

lemmas sample_policy_defs = sample_grant_def sample_policy_request_def sample_inputs_def

lemma sample_allowed:
  "decision_is_allowed (evaluate_at sample_policy_request sample_inputs AutonomyLevel.Balanced)"
  by (simp add: sample_policy_defs evaluate_at_def deny_rule_matches_def resolve_grant_def
      grant_applies_at_def grant_is_expired_at_def failed_constraints_def missing_scope_def
      resolve_approval_def auto_allows_def decision_is_allowed_def less_Risk_def less_eq_Risk_def)

lemma sample_asks: "decision_needs_approval (evaluate sample_policy_request sample_inputs)"
  by (simp add: sample_policy_defs evaluate_def evaluate_at_def deny_rule_matches_def
      resolve_grant_def grant_applies_at_def grant_is_expired_at_def failed_constraints_def
      missing_scope_def resolve_approval_def finalize_default_def decision_needs_approval_def
      less_Risk_def less_eq_Risk_def)

theorem allow_only_under_grant_witness:
  "(\<exists>g \<in> set (pn_grants sample_inputs). gr_identity g = read_identity \<and> gr_principal g = 2) \<and>
   auto_allows AutonomyLevel.Balanced [Effect.ReadOnly] Risk.Low"
  using allow_only_under_grant [OF sample_allowed]
  by (simp add: sample_policy_defs)

text \<open>The autonomy dial never turns a refusal into anything else: a call is denied at one level
  exactly when it is denied at every level, and whatever is allowed at a stricter level stays
  allowed at a looser one.\<close>

theorem autonomy_never_overrides_denial:
  "(decision_is_denied (evaluate_at q n level) \<longleftrightarrow> decision_is_denied (evaluate q n)) \<and>
   (decision_is_allowed (evaluate q n) \<longrightarrow> decision_is_allowed (evaluate_at q n level)) \<and>
   (decision_is_allowed (evaluate_at q n AutonomyLevel.Balanced) \<longrightarrow>
    decision_is_allowed (evaluate_at q n AutonomyLevel.Autonomous))"
  using unattended_mono [of q]
  by (auto simp: decision_is_denied_def decision_is_allowed_def evaluate_def evaluate_at_denied_iff
      evaluate_at_allowed_iff)

theorem autonomy_never_overrides_denial_witness:
  "\<not> decision_is_denied (evaluate sample_policy_request sample_inputs) \<and>
   decision_is_allowed (evaluate_at sample_policy_request sample_inputs AutonomyLevel.Autonomous)"
  using autonomy_never_overrides_denial [of sample_policy_request sample_inputs AutonomyLevel.Balanced]
    sample_allowed sample_asks
  by (simp add: decision_is_allowed_def decision_is_denied_def)

end
