(* ===== verification/Tool_Ledger.thy ===== *)
theory Tool_Ledger
  imports Tool_Classification "HOL-Library.AList"
begin

text \<open>
  \<open>tool/ledger.rs\<close>: the durable record of one tool call, its state machine, the reservation
  that keeps an idempotency key from being dispatched twice, and what a restart makes of an
  interrupted call. As for runs, a method on \<open>&mut self\<close> returns its answer with the entry it
  leaves behind on every branch.
\<close>

section \<open>Versions and states\<close>

definition TOOL_CALL_MAX_IDEMPOTENCY_KEY_BYTES :: nat where
  "TOOL_CALL_MAX_IDEMPOTENCY_KEY_BYTES = 256"

definition MAX_LEDGER_SCAN :: nat where "MAX_LEDGER_SCAN = 1024"

definition tool_call_version_first :: ToolCallVersion where "tool_call_version_first = 1"

definition tool_call_version_from_stored :: "u64 \<Rightarrow> DomainError + ToolCallVersion" where
  "tool_call_version_from_stored value =
     (if value < tool_call_version_first
      then Err (ToolCallVersionConflict tool_call_version_first value) else Ok value)"

definition tool_call_version_next :: "ToolCallVersion \<Rightarrow> DomainError + ToolCallVersion" where
  "tool_call_version_next v = ok_or (checked_add v 1) (ToolCallVersionConflict v v)"

definition tool_call_state_all :: "ToolCallState list" where
  "tool_call_state_all =
     [ToolCallState.Requested, ToolCallState.Validated, ToolCallState.Denied,
      ToolCallState.WaitingApproval, ToolCallState.Approved, ToolCallState.Reserved,
      ToolCallState.Executing, ToolCallState.Reconciling, ToolCallState.Succeeded,
      ToolCallState.Failed, ToolCallState.Cancelled]"

definition tool_state_is_terminal :: "ToolCallState \<Rightarrow> bool" where [simp]:
  "tool_state_is_terminal s \<longleftrightarrow>
     s = ToolCallState.Denied \<or> s = ToolCallState.Succeeded \<or> s = ToolCallState.Failed \<or>
     s = ToolCallState.Cancelled"

definition tool_state_was_dispatched :: "ToolCallState \<Rightarrow> bool" where
  "tool_state_was_dispatched s \<longleftrightarrow> s = ToolCallState.Executing \<or> s = ToolCallState.Reconciling"

definition tool_state_is_unsettled :: "ToolCallState \<Rightarrow> bool" where
  "tool_state_is_unsettled s \<longleftrightarrow> s = ToolCallState.Reconciling"

definition is_reachable_without_dispatch :: "ToolCallState \<Rightarrow> bool" where [simp]:
  "is_reachable_without_dispatch s \<longleftrightarrow>
     \<not> (s = ToolCallState.Executing \<or> s = ToolCallState.Reconciling \<or>
        s = ToolCallState.Succeeded \<or> s = ToolCallState.Failed)"

primrec tool_targets :: "ToolCallState \<Rightarrow> ToolCallState list" where
  "tool_targets ToolCallState.Requested =
     [ToolCallState.Validated, ToolCallState.Denied, ToolCallState.WaitingApproval, ToolCallState.Cancelled]"
| "tool_targets ToolCallState.Validated =
     [ToolCallState.Denied, ToolCallState.WaitingApproval, ToolCallState.Approved,
      ToolCallState.Reserved, ToolCallState.Cancelled]"
| "tool_targets ToolCallState.WaitingApproval =
     [ToolCallState.Approved, ToolCallState.Denied, ToolCallState.Cancelled]"
| "tool_targets ToolCallState.Approved = [ToolCallState.Reserved, ToolCallState.Cancelled]"
| "tool_targets ToolCallState.Reserved = [ToolCallState.Executing, ToolCallState.Cancelled]"
| "tool_targets ToolCallState.Executing =
     [ToolCallState.Succeeded, ToolCallState.Failed, ToolCallState.Reconciling, ToolCallState.Cancelled]"
| "tool_targets ToolCallState.Reconciling = [ToolCallState.Succeeded, ToolCallState.Failed]"
| "tool_targets ToolCallState.Denied = []"
| "tool_targets ToolCallState.Succeeded = []"
| "tool_targets ToolCallState.Failed = []"
| "tool_targets ToolCallState.Cancelled = []"

definition tool_can_transition_to :: "ToolCallState \<Rightarrow> ToolCallState \<Rightarrow> bool" where
  "tool_can_transition_to from to \<longleftrightarrow> to \<in> set (tool_targets from)"

definition has_any_transition :: "ToolCallState \<Rightarrow> bool" where
  "has_any_transition s \<longleftrightarrow> \<not> tool_state_is_terminal s"

primrec tool_call_state_as_contract_str :: "ToolCallState \<Rightarrow> string" where
  "tool_call_state_as_contract_str ToolCallState.Requested = ''requested''"
| "tool_call_state_as_contract_str ToolCallState.Validated = ''validated''"
| "tool_call_state_as_contract_str ToolCallState.Denied = ''denied''"
| "tool_call_state_as_contract_str ToolCallState.WaitingApproval = ''waiting_approval''"
| "tool_call_state_as_contract_str ToolCallState.Approved = ''approved''"
| "tool_call_state_as_contract_str ToolCallState.Reserved = ''reserved''"
| "tool_call_state_as_contract_str ToolCallState.Executing = ''executing''"
| "tool_call_state_as_contract_str ToolCallState.Reconciling = ''reconciling''"
| "tool_call_state_as_contract_str ToolCallState.Succeeded = ''succeeded''"
| "tool_call_state_as_contract_str ToolCallState.Failed = ''failed''"
| "tool_call_state_as_contract_str ToolCallState.Cancelled = ''cancelled''"

definition tool_call_state_parse :: "string \<Rightarrow> DomainError + ToolCallState" where
  "tool_call_state_parse value =
     ok_or (find (\<lambda>s. tool_call_state_as_contract_str s = value) tool_call_state_all)
       (ToolDefinitionInvalid ''state'')"

section \<open>Entries\<close>

type_synonym ToolCallId = uuid
type_synonym ToolCallRecordId = uuid

record ReservationKey =
  rk_identity :: ToolIdentity
  rk_workspace :: WorkspaceId
  rk_principal :: PrincipalId
  rk_idempotency_key :: string

definition reservation_key_new ::
  "ToolIdentity \<Rightarrow> WorkspaceId \<Rightarrow> PrincipalId \<Rightarrow> string \<Rightarrow> DomainError + ReservationKey"
where
  "reservation_key_new identity workspace principal_id key =
     (if key = [] \<or> length key > TOOL_CALL_MAX_IDEMPOTENCY_KEY_BYTES \<or> has_control key
      then Err (ToolDefinitionInvalid ''idempotency_key'')
      else Ok \<lparr>rk_identity = identity, rk_workspace = workspace, rk_principal = principal_id,
               rk_idempotency_key = key\<rparr>)"

datatype LedgerOperation = Execute | Reconcile | Read

definition ledger_operation_all :: "LedgerOperation list" where
  "ledger_operation_all = [LedgerOperation.Execute, LedgerOperation.Reconcile, LedgerOperation.Read]"

primrec ledger_operation_as_contract_str :: "LedgerOperation \<Rightarrow> string" where
  "ledger_operation_as_contract_str LedgerOperation.Execute = ''execute''"
| "ledger_operation_as_contract_str LedgerOperation.Reconcile = ''reconcile''"
| "ledger_operation_as_contract_str LedgerOperation.Read = ''read''"

definition ledger_operation_parse :: "string \<Rightarrow> DomainError + LedgerOperation" where
  "ledger_operation_parse value =
     ok_or (find (\<lambda>p. ledger_operation_as_contract_str p = value) ledger_operation_all)
       (ToolDefinitionInvalid ''operation'')"

record LedgerEntry =
  le_id :: ToolCallRecordId
  le_call_id :: ToolCallId
  le_attempt :: u32
  le_run :: RunId
  le_key :: ReservationKey
  le_operation :: LedgerOperation
  le_state :: ToolCallState
  le_version :: ToolCallVersion
  le_created_at :: instant
  le_updated_at :: instant
  le_dispatched_at :: "instant option"
  le_outcome :: "ToolErrorClass option"
  le_no_effect_confirmed :: bool

text \<open>\<open>Uuid::now_v7\<close> is drawn outside: the fresh record id is an argument.\<close>

definition ledger_entry_reserve ::
  "uuid \<Rightarrow> ToolCallId \<Rightarrow> u32 \<Rightarrow> RunId \<Rightarrow> ReservationKey \<Rightarrow> LedgerOperation \<Rightarrow> instant \<Rightarrow> LedgerEntry"
where
  "ledger_entry_reserve fresh_id call_id attempt run key operation now =
     \<lparr>le_id = fresh_id, le_call_id = call_id, le_attempt = max attempt 1, le_run = run,
      le_key = key, le_operation = operation, le_state = ToolCallState.Requested,
      le_version = tool_call_version_first, le_created_at = now, le_updated_at = now,
      le_dispatched_at = None, le_outcome = None, le_no_effect_confirmed = False\<rparr>"

definition entry_was_dispatched :: "LedgerEntry \<Rightarrow> bool" where
  "entry_was_dispatched e \<longleftrightarrow> le_dispatched_at e \<noteq> None"

definition may_have_effected :: "LedgerEntry \<Rightarrow> bool" where
  "may_have_effected e \<longleftrightarrow> entry_was_dispatched e \<and> \<not> le_no_effect_confirmed e"

record ToolCallTransition =
  tt_id :: ToolCallRecordId
  tt_from :: ToolCallState
  tt_to :: ToolCallState
  tt_prior_version :: ToolCallVersion
  tt_version :: ToolCallVersion
  tt_outcome :: "ToolErrorClass option"
  tt_occurred_at :: instant

definition ledger_apply ::
  "LedgerEntry \<Rightarrow> ToolCallState \<Rightarrow> ToolCallVersion \<Rightarrow> ToolErrorClass option \<Rightarrow> instant \<Rightarrow>
   (DomainError + ToolCallTransition) \<times> LedgerEntry"
where
  "ledger_apply self to expected_version outcome occurred_at =
     (if expected_version \<noteq> le_version self
        then (Err (ToolCallVersionConflict expected_version (le_version self)), self)
      else if \<not> tool_can_transition_to (le_state self) to
        then (Err (ToolCallStateConflict (le_state self) to), self)
      else
        (let from = le_state self;
             prior_version = le_version self;
             moved = self\<lparr>le_state := to\<rparr>
         in case tool_call_version_next (le_version moved) of
              Err e \<Rightarrow> (Err e, moved)
            | Ok v \<Rightarrow>
                (let stamped = moved\<lparr>le_version := v, le_updated_at := occurred_at\<rparr>;
                     sent = (if to = ToolCallState.Executing \<and> le_dispatched_at stamped = None
                             then stamped\<lparr>le_dispatched_at := Some occurred_at\<rparr> else stamped);
                     done = (if tool_state_is_terminal to
                             then sent\<lparr>le_outcome := outcome,
                                       le_no_effect_confirmed :=
                                         (le_no_effect_confirmed sent \<or> \<not> entry_was_dispatched sent)\<rparr>
                             else sent)
                 in (Ok \<lparr>tt_id = le_id done, tt_from = from, tt_to = to,
                          tt_prior_version = prior_version, tt_version = le_version done,
                          tt_outcome = outcome, tt_occurred_at = occurred_at\<rparr>, done))))"

definition confirm_no_effect ::
  "LedgerEntry \<Rightarrow> ToolCallVersion \<Rightarrow> instant \<Rightarrow> (DomainError + ToolCallTransition) \<times> LedgerEntry"
where
  "confirm_no_effect self expected_version occurred_at =
     ledger_apply (self\<lparr>le_no_effect_confirmed := True\<rparr>) ToolCallState.Failed expected_version
       (Some ToolErrorClass.ProviderError) occurred_at"

text \<open>\<open>LedgerEntryParts\<close> has the fields of an entry, in the same order and of the same types, so
  the parts of a stored row are a record of that shape too; \<open>restore\<close> validates them.\<close>

type_synonym LedgerEntryParts = LedgerEntry

definition ledger_restore :: "LedgerEntryParts \<Rightarrow> DomainError + LedgerEntry" where
  "ledger_restore parts =
     (if le_attempt parts = 0 then Err (ToolDefinitionInvalid ''attempt'')
      else if tool_state_is_terminal (le_state parts) \<and> le_outcome parts = None
        then Err (ToolCallStateConflict (le_state parts) (le_state parts))
      else if le_dispatched_at parts = None \<and> \<not> is_reachable_without_dispatch (le_state parts)
        then Err (ToolDefinitionInvalid ''dispatched_at'')
      else Ok parts)"

section \<open>Reservations\<close>

datatype ReservationOutcome =
    Granted
  | AlreadyTerminal ToolCallState "ToolErrorClass option" bool
  | InFlight ToolCallState
  | Unsettled ToolCallRecordId

definition is_granted :: "ReservationOutcome \<Rightarrow> bool" where
  "is_granted r = (case r of Granted \<Rightarrow> True | _ \<Rightarrow> False)"

definition is_settled_duplicate :: "ReservationOutcome \<Rightarrow> bool" where
  "is_settled_duplicate r = (case r of AlreadyTerminal _ _ _ \<Rightarrow> True | _ \<Rightarrow> False)"

definition permits_dispatch :: "ReservationOutcome \<Rightarrow> bool" where
  "permits_dispatch r =
     (case r of
        Granted \<Rightarrow> True
      | AlreadyTerminal _ outcome no_effect_confirmed \<Rightarrow> no_effect_confirmed \<and> outcome \<noteq> None
      | InFlight _ \<Rightarrow> False
      | Unsettled _ \<Rightarrow> False)"

text \<open>The two \<open>BTreeMap\<close>s as association lists with distinct keys. Iteration follows the derived
  order of the key, the lexicographic order of its fields, which \<open>reservation_key_rank\<close> spells out.\<close>

record ToolCallLedger =
  lg_by_key :: "(ReservationKey \<times> LedgerEntry) list"
  lg_by_id :: "(ToolCallRecordId \<times> ToolCallId) list"

definition ledger_new :: ToolCallLedger where
  "ledger_new = \<lparr>lg_by_key = [], lg_by_id = []\<rparr>"

definition option_rank :: "string option \<Rightarrow> nat \<times> string" where
  "option_rank x = (case x of None \<Rightarrow> (0, []) | Some s \<Rightarrow> (1, s))"

primrec source_kind_rank :: "SourceKind \<Rightarrow> nat" where
  "source_kind_rank SourceKind.Native = 0"
| "source_kind_rank SourceKind.Connector = 1"
| "source_kind_rank SourceKind.McpServer = 2"
| "source_kind_rank SourceKind.Runtime = 3"
| "source_kind_rank SourceKind.Plugin = 4"

type_synonym version_order = "u32 \<times> u32 \<times> u32 \<times> (nat \<times> string)"
type_synonym identity_order = "(string \<times> string \<times> u32) \<times> (nat \<times> string \<times> version_order) \<times> u8 list"

definition version_rank :: "ToolVersion \<Rightarrow> version_order" where
  "version_rank v = (tv_major v, tv_minor v, tv_patch v, option_rank (tv_pre_release v))"

definition identity_rank :: "ToolIdentity \<Rightarrow> identity_order" where
  "identity_rank i =
     ((tc_namespace (ti_capability i), tc_name (ti_capability i), tc_major (ti_capability i)),
      (source_kind_rank (ts_kind (ti_source i)), ts_owner (ti_source i), version_rank (ts_version (ti_source i))),
      ti_schema_fingerprint i)"

definition reservation_key_rank :: "ReservationKey \<Rightarrow> identity_order \<times> uuid \<times> uuid \<times> string" where
  "reservation_key_rank k =
     (identity_rank (rk_identity k), rk_workspace k, rk_principal k, rk_idempotency_key k)"

definition ledger_values :: "ToolCallLedger \<Rightarrow> LedgerEntry list" where
  "ledger_values l = map snd (sort_key (\<lambda>(k, _). reservation_key_rank k) (lg_by_key l))"

definition ledger_get :: "ToolCallLedger \<Rightarrow> ReservationKey \<Rightarrow> LedgerEntry option" where
  "ledger_get l k = map_of (lg_by_key l) k"

definition ledger_reserve :: "ToolCallLedger \<Rightarrow> LedgerEntry \<Rightarrow> ReservationOutcome \<times> ToolCallLedger" where
  "ledger_reserve self entry =
     (case ledger_get self (le_key entry) of
        Some existing \<Rightarrow>
          (if le_state existing = ToolCallState.Reconciling then Unsettled (le_id existing)
           else if tool_state_is_terminal (le_state existing)
             then AlreadyTerminal (le_state existing) (le_outcome existing)
                    (le_no_effect_confirmed existing)
           else InFlight (le_state existing), self)
      | None \<Rightarrow>
          (Granted, \<lparr>lg_by_key = AList.update (le_key entry) entry (lg_by_key self),
                     lg_by_id = AList.update (le_id entry) (le_call_id entry) (lg_by_id self)\<rparr>))"

text \<open>\<open>get_mut\<close> hands out a mutable borrow; what a caller does with it is the function \<open>f\<close>.\<close>

definition ledger_get_mut ::
  "ToolCallLedger \<Rightarrow> ReservationKey \<Rightarrow> (LedgerEntry \<Rightarrow> LedgerEntry) \<Rightarrow> ToolCallLedger"
where
  "ledger_get_mut self key f =
     (case ledger_get self key of
        None \<Rightarrow> self
      | Some e \<Rightarrow> self\<lparr>lg_by_key := AList.update key (f e) (lg_by_key self)\<rparr>)"

definition ledger_unsettled :: "ToolCallLedger \<Rightarrow> LedgerEntry list" where
  "ledger_unsettled self = filter (\<lambda>e. tool_state_is_unsettled (le_state e)) (ledger_values self)"

definition possibly_effecting_without_outcome :: "ToolCallLedger \<Rightarrow> LedgerEntry list" where
  "possibly_effecting_without_outcome self =
     take MAX_LEDGER_SCAN
       (filter (\<lambda>e. (le_state e = ToolCallState.Executing \<or> le_state e = ToolCallState.Reconciling) \<and>
                    le_outcome e = None) (ledger_values self))"

definition attempt_for :: "ToolCallLedger \<Rightarrow> ReservationKey \<Rightarrow> u32 option" where
  "attempt_for self key = map_option le_attempt (ledger_get self key)"

section \<open>Interrupted calls\<close>

datatype InterruptedCallAction = SafeToRetry ToolCallState | ReconcileCall ToolCallState

definition classify_interrupted :: "ToolCallState \<Rightarrow> InterruptedCallAction option" where
  "classify_interrupted s =
     (case s of
        ToolCallState.Executing \<Rightarrow> Some (ReconcileCall s)
      | ToolCallState.Reconciling \<Rightarrow> Some (ReconcileCall s)
      | ToolCallState.Denied \<Rightarrow> None
      | ToolCallState.Succeeded \<Rightarrow> None
      | ToolCallState.Failed \<Rightarrow> None
      | ToolCallState.Cancelled \<Rightarrow> None
      | _ \<Rightarrow> Some (SafeToRetry s))"

primrec interrupted_target_state :: "InterruptedCallAction \<Rightarrow> ToolCallState" where
  "interrupted_target_state (SafeToRetry _) = ToolCallState.Cancelled"
| "interrupted_target_state (ReconcileCall _) = ToolCallState.Reconciling"

definition needs_write :: "InterruptedCallAction \<Rightarrow> bool" where
  "needs_write a \<longleftrightarrow> a \<noteq> ReconcileCall ToolCallState.Reconciling"

primrec interrupted_reason :: "InterruptedCallAction \<Rightarrow> string" where
  "interrupted_reason (SafeToRetry _) = ''interrupted_before_dispatch''"
| "interrupted_reason (ReconcileCall _) = ''interrupted_after_dispatch''"

definition permits_retry :: "InterruptedCallAction \<Rightarrow> bool" where
  "permits_retry a = (case a of SafeToRetry _ \<Rightarrow> True | ReconcileCall _ \<Rightarrow> False)"

section \<open>The table\<close>

lemma tool_can_transition_simps [simp]:
  "tool_can_transition_to from to \<longleftrightarrow> to \<in> set (tool_targets from)"
  by (fact tool_can_transition_to_def)

text \<open>Every edge leads to a later stage, so no state is entered twice and a call makes at most
  seven transitions.\<close>

primrec stage :: "ToolCallState \<Rightarrow> nat" where
  "stage ToolCallState.Requested = 0"
| "stage ToolCallState.Validated = 1"
| "stage ToolCallState.WaitingApproval = 2"
| "stage ToolCallState.Approved = 3"
| "stage ToolCallState.Reserved = 4"
| "stage ToolCallState.Executing = 5"
| "stage ToolCallState.Reconciling = 6"
| "stage ToolCallState.Denied = 7"
| "stage ToolCallState.Succeeded = 7"
| "stage ToolCallState.Failed = 7"
| "stage ToolCallState.Cancelled = 7"

lemma stage_increases: "tool_can_transition_to s t \<Longrightarrow> stage s < stage t"
  by (cases s) auto

lemma stage_le: "stage s \<le> 7"
  by (cases s) simp_all

lemma stage_7_iff: "stage s = 7 \<longleftrightarrow> tool_state_is_terminal s"
  by (cases s) simp_all

lemma ends_in_some_terminal: "\<exists>t. tool_can_transition_to\<^sup>*\<^sup>* s t \<and> tool_state_is_terminal t"
proof (cases "s = ToolCallState.Reconciling")
  case True
  then have "tool_can_transition_to s ToolCallState.Failed" by simp
  then show ?thesis by (intro exI [of _ ToolCallState.Failed]) auto
next
  case False
  then have "tool_state_is_terminal s \<or> tool_can_transition_to s ToolCallState.Cancelled"
    by (cases s) simp_all
  then show ?thesis
  proof
    assume "tool_can_transition_to s ToolCallState.Cancelled"
    then show ?thesis by (intro exI [of _ ToolCallState.Cancelled]) auto
  qed blast
qed

interpretation tool_table: edge_table tool_can_transition_to tool_state_is_terminal
proof
  fix s t
  show "tool_state_is_terminal s \<Longrightarrow> \<not> tool_can_transition_to s t" by auto
  show "\<not> tool_state_is_terminal s \<Longrightarrow> \<exists>t. tool_can_transition_to s t"
    by (cases s) auto
  show "\<not> tool_can_transition_to s s" using stage_increases [of s s] by auto
  show "\<exists>t. tool_can_transition_to\<^sup>*\<^sup>* s t \<and> tool_state_is_terminal t" by (rule ends_in_some_terminal)
qed

interpretation tool_state_spelling: spelling tool_call_state_all tool_call_state_as_contract_str
  "\<lambda>s. ok (tool_call_state_parse s)"
proof
  show "x \<in> set tool_call_state_all" for x by (cases x) (simp_all add: tool_call_state_all_def)
qed (simp_all add: tool_call_state_all_def tool_call_state_parse_def)

interpretation operation_spelling: spelling ledger_operation_all ledger_operation_as_contract_str
  "\<lambda>s. ok (ledger_operation_parse s)"
proof
  show "x \<in> set ledger_operation_all" for x by (cases x) (simp_all add: ledger_operation_all_def)
qed (simp_all add: ledger_operation_all_def ledger_operation_parse_def)

section \<open>Applying a transition\<close>

lemma tool_call_version_next_Ok: "tool_call_version_next v = Ok w \<Longrightarrow> unat w = Suc (unat v)"
  by (auto simp: tool_call_version_next_def dest: checked_add_Some)

lemma tool_call_version_next_Err_iff: "(\<exists>e. tool_call_version_next v = Err e) \<longleftrightarrow> v = - 1"
  using checked_add_one_Some_iff [of v]
  by (cases "checked_add v 1") (auto simp: tool_call_version_next_def)

lemma ledger_apply_OkD:
  assumes "ledger_apply e to ver out at = (Ok r, e')"
  shows "ver = le_version e"
    and "tool_can_transition_to (le_state e) to"
    and "unat (le_version e') = Suc (unat (le_version e))"
    and "e' = e\<lparr>le_state := to, le_version := le_version e', le_updated_at := at,
                le_dispatched_at :=
                  (if to = ToolCallState.Executing \<and> le_dispatched_at e = None then Some at
                   else le_dispatched_at e),
                le_outcome := (if tool_state_is_terminal to then out else le_outcome e),
                le_no_effect_confirmed :=
                  (le_no_effect_confirmed e \<or> (tool_state_is_terminal to \<and> le_dispatched_at e = None))\<rparr>"
proof -
  let ?v = "le_version e"
  from assms have 1: "ver = ?v" "tool_can_transition_to (le_state e) to"
    by (auto simp: ledger_apply_def split: if_splits)
  with assms obtain v where v: "tool_call_version_next ?v = Ok v"
    by (auto simp: ledger_apply_def Let_def split: if_splits sum.splits)
  show "ver = ?v" "tool_can_transition_to (le_state e) to" by (fact 1)+
  have e': "snd (ledger_apply e to ver out at) = e'" using assms by simp
  have vv: "le_version e' = v"
    using v 1 unfolding e' [symmetric] by (simp add: ledger_apply_def Let_def)
  from v vv show "unat (le_version e') = Suc (unat ?v)" by (simp add: tool_call_version_next_Ok)
  show "e' = e\<lparr>le_state := to, le_version := le_version e', le_updated_at := at,
                le_dispatched_at :=
                  (if to = ToolCallState.Executing \<and> le_dispatched_at e = None then Some at
                   else le_dispatched_at e),
                le_outcome := (if tool_state_is_terminal to then out else le_outcome e),
                le_no_effect_confirmed :=
                  (le_no_effect_confirmed e \<or> (tool_state_is_terminal to \<and> le_dispatched_at e = None))\<rparr>"
    unfolding vv using v 1 unfolding e' [symmetric]
    by (simp add: ledger_apply_def Let_def entry_was_dispatched_def)
qed

lemma ledger_apply_ErrD:
  assumes "ledger_apply e to ver out at = (Err x, e')"
  shows "le_version e' = le_version e" and "le_version e \<noteq> - 1 \<Longrightarrow> e' = e"
  using assms tool_call_version_next_Err_iff [of "le_version e"]
  by (auto simp: ledger_apply_def Let_def split: if_splits sum.splits)

lemma ledger_apply_accepts:
  assumes "tool_can_transition_to (le_state e) to" and "le_version e \<noteq> - 1"
  obtains r e' where "ledger_apply e to (le_version e) out at = (Ok r, e')"
proof -
  from assms(2) obtain v where "checked_add (le_version e) 1 = Some v"
    using checked_add_one_Some_iff by blast
  with assms(1) that show thesis
    by (simp add: ledger_apply_def tool_call_version_next_def Let_def)
qed

text \<open>A request to \<open>apply\<close> as one value, so that histories of requests can be stated.\<close>

record LedgerRequest =
  lq_to :: ToolCallState
  lq_expected_version :: ToolCallVersion
  lq_outcome :: "ToolErrorClass option"
  lq_occurred_at :: instant

definition ledger_step :: "LedgerEntry \<Rightarrow> LedgerRequest \<Rightarrow> (DomainError + ToolCallTransition) \<times> LedgerEntry" where
  "ledger_step e q = ledger_apply e (lq_to q) (lq_expected_version q) (lq_outcome q) (lq_occurred_at q)"

definition ledger_apply_all ::
  "LedgerEntry \<Rightarrow> LedgerRequest list \<Rightarrow> (DomainError + ToolCallTransition) list \<times> LedgerEntry"
where
  "ledger_apply_all = run_steps ledger_step"

interpretation ledger_versioned: versioned ledger_step lq_expected_version le_version lq_to le_state
  tool_can_transition_to
proof
  fix e c r e' x
  assume "ledger_step e c = (Ok r, e')"
  note d = ledger_apply_OkD [OF this [unfolded ledger_step_def]]
  show "lq_expected_version c = le_version e" by (fact d(1))
  show "tool_can_transition_to (le_state e) (lq_to c)" by (fact d(2))
  show "unat (le_version e') = Suc (unat (le_version e))" by (fact d(3))
  show "le_state e' = lq_to c" by (subst d(4)) simp
next
  fix e c x e'
  assume "ledger_step e c = (Err x, e')"
  note d = ledger_apply_ErrD [OF this [unfolded ledger_step_def]]
  show "le_version e' = le_version e" by (fact d(1))
  show "le_version e \<noteq> - 1 \<Longrightarrow> e' = e" by (fact d(2))
qed

section \<open>The invariant of an entry\<close>

definition entry_ok :: "LedgerEntry \<Rightarrow> bool" where
  "entry_ok e \<longleftrightarrow>
     le_attempt e \<noteq> 0 \<and>
     (entry_was_dispatched e \<longrightarrow> 5 \<le> stage (le_state e) \<and> le_state e \<noteq> ToolCallState.Denied) \<and>
     (\<not> entry_was_dispatched e \<longrightarrow> is_reachable_without_dispatch (le_state e)) \<and>
     (\<not> tool_state_is_terminal (le_state e) \<longrightarrow> le_outcome e = None \<and> \<not> le_no_effect_confirmed e) \<and>
     (tool_state_is_terminal (le_state e) \<and> \<not> entry_was_dispatched e \<longrightarrow> le_no_effect_confirmed e) \<and>
     0 < unat (le_version e) \<and> unat (le_version e) \<le> Suc (stage (le_state e))"

lemma entry_ok_version: "entry_ok e \<Longrightarrow> le_version e \<noteq> - 1"
proof
  assume "entry_ok e" and "le_version e = - 1"
  then have "unat (- 1 :: u64) \<le> Suc (stage (le_state e))" by (simp add: entry_ok_def)
  with stage_le [of "le_state e"] show False by (simp add: unat_minus_one_word_eq)
qed

lemma reserve_entry_ok: "entry_ok (ledger_entry_reserve i c a r k p now)"
proof -
  have "max a 1 \<noteq> 0" by (auto simp: max_def word_le_nat_alt)
  then show ?thesis
    by (simp add: entry_ok_def ledger_entry_reserve_def entry_was_dispatched_def
        tool_call_version_first_def)
qed

lemma dispatch_edges:
  assumes "tool_can_transition_to s t"
  shows "s \<noteq> ToolCallState.Reserved \<Longrightarrow> t \<noteq> ToolCallState.Executing"
    and "5 \<le> stage s \<Longrightarrow> 5 \<le> stage t \<and> t \<noteq> ToolCallState.Denied"
    and "is_reachable_without_dispatch s \<Longrightarrow> t \<noteq> ToolCallState.Executing \<Longrightarrow> is_reachable_without_dispatch t"
    and "\<not> tool_state_is_terminal s"
  using assms by (cases s; auto)+

lemma ledger_apply_entry_ok:
  assumes "entry_ok e" and "ledger_apply e to ver out at = (Ok r, e')"
  shows "entry_ok e'"
proof -
  note d = ledger_apply_OkD [OF assms(2)]
  have f: "le_state e' = to" "le_attempt e' = le_attempt e"
    "le_dispatched_at e' = (if to = ToolCallState.Executing \<and> le_dispatched_at e = None then Some at
                            else le_dispatched_at e)"
    "le_outcome e' = (if tool_state_is_terminal to then out else le_outcome e)"
    "le_no_effect_confirmed e' =
       (le_no_effect_confirmed e \<or> (tool_state_is_terminal to \<and> le_dispatched_at e = None))"
    by (subst d(4), simp)+
  have v: "0 < unat (le_version e')" "unat (le_version e') \<le> Suc (stage to)"
    using assms(1) d(3) stage_increases [OF d(2)] by (simp_all add: entry_ok_def)
  have live: "\<not> tool_state_is_terminal (le_state e)" by (rule dispatch_edges(4) [OF d(2)])
  with assms(1) have q: "le_outcome e = None" "\<not> le_no_effect_confirmed e"
    by (simp_all add: entry_ok_def)
  show ?thesis
  proof (cases "le_dispatched_at e = None")
    case True
    with assms(1) have "is_reachable_without_dispatch (le_state e)"
      by (simp add: entry_ok_def entry_was_dispatched_def)
    with True f v q assms(1) dispatch_edges(3) [OF d(2)] show ?thesis
      by (auto simp: entry_ok_def entry_was_dispatched_def)
  next
    case False
    with assms(1) have "5 \<le> stage (le_state e)"
      by (simp add: entry_ok_def entry_was_dispatched_def)
    with False f v q assms(1) dispatch_edges(2) [OF d(2)] show ?thesis
      by (auto simp: entry_ok_def entry_was_dispatched_def)
  qed
qed

text \<open>What the calls of one entry's life can be: any sequence of \<open>apply\<close> and
  \<open>confirm_no_effect\<close>, each with whatever arguments.\<close>

datatype LedgerOp = ApplyOp LedgerRequest | ConfirmOp ToolCallVersion instant

definition ledger_op :: "LedgerEntry \<Rightarrow> LedgerOp \<Rightarrow> (DomainError + ToolCallTransition) \<times> LedgerEntry" where
  "ledger_op e p =
     (case p of ApplyOp q \<Rightarrow> ledger_step e q | ConfirmOp ver at \<Rightarrow> confirm_no_effect e ver at)"

lemma confirm_no_effect_OkD:
  assumes "confirm_no_effect e ver at = (Ok r, e')"
  shows "ver = le_version e"
    and "tool_can_transition_to (le_state e) ToolCallState.Failed"
    and "unat (le_version e') = Suc (unat (le_version e))"
    and "e' = e\<lparr>le_state := ToolCallState.Failed, le_version := le_version e', le_updated_at := at,
                le_outcome := Some ToolErrorClass.ProviderError, le_no_effect_confirmed := True\<rparr>"
  using ledger_apply_OkD [OF assms [unfolded confirm_no_effect_def]] by simp_all

lemma confirm_no_effect_entry_ok:
  assumes "entry_ok e" and "confirm_no_effect e ver at = (Ok r, e')"
  shows "entry_ok e'"
proof -
  note d = confirm_no_effect_OkD [OF assms(2)]
  have f: "le_state e' = ToolCallState.Failed" "le_attempt e' = le_attempt e"
    "le_dispatched_at e' = le_dispatched_at e" "le_no_effect_confirmed e'"
    by (subst d(4), simp)+
  have "entry_was_dispatched e"
  proof (rule ccontr)
    assume "\<not> entry_was_dispatched e"
    with assms(1) have "is_reachable_without_dispatch (le_state e)" by (simp add: entry_ok_def)
    with dispatch_edges(3) [OF d(2)] show False by simp
  qed
  with f assms(1) d(3) stage_increases [OF d(2)] show ?thesis
    by (simp add: entry_ok_def entry_was_dispatched_def)
qed

inductive reachable_entry :: "LedgerEntry \<Rightarrow> bool" where
  reserved: "reachable_entry (ledger_entry_reserve i c a r k p now)"
| operated: "reachable_entry e \<Longrightarrow> ledger_op e op = (Ok t, e') \<Longrightarrow> reachable_entry e'"

lemma reachable_entry_ok: "reachable_entry e \<Longrightarrow> entry_ok e"
proof (induction rule: reachable_entry.induct)
  case (reserved i c a r k p now)
  show ?case by (rule reserve_entry_ok)
next
  case (operated e op t e')
  then show ?case
    by (cases op) (auto simp: ledger_op_def ledger_step_def
        intro: ledger_apply_entry_ok confirm_no_effect_entry_ok)
qed

section \<open>Reserving\<close>

lemma ledger_reserve_cases:
  "ledger_get l (le_key e) = Some x \<Longrightarrow> snd (ledger_reserve l e) = l \<and> fst (ledger_reserve l e) \<noteq> Granted"
  "ledger_get l (le_key e) = None \<Longrightarrow> fst (ledger_reserve l e) = Granted"
  by (simp_all add: ledger_reserve_def)

lemma ledger_reserve_get:
  "ledger_get (snd (ledger_reserve l e)) k =
     (case ledger_get l k of None \<Rightarrow> if k = le_key e then Some e else None | Some x \<Rightarrow> Some x)"
  by (auto simp: ledger_reserve_def ledger_get_def update_conv' split: option.split)

fun reserve_all :: "ToolCallLedger \<Rightarrow> LedgerEntry list \<Rightarrow> ReservationOutcome list \<times> ToolCallLedger" where
  "reserve_all l [] = ([], l)"
| "reserve_all l (e # es) =
     (case ledger_reserve l e of (r, l1) \<Rightarrow> (case reserve_all l1 es of (rs, l2) \<Rightarrow> (r # rs, l2)))"

lemma reserve_all_known_key:
  assumes "ledger_get l k = Some x" and "reserve_all l es = (rs, l')" and "i < length es"
    and "le_key (es ! i) = k"
  shows "rs ! i \<noteq> Granted"
  using assms
proof (induction es arbitrary: l rs i)
  case Nil
  then show ?case by simp
next
  case (Cons e es)
  obtain r l1 rs' where 1: "ledger_reserve l e = (r, l1)" "reserve_all l1 es = (rs', l')" "rs = r # rs'"
    using Cons.prems(2) by (auto split: prod.splits)
  have k: "ledger_get l1 k = Some x" using ledger_reserve_get [of l e k] 1(1) Cons.prems(1) by simp
  show ?case
  proof (cases i)
    case 0
    with Cons.prems(4) have "le_key e = k" by simp
    with Cons.prems(1) ledger_reserve_cases(1) [of l e x] 1(1) have "r \<noteq> Granted" by simp
    with 0 1(3) show ?thesis by simp
  next
    case (Suc j)
    with Cons.prems(3,4) have "j < length es" "le_key (es ! j) = k" by simp_all
    with Cons.IH [OF k 1(2)] Suc 1(3) show ?thesis by simp
  qed
qed

lemma reserve_all_once:
  assumes "reserve_all l es = (rs, l')" and "i < j" and "j < length es"
    and "le_key (es ! i) = le_key (es ! j)"
  shows "rs ! j \<noteq> Granted"
  using assms
proof (induction es arbitrary: l rs i j)
  case Nil
  then show ?case by simp
next
  case (Cons e es)
  obtain r l1 rs' where 1: "ledger_reserve l e = (r, l1)" "reserve_all l1 es = (rs', l')" "rs = r # rs'"
    using Cons.prems(1) by (auto split: prod.splits)
  obtain m where j: "j = Suc m" using Cons.prems by (cases j) auto
  show ?case
  proof (cases i)
    case 0
    obtain x where "ledger_get l1 (le_key e) = Some x"
      using ledger_reserve_get [of l e "le_key e"] 1(1)
      by (cases "ledger_get l (le_key e)") auto
    moreover have "m < length es" "le_key (es ! m) = le_key e" using 0 j Cons.prems(3,4) by simp_all
    ultimately show ?thesis using reserve_all_known_key [OF _ 1(2)] 1(3) j by simp
  next
    case (Suc n)
    with j Cons.prems(2,3,4) have "n < m" "m < length es" "le_key (es ! n) = le_key (es ! m)"
      by simp_all
    with Cons.IH [OF 1(2)] 1(3) j show ?thesis by simp
  qed
qed

section \<open>Histories of operations\<close>

lemma ledger_op_OkD:
  assumes "ledger_op e p = (Ok t, e')"
  shows "tool_can_transition_to (le_state e) (tt_to t)" and "le_state e' = tt_to t"
proof -
  have t: "tt_to t = to" if "ledger_apply x to ver out at = (Ok t, e')" for x to ver out at
    using that by (auto simp: ledger_apply_def Let_def split: if_splits sum.splits)
  have "tool_can_transition_to (le_state e) (tt_to t) \<and> le_state e' = tt_to t"
  proof (cases p)
    case (ApplyOp q)
    with assms have a: "ledger_apply e (lq_to q) (lq_expected_version q) (lq_outcome q)
        (lq_occurred_at q) = (Ok t, e')"
      by (simp add: ledger_op_def ledger_step_def)
    have "le_state e' = lq_to q" by (subst ledger_apply_OkD(4) [OF a]) simp
    with t [OF a] ledger_apply_OkD(2) [OF a] show ?thesis by simp
  next
    case (ConfirmOp ver at)
    with assms have c: "confirm_no_effect e ver at = (Ok t, e')" by (simp add: ledger_op_def)
    have "le_state e' = ToolCallState.Failed" by (subst confirm_no_effect_OkD(4) [OF c]) simp
    with t [OF c [unfolded confirm_no_effect_def]] confirm_no_effect_OkD(2) [OF c]
    show ?thesis by simp
  qed
  then show "tool_can_transition_to (le_state e) (tt_to t)" and "le_state e' = tt_to t" by blast+
qed

lemma ledger_apply_stage: "stage (le_state e) \<le> stage (le_state (snd (ledger_apply e to ver out at)))"
  using stage_increases [of "le_state e" to]
  by (auto simp: ledger_apply_def Let_def less_imp_le split: sum.split)

lemma ledger_op_stage:
  assumes "ledger_op e p = (r, e')"
  shows "stage (le_state e) \<le> stage (le_state e')"
proof (cases p)
  case (ApplyOp q)
  with assms have "snd (ledger_apply e (lq_to q) (lq_expected_version q) (lq_outcome q)
      (lq_occurred_at q)) = e'"
    by (simp add: ledger_op_def ledger_step_def)
  with ledger_apply_stage [of e] show ?thesis by metis
next
  case (ConfirmOp ver at)
  with assms have "snd (ledger_apply (e\<lparr>le_no_effect_confirmed := True\<rparr>) ToolCallState.Failed ver
      (Some ToolErrorClass.ProviderError) at) = e'"
    by (simp add: ledger_op_def confirm_no_effect_def)
  with ledger_apply_stage [of "e\<lparr>le_no_effect_confirmed := True\<rparr>"] show ?thesis by force
qed

interpretation ledger_staged: staged ledger_op tt_to le_state stage 7
proof
  show "stage s \<le> 7" for s by (rule stage_le)
  fix e p
  show "stage (le_state e) \<le> stage (le_state e')" if "ledger_op e p = (r, e')" for r e'
    using that by (rule ledger_op_stage)
  fix t e'
  assume o: "ledger_op e p = (Ok t, e')"
  show "stage (le_state e) < stage (tt_to t)" by (rule stage_increases [OF ledger_op_OkD(1) [OF o]])
  show "le_state e' = tt_to t" by (rule ledger_op_OkD(2) [OF o])
qed

text \<open>What a history says of the effect: whether an accepted transition dispatched the call, and
  whether an accepted confirmation said that nothing landed.\<close>

definition sent_in :: "(DomainError + ToolCallTransition) list \<Rightarrow> bool" where
  "sent_in rs = list_ex (\<lambda>r. is_ok r \<and> tt_to (projr r) = ToolCallState.Executing) rs"

fun is_confirm :: "LedgerOp \<Rightarrow> bool" where
  "is_confirm (ApplyOp _) = False"
| "is_confirm (ConfirmOp _ _) = True"

definition confirmed_in :: "LedgerOp list \<Rightarrow> (DomainError + ToolCallTransition) list \<Rightarrow> bool" where
  "confirmed_in ops rs = list_ex (\<lambda>(p, r). is_confirm p \<and> is_ok r) (zip ops rs)"

definition no_confirm_refused :: "LedgerOp list \<Rightarrow> (DomainError + ToolCallTransition) list \<Rightarrow> bool" where
  "no_confirm_refused ops rs = list_all (\<lambda>(p, r). is_confirm p \<longrightarrow> is_ok r) (zip ops rs)"

lemma terminal_history:
  assumes "tool_state_is_terminal (le_state e)" and "run_steps ledger_op e ops = (rs, e')"
  shows "filter is_ok rs = []"
proof -
  have "stage (le_state e) = 7" using assms(1) stage_7_iff by blast
  with ledger_staged.history_bounded [OF assms(2)] have "length (filter is_ok rs) = 0"
    by linarith
  then show ?thesis by simp
qed

lemma no_ok_not_sent: "filter is_ok rs = [] \<Longrightarrow> \<not> sent_in rs"
  by (induction rs) (auto simp: sent_in_def split: if_splits)

lemma no_ok_not_confirmed: "filter is_ok rs = [] \<Longrightarrow> \<not> confirmed_in ops rs"
  by (auto simp: confirmed_in_def list_ex_iff filter_empty_conv dest: set_zip_rightD)

lemma ledger_op_effect:
  assumes "entry_ok e" and "ledger_op e p = (Ok t, e')"
  shows "entry_ok e'"
    and "entry_was_dispatched e' \<longleftrightarrow> entry_was_dispatched e \<or> tt_to t = ToolCallState.Executing"
    and "le_no_effect_confirmed e' \<longleftrightarrow>
      is_confirm p \<or> (tool_state_is_terminal (tt_to t) \<and> \<not> entry_was_dispatched e)"
proof -
  have q: "\<not> le_no_effect_confirmed e"
    using assms(1) dispatch_edges(4) [OF ledger_op_OkD(1) [OF assms(2)]] by (simp add: entry_ok_def)
  have "entry_ok e' \<and>
    (entry_was_dispatched e' \<longleftrightarrow> entry_was_dispatched e \<or> tt_to t = ToolCallState.Executing) \<and>
    (le_no_effect_confirmed e' \<longleftrightarrow>
      is_confirm p \<or> (tool_state_is_terminal (tt_to t) \<and> \<not> entry_was_dispatched e))"
  proof (cases p)
    case (ApplyOp x)
    with assms have a: "ledger_apply e (lq_to x) (lq_expected_version x) (lq_outcome x)
        (lq_occurred_at x) = (Ok t, e')"
      by (simp add: ledger_op_def ledger_step_def)
    have "le_state e' = lq_to x" by (subst ledger_apply_OkD(4) [OF a]) simp
    then have to: "lq_to x = tt_to t" using ledger_op_OkD(2) [OF assms(2)] by simp
    have "entry_was_dispatched e' \<longleftrightarrow> entry_was_dispatched e \<or> tt_to t = ToolCallState.Executing"
      by (subst ledger_apply_OkD(4) [OF a]) (auto simp: entry_was_dispatched_def to)
    moreover have "le_no_effect_confirmed e' \<longleftrightarrow> tool_state_is_terminal (tt_to t) \<and> \<not> entry_was_dispatched e"
      by (subst ledger_apply_OkD(4) [OF a]) (simp add: entry_was_dispatched_def to q)
    ultimately show ?thesis using ApplyOp ledger_apply_entry_ok [OF assms(1) a] by simp
  next
    case (ConfirmOp ver at)
    with assms have c: "confirm_no_effect e ver at = (Ok t, e')" by (simp add: ledger_op_def)
    have "le_state e' = ToolCallState.Failed" by (subst confirm_no_effect_OkD(4) [OF c]) simp
    then have to: "tt_to t = ToolCallState.Failed" using ledger_op_OkD(2) [OF assms(2)] by simp
    have "entry_was_dispatched e' \<longleftrightarrow> entry_was_dispatched e"
      by (subst confirm_no_effect_OkD(4) [OF c]) (simp add: entry_was_dispatched_def)
    moreover have "le_no_effect_confirmed e'" by (subst confirm_no_effect_OkD(4) [OF c]) simp
    ultimately show ?thesis
      using ConfirmOp to confirm_no_effect_entry_ok [OF assms(1) c] by simp
  qed
  then show "entry_ok e'"
    and "entry_was_dispatched e' \<longleftrightarrow> entry_was_dispatched e \<or> tt_to t = ToolCallState.Executing"
    and "le_no_effect_confirmed e' \<longleftrightarrow>
      is_confirm p \<or> (tool_state_is_terminal (tt_to t) \<and> \<not> entry_was_dispatched e)"
    by blast+
qed

lemma history_effect:
  assumes "entry_ok e" and "run_steps ledger_op e ops = (rs, e')" and "no_confirm_refused ops rs"
  shows "may_have_effected e' \<longleftrightarrow>
    (entry_was_dispatched e \<or> sent_in rs) \<and> \<not> (le_no_effect_confirmed e \<or> confirmed_in ops rs)"
  using assms
proof (induction ops arbitrary: e rs)
  case Nil
  then show ?case by (simp add: may_have_effected_def sent_in_def confirmed_in_def)
next
  case (Cons p ops)
  from Cons.prems(2) obtain r rs' e1 where 1: "ledger_op e p = (r, e1)"
      "run_steps ledger_op e1 ops = (rs', e')" "rs = r # rs'"
    by (auto simp: run_steps_Cons_iff simp del: run_steps.simps)
  from Cons.prems(3) 1(3) have nc: "no_confirm_refused ops rs'" "is_confirm p \<longrightarrow> is_ok r"
    by (simp_all add: no_confirm_refused_def)
  have parts: "sent_in rs \<longleftrightarrow> (is_ok r \<and> tt_to (projr r) = ToolCallState.Executing) \<or> sent_in rs'"
    "confirmed_in (p # ops) rs \<longleftrightarrow> (is_confirm p \<and> is_ok r) \<or> confirmed_in ops rs'"
    by (simp_all add: 1(3) sent_in_def confirmed_in_def)
  show ?case
  proof (cases r)
    case (Inl x)
    with nc(2) obtain q where "p = ApplyOp q" by (cases p) auto
    with 1(1) Inl have "e1 = e"
      using ledger_apply_ErrD(2) entry_ok_version [OF Cons.prems(1)]
      by (auto simp: ledger_op_def ledger_step_def)
    with Inl Cons.IH [OF _ 1(2) nc(1)] Cons.prems(1) parts show ?thesis by simp
  next
    case (Inr t)
    with 1(1) have "ledger_op e p = (Ok t, e1)" by simp
    note d = ledger_op_effect [OF Cons.prems(1) this] and s = ledger_op_OkD [OF this]
    have q: "\<not> le_no_effect_confirmed e"
      using Cons.prems(1) dispatch_edges(4) [OF s(1)] by (simp add: entry_ok_def)
    have "\<not> sent_in rs' \<and> \<not> confirmed_in ops rs'" if "tool_state_is_terminal (tt_to t)"
      using terminal_history [OF _ 1(2)] that s(2) no_ok_not_sent no_ok_not_confirmed by simp
    with Inr Cons.IH [OF d(1) 1(2) nc(1)] parts d(2,3) q show ?thesis
      by auto
  qed
qed

lemma reserve_facts:
  "\<not> entry_was_dispatched (ledger_entry_reserve i c a r k p now)"
  "\<not> le_no_effect_confirmed (ledger_entry_reserve i c a r k p now)"
  "le_state (ledger_entry_reserve i c a r k p now) = ToolCallState.Requested"
  by (simp_all add: ledger_entry_reserve_def entry_was_dispatched_def)

lemma classify_interrupted_None_iff: "classify_interrupted s = None \<longleftrightarrow> tool_state_is_terminal s"
  by (cases s) (simp_all add: classify_interrupted_def)

lemma classify_interrupted_Some:
  assumes "classify_interrupted s = Some a"
  shows "permits_retry a \<longleftrightarrow> is_reachable_without_dispatch s"
    and "needs_write a \<longleftrightarrow> tool_can_transition_to s (interrupted_target_state a)"
  using assms by (cases s; auto simp: classify_interrupted_def permits_retry_def needs_write_def)+

section \<open>Properties\<close>

text \<open>C2: No call enters a state twice, whatever requests and confirmations its entry is offered
  and in whatever order: in particular one record is dispatched at most once, and it accepts at
  most seven transitions in its life.\<close>

theorem call_dispatched_at_most_once:
  assumes "run_steps ledger_op e ops = (rs, e')"
  shows "(i < j \<and> j < length ops \<and> rs ! i = Ok t \<and> rs ! j = Ok u \<longrightarrow> tt_to t \<noteq> tt_to u) \<and>
    length (filter is_ok rs) \<le> 7"
proof -
  have "tt_to t \<noteq> tt_to u" if "i < j" "j < length ops" "rs ! i = Ok t" "rs ! j = Ok u"
    by (rule ledger_staged.history_distinct [OF assms that])
  moreover have "length (filter is_ok rs) \<le> 7"
    using ledger_staged.history_bounded [OF assms] by linarith
  ultimately show ?thesis by blast
qed

definition sample_identity :: ToolIdentity where
  "sample_identity =
     \<lparr>ti_capability = \<lparr>tc_namespace = ''files'', tc_name = ''write'', tc_major = 1\<rparr>,
      ti_source = \<lparr>ts_kind = SourceKind.Native, ts_owner = ''jarvis'',
        ts_version = \<lparr>tv_major = 1, tv_minor = 0, tv_patch = 0, tv_pre_release = None\<rparr>\<rparr>,
      ti_schema_fingerprint = replicate 32 0\<rparr>"

definition sample_key :: ReservationKey where
  "sample_key = \<lparr>rk_identity = sample_identity, rk_workspace = 1, rk_principal = 2, rk_idempotency_key = ''k''\<rparr>"

definition sample_entry :: LedgerEntry where
  "sample_entry = ledger_entry_reserve 5 6 1 7 sample_key LedgerOperation.Execute 0"

definition sample_request :: "ToolCallState \<Rightarrow> ToolCallVersion \<Rightarrow> LedgerOp" where
  "sample_request s v =
     ApplyOp \<lparr>lq_to = s, lq_expected_version = v, lq_outcome = None, lq_occurred_at = 1\<rparr>"

definition dispatch_ops :: "LedgerOp list" where
  "dispatch_ops =
     [sample_request ToolCallState.Validated 1, sample_request ToolCallState.Reserved 2,
      sample_request ToolCallState.Executing 3]"

lemma dispatch_ops_run:
  "run_steps ledger_op sample_entry dispatch_ops =
     (fst (run_steps ledger_op sample_entry dispatch_ops),
      sample_entry\<lparr>le_state := ToolCallState.Executing, le_version := 4, le_updated_at := 1,
                   le_dispatched_at := Some 1\<rparr>)"
  "list_all is_ok (fst (run_steps ledger_op sample_entry dispatch_ops))"
  by (simp_all add: dispatch_ops_def sample_request_def sample_entry_def ledger_entry_reserve_def
      ledger_op_def ledger_step_def ledger_apply_def Let_def tool_call_version_first_def
      tool_call_version_next_def checked_add_def entry_was_dispatched_def)

theorem call_dispatched_at_most_once_witness:
  "length (filter is_ok (fst (run_steps ledger_op sample_entry dispatch_ops))) \<le> 7"
  using call_dispatched_at_most_once [OF dispatch_ops_run(1)] by simp

text \<open>The ledger never forgets a possible effect: over any history of a reserved call in which
  no confirmation was refused, the entry says the call may have had an effect exactly when it
  was dispatched and no confirmation that nothing landed was accepted.\<close>

theorem may_have_effected_is_exact:
  assumes "run_steps ledger_op (ledger_entry_reserve i c a r k p now) ops = (rs, e')"
    and "no_confirm_refused ops rs"
  shows "may_have_effected e' \<longleftrightarrow> sent_in rs \<and> \<not> confirmed_in ops rs"
  using history_effect [OF reserve_entry_ok assms] by (simp add: reserve_facts)

theorem may_have_effected_is_exact_witness:
  "may_have_effected (snd (run_steps ledger_op sample_entry dispatch_ops))"
proof -
  have "no_confirm_refused dispatch_ops (fst (run_steps ledger_op sample_entry dispatch_ops))"
    using dispatch_ops_run(2)
    by (auto simp: no_confirm_refused_def list_all_iff dest: set_zip_rightD)
  moreover have "sent_in (fst (run_steps ledger_op sample_entry dispatch_ops))"
    by (simp add: dispatch_ops_def sample_request_def sample_entry_def ledger_entry_reserve_def
      ledger_op_def ledger_step_def ledger_apply_def Let_def tool_call_version_first_def
      tool_call_version_next_def checked_add_def entry_was_dispatched_def sent_in_def)
  moreover have "\<not> confirmed_in dispatch_ops rs" for rs
    by (auto simp: confirmed_in_def dispatch_ops_def sample_request_def list_ex_iff dest!: set_zip_leftD)
  ultimately show ?thesis
    using may_have_effected_is_exact [OF dispatch_ops_run(1) [unfolded sample_entry_def]]
    by (subst dispatch_ops_run(1)) (simp add: sample_entry_def)
qed

text \<open>A refused confirmation still clears the possible effect: on a dispatched call a
  \<open>confirm_no_effect\<close> with a stale version is answered with a version conflict, and yet the
  entry it leaves behind claims that nothing landed.\<close>

theorem refused_confirmation_hides_effect:
  assumes "may_have_effected e" and "ver \<noteq> le_version e"
  shows "fst (confirm_no_effect e ver at) = Err (ToolCallVersionConflict ver (le_version e)) \<and>
    \<not> may_have_effected (snd (confirm_no_effect e ver at))"
  using assms
  by (simp add: confirm_no_effect_def ledger_apply_def may_have_effected_def)

theorem refused_confirmation_hides_effect_witness:
  "\<not> may_have_effected (snd (confirm_no_effect (sample_entry\<lparr>le_dispatched_at := Some 1\<rparr>) 9 2))"
  using refused_confirmation_hides_effect [of "sample_entry\<lparr>le_dispatched_at := Some 1\<rparr>" 9 2]
  by (simp add: sample_entry_def ledger_entry_reserve_def may_have_effected_def
      entry_was_dispatched_def tool_call_version_first_def)

text \<open>A stored entry reads back as it was written unless it ended without an outcome: of the
  entries the ledger can produce, \<open>restore\<close> refuses exactly those.\<close>

theorem restore_reads_back:
  assumes "reachable_entry e"
  shows "ledger_restore e = Ok e \<longleftrightarrow> \<not> (tool_state_is_terminal (le_state e) \<and> le_outcome e = None)"
  using reachable_entry_ok [OF assms]
  by (auto simp: ledger_restore_def entry_ok_def entry_was_dispatched_def)

theorem restore_reads_back_witness: "ledger_restore sample_entry = Ok sample_entry"
  using restore_reads_back [OF reachable_entry.reserved [of 5 6 1 7 sample_key LedgerOperation.Execute 0]]
  by (simp add: sample_entry_def ledger_entry_reserve_def)

text \<open>A call that succeeds with no outcome recorded becomes unreadable: \<open>apply\<close> accepts the
  move to \<open>Succeeded\<close> with no outcome, and \<open>restore\<close> refuses the entry it leaves.\<close>

theorem succeeded_without_outcome_unreadable:
  assumes "reachable_entry e" and "le_state e = ToolCallState.Executing"
  shows "\<exists>r e'. ledger_apply e ToolCallState.Succeeded (le_version e) None at = (Ok r, e') \<and>
    reachable_entry e' \<and>
    ledger_restore e' = Err (ToolCallStateConflict ToolCallState.Succeeded ToolCallState.Succeeded)"
proof -
  obtain r e' where a: "ledger_apply e ToolCallState.Succeeded (le_version e) None at = (Ok r, e')"
    using ledger_apply_accepts [of e ToolCallState.Succeeded None at]
      entry_ok_version [OF reachable_entry_ok [OF assms(1)]] assms(2) by auto
  then have "ledger_op e (ApplyOp \<lparr>lq_to = ToolCallState.Succeeded, lq_expected_version = le_version e,
      lq_outcome = None, lq_occurred_at = at\<rparr>) = (Ok r, e')"
    by (simp add: ledger_op_def ledger_step_def)
  with assms(1) have re: "reachable_entry e'" by (rule reachable_entry.operated)
  have f: "le_state e' = ToolCallState.Succeeded" "le_outcome e' = None" "le_attempt e' = le_attempt e"
    by (subst ledger_apply_OkD(4) [OF a], simp)+
  have "le_attempt e \<noteq> 0" using reachable_entry_ok [OF assms(1)] by (simp add: entry_ok_def)
  with a re f show ?thesis by (auto simp: ledger_restore_def)
qed

lemma dispatched_sample_reachable:
  "reachable_entry (sample_entry\<lparr>le_state := ToolCallState.Executing, le_version := 4,
     le_updated_at := 1, le_dispatched_at := Some 1\<rparr>)"
proof -
  have ind: "run_steps ledger_op e ops = (rs, e') \<Longrightarrow> list_all is_ok rs \<Longrightarrow> reachable_entry e \<Longrightarrow>
      reachable_entry e'" for e ops rs e'
  proof (induction ops arbitrary: e rs)
    case Nil
    then show ?case by simp
  next
    case (Cons p ops)
    then obtain y rs' e1 where 1: "ledger_op e p = (y, e1)" "run_steps ledger_op e1 ops = (rs', e')"
        "is_ok y" "list_all is_ok rs'"
      by (auto simp: run_steps_Cons_iff simp del: run_steps.simps)
    then obtain x where "y = Ok x" by (auto simp: is_ok_iff)
    with 1 Cons.IH Cons.prems(3) reachable_entry.operated show ?case by blast
  qed
  show ?thesis
    by (rule ind [OF dispatch_ops_run])
      (simp add: sample_entry_def reachable_entry.reserved)
qed

theorem succeeded_without_outcome_unreadable_witness:
  "\<exists>e r e'. ledger_apply e ToolCallState.Succeeded 4 None 2 = (Ok r, e') \<and>
     ledger_restore e' = Err (ToolCallStateConflict ToolCallState.Succeeded ToolCallState.Succeeded)"
  using succeeded_without_outcome_unreadable [OF dispatched_sample_reachable, of 2] by auto

text \<open>An idempotency key is granted once: of any reservations offered to a ledger, in any
  order, no two with the same key are both granted, and a key already in the ledger is not
  granted at all.\<close>

theorem key_granted_at_most_once:
  assumes "reserve_all l es = (rs, l')" and "j < length es"
    and "(\<exists>i < j. le_key (es ! i) = le_key (es ! j)) \<or> ledger_get l (le_key (es ! j)) \<noteq> None"
  shows "\<not> is_granted (rs ! j)"
proof -
  have "rs ! j \<noteq> Granted"
    using assms reserve_all_once [OF assms(1) _ assms(2)] reserve_all_known_key [OF _ assms(1,2)]
    by blast
  then show ?thesis by (simp add: is_granted_def split: ReservationOutcome.split)
qed

theorem key_granted_at_most_once_witness:
  "\<not> is_granted (fst (reserve_all ledger_new [sample_entry, sample_entry]) ! 1)"
  by (rule key_granted_at_most_once [OF prod.collapse [symmetric]]) auto

text \<open>After a restart an interrupted call is retried only if it was never dispatched: a
  recorded call is classified unless it has ended, the verdict permits a retry exactly when no
  dispatch was recorded, and a verdict that asks for a write asks for one the table allows.\<close>

theorem interrupted_call_retried_only_if_unsent:
  assumes "reachable_entry e"
  shows "case classify_interrupted (le_state e) of
      None \<Rightarrow> tool_state_is_terminal (le_state e)
    | Some a \<Rightarrow> (permits_retry a \<longleftrightarrow> \<not> entry_was_dispatched e) \<and>
        (needs_write a \<longleftrightarrow> tool_can_transition_to (le_state e) (interrupted_target_state a))"
proof (cases "classify_interrupted (le_state e)")
  case None
  then have "tool_state_is_terminal (le_state e)" using classify_interrupted_None_iff by blast
  with None show ?thesis by simp
next
  case (Some a)
  then have "\<not> tool_state_is_terminal (le_state e)"
    using classify_interrupted_None_iff [of "le_state e"] by simp
  then have "is_reachable_without_dispatch (le_state e) \<longleftrightarrow> \<not> entry_was_dispatched e"
    using reachable_entry_ok [OF assms] by (cases "le_state e") (auto simp: entry_ok_def)
  with Some classify_interrupted_Some [OF Some] show ?thesis by simp
qed

theorem interrupted_call_retried_only_if_unsent_witness:
  "permits_retry (the (classify_interrupted (le_state sample_entry)))"
  using interrupted_call_retried_only_if_unsent
    [OF reachable_entry.reserved [of 5 6 1 7 sample_key LedgerOperation.Execute 0]]
  by (simp add: sample_entry_def reserve_facts classify_interrupted_def)

end
