(* ===== verification/Effects.thy ===== *)
theory Effects
  imports Prelude
begin

text \<open>
  Fallible operations on a state: an \<open>async fn\<close> that returns \<open>Result<T, E>\<close> after reading and
  writing a store is a function from the state to its result and the state it leaves behind,
  also when it fails. \<open>eff_bind\<close> is \<open>.await?\<close>: an error returns at once with the state reached.

  Two judgements carry the proofs about such operations: \<open>preserves\<close>, for an invariant of the
  state, and \<open>advances\<close>, for a preorder between the state before and the state after.
\<close>

type_synonym ('s, 'e, 'a) eff = "'s \<Rightarrow> ('e + 'a) \<times> 's"

definition eff_return :: "'a \<Rightarrow> ('s, 'e, 'a) eff" where
  "eff_return x s = (Ok x, s)"

definition eff_throw :: "'e \<Rightarrow> ('s, 'e, 'a) eff" where
  "eff_throw e s = (Err e, s)"

definition eff_bind :: "('s, 'e, 'a) eff \<Rightarrow> ('a \<Rightarrow> ('s, 'e, 'b) eff) \<Rightarrow> ('s, 'e, 'b) eff" where
  "eff_bind m f s = (case m s of (Err e, s') \<Rightarrow> (Err e, s') | (Ok x, s') \<Rightarrow> f x s')"

definition eff_lift :: "'e + 'a \<Rightarrow> ('s, 'e, 'a) eff" where
  "eff_lift r s = (r, s)"

definition eff_get :: "('s \<Rightarrow> 'a) \<Rightarrow> ('s, 'e, 'a) eff" where
  "eff_get f s = (Ok (f s), s)"

definition eff_update :: "('s \<Rightarrow> 's) \<Rightarrow> ('s, 'e, unit) eff" where
  "eff_update f s = (Ok (), f s)"

text \<open>\<open>match m.await\<close>: the continuation sees the result, error or not.\<close>

definition eff_try :: "('s, 'e, 'a) eff \<Rightarrow> ('e + 'a \<Rightarrow> ('s, 'd, 'b) eff) \<Rightarrow> ('s, 'd, 'b) eff" where
  "eff_try m f s = (case m s of (r, s') \<Rightarrow> f r s')"

lemma eff_return_run [simp]: "eff_return x s = (Ok x, s)"
  by (simp add: eff_return_def)

lemma eff_throw_run [simp]: "eff_throw e s = (Err e, s)"
  by (simp add: eff_throw_def)

lemma eff_lift_run [simp]: "eff_lift r s = (r, s)"
  by (simp add: eff_lift_def)

lemma eff_get_run [simp]: "eff_get f s = (Ok (f s), s)"
  by (simp add: eff_get_def)

lemma eff_update_run [simp]: "eff_update f s = (Ok (), f s)"
  by (simp add: eff_update_def)

lemma eff_bind_Ok [simp]: "m s = (Ok x, s') \<Longrightarrow> eff_bind m f s = f x s'"
  by (simp add: eff_bind_def)

lemma eff_bind_Err [simp]: "m s = (Err e, s') \<Longrightarrow> eff_bind m f s = (Err e, s')"
  by (simp add: eff_bind_def)

lemma eff_bind_run:
  "eff_bind m f s = (r, s') \<longleftrightarrow>
     (\<exists>e. m s = (Err e, s') \<and> r = Err e) \<or> (\<exists>x t. m s = (Ok x, t) \<and> f x t = (r, s'))"
  by (cases "m s"; cases "fst (m s)") auto

lemma eff_bind_OkD:
  "eff_bind m f s = (Ok y, s') \<Longrightarrow> \<exists>x t. m s = (Ok x, t) \<and> f x t = (Ok y, s')"
  by (auto simp: eff_bind_run)

lemma eff_bind_OkE:
  assumes "eff_bind m f s = (Ok y, s')"
  obtains x t where "m s = (Ok x, t)" and "f x t = (Ok y, s')"
  using eff_bind_OkD [OF assms] by blast

lemma eff_try_run: "m s = (r, t) \<Longrightarrow> eff_try m f s = f r t"
  by (simp add: eff_try_def)

section \<open>Invariants\<close>

named_theorems effect_rules \<open>compositional rules for \<open>preserves\<close> and \<open>advances\<close>\<close>

definition preserves :: "('s \<Rightarrow> bool) \<Rightarrow> ('s, 'e, 'a) eff \<Rightarrow> bool" where
  "preserves I m \<longleftrightarrow> (\<forall>s. I s \<longrightarrow> I (snd (m s)))"

lemma preservesD: "preserves I m \<Longrightarrow> I s \<Longrightarrow> m s = (r, s') \<Longrightarrow> I s'"
  unfolding preserves_def by (metis snd_conv)

lemma preserves_return [effect_rules]: "preserves I (eff_return x)"
  by (simp add: preserves_def)

lemma preserves_throw [effect_rules]: "preserves I (eff_throw e)"
  by (simp add: preserves_def)

lemma preserves_lift [effect_rules]: "preserves I (eff_lift r)"
  by (simp add: preserves_def)

lemma preserves_get [effect_rules]: "preserves I (eff_get f)"
  by (simp add: preserves_def)

lemma preserves_bind [effect_rules]:
  assumes "preserves I m" and "\<And>x. preserves I (f x)"
  shows "preserves I (eff_bind m f)"
  using assms unfolding preserves_def eff_bind_def by (auto split: prod.split sum.split)

lemma preserves_try [effect_rules]:
  assumes "preserves I m" and "\<And>r. preserves I (f r)"
  shows "preserves I (eff_try m f)"
  using assms unfolding preserves_def eff_try_def by (auto split: prod.split)

section \<open>Preorders between before and after\<close>

definition advances :: "('s \<Rightarrow> 's \<Rightarrow> bool) \<Rightarrow> ('s, 'e, 'a) eff \<Rightarrow> bool" where
  "advances R m \<longleftrightarrow> (\<forall>s. R s (snd (m s)))"

lemma advancesD: "advances R m \<Longrightarrow> m s = (r, s') \<Longrightarrow> R s s'"
  unfolding advances_def by (metis snd_conv)

lemma advances_return [effect_rules]: "reflp R \<Longrightarrow> advances R (eff_return x)"
  by (simp add: advances_def reflp_def)

lemma advances_throw [effect_rules]: "reflp R \<Longrightarrow> advances R (eff_throw e)"
  by (simp add: advances_def reflp_def)

lemma advances_lift [effect_rules]: "reflp R \<Longrightarrow> advances R (eff_lift r)"
  by (simp add: advances_def reflp_def)

lemma advances_get [effect_rules]: "reflp R \<Longrightarrow> advances R (eff_get f)"
  by (simp add: advances_def reflp_def)

lemma advances_bind [effect_rules]:
  assumes "transp R" and "advances R m" and "\<And>x. advances R (f x)"
  shows "advances R (eff_bind m f)"
  using assms unfolding advances_def eff_bind_def
  by (auto split: prod.split sum.split) (metis snd_conv transpE)+

lemma advances_try [effect_rules]:
  assumes "transp R" and "advances R m" and "\<And>r. advances R (f r)"
  shows "advances R (eff_try m f)"
  using assms unfolding advances_def eff_try_def
  by (auto split: prod.split) (metis snd_conv transpE)

end
