(* ===== verification/Repository.thy ===== *)
theory Repository
  imports Domain_Error Effects
begin

text \<open>
  What the repositories share: \<open>RepositoryError\<close> (\<open>jarvis-application/src/repository/mod.rs\<close>), the
  conversion between versions and SQLite's signed 64-bit integers, and the failures of the
  database itself. A store carries a schedule of faults, one entry per statement it will run: a
  statement whose entry is \<open>True\<close> fails with \<open>Query\<close>, and once the schedule is used up every
  statement runs. A property that holds for every schedule holds wherever the database fails.
\<close>

datatype RepositoryError =
    NotFound
  | VersionConflict u64 u64
  | TransitionRefused string
  | Corrupted string
  | Conflict string
  | Query

primrec repository_error_code :: "RepositoryError \<Rightarrow> string" where
  "repository_error_code RepositoryError.NotFound = ''storage.not_found''"
| "repository_error_code (VersionConflict _ _) = ''storage.version_conflict''"
| "repository_error_code (TransitionRefused _) = ''storage.transition_refused''"
| "repository_error_code (Corrupted _) = ''storage.row_corrupted''"
| "repository_error_code (RepositoryError.Conflict _) = ''storage.conflict''"
| "repository_error_code Query = ''storage.query_failed''"

definition repository_error_retryable :: "RepositoryError \<Rightarrow> bool" where
  "repository_error_retryable e \<longleftrightarrow> e = Query"

section \<open>Integers of a column\<close>

type_synonym i64 = "64 word"

text \<open>An \<open>i64\<close> is the same 64 bits read as signed. \<open>i64::try_from(u64)\<close> refuses what would read as
  negative, \<open>u64::try_from(i64)\<close> what does.\<close>

definition i64_of_u64 :: "u64 \<Rightarrow> i64 option" where
  "i64_of_u64 v = (if unat v < 2 ^ 63 then Some v else None)"

definition u64_of_i64 :: "i64 \<Rightarrow> u64 option" where
  "u64_of_i64 i = (if sint i < 0 then None else Some i)"

lemma sint_nonneg: "unat (v :: u64) < 2 ^ 63 \<Longrightarrow> sint v = uint v"
proof -
  assume small: "unat v < 2 ^ 63"
  have "uint v = int (unat v)" by (rule uint_nat)
  also have "\<dots> < int (2 ^ 63)" using small by (simp only: of_nat_less_iff)
  finally have "uint v < 2 ^ 63" by simp
  moreover have "- (2 ^ 63) \<le> uint v" by (rule order_trans [OF _ uint_ge_0]) simp
  ultimately have "signed_take_bit 63 (uint v) = uint v"
    by (intro signed_take_bit_int_eq_self)
  then show ?thesis by (simp add: sint_uint)
qed

lemma i64_of_u64_eq: "i64_of_u64 v = Some i \<Longrightarrow> i = v"
  by (simp add: i64_of_u64_def split: if_split_asm)

lemma u64_of_i64_eq: "u64_of_i64 i = Some v \<Longrightarrow> v = i"
  by (simp add: u64_of_i64_def split: if_split_asm)

lemma u64_of_i64_of_u64: "i64_of_u64 v = Some i \<Longrightarrow> u64_of_i64 i = Some v"
  by (auto simp: i64_of_u64_def u64_of_i64_def sint_nonneg split: if_split_asm)

lemma i64_of_u64_small: "unat v < 2 ^ 63 \<Longrightarrow> i64_of_u64 v = Some v"
  by (simp add: i64_of_u64_def)

section \<open>Identifiers of a column\<close>

text \<open>\<open>parse\<close> of an identifier (\<open>ids.rs\<close>) on the text of a stored one: the nil and the maximal
  identifier are refused, every other reads back.\<close>

definition canonical_id :: "uuid \<Rightarrow> bool" where
  "canonical_id u \<longleftrightarrow> u \<noteq> 0 \<and> u \<noteq> - 1"

definition parse_id :: "string \<Rightarrow> uuid \<Rightarrow> RepositoryError + uuid" where
  "parse_id column u = (if canonical_id u then Ok u else Err (Corrupted column))"

lemma parse_id_Ok [simp]: "canonical_id u \<Longrightarrow> parse_id column u = Ok u"
  by (simp add: parse_id_def)

lemma parse_id_Ok_iff: "parse_id column u = Ok v \<longleftrightarrow> canonical_id u \<and> v = u"
  by (auto simp: parse_id_def)

section \<open>Rows\<close>

text \<open>\<open>UPDATE\<close> changes every row that satisfies its \<open>WHERE\<close> clause, and \<open>rows_affected\<close> counts them.\<close>

definition sql_update :: "('r \<Rightarrow> bool) \<Rightarrow> ('r \<Rightarrow> 'r) \<Rightarrow> 'r list \<Rightarrow> nat \<times> 'r list" where
  "sql_update p f rows = (length (filter p rows), map (\<lambda>r. if p r then f r else r) rows)"

lemma find_map_same:
  assumes "\<And>r. r \<in> set rows \<Longrightarrow> p (f r) = p r"
  shows "find p (map f rows) = map_option f (find p rows)"
  using assms by (induction rows) auto

lemma find_map_unchanged:
  assumes "\<And>r. r \<in> set rows \<Longrightarrow> p (f r) = p r" and "\<And>r. r \<in> set rows \<Longrightarrow> p r \<Longrightarrow> f r = r"
  shows "find p (map f rows) = find p rows"
  using assms by (induction rows) auto

lemma find_append: "find p (xs @ ys) = (case find p xs of None \<Rightarrow> find p ys | Some x \<Rightarrow> Some x)"
  by (induction xs) auto

lemma length_filter_map_le:
  "(\<And>x. P (f x) \<Longrightarrow> P x) \<Longrightarrow> length (filter P (map f xs)) \<le> length (filter P xs)"
  by (induction xs) (auto simp: le_SucI)

lemma length_filter_map_less:
  assumes "\<And>x. P (f x) \<Longrightarrow> P x" and "x \<in> set xs" and "P x" and "\<not> P (f x)"
  shows "length (filter P (map f xs)) < length (filter P xs)"
  using assms(2)
proof (induction xs)
  case (Cons y xs)
  have "length (filter P (map f xs)) \<le> length (filter P xs)"
    by (rule length_filter_map_le) (rule assms(1))
  with Cons assms show ?case by auto
qed simp

lemma list_all2_in_set: "list_all2 P xs ys \<Longrightarrow> y \<in> set ys \<Longrightarrow> \<exists>x \<in> set xs. P x y"
  by (induction rule: list_all2_induct) auto

lemma length_filter_notin:
  assumes "distinct xs" and "distinct ys" and "set ys \<subseteq> set xs"
  shows "length (filter (\<lambda>x. x \<notin> set ys) xs) = length xs - length ys"
proof -
  have "length (filter (\<lambda>x. x \<notin> set ys) xs) = card (set (filter (\<lambda>x. x \<notin> set ys) xs))"
    by (rule distinct_card [symmetric]) (simp add: assms(1))
  also have "set (filter (\<lambda>x. x \<notin> set ys) xs) = set xs - set ys" by auto
  also have "card (set xs - set ys) = card (set xs) - card (set ys)"
    by (rule card_Diff_subset) (simp_all add: assms(3))
  finally show ?thesis by (simp add: distinct_card assms(1,2))
qed

end
