(* ===== verification/Tool_Store.thy ===== *)
theory Tool_Store
  imports Tool_Ledger Repository
begin

text \<open>
  \<open>jarvis-infrastructure/src/storage/tool_call_repository.rs\<close>: the durable ledger. A row of
  \<open>tool_call_records\<close> keeps the spellings of the state, the operation and the outcome and the signed
  integers the code writes; identifiers, instants and the identity, whose texts are made and read
  by the uuid, time and JSON libraries, are kept as the values they denote. The unique index and
  the foreign key of migration \<open>000009\<close> are checked by \<open>reserve\<close>.
\<close>

section \<open>Rows\<close>

record ToolCallRow =
  tr_id :: ToolCallRecordId
  tr_call_id :: ToolCallId
  tr_workspace_id :: WorkspaceId
  tr_principal_id :: PrincipalId
  tr_run_id :: RunId
  tr_tool_identity :: ToolIdentity
  tr_idempotency_key :: string
  tr_attempt :: int
  tr_operation :: string
  tr_state :: string
  tr_version :: i64
  tr_dispatched_at :: "instant option"
  tr_outcome :: "string option"
  tr_no_effect_confirmed :: int
  tr_created_at :: instant
  tr_updated_at :: instant

record ToolCallTrailRow =
  tl_record_id :: ToolCallRecordId
  tl_workspace_id :: WorkspaceId
  tl_from_state :: string
  tl_to_state :: string
  tl_prior_version :: i64
  tl_version :: i64
  tl_outcome :: "string option"
  tl_occurred_at :: instant

record CallStore =
  cs_faults :: "bool list"
  cs_runs :: "RunId list"
  cs_rows :: "ToolCallRow list"
  cs_trail :: "ToolCallTrailRow list"

definition call_statement :: "(CallStore, RepositoryError, unit) eff" where
  "call_statement s =
     (case cs_faults s of
        [] \<Rightarrow> (Ok (), s)
      | f # fs \<Rightarrow> (if f then Err Query else Ok (), s\<lparr>cs_faults := fs\<rparr>))"

text \<open>A transaction that ends in an error is rolled back; the statements it ran stay run.\<close>

definition call_transaction :: "(CallStore, RepositoryError, 'a) eff \<Rightarrow> (CallStore, RepositoryError, 'a) eff" where
  "call_transaction m s =
     (case m s of
        (Ok x, s') \<Rightarrow> (Ok x, s')
      | (Err e, s') \<Rightarrow> (Err e, s\<lparr>cs_faults := cs_faults s'\<rparr>))"

definition version_to_i64 :: "ToolCallVersion \<Rightarrow> RepositoryError + i64" where
  "version_to_i64 version = ok_or (i64_of_u64 version) (Corrupted ''version'')"

definition parse_state :: "string \<Rightarrow> RepositoryError + ToolCallState" where
  "parse_state value = ok_or (ok (tool_call_state_parse value)) (Corrupted ''state'')"

definition parse_optional_outcome :: "ToolCallRow \<Rightarrow> RepositoryError + ToolErrorClass option" where
  "parse_optional_outcome row =
     (case tr_outcome row of
        None \<Rightarrow> Ok None
      | Some value \<Rightarrow>
          (case error_class_parse value of
             Ok class \<Rightarrow> Ok (Some class)
           | Err _ \<Rightarrow> Err (Corrupted ''outcome'')))"

definition parse_no_effect :: "ToolCallRow \<Rightarrow> RepositoryError + bool" where
  "parse_no_effect row =
     (if tr_no_effect_confirmed row = 0 then Ok False
      else if tr_no_effect_confirmed row = 1 then Ok True
      else Err (Corrupted ''no_effect_confirmed''))"

definition call_stored_version :: "ToolCallRow \<Rightarrow> RepositoryError + ToolCallVersion" where
  "call_stored_version row =
     (case u64_of_i64 (tr_version row) of
        None \<Rightarrow> Err (Corrupted ''version'')
      | Some value \<Rightarrow> ok_or (ok (tool_call_version_from_stored value)) (Corrupted ''version''))"

definition u32_of_i64 :: "int \<Rightarrow> u32 option" where
  "u32_of_i64 i = (if 0 \<le> i \<and> i < 2 ^ 32 then Some (word_of_int i) else None)"

text \<open>The columns of a row as the parts \<open>restore\<close> judges.\<close>

definition row_parts :: "ToolCallRow \<Rightarrow> RepositoryError + LedgerEntryParts" where
  "row_parts row =
     and_then (parse_id ''id'' (tr_id row)) (\<lambda>id.
     and_then (parse_id ''call_id'' (tr_call_id row)) (\<lambda>call_id.
     and_then (parse_id ''workspace_id'' (tr_workspace_id row)) (\<lambda>workspace.
     and_then (parse_id ''principal_id'' (tr_principal_id row)) (\<lambda>pr.
     and_then (parse_id ''run_id'' (tr_run_id row)) (\<lambda>run.
     and_then (ok_or (ok (reservation_key_new (tr_tool_identity row) workspace pr (tr_idempotency_key row)))
                 (Corrupted ''idempotency_key'')) (\<lambda>key.
     and_then (ok_or (u32_of_i64 (tr_attempt row)) (Corrupted ''attempt'')) (\<lambda>attempt.
     and_then (ok_or (ok (ledger_operation_parse (tr_operation row))) (Corrupted ''operation'')) (\<lambda>operation.
     and_then (parse_state (tr_state row)) (\<lambda>state.
     and_then (call_stored_version row) (\<lambda>version.
     and_then (parse_optional_outcome row) (\<lambda>outcome.
     and_then (parse_no_effect row) (\<lambda>no_effect.
       Ok \<lparr>le_id = id, le_call_id = call_id, le_attempt = attempt, le_run = run, le_key = key, le_operation = operation, le_state = state,
           le_version = version, le_created_at = tr_created_at row,
           le_updated_at = tr_updated_at row, le_dispatched_at = tr_dispatched_at row,
           le_outcome = outcome, le_no_effect_confirmed = no_effect\<rparr>))))))))))))"

definition stored_entry :: "ToolCallRow \<Rightarrow> RepositoryError + LedgerEntry" where
  "stored_entry row =
     and_then (row_parts row) (\<lambda>parts.
       (case ledger_restore parts of
          Ok entry \<Rightarrow> Ok entry
        | Err error \<Rightarrow>
            Err (Corrupted (if domain_error_code error = ''tool.definition_invalid''
                            then ''attempt_or_dispatch'' else ''outcome''))))"

definition store_classify :: "ToolCallRow \<Rightarrow> RepositoryError + ReservationOutcome" where
  "store_classify row =
     and_then (parse_state (tr_state row)) (\<lambda>state.
       if state = ToolCallState.Reconciling then
         and_then (parse_id ''id'' (tr_id row)) (\<lambda>id. Ok (Unsettled id))
       else if tool_state_is_terminal state then
         and_then (parse_optional_outcome row) (\<lambda>outcome.
         and_then (parse_no_effect row) (\<lambda>no_effect. Ok (AlreadyTerminal state outcome no_effect)))
       else Ok (InFlight state))"

section \<open>Operations\<close>

definition row_of_entry :: "LedgerEntry \<Rightarrow> RepositoryError + ToolCallRow" where
  "row_of_entry entry =
     and_then (version_to_i64 (le_version entry)) (\<lambda>version.
       Ok \<lparr>tr_id = le_id entry, tr_call_id = le_call_id entry,
           tr_workspace_id = rk_workspace (le_key entry), tr_principal_id = rk_principal (le_key entry),
           tr_run_id = le_run entry, tr_tool_identity = rk_identity (le_key entry),
           tr_idempotency_key = rk_idempotency_key (le_key entry), tr_attempt = uint (le_attempt entry),
           tr_operation = ledger_operation_as_contract_str (le_operation entry),
           tr_state = tool_call_state_as_contract_str (le_state entry), tr_version = version,
           tr_dispatched_at = le_dispatched_at entry,
           tr_outcome = map_option error_class_as_contract_str (le_outcome entry),
           tr_no_effect_confirmed = (if le_no_effect_confirmed entry then 1 else 0),
           tr_created_at = le_created_at entry, tr_updated_at = le_updated_at entry\<rparr>)"

definition row_has_key :: "ReservationKey \<Rightarrow> ToolCallRow \<Rightarrow> bool" where
  "row_has_key key row \<longleftrightarrow>
     tr_workspace_id row = rk_workspace key \<and> tr_principal_id row = rk_principal key \<and>
     tr_tool_identity row = rk_identity key \<and> tr_idempotency_key row = rk_idempotency_key key"

definition read_by_key :: "ReservationKey \<Rightarrow> (CallStore, RepositoryError, ToolCallRow option) eff" where
  "read_by_key key =
     eff_bind call_statement (\<lambda>_.
     eff_get (\<lambda>s. case sort_key tr_attempt (filter (row_has_key key) (cs_rows s)) of
                    [] \<Rightarrow> None | row # _ \<Rightarrow> Some row))"

definition unique_violation :: "LedgerEntry \<Rightarrow> ToolCallRow list \<Rightarrow> bool" where
  "unique_violation entry rows \<longleftrightarrow>
     list_ex (\<lambda>row. tr_id row = le_id entry \<or> row_has_key (le_key entry) row) rows"

definition store_reserve :: "LedgerEntry \<Rightarrow> (CallStore, RepositoryError, ReservationOutcome) eff" where
  "store_reserve entry =
     eff_bind (eff_lift (row_of_entry entry)) (\<lambda>row.
     eff_bind call_statement (\<lambda>_ s.
       if unique_violation entry (cs_rows s) then
         eff_bind (read_by_key (le_key entry)) (\<lambda>found.
           (case found of
              None \<Rightarrow> eff_throw (RepositoryError.Conflict ''reservation_vanished'')
            | Some existing \<Rightarrow> eff_lift (store_classify existing))) s
       else if le_run entry \<notin> set (cs_runs s) then (Err Query, s)
       else (Ok Granted, s\<lparr>cs_rows := cs_rows s @ [row]\<rparr>)))"

definition row_at :: "WorkspaceId \<Rightarrow> ToolCallRecordId \<Rightarrow> ToolCallRow \<Rightarrow> bool" where
  "row_at workspace ident row \<longleftrightarrow> tr_workspace_id row = workspace \<and> tr_id row = ident"

definition store_load :: "WorkspaceId \<Rightarrow> ToolCallRecordId \<Rightarrow> (CallStore, RepositoryError, LedgerEntry) eff" where
  "store_load workspace rec =
     eff_bind call_statement (\<lambda>_ s.
       (case find (row_at workspace rec) (cs_rows s) of
          None \<Rightarrow> (Err RepositoryError.NotFound, s)
        | Some row \<Rightarrow> (stored_entry row, s)))"

text \<open>The \<open>SET\<close> clause of the update.\<close>

definition updated_row :: "LedgerEntry \<Rightarrow> ToolCallTransition \<Rightarrow> i64 \<Rightarrow> ToolCallRow \<Rightarrow> ToolCallRow" where
  "updated_row entry transition version row =
     row\<lparr>tr_state := tool_call_state_as_contract_str (le_state entry), tr_version := version,
         tr_dispatched_at := le_dispatched_at entry,
         tr_outcome := map_option error_class_as_contract_str (le_outcome entry),
         tr_no_effect_confirmed := (if le_no_effect_confirmed entry then 1 else 0),
         tr_updated_at := tt_occurred_at transition\<rparr>"

definition store_apply_transition ::
  "WorkspaceId \<Rightarrow> ToolCallTransition \<Rightarrow> ToolCallVersion \<Rightarrow> LedgerEntry \<Rightarrow> (CallStore, RepositoryError, unit) eff"
where
  "store_apply_transition workspace transition expected entry =
     call_transaction (
     eff_bind call_statement (\<lambda>_.
     eff_bind call_statement (\<lambda>_ s.
       (case find (row_at workspace (le_id entry)) (cs_rows s) of
          None \<Rightarrow> (Err RepositoryError.NotFound, s)
        | Some row \<Rightarrow>
            eff_bind (eff_lift (parse_state (tr_state row))) (\<lambda>stored_state.
            eff_bind (eff_lift (call_stored_version row)) (\<lambda>stored_version.
              if stored_version \<noteq> expected
                then eff_throw (VersionConflict expected stored_version)
              else if \<not> tool_can_transition_to stored_state (tt_to transition)
                then eff_throw (TransitionRefused ''tool.state_conflict'')
              else
                eff_bind (eff_lift (version_to_i64 (le_version entry))) (\<lambda>version.
                eff_bind (eff_lift (version_to_i64 expected)) (\<lambda>expected_i64.
                eff_bind call_statement (\<lambda>_ s.
                  (case sql_update (\<lambda>r. row_at workspace (le_id entry) r \<and> tr_version r = expected_i64)
                          (updated_row entry transition version) (cs_rows s) of
                     (affected, rows) \<Rightarrow>
                       if affected = 0 then (Err (VersionConflict expected stored_version), s)
                       else
                         eff_bind (eff_lift (version_to_i64 (tt_prior_version transition))) (\<lambda>prior.
                         eff_bind (eff_lift (version_to_i64 (tt_version transition))) (\<lambda>version.
                         eff_bind call_statement (\<lambda>_.
                         eff_bind (eff_update (\<lambda>s. s\<lparr>cs_trail := cs_trail s @
                           [\<lparr>tl_record_id = le_id entry, tl_workspace_id = workspace,
                             tl_from_state = tool_call_state_as_contract_str (tt_from transition),
                             tl_to_state = tool_call_state_as_contract_str (tt_to transition),
                             tl_prior_version = prior, tl_version = version,
                             tl_outcome = map_option error_class_as_contract_str (tt_outcome transition),
                             tl_occurred_at = tt_occurred_at transition\<rparr>]\<rparr>)) (\<lambda>_.
                         call_statement))))
                         (s\<lparr>cs_rows := rows\<rparr>)))))))
            s))))"

section \<open>What a statement and a transaction leave behind\<close>

lemma call_statement_OkD:
  "call_statement s = (Ok u, s') \<Longrightarrow> s' = s\<lparr>cs_faults := tl (cs_faults s)\<rparr>"
  by (cases "cs_faults s") (auto simp: call_statement_def split: if_split_asm)

lemma call_statement_ErrD:
  "call_statement s = (Err e, s') \<Longrightarrow> e = Query \<and> s' = s\<lparr>cs_faults := tl (cs_faults s)\<rparr>"
  by (cases "cs_faults s") (auto simp: call_statement_def split: if_split_asm)

lemma call_statement_quiet [simp]: "cs_faults s = [] \<Longrightarrow> call_statement s = (Ok (), s)"
  by (simp add: call_statement_def)

lemma call_transaction_OkD: "call_transaction m s = (Ok x, s') \<Longrightarrow> m s = (Ok x, s')"
  by (auto simp: call_transaction_def split: prod.split_asm sum.split_asm)

lemma call_transaction_ErrD:
  "call_transaction m s = (Err e, s') \<Longrightarrow> \<exists>fs. s' = s\<lparr>cs_faults := fs\<rparr>"
  by (auto simp: call_transaction_def split: prod.split_asm sum.split_asm)

lemma parse_state_as_str [simp]: "parse_state (tool_call_state_as_contract_str st) = Ok st"
  by (simp add: parse_state_def tool_state_spelling.parse_as_str)

lemma store_apply_ErrD:
  "store_apply_transition ws t expected e s = (Err x, s') \<Longrightarrow> \<exists>fs. s' = s\<lparr>cs_faults := fs\<rparr>"
  unfolding store_apply_transition_def by (rule call_transaction_ErrD)

lemma store_apply_OkD:
  assumes "store_apply_transition ws t expected e s = (Ok u, s')"
  obtains row st v x where "find (row_at ws (le_id e)) (cs_rows s) = Some row"
    and "parse_state (tr_state row) = Ok st" and "call_stored_version row = Ok expected"
    and "tool_can_transition_to st (tt_to t)" and "i64_of_u64 (le_version e) = Some v"
    and "i64_of_u64 expected = Some x" and "cs_runs s' = cs_runs s"
    and "cs_rows s' = map (\<lambda>r. if row_at ws (le_id e) r \<and> tr_version r = x
                              then updated_row e t v r else r) (cs_rows s)"
proof -
  from assms [unfolded store_apply_transition_def, THEN call_transaction_OkD]
  show thesis
    by (auto simp: eff_bind_run sql_update_def version_to_i64_def dest!: call_statement_OkD
        split: option.split_asm if_split_asm intro!: that)
qed

section \<open>The invariant of the store\<close>

text \<open>Record identifiers and reservation keys are unique, as the primary key and the unique index
  have it, and every row reads back: its columns decode and encode the version they were given.\<close>

definition row_ok :: "ToolCallRow \<Rightarrow> bool" where
  "row_ok row \<longleftrightarrow> (\<exists>e. row_of_entry e = Ok row \<and> row_parts row = Ok e)"

definition store_ok :: "CallStore \<Rightarrow> bool" where
  "store_ok s \<longleftrightarrow>
     distinct (map tr_id (cs_rows s)) \<and>
     distinct (map (\<lambda>r. (tr_workspace_id r, tr_principal_id r, tr_tool_identity r, tr_idempotency_key r))
                (cs_rows s)) \<and>
     (\<forall>row \<in> set (cs_rows s). row_ok row)"

text \<open>An entry a row can hold: its key passes the check its constructor makes, its identifiers read
  back, and its version fits a column.\<close>

definition storable :: "LedgerEntry \<Rightarrow> bool" where
  "storable e \<longleftrightarrow>
     reservation_key_new (rk_identity (le_key e)) (rk_workspace (le_key e)) (rk_principal (le_key e))
       (rk_idempotency_key (le_key e)) = Ok (le_key e) \<and>
     list_all canonical_id [le_id e, le_call_id e, le_run e, rk_workspace (le_key e), rk_principal (le_key e)] \<and>
     le_version e \<noteq> 0 \<and> unat (le_version e) < 2 ^ 63"

lemma call_stored_version_written:
  "i64_of_u64 v = Some i \<Longrightarrow> v \<noteq> 0 \<Longrightarrow> tr_version row = i \<Longrightarrow> call_stored_version row = Ok v"
  by (auto simp: call_stored_version_def u64_of_i64_of_u64 tool_call_version_from_stored_def
      tool_call_version_first_def word_less_nat_alt unat_eq_0 simp flip: word_neq_0_conv)

lemma u32_of_uint [simp]: "u32_of_i64 (uint (w :: u32)) = Some w"
  using uint_lt2p [of w] by (simp add: u32_of_i64_def)

lemma parse_outcome_written:
  assumes "tr_outcome row = map_option error_class_as_contract_str oc"
  shows "parse_optional_outcome row = Ok oc"
proof -
  have "error_class_parse (error_class_as_contract_str c) = Ok c" for c
    using error_class_spelling.parse_as_str [of c] by (simp only: ok_Some_iff)
  with assms show ?thesis by (cases oc) (simp_all add: parse_optional_outcome_def)
qed

lemma parse_no_effect_written:
  "tr_no_effect_confirmed row = (if b then 1 else 0) \<Longrightarrow> parse_no_effect row = Ok b"
  by (simp add: parse_no_effect_def split: if_split_asm)

lemma storable_row:
  assumes "storable e"
  obtains row where "row_of_entry e = Ok row" and "row_parts row = Ok e" and "row_ok row"
proof -
  have v: "i64_of_u64 (le_version e) = Some (le_version e)" and nz: "le_version e \<noteq> 0"
    using assms by (auto simp only: storable_def i64_of_u64_small)
  from v obtain row where row: "row_of_entry e = Ok row"
    and ver: "tr_version row = le_version e"
    by (simp add: row_of_entry_def version_to_i64_def)
  have cols: "tr_outcome row = map_option error_class_as_contract_str (le_outcome e)"
    "tr_no_effect_confirmed row = (if le_no_effect_confirmed e then 1 else 0)"
    "tr_operation row = ledger_operation_as_contract_str (le_operation e)"
    using row v by (auto simp: row_of_entry_def version_to_i64_def)
  note dec = call_stored_version_written [OF v nz ver] parse_outcome_written [OF cols(1)]
    parse_no_effect_written [OF cols(2)]
  have "row_parts row = Ok e"
    unfolding row_parts_def dec cols(3) operation_spelling.parse_as_str
    using row v assms by (auto simp: row_of_entry_def version_to_i64_def storable_def)
  with row show thesis by (auto intro: that simp: row_ok_def)
qed

lemma call_stored_version_eq: "call_stored_version row = Ok v \<Longrightarrow> tr_version row = v \<and> v \<noteq> 0"
  by (auto simp: call_stored_version_def tool_call_version_from_stored_def
      tool_call_version_first_def dest: u64_of_i64_eq split: option.split_asm if_split_asm)

section \<open>One row under concurrent writers\<close>

text \<open>The state and the version the store holds for one record.\<close>

definition row_state :: "WorkspaceId \<Rightarrow> ToolCallRecordId \<Rightarrow> CallStore \<Rightarrow> ToolCallState" where
  "row_state ws ident s =
     (case find (row_at ws ident) (cs_rows s) of
        None \<Rightarrow> ToolCallState.Requested
      | Some row \<Rightarrow> (case parse_state (tr_state row) of Ok st \<Rightarrow> st | Err _ \<Rightarrow> ToolCallState.Requested))"

definition row_version :: "WorkspaceId \<Rightarrow> ToolCallRecordId \<Rightarrow> CallStore \<Rightarrow> ToolCallVersion" where
  "row_version ws ident s =
     (case find (row_at ws ident) (cs_rows s) of None \<Rightarrow> 0 | Some row \<Rightarrow> tr_version row)"

lemma row_at_updated [simp]: "row_at ws i (updated_row e t v r) = row_at ws i r"
  by (simp add: row_at_def updated_row_def)

lemma row_state_faults [simp]: "row_state ws i (s\<lparr>cs_faults := fs\<rparr>) = row_state ws i s"
  by (simp add: row_state_def)

lemma row_version_faults [simp]: "row_version ws i (s\<lparr>cs_faults := fs\<rparr>) = row_version ws i s"
  by (simp add: row_version_def)

lemma store_apply_find:
  assumes "store_apply_transition ws t expected e s = (Ok u, s')"
  obtains row where "find (row_at ws (le_id e)) (cs_rows s) = Some row"
    and "find (row_at ws (le_id e)) (cs_rows s') = Some (updated_row e t (le_version e) row)"
    and "\<And>ws' i. (ws', i) \<noteq> (ws, le_id e) \<Longrightarrow>
           find (row_at ws' i) (cs_rows s') = find (row_at ws' i) (cs_rows s)"
    and "call_stored_version row = Ok expected"
    and "\<exists>st. parse_state (tr_state row) = Ok st \<and> tool_can_transition_to st (tt_to t)"
proof (rule store_apply_OkD [OF assms])
  fix row st v x
  assume 1: "find (row_at ws (le_id e)) (cs_rows s) = Some row" "parse_state (tr_state row) = Ok st"
    "call_stored_version row = Ok expected" "tool_can_transition_to st (tt_to t)"
    "i64_of_u64 (le_version e) = Some v" "i64_of_u64 expected = Some x"
    and rows: "cs_rows s' = map (\<lambda>r. if row_at ws (le_id e) r \<and> tr_version r = x
                              then updated_row e t v r else r) (cs_rows s)"
  have v: "v = le_version e" "x = expected" "tr_version row = expected"
    using 1 by (auto dest: i64_of_u64_eq call_stored_version_eq)
  have other: "find (row_at ws' i) (cs_rows s') = find (row_at ws' i) (cs_rows s)"
    if "(ws', i) \<noteq> (ws, le_id e)" for ws' i
  proof -
    have "row_at ws' i r \<Longrightarrow> \<not> row_at ws (le_id e) r" for r using that by (auto simp: row_at_def)
    then show ?thesis
      by (subst rows, intro find_map_unchanged) auto
  qed
  have "find (row_at ws (le_id e)) (cs_rows s') = Some (updated_row e t (le_version e) row)"
    by (subst rows, subst find_map_same) (use 1 v in \<open>auto dest!: find_SomeD\<close>)
  with 1 other show thesis by (intro that) auto
qed

section \<open>The store implements the ledger\<close>

lemma ledger_apply_record:
  assumes "ledger_apply e to ver out at = (Ok t, e')"
  shows "tt_id t = le_id e" and "tt_to t = to" and "tt_prior_version t = le_version e"
    and "tt_version t = le_version e'" and "tt_occurred_at t = at"
  using assms by (auto simp: ledger_apply_def Let_def split: if_split_asm sum.split_asm)

lemma ledger_apply_keeps:
  assumes "ledger_apply e to v oc at = (Ok t, e')"
  shows "le_id e' = le_id e" and "le_key e' = le_key e" and "le_call_id e' = le_call_id e"
    and "le_state e' = to" and "tool_state_is_terminal to \<Longrightarrow> le_outcome e' = oc"
  by (subst ledger_apply_OkD(4) [OF assms], simp)+

lemma transition_state: "ledger_apply e to v oc at = (Ok t, e') \<Longrightarrow> le_state e' = tt_to t"
  by (subst ledger_apply_OkD(4), assumption) (simp add: ledger_apply_record(2))

lemma store_apply_faults:
  assumes "store_apply_transition ws t v e s = (Ok u, s')" and "cs_faults s = []"
  shows "cs_faults s' = []"
  using assms(1) [unfolded store_apply_transition_def, THEN call_transaction_OkD] assms(2)
  by (auto simp: eff_bind_run sql_update_def dest!: call_statement_OkD
      split: option.split_asm if_split_asm)

text \<open>The columns decode to the entry; what a row keeps of the key, the run and the identifiers.\<close>

lemma row_parts_OkD:
  assumes "row_parts row = Ok e"
  shows "le_id e = tr_id row" and "le_call_id e = tr_call_id row" and "le_run e = tr_run_id row"
    and "rk_workspace (le_key e) = tr_workspace_id row"
    and "row_has_key k row \<longleftrightarrow> le_key e = k"
    and "parse_state (tr_state row) = Ok (le_state e)"
    and "parse_optional_outcome row = Ok (le_outcome e)"
    and "parse_no_effect row = Ok (le_no_effect_confirmed e)"
    and "call_stored_version row = Ok (le_version e)"
    and "parse_id ''id'' (tr_id row) = Ok (le_id e)"
  using assms
  by (auto simp: row_parts_def parse_id_Ok_iff and_then_Ok_iff ok_Some_iff reservation_key_new_def row_has_key_def
      split: if_split_asm)

lemma row_parts_updated:
  assumes row: "row_parts row = Ok e" and app: "ledger_apply e to ver out at = (Ok t, e')"
    and small: "unat (le_version e') < 2 ^ 63"
  shows "row_parts (updated_row e' t (le_version e') row) = Ok e'"
proof -
  let ?new = "updated_row e' t (le_version e') row"
  note d = ledger_apply_OkD [OF app] and r = ledger_apply_record [OF app]
  have nz: "le_version e' \<noteq> 0" using d(3) by auto
  have dec: "call_stored_version ?new = Ok (le_version e')"
      "parse_optional_outcome ?new = Ok (le_outcome e')"
      "parse_no_effect ?new = Ok (le_no_effect_confirmed e')"
    by (rule call_stored_version_written [OF i64_of_u64_small [OF small] nz] parse_outcome_written
        parse_no_effect_written; simp add: updated_row_def)+
  have st: "le_state e' = to" "le_updated_at e' = at"
    by (subst d(4), simp)+
  have keep: "le_key e' = le_key e" "le_id e' = le_id e" "le_call_id e' = le_call_id e"
      "le_attempt e' = le_attempt e" "le_run e' = le_run e" "le_operation e' = le_operation e"
      "le_created_at e' = le_created_at e"
    by (subst d(4), simp)+
  show ?thesis
    unfolding row_parts_def dec
    using row
    by (auto simp: row_parts_def and_then_Ok_iff parse_id_Ok_iff updated_row_def keep st r
        intro!: LedgerEntry.equality)
qed

definition store_ledger :: "CallStore \<Rightarrow> ToolCallLedger" where
  "store_ledger s =
     \<lparr>lg_by_key = map (\<lambda>e. (le_key e, e)) (List.map_filter (\<lambda>r. ok (row_parts r)) (cs_rows s)),
      lg_by_id = map (\<lambda>r. (tr_id r, tr_call_id r)) (cs_rows s)\<rparr>"

lemma update_fresh: "k \<notin> fst ` set ps \<Longrightarrow> AList.update k v ps = ps @ [(k, v)]"
  by (induction ps) auto

lemma filter_unique:
  assumes "distinct (map f xs)" and "\<And>x. p x \<longleftrightarrow> f x = c"
  shows "filter p xs = (case find p xs of None \<Rightarrow> [] | Some x \<Rightarrow> [x])"
  using assms(1)
proof (induction xs)
  case (Cons x xs)
  then have "p x \<Longrightarrow> filter p xs = []"
    using assms(2) by (auto simp: filter_empty_conv image_iff)
  with Cons show ?case by auto
qed simp

lemma read_by_key_unique:
  assumes "store_ok s"
  shows "(case sort_key tr_attempt (filter (row_has_key k) (cs_rows s)) of [] \<Rightarrow> None | r # _ \<Rightarrow> Some r) =
    find (row_has_key k) (cs_rows s)"
proof -
  have "filter (row_has_key k) (cs_rows s) =
      (case find (row_has_key k) (cs_rows s) of None \<Rightarrow> [] | Some x \<Rightarrow> [x])"
    using assms
    by (intro filter_unique [where f = "\<lambda>r. (tr_workspace_id r, tr_principal_id r, tr_tool_identity r,
          tr_idempotency_key r)" and c = "(rk_workspace k, rk_principal k, rk_identity k,
          rk_idempotency_key k)"]) (auto simp: store_ok_def row_has_key_def)
  then show ?thesis by (auto split: option.split)
qed

lemma map_of_rows:
  assumes "\<forall>r \<in> set rows. row_ok r"
  shows "map_of (map (\<lambda>e. (le_key e, e)) (List.map_filter (\<lambda>r. ok (row_parts r)) rows)) k =
    Option.bind (find (row_has_key k) rows) (\<lambda>r. ok (row_parts r))"
  using assms
proof (induction rows)
  case (Cons r rows)
  then obtain e where e: "row_parts r = Ok e" by (auto simp: row_ok_def)
  with Cons row_parts_OkD(5) [OF e, of k] show ?case by (auto simp: map_filter_simps)
qed (simp add: map_filter_simps)

lemma ledger_get_store:
  "store_ok s \<Longrightarrow>
     ledger_get (store_ledger s) k = Option.bind (find (row_has_key k) (cs_rows s)) (\<lambda>r. ok (row_parts r))"
  by (simp add: ledger_get_def store_ledger_def store_ok_def map_of_rows)

text \<open>The verdict read off a row is the ledger's verdict on the entry it holds.\<close>

lemma store_classify_entry:
  assumes "row_parts row = Ok e"
  shows "store_classify row =
    Ok (if le_state e = ToolCallState.Reconciling then Unsettled (le_id e)
        else if tool_state_is_terminal (le_state e)
          then AlreadyTerminal (le_state e) (le_outcome e) (le_no_effect_confirmed e)
        else InFlight (le_state e))"
  by (simp add: store_classify_def row_parts_OkD [OF assms] del: tool_state_is_terminal_def)

text \<open>One reservation, whatever the database does meanwhile: it fails and changes nothing, or it
  answers and records exactly as the ledger does.\<close>

lemma store_ok_faults [simp]: "store_ok (s\<lparr>cs_faults := fs\<rparr>) = store_ok s"
  by (simp add: store_ok_def)

lemma store_ledger_faults [simp]: "store_ledger (s\<lparr>cs_faults := fs\<rparr>) = store_ledger s"
  by (simp add: store_ledger_def)

lemma insert_row_refines:
  assumes ok: "store_ok s" and row: "row_parts row = Ok e" "row_ok row"
    and fresh: "\<not> unique_violation e (cs_rows s)"
  shows "ledger_reserve (store_ledger s) e = (Granted, store_ledger (s\<lparr>cs_rows := cs_rows s @ [row]\<rparr>))"
    and "store_ok (s\<lparr>cs_rows := cs_rows s @ [row]\<rparr>)"
proof -
  have none: "find (row_has_key (le_key e)) (cs_rows s) = None"
    using fresh by (auto simp: unique_violation_def list_ex_iff find_None_iff)
  have keys: "le_key e \<notin> fst ` set (lg_by_key (store_ledger s))"
    using ledger_get_store [OF ok, of "le_key e"] none
    by (auto simp: ledger_get_def map_of_eq_None_iff)
  have ident: "le_id e \<notin> tr_id ` set (cs_rows s)"
    using fresh by (auto simp: unique_violation_def list_ex_iff)
  show "ledger_reserve (store_ledger s) e = (Granted, store_ledger (s\<lparr>cs_rows := cs_rows s @ [row]\<rparr>))"
    using ledger_get_store [OF ok, of "le_key e"] none keys ident row row_parts_OkD(1,2) [OF row(1)]
    by (simp add: ledger_reserve_def update_fresh store_ledger_def map_filter_def image_image)
  show "store_ok (s\<lparr>cs_rows := cs_rows s @ [row]\<rparr>)"
    using ok ident row row_parts_OkD(1) [OF row(1)] row_parts_OkD(5) [OF row(1), of "le_key e"] none
    by (auto simp: store_ok_def row_has_key_def find_None_iff)
qed

lemma classify_row_refines:
  assumes ok: "store_ok s" and found: "find (row_has_key (le_key e)) (cs_rows s) = Some r"
  shows "store_classify r = Ok (fst (ledger_reserve (store_ledger s) e))"
    and "snd (ledger_reserve (store_ledger s) e) = store_ledger s"
proof -
  obtain x where x: "row_parts r = Ok x"
    using ok found by (auto simp: store_ok_def row_ok_def dest: find_SomeD)
  show "store_classify r = Ok (fst (ledger_reserve (store_ledger s) e))"
    and "snd (ledger_reserve (store_ledger s) e) = store_ledger s"
    using ledger_get_store [OF ok, of "le_key e"] found x
    by (simp_all add: ledger_reserve_def store_classify_entry [OF x])
qed

text \<open>A statement that ran between two states of the store failed.\<close>

definition call_statement_failed :: "CallStore \<Rightarrow> CallStore \<Rightarrow> bool" where
  "call_statement_failed s s' \<longleftrightarrow> (\<exists>used. cs_faults s = used @ cs_faults s' \<and> True \<in> set used)"

lemma call_failed_first:
  "call_statement s = (Err x, s') \<Longrightarrow> s' = s\<lparr>cs_faults := cs_faults s'\<rparr> \<and> call_statement_failed s s'"
  by (auto simp: call_statement_def call_statement_failed_def intro!: exI [of _ "[True]"] split: list.split_asm if_split_asm)

lemma call_failed_second:
  assumes "call_statement s = (Ok u, t)" and "call_statement t = (Err x, s')"
  shows "s' = s\<lparr>cs_faults := cs_faults s'\<rparr> \<and> call_statement_failed s s'"
proof -
  have "cs_faults t = True # cs_faults s'" "t = s\<lparr>cs_faults := cs_faults t\<rparr>" "s' = t\<lparr>cs_faults := cs_faults s'\<rparr>"
    using assms by (auto simp: call_statement_def split: list.split_asm if_split_asm)
  moreover have "cs_faults s = cs_faults t \<or> cs_faults s = False # cs_faults t"
    using assms(1) by (auto simp: call_statement_def split: list.split_asm if_split_asm)
  ultimately have "cs_faults s = [True] @ cs_faults s' \<or> cs_faults s = [False, True] @ cs_faults s'" "s' = s\<lparr>cs_faults := cs_faults s'\<rparr>"
    by (cases s; cases t; cases s'; auto)+
  then show ?thesis unfolding call_statement_failed_def by (metis list.set_intros(1,2))
qed

lemma store_reserve_cases:
  assumes run: "store_reserve e s = (r, s')" and e: "storable e" and ok: "store_ok s"
  shows "(\<exists>x. r = Err x \<and> s' = s\<lparr>cs_faults := cs_faults s'\<rparr> \<and>
       (call_statement_failed s s' \<or>
        \<not> list_ex (row_has_key (le_key e)) (cs_rows s) \<and>
        (le_run e \<notin> set (cs_runs s) \<or> le_id e \<in> tr_id ` set (cs_rows s)))) \<or>
    (r = Ok (fst (ledger_reserve (store_ledger s) e)) \<and>
     store_ledger s' = snd (ledger_reserve (store_ledger s) e) \<and> store_ok s')"
proof -
  obtain row where row: "row_of_entry e = Ok row" "row_parts row = Ok e" "row_ok row"
    by (rule storable_row [OF e])
  obtain u t where first: "call_statement s = (u, t)" by fastforce
  show ?thesis
  proof (cases u)
    case (Inl x)
    with first run row have "r = Err x" "s' = t" by (auto simp: store_reserve_def eff_bind_def)
    with call_failed_first [of s x t] first Inl show ?thesis by auto
  next
    case (Inr v)
    with first have t: "t = s\<lparr>cs_faults := tl (cs_faults s)\<rparr>" by (auto dest: call_statement_OkD)
    have step: "(r, s') = (if unique_violation e (cs_rows t) then
         eff_bind (read_by_key (le_key e)) (\<lambda>found.
           (case found of
              None \<Rightarrow> eff_throw (RepositoryError.Conflict ''reservation_vanished'')
            | Some existing \<Rightarrow> eff_lift (store_classify existing))) t
       else if le_run e \<notin> set (cs_runs t) then (Err Query, t)
       else (Ok Granted, t\<lparr>cs_rows := cs_rows t @ [row]\<rparr>))"
      using run row first Inr by (simp add: store_reserve_def)
    have okt: "store_ok t" "store_ledger t = store_ledger s" using ok t by simp_all
    obtain w t2 where second: "call_statement t = (w, t2)" by fastforce
    show ?thesis
    proof (cases "unique_violation e (cs_rows t)")
      case nv: False
      then have "\<not> list_ex (row_has_key (le_key e)) (cs_rows s)" using t by (auto simp: unique_violation_def list_ex_iff)
      then show ?thesis
        using step nv t insert_row_refines [OF okt(1) row(2,3) nv] okt(2) by (cases "le_run e \<in> set (cs_runs t)") auto
    next
      case v: True
      show ?thesis
      proof (cases w)
        case (Inl y)
        with second step v have "r = Err y" "s' = t2" by (simp_all add: read_by_key_def eff_bind_def)
        with call_failed_second [of s _ t y t2] first second Inr Inl show ?thesis by auto
      next
        case (Inr z)
        with second have t2: "t2 = s\<lparr>cs_faults := tl (tl (cs_faults s))\<rparr>" using t by (auto dest: call_statement_OkD)
        with Inr second step v have r: "(r, s') = (case find (row_has_key (le_key e)) (cs_rows s) of
            None \<Rightarrow> (Err (RepositoryError.Conflict ''reservation_vanished''), t2)
          | Some existing \<Rightarrow> (store_classify existing, t2))"
          using read_by_key_unique [OF ok, of "le_key e"]
          by (auto simp: read_by_key_def eff_bind_def split: option.split)
        show ?thesis
        proof (cases "find (row_has_key (le_key e)) (cs_rows s)")
          case None
          with v t have "\<not> list_ex (row_has_key (le_key e)) (cs_rows s)" "le_id e \<in> tr_id ` set (cs_rows s)"
            by (force simp: unique_violation_def list_ex_iff find_None_iff)+
          with r None t2 show ?thesis by simp
        next
          case (Some x)
          with r t2 classify_row_refines [OF ok Some] ok show ?thesis by simp
        qed
      qed
    qed
  qed
qed

text \<open>With no fault scheduled, a transition of the entry a row holds is written.\<close>

lemma store_apply_quiet:
  assumes row: "find (row_at ws (le_id e)) (cs_rows s) = Some row" "row_parts row = Ok e"
    and app: "ledger_apply e to (le_version e) out at = (Ok t, e')"
    and small: "unat (le_version e') < 2 ^ 63" and quiet: "cs_faults s = []"
  shows "\<exists>s'. store_apply_transition ws t (le_version e) e' s = (Ok (), s')"
proof -
  note d = ledger_apply_OkD [OF app] and r = ledger_apply_record [OF app]
  have ident: "le_id e' = le_id e" by (subst d(4)) simp
  have v: "i64_of_u64 (le_version e') = Some (le_version e')" "i64_of_u64 (le_version e) = Some (le_version e)"
    using small d(3) by (auto intro!: i64_of_u64_small)
  have ver: "tr_version row = le_version e"
    using row_parts_OkD(9) [OF row(2)] by (auto dest: call_stored_version_eq)
  have hit: "filter (\<lambda>r. row_at ws (le_id e) r \<and> tr_version r = le_version e) (cs_rows s) \<noteq> []"
    using find_SomeD [OF row(1)] ver by (auto simp: filter_empty_conv)
  show ?thesis
    using row(1) row_parts_OkD [OF row(2)] d(2) quiet v hit
    by (simp add: store_apply_transition_def call_transaction_def ident r sql_update_def
        version_to_i64_def)
qed

section \<open>Properties\<close>

text \<open>C22: The durable store implements the ledger's reservation, whatever the database does meanwhile. On a
  well-formed store, for an entry a row can hold (its key passes its constructor, its identifiers read back and its
  version fits the column), a reservation either gives the answer the in-memory ledger gives and leaves the rows of
  the ledger that answer leaves, or it fails and changes nothing. It fails only if one of the statements it ran failed,
  or if no row has the key and the run is unknown or the record identifier is already taken by another key. The store
  stays well-formed, so the same holds of the next reservation.\<close>

theorem store_implements_reservation:
  assumes "store_reserve e s = (r, s')" and "store_ok s" and "storable e"
  shows "store_ok s' \<and>
    (case r of
       Err x \<Rightarrow> s' = s\<lparr>cs_faults := cs_faults s'\<rparr> \<and>
         (call_statement_failed s s' \<or>
          \<not> list_ex (row_has_key (le_key e)) (cs_rows s) \<and>
          (le_run e \<notin> set (cs_runs s) \<or> le_id e \<in> tr_id ` set (cs_rows s)))
     | Ok outcome \<Rightarrow> (outcome, store_ledger s') = ledger_reserve (store_ledger s) e)"
proof -
  from assms(2) have "store_ok (s\<lparr>cs_faults := fs\<rparr>)" for fs by simp
  then have "s' = s\<lparr>cs_faults := cs_faults s'\<rparr> \<Longrightarrow> store_ok s'" by metis
  with store_reserve_cases [OF assms(1,3,2)] show ?thesis by (auto simp: prod_eq_iff)
qed

definition sample_store :: CallStore where
  "sample_store = \<lparr>cs_faults = [], cs_runs = [le_run sample_entry], cs_rows = [], cs_trail = []\<rparr>"

lemma sample_entry_storable: "storable sample_entry"
  by (simp add: storable_def sample_entry_def ledger_entry_reserve_def sample_key_def
      reservation_key_new_def TOOL_CALL_MAX_IDEMPOTENCY_KEY_BYTES_def byte_def
      tool_call_version_first_def canonical_id_def)

theorem store_implements_reservation_witness:
  "(case store_reserve sample_entry sample_store of (r, s') \<Rightarrow>
      r = Ok (fst (ledger_reserve (store_ledger sample_store) sample_entry)) \<and>
      store_ledger s' = snd (ledger_reserve (store_ledger sample_store) sample_entry))"
proof -
  obtain r s' where run: "store_reserve sample_entry sample_store = (r, s')" by fastforce
  have ok: "store_ok sample_store" and "le_run sample_entry \<in> set (cs_runs sample_store)"
    and "cs_rows sample_store = []" and "\<not> call_statement_failed sample_store s'"
    by (simp_all add: sample_store_def store_ok_def call_statement_failed_def)
  with store_implements_reservation [OF run ok sample_entry_storable] show ?thesis
    by (auto simp: run prod_eq_iff split: sum.split_asm)
qed

text \<open>What a transition writes is what the next reader gets: if a row holds an entry and a
  transition of that entry is offered to the store, either it is written and the row now holds the
  entry \<open>apply\<close> produced, which a load returns unless it ended without an outcome, or it is not and
  every row is as it was; and with no failing statement it is written.\<close>

theorem stored_transition_reads_back:
  assumes "find (row_at ws (le_id e)) (cs_rows s) = Some row" and "row_parts row = Ok e"
    and "ledger_apply e to (le_version e) out at = (Ok t, e')" and "unat (le_version e') < 2 ^ 63"
    and "store_apply_transition ws t (tt_prior_version t) e' s = (r, s')"
  shows "(r = Ok () \<and>
      (\<exists>row'. find (row_at ws (le_id e)) (cs_rows s') = Some row' \<and> row_parts row' = Ok e' \<and>
         (stored_entry row' = Ok e' \<longleftrightarrow> ledger_restore e' = Ok e'))) \<or>
    (\<not> is_ok r \<and> cs_rows s' = cs_rows s \<and> cs_faults s \<noteq> [])"
proof (cases r)
  case (Inl x)
  with assms(5) store_apply_ErrD obtain fs where "s' = s\<lparr>cs_faults := fs\<rparr>" by blast
  moreover have "cs_faults s \<noteq> []"
    using store_apply_quiet [OF assms(1-4)] assms(5) Inl ledger_apply_record(3) [OF assms(3)] by auto
  ultimately show ?thesis using Inl by simp
next
  case (Inr u)
  have ident: "le_id e' = le_id e" by (subst ledger_apply_OkD(4) [OF assms(3)]) simp
  from assms(5) Inr have "store_apply_transition ws t (tt_prior_version t) e' s = (Ok u, s')" by simp
  then obtain row0 where row0: "find (row_at ws (le_id e')) (cs_rows s) = Some row0"
      "find (row_at ws (le_id e')) (cs_rows s') = Some (updated_row e' t (le_version e') row0)"
    by (rule store_apply_find)
  have new: "row_parts (updated_row e' t (le_version e') row) = Ok e'"
    by (rule row_parts_updated [OF assms(2,3,4)])
  show ?thesis
    using row0 assms(1) ident new Inr
    by (auto simp: stored_entry_def ledger_restore_def split: sum.split)
qed

theorem stored_transition_reads_back_witness:
  "\<exists>row t e' s'. row_of_entry sample_entry = Ok row \<and>
     ledger_apply sample_entry ToolCallState.Validated 1 None 3 = (Ok t, e') \<and>
     store_apply_transition 1 t 1 e' (sample_store\<lparr>cs_rows := [row]\<rparr>) = (Ok (), s')"
proof -
  obtain row where row: "row_of_entry sample_entry = Ok row" "row_parts row = Ok sample_entry"
    by (rule storable_row [OF sample_entry_storable])
  have v: "le_version sample_entry = 1"
    by (simp add: sample_entry_def ledger_entry_reserve_def tool_call_version_first_def)
  have "tool_can_transition_to (le_state sample_entry) ToolCallState.Validated" "le_version sample_entry \<noteq> - 1"
    by (simp_all add: sample_entry_def ledger_entry_reserve_def tool_call_version_first_def)
  then obtain t e' where app: "ledger_apply sample_entry ToolCallState.Validated (le_version sample_entry) None 3 = (Ok t, e')"
    by (rule ledger_apply_accepts)
  let ?s = "sample_store\<lparr>cs_rows := [row]\<rparr>"
  have found: "find (row_at 1 (le_id sample_entry)) (cs_rows ?s) = Some row"
    using row_parts_OkD(1,4) [OF row(2)]
    by (simp add: row_at_def sample_entry_def ledger_entry_reserve_def sample_key_def)
  obtain r s' where w: "store_apply_transition 1 t (tt_prior_version t) e' ?s = (r, s')" by fastforce
  have small: "unat (le_version e') < 2 ^ 63" using ledger_apply_OkD(3) [OF app] v by simp
  have "r = Ok ()"
    using stored_transition_reads_back [OF found row(2) app small w] by (simp add: sample_store_def)
  with w row(1) app ledger_apply_record(3) [OF app] v show ?thesis by auto
qed

end
