(* ===== verification/Approval_Store.thy ===== *)
theory Approval_Store
  imports Tool_Approval Repository
begin

text \<open>
  \<open>jarvis-infrastructure/src/storage/approval_repository.rs\<close>: the durable approvals. A row keeps the
  spellings of the state, scope, risk, channel and assurance, the text of the digest and the
  signed version; identifiers, instants and the values the JSON library writes and reads are kept
  as what they denote, and what their \<open>Deserialize\<close> checks is checked when a row is read. The
  order of two texts of instants or identifiers is an argument of the query that sorts by them.
\<close>

section \<open>Rows\<close>

record ApprovalRow =
  aw_id :: uuid
  aw_workspace_id :: uuid
  aw_requesting_principal_id :: uuid
  aw_run_id :: uuid
  aw_tool_call_id :: uuid
  aw_tool_identity :: ToolIdentity
  aw_action_fingerprint :: string
  aw_risk :: string
  aw_effects :: "Effect list"
  aw_summary :: string
  aw_preview :: "PreviewItem list"
  aw_allowed_channels :: "ApprovalChannel list"
  aw_expires_at :: instant
  aw_scope :: string
  aw_state :: string
  aw_version :: i64
  aw_decided_by :: "uuid option"
  aw_decided_via :: "string option"
  aw_decided_assurance :: "string option"
  aw_decided_at :: "instant option"
  aw_created_at :: instant
  aw_updated_at :: instant

record ApprovalTrailRow =
  al_approval_id :: uuid
  al_workspace_id :: uuid
  al_from_state :: string
  al_to_state :: string
  al_prior_version :: i64
  al_version :: i64
  al_actor_kind :: string
  al_actor :: ApprovalActor
  al_occurred_at :: instant

record ApprovalStore =
  as_faults :: "bool list"
  as_runs :: "uuid list"
  as_rows :: "ApprovalRow list"
  as_trail :: "ApprovalTrailRow list"

definition approval_statement :: "(ApprovalStore, RepositoryError, unit) eff" where
  "approval_statement s =
     (case as_faults s of
        [] \<Rightarrow> (Ok (), s)
      | f # fs \<Rightarrow> (if f then Err Query else Ok (), s\<lparr>as_faults := fs\<rparr>))"

definition approval_transaction ::
  "(ApprovalStore, RepositoryError, 'a) eff \<Rightarrow> (ApprovalStore, RepositoryError, 'a) eff"
where
  "approval_transaction m s =
     (case m s of
        (Ok x, s') \<Rightarrow> (Ok x, s')
      | (Err e, s') \<Rightarrow> (Err e, s\<lparr>as_faults := as_faults s'\<rparr>))"

primrec assurance_stored :: "RequiredAssurance \<Rightarrow> string" where
  "assurance_stored Standard = ''standard''"
| "assurance_stored Elevated = ''elevated''"

definition assurance_from_stored :: "string \<Rightarrow> RequiredAssurance option" where
  "assurance_from_stored value =
     (if value = ''standard'' then Some Standard
      else if value = ''elevated'' then Some Elevated else None)"

definition parse_scope :: "string \<Rightarrow> RepositoryError + ApprovalScopeKind" where
  "parse_scope value =
     (if value = ''one_shot'' then Ok OneShot
      else if value = ''standing'' then Ok Standing
      else Err (Corrupted ''scope''))"

definition parse_approval_state :: "string \<Rightarrow> RepositoryError + ApprovalState" where
  "parse_approval_state value = ok_or (ok (approval_state_parse value)) (Corrupted ''state'')"

definition approval_stored_version :: "ApprovalRow \<Rightarrow> RepositoryError + ApprovalVersion" where
  "approval_stored_version row =
     (case u64_of_i64 (aw_version row) of
        None \<Rightarrow> Err (Corrupted ''version'')
      | Some value \<Rightarrow> if value \<ge> 1 then Ok value else Err (Corrupted ''version''))"

definition approval_version_to_i64 :: "ApprovalVersion \<Rightarrow> string \<Rightarrow> RepositoryError + i64" where
  "approval_version_to_i64 version column = ok_or (i64_of_u64 version) (Corrupted column)"

definition stored_assurance :: "ApprovalRow \<Rightarrow> RepositoryError + RequiredAssurance option" where
  "stored_assurance row =
     (case aw_decided_assurance row of
        None \<Rightarrow> Ok None
      | Some value \<Rightarrow>
          (case assurance_from_stored value of
             Some a \<Rightarrow> Ok (Some a)
           | None \<Rightarrow> Err (Corrupted ''decided_assurance'')))"

definition stored_channel :: "ApprovalRow \<Rightarrow> RepositoryError + ApprovalChannel option" where
  "stored_channel row =
     (case aw_decided_via row of
        None \<Rightarrow> Ok None
      | Some value \<Rightarrow>
          (case approval_channel_parse value of
             Ok c \<Rightarrow> Ok (Some c)
           | Err _ \<Rightarrow> Err (Corrupted ''decided_via'')))"

definition stored_decider :: "ApprovalRow \<Rightarrow> RepositoryError + uuid option" where
  "stored_decider row =
     (case aw_decided_by row of
        None \<Rightarrow> Ok None
      | Some value \<Rightarrow> and_then (parse_id ''decided_by'' value) (\<lambda>pr. Ok (Some pr)))"

section \<open>Reading a row\<close>

record StoredDecision =
  sd_decided_by :: "uuid option"
  sd_decided_via :: "ApprovalChannel option"
  sd_decided_assurance :: "RequiredAssurance option"
  sd_decided_at :: "instant option"
  sd_updated_at :: instant

definition instant_for :: "StoredDecision \<Rightarrow> ApprovalState \<Rightarrow> RepositoryError + instant" where
  "instant_for stored target =
     (if target = ApprovalState.Approved \<or> target = ApprovalState.Rejected
      then ok_or (sd_decided_at stored) (Corrupted ''decided_at'')
      else Ok (sd_updated_at stored))"

definition reconstructed_actor ::
  "DurableApproval \<Rightarrow> StoredDecision \<Rightarrow> ApprovalState \<Rightarrow> RepositoryError + ApprovalActor"
where
  "reconstructed_actor approval stored target =
     (case target of
        ApprovalState.Pending \<Rightarrow> Err (Corrupted ''state'')
      | ApprovalState.Expired \<Rightarrow> Ok (ActorExpired (da_expires_at approval))
      | ApprovalState.Consumed \<Rightarrow> Ok (ActorConsumed (da_tool_call approval))
      | ApprovalState.Invalidated \<Rightarrow>
          Ok (ActorInvalidated (action_digest_display (da_action_digest approval)))
      | ApprovalState.Cancelled \<Rightarrow> Ok (ActorCancelled (da_requesting_principal approval) None)
      | _ \<Rightarrow>
          (case (sd_decided_by stored, sd_decided_via stored) of
             (Some pr, Some channel) \<Rightarrow>
               and_then (ok_or (sd_decided_assurance stored) (Corrupted ''decided_assurance'')) (\<lambda>assurance.
                 Ok (ActorDecided pr channel assurance None))
           | _ \<Rightarrow> Err (Corrupted ''decided_by'')))"

definition reach_path :: "ApprovalState \<Rightarrow> StoredDecision \<Rightarrow> ApprovalState list" where
  "reach_path state stored =
     (let after_grant = sd_decided_by stored \<noteq> None \<and>
            (state = ApprovalState.Expired \<or> state = ApprovalState.Cancelled)
      in if state = ApprovalState.Pending then []
         else if (state = ApprovalState.Approved \<or> state = ApprovalState.Rejected \<or>
                  state = ApprovalState.Expired \<or> state = ApprovalState.Cancelled) \<and> \<not> after_grant
           then [state]
         else [ApprovalState.Approved, state])"

fun reach_steps :: "StoredDecision \<Rightarrow> DurableApproval \<Rightarrow> ApprovalState list \<Rightarrow> RepositoryError + DurableApproval" where
  "reach_steps stored approval [] = Ok approval"
| "reach_steps stored approval (step # steps) =
     and_then (instant_for stored step) (\<lambda>occurred_at.
     and_then (reconstructed_actor approval stored step) (\<lambda>body.
       (case approval_apply approval step (da_version approval) body occurred_at of
          (Ok _, approval') \<Rightarrow> reach_steps stored approval' steps
        | (Err _, _) \<Rightarrow> Err (Corrupted ''state''))))"

definition reach :: "DurableApproval \<Rightarrow> ApprovalState \<Rightarrow> StoredDecision \<Rightarrow> RepositoryError + DurableApproval" where
  "reach approval state stored = reach_steps stored approval (reach_path state stored)"

text \<open>What \<open>Deserialize\<close> of a preview item checks.\<close>

fun decode_items :: "PreviewItem list \<Rightarrow> RepositoryError + PreviewItem list" where
  "decode_items [] = Ok []"
| "decode_items (i # is) =
     (case preview_item_new (pi_key i) (pi_value i) of
        Err _ \<Rightarrow> Err (Corrupted ''preview_json'')
      | Ok j \<Rightarrow> and_then (decode_items is) (\<lambda>js. Ok (j # js)))"

definition stored_approval :: "ApprovalRow \<Rightarrow> RepositoryError + DurableApproval" where
  "stored_approval row =
     and_then (parse_id ''id'' (aw_id row)) (\<lambda>id.
     and_then (parse_id ''workspace_id'' (aw_workspace_id row)) (\<lambda>workspace.
     and_then (parse_id ''requesting_principal_id'' (aw_requesting_principal_id row)) (\<lambda>requesting.
     and_then (parse_id ''run_id'' (aw_run_id row)) (\<lambda>run.
     and_then (parse_id ''tool_call_id'' (aw_tool_call_id row)) (\<lambda>tool_call.
     and_then (decode_items (aw_preview row)) (\<lambda>preview_items.
     and_then (ok_or (ok (allowed_channels_new (aw_allowed_channels row)))
                 (Corrupted ''allowed_channels_json'')) (\<lambda>channels.
     and_then (ok_or (ok (risk_parse (aw_risk row))) (Corrupted ''risk'')) (\<lambda>risk.
     and_then (parse_scope (aw_scope row)) (\<lambda>scope.
     and_then (parse_approval_state (aw_state row)) (\<lambda>state.
     and_then (ok_or (ok (approval_preview_new preview_items)) (Corrupted ''preview_json'')) (\<lambda>preview.
     and_then (ok_or (ok (approval_summary_new (aw_summary row))) (Corrupted ''summary'')) (\<lambda>summary.
     and_then (approval_stored_version row) (\<lambda>version.
     and_then (stored_decider row) (\<lambda>decided_by.
     and_then (stored_channel row) (\<lambda>decided_via.
     and_then (stored_assurance row) (\<lambda>decided_assurance.
     and_then (ok_or (ok (action_digest_parse (aw_action_fingerprint row)))
                 (Corrupted ''action_fingerprint'')) (\<lambda>digest.
       (let approval = approval_request id
              \<lparr>ap_workspace = workspace, ap_requesting_principal = requesting, ap_run = run,
               ap_tool_call = tool_call, ap_identity = aw_tool_identity row,
               ap_action_digest = digest, ap_risk = risk, ap_effects = aw_effects row,
               ap_summary = summary, ap_preview = preview, ap_allowed_channels = channels,
               ap_expires_at = aw_expires_at row, ap_scope = scope\<rparr>
        in and_then (reach approval state
             \<lparr>sd_decided_by = decided_by, sd_decided_via = decided_via,
              sd_decided_assurance = decided_assurance, sd_decided_at = aw_decided_at row,
              sd_updated_at = aw_updated_at row\<rparr>) (\<lambda>walked.
             if da_version walked \<noteq> version then Err (Corrupted ''version'') else Ok walked)))))))))))))))))))"

section \<open>Operations\<close>

datatype DecideOutcome = Applied | AlreadyInState

text \<open>\<open>request\<close>: the columns of the insert; \<open>created_at\<close> and \<open>updated_at\<close> start at the epoch.\<close>

definition request_row :: "DurableApproval \<Rightarrow> i64 \<Rightarrow> ApprovalRow" where
  "request_row approval version =
     \<lparr>aw_id = da_id approval, aw_workspace_id = da_workspace approval,
      aw_requesting_principal_id = da_requesting_principal approval, aw_run_id = da_run approval,
      aw_tool_call_id = da_tool_call approval, aw_tool_identity = da_identity approval,
      aw_action_fingerprint = action_digest_display (da_action_digest approval),
      aw_risk = risk_as_contract_str (da_risk approval), aw_effects = da_effects approval,
      aw_summary = summary_as_str (da_summary approval), aw_preview = preview_items (da_preview approval),
      aw_allowed_channels = channels_as_slice (da_allowed_channels approval),
      aw_expires_at = da_expires_at approval,
      aw_scope = approval_scope_as_contract_str (da_scope approval),
      aw_state = approval_state_as_contract_str (da_state approval), aw_version = version,
      aw_decided_by = None, aw_decided_via = None, aw_decided_assurance = None,
      aw_decided_at = None, aw_created_at = 0, aw_updated_at = 0\<rparr>"

definition approval_store_request :: "DurableApproval \<Rightarrow> (ApprovalStore, RepositoryError, unit) eff" where
  "approval_store_request approval =
     (if da_state approval \<noteq> ApprovalState.Pending
      then eff_throw (RepositoryError.Conflict ''approval_not_pending_on_insert'')
      else
        eff_bind (eff_lift (approval_version_to_i64 (da_version approval) ''version'')) (\<lambda>version s.
          (case approval_statement s of
             (Err _, s') \<Rightarrow> (Err (RepositoryError.Conflict ''approval_already_exists''), s')
           | (Ok _, s') \<Rightarrow>
               if da_id approval \<in> aw_id ` set (as_rows s') \<or> da_run approval \<notin> set (as_runs s')
               then (Err (RepositoryError.Conflict ''approval_already_exists''), s')
               else (Ok (), s'\<lparr>as_rows := as_rows s' @ [request_row approval version]\<rparr>))))"

definition approval_row_at :: "uuid \<Rightarrow> uuid \<Rightarrow> ApprovalRow \<Rightarrow> bool" where
  "approval_row_at workspace ident row \<longleftrightarrow> aw_workspace_id row = workspace \<and> aw_id row = ident"

definition approval_store_load :: "uuid \<Rightarrow> uuid \<Rightarrow> (ApprovalStore, RepositoryError, DurableApproval) eff" where
  "approval_store_load workspace approval =
     eff_bind approval_statement (\<lambda>_ s.
       (case find (approval_row_at workspace approval) (as_rows s) of
          None \<Rightarrow> (Err RepositoryError.NotFound, s)
        | Some row \<Rightarrow> (stored_approval row, s)))"

text \<open>The \<open>SET\<close> clause; \<open>pipe_decided_at\<close> writes the instant of this transition whenever the
  approval has been decided.\<close>

definition decided_row :: "DurableApproval \<Rightarrow> ApprovalTransitionRecord \<Rightarrow> i64 \<Rightarrow> ApprovalRow \<Rightarrow> ApprovalRow" where
  "decided_row approval transition version row =
     row\<lparr>aw_state := approval_state_as_contract_str (da_state approval), aw_version := version,
         aw_decided_by := da_decided_by approval,
         aw_decided_via := map_option approval_channel_as_contract_str (da_decided_via approval),
         aw_decided_assurance := map_option assurance_stored (da_decided_assurance approval),
         aw_decided_at := (if approval_is_decided approval then Some (at_occurred_at transition) else None),
         aw_updated_at := at_occurred_at transition,
         aw_scope := approval_scope_as_contract_str (da_scope approval),
         aw_expires_at := da_expires_at approval\<rparr>"

primrec actor_kind :: "ApprovalActor \<Rightarrow> string" where
  "actor_kind (ActorDecided _ _ _ _) = ''decided''"
| "actor_kind (ActorExpired _) = ''expired''"
| "actor_kind (ActorInvalidated _) = ''invalidated''"
| "actor_kind (ActorConsumed _) = ''consumed''"
| "actor_kind (ActorCancelled _ _) = ''cancelled''"

definition approval_store_apply ::
  "uuid \<Rightarrow> ApprovalTransitionRecord \<Rightarrow> ApprovalVersion \<Rightarrow> ApprovalActor \<Rightarrow> DurableApproval \<Rightarrow>
   (ApprovalStore, RepositoryError, DecideOutcome) eff"
where
  "approval_store_apply workspace transition expected actor approval =
     approval_transaction (
     eff_bind approval_statement (\<lambda>_.
     eff_bind approval_statement (\<lambda>_ s.
       (case find (approval_row_at workspace (da_id approval)) (as_rows s) of
          None \<Rightarrow> (Err RepositoryError.NotFound, s)
        | Some row \<Rightarrow>
            eff_bind (eff_lift (parse_approval_state (aw_state row))) (\<lambda>stored_state.
            eff_bind (eff_lift (approval_stored_version row)) (\<lambda>stored_version.
              if stored_state = at_to transition \<and> stored_version = at_version transition
                then eff_return AlreadyInState
              else if stored_version \<noteq> expected
                then eff_throw (VersionConflict expected stored_version)
              else if \<not> approval_can_transition_to stored_state (at_to transition)
                then eff_throw (TransitionRefused ''approval.state_conflict'')
              else
                eff_bind (eff_lift (approval_version_to_i64 (da_version approval) ''version'')) (\<lambda>version.
                eff_bind (eff_lift (approval_version_to_i64 expected ''version'')) (\<lambda>expected_i64.
                eff_bind approval_statement (\<lambda>_ s.
                  (case sql_update (\<lambda>r. approval_row_at workspace (da_id approval) r \<and> aw_version r = expected_i64)
                          (decided_row approval transition version) (as_rows s) of
                     (affected, rows) \<Rightarrow>
                       if affected = 0 then (Err (VersionConflict expected stored_version), s)
                       else
                         eff_bind (eff_lift (approval_version_to_i64 (at_prior_version transition) ''prior_version'')) (\<lambda>prior.
                         eff_bind (eff_lift (approval_version_to_i64 (at_version transition) ''version'')) (\<lambda>version.
                         eff_bind approval_statement (\<lambda>_.
                         eff_bind (eff_update (\<lambda>s. s\<lparr>as_trail := as_trail s @
                           [\<lparr>al_approval_id = da_id approval, al_workspace_id = workspace,
                             al_from_state = approval_state_as_contract_str (at_from transition),
                             al_to_state = approval_state_as_contract_str (at_to transition),
                             al_prior_version = prior, al_version = version,
                             al_actor_kind = actor_kind actor, al_actor = actor,
                             al_occurred_at = at_occurred_at transition\<rparr>]\<rparr>)) (\<lambda>_.
                         eff_bind approval_statement (\<lambda>_.
                         eff_return Applied)))))
                         (s\<lparr>as_rows := rows\<rparr>)))))))
            s))))"

text \<open>\<open>decided_by\<close>: newest decision first by the text of its instant, then by the text of the
  identifier, at most a page; one row that cannot be read fails the whole read.\<close>

definition MAX_PENDING_PAGE :: nat where "MAX_PENDING_PAGE = 200"

definition sql_order_decided :: "(instant \<Rightarrow> string) \<Rightarrow> (uuid \<Rightarrow> string) \<Rightarrow> ApprovalRow list \<Rightarrow> ApprovalRow list" where
  "sql_order_decided time_text id_text rows =
     rev (sort_key (\<lambda>r. case aw_decided_at r of None \<Rightarrow> [] | Some t \<Rightarrow> time_text t)
            (rev (sort_key (\<lambda>r. id_text (aw_id r)) rows)))"

fun collect_rows :: "ApprovalRow list \<Rightarrow> RepositoryError + DurableApproval list" where
  "collect_rows [] = Ok []"
| "collect_rows (r # rs) =
     and_then (stored_approval r) (\<lambda>a. and_then (collect_rows rs) (\<lambda>as. Ok (a # as)))"

definition approval_store_decided_by ::
  "(instant \<Rightarrow> string) \<Rightarrow> (uuid \<Rightarrow> string) \<Rightarrow> uuid \<Rightarrow> uuid \<Rightarrow> nat \<Rightarrow>
   (ApprovalStore, RepositoryError, DurableApproval list) eff"
where
  "approval_store_decided_by time_text id_text workspace pr limit =
     eff_bind approval_statement (\<lambda>_ s.
       (collect_rows (take (min limit MAX_PENDING_PAGE)
          (sql_order_decided time_text id_text
             (filter (\<lambda>r. aw_workspace_id r = workspace \<and> aw_decided_by r = Some pr) (as_rows s)))), s))"

section \<open>What a row reads back as\<close>

text \<open>The rows the repository writes for an approval that is moved by the actors the services use:
  a decision approves or rejects, and nothing else is made by a decision.\<close>

definition proper_actor :: "ApprovalState \<Rightarrow> ApprovalActor \<Rightarrow> bool" where
  "proper_actor to actor \<longleftrightarrow>
     (to = ApprovalState.Approved \<or> to = ApprovalState.Rejected \<longleftrightarrow> actor_channel actor \<noteq> None)"

inductive stored_as :: "ApprovalRow \<Rightarrow> DurableApproval \<Rightarrow> bool" where
  requested: "stored_as (request_row a (da_version a)) a" if "a = approval_request ident parts"
| moved: "stored_as (decided_row a' t (da_version a') row) a'"
    if "stored_as row a" and "approval_apply a to (da_version a) actor at = (Ok t, a')"
      and "proper_actor to actor"

definition texts_ok :: "DurableApproval \<Rightarrow> bool" where
  "texts_ok a \<longleftrightarrow>
     is_usable_summary (summary_as_str (da_summary a)) \<and>
     length (preview_items (da_preview a)) \<le> MAX_PREVIEW_ITEMS \<and>
     (\<forall>i \<in> set (preview_items (da_preview a)). usable (pi_key i) \<and> usable (pi_value i)) \<and>
     channels_as_slice (da_allowed_channels a) \<noteq> [] \<and>
     length (channels_as_slice (da_allowed_channels a)) \<le> MAX_APPROVAL_CHANNELS \<and>
     length (da_action_digest a) = 32 \<and>
     list_all canonical_id [da_id a, da_workspace a, da_requesting_principal a, da_run a, da_tool_call a] \<and>
     (\<forall>pr. da_decided_by a = Some pr \<longrightarrow> canonical_id pr)"

definition undecided :: "DurableApproval \<Rightarrow> bool" where
  "undecided a \<longleftrightarrow> da_decided_by a = None \<and> da_decided_via a = None \<and>
     da_decided_assurance a = None \<and> da_decided_at a = None"

definition decided_with :: "DurableApproval \<Rightarrow> bool" where
  "decided_with a \<longleftrightarrow>
     da_decided_by a \<noteq> None \<and> da_decided_assurance a \<noteq> None \<and> da_decided_at a \<noteq> None \<and>
     (\<exists>c. da_decided_via a = Some c \<and> channels_permits (da_allowed_channels a) c)"

text \<open>The version of an approval counts the steps from its request, and who decided is recorded
  exactly on the paths that pass through a decision.\<close>

definition approval_shape :: "DurableApproval \<Rightarrow> bool" where
  "approval_shape a \<longleftrightarrow>
     (case da_state a of
        ApprovalState.Pending \<Rightarrow> da_version a = 1 \<and> undecided a
      | ApprovalState.Approved \<Rightarrow> da_version a = 2 \<and> decided_with a
      | ApprovalState.Rejected \<Rightarrow> da_version a = 2 \<and> decided_with a
      | ApprovalState.Consumed \<Rightarrow> da_version a = 3 \<and> decided_with a
      | ApprovalState.Invalidated \<Rightarrow> da_version a = 3 \<and> decided_with a
      | _ \<Rightarrow> da_version a = 2 \<and> undecided a \<or> da_version a = 3 \<and> decided_with a)"

definition row_holds :: "ApprovalRow \<Rightarrow> DurableApproval \<Rightarrow> bool" where
  "row_holds row a \<longleftrightarrow>
     aw_id row = da_id a \<and> aw_workspace_id row = da_workspace a \<and>
     aw_requesting_principal_id row = da_requesting_principal a \<and> aw_run_id row = da_run a \<and>
     aw_tool_call_id row = da_tool_call a \<and> aw_tool_identity row = da_identity a \<and>
     aw_action_fingerprint row = action_digest_display (da_action_digest a) \<and>
     aw_risk row = risk_as_contract_str (da_risk a) \<and> aw_effects row = da_effects a \<and>
     aw_summary row = summary_as_str (da_summary a) \<and> aw_preview row = preview_items (da_preview a) \<and>
     aw_allowed_channels row = channels_as_slice (da_allowed_channels a) \<and>
     aw_expires_at row = da_expires_at a \<and> aw_scope row = approval_scope_as_contract_str (da_scope a) \<and>
     aw_state row = approval_state_as_contract_str (da_state a) \<and> aw_version row = da_version a \<and>
     aw_decided_by row = da_decided_by a \<and>
     aw_decided_via row = map_option approval_channel_as_contract_str (da_decided_via a) \<and>
     aw_decided_assurance row = map_option assurance_stored (da_decided_assurance a) \<and>
     aw_decided_at row = (if approval_is_decided a then Some (aw_updated_at row) else None)"

lemma checked_add_word:
  "checked_add (1 :: u64) 1 = Some 2" "checked_add (2 :: u64) 1 = Some 3"
  by (simp_all add: checked_add_def)

lemma approval_version_next_small [simp]:
  "approval_version_next 1 = Ok 2" "approval_version_next 2 = Ok 3"
  by (simp_all add: approval_version_next_def checked_add_word)

lemma proper_decided:
  assumes "approval_apply a to (da_version a) actor at = (Ok t, a')" and "proper_actor to actor"
    and "to = ApprovalState.Approved \<or> to = ApprovalState.Rejected"
  shows "decided_with a' \<and> da_state a = ApprovalState.Pending"
  using assms
  by (cases actor; cases "da_state a")
     (auto simp: proper_actor_def actor_channel_def decided_with_def approval_apply_def Let_def
       record_decision_def split: if_split_asm sum.split_asm)

lemma proper_other:
  assumes "approval_apply a to (da_version a) actor at = (Ok t, a')" and "proper_actor to actor"
    and "to \<noteq> ApprovalState.Approved" "to \<noteq> ApprovalState.Rejected"
  shows "a' = a\<lparr>da_state := to, da_version := da_version a'\<rparr>"
  using approval_apply_OkD(4) [OF assms(1)] assms(2-4)
  by (cases actor) (auto simp: proper_actor_def actor_channel_def record_decision_def)

lemma approval_apply_version:
  assumes "approval_apply a to (da_version a) actor at = (Ok t, a')"
  shows "da_version a = 1 \<Longrightarrow> da_version a' = 2" and "da_version a = 2 \<Longrightarrow> da_version a' = 3"
  using assms by (auto simp: approval_apply_def Let_def split: if_split_asm)

lemma shape_step:
  assumes shape: "approval_shape a" and app: "approval_apply a to (da_version a) actor at = (Ok t, a')"
    and proper: "proper_actor to actor"
  shows "approval_shape a'"
proof -
  note d = approval_apply_OkD [OF app] and v = approval_apply_version [OF app]
  have st: "da_state a' = to" by (subst d(4)) simp
  show ?thesis
  proof (cases "to = ApprovalState.Approved \<or> to = ApprovalState.Rejected")
    case True
    with proper_decided [OF app proper True] shape v st show ?thesis
      by (auto simp: approval_shape_def)
  next
    case False
    then have eq: "a' = a\<lparr>da_state := to, da_version := da_version a'\<rparr>"
      using proper_other [OF app proper] by auto
    have keep: "undecided a' = undecided a" "decided_with a' = decided_with a"
      by (subst eq, simp add: undecided_def) (subst eq, simp add: decided_with_def)
    show ?thesis
      using False d(2) shape v st keep
      by (cases "da_state a") (auto simp: approval_shape_def)
  qed
qed

lemma approval_apply_keeps:
  assumes "approval_apply a to ver actor at = (Ok t, a')"
  shows "da_id a' = da_id a" "da_workspace a' = da_workspace a"
    "da_requesting_principal a' = da_requesting_principal a" "da_run a' = da_run a"
    "da_tool_call a' = da_tool_call a" "da_identity a' = da_identity a"
    "da_action_digest a' = da_action_digest a" "da_risk a' = da_risk a" "da_effects a' = da_effects a"
    "da_summary a' = da_summary a" "da_preview a' = da_preview a"
    "da_allowed_channels a' = da_allowed_channels a" "da_expires_at a' = da_expires_at a"
    "da_scope a' = da_scope a"
  by (subst approval_apply_OkD(4) [OF assms],
      simp add: record_decision_def split: ApprovalActor.split)+

lemma stored_as_holds: "stored_as row a \<Longrightarrow> approval_shape a \<and> row_holds row a"
proof (induction rule: stored_as.induct)
  case (requested a ident parts)
  then show ?case
    by (simp add: approval_shape_def approval_request_def undecided_def row_holds_def request_row_def
        approval_is_decided_def approval_version_first_def)
next
  case (moved row a to actor at t a')
  have "row_holds (decided_row a' t (da_version a') row) a'"
    using moved(4) approval_apply_keeps [OF moved(2)] by (simp add: row_holds_def decided_row_def)
  with shape_step [OF _ moved(2,3)] moved(4) show ?case by blast
qed

definition as_requested :: "DurableApproval \<Rightarrow> DurableApproval" where
  "as_requested a = a\<lparr>da_state := ApprovalState.Pending, da_version := 1, da_decided_by := None,
     da_decided_via := None, da_decided_assurance := None, da_decided_at := None\<rparr>"

definition decision_of :: "DurableApproval \<Rightarrow> instant \<Rightarrow> StoredDecision" where
  "decision_of a u = \<lparr>sd_decided_by = da_decided_by a, sd_decided_via = da_decided_via a,
     sd_decided_assurance = da_decided_assurance a,
     sd_decided_at = (if approval_is_decided a then Some u else None), sd_updated_at = u\<rparr>"

lemmas reach_defs = reach_def reach_path_def Let_def as_requested_def decision_of_def
  approval_apply_def record_decision_def reconstructed_actor_def instant_for_def actor_channel_def
  approval_is_decided_def

text \<open>Walking the path again from the request ends in the approval that was stored, with the
  instant of the last write as the instant of its decision.\<close>

lemma reach_undecided:
  assumes "undecided a" and "da_state a = ApprovalState.Pending \<and> da_version a = 1 \<or>
      da_state a \<in> {ApprovalState.Expired, ApprovalState.Cancelled} \<and> da_version a = 2"
  shows "reach (as_requested a) (da_state a) (decision_of a u) = Ok a"
  using assms by (cases a) (auto simp: undecided_def reach_defs)

lemma reach_decided:
  assumes dec: "decided_with a"
    and "da_state a \<in> {ApprovalState.Approved, ApprovalState.Rejected} \<and> da_version a = 2 \<or>
      da_state a \<in> {ApprovalState.Consumed, ApprovalState.Invalidated, ApprovalState.Expired,
        ApprovalState.Cancelled} \<and> da_version a = 3"
  shows "reach (as_requested a) (da_state a) (decision_of a u) = Ok (a\<lparr>da_decided_at := Some u\<rparr>)"
proof -
  from dec obtain pr c s t where d: "da_decided_by a = Some pr" "da_decided_via a = Some c"
      "da_decided_assurance a = Some s" "da_decided_at a = Some t" "channels_permits (da_allowed_channels a) c"
    by (auto simp: decided_with_def)
  with assms(2) show ?thesis by (cases a) (auto simp: reach_defs)
qed

lemma shape_cases:
  assumes "approval_shape a"
  obtains "undecided a" and "da_state a = ApprovalState.Pending \<and> da_version a = 1 \<or>
      da_state a \<in> {ApprovalState.Expired, ApprovalState.Cancelled} \<and> da_version a = 2"
  | "decided_with a" and "da_state a \<in> {ApprovalState.Approved, ApprovalState.Rejected} \<and> da_version a = 2 \<or>
      da_state a \<in> {ApprovalState.Consumed, ApprovalState.Invalidated, ApprovalState.Expired,
        ApprovalState.Cancelled} \<and> da_version a = 3"
  using assms by (cases "da_state a") (auto simp: approval_shape_def)

lemma reach_shape:
  assumes "approval_shape a"
  shows "reach (as_requested a) (da_state a) (decision_of a u) =
    Ok (a\<lparr>da_decided_at := (if approval_is_decided a then Some u else None)\<rparr>)"
  using assms
proof (rule shape_cases)
  assume 1: "undecided a" "da_state a = ApprovalState.Pending \<and> da_version a = 1 \<or>
      da_state a \<in> {ApprovalState.Expired, ApprovalState.Cancelled} \<and> da_version a = 2"
  have "a\<lparr>da_decided_at := (if approval_is_decided a then Some u else None)\<rparr> = a"
    using 1(1) by (cases a) (simp add: undecided_def approval_is_decided_def)
  with reach_undecided [OF 1] show ?thesis by simp
next
  assume 2: "decided_with a" "da_state a \<in> {ApprovalState.Approved, ApprovalState.Rejected} \<and> da_version a = 2 \<or>
      da_state a \<in> {ApprovalState.Consumed, ApprovalState.Invalidated, ApprovalState.Expired,
        ApprovalState.Cancelled} \<and> da_version a = 3"
  then have "approval_is_decided a" by (simp add: decided_with_def approval_is_decided_def)
  with reach_decided [OF 2] show ?thesis by simp
qed

lemma decode_items_usable:
  "\<forall>i \<in> set is. usable (pi_key i) \<and> usable (pi_value i) \<Longrightarrow> decode_items is = Ok is"
  by (induction "is") (auto simp: preview_item_new_def)

lemma assurance_from_stored_stored [simp]: "assurance_from_stored (assurance_stored x) = Some x"
  by (cases x) (simp_all add: assurance_from_stored_def)

lemma action_digest_round_trip:
  "length d = 32 \<Longrightarrow> action_digest_parse (action_digest_display d) = Ok d"
  by (simp add: action_digest_parse_def action_digest_display_def FINGERPRINT_ALGORITHM_def
      FINGERPRINT_HEX_LENGTH_def parse_show_hex show_hex_lower)

lemma decoded_columns:
  assumes "row_holds row a" and "texts_ok a" and "da_version a \<noteq> 0" "unat (da_version a) < 2 ^ 63"
  shows "decode_items (aw_preview row) = Ok (preview_items (da_preview a))"
    and "allowed_channels_new (aw_allowed_channels row) = Ok (da_allowed_channels a)"
    and "ok (risk_parse (aw_risk row)) = Some (da_risk a)"
    and "parse_scope (aw_scope row) = Ok (da_scope a)"
    and "parse_approval_state (aw_state row) = Ok (da_state a)"
    and "approval_preview_new (preview_items (da_preview a)) = Ok (da_preview a)"
    and "approval_summary_new (aw_summary row) = Ok (da_summary a)"
    and "approval_stored_version row = Ok (da_version a)"
    and "stored_channel row = Ok (da_decided_via a)"
    and "stored_assurance row = Ok (da_decided_assurance a)"
    and "ok (action_digest_parse (aw_action_fingerprint row)) = Some (da_action_digest a)"
    and "parse_id ''id'' (aw_id row) = Ok (da_id a)"
    and "parse_id ''workspace_id'' (aw_workspace_id row) = Ok (da_workspace a)"
    and "parse_id ''requesting_principal_id'' (aw_requesting_principal_id row) = Ok (da_requesting_principal a)"
    and "parse_id ''run_id'' (aw_run_id row) = Ok (da_run a)"
    and "parse_id ''tool_call_id'' (aw_tool_call_id row) = Ok (da_tool_call a)"
    and "stored_decider row = Ok (da_decided_by a)"
proof -
  have ch: "approval_channel_parse (approval_channel_as_contract_str c) = Ok c" for c
    using approval_channel_spelling.parse_as_str [of c] by (simp only: ok_Some_iff)
  have "u64_of_i64 (da_version a) = Some (da_version a)"
    by (rule u64_of_i64_of_u64 [OF i64_of_u64_small]) (fact assms(4))
  then show "approval_stored_version row = Ok (da_version a)"
    using assms(1,3)
    by (simp add: approval_stored_version_def row_holds_def word_le_nat_alt unat_eq_0 Suc_le_eq
        flip: word_neq_0_conv)
  show "parse_scope (aw_scope row) = Ok (da_scope a)"
    using assms(1) by (cases "da_scope a") (simp_all add: row_holds_def parse_scope_def)
  show "stored_channel row = Ok (da_decided_via a)"
    using assms(1) by (cases "da_decided_via a") (simp_all add: row_holds_def stored_channel_def ch)
  show "stored_assurance row = Ok (da_decided_assurance a)"
    using assms(1) by (cases "da_decided_assurance a") (simp_all add: row_holds_def stored_assurance_def)
  show "stored_decider row = Ok (da_decided_by a)"
    using assms(1,2) by (cases "da_decided_by a") (simp_all add: row_holds_def stored_decider_def texts_ok_def)
  show "decode_items (aw_preview row) = Ok (preview_items (da_preview a))"
    using assms(1,2) by (simp add: row_holds_def texts_ok_def decode_items_usable)
  show "allowed_channels_new (aw_allowed_channels row) = Ok (da_allowed_channels a)"
    using assms(1,2) by (simp add: row_holds_def texts_ok_def allowed_channels_new_def)
  show "approval_preview_new (preview_items (da_preview a)) = Ok (da_preview a)"
    using assms(2) by (simp add: texts_ok_def approval_preview_new_def)
  show "approval_summary_new (aw_summary row) = Ok (da_summary a)"
    using assms(1,2) by (simp add: row_holds_def texts_ok_def approval_summary_new_def)
qed (use assms in \<open>simp_all add: row_holds_def texts_ok_def parse_approval_state_def
      action_digest_round_trip risk_spelling.parse_as_str approval_state_spelling.parse_as_str\<close>)

lemma shape_version: "approval_shape a \<Longrightarrow> da_version a \<noteq> 0 \<and> unat (da_version a) < 2 ^ 63"
  by (rule shape_cases [of a]) auto

lemma stored_approval_holds:
  assumes "row_holds row a" and "approval_shape a" and "texts_ok a"
  shows "stored_approval row =
    Ok (a\<lparr>da_decided_at := (if approval_is_decided a then Some (aw_updated_at row) else None)\<rparr>)"
proof -
  have v: "da_version a \<noteq> 0" "unat (da_version a) < 2 ^ 63"
    using shape_version [OF assms(2)] by auto
  have base: "approval_request (da_id a)
      \<lparr>ap_workspace = da_workspace a, ap_requesting_principal = da_requesting_principal a,
       ap_run = da_run a, ap_tool_call = da_tool_call a, ap_identity = aw_tool_identity row,
       ap_action_digest = da_action_digest a, ap_risk = da_risk a, ap_effects = aw_effects row,
       ap_summary = da_summary a, ap_preview = da_preview a,
       ap_allowed_channels = da_allowed_channels a, ap_expires_at = aw_expires_at row,
       ap_scope = da_scope a\<rparr> = as_requested a"
    using assms(1)
    by (cases a) (simp add: row_holds_def approval_request_def as_requested_def
        approval_version_first_def)
  have dec: "\<lparr>sd_decided_by = da_decided_by a, sd_decided_via = da_decided_via a,
      sd_decided_assurance = da_decided_assurance a, sd_decided_at = aw_decided_at row,
      sd_updated_at = aw_updated_at row\<rparr> = decision_of a (aw_updated_at row)"
    using assms(1) by (simp add: row_holds_def decision_of_def)
  show ?thesis
    unfolding stored_approval_def
    by (simp add: decoded_columns [OF assms(1,3) v] base dec reach_shape [OF assms(2)])
qed

section \<open>Writing a decision\<close>

lemma approval_statement_OkD:
  "approval_statement s = (Ok u, s') \<Longrightarrow> s' = s\<lparr>as_faults := tl (as_faults s)\<rparr>"
  by (cases "as_faults s") (auto simp: approval_statement_def split: if_split_asm)

lemma approval_statement_quiet [simp]: "as_faults s = [] \<Longrightarrow> approval_statement s = (Ok (), s)"
  by (simp add: approval_statement_def)

lemma approval_transaction_OkD: "approval_transaction m s = (Ok x, s') \<Longrightarrow> m s = (Ok x, s')"
  by (auto simp: approval_transaction_def split: prod.split_asm sum.split_asm)

lemma approval_transaction_ErrD:
  "approval_transaction m s = (Err e, s') \<Longrightarrow> \<exists>fs. s' = s\<lparr>as_faults := fs\<rparr>"
  by (auto simp: approval_transaction_def split: prod.split_asm sum.split_asm)

lemma approval_stored_version_eq:
  "approval_stored_version row = Ok v \<Longrightarrow> aw_version row = v \<and> v \<noteq> 0"
  by (auto simp: approval_stored_version_def dest: u64_of_i64_eq split: option.split_asm if_split_asm)

lemma approval_store_apply_AppliedD:
  assumes "approval_store_apply ws t expected actor a s = (Ok Applied, s')"
  obtains row st where "find (approval_row_at ws (da_id a)) (as_rows s) = Some row"
    and "parse_approval_state (aw_state row) = Ok st" and "aw_version row = expected"
    and "approval_can_transition_to st (at_to t)" and "as_runs s' = as_runs s"
    and "as_rows s' = map (\<lambda>r. if approval_row_at ws (da_id a) r \<and> aw_version r = expected
                              then decided_row a t (da_version a) r else r) (as_rows s)"
proof -
  from assms [unfolded approval_store_apply_def, THEN approval_transaction_OkD]
  show thesis
    by (auto simp: eff_bind_run sql_update_def approval_version_to_i64_def
        dest!: approval_statement_OkD i64_of_u64_eq approval_stored_version_eq
        split: option.split_asm if_split_asm intro!: that)
qed

lemma approval_store_apply_same:
  assumes "approval_store_apply ws t expected actor a s = (r, s')" and "r \<noteq> Ok Applied"
  shows "as_rows s' = as_rows s"
proof (cases r)
  case (Inl e)
  with assms(1) show ?thesis
    by (auto simp: approval_store_apply_def dest!: approval_transaction_ErrD)
next
  case (Inr x)
  then have "x = AlreadyInState" using assms(2) by (cases x) auto
  with Inr assms(1) [unfolded approval_store_apply_def] show ?thesis
    by (auto simp: eff_bind_run sql_update_def dest!: approval_transaction_OkD approval_statement_OkD
        split: option.split_asm if_split_asm)
qed

section \<open>Properties\<close>

text \<open>A stored approval reads back as it was, but for one field: for every approval that was
  requested and then moved by decisions that approve or reject and by other actors otherwise, the
  row the repository keeps decodes, its path from the request walks again and its version agrees;
  the approval read is the one stored, except that a decided approval says it was decided at the
  instant of the row's last write.\<close>

theorem stored_approval_reads_back:
  assumes "stored_as row a" and "texts_ok a"
  shows "stored_approval row =
    Ok (a\<lparr>da_decided_at := (if approval_is_decided a then Some (aw_updated_at row) else None)\<rparr>)"
  using stored_as_holds [OF assms(1)] assms(2) by (simp add: stored_approval_holds)

lemma sample_texts_ok: "texts_ok sample_approval"
  by (simp add: texts_ok_def sample_approval_def approval_request_def sample_parts_def usable_def
      is_usable_summary_def MAX_SUMMARY_BYTES_def MAX_PREVIEW_ITEMS_def MAX_APPROVAL_CHANNELS_def
      MAX_PREVIEW_TEXT_BYTES_def byte_def canonical_id_def)

lemma sample_stored: "stored_as (request_row sample_approval (da_version sample_approval)) sample_approval"
  by (rule stored_as.requested) (simp add: sample_approval_def)

theorem stored_approval_reads_back_witness:
  "stored_approval (request_row sample_approval (da_version sample_approval)) = Ok sample_approval"
proof -
  have "sample_approval\<lparr>da_decided_at := None\<rparr> = sample_approval" "\<not> approval_is_decided sample_approval"
    by (simp_all add: sample_approval_def approval_request_def approval_is_decided_def)
  with stored_approval_reads_back [OF sample_stored sample_texts_ok] show ?thesis by simp
qed

text \<open>Spending an approval rewrites when it was decided: after an approved approval is consumed,
  the approval in memory still carries the instant of its decision, while the approval read back
  from the row carries the instant of the consumption.\<close>

theorem consumption_rewrites_decision_time:
  assumes "stored_as row a" and "texts_ok a" and "da_state a = ApprovalState.Approved"
  shows "\<exists>t a' b. approval_apply a ApprovalState.Consumed (da_version a) (ActorConsumed call) at = (Ok t, a') \<and>
    da_decided_at a' = da_decided_at a \<and>
    stored_approval (decided_row a' t (da_version a') row) = Ok b \<and> da_decided_at b = Some at"
proof -
  have shape: "approval_shape a" using stored_as_holds [OF assms(1)] by simp
  with assms(3) have v: "da_version a = 2" "decided_with a" by (simp_all add: approval_shape_def)
  obtain t a' where app: "approval_apply a ApprovalState.Consumed (da_version a) (ActorConsumed call) at = (Ok t, a')"
      and t: "at_occurred_at t = at"
    using v assms(3) by (simp add: approval_apply_def actor_channel_def Let_def)
  have proper: "proper_actor ApprovalState.Consumed (ActorConsumed call)"
    by (simp add: proper_actor_def actor_channel_def)
  have st: "stored_as (decided_row a' t (da_version a') row) a'"
    by (rule stored_as.moved [OF assms(1) app proper])
  have eq: "a' = a\<lparr>da_state := ApprovalState.Consumed, da_version := da_version a'\<rparr>"
    by (rule proper_other [OF app proper]) simp_all
  have dat: "da_decided_at a' = da_decided_at a" by (subst eq) simp
  have "approval_is_decided a'" using v dat by (simp add: approval_is_decided_def decided_with_def)
  moreover have "da_decided_by a' = da_decided_by a" by (subst eq) simp
  then have "texts_ok a'" using assms(2) approval_apply_keeps [OF app] by (simp add: texts_ok_def)
  ultimately have "stored_approval (decided_row a' t (da_version a') row) = Ok (a'\<lparr>da_decided_at := Some at\<rparr>)"
    using stored_approval_holds [of "decided_row a' t (da_version a') row" a'] stored_as_holds [OF st] t
    by (simp add: decided_row_def)
  with app dat show ?thesis by auto
qed

lemma sample_approved:
  obtains t a row where "approval_apply sample_approval ApprovalState.Approved (da_version sample_approval)
      (ActorDecided 2 Cli Standard None) 10 = (Ok t, a)"
    and "stored_as row a" and "texts_ok a" and "da_state a = ApprovalState.Approved"
    and "da_decided_at a = Some 10" and "row_holds row a" and "da_version a = 2"
proof -
  obtain t a where app: "approval_apply sample_approval ApprovalState.Approved (da_version sample_approval)
      (ActorDecided 2 Cli Standard None) 10 = (Ok t, a)"
      and a: "da_state a = ApprovalState.Approved" "da_decided_at a = Some 10" "da_version a = 2"
        "da_decided_by a = Some 2"
    by (simp add: sample_approval_def approval_request_def sample_parts_def approval_version_first_def
        approval_apply_def actor_channel_def channels_permits_def record_decision_def Let_def)
  have st: "stored_as (decided_row a t (da_version a) (request_row sample_approval (da_version sample_approval))) a"
    by (rule stored_as.moved [OF sample_stored app]) (simp add: proper_actor_def actor_channel_def)
  have "texts_ok a"
    using sample_texts_ok approval_apply_keeps [OF app] a by (simp add: texts_ok_def canonical_id_def)
  with app a st stored_as_holds [OF st] show thesis by (intro that) auto
qed

theorem consumption_rewrites_decision_time_witness:
  "\<exists>a row t a' b. da_decided_at a = Some 10 \<and>
     approval_apply a ApprovalState.Consumed (da_version a) (ActorConsumed 4) 20 = (Ok t, a') \<and>
     stored_approval (decided_row a' t (da_version a') row) = Ok b \<and> da_decided_at b = Some 20"
proof (rule sample_approved)
  fix t a row
  assume a: "stored_as row a" "texts_ok a" "da_state a = ApprovalState.Approved" "da_decided_at a = Some 10"
  show ?thesis
    using consumption_rewrites_decision_time [OF a(1-3), of 4 20] a(4) by blast
qed

end
