(* ===== verification/Tool_Call_Service.thy ===== *)
theory Tool_Call_Service
  imports Tool_Store Approval_Store Tool_Policy Tool_Call_Body Run_Budget
begin

text \<open>
  \<open>jarvis-application/src/tool_call.rs\<close>: the pipeline every tool call goes through. The catalogue,
  the grants, the validator, the fingerprint, the executor and the clock are ports: arguments of
  the operations, collected in a record. The two stores are the models of the SQLite
  repositories. The state of the service is the stores, how often the clock was read and how many
  identifiers were drawn, and the executions the executor was asked for, in order, each with the
  record it was for.
\<close>

section \<open>Vocabulary\<close>

definition APPROVAL_WINDOW_MS :: u64 where "APPROVAL_WINDOW_MS = 15 * 60 * 1000"
definition MAX_APPROVAL_READ :: nat where "MAX_APPROVAL_READ = 200"

record ResolvedTool =
  rv_definition :: ToolDefinition
  rv_input_schema :: "string option"

record GrantRead =
  gd_grants :: "Grant list"
  gd_deny_rules :: "DenyRule list"

definition grant_read_empty :: GrantRead where
  "grant_read_empty = \<lparr>gd_grants = [], gd_deny_rules = []\<rparr>"

datatype ToolArgumentRefusal = Violated | NoSchema | FingerprintMismatch

primrec argument_refusal_error_class :: "ToolArgumentRefusal \<Rightarrow> ToolErrorClass" where
  "argument_refusal_error_class Violated = ToolErrorClass.SchemaInvalid"
| "argument_refusal_error_class NoSchema = ToolErrorClass.SchemaInvalid"
| "argument_refusal_error_class FingerprintMismatch = ToolErrorClass.Unavailable"

primrec argument_refusal_code :: "ToolArgumentRefusal \<Rightarrow> string" where
  "argument_refusal_code Violated = ''tool.argument_violation''"
| "argument_refusal_code NoSchema = ''tool.schema_absent''"
| "argument_refusal_code FingerprintMismatch = ''tool.schema_fingerprint_mismatch''"

datatype ToolExecutionError = Failed ToolErrorClass | Ambiguous | Cancelled

primrec execution_error_class :: "ToolExecutionError \<Rightarrow> ToolErrorClass" where
  "execution_error_class (ToolExecutionError.Failed class) = class"
| "execution_error_class ToolExecutionError.Ambiguous = ToolErrorClass.OutcomeAmbiguous"
| "execution_error_class ToolExecutionError.Cancelled = ToolErrorClass.Cancelled"

primrec terminal_state :: "ToolExecutionError \<Rightarrow> ToolCallState" where
  "terminal_state (ToolExecutionError.Failed _) = ToolCallState.Failed"
| "terminal_state ToolExecutionError.Ambiguous = ToolCallState.Failed"
| "terminal_state ToolExecutionError.Cancelled = ToolCallState.Cancelled"

record ToolCaller =
  tk_workspace :: WorkspaceId
  tk_principal :: PrincipalId
  tk_run :: RunId

record ToolExecutionRequest =
  xq_identity :: ToolIdentity
  xq_display_name :: string
  xq_arguments :: ToolArguments
  xq_started_at :: instant
  xq_timeout_ms :: u64
  xq_caller :: "ToolCaller option"

datatype ToolCallOutcome =
    Completed ToolResultBody
  | Refused ToolErrorClass ToolCallState
  | WaitingApproval uuid
  | Duplicate ToolCallState "ToolErrorClass option"

definition outcome_is_completed :: "ToolCallOutcome \<Rightarrow> bool" where
  "outcome_is_completed out = (case out of Completed _ \<Rightarrow> True | _ \<Rightarrow> False)"

definition refusal_class :: "ToolCallOutcome \<Rightarrow> ToolErrorClass option" where
  "refusal_class out =
     (case out of
        Completed _ \<Rightarrow> None
      | ToolCallOutcome.WaitingApproval _ \<Rightarrow> None
      | Refused class _ \<Rightarrow> Some class
      | Duplicate state class \<Rightarrow>
          Some (case class of
                  Some c \<Rightarrow> c
                | None \<Rightarrow> if state = ToolCallState.Succeeded then ToolErrorClass.Conflict
                          else ToolErrorClass.Conflict))"

datatype ToolServiceError = Storage RepositoryError | ClockUnavailable | Internal string

primrec service_error_code :: "ToolServiceError \<Rightarrow> string" where
  "service_error_code (Storage error) = repository_error_code error"
| "service_error_code ClockUnavailable = ''run.clock_unavailable''"
| "service_error_code (Internal code) = code"

primrec service_error_retryable :: "ToolServiceError \<Rightarrow> bool" where
  "service_error_retryable (Storage error) = repository_error_retryable error"
| "service_error_retryable ClockUnavailable = False"
| "service_error_retryable (Internal _) = False"

datatype Decision = Permitted | Denied | Waiting uuid

text \<open>\<open>ToolCallId::parse\<close> refuses the nil and the maximal identifier.\<close>

definition canonical_call_id :: "uuid \<Rightarrow> ToolCallId" where
  "canonical_call_id source = (if canonical_id source then source else 0)"

record ToolPorts =
  tp_resolve :: "WorkspaceId \<Rightarrow> string \<Rightarrow> ResolvedTool option"
  tp_argument_preview :: "ToolDefinition \<Rightarrow> ToolArguments \<Rightarrow> (string \<times> string) list"
  tp_read_grants :: "PrincipalId \<Rightarrow> WorkspaceId \<Rightarrow> RepositoryError + GrantRead"
  tp_validate :: "ResolvedTool \<Rightarrow> ToolArguments \<Rightarrow> ToolArgumentRefusal + unit"
  tp_fingerprint :: "FingerprintFields \<Rightarrow> ActionDigest"
  tp_execute :: "nat \<Rightarrow> ToolExecutionRequest \<Rightarrow> ToolExecutionError + ToolResultBody"
  tp_now :: "nat \<Rightarrow> instant option"
  tp_fresh_id :: "nat \<Rightarrow> uuid"
  tp_show_id :: "uuid \<Rightarrow> string"
  tp_time_text :: "instant \<Rightarrow> string"
  tp_add_millis :: "instant \<Rightarrow> int \<Rightarrow> instant option"
  tp_autonomy :: AutonomyLevel

record ToolWorld =
  tw_calls :: CallStore
  tw_approvals :: ApprovalStore
  tw_clock_reads :: nat
  tw_ids_drawn :: nat
  tw_executions :: "(ToolCallRecordId \<times> ToolExecutionRequest) list"

type_synonym 'a service = "(ToolWorld, ToolServiceError, 'a) eff"

section \<open>Reaching the ports\<close>

definition on_calls :: "(CallStore, RepositoryError, 'a) eff \<Rightarrow> 'a service" where
  "on_calls m w =
     (case m (tw_calls w) of
        (Ok x, s) \<Rightarrow> (Ok x, w\<lparr>tw_calls := s\<rparr>)
      | (Err e, s) \<Rightarrow> (Err (Storage e), w\<lparr>tw_calls := s\<rparr>))"

definition try_approvals :: "(ApprovalStore, RepositoryError, 'a) eff \<Rightarrow> (RepositoryError + 'a) service" where
  "try_approvals m w = (case m (tw_approvals w) of (r, s) \<Rightarrow> (Ok r, w\<lparr>tw_approvals := s\<rparr>))"

definition on_approvals :: "(ApprovalStore, RepositoryError, 'a) eff \<Rightarrow> 'a service" where
  "on_approvals m =
     eff_bind (try_approvals m) (\<lambda>r. case r of Ok x \<Rightarrow> eff_return x | Err e \<Rightarrow> eff_throw (Storage e))"

definition service_now :: "ToolPorts \<Rightarrow> instant service" where
  "service_now p w =
     (case tp_now p (tw_clock_reads w) of
        Some t \<Rightarrow> (Ok t, w\<lparr>tw_clock_reads := Suc (tw_clock_reads w)\<rparr>)
      | None \<Rightarrow> (Err ClockUnavailable, w\<lparr>tw_clock_reads := Suc (tw_clock_reads w)\<rparr>))"

definition draw_id :: "ToolPorts \<Rightarrow> uuid service" where
  "draw_id p w = (Ok (tp_fresh_id p (tw_ids_drawn w)), w\<lparr>tw_ids_drawn := Suc (tw_ids_drawn w)\<rparr>)"

definition execute :: "ToolPorts \<Rightarrow> ToolCallRecordId \<Rightarrow> ToolExecutionRequest \<Rightarrow> (ToolExecutionError + ToolResultBody) service" where
  "execute p rec request w =
     (Ok (tp_execute p (length (tw_executions w)) request),
      w\<lparr>tw_executions := tw_executions w @ [(rec, request)]\<rparr>)"

section \<open>The steps\<close>

definition service_transition ::
  "LedgerEntry \<Rightarrow> ToolCallState \<Rightarrow> ToolErrorClass option \<Rightarrow> instant \<Rightarrow> LedgerEntry service"
where
  "service_transition entry to outcome at =
     (case ledger_apply entry to (le_version entry) outcome at of
        (Err error, _) \<Rightarrow> eff_throw (Internal (domain_error_code error))
      | (Ok transition, entry') \<Rightarrow>
          eff_bind (on_calls (store_apply_transition (rk_workspace (le_key entry')) transition
                      (tt_prior_version transition) entry')) (\<lambda>_.
          eff_return entry'))"

definition deny_waiting :: "LedgerEntry \<Rightarrow> ToolErrorClass \<Rightarrow> instant \<Rightarrow> ToolCallOutcome service" where
  "deny_waiting entry class at =
     eff_bind (service_transition entry ToolCallState.Denied (Some class) at) (\<lambda>_.
     eff_return (Refused class ToolCallState.Denied))"

definition fingerprint_of ::
  "ToolPorts \<Rightarrow> ToolDefinition \<Rightarrow> WorkspaceId \<Rightarrow> PrincipalId \<Rightarrow> ToolArguments \<Rightarrow> ToolServiceError + ActionDigest"
where
  "fingerprint_of p d workspace pr arguments =
     (case fingerprint_input_new (tp_show_id p)
             \<lparr>fp_version = FINGERPRINT_FORMAT_VERSION, fp_identity = td_identity d,
              fp_workspace = workspace, fp_principal = pr, fp_effects = td_effects d,
              fp_risk = td_risk d, fp_arguments = arguments\<rparr> of
        Err error \<Rightarrow> Err (Internal (fingerprint_error_code error))
      | Ok input \<Rightarrow> Ok (tp_fingerprint p input))"

definition approved_for ::
  "ToolPorts \<Rightarrow> WorkspaceId \<Rightarrow> PrincipalId \<Rightarrow> ToolIdentity \<Rightarrow> DurableApproval list service"
where
  "approved_for p workspace pr identity =
     eff_bind (on_approvals (approval_store_decided_by (tp_time_text p) (tp_show_id p) workspace pr
                 MAX_APPROVAL_READ)) (\<lambda>decided.
     eff_return (filter (\<lambda>a. da_identity a = identity \<and> da_state a = ApprovalState.Approved) decided))"

definition record_of :: "DurableApproval \<Rightarrow> ApprovalRecord" where
  "record_of a =
     \<lparr>ar_identity = da_identity a, ar_principal = da_requesting_principal a,
      ar_workspace = da_workspace a, ar_action_digest = da_action_digest a,
      ar_expires_at = da_expires_at a, ar_standing = (\<not> is_consumed_on_use (da_scope a)),
      ar_consumed = False\<rparr>"

definition request_of :: "ToolDefinition \<Rightarrow> WorkspaceId \<Rightarrow> PrincipalId \<Rightarrow> ActionDigest \<Rightarrow> PolicyRequest" where
  "request_of d workspace pr digest =
     \<lparr>pq_identity = td_identity d, pq_principal = pr, pq_workspace = workspace,
      pq_effects = td_effects d, pq_risk = td_risk d, pq_required_scopes = td_required_scopes d,
      pq_default_approval = td_default_approval d, pq_sensitivity = dc_input (td_data_classes d),
      pq_action_digest = digest, pq_tool_enabled = True, pq_deadline = None\<rparr>"

definition try_item :: "string \<Rightarrow> string \<Rightarrow> PreviewItem list" where
  "try_item key value = (case preview_item_new key value of Ok i \<Rightarrow> [i] | Err _ \<Rightarrow> [])"

definition tool_preview_items :: "ToolDefinition \<Rightarrow> ToolArguments \<Rightarrow> PreviewItem list" where
  "tool_preview_items d arguments =
     try_item ''tool'' (tool_capability_display (ti_capability (td_identity d))) @
     try_item ''risk'' (risk_as_contract_str (td_risk d)) @
     concat (map (\<lambda>e. try_item ''effect'' (effect_as_contract_str e)) (td_effects d)) @
     try_item ''argument_bytes'' (show_nat (length (arguments_as_str arguments)))"

text \<open>The loop over the catalogue's preview: it stops at the bound and skips what is unusable.\<close>

fun add_previews :: "PreviewItem list \<Rightarrow> (string \<times> string) list \<Rightarrow> PreviewItem list" where
  "add_previews items [] = items"
| "add_previews items ((key, value) # rest) =
     (if length items \<ge> MAX_PREVIEW_ITEMS then items
      else add_previews (items @ try_item key value) rest)"

definition raise_approval ::
  "ToolPorts \<Rightarrow> ToolDefinition \<Rightarrow> ToolArguments \<Rightarrow> ToolCallId \<Rightarrow> RunId \<Rightarrow> WorkspaceId \<Rightarrow> PrincipalId \<Rightarrow>
   ActionDigest \<Rightarrow> instant \<Rightarrow> uuid service"
where
  "raise_approval p d arguments call_id run workspace pr digest now =
     (case approval_summary_new (td_display_name d @ '': '' @ td_purpose d) of
        Err _ \<Rightarrow> eff_throw (Internal ''tool.approval_summary_unusable'')
      | Ok summary \<Rightarrow>
        (case approval_preview_new (add_previews (tool_preview_items d arguments)
                (tp_argument_preview p d arguments)) of
           Err _ \<Rightarrow> eff_throw (Internal ''tool.approval_preview_unusable'')
         | Ok preview \<Rightarrow>
           (case allowed_channels_new [Cli, Api] of
              Err _ \<Rightarrow> eff_throw (Internal ''tool.approval_channels_unusable'')
            | Ok channels \<Rightarrow>
              (case budget_expiring_after (tp_add_millis p) now APPROVAL_WINDOW_MS of
                 Err _ \<Rightarrow> eff_throw (Internal ''tool.approval_window_unrepresentable'')
               | Ok budget \<Rightarrow>
                 (case rb_deadline budget of
                    None \<Rightarrow> eff_throw (Internal ''tool.approval_window_unrepresentable'')
                  | Some expires_at \<Rightarrow>
                    eff_bind (draw_id p) (\<lambda>id.
                    let approval = approval_request id
                      \<lparr>ap_workspace = workspace, ap_requesting_principal = pr, ap_run = run,
                       ap_tool_call = call_id, ap_identity = td_identity d, ap_action_digest = digest,
                       ap_risk = td_risk d, ap_effects = td_effects d, ap_summary = summary,
                       ap_preview = preview, ap_allowed_channels = channels,
                       ap_expires_at = expires_at, ap_scope = OneShot\<rparr>
                    in eff_bind (on_approvals (approval_store_request approval)) (\<lambda>_.
                       eff_return (da_id approval))))))))"

text \<open>The approval the call relies on: a standing one if there is one, else one for this action.\<close>

definition matched_approval ::
  "DurableApproval list \<Rightarrow> WorkspaceId \<Rightarrow> PrincipalId \<Rightarrow> ActionDigest \<Rightarrow> instant \<Rightarrow> DurableApproval option"
where
  "matched_approval approved workspace pr digest now =
     (let covers = (\<lambda>a. da_workspace a = workspace \<and> da_requesting_principal a = pr \<and> now < da_expires_at a)
      in case find (\<lambda>a. \<not> is_consumed_on_use (da_scope a)) (filter covers approved) of
           Some a \<Rightarrow> Some a
         | None \<Rightarrow> find (\<lambda>a. da_action_digest a = digest) (filter covers approved))"

definition spend_approval ::
  "LedgerEntry \<Rightarrow> DurableApproval list \<Rightarrow> WorkspaceId \<Rightarrow> PrincipalId \<Rightarrow> ActionDigest \<Rightarrow> instant \<Rightarrow>
   (Decision \<times> LedgerEntry) service"
where
  "spend_approval entry approved workspace pr digest now =
     (case matched_approval approved workspace pr digest now of
        None \<Rightarrow> eff_return (Permitted, entry)
      | Some matched \<Rightarrow>
          if \<not> is_consumed_on_use (da_scope matched) then eff_return (Permitted, entry)
          else
            (let expected = da_version matched in
             case approval_apply matched ApprovalState.Consumed expected
                    (ActorConsumed (le_call_id entry)) now of
               (Err error, _) \<Rightarrow> eff_throw (Internal (domain_error_code error))
             | (Ok transition, spent) \<Rightarrow>
                 eff_bind (try_approvals (approval_store_apply workspace transition expected
                             (at_actor transition) spent)) (\<lambda>r.
                   (case r of
                      Ok _ \<Rightarrow> eff_return (Permitted, entry)
                    | Err (VersionConflict _ _) \<Rightarrow>
                        eff_bind (service_transition entry ToolCallState.Denied
                                    (Some ToolErrorClass.ApprovalRejected) now) (\<lambda>entry'.
                        eff_return (Denied, entry'))
                    | Err error \<Rightarrow> eff_throw (Storage error)))))"

definition decide ::
  "ToolPorts \<Rightarrow> LedgerEntry \<Rightarrow> ToolDefinition \<Rightarrow> WorkspaceId \<Rightarrow> PrincipalId \<Rightarrow> RunId \<Rightarrow> ToolArguments \<Rightarrow>
   instant \<Rightarrow> (Decision \<times> LedgerEntry) service"
where
  "decide p entry d workspace pr run arguments now =
     eff_bind (eff_lift (fingerprint_of p d workspace pr arguments)) (\<lambda>digest.
     eff_bind (eff_lift (case tp_read_grants p pr workspace of
                           Ok read \<Rightarrow> Ok read | Err e \<Rightarrow> Err (Storage e))) (\<lambda>grants.
     eff_bind (approved_for p workspace pr (td_identity d)) (\<lambda>approved.
       (let decision = evaluate_at (request_of d workspace pr digest)
              \<lparr>pn_now = now, pn_grants = gd_grants grants, pn_approvals = map record_of approved,
               pn_deny_rules = gd_deny_rules grants\<rparr> (tp_autonomy p)
        in case pd_outcome decision of
             PolicyOutcome.Deny \<Rightarrow>
               (let class = (case decision_error_class decision of
                               Some c \<Rightarrow> c | None \<Rightarrow> ToolErrorClass.PermissionDenied)
                in eff_bind (service_transition entry ToolCallState.Denied (Some class) now) (\<lambda>entry'.
                   eff_return (Denied, entry')))
           | PolicyOutcome.Ask \<Rightarrow>
               eff_bind (raise_approval p d arguments (le_call_id entry) run workspace pr digest now) (\<lambda>approval.
                 if le_state entry \<noteq> ToolCallState.WaitingApproval
                 then eff_bind (service_transition entry ToolCallState.WaitingApproval None now) (\<lambda>entry'.
                      eff_return (Waiting approval, entry'))
                 else eff_return (Waiting approval, entry))
           | PolicyOutcome.Allow \<Rightarrow>
               (if PolicyReason.ApprovalMatched \<in> set (pd_reasons decision)
                then spend_approval entry approved workspace pr digest now
                else eff_return (Permitted, entry))))))"

definition apply_permitted ::
  "ToolPorts \<Rightarrow> LedgerEntry \<Rightarrow> ToolDefinition \<Rightarrow> ToolArguments \<Rightarrow> ToolCaller \<Rightarrow> ToolCallOutcome service"
where
  "apply_permitted p entry d arguments caller =
     eff_bind (service_now p) (\<lambda>decided_at.
     eff_bind (service_transition entry ToolCallState.Approved None decided_at) (\<lambda>entry.
     eff_bind (service_transition entry ToolCallState.Reserved None decided_at) (\<lambda>entry.
     eff_bind (service_transition entry ToolCallState.Executing None decided_at) (\<lambda>entry.
     eff_bind (service_now p) (\<lambda>started_at.
     eff_bind (execute p (le_id entry)
       \<lparr>xq_identity = td_identity d, xq_display_name = td_display_name d, xq_arguments = arguments,
        xq_started_at = started_at, xq_timeout_ms = xd_timeout_ms (td_execution d),
        xq_caller = Some caller\<rparr>) (\<lambda>execution.
     eff_bind (service_now p) (\<lambda>occurred_at.
       (case execution of
          Ok result \<Rightarrow>
            eff_bind (service_transition entry ToolCallState.Succeeded None occurred_at) (\<lambda>_.
            eff_return (Completed result))
        | Err error \<Rightarrow>
            eff_bind (service_transition entry (terminal_state error)
                        (Some (execution_error_class error)) occurred_at) (\<lambda>_.
            eff_return (Refused (execution_error_class error) (terminal_state error)))))))))))"

definition settled_by_reservation :: "LedgerEntry \<Rightarrow> ToolCallOutcome option service" where
  "settled_by_reservation entry =
     eff_bind (on_calls (store_reserve entry)) (\<lambda>r.
     eff_return (case r of
        Granted \<Rightarrow> None
      | AlreadyTerminal state outcome _ \<Rightarrow> Some (Duplicate state outcome)
      | InFlight _ \<Rightarrow> Some (Refused ToolErrorClass.Conflict ToolCallState.Reserved)
      | Unsettled _ \<Rightarrow> Some (Refused ToolErrorClass.OutcomeAmbiguous ToolCallState.Reconciling)))"

text \<open>The tail both entry points share: what follows the policy's decision.\<close>

definition after_decision ::
  "ToolPorts \<Rightarrow> ToolDefinition \<Rightarrow> ToolArguments \<Rightarrow> ToolCaller \<Rightarrow> Decision \<times> LedgerEntry \<Rightarrow> ToolCallOutcome service"
where
  "after_decision p d arguments caller r =
     (case r of
        (Permitted, entry) \<Rightarrow> apply_permitted p entry d arguments caller
      | (Denied, entry) \<Rightarrow>
          eff_return (Refused (case le_outcome entry of Some c \<Rightarrow> c | None \<Rightarrow> ToolErrorClass.PermissionDenied)
                        (le_state entry))
      | (Waiting approval, _) \<Rightarrow> eff_return (ToolCallOutcome.WaitingApproval approval))"

section \<open>The operations\<close>

definition invoke ::
  "ToolPorts \<Rightarrow> WorkspaceId \<Rightarrow> PrincipalId \<Rightarrow> RunId \<Rightarrow> ToolCallIntent \<Rightarrow> string \<Rightarrow> ToolCallOutcome service"
where
  "invoke p workspace pr run intent idempotency_key =
     eff_bind (service_now p) (\<lambda>now.
       (case tp_resolve p workspace (tci_capability intent) of
          None \<Rightarrow> eff_return (Refused ToolErrorClass.NotFound ToolCallState.Requested)
        | Some tool \<Rightarrow>
          (let d = rv_definition tool in
           case reservation_key_new (td_identity d) workspace pr idempotency_key of
             Err _ \<Rightarrow> eff_return (Refused ToolErrorClass.Conflict ToolCallState.Requested)
           | Ok key \<Rightarrow>
             (let call_id = canonical_call_id (tci_call_id intent);
                  entry = (ledger_entry_reserve call_id call_id 1 run key LedgerOperation.Execute now)
                            \<lparr>le_id := call_id\<rparr>
              in eff_bind (settled_by_reservation entry) (\<lambda>settled.
                   (case settled of
                      Some outcome \<Rightarrow> eff_return outcome
                    | None \<Rightarrow>
                      (case tp_validate p tool (tci_arguments intent) of
                         Err why \<Rightarrow>
                           eff_bind (service_transition entry ToolCallState.Denied
                                       (Some (argument_refusal_error_class why)) now) (\<lambda>_.
                           eff_return (Refused (argument_refusal_error_class why) ToolCallState.Denied))
                       | Ok _ \<Rightarrow>
                           eff_bind (service_transition entry ToolCallState.Validated None now) (\<lambda>entry.
                           eff_bind (decide p entry d workspace pr run (tci_arguments intent) now) (\<lambda>r.
                           after_decision p d (tci_arguments intent)
                             \<lparr>tk_workspace = workspace, tk_principal = pr, tk_run = run\<rparr> r)))))))))"

definition resume ::
  "ToolPorts \<Rightarrow> WorkspaceId \<Rightarrow> PrincipalId \<Rightarrow> RunId \<Rightarrow> DurableApproval \<Rightarrow> ToolCallIntent \<Rightarrow> ToolCallOutcome service"
where
  "resume p workspace pr run approval intent =
     eff_bind (service_now p) (\<lambda>now.
     eff_bind (on_calls (store_load workspace (da_tool_call approval))) (\<lambda>entry.
       if le_run entry \<noteq> run \<or> da_run approval \<noteq> run \<or> da_workspace approval \<noteq> workspace \<or>
          rk_principal (le_key entry) \<noteq> pr
         then eff_throw (Internal ''tool.resume_mismatch'')
       else if le_state entry \<noteq> ToolCallState.WaitingApproval
         then eff_return (if tool_state_is_terminal (le_state entry)
                          then Duplicate (le_state entry) (le_outcome entry)
                          else Refused ToolErrorClass.Conflict (le_state entry))
       else if da_state approval = ApprovalState.Pending
         then eff_throw (Internal ''tool.resume_undecided'')
       else if da_state approval = ApprovalState.Expired
         then deny_waiting entry ToolErrorClass.ApprovalExpired now
       else if da_state approval \<noteq> ApprovalState.Approved
         then deny_waiting entry ToolErrorClass.ApprovalRejected now
       else
         (case tp_resolve p workspace (tci_capability intent) of
            None \<Rightarrow> deny_waiting entry ToolErrorClass.NotFound now
          | Some tool \<Rightarrow>
            if td_identity (rv_definition tool) \<noteq> rk_identity (le_key entry)
              then deny_waiting entry ToolErrorClass.Conflict now
            else
              (case tp_validate p tool (tci_arguments intent) of
                 Err why \<Rightarrow> deny_waiting entry (argument_refusal_error_class why) now
               | Ok _ \<Rightarrow>
                   eff_bind (decide p entry (rv_definition tool) workspace pr run (tci_arguments intent) now) (\<lambda>r.
                   after_decision p (rv_definition tool) (tci_arguments intent)
                     \<lparr>tk_workspace = workspace, tk_principal = pr, tk_run = run\<rparr> r)))))"

definition abandon_waiting :: "ToolPorts \<Rightarrow> WorkspaceId \<Rightarrow> uuid \<Rightarrow> unit service" where
  "abandon_waiting p workspace approval =
     eff_bind (service_now p) (\<lambda>now.
     eff_bind (on_approvals (approval_store_load workspace approval)) (\<lambda>stored.
     eff_bind
       (if da_state stored = ApprovalState.Pending then
          (case approval_apply stored ApprovalState.Cancelled (da_version stored)
                  (ActorCancelled (da_requesting_principal stored)
                     (ok (decision_note_new ''the run was cancelled''))) now of
             (Err error, _) \<Rightarrow> eff_throw (Internal (domain_error_code error))
           | (Ok transition, moved) \<Rightarrow>
               eff_bind (try_approvals (approval_store_apply workspace transition (da_version stored)
                           (at_actor transition) moved)) (\<lambda>r.
                 (case r of
                    Ok _ \<Rightarrow> eff_return moved
                  | Err (VersionConflict _ _) \<Rightarrow> eff_return moved
                  | Err error \<Rightarrow> eff_throw (Storage error))))
        else eff_return stored) (\<lambda>stored.
     eff_bind (on_calls (store_load workspace (da_tool_call stored))) (\<lambda>entry.
       if le_state entry = ToolCallState.WaitingApproval
       then eff_bind (service_transition entry ToolCallState.Cancelled (Some ToolErrorClass.Cancelled) now) (\<lambda>_.
            eff_return ())
       else eff_return ()))))"

section \<open>What an operation leaves alone\<close>

definition same_calls :: "ToolWorld \<Rightarrow> ToolWorld \<Rightarrow> bool" where
  "same_calls w w' \<longleftrightarrow> tw_calls w' = tw_calls w \<and> tw_executions w' = tw_executions w"

definition same_executions :: "ToolWorld \<Rightarrow> ToolWorld \<Rightarrow> bool" where
  "same_executions w w' \<longleftrightarrow> tw_executions w' = tw_executions w"

lemma same_preorders [effect_rules]:
  "reflp same_calls" "transp same_calls" "reflp same_executions" "transp same_executions"
  by (auto simp: reflp_def transp_def same_calls_def same_executions_def)

lemma same_calls_executions: "advances same_calls m \<Longrightarrow> advances same_executions m"
  by (auto simp: advances_def same_calls_def same_executions_def)

lemma same_calls_now [effect_rules]: "advances same_calls (service_now p)"
  by (auto simp: advances_def same_calls_def service_now_def split: option.split)

lemma same_calls_draw [effect_rules]: "advances same_calls (draw_id p)"
  by (simp add: advances_def same_calls_def draw_id_def)

lemma same_calls_try [effect_rules]: "advances same_calls (try_approvals m)"
  by (auto simp: advances_def same_calls_def try_approvals_def split: prod.split)

lemma same_calls_on_approvals [effect_rules]: "advances same_calls (on_approvals m)"
  unfolding on_approvals_def by (intro effect_rules; auto intro: effect_rules split: sum.split)

lemma same_calls_approved_for [effect_rules]: "advances same_calls (approved_for p ws pr i)"
  unfolding approved_for_def by (intro effect_rules)

lemma same_calls_raise [effect_rules]: "advances same_calls (raise_approval p d args c run ws pr digest now)"
  unfolding raise_approval_def Let_def
  by (auto intro!: effect_rules split: sum.split option.split)

lemma same_executions_on_calls [effect_rules]: "advances same_executions (on_calls m)"
  by (auto simp: advances_def same_executions_def on_calls_def split: prod.split sum.split)

lemma same_executions_transition [effect_rules]:
  "advances same_executions (service_transition e to oc at)"
  unfolding service_transition_def by (auto intro!: effect_rules split: prod.split sum.split)

lemma same_executions_deny [effect_rules]: "advances same_executions (deny_waiting e c at)"
  unfolding deny_waiting_def by (intro effect_rules)

lemmas same_executions_others [effect_rules] =
  same_calls_executions [OF same_calls_now] same_calls_executions [OF same_calls_draw]
  same_calls_executions [OF same_calls_try] same_calls_executions [OF same_calls_on_approvals]
  same_calls_executions [OF same_calls_approved_for] same_calls_executions [OF same_calls_raise]

lemma same_executions_spend [effect_rules]:
  "advances same_executions (spend_approval e as ws pr digest now)"
  unfolding spend_approval_def Let_def
  by (auto intro!: effect_rules split: option.split prod.split sum.split RepositoryError.split)

lemma same_executions_decide [effect_rules]:
  "advances same_executions (decide p e d ws pr run args now)"
  unfolding decide_def Let_def
  by (auto intro!: effect_rules split: sum.split PolicyOutcome.split option.split)

lemma same_executions_settled [effect_rules]: "advances same_executions (settled_by_reservation e)"
  unfolding settled_by_reservation_def by (intro effect_rules)

lemma same_executions_abandon [effect_rules]: "advances same_executions (abandon_waiting p ws a)"
  unfolding abandon_waiting_def
  by (auto intro!: effect_rules split: sum.split prod.split RepositoryError.split)

section \<open>What reaches the executor\<close>

text \<open>An operation asks the executor for nothing, and then reports no result, or for one execution
  that satisfies the predicate.\<close>

definition executes ::
  "(ToolCallRecordId \<times> ToolExecutionRequest \<Rightarrow> bool) \<Rightarrow> ToolCallOutcome service \<Rightarrow> ToolWorld \<Rightarrow> bool"
where
  "executes X m w \<longleftrightarrow>
     (case m w of (r, w') \<Rightarrow>
        (tw_executions w' = tw_executions w \<and> (\<forall>x. r \<noteq> Ok (Completed x))) \<or>
        (\<exists>x. X x \<and> tw_executions w' = tw_executions w @ [x]))"

lemma executes_bind:
  assumes "advances same_executions m" and "\<And>x w'. m w = (Ok x, w') \<Longrightarrow> executes X (f x) w'"
  shows "executes X (eff_bind m f) w"
proof (cases "m w")
  case (Pair r w')
  then have "tw_executions w' = tw_executions w"
    using advancesD [OF assms(1)] by (auto simp: same_executions_def)
  with Pair assms(2) [of _ w'] show ?thesis by (cases r) (auto simp: executes_def)
qed

lemma executes_execute:
  assumes "X (i, q)" and "\<And>x. advances same_executions (f x)"
  shows "executes X (eff_bind (execute p i q) f) w"
proof -
  let ?w = "w\<lparr>tw_executions := tw_executions w @ [(i, q)]\<rparr>"
  obtain r w' where "f (tp_execute p (length (tw_executions w)) q) ?w = (r, w')" by fastforce
  moreover from this have "tw_executions w' = tw_executions w @ [(i, q)]"
    using advancesD [OF assms(2)] by (auto simp: same_executions_def)
  ultimately show ?thesis
    using assms(1) by (auto simp: executes_def execute_def eff_bind_def)
qed

lemma executes_quiet:
  assumes "advances same_executions m" and "\<And>x w'. m w \<noteq> (Ok (Completed x), w')"
  shows "executes X m w"
  using assms(2) advancesD [OF assms(1), of w]
  by (auto simp: executes_def same_executions_def split: prod.split)

lemma executes_return [simp]: "executes X (eff_return out) w \<longleftrightarrow> (\<forall>x. out \<noteq> Completed x)"
  by (auto simp: executes_def)

lemma executes_throw [simp]: "executes X (eff_throw e) w"
  by (simp add: executes_def)

lemma executes_deny: "executes X (deny_waiting e c at) w"
  unfolding deny_waiting_def by (rule executes_bind) (auto intro: effect_rules)

definition execution_of ::
  "ToolDefinition \<Rightarrow> ToolArguments \<Rightarrow> ToolCaller \<Rightarrow> ToolExecutionRequest \<Rightarrow> bool"
where
  "execution_of d arguments caller q \<longleftrightarrow>
     xq_identity q = td_identity d \<and> xq_arguments q = arguments \<and> xq_caller q = Some caller \<and>
     xq_timeout_ms q = xd_timeout_ms (td_execution d)"

lemma executes_apply_permitted:
  assumes "\<And>q. execution_of d args caller q \<Longrightarrow> X (le_id e, q)"
  shows "executes X (apply_permitted p e d args caller) w"
proof -
  have step: "service_transition e1 to oc at w1 = (Ok e2, w2) \<Longrightarrow> le_id e2 = le_id e1" for e1 to oc at w1 e2 w2
    by (auto simp: service_transition_def ledger_apply_def Let_def eff_bind_run
        split: prod.split_asm sum.split_asm if_split_asm)
  show ?thesis
    unfolding apply_permitted_def
    by (intro executes_bind executes_execute)
       (auto intro!: effect_rules assms simp: execution_of_def dest!: step split: sum.split)
qed

text \<open>What the policy says of the call, as the service asks it: at the first reading of the clock, on
  the grants and the approvals as they are when the operation starts.\<close>

definition decision_at ::
  "ToolPorts \<Rightarrow> ToolDefinition \<Rightarrow> WorkspaceId \<Rightarrow> PrincipalId \<Rightarrow> ToolArguments \<Rightarrow> ToolWorld \<Rightarrow> PolicyDecision option"
where
  "decision_at p d ws pr arguments w =
     (case tp_now p (tw_clock_reads w) of
        None \<Rightarrow> None
      | Some now \<Rightarrow>
        (case (fingerprint_of p d ws pr arguments, tp_read_grants p pr ws,
               fst (approved_for p ws pr (td_identity d) w)) of
           (Ok digest, Ok grants, Ok approved) \<Rightarrow>
             Some (evaluate_at (request_of d ws pr digest)
               \<lparr>pn_now = now, pn_grants = gd_grants grants, pn_approvals = map record_of approved,
                pn_deny_rules = gd_deny_rules grants\<rparr> (tp_autonomy p))
         | _ \<Rightarrow> None))"

definition allowed_at ::
  "ToolPorts \<Rightarrow> ToolDefinition \<Rightarrow> WorkspaceId \<Rightarrow> PrincipalId \<Rightarrow> ToolArguments \<Rightarrow> ToolWorld \<Rightarrow> bool"
where
  "allowed_at p d ws pr arguments w =
     is_some_and (decision_at p d ws pr arguments w) (\<lambda>decision. pd_outcome decision = PolicyOutcome.Allow)"

definition same_approvals :: "ToolWorld \<Rightarrow> ToolWorld \<Rightarrow> bool" where
  "same_approvals w w' \<longleftrightarrow> tw_approvals w' = tw_approvals w"

lemma same_approvals_preorder [effect_rules]: "reflp same_approvals" "transp same_approvals"
  by (auto simp: reflp_def transp_def same_approvals_def)

lemma same_approvals_on_calls [effect_rules]: "advances same_approvals (on_calls m)"
  by (auto simp: advances_def same_approvals_def on_calls_def split: prod.split sum.split)

lemma same_approvals_now [effect_rules]: "advances same_approvals (service_now p)"
  by (auto simp: advances_def same_approvals_def service_now_def split: option.split)

lemma same_approvals_transition [effect_rules]: "advances same_approvals (service_transition e to oc at)"
  unfolding service_transition_def by (auto intro!: effect_rules split: prod.split sum.split)

lemma same_approvals_settled [effect_rules]: "advances same_approvals (settled_by_reservation e)"
  unfolding settled_by_reservation_def by (intro effect_rules)

lemma approved_for_same:
  "same_approvals w w' \<Longrightarrow> fst (approved_for p ws pr i w') = fst (approved_for p ws pr i w)"
  by (auto simp: approved_for_def on_approvals_def try_approvals_def eff_bind_def same_approvals_def
      split: prod.split sum.split)

lemma service_now_OkD:
  "service_now p w = (Ok now, w') \<Longrightarrow> tp_now p (tw_clock_reads w) = Some now \<and> same_approvals w w'"
  by (auto simp: service_now_def same_approvals_def split: option.split_asm)

lemma spend_approval_Permitted:
  "spend_approval e as ws pr digest now w = (Ok (Permitted, e'), w') \<Longrightarrow> e' = e"
  by (auto simp: spend_approval_def Let_def eff_bind_run
      split: option.split_asm if_split_asm prod.split_asm sum.split_asm RepositoryError.split_asm)
     (metis RepositoryError.exhaust sum.exhaust)

lemma decide_PermittedD:
  assumes "decide p e d ws pr run args now w = (Ok (Permitted, e'), w')"
  obtains digest grants approved where "e' = e" and "fingerprint_of p d ws pr args = Ok digest"
    and "tp_read_grants p pr ws = Ok grants" and "fst (approved_for p ws pr (td_identity d) w) = Ok approved"
    and "pd_outcome (evaluate_at (request_of d ws pr digest)
           \<lparr>pn_now = now, pn_grants = gd_grants grants, pn_approvals = map record_of approved,
            pn_deny_rules = gd_deny_rules grants\<rparr> (tp_autonomy p)) = PolicyOutcome.Allow"
proof -
  from assms obtain digest grants approved t where
    dg: "fingerprint_of p d ws pr args = Ok digest" and gr: "tp_read_grants p pr ws = Ok grants"
    and ap: "approved_for p ws pr (td_identity d) w = (Ok approved, t)"
    by (auto simp: decide_def eff_bind_run split: sum.split_asm)
  let ?o = "pd_outcome (evaluate_at (request_of d ws pr digest)
               \<lparr>pn_now = now, pn_grants = gd_grants grants, pn_approvals = map record_of approved,
                pn_deny_rules = gd_deny_rules grants\<rparr> (tp_autonomy p))"
  have "?o = PolicyOutcome.Allow \<and> e' = e"
    using assms dg gr ap
    by (cases ?o) (auto simp: decide_def Let_def eff_bind_run split: if_split_asm
        dest: spend_approval_Permitted)
  with dg gr ap show thesis by (auto intro: that)
qed

lemma decide_Permitted:
  assumes "decide p e d ws pr run args now w' = (Ok (Permitted, e'), w'')"
    and "tp_now p (tw_clock_reads w) = Some now" and "same_approvals w w'"
  shows "allowed_at p d ws pr args w"
  by (rule decide_PermittedD [OF assms(1)])
     (use assms(2) approved_for_same [OF assms(3)] in \<open>simp add: allowed_at_def decision_at_def\<close>)

text \<open>The three entry points, as one.\<close>

datatype ServiceCall =
    CallInvoke ToolCaller ToolCallIntent string
  | CallResume ToolCaller DurableApproval ToolCallIntent
  | CallAbandon WorkspaceId uuid

primrec serve :: "ToolPorts \<Rightarrow> ServiceCall \<Rightarrow> ToolCallOutcome option service" where
  "serve p (CallInvoke c intent key) =
     eff_bind (invoke p (tk_workspace c) (tk_principal c) (tk_run c) intent key) (\<lambda>out. eff_return (Some out))"
| "serve p (CallResume c approval intent) =
     eff_bind (resume p (tk_workspace c) (tk_principal c) (tk_run c) approval intent) (\<lambda>out. eff_return (Some out))"
| "serve p (CallAbandon ws approval) =
     eff_bind (abandon_waiting p ws approval) (\<lambda>_. eff_return None)"

primrec call_request :: "ServiceCall \<Rightarrow> (ToolCaller \<times> ToolCallIntent) option" where
  "call_request (CallInvoke c intent key) = Some (c, intent)"
| "call_request (CallResume c approval intent) = Some (c, intent)"
| "call_request (CallAbandon ws approval) = None"

text \<open>The execution a caller is entitled to.\<close>

definition entitled :: "ToolPorts \<Rightarrow> ToolCaller \<Rightarrow> ToolCallIntent \<Rightarrow> ToolWorld \<Rightarrow> ToolExecutionRequest \<Rightarrow> bool" where
  "entitled p c intent w q =
     (case tp_resolve p (tk_workspace c) (tci_capability intent) of
        None \<Rightarrow> False
      | Some tool \<Rightarrow>
          tp_validate p tool (tci_arguments intent) = Ok () \<and>
          execution_of (rv_definition tool) (tci_arguments intent) c q \<and>
          allowed_at p (rv_definition tool) (tk_workspace c) (tk_principal c) (tci_arguments intent) w)"

lemma executes_after_decision:
  assumes "tp_resolve p (tk_workspace c) (tci_capability intent) = Some tool"
    and "tp_validate p tool (tci_arguments intent) = Ok u"
    and "tp_now p (tw_clock_reads w0) = Some now" and "same_approvals w0 w"
  shows "executes (\<lambda>x. entitled p c intent w0 (snd x))
    (eff_bind (decide p e (rv_definition tool) (tk_workspace c) (tk_principal c) run (tci_arguments intent) now)
       (after_decision p (rv_definition tool) (tci_arguments intent) c)) w"
proof (rule executes_bind)
  fix r w'
  assume dec: "decide p e (rv_definition tool) (tk_workspace c) (tk_principal c) run (tci_arguments intent) now w = (Ok r, w')"
  obtain dd e' where r: "r = (dd, e')" by fastforce
  show "executes (\<lambda>x. entitled p c intent w0 (snd x))
      (after_decision p (rv_definition tool) (tci_arguments intent) c r) w'"
  proof (cases dd)
    case Permitted
    with dec r have "allowed_at p (rv_definition tool) (tk_workspace c) (tk_principal c) (tci_arguments intent) w0"
      using decide_Permitted [OF _ assms(3,4)] by blast
    then show ?thesis
      using Permitted r assms(1,2)
      by (auto simp: after_decision_def entitled_def intro!: executes_apply_permitted)
  qed (auto simp: r after_decision_def)
qed (rule effect_rules)

lemma settled_not_completed:
  "settled_by_reservation e w = (Ok (Some out), w') \<Longrightarrow> out \<noteq> Completed x"
  unfolding settled_by_reservation_def eff_bind_run
  by (elim disjE exE conjE) (simp_all split: ReservationOutcome.split_asm, auto)

lemma caller_eta [simp]: "\<lparr>tk_workspace = tk_workspace c, tk_principal = tk_principal c, tk_run = tk_run c\<rparr> = c"
  by (cases c) simp

lemma executes_invoke:
  "executes (\<lambda>x. entitled p c intent w (snd x))
     (invoke p (tk_workspace c) (tk_principal c) (tk_run c) intent key) w"
proof -
  have dec: "executes (\<lambda>x. entitled p c intent w (snd x))
      (eff_bind (service_transition e ToolCallState.Validated None now) (\<lambda>e'.
       eff_bind (decide p e' (rv_definition tool) (tk_workspace c) (tk_principal c) (tk_run c) (tci_arguments intent) now)
         (after_decision p (rv_definition tool) (tci_arguments intent) c))) w2"
    if "tp_resolve p (tk_workspace c) (tci_capability intent) = Some tool"
      "tp_validate p tool (tci_arguments intent) = Ok u"
      "service_now p w = (Ok now, w1)" "settled_by_reservation e w1 = (Ok None, w2)" for tool u e now w1 w2
  proof (rule executes_bind)
    fix e' w3
    assume tr: "service_transition e ToolCallState.Validated None now w2 = (Ok e', w3)"
    have "same_approvals w1 w2" "same_approvals w2 w3"
      using that(4) tr by (auto intro: effect_rules advancesD)
    then have "same_approvals w w3"
      using service_now_OkD [OF that(3)] by (simp add: same_approvals_def)
    with that service_now_OkD [OF that(3)]
    show "executes (\<lambda>x. entitled p c intent w (snd x))
       (eff_bind (decide p e' (rv_definition tool) (tk_workspace c) (tk_principal c) (tk_run c) (tci_arguments intent) now)
         (after_decision p (rv_definition tool) (tci_arguments intent) c)) w3"
      by (intro executes_after_decision) auto
  qed (rule effect_rules)
  show ?thesis
    unfolding invoke_def Let_def
    by (rule executes_bind, rule effect_rules)
       (auto split: option.split sum.split intro!: executes_bind [of "settled_by_reservation _"]
          executes_bind [of "service_transition _ ToolCallState.Denied _ _"] effect_rules dec
        dest: settled_not_completed)
qed

lemma executes_resume:
  "executes (\<lambda>x. entitled p c intent w (snd x))
     (resume p (tk_workspace c) (tk_principal c) (tk_run c) approval intent) w"
proof -
  have dec: "executes (\<lambda>x. entitled p c intent w (snd x))
      (eff_bind (decide p e (rv_definition tool) (tk_workspace c) (tk_principal c) (tk_run c) (tci_arguments intent) now)
         (after_decision p (rv_definition tool) (tci_arguments intent) c)) w2"
    if "tp_resolve p (tk_workspace c) (tci_capability intent) = Some tool"
      "tp_validate p tool (tci_arguments intent) = Ok u"
      "service_now p w = (Ok now, w1)" "on_calls m w1 = (Ok e, w2)" for tool u e now w1 w2 m
  proof -
    have "same_approvals w1 w2" using that(4) by (auto intro: effect_rules advancesD)
    then have "same_approvals w w2"
      using service_now_OkD [OF that(3)] by (simp add: same_approvals_def)
    with that service_now_OkD [OF that(3)] show ?thesis by (intro executes_after_decision) auto
  qed
  show ?thesis
    unfolding resume_def
    by (rule executes_bind, rule effect_rules, rule executes_bind, rule effect_rules)
       (auto split: option.split sum.split intro!: executes_deny dec)
qed

lemma executes_serve:
  assumes "serve p c w = (r, w')"
  shows "(tw_executions w' = tw_executions w \<and> (\<forall>x. r \<noteq> Ok (Some (Completed x)))) \<or>
    (\<exists>k intent i q. call_request c = Some (k, intent) \<and> entitled p k intent w q \<and>
       tw_executions w' = tw_executions w @ [(i, q)])"
proof (cases c)
  case (CallInvoke k intent key)
  with assms executes_invoke [of p k intent w key] show ?thesis
    by (auto simp: executes_def eff_bind_run split: prod.split_asm)
next
  case (CallResume k approval intent)
  with assms executes_resume [of p k intent w approval] show ?thesis
    by (auto simp: executes_def eff_bind_run split: prod.split_asm)
next
  case (CallAbandon ws approval)
  with assms have "same_executions w w'"
    by (auto simp: eff_bind_run dest!: advancesD [OF same_executions_abandon])
  with CallAbandon assms show ?thesis by (auto simp: same_executions_def eff_bind_run)
qed

section \<open>No record is executed twice\<close>

text \<open>The stored state of a record, whatever the workspace.\<close>

definition past_dispatch :: "CallStore \<Rightarrow> ToolCallRecordId \<Rightarrow> bool" where
  "past_dispatch s i \<longleftrightarrow>
     (\<exists>row \<in> set (cs_rows s). tr_id row = i \<and>
        (\<exists>st. parse_state (tr_state row) = Ok st \<and> stage ToolCallState.Executing \<le> stage st))"

definition executions_ok :: "ToolWorld \<Rightarrow> bool" where
  "executions_ok w \<longleftrightarrow>
     distinct (map tr_id (cs_rows (tw_calls w))) \<and> distinct (map fst (tw_executions w)) \<and>
     (\<forall>x \<in> set (tw_executions w). past_dispatch (tw_calls w) (fst x))"

lemma service_transition_OkD:
  assumes "service_transition e to oc at w = (Ok e', w')"
  obtains t s' where "ledger_apply e to (le_version e) oc at = (Ok t, e')"
    and "store_apply_transition (rk_workspace (le_key e')) t (le_version e) e' (tw_calls w) = (Ok (), s')"
    and "w' = w\<lparr>tw_calls := s'\<rparr>"
proof -
  from assms obtain t where a: "ledger_apply e to (le_version e) oc at = (Ok t, e')"
    by (auto simp: service_transition_def eff_bind_run split: prod.split_asm sum.split_asm)
  with assms ledger_apply_record(3) [OF a] show thesis
    by (auto simp: service_transition_def eff_bind_run on_calls_def split: prod.split_asm sum.split_asm
        intro!: that)
qed

lemma service_transition_ErrD:
  assumes "service_transition e to oc at w = (Err x, w')"
  shows "\<exists>fs. w' = w\<lparr>tw_calls := (tw_calls w)\<lparr>cs_faults := fs\<rparr>\<rparr>"
proof (cases "ledger_apply e to (le_version e) oc at")
  case (Pair r e')
  show ?thesis
  proof (cases r)
    case (Inl y)
    with Pair assms show ?thesis
      by (auto simp: service_transition_def intro!: exI [of _ "cs_faults (tw_calls w)"])
  next
    case (Inr t)
    with Pair assms show ?thesis
      by (auto simp: service_transition_def eff_bind_run on_calls_def split: prod.split_asm sum.split_asm
          dest!: store_apply_ErrD)
  qed
qed

text \<open>What a written transition does to the rows: identifiers stay, and the record it names moves
  from a stage before the new state.\<close>

lemma transition_rows:
  assumes "store_apply_transition ws t v e s = (Ok u, s')" and "le_state e = tt_to t"
    and "distinct (map tr_id (cs_rows s))"
  shows "map tr_id (cs_rows s') = map tr_id (cs_rows s)"
    and "past_dispatch s i \<Longrightarrow> past_dispatch s' i"
    and "stage (tt_to t) \<le> stage ToolCallState.Executing \<Longrightarrow> \<not> past_dispatch s (le_id e)"
    and "stage ToolCallState.Executing \<le> stage (tt_to t) \<Longrightarrow> past_dispatch s' (le_id e)"
proof -
  obtain row st m x where 1: "find (row_at ws (le_id e)) (cs_rows s) = Some row"
      "parse_state (tr_state row) = Ok st" "tool_can_transition_to st (tt_to t)"
      "call_stored_version row = Ok v" "i64_of_u64 v = Some x"
    and rows: "cs_rows s' = map (\<lambda>r. if row_at ws (le_id e) r \<and> tr_version r = x
                              then updated_row e t m r else r) (cs_rows s)"
    by (rule store_apply_OkD [OF assms(1)])
  from 1 have row: "row \<in> set (cs_rows s)" "tr_id row = le_id e" "row_at ws (le_id e) row" "tr_version row = x"
    by (auto dest!: find_SomeD call_stored_version_eq i64_of_u64_eq simp: row_at_def)
  have uniq: "r = row" if "r \<in> set (cs_rows s)" "tr_id r = le_id e" for r
    using that row assms(3) by (auto simp: distinct_map inj_on_def)
  note lt = stage_increases [OF 1(3)]
  show ids: "map tr_id (cs_rows s') = map tr_id (cs_rows s)"
    by (simp add: rows updated_row_def cong: map_cong)
  show "\<not> past_dispatch s (le_id e)" if "stage (tt_to t) \<le> stage ToolCallState.Executing"
    using that lt 1(2) uniq by (auto simp: past_dispatch_def)
  have new: "updated_row e t m row \<in> set (cs_rows s')"
    using row rows by force
  have now: "stage ToolCallState.Executing \<le> stage (tt_to t) \<Longrightarrow> past_dispatch s' (le_id e)"
    using row(2) assms(2) unfolding past_dispatch_def
    by (intro bexI [OF _ new]) (simp add: updated_row_def)
  then show "stage ToolCallState.Executing \<le> stage (tt_to t) \<Longrightarrow> past_dispatch s' (le_id e)" .
  show "past_dispatch s' i" if past: "past_dispatch s i"
  proof (cases "i = le_id e")
    case True
    with past uniq 1(2) lt have "stage ToolCallState.Executing \<le> stage (tt_to t)"
      by (auto simp: past_dispatch_def)
    with now True show ?thesis by simp
  next
    case False
    from past obtain r st' where r: "r \<in> set (cs_rows s)" "tr_id r = i" "parse_state (tr_state r) = Ok st'"
        "stage ToolCallState.Executing \<le> stage st'"
      by (auto simp: past_dispatch_def)
    then have "r \<in> set (cs_rows s')"
      using False rows by (auto simp: row_at_def image_iff intro!: bexI [of _ r])
    with r show ?thesis by (auto simp: past_dispatch_def)
  qed
qed

lemma executions_ok_same_calls: "advances same_calls m \<Longrightarrow> preserves executions_ok m"
  by (auto simp: advances_def preserves_def same_calls_def executions_ok_def)

lemma executions_ok_faults [simp]:
  "executions_ok (w\<lparr>tw_calls := (tw_calls w)\<lparr>cs_faults := fs\<rparr>\<rparr>) = executions_ok w"
  by (simp add: executions_ok_def past_dispatch_def)

lemma past_dispatch_more:
  "set (cs_rows s) \<subseteq> set (cs_rows s') \<Longrightarrow> past_dispatch s i \<Longrightarrow> past_dispatch s' i"
  by (auto simp: past_dispatch_def)

lemma executions_ok_transition [effect_rules]: "preserves executions_ok (service_transition e to oc at)"
  unfolding preserves_def
proof (intro allI impI)
  fix w
  assume ok: "executions_ok w"
  show "executions_ok (snd (service_transition e to oc at w))"
  proof (cases "service_transition e to oc at w")
    case (Pair r w')
    show ?thesis
    proof (cases r)
      case (Inl x)
      with Pair ok show ?thesis by (auto dest!: service_transition_ErrD)
    next
      case (Inr e')
      with Pair obtain t s' where t: "ledger_apply e to (le_version e) oc at = (Ok t, e')"
          "store_apply_transition (rk_workspace (le_key e')) t (le_version e) e' (tw_calls w) = (Ok (), s')"
          "w' = w\<lparr>tw_calls := s'\<rparr>"
        by (auto elim: service_transition_OkD)
      note rows = transition_rows [OF t(2) transition_state [OF t(1)]]
      from ok have "distinct (map tr_id (cs_rows (tw_calls w)))" by (simp add: executions_ok_def)
      with rows ok t(3) Pair show ?thesis by (auto simp: executions_ok_def)
    qed
  qed
qed

lemma reserve_rows:
  assumes "store_reserve e s = (r, s')"
  shows "cs_rows s' = cs_rows s \<or>
     (\<exists>row. tr_id row = le_id e \<and> le_id e \<notin> tr_id ` set (cs_rows s) \<and> cs_rows s' = cs_rows s @ [row])"
proof -
  have read: "read_by_key k t = (x, t') \<Longrightarrow> cs_rows t' = cs_rows t" for k t x t'
    by (auto simp: read_by_key_def eff_bind_run dest!: call_statement_OkD call_statement_ErrD)
  show ?thesis
  proof (cases "row_of_entry e")
    case (Inl x)
    with assms show ?thesis by (simp add: store_reserve_def)
  next
    case (Inr row)
    then have "tr_id row = le_id e" by (auto simp: row_of_entry_def and_then_Ok_iff)
    with assms Inr show ?thesis
      by (auto simp: store_reserve_def eff_bind_run unique_violation_def list_ex_iff
          dest!: call_statement_OkD call_statement_ErrD read split: if_split_asm option.split_asm)
         blast
  qed
qed

lemma executions_ok_settled [effect_rules]: "preserves executions_ok (settled_by_reservation e)"
proof -
  have "executions_ok w \<Longrightarrow> store_reserve e (tw_calls w) = (r, s') \<Longrightarrow> executions_ok (w\<lparr>tw_calls := s'\<rparr>)" for w r s'
    by (drule reserve_rows) (auto simp: executions_ok_def intro: past_dispatch_more [rotated])
  then have "preserves executions_ok (on_calls (store_reserve e))"
    by (auto simp: preserves_def on_calls_def split: prod.split sum.split)
  then show ?thesis unfolding settled_by_reservation_def by (intro effect_rules)
qed

lemma executions_ok_load [effect_rules]: "preserves executions_ok (on_calls (store_load ws i))"
proof -
  have "cs_rows (snd (store_load ws i s)) = cs_rows s" for s
    by (cases "call_statement s"; cases "fst (call_statement s)")
       (auto simp: store_load_def dest!: call_statement_OkD call_statement_ErrD split: option.split)
  then have "store_load ws i s = (r, s') \<Longrightarrow> cs_rows s' = cs_rows s" for s r s' by (metis snd_conv)
  then show ?thesis
    by (auto simp: preserves_def on_calls_def executions_ok_def past_dispatch_def split: prod.split sum.split)
qed

lemmas executions_ok_others [effect_rules] =
  executions_ok_same_calls [OF same_calls_now] executions_ok_same_calls [OF same_calls_try]
  executions_ok_same_calls [OF same_calls_on_approvals] executions_ok_same_calls [OF same_calls_approved_for]
  executions_ok_same_calls [OF same_calls_raise]

lemma executions_ok_deny [effect_rules]: "preserves executions_ok (deny_waiting e c at)"
  unfolding deny_waiting_def by (intro effect_rules)

lemma executions_ok_spend [effect_rules]: "preserves executions_ok (spend_approval e as ws pr digest now)"
  unfolding spend_approval_def Let_def
  by (auto intro!: effect_rules split: option.split prod.split sum.split RepositoryError.split)

lemma executions_ok_decide [effect_rules]: "preserves executions_ok (decide p e d ws pr run args now)"
  unfolding decide_def Let_def
  by (auto intro!: effect_rules split: sum.split PolicyOutcome.split option.split)

lemma executions_ok_abandon [effect_rules]: "preserves executions_ok (abandon_waiting p ws a)"
  unfolding abandon_waiting_def
  by (auto intro!: effect_rules split: sum.split prod.split RepositoryError.split)

text \<open>Once the move to \<open>Executing\<close> is written, the record has not been executed and may be.\<close>

lemma dispatch_then_execute:
  assumes "\<And>e' now x. preserves executions_ok (f e' now x)"
  shows "preserves executions_ok
    (eff_bind (service_transition e ToolCallState.Executing None at) (\<lambda>e'.
     eff_bind (service_now p) (\<lambda>now. eff_bind (execute p (le_id e') (q now)) (f e' now))))"
  unfolding preserves_def
proof (intro allI impI)
  fix w
  assume ok: "executions_ok w"
  show "executions_ok (snd (eff_bind (service_transition e ToolCallState.Executing None at) (\<lambda>e'.
     eff_bind (service_now p) (\<lambda>now. eff_bind (execute p (le_id e') (q now)) (f e' now))) w))"
  proof (cases "service_transition e ToolCallState.Executing None at w")
    case (Pair r w1)
    then have ok1: "executions_ok w1" by (rule preservesD [OF executions_ok_transition ok])
    show ?thesis
    proof (cases r)
      case (Inl x)
      with Pair ok1 show ?thesis by simp
    next
      case (Inr e')
      with Pair obtain t s' where t: "ledger_apply e ToolCallState.Executing (le_version e) None at = (Ok t, e')"
          "store_apply_transition (rk_workspace (le_key e')) t (le_version e) e' (tw_calls w) = (Ok (), s')"
          "w1 = w\<lparr>tw_calls := s'\<rparr>"
        by (auto elim: service_transition_OkD)
      note st = transition_state [OF t(1)] ledger_apply_record(2) [OF t(1)]
      have "distinct (map tr_id (cs_rows (tw_calls w)))" using ok by (simp add: executions_ok_def)
      note rows = transition_rows(3,4) [OF t(2) st(1) this]
      have past: "past_dispatch (tw_calls w1) (le_id e')" "le_id e' \<notin> fst ` set (tw_executions w1)"
        using rows st t(3) ok by (auto simp: executions_ok_def)
      show ?thesis
      proof (cases "service_now p w1")
        case (Pair r2 w2)
        then have same: "same_calls w1 w2" by (rule advancesD [OF same_calls_now])
        show ?thesis
        proof (cases r2)
          case (Inl x)
          with Pair same ok1 \<open>service_transition _ _ _ _ w = _\<close> Inr show ?thesis
            by (auto simp: executions_ok_def same_calls_def)
        next
          case (Inr now)
          let ?w3 = "w2\<lparr>tw_executions := tw_executions w2 @ [(le_id e', q now)]\<rparr>"
          have "executions_ok ?w3"
            using ok1 past same by (auto simp: executions_ok_def same_calls_def)
          then have "executions_ok (snd (f e' now (tp_execute p (length (tw_executions w2)) (q now)) ?w3))"
            using assms by (simp add: preserves_def)
          with Inr Pair \<open>service_transition _ _ _ _ w = _\<close> \<open>r = Ok e'\<close> show ?thesis
            by (simp add: eff_bind_def execute_def)
        qed
      qed
    qed
  qed
qed

lemma executions_ok_apply_permitted [effect_rules]:
  "preserves executions_ok (apply_permitted p e d args caller)"
  unfolding apply_permitted_def
  by (intro effect_rules dispatch_then_execute) (auto intro!: effect_rules split: sum.split)

lemma executions_ok_after_decision [effect_rules]:
  "preserves executions_ok (after_decision p d args caller r)"
  unfolding after_decision_def by (auto intro!: effect_rules split: prod.split Decision.split)

lemma executions_ok_invoke [effect_rules]: "preserves executions_ok (invoke p ws pr run intent key)"
  unfolding invoke_def Let_def
  by (auto intro!: effect_rules split: option.split sum.split)

lemma executions_ok_resume [effect_rules]: "preserves executions_ok (resume p ws pr run approval intent)"
  unfolding resume_def by (auto intro!: effect_rules split: option.split sum.split)

lemma executions_ok_serve: "preserves executions_ok (serve p c)"
  by (cases c) (auto intro!: effect_rules)

section \<open>Concurrent writers of one record\<close>

text \<open>Writers hold snapshots of the entry, in any number and of any age, and offer transitions in any
  order; a write to another record counts as no move of this one.\<close>

definition record_write ::
  "WorkspaceId \<Rightarrow> ToolCallRecordId \<Rightarrow> ToolWorld \<Rightarrow> LedgerEntry \<times> ToolCallState \<times> ToolErrorClass option \<times> instant \<Rightarrow>
   (ToolServiceError + LedgerEntry) \<times> ToolWorld"
where
  "record_write ws i w c =
     (case c of (e, to, oc, at) \<Rightarrow>
       (case service_transition e to oc at w of
          (Err x, w') \<Rightarrow> (Err x, w')
        | (Ok e', w') \<Rightarrow>
            (if rk_workspace (le_key e') = ws \<and> le_id e' = i then Ok e' else Err (Internal ''other''), w')))"

lemma record_write_cases:
  assumes "record_write ws i w c = (r, w')"
  shows "(\<exists>e'. r = Ok e' \<and> le_version (fst c) = row_version ws i (tw_calls w) \<and>
      unat (row_version ws i (tw_calls w')) = Suc (unat (row_version ws i (tw_calls w))) \<and>
      stage (row_state ws i (tw_calls w)) < stage (le_state e') \<and> row_state ws i (tw_calls w') = le_state e') \<or>
    (\<not> is_ok r \<and> row_version ws i (tw_calls w') = row_version ws i (tw_calls w) \<and>
     row_state ws i (tw_calls w') = row_state ws i (tw_calls w))"
proof -
  obtain e to oc at where c: "c = (e, to, oc, at)" by (cases c)
  show ?thesis
  proof (cases "service_transition e to oc at w")
    case (Pair q w1)
    show ?thesis
    proof (cases q)
      case (Inl x)
      with Pair assms c show ?thesis
        by (auto simp: record_write_def is_ok_iff dest!: service_transition_ErrD)
    next
      case (Inr e')
      with Pair obtain t s' where t: "ledger_apply e to (le_version e) oc at = (Ok t, e')"
          "store_apply_transition (rk_workspace (le_key e')) t (le_version e) e' (tw_calls w) = (Ok (), s')"
          "w1 = w\<lparr>tw_calls := s'\<rparr>"
        by (auto elim: service_transition_OkD)
      obtain row st where row: "find (row_at (rk_workspace (le_key e')) (le_id e')) (cs_rows (tw_calls w)) = Some row"
          "find (row_at (rk_workspace (le_key e')) (le_id e')) (cs_rows s') = Some (updated_row e' t (le_version e') row)"
          "\<And>ws' i. (ws', i) \<noteq> (rk_workspace (le_key e'), le_id e') \<Longrightarrow>
             find (row_at ws' i) (cs_rows s') = find (row_at ws' i) (cs_rows (tw_calls w))"
          "call_stored_version row = Ok (le_version e)" "parse_state (tr_state row) = Ok st"
          "tool_can_transition_to st (tt_to t)"
        by (rule store_apply_find [OF t(2)]) blast
      have v: "unat (le_version e') = Suc (unat (le_version e))" "tr_version row = le_version e"
        using ledger_apply_OkD(3) [OF t(1)] row(4) by (auto dest: call_stored_version_eq)
      show ?thesis
      proof (cases "rk_workspace (le_key e') = ws \<and> le_id e' = i")
        case True
        with Pair Inr assms c t(3) row v stage_increases [OF row(6)] transition_state [OF t(1)] show ?thesis
          by (auto simp: record_write_def row_state_def row_version_def updated_row_def)
      next
        case False
        then have "find (row_at ws i) (cs_rows s') = find (row_at ws i) (cs_rows (tw_calls w))"
          by (intro row(3)) auto
        with False Pair Inr assms c t(3) show ?thesis
          by (auto simp: record_write_def row_state_def row_version_def)
      qed
    qed
  qed
qed

interpretation record_versions: version_counter "record_write ws i" "\<lambda>c. le_version (fst c)"
  "\<lambda>w. row_version ws i (tw_calls w)" for ws i
  by unfold_locales (drule record_write_cases; auto)+

interpretation record_stages: staged "record_write ws i" le_state "\<lambda>w. row_state ws i (tw_calls w)" stage 7 for ws i
  by unfold_locales (auto simp: stage_le dest!: record_write_cases)

section \<open>A call with nothing in its way\<close>

text \<open>The store answers every statement and holds the entry as it is.\<close>

definition held :: "ToolWorld \<Rightarrow> LedgerEntry \<Rightarrow> bool" where
  "held w e \<longleftrightarrow> cs_faults (tw_calls w) = [] \<and>
     (\<exists>row. find (row_at (rk_workspace (le_key e)) (le_id e)) (cs_rows (tw_calls w)) = Some row \<and>
            row_parts row = Ok e)"

lemma held_same: "same_calls w w' \<Longrightarrow> held w e \<Longrightarrow> held w' e"
  by (simp add: held_def same_calls_def)

lemma held_transition:
  assumes held: "held w e" and edge: "tool_can_transition_to (le_state e) to"
    and small: "unat (le_version e) < 100"
  shows "\<exists>e' w'. service_transition e to oc at w = (Ok e', w') \<and> held w' e' \<and> le_state e' = to \<and>
    unat (le_version e') = Suc (unat (le_version e)) \<and> le_id e' = le_id e \<and> le_key e' = le_key e \<and>
    le_call_id e' = le_call_id e \<and> (tool_state_is_terminal to \<longrightarrow> le_outcome e' = oc) \<and>
    tw_approvals w' = tw_approvals w \<and> tw_clock_reads w' = tw_clock_reads w \<and> tw_executions w' = tw_executions w"
proof -
  have "le_version e \<noteq> - 1" using small by (auto simp: unat_minus_one_word_eq)
  with edge obtain t e' where app: "ledger_apply e to (le_version e) oc at = (Ok t, e')"
    by (rule ledger_apply_accepts)
  note d = ledger_apply_OkD [OF app] and k = ledger_apply_keeps [OF app]
  have vsmall: "unat (le_version e') < 2 ^ 63" using d(3) small by simp
  from held obtain row where row: "find (row_at (rk_workspace (le_key e)) (le_id e)) (cs_rows (tw_calls w)) = Some row"
      "row_parts row = Ok e" and quiet: "cs_faults (tw_calls w) = []"
    by (auto simp: held_def)
  obtain s' where s': "store_apply_transition (rk_workspace (le_key e)) t (le_version e) e' (tw_calls w) = (Ok (), s')"
    using store_apply_quiet [OF row app vsmall quiet] by blast
  have "find (row_at (rk_workspace (le_key e)) (le_id e)) (cs_rows s') = Some (updated_row e' t (le_version e') row)"
    using store_apply_find [OF s'] row(1) k(1) by (metis option.inject)
  moreover have "row_parts (updated_row e' t (le_version e') row) = Ok e'"
    by (rule row_parts_updated [OF row(2) app vsmall])
  moreover have "cs_faults s' = []"
    using store_apply_faults [OF s' quiet] .
  moreover have "service_transition e to oc at w = (Ok e', w\<lparr>tw_calls := s'\<rparr>)"
    using app s' k(2) ledger_apply_record(3) [OF app]
    by (simp add: service_transition_def on_calls_def eff_bind_def)
  ultimately show ?thesis
    using d(3) k by (intro exI [of _ e'] exI [of _ "w\<lparr>tw_calls := s'\<rparr>"]) (auto simp: held_def)
qed

lemma service_now_ticks:
  assumes "\<And>n. tp_now p n \<noteq> None"
  obtains now w' where "service_now p w = (Ok now, w')" and "same_calls w w'" and "same_approvals w w'"
    and "tp_now p (tw_clock_reads w) = Some now"
proof -
  from assms obtain now where now: "tp_now p (tw_clock_reads w) = Some now" by blast
  show thesis
    by (rule that [of now "w\<lparr>tw_clock_reads := Suc (tw_clock_reads w)\<rparr>"])
       (simp_all add: service_now_def now same_calls_def same_approvals_def)
qed

lemma apply_permitted_completes:
  assumes held: "held w e" and live: "le_state e = ToolCallState.Validated \<or> le_state e = ToolCallState.WaitingApproval"
    and v: "unat (le_version e) < 90"
    and clock: "\<And>n. tp_now p n \<noteq> None"
    and exec: "\<And>q. execution_of d args caller q \<Longrightarrow> is_ok (tp_execute p (length (tw_executions w)) q)"
  obtains q x w' e' where "execution_of d args caller q" and "tp_execute p (length (tw_executions w)) q = Ok x"
    and "tw_executions w' = tw_executions w @ [(le_id e, q)]" and "apply_permitted p e d args caller w = (Ok (Completed x), w')" and "held w' e'"
    and "le_id e' = le_id e" and "le_key e' = le_key e" and "le_state e' = ToolCallState.Succeeded"
    and "le_outcome e' = None"
proof -
  note tr = held_transition
  obtain t1 w1 where n1: "service_now p w = (Ok t1, w1)" "same_calls w w1"
    by (rule service_now_ticks [OF clock])
  obtain e2 w2 where 2: "service_transition e ToolCallState.Approved None t1 w1 = (Ok e2, w2)" "held w2 e2"
      "le_state e2 = ToolCallState.Approved" "unat (le_version e2) = Suc (unat (le_version e))"
      "le_id e2 = le_id e" "le_key e2 = le_key e" "tw_executions w2 = tw_executions w1"
    using live v tr [OF held_same [OF n1(2) held], of ToolCallState.Approved None t1] by auto
  obtain e3 w3 where 3: "service_transition e2 ToolCallState.Reserved None t1 w2 = (Ok e3, w3)" "held w3 e3"
      "le_state e3 = ToolCallState.Reserved" "unat (le_version e3) = Suc (unat (le_version e2))"
      "le_id e3 = le_id e2" "le_key e3 = le_key e2" "tw_executions w3 = tw_executions w2"
    using 2 v tr [OF 2(2), of ToolCallState.Reserved None t1] by auto
  obtain e4 w4 where 4: "service_transition e3 ToolCallState.Executing None t1 w3 = (Ok e4, w4)" "held w4 e4"
      "le_state e4 = ToolCallState.Executing" "unat (le_version e4) = Suc (unat (le_version e3))"
      "le_id e4 = le_id e3" "le_key e4 = le_key e3" "tw_executions w4 = tw_executions w3"
    using 2 3 v tr [OF 3(2), of ToolCallState.Executing None t1] by auto
  obtain t5 w5 where n5: "service_now p w4 = (Ok t5, w5)" "same_calls w4 w5"
    by (rule service_now_ticks [OF clock])
  let ?q = "\<lparr>xq_identity = td_identity d, xq_display_name = td_display_name d, xq_arguments = args,
        xq_started_at = t5, xq_timeout_ms = xd_timeout_ms (td_execution d), xq_caller = Some caller\<rparr>"
  let ?w6 = "w5\<lparr>tw_executions := tw_executions w5 @ [(le_id e4, ?q)]\<rparr>"
  have count: "tw_executions w5 = tw_executions w"
    using n1(2) 2(7) 3(7) 4(7) n5(2) by (simp add: same_calls_def)
  have q: "execution_of d args caller ?q" by (simp add: execution_of_def)
  then obtain x where x: "tp_execute p (length (tw_executions w)) ?q = Ok x"
    using exec [of ?q] by (auto simp: is_ok_iff)
  obtain t7 w7 where n7: "service_now p ?w6 = (Ok t7, w7)" "same_calls ?w6 w7"
    by (rule service_now_ticks [OF clock])
  have "held w7 e4" using 4(2) n5(2) n7(2) by (simp add: held_def same_calls_def)
  from tr [OF this, of ToolCallState.Succeeded None t7] 2 3 4 v
  obtain e8 w8 where 8: "service_transition e4 ToolCallState.Succeeded None t7 w7 = (Ok e8, w8)" "held w8 e8"
      "le_state e8 = ToolCallState.Succeeded" "le_outcome e8 = None" "le_id e8 = le_id e4" "le_key e8 = le_key e4"
      "tw_executions w8 = tw_executions w7"
    by auto
  have "apply_permitted p e d args caller w = (Ok (Completed x), w8)"
    using n1(1) 2(1) 3(1) 4(1) n5(1) n7(1) 8(1) x count
    by (simp add: apply_permitted_def execute_def eff_bind_def)
  moreover have "tw_executions w8 = tw_executions w @ [(le_id e, ?q)]"
    using 8(7) n7(2) count 2(5) 3(5) 4(5) by (simp add: same_calls_def)
  ultimately show thesis using that [OF q x] 2 3 4 8 by auto
qed

lemma decide_allows:
  assumes "decision_at p d ws pr args w = Some decision" and "pd_outcome decision = PolicyOutcome.Allow"
    and "PolicyReason.ApprovalMatched \<notin> set (pd_reasons decision)"
    and "tp_now p (tw_clock_reads w) = Some now" and "same_approvals w w'"
  shows "\<exists>w''. decide p e d ws pr run args now w' = (Ok (Permitted, e), w'') \<and> same_calls w' w''"
proof -
  from assms(1,4) obtain digest grants approved where
    dg: "fingerprint_of p d ws pr args = Ok digest" and gr: "tp_read_grants p pr ws = Ok grants"
    and ap: "fst (approved_for p ws pr (td_identity d) w) = Ok approved"
    by (auto simp: decision_at_def split: sum.split_asm prod.split_asm)
  then obtain t where t: "approved_for p ws pr (td_identity d) w' = (Ok approved, t)"
    using approved_for_same [OF assms(5)] by (metis prod.collapse)
  moreover have "same_calls w' t" using t by (rule advancesD [OF same_calls_approved_for])
  ultimately show ?thesis
    using assms(1-4) dg gr ap by (simp add: decide_def decision_at_def)
qed

text \<open>The entry a reservation starts from.\<close>

definition first_entry :: "uuid \<Rightarrow> RunId \<Rightarrow> ReservationKey \<Rightarrow> instant \<Rightarrow> LedgerEntry" where
  "first_entry call_id run key now =
     (ledger_entry_reserve call_id call_id 1 run key LedgerOperation.Execute now)\<lparr>le_id := call_id\<rparr>"

lemma first_entry_fields [simp]:
  "le_id (first_entry c run key now) = c" "le_key (first_entry c run key now) = key"
  "le_run (first_entry c run key now) = run" "le_call_id (first_entry c run key now) = c"
  "le_state (first_entry c run key now) = ToolCallState.Requested"
  "le_version (first_entry c run key now) = 1"
  by (simp_all add: first_entry_def ledger_entry_reserve_def tool_call_version_first_def)

lemmas invoke_eq = invoke_def [unfolded Let_def, folded first_entry_def]

lemma reserve_held:
  assumes e: "storable e" and run: "le_run e \<in> set (cs_runs (tw_calls w))"
    and fresh: "\<not> unique_violation e (cs_rows (tw_calls w))" and quiet: "cs_faults (tw_calls w) = []"
  shows "\<exists>w'. settled_by_reservation e w = (Ok None, w') \<and> held w' e \<and> same_approvals w w' \<and> same_executions w w'"
proof -
  obtain row where row: "row_of_entry e = Ok row" "row_parts row = Ok e"
    by (rule storable_row [OF e])
  let ?s = "(tw_calls w)\<lparr>cs_rows := cs_rows (tw_calls w) @ [row]\<rparr>"
  have "find (row_at (rk_workspace (le_key e)) (le_id e)) (cs_rows (tw_calls w)) = None"
    using fresh by (auto simp: unique_violation_def list_ex_iff find_None_iff row_at_def)
  then have "held (w\<lparr>tw_calls := ?s\<rparr>) e"
    using row row_parts_OkD(1,4) [OF row(2)] quiet by (auto simp: held_def find_append row_at_def)
  moreover have "settled_by_reservation e w = (Ok None, w\<lparr>tw_calls := ?s\<rparr>)"
    using row(1) run fresh quiet
    by (simp add: settled_by_reservation_def on_calls_def store_reserve_def eff_bind_def)
  ultimately show ?thesis by (auto simp: same_approvals_def same_executions_def)
qed

text \<open>A row that says it succeeded and carries no outcome does not load.\<close>

lemma row_parts_ErrD: "row_parts row = Err x \<Longrightarrow> \<exists>column. x = Corrupted column"
  by (auto simp: row_parts_def and_then_def parse_id_def ok_or_def parse_state_def call_stored_version_def
      parse_optional_outcome_def parse_no_effect_def split: sum.split_asm option.split_asm if_split_asm)

lemma succeeded_row_unreadable:
  assumes "tr_state row = tool_call_state_as_contract_str ToolCallState.Succeeded" and "tr_outcome row = None"
  shows "\<exists>column. stored_entry row = Err (Corrupted column)"
proof (cases "row_parts row")
  case (Inl x)
  then show ?thesis using row_parts_ErrD [OF Inl] by (auto simp: stored_entry_def)
next
  case (Inr e)
  have "le_state e = ToolCallState.Succeeded"
    using row_parts_OkD(6) [OF Inr] assms(1) parse_state_as_str [of ToolCallState.Succeeded] by simp
  moreover have "le_outcome e = None"
    using row_parts_OkD(7) [OF Inr] assms(2) by (simp add: parse_optional_outcome_def)
  ultimately show ?thesis
    using Inr by (auto simp: stored_entry_def ledger_restore_def)
qed

definition row_corrupted :: "WorkspaceId \<Rightarrow> ToolCallRecordId \<Rightarrow> CallStore \<Rightarrow> bool" where
  "row_corrupted ws i s \<longleftrightarrow>
     (\<exists>row column. find (row_at ws i) (cs_rows s) = Some row \<and> stored_entry row = Err (Corrupted column))"

lemma row_corrupted_load:
  assumes "row_corrupted ws i s"
  shows "\<not> is_ok (fst (store_load ws i s))"
    and "is_ok (fst (call_statement s)) \<Longrightarrow> \<exists>column. fst (store_load ws i s) = Err (Corrupted column)"
  using assms
  by (cases "call_statement s"; cases "fst (call_statement s)";
      auto simp: row_corrupted_def store_load_def eff_bind_def dest!: call_statement_OkD)+

lemma succeeded_unreadable:
  assumes "service_transition e ToolCallState.Succeeded None at w = (Ok e', w')"
  shows "row_corrupted (rk_workspace (le_key e)) (le_id e) (tw_calls w')"
proof -
  from assms obtain t s' where t: "ledger_apply e ToolCallState.Succeeded (le_version e) None at = (Ok t, e')"
      "store_apply_transition (rk_workspace (le_key e')) t (le_version e) e' (tw_calls w) = (Ok (), s')"
      "w' = w\<lparr>tw_calls := s'\<rparr>"
    by (rule service_transition_OkD)
  note k = ledger_apply_keeps [OF t(1)]
  obtain row where row: "find (row_at (rk_workspace (le_key e')) (le_id e')) (cs_rows s')
      = Some (updated_row e' t (le_version e') row)"
    by (rule store_apply_find [OF t(2)])
  have "\<exists>column. stored_entry (updated_row e' t (le_version e') row) = Err (Corrupted column)"
    by (rule succeeded_row_unreadable) (simp_all add: updated_row_def k(4) k(5))
  with row k t(3) show ?thesis by (auto simp: row_corrupted_def)
qed

lemma service_transition_keeps:
  "service_transition e to oc at w = (Ok e', w') \<Longrightarrow> le_id e' = le_id e \<and> le_key e' = le_key e"
  by (erule service_transition_OkD) (simp add: ledger_apply_keeps)

lemma apply_permitted_unreadable:
  assumes "apply_permitted p e d args caller w = (Ok (Completed x), w')"
  shows "row_corrupted (rk_workspace (le_key e)) (le_id e) (tw_calls w')"
  using assms unfolding apply_permitted_def
  by (auto elim!: eff_bind_OkE split: sum.split_asm dest!: service_transition_keeps succeeded_unreadable)

lemma after_decision_unreadable:
  assumes "decide p e d ws pr run args now w = (Ok r, w1)" and "after_decision p d args caller r w1 = (Ok (Completed x), w')"
  shows "row_corrupted (rk_workspace (le_key e)) (le_id e) (tw_calls w')"
proof -
  from assms(2) obtain e' where r: "r = (Permitted, e')" and a: "apply_permitted p e' d args caller w1 = (Ok (Completed x), w')"
    by (auto simp: after_decision_def split: prod.split_asm Decision.split_asm)
  from decide_PermittedD [OF assms(1) [unfolded r]] have "e' = e" by blast
  with apply_permitted_unreadable [OF a] show ?thesis by simp
qed

text \<open>The record a call of the service is about.\<close>

primrec call_record :: "ServiceCall \<Rightarrow> (WorkspaceId \<times> ToolCallRecordId) option" where
  "call_record (CallInvoke c intent key) = Some (tk_workspace c, canonical_call_id (tci_call_id intent))"
| "call_record (CallResume c approval intent) = Some (tk_workspace c, da_tool_call approval)"
| "call_record (CallAbandon ws approval) = None"

lemma invoke_unreadable:
  assumes "invoke p ws pr run intent key w = (Ok (Completed x), w')"
  shows "row_corrupted ws (canonical_call_id (tci_call_id intent)) (tw_calls w')"
proof -
  let ?e = "\<lambda>k now. first_entry (canonical_call_id (tci_call_id intent)) run k now"
  let ?c = "\<lparr>tk_workspace = ws, tk_principal = pr, tk_run = run\<rparr>"
  from assms obtain now w1 tool k settled w2 where key: "reservation_key_new (td_identity (rv_definition tool)) ws pr key = Ok k"
    and set: "settled_by_reservation (?e k now) w1 = (Ok settled, w2)"
    and rest: "(case settled of
        Some outcome \<Rightarrow> eff_return outcome
      | None \<Rightarrow>
        (case tp_validate p tool (tci_arguments intent) of
           Err why \<Rightarrow>
             eff_bind (service_transition (?e k now) ToolCallState.Denied (Some (argument_refusal_error_class why)) now) (\<lambda>_.
             eff_return (Refused (argument_refusal_error_class why) ToolCallState.Denied))
         | Ok _ \<Rightarrow>
             eff_bind (service_transition (?e k now) ToolCallState.Validated None now) (\<lambda>entry.
             eff_bind (decide p entry (rv_definition tool) ws pr run (tci_arguments intent) now) (\<lambda>r.
             after_decision p (rv_definition tool) (tci_arguments intent) ?c r)))) w2 = (Ok (Completed x), w')"
    unfolding invoke_eq by (elim eff_bind_OkE) (auto elim!: eff_bind_OkE split: option.split_asm sum.split_asm)
  have "settled = None" using set rest settled_not_completed by (cases settled) auto
  with rest obtain e3 w3 r w4 where v: "service_transition (?e k now) ToolCallState.Validated None now w2 = (Ok e3, w3)"
    and d: "decide p e3 (rv_definition tool) ws pr run (tci_arguments intent) now w3 = (Ok r, w4)"
    and aft: "after_decision p (rv_definition tool) (tci_arguments intent) ?c r w4 = (Ok (Completed x), w')"
    by (auto elim!: eff_bind_OkE split: sum.split_asm)
  have "rk_workspace k = ws" using key by (auto simp: reservation_key_new_def split: if_split_asm)
  with after_decision_unreadable [OF d aft] service_transition_keeps [OF v] show ?thesis by simp
qed

lemma deny_not_completed: "deny_waiting e c at w \<noteq> (Ok (Completed x), w')"
  by (auto simp: deny_waiting_def eff_bind_run)

lemma store_load_OkD:
  assumes "store_load ws i s = (Ok e, s')"
  shows "rk_workspace (le_key e) = ws \<and> le_id e = i"
proof -
  from assms obtain row where row: "find (row_at ws i) (cs_rows s') = Some row" "stored_entry row = Ok e"
    by (auto simp: store_load_def eff_bind_run split: option.split_asm)
  then have "row_parts row = Ok e"
    by (auto simp: stored_entry_def and_then_Ok_iff ledger_restore_def split: sum.split_asm if_split_asm)
  with row_parts_OkD(1,4) find_SomeD [OF row(1)] show ?thesis by (auto simp: row_at_def)
qed

lemma resume_unreadable:
  assumes "resume p ws pr run approval intent w = (Ok (Completed x), w')"
  shows "row_corrupted ws (da_tool_call approval) (tw_calls w')"
proof -
  from assms obtain now w1 e w2 and tool :: ResolvedTool and r w3 where
      load: "on_calls (store_load ws (da_tool_call approval)) w1 = (Ok e, w2)"
    and d: "decide p e (rv_definition tool) ws pr run (tci_arguments intent) now w2 = (Ok r, w3)"
    and aft: "after_decision p (rv_definition tool) (tci_arguments intent)
        \<lparr>tk_workspace = ws, tk_principal = pr, tk_run = run\<rparr> r w3 = (Ok (Completed x), w')"
    unfolding resume_def
    by (elim eff_bind_OkE) (auto elim!: eff_bind_OkE simp: deny_not_completed split: sum.split_asm option.split_asm if_split_asm)
  from load obtain s where "store_load ws (da_tool_call approval) (tw_calls w1) = (Ok e, s)"
    by (auto simp: on_calls_def split: prod.split_asm sum.split_asm)
  with after_decision_unreadable [OF d aft] store_load_OkD show ?thesis by fastforce
qed

lemma serve_unreadable:
  "serve p c w = (Ok (Some (Completed x)), w') \<Longrightarrow> call_record c = Some (ws, i) \<Longrightarrow> row_corrupted ws i (tw_calls w')"
  by (cases c) (auto elim!: eff_bind_OkE dest: invoke_unreadable resume_unreadable)

lemma invoke_completes:
  assumes "tp_resolve p ws (tci_capability intent) = Some tool"
    and "tp_validate p tool (tci_arguments intent) = Ok ()"
    and "reservation_key_new (td_identity (rv_definition tool)) ws pr key = Ok k"
    and "decision_at p (rv_definition tool) ws pr (tci_arguments intent) w = Some decision"
    and "pd_outcome decision = PolicyOutcome.Allow" and "PolicyReason.ApprovalMatched \<notin> set (pd_reasons decision)"
    and "\<And>n. tp_now p n \<noteq> None"
    and "\<And>q. execution_of (rv_definition tool) (tci_arguments intent) \<lparr>tk_workspace = ws, tk_principal = pr, tk_run = run\<rparr> q \<Longrightarrow>
      is_ok (tp_execute p (length (tw_executions w)) q)"
    and "\<And>now. storable (first_entry (canonical_call_id (tci_call_id intent)) run k now)"
    and "\<And>now. \<not> unique_violation (first_entry (canonical_call_id (tci_call_id intent)) run k now) (cs_rows (tw_calls w))"
    and "run \<in> set (cs_runs (tw_calls w))" and "cs_faults (tw_calls w) = []"
  shows "\<exists>q x w'. invoke p ws pr run intent key w = (Ok (Completed x), w') \<and>
    execution_of (rv_definition tool) (tci_arguments intent) \<lparr>tk_workspace = ws, tk_principal = pr, tk_run = run\<rparr> q \<and>
    tp_execute p (length (tw_executions w)) q = Ok x \<and>
    tw_executions w' = tw_executions w @ [(canonical_call_id (tci_call_id intent), q)] \<and>
    row_state ws (canonical_call_id (tci_call_id intent)) (tw_calls w') = ToolCallState.Succeeded \<and> cs_faults (tw_calls w') = []"
proof -
  let ?d = "rv_definition tool" and ?args = "tci_arguments intent"
  let ?caller = "\<lparr>tk_workspace = ws, tk_principal = pr, tk_run = run\<rparr>"
  obtain now w1 where n: "service_now p w = (Ok now, w1)" "same_calls w w1" "same_approvals w w1"
      "tp_now p (tw_clock_reads w) = Some now"
    by (rule service_now_ticks [OF assms(7)])
  let ?e = "first_entry (canonical_call_id (tci_call_id intent)) run k now"
  have k: "rk_workspace k = ws" using assms(3) by (auto simp: reservation_key_new_def split: if_split_asm)
  obtain w2 where r: "settled_by_reservation ?e w1 = (Ok None, w2)" "held w2 ?e" "same_approvals w1 w2" "same_executions w1 w2"
    using reserve_held [OF assms(9) [of now], of w1] assms(10-12) n(2) by (auto simp: same_calls_def)
  obtain e3 w3 where v: "service_transition ?e ToolCallState.Validated None now w2 = (Ok e3, w3)" "held w3 e3"
      "le_state e3 = ToolCallState.Validated" "unat (le_version e3) = Suc (unat (le_version ?e))"
      "le_id e3 = le_id ?e" "le_key e3 = le_key ?e" "tw_approvals w3 = tw_approvals w2"
      "tw_executions w3 = tw_executions w2"
    using held_transition [OF r(2), of ToolCallState.Validated None now] by auto
  have "same_approvals w w3" using n(3) r(3) v(7) by (simp add: same_approvals_def)
  then obtain w4 where d: "decide p e3 ?d ws pr run ?args now w3 = (Ok (Permitted, e3), w4)" "same_calls w3 w4"
    using decide_allows [OF assms(4-6) n(4)] by blast
  have h4: "held w4 e3" by (rule held_same [OF d(2) v(2)])
  have count: "tw_executions w4 = tw_executions w"
    using n(2) r(4) v(8) d(2) by (simp add: same_calls_def same_executions_def)
  obtain q x w' e' where x: "execution_of ?d ?args ?caller q" "tp_execute p (length (tw_executions w)) q = Ok x"
      "tw_executions w' = tw_executions w @ [(canonical_call_id (tci_call_id intent), q)]"
    and c: "apply_permitted p e3 ?d ?args ?caller w4 = (Ok (Completed x), w')" "held w' e'"
      "le_id e' = le_id e3" "le_key e' = le_key e3" "le_state e' = ToolCallState.Succeeded"
    using v(3-5) assms(8)
    by (auto intro: apply_permitted_completes [OF h4 _ _ assms(7), of ?d ?args ?caller] simp: count)
  have "invoke p ws pr run intent key w = (Ok (Completed x), w')"
    using assms(1-3) n(1) r(1) v(1) d(1) c(1)
    by (simp add: invoke_eq after_decision_def)
  moreover have "row_state ws (canonical_call_id (tci_call_id intent)) (tw_calls w') = ToolCallState.Succeeded" "cs_faults (tw_calls w') = []"
    using c(2-5) v(5,6) k row_parts_OkD(6) by (auto simp: held_def row_state_def)
  ultimately show ?thesis using x by blast
qed

definition sample_tool :: ResolvedTool where
  "sample_tool = \<lparr>rv_definition = \<lparr>td_identity = read_identity, td_display_name = ''read'', td_purpose = ''reads'',
     td_source_version = \<lparr>tv_major = 1, tv_minor = 0, tv_patch = 0, tv_pre_release = None\<rparr>,
     td_effects = [Effect.ReadOnly], td_risk = Risk.Low, td_required_scopes = [],
     td_default_approval = ApprovalHint.Allow, td_idempotency = NoIdempotency,
     td_data_classes = \<lparr>dc_input = Sensitivity.Internal, dc_output = Sensitivity.Internal\<rparr>,
     td_execution = \<lparr>xd_timeout_ms = 1000, xd_max_attempts = 1\<rparr>\<rparr>, rv_input_schema = None\<rparr>"

definition sample_ports :: ToolPorts where
  "sample_ports = \<lparr>tp_resolve = \<lambda>_ _. Some sample_tool, tp_argument_preview = \<lambda>_ _. [],
     tp_read_grants = \<lambda>_ _. Ok \<lparr>gd_grants = [sample_grant], gd_deny_rules = []\<rparr>,
     tp_validate = \<lambda>_ _. Ok (), tp_fingerprint = \<lambda>_. replicate 32 7,
     tp_execute = \<lambda>_ _. Ok \<lparr>rb_content = [], rb_provider_reference = None, rb_sensitivity = Sensitivity.Internal\<rparr>,
     tp_now = \<lambda>n. Some (50 + int n), tp_fresh_id = \<lambda>n. of_nat (n + 100), tp_show_id = \<lambda>u. show_nat (unat u),
     tp_time_text = \<lambda>_. ''t'', tp_add_millis = \<lambda>t m. Some (t + m), tp_autonomy = AutonomyLevel.Ask\<rparr>"

definition sample_intent :: ToolCallIntent where
  "sample_intent = \<lparr>tci_call_id = 11, tci_capability = ''files.read'', tci_arguments = ToolArguments ''{}'',
     tci_reason_summary = None\<rparr>"

definition sample_world :: ToolWorld where
  "sample_world = \<lparr>tw_calls = \<lparr>cs_faults = [], cs_runs = [7], cs_rows = [], cs_trail = []\<rparr>,
     tw_approvals = \<lparr>as_faults = [], as_runs = [7], as_rows = [], as_trail = []\<rparr>,
     tw_clock_reads = 0, tw_ids_drawn = 0, tw_executions = []\<rparr>"

lemma sample_setup:
  "tp_resolve sample_ports 1 (tci_capability sample_intent) = Some sample_tool"
  "tp_validate sample_ports sample_tool (tci_arguments sample_intent) = Ok ()"
  "reservation_key_new (td_identity (rv_definition sample_tool)) 1 2 ''k'' =
     Ok \<lparr>rk_identity = read_identity, rk_workspace = 1, rk_principal = 2, rk_idempotency_key = ''k''\<rparr>"
  "tp_now sample_ports n \<noteq> None" "is_ok (tp_execute sample_ports n q)"
  "storable (first_entry (canonical_call_id (tci_call_id sample_intent)) 7
     \<lparr>rk_identity = read_identity, rk_workspace = 1, rk_principal = 2, rk_idempotency_key = ''k''\<rparr> now)"
  "\<not> unique_violation (first_entry (canonical_call_id (tci_call_id sample_intent)) 7
     \<lparr>rk_identity = read_identity, rk_workspace = 1, rk_principal = 2, rk_idempotency_key = ''k''\<rparr> now)
     (cs_rows (tw_calls sample_world))"
  "7 \<in> set (cs_runs (tw_calls sample_world))" "cs_faults (tw_calls sample_world) = []"
  "canonical_call_id (tci_call_id sample_intent) = 11"
  by (simp_all add: sample_ports_def sample_intent_def sample_tool_def sample_world_def storable_def
      reservation_key_new_def TOOL_CALL_MAX_IDEMPOTENCY_KEY_BYTES_def byte_def canonical_call_id_def
      canonical_id_def unique_violation_def is_ok_iff)

lemma sample_decided:
  "\<exists>decision. decision_at sample_ports (rv_definition sample_tool) 1 2 (tci_arguments sample_intent) sample_world =
     Some decision \<and> pd_outcome decision = PolicyOutcome.Allow \<and>
     PolicyReason.ApprovalMatched \<notin> set (pd_reasons decision)"
proof -
  obtain digest where "fingerprint_of sample_ports (rv_definition sample_tool) 1 2 (tci_arguments sample_intent) = Ok digest"
    using read_parts_accepted
    by (simp add: fingerprint_of_def sample_ports_def sample_tool_def sample_intent_def read_parts_def)
  moreover have "fst (approved_for sample_ports 1 2 read_identity sample_world) = Ok []"
    by (simp add: approved_for_def on_approvals_def try_approvals_def approval_store_decided_by_def
        sample_world_def eff_bind_def sql_order_decided_def)
  moreover have "pd_outcome (evaluate_at (request_of (rv_definition sample_tool) 1 2 digest) n AutonomyLevel.Ask) =
        PolicyOutcome.Allow \<and>
      PolicyReason.ApprovalMatched \<notin> set (pd_reasons (evaluate_at (request_of (rv_definition sample_tool) 1 2 digest)
        n AutonomyLevel.Ask))"
    if "n = \<lparr>pn_now = 50, pn_grants = [sample_grant], pn_approvals = [], pn_deny_rules = []\<rparr>" for digest n
    using that
    by (simp add: sample_tool_def request_of_def sample_grant_def evaluate_at_def resolve_grant_def
        grant_applies_at_def grant_is_expired_at_def failed_constraints_def missing_scope_def
        resolve_approval_def finalize_default_def auto_allows_def
        effect_is_consequential_def less_Risk_def less_eq_Risk_def Let_def)
  ultimately show ?thesis
    by (simp add: decision_at_def) (simp add: sample_ports_def sample_tool_def sample_world_def)
qed

lemma sample_invoke:
  "\<exists>x w'. invoke sample_ports 1 2 7 sample_intent ''k'' sample_world = (Ok (Completed x), w') \<and> cs_faults (tw_calls w') = []"
  using sample_decided by (blast dest: invoke_completes [OF sample_setup(1-3) _ _ _ sample_setup(4-9)])

definition sample_call :: ServiceCall where
  "sample_call = CallInvoke \<lparr>tk_workspace = 1, tk_principal = 2, tk_run = 7\<rparr> sample_intent ''k''"

lemma sample_served: "\<exists>x w'. serve sample_ports sample_call sample_world = (Ok (Some (Completed x)), w')"
  using sample_invoke by (auto simp: sample_call_def)

text \<open>A record that is reserved, and two writers that both hold it and would dispatch it.\<close>

definition sample_reserved :: LedgerEntry where
  "sample_reserved =
     (first_entry 11 7 \<lparr>rk_identity = read_identity, rk_workspace = 1, rk_principal = 2, rk_idempotency_key = ''k''\<rparr> 0)
       \<lparr>le_state := ToolCallState.Reserved, le_version := 4\<rparr>"

definition sample_reserved_world :: ToolWorld where
  "sample_reserved_world =
     sample_world\<lparr>tw_calls := (tw_calls sample_world)\<lparr>cs_rows := (case row_of_entry sample_reserved of Ok row \<Rightarrow> [row] | Err _ \<Rightarrow> [])\<rparr>\<rparr>"

definition sample_writes :: "(LedgerEntry \<times> ToolCallState \<times> ToolErrorClass option \<times> instant) list" where
  "sample_writes =
     [(sample_reserved, ToolCallState.Executing, None, 1), (sample_reserved, ToolCallState.Executing, None, 2)]"

lemma sample_reserved_fields:
  "le_id sample_reserved = 11" "rk_workspace (le_key sample_reserved) = 1" "le_state sample_reserved = ToolCallState.Reserved"
  "le_version sample_reserved = 4" "storable sample_reserved"
  by (simp_all add: sample_reserved_def storable_def reservation_key_new_def TOOL_CALL_MAX_IDEMPOTENCY_KEY_BYTES_def byte_def
      canonical_id_def)

lemma sample_first_write:
  "\<exists>e w. record_write 1 11 sample_reserved_world (sample_writes ! 0) = (Ok e, w) \<and> le_state e = ToolCallState.Executing"
proof -
  obtain row where row: "row_of_entry sample_reserved = Ok row" "row_parts row = Ok sample_reserved"
    by (rule storable_row [OF sample_reserved_fields(5)])
  then have "held sample_reserved_world sample_reserved"
    using row_parts_OkD(1,4) [OF row(2)]
    by (simp add: held_def sample_reserved_world_def sample_world_def row_at_def)
  from held_transition [OF this, of ToolCallState.Executing None 1] show ?thesis
    by (auto simp: record_write_def sample_writes_def sample_reserved_fields)
qed

section \<open>Properties\<close>

text \<open>C4: No tool runs without permission: whatever the stores, the catalogue, the clock and the
  executor do, one call of the service reaches the executor at most once, and only for the tool
  the catalogue resolved, with the arguments the validator accepted, for the caller it was made
  for, and when the policy allowed exactly that action on the grants and approvals of the moment;
  a call that reports a completed result did reach it.\<close>

theorem tool_runs_only_when_permitted:
  assumes "serve p c w = (r, w')"
  shows "(tw_executions w' = tw_executions w \<and> (\<forall>x. r \<noteq> Ok (Some (Completed x)))) \<or>
    (\<exists>k intent i q. call_request c = Some (k, intent) \<and> entitled p k intent w q \<and>
       tw_executions w' = tw_executions w @ [(i, q)])"
  by (rule executes_serve [OF assms])

theorem tool_runs_only_when_permitted_witness:
  "\<exists>x w' i q. serve sample_ports sample_call sample_world = (Ok (Some (Completed x)), w') \<and>
     entitled sample_ports \<lparr>tk_workspace = 1, tk_principal = 2, tk_run = 7\<rparr> sample_intent sample_world q \<and>
     tw_executions w' = [(i, q)]"
proof -
  obtain x w' where run: "serve sample_ports sample_call sample_world = (Ok (Some (Completed x)), w')"
    using sample_served by blast
  from tool_runs_only_when_permitted [OF this] run show ?thesis
    by (auto simp: sample_call_def sample_world_def)
qed

text \<open>C5: No record is executed twice: over any sequence of calls, resumptions and abandonments, each
  with its own catalogue, grants, clock and executor and with any database faults, every execution
  asked for belongs to a different record.\<close>

theorem record_executed_at_most_once:
  assumes "distinct (map tr_id (cs_rows (tw_calls w)))" and "tw_executions w = []"
  shows "distinct (map fst (tw_executions (fold (\<lambda>(p, c) w. snd (serve p c w)) cs w)))"
proof -
  have "executions_ok (fold (\<lambda>(p, c) w. snd (serve p c w)) cs w)" if "executions_ok w" for w
    using that executions_ok_serve
    by (induction cs arbitrary: w) (auto simp: preserves_def)
  moreover have "executions_ok w" using assms by (simp add: executions_ok_def)
  ultimately show ?thesis by (simp add: executions_ok_def)
qed

theorem record_executed_at_most_once_witness:
  "distinct (map fst (tw_executions (fold (\<lambda>(p, c) w. snd (serve p c w))
     [(sample_ports, sample_call), (sample_ports, sample_call)] sample_world)))"
  by (rule record_executed_at_most_once) (simp_all add: sample_world_def)

text \<open>C6: Of concurrent writers of one ledger record only one dispatches it: whatever snapshots of the
  entry they hold and however their writes interleave, with each other and with writes to other
  records, at most one move to \<open>Executing\<close> is accepted, and of two offers made from the same version
  at most one is.\<close>

theorem one_writer_dispatches:
  assumes "run_steps (record_write ws i) w cs = (rs, w')" and "k < l" and "l < length cs"
  shows "(rs ! k = Ok e \<and> rs ! l = Ok e' \<longrightarrow> le_state e \<noteq> le_state e') \<and>
    (le_version (fst (cs ! k)) = le_version (fst (cs ! l)) \<and> is_ok (rs ! k) \<longrightarrow> \<not> is_ok (rs ! l))"
proof -
  have "le_state e \<noteq> le_state e'" if "rs ! k = Ok e" "rs ! l = Ok e'"
    by (rule record_stages.history_distinct [OF assms that])
  moreover have "\<not> is_ok (rs ! l)" if "le_version (fst (cs ! k)) = le_version (fst (cs ! l))" "is_ok (rs ! k)"
    by (rule record_versions.single_winner [OF assms that])
  ultimately show ?thesis by blast
qed

theorem one_writer_dispatches_witness:
  "\<exists>e. fst (run_steps (record_write 1 11) sample_reserved_world sample_writes) ! 0 = Ok e \<and>
     le_state e = ToolCallState.Executing \<and>
     \<not> is_ok (fst (run_steps (record_write 1 11) sample_reserved_world sample_writes) ! 1)"
proof -
  obtain e w where first: "record_write 1 11 sample_reserved_world (sample_writes ! 0) = (Ok e, w)"
      "le_state e = ToolCallState.Executing"
    using sample_first_write by blast
  have writes: "sample_writes = [sample_writes ! 0, sample_writes ! 1]"
      "le_version (fst (sample_writes ! 0)) = le_version (fst (sample_writes ! 1))"
    by (simp_all add: sample_writes_def)
  then have "fst (run_steps (record_write 1 11) sample_reserved_world sample_writes) ! 0 = Ok e"
    using first by (simp add: sample_writes_def split: prod.split)
  with one_writer_dispatches [of 1 11 sample_reserved_world sample_writes _ _ 0 1, OF prod.collapse [symmetric]] writes first(2)
  show ?thesis by (auto simp: sample_writes_def is_ok_iff)
qed

lemma consume_approved:
  assumes "da_state a = ApprovalState.Approved" and "da_version a = 2"
  obtains t b where "approval_apply a ApprovalState.Consumed 2 (ActorConsumed c) at = (Ok t, b)"
    and "at_to t = ApprovalState.Consumed" and "at_version t = 3" and "da_id b = da_id a"
    and "at_prior_version t = 2" and "da_state b = ApprovalState.Consumed" and "da_version b = 3"
  using assms by (simp add: approval_apply_def actor_channel_def Let_def record_decision_def)

lemma parse_approval_state_as_str: "parse_approval_state (approval_state_as_contract_str st) = Ok st"
  by (simp add: parse_approval_state_def approval_state_spelling.parse_as_str)

lemma stored_version_small: "aw_version row = v \<Longrightarrow> v \<in> {2, 3} \<Longrightarrow> approval_stored_version row = Ok v"
  by (auto simp: approval_stored_version_def u64_of_i64_def)

lemma spend_writes:
  assumes found: "find (approval_row_at ws (da_id b)) (as_rows s) = Some row"
    and row: "aw_state row = approval_state_as_contract_str ApprovalState.Approved" "aw_version row = 2"
    and t: "at_to t = ApprovalState.Consumed" "at_version t = 3" "at_prior_version t = 2"
    and b: "da_version b = 3" and quiet: "as_faults s = []"
  obtains s' where "approval_store_apply ws t 2 actor b s = (Ok Applied, s')" and "as_faults s' = []"
    and "find (approval_row_at ws (da_id b)) (as_rows s') = Some (decided_row b t 3 row)"
proof -
  have st: "parse_approval_state (aw_state row) = Ok ApprovalState.Approved"
    unfolding row(1) by (rule parse_approval_state_as_str)
  have v: "approval_stored_version row = Ok 2" using row(2) by (intro stored_version_small) auto
  have i64: "i64_of_u64 2 = Some 2" "i64_of_u64 3 = Some 3" by (simp_all add: i64_of_u64_def)
  have hit: "filter (\<lambda>r. approval_row_at ws (da_id b) r \<and> aw_version r = 2) (as_rows s) \<noteq> []"
    using find_SomeD [OF found] row(2) by (auto simp: filter_empty_conv)
  let ?up = "map (\<lambda>r. if approval_row_at ws (da_id b) r \<and> aw_version r = 2 then decided_row b t 3 r else r) (as_rows s)"
  have at: "approval_row_at ws (da_id b) (decided_row b t 3 r) = approval_row_at ws (da_id b) r" for r
    by (simp add: approval_row_at_def decided_row_def)
  have up: "find (approval_row_at ws (da_id b)) ?up = Some (decided_row b t 3 row)"
    by (subst find_map_same) (simp_all add: at found row(2) find_SomeD [OF found])
  have "\<exists>trail. approval_store_apply ws t 2 actor b s = (Ok Applied, s\<lparr>as_rows := ?up, as_trail := trail\<rparr>)"
    using found st v t b quiet hit i64
    by (simp add: approval_store_apply_def approval_transaction_def sql_update_def
        approval_version_to_i64_def) (blast intro: refl)
  with up quiet show thesis by (auto intro: that)
qed

text \<open>C23: A one-shot approval can be spent twice: two calls that read the same approved one-shot
  approval before either spent it are both permitted, since the second spending finds the row
  already in the state and version it would write and the store answers that as a success, not
  as the version conflict the service refuses on.\<close>

theorem one_shot_approval_spent_twice:
  assumes "matched_approval approved ws pr digest now = Some a"
    and "matched_approval approved' ws pr digest now' = Some a"
    and "is_consumed_on_use (da_scope a)" and "da_state a = ApprovalState.Approved"
    and "find (approval_row_at ws (da_id a)) (as_rows (tw_approvals w)) = Some row"
    and "stored_as row a" and "as_faults (tw_approvals w) = []"
  shows "\<exists>w'. spend_approval e approved ws pr digest now w = (Ok (Permitted, e), w') \<and>
    spend_approval e' approved' ws pr digest now' w' = (Ok (Permitted, e'), w')"
proof -
  have "approval_shape a" "row_holds row a" using stored_as_holds [OF assms(6)] by simp_all
  with assms(4) have v: "da_version a = 2" "aw_version row = 2"
      "aw_state row = approval_state_as_contract_str ApprovalState.Approved"
    by (simp_all add: approval_shape_def row_holds_def)
  obtain t b where t: "approval_apply a ApprovalState.Consumed 2 (ActorConsumed (le_call_id e)) now = (Ok t, b)"
      "at_to t = ApprovalState.Consumed" "at_version t = 3" "da_id b = da_id a" "at_prior_version t = 2"
      "da_state b = ApprovalState.Consumed" "da_version b = 3"
    by (rule consume_approved [OF assms(4) v(1)])
  obtain t' b' where t': "approval_apply a ApprovalState.Consumed 2 (ActorConsumed (le_call_id e')) now' = (Ok t', b')"
      "at_to t' = ApprovalState.Consumed" "at_version t' = 3" "da_id b' = da_id a"
    by (rule consume_approved [OF assms(4) v(1)])
  obtain s' where s': "approval_store_apply ws t 2 (at_actor t) b (tw_approvals w) = (Ok Applied, s')"
      "as_faults s' = []" "find (approval_row_at ws (da_id a)) (as_rows s') = Some (decided_row b t 3 row)"
    using spend_writes [of ws b "tw_approvals w" row t "at_actor t"] assms(5,7) v t by auto
  have "parse_approval_state (aw_state (decided_row b t 3 row)) = Ok ApprovalState.Consumed"
    using parse_approval_state_as_str [of ApprovalState.Consumed] by (simp add: decided_row_def t(6))
  moreover have "approval_stored_version (decided_row b t 3 row) = Ok 3"
    by (rule stored_version_small) (simp_all add: decided_row_def)
  ultimately have again: "approval_store_apply ws t' 2 (at_actor t') b' s' = (Ok AlreadyInState, s')"
    using s'(2,3) t'(2-4)
    by (simp add: approval_store_apply_def approval_transaction_def)
  let ?w = "w\<lparr>tw_approvals := s'\<rparr>"
  have "spend_approval e approved ws pr digest now w = (Ok (Permitted, e), ?w)"
    using assms(1,3) v(1) t(1) s'(1) by (simp add: spend_approval_def try_approvals_def eff_bind_run)
  moreover have "spend_approval e' approved' ws pr digest now' ?w = (Ok (Permitted, e'), ?w)"
    using assms(2,3) v(1) t'(1) again by (simp add: spend_approval_def try_approvals_def eff_bind_run)
  ultimately show ?thesis by blast
qed

text \<open>The approval of the samples, approved and stored, read by two calls.\<close>

theorem one_shot_approval_spent_twice_witness:
  "\<exists>a row w'. da_state a = ApprovalState.Approved \<and>
     spend_approval sample_entry [a] (da_workspace a) (da_requesting_principal a) (da_action_digest a) 50
       (sample_world\<lparr>tw_approvals := \<lparr>as_faults = [], as_runs = [], as_rows = [row], as_trail = []\<rparr>\<rparr>) =
       (Ok (Permitted, sample_entry), w') \<and>
     spend_approval (sample_entry\<lparr>le_id := 8, le_call_id := 8\<rparr>) [a] (da_workspace a) (da_requesting_principal a)
       (da_action_digest a) 51 w' = (Ok (Permitted, sample_entry\<lparr>le_id := 8, le_call_id := 8\<rparr>), w')"
proof (rule sample_approved)
  fix t a row
  assume app: "approval_apply sample_approval ApprovalState.Approved (da_version sample_approval)
      (ActorDecided 2 Cli Standard None) 10 = (Ok t, a)"
    and a: "stored_as row a" "da_state a = ApprovalState.Approved" "row_holds row a"
  have k: "da_expires_at a = 100" "da_scope a = OneShot"
    using approval_apply_keeps [OF app] by (simp_all add: sample_approval_def approval_request_def sample_parts_def)
  have m: "matched_approval [a] (da_workspace a) (da_requesting_principal a) (da_action_digest a) now = Some a"
    if "now < 100" for now
    using k that by (simp add: matched_approval_def is_consumed_on_use_def)
  let ?w = "sample_world\<lparr>tw_approvals := \<lparr>as_faults = [], as_runs = [], as_rows = [row], as_trail = []\<rparr>\<rparr>"
  have "find (approval_row_at (da_workspace a) (da_id a)) (as_rows (tw_approvals ?w)) = Some row"
    using a(3) by (simp add: approval_row_at_def row_holds_def)
  then show ?thesis
    using one_shot_approval_spent_twice [OF m [of 50] m [of 51] _ a(2) _ a(1), of ?w sample_entry
        "sample_entry\<lparr>le_id := 8, le_call_id := 8\<rparr>"] a(2) k
    by (auto simp: is_consumed_on_use_def)
qed

text \<open>C15: A permitted call completes. When every statement of the store runs, the clock answers, the run is known, the
  reservation is new (no record has its identifier or its key) and the identifiers and the key can be stored, a call whose
  tool resolves, whose arguments validate, which the policy allows without an approval and which the executor carries
  out runs exactly once: the executor is asked for that tool with those arguments and that caller, the call returns the
  result the executor gave to that request, and its record ends as succeeded.\<close>

theorem permitted_call_completes:
  assumes "tp_resolve p ws (tci_capability intent) = Some tool"
    and "tp_validate p tool (tci_arguments intent) = Ok ()"
    and "reservation_key_new (td_identity (rv_definition tool)) ws pr key = Ok k"
    and "decision_at p (rv_definition tool) ws pr (tci_arguments intent) w = Some decision"
    and "pd_outcome decision = PolicyOutcome.Allow" and "PolicyReason.ApprovalMatched \<notin> set (pd_reasons decision)"
    and "\<And>n. tp_now p n \<noteq> None"
    and "\<And>q. execution_of (rv_definition tool) (tci_arguments intent) \<lparr>tk_workspace = ws, tk_principal = pr, tk_run = run\<rparr> q \<Longrightarrow>
      is_ok (tp_execute p (length (tw_executions w)) q)"
    and "\<And>now. storable (first_entry (canonical_call_id (tci_call_id intent)) run k now)"
    and "\<And>now. \<not> unique_violation (first_entry (canonical_call_id (tci_call_id intent)) run k now) (cs_rows (tw_calls w))"
    and "run \<in> set (cs_runs (tw_calls w))" and "cs_faults (tw_calls w) = []"
  shows "\<exists>q x w'. invoke p ws pr run intent key w = (Ok (Completed x), w') \<and>
    execution_of (rv_definition tool) (tci_arguments intent) \<lparr>tk_workspace = ws, tk_principal = pr, tk_run = run\<rparr> q \<and>
    tp_execute p (length (tw_executions w)) q = Ok x \<and>
    tw_executions w' = tw_executions w @ [(canonical_call_id (tci_call_id intent), q)] \<and>
    row_state ws (canonical_call_id (tci_call_id intent)) (tw_calls w') = ToolCallState.Succeeded"
  using invoke_completes [OF assms] by blast

theorem permitted_call_completes_witness:
  "\<exists>q w'. invoke sample_ports 1 2 7 sample_intent ''k'' sample_world =
       (Ok (Completed \<lparr>rb_content = [], rb_provider_reference = None, rb_sensitivity = Sensitivity.Internal\<rparr>), w') \<and>
     tw_executions w' = [(11, q)] \<and> xq_arguments q = ToolArguments ''{}'' \<and>
     row_state 1 11 (tw_calls w') = ToolCallState.Succeeded"
proof -
  obtain decision where d: "decision_at sample_ports (rv_definition sample_tool) 1 2 (tci_arguments sample_intent) sample_world =
      Some decision" "pd_outcome decision = PolicyOutcome.Allow" "PolicyReason.ApprovalMatched \<notin> set (pd_reasons decision)"
    using sample_decided by blast
  from permitted_call_completes [OF sample_setup(1-3) d sample_setup(4-9)] show ?thesis
    unfolding sample_setup(10)
    by (auto simp: execution_of_def) (auto simp: sample_ports_def sample_world_def sample_intent_def)
qed

text \<open>C27: The record of a call that completed cannot be read again: the service ends a successful call, invoked or
  resumed, without an outcome, and the store refuses to load a finished record that has none. So loading the record fails
  whatever the database does, and resuming the call in its workspace, by whomever and with whatever approval names it,
  reports a corrupted row where it means to answer that the call is a duplicate, once the clock and the statement that reads the row
  answer.\<close>

theorem completed_call_unreadable:
  assumes "serve p c w = (Ok (Some (Completed x)), w')" and "call_record c = Some (ws, i)"
    and "da_tool_call approval = i"
  shows "\<not> is_ok (fst (store_load ws i (tw_calls w'))) \<and>
    (tp_now p' (tw_clock_reads w') \<noteq> None \<and> is_ok (fst (call_statement (tw_calls w'))) \<longrightarrow>
     (\<exists>column. fst (resume p' ws pr run approval intent w') = Err (Storage (Corrupted column))))"
proof -
  note bad = row_corrupted_load [OF serve_unreadable [OF assms(1,2)]]
  show ?thesis
    using bad assms(3)
    by (auto simp: resume_def service_now_def on_calls_def eff_bind_def split: prod.split)
qed

theorem completed_call_unreadable_witness:
  "\<exists>x w' column. serve sample_ports sample_call sample_world = (Ok (Some (Completed x)), w') \<and>
     fst (resume sample_ports 1 2 7 (sample_approval\<lparr>da_tool_call := 11\<rparr>) sample_intent w') = Err (Storage (Corrupted column))"
proof -
  obtain x w' where run: "invoke sample_ports 1 2 7 sample_intent ''k'' sample_world = (Ok (Completed x), w')"
      "cs_faults (tw_calls w') = []"
    using sample_invoke by blast
  then have served: "serve sample_ports sample_call sample_world = (Ok (Some (Completed x)), w')"
    by (simp add: sample_call_def)
  have "is_ok (fst (call_statement (tw_calls w')))" using run(2) by (simp add: is_ok_iff)
  moreover have "call_record sample_call = Some (1, 11)" using sample_setup(10) by (simp add: sample_call_def)
  ultimately show ?thesis
    using completed_call_unreadable [OF served, of 1 11 "sample_approval\<lparr>da_tool_call := 11\<rparr>" sample_ports 2 7 sample_intent]
      sample_setup(4) served by auto
qed

end
