(* ===== verification/Tool_Recovery.thy ===== *)
theory Tool_Recovery
  imports Tool_Store
begin

text \<open>
  \<open>jarvis-application/src/tool_recovery.rs\<close> and the two scans of
  \<open>jarvis-infrastructure/src/storage/tool_call_repository.rs\<close>: the pass that settles, at startup, the
  calls a restart interrupted. The pass reads pages of stranded rows until a page says it is done.
  The runs that hold a resume record are another table's rows, which the pass only reads: they are
  an argument, as is the text of an instant that the statement orders by.
\<close>

section \<open>The scans\<close>

definition MAX_EFFECTING_SCAN :: u32 where "MAX_EFFECTING_SCAN = 500"

record EffectingScan =
  es_records :: "LedgerEntry list"
  es_bounded :: bool

text \<open>\<open>AWAITING_CONVERSION_SQL\<close> and \<open>EFFECTING_SQL\<close>: what the two statements select.\<close>

definition awaits_conversion :: "(WorkspaceId \<times> RunId) list \<Rightarrow> ToolCallRow \<Rightarrow> bool" where
  "awaits_conversion parked row \<longleftrightarrow>
     tr_state row \<in> {''requested'', ''validated'', ''waiting_approval'', ''approved'', ''reserved'', ''executing''} \<and>
     tr_outcome row = None \<and>
     \<not> (tr_state row = ''waiting_approval'' \<and> (tr_workspace_id row, tr_run_id row) \<in> set parked)"

definition may_be_effecting :: "ToolCallRow \<Rightarrow> bool" where
  "may_be_effecting row \<longleftrightarrow> tr_state row \<in> {''executing'', ''reconciling''} \<and> tr_outcome row = None"

fun collect_entries :: "ToolCallRow list \<Rightarrow> RepositoryError + LedgerEntry list" where
  "collect_entries [] = Ok []"
| "collect_entries (r # rs) =
     and_then (stored_entry r) (\<lambda>e. and_then (collect_entries rs) (\<lambda>es. Ok (e # es)))"

definition scan_calls ::
  "(instant \<Rightarrow> string) \<Rightarrow> (ToolCallRow \<Rightarrow> bool) \<Rightarrow> u32 \<Rightarrow> (CallStore, RepositoryError, EffectingScan) eff"
where
  "scan_calls time_text selects limit =
     eff_bind call_statement (\<lambda>_ s.
       let rows = take (unat (saturating_add limit 1))
                    (sort_key (\<lambda>r. time_text (tr_updated_at r)) (filter selects (cs_rows s)))
       in (and_then (collect_entries (take (unat limit) rows)) (\<lambda>records.
             Ok \<lparr>es_records = records, es_bounded = (length rows > unat limit)\<rparr>), s))"

definition awaiting_conversion ::
  "(instant \<Rightarrow> string) \<Rightarrow> (WorkspaceId \<times> RunId) list \<Rightarrow> u32 \<Rightarrow> (CallStore, RepositoryError, EffectingScan) eff"
where
  "awaiting_conversion time_text parked limit = scan_calls time_text (awaits_conversion parked) limit"

definition possibly_effecting ::
  "(instant \<Rightarrow> string) \<Rightarrow> u32 \<Rightarrow> (CallStore, RepositoryError, EffectingScan) eff"
where
  "possibly_effecting time_text limit = scan_calls time_text may_be_effecting limit"

section \<open>The pass\<close>

datatype ToolRecoveryError = Read RepositoryError

primrec tool_recovery_error_code :: "ToolRecoveryError \<Rightarrow> string" where
  "tool_recovery_error_code (Read error) = repository_error_code error"

record ToolRecoveryReport =
  rr_reconciling :: u64
  rr_cancelled :: u64
  rr_failures :: "(ToolCallRecordId \<times> string) list"
  rr_incomplete_store :: bool

definition report_default :: ToolRecoveryReport where
  "report_default = \<lparr>rr_reconciling = 0, rr_cancelled = 0, rr_failures = [], rr_incomplete_store = False\<rparr>"

definition report_changed :: "ToolRecoveryReport \<Rightarrow> u64" where
  "report_changed r = rr_reconciling r + rr_cancelled r"

definition report_examined :: "ToolRecoveryReport \<Rightarrow> u64" where
  "report_examined r = report_changed r"

definition report_is_complete :: "ToolRecoveryReport \<Rightarrow> bool" where
  "report_is_complete r \<longleftrightarrow> rr_failures r = [] \<and> \<not> rr_incomplete_store r"

definition report_examined_anything :: "ToolRecoveryReport \<Rightarrow> bool" where
  "report_examined_anything r \<longleftrightarrow> report_examined r > 0 \<or> rr_failures r \<noteq> []"

definition settle ::
  "LedgerEntry \<Rightarrow> InterruptedCallAction \<Rightarrow> instant \<Rightarrow> (CallStore, string, unit) eff"
where
  "settle entry action at =
     (if \<not> needs_write action then eff_return ()
      else
        (let expected = le_version entry;
             target = interrupted_target_state action;
             outcome = (if tool_state_is_terminal target then Some ToolErrorClass.Cancelled else None)
         in case ledger_apply entry target expected outcome at of
              (Err _, _) \<Rightarrow> eff_throw ''tool.state_conflict''
            | (Ok transition, row) \<Rightarrow>
                eff_try (store_apply_transition (rk_workspace (le_key entry)) transition expected row)
                  (\<lambda>r. case r of Ok _ \<Rightarrow> eff_return () | Err error \<Rightarrow> eff_throw (repository_error_code error))))"

definition apply_recovery ::
  "instant \<Rightarrow> LedgerEntry \<Rightarrow> ToolRecoveryReport \<times> CallStore \<Rightarrow> ToolRecoveryReport \<times> CallStore"
where
  "apply_recovery at entry w =
     (case w of (report, s) \<Rightarrow>
        (case classify_interrupted (le_state entry) of
           None \<Rightarrow> (report, s)
         | Some action \<Rightarrow>
             (case settle entry action at s of
                (Ok _, s') \<Rightarrow>
                  (case action of
                     ReconcileCall _ \<Rightarrow> (report\<lparr>rr_reconciling := saturating_add (rr_reconciling report) 1\<rparr>, s')
                   | SafeToRetry _ \<Rightarrow> (report\<lparr>rr_cancelled := saturating_add (rr_cancelled report) 1\<rparr>, s'))
              | (Err code, s') \<Rightarrow> (report\<lparr>rr_failures := rr_failures report @ [(le_id entry, code)]\<rparr>, s'))))"

datatype PageOutcome = Drained | More | Stalled

definition outcome_of :: "bool \<Rightarrow> u64 \<Rightarrow> nat \<Rightarrow> PageOutcome" where
  "outcome_of bounded moved failed =
     (if \<not> bounded then Drained
      else if moved \<ge> 1 then More
      else if failed = 0 then Drained
      else Stalled)"

text \<open>The \<open>for\<close> over the records of one page.\<close>

definition apply_page ::
  "instant \<Rightarrow> LedgerEntry list \<Rightarrow> ToolRecoveryReport \<Rightarrow> CallStore \<Rightarrow> ToolRecoveryReport \<times> CallStore"
where
  "apply_page at entries report s = fold (apply_recovery at) entries (report, s)"

section \<open>Progress\<close>

text \<open>The rows in a state the pass converts, whatever their other columns.\<close>

definition row_live :: "ToolCallRow \<Rightarrow> bool" where
  "row_live row \<longleftrightarrow>
     tr_state row \<in> {''requested'', ''validated'', ''waiting_approval'', ''approved'', ''reserved'', ''executing''}"

definition live_rows :: "CallStore \<Rightarrow> nat" where
  "live_rows s = length (filter row_live (cs_rows s))"

lemma live_rows_faults [simp]: "live_rows (s\<lparr>cs_faults := fs\<rparr>) = live_rows s"
  by (simp add: live_rows_def)

lemma row_live_iff:
  "parse_state (tr_state row) = Ok st \<Longrightarrow>
     row_live row \<longleftrightarrow> \<not> tool_state_is_terminal st \<and> st \<noteq> ToolCallState.Reconciling"
proof -
  assume "parse_state (tr_state row) = Ok st"
  then have "tr_state row = tool_call_state_as_contract_str st"
    by (auto simp: parse_state_def ok_or_Ok_iff tool_state_spelling.parse_Some_iff)
  then show ?thesis by (cases st) (simp_all add: row_live_def)
qed

lemma settle_progress:
  assumes "settle e a at s = (Ok u, s')" and "needs_write a"
  shows "live_rows s' < live_rows s"
proof -
  let ?to = "interrupted_target_state a"
  have to: "?to = ToolCallState.Cancelled \<or> ?to = ToolCallState.Reconciling" by (cases a) simp_all
  from assms obtain t e' where app: "ledger_apply e ?to (le_version e)
      (if tool_state_is_terminal ?to then Some ToolErrorClass.Cancelled else None) at = (Ok t, e')"
    and st: "store_apply_transition (rk_workspace (le_key e)) t (le_version e) e' s = (Ok (), s')"
    by (auto simp: settle_def eff_try_def Let_def simp del: tool_state_is_terminal_def
        split: prod.split_asm sum.split_asm)
  note st' = ledger_apply_keeps(4) [OF app] ledger_apply_record(2) [OF app]
  obtain row p m x where row: "find (row_at (rk_workspace (le_key e)) (le_id e')) (cs_rows s) = Some row"
      "parse_state (tr_state row) = Ok p" "call_stored_version row = Ok (le_version e)"
      "tool_can_transition_to p ?to" "i64_of_u64 (le_version e) = Some x"
    and rows: "cs_rows s' = map (\<lambda>r. if row_at (rk_workspace (le_key e)) (le_id e') r \<and> tr_version r = x
                              then updated_row e' t m r else r) (cs_rows s)"
    by (rule store_apply_OkD [OF st, unfolded st'])
  have dead: "\<not> row_live (updated_row e' t m r)" for r
    using to by (auto simp: row_live_def updated_row_def st')
  have "row_live row" using row(2,4) to by (auto simp: row_live_iff)
  moreover have "row \<in> set (cs_rows s)" "row_at (rk_workspace (le_key e)) (le_id e') row" "tr_version row = x"
    using row by (auto dest!: find_SomeD call_stored_version_eq i64_of_u64_eq)
  ultimately show ?thesis
    unfolding live_rows_def rows
    by (intro length_filter_map_less [of _ _ row]) (auto simp: dead split: if_split_asm)
qed

lemma settle_fails_same:
  assumes "settle e a at s = (Err c, s')"
  shows "\<exists>fs. s' = s\<lparr>cs_faults := fs\<rparr>"
proof -
  have "s = s\<lparr>cs_faults := cs_faults s\<rparr>" by simp
  then show ?thesis
    using assms
    by (auto simp: settle_def eff_try_def Let_def simp del: tool_state_is_terminal_def
        split: prod.split_asm sum.split_asm if_split_asm dest: store_apply_ErrD intro: exI [of _ "cs_faults s"])
qed

text \<open>The records a page holds are live, so what the pass counts as settled has left the set.\<close>

definition entry_live :: "LedgerEntry \<Rightarrow> bool" where
  "entry_live e \<longleftrightarrow> \<not> tool_state_is_terminal (le_state e) \<and> le_state e \<noteq> ToolCallState.Reconciling"

lemma entry_live_action:
  assumes "entry_live e"
  obtains a where "classify_interrupted (le_state e) = Some a" and "needs_write a"
  using assms by (cases "le_state e") (auto simp: entry_live_def classify_interrupted_def needs_write_def)

lemma apply_recovery_progress:
  assumes "entry_live e" and "apply_recovery at e (r, s) = (r', s')"
  shows "(report_changed r' = report_changed r \<and> live_rows s' = live_rows s) \<or> live_rows s' < live_rows s"
proof -
  obtain a where a: "classify_interrupted (le_state e) = Some a" "needs_write a"
    by (rule entry_live_action [OF assms(1)])
  show ?thesis
  proof (cases "settle e a at s")
    case (Pair q t)
    show ?thesis
    proof (cases q)
      case (Inl c)
      with Pair a assms(2) show ?thesis
        by (auto simp: apply_recovery_def report_changed_def dest!: settle_fails_same)
    next
      case (Inr u)
      with Pair a have "live_rows t < live_rows s" by (auto dest: settle_progress)
      moreover have "s' = t" using Pair Inr a assms(2) by (cases a) (auto simp: apply_recovery_def)
      ultimately show ?thesis by simp
    qed
  qed
qed

lemma apply_page_progress:
  assumes "list_all entry_live es" and "apply_page at es r s = (r', s')"
  shows "(report_changed r' = report_changed r \<and> live_rows s' = live_rows s) \<or> live_rows s' < live_rows s"
  using assms
proof (induction es arbitrary: r s)
  case (Cons e es)
  obtain r1 s1 where 1: "apply_recovery at e (r, s) = (r1, s1)" by fastforce
  with Cons.prems have "apply_page at es r1 s1 = (r', s')" by (simp add: apply_page_def)
  with Cons.IH [of r1 s1] apply_recovery_progress [OF _ 1] Cons.prems show ?case by auto
qed (simp add: apply_page_def)

lemma stored_entry_parts: "stored_entry row = Ok e \<Longrightarrow> row_parts row = Ok e"
  by (auto simp: stored_entry_def ledger_restore_def and_then_Ok_iff split: sum.split_asm if_split_asm)

lemma collect_entries_Ok_iff: "collect_entries rows = Ok es \<longleftrightarrow> list_all2 (\<lambda>r e. stored_entry r = Ok e) rows es"
  by (induction rows arbitrary: es) (auto simp: and_then_Ok_iff list_all2_Cons1)

lemma stored_entry_live: "stored_entry row = Ok e \<Longrightarrow> row_live row \<Longrightarrow> entry_live e"
  using row_parts_OkD(6) [OF stored_entry_parts] row_live_iff by (auto simp: entry_live_def)

lemma scan_Ok:
  assumes "scan_calls tt selects limit s = (Ok sc, s')"
  shows "s' = s\<lparr>cs_faults := tl (cs_faults s)\<rparr>"
    and "list_all2 (\<lambda>r e. stored_entry r = Ok e)
       (take (unat limit) (take (unat (saturating_add limit 1))
          (sort_key (\<lambda>r. tt (tr_updated_at r)) (filter selects (cs_rows s))))) (es_records sc)"
    and "es_bounded sc \<longleftrightarrow> unat limit < length (take (unat (saturating_add limit 1))
          (sort_key (\<lambda>r. tt (tr_updated_at r)) (filter selects (cs_rows s))))"
proof -
  from assms obtain u t where t: "call_statement s = (Ok u, t)" and s': "s' = t"
    and sc: "collect_entries (take (unat limit) (take (unat (saturating_add limit 1))
          (sort_key (\<lambda>r. tt (tr_updated_at r)) (filter selects (cs_rows t))))) = Ok (es_records sc)"
      "es_bounded sc \<longleftrightarrow> unat limit < length (take (unat (saturating_add limit 1))
          (sort_key (\<lambda>r. tt (tr_updated_at r)) (filter selects (cs_rows t))))"
    by (auto simp: scan_calls_def Let_def eff_bind_run and_then_Ok_iff)
  from call_statement_OkD [OF t] have rows: "cs_rows t = cs_rows s" by simp
  show "s' = s\<lparr>cs_faults := tl (cs_faults s)\<rparr>" using call_statement_OkD [OF t] s' by simp
  show "list_all2 (\<lambda>r e. stored_entry r = Ok e)
       (take (unat limit) (take (unat (saturating_add limit 1))
          (sort_key (\<lambda>r. tt (tr_updated_at r)) (filter selects (cs_rows s))))) (es_records sc)"
    using sc(1) by (simp only: rows collect_entries_Ok_iff)
  show "es_bounded sc \<longleftrightarrow> unat limit < length (take (unat (saturating_add limit 1))
          (sort_key (\<lambda>r. tt (tr_updated_at r)) (filter selects (cs_rows s))))"
    using sc(2) by (simp only: rows)
qed

lemma awaiting_records_live:
  assumes "awaiting_conversion tt parked limit s = (Ok sc, s')"
  shows "list_all entry_live (es_records sc)" and "live_rows s' = live_rows s"
proof -
  note sc = scan_Ok [OF assms [unfolded awaiting_conversion_def]]
  have "entry_live e" if "e \<in> set (es_records sc)" for e
  proof -
    from that sc(2) obtain r where r: "stored_entry r = Ok e"
        "r \<in> set (take (unat limit) (take (unat (saturating_add limit 1))
          (sort_key (\<lambda>r. tt (tr_updated_at r)) (filter (awaits_conversion parked) (cs_rows s)))))"
      by (auto dest: list_all2_in_set)
    then have "awaits_conversion parked r" by (auto dest!: in_set_takeD)
    then have "row_live r" by (simp add: awaits_conversion_def row_live_def)
    with r(1) show ?thesis by (rule stored_entry_live)
  qed
  then show "list_all entry_live (es_records sc)" by (simp add: list_all_iff)
  show "live_rows s' = live_rows s" by (simp add: sc(1))
qed

section \<open>The loop\<close>

lemma page_more_progress:
  assumes "awaiting_conversion tt parked limit s = (Ok sc, s1)"
    and "apply_page at (es_records sc) r s1 = (r', s2)"
    and "outcome_of b (report_changed r' - report_changed r) f = More"
  shows "live_rows s2 < live_rows s"
  using apply_page_progress [OF awaiting_records_live(1) [OF assms(1)] assms(2)]
    awaiting_records_live(2) [OF assms(1)] assms(3)
  by (auto simp: outcome_of_def split: if_split_asm)

function reconcile_loop ::
  "(instant \<Rightarrow> string) \<Rightarrow> (WorkspaceId \<times> RunId) list \<Rightarrow> instant \<Rightarrow> ToolRecoveryReport \<Rightarrow>
   (CallStore, ToolRecoveryError, ToolRecoveryReport) eff"
where
  "reconcile_loop time_text parked at report s =
     (case awaiting_conversion time_text parked MAX_EFFECTING_SCAN s of
        (Err error, s1) \<Rightarrow> (Err (Read error), s1)
      | (Ok scan, s1) \<Rightarrow>
          (case apply_page at (es_records scan) report s1 of
             (report', s2) \<Rightarrow>
               (case outcome_of (es_bounded scan) (report_changed report' - report_changed report)
                       (length (rr_failures report') - length (rr_failures report)) of
                  Drained \<Rightarrow> (Ok (report'\<lparr>rr_incomplete_store := False\<rparr>), s2)
                | More \<Rightarrow> reconcile_loop time_text parked at report' s2
                | Stalled \<Rightarrow> (Ok (report'\<lparr>rr_incomplete_store := True\<rparr>), s2))))"
  by pat_completeness auto
termination
  by (relation "measure (\<lambda>(_, _, _, _, s). live_rows s)")
     (simp_all, metis page_more_progress case_prod_conv)

definition reconcile_tool_calls ::
  "(instant \<Rightarrow> string) \<Rightarrow> (WorkspaceId \<times> RunId) list \<Rightarrow> instant \<Rightarrow>
   (CallStore, ToolRecoveryError, ToolRecoveryReport) eff"
where
  "reconcile_tool_calls time_text parked at s = reconcile_loop time_text parked at report_default s"

declare reconcile_loop.simps [simp del]

section \<open>What becomes of a row\<close>

definition recovered_row :: "(WorkspaceId \<times> RunId) list \<Rightarrow> ToolCallRow \<Rightarrow> ToolCallRow \<Rightarrow> bool" where
  "recovered_row parked r r' \<longleftrightarrow>
     r' = r \<or>
     (awaits_conversion parked r \<and>
      r' = r\<lparr>tr_state := tr_state r', tr_version := tr_version r', tr_outcome := tr_outcome r',
             tr_no_effect_confirmed := tr_no_effect_confirmed r', tr_updated_at := tr_updated_at r'\<rparr> \<and>
      (if tr_state r = ''executing''
       then tr_state r' = ''reconciling'' \<and> tr_outcome r' = None
       else tr_state r' = ''cancelled'' \<and> tr_outcome r' = Some ''tool.cancelled''))"

lemma recovered_settled: "recovered_row parked r r' \<Longrightarrow> r' \<noteq> r \<Longrightarrow> \<not> awaits_conversion parked r'"
  by (auto simp: recovered_row_def awaits_conversion_def split: if_split_asm)

lemma recovered_trans: "recovered_row parked r r' \<Longrightarrow> recovered_row parked r' r'' \<Longrightarrow> recovered_row parked r r''"
  using recovered_settled [of parked r r'] by (cases "r' = r") (simp_all add: recovered_row_def [of _ r'])

text \<open>Settling the entry of one row replaces that row and no other.\<close>

definition page_row :: "(WorkspaceId \<times> RunId) list \<Rightarrow> CallStore \<Rightarrow> ToolCallRow \<Rightarrow> LedgerEntry \<Rightarrow> bool" where
  "page_row parked s r e \<longleftrightarrow> r \<in> set (cs_rows s) \<and> awaits_conversion parked r \<and> stored_entry r = Ok e"

lemma page_row_live: "page_row parked s r e \<Longrightarrow> entry_live e"
  by (auto simp: page_row_def awaits_conversion_def row_live_def intro: stored_entry_live)

lemma entry_live_cases:
  "entry_live e \<Longrightarrow> classify_interrupted (le_state e) = Some a \<Longrightarrow>
     needs_write a \<and>
     interrupted_target_state a = (if le_state e = ToolCallState.Executing then ToolCallState.Reconciling
                                   else ToolCallState.Cancelled) \<and>
     tool_can_transition_to (le_state e) (interrupted_target_state a)"
  by (cases "le_state e") (auto simp: entry_live_def classify_interrupted_def needs_write_def)

lemma recovered_update:
  assumes row: "page_row parked s r e" and a: "classify_interrupted (le_state e) = Some a"
    and app: "ledger_apply e (interrupted_target_state a) (le_version e)
      (if tool_state_is_terminal (interrupted_target_state a) then Some ToolErrorClass.Cancelled else None) at = (Ok t, e')"
  shows "recovered_row parked r (updated_row e' t v r) \<and> updated_row e' t v r \<noteq> r"
proof -
  let ?to = "interrupted_target_state a"
  have parts: "row_parts r = Ok e" using row by (auto simp: page_row_def intro: stored_entry_parts)
  note d = ledger_apply_OkD [OF app] and k = ledger_apply_keeps [OF app]
  note c = entry_live_cases [OF page_row_live [OF row] a]
  have state: "tr_state r = tool_call_state_as_contract_str (le_state e)"
    using row_parts_OkD(6) [OF parts] by (auto simp: parse_state_def tool_state_spelling.parse_Some_iff)
  have disp: "le_dispatched_at e' = tr_dispatched_at r"
    using c parts by (subst d(4)) (auto simp: row_parts_def and_then_Ok_iff)
  have oc: "le_outcome e' = (if tool_state_is_terminal ?to then Some ToolErrorClass.Cancelled else le_outcome e)"
    by (subst d(4)) simp
  have none: "tr_outcome r = None" "le_outcome e = None"
    using row row_parts_OkD(7) [OF parts] by (auto simp: page_row_def awaits_conversion_def parse_optional_outcome_def)
  have aw: "awaits_conversion parked r" using row by (simp add: page_row_def)
  have "le_state e \<noteq> ?to" using c tool_table.no_self_edge by metis
  then have "tr_state (updated_row e' t v r) \<noteq> tr_state r"
    by (simp add: updated_row_def state k(4) tool_state_spelling.as_str_eq_iff)
  moreover have "recovered_row parked r (updated_row e' t v r)"
  proof (cases "le_state e = ToolCallState.Executing")
    case True
    with c aw state disp oc none k(4) show ?thesis
      by (cases r) (auto simp: recovered_row_def updated_row_def)
  next
    case False
    then have "tr_state r \<noteq> ''executing''" using state by (cases "le_state e") auto
    with False c aw disp oc none k(4) show ?thesis
      by (cases r) (auto simp: recovered_row_def updated_row_def)
  qed
  ultimately show ?thesis by auto
qed

lemma settle_row:
  assumes row: "page_row parked s r e" and ids: "distinct (map tr_id (cs_rows s))"
    and a: "classify_interrupted (le_state e) = Some a" and run: "settle e a at s = (Ok u, s')"
  obtains r' where "cs_rows s' = map (\<lambda>x. if x = r then r' else x) (cs_rows s)"
    and "recovered_row parked r r'" and "r' \<noteq> r" and "tr_id r' = tr_id r"
proof -
  let ?to = "interrupted_target_state a"
  note c = entry_live_cases [OF page_row_live [OF row] a]
  from run c obtain t e' where app: "ledger_apply e ?to (le_version e)
      (if tool_state_is_terminal ?to then Some ToolErrorClass.Cancelled else None) at = (Ok t, e')"
    and st: "store_apply_transition (rk_workspace (le_key e)) t (le_version e) e' s = (Ok (), s')"
    by (auto simp: settle_def eff_try_def Let_def simp del: tool_state_is_terminal_def
        split: prod.split_asm sum.split_asm)
  have parts: "row_parts r = Ok e" and r: "r \<in> set (cs_rows s)"
    using row by (auto simp: page_row_def intro: stored_entry_parts)
  have here: "row_at (rk_workspace (le_key e)) (le_id e') x \<longleftrightarrow> x = r" if "x \<in> set (cs_rows s)" for x
    using that r ids row_parts_OkD(1,4) [OF parts] ledger_apply_keeps(1) [OF app]
    by (auto simp: row_at_def distinct_map inj_on_def)
  obtain row0 m x where 0: "find (row_at (rk_workspace (le_key e)) (le_id e')) (cs_rows s) = Some row0"
      "call_stored_version row0 = Ok (le_version e)" "i64_of_u64 (le_version e) = Some x"
    and rows: "cs_rows s' = map (\<lambda>r. if row_at (rk_workspace (le_key e)) (le_id e') r \<and> tr_version r = x
                              then updated_row e' t m r else r) (cs_rows s)"
    by (rule store_apply_OkD [OF st])
  have "tr_version r = x"
    using 0 here find_SomeD [OF 0(1)] by (auto dest!: call_stored_version_eq i64_of_u64_eq)
  then have "cs_rows s' = map (\<lambda>x. if x = r then updated_row e' t m r else x) (cs_rows s)"
    unfolding rows by (intro map_cong) (auto simp: here)
  then show thesis
    using recovered_update [OF row a app, of m]
    by (intro that [of "updated_row e' t m r"]) (simp_all, simp add: updated_row_def)
qed

text \<open>Rows as a list of replaced rows: what a page leaves of the store.\<close>

definition rows_recovered :: "(WorkspaceId \<times> RunId) list \<Rightarrow> CallStore \<Rightarrow> CallStore \<Rightarrow> bool" where
  "rows_recovered parked s s' \<longleftrightarrow>
     list_all2 (\<lambda>r r'. recovered_row parked r r' \<and> tr_id r' = tr_id r) (cs_rows s) (cs_rows s')"

lemma rows_recovered_refl: "rows_recovered parked s s"
  by (simp add: rows_recovered_def list_all2_refl recovered_row_def)

lemma rows_recovered_trans:
  "rows_recovered parked s s' \<Longrightarrow> rows_recovered parked s' s'' \<Longrightarrow> rows_recovered parked s s''"
  unfolding rows_recovered_def
  by (auto simp: list_all2_conv_all_nth) (meson recovered_trans)

lemma rows_recovered_faults [simp]:
  "rows_recovered parked s (s'\<lparr>cs_faults := fs\<rparr>) = rows_recovered parked s s'"
  by (simp add: rows_recovered_def)

lemma rows_recovered_ids: "rows_recovered parked s s' \<Longrightarrow> map tr_id (cs_rows s') = map tr_id (cs_rows s)"
  by (auto simp: rows_recovered_def list_all2_conv_all_nth intro: nth_equalityI)

lemma apply_recovery_row:
  assumes row: "page_row parked s r e" and ids: "distinct (map tr_id (cs_rows s))"
    and run: "apply_recovery at e (rep, s) = (rep', s')"
  shows "(\<exists>code fs. rep' = rep\<lparr>rr_failures := rr_failures rep @ [(le_id e, code)]\<rparr> \<and> s' = s\<lparr>cs_faults := fs\<rparr>) \<or>
    (\<exists>r'. cs_rows s' = map (\<lambda>x. if x = r then r' else x) (cs_rows s) \<and>
       recovered_row parked r r' \<and> r' \<noteq> r \<and> tr_id r' = tr_id r \<and> rr_failures rep' = rr_failures rep)"
proof -
  obtain a where a: "classify_interrupted (le_state e) = Some a" "needs_write a"
    by (rule entry_live_action [OF page_row_live [OF row]])
  show ?thesis
  proof (cases "settle e a at s")
    case (Pair q t)
    show ?thesis
    proof (cases q)
      case (Inl c)
      with Pair a run show ?thesis by (auto simp: apply_recovery_def dest!: settle_fails_same)
    next
      case (Inr u)
      have "s' = t" "rr_failures rep' = rr_failures rep"
        using Pair Inr a run by (cases a; auto simp: apply_recovery_def)+
      with Pair Inr show ?thesis by (auto elim!: settle_row [OF row ids a(1)])
    qed
  qed
qed

lemma apply_recovery_rows:
  assumes "page_row parked s r e" and "distinct (map tr_id (cs_rows s))"
    and "apply_recovery at e (rep, s) = (rep', s')"
  shows "rows_recovered parked s s'"
    and "r2 \<in> set (cs_rows s) \<Longrightarrow> r2 \<noteq> r \<Longrightarrow> r2 \<in> set (cs_rows s')"
  using apply_recovery_row [OF assms] rows_recovered_refl [of parked s]
  by (auto simp: rows_recovered_def list_all2_map2 recovered_row_def image_iff
      intro!: list_all2_refl)

text \<open>A page: the rows it was read from, each with the entry it decodes to.\<close>

definition page_rows :: "(WorkspaceId \<times> RunId) list \<Rightarrow> CallStore \<Rightarrow> (ToolCallRow \<times> LedgerEntry) list \<Rightarrow> bool" where
  "page_rows parked s ps \<longleftrightarrow> distinct (map fst ps) \<and> (\<forall>(r, e) \<in> set ps. page_row parked s r e)"

lemma apply_page_rows:
  assumes "page_rows parked s ps" and "distinct (map tr_id (cs_rows s))"
    and "apply_page at (map snd ps) rep s = (rep', s')"
  shows "rows_recovered parked s s'"
  using assms
proof (induction ps arbitrary: rep s)
  case Nil
  then show ?case by (simp add: apply_page_def rows_recovered_refl)
next
  case (Cons p ps)
  obtain r e where p: "p = (r, e)" by fastforce
  obtain rep1 s1 where 1: "apply_recovery at e (rep, s) = (rep1, s1)" by fastforce
  have row: "page_row parked s r e" using Cons.prems(1) p by (simp add: page_rows_def)
  note step = apply_recovery_rows [OF row Cons.prems(2) 1]
  have "page_rows parked s1 ps"
    using Cons.prems(1) p step(2) by (force simp: page_rows_def page_row_def)
  moreover have "distinct (map tr_id (cs_rows s1))"
    using Cons.prems(2) rows_recovered_ids [OF step(1)] by simp
  moreover have "apply_page at (map snd ps) rep1 s1 = (rep', s')"
    using Cons.prems(3) 1 p by (simp add: apply_page_def)
  ultimately show ?case using Cons.IH step(1) by (blast intro: rows_recovered_trans)
qed

lemma awaiting_page:
  assumes "awaiting_conversion tt parked limit s = (Ok sc, s')" and "distinct (map tr_id (cs_rows s))"
  obtains ps where "page_rows parked s' ps" and "es_records sc = map snd ps"
    and "map fst ps = take (unat limit) (take (unat (saturating_add limit 1))
          (sort_key (\<lambda>r. tt (tr_updated_at r)) (filter (awaits_conversion parked) (cs_rows s))))"
proof -
  let ?rows = "take (unat limit) (take (unat (saturating_add limit 1))
          (sort_key (\<lambda>r. tt (tr_updated_at r)) (filter (awaits_conversion parked) (cs_rows s))))"
  note sc = scan_Ok [OF assms(1) [unfolded awaiting_conversion_def]]
  from sc(2) have len: "length ?rows = length (es_records sc)" by (rule list_all2_lengthD)
  have "distinct (cs_rows s)" using assms(2) by (simp add: distinct_map)
  then have "distinct ?rows" by simp
  moreover have "set ?rows \<subseteq> {r \<in> set (cs_rows s). awaits_conversion parked r}"
    by (auto dest!: in_set_takeD)
  moreover have "stored_entry r = Ok e" if "(r, e) \<in> set (zip ?rows (es_records sc))" for r e
    using sc(2) that by (auto simp: list_all2_iff)
  ultimately have "page_rows parked s' (zip ?rows (es_records sc))"
    using len sc(1) by (auto simp: page_rows_def page_row_def dest: set_zip_leftD)
  with len show thesis by (intro that [of "zip ?rows (es_records sc)"]) simp_all
qed

lemma awaiting_fails_same:
  "awaiting_conversion tt parked limit s = (Err x, s') \<Longrightarrow> cs_rows s' = cs_rows s"
  by (auto simp: awaiting_conversion_def scan_calls_def Let_def eff_bind_run
      dest!: call_statement_OkD call_statement_ErrD)

lemma reconcile_loop_rows:
  assumes "distinct (map tr_id (cs_rows s))" and "reconcile_loop tt parked at rep s = (res, s')"
  shows "rows_recovered parked s s'"
  using assms
proof (induction tt parked at rep s rule: reconcile_loop.induct)
  case (1 tt parked at rep s)
  show ?case
  proof (cases "awaiting_conversion tt parked MAX_EFFECTING_SCAN s")
    case (Pair q s1)
    show ?thesis
    proof (cases q)
      case (Inl x)
      with Pair 1(3) awaiting_fails_same [of tt parked _ s x s1] rows_recovered_refl [of parked s] show ?thesis
        by (simp add: reconcile_loop.simps rows_recovered_def)
    next
      case (Inr sc)
      with Pair have scan: "awaiting_conversion tt parked MAX_EFFECTING_SCAN s = (Ok sc, s1)" by simp
      then have s1: "cs_rows s1 = cs_rows s"
        using scan_Ok(1) by (fastforce simp: awaiting_conversion_def)
      obtain rep2 s2 where page: "apply_page at (es_records sc) rep s1 = (rep2, s2)" by fastforce
      have "rows_recovered parked s1 s2"
        using awaiting_page [OF scan 1(2)] apply_page_rows page 1(2) s1 by metis
      then have first: "rows_recovered parked s s2" by (simp add: rows_recovered_def s1)
      show ?thesis
      proof (cases "outcome_of (es_bounded sc) (report_changed rep2 - report_changed rep)
          (length (rr_failures rep2) - length (rr_failures rep))")
        case More
        with 1(3) scan page have rest: "reconcile_loop tt parked at rep2 s2 = (res, s')"
          by (simp add: reconcile_loop.simps [of tt parked at rep s])
        have "rows_recovered parked s2 s'"
          using 1(1) [OF scan [symmetric] refl page [symmetric] More _ rest] rows_recovered_ids [OF first] 1(2)
          by simp
        with first show ?thesis by (rule rows_recovered_trans)
      qed (use 1(3) scan page first in \<open>auto simp: reconcile_loop.simps [of tt parked at rep s]\<close>)
    qed
  qed
qed

text \<open>The same loop, allowed to read a number of pages.\<close>

fun reconcile_within ::
  "nat \<Rightarrow> (instant \<Rightarrow> string) \<Rightarrow> (WorkspaceId \<times> RunId) list \<Rightarrow> instant \<Rightarrow> ToolRecoveryReport \<Rightarrow> CallStore \<Rightarrow>
   ((ToolRecoveryError + ToolRecoveryReport) \<times> CallStore) option"
where
  "reconcile_within 0 time_text parked at report s = None"
| "reconcile_within (Suc n) time_text parked at report s =
     (case awaiting_conversion time_text parked MAX_EFFECTING_SCAN s of
        (Err error, s1) \<Rightarrow> Some (Err (Read error), s1)
      | (Ok scan, s1) \<Rightarrow>
          (case apply_page at (es_records scan) report s1 of
             (report', s2) \<Rightarrow>
               (case outcome_of (es_bounded scan) (report_changed report' - report_changed report)
                       (length (rr_failures report') - length (rr_failures report)) of
                  Drained \<Rightarrow> Some (Ok (report'\<lparr>rr_incomplete_store := False\<rparr>), s2)
                | More \<Rightarrow> reconcile_within n time_text parked at report' s2
                | Stalled \<Rightarrow> Some (Ok (report'\<lparr>rr_incomplete_store := True\<rparr>), s2))))"

lemma reconcile_within_enough:
  "live_rows s < n \<Longrightarrow> reconcile_within n tt parked at rep s = Some (reconcile_loop tt parked at rep s)"
proof (induction n arbitrary: rep s)
  case (Suc n)
  show ?case
  proof (cases "awaiting_conversion tt parked MAX_EFFECTING_SCAN s")
    case (Pair q s1)
    show ?thesis
    proof (cases q)
      case (Inr sc)
      with Pair have scan: "awaiting_conversion tt parked MAX_EFFECTING_SCAN s = (Ok sc, s1)" by simp
      obtain rep2 s2 where page: "apply_page at (es_records sc) rep s1 = (rep2, s2)" by fastforce
      let ?o = "outcome_of (es_bounded sc) (report_changed rep2 - report_changed rep)
          (length (rr_failures rep2) - length (rr_failures rep))"
      have "?o = More \<Longrightarrow> live_rows s2 < n"
        using page_more_progress [OF scan page] Suc.prems by fastforce
      with Suc.IH [of s2 rep2] scan page show ?thesis
        by (cases ?o) (simp_all add: reconcile_loop.simps [of tt parked at rep s])
    qed (use Pair in \<open>simp add: reconcile_loop.simps [of tt parked at rep s]\<close>)
  qed
qed simp

section \<open>A pass with nothing in its way\<close>

text \<open>No statement fails, and every row the pass selects decodes and has room for another version.\<close>

definition settleable :: "(WorkspaceId \<times> RunId) list \<Rightarrow> CallStore \<Rightarrow> bool" where
  "settleable parked s \<longleftrightarrow> cs_faults s = [] \<and> distinct (map tr_id (cs_rows s)) \<and>
     (\<forall>r \<in> set (cs_rows s). awaits_conversion parked r \<longrightarrow>
        (\<exists>e. stored_entry r = Ok e \<and> unat (le_version e) < 2 ^ 63 - 1))"

definition report_counted :: "ToolRecoveryReport \<Rightarrow> nat" where
  "report_counted r = unat (rr_reconciling r) + unat (rr_cancelled r)"

lemma report_changed_counted: "report_counted r < 2 ^ 64 \<Longrightarrow> unat (report_changed r) = report_counted r"
  by (simp add: report_changed_def report_counted_def unat_word_ariths)

lemma settle_quiet:
  assumes row: "page_row parked s r e" and ids: "distinct (map tr_id (cs_rows s))" and quiet: "cs_faults s = []"
    and small: "unat (le_version e) < 2 ^ 63 - 1" and a: "classify_interrupted (le_state e) = Some a"
  shows "\<exists>s'. settle e a at s = (Ok (), s') \<and> cs_faults s' = []"
proof -
  let ?to = "interrupted_target_state a"
  let ?oc = "if tool_state_is_terminal ?to then Some ToolErrorClass.Cancelled else None"
  note c = entry_live_cases [OF page_row_live [OF row] a]
  have parts: "row_parts r = Ok e" and r: "r \<in> set (cs_rows s)"
    using row by (auto simp: page_row_def intro: stored_entry_parts)
  have "le_version e \<noteq> - 1" using small by (auto simp: unat_minus_one_word_eq)
  with c obtain t e' where app: "ledger_apply e ?to (le_version e) ?oc at = (Ok t, e')"
    using ledger_apply_accepts [of e ?to ?oc at] by blast
  have here: "row_at (rk_workspace (le_key e)) (le_id e) x \<longleftrightarrow> x = r" if "x \<in> set (cs_rows s)" for x
    using that r ids row_parts_OkD(1,4) [OF parts] by (auto simp: row_at_def distinct_map inj_on_def)
  have find: "find (row_at (rk_workspace (le_key e)) (le_id e)) (cs_rows s) = Some r"
  proof (cases "find (row_at (rk_workspace (le_key e)) (le_id e)) (cs_rows s)")
    case None
    with r here show ?thesis by (auto simp: find_None_iff)
  next
    case (Some x)
    with here show ?thesis by (auto dest!: find_SomeD)
  qed
  have "unat (le_version e') < 2 ^ 63" using ledger_apply_OkD(3) [OF app] small by simp
  from store_apply_quiet [OF find parts app this quiet]
  obtain s' where s': "store_apply_transition (rk_workspace (le_key e)) t (le_version e) e' s = (Ok (), s')"
    by blast
  have "settle e a at s = (Ok (), s')"
    using c app s' by (simp add: settle_def Let_def eff_try_def del: tool_state_is_terminal_def)
  with store_apply_faults [OF s' quiet] show ?thesis by blast
qed

lemma saturating_add_one: "unat (w :: u64) < 2 ^ 64 - 1 \<Longrightarrow> unat (saturating_add w 1) = Suc (unat w)"
  by (simp add: saturating_add_def unat_word_ariths)

lemma apply_recovery_quiet:
  assumes row: "page_row parked s r e" and ok: "settleable parked s" and room: "report_counted rep < 2 ^ 64 - 1"
    and run: "apply_recovery at e (rep, s) = (rep', s')"
  shows "settleable parked s'" and "rr_failures rep' = rr_failures rep"
    and "report_counted rep' = Suc (report_counted rep)"
    and "filter (awaits_conversion parked) (cs_rows s') = filter (\<lambda>x. x \<noteq> r) (filter (awaits_conversion parked) (cs_rows s))"
proof -
  have ids: "distinct (map tr_id (cs_rows s))" and quiet: "cs_faults s = []"
    using ok by (simp_all add: settleable_def)
  obtain a where a: "classify_interrupted (le_state e) = Some a"
    by (rule entry_live_action [OF page_row_live [OF row]])
  have small: "unat (le_version e) < 2 ^ 63 - 1" using row ok by (auto simp: page_row_def settleable_def)
  obtain t where t: "settle e a at s = (Ok (), t)" "cs_faults t = []"
    using settle_quiet [OF row ids quiet small a] by blast
  have s': "s' = t" and f: "rr_failures rep' = rr_failures rep"
    using t(1) a run by (cases a; auto simp: apply_recovery_def)+
  show "rr_failures rep' = rr_failures rep" by (fact f)
  show "report_counted rep' = Suc (report_counted rep)"
    using t(1) a run room by (cases a) (auto simp: apply_recovery_def report_counted_def saturating_add_one)
  obtain r' where r': "cs_rows t = map (\<lambda>x. if x = r then r' else x) (cs_rows s)"
      "recovered_row parked r r'" "r' \<noteq> r" "tr_id r' = tr_id r"
    by (rule settle_row [OF row ids a t(1)])
  note dead = recovered_settled [OF r'(2,3)]
  have "filter P (map (\<lambda>x. if x = r then r' else x) xs) = filter (\<lambda>x. x \<noteq> r) (filter P xs)" if "\<not> P r'" for P xs
    using that by (induction xs) auto
  with dead show "filter (awaits_conversion parked) (cs_rows s') =
      filter (\<lambda>x. x \<noteq> r) (filter (awaits_conversion parked) (cs_rows s))"
    by (simp add: s' r'(1))
  have "map tr_id (cs_rows t) = map tr_id (cs_rows s)" using r'(4) by (simp add: r'(1) cong: map_cong)
  with ids have "distinct (map tr_id (cs_rows t))" by simp
  moreover have "\<forall>x \<in> set (cs_rows t). awaits_conversion parked x \<longrightarrow>
      (\<exists>e. stored_entry x = Ok e \<and> unat (le_version e) < 2 ^ 63 - 1)"
    using ok dead by (auto simp: settleable_def r'(1))
  ultimately show "settleable parked s'" using t(2) by (simp add: settleable_def s')
qed

lemma apply_page_quiet:
  assumes "page_rows parked s ps" and "settleable parked s" and "report_counted rep + length ps < 2 ^ 64"
    and "apply_page at (map snd ps) rep s = (rep', s')"
  shows "settleable parked s' \<and> rr_failures rep' = rr_failures rep \<and>
    report_counted rep' = report_counted rep + length ps \<and>
    filter (awaits_conversion parked) (cs_rows s') =
      filter (\<lambda>x. x \<notin> set (map fst ps)) (filter (awaits_conversion parked) (cs_rows s))"
  using assms
proof (induction ps arbitrary: rep s)
  case Nil
  then show ?case by (simp add: apply_page_def)
next
  case (Cons p ps)
  obtain r e where p: "p = (r, e)" by fastforce
  obtain rep1 s1 where 1: "apply_recovery at e (rep, s) = (rep1, s1)" by fastforce
  have row: "page_row parked s r e" using Cons.prems(1) p by (simp add: page_rows_def)
  have room: "report_counted rep < 2 ^ 64 - 1" using Cons.prems(3) by simp
  note q = apply_recovery_quiet [OF row Cons.prems(2) room 1]
  have ids: "distinct (map tr_id (cs_rows s))" using Cons.prems(2) by (simp add: settleable_def)
  note step = apply_recovery_rows [OF row ids 1]
  have "page_rows parked s1 ps"
    using Cons.prems(1) p step(2) by (force simp: page_rows_def page_row_def)
  moreover have "apply_page at (map snd ps) rep1 s1 = (rep', s')"
    using Cons.prems(4) 1 p by (simp add: apply_page_def)
  ultimately show ?case
    using Cons.IH [of s1 rep1] q Cons.prems(3) p by (auto intro!: filter_cong)
qed

lemma collect_entries_settleable:
  "(\<And>r. r \<in> set rows \<Longrightarrow> \<exists>e. stored_entry r = Ok e) \<Longrightarrow> \<exists>es. collect_entries rows = Ok es"
proof (induction rows)
  case (Cons r rows)
  then obtain e es where "stored_entry r = Ok e" "collect_entries rows = Ok es" by fastforce
  then show ?case by simp
qed simp

lemma awaiting_settleable:
  assumes "settleable parked s"
  shows "\<exists>sc. awaiting_conversion tt parked limit s = (Ok sc, s)"
proof -
  let ?rows = "take (unat limit) (take (unat (saturating_add limit 1))
          (sort_key (\<lambda>r. tt (tr_updated_at r)) (filter (awaits_conversion parked) (cs_rows s))))"
  have "\<exists>e. stored_entry r = Ok e" if "r \<in> set ?rows" for r
    using that assms by (auto simp: settleable_def dest!: in_set_takeD)
  then obtain es where "collect_entries ?rows = Ok es" using collect_entries_settleable by blast
  with assms show ?thesis
    by (simp add: awaiting_conversion_def scan_calls_def settleable_def Let_def)
qed

lemma MAX_EFFECTING_SCAN_unat [simp]:
  "unat MAX_EFFECTING_SCAN = 500" "unat (saturating_add MAX_EFFECTING_SCAN 1) = 501"
  by (simp_all add: MAX_EFFECTING_SCAN_def saturating_add_def)

lemma reconcile_loop_quiet:
  assumes "settleable parked s"
    and "report_counted rep + length (filter (awaits_conversion parked) (cs_rows s)) < 2 ^ 64"
  shows "\<exists>rep' s'. reconcile_loop tt parked at rep s = (Ok rep', s') \<and>
    rr_failures rep' = rr_failures rep \<and> \<not> rr_incomplete_store rep' \<and>
    report_counted rep' = report_counted rep + length (filter (awaits_conversion parked) (cs_rows s)) \<and>
    filter (awaits_conversion parked) (cs_rows s') = []"
  using assms
proof (induction "length (filter (awaits_conversion parked) (cs_rows s))" arbitrary: rep s rule: less_induct)
  case less
  let ?aw = "filter (awaits_conversion parked) (cs_rows s)"
  let ?sorted = "sort_key (\<lambda>r. tt (tr_updated_at r)) ?aw"
  obtain sc where scan: "awaiting_conversion tt parked MAX_EFFECTING_SCAN s = (Ok sc, s)"
    using awaiting_settleable [OF less.prems(1)] by blast
  have ids: "distinct (map tr_id (cs_rows s))" using less.prems(1) by (simp add: settleable_def)
  then have dist: "distinct ?sorted" by (simp add: distinct_map)
  obtain ps where ps: "page_rows parked s ps" "es_records sc = map snd ps" "map fst ps = take 500 (take 501 ?sorted)"
    by (rule awaiting_page [OF scan ids]) simp
  have pset: "set (map fst ps) \<subseteq> set ?aw" unfolding ps(3) by (auto dest!: in_set_takeD)
  have len: "length ps = min 500 (length ?aw)"
    using arg_cong [OF ps(3), of length] by simp
  have bounded: "es_bounded sc \<longleftrightarrow> 500 < length ?aw"
    using scan_Ok(3) [OF scan [unfolded awaiting_conversion_def]] by simp
  obtain rep1 s1 where page: "apply_page at (es_records sc) rep s = (rep1, s1)" by fastforce
  have q: "settleable parked s1" "rr_failures rep1 = rr_failures rep"
      "report_counted rep1 = report_counted rep + length ps"
      "filter (awaits_conversion parked) (cs_rows s1) = filter (\<lambda>x. x \<notin> set (map fst ps)) ?aw"
    using apply_page_quiet [OF ps(1) less.prems(1), of rep at rep1 s1] page ps(2) less.prems(2) len by auto
  have left: "length (filter (\<lambda>x. x \<notin> set (map fst ps)) ?aw) = length ?aw - length (map fst ps)"
    by (rule length_filter_notin) (use ids pset ps(1) in \<open>simp_all add: distinct_map page_rows_def\<close>)
  show ?case
  proof (cases "500 < length ?aw")
    case False
    then have "filter (awaits_conversion parked) (cs_rows s1) = []"
      using left len by (simp only: q(4)) simp
    moreover have "reconcile_loop tt parked at rep s = (Ok (rep1\<lparr>rr_incomplete_store := False\<rparr>), s1)"
      using False scan page bounded by (simp add: reconcile_loop.simps [of tt parked at rep s] outcome_of_def)
    ultimately show ?thesis using q len False by (simp add: report_counted_def)
  next
    case True
    have "unat (report_changed rep1) = report_counted rep1" "unat (report_changed rep) = report_counted rep"
      using less.prems(2) q(3) len by (simp_all add: report_changed_counted)
    then have "report_changed rep1 \<noteq> report_changed rep" using q(3) len True by auto
    then have "outcome_of True (report_changed rep1 - report_changed rep) 0 = More"
      by (simp add: outcome_of_def word_le_nat_alt unat_gt_0 Suc_le_eq)
    then have "reconcile_loop tt parked at rep s = reconcile_loop tt parked at rep1 s1"
      using True scan page bounded q(2) by (simp add: reconcile_loop.simps [of tt parked at rep s])
    moreover have "length (filter (awaits_conversion parked) (cs_rows s1)) = length ?aw - 500"
      using left len True by (simp only: q(4)) simp
    ultimately show ?thesis
      using less.hyps [of s1 rep1] q True less.prems(2) len by (auto simp del: filter_filter)
  qed
qed

definition stranded_store :: CallStore where
  "stranded_store = sample_store\<lparr>cs_rows := (case row_of_entry sample_entry of Ok row \<Rightarrow> [row] | Err _ \<Rightarrow> [])\<rparr>"

lemma stranded_row:
  obtains row where "cs_rows stranded_store = [row]" and "awaits_conversion [] row"
    and "stored_entry row = Ok sample_entry" and "cs_faults stranded_store = []"
proof -
  obtain row where row: "row_of_entry sample_entry = Ok row" "row_parts row = Ok sample_entry"
    by (rule storable_row [OF sample_entry_storable])
  have "le_attempt sample_entry = 1" "le_state sample_entry = ToolCallState.Requested" "le_outcome sample_entry = None"
    by (simp_all add: sample_entry_def ledger_entry_reserve_def)
  moreover from this row have "tr_state row = ''requested''" "tr_outcome row = None"
    by (auto simp: row_of_entry_def and_then_Ok_iff)
  ultimately show thesis
    using row by (intro that [of row])
      (auto simp: stranded_store_def sample_store_def awaits_conversion_def stored_entry_def ledger_restore_def
        is_reachable_without_dispatch_def)
qed

lemma stranded_settleable: "settleable [] stranded_store"
proof (rule stranded_row)
  fix row
  assume "cs_rows stranded_store = [row]" "stored_entry row = Ok sample_entry" "cs_faults stranded_store = []"
  moreover have "le_version sample_entry = 1"
    by (simp add: sample_entry_def ledger_entry_reserve_def tool_call_version_first_def)
  ultimately show ?thesis by (simp add: settleable_def)
qed

section \<open>Properties\<close>

text \<open>C28: The recovery pass ends: whatever the rows, the faults of the database and the answers of the
  writes, the loop over the pages stops after reading at most one page more than there are rows in
  a state the pass converts, with the result the pass returns.\<close>

theorem recovery_pass_terminates:
  "reconcile_within (Suc (live_rows s)) tt parked at report_default s = Some (reconcile_tool_calls tt parked at s)"
  by (simp add: reconcile_within_enough reconcile_tool_calls_def del: reconcile_within.simps)

text \<open>Recovery settles a call or leaves it alone, and never sends one: whatever fails meanwhile,
  each row ends as it was, or it awaited conversion and went from executing to reconciling without
  an outcome, or from a state before dispatch to cancelled with the outcome that says so; a call
  that waits for an approval in a parked run, a call already reconciling and a call that ended
  keep their rows.\<close>

theorem recovery_touches_only_stranded:
  assumes "reconcile_tool_calls tt parked at s = (res, s')" and "distinct (map tr_id (cs_rows s))"
    and "i < length (cs_rows s)"
  shows "length (cs_rows s') = length (cs_rows s) \<and> recovered_row parked (cs_rows s ! i) (cs_rows s' ! i)"
  using reconcile_loop_rows [OF assms(2) assms(1) [unfolded reconcile_tool_calls_def]] assms(3)
  by (simp add: rows_recovered_def list_all2_conv_all_nth)

theorem recovery_touches_only_stranded_witness:
  "\<exists>row res s'. cs_rows stranded_store = [row] \<and>
     reconcile_tool_calls (\<lambda>_. ''t'') [] 9 stranded_store = (res, s') \<and> recovered_row [] row (cs_rows s' ! 0)"
proof (rule stranded_row)
  fix row
  assume row: "cs_rows stranded_store = [row]"
  obtain res s' where run: "reconcile_tool_calls (\<lambda>_. ''t'') [] 9 stranded_store = (res, s')" by fastforce
  with recovery_touches_only_stranded [OF run, of 0] row show ?thesis by auto
qed

text \<open>Recovery drains the ledger: when no statement fails and every stranded row decodes, the pass
  succeeds, reports itself complete, has counted exactly the stranded calls, and leaves none.\<close>

theorem recovery_drains_the_ledger:
  assumes "settleable parked s" and "length (cs_rows s) < 2 ^ 64"
  shows "\<exists>report s'. reconcile_tool_calls tt parked at s = (Ok report, s') \<and> report_is_complete report \<and>
    unat (report_changed report) = length (filter (awaits_conversion parked) (cs_rows s)) \<and>
    filter (awaits_conversion parked) (cs_rows s') = []"
proof -
  let ?n = "length (filter (awaits_conversion parked) (cs_rows s))"
  have n: "?n < 2 ^ 64" using assms(2) length_filter_le [of "awaits_conversion parked" "cs_rows s"] by linarith
  have 0: "report_counted report_default = 0" "rr_failures report_default = []"
    by (simp_all add: report_counted_def report_default_def)
  obtain rep s' where run: "reconcile_loop tt parked at report_default s = (Ok rep, s')" "rr_failures rep = []"
      "\<not> rr_incomplete_store rep" "report_counted rep = ?n" "filter (awaits_conversion parked) (cs_rows s') = []"
    using reconcile_loop_quiet [OF assms(1), of report_default tt at] n 0 by auto
  then have "unat (report_changed rep) = ?n" using n by (simp add: report_changed_counted)
  with run show ?thesis by (auto simp: reconcile_tool_calls_def report_is_complete_def)
qed

theorem recovery_drains_the_ledger_witness:
  "\<exists>report s'. reconcile_tool_calls (\<lambda>_. ''t'') [] 9 stranded_store = (Ok report, s') \<and>
     unat (report_changed report) = 1 \<and> filter (awaits_conversion []) (cs_rows s') = []"
proof (rule stranded_row)
  fix row
  assume "cs_rows stranded_store = [row]" "awaits_conversion [] row"
  with recovery_drains_the_ledger [OF stranded_settleable, of "\<lambda>_. ''t''" 9] show ?thesis by auto
qed

end
