(* ===== verification/Model_Capability.thy ===== *)
theory Model_Capability
  imports Model_Policy
begin

text \<open>
  \<open>model/capability.rs\<close>: what is known of a model and how well: evidence with a label and a date,
  measured delivery profiles and their aggregate over a campaign, and the descriptor that answers
  whether a capability may be relied on. A calendar date is the number of its day; the instant's
  milliseconds are those of the time library, an argument.
\<close>

type_synonym IsoDate = int

datatype EvidenceLabel = Unverified | Inferred | Observed | Documented | Verified

definition label_satisfies_hard_requirement :: "EvidenceLabel \<Rightarrow> bool" where
  "label_satisfies_hard_requirement l \<longleftrightarrow> l = EvidenceLabel.Verified"

definition label_satisfies_data_policy_rule :: "EvidenceLabel \<Rightarrow> bool" where
  "label_satisfies_data_policy_rule l \<longleftrightarrow> l \<in> {EvidenceLabel.Verified, EvidenceLabel.Documented, EvidenceLabel.Observed}"

primrec evidence_label_as_contract_str :: "EvidenceLabel \<Rightarrow> string" where
  "evidence_label_as_contract_str EvidenceLabel.Unverified = ''UNVERIFIED''"
| "evidence_label_as_contract_str EvidenceLabel.Inferred = ''INFERRED''"
| "evidence_label_as_contract_str EvidenceLabel.Observed = ''OBSERVED''"
| "evidence_label_as_contract_str EvidenceLabel.Documented = ''DOCUMENTED''"
| "evidence_label_as_contract_str EvidenceLabel.Verified = ''VERIFIED''"

record Evidence =
  ev_integration_id :: string
  ev_capability_key :: string
  ev_label :: EvidenceLabel
  ev_source_url :: string
  ev_last_verified :: IsoDate
  ev_revalidate_by :: IsoDate

definition is_fresh_on :: "Evidence \<Rightarrow> IsoDate \<Rightarrow> bool" where
  "is_fresh_on self today \<longleftrightarrow> ev_revalidate_by self \<ge> today"

definition evidence_satisfies_hard_requirement_on :: "Evidence \<Rightarrow> IsoDate \<Rightarrow> bool" where
  "evidence_satisfies_hard_requirement_on self today \<longleftrightarrow>
     label_satisfies_hard_requirement (ev_label self) \<and> is_fresh_on self today"

definition evidence_satisfies_data_policy_rule_on :: "Evidence \<Rightarrow> IsoDate \<Rightarrow> bool" where
  "evidence_satisfies_data_policy_rule_on self today \<longleftrightarrow>
     label_satisfies_data_policy_rule (ev_label self) \<and> is_fresh_on self today"

section \<open>Delivery\<close>

record IncrementalDelivery =
  id_time_to_first_token_ms :: u32
  id_chunk_spread_ms :: u32
  id_observed_deltas :: u32

definition MIN_INCREMENTAL_SPREAD_MS :: u32 where "MIN_INCREMENTAL_SPREAD_MS = 50"

definition is_incremental :: "IncrementalDelivery \<Rightarrow> bool" where
  "is_incremental self \<longleftrightarrow> id_observed_deltas self > 0 \<and> id_chunk_spread_ms self \<ge> MIN_INCREMENTAL_SPREAD_MS"

record DeliveryMeasurement =
  dm_started_at :: instant
  dm_first_output_at :: instant
  dm_last_output_at :: instant
  dm_delta_count :: u32

definition millis_between :: "(instant \<Rightarrow> int) \<Rightarrow> instant \<Rightarrow> instant \<Rightarrow> u32" where
  "millis_between as_millisecond from to =
     (let elapsed = as_millisecond to - as_millisecond from
      in if elapsed < 0 then 0 else if elapsed < 2 ^ 32 then word_of_int elapsed else - 1)"

definition delivery_profile :: "(instant \<Rightarrow> int) \<Rightarrow> DeliveryMeasurement \<Rightarrow> IncrementalDelivery" where
  "delivery_profile as_millisecond self =
     \<lparr>id_time_to_first_token_ms = millis_between as_millisecond (dm_started_at self) (dm_first_output_at self),
      id_chunk_spread_ms = millis_between as_millisecond (dm_first_output_at self) (dm_last_output_at self),
      id_observed_deltas = (if dm_delta_count self = 0 then 0 else dm_delta_count self - 1)\<rparr>"

definition MIN_PROFILE_SAMPLES :: nat where "MIN_PROFILE_SAMPLES = 3"

definition MEASURED_SOURCE_URL :: string where "MEASURED_SOURCE_URL = ''jarvis://model-calls''"

definition DELIVERY_CAPABILITY_KEY :: string where "DELIVERY_CAPABILITY_KEY = ''incremental_delivery''"

record DeliverySamples =
  ds_model :: ModelRef
  ds_endpoint_class :: EndpointClass
  ds_samples :: "IncrementalDelivery list"

definition is_sufficient :: "DeliverySamples \<Rightarrow> bool" where
  "is_sufficient self \<longleftrightarrow> length (ds_samples self) \<ge> MIN_PROFILE_SAMPLES"

text \<open>One step of the loop: the slowest first token, the narrowest spread, the thinnest call so far.\<close>

definition worst_of :: "IncrementalDelivery \<Rightarrow> IncrementalDelivery \<Rightarrow> IncrementalDelivery" where
  "worst_of so_far sample =
     \<lparr>id_time_to_first_token_ms = max (id_time_to_first_token_ms so_far) (id_time_to_first_token_ms sample),
      id_chunk_spread_ms = min (id_chunk_spread_ms so_far) (id_chunk_spread_ms sample),
      id_observed_deltas = min (id_observed_deltas so_far) (id_observed_deltas sample)\<rparr>"

definition delivery_aggregate :: "DeliverySamples \<Rightarrow> IncrementalDelivery option" where
  "delivery_aggregate self =
     (if \<not> is_sufficient self then None
      else Some (foldl worst_of
             \<lparr>id_time_to_first_token_ms = 0, id_chunk_spread_ms = - 1, id_observed_deltas = - 1\<rparr>
             (ds_samples self)))"

record 'a Attested =
  at_value :: 'a
  at_evidence :: Evidence

definition attested_satisfies_hard_requirement_on :: "'a Attested \<Rightarrow> IsoDate \<Rightarrow> bool" where
  "attested_satisfies_hard_requirement_on self today = evidence_satisfies_hard_requirement_on (at_evidence self) today"

definition attested_profile ::
  "DeliverySamples \<Rightarrow> string \<Rightarrow> IsoDate \<Rightarrow> IsoDate \<Rightarrow> IncrementalDelivery Attested option"
where
  "attested_profile self integration_id last_verified revalidate_by =
     (case delivery_aggregate self of
        None \<Rightarrow> None
      | Some value \<Rightarrow>
          Some \<lparr>at_value = value,
                at_evidence = \<lparr>ev_integration_id = integration_id, ev_capability_key = DELIVERY_CAPABILITY_KEY,
                  ev_label = EvidenceLabel.Verified, ev_source_url = MEASURED_SOURCE_URL,
                  ev_last_verified = last_verified, ev_revalidate_by = revalidate_by\<rparr>\<rparr>)"

section \<open>The descriptor\<close>

datatype Capability =
    IncrementalDelivery | ToolCalling | ParallelToolCalls | StructuredOutput
  | ConversationContinuation | UsageReporting | ReasoningSummary

record CapabilityDescriptor =
  cd_model :: ModelRef
  cd_endpoint_class :: EndpointClass
  cd_incremental_delivery :: "IncrementalDelivery Attested option"
  cd_max_context_tokens :: "u64 Attested option"
  cd_max_output_tokens :: "u64 Attested option"
  cd_capabilities :: "Capability Attested list"

definition capability_descriptor_new :: "ModelRef \<Rightarrow> EndpointClass \<Rightarrow> CapabilityDescriptor" where
  "capability_descriptor_new model endpoint_class =
     \<lparr>cd_model = model, cd_endpoint_class = endpoint_class, cd_incremental_delivery = None,
      cd_max_context_tokens = None, cd_max_output_tokens = None, cd_capabilities = []\<rparr>"

definition descriptor_capability :: "CapabilityDescriptor \<Rightarrow> Capability \<Rightarrow> Capability Attested option" where
  "descriptor_capability self capability = find (\<lambda>entry. at_value entry = capability) (cd_capabilities self)"

definition supports_on :: "CapabilityDescriptor \<Rightarrow> Capability \<Rightarrow> IsoDate \<Rightarrow> bool" where
  "supports_on self capability today =
     (if capability = Capability.IncrementalDelivery
      then is_some_and (cd_incremental_delivery self) (\<lambda>a. attested_satisfies_hard_requirement_on a today)
      else is_some_and (descriptor_capability self capability) (\<lambda>a. attested_satisfies_hard_requirement_on a today))"

definition incremental_delivery_on ::
  "CapabilityDescriptor \<Rightarrow> IsoDate \<Rightarrow> DomainError + IncrementalDelivery option"
where
  "incremental_delivery_on self today =
     (case cd_incremental_delivery self of
        None \<Rightarrow> Ok None
      | Some attested \<Rightarrow>
          if \<not> attested_satisfies_hard_requirement_on attested today then Ok None
          else if \<not> is_incremental (at_value attested) then Err DeliveryNotIncremental
          else Ok (Some (at_value attested)))"

section \<open>A campaign counts as incremental only if every call was\<close>

lemma worst_of_incremental: "is_incremental (worst_of a b) \<longleftrightarrow> is_incremental a \<and> is_incremental b"
  by (auto simp: is_incremental_def worst_of_def)

lemma worst_incremental: "is_incremental (foldl worst_of a ss) \<longleftrightarrow> is_incremental a \<and> list_all is_incremental ss"
  by (induction ss arbitrary: a) (auto simp: worst_of_incremental)

definition no_worse :: "IncrementalDelivery \<Rightarrow> IncrementalDelivery \<Rightarrow> bool" where
  "no_worse s a \<longleftrightarrow> id_time_to_first_token_ms s \<le> id_time_to_first_token_ms a \<and>
     id_chunk_spread_ms a \<le> id_chunk_spread_ms s \<and> id_observed_deltas a \<le> id_observed_deltas s"

lemma no_worse_trans: "no_worse a b \<Longrightarrow> no_worse b c \<Longrightarrow> no_worse a c"
  by (auto simp: no_worse_def)

lemma worst_of_no_worse: "no_worse a (worst_of a b)" "no_worse b (worst_of a b)"
  by (simp_all add: no_worse_def worst_of_def)

lemma worst_start: "no_worse a (foldl worst_of a ss)"
proof (induction ss arbitrary: a)
  case (Cons x ss)
  from worst_of_no_worse(1) Cons.IH show ?case by (simp, blast intro: no_worse_trans)
qed (simp add: no_worse_def)

lemma worst_bounds: "s \<in> set ss \<Longrightarrow> no_worse s (foldl worst_of a ss)"
proof (induction ss arbitrary: a)
  case (Cons x ss)
  then show ?case
    using worst_start [of "worst_of a x" ss] worst_of_no_worse(2) [of x a]
    by (auto intro: no_worse_trans)
qed simp

text \<open>A measured delivery profile is as bad as the worst call of its campaign: there is one exactly
  when the campaign has three samples, no sample is slower to the first token, narrower in spread
  or thinner in deltas than the profile says, and the profile counts as incremental exactly when
  every sample does.\<close>

theorem profile_is_the_worst_sample:
  "case delivery_aggregate d of
     None \<Rightarrow> length (ds_samples d) < 3
   | Some a \<Rightarrow> length (ds_samples d) \<ge> 3 \<and>
       (is_incremental a \<longleftrightarrow> list_all is_incremental (ds_samples d)) \<and>
       list_all (\<lambda>s. id_time_to_first_token_ms s \<le> id_time_to_first_token_ms a \<and>
          id_chunk_spread_ms a \<le> id_chunk_spread_ms s \<and> id_observed_deltas a \<le> id_observed_deltas s)
         (ds_samples d)"
proof -
  have "is_incremental \<lparr>id_time_to_first_token_ms = 0, id_chunk_spread_ms = - 1, id_observed_deltas = - 1\<rparr>"
    by (simp add: is_incremental_def MIN_INCREMENTAL_SPREAD_MS_def word_le_nat_alt word_less_nat_alt
        unat_minus_one_word_eq)
  then show ?thesis
    by (auto simp: delivery_aggregate_def is_sufficient_def MIN_PROFILE_SAMPLES_def worst_incremental
        list_all_iff dest!: worst_bounds simp: no_worse_def)
qed

end
