(* ===== verification/Model_Stream.thy ===== *)
theory Model_Stream
  imports Model_Usage Model_Capability "HOL-Library.AList"
begin

text \<open>
  \<open>model/stream.rs\<close>: what is sent to a model and what comes back. The input is a validated list of
  items; the output is a stream of numbered frames that a state machine admits one by one. The
  maps of open tool calls and assembled arguments are association lists. The usage part of the
  file is in Model\_Usage.
\<close>

section \<open>Bounded texts and sequence numbers\<close>

definition MAX_PROVIDER_STRING_BYTES :: nat where "MAX_PROVIDER_STRING_BYTES = 256"
definition MAX_JSON_TEXT_BYTES :: nat where "MAX_JSON_TEXT_BYTES = 64 * 1024"

definition bounded_provider_string :: "string \<Rightarrow> DomainError + string" where
  "bounded_provider_string value =
     (if value = [] \<or> length value > MAX_PROVIDER_STRING_BYTES \<or> contains_nul value
      then Err UnboundedProviderValue else Ok value)"

datatype JsonText = JsonText (json_text_as_str: string)

definition json_text_new :: "string \<Rightarrow> DomainError + JsonText" where
  "json_text_new value =
     (if value = [] \<or> length value > MAX_JSON_TEXT_BYTES \<or> contains_nul value
      then Err UnboundedProviderValue else Ok (JsonText value))"

type_synonym Sequence = u64

definition sequence_first :: Sequence where "sequence_first = 0"

definition sequence_next :: "Sequence \<Rightarrow> DomainError + Sequence" where
  "sequence_next s = ok_or (checked_add s 1) StreamSequenceExhausted"

section \<open>Requests\<close>

datatype Modality = Text | Image | Audio | Video
datatype Role = System | User | Assistant | Tool

record RouteRequirements =
  rq_modalities :: "Modality list"
  rq_required_capabilities :: "Capability list"
  rq_locality :: Locality

definition route_requirements_text :: RouteRequirements where
  "route_requirements_text =
     \<lparr>rq_modalities = [Modality.Text], rq_required_capabilities = [], rq_locality = Locality.ApprovedCloudAllowed\<rparr>"

definition requires_incremental_delivery :: "RouteRequirements \<Rightarrow> bool" where
  "requires_incremental_delivery self \<longleftrightarrow> Capability.IncrementalDelivery \<in> set (rq_required_capabilities self)"

definition requires_tool_calling :: "RouteRequirements \<Rightarrow> bool" where
  "requires_tool_calling self \<longleftrightarrow> Capability.ToolCalling \<in> set (rq_required_capabilities self)"

definition requires_local_only :: "RouteRequirements \<Rightarrow> bool" where
  "requires_local_only self \<longleftrightarrow> rq_locality self = Locality.LocalOnly"

definition MAX_TEMPERATURE_MILLIS :: "16 word" where "MAX_TEMPERATURE_MILLIS = 2000"
definition MAX_TOP_P_MILLIS :: "16 word" where "MAX_TOP_P_MILLIS = 1000"

datatype ReasoningEffort = Minimal | Low | Medium | High

record PortableSettings =
  ps_temperature_millis :: "16 word option"
  ps_top_p_millis :: "16 word option"
  ps_reasoning_effort :: "ReasoningEffort option"

definition portable_settings_new ::
  "16 word option \<Rightarrow> 16 word option \<Rightarrow> ReasoningEffort option \<Rightarrow> DomainError + PortableSettings"
where
  "portable_settings_new temperature_millis top_p_millis reasoning_effort =
     (if is_some_and temperature_millis (\<lambda>v. v > MAX_TEMPERATURE_MILLIS) then Err ModelSettingsInvalid
      else if is_some_and top_p_millis (\<lambda>v. v = 0 \<or> v > MAX_TOP_P_MILLIS) then Err ModelSettingsInvalid
      else Ok \<lparr>ps_temperature_millis = temperature_millis, ps_top_p_millis = top_p_millis,
               ps_reasoning_effort = reasoning_effort\<rparr>)"

definition portable_settings_is_empty :: "PortableSettings \<Rightarrow> bool" where
  "portable_settings_is_empty self \<longleftrightarrow>
     ps_temperature_millis self = None \<and> ps_top_p_millis self = None \<and> ps_reasoning_effort self = None"

datatype MessageBlock = TextBlock string | ArtifactRef string string

datatype StreamArguments = Streaming string | Complete string

definition arguments_are_complete :: "StreamArguments \<Rightarrow> bool" where
  "arguments_are_complete a = (case a of Complete _ \<Rightarrow> True | Streaming _ \<Rightarrow> False)"

definition executable_raw :: "StreamArguments \<Rightarrow> string option" where
  "executable_raw a = (case a of Complete raw \<Rightarrow> Some raw | Streaming _ \<Rightarrow> None)"

definition raw_for_assembly :: "StreamArguments \<Rightarrow> string" where
  "raw_for_assembly a = (case a of Complete raw \<Rightarrow> raw | Streaming raw \<Rightarrow> raw)"

datatype InputItem =
    SystemPolicyRef string
  | Message Role "MessageBlock list"
  | ToolCall string string StreamArguments
  | ToolResult string bool string
  | ReasoningSummaryItem string

definition input_item_call_id :: "InputItem \<Rightarrow> string option" where
  "input_item_call_id item =
     (case item of
        ToolCall call_id _ _ \<Rightarrow> Some call_id
      | ToolResult call_id _ _ \<Rightarrow> Some call_id
      | _ \<Rightarrow> None)"

text \<open>The loop of \<open>InputItems::new\<close>, over the calls seen so far.\<close>

fun check_items :: "string list \<Rightarrow> InputItem list \<Rightarrow> DomainError + unit" where
  "check_items seen [] = Ok ()"
| "check_items seen (item # items) =
     (case item of
        ToolCall call_id _ _ \<Rightarrow>
          if call_id \<in> set seen then Err DuplicateToolCallId else check_items (call_id # seen) items
      | ToolResult call_id _ _ \<Rightarrow>
          if call_id \<notin> set seen then Err OrphanedToolResult else check_items seen items
      | _ \<Rightarrow> check_items seen items)"

definition input_items_new :: "InputItem list \<Rightarrow> DomainError + InputItem list" where
  "input_items_new items = and_then (check_items [] items) (\<lambda>_. Ok items)"

section \<open>Frames\<close>

datatype FinishReason =
    Stop | Length | ToolCalls | ContentFilter | Refusal | ProviderError | Cancelled | Other string

definition finish_reason_other :: "string \<Rightarrow> DomainError + FinishReason" where
  "finish_reason_other provider_value =
     and_then (bounded_provider_string provider_value) (\<lambda>v. Ok (FinishReason.Other v))"

record ProviderMetadata =
  pm_request_id :: "string option"
  pm_continuation_ref :: "string option"
  pm_provider_finish_reason :: "string option"

definition bounded_field :: "string option \<Rightarrow> DomainError + string option" where
  "bounded_field field =
     (case field of None \<Rightarrow> Ok None | Some v \<Rightarrow> and_then (bounded_provider_string v) (\<lambda>w. Ok (Some w)))"

definition provider_metadata_validated :: "ProviderMetadata \<Rightarrow> DomainError + ProviderMetadata" where
  "provider_metadata_validated self =
     and_then (bounded_field (pm_request_id self)) (\<lambda>a.
     and_then (bounded_field (pm_continuation_ref self)) (\<lambda>b.
     and_then (bounded_field (pm_provider_finish_reason self)) (\<lambda>c.
     Ok \<lparr>pm_request_id = a, pm_continuation_ref = b, pm_provider_finish_reason = c\<rparr>)))"

datatype ModelStreamEventKind =
    CallStarted "ModelRef option"
  | OutputItemAdded string
  | OutputTextDelta string string
  | OutputItemCompleted string
  | ToolCallAdded string string
  | ToolCallArgumentsDelta string string
  | ToolCallCompleted string string
  | ReasoningSummaryDelta string
  | UsageUpdated Usage
  | ProviderWarning string
  | CallCompleted FinishReason "Usage option" bool
  | CallFailed string bool
  | CallCancelled u64

primrec event_type_name :: "ModelStreamEventKind \<Rightarrow> string" where
  "event_type_name (CallStarted _) = ''call.started''"
| "event_type_name (OutputItemAdded _) = ''output.item.added''"
| "event_type_name (OutputTextDelta _ _) = ''output.text.delta''"
| "event_type_name (OutputItemCompleted _) = ''output.item.completed''"
| "event_type_name (ToolCallAdded _ _) = ''tool.call.added''"
| "event_type_name (ToolCallArgumentsDelta _ _) = ''tool.call.arguments.delta''"
| "event_type_name (ToolCallCompleted _ _) = ''tool.call.completed''"
| "event_type_name (ReasoningSummaryDelta _) = ''reasoning.summary.delta''"
| "event_type_name (UsageUpdated _) = ''usage.updated''"
| "event_type_name (ProviderWarning _) = ''provider.warning''"
| "event_type_name (CallCompleted _ _ _) = ''call.completed''"
| "event_type_name (CallFailed _ _) = ''call.failed''"
| "event_type_name (CallCancelled _) = ''call.cancelled''"

definition kind_is_terminal :: "ModelStreamEventKind \<Rightarrow> bool" where
  "kind_is_terminal kind =
     (case kind of CallCompleted _ _ _ \<Rightarrow> True | CallFailed _ _ \<Rightarrow> True | CallCancelled _ \<Rightarrow> True | _ \<Rightarrow> False)"

record ModelStreamEvent =
  se_call_id :: uuid
  se_event_id :: uuid
  se_sequence :: Sequence
  se_kind :: ModelStreamEventKind
  se_provider_metadata :: "ProviderMetadata option"

definition event_is_terminal :: "ModelStreamEvent \<Rightarrow> bool" where
  "event_is_terminal event = kind_is_terminal (se_kind event)"

datatype StreamAdmission = Accepted | IgnoredAfterTerminal

datatype StreamOutcome = Terminal FinishReason | Interrupted u64

definition stream_outcome_is_terminal :: "StreamOutcome \<Rightarrow> bool" where
  "stream_outcome_is_terminal out = (case out of Terminal _ \<Rightarrow> True | Interrupted _ \<Rightarrow> False)"

section \<open>The state machine\<close>

record ModelStreamState =
  ss_call_id :: uuid
  ss_last_sequence :: Sequence
  ss_started :: bool
  ss_terminal :: "FinishReason option"
  ss_accepted :: u64
  ss_late_frames_ignored :: u64
  ss_open_tool_calls :: "(string \<times> string) list"
  ss_assembled_arguments :: "(string \<times> string) list"

definition stream_state_new :: "uuid \<Rightarrow> ModelStreamState" where
  "stream_state_new call_id =
     \<lparr>ss_call_id = call_id, ss_last_sequence = sequence_first, ss_started = False, ss_terminal = None,
      ss_accepted = 0, ss_late_frames_ignored = 0, ss_open_tool_calls = [], ss_assembled_arguments = []\<rparr>"

definition stream_apply :: "ModelStreamEventKind \<Rightarrow> ModelStreamState \<Rightarrow> (DomainError + unit) \<times> ModelStreamState" where
  "stream_apply kind self =
     (case kind of
        CallStarted _ \<Rightarrow>
          if ss_started self then (Err StreamAlreadyStarted, self) else (Ok (), self\<lparr>ss_started := True\<rparr>)
      | ToolCallAdded call_id tool_name \<Rightarrow>
          (Ok (), self\<lparr>ss_assembled_arguments := AList.update call_id [] (ss_assembled_arguments self),
                       ss_open_tool_calls := AList.update call_id tool_name (ss_open_tool_calls self)\<rparr>)
      | ToolCallArgumentsDelta call_id delta \<Rightarrow>
          (case map_of (ss_assembled_arguments self) call_id of
             None \<Rightarrow> (Err UnknownToolCall, self)
           | Some buffer \<Rightarrow>
               (Ok (), self\<lparr>ss_assembled_arguments :=
                              AList.update call_id (buffer @ delta) (ss_assembled_arguments self)\<rparr>))
      | ToolCallCompleted call_id arguments \<Rightarrow>
          (case map_of (ss_open_tool_calls self) call_id of
             None \<Rightarrow> (Err UnknownToolCall, self)
           | Some _ \<Rightarrow>
               (let self' = self\<lparr>ss_open_tool_calls := AList.delete call_id (ss_open_tool_calls self),
                                 ss_assembled_arguments := AList.delete call_id (ss_assembled_arguments self)\<rparr>
                in if is_some_and (map_of (ss_assembled_arguments self) call_id) (\<lambda>seen. seen \<noteq> arguments)
                   then (Err ToolArgumentsMismatch, self') else (Ok (), self')))
      | _ \<Rightarrow> (Ok (), self))"

definition kind_terminal_reason :: "ModelStreamEventKind \<Rightarrow> FinishReason option" where
  "kind_terminal_reason kind =
     (case kind of
        CallCompleted finish_reason _ _ \<Rightarrow> Some finish_reason
      | CallFailed _ _ \<Rightarrow> Some FinishReason.ProviderError
      | CallCancelled _ \<Rightarrow> Some FinishReason.Cancelled
      | _ \<Rightarrow> None)"

definition stream_accept ::
  "ModelStreamState \<Rightarrow> ModelStreamEvent \<Rightarrow> (DomainError + StreamAdmission) \<times> ModelStreamState"
where
  "stream_accept self event =
     (if se_call_id event \<noteq> ss_call_id self then (Err StreamCallMismatch, self)
      else if ss_terminal self \<noteq> None
        then (Ok IgnoredAfterTerminal, self\<lparr>ss_late_frames_ignored := ss_late_frames_ignored self + 1\<rparr>)
      else if se_sequence event \<le> ss_last_sequence self then (Err StreamSequenceNotMonotonic, self)
      else
        (case stream_apply (se_kind event) self of
           (Err e, self') \<Rightarrow> (Err e, self')
         | (Ok _, self') \<Rightarrow>
             (let moved = self'\<lparr>ss_last_sequence := se_sequence event, ss_accepted := ss_accepted self' + 1\<rparr>
              in (Ok Accepted,
                  if kind_is_terminal (se_kind event)
                  then moved\<lparr>ss_terminal := kind_terminal_reason (se_kind event)\<rparr> else moved))))"

definition stream_open_tool_call_ids :: "ModelStreamState \<Rightarrow> string list" where
  "stream_open_tool_call_ids self = sort (map fst (ss_open_tool_calls self))"

definition stream_finish :: "ModelStreamState \<Rightarrow> DomainError + StreamOutcome" where
  "stream_finish self =
     (if ss_open_tool_calls self \<noteq> [] then Err UnfinishedToolCall
      else case ss_terminal self of
        Some reason \<Rightarrow> Ok (Terminal reason)
      | None \<Rightarrow> Ok (Interrupted (ss_accepted self)))"

section \<open>Input items\<close>

text \<open>The calls and the results a list of items names, by position.\<close>

definition calls_in :: "InputItem list \<Rightarrow> string list" where
  "calls_in items = concat (map (\<lambda>item. case item of ToolCall call_id _ _ \<Rightarrow> [call_id] | _ \<Rightarrow> []) items)"

lemma calls_in_simps [simp]:
  "calls_in [] = []"
  "calls_in (item # items) = (case item of ToolCall call_id _ _ \<Rightarrow> [call_id] | _ \<Rightarrow> []) @ calls_in items"
  "calls_in (xs @ ys) = calls_in xs @ calls_in ys"
  by (simp_all add: calls_in_def)

lemma check_items_Ok_iff:
  "check_items seen items = Ok () \<longleftrightarrow>
     distinct (calls_in items) \<and> set (calls_in items) \<inter> set seen = {} \<and>
     (\<forall>i < length items. \<forall>call_id is_error content. items ! i = ToolResult call_id is_error content \<longrightarrow>
        call_id \<in> set seen \<or> call_id \<in> set (calls_in (take i items)))"
proof (induction items arbitrary: seen)
  case Nil
  show ?case by simp
next
  case (Cons item items)
  have split: "(\<forall>i < length (item # items). P i) \<longleftrightarrow> P 0 \<and> (\<forall>i < length items. P (Suc i))" for P
    by (auto simp: less_Suc_eq_0_disj)
  show ?case
    unfolding split
    by (cases item) (auto simp: Cons.IH)
qed

section \<open>What the admitted frames say\<close>

definition adds_call :: "string \<Rightarrow> ModelStreamEventKind \<Rightarrow> bool" where
  "adds_call call_id kind = (case kind of ToolCallAdded i _ \<Rightarrow> i = call_id | _ \<Rightarrow> False)"

definition completes_call :: "string \<Rightarrow> ModelStreamEventKind \<Rightarrow> bool" where
  "completes_call call_id kind = (case kind of ToolCallCompleted i _ \<Rightarrow> i = call_id | _ \<Rightarrow> False)"

definition delta_of :: "string \<Rightarrow> ModelStreamEventKind \<Rightarrow> string" where
  "delta_of call_id kind = (case kind of ToolCallArgumentsDelta i delta \<Rightarrow> if i = call_id then delta else [] | _ \<Rightarrow> [])"

text \<open>The argument text of a call: its deltas since it was last added, in order.\<close>

definition assembled_text :: "string \<Rightarrow> ModelStreamEventKind list \<Rightarrow> string" where
  "assembled_text call_id kinds =
     concat (map (delta_of call_id) (rev (takeWhile (\<lambda>k. \<not> adds_call call_id k) (rev kinds))))"

text \<open>A call is open when it was added and not completed since.\<close>

definition call_open :: "string \<Rightarrow> ModelStreamEventKind list \<Rightarrow> bool" where
  "call_open call_id kinds \<longleftrightarrow>
     (case find (\<lambda>k. adds_call call_id k \<or> completes_call call_id k) (rev kinds) of
        None \<Rightarrow> False | Some k \<Rightarrow> adds_call call_id k)"

lemma assembled_text_snoc:
  "assembled_text c (ks @ [k]) = (if adds_call c k then [] else assembled_text c ks @ delta_of c k)"
  by (simp add: assembled_text_def)

lemma call_open_snoc:
  "call_open c (ks @ [k]) =
     (if adds_call c k then True else if completes_call c k then False else call_open c ks)"
  by (simp add: call_open_def)

definition accepted_events :: "ModelStreamEvent list \<Rightarrow> (DomainError + StreamAdmission) list \<Rightarrow> ModelStreamEvent list" where
  "accepted_events evs rs = map fst (filter (\<lambda>(e, r). r = Ok Accepted) (zip evs rs))"

lemma accepted_events_simps [simp]:
  "accepted_events [] rs = []"
  "accepted_events (e # evs) (r # rs) = (if r = Ok Accepted then [e] else []) @ accepted_events evs rs"
  by (simp_all add: accepted_events_def)

definition calls_inv :: "ModelStreamEventKind list \<Rightarrow> ModelStreamState \<Rightarrow> bool" where
  "calls_inv kinds st \<longleftrightarrow>
     (\<forall>c. map_of (ss_open_tool_calls st) c = None \<longleftrightarrow> map_of (ss_assembled_arguments st) c = None) \<and>
     (\<forall>c b. map_of (ss_assembled_arguments st) c = Some b \<longrightarrow>
        list_ex (adds_call c) kinds \<and> b = assembled_text c kinds \<and> call_open c kinds)"

text \<open>The invariant of a stream: the state is determined by the frames it admitted.\<close>

definition stream_inv :: "uuid \<Rightarrow> ModelStreamEvent list \<Rightarrow> ModelStreamState \<Rightarrow> bool" where
  "stream_inv call acc st \<longleftrightarrow>
     ss_call_id st = call \<and> list_all (\<lambda>e. se_call_id e = call) acc \<and>
     sorted_wrt (<) (sequence_first # map se_sequence acc) \<and>
     ss_last_sequence st = last (sequence_first # map se_sequence acc) \<and>
     list_all (\<lambda>e. \<not> event_is_terminal e) (butlast acc) \<and>
     ss_terminal st = (if acc = [] then None else kind_terminal_reason (se_kind (last acc))) \<and>
     ss_accepted st = of_nat (length acc) \<and>
     calls_inv (map se_kind acc) st"

lemma calls_inv_open:
  assumes "calls_inv kinds st" and "map_of (ss_open_tool_calls st) c \<noteq> None"
  obtains b where "map_of (ss_assembled_arguments st) c = Some b" and "list_ex (adds_call c) kinds"
    and "b = assembled_text c kinds" and "call_open c kinds"
proof -
  have "map_of (ss_assembled_arguments st) c \<noteq> None" using assms by (simp add: calls_inv_def)
  then obtain b where "map_of (ss_assembled_arguments st) c = Some b" by blast
  with that assms(1) show thesis unfolding calls_inv_def by blast
qed

lemma stream_inv_new: "stream_inv call [] (stream_state_new call)"
  by (simp add: stream_inv_def stream_state_new_def calls_inv_def)

lemma terminal_reason_iff: "kind_terminal_reason k \<noteq> None \<longleftrightarrow> kind_is_terminal k"
  by (cases k) (simp_all add: kind_terminal_reason_def kind_is_terminal_def)

lemma stream_apply_calls:
  assumes "calls_inv kinds st" and "stream_apply k st = (r, st')"
  shows "calls_inv (if r = Ok () then kinds @ [k] else kinds) st'"
  using assms
  by (cases k)
     (auto simp: stream_apply_def calls_inv_def assembled_text_snoc call_open_snoc adds_call_def completes_call_def
       delta_of_def update_conv' delete_conv' Let_def split: if_split_asm option.split_asm)

lemma stream_apply_keeps:
  assumes "stream_apply k st = (r, st')"
  shows "ss_call_id st' = ss_call_id st" and "ss_last_sequence st' = ss_last_sequence st"
    and "ss_terminal st' = ss_terminal st" and "ss_accepted st' = ss_accepted st"
  using assms by (cases k; auto simp: stream_apply_def Let_def split: if_split_asm option.split_asm)+

lemma calls_inv_fields [simp]:
  "calls_inv ks (st\<lparr>ss_last_sequence := q\<rparr>) = calls_inv ks st"
  "calls_inv ks (st\<lparr>ss_accepted := n\<rparr>) = calls_inv ks st"
  "calls_inv ks (st\<lparr>ss_terminal := t\<rparr>) = calls_inv ks st"
  "calls_inv ks (st\<lparr>ss_late_frames_ignored := n\<rparr>) = calls_inv ks st"
  by (simp_all add: calls_inv_def)

lemma stream_accept_inv:
  assumes inv: "stream_inv call acc st" and run: "stream_accept st e = (r, st')"
  shows "stream_inv call (acc @ (if r = Ok Accepted then [e] else [])) st'"
proof (cases "se_call_id e \<noteq> ss_call_id st \<or> ss_terminal st \<noteq> None \<or> se_sequence e \<le> ss_last_sequence st")
  case True
  with inv run show ?thesis
    by (auto simp: stream_accept_def stream_inv_def split: if_split_asm)
next
  case False
  obtain q st1 where app: "stream_apply (se_kind e) st = (q, st1)" by fastforce
  note k = stream_apply_keeps [OF app]
  have calls: "calls_inv (map se_kind acc) st" using inv by (simp add: stream_inv_def)
  note c = stream_apply_calls [OF calls app]
  show ?thesis
  proof (cases q)
    case (Inl x)
    with False app run inv c k show ?thesis by (auto simp: stream_accept_def stream_inv_def)
  next
    case (Inr u)
    have last: "ss_terminal st = None" using False by simp
    then have live: "acc \<noteq> [] \<Longrightarrow> \<not> event_is_terminal (last acc)"
      using inv by (auto simp: stream_inv_def event_is_terminal_def simp flip: terminal_reason_iff)
    have all: "list_all (\<lambda>e. \<not> event_is_terminal e) acc"
      using inv live by (cases acc rule: rev_cases) (auto simp: stream_inv_def)
    have above: "\<forall>x \<in> set (sequence_first # map se_sequence acc). x < se_sequence e"
    proof -
      have "sorted_wrt (<) (sequence_first # map se_sequence acc)"
        "last (sequence_first # map se_sequence acc) < se_sequence e"
        using inv False by (auto simp: stream_inv_def)
      then show ?thesis
        by (cases "sequence_first # map se_sequence acc" rule: rev_cases) (auto simp: sorted_wrt_append)
    qed
    show ?thesis
      using Inr False app run inv c k all above terminal_reason_iff [of "se_kind e"] last
      by (auto simp: stream_accept_def stream_inv_def Let_def sorted_wrt_append split: if_split_asm)
  qed
qed

lemma run_stream_inv:
  "stream_inv call acc st \<Longrightarrow> run_steps stream_accept st evs = (rs, st') \<Longrightarrow>
     stream_inv call (acc @ accepted_events evs rs) st'"
proof (induction evs arbitrary: acc st rs)
  case (Cons e evs)
  then obtain r rs' st1 where 1: "stream_accept st e = (r, st1)" "run_steps stream_accept st1 evs = (rs', st')"
      "rs = r # rs'"
    by (auto simp: run_steps_Cons_iff simp del: run_steps.simps)
  from Cons.IH [OF stream_accept_inv [OF Cons.prems(1) 1(1)] 1(2)] 1(3) show ?case by simp
qed simp

lemma run_steps_at:
  "run_steps f e cs = (rs, e') \<Longrightarrow> i < length cs \<Longrightarrow>
     \<exists>e1. run_steps f e (take i cs) = (take i rs, e1) \<and> fst (f e1 (cs ! i)) = rs ! i"
proof (induction cs arbitrary: e rs i)
  case (Cons c cs)
  then obtain r rs' e1 where 1: "f e c = (r, e1)" "run_steps f e1 cs = (rs', e')" "rs = r # rs'"
    by (auto simp: run_steps_Cons_iff simp del: run_steps.simps)
  show ?case
  proof (cases i)
    case 0
    with 1 show ?thesis by simp
  next
    case (Suc j)
    with 1 Cons.prems(2) Cons.IH [OF 1(2), of j] show ?thesis by auto
  qed
qed simp

text \<open>Unless a completion was refused for its arguments, an open call stays known.\<close>

definition opens_known :: "ModelStreamEventKind list \<Rightarrow> ModelStreamState \<Rightarrow> bool" where
  "opens_known kinds st \<longleftrightarrow> (\<forall>c. call_open c kinds \<longrightarrow> map_of (ss_open_tool_calls st) c \<noteq> None)"

lemma stream_apply_opens:
  assumes "opens_known kinds st" and "stream_apply k st = (r, st')" and "r \<noteq> Err ToolArgumentsMismatch"
  shows "opens_known (if r = Ok () then kinds @ [k] else kinds) st'"
  using assms
  by (cases k)
     (auto simp: stream_apply_def opens_known_def call_open_snoc adds_call_def completes_call_def
       update_conv' delete_conv' Let_def split: if_split_asm option.split_asm)

lemma stream_accept_opens:
  assumes "opens_known (map se_kind acc) st" and "stream_accept st e = (r, st')"
    and "r \<noteq> Err ToolArgumentsMismatch"
  shows "opens_known (map se_kind (acc @ (if r = Ok Accepted then [e] else []))) st'"
proof -
  obtain q st1 where app: "stream_apply (se_kind e) st = (q, st1)" by fastforce
  show ?thesis
    using assms stream_apply_opens [OF assms(1) app] app
    by (cases q) (auto simp: stream_accept_def opens_known_def Let_def split: if_split_asm)
qed

lemma run_stream_opens:
  "opens_known (map se_kind acc) st \<Longrightarrow> run_steps stream_accept st evs = (rs, st') \<Longrightarrow>
     Err ToolArgumentsMismatch \<notin> set rs \<Longrightarrow> opens_known (map se_kind (acc @ accepted_events evs rs)) st'"
proof (induction evs arbitrary: acc st rs)
  case (Cons e evs)
  then obtain r rs' st1 where 1: "stream_accept st e = (r, st1)" "run_steps stream_accept st1 evs = (rs', st')"
      "rs = r # rs'"
    by (auto simp: run_steps_Cons_iff simp del: run_steps.simps)
  from Cons.IH [OF stream_accept_opens [OF Cons.prems(1) 1(1)] 1(2)] Cons.prems(3) 1(3) show ?case by auto
qed simp

section \<open>Properties\<close>

text \<open>The input list a model is sent is exactly one in which no call identifier is declared twice
  and every tool result follows the call it answers.\<close>

theorem input_items_are_paired:
  "is_ok (input_items_new items) \<longleftrightarrow>
     distinct (calls_in items) \<and>
     list_all (\<lambda>i. case items ! i of ToolResult call_id _ _ \<Rightarrow> call_id \<in> set (calls_in (take i items)) | _ \<Rightarrow> True)
       [0..<length items]"
proof -
  have "is_ok (input_items_new items) \<longleftrightarrow> check_items [] items = Ok ()"
    by (auto simp: input_items_new_def is_ok_iff and_then_Ok_iff)
  then show ?thesis
    by (auto simp: check_items_Ok_iff list_all_iff split: InputItem.split)
qed

text \<open>A stream admits frames in order and ends once, whatever frames it is offered: the admitted
  frames belong to its call, their sequence numbers increase strictly from one upwards, none but
  the last is terminal, and the state records the reason of that last frame and the number of
  frames admitted.\<close>

theorem stream_admits_in_order:
  assumes "run_steps stream_accept (stream_state_new call) evs = (rs, st)"
    and "acc = accepted_events evs rs"
  shows "list_all (\<lambda>e. se_call_id e = call) acc \<and> sorted_wrt (<) (0 # map se_sequence acc) \<and>
    list_all (\<lambda>e. \<not> event_is_terminal e) (butlast acc) \<and>
    ss_terminal st = (if acc = [] then None else kind_terminal_reason (se_kind (last acc))) \<and>
    ss_accepted st = of_nat (length acc)"
  using run_stream_inv [OF stream_inv_new assms(1)] assms(2)
  by (simp add: stream_inv_def sequence_first_def)

definition sample_frame :: "Sequence \<Rightarrow> ModelStreamEventKind \<Rightarrow> ModelStreamEvent" where
  "sample_frame q k = \<lparr>se_call_id = 1, se_event_id = 2, se_sequence = q, se_kind = k, se_provider_metadata = None\<rparr>"

definition sample_frames :: "ModelStreamEvent list" where
  "sample_frames = [sample_frame 1 (CallStarted None), sample_frame 2 (ToolCallAdded ''c'' ''t''),
     sample_frame 3 (ToolCallArgumentsDelta ''c'' ''{''), sample_frame 3 (ToolCallArgumentsDelta ''c'' ''{''),
     sample_frame 4 (ToolCallArgumentsDelta ''c'' ''}''), sample_frame 5 (ToolCallCompleted ''c'' ''{}''),
     sample_frame 6 (CallCompleted FinishReason.ToolCalls None False), sample_frame 7 (ProviderWarning ''w'')]"

lemma sample_frames_run:
  "fst (run_steps stream_accept (stream_state_new 1) sample_frames) =
     [Ok Accepted, Ok Accepted, Ok Accepted, Err StreamSequenceNotMonotonic, Ok Accepted, Ok Accepted,
      Ok Accepted, Ok IgnoredAfterTerminal]"
  by (simp add: sample_frames_def sample_frame_def stream_state_new_def stream_accept_def stream_apply_def
      sequence_first_def kind_is_terminal_def kind_terminal_reason_def Let_def word_le_nat_alt)

theorem stream_admits_in_order_witness:
  "sorted_wrt (<) (0 # map se_sequence (accepted_events sample_frames
     (fst (run_steps stream_accept (stream_state_new 1) sample_frames)))) \<and>
   length (accepted_events sample_frames (fst (run_steps stream_accept (stream_state_new 1) sample_frames))) = 6"
  using stream_admits_in_order [OF prod.collapse [symmetric] refl, of 1 sample_frames]
  by (simp add: sample_frames_run) (simp add: sample_frames_def)

text \<open>A tool call completes only on the arguments that were streamed: when a completion is
  admitted, the call was added before, it is open, and the arguments are its argument deltas since
  it was last added, joined in order.\<close>

theorem completed_call_has_streamed_arguments:
  assumes "run_steps stream_accept (stream_state_new call) evs = (rs, st)" and "i < length evs"
    and "rs ! i = Ok Accepted" and "se_kind (evs ! i) = ToolCallCompleted c arguments"
    and "kinds = map se_kind (accepted_events (take i evs) (take i rs))"
  shows "list_ex (adds_call c) kinds \<and> call_open c kinds \<and> arguments = assembled_text c kinds"
proof -
  obtain st1 where pre: "run_steps stream_accept (stream_state_new call) (take i evs) = (take i rs, st1)"
    and at: "fst (stream_accept st1 (evs ! i)) = Ok Accepted"
    using run_steps_at [OF assms(1,2)] assms(3) by auto
  have inv: "calls_inv kinds st1"
    using run_stream_inv [OF stream_inv_new pre] assms(5) by (simp add: stream_inv_def)
  from at assms(4) obtain name where name: "map_of (ss_open_tool_calls st1) c = Some name"
    and eq: "\<forall>b. map_of (ss_assembled_arguments st1) c = Some b \<longrightarrow> b = arguments"
    by (cases "map_of (ss_assembled_arguments st1) c")
       (auto simp: stream_accept_def stream_apply_def Let_def split: if_split_asm option.split_asm)
  then have "map_of (ss_open_tool_calls st1) c \<noteq> None" by simp
  with inv show ?thesis by (rule calls_inv_open) (use eq in simp)
qed

theorem completed_call_has_streamed_arguments_witness:
  "assembled_text ''c'' (map se_kind (accepted_events (take 5 sample_frames)
     (take 5 (fst (run_steps stream_accept (stream_state_new 1) sample_frames))))) = ''{}''"
proof -
  have "se_kind (sample_frames ! 5) = ToolCallCompleted ''c'' ''{}''" "5 < length sample_frames"
    by (simp_all add: sample_frames_def sample_frame_def)
  moreover have "fst (run_steps stream_accept (stream_state_new 1) sample_frames) ! 5 = Ok Accepted"
    by (simp add: sample_frames_run)
  ultimately show ?thesis
    using completed_call_has_streamed_arguments [OF prod.collapse [symmetric], of 5 sample_frames 1 "''c''" "''{}''"]
    by simp
qed

text \<open>A stream finishes only when no tool call is left open, provided no completion was refused
  for its arguments: then \<open>finish\<close> fails exactly when some added call was not completed since, and
  otherwise reports the terminal frame, or how many frames came before the interruption.\<close>

theorem finish_reports_open_calls:
  assumes "run_steps stream_accept (stream_state_new call) evs = (rs, st)"
    and "Err ToolArgumentsMismatch \<notin> set rs" and "acc = accepted_events evs rs"
  shows "stream_finish st =
    (if \<exists>c. call_open c (map se_kind acc) then Err UnfinishedToolCall
     else if acc = [] \<or> \<not> event_is_terminal (last acc) then Ok (Interrupted (of_nat (length acc)))
     else Ok (Terminal (the (kind_terminal_reason (se_kind (last acc))))))"
proof -
  have inv: "stream_inv call acc st" using run_stream_inv [OF stream_inv_new assms(1)] assms(3) by simp
  have "opens_known [] (stream_state_new call)" by (simp add: opens_known_def call_open_def)
  with run_stream_opens [of "[]", OF _ assms(1,2)] assms(3) have known: "opens_known (map se_kind acc) st" by simp
  have "(\<exists>c. call_open c (map se_kind acc)) \<longleftrightarrow> ss_open_tool_calls st \<noteq> []"
  proof
    assume "\<exists>c. call_open c (map se_kind acc)"
    with known show "ss_open_tool_calls st \<noteq> []" by (auto simp: opens_known_def)
  next
    assume "ss_open_tool_calls st \<noteq> []"
    then obtain c n rest where "ss_open_tool_calls st = (c, n) # rest" by (cases "ss_open_tool_calls st") auto
    then have "map_of (ss_open_tool_calls st) c \<noteq> None" by simp
    moreover have "calls_inv (map se_kind acc) st" using inv by (simp add: stream_inv_def)
    ultimately show "\<exists>c. call_open c (map se_kind acc)" by (metis calls_inv_open)
  qed
  moreover have "ss_terminal st = (if acc = [] \<or> \<not> event_is_terminal (last acc) then None
      else Some (the (kind_terminal_reason (se_kind (last acc)))))"
    using inv terminal_reason_iff [of "se_kind (last acc)"] by (auto simp: stream_inv_def event_is_terminal_def)
  moreover have "ss_accepted st = of_nat (length acc)" using inv by (simp add: stream_inv_def)
  ultimately show ?thesis by (simp add: stream_finish_def)
qed

theorem finish_reports_open_calls_witness:
  "stream_finish (snd (run_steps stream_accept (stream_state_new 1) (take 3 sample_frames))) = Err UnfinishedToolCall"
proof -
  let ?rs = "fst (run_steps stream_accept (stream_state_new 1) (take 3 sample_frames))"
  have rs: "?rs = [Ok Accepted, Ok Accepted, Ok Accepted]"
    by (simp add: sample_frames_def sample_frame_def stream_state_new_def stream_accept_def stream_apply_def
        sequence_first_def kind_is_terminal_def Let_def word_le_nat_alt)
  have "call_open ''c'' (map se_kind (accepted_events (take 3 sample_frames) ?rs))"
    unfolding rs by (simp add: sample_frames_def sample_frame_def call_open_def adds_call_def completes_call_def)
  with finish_reports_open_calls [OF prod.collapse [symmetric] _ refl, of 1 "take 3 sample_frames"] rs
  show ?thesis by auto
qed

text \<open>A completion refused for its arguments is forgotten: the frame is an error, yet the call it
  named is no longer open, so a stream whose only open call ended that way finishes as if nothing
  had been left unfinished.\<close>

theorem refused_completion_forgets_call:
  assumes "stream_inv call acc st" and "se_call_id e = call" and "ss_terminal st = None"
    and "ss_last_sequence st < se_sequence e" and "se_kind e = ToolCallCompleted c arguments"
    and "ss_open_tool_calls st = [(c, name)]" and "arguments \<noteq> assembled_text c (map se_kind acc)"
  shows "\<exists>st'. stream_accept st e = (Err ToolArgumentsMismatch, st') \<and> stream_finish st' = Ok (Interrupted (ss_accepted st))"
proof -
  have "map_of (ss_open_tool_calls st) c \<noteq> None" using assms(6) by simp
  moreover have "calls_inv (map se_kind acc) st" using assms(1) by (simp add: stream_inv_def)
  ultimately have "map_of (ss_assembled_arguments st) c = Some (assembled_text c (map se_kind acc))"
    by (metis calls_inv_open)
  with assms show ?thesis
    by (auto simp: stream_accept_def stream_apply_def stream_finish_def stream_inv_def Let_def)
qed

theorem refused_completion_forgets_call_witness:
  "\<exists>st'. stream_accept (snd (run_steps stream_accept (stream_state_new 1) [sample_frame 1 (ToolCallAdded ''c'' ''t'')]))
       (sample_frame 2 (ToolCallCompleted ''c'' ''{}'')) = (Err ToolArgumentsMismatch, st') \<and>
     stream_finish st' = Ok (Interrupted 1)"
proof -
  let ?evs = "[sample_frame 1 (ToolCallAdded ''c'' ''t'')]"
  have run: "run_steps stream_accept (stream_state_new 1) ?evs =
      ([Ok Accepted], (stream_state_new 1)\<lparr>ss_last_sequence := 1, ss_accepted := 1,
         ss_open_tool_calls := [(''c'', ''t'')], ss_assembled_arguments := [(''c'', [])]\<rparr>)"
    by (simp add: sample_frame_def stream_state_new_def stream_accept_def stream_apply_def
        sequence_first_def kind_is_terminal_def Let_def word_le_nat_alt)
  have inv: "stream_inv 1 ?evs (snd (run_steps stream_accept (stream_state_new 1) ?evs))"
    using run_stream_inv [OF stream_inv_new run] run by simp
  have "ss_open_tool_calls (snd (run_steps stream_accept (stream_state_new 1) ?evs)) = [(''c'', ''t'')]"
    "ss_terminal (snd (run_steps stream_accept (stream_state_new 1) ?evs)) = None"
    "ss_last_sequence (snd (run_steps stream_accept (stream_state_new 1) ?evs)) = 1"
    "ss_accepted (snd (run_steps stream_accept (stream_state_new 1) ?evs)) = 1"
    unfolding run by (simp_all add: stream_state_new_def)
  moreover have "assembled_text ''c'' (map se_kind ?evs) = []"
    by (simp add: sample_frame_def assembled_text_def adds_call_def delta_of_def)
  moreover have "se_call_id (sample_frame 2 k) = 1" "se_kind (sample_frame 2 k) = k" "1 < se_sequence (sample_frame 2 k)" for k
    by (simp_all add: sample_frame_def)
  ultimately show ?thesis
    using refused_completion_forgets_call [OF inv, of "sample_frame 2 (ToolCallCompleted ''c'' ''{}'')" "''c''" "''{}''" "''t''"]
    by simp
qed

end
