(* ===== verification/Model_Routing.thy ===== *)
theory Model_Routing
  imports Model_Stream Model_Exception
begin

text \<open>
  \<open>model/routing.rs\<close>: which candidate a model call may go to, and why the others may not. A
  candidate is judged against the resolved rules first and, only when a waivable rule refused it,
  once more against the rules relaxed by the first exception that applies. The text of an
  exception's identifier (\<open>uuid\<close>'s \<open>Display\<close>) is the argument \<open>display\<close>; a \<open>BTreeSet\<close> that is
  walked in order is a list.
\<close>

section \<open>Candidates and requests\<close>

definition MAX_CANDIDATES :: nat where "MAX_CANDIDATES = 256"

record RouteCandidate =
  cn_model :: ModelRef
  cn_endpoint_class :: EndpointClass
  cn_region :: "Region option"
  cn_retention :: "ProviderRetention Attested option"
  cn_training_use :: "TrainingUse Attested option"
  cn_descriptor :: CapabilityDescriptor

record RouteRequest =
  rr_rules :: PolicyRules
  rr_policy :: PolicyVersionRef
  rr_sensitivity :: Sensitivity
  rr_requirements :: RouteRequirements
  rr_today :: IsoDate
  rr_decided_at :: instant
  rr_exceptions :: "PolicyException list"

record RouteRefusal =
  rf_rejected :: "RejectedCandidate list"
  rf_requested :: RequestedDataPolicy
  rf_policy :: PolicyVersionRef

datatype RouteSelectionFailure = Refused RouteRefusal | CandidatesUnbounded nat

section \<open>What a candidate is, in the terms of the rules\<close>

definition effective_locality :: "EndpointClass \<Rightarrow> Locality" where
  "effective_locality endpoint_class =
     (case endpoint_class of
        EndpointClass.Local \<Rightarrow> Locality.LocalOnly
      | EndpointClass.PrivateNetwork \<Rightarrow> Locality.PrivateNetworkAllowed
      | EndpointClass.ApprovedCloud \<Rightarrow> Locality.ApprovedCloudAllowed)"

fun satisfies_locality :: "Locality \<Rightarrow> Locality \<Rightarrow> bool" where
  "satisfies_locality Locality.LocalOnly Locality.LocalOnly = True"
| "satisfies_locality Locality.PrivateNetworkAllowed Locality.LocalOnly = True"
| "satisfies_locality Locality.PrivateNetworkAllowed Locality.PrivateNetworkAllowed = True"
| "satisfies_locality Locality.ApprovedCloudAllowed Locality.LocalOnly = True"
| "satisfies_locality Locality.ApprovedCloudAllowed Locality.PrivateNetworkAllowed = True"
| "satisfies_locality Locality.ApprovedCloudAllowed Locality.ApprovedCloudAllowed = True"
| "satisfies_locality _ _ = False"

fun satisfies_required_locality :: "Locality \<Rightarrow> Locality \<Rightarrow> bool" where
  "satisfies_required_locality Locality.LocalOnly Locality.LocalOnly = True"
| "satisfies_required_locality Locality.PrivateNetworkAllowed Locality.LocalOnly = True"
| "satisfies_required_locality Locality.PrivateNetworkAllowed Locality.PrivateNetworkAllowed = True"
| "satisfies_required_locality Locality.ApprovedCloudAllowed Locality.LocalOnly = True"
| "satisfies_required_locality Locality.ApprovedCloudAllowed Locality.PrivateNetworkAllowed = True"
| "satisfies_required_locality Locality.ApprovedCloudAllowed Locality.ApprovedCloudAllowed = True"
| "satisfies_required_locality _ _ = False"

definition effective_retention :: "RouteCandidate \<Rightarrow> IsoDate \<Rightarrow> EffectiveRetention" where
  "effective_retention candidate today =
     (if cn_endpoint_class candidate = EndpointClass.Local then EffectiveRetention.NotApplicableLocal
      else case cn_retention candidate of
          None \<Rightarrow> EffectiveRetention.ProviderDefault
        | Some attested \<Rightarrow>
            if evidence_satisfies_data_policy_rule_on (at_evidence attested) today
            then (case at_value attested of
                    ProviderRetention.NoneDocumented \<Rightarrow> EffectiveRetention.NoneDocumented
                  | ProviderRetention.BoundedDocumented \<Rightarrow> EffectiveRetention.BoundedDocumented
                  | ProviderRetention.ProviderDefaultAllowed \<Rightarrow> EffectiveRetention.ProviderDefault)
            else EffectiveRetention.ProviderDefault)"

definition effective_training_use :: "RouteCandidate \<Rightarrow> IsoDate \<Rightarrow> EffectiveTrainingUse" where
  "effective_training_use candidate today =
     (if cn_endpoint_class candidate = EndpointClass.Local then EffectiveTrainingUse.NotApplicableLocal
      else case cn_training_use candidate of
          None \<Rightarrow> EffectiveTrainingUse.AccountPolicy
        | Some attested \<Rightarrow>
            if evidence_satisfies_data_policy_rule_on (at_evidence attested) today
            then (case at_value attested of
                    TrainingUse.DisallowedDocumented \<Rightarrow> EffectiveTrainingUse.DisallowedDocumented
                  | TrainingUse.AccountPolicyAllowed \<Rightarrow> EffectiveTrainingUse.DisallowedDocumented
                  | TrainingUse.ProviderDefaultAllowed \<Rightarrow> EffectiveTrainingUse.AccountPolicy)
            else EffectiveTrainingUse.AccountPolicy)"

definition satisfies_retention :: "ProviderRetention \<Rightarrow> EffectiveRetention \<Rightarrow> bool" where
  "satisfies_retention required actual =
     (case required of
        ProviderRetention.ProviderDefaultAllowed \<Rightarrow> True
      | ProviderRetention.NoneDocumented \<Rightarrow>
          actual = EffectiveRetention.NotApplicableLocal \<or> actual = EffectiveRetention.NoneDocumented
      | ProviderRetention.BoundedDocumented \<Rightarrow>
          actual = EffectiveRetention.NotApplicableLocal \<or> actual = EffectiveRetention.NoneDocumented \<or>
          actual = EffectiveRetention.BoundedDocumented)"

definition satisfies_training_use :: "TrainingUse \<Rightarrow> EffectiveTrainingUse \<Rightarrow> bool" where
  "satisfies_training_use required actual =
     (case required of
        TrainingUse.ProviderDefaultAllowed \<Rightarrow> True
      | _ \<Rightarrow> actual = EffectiveTrainingUse.NotApplicableLocal \<or>
             actual = EffectiveTrainingUse.DisallowedDocumented)"

definition effective_residency :: "RouteCandidate \<Rightarrow> EffectiveResidency" where
  "effective_residency candidate =
     (case cn_endpoint_class candidate of
        EndpointClass.Local \<Rightarrow> EffectiveResidency.LocalDevice
      | _ \<Rightarrow> EffectiveResidency.Region)"

section \<open>Judging one candidate\<close>

definition rejection_for_absent_capability ::
  "RouteCandidate \<Rightarrow> Capability \<Rightarrow> IsoDate \<Rightarrow> RejectionReason"
where
  "rejection_for_absent_capability candidate capability today =
     (case descriptor_capability (cn_descriptor candidate) capability of
        None \<Rightarrow> RejectionReason.EvidenceMissing
      | Some attested \<Rightarrow>
          if \<not> is_fresh_on (at_evidence attested) today then RejectionReason.EvidenceStale
          else RejectionReason.CapabilityUnattested)"

text \<open>The loop over the required capabilities: the first absent one is reported.\<close>

fun check_capabilities :: "RouteCandidate \<Rightarrow> IsoDate \<Rightarrow> Capability list \<Rightarrow> RejectionReason + unit" where
  "check_capabilities candidate today [] = Ok ()"
| "check_capabilities candidate today (c # cs) =
     (if \<not> supports_on (cn_descriptor candidate) c today
      then Err (rejection_for_absent_capability candidate c today)
      else check_capabilities candidate today cs)"

definition evaluate_candidate ::
  "RouteCandidate \<Rightarrow> RouteRequest \<Rightarrow> PolicyRules \<Rightarrow> RejectionReason + EffectiveDataPolicy"
where
  "evaluate_candidate candidate request rules =
     (let locality = effective_locality (cn_endpoint_class candidate);
          retention = effective_retention candidate (rr_today request);
          training_use = effective_training_use candidate (rr_today request) in
      if pr_allowed_providers rules \<noteq> {} \<and>
         mr_provider_id (cn_model candidate) \<notin> pr_allowed_providers rules then Err ProviderNotAllowed
      else if pr_allowed_models rules \<noteq> {} \<and>
         mr_model_id (cn_model candidate) \<notin> pr_allowed_models rules then Err ModelNotAllowed
      else if \<not> satisfies_locality (pr_locality rules) locality then Err LocalityViolated
      else if \<not> satisfies_required_locality (rq_locality (rr_requirements request)) locality
        then Err LocalityViolated
      else if \<not> satisfies_retention (pr_maximum_provider_retention rules) retention
        then Err RetentionUnsatisfied
      else if \<not> satisfies_training_use (pr_provider_training_use rules) training_use
        then Err TrainingUseUnsatisfied
      else if pr_allowed_residency_regions rules \<noteq> {} \<and>
         \<not> is_some_and (cn_region candidate) (\<lambda>r. r \<in> pr_allowed_residency_regions rules)
        then Err ResidencyUnsatisfied
      else and_then (check_capabilities candidate (rr_today request)
                       (rq_required_capabilities (rr_requirements request))) (\<lambda>_.
        if requires_incremental_delivery (rr_requirements request) \<and>
           incremental_delivery_on (cn_descriptor candidate) (rr_today request) = Err DeliveryNotIncremental
          then Err CapabilityUnattested
        else Ok \<lparr>ed_model = cn_model candidate, ed_endpoint_class = cn_endpoint_class candidate,
                 ed_retention = retention, ed_training_use = training_use,
                 ed_telemetry = pr_telemetry rules, ed_residency = effective_residency candidate\<rparr>))"

section \<open>Exceptions\<close>

definition names_a_relaxation :: "PolicyException \<Rightarrow> bool" where
  "names_a_relaxation e =
     (case pe_rule e of
        PolicyRuleKey.Locality \<Rightarrow> es_locality (pe_scope e) \<noteq> None
      | PolicyRuleKey.ResidencyRegions \<Rightarrow> es_region (pe_scope e) \<noteq> None
      | PolicyRuleKey.MaximumProviderRetention \<Rightarrow> True
      | PolicyRuleKey.ProviderTrainingUse \<Rightarrow> True
      | PolicyRuleKey.AllowFallback \<Rightarrow> True
      | _ \<Rightarrow> False)"

definition relax_one :: "PolicyRules \<Rightarrow> PolicyException \<Rightarrow> PolicyRules" where
  "relax_one rules e =
     (case pe_rule e of
        PolicyRuleKey.Locality \<Rightarrow>
          (case es_locality (pe_scope e) of
             Some permitted \<Rightarrow> rules\<lparr>pr_locality := max (pr_locality rules) permitted\<rparr>
           | None \<Rightarrow> rules)
      | PolicyRuleKey.ResidencyRegions \<Rightarrow>
          (case es_region (pe_scope e) of
             Some region \<Rightarrow>
               if pr_allowed_residency_regions rules \<noteq> {}
               then rules\<lparr>pr_allowed_residency_regions := insert region (pr_allowed_residency_regions rules)\<rparr>
               else rules
           | None \<Rightarrow> rules)
      | PolicyRuleKey.MaximumProviderRetention \<Rightarrow>
          rules\<lparr>pr_maximum_provider_retention := ProviderRetention.ProviderDefaultAllowed\<rparr>
      | PolicyRuleKey.ProviderTrainingUse \<Rightarrow>
          rules\<lparr>pr_provider_training_use := TrainingUse.ProviderDefaultAllowed\<rparr>
      | PolicyRuleKey.AllowFallback \<Rightarrow> rules\<lparr>pr_allow_fallback := FallbackPermission.CompliantOnly\<rparr>
      | _ \<Rightarrow> rules)"

definition exception_applies ::
  "RouteCandidate \<Rightarrow> RouteRequest \<Rightarrow> PolicyRuleKey \<Rightarrow> PolicyException \<Rightarrow> bool"
where
  "exception_applies candidate request failed_rule e \<longleftrightarrow>
     \<not> (\<not> exception_is_usable_at e (rr_decided_at request) \<or>
        \<not> exception_scope_covers (pe_scope e) (cn_model candidate) \<or>
        \<not> is_waivable (pe_rule e) \<or> \<not> exception_relaxes e failed_rule \<or> \<not> names_a_relaxation e)"

definition rules_for ::
  "RouteCandidate \<Rightarrow> RouteRequest \<Rightarrow> RejectionReason \<Rightarrow> PolicyRules \<times> PolicyException option"
where
  "rules_for candidate request failed =
     (case rejection_policy_rule failed of
        None \<Rightarrow> (rr_rules request, None)
      | Some failed_rule \<Rightarrow>
          (case find (exception_applies candidate request failed_rule) (rr_exceptions request) of
             Some e \<Rightarrow> (relax_one (rr_rules request) e, Some e)
           | None \<Rightarrow> (rr_rules request, None)))"

section \<open>Selecting a route\<close>

definition requested_of :: "RouteRequest \<Rightarrow> RequestedDataPolicy" where
  "requested_of request =
     \<lparr>rd_locality = pr_locality (rr_rules request),
      rd_maximum_provider_retention = pr_maximum_provider_retention (rr_rules request),
      rd_provider_training_use = pr_provider_training_use (rr_rules request),
      rd_telemetry = pr_telemetry (rr_rules request),
      rd_allowed_residency_regions = pr_allowed_residency_regions (rr_rules request),
      rd_sensitivity = rr_sensitivity request\<rparr>"

definition selected_route ::
  "RouteRequest \<Rightarrow> EffectiveDataPolicy \<Rightarrow> RejectedCandidate list \<Rightarrow> string option \<Rightarrow> ModelRouteDecision"
where
  "selected_route request effective rejected exception_ref =
     \<lparr>md_policy = rr_policy request, md_requested = requested_of request, md_effective = effective,
      md_evidence_refs = [], md_rejected_candidates = rejected, md_exception_ref = exception_ref,
      md_decided_at = rr_decided_at request\<rparr>"

text \<open>The loop of \<open>select_route_explained\<close>, with the rejections so far.\<close>

fun try_candidates ::
  "(uuid \<Rightarrow> string) \<Rightarrow> RouteRequest \<Rightarrow> RejectedCandidate list \<Rightarrow> RouteCandidate list \<Rightarrow>
   RouteSelectionFailure + ModelRouteDecision"
where
  "try_candidates display request rejected [] =
     Err (Refused \<lparr>rf_rejected = rejected, rf_requested = requested_of request, rf_policy = rr_policy request\<rparr>)"
| "try_candidates display request rejected (candidate # rest) =
     (case evaluate_candidate candidate request (rr_rules request) of
        Ok effective \<Rightarrow> Ok (selected_route request effective rejected None)
      | Err strict_reason \<Rightarrow>
          (let (relaxed, applicable) = rules_for candidate request strict_reason in
           case evaluate_candidate candidate request relaxed of
             Ok effective \<Rightarrow>
               Ok (selected_route request effective rejected (map_option (\<lambda>e. display (pe_id e)) applicable))
           | Err reason \<Rightarrow>
               try_candidates display request
                 (rejected @ [\<lparr>rc_model = cn_model candidate, rc_reason = reason\<rparr>]) rest))"

definition select_route_explained ::
  "(uuid \<Rightarrow> string) \<Rightarrow> RouteCandidate list \<Rightarrow> RouteRequest \<Rightarrow> RouteSelectionFailure + ModelRouteDecision"
where
  "select_route_explained display candidates request =
     (if length candidates > MAX_CANDIDATES then Err (CandidatesUnbounded (length candidates))
      else if rr_sensitivity request > pr_maximum_sensitivity (rr_rules request)
        then Err (Refused
               \<lparr>rf_rejected = map (\<lambda>c. \<lparr>rc_model = cn_model c, rc_reason = SensitivityExceedsPolicy\<rparr>) candidates,
                rf_requested = requested_of request, rf_policy = rr_policy request\<rparr>)
      else try_candidates display request [] candidates)"

definition select_route ::
  "(uuid \<Rightarrow> string) \<Rightarrow> RouteCandidate list \<Rightarrow> RouteRequest \<Rightarrow> DomainError + ModelRouteDecision"
where
  "select_route display candidates request =
     (case select_route_explained display candidates request of
        Ok d \<Rightarrow> Ok d
      | Err failure \<Rightarrow>
          Err (case failure of
                 Refused _ \<Rightarrow> PolicyUnsatisfied
               | CandidatesUnbounded _ \<Rightarrow> ContextCandidatesUnbounded))"

section \<open>What routing is for\<close>

text \<open>
  The call a candidate would carry out, in the terms the rules are written in: what current
  evidence documents of a networked endpoint, the strictest value where the endpoint is local.
\<close>

definition documented :: "'a \<Rightarrow> 'a Attested option \<Rightarrow> IsoDate \<Rightarrow> 'a" where
  "documented fallback claim today =
     (case claim of
        None \<Rightarrow> fallback
      | Some a \<Rightarrow> if evidence_satisfies_data_policy_rule_on (at_evidence a) today then at_value a else fallback)"

definition candidate_traits :: "RouteRequest \<Rightarrow> PolicyRules \<Rightarrow> RouteCandidate \<Rightarrow> CallTraits" where
  "candidate_traits request rules c =
     \<lparr>ct_locality = effective_locality (cn_endpoint_class c),
      ct_provider = mr_provider_id (cn_model c), ct_model = mr_model_id (cn_model c),
      ct_retention =
        (if cn_endpoint_class c = EndpointClass.Local then ProviderRetention.NoneDocumented
         else documented ProviderRetention.ProviderDefaultAllowed (cn_retention c) (rr_today request)),
      ct_training =
        (if cn_endpoint_class c = EndpointClass.Local then TrainingUse.DisallowedDocumented
         else documented TrainingUse.ProviderDefaultAllowed (cn_training_use c) (rr_today request)),
      ct_telemetry = pr_telemetry rules,
      ct_region = (case cn_region c of None \<Rightarrow> [] | Some r \<Rightarrow> r),
      ct_sensitivity = rr_sensitivity request, ct_fallback = FallbackPermission.Denied\<rparr>"

definition attests_requirements :: "RouteRequest \<Rightarrow> RouteCandidate \<Rightarrow> bool" where
  "attests_requirements request c \<longleftrightarrow>
     effective_locality (cn_endpoint_class c) \<le> rq_locality (rr_requirements request) \<and>
     list_all (\<lambda>k. supports_on (cn_descriptor c) k (rr_today request))
       (rq_required_capabilities (rr_requirements request)) \<and>
     (requires_incremental_delivery (rr_requirements request) \<longrightarrow>
        is_some_and (cd_incremental_delivery (cn_descriptor c)) (\<lambda>a. is_incremental (at_value a)))"

definition complies :: "RouteRequest \<Rightarrow> PolicyRules \<Rightarrow> RouteCandidate \<Rightarrow> bool" where
  "complies request rules c \<longleftrightarrow>
     rules_admit rules (candidate_traits request rules c) \<and>
     (pr_allowed_residency_regions rules \<noteq> {} \<longrightarrow> cn_region c \<noteq> None) \<and> attests_requirements request c"

text \<open>Evidence that training follows the account's policy is what \<open>effective_training_use\<close> reads as
  a documented prohibition.\<close>

definition claims_account_policy :: "RouteCandidate \<Rightarrow> bool" where
  "claims_account_policy c \<longleftrightarrow> is_some_and (cn_training_use c) (\<lambda>a. at_value a = TrainingUse.AccountPolicyAllowed)"

lemma satisfies_locality_iff:
  "satisfies_locality a b \<longleftrightarrow> b \<le> a" "satisfies_required_locality a b \<longleftrightarrow> b \<le> a"
  by (cases a; cases b; simp add: enum_orders)+

lemma rank_bounds: "provider_retention_rank r \<le> 2" "training_use_rank u \<le> 2"
  by (cases r; simp) (cases u; simp)

lemma satisfies_retention_iff:
  "satisfies_retention required (effective_retention c (rr_today request)) \<longleftrightarrow>
     ct_retention (candidate_traits request rules c) \<le> required"
  by (cases required)
     (auto simp: satisfies_retention_def effective_retention_def candidate_traits_def documented_def enum_orders rank_bounds
       split: option.split ProviderRetention.split)

lemma satisfies_training_use_iff:
  assumes "\<not> claims_account_policy c"
  shows "satisfies_training_use required (effective_training_use c (rr_today request)) \<longleftrightarrow>
     ct_training (candidate_traits request rules c) \<le> required"
  using assms
  by (cases required)
     (auto simp: satisfies_training_use_def effective_training_use_def candidate_traits_def documented_def enum_orders rank_bounds
       claims_account_policy_def split: option.split TrainingUse.split)

lemma check_capabilities_Ok_iff:
  "check_capabilities c today ks = Ok u \<longleftrightarrow> list_all (\<lambda>k. supports_on (cn_descriptor c) k today) ks"
  by (induction ks) auto

lemma delivery_refused_iff:
  assumes "list_all (\<lambda>k. supports_on d k today) ks" and "Capability.IncrementalDelivery \<in> set ks"
  shows "incremental_delivery_on d today \<noteq> Err DeliveryNotIncremental \<longleftrightarrow>
    is_some_and (cd_incremental_delivery d) (\<lambda>a. is_incremental (at_value a))"
proof -
  have "supports_on d Capability.IncrementalDelivery today" using assms by (simp add: list_all_iff)
  then show ?thesis
    by (cases "cd_incremental_delivery d") (auto simp: supports_on_def incremental_delivery_on_def)
qed

lemma evaluate_complies:
  assumes "\<not> claims_account_policy c" and "rr_sensitivity request \<le> pr_maximum_sensitivity rules"
  shows "(\<exists>eff. evaluate_candidate c request rules = Ok eff) \<longleftrightarrow> complies request rules c"
proof -
  let ?d = "cn_descriptor c" and ?t = "rr_today request" and ?q = "rr_requirements request"
  have inc: "attests_requirements request c \<longleftrightarrow>
      effective_locality (cn_endpoint_class c) \<le> rq_locality ?q \<and>
      list_all (\<lambda>k. supports_on ?d k ?t) (rq_required_capabilities ?q) \<and>
      \<not> (requires_incremental_delivery ?q \<and> incremental_delivery_on ?d ?t = Err DeliveryNotIncremental)"
    using delivery_refused_iff [of ?d ?t "rq_required_capabilities ?q"]
    by (auto simp: attests_requirements_def requires_incremental_delivery_def)
  have region: "(pr_allowed_residency_regions rules = {} \<or>
        is_some_and (cn_region c) (\<lambda>r. r \<in> pr_allowed_residency_regions rules)) \<longleftrightarrow>
      open_or_in (pr_allowed_residency_regions rules) (ct_region (candidate_traits request rules c)) \<and>
      (pr_allowed_residency_regions rules \<noteq> {} \<longrightarrow> cn_region c \<noteq> None)"
    by (auto simp: open_or_in_def candidate_traits_def split: option.split_asm)
  have traits: "ct_locality (candidate_traits request rules c) = effective_locality (cn_endpoint_class c)"
    "ct_provider (candidate_traits request rules c) = mr_provider_id (cn_model c)"
    "ct_model (candidate_traits request rules c) = mr_model_id (cn_model c)"
    "ct_telemetry (candidate_traits request rules c) = pr_telemetry rules"
    "ct_sensitivity (candidate_traits request rules c) = rr_sensitivity request"
    "ct_fallback (candidate_traits request rules c) = FallbackPermission.Denied"
    by (simp_all add: candidate_traits_def)
  have denied: "FallbackPermission.Denied \<le> f" for f by (cases f) (simp_all add: enum_orders)
  have "(\<exists>eff. evaluate_candidate c request rules = Ok eff) \<longleftrightarrow>
      open_or_in (pr_allowed_providers rules) (mr_provider_id (cn_model c)) \<and>
      open_or_in (pr_allowed_models rules) (mr_model_id (cn_model c)) \<and>
      satisfies_locality (pr_locality rules) (effective_locality (cn_endpoint_class c)) \<and>
      satisfies_required_locality (rq_locality ?q) (effective_locality (cn_endpoint_class c)) \<and>
      satisfies_retention (pr_maximum_provider_retention rules) (effective_retention c ?t) \<and>
      satisfies_training_use (pr_provider_training_use rules) (effective_training_use c ?t) \<and>
      (pr_allowed_residency_regions rules = {} \<or>
        is_some_and (cn_region c) (\<lambda>r. r \<in> pr_allowed_residency_regions rules)) \<and>
      list_all (\<lambda>k. supports_on ?d k ?t) (rq_required_capabilities ?q) \<and>
      \<not> (requires_incremental_delivery ?q \<and> incremental_delivery_on ?d ?t = Err DeliveryNotIncremental)"
    by (auto simp: evaluate_candidate_def Let_def open_or_in_def and_then_Ok_iff check_capabilities_Ok_iff
        simp del: not_Some_eq split: if_split_asm)
  also have "\<dots> \<longleftrightarrow> complies request rules c"
    using assms denied
    unfolding complies_def rules_admit_def inc region traits satisfies_locality_iff
      satisfies_retention_iff [where rules = rules] satisfies_training_use_iff [OF assms(1), where rules = rules]
    by auto
  finally show ?thesis .
qed

section \<open>The choice among the candidates\<close>

text \<open>What becomes of one candidate: the policy in effect and the exception used, or the reason.\<close>

definition verdict :: "RouteRequest \<Rightarrow> RouteCandidate \<Rightarrow> RejectionReason + EffectiveDataPolicy \<times> PolicyException option" where
  "verdict request c =
     (case evaluate_candidate c request (rr_rules request) of
        Ok effective \<Rightarrow> Ok (effective, None)
      | Err strict_reason \<Rightarrow>
          (let (relaxed, applicable) = rules_for c request strict_reason in
           case evaluate_candidate c request relaxed of
             Ok effective \<Rightarrow> Ok (effective, applicable)
           | Err reason \<Rightarrow> Err reason))"

definition rejection :: "RouteRequest \<Rightarrow> RouteCandidate \<Rightarrow> RejectedCandidate" where
  "rejection request c = \<lparr>rc_model = cn_model c, rc_reason = projl (verdict request c)\<rparr>"

lemma try_candidates_unfold:
  "try_candidates display request rejected (c # rest) =
     (case verdict request c of
        Ok (effective, applicable) \<Rightarrow>
          Ok (selected_route request effective rejected (map_option (\<lambda>e. display (pe_id e)) applicable))
      | Err reason \<Rightarrow> try_candidates display request (rejected @ [rejection request c]) rest)"
  by (simp add: verdict_def rejection_def Let_def split: sum.split prod.split)

lemma try_candidates_Ok:
  assumes "try_candidates display request rejected cs = Ok d"
  shows "\<exists>pre c post effective applicable. cs = pre @ c # post \<and> verdict request c = Ok (effective, applicable) \<and>
    list_all (\<lambda>c. isl (verdict request c)) pre \<and>
    d = selected_route request effective (rejected @ map (rejection request) pre)
          (map_option (\<lambda>e. display (pe_id e)) applicable)"
  using assms
proof (induction cs arbitrary: rejected)
  case Nil
  then show ?case by simp
next
  case (Cons c rest)
  show ?case
  proof (cases "verdict request c")
    case (Inl r)
    with Cons.prems have "try_candidates display request (rejected @ [rejection request c]) rest = Ok d"
      by (simp add: try_candidates_unfold del: try_candidates.simps)
    from Cons.IH [OF this] obtain pre c' post effective applicable where
      "rest = pre @ c' # post" "verdict request c' = Ok (effective, applicable)"
      "list_all (\<lambda>c. isl (verdict request c)) pre"
      "d = selected_route request effective ((rejected @ [rejection request c]) @ map (rejection request) pre)
             (map_option (\<lambda>e. display (pe_id e)) applicable)" by blast
    with Inl show ?thesis by (intro exI [of _ "c # pre"] exI) auto
  next
    case (Inr v)
    with Cons.prems show ?thesis
      by (cases v) (auto simp: try_candidates_unfold simp del: try_candidates.simps intro!: exI [of _ "[]"])
  qed
qed

lemma try_candidates_Err:
  "list_all (\<lambda>c. isl (verdict request c)) cs \<longleftrightarrow> isl (try_candidates display request rejected cs)"
  by (induction cs arbitrary: rejected)
     (auto simp: try_candidates_unfold simp del: try_candidates.simps(2) split: sum.split)

lemma relax_one_keeps:
  "pr_allowed_providers (relax_one rules e) = pr_allowed_providers rules"
  "pr_allowed_models (relax_one rules e) = pr_allowed_models rules"
  "pr_telemetry (relax_one rules e) = pr_telemetry rules"
  "pr_maximum_sensitivity (relax_one rules e) = pr_maximum_sensitivity rules"
  by (simp_all add: relax_one_def split: PolicyRuleKey.split option.split)

lemma verdict_OkD:
  assumes "verdict request c = Ok (effective, applicable)"
  shows "evaluate_candidate c request (rr_rules request) = Ok effective \<and> applicable = None \<or>
    (\<exists>e r. applicable = Some e \<and> e \<in> set (rr_exceptions request) \<and>
       evaluate_candidate c request (rr_rules request) = Err r \<and> rejection_policy_rule r = Some (pe_rule e) \<and>
       exception_is_usable_at e (rr_decided_at request) \<and> exception_scope_covers (pe_scope e) (cn_model c) \<and>
       is_waivable (pe_rule e) \<and> evaluate_candidate c request (relax_one (rr_rules request) e) = Ok effective)"
proof (cases "evaluate_candidate c request (rr_rules request)")
  case (Inl r)
  show ?thesis
  proof (cases "\<exists>e. snd (rules_for c request r) = Some e")
    case True
    then obtain k e where k: "rejection_policy_rule r = Some k"
      and e: "find (exception_applies c request k) (rr_exceptions request) = Some e"
      by (auto simp: rules_for_def split: option.split_asm)
    with Inl assms have "applicable = Some e" "evaluate_candidate c request (relax_one (rr_rules request) e) = Ok effective"
      by (auto simp: verdict_def rules_for_def split: sum.split_asm)
    with Inl k find_SomeD [OF e] show ?thesis by (auto simp: exception_applies_def exception_relaxes_def)
  next
    case False
    with Inl assms show ?thesis
      by (auto simp: verdict_def rules_for_def split: sum.split_asm option.split_asm)
  qed
qed (use assms in \<open>auto simp: verdict_def\<close>)

lemma evaluate_effective:
  assumes "evaluate_candidate c request rules = Ok eff"
  shows "eff = \<lparr>ed_model = cn_model c, ed_endpoint_class = cn_endpoint_class c,
    ed_retention = effective_retention c (rr_today request),
    ed_training_use = effective_training_use c (rr_today request),
    ed_telemetry = pr_telemetry rules, ed_residency = effective_residency c\<rparr>"
  using assms by (auto simp: evaluate_candidate_def Let_def and_then_Ok_iff split: if_split_asm)

lemma select_route_explained_OkD:
  assumes "select_route_explained display candidates request = Ok d"
  shows "length candidates \<le> 256" and "rr_sensitivity request \<le> pr_maximum_sensitivity (rr_rules request)"
    and "try_candidates display request [] candidates = Ok d"
  using assms by (auto simp: select_route_explained_def MAX_CANDIDATES_def split: if_split_asm)

lemma verdict_strict: "complies request (rr_rules request) c \<Longrightarrow> \<not> claims_account_policy c \<Longrightarrow>
    rr_sensitivity request \<le> pr_maximum_sensitivity (rr_rules request) \<Longrightarrow> \<not> isl (verdict request c)"
  using evaluate_complies [of c request "rr_rules request"] by (auto simp: verdict_def)

text \<open>The exception that is tried for a candidate the resolved rules refuse: the first in the request's order that is in
  force, covers the model, waives the rule that refused it and names what it permits. No other is tried.\<close>

definition offered_exception :: "RouteRequest \<Rightarrow> RouteCandidate \<Rightarrow> PolicyException option" where
  "offered_exception request c =
     (case evaluate_candidate c request (rr_rules request) of
        Ok _ \<Rightarrow> None
      | Err failed \<Rightarrow>
          Option.bind (rejection_policy_rule failed) (\<lambda>rule. find (exception_applies c request rule) (rr_exceptions request)))"

definition admitted :: "RouteRequest \<Rightarrow> RouteCandidate \<Rightarrow> bool" where
  "admitted request c \<longleftrightarrow>
     complies request (rr_rules request) c \<or>
     is_some_and (offered_exception request c) (\<lambda>e. complies request (relax_one (rr_rules request) e) c)"

lemma verdict_offered:
  "verdict request c = Ok (effective, Some e) \<Longrightarrow> offered_exception request c = Some e"
  by (auto simp: verdict_def rules_for_def offered_exception_def split: sum.split_asm option.split_asm)

lemma verdict_admitted:
  assumes "\<not> claims_account_policy c" and "rr_sensitivity request \<le> pr_maximum_sensitivity (rr_rules request)"
  shows "isl (verdict request c) \<longleftrightarrow> \<not> admitted request c"
proof -
  have relaxed: "(\<exists>eff. evaluate_candidate c request (relax_one (rr_rules request) e) = Ok eff) \<longleftrightarrow>
      complies request (relax_one (rr_rules request) e) c" for e
    using evaluate_complies [OF assms(1), of request "relax_one (rr_rules request) e"] assms(2) by (simp add: relax_one_keeps)
  show ?thesis
    using evaluate_complies [OF assms]
    by (auto simp: verdict_def rules_for_def admitted_def offered_exception_def is_some_and_def relaxed [symmetric]
        split: sum.split option.split Option.bind_split)
qed

text \<open>How a decision accounts for the rules a chosen candidate was held to: the resolved rules, or those with one rule
  relaxed by the exception that is tried for it, which is in force, covers the model and is for a rule that may be
  waived.\<close>

definition accounted_rules ::
  "(uuid \<Rightarrow> string) \<Rightarrow> RouteRequest \<Rightarrow> RouteCandidate \<Rightarrow> string option \<Rightarrow> PolicyRules \<Rightarrow> bool"
where
  "accounted_rules display request c exception_ref rules \<longleftrightarrow>
     exception_ref = None \<and> rules = rr_rules request \<or>
     (\<exists>e. e \<in> set (rr_exceptions request) \<and> offered_exception request c = Some e \<and>
        exception_ref = Some (display (pe_id e)) \<and>
        rules = relax_one (rr_rules request) e \<and> \<not> complies request (rr_rules request) c \<and>
        exception_is_usable_at e (rr_decided_at request) \<and> exception_scope_covers (pe_scope e) (cn_model c) \<and>
        is_waivable (pe_rule e))"

section \<open>Sample routes\<close>

definition sample_candidate :: "string \<Rightarrow> EndpointClass \<Rightarrow> RouteCandidate" where
  "sample_candidate name endpoint =
     \<lparr>cn_model = model_ref_new ''p'' name, cn_endpoint_class = endpoint, cn_region = None,
      cn_retention = None, cn_training_use = None,
      cn_descriptor = capability_descriptor_new (model_ref_new ''p'' name) endpoint\<rparr>"

definition sample_candidates :: "RouteCandidate list" where
  "sample_candidates = [sample_candidate ''cloud'' EndpointClass.ApprovedCloud, sample_candidate ''here'' EndpointClass.Local]"

definition sample_route_request :: "PolicyRules \<Rightarrow> RouteRequest" where
  "sample_route_request rules =
     \<lparr>rr_rules = rules, rr_policy = \<lparr>pv_policy_id = 1, pv_version = 1\<rparr>, rr_sensitivity = Sensitivity.Internal,
      rr_requirements = route_requirements_text, rr_today = 10, rr_decided_at = 100, rr_exceptions = []\<rparr>"

definition sample_rules :: PolicyRules where
  "sample_rules = permissive\<lparr>pr_locality := Locality.LocalOnly, pr_provider_training_use := TrainingUse.DisallowedDocumented\<rparr>"

definition sample_decision :: ModelRouteDecision where
  "sample_decision = projr (select_route_explained (\<lambda>_. []) sample_candidates (sample_route_request sample_rules))"

lemmas sample_route_defs = sample_candidates_def sample_candidate_def sample_route_request_def sample_rules_def
  permissive_def route_requirements_text_def model_ref_new_def capability_descriptor_new_def

lemma sample_route:
  "select_route_explained (\<lambda>_. []) sample_candidates (sample_route_request sample_rules) = Ok sample_decision"
  "md_exception_ref sample_decision = None" "mr_model_id (ed_model (md_effective sample_decision)) = ''here''"
  "list_all (\<lambda>c. \<not> claims_account_policy c) sample_candidates"
  by (simp_all add: sample_decision_def sample_route_defs select_route_explained_def MAX_CANDIDATES_def
      evaluate_candidate_def rules_for_def selected_route_def effective_locality_def effective_retention_def
      effective_training_use_def satisfies_retention_def satisfies_training_use_def requires_incremental_delivery_def
      claims_account_policy_def enum_orders Let_def)

lemma sample_complies:
  "complies (sample_route_request sample_rules) sample_rules (sample_candidate ''here'' EndpointClass.Local)"
  by (simp add: complies_def rules_admit_def attests_requirements_def candidate_traits_def open_or_in_def
      sample_route_defs effective_locality_def requires_incremental_delivery_def enum_orders)

text \<open>C36: A call is routed to the first candidate in the caller's order that is admitted: one that meets the rules as
  resolved, or, failing that, as relaxed by the one exception that is tried for it, which is the first of the request that
  is in force, covers the model and waives the rule that refused the candidate. The decision names that exception
  exactly when it was needed. Everything before the candidate is recorded as rejected, in order, and none of it is
  admitted. This is for candidates none of which has evidence that training follows the account's policy, which the code
  takes for a documented prohibition.\<close>

theorem routed_candidate_complies:
  assumes "select_route_explained display candidates request = Ok d"
    and "list_all (\<lambda>c. \<not> claims_account_policy c) candidates"
  shows "\<exists>pre c post rules. candidates = pre @ c # post \<and> ed_model (md_effective d) = cn_model c \<and>
    complies request rules c \<and> accounted_rules display request c (md_exception_ref d) rules \<and>
    list_all (\<lambda>c'. \<not> admitted request c') pre \<and>
    map rc_model (md_rejected_candidates d) = map cn_model pre \<and> md_policy d = rr_policy request"
proof -
  note ok = select_route_explained_OkD [OF assms(1)]
  from try_candidates_Ok [OF ok(3)] obtain pre c post effective applicable where
    split: "candidates = pre @ c # post" and v: "verdict request c = Ok (effective, applicable)"
    and pre: "list_all (\<lambda>c. isl (verdict request c)) pre"
    and d: "d = selected_route request effective (map (rejection request) pre)
              (map_option (\<lambda>e. display (pe_id e)) applicable)" by auto
  have before: "list_all (\<lambda>c'. \<not> admitted request c') pre" and c: "\<not> claims_account_policy c"
    using pre assms(2) verdict_admitted [OF _ ok(2)] split by (auto simp: list_all_iff)
  have "\<exists>rules. evaluate_candidate c request rules = Ok effective \<and> complies request rules c \<and>
      accounted_rules display request c (md_exception_ref d) rules"
    using verdict_OkD [OF v]
  proof (elim disjE conjE exE)
    assume "evaluate_candidate c request (rr_rules request) = Ok effective" "applicable = None"
    with evaluate_complies [OF c ok(2)] d show ?thesis by (auto simp: accounted_rules_def selected_route_def)
  next
    fix e r
    assume e: "applicable = Some e" "e \<in> set (rr_exceptions request)"
      "evaluate_candidate c request (rr_rules request) = Err r"
      "exception_is_usable_at e (rr_decided_at request)" "exception_scope_covers (pe_scope e) (cn_model c)"
      "is_waivable (pe_rule e)" "evaluate_candidate c request (relax_one (rr_rules request) e) = Ok effective"
    then have "complies request (relax_one (rr_rules request) e) c"
      using evaluate_complies [OF c, of request "relax_one (rr_rules request) e"] ok(2) by (auto simp: relax_one_keeps)
    moreover have "\<not> complies request (rr_rules request) c" using e(3) evaluate_complies [OF c ok(2)] by auto
    ultimately show ?thesis using e d v verdict_offered by (auto simp: accounted_rules_def selected_route_def)
  qed
  then show ?thesis using split before d evaluate_effective
    by (fastforce simp: selected_route_def rejection_def)
qed

theorem routed_candidate_complies_witness:
  "\<exists>pre c post. sample_candidates = pre @ c # post \<and> complies (sample_route_request sample_rules) sample_rules c \<and>
     map rc_model (md_rejected_candidates sample_decision) = map cn_model pre"
proof -
  have "rr_rules (sample_route_request sample_rules) = sample_rules" by (simp add: sample_route_request_def)
  then show ?thesis
    using routed_candidate_complies [OF sample_route(1,4)] sample_route(2) by (auto simp: accounted_rules_def)
qed

text \<open>A compliant candidate is never overlooked: when some candidate meets the resolved rules, and
  neither the bound on candidates nor the sensitivity ceiling refuses the call as a whole, a route is
  selected.\<close>

theorem compliant_candidate_is_routed:
  assumes "c \<in> set candidates" and "complies request (rr_rules request) c" and "\<not> claims_account_policy c"
    and "length candidates \<le> 256"
  shows "\<exists>d. select_route display candidates request = Ok d"
proof -
  have s: "rr_sensitivity request \<le> pr_maximum_sensitivity (rr_rules request)"
    using assms(2) by (simp add: complies_def rules_admit_def candidate_traits_def)
  from verdict_strict [OF assms(2,3) s] assms(1) have "\<not> isl (try_candidates display request [] candidates)"
    using try_candidates_Err [of request candidates display "[]"] by (auto simp: list_all_iff)
  then obtain d where "try_candidates display request [] candidates = Ok d"
    by (cases "try_candidates display request [] candidates") auto
  with assms(4) s show ?thesis
    by (simp add: select_route_def select_route_explained_def MAX_CANDIDATES_def not_less)
qed

theorem compliant_candidate_is_routed_witness:
  "\<exists>d. select_route (\<lambda>_. []) sample_candidates (sample_route_request sample_rules) = Ok d"
proof (rule compliant_candidate_is_routed)
  show "sample_candidate ''here'' EndpointClass.Local \<in> set sample_candidates" by (simp add: sample_candidates_def)
  show "complies (sample_route_request sample_rules) (rr_rules (sample_route_request sample_rules))
      (sample_candidate ''here'' EndpointClass.Local)"
    using sample_complies by (simp add: sample_route_request_def)
  show "\<not> claims_account_policy (sample_candidate ''here'' EndpointClass.Local)"
    by (simp add: claims_account_policy_def sample_candidate_def)
  show "length sample_candidates \<le> 256" by (simp add: sample_candidates_def)
qed

text \<open>C37: The layers of a policy reach the call that is made: when the rules of a request are the merged layers and no
  exception was used, the call the chosen candidate carries out is admitted by every single layer, unless the candidate
  has evidence that training follows the account's policy, which the code takes for a documented prohibition.\<close>

theorem routed_call_satisfies_every_layer:
  assumes "resolved_policy_merge layers = Ok p" and "rr_rules request = rp_rules p"
    and "select_route_explained display candidates request = Ok d" and "\<not> relied_on_exception d"
  shows "\<exists>c. c \<in> set candidates \<and> cn_model c = ed_model (md_effective d) \<and>
    (claims_account_policy c \<or> list_all (\<lambda>l. rules_admit (pc_rules l) (candidate_traits request (rp_rules p) c)) layers)"
proof -
  note ok = select_route_explained_OkD [OF assms(3)]
  from try_candidates_Ok [OF ok(3)] obtain pre c post effective applicable where
    split: "candidates = pre @ c # post" and v: "verdict request c = Ok (effective, applicable)"
    and d: "d = selected_route request effective (map (rejection request) pre)
              (map_option (\<lambda>e. display (pe_id e)) applicable)" by auto
  have none: "applicable = None" using assms(4) d by (simp add: relied_on_exception_def selected_route_def)
  with verdict_OkD [OF v] have ev: "evaluate_candidate c request (rr_rules request) = Ok effective" by auto
  have "claims_account_policy c \<or> rules_admit (rp_rules p) (candidate_traits request (rp_rules p) c)"
    using evaluate_complies [OF _ ok(2)] ev by (metis assms(2) complies_def)
  moreover have "merge_layers permissive (sort_key pc_layer layers) = Ok (rp_rules p)"
    using assms(1) by (auto simp: resolved_policy_merge_def Let_def and_then_Ok_iff)
  ultimately have "claims_account_policy c \<or> list_all (\<lambda>l. rules_admit (pc_rules l) (candidate_traits request (rp_rules p) c)) layers"
    by (simp add: merge_layers_admit list_all_iff)
  moreover have "ed_model (md_effective d) = cn_model c"
    using evaluate_effective [OF ev] d by (simp add: selected_route_def)
  ultimately show ?thesis using split by auto
qed

theorem routed_call_satisfies_every_layer_witness:
  "\<exists>c. c \<in> set sample_candidates \<and> cn_model c = ed_model (md_effective sample_decision) \<and>
     rules_admit sample_rules (candidate_traits (sample_route_request sample_rules) sample_rules c)"
proof -
  let ?l = "\<lparr>pc_layer = PolicyLayer.Workspace, pc_rules = sample_rules, pc_policy_version = None\<rparr>"
  have "resolved_policy_merge [?l] = Ok \<lparr>rp_rules = sample_rules, rp_layers = [?l]\<rparr>"
    by (simp add: resolved_policy_merge_def merge_stricter_def intersect_def sample_rules_def permissive_def
        min_def enum_orders)
  from routed_call_satisfies_every_layer [OF this _ sample_route(1)] sample_route(4) show ?thesis
    by (simp add: sample_route(2) relied_on_exception_def list_all_iff) (auto simp: sample_route_request_def)
qed

text \<open>Evidence that training follows the account's policy passes for a documented prohibition: a
  networked candidate that attests only \<open>AccountPolicyAllowed\<close> meets a rule that demands
  \<open>DisallowedDocumented\<close>, and the decision records the prohibition as documented.\<close>

theorem account_policy_passes_as_prohibition:
  assumes "cn_endpoint_class c \<noteq> EndpointClass.Local"
    and "cn_training_use c = Some \<lparr>at_value = TrainingUse.AccountPolicyAllowed, at_evidence = ev\<rparr>"
    and "evidence_satisfies_data_policy_rule_on ev (rr_today request)"
    and "complies request rules (c\<lparr>cn_training_use := Some \<lparr>at_value = TrainingUse.DisallowedDocumented, at_evidence = ev\<rparr>\<rparr>)"
    and "pr_provider_training_use rules = TrainingUse.DisallowedDocumented"
  shows "\<exists>eff. evaluate_candidate c request rules = Ok eff \<and>
    ed_training_use eff = EffectiveTrainingUse.DisallowedDocumented \<and>
    \<not> rules_admit rules (candidate_traits request rules c)"
proof -
  let ?c = "c\<lparr>cn_training_use := Some \<lparr>at_value = TrainingUse.DisallowedDocumented, at_evidence = ev\<rparr>\<rparr>"
  have "effective_training_use c (rr_today request) = EffectiveTrainingUse.DisallowedDocumented"
    "effective_training_use ?c (rr_today request) = EffectiveTrainingUse.DisallowedDocumented"
    using assms(1-3) by (simp_all add: effective_training_use_def)
  moreover have "check_capabilities ?c t ks = check_capabilities c t ks" for t ks
    by (induction ks) (simp_all add: rejection_for_absent_capability_def)
  ultimately have same: "evaluate_candidate ?c request rules = evaluate_candidate c request rules"
    by (simp add: evaluate_candidate_def effective_retention_def effective_residency_def Let_def)
  have "rr_sensitivity request \<le> pr_maximum_sensitivity rules"
    using assms(4) by (simp add: complies_def rules_admit_def candidate_traits_def)
  with evaluate_complies [of ?c request rules] assms(4) same obtain eff where
    eff: "evaluate_candidate c request rules = Ok eff" by (auto simp: claims_account_policy_def)
  moreover have "\<not> rules_admit rules (candidate_traits request rules c)"
    using assms(1-3,5) by (auto simp: rules_admit_def candidate_traits_def documented_def enum_orders)
  ultimately show ?thesis
    using evaluate_effective [OF eff] assms(1-3) by (auto simp: effective_training_use_def)
qed

definition account_evidence :: Evidence where
  "account_evidence = \<lparr>ev_integration_id = ''i'', ev_capability_key = ''k'', ev_label = EvidenceLabel.Documented,
     ev_source_url = ''u'', ev_last_verified = 1, ev_revalidate_by = 20\<rparr>"

theorem account_policy_passes_as_prohibition_witness:
  "\<exists>eff. evaluate_candidate ((sample_candidate ''cloud'' EndpointClass.ApprovedCloud)
       \<lparr>cn_training_use := Some \<lparr>at_value = TrainingUse.AccountPolicyAllowed, at_evidence = account_evidence\<rparr>\<rparr>)
       (sample_route_request permissive) (permissive\<lparr>pr_provider_training_use := TrainingUse.DisallowedDocumented\<rparr>) = Ok eff \<and>
     ed_training_use eff = EffectiveTrainingUse.DisallowedDocumented"
  using account_policy_passes_as_prohibition [of "(sample_candidate ''cloud'' EndpointClass.ApprovedCloud)
      \<lparr>cn_training_use := Some \<lparr>at_value = TrainingUse.AccountPolicyAllowed, at_evidence = account_evidence\<rparr>\<rparr>"
      account_evidence "sample_route_request permissive" "permissive\<lparr>pr_provider_training_use := TrainingUse.DisallowedDocumented\<rparr>"]
  by (auto simp: complies_def rules_admit_def attests_requirements_def candidate_traits_def documented_def open_or_in_def
      sample_route_defs effective_locality_def requires_incremental_delivery_def enum_orders account_evidence_def
      evidence_satisfies_data_policy_rule_on_def label_satisfies_data_policy_rule_def is_fresh_on_def)

text \<open>Stale evidence of incremental delivery is reported as missing: the reason is looked up among
  the listed capabilities, and delivery evidence is kept beside them.\<close>

lemma stale_delivery_reported_missing:
  assumes "cd_capabilities (cn_descriptor c) = []" and "cd_incremental_delivery (cn_descriptor c) = Some a"
    and "\<not> is_fresh_on (at_evidence a) today"
  shows "check_capabilities c today (Capability.IncrementalDelivery # ks) = Err RejectionReason.EvidenceMissing"
  using assms
  by (simp add: supports_on_def attested_satisfies_hard_requirement_on_def evidence_satisfies_hard_requirement_on_def
      rejection_for_absent_capability_def descriptor_capability_def)

text \<open>The fallback rule has no part in the choice: neither verdict reads it.\<close>

lemma fallback_rule_not_consulted:
  "evaluate_candidate c request (rules\<lparr>pr_allow_fallback := f\<rparr>) = evaluate_candidate c request rules"
  by (simp add: evaluate_candidate_def Let_def)

end
