(* ===== verification/Model_Port.thy ===== *)
theory Model_Port
  imports Model_Stream
begin

text \<open>
  \<open>model.rs\<close> of the application: the error a provider reports, the stamper that numbers the frames
  of one stream, the stream a network adapter feeds (\<open>AdapterStream\<close>) and the buffered one. The
  identifier generator is an argument, a fresh identifier per frame. A poll of an adapter stream sees
  what the runtime lets it see: that the call was cancelled, before or while it waited, or what the
  channel holds next. The scripted provider of the file is a test double and is left out.
\<close>

section \<open>Provider errors\<close>

datatype ProviderError =
    Authentication | RateLimited "u64 option" | Unavailable | InvalidRequest | Refused | Malformed
  | NoRoute | Timeout | Cancelled

primrec provider_error_code :: "ProviderError \<Rightarrow> string" where
  "provider_error_code ProviderError.Authentication = ''model.provider_authentication''"
| "provider_error_code (ProviderError.RateLimited _) = ''model.provider_rate_limited''"
| "provider_error_code ProviderError.Unavailable = ''model.provider_unavailable''"
| "provider_error_code ProviderError.InvalidRequest = ''model.provider_request_invalid''"
| "provider_error_code ProviderError.Refused = ''model.provider_refused''"
| "provider_error_code ProviderError.Malformed = ''model.provider_malformed''"
| "provider_error_code ProviderError.NoRoute = ''model.provider_no_route''"
| "provider_error_code ProviderError.Timeout = ''model.provider_timeout''"
| "provider_error_code ProviderError.Cancelled = ''model.provider_cancelled''"

definition provider_error_retryable :: "ProviderError \<Rightarrow> bool" where
  "provider_error_retryable e =
     (case e of ProviderError.RateLimited _ \<Rightarrow> True | ProviderError.Unavailable \<Rightarrow> True | _ \<Rightarrow> False)"

section \<open>Stamping frames\<close>

record FrameStamper =
  fs_call_id :: uuid
  fs_next :: Sequence

definition frame_stamper_start :: "uuid \<Rightarrow> FrameStamper" where
  "frame_stamper_start call_id = \<lparr>fs_call_id = call_id, fs_next = sequence_first\<rparr>"

definition stamp ::
  "FrameStamper \<Rightarrow> uuid \<Rightarrow> ModelStreamEventKind \<Rightarrow> ProviderMetadata option \<Rightarrow>
   (ProviderError + ModelStreamEvent) \<times> FrameStamper"
where
  "stamp self fresh kind metadata =
     (case sequence_next (fs_next self) of
        Err _ \<Rightarrow> (Err ProviderError.Malformed, self)
      | Ok sequence \<Rightarrow>
          (Ok \<lparr>se_call_id = fs_call_id self, se_event_id = fresh, se_sequence = sequence, se_kind = kind,
               se_provider_metadata = metadata\<rparr>,
           self\<lparr>fs_next := sequence\<rparr>))"

datatype StreamPhase = Open | Closed

section \<open>The stream of an adapter\<close>

record AdapterStream =
  as_call_id :: uuid
  as_last_sequence :: Sequence
  as_phase :: StreamPhase

definition adapter_stream_new :: "uuid \<Rightarrow> AdapterStream" where
  "adapter_stream_new call_id =
     \<lparr>as_call_id = call_id, as_last_sequence = sequence_first, as_phase = StreamPhase.Open\<rparr>"

definition finish_cancelled :: "AdapterStream \<Rightarrow> uuid \<Rightarrow> (ProviderError + ModelStreamEvent) \<times> AdapterStream" where
  "finish_cancelled self fresh =
     (let self = self\<lparr>as_phase := StreamPhase.Closed\<rparr> in
      case sequence_next (as_last_sequence self) of
        Err _ \<Rightarrow> (Err ProviderError.Malformed, self)
      | Ok sequence \<Rightarrow>
          (Ok \<lparr>se_call_id = as_call_id self, se_event_id = fresh, se_sequence = sequence,
               se_kind = CallCancelled 0, se_provider_metadata = None\<rparr>, self))"

text \<open>What one poll finds.\<close>

datatype Poll = Interrupt uuid | Receive "ModelStreamEvent option"

definition adapter_next_event ::
  "AdapterStream \<Rightarrow> Poll \<Rightarrow> (ProviderError + ModelStreamEvent option) \<times> AdapterStream"
where
  "adapter_next_event self poll =
     (if as_phase self = StreamPhase.Closed then (Ok None, self)
      else case poll of
        Interrupt fresh \<Rightarrow>
          (case finish_cancelled self fresh of
             (Err e, self') \<Rightarrow> (Err e, self')
           | (Ok frame, self') \<Rightarrow> (Ok (Some frame), self'))
      | Receive None \<Rightarrow> (Ok None, self\<lparr>as_phase := StreamPhase.Closed\<rparr>)
      | Receive (Some event) \<Rightarrow>
          (let self = (if se_sequence event > as_last_sequence self
                       then self\<lparr>as_last_sequence := se_sequence event\<rparr> else self);
               self = (if event_is_terminal event then self\<lparr>as_phase := StreamPhase.Closed\<rparr> else self)
           in (Ok (Some event), self)))"

section \<open>The buffered stream\<close>

record BufferedStream =
  bs_events :: "ModelStreamEvent list"
  bs_stamper :: FrameStamper
  bs_phase :: StreamPhase

definition buffered_stream_new :: "ModelStreamEvent list \<Rightarrow> FrameStamper \<Rightarrow> BufferedStream" where
  "buffered_stream_new events stamper =
     \<lparr>bs_events = events, bs_stamper = stamper, bs_phase = StreamPhase.Open\<rparr>"

definition buffered_next_event ::
  "BufferedStream \<Rightarrow> bool \<Rightarrow> uuid \<Rightarrow> (ProviderError + ModelStreamEvent option) \<times> BufferedStream"
where
  "buffered_next_event self cancelled fresh =
     (let terminal_queued = (case bs_events self of [] \<Rightarrow> False | e # _ \<Rightarrow> event_is_terminal e) in
      if cancelled \<and> bs_phase self = StreamPhase.Open \<and> \<not> terminal_queued
      then (let dropped = length (bs_events self);
                self = self\<lparr>bs_phase := StreamPhase.Closed, bs_events := []\<rparr> in
            case stamp (bs_stamper self) fresh
                   (CallCancelled (if dropped < 2 ^ 64 then of_nat dropped else - 1)) None of
              (Err e, stamper) \<Rightarrow> (Err e, self\<lparr>bs_stamper := stamper\<rparr>)
            | (Ok frame, stamper) \<Rightarrow> (Ok (Some frame), self\<lparr>bs_stamper := stamper\<rparr>))
      else (case bs_events self of
              [] \<Rightarrow> (Ok None, self\<lparr>bs_phase := StreamPhase.Closed\<rparr>)
            | event # rest \<Rightarrow>
                (Ok (Some event),
                 if event_is_terminal event
                 then self\<lparr>bs_events := rest, bs_phase := StreamPhase.Closed\<rparr> else self\<lparr>bs_events := rest\<rparr>)))"

section \<open>What a consumer sees\<close>

definition frames_of :: "(ProviderError + ModelStreamEvent option) list \<Rightarrow> ModelStreamEvent list" where
  "frames_of rs = concat (map (\<lambda>r. case r of Ok (Some e) \<Rightarrow> [e] | _ \<Rightarrow> []) rs)"

lemma frames_of_simps [simp]:
  "frames_of [] = []"
  "frames_of (r # rs) = (case r of Ok (Some e) \<Rightarrow> [e] | _ \<Rightarrow> []) @ frames_of rs"
  by (simp_all add: frames_of_def)

lemma adapter_closed: "as_phase st = StreamPhase.Closed \<Longrightarrow>
    run_steps adapter_next_event st polls = (map (\<lambda>_. Ok None) polls, st)"
  by (induction polls) (simp_all add: adapter_next_event_def)

lemma frames_of_none: "frames_of (map (\<lambda>_. Ok None) xs) = []"
  by (induction xs) simp_all

text \<open>A stream that delivered a terminal frame is closed.\<close>

lemma adapter_step_terminal:
  assumes "adapter_next_event st p = (Ok (Some e), st')" and "event_is_terminal e"
  shows "as_phase st' = StreamPhase.Closed"
  using assms
  by (auto simp: adapter_next_event_def finish_cancelled_def Let_def
      split: if_split_asm Poll.split_asm option.split_asm sum.split_asm)

lemma adapter_one_terminal:
  "run_steps adapter_next_event st polls = (rs, st') \<Longrightarrow>
     list_all (\<lambda>e. \<not> event_is_terminal e) (butlast (frames_of rs))"
proof (induction polls arbitrary: st rs)
  case (Cons p polls)
  then obtain r rs' st1 where 1: "adapter_next_event st p = (r, st1)"
      "run_steps adapter_next_event st1 polls = (rs', st')" "rs = r # rs'"
    by (auto simp: run_steps_Cons_iff simp del: run_steps.simps)
  show ?case
  proof (cases "\<exists>e. r = Ok (Some e) \<and> event_is_terminal e")
    case True
    then obtain e where e: "r = Ok (Some e)" "event_is_terminal e" by blast
    with 1 have "rs' = map (\<lambda>_. Ok None) polls" using adapter_closed adapter_step_terminal by fastforce
    with 1(3) e show ?thesis by (simp add: frames_of_none)
  next
    case False
    with Cons.IH [OF 1(2)] 1(3) show ?thesis by (auto split: sum.split option.split)
  qed
qed simp

section \<open>Numbered frames all the way to the consumer\<close>

definition received :: "Poll list \<Rightarrow> ModelStreamEvent list" where
  "received polls = concat (map (\<lambda>p. case p of Receive (Some e) \<Rightarrow> [e] | _ \<Rightarrow> []) polls)"

lemma received_simps [simp]:
  "received [] = []"
  "received (p # ps) = (case p of Receive (Some e) \<Rightarrow> [e] | _ \<Rightarrow> []) @ received ps"
  by (simp_all add: received_def)

text \<open>Frames of one call with rising numbers, all above a bound.\<close>

definition rising :: "uuid \<Rightarrow> Sequence \<Rightarrow> ModelStreamEvent list \<Rightarrow> bool" where
  "rising call bound es \<longleftrightarrow>
     sorted_wrt (<) (bound # map se_sequence es) \<and> list_all (\<lambda>e. se_call_id e = call) es"

lemma rising_simps [simp]:
  "rising call bound []"
  "rising call bound (e # es) \<longleftrightarrow> bound < se_sequence e \<and> se_call_id e = call \<and> rising call (se_sequence e) es"
  by (auto simp: rising_def)

lemma rising_weaken: "rising call b es \<Longrightarrow> a \<le> b \<Longrightarrow> rising call a es"
  by (cases es) auto

lemma sequence_next_OkD: "sequence_next q = Ok r \<Longrightarrow> r = q + 1 \<and> q < r"
  by (auto simp: sequence_next_def checked_add_def word_less_nat_alt unat_word_ariths split: if_split_asm)

lemma stamp_OkD:
  assumes "stamp s fresh k m = (Ok e, s')"
  shows "fs_next s < se_sequence e" and "fs_next s' = se_sequence e" and "fs_call_id s' = fs_call_id s"
    and "se_call_id e = fs_call_id s" and "se_kind e = k"
  using assms by (auto simp: stamp_def split: sum.split_asm dest: sequence_next_OkD)

lemma stamp_ErrD: "stamp s fresh k m = (Err e, s') \<Longrightarrow> s' = s \<and> e = ProviderError.Malformed"
  by (auto simp: stamp_def split: sum.split_asm)

lemma adapter_rising:
  "run_steps adapter_next_event st polls = (rs, st') \<Longrightarrow>
     rising (as_call_id st) (as_last_sequence st) (received polls) \<Longrightarrow>
     rising (as_call_id st) (as_last_sequence st) (frames_of rs)"
proof (induction polls arbitrary: st rs)
  case (Cons p polls)
  then obtain r rs' st1 where 1: "adapter_next_event st p = (r, st1)"
      "run_steps adapter_next_event st1 polls = (rs', st')" "rs = r # rs'"
    by (auto simp: run_steps_Cons_iff simp del: run_steps.simps)
  show ?case
  proof (cases "as_phase st1 = StreamPhase.Closed")
    case True
    with 1(2) have "rs' = map (\<lambda>_. Ok None) polls" by (simp add: adapter_closed)
    moreover have "r = Ok (Some e) \<Longrightarrow> as_last_sequence st < se_sequence e \<and> se_call_id e = as_call_id st" for e
      using 1(1) Cons.prems(2)
      by (auto simp: adapter_next_event_def finish_cancelled_def Let_def dest: sequence_next_OkD
          split: if_split_asm Poll.split_asm option.split_asm sum.split_asm)
    ultimately show ?thesis using 1(3) by (auto simp: frames_of_none split: sum.split option.split)
  next
    case False
    with 1(1) obtain e where e: "p = Receive (Some e)" "r = Ok (Some e)"
      by (auto simp: adapter_next_event_def finish_cancelled_def Let_def
          split: if_split_asm Poll.split_asm option.split_asm sum.split_asm)
    with 1(1) False Cons.prems(2) have "as_last_sequence st1 = se_sequence e" "as_call_id st1 = as_call_id st"
      by (auto simp: adapter_next_event_def Let_def split: if_split_asm)
    with Cons.IH [OF 1(2)] Cons.prems(2) e 1(3) show ?thesis by simp
  qed
qed simp

lemma accept_keeps_number:
  assumes "stream_accept st e = (r, st')"
  shows "ss_call_id st' = ss_call_id st" and "ss_last_sequence st' \<le> max (ss_last_sequence st) (se_sequence e)"
proof -
  obtain q st1 where app: "stream_apply (se_kind e) st = (q, st1)" by fastforce
  note keeps = stream_apply_keeps [OF app]
  show "ss_call_id st' = ss_call_id st" "ss_last_sequence st' \<le> max (ss_last_sequence st) (se_sequence e)"
    using assms app keeps by (cases q; auto simp: stream_accept_def Let_def max_def split: if_split_asm)+
qed

lemma accept_rising:
  "rising (ss_call_id st) b es \<Longrightarrow> ss_last_sequence st \<le> b \<Longrightarrow> run_steps stream_accept st es = (rs, st') \<Longrightarrow>
     Err StreamSequenceNotMonotonic \<notin> set rs \<and> Err StreamCallMismatch \<notin> set rs"
proof (induction es arbitrary: st b rs)
  case (Cons e es)
  then obtain r rs' st1 where 1: "stream_accept st e = (r, st1)" "run_steps stream_accept st1 es = (rs', st')"
      "rs = r # rs'"
    by (auto simp: run_steps_Cons_iff simp del: run_steps.simps)
  note n = accept_keeps_number [OF 1(1)]
  have "ss_last_sequence st1 \<le> se_sequence e"
    using n(2) Cons.prems(1,2) by (auto simp: max_def split: if_split_asm)
  with Cons.IH [OF _ _ 1(2), of "se_sequence e"] n(1) Cons.prems(1)
  have rest: "Err StreamSequenceNotMonotonic \<notin> set rs' \<and> Err StreamCallMismatch \<notin> set rs'" by simp
  obtain q st2 where app: "stream_apply (se_kind e) st = (q, st2)" by fastforce
  have "q \<noteq> Err StreamSequenceNotMonotonic" "q \<noteq> Err StreamCallMismatch"
    using app by (cases "se_kind e"; auto simp: stream_apply_def Let_def split: if_split_asm option.split_asm)+
  moreover have "\<not> se_sequence e \<le> ss_last_sequence st" "se_call_id e = ss_call_id st"
    using Cons.prems(1,2) by auto
  ultimately have "r \<noteq> Err StreamSequenceNotMonotonic" "r \<noteq> Err StreamCallMismatch"
    using 1(1) app by (cases q; auto simp: stream_accept_def Let_def split: if_split_asm)+
  with rest 1(3) show ?case by auto
qed simp

end
