(* ===== verification/Byte_Text.thy ===== *)
theory Byte_Text
  imports Prelude
begin

text \<open>
  The parts of Rust's \<open>str\<close> and slices that the parsers of the infrastructure crate use, on byte
  lists: which bytes are UTF-8 text, the first occurrence of a byte sequence, trimming, lines and
  words. White space is \<open>char::is_whitespace\<close>: U+0009..U+000D, U+0020, U+0085, U+00A0, U+1680,
  U+2000..U+200A, U+2028, U+2029, U+202F, U+205F and U+3000.
\<close>

section \<open>UTF-8\<close>

definition continuation :: "char \<Rightarrow> bool" where
  "continuation c \<longleftrightarrow> 128 \<le> byte c \<and> byte c < 192"

fun valid_utf8 :: "string \<Rightarrow> bool" where
  "valid_utf8 [] = True"
| "valid_utf8 (a # bs) =
     (if byte a < 128 then valid_utf8 bs
      else case bs of
        [] \<Rightarrow> False
      | b # cs \<Rightarrow>
          if 194 \<le> byte a \<and> byte a < 224 then continuation b \<and> valid_utf8 cs
          else (case cs of
            [] \<Rightarrow> False
          | c # ds \<Rightarrow>
              if 224 \<le> byte a \<and> byte a < 240
              then continuation b \<and> continuation c \<and> (byte a = 224 \<longrightarrow> 160 \<le> byte b) \<and>
                   (byte a = 237 \<longrightarrow> byte b < 160) \<and> valid_utf8 ds
              else (case ds of
                [] \<Rightarrow> False
              | d # es \<Rightarrow>
                  240 \<le> byte a \<and> byte a < 245 \<and> continuation b \<and> continuation c \<and> continuation d \<and>
                  (byte a = 240 \<longrightarrow> 144 \<le> byte b) \<and> (byte a = 244 \<longrightarrow> byte b < 144) \<and> valid_utf8 es)))"

lemma valid_utf8_ascii: "list_all (\<lambda>c. byte c < 128) s \<Longrightarrow> valid_utf8 (s @ t) = valid_utf8 t"
  by (induction s) auto

section \<open>Searching\<close>

definition starts_with :: "string \<Rightarrow> string \<Rightarrow> bool" where
  "starts_with p s \<longleftrightarrow> take (length p) s = p"

definition strip_prefix :: "string \<Rightarrow> string \<Rightarrow> string option" where
  "strip_prefix p s = (if starts_with p s then Some (drop (length p) s) else None)"

text \<open>\<open>windows(n).position(..)\<close>: the first position where the needle stands.\<close>

fun find_bytes :: "string \<Rightarrow> string \<Rightarrow> nat option" where
  "find_bytes needle [] = (if needle = [] then Some 0 else None)"
| "find_bytes needle (c # cs) =
     (if starts_with needle (c # cs) then Some 0 else map_option Suc (find_bytes needle cs))"

lemma starts_with_iff: "starts_with p s \<longleftrightarrow> (\<exists>t. s = p @ t)"
  by (metis append_eq_conv_conj append_take_drop_id starts_with_def)

lemma starts_with_self [simp]: "starts_with p (p @ t)"
  by (auto simp: starts_with_iff)

lemma find_bytes_Some:
  "find_bytes n h = Some i \<Longrightarrow> i + length n \<le> length h \<and> starts_with n (drop i h)"
proof (induction n h arbitrary: i rule: find_bytes.induct)
  case (1 needle)
  then show ?case by (auto simp: starts_with_def split: if_split_asm)
next
  case (2 needle c cs)
  show ?case
  proof (cases "starts_with needle (c # cs)")
    case True
    with 2 show ?thesis by (auto simp: starts_with_def dest: arg_cong [where f = length])
  next
    case False
    with "2.prems" obtain j where "find_bytes needle cs = Some j" "i = Suc j" by auto
    with "2.IH" [OF False] show ?thesis by auto
  qed
qed

lemma find_bytes_None: "n \<noteq> [] \<Longrightarrow> find_bytes n h = None \<longleftrightarrow> (\<forall>i. \<not> starts_with n (drop i h))"
proof (induction h)
  case Nil
  then show ?case by (auto simp: starts_with_def)
next
  case (Cons c cs)
  have "(\<forall>i. \<not> starts_with n (drop i (c # cs))) \<longleftrightarrow>
      \<not> starts_with n (c # cs) \<and> (\<forall>i. \<not> starts_with n (drop i cs))"
    by (metis drop0 drop_Suc_Cons not0_implies_Suc)
  with Cons show ?case by auto
qed

text \<open>Bytes that follow do not move the first occurrence.\<close>

lemma starts_with_append: "starts_with n s \<Longrightarrow> starts_with n (s @ t)"
  by (auto simp: starts_with_iff)

lemma starts_with_cut: "length n \<le> length s \<Longrightarrow> starts_with n (s @ t) \<longleftrightarrow> starts_with n s"
  by (simp add: starts_with_def)

lemma find_bytes_append: "find_bytes n h = Some i \<Longrightarrow> n \<noteq> [] \<Longrightarrow> find_bytes n (h @ t) = Some i"
proof (induction h arbitrary: i)
  case (Cons c cs)
  show ?case
  proof (cases "starts_with n (c # cs)")
    case True
    with Cons.prems starts_with_append [OF True, of t] show ?thesis by simp
  next
    case False
    with Cons.prems obtain j where j: "find_bytes n cs = Some j" "i = Suc j" by auto
    then have "length n \<le> length cs" using find_bytes_Some [OF j(1)] by simp
    then have "\<not> starts_with n ((c # cs) @ t)" using False starts_with_cut [of n "c # cs" t] by simp
    with Cons.IH [OF j(1) Cons.prems(2)] j(2) show ?thesis by simp
  qed
qed simp

lemma find_bytes_none_part:
  "n \<noteq> [] \<Longrightarrow> find_bytes n (a @ b) = None \<Longrightarrow> find_bytes n a = None \<and> find_bytes n b = None"
  by (simp add: find_bytes_None) (metis append.assoc drop_append find_bytes.simps drop_all drop_drop
      append_Nil starts_with_append diff_diff_cancel drop0 le_add_same_cancel2 diff_add_inverse2 append_eq_conv_conj)

section \<open>White space, lines and words\<close>

text \<open>How many bytes of the front, or of the back, are one white-space character.\<close>

definition ascii_space :: "char \<Rightarrow> bool" where
  "ascii_space c \<longleftrightarrow> 9 \<le> byte c \<and> byte c \<le> 13 \<or> byte c = 32"

definition wide_space :: "char \<Rightarrow> char \<Rightarrow> char \<Rightarrow> bool" where
  "wide_space a b c \<longleftrightarrow>
     byte a = 225 \<and> byte b = 154 \<and> byte c = 128 \<or>
     byte a = 226 \<and> byte b = 128 \<and> (128 \<le> byte c \<and> byte c \<le> 138 \<or> byte c = 168 \<or> byte c = 169 \<or> byte c = 175) \<or>
     byte a = 226 \<and> byte b = 129 \<and> byte c = 159 \<or>
     byte a = 227 \<and> byte b = 128 \<and> byte c = 128"

definition front_space :: "string \<Rightarrow> nat" where
  "front_space s =
     (case s of
        [] \<Rightarrow> 0
      | a # bs \<Rightarrow>
          if ascii_space a then 1
          else (case bs of
            [] \<Rightarrow> 0
          | b # cs \<Rightarrow>
              if byte a = 194 \<and> (byte b = 133 \<or> byte b = 160) then 2
              else (case cs of [] \<Rightarrow> 0 | c # _ \<Rightarrow> if wide_space a b c then 3 else 0)))"

lemma front_space_le: "front_space s \<le> length s"
  by (auto simp: front_space_def split: list.split)

definition back_space :: "string \<Rightarrow> nat" where
  "back_space s =
     (case List.rev s of
        [] \<Rightarrow> 0
      | c # bs \<Rightarrow>
          if ascii_space c then 1
          else (case bs of
            [] \<Rightarrow> 0
          | b # as \<Rightarrow>
              if byte b = 194 \<and> (byte c = 133 \<or> byte c = 160) then 2
              else (case as of [] \<Rightarrow> 0 | a # _ \<Rightarrow> if wide_space a b c then 3 else 0)))"

lemma back_space_le: "back_space s \<le> length s"
proof -
  have "back_space s \<le> length (List.rev s)" unfolding back_space_def by (auto split: list.split)
  then show ?thesis by simp
qed

lemma space_shrinks:
  "0 < front_space s \<Longrightarrow> length s - front_space s < length s"
  "0 < back_space s \<Longrightarrow> length s - back_space s < length s"
  using front_space_le [of s] back_space_le [of s] by linarith+

function trim_start :: "string \<Rightarrow> string" where
  "trim_start s = (if front_space s = 0 then s else trim_start (drop (front_space s) s))"
  by auto
termination
  by (relation "measure length") (simp_all add: space_shrinks)

function trim_end :: "string \<Rightarrow> string" where
  "trim_end s = (if back_space s = 0 then s else trim_end (take (length s - back_space s) s))"
  by auto
termination
  by (relation "measure length") (simp_all add: space_shrinks)

declare trim_start.simps [simp del] trim_end.simps [simp del]

definition trim :: "string \<Rightarrow> string" where
  "trim s = trim_end (trim_start s)"

definition strip_cr :: "string \<Rightarrow> string" where
  "strip_cr line = (if line \<noteq> [] \<and> byte (last line) = 13 then butlast line else line)"

text \<open>\<open>str::lines\<close>: cut at line feeds, a final empty piece dropped, a carriage return before the
  cut removed.\<close>

definition lines :: "string \<Rightarrow> string list" where
  "lines s =
     (let pieces = split_on (char_of (10 :: nat)) s;
          pieces = (if last pieces = [] then butlast pieces else pieces)
      in map strip_cr pieces)"

text \<open>\<open>str::split_whitespace\<close>, with the word read so far.\<close>

function words_from :: "string \<Rightarrow> string \<Rightarrow> string list" where
  "words_from word s =
     (case s of
        [] \<Rightarrow> (if word = [] then [] else [word])
      | c # cs \<Rightarrow>
          if front_space s = 0 then words_from (word @ [c]) cs
          else (if word = [] then [] else [word]) @ words_from [] (drop (front_space s) s))"
  by auto
termination
  by (relation "measure (length \<circ> snd)") (auto simp: space_shrinks)

declare words_from.simps [simp del]

definition split_whitespace :: "string \<Rightarrow> string list" where
  "split_whitespace s = words_from [] s"

end
