(* ===== verification/Sse_Framing.thy ===== *)
theory Sse_Framing
  imports Byte_Text Text_Codec
begin

text \<open>
  \<open>model_providers/openai_compatible/sse.rs\<close>: reassembling server-sent events from a byte stream
  that the kernel cuts anywhere. A frame ends at a blank line; its \<open>data:\<close> lines are its payload.
\<close>

abbreviation LF :: char where "LF \<equiv> CHR 0x0A"
abbreviation CR :: char where "CR \<equiv> CHR 0x0D"

definition DONE_SENTINEL :: string where "DONE_SENTINEL = ''[DONE]''"

definition MAX_FRAME_BYTES :: nat where "MAX_FRAME_BYTES = 2 ^ 20"

datatype SseFrame = Data string | Done

datatype FrameRead = Frames "SseFrame list" | Incomplete | TooLarge

section \<open>One frame\<close>

definition find_frame_boundary :: "string \<Rightarrow> (nat \<times> nat) option" where
  "find_frame_boundary bytes =
     (case find_bytes [CR, LF, CR, LF] bytes of
        Some index \<Rightarrow> Some (index, index + 4)
      | None \<Rightarrow> map_option (\<lambda>index. (index, index + 2)) (find_bytes [LF, LF] bytes))"

text \<open>The loop over the lines of a frame, with the payload so far (\<open>None\<close> while no \<open>data:\<close> line was
  seen).\<close>

fun parse_lines :: "string option \<Rightarrow> string list \<Rightarrow> string option" where
  "parse_lines payload [] = payload"
| "parse_lines payload (line # rest) =
     (let line = strip_cr line in
      if line = [] \<or> starts_with '':'' line then parse_lines payload rest
      else case strip_prefix ''data:'' line of
          None \<Rightarrow> parse_lines payload rest
        | Some v \<Rightarrow>
            (let v = (case strip_prefix '' '' v of Some w \<Rightarrow> w | None \<Rightarrow> v) in
             parse_lines (Some (case payload of None \<Rightarrow> v | Some p \<Rightarrow> p @ [LF] @ v)) rest))"

definition parse_frame :: "string \<Rightarrow> SseFrame option" where
  "parse_frame raw =
     (if \<not> valid_utf8 raw then None
      else case parse_lines None (split_on LF raw) of
        None \<Rightarrow> None
      | Some payload \<Rightarrow> if payload = DONE_SENTINEL then Some Done else Some (Data payload))"

section \<open>The buffer\<close>

lemma find_frame_boundary_Some:
  assumes "find_frame_boundary s = Some (e, n)"
  shows "0 < n" and "n \<le> length s" and "e \<le> n"
proof -
  have "0 < n \<and> n \<le> length s \<and> e \<le> n"
    using assms find_bytes_Some [of "[CR, LF, CR, LF]" s] find_bytes_Some [of "[LF, LF]" s]
    by (auto simp: find_frame_boundary_def split: option.split_asm)
  then show "0 < n" "n \<le> length s" "e \<le> n" by simp_all
qed

function drain_frames :: "string \<Rightarrow> SseFrame list \<times> string" where
  "drain_frames pending =
     (case find_frame_boundary pending of
        None \<Rightarrow> ([], pending)
      | Some (end_, next_) \<Rightarrow>
          (let raw = take next_ pending; (frames, rest) = drain_frames (drop next_ pending) in
           ((case parse_frame (take end_ raw) of Some frame \<Rightarrow> [frame] | None \<Rightarrow> []) @ frames, rest)))"
  by auto
termination
  by (relation "measure length") (simp, metis diff_less find_frame_boundary_Some(1,2) in_measure le_zero_eq length_drop neq0_conv not_le)

declare drain_frames.simps [simp del]

definition sse_push :: "string \<Rightarrow> string \<Rightarrow> FrameRead \<times> string" where
  "sse_push pending bytes =
     (let pending = pending @ bytes in
      if length pending > MAX_FRAME_BYTES then (TooLarge, [])
      else let (frames, rest) = drain_frames pending in
        (if frames = [] then Incomplete else Frames frames, rest))"

definition has_partial :: "string \<Rightarrow> bool" where
  "has_partial pending \<longleftrightarrow> pending \<noteq> []"

section \<open>Read boundaries do not matter\<close>

text \<open>A consumer that pushes the pieces of a body one after another.\<close>

fun push_all :: "string \<Rightarrow> string list \<Rightarrow> FrameRead list \<times> string" where
  "push_all pending [] = ([], pending)"
| "push_all pending (c # cs) =
     (let (r, pending) = sse_push pending c; (rs, pending) = push_all pending cs in (r # rs, pending))"

definition frames_read :: "FrameRead list \<Rightarrow> SseFrame list" where
  "frames_read rs = concat (map (\<lambda>r. case r of Frames fs \<Rightarrow> fs | _ \<Rightarrow> []) rs)"

text \<open>The stream ends its frames in one way: never with a bare pair of line feeds, or never with the
  pair of carriage return and line feed.\<close>

definition one_line_ending :: "string \<Rightarrow> bool" where
  "one_line_ending s \<longleftrightarrow> find_bytes [LF, LF] s = None \<or> find_bytes [CR, LF, CR, LF] s = None"

lemma one_line_ending_part: "one_line_ending (a @ b) \<Longrightarrow> one_line_ending a \<and> one_line_ending b"
  using find_bytes_none_part [of "[LF, LF]" a b] find_bytes_none_part [of "[CR, LF, CR, LF]" a b]
  by (auto simp: one_line_ending_def)

lemma boundary_append:
  assumes "one_line_ending (a @ b)" and "find_frame_boundary a = Some x"
  shows "find_frame_boundary (a @ b) = Some x"
proof (cases "find_bytes [CR, LF, CR, LF] a")
  case None
  with assms(2) obtain i where i: "find_bytes [LF, LF] a = Some i" "x = (i, i + 2)"
    by (auto simp: find_frame_boundary_def)
  then have "find_bytes [LF, LF] (a @ b) = Some i" by (simp add: find_bytes_append)
  with assms(1) i(2) show ?thesis by (simp add: one_line_ending_def find_frame_boundary_def)
next
  case (Some i)
  with assms(2) find_bytes_append [OF Some, of b] show ?thesis by (simp add: find_frame_boundary_def)
qed

lemma drain_append:
  "one_line_ending (a @ b) \<Longrightarrow> drain_frames a = (fs, rest) \<Longrightarrow>
     drain_frames (a @ b) = (fs @ fst (drain_frames (rest @ b)), snd (drain_frames (rest @ b)))"
proof (induction a arbitrary: fs rest rule: drain_frames.induct)
  case (1 a)
  show ?case
  proof (cases "find_frame_boundary a")
    case None
    with 1(3) show ?thesis by (simp add: drain_frames.simps [of a])
  next
    case (Some x)
    obtain e n where x: "x = (e, n)" by (cases x)
    note b = find_frame_boundary_Some [OF Some [unfolded x]]
    obtain gs rest' where d: "drain_frames (drop n a) = (gs, rest')" by fastforce
    let ?f = "case parse_frame (take e (take n a)) of Some frame \<Rightarrow> [frame] | None \<Rightarrow> []"
    from 1(3) Some x d have fs: "fs = ?f @ gs" "rest' = rest"
      by (simp_all add: drain_frames.simps [of a] Let_def)
    have whole: "a @ b = take n a @ (drop n a @ b)" by simp
    have tail: "one_line_ending (drop n a @ b)" using 1(2) whole one_line_ending_part by metis
    have "drain_frames (drop n a @ b) = (gs @ fst (drain_frames (rest @ b)), snd (drain_frames (rest @ b)))"
      using 1(1) [OF Some x [symmetric] refl tail d] fs(2) by simp
    moreover have "find_frame_boundary (a @ b) = Some (e, n)" using boundary_append [OF 1(2) Some] x by simp
    ultimately show ?thesis
      using fs b by (simp add: drain_frames.simps [of "a @ b"] Let_def)
  qed
qed

lemma drain_rest: "drain_frames a = (fs, p) \<Longrightarrow> find_frame_boundary p = None \<and> (\<exists>u. a = u @ p)"
proof (induction a arbitrary: fs p rule: drain_frames.induct)
  case (1 a)
  show ?case
  proof (cases "find_frame_boundary a")
    case None
    with 1(2) show ?thesis by (simp add: drain_frames.simps [of a])
  next
    case (Some x)
    obtain e n where x: "x = (e, n)" by (cases x)
    obtain gs where d: "drain_frames (drop n a) = (gs, p)"
      using 1(2) Some x by (auto simp: drain_frames.simps [of a] Let_def split: prod.split_asm)
    from 1(1) [OF Some x [symmetric] refl d] show ?thesis by (metis append.assoc append_take_drop_id)
  qed
qed

lemma drain_none: "find_frame_boundary p = None \<Longrightarrow> drain_frames p = ([], p)"
  by (simp add: drain_frames.simps)

lemma push_all_drain:
  "one_line_ending (pending @ concat cs) \<Longrightarrow> push_all pending cs = (rs, rest) \<Longrightarrow> TooLarge \<notin> set rs \<Longrightarrow>
     find_frame_boundary pending = None \<Longrightarrow> drain_frames (pending @ concat cs) = (frames_read rs, rest)"
proof (induction cs arbitrary: pending rs)
  case Nil
  then show ?case by (simp add: frames_read_def drain_none)
next
  case (Cons c cs)
  obtain fs p where d: "drain_frames (pending @ c) = (fs, p)" by fastforce
  obtain rs' where rs: "push_all p cs = (rs', rest)" "rs = (if fs = [] then Incomplete else Frames fs) # rs'"
    using Cons.prems(2,3) d by (auto simp: sse_push_def Let_def split: prod.split_asm if_split_asm)
  obtain u where u: "find_frame_boundary p = None" "pending @ c = u @ p" using drain_rest [OF d] by blast
  have "one_line_ending (u @ p @ concat cs)" using Cons.prems(1) u(2) by (metis append.assoc concat.simps(2))
  then have "one_line_ending (p @ concat cs)" using one_line_ending_part by blast
  with Cons.IH [OF _ rs(1) _ u(1)] Cons.prems(3) rs(2)
  have "drain_frames (p @ concat cs) = (frames_read rs', rest)" by simp
  then show ?case
    using drain_append [OF _ d, of "concat cs"] Cons.prems(1) rs(2) by (auto simp: frames_read_def)
qed

lemma push_all_small:
  "length (pending @ concat cs) \<le> MAX_FRAME_BYTES \<Longrightarrow> push_all pending cs = (rs, rest) \<Longrightarrow> TooLarge \<notin> set rs"
proof (induction cs arbitrary: pending rs)
  case (Cons c cs)
  obtain fs p where d: "drain_frames (pending @ c) = (fs, p)" by fastforce
  obtain u where "pending @ c = u @ p" using drain_rest [OF d] by blast
  then have "length p \<le> length (pending @ c)" by simp
  then have "length (p @ concat cs) \<le> MAX_FRAME_BYTES" using Cons.prems(1) by simp
  with Cons.IH [of p] Cons.prems d show ?case
    by (auto simp: sse_push_def Let_def split: prod.split_asm if_split_asm)
qed simp

section \<open>Payloads survive the framing\<close>

text \<open>How a server writes one payload, and which payloads fit on one line.\<close>

definition sse_event :: "string \<Rightarrow> string" where
  "sse_event payload = ''data: '' @ payload @ [LF, LF]"

definition line_payload :: "string \<Rightarrow> bool" where
  "line_payload p \<longleftrightarrow> valid_utf8 p \<and> LF \<notin> set p \<and> CR \<notin> set p \<and> p \<noteq> DONE_SENTINEL"

lemma find_bytes_absent: "set n \<inter> set h = {} \<Longrightarrow> n \<noteq> [] \<Longrightarrow> find_bytes n (h @ t) = map_option ((+) (length h)) (find_bytes n t)"
proof (induction h)
  case (Cons c cs)
  have "\<not> starts_with n ((c # cs) @ t)"
    using Cons.prems by (cases n) (auto simp: starts_with_def)
  with Cons show ?case by (auto simp: option.map_comp comp_def)
qed (cases "find_bytes n t", simp_all)

lemma no_cr: "CR \<notin> set s \<Longrightarrow> find_bytes [CR, LF, CR, LF] s = None"
  by (induction s) (auto simp: starts_with_def)

lemma parse_frame_event:
  assumes "line_payload p"
  shows "parse_frame (''data: '' @ p) = Some (Data p)"
proof -
  have "valid_utf8 (''data: '' @ p)"
    using assms valid_utf8_ascii [of "''data: ''" p] by (simp add: line_payload_def byte_def)
  moreover have "split_on LF (''data: '' @ p) = [''data: '' @ p]"
    using assms by (intro split_on_clean) (auto simp: line_payload_def)
  moreover have "strip_cr (''data: '' @ p) = ''data: '' @ p"
  proof -
    have "c = CR" if "byte c = 13" for c
      using that of_char_eq_iff [of c CR, where 'a = nat] by (simp add: byte_def)
    then show ?thesis using assms by (auto simp: strip_cr_def line_payload_def)
  qed
  ultimately show ?thesis
    using assms by (simp add: parse_frame_def starts_with_def strip_prefix_def line_payload_def Let_def)
qed

lemma drain_event:
  assumes "line_payload p" and "CR \<notin> set t"
  shows "drain_frames (sse_event p @ t) = (Data p # fst (drain_frames t), snd (drain_frames t))"
proof -
  let ?s = "sse_event p @ t"
  have "CR \<notin> set ?s" using assms by (auto simp: sse_event_def line_payload_def)
  then have "find_bytes [CR, LF, CR, LF] ?s = None" by (rule no_cr)
  moreover have "find_bytes [LF, LF] ?s = Some (length (''data: '' @ p))"
    using find_bytes_absent [of "[LF, LF]" "''data: '' @ p" "[LF, LF] @ t"] assms(1)
    by (simp add: sse_event_def line_payload_def starts_with_def)
  ultimately have "find_frame_boundary ?s = Some (length (''data: '' @ p), length (''data: '' @ p) + 2)"
    by (simp add: find_frame_boundary_def)
  then have "drain_frames ?s =
      ((case parse_frame (''data: '' @ p) of Some frame \<Rightarrow> [frame] | None \<Rightarrow> []) @ fst (drain_frames t), snd (drain_frames t))"
    by (subst drain_frames.simps) (simp add: sse_event_def Let_def split: prod.split)
  with parse_frame_event [OF assms(1)] show ?thesis by simp
qed

lemma drain_events:
  "list_all line_payload ps \<Longrightarrow> drain_frames (concat (map sse_event ps)) = (map Data ps, [])"
proof (induction ps)
  case Nil
  then show ?case by (simp add: drain_none find_frame_boundary_def)
next
  case (Cons p ps)
  have "CR \<notin> set (concat (map sse_event ps))"
    using Cons.prems by (auto simp: sse_event_def line_payload_def list_all_iff)
  with Cons drain_event [of p] show ?case by simp
qed

section \<open>Properties\<close>

text \<open>C38: Where the network cuts a body does not matter: as long as the stream ends its frames in one
  way and no frame is refused as too large, the frames read from any pieces are the frames of the
  whole, and what is left over is what the whole leaves over.\<close>

theorem read_boundaries_do_not_matter:
  assumes "push_all [] cs = (rs, rest)" and "TooLarge \<notin> set rs" and "one_line_ending (concat cs)"
  shows "(frames_read rs, rest) = drain_frames (concat cs)"
  using push_all_drain [of "[]" cs rs rest] assms by (simp add: find_frame_boundary_def)

text \<open>Every payload a server sends arrives: the events of a list of one-line payloads, cut
  anywhere, are read back as exactly these payloads, in order, with nothing left over.\<close>

theorem payloads_survive_framing:
  assumes "list_all line_payload ps" and "concat cs = concat (map sse_event ps)"
    and "length (concat cs) \<le> MAX_FRAME_BYTES" and "push_all [] cs = (rs, rest)"
  shows "frames_read rs = map Data ps \<and> \<not> has_partial rest"
proof -
  have "CR \<notin> set (concat cs)"
    unfolding assms(2) using assms(1) by (auto simp: sse_event_def line_payload_def list_all_iff)
  then have "one_line_ending (concat cs)" by (simp add: one_line_ending_def no_cr)
  with push_all_drain [of "[]" cs rs rest] push_all_small [of "[]" cs rs rest] assms(3,4)
  have "drain_frames (concat cs) = (frames_read rs, rest)" by (simp add: find_frame_boundary_def)
  with drain_events [OF assms(1)] assms(2) show ?thesis by (simp add: has_partial_def)
qed

definition sample_pieces :: "string list" where
  "sample_pieces = [''dat'', ''a: ab'' @ [LF], [LF] @ ''data: c'' @ [LF, LF]]"

lemma sample_push: "push_all [] sample_pieces = ([Incomplete, Incomplete, Frames [Data ''ab'', Data ''c'']], [])"
  by (simp add: sample_pieces_def sse_push_def MAX_FRAME_BYTES_def drain_frames.simps find_frame_boundary_def
      starts_with_def parse_frame_def strip_cr_def strip_prefix_def DONE_SENTINEL_def byte_def Let_def)

theorem read_boundaries_do_not_matter_witness:
  "drain_frames (concat sample_pieces) = ([Data ''ab'', Data ''c''], [])"
proof -
  have "CR \<notin> set (concat sample_pieces)" by (simp add: sample_pieces_def)
  then have "one_line_ending (concat sample_pieces)" by (simp add: one_line_ending_def no_cr)
  from read_boundaries_do_not_matter [OF sample_push _ this] show ?thesis by (simp add: frames_read_def)
qed

theorem payloads_survive_framing_witness:
  "frames_read (fst (push_all [] sample_pieces)) = [Data ''ab'', Data ''c'']"
proof -
  have "list_all line_payload [''ab'', ''c'']" by (simp add: line_payload_def DONE_SENTINEL_def byte_def)
  moreover have "concat sample_pieces = concat (map sse_event [''ab'', ''c''])"
    by (simp add: sample_pieces_def sse_event_def)
  moreover have "length (concat sample_pieces) \<le> MAX_FRAME_BYTES"
    by (simp add: sample_pieces_def MAX_FRAME_BYTES_def)
  ultimately have "frames_read [Incomplete, Incomplete, Frames [Data ''ab'', Data ''c'']] = map Data [''ab'', ''c''] \<and>
      \<not> has_partial []"
    by (rule payloads_survive_framing [OF _ _ _ sample_push])
  then show ?thesis by (simp add: sample_push)
qed

text \<open>Two frames that end differently are merged when they arrive together: the search for the
  carriage-return form goes over the whole buffer first, so a frame that ended with two line feeds is
  joined to the one after it. Cut between the two, the same bytes are two frames.\<close>

theorem mixed_line_endings_merge_frames:
  "fst (push_all [] [''data: a'' @ [LF, LF] @ ''data: b'' @ [CR, LF, CR, LF]]) = [Frames [Data (''a'' @ [LF] @ ''b'')]] \<and>
   fst (push_all [] [''data: a'' @ [LF, LF], ''data: b'' @ [CR, LF, CR, LF]]) = [Frames [Data ''a''], Frames [Data ''b'']]"
  by (simp add: sse_push_def MAX_FRAME_BYTES_def drain_frames.simps find_frame_boundary_def
      starts_with_def parse_frame_def strip_cr_def strip_prefix_def DONE_SENTINEL_def byte_def Let_def)

end
