(* ===== verification/Tool_Names.thy ===== *)
theory Tool_Names
  imports Text_Codec Model_Identity "HOL-Library.AList"
begin

text \<open>
  \<open>model_providers/openai_compatible/tool_names.rs\<close>: the names of tools as a chat endpoint accepts
  them, and the table that leads back. The two \<open>BTreeMap\<close>s are association lists. The numeric suffix
  is a natural number here and a \<open>u32\<close> in the code: \<open>tool_names_suffix\<close> bounds it by the number of
  names, so it does not reach the end of that range.
\<close>

definition MAX_WIRE_NAME_LEN :: nat where "MAX_WIRE_NAME_LEN = 64"

record ToolNames =
  tn_to_wire :: "(string \<times> string) list"
  tn_to_canonical :: "(string \<times> string) list"

text \<open>The loop of \<open>sanitize\<close>: the output so far and whether a separator is pending. A character
  outside ASCII is a run of bytes none of which is kept.\<close>

fun sanitize_from :: "string \<Rightarrow> bool \<Rightarrow> string \<Rightarrow> string" where
  "sanitize_from out pending [] = out"
| "sanitize_from out pending (c # cs) =
     (if is_ascii_alphanumeric c \<or> c = CHR ''-''
      then sanitize_from (out @ (if pending \<and> out \<noteq> [] then ''_'' else []) @ [c]) False cs
      else sanitize_from out True cs)"

definition sanitize :: "string \<Rightarrow> string" where
  "sanitize canonical =
     (let out = sanitize_from [] False canonical;
          out = (if out = [] then ''tool'' else out)
      in take MAX_WIRE_NAME_LEN out)"

definition suffixed :: "string \<Rightarrow> nat \<Rightarrow> string" where
  "suffixed base suffix =
     (let tail = ''_'' @ show_nat suffix; keep = MAX_WIRE_NAME_LEN - length tail
      in take (min (length base) keep) base @ tail)"

section \<open>The table\<close>

lemma suffixed_inj: "suffixed base j = suffixed base k \<Longrightarrow> j = k"
proof -
  have last: "rev (takeWhile (\<lambda>c. c \<noteq> CHR ''_'') (rev (suffixed base n))) = show_nat n" for n
  proof -
    have "list_all is_ascii_digit (rev (show_nat n))"
      using show_nat_digits [of n] by (simp add: list_all_iff)
    then have "takeWhile (\<lambda>c. c \<noteq> CHR ''_'') (rev (show_nat n) @ CHR ''_'' # u) = rev (show_nat n)" for u
      by (subst takeWhile_append2) (auto simp: list_all_iff is_ascii_digit_def byte_def)
    then show ?thesis by (simp add: suffixed_def Let_def)
  qed
  assume "suffixed base j = suffixed base k"
  then have "show_nat j = show_nat k" using last [of j] last [of k] by simp
  then show "j = k" using digits_value_show by metis
qed

definition taken_from :: "string list \<Rightarrow> string \<Rightarrow> nat \<Rightarrow> nat set" where
  "taken_from keys base suffix = {k. suffix \<le> k \<and> suffixed base k \<in> set keys}"

lemma taken_from_finite: "finite (taken_from keys base suffix)"
  and taken_from_card: "card (taken_from keys base suffix) \<le> length keys"
proof -
  let ?A = "taken_from keys base suffix"
  have inj: "inj_on (suffixed base) ?A" by (auto intro: inj_onI dest: suffixed_inj)
  have sub: "suffixed base ` ?A \<subseteq> set keys" by (auto simp: taken_from_def)
  show "finite ?A" using inj_on_finite [OF inj sub] by simp
  have "card ?A \<le> card (set keys)" using card_inj_on_le [OF inj sub] by simp
  then show "card ?A \<le> length keys" using card_length le_trans by blast
qed

lemma taken_from_Suc:
  "taken_from keys base suffix =
     (if suffixed base suffix \<in> set keys then insert suffix (taken_from keys base (Suc suffix))
      else taken_from keys base (Suc suffix))"
  by (auto simp: taken_from_def Suc_le_eq le_less)

lemma taken_from_card_Suc:
  "card (taken_from keys base suffix) =
     (if suffixed base suffix \<in> set keys then Suc (card (taken_from keys base (Suc suffix)))
      else card (taken_from keys base (Suc suffix)))"
  using taken_from_Suc [of keys base suffix] taken_from_finite [of keys base "Suc suffix"]
  by (simp add: taken_from_def)

text \<open>The \<open>while\<close> loop of \<open>insert\<close>.\<close>

function free_name :: "string list \<Rightarrow> string \<Rightarrow> string \<Rightarrow> nat \<Rightarrow> string" where
  "free_name keys base candidate suffix =
     (if candidate \<in> set keys then free_name keys base (suffixed base suffix) (suffix + 1) else candidate)"
  by auto
termination
  by (relation "measure (\<lambda>(keys, base, candidate, suffix).
        card (taken_from keys base suffix) + (if candidate \<in> set keys then 1 else 0))")
     (auto simp: taken_from_card_Suc)

declare free_name.simps [simp del]

definition tool_names_insert :: "ToolNames \<Rightarrow> string \<Rightarrow> ToolNames" where
  "tool_names_insert self canonical =
     (if map_of (tn_to_wire self) canonical \<noteq> None then self
      else (let base = sanitize canonical;
                candidate = free_name (map fst (tn_to_canonical self)) base base 2
            in self\<lparr>tn_to_wire := AList.update canonical candidate (tn_to_wire self),
                    tn_to_canonical := AList.update candidate canonical (tn_to_canonical self)\<rparr>))"

definition tool_names_default :: ToolNames where
  "tool_names_default = \<lparr>tn_to_wire = [], tn_to_canonical = []\<rparr>"

definition tool_names_new :: "string list \<Rightarrow> ToolNames" where
  "tool_names_new canonical = foldl tool_names_insert tool_names_default canonical"

definition wire :: "ToolNames \<Rightarrow> string \<Rightarrow> string" where
  "wire self canonical =
     (case map_of (tn_to_wire self) canonical of Some w \<Rightarrow> w | None \<Rightarrow> sanitize canonical)"

definition canonical_name :: "ToolNames \<Rightarrow> string \<Rightarrow> string" where
  "canonical_name self w = (case map_of (tn_to_canonical self) w of Some c \<Rightarrow> c | None \<Rightarrow> w)"

section \<open>Names the endpoint accepts\<close>

definition wire_char :: "char \<Rightarrow> bool" where
  "wire_char c \<longleftrightarrow> is_ascii_alphanumeric c \<or> c = CHR ''-'' \<or> c = CHR ''_''"

definition wire_ok :: "string \<Rightarrow> bool" where
  "wire_ok s \<longleftrightarrow> s \<noteq> [] \<and> length s \<le> 64 \<and> list_all wire_char s"

lemma sanitize_from_chars: "list_all wire_char out \<Longrightarrow> list_all wire_char (sanitize_from out pending cs)"
  by (induction cs arbitrary: out pending) (auto simp: wire_char_def)

lemma sanitize_ok: "wire_ok (sanitize c)"
proof -
  have "list_all wire_char (sanitize_from [] False c)" by (simp add: sanitize_from_chars)
  moreover have "list_all wire_char ''tool''" by (simp add: wire_char_def is_ascii_alphanumeric_def is_ascii_lowercase_def byte_def)
  ultimately show ?thesis
    by (auto simp: wire_ok_def sanitize_def MAX_WIRE_NAME_LEN_def Let_def list_all_iff dest: in_set_takeD)
qed

lemma show_nat_length: "n < 10 ^ d \<Longrightarrow> 0 < d \<Longrightarrow> length (show_nat n) \<le> d"
proof (induction d arbitrary: n)
  case (Suc d)
  show ?case
  proof (cases "n < 10")
    case True
    then show ?thesis by (simp add: show_nat.simps)
  next
    case False
    have "n div 10 < 10 ^ d" using Suc.prems(1) by (simp add: less_mult_imp_div_less mult.commute)
    with False have "0 < d" by (cases d) auto
    with Suc.IH [of "n div 10"] \<open>n div 10 < 10 ^ d\<close> False show ?thesis by (simp add: show_nat.simps [of n])
  qed
qed simp

lemma suffixed_ok:
  assumes "wire_ok base" and "k < 2 ^ 32"
  shows "wire_ok (suffixed base k)"
proof -
  have "length (show_nat k) \<le> 10" using assms(2) by (intro show_nat_length) simp_all
  moreover have "list_all wire_char (show_nat k)"
    using show_nat_digits [of k] by (auto simp: list_all_iff wire_char_def is_ascii_alphanumeric_def is_ascii_digit_def)
  ultimately show ?thesis
    using assms(1)
    by (auto simp: wire_ok_def suffixed_def MAX_WIRE_NAME_LEN_def Let_def list_all_iff wire_char_def dest: in_set_takeD)
qed

text \<open>The name found is free, and is the plain one or carries a suffix below the number of names.\<close>

lemma free_name_free:
  "free_name keys base candidate suffix = r \<Longrightarrow>
     r \<notin> set keys \<and> (r = candidate \<or> (\<exists>k. suffix \<le> k \<and> k \<le> suffix + card (taken_from keys base suffix) \<and> r = suffixed base k))"
proof (induction keys base candidate suffix rule: free_name.induct)
  case (1 keys base candidate suffix)
  show ?case
  proof (cases "candidate \<in> set keys")
    case True
    with 1(2) have "free_name keys base (suffixed base suffix) (suffix + 1) = r"
      by (simp add: free_name.simps [of keys base candidate])
    note next_ = this
    show ?thesis
    proof (cases "suffixed base suffix \<in> set keys")
      case True
      with 1(1) [OF \<open>candidate \<in> set keys\<close> next_] taken_from_card_Suc [of keys base suffix] show ?thesis
        by (auto intro: Suc_leD)
    next
      case False
      with next_ show ?thesis by (auto simp: free_name.simps)
    qed
  next
    case False
    with 1(2) show ?thesis by (simp add: free_name.simps)
  qed
qed

section \<open>The table leads back\<close>

definition tables_agree :: "ToolNames \<Rightarrow> bool" where
  "tables_agree t \<longleftrightarrow>
     (\<forall>c w. map_of (tn_to_wire t) c = Some w \<longleftrightarrow> map_of (tn_to_canonical t) w = Some c)"

definition names_inv :: "nat \<Rightarrow> string set \<Rightarrow> ToolNames \<Rightarrow> bool" where
  "names_inv n cs t \<longleftrightarrow> tables_agree t \<and> dom (map_of (tn_to_wire t)) = cs \<and>
     length (tn_to_canonical t) \<le> n \<and> (\<forall>c w. map_of (tn_to_wire t) c = Some w \<longrightarrow> wire_ok w)"

lemma map_of_keys: "x \<in> set (map fst xs) \<longleftrightarrow> map_of xs x \<noteq> None"
  by (simp add: map_of_eq_None_iff)

lemma length_update_le: "length (AList.update k v al) \<le> Suc (length al)"
  by (induction al) auto

lemma insert_inv:
  assumes "names_inv n cs t" and "n + 3 < 2 ^ 32"
  shows "names_inv (Suc n) (insert c cs) (tool_names_insert t c)"
proof (cases "map_of (tn_to_wire t) c")
  case None
  define keys base w where "keys = map fst (tn_to_canonical t)" and "base = sanitize c" and "w = free_name keys base base 2"
  from free_name_free [of keys base base 2 w] obtain
    free: "w \<notin> set keys" and form: "w = base \<or> (\<exists>k. k \<le> 2 + card (taken_from keys base 2) \<and> w = suffixed base k)"
    by (auto simp: w_def)
  have "card (taken_from keys base 2) \<le> n"
    using taken_from_card [of keys base 2] assms(1) by (simp add: keys_def names_inv_def)
  then have ok: "wire_ok w"
    using form assms(2) sanitize_ok [of c] suffixed_ok [OF sanitize_ok [of c]] by (auto simp: base_def)
  have fresh: "map_of (tn_to_canonical t) w = None"
    using free unfolding keys_def map_of_keys by simp
  have t: "tool_names_insert t c = t\<lparr>tn_to_wire := AList.update c w (tn_to_wire t),
      tn_to_canonical := AList.update w c (tn_to_canonical t)\<rparr>"
    using None by (simp add: tool_names_insert_def Let_def keys_def base_def w_def)
  have agree: "tables_agree t" using assms(1) by (simp add: names_inv_def)
  have "tables_agree (tool_names_insert t c)"
    unfolding tables_agree_def t using agree None fresh
    by (auto simp: update_conv' tables_agree_def) (metis option.distinct(1))+
  moreover have "length (AList.update w c (tn_to_canonical t)) \<le> Suc n"
    using length_update_le [of w c "tn_to_canonical t"] assms(1) by (simp add: names_inv_def)
  ultimately show ?thesis
    using assms(1) ok by (auto simp: names_inv_def t update_conv')
next
  case (Some w)
  with assms(1) show ?thesis by (auto simp: names_inv_def tool_names_insert_def)
qed

lemma new_inv:
  "names_inv n ds t \<Longrightarrow> n + length cs + 3 < 2 ^ 32 \<Longrightarrow>
     names_inv (n + length cs) (ds \<union> set cs) (foldl tool_names_insert t cs)"
proof (induction cs arbitrary: n ds t)
  case (Cons c cs)
  have "names_inv (Suc n) (insert c ds) (tool_names_insert t c)" using insert_inv Cons.prems by simp
  from Cons.IH [OF this] Cons.prems(2) show ?case by simp
qed simp

text \<open>The names sent to a model lead back to the tools they stand for: every offered name is sent
  as a non-empty text of at most 64 letters, digits, dashes and underscores, no two offered names
  are sent alike, what comes back names the tool that was offered, and a name that was never sent is
  passed on unchanged.\<close>

theorem tool_names_round_trip:
  assumes "length cs + 3 < 2 ^ 32" and "t = tool_names_new cs"
  shows "list_all (\<lambda>c. wire_ok (wire t c) \<and> canonical_name t (wire t c) = c) cs \<and>
    inj_on (wire t) (set cs) \<and> (w \<notin> wire t ` set cs \<longrightarrow> canonical_name t w = w)"
proof -
  have "names_inv 0 {} tool_names_default" by (simp add: names_inv_def tables_agree_def tool_names_default_def)
  from new_inv [OF this] assms have inv: "names_inv (length cs) (set cs) t" by (simp add: tool_names_new_def)
  have leads: "wire_ok (wire t c) \<and> map_of (tn_to_canonical t) (wire t c) = Some c" if "c \<in> set cs" for c
    using inv that by (auto simp: names_inv_def tables_agree_def wire_def split: option.split)
  have "canonical_name t w = w" if "w \<notin> wire t ` set cs"
  proof (cases "map_of (tn_to_canonical t) w")
    case (Some c)
    with inv have "map_of (tn_to_wire t) c = Some w" "c \<in> set cs" by (auto simp: names_inv_def tables_agree_def)
    with that show ?thesis by (force simp: wire_def)
  qed (simp add: canonical_name_def)
  moreover have "inj_on (wire t) (set cs)" by (rule inj_onI) (metis leads option.inject)
  ultimately show ?thesis using leads by (auto simp: list_all_iff canonical_name_def)
qed

theorem tool_names_round_trip_witness:
  "canonical_name (tool_names_new [''a.b@1'', ''a_b_1'']) (wire (tool_names_new [''a.b@1'', ''a_b_1'']) ''a_b_1'') = ''a_b_1''"
  using tool_names_round_trip [of "[''a.b@1'', ''a_b_1'']", OF _ refl] by simp

end
