(* ===== verification/Json_Access.thy ===== *)
theory Json_Access
  imports Prelude
begin

text \<open>
  How the source reads a decoded JSON document. The type of documents and its accessors belong to
  \<open>serde_json\<close>, which is not part of the repository: documents are a type parameter \<open>'j\<close> and the
  accessors the code calls are the fields of a record, an argument of every definition that reads
  JSON. Nothing is assumed of them.
\<close>

record 'j JsonOps =
  js_get :: "'j \<Rightarrow> string \<Rightarrow> 'j option"
  js_as_str :: "'j \<Rightarrow> string option"
  js_as_u64 :: "'j \<Rightarrow> u64 option"
  js_as_i64 :: "'j \<Rightarrow> int option"
  js_as_array :: "'j \<Rightarrow> 'j list option"
  js_is_object :: "'j \<Rightarrow> bool"
  js_is_null :: "'j \<Rightarrow> bool"

definition js_get_str :: "'j JsonOps \<Rightarrow> 'j \<Rightarrow> string \<Rightarrow> string option" where
  "js_get_str ops v key = Option.bind (js_get ops v key) (js_as_str ops)"

text \<open>\<open>Option::filter\<close>.\<close>

definition opt_filter :: "('a \<Rightarrow> bool) \<Rightarrow> 'a option \<Rightarrow> 'a option" where
  "opt_filter p x = (case x of Some y \<Rightarrow> if p y then Some y else None | None \<Rightarrow> None)"

lemma opt_filter_simps [simp]:
  "opt_filter p None = None" "opt_filter p (Some y) = (if p y then Some y else None)"
  by (simp_all add: opt_filter_def)

lemma opt_filter_Some_iff: "opt_filter p x = Some y \<longleftrightarrow> x = Some y \<and> p y"
  by (cases x) auto

section \<open>A concrete document type\<close>

text \<open>Documents of strings, numbers, lists and objects, with the accessors' documented meaning, on
  which properties are evaluated.\<close>

datatype sample_json =
    SNull | SNum nat | SStr string | SArr "sample_json list" | SObj "(string \<times> sample_json) list"

definition sample_ops :: "sample_json JsonOps" where
  "sample_ops =
     \<lparr>js_get = (\<lambda>v key. case v of SObj kvs \<Rightarrow> map_of kvs key | _ \<Rightarrow> None),
      js_as_str = (\<lambda>v. case v of SStr s \<Rightarrow> Some s | _ \<Rightarrow> None),
      js_as_u64 = (\<lambda>v. case v of SNum n \<Rightarrow> Some (of_nat n) | _ \<Rightarrow> None),
      js_as_i64 = (\<lambda>v. case v of SNum n \<Rightarrow> Some (int n) | _ \<Rightarrow> None),
      js_as_array = (\<lambda>v. case v of SArr vs \<Rightarrow> Some vs | _ \<Rightarrow> None),
      js_is_object = (\<lambda>v. case v of SObj _ \<Rightarrow> True | _ \<Rightarrow> False),
      js_is_null = (\<lambda>v. v = SNull)\<rparr>"

end
