(* ===== verification/Chunk_Translator.thy ===== *)
theory Chunk_Translator
  imports Model_Stream Tool_Names Json_Access
begin

text \<open>
  \<open>model_providers/openai_compatible/translate.rs\<close>: one decoded chunk of a chat completion becomes
  stream events. The \<open>BTreeMap\<close> of announced tool calls is an association list that is walked in the
  order of its keys. A tool-call fragment is first read from the document and then applied.
\<close>

datatype Translated = Events "ModelStreamEventKind list" | Ignored | Malformed

record AnnouncedToolCall =
  ac_call_id :: string
  ac_name :: string
  ac_arguments :: string
  ac_announced :: bool

record ChunkTranslator =
  kt_item_id :: "string option"
  kt_delta_count :: u32
  kt_refused :: bool
  kt_terminal_emitted :: bool
  kt_late_deltas_ignored :: u64
  kt_reasoning_chunks_ignored :: u64
  kt_model :: "string option"
  kt_tool_calls :: "(u64 \<times> AnnouncedToolCall) list"
  kt_tool_names :: ToolNames

definition chunk_translator_new :: "ToolNames \<Rightarrow> ChunkTranslator" where
  "chunk_translator_new names =
     \<lparr>kt_item_id = None, kt_delta_count = 0, kt_refused = False, kt_terminal_emitted = False,
      kt_late_deltas_ignored = 0, kt_reasoning_chunks_ignored = 0, kt_model = None, kt_tool_calls = [],
      kt_tool_names = names\<rparr>"

section \<open>Reading fields\<close>

definition unmodelled_finish_reason :: "string \<Rightarrow> FinishReason" where
  "unmodelled_finish_reason value =
     (case finish_reason_other value of
        Ok r \<Rightarrow> r | Err _ \<Rightarrow> FinishReason.Other ''unrepresentable'')"

definition finish_reason_for :: "'j JsonOps \<Rightarrow> 'j \<Rightarrow> FinishReason" where
  "finish_reason_for ops reason =
     (case js_as_str ops reason of
        None \<Rightarrow> unmodelled_finish_reason []
      | Some text \<Rightarrow>
          if text = ''stop'' then FinishReason.Stop
          else if text = ''length'' then FinishReason.Length
          else if text = ''tool_calls'' \<or> text = ''function_call'' then FinishReason.ToolCalls
          else if text = ''content_filter'' then FinishReason.ContentFilter
          else unmodelled_finish_reason text)"

definition finish_reason_from_error :: "'j \<Rightarrow> FinishReason" where
  "finish_reason_from_error error = FinishReason.ProviderError"

fun json_path :: "'j JsonOps \<Rightarrow> 'j \<Rightarrow> string list \<Rightarrow> 'j option" where
  "json_path ops v [] = Some v"
| "json_path ops v (step # path) = Option.bind (js_get ops v step) (\<lambda>w. json_path ops w path)"

definition usage_counter :: "'j JsonOps \<Rightarrow> 'j \<Rightarrow> string list \<Rightarrow> u64 option" where
  "usage_counter ops v path = Option.bind (json_path ops v path) (js_as_u64 ops)"

definition usage_from :: "'j JsonOps \<Rightarrow> 'j \<Rightarrow> Usage" where
  "usage_from ops usage =
     \<lparr>us_input_tokens = usage_counter ops usage [''prompt_tokens''],
      us_output_tokens = usage_counter ops usage [''completion_tokens''],
      us_cached_input_tokens = usage_counter ops usage [''prompt_tokens_details'', ''cached_tokens''],
      us_reasoning_tokens = usage_counter ops usage [''completion_tokens_details'', ''reasoning_tokens''],
      us_provider_reported = True, us_estimated_cost_microunits = None, us_currency = None\<rparr>"

section \<open>Tool-call fragments\<close>

record Fragment =
  fr_index :: u64
  fr_id :: "string option"
  fr_name :: "string option"
  fr_arguments :: "string option"

definition fragment_of :: "'j JsonOps \<Rightarrow> nat \<Rightarrow> 'j \<Rightarrow> Fragment" where
  "fragment_of ops position call =
     (let function = js_get ops call ''function'' in
      \<lparr>fr_index = (case Option.bind (js_get ops call ''index'') (js_as_u64 ops) of
                    Some i \<Rightarrow> i | None \<Rightarrow> of_nat position),
       fr_id = opt_filter (\<lambda>i. i \<noteq> []) (js_get_str ops call ''id''),
       fr_name = opt_filter (\<lambda>n. n \<noteq> []) (Option.bind function (\<lambda>f. js_get_str ops f ''name'')),
       fr_arguments = opt_filter (\<lambda>a. a \<noteq> []) (Option.bind function (\<lambda>f. js_get_str ops f ''arguments''))\<rparr>)"

definition apply_fragment :: "ChunkTranslator \<Rightarrow> Fragment \<Rightarrow> ModelStreamEventKind list \<times> ChunkTranslator" where
  "apply_fragment self f =
     (let entry = (case map_of (kt_tool_calls self) (fr_index f) of
                     Some e \<Rightarrow> e
                   | None \<Rightarrow> \<lparr>ac_call_id = ''tool-'' @ show_nat (unat (fr_index f)), ac_name = [],
                              ac_arguments = [], ac_announced = False\<rparr>);
          entry = (case fr_id f of Some i \<Rightarrow> entry\<lparr>ac_call_id := i\<rparr> | None \<Rightarrow> entry);
          entry = (case fr_name f of Some n \<Rightarrow> entry\<lparr>ac_name := n\<rparr> | None \<Rightarrow> entry);
          announce = (\<not> ac_announced entry \<and> ac_name entry \<noteq> []);
          entry = (if announce then entry\<lparr>ac_announced := True\<rparr> else entry);
          added = (if announce
                   then [ToolCallAdded (ac_call_id entry) (canonical_name (kt_tool_names self) (ac_name entry))]
                   else []);
          deltas = (case fr_arguments f of
                      Some a \<Rightarrow> [ToolCallArgumentsDelta (ac_call_id entry) a] | None \<Rightarrow> []);
          entry = (case fr_arguments f of
                     Some a \<Rightarrow> entry\<lparr>ac_arguments := ac_arguments entry @ a\<rparr> | None \<Rightarrow> entry)
      in (added @ deltas, self\<lparr>kt_tool_calls := AList.update (fr_index f) entry (kt_tool_calls self)\<rparr>))"

fun apply_fragments :: "ChunkTranslator \<Rightarrow> Fragment list \<Rightarrow> ModelStreamEventKind list \<times> ChunkTranslator" where
  "apply_fragments self [] = ([], self)"
| "apply_fragments self (f # fs) =
     (let (es, self) = apply_fragment self f; (es', self) = apply_fragments self fs in (es @ es', self))"

definition delta_fragments :: "'j JsonOps \<Rightarrow> 'j \<Rightarrow> Fragment list" where
  "delta_fragments ops delta =
     (case Option.bind (js_get ops delta ''tool_calls'') (js_as_array ops) of
        None \<Rightarrow> []
      | Some calls \<Rightarrow> map (\<lambda>(i, c). fragment_of ops i c) (enumerate 0 calls))"

definition push_tool_calls ::
  "'j JsonOps \<Rightarrow> ChunkTranslator \<Rightarrow> 'j \<Rightarrow> ModelStreamEventKind list \<times> ChunkTranslator"
where
  "push_tool_calls ops self delta =
     (case Option.bind (js_get ops delta ''tool_calls'') (js_as_array ops) of
        None \<Rightarrow> ([], self)
      | Some calls \<Rightarrow>
          if kt_terminal_emitted self
          then ([], self\<lparr>kt_late_deltas_ignored :=
                      saturating_add (kt_late_deltas_ignored self)
                        (if length calls < 2 ^ 64 then of_nat (length calls) else - 1)\<rparr>)
          else apply_fragments self (delta_fragments ops delta))"

section \<open>Text and the terminal\<close>

definition push_delta :: "ChunkTranslator \<Rightarrow> string \<Rightarrow> ModelStreamEventKind list \<times> ChunkTranslator" where
  "push_delta self text =
     (if kt_terminal_emitted self
      then ([], self\<lparr>kt_late_deltas_ignored := saturating_add (kt_late_deltas_ignored self) 1\<rparr>)
      else
        (let (added, self) =
           (case kt_item_id self of
              None \<Rightarrow>
                (let item_id = ''item-'' @ show_nat (unat (saturating_add (kt_delta_count self) 1))
                 in ([OutputItemAdded item_id], self\<lparr>kt_item_id := Some item_id\<rparr>))
            | Some _ \<Rightarrow> ([], self));
             self = self\<lparr>kt_delta_count := saturating_add (kt_delta_count self) 1\<rparr>
         in (added @ [OutputTextDelta (case kt_item_id self of Some i \<Rightarrow> i | None \<Rightarrow> []) text], self)))"

definition completions :: "ChunkTranslator \<Rightarrow> ModelStreamEventKind list" where
  "completions self =
     map (\<lambda>call. ToolCallCompleted (ac_call_id call) (ac_arguments call))
       (filter ac_announced (map snd (sort_key fst (kt_tool_calls self))))"

definition translator_terminal ::
  "ChunkTranslator \<Rightarrow> FinishReason \<Rightarrow> Usage option \<Rightarrow> bool \<Rightarrow> Translated \<times> ChunkTranslator"
where
  "translator_terminal self finish_reason usage refused =
     (if kt_terminal_emitted self then (Ignored, self)
      else
        (let self = self\<lparr>kt_terminal_emitted := True\<rparr> in
         (Events ((case kt_item_id self of Some i \<Rightarrow> [OutputItemCompleted i] | None \<Rightarrow> []) @ completions self @
                  [CallCompleted finish_reason usage refused]), self)))"

section \<open>One chunk\<close>

text \<open>What one choice contributes before its finish reason is looked at.\<close>

definition translate_delta ::
  "'j JsonOps \<Rightarrow> ChunkTranslator \<Rightarrow> 'j \<Rightarrow> ModelStreamEventKind list \<times> ChunkTranslator"
where
  "translate_delta ops self delta =
     (let (calls, self) = push_tool_calls ops self delta;
          self = (if is_some_and (js_get_str ops delta ''reasoning'') (\<lambda>t. t \<noteq> [])
                  then self\<lparr>kt_reasoning_chunks_ignored := kt_reasoning_chunks_ignored self + 1\<rparr> else self);
          (texts, self) = (case js_get_str ops delta ''content'' of
                             Some text \<Rightarrow> if text \<noteq> [] then push_delta self text else ([], self)
                           | None \<Rightarrow> ([], self));
          (refusals, self) = (case js_get_str ops delta ''refusal'' of
                                Some refusal \<Rightarrow>
                                  (let self = self\<lparr>kt_refused := True\<rparr>
                                   in if refusal \<noteq> [] then push_delta self refusal else ([], self))
                              | None \<Rightarrow> ([], self))
      in (calls @ texts @ refusals, self))"

definition chunk_usage :: "'j JsonOps \<Rightarrow> 'j \<Rightarrow> Usage option" where
  "chunk_usage ops chunk = map_option (usage_from ops) (opt_filter (\<lambda>u. \<not> js_is_null ops u) (js_get ops chunk ''usage''))"

text \<open>The loop over the choices: \<open>None\<close> is the early return of a malformed chunk.\<close>

fun translate_choices ::
  "'j JsonOps \<Rightarrow> 'j \<Rightarrow> ChunkTranslator \<Rightarrow> 'j list \<Rightarrow> ModelStreamEventKind list option \<times> ChunkTranslator"
where
  "translate_choices ops chunk self [] = (Some [], self)"
| "translate_choices ops chunk self (choice # rest) =
     (if is_some_and (Option.bind (js_get ops choice ''index'') (js_as_i64 ops)) (\<lambda>index. index \<noteq> 0)
      then (None, self)
      else
        (let (events, self) =
           (case opt_filter (js_is_object ops) (js_get ops choice ''delta'') of
              Some delta \<Rightarrow> translate_delta ops self delta | None \<Rightarrow> ([], self))
         in case opt_filter (\<lambda>r. \<not> js_is_null ops r) (js_get ops choice ''finish_reason'') of
              Some reason \<Rightarrow>
                (case translator_terminal self (finish_reason_for ops reason) (chunk_usage ops chunk) (kt_refused self) of
                   (Events terminal, self) \<Rightarrow> (Some (events @ terminal), self)
                 | (_, self) \<Rightarrow> (Some events, self))
            | None \<Rightarrow>
                (case translate_choices ops chunk self rest of
                   (None, self) \<Rightarrow> (None, self)
                 | (Some later, self) \<Rightarrow> (Some (events @ later), self))))"

definition events_or_ignored :: "ModelStreamEventKind list \<Rightarrow> Translated" where
  "events_or_ignored events = (if events = [] then Ignored else Events events)"

definition note_model :: "'j JsonOps \<Rightarrow> ChunkTranslator \<Rightarrow> 'j \<Rightarrow> ChunkTranslator" where
  "note_model ops self chunk =
     (case js_get_str ops chunk ''model'' of
        Some model \<Rightarrow> if kt_model self = None \<and> model \<noteq> [] then self\<lparr>kt_model := Some model\<rparr> else self
      | None \<Rightarrow> self)"

definition translate :: "'j JsonOps \<Rightarrow> ChunkTranslator \<Rightarrow> 'j option \<Rightarrow> Translated \<times> ChunkTranslator" where
  "translate ops self chunk =
     (case chunk of
        None \<Rightarrow> (Ignored, self)
      | Some chunk \<Rightarrow>
          if \<not> js_is_object ops chunk then (Malformed, self)
          else
            (let self = note_model ops self chunk in
             case js_get ops chunk ''error'' of
               Some error \<Rightarrow> translator_terminal self (finish_reason_from_error error) None False
             | None \<Rightarrow>
                 (let events = (case chunk_usage ops chunk of Some u \<Rightarrow> [UsageUpdated u] | None \<Rightarrow> []) in
                  case Option.bind (js_get ops chunk ''choices'') (js_as_array ops) of
                    None \<Rightarrow> (events_or_ignored events, self)
                  | Some choices \<Rightarrow>
                      (case translate_choices ops chunk self choices of
                         (None, self) \<Rightarrow> (Malformed, self)
                       | (Some later, self) \<Rightarrow> (events_or_ignored (events @ later), self)))))"

section \<open>A stream of chunks\<close>

text \<open>The events of a sequence of chunks, up to the first malformed one.\<close>

definition events_of :: "Translated \<Rightarrow> ModelStreamEventKind list" where
  "events_of r = (case r of Events es \<Rightarrow> es | _ \<Rightarrow> [])"

lemma events_of_simps [simp]:
  "events_of (Events es) = es" "events_of Ignored = []" "events_of Malformed = []"
  "events_of (events_or_ignored es) = es"
  by (simp_all add: events_of_def events_or_ignored_def)

lemma events_or_ignored_ok [simp]: "events_or_ignored es \<noteq> Malformed"
  by (simp add: events_or_ignored_def)

fun run_translator :: "'j JsonOps \<Rightarrow> ChunkTranslator \<Rightarrow> 'j list \<Rightarrow> ModelStreamEventKind list \<times> ChunkTranslator" where
  "run_translator ops t [] = ([], t)"
| "run_translator ops t (c # cs) =
     (case translate ops t (Some c) of
        (Malformed, t) \<Rightarrow> ([], t)
      | (r, t) \<Rightarrow> (case run_translator ops t cs of (es, t) \<Rightarrow> (events_of r @ es, t)))"

definition is_usage :: "ModelStreamEventKind \<Rightarrow> bool" where
  "is_usage k = (case k of UsageUpdated _ \<Rightarrow> True | _ \<Rightarrow> False)"

definition is_body :: "ModelStreamEventKind \<Rightarrow> bool" where
  "is_body k = (case k of ToolCallAdded _ _ \<Rightarrow> True | ToolCallArgumentsDelta _ _ \<Rightarrow> True
     | OutputItemAdded _ \<Rightarrow> True | OutputTextDelta _ _ \<Rightarrow> True | _ \<Rightarrow> False)"

lemma body_not_terminal: "is_body k \<Longrightarrow> \<not> kind_is_terminal k"
  by (cases k) (simp_all add: is_body_def kind_is_terminal_def)

lemma usage_not_terminal: "is_usage k \<Longrightarrow> \<not> kind_is_terminal k"
  by (cases k) (simp_all add: is_usage_def kind_is_terminal_def)

text \<open>What the parts of a chunk emit, and that they leave the terminal flag alone.\<close>

lemma apply_fragment_emits:
  assumes "apply_fragment t f = (es, t')"
  shows "list_all is_body es \<and> kt_terminal_emitted t' = kt_terminal_emitted t"
  using assms by (auto simp: apply_fragment_def Let_def is_body_def split: option.split)

lemma apply_fragments_emits:
  "apply_fragments t fs = (es, t') \<Longrightarrow> list_all is_body es \<and> kt_terminal_emitted t' = kt_terminal_emitted t"
proof (induction fs arbitrary: t es)
  case (Cons f fs)
  obtain a t1 b where "apply_fragment t f = (a, t1)" "apply_fragments t1 fs = (b, t')" "es = a @ b"
    using Cons.prems by (auto simp: Let_def split: prod.split_asm)
  with Cons.IH [of t1 b] apply_fragment_emits [of t f a t1] show ?case by simp
qed simp

lemma push_tool_calls_emits:
  "push_tool_calls ops t d = (es, t') \<Longrightarrow>
     list_all is_body es \<and> kt_terminal_emitted t' = kt_terminal_emitted t \<and> (kt_terminal_emitted t \<longrightarrow> es = [])"
  by (auto simp: push_tool_calls_def dest!: apply_fragments_emits split: option.split_asm if_split_asm)

lemma push_delta_emits:
  "push_delta t x = (es, t') \<Longrightarrow>
     list_all is_body es \<and> kt_terminal_emitted t' = kt_terminal_emitted t \<and> (kt_terminal_emitted t \<longrightarrow> es = [])"
  by (auto simp: push_delta_def is_body_def Let_def split: option.split_asm if_split_asm)

lemma translate_delta_emits:
  assumes "translate_delta ops t d = (es, t')"
  shows "list_all is_body es \<and> kt_terminal_emitted t' = kt_terminal_emitted t \<and> (kt_terminal_emitted t \<longrightarrow> es = [])"
proof -
  obtain a t1 where a: "push_tool_calls ops t d = (a, t1)" by fastforce
  define t2 where "t2 = (if is_some_and (js_get_str ops d ''reasoning'') (\<lambda>t. t \<noteq> [])
    then t1\<lparr>kt_reasoning_chunks_ignored := kt_reasoning_chunks_ignored t1 + 1\<rparr> else t1)"
  obtain b t3 where b: "(case js_get_str ops d ''content'' of
      Some text \<Rightarrow> if text \<noteq> [] then push_delta t2 text else ([], t2) | None \<Rightarrow> ([], t2)) = (b, t3)" by fastforce
  obtain c t4 where c: "(case js_get_str ops d ''refusal'' of
      Some refusal \<Rightarrow> (let self = t3\<lparr>kt_refused := True\<rparr>
        in if refusal \<noteq> [] then push_delta self refusal else ([], self)) | None \<Rightarrow> ([], t3)) = (c, t4)" by fastforce
  have "es = a @ b @ c" "t' = t4"
    using assms a b c by (simp_all add: translate_delta_def t2_def [symmetric])
  moreover have "kt_terminal_emitted t2 = kt_terminal_emitted t1" by (simp add: t2_def)
  ultimately show ?thesis
    using push_tool_calls_emits [OF a] b c
    by (auto simp: Let_def dest!: push_delta_emits split: option.split_asm if_split_asm)
qed

text \<open>Events that end with the one terminal.\<close>

definition ends_call :: "ModelStreamEventKind list \<Rightarrow> bool" where
  "ends_call es \<longleftrightarrow> es \<noteq> [] \<and> kind_is_terminal (last es) \<and> list_all (\<lambda>k. \<not> kind_is_terminal k) (butlast es)"

lemma ends_call_append: "list_all (\<lambda>k. \<not> kind_is_terminal k) as \<Longrightarrow> ends_call es \<Longrightarrow> ends_call (as @ es)"
  by (auto simp: ends_call_def butlast_append)

lemma terminal_emits:
  assumes "translator_terminal t r u b = (x, t')"
  shows "(if kt_terminal_emitted t then events_of x = [] else ends_call (events_of x)) \<and> kt_terminal_emitted t' \<and> x \<noteq> Malformed"
  using assms
  by (auto simp: translator_terminal_def ends_call_def completions_def kind_is_terminal_def butlast_append list_all_iff
      Let_def split: option.split if_split_asm)

text \<open>After the terminal nothing but usage is emitted; before it either no terminal, or one, last.\<close>

definition step_emits :: "bool \<Rightarrow> ModelStreamEventKind list \<Rightarrow> bool \<Rightarrow> bool" where
  "step_emits before es after \<longleftrightarrow>
     (if before then list_all is_usage es \<and> after
      else if after then ends_call es else list_all (\<lambda>k. \<not> kind_is_terminal k) es)"

lemma translate_choices_emits:
  "translate_choices ops c t cs = (Some es, t') \<Longrightarrow>
     (if kt_terminal_emitted t then es = [] \<and> kt_terminal_emitted t'
      else if kt_terminal_emitted t' then ends_call es else list_all (\<lambda>k. \<not> kind_is_terminal k) es)"
proof (induction cs arbitrary: t es)
  case (Cons ch rest)
  obtain a t1 where a: "(case opt_filter (js_is_object ops) (js_get ops ch ''delta'') of
      Some delta \<Rightarrow> translate_delta ops t delta | None \<Rightarrow> ([], t)) = (a, t1)" by fastforce
  have 1: "list_all is_body a \<and> kt_terminal_emitted t1 = kt_terminal_emitted t \<and> (kt_terminal_emitted t \<longrightarrow> a = [])"
    using a by (auto dest!: translate_delta_emits split: option.split_asm)
  then have body: "list_all (\<lambda>k. \<not> kind_is_terminal k) a" by (auto simp: list_all_iff body_not_terminal)
  show ?case
  proof (cases "opt_filter (\<lambda>r. \<not> js_is_null ops r) (js_get ops ch ''finish_reason'')")
    case None
    with Cons.prems a obtain b where "translate_choices ops c t1 rest = (Some b, t')" "es = a @ b"
      by (auto split: if_split_asm option.split_asm prod.split_asm)
    with Cons.IH [of t1 b] 1 body show ?thesis by (auto simp: ends_call_append)
  next
    case (Some r)
    obtain x t2 where x: "translator_terminal t1 (finish_reason_for ops r) (chunk_usage ops c) (kt_refused t1) = (x, t2)"
      by fastforce
    with Cons.prems a Some have "es = a @ events_of x" "t' = t2"
      by (auto split: if_split_asm Translated.split_asm)
    with terminal_emits [OF x] 1 body show ?thesis by (auto simp: ends_call_append)
  qed
qed simp

lemma note_model_keeps [simp]:
  "kt_terminal_emitted (note_model ops t c) = kt_terminal_emitted t" "kt_tool_calls (note_model ops t c) = kt_tool_calls t"
  by (simp_all add: note_model_def split: option.split)

lemma translate_emits:
  assumes "translate ops t (Some c) = (r, t')" and "r \<noteq> Malformed"
  shows "step_emits (kt_terminal_emitted t) (events_of r) (kt_terminal_emitted t')"
proof (cases "js_get ops c ''error''")
  case None
  define us where "us = (case chunk_usage ops c of Some u \<Rightarrow> [UsageUpdated u] | None \<Rightarrow> [])"
  have us: "list_all is_usage us" by (simp add: us_def is_usage_def split: option.split)
  then have us': "list_all (\<lambda>k. \<not> kind_is_terminal k) us" by (auto simp: list_all_iff usage_not_terminal)
  show ?thesis
  proof (cases "Option.bind (js_get ops c ''choices'') (js_as_array ops)")
    case (Some cs)
    with assms None obtain es where
      "translate_choices ops c (note_model ops t c) cs = (Some es, t')" "events_of r = us @ es"
      by (auto simp: translate_def us_def Let_def split: if_split_asm option.split_asm prod.split_asm)
    with translate_choices_emits [of ops c "note_model ops t c" cs es t'] us us' show ?thesis
      by (auto simp: step_emits_def ends_call_append split: if_split_asm)
  qed (use assms None us us' in \<open>auto simp: translate_def us_def step_emits_def Let_def split: if_split_asm\<close>)
next
  case (Some e)
  with assms show ?thesis
    by (auto simp: translate_def step_emits_def Let_def dest!: terminal_emits split: if_split_asm)
qed

lemma run_translator_emits:
  "run_translator ops t cs = (es, t') \<Longrightarrow>
     (if kt_terminal_emitted t then list_all is_usage es
      else list_all (\<lambda>k. \<not> kind_is_terminal k) es \<or> (\<exists>as bs. es = as @ bs \<and> ends_call as \<and> list_all is_usage bs))"
proof (induction cs arbitrary: t es)
  case (Cons c cs)
  obtain r t1 where r: "translate ops t (Some c) = (r, t1)" by fastforce
  show ?case
  proof (cases "r = Malformed")
    case True
    with Cons.prems r show ?thesis by (auto split: prod.split_asm)
  next
    case False
    with Cons.prems r obtain bs where bs: "run_translator ops t1 cs = (bs, t')" "es = events_of r @ bs"
      by (cases r) (auto split: prod.split_asm)
    with Cons.IH [OF bs(1)] translate_emits [OF r False] show ?thesis
      by (auto simp: step_emits_def split: if_split_asm) (metis append.assoc ends_call_append)+
  qed
qed simp

section \<open>Tool calls as the provider documents them\<close>

text \<open>
  The protocol of tool-call fragments: the first fragment of an index names the tool and fixes the
  call's identifier, different from every other; later ones repeat the index and do not change the
  identifier.
\<close>

definition fragment_call_id :: "Fragment \<Rightarrow> string" where
  "fragment_call_id f = (case fr_id f of Some i \<Rightarrow> i | None \<Rightarrow> ''tool-'' @ show_nat (unat (fr_index f)))"

fun protocol :: "(u64 \<rightharpoonup> string) \<Rightarrow> Fragment list \<Rightarrow> bool" where
  "protocol known [] = True"
| "protocol known (f # fs) =
     (case known (fr_index f) of
        None \<Rightarrow> fr_name f \<noteq> None \<and> fr_name f \<noteq> Some [] \<and> fragment_call_id f \<notin> ran known \<and>
                protocol (known(fr_index f \<mapsto> fragment_call_id f)) fs
      | Some c \<Rightarrow> (fr_id f = None \<or> fr_id f = Some c) \<and> fr_name f \<noteq> Some [] \<and> protocol known fs)"

definition choice_fragments :: "'j JsonOps \<Rightarrow> 'j \<Rightarrow> Fragment list" where
  "choice_fragments ops choice =
     (case opt_filter (js_is_object ops) (js_get ops choice ''delta'') of
        Some delta \<Rightarrow> delta_fragments ops delta | None \<Rightarrow> [])"

definition chunk_fragments :: "'j JsonOps \<Rightarrow> 'j \<Rightarrow> Fragment list" where
  "chunk_fragments ops chunk =
     (case Option.bind (js_get ops chunk ''choices'') (js_as_array ops) of
        Some choices \<Rightarrow> concat (map (choice_fragments ops) choices) | None \<Rightarrow> [])"

definition known_calls :: "ChunkTranslator \<Rightarrow> u64 \<rightharpoonup> string" where
  "known_calls t = (\<lambda>i. map_option ac_call_id (map_of (kt_tool_calls t) i))"

text \<open>The consumer's view of the calls: it applies every event, in order.\<close>

fun apply_all :: "ModelStreamState \<Rightarrow> ModelStreamEventKind list \<Rightarrow> ModelStreamState option" where
  "apply_all st [] = Some st"
| "apply_all st (k # ks) = (case stream_apply k st of (Ok _, st) \<Rightarrow> apply_all st ks | (Err _, _) \<Rightarrow> None)"

lemma apply_all_append: "apply_all st (as @ bs) = Option.bind (apply_all st as) (\<lambda>st. apply_all st bs)"
  by (induction as arbitrary: st) (auto split: prod.split sum.split)

text \<open>The consumer has exactly the translator's calls open, with the arguments it has gathered.\<close>

definition linked :: "ChunkTranslator \<Rightarrow> ModelStreamState \<Rightarrow> bool" where
  "linked t st \<longleftrightarrow>
     distinct (map fst (kt_tool_calls t)) \<and>
     (\<forall>i e. map_of (kt_tool_calls t) i = Some e \<longrightarrow> ac_announced e \<and> ac_name e \<noteq> [] \<and>
        map_of (ss_open_tool_calls st) (ac_call_id e) \<noteq> None \<and>
        map_of (ss_assembled_arguments st) (ac_call_id e) = Some (ac_arguments e)) \<and>
     (\<forall>c. map_of (ss_open_tool_calls st) c \<noteq> None \<longrightarrow> c \<in> ran (known_calls t)) \<and>
     inj_on (known_calls t) (dom (known_calls t))"

lemma apply_fragment_known:
  assumes "known_calls t (fr_index f) = None" and "fr_name f = Some n" and "n \<noteq> []"
  shows "apply_fragment t f =
    (ToolCallAdded (fragment_call_id f) (canonical_name (kt_tool_names t) n) #
       (case fr_arguments f of Some a \<Rightarrow> [ToolCallArgumentsDelta (fragment_call_id f) a] | None \<Rightarrow> []),
     t\<lparr>kt_tool_calls := AList.update (fr_index f)
         \<lparr>ac_call_id = fragment_call_id f, ac_name = n,
          ac_arguments = (case fr_arguments f of Some a \<Rightarrow> a | None \<Rightarrow> []), ac_announced = True\<rparr> (kt_tool_calls t)\<rparr>)"
  using assms by (simp add: apply_fragment_def known_calls_def fragment_call_id_def Let_def split: option.split)

lemma apply_fragment_later:
  assumes "map_of (kt_tool_calls t) (fr_index f) = Some e" and "ac_announced e" and "ac_name e \<noteq> []"
    and "fr_id f = None \<or> fr_id f = Some (ac_call_id e)" and "fr_name f \<noteq> Some []"
  shows "\<exists>n. n \<noteq> [] \<and> apply_fragment t f =
    ((case fr_arguments f of Some a \<Rightarrow> [ToolCallArgumentsDelta (ac_call_id e) a] | None \<Rightarrow> []),
     t\<lparr>kt_tool_calls := AList.update (fr_index f)
         (e\<lparr>ac_name := n, ac_arguments := ac_arguments e @ (case fr_arguments f of Some a \<Rightarrow> a | None \<Rightarrow> [])\<rparr>)
         (kt_tool_calls t)\<rparr>)"
  using assms
  by (cases e) (auto simp: apply_fragment_def Let_def split: option.split intro: exI [of _ "ac_name e"])

lemma inj_on_known_update:
  assumes "inj_on m (dom m)" and "m i = None" and "c \<notin> ran m"
  shows "inj_on (m(i \<mapsto> c)) (dom (m(i \<mapsto> c)))"
  using assms by (auto simp: inj_on_def ran_def dom_def split: if_split_asm)

lemma linked_new_call:
  assumes l: "linked t st" and new: "known_calls t i = None" and c: "c \<notin> ran (known_calls t)" and "n \<noteq> []"
  shows "linked (t\<lparr>kt_tool_calls := AList.update i \<lparr>ac_call_id = c, ac_name = n, ac_arguments = a, ac_announced = True\<rparr>
      (kt_tool_calls t)\<rparr>)
    (st\<lparr>ss_assembled_arguments := AList.update c a (ss_assembled_arguments st),
        ss_open_tool_calls := AList.update c m (ss_open_tool_calls st)\<rparr>)"
    (is "linked ?t ?st")
proof -
  have known: "known_calls ?t = (known_calls t)(i \<mapsto> c)" by (auto simp: known_calls_def update_conv')
  have other: "ac_call_id e \<noteq> c" if "map_of (kt_tool_calls t) j = Some e" for j e
    using c that by (auto simp: known_calls_def ran_def)
  have "map_of (kt_tool_calls t) i = None" using new by (simp add: known_calls_def)
  moreover have "c' \<in> ran (known_calls ?t)" if "map_of (ss_open_tool_calls ?st) c' \<noteq> None" for c'
    using l that new unfolding known by (auto simp: linked_def update_conv' ran_map_upd split: if_split_asm)
  moreover have "inj_on (known_calls ?t) (dom (known_calls ?t))"
    unfolding known using l new c by (intro inj_on_known_update) (simp_all add: linked_def)
  ultimately show ?thesis
    using l other assms(4) by (auto simp: linked_def update_conv' distinct_update)
qed

lemma linked_delta:
  assumes l: "linked t st" and e: "map_of (kt_tool_calls t) i = Some e" and "n \<noteq> []"
  shows "linked (t\<lparr>kt_tool_calls := AList.update i (e\<lparr>ac_name := n, ac_arguments := ac_arguments e @ a\<rparr>) (kt_tool_calls t)\<rparr>)
    (st\<lparr>ss_assembled_arguments := AList.update (ac_call_id e) (ac_arguments e @ a) (ss_assembled_arguments st)\<rparr>)"
    (is "linked ?t ?st")
proof -
  have known: "known_calls ?t = known_calls t" using e by (auto simp: known_calls_def update_conv')
  have other: "ac_call_id e' \<noteq> ac_call_id e" if "map_of (kt_tool_calls t) j = Some e'" "j \<noteq> i" for j e'
  proof
    assume eq: "ac_call_id e' = ac_call_id e"
    have "inj_on (known_calls t) (dom (known_calls t))" using l by (simp add: linked_def)
    moreover have "known_calls t j = known_calls t i" "j \<in> dom (known_calls t)" "i \<in> dom (known_calls t)"
      using that(1) e eq by (simp_all add: known_calls_def dom_def)
    ultimately show False using that(2) by (meson inj_onD)
  qed
  show ?thesis
    unfolding linked_def known using l e other assms(3)
    by (auto simp: linked_def update_conv' distinct_update)
qed

lemma apply_fragment_admitted:
  assumes l: "linked t st" and p: "protocol (known_calls t) (f # fs)" and run: "apply_fragment t f = (es, t')"
  shows "\<exists>st'. apply_all st es = Some st' \<and> linked t' st' \<and> protocol (known_calls t') fs"
proof (cases "map_of (kt_tool_calls t) (fr_index f)")
  case None
  then have new: "known_calls t (fr_index f) = None" by (simp add: known_calls_def)
  with p obtain n where n: "fr_name f = Some n" "n \<noteq> []" and c: "fragment_call_id f \<notin> ran (known_calls t)"
    and rest: "protocol ((known_calls t)(fr_index f \<mapsto> fragment_call_id f)) fs" by auto
  let ?a = "case fr_arguments f of Some a \<Rightarrow> a | None \<Rightarrow> []" and ?c = "fragment_call_id f"
  let ?m = "canonical_name (kt_tool_names t) n"
  note r = apply_fragment_known [OF new n, symmetric, unfolded run]
  have "known_calls t' = (known_calls t)(fr_index f \<mapsto> ?c)" using r by (auto simp: known_calls_def update_conv')
  moreover have "apply_all st es = Some (st\<lparr>ss_assembled_arguments := AList.update ?c ?a (ss_assembled_arguments st),
      ss_open_tool_calls := AList.update ?c ?m (ss_open_tool_calls st)\<rparr>)"
    using r by (auto simp: stream_apply_def update_conv' split: option.split)
  ultimately show ?thesis
    using linked_new_call [OF l new c n(2), of ?a ?m] r rest by simp
next
  case (Some e)
  then have known: "known_calls t (fr_index f) = Some (ac_call_id e)" by (simp add: known_calls_def)
  with p have id: "fr_id f = None \<or> fr_id f = Some (ac_call_id e)" "fr_name f \<noteq> Some []" and rest: "protocol (known_calls t) fs"
    by auto
  have e: "ac_announced e" "ac_name e \<noteq> []" "map_of (ss_assembled_arguments st) (ac_call_id e) = Some (ac_arguments e)"
    using l Some by (auto simp: linked_def)
  let ?a = "case fr_arguments f of Some a \<Rightarrow> a | None \<Rightarrow> []"
  from apply_fragment_later [OF Some e(1,2) id] run obtain n where n: "n \<noteq> []"
    and es: "es = (case fr_arguments f of Some a \<Rightarrow> [ToolCallArgumentsDelta (ac_call_id e) a] | None \<Rightarrow> [])"
    and t': "t' = t\<lparr>kt_tool_calls := AList.update (fr_index f) (e\<lparr>ac_name := n, ac_arguments := ac_arguments e @ ?a\<rparr>)
        (kt_tool_calls t)\<rparr>" by auto
  have k: "known_calls t' = known_calls t" using Some t' by (auto simp: known_calls_def update_conv')
  show ?thesis
  proof (cases "fr_arguments f")
    case None
    have "linked t' st"
      using linked_delta [OF l Some n, of "[]"] None t' e(3) l
      by (auto simp: linked_def update_conv' k)
    with None es k rest show ?thesis by simp
  next
    case (Some a)
    with es e(3) have "apply_all st es =
        Some (st\<lparr>ss_assembled_arguments := AList.update (ac_call_id e) (ac_arguments e @ a) (ss_assembled_arguments st)\<rparr>)"
      by (simp add: stream_apply_def)
    with linked_delta [OF l \<open>map_of (kt_tool_calls t) (fr_index f) = Some e\<close> n, of a] Some t' k rest show ?thesis by simp
  qed
qed

lemma apply_fragments_admitted:
  "linked t st \<Longrightarrow> protocol (known_calls t) (fs @ later) \<Longrightarrow> apply_fragments t fs = (es, t') \<Longrightarrow>
     \<exists>st'. apply_all st es = Some st' \<and> linked t' st' \<and> protocol (known_calls t') later"
proof (induction fs arbitrary: t st es)
  case (Cons f fs)
  obtain a t1 b where 1: "apply_fragment t f = (a, t1)" "apply_fragments t1 fs = (b, t')" "es = a @ b"
    using Cons.prems(3) by (auto simp: Let_def split: prod.split_asm)
  have "protocol (known_calls t) (f # (fs @ later))" using Cons.prems(2) by simp
  from apply_fragment_admitted [OF Cons.prems(1) this 1(1)] obtain st1 where
    "apply_all st a = Some st1" "linked t1 st1" "protocol (known_calls t1) (fs @ later)" by blast
  with Cons.IH [OF _ _ 1(2)] 1(3) show ?case by (fastforce simp: apply_all_append)
qed simp

text \<open>Events that do not concern tool calls.\<close>

definition neutral :: "ModelStreamEventKind \<Rightarrow> bool" where
  "neutral k = (case k of OutputItemAdded _ \<Rightarrow> True | OutputTextDelta _ _ \<Rightarrow> True | OutputItemCompleted _ \<Rightarrow> True
     | UsageUpdated _ \<Rightarrow> True | CallCompleted _ _ _ \<Rightarrow> True | _ \<Rightarrow> False)"

lemma apply_all_neutral: "list_all neutral ks \<Longrightarrow> apply_all st ks = Some st"
  by (induction ks) (auto simp: neutral_def stream_apply_def split: ModelStreamEventKind.split_asm)

lemma linked_cong: "kt_tool_calls t' = kt_tool_calls t \<Longrightarrow> linked t' st = linked t st \<and> known_calls t' = known_calls t"
  by (simp add: linked_def known_calls_def)

lemma push_delta_neutral:
  "push_delta t x = (es, t') \<Longrightarrow> list_all neutral es \<and> kt_tool_calls t' = kt_tool_calls t"
  by (auto simp: push_delta_def neutral_def Let_def split: option.split_asm if_split_asm)

lemma translate_delta_admitted:
  assumes l: "linked t st" and p: "protocol (known_calls t) (delta_fragments ops d @ later)"
    and live: "\<not> kt_terminal_emitted t" and run: "translate_delta ops t d = (es, t')"
  shows "\<exists>st'. apply_all st es = Some st' \<and> linked t' st' \<and> protocol (known_calls t') later"
proof -
  obtain a t1 where a: "push_tool_calls ops t d = (a, t1)" by fastforce
  then have "apply_fragments t (delta_fragments ops d) = (a, t1)"
    using live by (auto simp: push_tool_calls_def delta_fragments_def split: option.split_asm)
  from apply_fragments_admitted [OF l p this] obtain st1 where
    1: "apply_all st a = Some st1" "linked t1 st1" "protocol (known_calls t1) later" by blast
  have "\<exists>b. es = a @ b \<and> list_all neutral b \<and> kt_tool_calls t' = kt_tool_calls t1"
    using run a
    by (auto simp: translate_delta_def Let_def dest!: push_delta_neutral split: option.split_asm if_split_asm prod.split_asm)
  then obtain b where "es = a @ b" "list_all neutral b" "kt_tool_calls t' = kt_tool_calls t1" by blast
  with 1 linked_cong [of t' t1 st1] show ?thesis by (auto simp: apply_all_append apply_all_neutral)
qed

lemma apply_completions:
  "distinct (map ac_call_id calls) \<Longrightarrow>
     list_all (\<lambda>e. map_of (ss_open_tool_calls st) (ac_call_id e) \<noteq> None \<and>
       map_of (ss_assembled_arguments st) (ac_call_id e) = Some (ac_arguments e)) calls \<Longrightarrow>
     \<exists>st'. apply_all st (map (\<lambda>e. ToolCallCompleted (ac_call_id e) (ac_arguments e)) calls) = Some st' \<and>
       (\<forall>c. map_of (ss_open_tool_calls st') c =
          (if c \<in> ac_call_id ` set calls then None else map_of (ss_open_tool_calls st) c))"
proof (induction calls arbitrary: st)
  case (Cons e calls)
  define st1 where "st1 = st\<lparr>ss_open_tool_calls := AList.delete (ac_call_id e) (ss_open_tool_calls st),
      ss_assembled_arguments := AList.delete (ac_call_id e) (ss_assembled_arguments st)\<rparr>"
  have step: "stream_apply (ToolCallCompleted (ac_call_id e) (ac_arguments e)) st = (Ok (), st1)"
    using Cons.prems(2) by (auto simp: stream_apply_def st1_def Let_def)
  have "list_all (\<lambda>x. map_of (ss_open_tool_calls st1) (ac_call_id x) \<noteq> None \<and>
      map_of (ss_assembled_arguments st1) (ac_call_id x) = Some (ac_arguments x)) calls"
    using Cons.prems by (auto simp: list_all_iff st1_def delete_conv') (metis image_eqI)+
  with Cons.IH [of st1] Cons.prems(1) obtain st' where
    "apply_all st1 (map (\<lambda>e. ToolCallCompleted (ac_call_id e) (ac_arguments e)) calls) = Some st'"
    "\<forall>c. map_of (ss_open_tool_calls st') c =
      (if c \<in> ac_call_id ` set calls then None else map_of (ss_open_tool_calls st1) c)" by auto
  with step show ?case by (auto simp: st1_def delete_conv')
qed simp

lemma completions_admitted:
  assumes l: "linked t st"
  shows "\<exists>st'. apply_all st (completions t) = Some st' \<and> ss_open_tool_calls st' = []"
proof -
  define calls where "calls = map snd (sort_key fst (kt_tool_calls t))"
  have dist: "distinct (map fst (kt_tool_calls t))" using l by (simp add: linked_def)
  have set: "set (sort_key fst (kt_tool_calls t)) = set (kt_tool_calls t)" by simp
  have lookup: "map_of (kt_tool_calls t) i = Some e" if "(i, e) \<in> set (kt_tool_calls t)" for i e
    using that dist by simp
  have all: "ac_announced e \<and> map_of (ss_open_tool_calls st) (ac_call_id e) \<noteq> None \<and>
      map_of (ss_assembled_arguments st) (ac_call_id e) = Some (ac_arguments e)" if "e \<in> set calls" for e
    using that l lookup by (auto simp: calls_def linked_def)
  have "distinct (map ac_call_id calls)"
  proof -
    have "distinct (sort_key fst (kt_tool_calls t))" using dist by (simp add: distinct_map)
    moreover have "inj_on (\<lambda>x. ac_call_id (snd x)) (set (kt_tool_calls t))"
    proof (rule inj_onI, clarsimp)
      fix i e j f assume *: "(i, e) \<in> set (kt_tool_calls t)" "(j, f) \<in> set (kt_tool_calls t)" "ac_call_id e = ac_call_id f"
      then have "known_calls t i = known_calls t j" "i \<in> dom (known_calls t)" "j \<in> dom (known_calls t)"
        using lookup by (auto simp: known_calls_def dom_def)
      moreover have "inj_on (known_calls t) (dom (known_calls t))" using l by (simp add: linked_def)
      ultimately have "i = j" by (meson inj_onD)
      with * lookup show "i = j \<and> e = f" by (metis option.inject)
    qed
    ultimately show ?thesis by (simp add: calls_def distinct_map comp_def)
  qed
  moreover have "filter ac_announced calls = calls" using all by (simp add: filter_id_conv)
  moreover have "list_all (\<lambda>e. map_of (ss_open_tool_calls st) (ac_call_id e) \<noteq> None \<and>
      map_of (ss_assembled_arguments st) (ac_call_id e) = Some (ac_arguments e)) calls"
    using all by (simp add: list_all_iff)
  ultimately obtain st' where st': "apply_all st (completions t) = Some st'"
    and gone: "\<forall>c. map_of (ss_open_tool_calls st') c =
        (if c \<in> ac_call_id ` set calls then None else map_of (ss_open_tool_calls st) c)"
    using apply_completions [of calls st] by (auto simp: completions_def calls_def)
  have "map_of (ss_open_tool_calls st') c = None" for c
  proof (cases "map_of (ss_open_tool_calls st) c")
    case None
    then show ?thesis using gone by simp
  next
    case (Some n)
    then have "map_of (ss_open_tool_calls st) c \<noteq> None" by simp
    with l have "c \<in> ran (known_calls t)" unfolding linked_def by blast
    then obtain i e where "map_of (kt_tool_calls t) i = Some e" "c = ac_call_id e"
      by (auto simp: ran_def known_calls_def)
    then have "c \<in> ac_call_id ` set calls" by (force simp: calls_def dest: map_of_SomeD)
    then show ?thesis using gone by simp
  qed
  then have "ss_open_tool_calls st' = []" by (cases "ss_open_tool_calls st'") (auto split: if_split_asm, metis option.distinct(1))
  with st' show ?thesis by blast
qed

text \<open>What a consumer makes of a step: it applies all events, and after the terminal no call is open.\<close>

definition step_admitted ::
  "ChunkTranslator \<Rightarrow> ModelStreamState \<Rightarrow> ModelStreamEventKind list \<Rightarrow> Fragment list \<Rightarrow> bool"
where
  "step_admitted t' st es later \<longleftrightarrow>
     (\<exists>st'. apply_all st es = Some st' \<and>
        (if kt_terminal_emitted t' then ss_open_tool_calls st' = []
         else linked t' st' \<and> protocol (known_calls t') later))"

lemma step_admitted_prepend:
  assumes "apply_all st as = Some st1" and "step_admitted t' st1 es later"
  shows "step_admitted t' st (as @ es) later"
  using assms by (auto simp: step_admitted_def apply_all_append)

lemma terminal_admitted:
  assumes "linked t st" and "\<not> kt_terminal_emitted t" and "translator_terminal t r u b = (x, t')"
  shows "step_admitted t' st (events_of x) later"
proof -
  obtain st' where st': "apply_all st (completions t) = Some st'" "ss_open_tool_calls st' = []"
    using completions_admitted [OF assms(1)] by blast
  have "completions (t\<lparr>kt_terminal_emitted := True\<rparr>) = completions t" by (simp add: completions_def)
  with assms(2,3) st' show ?thesis
    by (auto simp: translator_terminal_def step_admitted_def apply_all_append stream_apply_def Let_def
        split: option.split)
qed

lemma translate_choices_admitted:
  "linked t st \<Longrightarrow> \<not> kt_terminal_emitted t \<Longrightarrow>
     protocol (known_calls t) (concat (map (choice_fragments ops) cs) @ later) \<Longrightarrow>
     translate_choices ops c t cs = (Some es, t') \<Longrightarrow> step_admitted t' st es later"
proof (induction cs arbitrary: t st es)
  case Nil
  then show ?case by (simp add: step_admitted_def)
next
  case (Cons ch rest)
  obtain a t1 where a: "(case opt_filter (js_is_object ops) (js_get ops ch ''delta'') of
      Some delta \<Rightarrow> translate_delta ops t delta | None \<Rightarrow> ([], t)) = (a, t1)" by fastforce
  let ?later = "concat (map (choice_fragments ops) rest) @ later"
  have live: "\<not> kt_terminal_emitted t1"
    using a Cons.prems(2) by (auto dest!: translate_delta_emits split: option.split_asm)
  obtain st1 where st1: "apply_all st a = Some st1" "linked t1 st1" "protocol (known_calls t1) ?later"
  proof (cases "opt_filter (js_is_object ops) (js_get ops ch ''delta'')")
    case None
    with a Cons.prems(1,3) that show thesis by (auto simp: choice_fragments_def [of ops ch])
  next
    case (Some d)
    with Cons.prems(3) have "protocol (known_calls t) (delta_fragments ops d @ ?later)"
      by (simp add: choice_fragments_def [of ops ch])
    from translate_delta_admitted [OF Cons.prems(1) this Cons.prems(2)] Some a that show thesis by auto
  qed
  show ?case
  proof (cases "opt_filter (\<lambda>r. \<not> js_is_null ops r) (js_get ops ch ''finish_reason'')")
    case None
    with Cons.prems(4) a obtain b where b: "translate_choices ops c t1 rest = (Some b, t')" "es = a @ b"
      by (auto split: if_split_asm option.split_asm prod.split_asm)
    from Cons.IH [OF st1(2) live st1(3) b(1)] st1(1) b(2) show ?thesis by (simp add: step_admitted_prepend)
  next
    case (Some r)
    obtain x t2 where x: "translator_terminal t1 (finish_reason_for ops r) (chunk_usage ops c) (kt_refused t1) = (x, t2)"
      by fastforce
    with Cons.prems(4) a Some have "es = a @ events_of x" "t' = t2"
      by (auto split: if_split_asm Translated.split_asm)
    with terminal_admitted [OF st1(2) live x] st1(1) show ?thesis by (simp add: step_admitted_prepend)
  qed
qed

lemma translate_admitted:
  assumes l: "linked t st" and live: "\<not> kt_terminal_emitted t"
    and p: "protocol (known_calls t) (chunk_fragments ops c @ later)"
    and run: "translate ops t (Some c) = (r, t')" and ok: "r \<noteq> Malformed"
  shows "step_admitted t' st (events_of r) later"
proof -
  let ?t = "note_model ops t c"
  have l': "linked ?t st" "known_calls ?t = known_calls t" "\<not> kt_terminal_emitted ?t"
    using l live linked_cong [of ?t t st] by simp_all
  define us where "us = (case chunk_usage ops c of Some u \<Rightarrow> [UsageUpdated u] | None \<Rightarrow> [])"
  have us: "apply_all st us = Some st" by (rule apply_all_neutral) (simp add: us_def neutral_def split: option.split)
  show ?thesis
  proof (cases "js_get ops c ''error''")
    case (Some e)
    with run ok have "translator_terminal ?t (finish_reason_from_error e) None False = (r, t')"
      by (auto simp: translate_def Let_def split: if_split_asm)
    from terminal_admitted [OF l'(1,3) this] show ?thesis .
  next
    case None
    show ?thesis
    proof (cases "Option.bind (js_get ops c ''choices'') (js_as_array ops)")
      case (Some cs)
      with run ok None obtain es where
        es: "translate_choices ops c ?t cs = (Some es, t')" "events_of r = us @ es"
        by (auto simp: translate_def us_def Let_def split: if_split_asm option.split_asm prod.split_asm)
      have "step_admitted t' st es later"
        using translate_choices_admitted [OF l'(1,3) _ es(1)] p Some l'(2) by (simp add: chunk_fragments_def)
      with us es(2) show ?thesis by (simp add: step_admitted_prepend)
    next
      case none: None
      with run ok None have "events_of r = us" "t' = ?t"
        by (auto simp: translate_def us_def Let_def split: if_split_asm)
      with us l' p none show ?thesis by (auto simp: step_admitted_def chunk_fragments_def)
    qed
  qed
qed

lemma run_translator_admitted:
  "linked t st \<Longrightarrow> \<not> kt_terminal_emitted t \<Longrightarrow>
     protocol (known_calls t) (concat (map (chunk_fragments ops) cs)) \<Longrightarrow> run_translator ops t cs = (es, t') \<Longrightarrow>
     \<exists>as bs st'. es = as @ bs \<and> list_all is_usage bs \<and> apply_all st as = Some st' \<and>
       (bs = [] \<and> list_all (\<lambda>k. \<not> kind_is_terminal k) as \<or> ends_call as \<and> ss_open_tool_calls st' = [])"
proof (induction cs arbitrary: t st es)
  case (Cons c cs)
  obtain r t1 where r: "translate ops t (Some c) = (r, t1)" by fastforce
  show ?case
  proof (cases "r = Malformed")
    case True
    with Cons.prems(4) r show ?thesis by (intro exI [of _ "[]"]) auto
  next
    case False
    with Cons.prems(4) r obtain bs where bs: "run_translator ops t1 cs = (bs, t')" "es = events_of r @ bs"
      by (cases r) (auto split: prod.split_asm)
    have p: "protocol (known_calls t) (chunk_fragments ops c @ concat (map (chunk_fragments ops) cs))"
      using Cons.prems(3) by simp
    note adm = translate_admitted [OF Cons.prems(1,2) p r False]
    note emits = translate_emits [OF r False]
    show ?thesis
    proof (cases "kt_terminal_emitted t1")
      case True
      with adm obtain st' where "apply_all st (events_of r) = Some st'" "ss_open_tool_calls st' = []"
        by (auto simp: step_admitted_def)
      moreover have "ends_call (events_of r)" using emits True Cons.prems(2) by (simp add: step_emits_def)
      moreover have "list_all is_usage bs" using run_translator_emits [OF bs(1)] True by simp
      ultimately show ?thesis using bs(2) by blast
    next
      case live: False
      with adm obtain st1 where st1: "apply_all st (events_of r) = Some st1" "linked t1 st1"
        "protocol (known_calls t1) (concat (map (chunk_fragments ops) cs))" by (auto simp: step_admitted_def)
      from Cons.IH [OF st1(2) live st1(3) bs(1)] obtain as us st' where
        ind: "bs = as @ us" "list_all is_usage us" "apply_all st1 as = Some st'"
          "us = [] \<and> list_all (\<lambda>k. \<not> kind_is_terminal k) as \<or> ends_call as \<and> ss_open_tool_calls st' = []" by blast
      have "list_all (\<lambda>k. \<not> kind_is_terminal k) (events_of r)"
        using emits live Cons.prems(2) by (simp add: step_emits_def)
      with ind bs(2) st1(1) show ?thesis
        by (intro exI [of _ "events_of r @ as"] exI [of _ us] exI [of _ st']) (auto simp: apply_all_append ends_call_append)
    qed
  qed
qed simp

section \<open>The tool calls a stream comes to\<close>

text \<open>
  What a provider streamed, read off the documents alone: the entries of the tool-call lists with their positions, up to
  the choice that finishes or the chunk that reports an error; per index the identifier of the first entry and the
  arguments of all of them, one after the other.
\<close>

definition delta_calls :: "'j JsonOps \<Rightarrow> 'j \<Rightarrow> (nat \<times> 'j) list" where
  "delta_calls ops delta =
     (case Option.bind (js_get ops delta ''tool_calls'') (js_as_array ops) of None \<Rightarrow> [] | Some calls \<Rightarrow> enumerate 0 calls)"

definition choice_calls :: "'j JsonOps \<Rightarrow> 'j \<Rightarrow> (nat \<times> 'j) list" where
  "choice_calls ops choice =
     (case opt_filter (js_is_object ops) (js_get ops choice ''delta'') of Some delta \<Rightarrow> delta_calls ops delta | None \<Rightarrow> [])"

definition finishes :: "'j JsonOps \<Rightarrow> 'j \<Rightarrow> bool" where
  "finishes ops choice \<longleftrightarrow> opt_filter (\<lambda>r. \<not> js_is_null ops r) (js_get ops choice ''finish_reason'') \<noteq> None"

fun choices_calls :: "'j JsonOps \<Rightarrow> 'j list \<Rightarrow> (nat \<times> 'j) list" where
  "choices_calls ops [] = []"
| "choices_calls ops (choice # rest) =
     choice_calls ops choice @ (if finishes ops choice then [] else choices_calls ops rest)"

definition chunk_choices :: "'j JsonOps \<Rightarrow> 'j \<Rightarrow> 'j list" where
  "chunk_choices ops chunk =
     (if js_get ops chunk ''error'' \<noteq> None then []
      else case Option.bind (js_get ops chunk ''choices'') (js_as_array ops) of Some choices \<Rightarrow> choices | None \<Rightarrow> [])"

definition chunk_ends :: "'j JsonOps \<Rightarrow> 'j \<Rightarrow> bool" where
  "chunk_ends ops chunk \<longleftrightarrow> js_get ops chunk ''error'' \<noteq> None \<or> list_ex (finishes ops) (chunk_choices ops chunk)"

fun live_calls :: "'j JsonOps \<Rightarrow> 'j list \<Rightarrow> (nat \<times> 'j) list" where
  "live_calls ops [] = []"
| "live_calls ops (chunk # rest) =
     choices_calls ops (chunk_choices ops chunk) @ (if chunk_ends ops chunk then [] else live_calls ops rest)"

definition call_index :: "'j JsonOps \<Rightarrow> nat \<times> 'j \<Rightarrow> u64" where
  "call_index ops x =
     (case Option.bind (js_get ops (snd x) ''index'') (js_as_u64 ops) of Some i \<Rightarrow> i | None \<Rightarrow> of_nat (fst x))"

definition call_identifier :: "'j JsonOps \<Rightarrow> nat \<times> 'j \<Rightarrow> string" where
  "call_identifier ops x =
     (case js_get_str ops (snd x) ''id'' of
        Some i \<Rightarrow> if i = [] then ''tool-'' @ show_nat (unat (call_index ops x)) else i
      | None \<Rightarrow> ''tool-'' @ show_nat (unat (call_index ops x)))"

definition call_text :: "'j JsonOps \<Rightarrow> nat \<times> 'j \<Rightarrow> string" where
  "call_text ops x =
     (case Option.bind (js_get ops (snd x) ''function'') (\<lambda>f. js_get_str ops f ''arguments'') of Some a \<Rightarrow> a | None \<Rightarrow> [])"

definition streamed_calls :: "'j JsonOps \<Rightarrow> (nat \<times> 'j) list \<Rightarrow> (string \<times> string) list" where
  "streamed_calls ops xs =
     map (\<lambda>i. (call_identifier ops (hd (filter (\<lambda>x. call_index ops x = i) xs)),
               concat (map (call_text ops) (filter (\<lambda>x. call_index ops x = i) xs))))
       (sorted_list_of_set (set (map (call_index ops) xs)))"

text \<open>What a consumer is told is complete.\<close>

definition completed_calls :: "ModelStreamEventKind list \<Rightarrow> (string \<times> string) list" where
  "completed_calls ks = concat (map (\<lambda>k. case k of ToolCallCompleted c a \<Rightarrow> [(c, a)] | _ \<Rightarrow> []) ks)"

lemma completed_calls_simps [simp]:
  "completed_calls [] = []" "completed_calls (xs @ ys) = completed_calls xs @ completed_calls ys"
  "completed_calls (k # ks) = (case k of ToolCallCompleted c a \<Rightarrow> [(c, a)] | _ \<Rightarrow> []) @ completed_calls ks"
  by (simp_all add: completed_calls_def)

lemma completed_calls_none:
  "list_all is_body es \<Longrightarrow> completed_calls es = []" "list_all is_usage es \<Longrightarrow> completed_calls es = []"
  by (induction es) (auto simp: is_body_def is_usage_def split: ModelStreamEventKind.split_asm)

text \<open>The same on the fragments the translator reads.\<close>

definition fragment_text :: "Fragment \<Rightarrow> string" where
  "fragment_text f = (case fr_arguments f of Some a \<Rightarrow> a | None \<Rightarrow> [])"

definition indexed :: "Fragment list \<Rightarrow> u64 \<Rightarrow> Fragment list" where
  "indexed fs i = filter (\<lambda>f. fr_index f = i) fs"

definition fragment_call :: "Fragment list \<Rightarrow> u64 \<Rightarrow> string \<times> string" where
  "fragment_call fs i = (fragment_call_id (hd (indexed fs i)), concat (map fragment_text (indexed fs i)))"

lemma indexed_snoc [simp]: "indexed (fs @ [f]) i = indexed fs i @ (if fr_index f = i then [f] else [])"
  by (simp add: indexed_def)

lemma indexed_Nil: "indexed fs i = [] \<longleftrightarrow> i \<notin> fr_index ` set fs"
  by (auto simp: indexed_def filter_empty_conv)

abbreviation fragments_of :: "'j JsonOps \<Rightarrow> (nat \<times> 'j) list \<Rightarrow> Fragment list" where
  "fragments_of ops \<equiv> map (\<lambda>(i, c). fragment_of ops i c)"

lemma fragment_of_reads:
  "fr_index (case x of (i, c) \<Rightarrow> fragment_of ops i c) = call_index ops x"
  "fragment_call_id (case x of (i, c) \<Rightarrow> fragment_of ops i c) = call_identifier ops x"
  "fragment_text (case x of (i, c) \<Rightarrow> fragment_of ops i c) = call_text ops x"
  by (cases x; simp add: fragment_of_def call_index_def call_identifier_def call_text_def fragment_call_id_def fragment_text_def
      Let_def split: option.split)+

lemma streamed_fragments:
  "streamed_calls ops xs = map (fragment_call (fragments_of ops xs)) (sorted_list_of_set (fr_index ` set (fragments_of ops xs)))"
proof -
  have idx: "indexed (fragments_of ops xs) i = fragments_of ops (filter (\<lambda>x. call_index ops x = i) xs)" for i
    by (simp add: indexed_def filter_map comp_def fragment_of_reads)
  have set: "set (map (call_index ops) xs) = fr_index ` set (fragments_of ops xs)"
    by (simp add: image_image fragment_of_reads)
  have "filter (\<lambda>x. call_index ops x = i) xs \<noteq> []" if "i \<in> fr_index ` set (fragments_of ops xs)" for i
    using that unfolding set [symmetric] by (auto simp: filter_empty_conv)
  then show ?thesis
    unfolding streamed_calls_def set
    by (intro map_cong) (simp_all add: fragment_call_def idx hd_map fragment_of_reads comp_def)
qed

text \<open>The translator has gathered exactly the fragments so far.\<close>

definition gathered_at :: "Fragment list \<Rightarrow> u64 \<Rightarrow> AnnouncedToolCall option \<Rightarrow> bool" where
  "gathered_at fs i entry \<longleftrightarrow>
     (case entry of
        None \<Rightarrow> indexed fs i = []
      | Some e \<Rightarrow> indexed fs i \<noteq> [] \<and> ac_announced e \<and> ac_name e \<noteq> [] \<and> (ac_call_id e, ac_arguments e) = fragment_call fs i)"

definition gathered :: "ChunkTranslator \<Rightarrow> Fragment list \<Rightarrow> bool" where
  "gathered t fs \<longleftrightarrow>
     distinct (map fst (kt_tool_calls t)) \<and> (\<forall>i. gathered_at fs i (map_of (kt_tool_calls t) i))"

lemma gathered_at_other: "fr_index f \<noteq> i \<Longrightarrow> gathered_at (fs @ [f]) i e = gathered_at fs i e"
  by (simp add: gathered_at_def fragment_call_def split: option.split)

lemma gathered_update:
  assumes "gathered t fs" and "gathered_at (fs @ [f]) (fr_index f) (Some e)"
  shows "gathered (t\<lparr>kt_tool_calls := AList.update (fr_index f) e (kt_tool_calls t)\<rparr>) (fs @ [f])"
  using assms by (auto simp: gathered_def update_conv' distinct_update gathered_at_other)

lemma gathered_start: "gathered (chunk_translator_new names) []"
  by (simp add: gathered_def gathered_at_def chunk_translator_new_def indexed_def)

lemma gathered_cong: "kt_tool_calls t' = kt_tool_calls t \<Longrightarrow> gathered t' fs = gathered t fs \<and> known_calls t' = known_calls t"
  by (simp add: gathered_def known_calls_def)

lemma apply_fragment_gathered:
  assumes g: "gathered t fs" and p: "protocol (known_calls t) (f # later)" and run: "apply_fragment t f = (es, t')"
  shows "gathered t' (fs @ [f]) \<and> protocol (known_calls t') later"
proof (cases "map_of (kt_tool_calls t) (fr_index f)")
  case None
  then have new: "known_calls t (fr_index f) = None" and none: "indexed fs (fr_index f) = []"
    using g by (auto simp: known_calls_def gathered_def gathered_at_def dest: spec [of _ "fr_index f"])
  with p obtain n where n: "fr_name f = Some n" "n \<noteq> []"
    and rest: "protocol ((known_calls t)(fr_index f \<mapsto> fragment_call_id f)) later" by auto
  note r = apply_fragment_known [OF new n, symmetric, unfolded run]
  have "known_calls t' = (known_calls t)(fr_index f \<mapsto> fragment_call_id f)" using r by (auto simp: known_calls_def update_conv')
  moreover have "gathered t' (fs @ [f])"
    using r none n(2) gathered_update [OF g]
    by (auto simp: gathered_at_def fragment_call_def fragment_text_def split: option.split)
  ultimately show ?thesis using rest by simp
next
  case (Some e)
  then have known: "known_calls t (fr_index f) = Some (ac_call_id e)" by (simp add: known_calls_def)
  with p have id: "fr_id f = None \<or> fr_id f = Some (ac_call_id e)" "fr_name f \<noteq> Some []" and rest: "protocol (known_calls t) later"
    by auto
  have e: "ac_announced e" "ac_name e \<noteq> []" "indexed fs (fr_index f) \<noteq> []" "(ac_call_id e, ac_arguments e) = fragment_call fs (fr_index f)"
    using g Some by (auto simp: gathered_def gathered_at_def dest: spec [of _ "fr_index f"])
  from apply_fragment_later [OF Some e(1,2) id] run obtain n where n: "n \<noteq> []"
    and t': "t' = t\<lparr>kt_tool_calls := AList.update (fr_index f)
        (e\<lparr>ac_name := n, ac_arguments := ac_arguments e @ fragment_text f\<rparr>) (kt_tool_calls t)\<rparr>"
    by (auto simp: fragment_text_def)
  have "known_calls t' = known_calls t" using Some t' by (auto simp: known_calls_def update_conv')
  moreover have "gathered t' (fs @ [f])"
    unfolding t' using e n by (intro gathered_update [OF g]) (simp add: gathered_at_def fragment_call_def)
  ultimately show ?thesis using rest by simp
qed

lemma apply_fragments_gathered:
  "gathered t gs \<Longrightarrow> protocol (known_calls t) (fs @ later) \<Longrightarrow> apply_fragments t fs = (es, t') \<Longrightarrow>
     gathered t' (gs @ fs) \<and> protocol (known_calls t') later"
proof (induction fs arbitrary: t gs es)
  case (Cons f fs)
  obtain a t1 b where 1: "apply_fragment t f = (a, t1)" "apply_fragments t1 fs = (b, t')"
    using Cons.prems(3) by (auto simp: Let_def split: prod.split_asm)
  from apply_fragment_gathered [OF Cons.prems(1) _ 1(1), of "fs @ later"] Cons.prems(2)
  have "gathered t1 (gs @ [f])" "protocol (known_calls t1) (fs @ later)" by simp_all
  from Cons.IH [OF this 1(2)] show ?case by simp
qed simp

lemma delta_fragments_calls: "delta_fragments ops d = fragments_of ops (delta_calls ops d)"
  by (simp add: delta_fragments_def delta_calls_def split: option.split)

lemma choice_fragments_calls: "choice_fragments ops ch = fragments_of ops (choice_calls ops ch)"
  by (simp add: choice_fragments_def choice_calls_def delta_fragments_calls split: option.split)

lemma translate_delta_gathered:
  assumes g: "gathered t gs" and p: "protocol (known_calls t) (delta_fragments ops d @ later)"
    and live: "\<not> kt_terminal_emitted t" and run: "translate_delta ops t d = (es, t')"
  shows "gathered t' (gs @ delta_fragments ops d) \<and> protocol (known_calls t') later"
proof -
  obtain a t1 where a: "push_tool_calls ops t d = (a, t1)" by fastforce
  then have "apply_fragments t (delta_fragments ops d) = (a, t1)"
    using live by (auto simp: push_tool_calls_def delta_fragments_def split: option.split_asm)
  from apply_fragments_gathered [OF g p this]
  have 1: "gathered t1 (gs @ delta_fragments ops d)" "protocol (known_calls t1) later" by simp_all
  have "kt_tool_calls t' = kt_tool_calls t1"
    using run a
    by (auto simp: translate_delta_def Let_def dest!: push_delta_neutral split: option.split_asm if_split_asm prod.split_asm)
  with 1 gathered_cong show ?thesis by metis
qed

lemma completions_gathered:
  assumes "gathered t fs"
  shows "completed_calls (completions t) = map (fragment_call fs) (sorted_list_of_set (fr_index ` set fs))"
proof -
  let ?xs = "sort_key fst (kt_tool_calls t)"
  have dist: "distinct (map fst (kt_tool_calls t))" using assms by (simp add: gathered_def)
  have entry: "ac_announced e \<and> (ac_call_id e, ac_arguments e) = fragment_call fs i" if "(i, e) \<in> set ?xs" for i e
  proof -
    have "map_of (kt_tool_calls t) i = Some e" using that dist by simp
    with assms show ?thesis by (auto simp: gathered_def gathered_at_def dest: spec [of _ i])
  qed
  have keys: "fr_index ` set fs = set (map fst (kt_tool_calls t))"
  proof -
    have "i \<in> fr_index ` set fs \<longleftrightarrow> map_of (kt_tool_calls t) i \<noteq> None" for i
      using assms by (cases "map_of (kt_tool_calls t) i") (auto simp: gathered_def gathered_at_def indexed_Nil dest: spec [of _ i])
    then show ?thesis by (auto simp: map_of_eq_None_iff)
  qed
  have "sorted_list_of_set (fr_index ` set fs) = map fst ?xs"
    unfolding keys using dist by (intro sorted_distinct_set_unique) (simp_all add: distinct_map)
  moreover have "filter ac_announced (map snd ?xs) = map snd ?xs" using entry by (force simp: filter_id_conv)
  moreover have "completed_calls (map (\<lambda>c. ToolCallCompleted (ac_call_id c) (ac_arguments c)) (map snd xs)) =
      map (fragment_call fs) (map fst xs)" if "set xs \<subseteq> set ?xs" for xs
    using that entry by (induction xs) auto
  ultimately show ?thesis by (simp add: completions_def)
qed

text \<open>What a step leaves: the calls it completes are those of the fragments so far if it ended the stream, and else none.\<close>

definition step_gathered ::
  "ChunkTranslator \<Rightarrow> ModelStreamEventKind list \<Rightarrow> Fragment list \<Rightarrow> Fragment list \<Rightarrow> bool"
where
  "step_gathered t' es fs later \<longleftrightarrow>
     (if kt_terminal_emitted t' then completed_calls es = map (fragment_call fs) (sorted_list_of_set (fr_index ` set fs))
      else completed_calls es = [] \<and> gathered t' fs \<and> protocol (known_calls t') later)"

lemma step_gathered_prepend: "completed_calls as = [] \<Longrightarrow> step_gathered t' es fs later \<Longrightarrow> step_gathered t' (as @ es) fs later"
  by (simp add: step_gathered_def)

lemma terminal_gathered:
  assumes "gathered t fs" and "\<not> kt_terminal_emitted t" and "translator_terminal t r u b = (x, t')"
  shows "kt_terminal_emitted t' \<and> step_gathered t' (events_of x) fs later"
proof -
  have "completions (t\<lparr>kt_terminal_emitted := True\<rparr>) = completions t" by (simp add: completions_def)
  with assms(2,3) completions_gathered [OF assms(1)] show ?thesis
    by (auto simp: translator_terminal_def step_gathered_def Let_def split: option.split)
qed

lemma translate_choices_gathered:
  "gathered t gs \<Longrightarrow> \<not> kt_terminal_emitted t \<Longrightarrow>
     protocol (known_calls t) (concat (map (choice_fragments ops) cs) @ later) \<Longrightarrow>
     translate_choices ops c t cs = (Some es, t') \<Longrightarrow>
     (kt_terminal_emitted t' \<longleftrightarrow> list_ex (finishes ops) cs) \<and>
     step_gathered t' es (gs @ fragments_of ops (choices_calls ops cs)) later"
proof (induction cs arbitrary: t gs es)
  case Nil
  then show ?case by (simp add: step_gathered_def)
next
  case (Cons ch rest)
  obtain a t1 where a: "(case opt_filter (js_is_object ops) (js_get ops ch ''delta'') of
      Some delta \<Rightarrow> translate_delta ops t delta | None \<Rightarrow> ([], t)) = (a, t1)" by fastforce
  let ?later = "concat (map (choice_fragments ops) rest) @ later"
  have body: "\<not> kt_terminal_emitted t1" "completed_calls a = []"
    using a Cons.prems(2) by (auto dest!: translate_delta_emits simp: completed_calls_none split: option.split_asm)
  have 1: "gathered t1 (gs @ choice_fragments ops ch) \<and> protocol (known_calls t1) ?later"
  proof (cases "opt_filter (js_is_object ops) (js_get ops ch ''delta'')")
    case None
    with a Cons.prems(1,3) show ?thesis by (auto simp: choice_fragments_def [of ops ch])
  next
    case (Some d)
    with Cons.prems(3) have "protocol (known_calls t) (delta_fragments ops d @ ?later)"
      by (simp add: choice_fragments_def [of ops ch])
    from translate_delta_gathered [OF Cons.prems(1) this Cons.prems(2)] Some a show ?thesis
      by (auto simp: choice_fragments_def [of ops ch])
  qed
  show ?case
  proof (cases "opt_filter (\<lambda>r. \<not> js_is_null ops r) (js_get ops ch ''finish_reason'')")
    case None
    with Cons.prems(4) a obtain b where b: "translate_choices ops c t1 rest = (Some b, t')" "es = a @ b"
      by (auto split: if_split_asm option.split_asm prod.split_asm)
    have "\<not> finishes ops ch" using None by (simp add: finishes_def)
    with Cons.IH [OF _ body(1) _ b(1)] 1 b(2) body(2) show ?thesis
      by (fastforce simp: choice_fragments_calls [of ops ch] intro: step_gathered_prepend)
  next
    case (Some r)
    obtain x t2 where x: "translator_terminal t1 (finish_reason_for ops r) (chunk_usage ops c) (kt_refused t1) = (x, t2)"
      by fastforce
    with Cons.prems(4) a Some have "es = a @ events_of x" "t' = t2"
      by (auto split: if_split_asm Translated.split_asm)
    moreover have "finishes ops ch" using Some by (simp add: finishes_def)
    ultimately show ?thesis
      using terminal_gathered [OF _ body(1) x] 1 body(2)
      by (auto simp: choice_fragments_calls [of ops ch] intro: step_gathered_prepend)
  qed
qed

lemma translate_gathered:
  assumes g: "gathered t gs" and live: "\<not> kt_terminal_emitted t"
    and p: "protocol (known_calls t) (chunk_fragments ops c @ later)"
    and run: "translate ops t (Some c) = (r, t')" and ok: "r \<noteq> Malformed"
  shows "(kt_terminal_emitted t' \<longleftrightarrow> chunk_ends ops c) \<and>
    step_gathered t' (events_of r) (gs @ fragments_of ops (choices_calls ops (chunk_choices ops c))) later"
proof -
  let ?t = "note_model ops t c"
  have g': "gathered ?t gs" "known_calls ?t = known_calls t" "\<not> kt_terminal_emitted ?t"
    using g live gathered_cong [of ?t t gs] by simp_all
  define us where "us = (case chunk_usage ops c of Some u \<Rightarrow> [UsageUpdated u] | None \<Rightarrow> [])"
  have us: "completed_calls us = []" by (simp add: us_def split: option.split)
  show ?thesis
  proof (cases "js_get ops c ''error''")
    case (Some e)
    with run ok have "translator_terminal ?t (finish_reason_from_error e) None False = (r, t')"
      by (auto simp: translate_def Let_def split: if_split_asm)
    from terminal_gathered [OF g'(1,3) this] Some show ?thesis by (simp add: chunk_ends_def chunk_choices_def)
  next
    case None
    show ?thesis
    proof (cases "Option.bind (js_get ops c ''choices'') (js_as_array ops)")
      case (Some cs)
      with run ok None obtain es where
        es: "translate_choices ops c ?t cs = (Some es, t')" "events_of r = us @ es"
        by (auto simp: translate_def us_def Let_def split: if_split_asm option.split_asm prod.split_asm)
      from translate_choices_gathered [OF g'(1,3) _ es(1), of later] p Some None g'(2) us es(2) show ?thesis
        by (auto simp: chunk_fragments_def chunk_ends_def chunk_choices_def intro: step_gathered_prepend)
    next
      case none: None
      with run ok None have "events_of r = us" "t' = ?t"
        by (auto simp: translate_def us_def Let_def split: if_split_asm)
      with us g' p none None show ?thesis
        by (auto simp: step_gathered_def chunk_fragments_def chunk_ends_def chunk_choices_def)
    qed
  qed
qed

text \<open>Over a whole response that ends: the calls completed are the calls streamed.\<close>

lemma run_translator_gathered:
  "gathered t gs \<Longrightarrow> \<not> kt_terminal_emitted t \<Longrightarrow>
     protocol (known_calls t) (concat (map (chunk_fragments ops) cs)) \<Longrightarrow> run_translator ops t cs = (es, t') \<Longrightarrow>
     list_ex kind_is_terminal es \<Longrightarrow>
     completed_calls es = map (fragment_call (gs @ fragments_of ops (live_calls ops cs)))
       (sorted_list_of_set (fr_index ` set (gs @ fragments_of ops (live_calls ops cs))))"
proof (induction cs arbitrary: t gs es)
  case (Cons c cs)
  obtain r t1 where r: "translate ops t (Some c) = (r, t1)" by fastforce
  have ok: "r \<noteq> Malformed" using Cons.prems(4,5) r by (auto split: prod.split_asm)
  with Cons.prems(4) r obtain bs where bs: "run_translator ops t1 cs = (bs, t')" "es = events_of r @ bs"
    by (cases r) (auto split: prod.split_asm)
  let ?gs = "gs @ fragments_of ops (choices_calls ops (chunk_choices ops c))"
  have p: "protocol (known_calls t) (chunk_fragments ops c @ concat (map (chunk_fragments ops) cs))"
    using Cons.prems(3) by simp
  note step = translate_gathered [OF Cons.prems(1,2) p r ok]
  show ?case
  proof (cases "kt_terminal_emitted t1")
    case True
    then have "list_all is_usage bs" using run_translator_emits [OF bs(1)] by simp
    with True step bs(2) show ?thesis by (simp add: step_gathered_def completed_calls_none)
  next
    case live: False
    then have 1: "completed_calls (events_of r) = []" "gathered t1 ?gs"
        "protocol (known_calls t1) (concat (map (chunk_fragments ops) cs))"
      using step by (simp_all add: step_gathered_def)
    have "list_all (\<lambda>k. \<not> kind_is_terminal k) (events_of r)"
      using translate_emits [OF r ok] live Cons.prems(2) by (simp add: step_emits_def)
    then have "list_ex kind_is_terminal bs" using Cons.prems(5) bs(2) by (auto simp: list_all_iff list_ex_iff)
    from Cons.IH [OF 1(2) live 1(3) bs(1) this] 1(1) bs(2) live step show ?thesis by simp
  qed
qed simp

lemma response_completes_streamed_calls:
  assumes "protocol Map.empty (concat (map (chunk_fragments ops) cs))"
    and "run_translator ops (chunk_translator_new names) cs = (es, t')" and "list_ex kind_is_terminal es"
  shows "completed_calls es = streamed_calls ops (live_calls ops cs)"
proof -
  have "known_calls (chunk_translator_new names) = Map.empty" "\<not> kt_terminal_emitted (chunk_translator_new names)"
    by (auto simp: known_calls_def chunk_translator_new_def)
  with run_translator_gathered [OF gathered_start _ _ assms(2,3)] assms(1) show ?thesis by (simp add: streamed_fragments)
qed

section \<open>Properties\<close>

text \<open>A translated stream ends at most once: over all the chunks of a response, whatever they hold,
  at most one terminal event is emitted, and nothing but usage counters follows it.\<close>

theorem translation_ends_once:
  "length (filter kind_is_terminal (fst (run_translator ops (chunk_translator_new names) chunks))) \<le> 1 \<and>
   list_all is_usage (drop 1 (dropWhile (\<lambda>k. \<not> kind_is_terminal k)
     (fst (run_translator ops (chunk_translator_new names) chunks))))"
proof -
  obtain es t where run: "run_translator ops (chunk_translator_new names) chunks = (es, t)" by fastforce
  have "list_all (\<lambda>k. \<not> kind_is_terminal k) es \<or> (\<exists>as bs. es = as @ bs \<and> ends_call as \<and> list_all is_usage bs)"
    using run_translator_emits [OF run] by (simp add: chunk_translator_new_def)
  then have "length (filter kind_is_terminal es) \<le> 1 \<and> list_all is_usage (drop 1 (dropWhile (\<lambda>k. \<not> kind_is_terminal k) es))"
  proof (elim disjE exE conjE)
    assume "list_all (\<lambda>k. \<not> kind_is_terminal k) es"
    then have none: "filter kind_is_terminal es = []" "dropWhile (\<lambda>k. \<not> kind_is_terminal k) es = []"
      by (simp_all add: list_all_iff filter_empty_conv)
    show ?thesis unfolding none by simp
  next
    fix as bs assume es: "es = as @ bs" "ends_call as" "list_all is_usage bs"
    then obtain init k where as: "as = init @ [k]" "kind_is_terminal k" "list_all (\<lambda>k. \<not> kind_is_terminal k) init"
      by (cases as rule: rev_cases) (auto simp: ends_call_def)
    have "filter kind_is_terminal bs = []" using es(3) by (auto simp: list_all_iff filter_empty_conv usage_not_terminal)
    moreover have "filter kind_is_terminal init = []" using as(3) by (simp add: list_all_iff filter_empty_conv)
    moreover have "dropWhile (\<lambda>k. \<not> kind_is_terminal k) es = k # bs"
      using es(1) as by (simp add: list_all_iff dropWhile_append2)
    ultimately show ?thesis using es as by simp
  qed
  with run show ?thesis by simp
qed

end
