(* ===== verification/Http_Body.thy ===== *)
theory Http_Body
  imports Model_Port Byte_Text Text_Codec
begin

text \<open>
  The response reader of \<open>model_providers/openai_compatible/mod.rs\<close>: the head of an HTTP response and
  the decoder of its chunked body. The socket is the list of what its reads will return: bytes, an
  error (\<open>None\<close>), or nothing at the end of the stream. Lengths are natural numbers: the saturating
  additions of the code are compared with the length of a buffer, which is far below where they
  would saturate.
\<close>

definition CRLF :: string where "CRLF = [CHR 0x0D, CHR 0x0A]"

definition MAX_HEAD_BYTES :: nat where "MAX_HEAD_BYTES = 16 * 1024"

type_synonym socket = "string option list"

section \<open>Numbers\<close>

text \<open>\<open>from_str_radix\<close> of an unsigned type: an optional plus sign, then digits, within the range.\<close>

definition is_hex_digit :: "char \<Rightarrow> bool" where
  "is_hex_digit c \<longleftrightarrow> is_ascii_digit c \<or> 97 \<le> byte c \<and> byte c \<le> 102 \<or> 65 \<le> byte c \<and> byte c \<le> 70"

definition hex_digit_value :: "char \<Rightarrow> nat" where
  "hex_digit_value c =
     (if is_ascii_digit c then byte c - 48 else if 97 \<le> byte c then byte c - 87 else byte c - 55)"

definition strip_plus :: "string \<Rightarrow> string" where
  "strip_plus s = (case s of c # cs \<Rightarrow> if c = CHR ''+'' \<and> cs \<noteq> [] then cs else s | [] \<Rightarrow> s)"

definition parse_hex_usize :: "string \<Rightarrow> nat option" where
  "parse_hex_usize s =
     (let ds = strip_plus s; n = foldl (\<lambda>acc c. acc * 16 + hex_digit_value c) 0 ds
      in if ds \<noteq> [] \<and> list_all is_hex_digit ds \<and> n < 2 ^ 64 then Some n else None)"

definition parse_u16 :: "string \<Rightarrow> nat option" where
  "parse_u16 s =
     (let ds = strip_plus s
      in if ds \<noteq> [] \<and> list_all is_ascii_digit ds \<and> digits_value ds < 2 ^ 16 then Some (digits_value ds) else None)"

section \<open>The head\<close>

text \<open>\<open>fill\<close> and the loop of \<open>read_head\<close>: the position of the blank line, or the error, with what is
  buffered and what the socket still holds.\<close>

fun read_head_bytes :: "string \<Rightarrow> socket \<Rightarrow> (ProviderError + nat) \<times> string \<times> socket" where
  "read_head_bytes buffered socket =
     (case find_bytes (CRLF @ CRLF) buffered of
        Some index \<Rightarrow> (Ok index, buffered, socket)
      | None \<Rightarrow>
          (case socket of
             [] \<Rightarrow> (Err ProviderError.Malformed, buffered, [])
           | None # rest \<Rightarrow> (Err ProviderError.Unavailable, buffered, rest)
           | Some bytes # rest \<Rightarrow>
               if bytes = [] then (Err ProviderError.Malformed, buffered, rest)
               else if length (buffered @ bytes) > MAX_HEAD_BYTES
                 then (Err ProviderError.Malformed, buffered @ bytes, rest)
               else read_head_bytes (buffered @ bytes) rest))"

declare read_head_bytes.simps [simp del]

definition head_status :: "string \<Rightarrow> nat option" where
  "head_status text =
     (case lines text of
        [] \<Rightarrow> None
      | line # _ \<Rightarrow> (case split_whitespace line of _ # code # _ \<Rightarrow> parse_u16 code | _ \<Rightarrow> None))"

definition encoding_refused :: "string \<Rightarrow> bool" where
  "encoding_refused line =
     (case strip_prefix ''transfer-encoding:'' (map to_ascii_lowercase line) of
        None \<Rightarrow> False
      | Some v \<Rightarrow> trim v \<noteq> [] \<and> trim v \<noteq> ''chunked'' \<and> trim v \<noteq> ''identity'')"

definition read_head :: "string \<Rightarrow> socket \<Rightarrow> (ProviderError + nat) \<times> string \<times> socket" where
  "read_head buffered socket =
     (case read_head_bytes buffered socket of
        (Err e, buffered, socket) \<Rightarrow> (Err e, buffered, socket)
      | (Ok head_end, buffered, socket) \<Rightarrow>
          (let head = take (head_end + 4) buffered; buffered = drop (head_end + 4) buffered in
           if \<not> valid_utf8 head then (Err ProviderError.Malformed, buffered, socket)
           else (case head_status head of
                   None \<Rightarrow> (Err ProviderError.Malformed, buffered, socket)
                 | Some status \<Rightarrow>
                     if list_ex encoding_refused (lines head)
                     then (Err ProviderError.Malformed, buffered, socket)
                     else (Ok status, buffered, socket))))"

section \<open>The chunked body\<close>

datatype ChunkState = Payload nat | Complete | NeedMore

definition decode_next_chunk :: "string \<Rightarrow> ChunkState \<times> string" where
  "decode_next_chunk buffer =
     (case find_bytes CRLF buffer of
        None \<Rightarrow> (NeedMore, buffer)
      | Some line_end \<Rightarrow>
          if \<not> valid_utf8 (take line_end buffer) then (Complete, buffer)
          else (case parse_hex_usize (trim (hd (split_on (CHR '';'') (take line_end buffer)))) of
            None \<Rightarrow> (Complete, buffer)
          | Some len \<Rightarrow>
              if len = 0 then (Complete, buffer)
              else (let payload_start = line_end + 2; payload_end = payload_start + len in
                if length buffer < payload_end + 2 then (NeedMore, buffer)
                else (Payload len, take len (drop payload_start buffer) @ drop (payload_end + 2) buffer))))"

record ResponseReader =
  rd_socket :: socket
  rd_buffered :: string
  rd_payload_remaining :: nat

lemma decode_size: "decode_next_chunk b = (Payload n, b') \<Longrightarrow> 0 < n \<and> n \<le> length b' \<and> length b' < length b"
proof -
  assume *: "decode_next_chunk b = (Payload n, b')"
  then obtain i where "find_bytes CRLF b = Some i" "0 < n" "\<not> length b < i + 2 + n + 2"
    "b' = take n (drop (i + 2) b) @ drop (i + 2 + n + 2) b"
    by (auto simp: decode_next_chunk_def Let_def split: option.split_asm if_split_asm)
  then show ?thesis by auto
qed

text \<open>\<open>poll_read\<close> with room for \<open>room\<close> bytes, the socket's answer being at hand.\<close>

function response_read :: "nat \<Rightarrow> ResponseReader \<Rightarrow> string option \<times> ResponseReader" where
  "response_read room self =
     (if rd_payload_remaining self > 0
      then (let n = min (min (rd_payload_remaining self) (length (rd_buffered self))) room in
            if n = 0 then (Some [], self)
            else (Some (take n (rd_buffered self)),
                  self\<lparr>rd_buffered := drop n (rd_buffered self),
                       rd_payload_remaining := rd_payload_remaining self - n\<rparr>))
      else (case decode_next_chunk (rd_buffered self) of
              (Payload len, buffered) \<Rightarrow>
                response_read room (self\<lparr>rd_buffered := buffered, rd_payload_remaining := len\<rparr>)
            | (Complete, buffered) \<Rightarrow> (Some [], self\<lparr>rd_buffered := buffered\<rparr>)
            | (NeedMore, buffered) \<Rightarrow>
                (case rd_socket self of
                   [] \<Rightarrow> (Some [], self)
                 | None # rest \<Rightarrow> (None, self\<lparr>rd_socket := rest\<rparr>)
                 | Some bytes # rest \<Rightarrow>
                     if bytes = [] then (Some [], self\<lparr>rd_socket := rest\<rparr>)
                     else response_read room (self\<lparr>rd_socket := rest, rd_buffered := buffered @ bytes\<rparr>))))"
  by auto
termination
  by (relation "measures [\<lambda>(room, r). length (rd_socket r), \<lambda>(room, r). if rd_payload_remaining r = 0 then 1 else 0]")
     (auto dest: decode_size [OF sym])

declare response_read.simps [simp del]

section \<open>Reading a whole body\<close>

definition unread :: "ResponseReader \<Rightarrow> nat" where
  "unread r = length (rd_buffered r) + sum_list (map (\<lambda>x. case x of Some b \<Rightarrow> length b | None \<Rightarrow> 0) (rd_socket r))"

lemma response_read_shrinks: "response_read room r = (Some b, r') \<Longrightarrow> b \<noteq> [] \<Longrightarrow> unread r' < unread r"
proof (induction room r arbitrary: b r' rule: response_read.induct)
  case (1 room self)
  show ?case
  proof (cases "rd_payload_remaining self > 0")
    case True
    with "1.prems" show ?thesis
      by (auto simp: response_read.simps [of room self] unread_def Let_def split: if_split_asm)
  next
    case False
    obtain s buf where d: "decode_next_chunk (rd_buffered self) = (s, buf)" by fastforce
    show ?thesis
    proof (cases s)
      case (Payload n)
      with "1.IH"(1) [OF False d [symmetric] Payload, of b r'] "1.prems" False d decode_size [of "rd_buffered self" n buf]
      show ?thesis by (auto simp: response_read.simps [of room self] unread_def)
    next
      case Complete
      with "1.prems" False d show ?thesis by (auto simp: response_read.simps [of room self])
    next
      case NeedMore
      then have "buf = rd_buffered self"
        using d by (auto simp: decode_next_chunk_def Let_def split: option.split_asm if_split_asm)
      with "1.prems" False d NeedMore obtain bytes rest where s: "rd_socket self = Some bytes # rest" "bytes \<noteq> []"
        and run: "response_read room (self\<lparr>rd_socket := rest, rd_buffered := rd_buffered self @ bytes\<rparr>) = (Some b, r')"
        by (auto simp: response_read.simps [of room self] split: list.split_asm option.split_asm if_split_asm)
      have "unread r' < unread (self\<lparr>rd_socket := rest, rd_buffered := rd_buffered self @ bytes\<rparr>)"
        using "1.IH"(2) [OF False d [symmetric] NeedMore s(1) refl s(2), of b r'] run "1.prems"(2)
          \<open>buf = rd_buffered self\<close> by simp
      then show ?thesis using s by (simp add: unread_def)
    qed
  qed
qed

text \<open>What a reader of the body gets, read after read, up to the end or an error.\<close>

function response_reads :: "nat \<Rightarrow> ResponseReader \<Rightarrow> string option list" where
  "response_reads room r =
     (case response_read room r of
        (None, r') \<Rightarrow> [None]
      | (Some b, r') \<Rightarrow> if b = [] then [Some []] else Some b # response_reads room r')"
  by auto
termination
  by (relation "measure (\<lambda>(room, r). unread r)") (auto dest!: response_read_shrinks [OF sym])

declare response_reads.simps [simp del]

text \<open>A body in chunks: each a size line and its bytes, then a size line for zero and a trailer.\<close>

definition size_line :: "string \<Rightarrow> nat \<Rightarrow> bool" where
  "size_line l n \<longleftrightarrow> valid_utf8 l \<and> CHR 0x0D \<notin> set l \<and> parse_hex_usize (trim (hd (split_on (CHR '';'') l))) = Some n"

definition chunk_ok :: "string \<times> string \<Rightarrow> bool" where
  "chunk_ok c \<longleftrightarrow> snd c \<noteq> [] \<and> size_line (fst c) (length (snd c))"

definition chunked :: "(string \<times> string) list \<Rightarrow> string \<Rightarrow> string" where
  "chunked cs final = concat (map (\<lambda>(l, c). l @ CRLF @ c @ CRLF) cs) @ final"

definition final_ok :: "string \<Rightarrow> bool" where
  "final_ok final \<longleftrightarrow> (\<exists>l t. final = l @ CRLF @ t \<and> size_line l 0)"

lemma find_crlf: "CHR 0x0D \<notin> set l \<Longrightarrow> find_bytes CRLF (l @ CRLF @ t) = Some (length l)"
  by (induction l) (auto simp: CRLF_def starts_with_def)

lemma decode_line:
  assumes "buffered @ later = l @ CRLF @ t" and "CHR 0x0D \<notin> set l" and "find_bytes CRLF buffered = Some i"
  shows "i = length l" and "take i buffered = l"
proof -
  have "find_bytes CRLF (buffered @ later) = Some i"
    using find_bytes_append [OF assms(3)] by (simp add: CRLF_def)
  then show i: "i = length l" using find_crlf [OF assms(2)] assms(1) by simp
  have "i \<le> length buffered" using find_bytes_Some [OF assms(3)] by simp
  then have "take i buffered = take i (buffered @ later)" by simp
  then show "take i buffered = l" using i assms(1) by simp
qed

lemma decode_prefix:
  assumes eq: "buffered @ later = l @ CRLF @ c @ CRLF @ t" and ok: "chunk_ok (l, c)"
  shows "decode_next_chunk buffered = (NeedMore, buffered) \<and> later \<noteq> [] \<or>
    (\<exists>t'. buffered = l @ CRLF @ c @ CRLF @ t' \<and> t' @ later = t \<and> decode_next_chunk buffered = (Payload (length c), c @ t'))"
proof (cases "length (l @ CRLF @ c @ CRLF) \<le> length buffered")
  case True
  define t' where "t' = drop (length (l @ CRLF @ c @ CRLF)) buffered"
  have split: "buffered @ later = (l @ CRLF @ c @ CRLF) @ t" using eq by simp
  then have "take (length (l @ CRLF @ c @ CRLF)) buffered = l @ CRLF @ c @ CRLF"
    using True by (metis append_eq_conv_conj take_append diff_is_0_eq' append_Nil2 take_0)
  then have b: "buffered = l @ CRLF @ c @ CRLF @ t'"
    by (metis append_take_drop_id append.assoc t'_def)
  moreover have "t' @ later = t" using split b by simp
  moreover have "decode_next_chunk buffered = (Payload (length c), c @ t')"
  proof -
    have len: "length (l @ CRLF @ c @ CRLF) = length l + 2 + length c + 2" by (simp add: CRLF_def)
    have "drop (length l + 2 + length c + 2) buffered = t'"
      using b by (metis append.assoc append_eq_conv_conj len)
    moreover have "take (length c) (drop (length l + 2) buffered) = c" "take (length l) buffered = l"
      by (simp_all add: b CRLF_def)
    moreover have "find_bytes CRLF buffered = Some (length l)"
      using ok find_crlf [of l "c @ CRLF @ t'"] b by (simp add: chunk_ok_def size_line_def)
    moreover have "\<not> length buffered < length l + 2 + length c + 2" using True len by simp
    ultimately show ?thesis using ok by (simp add: decode_next_chunk_def chunk_ok_def size_line_def Let_def)
  qed
  ultimately show ?thesis by blast
next
  case False
  have "later \<noteq> []" using eq False by auto
  moreover have "decode_next_chunk buffered = (NeedMore, buffered)"
  proof (cases "find_bytes CRLF buffered")
    case (Some i)
    from decode_line [OF eq _ Some] ok have "i = length l" "take i buffered = l" by (simp_all add: chunk_ok_def size_line_def)
    with ok Some False show ?thesis
      by (auto simp: decode_next_chunk_def chunk_ok_def size_line_def Let_def CRLF_def)
  qed (simp add: decode_next_chunk_def)
  ultimately show ?thesis by blast
qed

lemma decode_final:
  assumes eq: "buffered @ later = final" and ok: "final_ok final"
  shows "decode_next_chunk buffered = (NeedMore, buffered) \<and> later \<noteq> [] \<or> decode_next_chunk buffered = (Complete, buffered)"
proof -
  from ok obtain l t where f: "final = l @ CRLF @ t" "size_line l 0" by (auto simp: final_ok_def)
  show ?thesis
  proof (cases "find_bytes CRLF buffered")
    case None
    then have "later \<noteq> []" using eq f find_crlf [of l t] by (auto simp: size_line_def)
    with None show ?thesis by (simp add: decode_next_chunk_def)
  next
    case (Some i)
    from decode_line [OF eq [unfolded f(1)] _ Some] f(2) have "take i buffered = l" by (simp add: size_line_def)
    with Some f(2) show ?thesis by (simp add: decode_next_chunk_def size_line_def)
  qed
qed

definition incoming :: "ResponseReader \<Rightarrow> string" where
  "incoming r = concat (map (\<lambda>x. case x of Some b \<Rightarrow> b | None \<Rightarrow> []) (rd_socket r))"

definition body_left :: "ResponseReader \<Rightarrow> (string \<times> string) list \<Rightarrow> string \<Rightarrow> bool" where
  "body_left r cs final \<longleftrightarrow>
     list_all (\<lambda>x. x \<noteq> None \<and> x \<noteq> Some []) (rd_socket r) \<and> list_all chunk_ok cs \<and> final_ok final \<and>
     rd_payload_remaining r \<le> length (rd_buffered r) \<and>
     drop (rd_payload_remaining r) (rd_buffered r) @ incoming r = chunked cs final"

definition output_left :: "ResponseReader \<Rightarrow> (string \<times> string) list \<Rightarrow> string" where
  "output_left r cs = take (rd_payload_remaining r) (rd_buffered r) @ concat (map snd cs)"

lemma response_read_body:
  "body_left r cs final \<Longrightarrow> 0 < room \<Longrightarrow>
     (\<exists>r'. response_read room r = (Some [], r')) \<and> output_left r cs = [] \<or>
     (\<exists>b r' cs'. response_read room r = (Some b, r') \<and> b \<noteq> [] \<and> body_left r' cs' final \<and>
        output_left r cs = b @ output_left r' cs')"
proof (induction room r arbitrary: cs rule: response_read.induct)
  case (1 room self)
  let ?p = "rd_payload_remaining self" and ?b = "rd_buffered self"
  show ?case
  proof (cases "?p > 0")
    case True
    define n where "n = min (min ?p (length ?b)) room"
    have n: "0 < n" "n \<le> ?p" "n \<le> length ?b" "?p \<le> length ?b"
      using True "1.prems" by (auto simp: n_def body_left_def)
    let ?r = "self\<lparr>rd_buffered := drop n ?b, rd_payload_remaining := ?p - n\<rparr>"
    have "response_read room self = (Some (take n ?b), ?r)"
      using True n(1) by (simp add: response_read.simps [of room self] n_def [symmetric] Let_def)
    moreover have "body_left ?r cs final" using "1.prems"(1) n by (auto simp: body_left_def incoming_def)
    moreover have "output_left self cs = take n ?b @ output_left ?r cs"
    proof -
      have "take ?p ?b = take n ?b @ take (?p - n) (drop n ?b)" using n(2) by (metis take_add le_add_diff_inverse)
      then show ?thesis by (simp add: output_left_def)
    qed
    moreover have "take n ?b \<noteq> []" using n by auto
    ultimately show ?thesis by blast
  next
    case False
    then have p: "?p = 0" by simp
    have eq: "?b @ incoming self = chunked cs final" using "1.prems"(1) p by (simp add: body_left_def)
    have need: ?thesis if nm: "decode_next_chunk ?b = (NeedMore, ?b)" and more: "incoming self \<noteq> []"
    proof -
      obtain x rest where s: "rd_socket self = x # rest" using more by (cases "rd_socket self") (auto simp: incoming_def)
      with "1.prems"(1) obtain bytes where x: "x = Some bytes" "bytes \<noteq> []" by (auto simp: body_left_def)
      let ?r = "self\<lparr>rd_socket := rest, rd_buffered := ?b @ bytes\<rparr>"
      have "body_left ?r cs final" using "1.prems"(1) s x p by (auto simp: body_left_def incoming_def)
      moreover have "response_read room self = response_read room ?r"
        using p nm s x by (subst response_read.simps) simp
      moreover have "output_left ?r cs = output_left self cs" using p by (simp add: output_left_def)
      ultimately show ?thesis
        using "1.IH"(2) [OF False nm [symmetric] refl s x(1) x(2), of cs] "1.prems"(2) by simp
    qed
    show ?thesis
    proof (cases cs)
      case Nil
      then have "?b @ incoming self = final" using eq by (simp add: chunked_def)
      from decode_final [OF this] "1.prems"(1) consider
        "decode_next_chunk ?b = (NeedMore, ?b)" "incoming self \<noteq> []" | "decode_next_chunk ?b = (Complete, ?b)"
        by (auto simp: body_left_def)
      then show ?thesis
      proof cases
        case 2
        then have "\<exists>r'. response_read room self = (Some [], r')" using p by (subst response_read.simps) simp
        with Nil p show ?thesis by (simp add: output_left_def)
      qed (rule need)
    next
      case (Cons x cs')
      obtain l c where x: "x = (l, c)" by (cases x)
      have ok: "chunk_ok (l, c)" using "1.prems"(1) Cons x by (simp add: body_left_def)
      have "?b @ incoming self = l @ CRLF @ c @ CRLF @ chunked cs' final" using eq Cons x by (simp add: chunked_def)
      from decode_prefix [OF this ok] consider
          "decode_next_chunk ?b = (NeedMore, ?b)" "incoming self \<noteq> []"
        | t' where "t' @ incoming self = chunked cs' final" "decode_next_chunk ?b = (Payload (length c), c @ t')" by blast
      then show ?thesis
      proof cases
        case 2
        let ?r = "self\<lparr>rd_buffered := c @ t', rd_payload_remaining := length c\<rparr>"
        have "body_left ?r cs' final" using "1.prems"(1) Cons 2(1) by (simp add: body_left_def incoming_def)
        moreover have "response_read room self = response_read room ?r"
          using p 2(2) by (subst response_read.simps) simp
        moreover have "output_left ?r cs' = output_left self cs" using p Cons x by (simp add: output_left_def)
        ultimately show ?thesis
          using "1.IH"(1) [OF False 2(2) [symmetric] refl, of cs'] "1.prems"(2) by simp
      qed (rule need)
    qed
  qed
qed

lemma response_reads_body:
  "body_left r cs final \<Longrightarrow> 0 < room \<Longrightarrow>
     \<exists>bs. response_reads room r = map Some bs @ [Some []] \<and> concat bs = output_left r cs \<and> [] \<notin> set bs"
proof (induction room r arbitrary: cs rule: response_reads.induct)
  case (1 room r)
  from response_read_body [OF 1(2,3)] consider r' where "response_read room r = (Some [], r')" "output_left r cs = []"
    | b r' cs' where "response_read room r = (Some b, r')" "b \<noteq> []" "body_left r' cs' final"
        "output_left r cs = b @ output_left r' cs'" by blast
  then show ?case
  proof cases
    case 1
    then show ?thesis by (intro exI [of _ "[]"]) (simp add: response_reads.simps)
  next
    case 2
    from 1(1) [OF 2(1) [symmetric] refl 2(2,3) 1(3)] obtain bs where
      "response_reads room r' = map Some bs @ [Some []]" "concat bs = output_left r' cs'" "[] \<notin> set bs" by blast
    with 2 show ?thesis by (intro exI [of _ "b # bs"]) (simp add: response_reads.simps [of room r])
  qed
qed

section \<open>Properties\<close>

text \<open>A chunked body is delivered whole: whatever the sizes of the socket's reads and of the
  reader's buffer, what is read is exactly the bytes of the chunks, in order, and then the end.\<close>

theorem chunked_body_is_delivered:
  assumes "list_all chunk_ok cs" and "final_ok final" and "0 < room"
    and "[] \<notin> set pieces" and "concat pieces = chunked cs final"
    and "r = \<lparr>rd_socket = map Some pieces, rd_buffered = [], rd_payload_remaining = 0\<rparr>"
  shows "\<exists>bs. response_reads room r = map Some bs @ [Some []] \<and> concat bs = concat (map snd cs)"
proof -
  have "concat (map (\<lambda>x. case x of Some b \<Rightarrow> b | None \<Rightarrow> []) (map Some pieces)) = concat pieces"
    by (simp add: comp_def)
  with assms have "body_left r cs final"
    by (auto simp: body_left_def incoming_def list_all_iff)
  from response_reads_body [OF this assms(3)] assms(6) show ?thesis by (auto simp: output_left_def)
qed

lemma trim_plain: "s \<noteq> [] \<Longrightarrow> list_all (\<lambda>c. byte c < 128 \<and> \<not> ascii_space c) s \<Longrightarrow> trim s = s"
proof -
  assume *: "s \<noteq> []" "list_all (\<lambda>c. byte c < 128 \<and> \<not> ascii_space c) s"
  then have "front_space s = 0"
    by (cases s) (auto simp: front_space_def wide_space_def split: list.split)
  moreover have "list_all (\<lambda>c. byte c < 128 \<and> \<not> ascii_space c) (List.rev s)" using * by (simp add: list_all_iff)
  then have "back_space s = 0"
    using * by (cases "List.rev s") (auto simp: back_space_def wide_space_def split: list.split)
  ultimately show ?thesis by (simp add: trim_def trim_start.simps trim_end.simps)
qed

lemma size_line_samples: "size_line ''2'' 2" "size_line ''0'' 0"
  by (simp_all add: size_line_def trim_plain parse_hex_usize_def strip_plus_def is_hex_digit_def hex_digit_value_def
      is_ascii_digit_def ascii_space_def byte_def Let_def)

theorem chunked_body_is_delivered_witness:
  "\<exists>bs. response_reads 1 \<lparr>rd_socket = map Some [''2'' @ CRLF @ ''a'', ''b'' @ CRLF @ ''0'' @ CRLF @ CRLF], rd_buffered = [],
       rd_payload_remaining = 0\<rparr> = map Some bs @ [Some []] \<and> concat bs = ''ab''"
proof -
  have "list_all chunk_ok [(''2'', ''ab'')]" using size_line_samples by (simp add: chunk_ok_def numeral_2_eq_2)
  moreover have "final_ok (''0'' @ CRLF @ CRLF)"
    unfolding final_ok_def using size_line_samples(2) by blast
  moreover have "concat [''2'' @ CRLF @ ''a'', ''b'' @ CRLF @ ''0'' @ CRLF @ CRLF] = chunked [(''2'', ''ab'')] (''0'' @ CRLF @ CRLF)"
    by (simp add: chunked_def)
  ultimately show ?thesis
    using chunked_body_is_delivered [where room = 1 and cs = "[(''2'', ''ab'')]" and final = "''0'' @ CRLF @ CRLF"
        and pieces = "[''2'' @ CRLF @ ''a'', ''b'' @ CRLF @ ''0'' @ CRLF @ CRLF]", OF _ _ _ _ _ refl]
    by simp
qed

text \<open>A body that is not chunked is dropped: when its first line is not a chunk size, as for a body
  sent with a content length, the reader reports the end at once and delivers nothing of it.\<close>

theorem unchunked_body_is_dropped:
  assumes "find_bytes CRLF body = Some i" and "parse_hex_usize (trim (hd (split_on (CHR '';'') (take i body)))) = None"
    and "rd_buffered r = body" and "rd_payload_remaining r = 0"
  shows "response_reads room r = [Some []]"
proof -
  have "fst (decode_next_chunk body) = Complete" using assms(1,2) by (simp add: decode_next_chunk_def)
  then obtain b where "decode_next_chunk (rd_buffered r) = (Complete, b)" using assms(3) by (cases "decode_next_chunk body") auto
  with assms(4) have "response_read room r = (Some [], r\<lparr>rd_buffered := b\<rparr>)" by (simp add: response_read.simps)
  then show ?thesis by (simp add: response_reads.simps)
qed

theorem unchunked_body_is_dropped_witness:
  "response_reads 8192 \<lparr>rd_socket = [], rd_buffered = ''data: a'' @ CRLF @ CRLF, rd_payload_remaining = 0\<rparr> = [Some []]"
proof (rule unchunked_body_is_dropped [where i = 7])
  have sp: "hd (split_on (CHR '';'') ''data: a'') = ''data: a''" by simp
  have "front_space ''data: a'' = 0" "back_space ''data: a'' = 0"
    by (simp_all add: front_space_def back_space_def ascii_space_def wide_space_def byte_def)
  then have "trim ''data: a'' = ''data: a''" by (simp add: trim_def trim_start.simps trim_end.simps)
  then show "parse_hex_usize (trim (hd (split_on (CHR '';'') (take 7 (''data: a'' @ CRLF @ CRLF))))) = None"
    by (simp add: parse_hex_usize_def strip_plus_def is_hex_digit_def is_ascii_digit_def byte_def Let_def CRLF_def)
  show "find_bytes CRLF (''data: a'' @ CRLF @ CRLF) = Some 7" by (simp add: CRLF_def starts_with_def)
qed simp_all

end
