(* ===== verification/Provider_Exchange.thy ===== *)
theory Provider_Exchange
  imports Model_Port Sse_Framing Chunk_Translator Http_Body
begin

text \<open>
  \<open>model_providers/openai_compatible/mod.rs\<close>: one exchange with a chat endpoint, from the response to
  the frames on the channel. What the runtime and the network decide is the environment: the JSON
  parser, the identifiers, what becomes of each send (delivered, the receiver gone, or cut off by the
  timeout), what each read of the body returns, and whether the connection and the head succeed.
\<close>

definition MAX_RESPONSE_BYTES :: nat where "MAX_RESPONSE_BYTES = 16 * 2 ^ 20"

section \<open>Errors of the endpoint\<close>

definition map_status :: "'j JsonOps \<Rightarrow> (string \<Rightarrow> 'j option) \<Rightarrow> nat \<Rightarrow> string \<Rightarrow> ProviderError" where
  "map_status ops parse status body =
     (let error = Option.bind (parse body) (\<lambda>v. js_get ops v ''error'');
          code = (case Option.bind error (\<lambda>v. js_get_str ops v ''code'') of Some c \<Rightarrow> c | None \<Rightarrow> []) in
      if status = 401 then ProviderError.Authentication
      else if status = 403 then ProviderError.Authentication
      else if status = 429 then
        (if code \<in> {''credit_balance_exhausted'', ''organization_spend_limit_exceeded'',
                    ''project_spend_limit_exceeded'', ''organization_usage_limit_exceeded''}
         then ProviderError.Authentication else ProviderError.RateLimited None)
      else if status = 408 \<or> status = 504 then ProviderError.Timeout
      else if 500 \<le> status \<and> status \<le> 599 then ProviderError.Unavailable
      else ProviderError.InvalidRequest)"

section \<open>The pump\<close>

datatype SendOutcome = Delivered | ReceiverGone | SendTimedOut

datatype BodyRead = ReadBytes string | ReadFailed | ReadTimedOut

record 'j ExchangeEnv =
  xe_ops :: "'j JsonOps"
  xe_parse :: "string \<Rightarrow> 'j option"
  xe_fresh :: "nat \<Rightarrow> uuid"
  xe_send :: "nat \<Rightarrow> SendOutcome"

record Pump =
  pu_buffer :: string
  pu_total :: nat
  pu_terminal_sent :: bool
  pu_stamper :: FrameStamper
  pu_translator :: ChunkTranslator
  pu_sent :: "ModelStreamEvent list"

text \<open>The loop over the events of a chunk: \<open>None\<close> is to go on, \<open>Some r\<close> to return \<open>r\<close>.\<close>

fun send_kinds ::
  "'j ExchangeEnv \<Rightarrow> Pump \<Rightarrow> ModelStreamEventKind list \<Rightarrow> (ProviderError + unit) option \<times> Pump"
where
  "send_kinds env st [] = (None, st)"
| "send_kinds env st (kind # rest) =
     (case stamp (pu_stamper st) (xe_fresh env (length (pu_sent st))) kind None of
        (Err e, stamper) \<Rightarrow> (Some (Err e), st\<lparr>pu_stamper := stamper\<rparr>)
      | (Ok event, stamper) \<Rightarrow>
          (let st = st\<lparr>pu_stamper := stamper\<rparr> in
           case xe_send env (length (pu_sent st)) of
             ReceiverGone \<Rightarrow> (Some (Ok ()), st)
           | SendTimedOut \<Rightarrow> (Some (Err ProviderError.Timeout), st)
           | Delivered \<Rightarrow>
               send_kinds env
                 (st\<lparr>pu_sent := pu_sent st @ [event],
                     pu_terminal_sent := pu_terminal_sent st \<or> kind_is_terminal kind\<rparr>) rest))"

text \<open>One payload: parsed, translated, sent.\<close>

definition pump_payload :: "'j ExchangeEnv \<Rightarrow> Pump \<Rightarrow> string \<Rightarrow> (ProviderError + unit) option \<times> Pump" where
  "pump_payload env st payload =
     (case xe_parse env payload of
        None \<Rightarrow> (Some (Err ProviderError.Malformed), st)
      | Some parsed \<Rightarrow>
          (case translate (xe_ops env) (pu_translator st) (Some parsed) of
             (Translated.Malformed, t) \<Rightarrow> (Some (Err ProviderError.Malformed), st\<lparr>pu_translator := t\<rparr>)
           | (Ignored, t) \<Rightarrow> (None, st\<lparr>pu_translator := t\<rparr>)
           | (Events events, t) \<Rightarrow> send_kinds env (st\<lparr>pu_translator := t\<rparr>) events))"

fun pump_frames :: "'j ExchangeEnv \<Rightarrow> Pump \<Rightarrow> SseFrame list \<Rightarrow> (ProviderError + unit) option \<times> Pump" where
  "pump_frames env st [] = (None, st)"
| "pump_frames env st (Done # rest) = pump_frames env st rest"
| "pump_frames env st (Data payload # rest) =
     (case pump_payload env st payload of
        (Some r, st) \<Rightarrow> (Some r, st)
      | (None, st) \<Rightarrow> pump_frames env st rest)"

definition pump_end :: "Pump \<Rightarrow> ProviderError + unit" where
  "pump_end st =
     (if has_partial (pu_buffer st) then Err ProviderError.Malformed
      else if \<not> pu_terminal_sent st then Err ProviderError.Unavailable
      else Ok ())"

fun pump_body :: "'j ExchangeEnv \<Rightarrow> Pump \<Rightarrow> BodyRead list \<Rightarrow> (ProviderError + unit) \<times> Pump" where
  "pump_body env st [] = (pump_end st, st)"
| "pump_body env st (ReadFailed # rest) = (Err ProviderError.Unavailable, st)"
| "pump_body env st (ReadTimedOut # rest) = (Err ProviderError.Timeout, st)"
| "pump_body env st (ReadBytes bytes # rest) =
     (if bytes = [] then (pump_end st, st)
      else
        (let st = st\<lparr>pu_total := pu_total st + length bytes\<rparr> in
         if pu_total st > MAX_RESPONSE_BYTES then (Err ProviderError.Malformed, st)
         else (case sse_push (pu_buffer st) bytes of
                 (FrameRead.Incomplete, buffer) \<Rightarrow> pump_body env (st\<lparr>pu_buffer := buffer\<rparr>) rest
               | (TooLarge, buffer) \<Rightarrow> (Err ProviderError.Malformed, st\<lparr>pu_buffer := buffer\<rparr>)
               | (Frames frames, buffer) \<Rightarrow>
                   (case pump_frames env (st\<lparr>pu_buffer := buffer\<rparr>) frames of
                      (Some r, st) \<Rightarrow> (r, st)
                    | (None, st) \<Rightarrow> pump_body env st rest))))"

section \<open>The exchange\<close>

text \<open>How far the connection got: not at all (with the error), a response that is not a success, or a
  body to read.\<close>

datatype Connection = NotConnected ProviderError | StatusRefused nat string | BodyFollows "BodyRead list"

definition pump_start :: "uuid \<Rightarrow> ToolNames \<Rightarrow> Pump" where
  "pump_start call_id names =
     \<lparr>pu_buffer = [], pu_total = 0, pu_terminal_sent = False, pu_stamper = frame_stamper_start call_id,
      pu_translator = chunk_translator_new names, pu_sent = []\<rparr>"

definition exchange :: "'j ExchangeEnv \<Rightarrow> Pump \<Rightarrow> Connection \<Rightarrow> (ProviderError + unit) \<times> Pump" where
  "exchange env st connection =
     (case connection of
        NotConnected e \<Rightarrow> (Err e, st)
      | StatusRefused status body \<Rightarrow> (Err (map_status (xe_ops env) (xe_parse env) status body), st)
      | BodyFollows reads \<Rightarrow> pump_body env st reads)"

definition run_exchange :: "'j ExchangeEnv \<Rightarrow> uuid \<Rightarrow> ToolNames \<Rightarrow> Connection \<Rightarrow> Pump" where
  "run_exchange env call_id names connection =
     (case exchange env (pump_start call_id names) connection of
        (Ok _, st) \<Rightarrow> st
      | (Err error, st) \<Rightarrow>
          (case stamp (pu_stamper st) (xe_fresh env (length (pu_sent st)))
                  (CallFailed (provider_error_code error) (provider_error_retryable error)) None of
             (Err _, stamper) \<Rightarrow> st\<lparr>pu_stamper := stamper\<rparr>
           | (Ok frame, stamper) \<Rightarrow>
               (let st = st\<lparr>pu_stamper := stamper\<rparr> in
                case xe_send env (length (pu_sent st)) of
                  Delivered \<Rightarrow> st\<lparr>pu_sent := pu_sent st @ [frame]\<rparr>
                | _ \<Rightarrow> st)))"

section \<open>What the channel carries\<close>

text \<open>The frames sent are numbered upwards, for the call; they never outrun the stamper.\<close>

definition pump_ok :: "uuid \<Rightarrow> Pump \<Rightarrow> bool" where
  "pump_ok call st \<longleftrightarrow>
     rising call 0 (pu_sent st) \<and> fs_call_id (pu_stamper st) = call \<and>
     list_all (\<lambda>e. se_sequence e \<le> fs_next (pu_stamper st)) (pu_sent st) \<and>
     (pu_terminal_sent st \<longrightarrow> list_ex event_is_terminal (pu_sent st))"

lemma rising_append:
  "rising call a (xs @ ys) \<longleftrightarrow> rising call a xs \<and> rising call (if xs = [] then a else se_sequence (last xs)) ys"
  by (induction xs arbitrary: a) auto

lemma pump_ok_stamp:
  assumes ok: "pump_ok call st" and s: "stamp (pu_stamper st) f k m = (Ok e, s)"
  shows "pump_ok call (st\<lparr>pu_stamper := s\<rparr>)"
    and "pump_ok call (st\<lparr>pu_stamper := s, pu_sent := pu_sent st @ [e],
      pu_terminal_sent := pu_terminal_sent st \<or> kind_is_terminal k\<rparr>)"
    and "pump_ok call (st\<lparr>pu_stamper := s, pu_sent := pu_sent st @ [e]\<rparr>)"
proof -
  note d = stamp_OkD [OF s]
  have up: "list_all (\<lambda>x. se_sequence x \<le> fs_next s) (pu_sent st)"
    using ok d(1,2) by (auto simp: pump_ok_def list_all_iff)
  show "pump_ok call (st\<lparr>pu_stamper := s\<rparr>)"
    using ok d up by (auto simp: pump_ok_def)
  have "rising call (if pu_sent st = [] then 0 else se_sequence (last (pu_sent st))) [e]"
    using ok d by (auto simp: pump_ok_def list_all_iff not_less word_gt_0 dest!: last_in_set)
  then have r: "rising call 0 (pu_sent st @ [e])" using ok by (simp add: rising_append pump_ok_def)
  show "pump_ok call (st\<lparr>pu_stamper := s, pu_sent := pu_sent st @ [e],
      pu_terminal_sent := pu_terminal_sent st \<or> kind_is_terminal k\<rparr>)"
    using ok d up r by (auto simp: pump_ok_def event_is_terminal_def)
  show "pump_ok call (st\<lparr>pu_stamper := s, pu_sent := pu_sent st @ [e]\<rparr>)"
    using ok d up r by (auto simp: pump_ok_def)
qed

lemma send_kinds_ok: "pump_ok call st \<Longrightarrow> send_kinds env st ks = (r, st') \<Longrightarrow> pump_ok call st'"
proof (induction ks arbitrary: st)
  case (Cons k ks)
  show ?case
  proof (cases "stamp (pu_stamper st) (xe_fresh env (length (pu_sent st))) k None")
    case (Pair q s)
    show ?thesis
    proof (cases q)
      case (Inl e)
      with Pair Cons.prems show ?thesis by (auto dest: stamp_ErrD simp: pump_ok_def)
    next
      case (Inr e)
      with Pair have s: "stamp (pu_stamper st) (xe_fresh env (length (pu_sent st))) k None = (Ok e, s)" by simp
      from Cons.prems(2) Cons.IH [OF pump_ok_stamp(2) [OF Cons.prems(1) s]] pump_ok_stamp(1) [OF Cons.prems(1) s] s
      show ?thesis by (auto simp: Let_def split: SendOutcome.split_asm)
    qed
  qed
qed simp

lemma pump_ok_fields [simp]:
  "pump_ok call (st\<lparr>pu_translator := t\<rparr>) = pump_ok call st" "pump_ok call (st\<lparr>pu_buffer := b\<rparr>) = pump_ok call st"
  "pump_ok call (st\<lparr>pu_total := n\<rparr>) = pump_ok call st"
  by (simp_all add: pump_ok_def)

lemma pump_payload_ok: "pump_ok call st \<Longrightarrow> pump_payload env st p = (r, st') \<Longrightarrow> pump_ok call st'"
  by (auto simp: pump_payload_def split: option.split_asm prod.split_asm Translated.split_asm dest: send_kinds_ok [rotated])

lemma pump_frames_ok: "pump_ok call st \<Longrightarrow> pump_frames env st fs = (r, st') \<Longrightarrow> pump_ok call st'"
proof (induction env st fs rule: pump_frames.induct)
  case (3 env st p rest)
  obtain q st1 where q: "pump_payload env st p = (q, st1)" by fastforce
  with 3 pump_payload_ok [OF 3(2) q] show ?case by (cases q) auto
qed simp_all

lemma pump_body_ok: "pump_ok call st \<Longrightarrow> pump_body env st reads = (r, st') \<Longrightarrow> pump_ok call st'"
proof (induction env st reads rule: pump_body.induct)
  case (4 env st bytes rest)
  let ?st = "st\<lparr>pu_total := pu_total st + length bytes\<rparr>"
  show ?case
  proof (cases "bytes = [] \<or> pu_total ?st > MAX_RESPONSE_BYTES")
    case True
    with 4 show ?thesis by (auto simp: Let_def split: if_split_asm)
  next
    case False
    obtain x b where p: "sse_push (pu_buffer ?st) bytes = (x, b)" by fastforce
    show ?thesis
    proof (cases x)
      case (Frames fs)
      obtain q st1 where q: "pump_frames env (?st\<lparr>pu_buffer := b\<rparr>) fs = (q, st1)" by fastforce
      have "pump_ok call st1" using pump_frames_ok [OF _ q] 4(3) by simp
      with 4 False p Frames q show ?thesis by (cases q) auto
    qed (use 4 False p in auto)
  qed
qed auto

lemma pump_start_ok: "pump_ok call (pump_start call names)"
  by (simp add: pump_ok_def pump_start_def frame_stamper_start_def)

lemma exchange_ok:
  assumes "exchange env (pump_start call names) connection = (r, st)"
  shows "pump_ok call st"
  using assms pump_start_ok [of call names]
  by (auto simp: exchange_def dest: pump_body_ok [rotated] split: Connection.split_asm)

lemma run_exchange_ok: "pump_ok call (run_exchange env call names connection)"
proof -
  obtain r st where x: "exchange env (pump_start call names) connection = (r, st)" by fastforce
  note ok = exchange_ok [OF x]
  show ?thesis
  proof (cases r)
    case (Inl e)
    let ?k = "CallFailed (provider_error_code e) (provider_error_retryable e)"
    obtain q s where q: "stamp (pu_stamper st) (xe_fresh env (length (pu_sent st))) ?k None = (q, s)" by fastforce
    show ?thesis
    proof (cases q)
      case (Inl a)
      with q x \<open>r = Err e\<close> ok show ?thesis by (auto simp: run_exchange_def pump_ok_def dest: stamp_ErrD)
    next
      case (Inr f)
      with q have s: "stamp (pu_stamper st) (xe_fresh env (length (pu_sent st))) ?k None = (Ok f, s)" by simp
      from pump_ok_stamp(1,3) [OF ok s] s x \<open>r = Err e\<close> show ?thesis
        by (auto simp: run_exchange_def Let_def split: SendOutcome.split)
    qed
  next
    case (Inr u)
    with x ok show ?thesis by (simp add: run_exchange_def)
  qed
qed

section \<open>When every frame is delivered\<close>

definition all_delivered :: "'j ExchangeEnv \<Rightarrow> bool" where
  "all_delivered env \<longleftrightarrow> (\<forall>n. xe_send env n = Delivered)"

text \<open>Then the stamper has counted exactly what was sent.\<close>

definition counted :: "Pump \<Rightarrow> bool" where
  "counted st \<longleftrightarrow> unat (fs_next (pu_stamper st)) = length (pu_sent st)"

lemma sequence_next_unat: "sequence_next q = Ok r \<Longrightarrow> unat r = Suc (unat q)"
  by (auto simp: sequence_next_def dest!: checked_add_Some)

lemma stamp_counted:
  "stamp s f k m = (Ok e, s') \<Longrightarrow> unat (fs_next s') = Suc (unat (fs_next s))"
  by (auto simp: stamp_def split: sum.split_asm dest!: sequence_next_unat)

lemma send_kinds_delivered:
  "all_delivered env \<Longrightarrow> counted st \<Longrightarrow> send_kinds env st ks = (r, st') \<Longrightarrow>
     counted st' \<and> r \<noteq> Some (Ok ()) \<and> pu_translator st' = pu_translator st \<and> pu_buffer st' = pu_buffer st \<and>
     (r = None \<longrightarrow> (\<exists>fs. pu_sent st' = pu_sent st @ fs \<and> map se_kind fs = ks))"
proof (induction ks arbitrary: st)
  case (Cons k ks)
  show ?case
  proof (cases "stamp (pu_stamper st) (xe_fresh env (length (pu_sent st))) k None")
    case (Pair q s)
    show ?thesis
    proof (cases q)
      case (Inl e)
      with Pair Cons.prems show ?thesis by (auto simp: counted_def dest: stamp_ErrD)
    next
      case (Inr e)
      with Pair have s: "stamp (pu_stamper st) (xe_fresh env (length (pu_sent st))) k None = (Ok e, s)" by simp
      let ?st = "st\<lparr>pu_stamper := s, pu_sent := pu_sent st @ [e], pu_terminal_sent := pu_terminal_sent st \<or> kind_is_terminal k\<rparr>"
      have "counted ?st" using stamp_counted [OF s] Cons.prems(2) by (simp add: counted_def)
      moreover have "send_kinds env ?st ks = (r, st')"
        using Cons.prems(1,3) s by (simp add: all_delivered_def)
      ultimately show ?thesis using Cons.IH [of ?st] Cons.prems(1) stamp_OkD(5) [OF s] by auto
    qed
  qed
qed simp

text \<open>The chunks a body holds, read after read.\<close>

fun body_frames :: "string \<Rightarrow> BodyRead list \<Rightarrow> SseFrame list" where
  "body_frames buffer (ReadBytes bytes # rest) =
     (if bytes = [] then []
      else case sse_push buffer bytes of
          (Frames fs, buffer) \<Rightarrow> fs @ body_frames buffer rest
        | (_, buffer) \<Rightarrow> body_frames buffer rest)"
| "body_frames buffer _ = []"

definition chunks_of :: "(string \<Rightarrow> 'j option) \<Rightarrow> SseFrame list \<Rightarrow> 'j list" where
  "chunks_of parse fs = concat (map (\<lambda>f. case f of Data p \<Rightarrow> (case parse p of Some c \<Rightarrow> [c] | None \<Rightarrow> []) | Done \<Rightarrow> []) fs)"

lemma chunks_of_simps [simp]:
  "chunks_of parse [] = []" "chunks_of parse (fs @ gs) = chunks_of parse fs @ chunks_of parse gs"
  "chunks_of parse (Done # fs) = chunks_of parse fs"
  "chunks_of parse (Data p # fs) = (case parse p of Some c \<Rightarrow> [c] | None \<Rightarrow> []) @ chunks_of parse fs"
  by (simp_all add: chunks_of_def)

text \<open>A run of the translator that meets no malformed chunk.\<close>

inductive translates :: "'j JsonOps \<Rightarrow> ChunkTranslator \<Rightarrow> 'j list \<Rightarrow> ModelStreamEventKind list \<Rightarrow> ChunkTranslator \<Rightarrow> bool"
  for ops where
  none: "translates ops t [] [] t"
| chunk: "translate ops t (Some c) = (r, t1) \<Longrightarrow> r \<noteq> Translated.Malformed \<Longrightarrow> translates ops t1 cs es t2 \<Longrightarrow>
    translates ops t (c # cs) (events_of r @ es) t2"

lemma translates_append:
  "translates ops t cs es t1 \<Longrightarrow> translates ops t1 ds fs t2 \<Longrightarrow> translates ops t (cs @ ds) (es @ fs) t2"
  by (induction rule: translates.induct) (auto intro: translates.intros)

lemma translates_run: "translates ops t cs es t' \<Longrightarrow> run_translator ops t cs = (es, t')"
  by (induction rule: translates.induct) (auto split: Translated.split)

lemma pump_payload_delivered:
  assumes "all_delivered env" and "counted st" and "pump_payload env st p = (r, st')"
  shows "counted st' \<and> r \<noteq> Some (Ok ()) \<and> pu_buffer st' = pu_buffer st \<and>
    (r = None \<longrightarrow> (\<exists>c fs. xe_parse env p = Some c \<and> pu_sent st' = pu_sent st @ fs \<and>
       translates (xe_ops env) (pu_translator st) [c] (map se_kind fs) (pu_translator st')))"
proof (cases "xe_parse env p")
  case None
  with assms show ?thesis by (auto simp: pump_payload_def)
next
  case (Some c)
  obtain x t where x: "translate (xe_ops env) (pu_translator st) (Some c) = (x, t)" by fastforce
  show ?thesis
  proof (cases "x = Translated.Malformed")
    case True
    with Some x assms show ?thesis by (auto simp: pump_payload_def counted_def)
  next
    case False
    with Some x assms(3) have "send_kinds env (st\<lparr>pu_translator := t\<rparr>) (events_of x) = (r, st')"
      by (cases x) (auto simp: pump_payload_def)
    from send_kinds_delivered [OF assms(1) _ this] assms(2) Some
      translates.chunk [OF x False translates.none [of _ t]] show ?thesis
      by (auto simp: counted_def)
  qed
qed

lemma pump_frames_delivered:
  "all_delivered env \<Longrightarrow> counted st \<Longrightarrow> pump_frames env st fs = (r, st') \<Longrightarrow>
     counted st' \<and> r \<noteq> Some (Ok ()) \<and> pu_buffer st' = pu_buffer st \<and>
     (r = None \<longrightarrow> (\<exists>gs. pu_sent st' = pu_sent st @ gs \<and>
        translates (xe_ops env) (pu_translator st) (chunks_of (xe_parse env) fs) (map se_kind gs) (pu_translator st')))"
proof (induction env st fs rule: pump_frames.induct)
  case (3 env st p rest)
  obtain q st1 where q: "pump_payload env st p = (q, st1)" by fastforce
  note one = pump_payload_delivered [OF 3(2,3) q]
  show ?case
  proof (cases q)
    case None
    with one obtain c gs where 1: "xe_parse env p = Some c" "pu_sent st1 = pu_sent st @ gs"
      "translates (xe_ops env) (pu_translator st) [c] (map se_kind gs) (pu_translator st1)" by auto
    have run: "pump_frames env st1 rest = (r, st')" using 3(4) q None by simp
    note ind = 3(1) [OF q [symmetric] None 3(2) _ run]
    show ?thesis
      using ind one 1 translates_append [OF 1(3)] by (auto simp: None)
  next
    case (Some z)
    with one 3(4) q show ?thesis by auto
  qed
qed (auto intro: translates.intros)

lemma pump_end_Ok: "pump_end st = Ok u \<longleftrightarrow> \<not> has_partial (pu_buffer st) \<and> pu_terminal_sent st"
  by (simp add: pump_end_def)

lemma pump_body_delivered:
  "all_delivered env \<Longrightarrow> counted st \<Longrightarrow> pump_body env st reads = (r, st') \<Longrightarrow>
     counted st' \<and> (r = Ok () \<longrightarrow> pu_terminal_sent st' \<and> (\<exists>gs. pu_sent st' = pu_sent st @ gs \<and>
        translates (xe_ops env) (pu_translator st) (chunks_of (xe_parse env) (body_frames (pu_buffer st) reads))
          (map se_kind gs) (pu_translator st')))"
proof (induction env st reads rule: pump_body.induct)
  case (4 env st bytes rest)
  let ?st = "st\<lparr>pu_total := pu_total st + length bytes\<rparr>"
  show ?case
  proof (cases "bytes = [] \<or> pu_total ?st > MAX_RESPONSE_BYTES")
    case True
    with 4 show ?thesis
      by (auto simp: Let_def pump_end_Ok counted_def intro: translates.none split: if_split_asm)
  next
    case False
    obtain x b where p: "sse_push (pu_buffer ?st) bytes = (x, b)" by fastforce
    show ?thesis
    proof (cases x)
      case (Frames fs)
      obtain q st1 where q: "pump_frames env (?st\<lparr>pu_buffer := b\<rparr>) fs = (q, st1)" by fastforce
      have "counted (?st\<lparr>pu_buffer := b\<rparr>)" using 4(4) by (simp add: counted_def)
      note one = pump_frames_delivered [OF 4(3) this q]
      show ?thesis
      proof (cases q)
        case None
        with one obtain gs where 1: "counted st1" "pu_buffer st1 = b" "pu_sent st1 = pu_sent st @ gs"
          "translates (xe_ops env) (pu_translator st) (chunks_of (xe_parse env) fs) (map se_kind gs) (pu_translator st1)"
          by auto
        have "pump_body env st1 rest = (r, st')" using 4(5) False p Frames q None by simp
        with 4(1) [OF _ refl _ p [symmetric] Frames q [symmetric] None 4(3) 1(1)] False
        have "counted st' \<and> (r = Ok () \<longrightarrow> pu_terminal_sent st' \<and> (\<exists>hs. pu_sent st' = pu_sent st1 @ hs \<and>
            translates (xe_ops env) (pu_translator st1) (chunks_of (xe_parse env) (body_frames b rest))
              (map se_kind hs) (pu_translator st')))" using 1(2) by simp
        with translates_append [OF 1(4)] 1(3) False p Frames show ?thesis by auto
      next
        case (Some z)
        with one 4(5) False p Frames q show ?thesis by auto
      qed
    qed (use 4 False p in \<open>auto simp: counted_def\<close>)
  qed
qed (auto simp: pump_end_Ok intro: translates.none)

section \<open>From the channel to the consumer\<close>

lemma adapter_takes:
  "as_phase a = StreamPhase.Open \<Longrightarrow> list_ex event_is_terminal es \<Longrightarrow>
     run_steps adapter_next_event a (map (\<lambda>e. Receive (Some e)) es @ ps) = (rs, a') \<Longrightarrow>
     as_phase a' = StreamPhase.Closed \<and>
     frames_of rs = takeWhile (\<lambda>e. \<not> event_is_terminal e) es @ take 1 (dropWhile (\<lambda>e. \<not> event_is_terminal e) es)"
proof (induction es arbitrary: a rs)
  case (Cons e es)
  obtain r rs' a1 where 1: "adapter_next_event a (Receive (Some e)) = (r, a1)"
      "run_steps adapter_next_event a1 (map (\<lambda>e. Receive (Some e)) es @ ps) = (rs', a')" "rs = r # rs'"
    using Cons.prems(3) by (auto simp: run_steps_Cons_iff simp del: run_steps.simps)
  have r: "r = Ok (Some e)" and phase: "as_phase a1 = (if event_is_terminal e then StreamPhase.Closed else StreamPhase.Open)"
    using 1(1) Cons.prems(1) by (auto simp: adapter_next_event_def Let_def split: if_split_asm)
  show ?case
  proof (cases "event_is_terminal e")
    case True
    with phase 1(2) have "rs' = map (\<lambda>_. Ok None) (map (\<lambda>e. Receive (Some e)) es @ ps)" "a' = a1"
      using adapter_closed [of a1] by auto
    then have "frames_of rs' = []" by (simp only: frames_of_none)
    with True r 1(3) phase \<open>a' = a1\<close> show ?thesis by simp
  next
    case False
    with Cons.IH [OF _ _ 1(2)] Cons.prems(2) phase r 1(3) show ?thesis by simp
  qed
qed simp

text \<open>What the consumer's state machine keeps of the calls does not depend on numbering.\<close>

definition same_calls_as :: "ModelStreamState \<Rightarrow> ModelStreamState \<Rightarrow> bool" where
  "same_calls_as a b \<longleftrightarrow> ss_started a = ss_started b \<and> ss_open_tool_calls a = ss_open_tool_calls b \<and>
     ss_assembled_arguments a = ss_assembled_arguments b"

lemma stream_apply_same:
  assumes "same_calls_as a b" and "stream_apply k b = (r, b')"
  shows "\<exists>a'. stream_apply k a = (r, a') \<and> same_calls_as a' b' \<and> ss_terminal a' = ss_terminal a \<and>
    ss_last_sequence a' = ss_last_sequence a \<and> ss_call_id a' = ss_call_id a"
  using assms
  by (cases k) (auto simp: stream_apply_def same_calls_as_def Let_def split: if_split_asm option.split_asm)

lemma accept_applied:
  "rising (ss_call_id a) q fs \<Longrightarrow> ss_last_sequence a \<le> q \<Longrightarrow> ss_terminal a = None \<Longrightarrow> same_calls_as a b \<Longrightarrow>
     apply_all b (map se_kind fs) = Some b' \<Longrightarrow> list_all (\<lambda>k. \<not> kind_is_terminal k) (butlast (map se_kind fs)) \<Longrightarrow>
     run_steps stream_accept a fs = (rs, a') \<Longrightarrow>
     list_all (\<lambda>r. r = Ok Accepted) rs \<and> same_calls_as a' b' \<and> ss_call_id a' = ss_call_id a \<and>
     (ss_terminal a' \<noteq> None \<longleftrightarrow> fs \<noteq> [] \<and> event_is_terminal (last fs))"
proof (induction fs arbitrary: a b q rs)
  case (Cons e fs)
  obtain r rs' a1 where 1: "stream_accept a e = (r, a1)" "run_steps stream_accept a1 fs = (rs', a')" "rs = r # rs'"
    using Cons.prems(7) by (auto simp: run_steps_Cons_iff simp del: run_steps.simps)
  obtain b1 where b1: "stream_apply (se_kind e) b = (Ok (), b1)" "apply_all b1 (map se_kind fs) = Some b'"
    using Cons.prems(5) by (auto split: prod.split_asm sum.split_asm)
  from stream_apply_same [OF Cons.prems(4) b1(1)] obtain a2 where
    a2: "stream_apply (se_kind e) a = (Ok (), a2)" "same_calls_as a2 b1" "ss_terminal a2 = ss_terminal a"
      "ss_last_sequence a2 = ss_last_sequence a" "ss_call_id a2 = ss_call_id a" by blast
  have num: "se_call_id e = ss_call_id a" "\<not> se_sequence e \<le> ss_last_sequence a" using Cons.prems(1,2) by auto
  have r: "r = Ok Accepted" "same_calls_as a1 b1" "ss_call_id a1 = ss_call_id a" "ss_last_sequence a1 = se_sequence e"
      "ss_terminal a1 = (if kind_is_terminal (se_kind e) then kind_terminal_reason (se_kind e) else None)"
    using 1(1) a2 num Cons.prems(3) by (auto simp: stream_accept_def same_calls_as_def Let_def split: if_split_asm)
  show ?case
  proof (cases fs)
    case Nil
    with 1 r b1(2) terminal_reason_iff [of "se_kind e"] show ?thesis by (auto simp: event_is_terminal_def)
  next
    case (Cons e' fs')
    then have live: "\<not> kind_is_terminal (se_kind e)" using Cons.prems(6) by simp
    with Cons.IH [of a1 "se_sequence e" b1 rs'] r b1(2) 1 Cons.prems(1,6) Cons show ?thesis by simp
  qed
qed simp

lemma ignored_after_terminal:
  "ss_terminal a \<noteq> None \<Longrightarrow> list_all (\<lambda>e. se_call_id e = ss_call_id a) fs \<Longrightarrow> run_steps stream_accept a fs = (rs, a') \<Longrightarrow>
     list_all (\<lambda>r. r = Ok IgnoredAfterTerminal) rs \<and> ss_terminal a' = ss_terminal a \<and>
     ss_open_tool_calls a' = ss_open_tool_calls a"
proof (induction fs arbitrary: a rs)
  case (Cons e fs)
  let ?a = "a\<lparr>ss_late_frames_ignored := ss_late_frames_ignored a + 1\<rparr>"
  have "stream_accept a e = (Ok IgnoredAfterTerminal, ?a)" using Cons.prems(1,2) by (auto simp: stream_accept_def)
  with Cons.prems(3) obtain rs' where "run_steps stream_accept ?a fs = (rs', a')" "rs = Ok IgnoredAfterTerminal # rs'"
    by (auto split: prod.split_asm)
  with Cons.IH [of ?a rs'] Cons.prems(1,2) show ?case by simp
qed simp

lemma run_steps_append:
  "run_steps f a (xs @ ys) = (let (rs, b) = run_steps f a xs; (qs, c) = run_steps f b ys in (rs @ qs, c))"
  by (induction xs arbitrary: a) (auto simp: Let_def split: prod.split)

section \<open>Properties\<close>

lemma exchange_delivered:
  assumes "all_delivered env" and "exchange env (pump_start call names) connection = (r, st)"
  shows "counted st" and "r = Ok () \<Longrightarrow> list_ex event_is_terminal (pu_sent st)"
proof -
  have start: "counted (pump_start call names)"
    by (simp add: counted_def pump_start_def frame_stamper_start_def sequence_first_def)
  then show "counted st"
    using assms pump_body_delivered [OF assms(1) start] by (auto simp: exchange_def split: Connection.split_asm)
  assume "r = Ok ()"
  then have "pu_terminal_sent st"
    using assms pump_body_delivered [OF assms(1) start] by (auto simp: exchange_def split: Connection.split_asm)
  with exchange_ok [OF assms(2)] show "list_ex event_is_terminal (pu_sent st)" by (simp add: pump_ok_def)
qed

lemma stamp_fails: "stamp s f k m = (Err e, s') \<Longrightarrow> unat (fs_next s) = 2 ^ 64 - 1"
proof -
  assume "stamp s f k m = (Err e, s')"
  then have "checked_add (fs_next s) 1 = None"
    by (auto simp: stamp_def sequence_next_def ok_or_def split: sum.split_asm option.split_asm)
  then have "\<not> unat (fs_next s) + unat (1 :: u64) < 2 ^ 64" by (simp add: checked_add_None_iff)
  moreover have "unat (fs_next s) < 2 ^ 64" using unsigned_less [of "fs_next s"] by simp
  ultimately show ?thesis by simp
qed

lemma run_exchange_terminal:
  assumes del: "all_delivered env" and st: "st = run_exchange env call names connection"
    and few: "length (pu_sent st) < 2 ^ 64 - 1"
  shows "list_ex event_is_terminal (pu_sent st)"
proof -
  obtain r x where x: "exchange env (pump_start call names) connection = (r, x)" by fastforce
  note d = exchange_delivered [OF del x]
  show ?thesis
  proof (cases r)
    case (Inr u)
    with d(2) x st show ?thesis by (simp add: run_exchange_def)
  next
    case (Inl e)
    let ?k = "CallFailed (provider_error_code e) (provider_error_retryable e)"
    obtain q s where q: "stamp (pu_stamper x) (xe_fresh env (length (pu_sent x))) ?k None = (q, s)" by fastforce
    show ?thesis
    proof (cases q)
      case (Inl a)
      with q stamp_fails d(1) have "length (pu_sent x) = 2 ^ 64 - 1" by (fastforce simp: counted_def)
      moreover have "pu_sent st = pu_sent x" using st x q Inl \<open>r = Err e\<close> by (simp add: run_exchange_def)
      ultimately show ?thesis using few by simp
    next
      case (Inr f)
      with q have "stamp (pu_stamper x) (xe_fresh env (length (pu_sent x))) ?k None = (Ok f, s)" by simp
      from stamp_OkD(5) [OF this] this have "pu_sent st = pu_sent x @ [f]" "event_is_terminal f"
        using st x \<open>r = Err e\<close> del
        by (simp_all add: run_exchange_def all_delivered_def event_is_terminal_def kind_is_terminal_def)
      then show ?thesis by simp
    qed
  qed
qed

text \<open>Every exchange ends for its consumer: however the connection, the head, the body or the parser
  fail, the frames on the channel, read to the end through the adapter's stream, finish with a
  terminal frame, and no frame before it is terminal.\<close>

theorem exchange_always_ends:
  assumes "all_delivered env" and "st = run_exchange env call names connection"
    and "length (pu_sent st) < 2 ^ 64 - 1"
    and "run_steps adapter_next_event (adapter_stream_new call)
      (map (\<lambda>e. Receive (Some e)) (pu_sent st) @ [Receive None]) = (rs, a)"
  shows "as_phase a = StreamPhase.Closed \<and> frames_of rs \<noteq> [] \<and> event_is_terminal (last (frames_of rs)) \<and>
    list_all (\<lambda>e. \<not> event_is_terminal e) (butlast (frames_of rs))"
proof -
  have ex: "list_ex event_is_terminal (pu_sent st)" by (rule run_exchange_terminal [OF assms(1-3)])
  let ?n = "\<lambda>e. \<not> event_is_terminal e"
  obtain e rest where e: "dropWhile ?n (pu_sent st) = e # rest" "event_is_terminal e"
  proof -
    have "dropWhile ?n (pu_sent st) \<noteq> []" using ex by (auto simp: list_ex_iff)
    then show thesis using that hd_dropWhile [of ?n "pu_sent st"] by (cases "dropWhile ?n (pu_sent st)") auto
  qed
  have "as_phase (adapter_stream_new call) = StreamPhase.Open" by (simp add: adapter_stream_new_def)
  from adapter_takes [OF this ex assms(4)] e(1)
  have "as_phase a = StreamPhase.Closed" "frames_of rs = takeWhile ?n (pu_sent st) @ [e]" by simp_all
  with e(2) show ?thesis by (auto simp: list_all_iff dest: set_takeWhileD)
qed

text \<open>The consumer never finds a frame misnumbered: whatever the network and the parser do, however
  much of the channel is read and whenever the call is cancelled, no frame the adapter's stream
  hands over is refused for its number or for its call.\<close>

theorem exchange_frames_in_order:
  assumes "received polls = take n (pu_sent (run_exchange env call names connection))"
    and "run_steps adapter_next_event (adapter_stream_new call) polls = (rs, a)"
    and "run_steps stream_accept (stream_state_new call) (frames_of rs) = (vs, s)"
  shows "Err StreamSequenceNotMonotonic \<notin> set vs \<and> Err StreamCallMismatch \<notin> set vs"
proof -
  have "rising call 0 (pu_sent (run_exchange env call names connection))"
    using run_exchange_ok [of call env names connection] by (simp add: pump_ok_def)
  then have "rising call 0 (received polls)" unfolding assms(1) by (metis append_take_drop_id rising_append)
  with adapter_rising [OF assms(2)] have "rising call 0 (frames_of rs)"
    by (simp add: adapter_stream_new_def sequence_first_def)
  with accept_rising [of "stream_state_new call" 0 "frames_of rs" vs s] assms(3) show ?thesis
    by (simp add: stream_state_new_def sequence_first_def)
qed

lemma protocol_response_accepted:
  assumes "all_delivered env" and "exchange env (pump_start call names) (BodyFollows reads) = (Ok (), st)"
    and "protocol Map.empty (concat (map (chunk_fragments (xe_ops env)) (chunks_of (xe_parse env) (body_frames [] reads))))"
    and "run_steps stream_accept (stream_state_new call) (pu_sent st) = (rs, s)"
  shows "list_all is_ok rs \<and> (\<exists>reason. stream_finish s = Ok (Terminal reason))"
proof -
  let ?t = "chunk_translator_new names" and ?s0 = "stream_state_new call"
  have start: "counted (pump_start call names)"
    by (simp add: counted_def pump_start_def frame_stamper_start_def sequence_first_def)
  have body: "pump_body env (pump_start call names) reads = (Ok (), st)" using assms(2) by (simp add: exchange_def)
  from pump_body_delivered [OF assms(1) start body] obtain t' where ended: "pu_terminal_sent st"
    and tr: "translates (xe_ops env) ?t (chunks_of (xe_parse env) (body_frames [] reads)) (map se_kind (pu_sent st)) t'"
    by (auto simp: pump_start_def)
  have ok: "pump_ok call st" by (rule exchange_ok [OF assms(2)])
  have "linked ?t ?s0" "\<not> kt_terminal_emitted ?t" "known_calls ?t = Map.empty"
    by (auto simp: linked_def known_calls_def chunk_translator_new_def stream_state_new_def)
  from run_translator_admitted [OF this(1,2) _ translates_run [OF tr]] this(3) assms(3) obtain as bs s' where
    split: "map se_kind (pu_sent st) = as @ bs" and usage: "list_all is_usage bs" and app: "apply_all ?s0 as = Some s'"
    and ends: "bs = [] \<and> list_all (\<lambda>k. \<not> kind_is_terminal k) as \<or> ends_call as \<and> ss_open_tool_calls s' = []" by auto
  define fs gs where "fs = take (length as) (pu_sent st)" and "gs = drop (length as) (pu_sent st)"
  have fg: "pu_sent st = fs @ gs" "map se_kind fs = as" "map se_kind gs = bs"
    using split by (simp_all add: fs_def gs_def flip: take_map drop_map)
  have "list_ex event_is_terminal (pu_sent st)" using ok ended by (simp add: pump_ok_def)
  then obtain k where "k \<in> set (map se_kind (pu_sent st))" "kind_is_terminal k"
    by (auto simp: list_ex_iff event_is_terminal_def)
  then have "k \<in> set as \<or> k \<in> set bs" "kind_is_terminal k" unfolding split by auto
  with ends have e: "ends_call as" "ss_open_tool_calls s' = []" by (auto simp: list_all_iff)
  obtain r1 s1 r2 where run: "run_steps stream_accept ?s0 fs = (r1, s1)" "run_steps stream_accept s1 gs = (r2, s)" "rs = r1 @ r2"
    using assms(4) fg(1) by (auto simp: run_steps_append Let_def split: prod.split_asm)
  have rise: "rising call 0 fs" "list_all (\<lambda>e. se_call_id e = call) gs"
    using ok fg(1) by (simp_all add: pump_ok_def rising_def sorted_wrt_append)
  have 0: "ss_call_id ?s0 = call" "ss_last_sequence ?s0 \<le> 0" "ss_terminal ?s0 = None" "same_calls_as ?s0 ?s0"
    by (simp_all add: stream_state_new_def sequence_first_def same_calls_as_def)
  have first: "list_all (\<lambda>r. r = Ok Accepted) r1 \<and> same_calls_as s1 s' \<and> ss_call_id s1 = call \<and> ss_terminal s1 \<noteq> None"
    using accept_applied [of ?s0 0 fs ?s0 s' r1 s1] 0 rise(1) app fg(2) e(1) run(1)
    by (auto simp: ends_call_def event_is_terminal_def last_map)
  then have second: "list_all (\<lambda>r. r = Ok IgnoredAfterTerminal) r2 \<and> ss_terminal s = ss_terminal s1 \<and>
      ss_open_tool_calls s = ss_open_tool_calls s1"
    using ignored_after_terminal [of s1 gs r2 s] rise(2) run(2) by simp
  have "ss_open_tool_calls s = []" "ss_terminal s \<noteq> None" using first second e(2) by (simp_all add: same_calls_as_def)
  then have "\<exists>reason. stream_finish s = Ok (Terminal reason)" by (auto simp: stream_finish_def)
  moreover have "list_all is_ok rs" using first second run(3) by (auto simp: list_all_iff)
  ultimately show ?thesis by simp
qed

text \<open>C40: A response that follows the protocol is taken in whole: when the consumer takes every frame, the exchange
  succeeds and the tool-call fragments of its chunks are named and identified as the provider documents, the consumer's
  state machine refuses no frame and the stream finishes with a terminal reason. The calls that are completed are exactly
  those streamed before the end, in the order of their indices, each with the identifier of its first entry and with
  the arguments of all its entries, one after the other as they stand in the documents.\<close>

theorem protocol_response_is_admitted:
  assumes "all_delivered env" and "exchange env (pump_start call names) (BodyFollows reads) = (Ok (), st)"
    and "protocol Map.empty (concat (map (chunk_fragments (xe_ops env)) (chunks_of (xe_parse env) (body_frames [] reads))))"
    and "run_steps stream_accept (stream_state_new call) (pu_sent st) = (rs, s)"
  shows "list_all is_ok rs \<and> (\<exists>reason. stream_finish s = Ok (Terminal reason)) \<and>
    completed_calls (map se_kind (pu_sent st)) =
      streamed_calls (xe_ops env) (live_calls (xe_ops env) (chunks_of (xe_parse env) (body_frames [] reads)))"
proof -
  have start: "counted (pump_start call names)"
    by (simp add: counted_def pump_start_def frame_stamper_start_def sequence_first_def)
  have "pump_body env (pump_start call names) reads = (Ok (), st)" using assms(2) by (simp add: exchange_def)
  from pump_body_delivered [OF assms(1) start this] obtain t' where
    "translates (xe_ops env) (chunk_translator_new names) (chunks_of (xe_parse env) (body_frames [] reads))
       (map se_kind (pu_sent st)) t'"
    by (auto simp: pump_start_def)
  note run = translates_run [OF this]
  have "list_ex kind_is_terminal (map se_kind (pu_sent st))"
    using exchange_delivered(2) [OF assms(1,2)] by (auto simp: list_ex_iff event_is_terminal_def)
  from response_completes_streamed_calls [OF assms(3) run this] protocol_response_accepted [OF assms] show ?thesis by blast
qed

section \<open>A sample exchange\<close>

definition sample_chunk :: sample_json where
  "sample_chunk = SObj [(''choices'', SArr [SObj [(''delta'', SObj [(''tool_calls'', SArr [SObj [(''index'', SNum 0),
     (''id'', SStr ''c''), (''function'', SObj [(''name'', SStr ''t''), (''arguments'', SStr ''{}'')])]])]),
     (''finish_reason'', SStr ''tool_calls'')]])]"

definition sample_env :: "sample_json ExchangeEnv" where
  "sample_env = \<lparr>xe_ops = sample_ops, xe_parse = (\<lambda>s. if s = ''x'' then Some sample_chunk else None),
     xe_fresh = (\<lambda>n. of_nat n), xe_send = (\<lambda>_. Delivered)\<rparr>"

definition sample_reads :: "BodyRead list" where
  "sample_reads = [ReadBytes ''data: '', ReadBytes (''x'' @ [LF, LF]), ReadBytes []]"

definition sample_pump :: Pump where
  "sample_pump = snd (exchange sample_env (pump_start 1 (tool_names_new [])) (BodyFollows sample_reads))"


lemmas sample_translation = translate_def note_model_def js_get_str_def chunk_usage_def translate_delta_def push_tool_calls_def
  delta_fragments_def fragment_of_def apply_fragment_def translator_terminal_def completions_def finish_reason_for_def
  events_or_ignored_def canonical_name_def tool_names_new_def tool_names_default_def chunk_translator_new_def
  sample_chunk_def sample_ops_def

lemma sample_translated:
  "fst (translate sample_ops (chunk_translator_new (tool_names_new [])) (Some sample_chunk)) =
     Events [ToolCallAdded ''c'' ''t'', ToolCallArgumentsDelta ''c'' ''{}'', ToolCallCompleted ''c'' ''{}'',
       CallCompleted FinishReason.ToolCalls None False]"
  by (simp add: sample_translation)

lemma sample_all_delivered: "all_delivered sample_env"
  by (simp add: all_delivered_def sample_env_def)

lemma sample_drain: "drain_frames ''data: '' = ([], ''data: '')" "drain_frames (''data: x'' @ [LF, LF]) = ([Data ''x''], [])"
  by code_simp+

lemma sample_sse: "sse_push [] ''data: '' = (Incomplete, ''data: '')" "sse_push ''data: '' [CHR ''x'', LF, LF] = (Frames [Data ''x''], [])"
  using sample_drain by (simp_all add: sse_push_def MAX_FRAME_BYTES_def)

lemma sample_stamp: "unat (fs_next s) < 100 \<Longrightarrow>
    stamp s f k m = (Ok \<lparr>se_call_id = fs_call_id s, se_event_id = f, se_sequence = fs_next s + 1, se_kind = k, se_provider_metadata = m\<rparr>,
      s\<lparr>fs_next := fs_next s + 1\<rparr>)"
  by (simp add: stamp_def sequence_next_def checked_add_def)

lemma sample_exchange_ok:
  "exchange sample_env (pump_start 1 (tool_names_new [])) (BodyFollows sample_reads) = (Ok (), sample_pump) \<and>
   length (pu_sent sample_pump) = 4"
proof -
  obtain t where "translate sample_ops (chunk_translator_new (tool_names_new [])) (Some sample_chunk) =
     (Events [ToolCallAdded ''c'' ''t'', ToolCallArgumentsDelta ''c'' ''{}'', ToolCallCompleted ''c'' ''{}'',
       CallCompleted FinishReason.ToolCalls None False], t)"
    using sample_translated by (metis prod.collapse)
  then have "fst (exchange sample_env (pump_start 1 (tool_names_new [])) (BodyFollows sample_reads)) = Ok () \<and>
      length (pu_sent sample_pump) = 4"
    by (simp add: exchange_def sample_reads_def sample_sse pump_payload_def pump_start_def MAX_RESPONSE_BYTES_def
      frame_stamper_start_def sample_env_def pump_end_def has_partial_def sample_stamp sequence_first_def kind_is_terminal_def sample_pump_def)
  then show ?thesis by (metis prod.collapse sample_pump_def)
qed

lemma sample_run_exchange: "sample_pump = run_exchange sample_env 1 (tool_names_new []) (BodyFollows sample_reads)"
  by (simp add: run_exchange_def sample_exchange_ok)

lemma sample_protocol:
  "protocol Map.empty (concat (map (chunk_fragments (xe_ops sample_env))
     (chunks_of (xe_parse sample_env) (body_frames [] sample_reads))))"
  by (simp add: sample_reads_def sample_sse sample_env_def chunk_fragments_def choice_fragments_def sample_translation)

theorem exchange_always_ends_witness:
  "as_phase (snd (run_steps adapter_next_event (adapter_stream_new 1)
     (map (\<lambda>e. Receive (Some e)) (pu_sent sample_pump) @ [Receive None]))) = StreamPhase.Closed"
proof -
  have "length (pu_sent sample_pump) < 2 ^ 64 - 1" by (simp add: sample_exchange_ok)
  from exchange_always_ends [OF sample_all_delivered sample_run_exchange this surjective_pairing] show ?thesis by simp
qed

lemma received_all [simp]: "received (map (\<lambda>e. Receive (Some e)) es) = es"
  by (induction es) auto

theorem exchange_frames_in_order_witness:
  "Err StreamSequenceNotMonotonic \<notin> set (fst (run_steps stream_accept (stream_state_new 1)
     (frames_of (fst (run_steps adapter_next_event (adapter_stream_new 1) (map (\<lambda>e. Receive (Some e)) (pu_sent sample_pump)))))))"
proof -
  have "received (map (\<lambda>e. Receive (Some e)) (pu_sent sample_pump)) =
      take 4 (pu_sent (run_exchange sample_env 1 (tool_names_new []) (BodyFollows sample_reads)))"
    using sample_exchange_ok by (simp flip: sample_run_exchange)
  from exchange_frames_in_order [OF this surjective_pairing surjective_pairing] show ?thesis by simp
qed

lemma sample_streamed:
  "streamed_calls sample_ops (live_calls sample_ops (chunks_of (xe_parse sample_env) (body_frames [] sample_reads))) =
     [(''c'', ''{}'')]"
  by (simp add: sample_reads_def sample_sse sample_env_def chunk_choices_def chunk_ends_def finishes_def choice_calls_def
      delta_calls_def streamed_calls_def call_index_def call_identifier_def call_text_def js_get_str_def sample_chunk_def
      sample_ops_def)

theorem protocol_response_is_admitted_witness:
  "list_all is_ok (fst (run_steps stream_accept (stream_state_new 1) (pu_sent sample_pump))) \<and>
   completed_calls (map se_kind (pu_sent sample_pump)) = [(''c'', ''{}'')]"
proof -
  have "xe_ops sample_env = sample_ops" by (simp add: sample_env_def)
  with protocol_response_is_admitted
    [OF sample_all_delivered conjunct1 [OF sample_exchange_ok] sample_protocol surjective_pairing] sample_streamed
  show ?thesis by simp
qed

end
