(* ===== verification/Tool_Path_Grant.thy ===== *)
theory Tool_Path_Grant
  imports Interfaces Domain_Error Byte_Text
begin

text \<open>
  \<open>tool/path_grant.rs\<close>: which path a file tool may touch. A path is refused by its shape first, then
  placed under the longest granted root, compared segment by segment, and last the mode of that grant
  is looked at. The decision is lexical: what the filesystem makes of an allowed path is not decided
  here.
\<close>

definition MAX_PATH_BYTES :: nat where "MAX_PATH_BYTES = 4096"
definition MAX_PATH_SEGMENTS :: nat where "MAX_PATH_SEGMENTS = 128"

definition RESERVED_NAMES :: "string list" where
  "RESERVED_NAMES =
     [''con'', ''prn'', ''aux'', ''nul'', ''com1'', ''com2'', ''com3'', ''com4'', ''com5'', ''com6'', ''com7'', ''com8'',
      ''com9'', ''lpt1'', ''lpt2'', ''lpt3'', ''lpt4'', ''lpt5'', ''lpt6'', ''lpt7'', ''lpt8'', ''lpt9'']"

datatype PathComparison = CaseSensitive | CaseInsensitive

fun segments_equal :: "PathComparison \<Rightarrow> string \<Rightarrow> string \<Rightarrow> bool" where
  "segments_equal CaseSensitive left right = (left = right)"
| "segments_equal CaseInsensitive left right = eq_ignore_ascii_case left right"

section \<open>Modes\<close>

datatype PathMode = Read | Create | Modify | Delete

definition path_mode_all :: "PathMode list" where
  "path_mode_all = [PathMode.Read, PathMode.Create, PathMode.Modify, PathMode.Delete]"

primrec path_mode_as_contract_str :: "PathMode \<Rightarrow> string" where
  "path_mode_as_contract_str PathMode.Read = ''read''"
| "path_mode_as_contract_str PathMode.Create = ''create''"
| "path_mode_as_contract_str PathMode.Modify = ''modify''"
| "path_mode_as_contract_str PathMode.Delete = ''delete''"

definition path_mode_parse :: "string \<Rightarrow> DomainError + PathMode" where
  "path_mode_parse value =
     ok_or (find (\<lambda>mode. path_mode_as_contract_str mode = value) path_mode_all) (ToolDefinitionInvalid ''mode'')"

interpretation path_mode: spelling path_mode_all path_mode_as_contract_str "\<lambda>s. ok (path_mode_parse s)"
proof unfold_locales
  show "x \<in> set path_mode_all" for x by (cases x) (simp_all add: path_mode_all_def)
qed (simp_all add: path_mode_all_def path_mode_parse_def)

text \<open>The derived order of the modes.\<close>

primrec path_mode_rank :: "PathMode \<Rightarrow> nat" where
  "path_mode_rank PathMode.Read = 0"
| "path_mode_rank PathMode.Create = 1"
| "path_mode_rank PathMode.Modify = 2"
| "path_mode_rank PathMode.Delete = 3"

definition path_mode_writes :: "PathMode \<Rightarrow> bool" where
  "path_mode_writes mode \<longleftrightarrow> mode \<noteq> PathMode.Read"

section \<open>Refusals\<close>

datatype PathDenial =
    Absolute | Traversal | NotNormalized | AmbiguousSeparator | ReservedName | AlternateDataStream
  | TrailingDotOrSpace | MalformedSegment | OutsideEveryRoot | ModeNotGranted | CaseMismatch

definition denial_is_shape :: "PathDenial \<Rightarrow> bool" where
  "denial_is_shape d \<longleftrightarrow>
     d \<in> {Absolute, Traversal, NotNormalized, AmbiguousSeparator, ReservedName, AlternateDataStream,
          TrailingDotOrSpace, MalformedSegment}"

section \<open>Paths\<close>

text \<open>The body of the loop over the segments.\<close>

definition segment_denial :: "string \<Rightarrow> PathDenial option" where
  "segment_denial segment =
     (if segment = [] then Some NotNormalized
      else if segment = ''..'' then Some Traversal
      else if segment = ''.'' then Some NotNormalized
      else if contains_nul segment \<or> has_control segment then Some MalformedSegment
      else if CHR '':'' \<in> set segment then Some AlternateDataStream
      else if last segment = CHR ''.'' \<or> last segment = CHR '' '' then Some TrailingDotOrSpace
      else if list_ex (\<lambda>reserved. eq_ignore_ascii_case reserved (hd (split_on CHR ''.'' segment))) RESERVED_NAMES
        then Some ReservedName
      else if length segment > 255 then Some MalformedSegment
      else None)"

fun segments_denial :: "string list \<Rightarrow> PathDenial option" where
  "segments_denial [] = None"
| "segments_denial (segment # rest) =
     (case segment_denial segment of Some d \<Rightarrow> Some d | None \<Rightarrow> segments_denial rest)"

definition denial_for :: "string \<Rightarrow> PathDenial option" where
  "denial_for value =
     (if value = [] \<or> length value > MAX_PATH_BYTES then Some MalformedSegment
      else if CHR 0x5C \<in> set value then Some AmbiguousSeparator
      else if starts_with ''/'' value then Some Absolute
      else if length value \<ge> 2 \<and> value ! 1 = CHR '':'' then Some Absolute
      else
        (let segments = split_on CHR ''/'' value in
         if length segments > MAX_PATH_SEGMENTS then Some MalformedSegment
         else segments_denial segments))"

type_synonym WorkspaceRelativePath = string

definition workspace_relative_path_parse :: "string \<Rightarrow> DomainError + WorkspaceRelativePath" where
  "workspace_relative_path_parse value =
     (if denial_for value \<noteq> None then Err (ToolDefinitionInvalid ''path'') else Ok value)"

definition path_segments :: "WorkspaceRelativePath \<Rightarrow> string list" where
  "path_segments path = split_on CHR ''/'' path"

fun under_segments :: "PathComparison \<Rightarrow> string list \<Rightarrow> string list \<Rightarrow> bool" where
  "under_segments comparison mine [] = True"
| "under_segments comparison [] (r # rs) = False"
| "under_segments comparison (m # ms) (r # rs) =
     (if \<not> segments_equal comparison m r then False else under_segments comparison ms rs)"

definition is_under :: "WorkspaceRelativePath \<Rightarrow> WorkspaceRelativePath \<Rightarrow> PathComparison \<Rightarrow> bool" where
  "is_under self root comparison = under_segments comparison (path_segments self) (path_segments root)"

fun case_differs :: "bool \<Rightarrow> string list \<Rightarrow> string list \<Rightarrow> bool" where
  "case_differs differs mine [] = differs"
| "case_differs differs [] (r # rs) = False"
| "case_differs differs (m # ms) (r # rs) =
     (if m = r then case_differs differs ms rs
      else if \<not> eq_ignore_ascii_case m r then False
      else case_differs True ms rs)"

definition differs_only_by_case_from :: "WorkspaceRelativePath \<Rightarrow> WorkspaceRelativePath \<Rightarrow> bool" where
  "differs_only_by_case_from self root = case_differs False (path_segments self) (path_segments root)"

section \<open>Grants and the decision\<close>

record PathGrant =
  pg_root :: WorkspaceRelativePath
  pg_modes :: "PathMode list"

definition path_grant_new :: "WorkspaceRelativePath \<Rightarrow> PathMode list \<Rightarrow> DomainError + PathGrant" where
  "path_grant_new root modes =
     (if modes = [] then Err (ToolDefinitionInvalid ''modes'')
      else if length (remdups_adj (sort_key path_mode_rank modes)) \<noteq> length modes then Err (ToolDefinitionInvalid ''modes'')
      else Ok \<lparr>pg_root = root, pg_modes = modes\<rparr>)"

definition path_permits :: "PathGrant \<Rightarrow> PathMode \<Rightarrow> bool" where
  "path_permits self mode \<longleftrightarrow> mode \<in> set (pg_modes self)"

definition path_grant_writes :: "PathGrant \<Rightarrow> bool" where
  "path_grant_writes self \<longleftrightarrow> list_ex path_mode_writes (pg_modes self)"

datatype PathDecision = Allowed WorkspaceRelativePath WorkspaceRelativePath | Denied PathDenial

definition path_decision_is_allowed :: "PathDecision \<Rightarrow> bool" where
  "path_decision_is_allowed d \<longleftrightarrow> (case d of Allowed _ _ \<Rightarrow> True | Denied _ \<Rightarrow> False)"

definition path_decision_denial :: "PathDecision \<Rightarrow> PathDenial option" where
  "path_decision_denial d = (case d of Allowed _ _ \<Rightarrow> None | Denied reason \<Rightarrow> Some reason)"

text \<open>The loop that chooses the grant.\<close>

fun longest_match :: "WorkspaceRelativePath \<Rightarrow> PathComparison \<Rightarrow> PathGrant option \<Rightarrow> PathGrant list \<Rightarrow> PathGrant option" where
  "longest_match path comparison matched [] = matched"
| "longest_match path comparison matched (grant # grants) =
     (if \<not> is_under path (pg_root grant) comparison then longest_match path comparison matched grants
      else if is_none_or matched
          (\<lambda>current. length (path_segments (pg_root grant)) > length (path_segments (pg_root current)))
      then longest_match path comparison (Some grant) grants
      else longest_match path comparison matched grants)"

definition authorize_path :: "string \<Rightarrow> PathMode \<Rightarrow> PathGrant list \<Rightarrow> PathComparison \<Rightarrow> PathDecision" where
  "authorize_path candidate mode grants comparison =
     (case denial_for candidate of
        Some reason \<Rightarrow> Denied reason
      | None \<Rightarrow>
          (case longest_match candidate comparison None grants of
             None \<Rightarrow>
               Denied (if list_ex (\<lambda>g. differs_only_by_case_from candidate (pg_root g) \<and> comparison = CaseSensitive) grants
                       then CaseMismatch else OutsideEveryRoot)
           | Some grant \<Rightarrow>
               if \<not> path_permits grant mode then Denied ModeNotGranted
               else Allowed candidate (pg_root grant)))"

section \<open>The chosen grant\<close>

definition grant_depth :: "PathGrant \<Rightarrow> nat" where
  "grant_depth g = length (path_segments (pg_root g))"

lemma longest_match_Some:
  "longest_match p c m gs = Some g \<Longrightarrow>
     (m = Some g \<or> g \<in> set gs \<and> is_under p (pg_root g) c) \<and>
     (\<forall>h. (m = Some h \<or> h \<in> set gs \<and> is_under p (pg_root h) c) \<longrightarrow> grant_depth h \<le> grant_depth g)"
proof (induction p c m gs rule: longest_match.induct)
  case (2 p c m h gs)
  show ?case
  proof (cases "is_under p (pg_root h) c")
    case False
    with 2 show ?thesis by auto
  next
    case under: True
    show ?thesis
    proof (cases "is_none_or m (\<lambda>x. length (path_segments (pg_root h)) > length (path_segments (pg_root x)))")
      case True
      have "x = h \<or> grant_depth x < grant_depth h" if "m = Some x" for x using True that by (simp add: grant_depth_def)
      then show ?thesis using 2(2) 2(4) under True by (fastforce dest: less_imp_le)
    next
      case False
      then obtain x where x: "m = Some x" "grant_depth h \<le> grant_depth x"
        by (cases m) (auto simp: grant_depth_def)
      then show ?thesis using 2(3) 2(4) under False by (auto intro: le_trans)
    qed
  qed
qed auto

lemma longest_match_None: "longest_match p c m gs = None \<longleftrightarrow> m = None \<and> list_all (\<lambda>g. \<not> is_under p (pg_root g) c) gs"
  by (induction p c m gs rule: longest_match.induct) (auto split: if_split_asm)

lemma under_segments_iff:
  "under_segments c ms rs \<longleftrightarrow> length rs \<le> length ms \<and> list_all2 (segments_equal c) (take (length rs) ms) rs"
  by (induction c ms rs rule: under_segments.induct) auto

lemma segments_denial_None: "segments_denial ss = None \<longleftrightarrow> list_all (\<lambda>s. segment_denial s = None) ss"
  by (induction ss) (auto split: option.split)

lemma denial_for_None:
  assumes "denial_for p = None"
  shows "list_all (\<lambda>s. segment_denial s = None) (path_segments p)" and "length p \<le> MAX_PATH_BYTES"
    and "length (path_segments p) \<le> MAX_PATH_SEGMENTS" and "CHR 0x5C \<notin> set p"
  using assms by (auto simp: denial_for_def path_segments_def segments_denial_None Let_def split: if_split_asm)

text \<open>Where a sequence of segments leads from a directory, with the meaning every system gives them:
  an empty segment and a dot stay, two dots go up, a name goes down.\<close>

fun walk :: "string list \<Rightarrow> string list \<Rightarrow> string list" where
  "walk dir [] = dir"
| "walk dir (s # ss) =
     walk (if s = [] \<or> s = ''.'' then dir else if s = ''..'' then butlast dir else dir @ [s]) ss"

lemma walk_names: "list_all (\<lambda>s. segment_denial s = None) ss \<Longrightarrow> walk dir ss = dir @ ss"
  by (induction ss arbitrary: dir) (auto simp: segment_denial_def split: if_split_asm)

section \<open>Properties\<close>

text \<open>C19: An allowed path cannot leave its grant: followed from any directory it ends strictly inside
  that directory, below the granted root segment by segment (under the comparison in force), and the
  grant whose root it is confers the mode; no grant with a longer covering root was passed over.\<close>

theorem allowed_path_is_confined:
  assumes "authorize_path candidate mode grants comparison = Allowed path root"
  shows "path = candidate \<and> walk dir (path_segments path) = dir @ path_segments path \<and>
    list_all2 (segments_equal comparison) (take (length (path_segments root)) (path_segments path)) (path_segments root) \<and>
    list_ex (\<lambda>g. pg_root g = root \<and> path_permits g mode \<and>
      list_all (\<lambda>h. is_under path (pg_root h) comparison \<longrightarrow> grant_depth h \<le> grant_depth g) grants) grants"
proof -
  from assms obtain g where g: "denial_for candidate = None" "longest_match candidate comparison None grants = Some g"
    "path_permits g mode" "path = candidate" "root = pg_root g"
    by (auto simp: authorize_path_def split: option.split_asm if_split_asm)
  note m = longest_match_Some [OF g(2)]
  have under: "g \<in> set grants" "is_under path root comparison" using m g(4,5) by auto
  have "walk dir (path_segments path) = dir @ path_segments path"
    using walk_names denial_for_None(1) [OF g(1)] g(4) by simp
  moreover have "list_all2 (segments_equal comparison) (take (length (path_segments root)) (path_segments path)) (path_segments root)"
    using under(2) by (simp add: is_under_def under_segments_iff)
  moreover have "list_all (\<lambda>h. is_under path (pg_root h) comparison \<longrightarrow> grant_depth h \<le> grant_depth g) grants"
    using m g(4) by (simp add: list_all_iff)
  ultimately show ?thesis using g under(1) by (auto simp: list_ex_iff)
qed

lemma segment_denial_shape: "segment_denial s = Some d \<Longrightarrow> denial_is_shape d"
  by (auto simp: segment_denial_def denial_is_shape_def split: if_split_asm)

lemma denial_for_shape: "denial_for p = Some d \<Longrightarrow> denial_is_shape d"
proof -
  have "segments_denial ss = Some d \<Longrightarrow> denial_is_shape d" for ss
    by (induction ss) (auto dest: segment_denial_shape split: option.split_asm)
  then show "denial_for p = Some d \<Longrightarrow> denial_is_shape d"
    by (auto simp: denial_for_def denial_is_shape_def Let_def split: if_split_asm)
qed

lemma case_differs_iff:
  "case_differs d ms rs \<longleftrightarrow> under_segments CaseInsensitive ms rs \<and> (d \<or> \<not> under_segments CaseSensitive ms rs)"
  by (induction d ms rs rule: case_differs.induct) auto

lemma differs_only_by_case_iff:
  "differs_only_by_case_from p r \<longleftrightarrow> is_under p r CaseInsensitive \<and> \<not> is_under p r CaseSensitive"
  by (simp add: differs_only_by_case_from_def is_under_def case_differs_iff)

text \<open>A refusal names its cause: a reason of shape is given exactly when the text itself is refused,
  whatever is granted; \<open>ModeNotGranted\<close> when the longest covering root lacks the mode; the two reasons of
  place when no root covers the path, and then the case is blamed only for a root that matches but for
  the case of its letters.\<close>

theorem path_refusal_names_its_cause:
  assumes "authorize_path candidate mode grants comparison = Denied reason"
  shows "denial_for candidate = (if denial_is_shape reason then Some reason else None) \<and>
    (reason = ModeNotGranted \<longrightarrow> list_ex (\<lambda>g. is_under candidate (pg_root g) comparison \<and> \<not> path_permits g mode) grants) \<and>
    (reason \<in> {OutsideEveryRoot, CaseMismatch} \<longrightarrow> list_all (\<lambda>g. \<not> is_under candidate (pg_root g) comparison) grants) \<and>
    (reason = CaseMismatch \<longleftrightarrow> denial_for candidate = None \<and> comparison = CaseSensitive \<and>
       list_all (\<lambda>g. \<not> is_under candidate (pg_root g) comparison) grants \<and>
       list_ex (\<lambda>g. is_under candidate (pg_root g) CaseInsensitive) grants)"
proof (cases "denial_for candidate")
  case (Some d)
  with assms have "reason = d" by (simp add: authorize_path_def)
  with Some denial_for_shape [OF Some] show ?thesis by (auto simp: denial_is_shape_def)
next
  case None
  show ?thesis
  proof (cases "longest_match candidate comparison None grants")
    case no: None
    then have "list_all (\<lambda>g. \<not> is_under candidate (pg_root g) comparison) grants" by (simp add: longest_match_None)
    with assms None no show ?thesis
      by (cases comparison)
        (auto simp: authorize_path_def denial_is_shape_def differs_only_by_case_iff list_ex_iff list_all_iff split: if_split_asm)
  next
    case (Some g)
    with assms None have "reason = ModeNotGranted" "\<not> path_permits g mode"
      by (auto simp: authorize_path_def split: if_split_asm)
    with longest_match_Some [OF Some] None show ?thesis
      by (auto simp: denial_is_shape_def list_ex_iff list_all_iff)
  qed
qed

section \<open>Samples\<close>

definition sample_grants :: "PathGrant list" where
  "sample_grants =
     [\<lparr>pg_root = ''data'', pg_modes = [PathMode.Read, PathMode.Modify]\<rparr>,
      \<lparr>pg_root = ''data/log'', pg_modes = [PathMode.Read]\<rparr>,
      \<lparr>pg_root = ''data/log'', pg_modes = [PathMode.Modify]\<rparr>]"

lemmas path_evaluation = authorize_path_def denial_for_def MAX_PATH_BYTES_def MAX_PATH_SEGMENTS_def segment_denial_def
  contains_nul_def byte_def eq_ignore_ascii_case_def to_ascii_lowercase_def RESERVED_NAMES_def is_under_def path_segments_def
  path_permits_def sample_grants_def differs_only_by_case_from_def starts_with_def

theorem allowed_path_is_confined_witness:
  "walk [''ws''] (path_segments ''data/a'') = [''ws'', ''data'', ''a'']"
proof -
  have "authorize_path ''data/a'' PathMode.Modify sample_grants CaseSensitive = Allowed ''data/a'' ''data''"
    by (simp add: path_evaluation)
  from allowed_path_is_confined [OF this, of "[''ws'']"] show ?thesis by (simp add: path_segments_def)
qed

theorem path_refusal_names_its_cause_witness:
  "list_ex (\<lambda>g. is_under ''Data/a'' (pg_root g) CaseInsensitive) sample_grants"
proof -
  have "authorize_path ''Data/a'' PathMode.Read sample_grants CaseSensitive = Denied CaseMismatch"
    by (simp add: path_evaluation char_of_def bit_Suc_0_iff)
  from path_refusal_names_its_cause [OF this] show ?thesis by simp
qed

text \<open>Among grants of one root the first alone decides: the modes a second one confers are lost, so
  the decision depends on the order in which the same two grants are listed.\<close>

theorem second_grant_of_a_root_is_ignored:
  "authorize_path ''data/log/a'' PathMode.Modify sample_grants CaseSensitive = Denied ModeNotGranted \<and>
   authorize_path ''data/log/a'' PathMode.Modify (List.rev sample_grants) CaseSensitive = Allowed ''data/log/a'' ''data/log''"
  by (simp add: path_evaluation)

end
