(* ===== verification/Ordered_Map.thy ===== *)
theory Ordered_Map
  imports Prelude "HOL-Library.Product_Lexorder" "HOL-Library.Option_ord"
begin

text \<open>
  \<open>BTreeMap\<close> as the code uses it: the entries in ascending order of their keys, where the derived
  \<open>Ord\<close> of a key type is given by an injection into a linear order (the tuple of its fields).
\<close>

fun btree_insert :: "('k \<Rightarrow> 'o::linorder) \<Rightarrow> 'k \<Rightarrow> 'v \<Rightarrow> ('k \<times> 'v) list \<Rightarrow> ('k \<times> 'v) list" where
  "btree_insert key k v [] = [(k, v)]"
| "btree_insert key k v (e # m) =
     (if key k < key (fst e) then (k, v) # e # m
      else if key k = key (fst e) then (k, v) # m
      else e # btree_insert key k v m)"

definition btree_remove :: "'k \<Rightarrow> ('k \<times> 'v) list \<Rightarrow> ('k \<times> 'v) list" where
  "btree_remove k m = filter (\<lambda>e. fst e \<noteq> k) m"

definition btree_ok :: "('k \<Rightarrow> 'o::linorder) \<Rightarrow> ('k \<times> 'v) list \<Rightarrow> bool" where
  "btree_ok key m = sorted_wrt (<) (map (\<lambda>e. key (fst e)) m)"

text \<open>\<open>Iterator::min_by_key\<close>: the first of the least elements.\<close>

fun min_by_key :: "('a \<Rightarrow> 'o::linorder) \<Rightarrow> 'a list \<Rightarrow> 'a option" where
  "min_by_key f [] = None"
| "min_by_key f (x # xs) =
     (case min_by_key f xs of None \<Rightarrow> Some x | Some y \<Rightarrow> if f y < f x then Some y else Some x)"

lemma min_by_key_Some: "min_by_key f xs = Some x \<Longrightarrow> x \<in> set xs \<and> list_all (\<lambda>y. f x \<le> f y) xs"
proof (induction xs arbitrary: x)
  case (Cons a xs)
  show ?case
  proof (cases "min_by_key f xs")
    case None
    then have "xs = []" by (cases xs) (auto split: option.split_asm if_split_asm)
    with Cons.prems show ?thesis by simp
  next
    case (Some y)
    with Cons.IH [OF Some] Cons.prems show ?thesis by (auto simp: list_all_iff split: if_split_asm)
  qed
qed simp

lemma min_by_key_None [simp]: "min_by_key f xs = None \<longleftrightarrow> xs = []"
  by (cases xs) (auto split: option.split)

lemma set_btree_insert: "set (btree_insert key k v m) \<subseteq> insert (k, v) (set m)"
  by (induction m) auto

lemma length_btree_insert: "length (btree_insert key k v m) \<le> Suc (length m)"
  by (induction m) auto

lemma set_btree_remove [simp]: "set (btree_remove k m) = {e \<in> set m. fst e \<noteq> k}"
  by (auto simp: btree_remove_def)

lemma map_of_btree_remove: "map_of (btree_remove k m) = (map_of m)(k := None)"
  by (induction m) (auto simp: btree_remove_def)

lemma length_btree_remove: "length (btree_remove k m) \<le> length m"
  by (simp add: btree_remove_def)

lemma btree_ok_filter: "btree_ok key m \<Longrightarrow> btree_ok key (filter p m)"
  by (induction m) (auto simp: btree_ok_def)

lemma btree_ok_remove: "btree_ok key m \<Longrightarrow> btree_ok key (btree_remove k m)"
  by (simp add: btree_remove_def btree_ok_filter)

lemma btree_ok_insert: "btree_ok key m \<Longrightarrow> btree_ok key (btree_insert key k v m)"
proof (induction m)
  case (Cons e m)
  then have above: "\<forall>d \<in> set m. key (fst e) < key (fst d)" and m: "btree_ok key m" by (auto simp: btree_ok_def)
  have "\<forall>d \<in> set (btree_insert key k v m). key (fst e) < key (fst d)" if "key (fst e) < key k"
    using above that set_btree_insert [of key k v m] by fastforce
  with Cons above m show ?case by (auto simp: btree_ok_def not_less)
qed (simp add: btree_ok_def)

section \<open>The contract of a key type\<close>

locale btree_key =
  fixes key :: "'k \<Rightarrow> 'o::linorder"
  assumes key_inj: "key a = key b \<Longrightarrow> a = b"
begin

lemma distinct_keys: "btree_ok key m \<Longrightarrow> distinct (map fst m)"
  by (induction m) (auto simp: btree_ok_def)

lemma map_of_insert: "btree_ok key m \<Longrightarrow> map_of (btree_insert key k v m) = (map_of m)(k \<mapsto> v)"
proof (induction m)
  case (Cons e m)
  then have m: "btree_ok key m" by (simp add: btree_ok_def)
  have eq: "key k = key (fst e) \<longleftrightarrow> k = fst e" using key_inj by auto
  show ?case
  proof (cases "key k = key (fst e)")
    case True
    with eq show ?thesis by (cases e) auto
  next
    case False
    with eq Cons.IH [OF m] show ?thesis by (cases e) (auto simp: fun_upd_twist)
  qed
qed simp

lemma map_of_filter_keys: "btree_ok key m \<Longrightarrow> map_of (filter (\<lambda>e. p (fst e)) m) = (\<lambda>k. if p k then map_of m k else None)"
  by (induction m) (auto simp: btree_ok_def fun_eq_iff)

lemma in_set_iff: "btree_ok key m \<Longrightarrow> (k, v) \<in> set m \<longleftrightarrow> map_of m k = Some v"
  using distinct_keys map_of_eq_Some_iff by metis

lemma length_insert: "btree_ok key m \<Longrightarrow>
    length (btree_insert key k v m) = (if map_of m k = None then Suc (length m) else length m)"
proof -
  assume m: "btree_ok key m"
  have "length (btree_insert key k v m) = card (dom ((map_of m)(k \<mapsto> v)))"
    using distinct_keys [OF btree_ok_insert [OF m]] map_of_insert [OF m]
    by (metis dom_map_of_conv_image_fst distinct_card length_map list.set_map)
  moreover have "length m = card (dom (map_of m))"
    using distinct_keys [OF m] by (metis dom_map_of_conv_image_fst distinct_card length_map list.set_map)
  ultimately show ?thesis by (auto simp: finite_dom_map_of domIff insert_absorb)
qed

end

end
