(* ===== verification/Tool_Registry.thy ===== *)
theory Tool_Registry
  imports Tool_Definition Ordered_Map Interfaces
begin

text \<open>
  \<open>tool/registry.rs\<close>: which definitions are registered, and which server configuration speaks for which
  source. A source is claimed by the first server that registers a tool of it, and released with the
  last tool.
\<close>

definition MAX_REGISTERED_TOOLS :: nat where "MAX_REGISTERED_TOOLS = 4096"

section \<open>Names\<close>

type_synonym ServerConfigId = string

definition server_config_byte :: "char \<Rightarrow> bool" where
  "server_config_byte c \<longleftrightarrow> is_ascii_lowercase c \<or> is_ascii_digit c \<or> c \<in> {CHR ''.'', CHR ''_'', CHR ''-''}"

definition server_config_id_new :: "string \<Rightarrow> DomainError + ServerConfigId" where
  "server_config_id_new value =
     (if value \<noteq> [] \<and> length value \<le> 128 \<and> list_all server_config_byte value then Ok value
      else Err (ToolDefinitionInvalid ''server_config_id''))"

text \<open>\<open>capabilities\<close> is a \<open>BTreeSet\<close>: its elements in ascending order, none twice.\<close>

record DiscoveryScope =
  ds_server :: ServerConfigId
  ds_principal :: uuid
  ds_workspace :: uuid
  ds_protocol_version :: string
  ds_capabilities :: "string list"

definition MAX_PROTOCOL_BYTES :: nat where "MAX_PROTOCOL_BYTES = 64"

definition discovery_scope_new ::
  "ServerConfigId \<Rightarrow> uuid \<Rightarrow> uuid \<Rightarrow> string \<Rightarrow> string list \<Rightarrow> DomainError + DiscoveryScope"
where
  "discovery_scope_new server who workspace protocol_version capabilities =
     (if protocol_version = [] \<or> length protocol_version > MAX_PROTOCOL_BYTES \<or> has_control protocol_version
        then Err (ToolDefinitionInvalid ''protocol_version'')
      else if length capabilities > MAX_TOOL_SCOPES * 4 \<or>
          list_ex (\<lambda>capability. capability = [] \<or> length capability > MAX_PROTOCOL_BYTES \<or> has_control capability) capabilities
        then Err (ToolDefinitionInvalid ''capabilities'')
      else Ok \<lparr>ds_server = server, ds_principal = who, ds_workspace = workspace,
               ds_protocol_version = protocol_version, ds_capabilities = capabilities\<rparr>)"

type_synonym ListVersion = string

definition list_version_new :: "string \<Rightarrow> DomainError + ListVersion" where
  "list_version_new value =
     (if value = [] \<or> length value > 128 \<or> has_control value then Err (ToolDefinitionInvalid ''list_version'')
      else Ok value)"

record DiscoveryCacheKey =
  ck_scope :: DiscoveryScope
  ck_list_version :: ListVersion

section \<open>The derived orders\<close>

text \<open>A struct compares its fields in the order they are declared, an enum its variants.\<close>

primrec kind_rank :: "SourceKind \<Rightarrow> nat" where
  "kind_rank SourceKind.Native = 0"
| "kind_rank SourceKind.Connector = 1"
| "kind_rank SourceKind.McpServer = 2"
| "kind_rank SourceKind.Runtime = 3"
| "kind_rank SourceKind.Plugin = 4"

definition version_key :: "ToolVersion \<Rightarrow> u32 \<times> u32 \<times> u32 \<times> string option" where
  "version_key v = (tv_major v, tv_minor v, tv_patch v, tv_pre_release v)"

definition source_key :: "ToolSource \<Rightarrow> nat \<times> string \<times> u32 \<times> u32 \<times> u32 \<times> string option" where
  "source_key s = (kind_rank (ts_kind s), ts_owner s, version_key (ts_version s))"

definition identity_key ::
  "ToolIdentity \<Rightarrow> (string \<times> string \<times> u32) \<times> (nat \<times> string \<times> u32 \<times> u32 \<times> u32 \<times> string option) \<times> u8 list"
where
  "identity_key i =
     ((tc_namespace (ti_capability i), tc_name (ti_capability i), tc_major (ti_capability i)),
      source_key (ti_source i), ti_schema_fingerprint i)"

lemma source_kind_rank_inject: "kind_rank a = kind_rank b \<Longrightarrow> a = b"
  by (cases a; cases b) simp_all

interpretation source_tree: btree_key source_key
proof unfold_locales
  show "a = b" if "source_key a = source_key b" for a b :: ToolSource
    using that source_kind_rank_inject by (auto simp: source_key_def version_key_def)
qed

interpretation identity_tree: btree_key identity_key
proof unfold_locales
  show "a = b" if "identity_key a = identity_key b" for a b :: ToolIdentity
    using that source_tree.key_inj by (auto simp: identity_key_def)
qed

section \<open>The registry\<close>

record RegisteredTool =
  rg_definition :: ToolDefinition
  rg_server :: ServerConfigId

datatype RegistrationOutcome = Added | Unchanged | Replaced

datatype Replacement = ReplacementRefused | ReplacementAllowed

record RegistrationRequest =
  rq_definition :: ToolDefinition
  rq_server :: ServerConfigId
  rq_replacement :: Replacement

definition registration_request_new :: "ToolDefinition \<Rightarrow> ServerConfigId \<Rightarrow> RegistrationRequest" where
  "registration_request_new tool server =
     \<lparr>rq_definition = tool, rq_server = server, rq_replacement = ReplacementRefused\<rparr>"

definition registration_request_replacing :: "ToolDefinition \<Rightarrow> ServerConfigId \<Rightarrow> RegistrationRequest" where
  "registration_request_replacing tool server =
     \<lparr>rq_definition = tool, rq_server = server, rq_replacement = ReplacementAllowed\<rparr>"

record ToolRegistry =
  tr_by_identity :: "(ToolIdentity \<times> RegisteredTool) list"
  tr_source_claims :: "(ToolSource \<times> ServerConfigId) list"

definition tool_registry_new :: ToolRegistry where
  "tool_registry_new = \<lparr>tr_by_identity = [], tr_source_claims = []\<rparr>"

definition registry_len :: "ToolRegistry \<Rightarrow> nat" where
  "registry_len self = length (tr_by_identity self)"

definition register :: "ToolRegistry \<Rightarrow> RegistrationRequest \<Rightarrow> (DomainError + RegistrationOutcome) \<times> ToolRegistry" where
  "register self request =
     (let tool = \<lparr>rg_definition = rq_definition request, rg_server = rq_server request\<rparr>;
          identity = td_identity (rq_definition request) in
      if is_some_and (map_of (tr_source_claims self) (ti_source identity)) (\<lambda>claimant. claimant \<noteq> rq_server request)
        then (Err ToolSourceConflict, self)
      else case map_of (tr_by_identity self) identity of
          Some existing \<Rightarrow>
            if rg_definition existing = rq_definition request then (Ok Unchanged, self)
            else if rq_replacement request = ReplacementRefused then (Err ToolIdentityConflict, self)
            else (Ok Replaced, self\<lparr>tr_by_identity := btree_insert identity_key identity tool (tr_by_identity self)\<rparr>)
        | None \<Rightarrow>
            if length (tr_by_identity self) \<ge> MAX_REGISTERED_TOOLS then (Err (ToolDefinitionInvalid ''registry''), self)
            else
              (Ok Added,
               self\<lparr>tr_source_claims :=
                      (if map_of (tr_source_claims self) (ti_source identity) = None
                       then btree_insert source_key (ti_source identity) (rq_server request) (tr_source_claims self)
                       else tr_source_claims self),
                    tr_by_identity := btree_insert identity_key identity tool (tr_by_identity self)\<rparr>))"

definition deregister :: "ToolRegistry \<Rightarrow> ToolIdentity \<Rightarrow> bool \<times> ToolRegistry" where
  "deregister self identity =
     (case map_of (tr_by_identity self) identity of
        None \<Rightarrow> (False, self)
      | Some removed \<Rightarrow>
          (let by_identity = btree_remove identity (tr_by_identity self);
               source = ti_source (td_identity (rg_definition removed));
               source_still_claimed =
                 list_ex (\<lambda>tool. ti_source (td_identity (rg_definition tool)) = source) (map snd by_identity) in
           (True,
            \<lparr>tr_by_identity = by_identity,
             tr_source_claims =
               (if \<not> source_still_claimed then btree_remove source (tr_source_claims self)
                else tr_source_claims self)\<rparr>)))"

definition registry_get :: "ToolRegistry \<Rightarrow> ToolIdentity \<Rightarrow> RegisteredTool option" where
  "registry_get self identity = map_of (tr_by_identity self) identity"

definition by_capability :: "ToolRegistry \<Rightarrow> ToolCapability \<Rightarrow> RegisteredTool list" where
  "by_capability self capability =
     map snd (filter (\<lambda>(identity, _). ti_capability identity = capability) (tr_by_identity self))"

definition source_claimant :: "ToolRegistry \<Rightarrow> ToolSource \<Rightarrow> ServerConfigId option" where
  "source_claimant self source = map_of (tr_source_claims self) source"

definition all_unfiltered :: "ToolRegistry \<Rightarrow> RegisteredTool list" where
  "all_unfiltered self = map snd (tr_by_identity self)"

definition registered_source_kinds :: "ToolRegistry \<Rightarrow> SourceKind set" where
  "registered_source_kinds self =
     set (map (\<lambda>(_, tool). ts_kind (ti_source (td_identity (rg_definition tool)))) (tr_by_identity self))"

section \<open>The invariant\<close>

definition registry_ok :: "ToolRegistry \<Rightarrow> bool" where
  "registry_ok r \<longleftrightarrow>
     btree_ok identity_key (tr_by_identity r) \<and> btree_ok source_key (tr_source_claims r) \<and>
     length (tr_by_identity r) \<le> MAX_REGISTERED_TOOLS \<and>
     (\<forall>i t. registry_get r i = Some t \<longrightarrow>
        td_identity (rg_definition t) = i \<and> source_claimant r (ti_source i) = Some (rg_server t)) \<and>
     (\<forall>s c. source_claimant r s = Some c \<longrightarrow> (\<exists>i t. registry_get r i = Some t \<and> ti_source i = s))"

inductive registry_reachable :: "ToolRegistry \<Rightarrow> bool" where
  new: "registry_reachable tool_registry_new"
| register: "registry_reachable r \<Longrightarrow> registry_reachable (snd (register r q))"
| deregister: "registry_reachable r \<Longrightarrow> registry_reachable (snd (deregister r i))"

inductive_cases registry_reachableE: "registry_reachable r"

lemma registry_ok_new: "registry_ok tool_registry_new"
  by (simp add: registry_ok_def tool_registry_new_def btree_ok_def registry_get_def source_claimant_def)

lemma registry_ok_trees:
  assumes "registry_ok r"
  shows "btree_ok identity_key (tr_by_identity r)" and "btree_ok source_key (tr_source_claims r)"
    and "length (tr_by_identity r) \<le> MAX_REGISTERED_TOOLS"
  using assms by (simp_all add: registry_ok_def)

lemma registry_ok_tool:
  assumes "registry_ok r" and "registry_get r i = Some t"
  shows "td_identity (rg_definition t) = i" and "source_claimant r (ti_source i) = Some (rg_server t)"
  using assms by (auto simp: registry_ok_def)

text \<open>What the two operations do, read through the accessors.\<close>

lemma register_cases:
  assumes "registry_ok r" and "register r q = (res, r')" and "i = td_identity (rq_definition q)"
    and "t = \<lparr>rg_definition = rq_definition q, rg_server = rq_server q\<rparr>"
  obtains "r' = r" "res \<noteq> Ok Added" "res \<noteq> Ok Replaced"
  | u where "res = Ok Replaced" "registry_get r i = Some u" "rq_replacement q = ReplacementAllowed" "rg_server u = rq_server q"
      "rg_definition u \<noteq> rq_definition q"
      "r' = r\<lparr>tr_by_identity := btree_insert identity_key i t (tr_by_identity r)\<rparr>"
  | "res = Ok Added" "registry_get r i = None" "registry_len r < MAX_REGISTERED_TOOLS"
      "source_claimant r (ti_source i) \<in> {None, Some (rq_server q)}"
      "tr_by_identity r' = btree_insert identity_key i t (tr_by_identity r)"
      "tr_source_claims r' = (if source_claimant r (ti_source i) = None
         then btree_insert source_key (ti_source i) (rq_server q) (tr_source_claims r) else tr_source_claims r)"
proof (cases "is_some_and (source_claimant r (ti_source i)) (\<lambda>c. c \<noteq> rq_server q)")
  case True
  with assms that(1) show ?thesis by (auto simp: register_def source_claimant_def)
next
  case False
  then have claim: "source_claimant r (ti_source i) \<in> {None, Some (rq_server q)}"
    by (cases "source_claimant r (ti_source i)") auto
  show ?thesis
  proof (cases "registry_get r i")
    case None
    show ?thesis
    proof (cases "length (tr_by_identity r) \<ge> MAX_REGISTERED_TOOLS")
      case True
      with None False assms that(1) show ?thesis by (auto simp: register_def source_claimant_def registry_get_def)
    next
      case small: False
      from None False assms small have "res = Ok Added" "tr_by_identity r' = btree_insert identity_key i t (tr_by_identity r)"
        "tr_source_claims r' = (if source_claimant r (ti_source i) = None
         then btree_insert source_key (ti_source i) (rq_server q) (tr_source_claims r) else tr_source_claims r)"
        by (auto simp: register_def source_claimant_def registry_get_def Let_def)
      with that(3) None claim small show ?thesis by (simp add: registry_len_def)
    qed
  next
    case (Some u)
    with assms(1) have "source_claimant r (ti_source i) = Some (rg_server u)" by (auto simp: registry_ok_def)
    with claim have s: "rg_server u = rq_server q" by auto
    show ?thesis
    proof (cases "rg_definition u = rq_definition q \<or> rq_replacement q = ReplacementRefused")
      case True
      with Some False assms that(1) show ?thesis
        by (auto simp: register_def source_claimant_def registry_get_def Let_def split: if_split_asm)
    next
      case no: False
      then have "rq_replacement q = ReplacementAllowed" by (cases "rq_replacement q") auto
      moreover have "res = Ok Replaced" "r' = r\<lparr>tr_by_identity := btree_insert identity_key i t (tr_by_identity r)\<rparr>"
        using no Some False assms by (auto simp: register_def source_claimant_def registry_get_def Let_def)
      ultimately show ?thesis using that(2) Some s no by blast
    qed
  qed
qed

lemma register_get:
  assumes "registry_ok r" and "register r q = (res, r')"
  shows "registry_get r' j =
    (if j = td_identity (rq_definition q) \<and> (res = Ok Added \<or> res = Ok Replaced)
     then Some \<lparr>rg_definition = rq_definition q, rg_server = rq_server q\<rparr> else registry_get r j)"
  by (cases rule: register_cases [OF assms refl refl])
    (auto simp: registry_get_def identity_tree.map_of_insert [OF registry_ok_trees(1) [OF assms(1)]])

lemma register_claim:
  assumes "registry_ok r" and "register r q = (res, r')"
  shows "source_claimant r' s =
    (if s = ti_source (td_identity (rq_definition q)) \<and> (res = Ok Added \<or> res = Ok Replaced)
     then Some (rq_server q) else source_claimant r s)"
proof (cases rule: register_cases [OF assms refl refl])
  case (2 u)
  then show ?thesis using registry_ok_tool(2) [OF assms(1)] by (auto simp: source_claimant_def)
next
  case 3
  then show ?thesis
    by (auto simp: source_claimant_def source_tree.map_of_insert [OF registry_ok_trees(2) [OF assms(1)]])
qed auto

lemma register_ok: "registry_ok r \<Longrightarrow> registry_ok (snd (register r q))"
proof -
  assume r: "registry_ok r"
  obtain res r' where s: "register r q = (res, r')" by fastforce
  let ?i = "td_identity (rq_definition q)"
  have trees: "btree_ok identity_key (tr_by_identity r') \<and> btree_ok source_key (tr_source_claims r') \<and>
      length (tr_by_identity r') \<le> MAX_REGISTERED_TOOLS"
    by (cases rule: register_cases [OF r s refl refl])
      (auto simp: registry_get_def registry_len_def registry_ok_trees [OF r] btree_ok_insert
        identity_tree.length_insert [OF registry_ok_trees(1) [OF r]])
  have tools: "td_identity (rg_definition t) = i \<and> source_claimant r' (ti_source i) = Some (rg_server t)"
    if "registry_get r' i = Some t" for i t
  proof (cases "res = Ok Added \<or> res = Ok Replaced")
    case False
    with that r show ?thesis by (auto simp: register_get [OF r s] register_claim [OF r s] registry_ok_def)
  next
    case True
    show ?thesis
    proof (cases "i = ?i")
      case True
      with that \<open>res = Ok Added \<or> res = Ok Replaced\<close> show ?thesis by (auto simp: register_get [OF r s] register_claim [OF r s])
    next
      case False
      with that have g: "registry_get r i = Some t" by (simp add: register_get [OF r s])
      then have "td_identity (rg_definition t) = i" "source_claimant r (ti_source i) = Some (rg_server t)"
        using r by (auto simp: registry_ok_def)
      moreover have "rg_server t = rq_server q" if "ti_source i = ti_source ?i"
        using True calculation that r
        by (cases rule: register_cases [OF r s refl refl]) (auto simp: registry_ok_def)
      ultimately show ?thesis by (auto simp: register_claim [OF r s])
    qed
  qed
  have claims: "\<exists>i t. registry_get r' i = Some t \<and> ti_source i = x" if "source_claimant r' x = Some c" for x c
  proof (cases "x = ti_source ?i \<and> (res = Ok Added \<or> res = Ok Replaced)")
    case True
    then show ?thesis by (auto simp: register_get [OF r s])
  next
    case False
    with that have "source_claimant r x = Some c" by (auto simp: register_claim [OF r s] split: if_split_asm)
    with r obtain i t where "registry_get r i = Some t" "ti_source i = x" by (auto simp: registry_ok_def)
    then show ?thesis by (intro exI [of _ i]) (auto simp: register_get [OF r s])
  qed
  show ?thesis using trees tools claims s by (auto simp: registry_ok_def)
qed

lemma deregister_get: "registry_get (snd (deregister r i)) j = (if j = i then None else registry_get r j)"
  by (auto simp: deregister_def registry_get_def map_of_btree_remove Let_def split: option.split)

lemma deregister_claim:
  assumes r: "registry_ok r"
  shows "source_claimant (snd (deregister r i)) s =
    (if \<exists>j t. registry_get (snd (deregister r i)) j = Some t \<and> ti_source j = s then source_claimant r s else None)"
proof (cases "registry_get r i")
  case None
  then have "snd (deregister r i) = r" by (simp add: deregister_def registry_get_def)
  with r show ?thesis by (cases "source_claimant r s") (auto simp: registry_ok_def)
next
  case (Some u)
  let ?r = "snd (deregister r i)"
  have u: "td_identity (rg_definition u) = i" by (rule registry_ok_tool(1) [OF r Some])
  have in_get: "(j, t) \<in> set (tr_by_identity r) \<longleftrightarrow> registry_get r j = Some t" for j t
    using identity_tree.in_set_iff [OF registry_ok_trees(1) [OF r]] by (simp add: registry_get_def)
  have ex: "list_ex (\<lambda>tool. ti_source (td_identity (rg_definition tool)) = x) (map snd (btree_remove i (tr_by_identity r))) \<longleftrightarrow>
      (\<exists>j t. registry_get ?r j = Some t \<and> ti_source j = x)" for x
  proof
    assume "list_ex (\<lambda>tool. ti_source (td_identity (rg_definition tool)) = x) (map snd (btree_remove i (tr_by_identity r)))"
    then obtain j t where "(j, t) \<in> set (tr_by_identity r)" "j \<noteq> i" "ti_source (td_identity (rg_definition t)) = x"
      by (auto simp: list_ex_iff)
    then show "\<exists>j t. registry_get ?r j = Some t \<and> ti_source j = x"
      using registry_ok_tool(1) [OF r] by (intro exI [of _ j]) (auto simp: in_get deregister_get)
  next
    assume "\<exists>j t. registry_get ?r j = Some t \<and> ti_source j = x"
    then obtain j t where j: "j \<noteq> i" "registry_get r j = Some t" "ti_source j = x"
      by (auto simp: deregister_get split: if_split_asm)
    with in_get registry_ok_tool(1) [OF r] show "list_ex (\<lambda>tool. ti_source (td_identity (rg_definition tool)) = x) (map snd (btree_remove i (tr_by_identity r)))"
      by (force simp: list_ex_iff)
  qed
  have claims: "tr_source_claims ?r =
      (if list_ex (\<lambda>tool. ti_source (td_identity (rg_definition tool)) = ti_source i) (map snd (btree_remove i (tr_by_identity r)))
       then tr_source_claims r else btree_remove (ti_source i) (tr_source_claims r))"
    using Some u by (simp add: deregister_def registry_get_def Let_def)
  show ?thesis
  proof (cases "s = ti_source i")
    case True
    have "source_claimant ?r s = (if \<exists>j t. registry_get ?r j = Some t \<and> ti_source j = s then source_claimant r s else None)"
      unfolding True source_claimant_def claims ex by (simp only: if_distrib [of map_of] if_distrib [of "\<lambda>m. m (ti_source i)"] map_of_btree_remove fun_upd_same)
    then show ?thesis .
  next
    case False
    then have "source_claimant ?r s = source_claimant r s"
      by (simp add: source_claimant_def claims map_of_btree_remove)
    moreover have "\<exists>j t. registry_get ?r j = Some t \<and> ti_source j = s" if c: "source_claimant r s = Some c" for c
    proof -
      from r c obtain j t where "registry_get r j = Some t" "ti_source j = s" by (auto simp: registry_ok_def)
      with False show ?thesis by (intro exI [of _ j]) (auto simp: deregister_get)
    qed
    ultimately show ?thesis by (cases "source_claimant r s") auto
  qed
qed

lemma deregister_ok: "registry_ok r \<Longrightarrow> registry_ok (snd (deregister r i))"
proof -
  assume r: "registry_ok r"
  let ?r = "snd (deregister r i)"
  have "btree_ok identity_key (tr_by_identity ?r) \<and> btree_ok source_key (tr_source_claims ?r) \<and>
      length (tr_by_identity ?r) \<le> MAX_REGISTERED_TOOLS"
    using registry_ok_trees [OF r] length_btree_remove [of i "tr_by_identity r"]
    by (auto simp: deregister_def btree_ok_remove Let_def split: option.split)
  moreover have "td_identity (rg_definition t) = j \<and> source_claimant ?r (ti_source j) = Some (rg_server t)"
    if g: "registry_get ?r j = Some t" for j t
  proof -
    from g have "registry_get r j = Some t" by (simp add: deregister_get split: if_split_asm)
    from registry_ok_tool [OF r this] g show ?thesis by (auto simp: deregister_claim [OF r])
  qed
  moreover have "\<exists>j t. registry_get ?r j = Some t \<and> ti_source j = s" if "source_claimant ?r s = Some c" for s c
    using that by (auto simp: deregister_claim [OF r] split: if_split_asm)
  ultimately show ?thesis unfolding registry_ok_def by blast
qed

lemma reachable_registry_ok: "registry_reachable r \<Longrightarrow> registry_ok r"
  by (induction rule: registry_reachable.induct) (simp_all add: registry_ok_new register_ok deregister_ok)

section \<open>Properties\<close>

text \<open>A source speaks for one server: after any registrations and removals, two registered tools that
  name the same source were registered by the same server configuration, which is the claimant of that
  source; a source with no registered tool is claimed by nobody.\<close>

theorem source_has_one_server:
  assumes "registry_reachable r" and "registry_get r i = Some t" and "ti_source i = s"
  shows "source_claimant r s = Some (rg_server t) \<and> td_identity (rg_definition t) = i \<and>
    (source_claimant r z = None \<longleftrightarrow> list_all (\<lambda>u. ti_source (td_identity (rg_definition u)) \<noteq> z) (all_unfiltered r))"
proof -
  note r = reachable_registry_ok [OF assms(1)]
  have in_get: "(j, u) \<in> set (tr_by_identity r) \<longleftrightarrow> registry_get r j = Some u" for j u
    using identity_tree.in_set_iff [OF registry_ok_trees(1) [OF r]] by (simp add: registry_get_def)
  have "source_claimant r z = None \<longleftrightarrow> \<not> (\<exists>j u. registry_get r j = Some u \<and> ti_source j = z)"
    using r registry_ok_tool(2) [OF r] by (cases "source_claimant r z") (auto simp: registry_ok_def)
  also have "\<dots> \<longleftrightarrow> list_all (\<lambda>u. ti_source (td_identity (rg_definition u)) \<noteq> z) (all_unfiltered r)"
    using registry_ok_tool(1) [OF r] by (fastforce simp: all_unfiltered_def list_all_iff simp flip: in_get)
  finally show ?thesis using registry_ok_tool [OF r assms(2)] assms(3) by simp
qed

text \<open>Registration never changes another tool, and changes a registered one only on request: what is
  registered afterwards is what was, but for the identity of the request when the outcome is \<open>Added\<close> or
  \<open>Replaced\<close>; \<open>Replaced\<close> is answered only to a request that allows it, from the server that registered
  the tool, with other content.\<close>

theorem registration_changes_only_its_identity:
  assumes "registry_reachable r" and "register r q = (res, r')" and "i = td_identity (rq_definition q)"
  shows "registry_get r' j =
      (if j = i \<and> (res = Ok Added \<or> res = Ok Replaced)
       then Some \<lparr>rg_definition = rq_definition q, rg_server = rq_server q\<rparr> else registry_get r j) \<and>
    (res = Ok Added \<longrightarrow> registry_get r i = None) \<and>
    (res = Ok Replaced \<longrightarrow> rq_replacement q = ReplacementAllowed \<and>
       is_some_and (registry_get r i) (\<lambda>u. rg_server u = rq_server q \<and> rg_definition u \<noteq> rq_definition q))"
proof -
  note r = reachable_registry_ok [OF assms(1)]
  have "(res = Ok Added \<longrightarrow> registry_get r i = None) \<and>
    (res = Ok Replaced \<longrightarrow> rq_replacement q = ReplacementAllowed \<and>
       is_some_and (registry_get r i) (\<lambda>u. rg_server u = rq_server q \<and> rg_definition u \<noteq> rq_definition q))"
    using assms(3) by (cases rule: register_cases [OF r assms(2) refl refl]) auto
  then show ?thesis using register_get [OF r assms(2)] assms(3) by simp
qed

section \<open>A sample registry\<close>

definition sample_identity :: ToolIdentity where
  "sample_identity =
     \<lparr>ti_capability = \<lparr>tc_namespace = ''fs'', tc_name = ''read'', tc_major = 1\<rparr>,
      ti_source = \<lparr>ts_kind = SourceKind.McpServer, ts_owner = ''acme'',
        ts_version = \<lparr>tv_major = 1, tv_minor = 0, tv_patch = 0, tv_pre_release = None\<rparr>\<rparr>,
      ti_schema_fingerprint = replicate 32 0\<rparr>"

definition sample_definition :: "string \<Rightarrow> ToolDefinition" where
  "sample_definition purpose =
     \<lparr>td_identity = sample_identity, td_display_name = ''read'', td_purpose = purpose,
      td_source_version = ts_version (ti_source sample_identity), td_effects = [Effect.ReadOnly],
      td_risk = Risk.Low, td_required_scopes = [], td_default_approval = ApprovalHint.Allow,
      td_idempotency = Idempotency.NaturallyIdempotent,
      td_data_classes = \<lparr>dc_input = Sensitivity.Internal, dc_output = Sensitivity.Internal\<rparr>,
      td_execution = \<lparr>xd_timeout_ms = 1000, xd_max_attempts = 1\<rparr>\<rparr>"

definition sample_registry :: ToolRegistry where
  "sample_registry = snd (register tool_registry_new (registration_request_new (sample_definition ''a'') ''s1''))"

lemma sample_registry_get:
  "registry_get sample_registry sample_identity = Some \<lparr>rg_definition = sample_definition ''a'', rg_server = ''s1''\<rparr>"
  by (simp add: sample_registry_def register_def tool_registry_new_def registration_request_new_def registry_get_def
      MAX_REGISTERED_TOOLS_def sample_definition_def Let_def)

lemma sample_registry_reachable: "registry_reachable sample_registry"
  unfolding sample_registry_def by (intro registry_reachable.intros)

theorem source_has_one_server_witness: "source_claimant sample_registry (ti_source sample_identity) = Some ''s1''"
  using source_has_one_server [OF sample_registry_reachable sample_registry_get refl] by simp

theorem registration_changes_only_its_identity_witness:
  "registry_get (snd (register sample_registry (registration_request_replacing (sample_definition ''b'') ''s2''))) sample_identity =
     Some \<lparr>rg_definition = sample_definition ''a'', rg_server = ''s1''\<rparr>"
proof -
  let ?q = "registration_request_replacing (sample_definition ''b'') ''s2''"
  have q: "rq_server ?q = ''s2''" "td_identity (rq_definition ?q) = sample_identity"
    by (simp_all add: registration_request_replacing_def sample_definition_def)
  have "fst (register sample_registry ?q) = Err ToolSourceConflict"
    by (simp add: register_def registration_request_replacing_def sample_registry_def tool_registry_new_def registration_request_new_def
        MAX_REGISTERED_TOOLS_def sample_definition_def Let_def)
  with registration_changes_only_its_identity
    [OF sample_registry_reachable surjective_pairing q(2) [symmetric], of sample_identity]
  show ?thesis by (simp add: sample_registry_get)
qed

end
