(* ===== verification/Tool_Discovery.thy ===== *)
theory Tool_Discovery
  imports Tool_Registry
begin

text \<open>
  \<open>tool/discovery.rs\<close>: what a server answered when asked for its tools, kept per scope. The key of an
  answer is every dimension that could make it wrong for another question.
\<close>

definition DISCOVERY_TTL_DAYS :: int where "DISCOVERY_TTL_DAYS = 1"
definition MAX_DISCOVERY_ENTRIES :: nat where "MAX_DISCOVERY_ENTRIES = 512"

record DiscoveredCatalog =
  dg_key :: DiscoveryCacheKey
  dg_server :: ServerConfigId
  dg_tools :: "ToolDefinition list"
  dg_stored_at :: int
  dg_revalidate_by :: int

definition catalog_is_fresh_on :: "DiscoveredCatalog \<Rightarrow> int \<Rightarrow> bool" where
  "catalog_is_fresh_on self today \<longleftrightarrow> dg_revalidate_by self \<ge> today"

definition catalog_capabilities :: "DiscoveredCatalog \<Rightarrow> ToolCapability set" where
  "catalog_capabilities self = set (map (\<lambda>tool. ti_capability (td_identity tool)) (dg_tools self))"

definition catalog_for :: "DiscoveryCacheKey \<Rightarrow> RegisteredTool list \<Rightarrow> int \<Rightarrow> int \<Rightarrow> DiscoveredCatalog" where
  "catalog_for key offered stored_at revalidate_by =
     \<lparr>dg_key = key, dg_server = ds_server (ck_scope key),
      dg_tools = sort_key (\<lambda>tool. identity_key (td_identity tool))
        (map rg_definition (filter (\<lambda>registered. rg_server registered = ds_server (ck_scope key)) offered)),
      dg_stored_at = stored_at, dg_revalidate_by = revalidate_by\<rparr>"

definition cache_key ::
  "DiscoveryCacheKey \<Rightarrow> (string \<times> uuid \<times> uuid \<times> string \<times> string list) \<times> string"
where
  "cache_key k =
     ((ds_server (ck_scope k), ds_principal (ck_scope k), ds_workspace (ck_scope k), ds_protocol_version (ck_scope k),
       ds_capabilities (ck_scope k)), ck_list_version k)"

interpretation cache_tree: btree_key cache_key
proof unfold_locales
  show "a = b" if "cache_key a = cache_key b" for a b :: DiscoveryCacheKey
    using that by (cases a; cases b) (auto simp: cache_key_def)
qed

section \<open>The cache\<close>

type_synonym CacheEntries = "(DiscoveryCacheKey \<times> DiscoveredCatalog) list"

record DiscoveryCache =
  dy_entries :: CacheEntries
  dy_misses :: u64
  dy_stale :: u64

definition discovery_cache_new :: DiscoveryCache where
  "discovery_cache_new = \<lparr>dy_entries = [], dy_misses = 0, dy_stale = 0\<rparr>"

definition cache_counters :: "DiscoveryCache \<Rightarrow> u64 \<times> u64" where
  "cache_counters self = (dy_misses self, dy_stale self)"

lemma length_btree_remove_lt: "x \<in> set m \<Longrightarrow> length (btree_remove (fst x) m) < length m"
  by (auto simp: btree_remove_def intro: length_filter_less)

text \<open>The loop that makes room, oldest answer first.\<close>

function evict :: "CacheEntries \<Rightarrow> CacheEntries" where
  "evict entries =
     (if length entries \<ge> MAX_DISCOVERY_ENTRIES then
        (case min_by_key (\<lambda>(_, catalog). dg_stored_at catalog) entries of
           None \<Rightarrow> entries
         | Some (oldest, _) \<Rightarrow> evict (btree_remove oldest entries))
      else entries)"
  by auto
termination
  by (relation "measure length") (auto dest!: min_by_key_Some dest: length_btree_remove_lt)

declare evict.simps [simp del]

definition cache_store :: "DiscoveryCache \<Rightarrow> DiscoveredCatalog \<Rightarrow> DiscoveryCache" where
  "cache_store self catalog =
     self\<lparr>dy_entries := btree_insert cache_key (dg_key catalog) catalog (evict (dy_entries self))\<rparr>"

definition get_fresh :: "DiscoveryCache \<Rightarrow> DiscoveryCacheKey \<Rightarrow> int \<Rightarrow> DiscoveredCatalog option \<times> DiscoveryCache" where
  "get_fresh self key today =
     (case map_of (dy_entries self) key of
        None \<Rightarrow> (None, self\<lparr>dy_misses := dy_misses self + 1\<rparr>)
      | Some catalog \<Rightarrow>
          if catalog_is_fresh_on catalog today then (Some catalog, self)
          else (None, self\<lparr>dy_stale := dy_stale self + 1\<rparr>))"

definition invalidate_server :: "DiscoveryCache \<Rightarrow> ServerConfigId \<Rightarrow> nat \<times> DiscoveryCache" where
  "invalidate_server self server =
     (let kept = filter (\<lambda>(key, _). ds_server (ck_scope key) \<noteq> server) (dy_entries self)
      in (length (dy_entries self) - length kept, self\<lparr>dy_entries := kept\<rparr>))"

definition invalidate_below_version :: "DiscoveryCache \<Rightarrow> ServerConfigId \<Rightarrow> ListVersion \<Rightarrow> nat \<times> DiscoveryCache" where
  "invalidate_below_version self server current =
     (let kept = filter (\<lambda>(key, _). ds_server (ck_scope key) \<noteq> server \<or> ck_list_version key = current) (dy_entries self)
      in (length (dy_entries self) - length kept, self\<lparr>dy_entries := kept\<rparr>))"

definition cache_clear :: "DiscoveryCache \<Rightarrow> nat \<times> DiscoveryCache" where
  "cache_clear self = (length (dy_entries self), self\<lparr>dy_entries := []\<rparr>)"

section \<open>The invariant\<close>

definition cache_ok :: "DiscoveryCache \<Rightarrow> bool" where
  "cache_ok c \<longleftrightarrow>
     btree_ok cache_key (dy_entries c) \<and> length (dy_entries c) \<le> MAX_DISCOVERY_ENTRIES \<and>
     (\<forall>k g. map_of (dy_entries c) k = Some g \<longrightarrow> dg_key g = k)"

datatype CacheOp =
    Store DiscoveredCatalog | Get DiscoveryCacheKey int | InvalidateServer ServerConfigId
  | InvalidateBelow ServerConfigId ListVersion | Clear

primrec cache_op :: "DiscoveryCache \<Rightarrow> CacheOp \<Rightarrow> DiscoveryCache" where
  "cache_op c (Store g) = cache_store c g"
| "cache_op c (Get k today) = snd (get_fresh c k today)"
| "cache_op c (InvalidateServer s) = snd (invalidate_server c s)"
| "cache_op c (InvalidateBelow s v) = snd (invalidate_below_version c s v)"
| "cache_op c Clear = snd (cache_clear c)"

lemma evict_props:
  "btree_ok cache_key m \<Longrightarrow> btree_ok cache_key (evict m) \<and> set (evict m) \<subseteq> set m \<and> length (evict m) < MAX_DISCOVERY_ENTRIES"
proof (induction m rule: evict.induct)
  case (1 m)
  show ?case
  proof (cases "length m \<ge> MAX_DISCOVERY_ENTRIES")
    case False
    with 1(2) show ?thesis by (subst (1 2 3) evict.simps) simp
  next
    case True
    then have "m \<noteq> []" by (auto simp: MAX_DISCOVERY_ENTRIES_def)
    then obtain k g where kg: "min_by_key (\<lambda>(_, catalog). dg_stored_at catalog) m = Some (k, g)"
      by (cases "min_by_key (\<lambda>(_, catalog). dg_stored_at catalog) m") auto
    then have e: "evict m = evict (btree_remove k m)" using True by (subst evict.simps) simp
    from 1(1) [OF True kg refl btree_ok_remove [OF 1(2)]] show ?thesis unfolding e by auto
  qed
qed

lemma evict_map_of: "btree_ok cache_key m \<Longrightarrow> map_of (evict m) \<subseteq>\<^sub>m map_of m"
  using evict_props [of m] cache_tree.in_set_iff by (fastforce simp: map_le_def dom_def)

lemma filter_cache_ok:
  assumes "cache_ok c" and "d = c\<lparr>dy_entries := filter (\<lambda>e. p (fst e)) (dy_entries c)\<rparr>"
  shows "cache_ok d"
proof -
  have m: "map_of (dy_entries d) = (\<lambda>k. if p k then map_of (dy_entries c) k else None)"
    using assms cache_tree.map_of_filter_keys [of "dy_entries c" p] by (simp add: cache_ok_def)
  have "length (dy_entries d) \<le> MAX_DISCOVERY_ENTRIES"
    using assms le_trans [OF length_filter_le] by (auto simp: cache_ok_def)
  then show ?thesis using assms m by (auto simp: cache_ok_def btree_ok_filter split: if_split_asm)
qed

lemma store_map_of:
  "cache_ok c \<Longrightarrow> map_of (dy_entries (cache_store c g)) = (map_of (evict (dy_entries c)))(dg_key g \<mapsto> g)"
  using evict_props [of "dy_entries c"] by (auto simp: cache_store_def cache_ok_def cache_tree.map_of_insert)

lemma store_ok: "cache_ok c \<Longrightarrow> cache_ok (cache_store c g)"
proof -
  assume c: "cache_ok c"
  then have e: "btree_ok cache_key (evict (dy_entries c))" "length (evict (dy_entries c)) < MAX_DISCOVERY_ENTRIES"
    "map_of (evict (dy_entries c)) \<subseteq>\<^sub>m map_of (dy_entries c)"
    using evict_props evict_map_of by (auto simp: cache_ok_def)
  have "length (dy_entries (cache_store c g)) \<le> MAX_DISCOVERY_ENTRIES"
    using e(2) length_btree_insert [of cache_key "dg_key g" g "evict (dy_entries c)"] by (simp add: cache_store_def)
  moreover have "btree_ok cache_key (dy_entries (cache_store c g))" using e(1) by (simp add: cache_store_def btree_ok_insert)
  moreover have "dg_key h = k" if "map_of (dy_entries (cache_store c g)) k = Some h" for k h
    using that e(3) c by (fastforce simp: store_map_of [OF c] cache_ok_def map_le_def dom_def split: if_split_asm)
  ultimately show ?thesis by (simp add: cache_ok_def)
qed

lemma cache_op_ok: "cache_ok c \<Longrightarrow> cache_ok (cache_op c op)"
proof (cases op)
  case (InvalidateServer s)
  assume "cache_ok c"
  from filter_cache_ok [OF this refl, of "\<lambda>k. ds_server (ck_scope k) \<noteq> s"] InvalidateServer show ?thesis
    by (simp add: invalidate_server_def Let_def case_prod_unfold)
next
  case (InvalidateBelow s v)
  assume "cache_ok c"
  from filter_cache_ok [OF this refl, of "\<lambda>k. ds_server (ck_scope k) \<noteq> s \<or> ck_list_version k = v"] InvalidateBelow show ?thesis
    by (simp add: invalidate_below_version_def Let_def case_prod_unfold)
next
  case (Store g)
  assume "cache_ok c"
  with Store store_ok show ?thesis by simp
qed (auto simp: get_fresh_def cache_clear_def cache_ok_def btree_ok_def split: option.split)

lemma cache_history_ok: "cache_ok (foldl cache_op discovery_cache_new ops)"
proof -
  have "cache_ok discovery_cache_new" by (simp add: cache_ok_def discovery_cache_new_def btree_ok_def)
  then have "cache_ok c \<Longrightarrow> cache_ok (foldl cache_op c ops)" for c
    by (induction ops arbitrary: c) (simp_all add: cache_op_ok)
  then show ?thesis using \<open>cache_ok discovery_cache_new\<close> by simp
qed

section \<open>Properties\<close>

text \<open>What leaves an answer under a key alone.\<close>

definition harmless :: "DiscoveryCacheKey \<Rightarrow> CacheOp \<Rightarrow> bool" where
  "harmless k op =
     (case op of
        Store g \<Rightarrow> dg_key g \<noteq> k
      | Get _ _ \<Rightarrow> True
      | InvalidateServer s \<Rightarrow> s \<noteq> ds_server (ck_scope k)
      | InvalidateBelow s v \<Rightarrow> s \<noteq> ds_server (ck_scope k) \<or> v = ck_list_version k
      | Clear \<Rightarrow> False)"

lemma cache_op_map_of:
  assumes c: "cache_ok c" and g: "map_of (dy_entries (cache_op c op)) k = Some g"
  shows "op = Store g \<and> dg_key g = k \<or> harmless k op \<and> map_of (dy_entries c) k = Some g"
proof (cases op)
  case (Store h)
  have "map_of (evict (dy_entries c)) \<subseteq>\<^sub>m map_of (dy_entries c)" using c evict_map_of by (simp add: cache_ok_def)
  with Store g show ?thesis
    by (fastforce simp: store_map_of [OF c] harmless_def map_le_def dom_def split: if_split_asm)
next
  case (Get q today)
  with g show ?thesis by (auto simp: get_fresh_def harmless_def split: option.split_asm if_split_asm)
next
  case (InvalidateServer s)
  with g c cache_tree.map_of_filter_keys [of "dy_entries c" "\<lambda>k. ds_server (ck_scope k) \<noteq> s"] show ?thesis
    by (auto simp: invalidate_server_def harmless_def cache_ok_def Let_def case_prod_unfold split: if_split_asm)
next
  case (InvalidateBelow s v)
  with g c cache_tree.map_of_filter_keys [of "dy_entries c" "\<lambda>k. ds_server (ck_scope k) \<noteq> s \<or> ck_list_version k = v"] show ?thesis
    by (auto simp: invalidate_below_version_def harmless_def cache_ok_def Let_def case_prod_unfold split: if_split_asm)
next
  case Clear
  with g show ?thesis by (simp add: cache_clear_def)
qed

lemma history_map_of:
  "map_of (dy_entries (foldl cache_op discovery_cache_new ops)) k = Some g \<Longrightarrow>
     \<exists>before after. ops = before @ Store g # after \<and> dg_key g = k \<and> list_all (harmless k) after"
proof (induction ops rule: rev_induct)
  case Nil
  then show ?case by (simp add: discovery_cache_new_def)
next
  case (snoc op ops)
  from cache_op_map_of [OF cache_history_ok, of ops op k g] snoc.prems
  consider "op = Store g" "dg_key g = k" | "harmless k op" "map_of (dy_entries (foldl cache_op discovery_cache_new ops)) k = Some g"
    by auto
  then show ?case
  proof cases
    case 1
    then show ?thesis by (intro exI [of _ ops] exI [of _ "[]"]) simp
  next
    case 2
    from snoc.IH [OF 2(2)] obtain before after where
      "ops = before @ Store g # after" "dg_key g = k" "list_all (harmless k) after" by blast
    with 2(1) show ?thesis by (intro exI [of _ before] exI [of _ "after @ [op]"]) simp
  qed
qed

text \<open>A discovery answer is only ever used for the question it was given to: a lookup answers with a
  catalogue that is fresh on that day, was the last one stored under exactly that key, and whose server or
  list version nobody has invalidated since.\<close>

theorem discovered_answer_is_scoped:
  assumes "get_fresh (foldl cache_op discovery_cache_new ops) k today = (Some g, c)"
  shows "dg_key g = k \<and> today \<le> dg_revalidate_by g \<and>
    (\<exists>before after. ops = before @ Store g # after \<and> list_all (harmless k) after)"
proof -
  have "map_of (dy_entries (foldl cache_op discovery_cache_new ops)) k = Some g" "catalog_is_fresh_on g today"
    using assms by (auto simp: get_fresh_def split: option.split_asm if_split_asm)
  with history_map_of show ?thesis by (fastforce simp: catalog_is_fresh_on_def)
qed

text \<open>The cache is bounded and never loses what it was just given: after any operations it holds at
  most 512 answers, and the answer stored last is found under its key while it is fresh, however full the
  cache was.\<close>

theorem discovery_cache_is_bounded:
  "length (dy_entries (foldl cache_op discovery_cache_new ops)) \<le> MAX_DISCOVERY_ENTRIES \<and>
   fst (get_fresh (foldl cache_op discovery_cache_new (ops @ [Store g])) (dg_key g) today) =
     (if catalog_is_fresh_on g today then Some g else None)"
  using cache_history_ok [of ops] by (simp add: cache_ok_def get_fresh_def store_map_of)

definition sample_catalog :: DiscoveredCatalog where
  "sample_catalog =
     catalog_for \<lparr>ck_scope = \<lparr>ds_server = ''s1'', ds_principal = 1, ds_workspace = 2, ds_protocol_version = ''2025'',
         ds_capabilities = []\<rparr>, ck_list_version = ''1''\<rparr> (all_unfiltered sample_registry) 10 20"

theorem discovered_answer_is_scoped_witness:
  "15 \<le> dg_revalidate_by sample_catalog"
proof -
  have "map_of (dy_entries (foldl cache_op discovery_cache_new [Store sample_catalog])) (dg_key sample_catalog) = Some sample_catalog"
    using store_map_of [OF cache_history_ok, of "[]" sample_catalog] by simp
  then have "get_fresh (foldl cache_op discovery_cache_new [Store sample_catalog]) (dg_key sample_catalog) 15 =
      (Some sample_catalog, foldl cache_op discovery_cache_new [Store sample_catalog])"
    by (simp add: get_fresh_def catalog_is_fresh_on_def sample_catalog_def catalog_for_def)
  from discovered_answer_is_scoped [OF this] show ?thesis by simp
qed

end
