(* ===== verification/Json_Value.thy ===== *)
theory Json_Value
  imports Complex_Main Byte_Text
begin

text \<open>
  \<open>serde_json::Value\<close> as the schema validator takes it apart: its constructors, its accessors and the
  comparison \<open>tool_schema/mod.rs\<close> defines on it. An object is a \<open>BTreeMap\<close>, its members in the order of
  their names. A document holds only finite floating-point numbers, so a float is its exact value, and
  reading an integer as \<open>f64\<close> rounds it to 53 significant bits, half to even.
\<close>

datatype JsonNumber = PosInt u64 | NegInt int | Float rat

datatype Value =
    Null | Bool bool | Number JsonNumber | String string | Array "Value list" | Object "(string \<times> Value) list"

section \<open>Numbers\<close>

definition round_even :: "int \<Rightarrow> int \<Rightarrow> int" where
  "round_even n d =
     (let q = n div d; r = n mod d in
      if 2 * r < d \<or> 2 * r = d \<and> even q then q else q + 1)"

text \<open>The unit in the last place of an integer below \<open>2 ^ 64\<close> that is read as \<open>f64\<close>.\<close>

fun ulp_from :: "nat \<Rightarrow> int \<Rightarrow> int" where
  "ulp_from 0 n = 1"
| "ulp_from (Suc k) n = (if n < 2 ^ 53 then 1 else 2 * ulp_from k (n div 2))"

definition f64_of_nonneg :: "int \<Rightarrow> rat" where
  "f64_of_nonneg n = (let u = ulp_from 11 n in of_int (round_even n u * u))"

definition number_as_i64 :: "JsonNumber \<Rightarrow> int option" where
  "number_as_i64 n =
     (case n of PosInt w \<Rightarrow> if unat w < 2 ^ 63 then Some (int (unat w)) else None | NegInt z \<Rightarrow> Some z | Float _ \<Rightarrow> None)"

definition number_as_u64 :: "JsonNumber \<Rightarrow> u64 option" where
  "number_as_u64 n = (case n of PosInt w \<Rightarrow> Some w | NegInt _ \<Rightarrow> None | Float _ \<Rightarrow> None)"

definition number_as_f64 :: "JsonNumber \<Rightarrow> rat option" where
  "number_as_f64 n =
     (case n of
        PosInt w \<Rightarrow> Some (f64_of_nonneg (int (unat w)))
      | NegInt z \<Rightarrow> Some (- f64_of_nonneg (- z))
      | Float q \<Rightarrow> Some q)"

section \<open>Accessors\<close>

definition is_object :: "Value \<Rightarrow> bool" where "is_object v \<longleftrightarrow> (case v of Object _ \<Rightarrow> True | _ \<Rightarrow> False)"
definition is_boolean :: "Value \<Rightarrow> bool" where "is_boolean v \<longleftrightarrow> (case v of Bool _ \<Rightarrow> True | _ \<Rightarrow> False)"
definition is_string :: "Value \<Rightarrow> bool" where "is_string v \<longleftrightarrow> (case v of String _ \<Rightarrow> True | _ \<Rightarrow> False)"
definition is_number :: "Value \<Rightarrow> bool" where "is_number v \<longleftrightarrow> (case v of Number _ \<Rightarrow> True | _ \<Rightarrow> False)"

definition as_object :: "Value \<Rightarrow> (string \<times> Value) list option" where
  "as_object v = (case v of Object m \<Rightarrow> Some m | _ \<Rightarrow> None)"

definition as_array :: "Value \<Rightarrow> Value list option" where
  "as_array v = (case v of Array xs \<Rightarrow> Some xs | _ \<Rightarrow> None)"

definition as_str :: "Value \<Rightarrow> string option" where
  "as_str v = (case v of String s \<Rightarrow> Some s | _ \<Rightarrow> None)"

definition as_bool :: "Value \<Rightarrow> bool option" where
  "as_bool v = (case v of Bool b \<Rightarrow> Some b | _ \<Rightarrow> None)"

definition as_u64 :: "Value \<Rightarrow> u64 option" where
  "as_u64 v = (case v of Number n \<Rightarrow> number_as_u64 n | _ \<Rightarrow> None)"

definition as_f64 :: "Value \<Rightarrow> rat option" where
  "as_f64 v = (case v of Number n \<Rightarrow> number_as_f64 n | _ \<Rightarrow> None)"

definition value_get :: "Value \<Rightarrow> string \<Rightarrow> Value option" where
  "value_get v key = (case v of Object m \<Rightarrow> map_of m key | _ \<Rightarrow> None)"

definition unwrap_or :: "'a option \<Rightarrow> 'a \<Rightarrow> 'a" where
  "unwrap_or x d = (case x of Some y \<Rightarrow> y | None \<Rightarrow> d)"

lemma unwrap_or_simps [simp]: "unwrap_or (Some y) d = y" "unwrap_or None d = d"
  by (simp_all add: unwrap_or_def)

lemmas json_access = is_object_def is_boolean_def is_string_def is_number_def as_object_def as_array_def as_str_def
  as_bool_def as_u64_def as_f64_def value_get_def number_as_u64_def number_as_i64_def number_as_f64_def

lemma as_object_Some_iff [simp]: "as_object v = Some m \<longleftrightarrow> v = Object m"
  by (cases v) (auto simp: as_object_def)

lemma as_array_Some_iff [simp]: "as_array v = Some xs \<longleftrightarrow> v = Array xs"
  by (cases v) (auto simp: as_array_def)

lemma as_str_Some_iff [simp]: "as_str v = Some s \<longleftrightarrow> v = String s"
  by (cases v) (auto simp: as_str_def)

lemma as_bool_Some_iff [simp]: "as_bool v = Some b \<longleftrightarrow> v = Bool b"
  by (cases v) (auto simp: as_bool_def)

section \<open>Equality\<close>

definition numbers_equal :: "JsonNumber \<Rightarrow> JsonNumber \<Rightarrow> bool" where
  "numbers_equal left right =
     (case (number_as_i64 left, number_as_i64 right) of
        (Some a, Some b) \<Rightarrow> a = b
      | _ \<Rightarrow>
        (case (number_as_u64 left, number_as_u64 right) of
           (Some a, Some b) \<Rightarrow> a = b
         | _ \<Rightarrow>
           (case (number_as_f64 left, number_as_f64 right) of
              (Some a, Some b) \<Rightarrow> a = b
            | _ \<Rightarrow> False)))"

lemma size_element: "x \<in> set xs \<Longrightarrow> size x < size (Array xs)"
  by (induction xs) auto

lemma size_member: "(k, v) \<in> set m \<Longrightarrow> size v < size (Object m)"
  by (induction m) auto

lemma size_zipped: "(x, y) \<in> set (zip xs ys) \<Longrightarrow> size x < size (Array xs)"
  by (rule size_element) (rule set_zip_leftD)

function (sequential) json_equal :: "Value \<Rightarrow> Value \<Rightarrow> bool" where
  "json_equal Null Null = True"
| "json_equal (Bool a) (Bool b) = (a = b)"
| "json_equal (String a) (String b) = (a = b)"
| "json_equal (Number a) (Number b) = numbers_equal a b"
| "json_equal (Array a) (Array b) = (length a = length b \<and> (\<forall>(x, y) \<in> set (zip a b). json_equal x y))"
| "json_equal (Object a) (Object b) =
     (length a = length b \<and>
      (\<forall>(key, v) \<in> set a. case map_of b key of Some other \<Rightarrow> json_equal v other | None \<Rightarrow> False))"
| "json_equal _ _ = False"
  by pat_completeness auto
termination
  by (relation "measure (\<lambda>(a, b). size a)") (auto dest: size_zipped size_member)

end
