(* ===== verification/Tool_Schema.thy ===== *)
theory Tool_Schema
  imports Json_Value Effects Text_Codec Tool_Call_Body
begin

text \<open>
  \<open>jarvis-infrastructure/src/tool_schema/mod.rs\<close>: the bounded JSON Schema validator every tool call's
  arguments pass. A schema is walked once when it is loaded and refused unless every keyword is known
  and well shaped; arguments are evaluated under a budget of steps and a bound on the depth. The JSON
  parser and the fingerprint of a schema text are arguments. A document's text is UTF-8; cutting it
  inside a character panics, which is an outcome of its own.
\<close>

definition DIALECT :: string where "DIALECT = ''https://json-schema.org/draft/2020-12/schema''"
definition MAX_SCHEMA_BYTES :: nat where "MAX_SCHEMA_BYTES = 32 * 1024"
definition MAX_SCHEMA_DEPTH :: nat where "MAX_SCHEMA_DEPTH = 32"
definition MAX_SCHEMA_STEPS :: nat where "MAX_SCHEMA_STEPS = 200000"
definition MAX_ECHOED_BYTES :: nat where "MAX_ECHOED_BYTES = 64"
definition MAX_VIOLATION_PATH_BYTES :: nat where "MAX_VIOLATION_PATH_BYTES = 256"
definition DEFS_PREFIX :: string where "DEFS_PREFIX = ''#/$defs/''"

section \<open>Keywords\<close>

datatype Shape =
    Any | StringShape | Boolean | NumberShape | NonNegativeInteger | NonEmptyStringArray | TypeSpec | NonEmptyArray
  | Schema | NonEmptySchemaArray | SchemaMap

definition KEYWORDS :: "(string \<times> Shape) list" where
  "KEYWORDS =
     [(''$schema'', StringShape), (''$ref'', StringShape), (''$defs'', SchemaMap), (''$comment'', StringShape),
      (''type'', TypeSpec), (''enum'', NonEmptyArray), (''const'', Any),
      (''minimum'', NumberShape), (''maximum'', NumberShape), (''exclusiveMinimum'', NumberShape),
      (''exclusiveMaximum'', NumberShape),
      (''minLength'', NonNegativeInteger), (''maxLength'', NonNegativeInteger),
      (''minItems'', NonNegativeInteger), (''maxItems'', NonNegativeInteger), (''uniqueItems'', Boolean),
      (''prefixItems'', NonEmptySchemaArray), (''items'', Schema),
      (''minProperties'', NonNegativeInteger), (''maxProperties'', NonNegativeInteger),
      (''required'', NonEmptyStringArray), (''properties'', SchemaMap), (''additionalProperties'', Schema),
      (''propertyNames'', Schema),
      (''allOf'', NonEmptySchemaArray), (''anyOf'', NonEmptySchemaArray), (''oneOf'', NonEmptySchemaArray),
      (''not'', Schema), (''if'', Schema), (''then'', Schema), (''else'', Schema),
      (''title'', StringShape), (''description'', StringShape), (''default'', Any), (''examples'', Any),
      (''deprecated'', Boolean), (''readOnly'', Boolean), (''writeOnly'', Boolean)]"

definition keyword_row :: "string \<Rightarrow> (string \<times> Shape) option" where
  "keyword_row keyword = find (\<lambda>(name, _). name = keyword) KEYWORDS"

definition shape_of :: "string \<Rightarrow> Shape option" where
  "shape_of keyword = map_option snd (keyword_row keyword)"

definition static_name :: "string \<Rightarrow> string option" where
  "static_name keyword = map_option fst (keyword_row keyword)"

definition is_refused_keyword :: "string \<Rightarrow> bool" where
  "is_refused_keyword keyword \<longleftrightarrow>
     keyword \<in> {''pattern'', ''patternProperties'', ''multipleOf'', ''format'', ''contentEncoding'', ''contentMediaType'',
       ''contentSchema'', ''contains'', ''minContains'', ''maxContains'', ''unevaluatedProperties'', ''unevaluatedItems'',
       ''dependentSchemas'', ''dependentRequired'', ''$id'', ''$anchor'', ''$dynamicAnchor'', ''$dynamicRef'', ''$vocabulary'',
       ''definitions'', ''dependencies'', ''additionalItems''}"

definition TYPE_NAMES :: "string list" where
  "TYPE_NAMES = [''null'', ''boolean'', ''object'', ''array'', ''number'', ''string'', ''integer'']"

section \<open>Refusals\<close>

datatype SchemaRejection =
    TooLarge nat nat | NotJson | NotASchema string | UnsupportedDialect string | UnsupportedKeyword string string
  | UnknownKeyword string string | MalformedKeyword string string | UnresolvedReference string string
  | SchemaTooDeep string

datatype ArgumentViolation = Unparseable | Keyword string string | StepsExhausted nat | TooDeep

definition violation_keyword :: "ArgumentViolation \<Rightarrow> string option" where
  "violation_keyword v = (case v of Keyword keyword _ \<Rightarrow> Some keyword | _ \<Rightarrow> None)"

text \<open>How a walk ends early: with its error, or in a panic.\<close>

datatype 'e Halt = Fails 'e | Panics

section \<open>Texts\<close>

definition is_char_boundary :: "nat \<Rightarrow> string \<Rightarrow> bool" where
  "is_char_boundary n s \<longleftrightarrow> n = length s \<or> n < length s \<and> \<not> continuation (s ! n)"

text \<open>\<open>String::truncate\<close>: \<open>None\<close> is its panic on an index inside a character.\<close>

definition str_truncate :: "nat \<Rightarrow> string \<Rightarrow> string option" where
  "str_truncate n s = (if n \<ge> length s then Some s else if is_char_boundary n s then Some (take n s) else None)"

definition TRUNCATED :: string where "TRUNCATED = ''<truncated>''"

text \<open>The first characters of a text, and how many there are.\<close>

fun chars_take :: "nat \<Rightarrow> string \<Rightarrow> string" where
  "chars_take n [] = []"
| "chars_take n (c # cs) =
     (if continuation c then c # chars_take n cs
      else case n of 0 \<Rightarrow> [] | Suc k \<Rightarrow> c # chars_take k cs)"

definition char_count :: "string \<Rightarrow> nat" where
  "char_count s = length (filter (\<lambda>c. \<not> continuation c) s)"

definition bounded_echo :: "string \<Rightarrow> string" where
  "bounded_echo text = (if length text \<le> MAX_ECHOED_BYTES then text else chars_take MAX_ECHOED_BYTES text @ TRUNCATED)"

definition escape_segment :: "string \<Rightarrow> string" where
  "escape_segment segment =
     concat (map (\<lambda>c. if c = CHR ''/'' then ''~1'' else [c])
       (concat (map (\<lambda>c. if c = CHR ''~'' then ''~0'' else [c]) segment)))"

fun render_from :: "string \<Rightarrow> string list \<Rightarrow> string option" where
  "render_from rendered [] = Some rendered"
| "render_from rendered (segment # rest) =
     (let rendered = rendered @ ''/'' @ escape_segment segment in
      if length rendered > MAX_VIOLATION_PATH_BYTES
      then map_option (\<lambda>t. t @ TRUNCATED) (str_truncate MAX_VIOLATION_PATH_BYTES rendered)
      else render_from rendered rest)"

definition render_path :: "string list \<Rightarrow> string option" where
  "render_path segments = render_from [] segments"

definition schema_path :: "string \<Rightarrow> string \<Rightarrow> string option" where
  "schema_path loc member =
     (let rendered = loc @ ''/'' @ member in
      if length rendered > MAX_VIOLATION_PATH_BYTES
      then map_option (\<lambda>t. t @ TRUNCATED) (str_truncate MAX_VIOLATION_PATH_BYTES rendered)
      else Some rendered)"

section \<open>Loading a schema\<close>

type_synonym Checked = "SchemaRejection Halt + unit"

definition rejected :: "SchemaRejection \<Rightarrow> Checked" where "rejected r = Err (Fails r)"

text \<open>A loop whose body ends in \<open>?\<close>.\<close>

fun try_each :: "('a \<Rightarrow> 'e + unit) \<Rightarrow> 'a list \<Rightarrow> 'e + unit" where
  "try_each f [] = Ok ()"
| "try_each f (x # xs) = (case f x of Err e \<Rightarrow> Err e | Ok _ \<Rightarrow> try_each f xs)"

fun unique_strings :: "string list \<Rightarrow> Value list \<Rightarrow> bool" where
  "unique_strings seen [] = True"
| "unique_strings seen (item # items) =
     (case as_str item of
        Some name \<Rightarrow> if name \<notin> set seen then unique_strings (seen @ [name]) items else False
      | None \<Rightarrow> False)"

definition non_empty_unique_strings :: "Value list \<Rightarrow> bool" where
  "non_empty_unique_strings items = (if items = [] then False else unique_strings [] items)"

definition shape_matches :: "Shape \<Rightarrow> Value \<Rightarrow> bool" where
  "shape_matches shape v =
     (case shape of
        Any \<Rightarrow> True | TypeSpec \<Rightarrow> True
      | StringShape \<Rightarrow> is_string v
      | Boolean \<Rightarrow> is_boolean v
      | NumberShape \<Rightarrow> is_number v
      | NonNegativeInteger \<Rightarrow> is_some_and (as_u64 v) (\<lambda>n. unat n < 2 ^ 32)
      | NonEmptyStringArray \<Rightarrow> is_some_and (as_array v) non_empty_unique_strings
      | NonEmptyArray \<Rightarrow> is_some_and (as_array v) (\<lambda>items. items \<noteq> [])
      | Schema \<Rightarrow> is_object v \<or> is_boolean v
      | NonEmptySchemaArray \<Rightarrow>
          is_some_and (as_array v) (\<lambda>items. items \<noteq> [] \<and> list_all (\<lambda>item. is_object item \<or> is_boolean item) items)
      | SchemaMap \<Rightarrow> is_object v)"

definition check_root :: "Value \<Rightarrow> Checked" where
  "check_root document = (if is_object document \<or> is_boolean document then Ok () else rejected (NotASchema []))"

definition reference_name :: "string \<Rightarrow> string option" where
  "reference_name reference =
     (case Byte_Text.strip_prefix DEFS_PREFIX reference of
        Some name \<Rightarrow> if name \<noteq> [] \<and> CHR ''/'' \<notin> set name then Some name else None
      | None \<Rightarrow> None)"

definition check_reference :: "Value \<Rightarrow> string \<Rightarrow> string \<Rightarrow> Checked" where
  "check_reference document reference loc =
     (let refused = rejected (UnresolvedReference (bounded_echo reference) loc) in
      case reference_name reference of
        None \<Rightarrow> refused
      | Some name \<Rightarrow>
          (case Option.bind (value_get document ''$defs'') as_object of
             Some definitions \<Rightarrow> if map_of definitions name \<noteq> None then Ok () else refused
           | None \<Rightarrow> refused))"

fun type_names_ok :: "string list \<Rightarrow> Value list \<Rightarrow> bool" where
  "type_names_ok seen [] = True"
| "type_names_ok seen (v # vs) =
     (case as_str v of
        None \<Rightarrow> False
      | Some name \<Rightarrow> if name \<notin> set TYPE_NAMES \<or> name \<in> set seen then False else type_names_ok (seen @ [name]) vs)"

definition check_type_spec :: "Value \<Rightarrow> string \<Rightarrow> Checked" where
  "check_type_spec v loc =
     (let malformed = rejected (MalformedKeyword ''type'' loc) in
      case v of
        String name \<Rightarrow> if name \<in> set TYPE_NAMES then Ok () else malformed
      | Array names \<Rightarrow> if names = [] then malformed else if type_names_ok [] names then Ok () else malformed
      | _ \<Rightarrow> malformed)"

text \<open>One keyword, with the walk of a subschema one level down as \<open>check\<close>.\<close>

definition at_path :: "string option \<Rightarrow> (string \<Rightarrow> Checked) \<Rightarrow> Checked" where
  "at_path path f = (case path of None \<Rightarrow> Err Panics | Some p \<Rightarrow> f p)"

definition check_keyword :: "(Value \<Rightarrow> string \<Rightarrow> Checked) \<Rightarrow> Value \<Rightarrow> string \<Rightarrow> Value \<Rightarrow> string \<Rightarrow> Checked" where
  "check_keyword check document keyword v loc =
     (let echoed = bounded_echo keyword in
      case shape_of keyword of
        None \<Rightarrow>
          rejected (if is_refused_keyword keyword then UnsupportedKeyword echoed loc else UnknownKeyword echoed loc)
      | Some shape \<Rightarrow>
          if \<not> shape_matches shape v then rejected (MalformedKeyword echoed loc)
          else if keyword = ''$schema'' \<and> as_str v \<noteq> Some DIALECT
            then rejected (UnsupportedDialect (bounded_echo (unwrap_or (as_str v) [])))
          else if keyword = ''$ref'' then check_reference document (unwrap_or (as_str v) []) loc
          else if keyword = ''type'' then check_type_spec v loc
          else at_path (schema_path loc keyword) (\<lambda>child.
            case shape of
              Schema \<Rightarrow> check v child
            | SchemaMap \<Rightarrow>
                (case as_object v of
                   Some members \<Rightarrow> try_each (\<lambda>(name, nested). at_path (schema_path child name) (check nested)) members
                 | None \<Rightarrow> Ok ())
            | NonEmptySchemaArray \<Rightarrow>
                (case as_array v of
                   Some items \<Rightarrow>
                     try_each (\<lambda>(index, nested). at_path (schema_path child (show_nat index)) (check nested)) (enumerate 0 items)
                 | None \<Rightarrow> Ok ())
            | _ \<Rightarrow> Ok ()))"

text \<open>The walk of a schema, with the levels it may still descend: at depth \<open>d\<close> these are
  \<open>MAX_SCHEMA_DEPTH + 1 - d\<close>.\<close>

primrec check_levels :: "nat \<Rightarrow> Value \<Rightarrow> Value \<Rightarrow> string \<Rightarrow> Checked" where
  "check_levels 0 document schema loc = rejected (SchemaTooDeep loc)"
| "check_levels (Suc levels) document schema loc =
     (if is_boolean schema then Ok ()
      else case as_object schema of
        None \<Rightarrow> rejected (NotASchema loc)
      | Some object \<Rightarrow>
          try_each (\<lambda>(keyword, v). check_keyword (check_levels levels document) document keyword v loc) object)"

definition check_schema :: "Value \<Rightarrow> Value \<Rightarrow> string \<Rightarrow> nat \<Rightarrow> Checked" where
  "check_schema document schema loc depth = check_levels (MAX_SCHEMA_DEPTH + 1 - depth) document schema loc"

record ToolSchema =
  sc_text :: string
  sc_document :: Value
  sc_fingerprint :: SchemaFingerprint

definition tool_schema_parse ::
  "(string \<Rightarrow> Value option) \<Rightarrow> (string \<Rightarrow> SchemaFingerprint) \<Rightarrow> string \<Rightarrow> SchemaRejection Halt + ToolSchema"
where
  "tool_schema_parse from_str schema_fingerprint_of text =
     (if length text > MAX_SCHEMA_BYTES then Err (Fails (TooLarge (length text) MAX_SCHEMA_BYTES))
      else case from_str text of
        None \<Rightarrow> Err (Fails NotJson)
      | Some document \<Rightarrow>
          (case check_root document of
             Err e \<Rightarrow> Err e
           | Ok _ \<Rightarrow>
               (case check_schema document document [] 0 of
                  Err e \<Rightarrow> Err e
                | Ok _ \<Rightarrow> Ok \<lparr>sc_text = text, sc_document = document, sc_fingerprint = schema_fingerprint_of text\<rparr>)))"

definition schema_confirms :: "ToolSchema \<Rightarrow> SchemaFingerprint \<Rightarrow> bool" where
  "schema_confirms self stated \<longleftrightarrow> sc_fingerprint self = stated"

end
