(* ===== verification/Schema_Eval.thy ===== *)
theory Schema_Eval
  imports Tool_Schema
begin

text \<open>
  The evaluation half of \<open>tool_schema/mod.rs\<close>: arguments against a loaded schema, keyword by keyword, under
  a budget of steps, with the path of the instance for the report. A \<open>debug_assert!\<close> panics in a debug
  build and does nothing in a release build; which build it is is the argument \<open>debug\<close>.
\<close>

record Walk =
  wk_steps :: nat
  wk_path :: "string list"
  wk_document :: Value

type_synonym 'a walk = "(Walk, ArgumentViolation Halt, 'a) eff"

definition violation :: "string \<Rightarrow> 'a walk" where
  "violation keyword w =
     (Err (case render_path (wk_path w) of None \<Rightarrow> Panics | Some path \<Rightarrow> Fails (Keyword keyword path)), w)"

definition below_name :: "string \<Rightarrow> 'a walk \<Rightarrow> 'a walk" where
  "below_name name body w =
     (case body (w\<lparr>wk_path := wk_path w @ [name]\<rparr>) of
        (outcome, w) \<Rightarrow> (outcome, w\<lparr>wk_path := butlast (wk_path w)\<rparr>))"

definition below_index :: "nat \<Rightarrow> 'a walk \<Rightarrow> 'a walk" where
  "below_index index body = below_name (show_nat index) body"

definition spend :: "unit walk" where
  "spend w =
     (if wk_steps w = 0 then (Err (Fails (StepsExhausted MAX_SCHEMA_STEPS)), w)
      else (Ok (), w\<lparr>wk_steps := wk_steps w - 1\<rparr>))"

definition require :: "bool \<Rightarrow> string \<Rightarrow> unit walk" where
  "require satisfied keyword = (if satisfied then eff_return () else violation keyword)"

text \<open>A loop whose body ends in \<open>?\<close>.\<close>

fun walk_each :: "('a \<Rightarrow> unit walk) \<Rightarrow> 'a list \<Rightarrow> unit walk" where
  "walk_each f [] = eff_return ()"
| "walk_each f (x # xs) = eff_bind (f x) (\<lambda>_. walk_each f xs)"

section \<open>Assertions on one value\<close>

primrec type_name :: "Value \<Rightarrow> string" where
  "type_name Null = ''null''"
| "type_name (Bool _) = ''boolean''"
| "type_name (Number _) = ''number''"
| "type_name (String _) = ''string''"
| "type_name (Array _) = ''array''"
| "type_name (Object _) = ''object''"

definition is_integer :: "Value \<Rightarrow> bool" where
  "is_integer v =
     (case v of
        Number n \<Rightarrow>
          number_as_i64 n \<noteq> None \<or> number_as_u64 n \<noteq> None \<or>
          is_some_and (number_as_f64 n) (\<lambda>q. q = of_int \<lfloor>q\<rfloor>)
      | _ \<Rightarrow> False)"

definition matches_one :: "string \<Rightarrow> Value \<Rightarrow> bool" where
  "matches_one name v = (if name = ''integer'' then is_integer v else type_name v = name)"

definition check_type :: "Value \<Rightarrow> Value \<Rightarrow> unit walk" where
  "check_type spec v =
     require (case spec of
         String name \<Rightarrow> matches_one name v
       | Array names \<Rightarrow> list_ex (\<lambda>name. matches_one name v) (List.map_filter as_str names)
       | _ \<Rightarrow> True) ''type''"

definition check_enum :: "Value \<Rightarrow> Value \<Rightarrow> unit walk" where
  "check_enum spec v =
     require (list_ex (\<lambda>candidate. json_equal candidate v) (unwrap_or (as_array spec) [])) ''enum''"

definition check_const :: "Value \<Rightarrow> Value \<Rightarrow> unit walk" where
  "check_const spec v = require (json_equal spec v) ''const''"

definition numeric_holds :: "string \<Rightarrow> rat \<Rightarrow> rat \<Rightarrow> bool" where
  "numeric_holds keyword actual bound =
     (if keyword = ''minimum'' then actual \<ge> bound
      else if keyword = ''maximum'' then actual \<le> bound
      else if keyword = ''exclusiveMinimum'' then actual > bound
      else if keyword = ''exclusiveMaximum'' then actual < bound
      else True)"

definition check_numeric :: "string \<Rightarrow> Value \<Rightarrow> Value \<Rightarrow> unit walk" where
  "check_numeric keyword spec v =
     (case (as_f64 spec, as_f64 v) of
        (Some bound, Some actual) \<Rightarrow> require (numeric_holds keyword actual bound) keyword
      | _ \<Rightarrow> eff_return ())"

definition check_string_length :: "string \<Rightarrow> Value \<Rightarrow> Value \<Rightarrow> unit walk" where
  "check_string_length keyword spec v =
     (case (as_u64 spec, v) of
        (Some bound, String text) \<Rightarrow>
          require (if keyword = ''minLength'' then char_count text \<ge> unat bound
                   else if keyword = ''maxLength'' then char_count text \<le> unat bound
                   else True) keyword
      | _ \<Rightarrow> eff_return ())"

section \<open>Arrays and objects\<close>

type_synonym Node = "(string \<times> Value) list"

definition declared_names :: "Node \<Rightarrow> (string \<times> Value) list option" where
  "declared_names node = Option.bind (map_of node ''properties'') as_object"

definition prefix_len :: "Node \<Rightarrow> nat" where
  "prefix_len node =
     (case Option.bind (map_of node ''prefixItems'') as_array of Some items \<Rightarrow> length items | None \<Rightarrow> 0)"

fun unique_scan :: "Value \<Rightarrow> Value list \<Rightarrow> unit walk" where
  "unique_scan item [] = eff_return ()"
| "unique_scan item (other # others) =
     eff_bind spend (\<lambda>_. if json_equal item other then violation ''uniqueItems'' else unique_scan item others)"

fun check_unique :: "Value list \<Rightarrow> unit walk" where
  "check_unique [] = eff_return ()"
| "check_unique (item # items) = eff_bind (unique_scan item items) (\<lambda>_. check_unique items)"

text \<open>From here \<open>ev\<close> is the evaluation of a schema one level down.\<close>

definition check_array :: "(Value \<Rightarrow> Value \<Rightarrow> unit walk) \<Rightarrow> Node \<Rightarrow> string \<Rightarrow> Value \<Rightarrow> Value \<Rightarrow> unit walk" where
  "check_array ev node keyword spec v =
     (case as_array v of
        None \<Rightarrow> eff_return ()
      | Some items \<Rightarrow>
          if keyword = ''minItems'' \<and> length items < unat (unwrap_or (as_u64 spec) 0) then violation ''minItems''
          else if keyword = ''maxItems'' \<and> length items > unat (unwrap_or (as_u64 spec) 0) then violation ''maxItems''
          else if keyword = ''uniqueItems'' \<and> as_bool spec = Some True then check_unique items
          else if keyword = ''prefixItems'' then
            walk_each (\<lambda>(index, schema, item). below_index index (ev schema item))
              (enumerate 0 (zip (unwrap_or (as_array spec) []) items))
          else if keyword = ''items'' then
            walk_each (\<lambda>(index, item). below_index index (ev spec item)) (drop (prefix_len node) (enumerate 0 items))
          else eff_return ())"

definition check_object :: "(Value \<Rightarrow> Value \<Rightarrow> unit walk) \<Rightarrow> Node \<Rightarrow> string \<Rightarrow> Value \<Rightarrow> Value \<Rightarrow> unit walk" where
  "check_object ev node keyword spec v =
     (case as_object v of
        None \<Rightarrow> eff_return ()
      | Some members \<Rightarrow>
          if keyword = ''minProperties'' \<and> length members < unat (unwrap_or (as_u64 spec) 0)
            then violation ''minProperties''
          else if keyword = ''maxProperties'' \<and> length members > unat (unwrap_or (as_u64 spec) 0)
            then violation ''maxProperties''
          else if keyword = ''required'' then
            walk_each (\<lambda>name. require (map_of members name \<noteq> None) ''required'')
              (List.map_filter as_str (unwrap_or (as_array spec) []))
          else if keyword = ''properties'' then
            (case as_object spec of
               None \<Rightarrow> eff_return ()
             | Some declared \<Rightarrow>
                 walk_each (\<lambda>(name, schema).
                   case map_of members name of
                     Some child \<Rightarrow> below_name name (ev schema child)
                   | None \<Rightarrow> eff_return ()) declared)
          else if keyword = ''additionalProperties'' then
            walk_each (\<lambda>(name, child).
              if is_some_and (declared_names node) (\<lambda>declared. map_of declared name \<noteq> None) then eff_return ()
              else below_name name (ev spec child)) members
          else if keyword = ''propertyNames'' then
            walk_each (\<lambda>(name, _). below_name name (ev spec (String name))) members
          else eff_return ())"

section \<open>Combinators\<close>

text \<open>How many branches evaluate without an error. A panic is no error: it ends the walk.\<close>

fun count_ok :: "(Value \<Rightarrow> unit walk) \<Rightarrow> Value list \<Rightarrow> nat walk" where
  "count_ok ev [] = eff_return 0"
| "count_ok ev (schema # schemas) =
     eff_try (ev schema) (\<lambda>r.
       case r of
         Ok _ \<Rightarrow> eff_bind (count_ok ev schemas) (\<lambda>n. eff_return (Suc n))
       | Err Panics \<Rightarrow> eff_throw Panics
       | Err (Fails _) \<Rightarrow> count_ok ev schemas)"

definition u32_or_max :: "nat \<Rightarrow> nat" where
  "u32_or_max n = min n (2 ^ 32 - 1)"

definition check_logic :: "(Value \<Rightarrow> Value \<Rightarrow> unit walk) \<Rightarrow> string \<Rightarrow> Value \<Rightarrow> Value \<Rightarrow> unit walk" where
  "check_logic ev keyword spec v =
     (let schemas = unwrap_or (as_array spec) [] in
      eff_bind (count_ok (\<lambda>schema. ev schema v) schemas) (\<lambda>branches.
        let satisfied = u32_or_max branches; all_of_them = u32_or_max (length schemas) in
        require (if keyword = ''allOf'' then satisfied = all_of_them
                 else if keyword = ''anyOf'' then satisfied \<ge> 1
                 else if keyword = ''oneOf'' then satisfied = 1
                 else True) keyword))"

definition check_conditional :: "(Value \<Rightarrow> Value \<Rightarrow> unit walk) \<Rightarrow> Node \<Rightarrow> Value \<Rightarrow> Value \<Rightarrow> unit walk" where
  "check_conditional ev node spec v =
     eff_try (ev spec v) (\<lambda>r.
       case r of
         Err Panics \<Rightarrow> eff_throw Panics
       | _ \<Rightarrow>
           (case map_of node (if is_ok r then ''then'' else ''else'') of
              None \<Rightarrow> eff_return ()
            | Some schema \<Rightarrow> ev schema v))"

definition invert :: "ArgumentViolation Halt + unit \<Rightarrow> string \<Rightarrow> unit walk" where
  "invert outcome keyword =
     (case outcome of
        Err (Fails (Keyword _ _)) \<Rightarrow> eff_return ()
      | Err other \<Rightarrow> eff_throw other
      | Ok _ \<Rightarrow> violation keyword)"

section \<open>Evaluation\<close>

definition resolve :: "Value \<Rightarrow> string \<Rightarrow> Value option" where
  "resolve document reference =
     (case reference_name reference of
        None \<Rightarrow> None
      | Some name \<Rightarrow> Option.bind (value_get document ''$defs'') (\<lambda>defs. value_get defs name))"

definition apply_keyword ::
  "bool \<Rightarrow> (Value \<Rightarrow> Value \<Rightarrow> unit walk) \<Rightarrow> Node \<Rightarrow> string \<Rightarrow> Value \<Rightarrow> Value \<Rightarrow> unit walk"
where
  "apply_keyword debug ev node named spec v =
     (if named \<in> {''title'', ''description'', ''default'', ''examples'', ''deprecated'', ''readOnly'', ''writeOnly'',
          ''$comment'', ''$schema'', ''$defs'', ''then'', ''else''} then eff_return ()
      else if named = ''$ref'' then
        eff_bind (eff_get (\<lambda>w. resolve (wk_document w) (unwrap_or (as_str spec) []))) (\<lambda>target.
          case target of None \<Rightarrow> violation named | Some schema \<Rightarrow> ev schema v)
      else if named = ''type'' then check_type spec v
      else if named = ''enum'' then check_enum spec v
      else if named = ''const'' then check_const spec v
      else if named \<in> {''minimum'', ''maximum'', ''exclusiveMinimum'', ''exclusiveMaximum''} then check_numeric named spec v
      else if named \<in> {''minLength'', ''maxLength''} then check_string_length named spec v
      else if named \<in> {''minItems'', ''maxItems'', ''uniqueItems'', ''prefixItems'', ''items''}
        then check_array ev node named spec v
      else if named \<in> {''minProperties'', ''maxProperties'', ''required'', ''properties'', ''additionalProperties'',
          ''propertyNames''} then check_object ev node named spec v
      else if named \<in> {''allOf'', ''anyOf'', ''oneOf''} then check_logic ev named spec v
      else if named = ''not'' then eff_try (ev spec v) (\<lambda>r. invert r named)
      else if named = ''if'' then check_conditional ev node spec v
      else if debug then eff_throw Panics
      else eff_return ())"

text \<open>The evaluation with the levels it may still descend: at depth \<open>d\<close> these are
  \<open>MAX_SCHEMA_DEPTH + 1 - d\<close>.\<close>

primrec evaluate_levels :: "bool \<Rightarrow> nat \<Rightarrow> Value \<Rightarrow> Value \<Rightarrow> unit walk" where
  "evaluate_levels debug 0 schema v = eff_throw (Fails TooDeep)"
| "evaluate_levels debug (Suc levels) schema v =
     eff_bind spend (\<lambda>_.
       case as_bool schema of
         Some allowed \<Rightarrow> require allowed ''false''
       | None \<Rightarrow>
           (case as_object schema of
              None \<Rightarrow> eff_return ()
            | Some object \<Rightarrow>
                walk_each (\<lambda>(keyword, spec).
                  case static_name keyword of
                    None \<Rightarrow> if debug then eff_throw Panics else eff_return ()
                  | Some named \<Rightarrow> apply_keyword debug (evaluate_levels debug levels) object named spec v) object))"

definition schema_evaluate :: "bool \<Rightarrow> Value \<Rightarrow> Value \<Rightarrow> nat \<Rightarrow> unit walk" where
  "schema_evaluate debug schema v depth = evaluate_levels debug (MAX_SCHEMA_DEPTH + 1 - depth) schema v"

definition walk_start :: "Value \<Rightarrow> Walk" where
  "walk_start document = \<lparr>wk_steps = MAX_SCHEMA_STEPS, wk_path = [], wk_document = document\<rparr>"

definition schema_validate ::
  "bool \<Rightarrow> (string \<Rightarrow> Value option) \<Rightarrow> ToolSchema \<Rightarrow> ToolArguments \<Rightarrow> ArgumentViolation Halt + unit"
where
  "schema_validate debug from_str self arguments =
     (case from_str (arguments_as_str arguments) of
        None \<Rightarrow> Err (Fails Unparseable)
      | Some v \<Rightarrow> fst (schema_evaluate debug (sc_document self) v 0 (walk_start (sc_document self))))"

end
