(* ===== verification/Schema_Rules.thy ===== *)
theory Schema_Rules
  imports Schema_Eval
begin

text \<open>
  What the schema validator of Tool\_Schema and Schema\_Eval guarantees: evaluation never writes the
  document, leaves the path as it found it and only spends steps; a schema that loaded never reaches a
  debug assertion; what an accepted object satisfies; and where a limit or a rounding lets through what
  the module promises to refuse.
\<close>

section \<open>Evaluation only spends\<close>

definition spends :: "Walk \<Rightarrow> Walk \<Rightarrow> bool" where
  "spends w w' \<longleftrightarrow> wk_document w' = wk_document w \<and> wk_path w' = wk_path w \<and> wk_steps w' \<le> wk_steps w"

lemma spends_order [effect_rules]: "reflp spends" "transp spends"
  by (auto simp: spends_def reflp_def transp_def)

lemma advances_Pair [effect_rules]: "advances spends (Pair r)"
  by (simp add: advances_def spends_def)

lemma advances_cases [effect_rules]:
  "advances R a \<Longrightarrow> advances R b \<Longrightarrow> advances R (if c then a else b)"
  "advances R a \<Longrightarrow> (\<And>y. advances R (f y)) \<Longrightarrow> advances R (case x of None \<Rightarrow> a | Some y \<Rightarrow> f y)"
  "(\<And>y z. advances R (g y z)) \<Longrightarrow> advances R (case p of (y, z) \<Rightarrow> g y z)"
  by (simp_all split: option.split prod.split)

lemma advances_violation [effect_rules]: "advances spends (violation k)"
  by (simp add: advances_def violation_def spends_def)

lemma advances_require [effect_rules]: "advances spends (require b k)"
  by (simp add: require_def effect_rules)

lemma advances_spend [effect_rules]: "advances spends spend"
  by (simp add: advances_def spend_def spends_def)

lemma advances_below [effect_rules]:
  assumes "advances spends m"
  shows "advances spends (below_name name m)" and "advances spends (below_index i m)"
proof -
  show n: "advances spends (below_name name m)" for name
  proof (unfold advances_def, rule allI)
    fix w
    obtain r w' where m: "m (w\<lparr>wk_path := wk_path w @ [name]\<rparr>) = (r, w')" by fastforce
    with assms have "spends (w\<lparr>wk_path := wk_path w @ [name]\<rparr>) w'" by (rule advancesD)
    with m show "spends w (snd (below_name name m w))" by (simp add: below_name_def spends_def)
  qed
  show "advances spends (below_index i m)" by (simp add: below_index_def n)
qed

lemma advances_walk_each [effect_rules]:
  "(\<And>x. x \<in> set xs \<Longrightarrow> advances spends (f x)) \<Longrightarrow> advances spends (walk_each f xs)"
  by (induction xs) (auto intro!: effect_rules)

lemma advances_unique [effect_rules]: "advances spends (unique_scan x ys)" "advances spends (check_unique xs)"
proof -
  show u: "advances spends (unique_scan x ys)" for x ys
    by (induction ys) (auto intro!: effect_rules)
  show "advances spends (check_unique xs)"
    by (induction xs) (auto intro!: effect_rules u)
qed

lemma advances_count_ok [effect_rules]:
  "(\<And>s. advances spends (ev s)) \<Longrightarrow> advances spends (count_ok ev ss)"
  by (induction ss) (auto intro!: effect_rules split: sum.split Halt.split)

lemma advances_values [effect_rules]:
  "advances spends (check_type spec v)" "advances spends (check_enum spec v)" "advances spends (check_const spec v)"
  "advances spends (check_numeric k spec v)" "advances spends (check_string_length k spec v)" "advances spends (invert r k)"
  by (auto simp: check_type_def check_enum_def check_const_def check_numeric_def check_string_length_def invert_def
      intro!: effect_rules split: option.split Value.split sum.split Halt.split ArgumentViolation.split)

lemma advances_array [effect_rules]:
  assumes "\<And>s v. advances spends (ev s v)"
  shows "advances spends (check_array ev node k spec v)"
  unfolding check_array_def by (intro effect_rules assms)

lemma advances_object [effect_rules]:
  assumes "\<And>s v. advances spends (ev s v)"
  shows "advances spends (check_object ev node k spec v)"
  unfolding check_object_def by (intro effect_rules assms)

lemma advances_logic [effect_rules]:
  assumes "\<And>s v. advances spends (ev s v)"
  shows "advances spends (check_logic ev k spec v)" and "advances spends (check_conditional ev node spec v)"
  unfolding check_logic_def check_conditional_def Let_def
  by (auto intro!: effect_rules assms split: option.split sum.split Halt.split)

lemma advances_apply:
  assumes "\<And>s v. advances spends (ev s v)"
  shows "advances spends (apply_keyword debug ev node named spec v)"
  unfolding apply_keyword_def by (intro effect_rules assms)

lemma advances_evaluate: "advances spends (evaluate_levels debug n s v)"
  by (induction n arbitrary: s v) (auto intro!: effect_rules advances_apply split: option.split prod.split)

section \<open>What acceptance means\<close>

definition accepts :: "bool \<Rightarrow> nat \<Rightarrow> Value \<Rightarrow> Value \<Rightarrow> Value \<Rightarrow> bool" where
  "accepts debug levels doc schema v \<longleftrightarrow>
     (\<exists>w w'. wk_document w = doc \<and> evaluate_levels debug levels schema v w = (Ok (), w'))"

lemma walk_each_OkD:
  assumes "walk_each f xs w = (Ok (), w')" and "\<And>x. advances spends (f x)" and "x \<in> set xs"
  shows "\<exists>w1 w2. wk_document w1 = wk_document w \<and> f x w1 = (Ok (), w2)"
  using assms(1,3)
proof (induction xs arbitrary: w)
  case (Cons y ys)
  from Cons.prems(1) obtain w1 where y: "f y w = (Ok (), w1)" and rest: "walk_each f ys w1 = (Ok (), w')"
    by (auto elim: eff_bind_OkE)
  have "wk_document w1 = wk_document w" using advancesD [OF assms(2) y] by (simp add: spends_def)
  with Cons.IH [OF rest] Cons.prems(2) y show ?case by auto
qed simp

lemma below_name_OkD: "below_name name m w = (Ok x, w') \<Longrightarrow> \<exists>w1 w2. wk_document w1 = wk_document w \<and> m w1 = (Ok x, w2)"
  by (auto simp: below_name_def split: prod.split_asm) (metis Walk.select_convs(3) Walk.surjective Walk.update_convs(2))

lemma require_Ok [simp]: "require b k w = (Ok (), w') \<longleftrightarrow> b \<and> w' = w"
  by (auto simp: require_def violation_def)

lemma accepts_Bool: "accepts d n doc (Bool b) v \<Longrightarrow> b"
  by (cases n) (auto simp: accepts_def as_bool_def elim: eff_bind_OkE)

lemma accepts_keyword:
  assumes "accepts d (Suc n) doc (Object m) v" and "map_of m k = Some spec" and "static_name k = Some named"
  shows "\<exists>w w'. wk_document w = doc \<and> apply_keyword d (evaluate_levels d n) m named spec v w = (Ok (), w')"
proof -
  let ?f = "\<lambda>(keyword, spec). case static_name keyword of
      None \<Rightarrow> if d then eff_throw Panics else eff_return ()
    | Some named \<Rightarrow> apply_keyword d (evaluate_levels d n) m named spec v"
  from assms(1) obtain w w1 w' where w: "wk_document w = doc" "spend w = (Ok (), w1)" "walk_each ?f m w1 = (Ok (), w')"
    by (auto simp: accepts_def as_bool_def as_object_def elim!: eff_bind_OkE)
  have "wk_document w1 = doc" using w(1) advancesD [OF advances_spend w(2)] by (simp add: spends_def)
  moreover have "advances spends (?f x)" for x
    by (cases x) (auto intro!: effect_rules advances_apply advances_evaluate split: option.split)
  ultimately show ?thesis
    using walk_each_OkD [OF w(3) _ map_of_SomeD [OF assms(2)]] assms(3) by auto
qed

lemma static_names:
  "static_name ''type'' = Some ''type''" "static_name ''required'' = Some ''required''"
  "static_name ''properties'' = Some ''properties''" "static_name ''additionalProperties'' = Some ''additionalProperties''"
  by (simp_all add: static_name_def keyword_row_def KEYWORDS_def)

lemma accepts_type_object:
  assumes "accepts d (Suc n) doc (Object m) v" and "map_of m ''type'' = Some (String ''object'')"
  obtains members where "v = Object members"
proof -
  from accepts_keyword [OF assms static_names(1)] have "type_name v = ''object''"
    by (auto simp: apply_keyword_def check_type_def matches_one_def)
  with that show thesis by (cases v) simp_all
qed

text \<open>The members a schema requires, and the schema it declares for a member: none when the keyword is absent or is not of
  its shape.\<close>

definition required_names :: "Node \<Rightarrow> string list" where
  "required_names m = List.map_filter as_str (unwrap_or (Option.bind (map_of m ''required'') as_array) [])"

definition declared_schema :: "Node \<Rightarrow> string \<Rightarrow> Value option" where
  "declared_schema m name = Option.bind (declared_names m) (\<lambda>declared. map_of declared name)"

lemma accepts_required:
  assumes "accepts d (Suc n) doc (Object m) (Object members)" and "name \<in> set (required_names m)"
  shows "map_of members name \<noteq> None"
proof -
  from assms(2) obtain spec where spec: "map_of m ''required'' = Some spec"
    and name: "name \<in> set (List.map_filter as_str (unwrap_or (as_array spec) []))"
    by (cases "map_of m ''required''") (auto simp: required_names_def map_filter_def)
  from accepts_keyword [OF assms(1) spec static_names(2)] obtain w w' where
    "walk_each (\<lambda>name. require (map_of members name \<noteq> None) ''required'')
       (List.map_filter as_str (unwrap_or (as_array spec) [])) w = (Ok (), w')"
    by (auto simp: apply_keyword_def check_object_def as_object_def)
  with name show ?thesis using walk_each_OkD advances_require by fastforce
qed

lemma accepts_properties:
  assumes "accepts d (Suc n) doc (Object m) (Object members)"
    and "declared_schema m name = Some schema" and "map_of members name = Some child"
  shows "accepts d n doc schema child"
proof -
  let ?f = "\<lambda>(name, schema). case map_of members name of
      Some child \<Rightarrow> below_name name (evaluate_levels d n schema child) | None \<Rightarrow> eff_return ()"
  from assms(2) obtain spec declared where spec: "map_of m ''properties'' = Some spec" "as_object spec = Some declared"
    and name: "map_of declared name = Some schema"
    by (auto simp: declared_schema_def declared_names_def bind_eq_Some_conv split: option.split_asm)
  from accepts_keyword [OF assms(1) spec(1) static_names(3)] spec(2) obtain w w' where
    w: "wk_document w = doc" "walk_each ?f declared w = (Ok (), w')"
    by (auto simp: apply_keyword_def check_object_def as_object_def)
  have "advances spends (?f x)" for x by (cases x) (auto intro!: effect_rules advances_evaluate split: option.split)
  from walk_each_OkD [OF w(2) this map_of_SomeD [OF name]] assms(3) w(1) obtain w1 w2 where
    "wk_document w1 = doc" "below_name name (evaluate_levels d n schema child) w1 = (Ok (), w2)" by auto
  then show ?thesis unfolding accepts_def using below_name_OkD by metis
qed

lemma accepts_closed:
  assumes "accepts d (Suc n) doc (Object m) (Object members)"
    and "map_of m ''additionalProperties'' = Some (Bool False)" and "(name, child) \<in> set members"
  shows "declared_schema m name \<noteq> None"
proof
  assume "declared_schema m name = None"
  then have none: "\<not> is_some_and (declared_names m) (\<lambda>declared. map_of declared name \<noteq> None)"
    by (auto simp: declared_schema_def is_some_and_def split: option.split)
  let ?f = "\<lambda>(name, child). if is_some_and (declared_names m) (\<lambda>declared. map_of declared name \<noteq> None) then eff_return ()
      else below_name name (evaluate_levels d n (Bool False) child)"
  from accepts_keyword [OF assms(1,2) static_names(4)] obtain w w' where
    w: "walk_each ?f members w = (Ok (), w')"
    by (auto simp: apply_keyword_def check_object_def as_object_def)
  have "advances spends (?f x)" for x by (cases x) (auto intro!: effect_rules advances_evaluate)
  from walk_each_OkD [OF w this assms(3)] none obtain w1 w2 where
    "below_name name (evaluate_levels d n (Bool False) child) w1 = (Ok (), w2)"
    by auto
  then have "accepts d n (wk_document w1) (Bool False) child" unfolding accepts_def using below_name_OkD by metis
  then show False by (auto dest: accepts_Bool)
qed

lemma schema_validate_accepts:
  assumes "schema_validate debug from_str ts arguments = Ok ()" and "from_str (arguments_as_str arguments) = Some v"
  shows "accepts debug (Suc MAX_SCHEMA_DEPTH) (sc_document ts) (sc_document ts) v"
proof -
  have "fst (evaluate_levels debug (Suc MAX_SCHEMA_DEPTH) (sc_document ts) v (walk_start (sc_document ts))) = Ok ()"
    using assms by (simp add: schema_validate_def schema_evaluate_def del: evaluate_levels.simps)
  moreover have "wk_document (walk_start (sc_document ts)) = sc_document ts" by (simp add: walk_start_def)
  ultimately show ?thesis unfolding accepts_def by (metis prod.collapse)
qed

text \<open>C20: A closed object schema means what it says: when arguments pass a schema whose \<open>type\<close> is \<open>object\<close> and whose
  \<open>additionalProperties\<close> is \<open>false\<close>, they are an object with only members the schema declares (none at all when it has
  no \<open>properties\<close>) and every member it requires, and each member passes the schema declared for it.\<close>

theorem validated_object_is_closed:
  assumes "schema_validate debug from_str ts arguments = Ok ()" and "from_str (arguments_as_str arguments) = Some v"
    and "sc_document ts = Object m" and "map_of m ''type'' = Some (String ''object'')"
    and "map_of m ''additionalProperties'' = Some (Bool False)"
  shows "\<exists>members. v = Object members \<and> list_all (\<lambda>(name, _). declared_schema m name \<noteq> None) members \<and>
    list_all (\<lambda>name. map_of members name \<noteq> None) (required_names m) \<and>
    (\<forall>name schema child. declared_schema m name = Some schema \<longrightarrow> map_of members name = Some child \<longrightarrow>
       accepts debug MAX_SCHEMA_DEPTH (sc_document ts) schema child)"
proof -
  have "accepts debug (Suc MAX_SCHEMA_DEPTH) (sc_document ts) (Object m) v"
    using schema_validate_accepts [OF assms(1,2)] assms(3) by simp
  moreover from accepts_type_object [OF this assms(4)] obtain members where "v = Object members" by blast
  ultimately show ?thesis
    using accepts_closed [OF _ assms(5)] accepts_required accepts_properties
    by (auto simp: list_all_iff)
qed

section \<open>A loaded schema never reaches an assertion\<close>

definition loaded :: "Value \<Rightarrow> Value \<Rightarrow> bool" where
  "loaded doc schema \<longleftrightarrow> (\<exists>n loc. check_levels n doc schema loc = Ok ())"

text \<open>The subschemas a keyword's value holds.\<close>

definition subschemas :: "string \<Rightarrow> Value \<Rightarrow> Value set" where
  "subschemas keyword spec =
     (case shape_of keyword of
        Some Schema \<Rightarrow> {spec}
      | Some SchemaMap \<Rightarrow> {s. \<exists>m k. spec = Object m \<and> (k, s) \<in> set m}
      | Some NonEmptySchemaArray \<Rightarrow> {s. \<exists>xs. spec = Array xs \<and> s \<in> set xs}
      | _ \<Rightarrow> {})"

lemma try_each_Ok: "try_each f xs = Ok () \<longleftrightarrow> (\<forall>x \<in> set xs. f x = Ok ())"
  by (induction xs) (auto split: sum.split)

lemma at_path_Ok: "at_path p f = Ok () \<longleftrightarrow> (\<exists>q. p = Some q \<and> f q = Ok ())"
  by (auto simp: at_path_def split: option.split)

lemma rejected_Ok [simp]: "rejected r \<noteq> Ok ()"
  by (simp add: rejected_def)

lemma plain_shapes: "shape_of ''$schema'' = Some StringShape" "shape_of ''$ref'' = Some StringShape" "shape_of ''type'' = Some TypeSpec"
  by (simp_all add: shape_of_def keyword_row_def KEYWORDS_def)

lemma enumerated_iff: "x \<in> set xs \<longleftrightarrow> (\<exists>i. (i, x) \<in> set (enumerate k xs))"
proof -
  have "set xs = snd ` set (enumerate k xs)" by (metis list.set_map map_snd_enumerate)
  then show ?thesis by force
qed

lemma keyword_loaded:
  assumes ok: "check_keyword (check_levels n doc) doc k spec loc = Ok ()" and s: "s \<in> subschemas k spec"
  shows "loaded doc s"
proof -
  from s have plain: "k \<noteq> ''$schema''" "k \<noteq> ''$ref''" "k \<noteq> ''type''" by (auto simp: subschemas_def plain_shapes)
  obtain shape where shape: "shape_of k = Some shape" using s by (auto simp: subschemas_def split: option.split_asm)
  have sm: "shape_matches shape spec" using ok shape by (auto simp: check_keyword_def Let_def split: if_split_asm)
  have body: "at_path (schema_path loc k) (\<lambda>child. case shape of
      Schema \<Rightarrow> check_levels n doc spec child
    | SchemaMap \<Rightarrow> (case as_object spec of
        Some members \<Rightarrow> try_each (\<lambda>(name, nested). at_path (schema_path child name) (check_levels n doc nested)) members
      | None \<Rightarrow> Ok ())
    | NonEmptySchemaArray \<Rightarrow> (case as_array spec of
        Some items \<Rightarrow>
          try_each (\<lambda>(index, nested). at_path (schema_path child (show_nat index)) (check_levels n doc nested)) (enumerate 0 items)
      | None \<Rightarrow> Ok ())
    | _ \<Rightarrow> Ok ()) = Ok ()"
    using ok shape sm plain by (simp add: check_keyword_def Let_def)
  consider "shape = Schema" "s = spec" | m j where "shape = SchemaMap" "spec = Object m" "(j, s) \<in> set m"
    | xs where "shape = NonEmptySchemaArray" "spec = Array xs" "s \<in> set xs"
    using s shape by (auto simp: subschemas_def split: Shape.split_asm)
  then show ?thesis
  proof cases
    case 1
    with body show ?thesis by (auto simp: at_path_Ok loaded_def)
  next
    case 2
    with body obtain child where "try_each (\<lambda>(name, nested). at_path (schema_path child name) (check_levels n doc nested)) m = Ok ()"
      by (auto simp: at_path_Ok as_object_def)
    with 2(3) show ?thesis by (fastforce simp: try_each_Ok at_path_Ok loaded_def)
  next
    case 3
    with body obtain child where
      each: "try_each (\<lambda>(index, nested). at_path (schema_path child (show_nat index)) (check_levels n doc nested)) (enumerate 0 xs) = Ok ()"
      by (auto simp: at_path_Ok as_array_def)
    from 3(3) obtain i where "(i, s) \<in> set (enumerate 0 xs)" 
      by (metis enumerated_iff)
    with each have "at_path (schema_path child (show_nat i)) (check_levels n doc s) = Ok ()"
      unfolding try_each_Ok by (drule_tac x = "(i, s)" in bspec) simp_all
    then show ?thesis by (auto simp: at_path_Ok loaded_def)
  qed
qed

lemma loaded_object:
  assumes "loaded doc (Object m)"
  obtains n loc where "\<And>k spec. (k, spec) \<in> set m \<Longrightarrow> check_keyword (check_levels n doc) doc k spec loc = Ok ()"
proof -
  from assms obtain n loc where "check_levels n doc (Object m) loc = Ok ()" by (auto simp: loaded_def)
  then obtain l where "\<forall>x \<in> set m. (case x of (k, spec) \<Rightarrow> check_keyword (check_levels l doc) doc k spec loc) = Ok ()"
    by (cases n) (auto simp: try_each_Ok is_boolean_def as_object_def)
  then have "check_keyword (check_levels l doc) doc k spec loc = Ok ()" if "(k, spec) \<in> set m" for k spec
    using that by (drule_tac x = "(k, spec)" in bspec) simp_all
  with that show ?thesis by blast
qed

lemma loaded_keyword:
  assumes "loaded doc (Object m)" and "(k, spec) \<in> set m"
  shows "\<exists>shape. shape_of k = Some shape" and "s \<in> subschemas k spec \<Longrightarrow> loaded doc s"
proof -
  obtain n loc where ok: "check_keyword (check_levels n doc) doc k spec loc = Ok ()"
    using loaded_object [OF assms(1)] assms(2) by metis
  show "\<exists>shape. shape_of k = Some shape" using ok by (auto simp: check_keyword_def Let_def split: option.split_asm)
  show "s \<in> subschemas k spec \<Longrightarrow> loaded doc s" by (rule keyword_loaded [OF ok])
qed

text \<open>Two walks that do the same on a given document.\<close>

named_theorems same_rules \<open>compositional rules for \<open>same\<close>\<close>

definition same :: "Value \<Rightarrow> 'a walk \<Rightarrow> 'a walk \<Rightarrow> bool" where
  "same doc f g \<longleftrightarrow> (\<forall>w. wk_document w = doc \<longrightarrow> f w = g w)"

lemma same_refl [same_rules]: "same doc f f"
  by (simp add: same_def)

lemma same_if [same_rules]:
  "(c \<Longrightarrow> same doc a a') \<Longrightarrow> (\<not> c \<Longrightarrow> same doc b b') \<Longrightarrow> same doc (if c then a else b) (if c then a' else b')"
  by simp

lemma same_bind:
  assumes "same doc f g" and "advances spends g" and "\<And>x. same doc (h x) (k x)"
  shows "same doc (eff_bind f h) (eff_bind g k)"
  using assms unfolding same_def eff_bind_def advances_def spends_def
  by (auto split: prod.split sum.split) (metis snd_conv)

lemma same_try:
  assumes "same doc f g" and "advances spends g" and "\<And>r. same doc (h r) (k r)"
  shows "same doc (eff_try f h) (eff_try g k)"
  using assms unfolding same_def eff_try_def advances_def spends_def
  by (auto split: prod.split) (metis snd_conv)

lemma same_below: "same doc f g \<Longrightarrow> same doc (below_name name f) (below_name name g)"
  by (simp add: same_def below_name_def)

lemma same_walk_each:
  assumes "\<And>x. x \<in> set xs \<Longrightarrow> same doc (f x) (g x)" and "\<And>x. advances spends (g x)"
  shows "same doc (walk_each f xs) (walk_each g xs)"
  using assms(1) by (induction xs) (auto intro!: same_refl same_bind assms(2))

lemma same_count_ok:
  assumes "\<And>s. s \<in> set ss \<Longrightarrow> same doc (f s) (g s)" and "\<And>s. advances spends (g s)"
  shows "same doc (count_ok f ss) (count_ok g ss)"
  using assms(1)
proof (induction ss)
  case (Cons s ss)
  then have "same doc (count_ok f ss) (count_ok g ss)" by simp
  then show ?case
    by (auto intro!: same_try same_bind same_refl Cons.prems assms(2) advances_count_ok split: sum.split Halt.split)
qed (simp add: same_refl)

lemma subschema_shapes:
  "shape_of ''items'' = Some Schema" "shape_of ''additionalProperties'' = Some Schema" "shape_of ''propertyNames'' = Some Schema"
  "shape_of ''not'' = Some Schema" "shape_of ''if'' = Some Schema" "shape_of ''then'' = Some Schema"
  "shape_of ''else'' = Some Schema" "shape_of ''properties'' = Some SchemaMap" "shape_of ''$defs'' = Some SchemaMap"
  "shape_of ''prefixItems'' = Some NonEmptySchemaArray" "shape_of ''allOf'' = Some NonEmptySchemaArray"
  "shape_of ''anyOf'' = Some NonEmptySchemaArray" "shape_of ''oneOf'' = Some NonEmptySchemaArray"
  by (simp_all add: shape_of_def keyword_row_def KEYWORDS_def)

lemma subschemas_simps:
  "subschemas ''items'' spec = {spec}" "subschemas ''additionalProperties'' spec = {spec}"
  "subschemas ''propertyNames'' spec = {spec}" "subschemas ''not'' spec = {spec}" "subschemas ''if'' spec = {spec}"
  "subschemas ''then'' spec = {spec}" "subschemas ''else'' spec = {spec}"
  "subschemas ''properties'' (Object m) = snd ` set m" "subschemas ''$defs'' (Object m) = snd ` set m"
  "subschemas ''prefixItems'' (Array xs) = set xs" "subschemas ''allOf'' (Array xs) = set xs"
  "subschemas ''anyOf'' (Array xs) = set xs" "subschemas ''oneOf'' (Array xs) = set xs"
  by (auto simp: subschemas_def subschema_shapes intro: rev_image_eqI)

lemma same_array:
  assumes ev: "\<And>s v. s \<in> subschemas k spec \<Longrightarrow> same doc (f s v) (g s v)" and adv: "\<And>s v. advances spends (g s v)"
  shows "same doc (check_array f node k spec v) (check_array g node k spec v)"
proof (cases "as_array v")
  case (Some items)
  have prefix: "same doc (walk_each (\<lambda>(index, schema, item). below_index index (f schema item)) (enumerate 0 (zip (unwrap_or (as_array spec) []) items)))
      (walk_each (\<lambda>(index, schema, item). below_index index (g schema item)) (enumerate 0 (zip (unwrap_or (as_array spec) []) items)))"
    if k: "k = ''prefixItems''"
  proof (rule same_walk_each)
    fix x assume "x \<in> set (enumerate 0 (zip (unwrap_or (as_array spec) []) items))"
    then obtain i s u where x: "x = (i, s, u)" and "(s, u) \<in> set (zip (unwrap_or (as_array spec) []) items)"
      by (metis enumerated_iff prod.collapse)
    then have s: "s \<in> set (unwrap_or (as_array spec) [])" by (auto dest: set_zip_leftD)
    from s obtain xs where "spec = Array xs" "s \<in> set xs" by (cases "as_array spec") auto
    with ev k have "same doc (f s u) (g s u)" by (simp add: subschemas_simps)
    then show "same doc (case x of (index, schema, item) \<Rightarrow> below_index index (f schema item))
        (case x of (index, schema, item) \<Rightarrow> below_index index (g schema item))"
      by (simp add: x below_index_def same_below)
  qed (auto intro!: effect_rules adv split: prod.split)
  have rest: "same doc (walk_each (\<lambda>(index, item). below_index index (f spec item)) xs)
      (walk_each (\<lambda>(index, item). below_index index (g spec item)) xs)" if k: "k = ''items''" for xs
    using ev k by (intro same_walk_each) (auto simp: subschemas_simps below_index_def intro!: same_below effect_rules adv split: prod.split)
  show ?thesis unfolding check_array_def Some option.case by (intro same_if same_refl prefix rest)
qed (simp add: check_array_def same_refl)

lemma same_object:
  assumes ev: "\<And>s v. s \<in> subschemas k spec \<Longrightarrow> same doc (f s v) (g s v)" and adv: "\<And>s v. advances spends (g s v)"
  shows "same doc (check_object f node k spec v) (check_object g node k spec v)"
proof (cases "as_object v")
  case (Some members)
  let ?p = "\<lambda>h (name, schema). case map_of members name of Some child \<Rightarrow> below_name name (h schema child) | None \<Rightarrow> eff_return ()"
  have props: "same doc (walk_each (?p f) declared) (walk_each (?p g) declared)"
    if k: "k = ''properties''" and d: "as_object spec = Some declared" for declared
  proof (rule same_walk_each)
    fix x assume x: "x \<in> set declared"
    then have "snd x \<in> subschemas k spec" using k d by (auto simp: subschemas_simps)
    with ev show "same doc (?p f x) (?p g x)"
      by (cases x) (auto intro!: same_below same_refl split: option.split)
  qed (auto intro!: effect_rules adv split: option.split prod.split)
  have others: "same doc (walk_each (\<lambda>(name, child). if c name then eff_return () else below_name name (f spec (h name child))) members)
      (walk_each (\<lambda>(name, child). if c name then eff_return () else below_name name (g spec (h name child))) members)"
    if "spec \<in> subschemas k spec" for c h
    using ev [OF that] by (intro same_walk_each) (auto intro!: same_below same_refl effect_rules adv split: prod.split)
  have p: "same doc (case as_object spec of None \<Rightarrow> eff_return () | Some declared \<Rightarrow> walk_each (?p f) declared)
      (case as_object spec of None \<Rightarrow> eff_return () | Some declared \<Rightarrow> walk_each (?p g) declared)" if "k = ''properties''"
    using props [OF that] by (cases "as_object spec") (simp_all add: same_refl del: as_object_Some_iff)
  have a: "same doc (walk_each (\<lambda>(name, child).
        if is_some_and (declared_names node) (\<lambda>declared. map_of declared name \<noteq> None) then eff_return ()
        else below_name name (f spec child)) members)
      (walk_each (\<lambda>(name, child).
        if is_some_and (declared_names node) (\<lambda>declared. map_of declared name \<noteq> None) then eff_return ()
        else below_name name (g spec child)) members)" if "k = ''additionalProperties''"
    using others [of "\<lambda>name. is_some_and (declared_names node) (\<lambda>declared. map_of declared name \<noteq> None)" "\<lambda>_ c. c"] that
    by (simp add: subschemas_simps)
  have n: "same doc (walk_each (\<lambda>(name, _). below_name name (f spec (String name))) members)
      (walk_each (\<lambda>(name, _). below_name name (g spec (String name))) members)" if "k = ''propertyNames''"
    using others [of "\<lambda>_. False" "\<lambda>name _. String name"] that by (simp add: subschemas_simps)
  show ?thesis unfolding check_object_def Some option.case by (intro same_if same_refl p a n)
qed (simp add: check_object_def same_refl)

lemma same_logic:
  assumes ev: "\<And>s v. s \<in> subschemas k spec \<Longrightarrow> same doc (f s v) (g s v)" and adv: "\<And>s v. advances spends (g s v)"
    and k: "k \<in> {''allOf'', ''anyOf'', ''oneOf''}"
  shows "same doc (check_logic f k spec v) (check_logic g k spec v)"
proof -
  have "same doc (f s v) (g s v)" if "s \<in> set (unwrap_or (as_array spec) [])" for s
  proof -
    from that obtain xs where "spec = Array xs" "s \<in> set xs" by (cases "as_array spec") auto
    with ev k show ?thesis by (auto simp: subschemas_simps)
  qed
  then show ?thesis
    unfolding check_logic_def Let_def by (intro same_bind same_count_ok same_refl adv effect_rules)
qed

lemma same_conditional:
  assumes "\<And>v. same doc (f spec v) (g spec v)" and adv: "\<And>s v. advances spends (g s v)"
    and branch: "\<And>b s v. b \<in> {''then'', ''else''} \<Longrightarrow> map_of node b = Some s \<Longrightarrow> same doc (f s v) (g s v)"
  shows "same doc (check_conditional f node spec v) (check_conditional g node spec v)"
  unfolding check_conditional_def
proof (intro same_try assms(1) adv)
  fix r :: "ArgumentViolation Halt + unit"
  show "same doc (case r of Err Panics \<Rightarrow> eff_throw Panics | _ \<Rightarrow> (case map_of node (if is_ok r then ''then'' else ''else'') of
        None \<Rightarrow> eff_return () | Some s \<Rightarrow> f s v))
      (case r of Err Panics \<Rightarrow> eff_throw Panics | _ \<Rightarrow> (case map_of node (if is_ok r then ''then'' else ''else'') of
        None \<Rightarrow> eff_return () | Some s \<Rightarrow> g s v))"
    using branch [of "''then''"] branch [of "''else''"]
    by (cases r; cases "map_of node ''then''"; cases "map_of node ''else''") (auto intro!: same_refl split: Halt.split)
qed

lemma table_name: "static_name k = Some named \<Longrightarrow> named = k" "shape_of k = Some shape \<Longrightarrow> static_name k = Some k"
  by (auto simp: static_name_def shape_of_def keyword_row_def dest: find_SomeD)

text \<open>Every row of the table has an arm.\<close>

lemma table_covered: "static_name k = Some k \<Longrightarrow> apply_keyword True g node k spec v = apply_keyword False g node k spec v"
proof -
  assume "static_name k = Some k"
  then have "k \<in> set (map fst KEYWORDS)" by (force simp: static_name_def keyword_row_def dest: find_SomeD)
  then show ?thesis by (simp add: KEYWORDS_def) (elim disjE; simp add: apply_keyword_def)
qed

lemma same_apply:
  assumes node: "loaded doc (Object m)" and member: "(k, spec) \<in> set m" and doc: "loaded doc doc"
    and ev: "\<And>s v. loaded doc s \<Longrightarrow> same doc (f s v) (g s v)" and adv: "\<And>s v. advances spends (g s v)"
  shows "same doc (apply_keyword True f m k spec v) (apply_keyword True g m k spec v)"
proof -
  have sub: "same doc (f s v) (g s v)" if "s \<in> subschemas k spec" for s v
    using ev loaded_keyword(2) [OF node member that] by blast
  have ref: "same doc (eff_bind (eff_get (\<lambda>w. resolve (wk_document w) (unwrap_or (as_str spec) []))) (\<lambda>target.
        case target of None \<Rightarrow> violation k | Some schema \<Rightarrow> f schema v))
      (eff_bind (eff_get (\<lambda>w. resolve (wk_document w) (unwrap_or (as_str spec) []))) (\<lambda>target.
        case target of None \<Rightarrow> violation k | Some schema \<Rightarrow> g schema v))"
    unfolding same_def
  proof (intro allI impI)
    fix w :: Walk assume w: "wk_document w = doc"
    have "f t v w = g t v w" if t: "resolve doc (unwrap_or (as_str spec) []) = Some t" for t
    proof -
      from t obtain name d where "value_get doc ''$defs'' = Some d" "value_get d name = Some t"
        by (auto simp: resolve_def Option.bind_eq_Some_conv split: option.split_asm)
      then obtain root_m defs where d: "doc = Object root_m" "map_of root_m ''$defs'' = Some (Object defs)" "(name, t) \<in> set defs"
        by (cases doc; cases d) (auto simp: value_get_def dest: map_of_SomeD)
      have "loaded doc t" using doc d loaded_keyword(2) [of doc root_m "''$defs''" "Object defs" t]
        by (force simp: subschemas_simps dest: map_of_SomeD)
      from ev [OF this] w show ?thesis by (simp add: same_def)
    qed
    then show "eff_bind (eff_get (\<lambda>w. resolve (wk_document w) (unwrap_or (as_str spec) []))) (\<lambda>target.
        case target of None \<Rightarrow> violation k | Some schema \<Rightarrow> f schema v) w =
      eff_bind (eff_get (\<lambda>w. resolve (wk_document w) (unwrap_or (as_str spec) []))) (\<lambda>target.
        case target of None \<Rightarrow> violation k | Some schema \<Rightarrow> g schema v) w"
      using w by (cases "resolve doc (unwrap_or (as_str spec) [])") (simp_all add: eff_bind_def)
  qed
  have branch: "same doc (f s v) (g s v)" if "b \<in> {''then'', ''else''}" "map_of m b = Some s" for b s v
    using that loaded_keyword(2) [OF node map_of_SomeD [OF that(2)], of s] ev by (auto simp: subschemas_simps)
  have one: "same doc (f spec v) (g spec v)" if "k = ''not'' \<or> k = ''if''" for v
    using sub that by (auto simp: subschemas_simps)
  show ?thesis
    unfolding apply_keyword_def
    by (intro same_if same_refl ref same_array same_object same_logic same_try same_conditional sub adv one branch) blast+
qed

lemma same_evaluate:
  assumes "loaded doc doc" and "loaded doc s"
  shows "same doc (evaluate_levels True n s v) (evaluate_levels False n s v)"
  using assms(2)
proof (induction n arbitrary: s v)
  case (Suc n)
  show ?case
  proof (cases "as_bool s")
    case None
    show ?thesis
    proof (cases "as_object s")
      case (Some m)
      then have s: "s = Object m" by simp
      have "same doc (walk_each (\<lambda>(keyword, spec). case static_name keyword of
            None \<Rightarrow> if True then eff_throw Panics else eff_return ()
          | Some named \<Rightarrow> apply_keyword True (evaluate_levels True n) m named spec v) m)
        (walk_each (\<lambda>(keyword, spec). case static_name keyword of
            None \<Rightarrow> if False then eff_throw Panics else eff_return ()
          | Some named \<Rightarrow> apply_keyword False (evaluate_levels False n) m named spec v) m)"
      proof (rule same_walk_each)
        fix x assume x: "x \<in> set m"
        obtain k spec where e: "x = (k, spec)" by fastforce
        with x Suc.prems s have k: "static_name k = Some k" using loaded_keyword(1) table_name(2) by metis
        have "same doc (apply_keyword True (evaluate_levels True n) m k spec v) (apply_keyword True (evaluate_levels False n) m k spec v)"
          using Suc.prems s x e by (intro same_apply assms(1) Suc.IH advances_evaluate) simp_all
        then show "same doc (case x of (keyword, spec) \<Rightarrow> case static_name keyword of
            None \<Rightarrow> if True then eff_throw Panics else eff_return ()
          | Some named \<Rightarrow> apply_keyword True (evaluate_levels True n) m named spec v)
          (case x of (keyword, spec) \<Rightarrow> case static_name keyword of
            None \<Rightarrow> if False then eff_throw Panics else eff_return ()
          | Some named \<Rightarrow> apply_keyword False (evaluate_levels False n) m named spec v)"
          by (simp add: e k table_covered [OF k])
      qed (auto intro!: effect_rules advances_apply advances_evaluate split: prod.split option.split)
      then show ?thesis
        unfolding evaluate_levels.simps None Some option.case by (intro same_bind same_refl advances_spend)
    qed (simp add: None same_refl)
  qed (simp add: as_bool_def same_refl)
qed (simp add: same_refl)

text \<open>C21: Loading is strict enough: for a schema that loaded, evaluation never meets a keyword outside the
  table, nor one without an arm, so the debug build (where that panics) and the release build (where the
  keyword would be skipped) give the same answer for all arguments.\<close>

theorem loaded_schema_ignores_no_keyword:
  assumes "tool_schema_parse from_str fingerprint text = Ok ts"
  shows "schema_validate True from_str ts arguments = schema_validate False from_str ts arguments"
proof -
  have l: "loaded (sc_document ts) (sc_document ts)"
    using assms unfolding loaded_def
    by (intro exI [of _ "Suc MAX_SCHEMA_DEPTH"] exI [of _ "[]"])
      (auto simp: tool_schema_parse_def check_schema_def split: if_split_asm option.split_asm sum.split_asm
        simp del: check_levels.simps)
  from same_evaluate [OF l l] show ?thesis
    by (auto simp: schema_validate_def schema_evaluate_def same_def walk_start_def split: option.split simp del: evaluate_levels.simps)
qed

section \<open>Limits, rounding and panics\<close>

definition cycle_schema :: Value where
  "cycle_schema = Object [(''$ref'', String ''#/$defs/d'')]"

definition cyclic_document :: "Value \<Rightarrow> Value" where
  "cyclic_document s = Object [(''$defs'', Object [(''d'', cycle_schema)]), (''not'', s)]"

definition schema_of :: "Value \<Rightarrow> ToolSchema" where
  "schema_of doc = \<lparr>sc_text = [], sc_document = doc, sc_fingerprint = []\<rparr>"

lemmas schema_evaluation = static_name_def keyword_row_def KEYWORDS_def apply_keyword_def json_access spend_def
  reference_name_def DEFS_PREFIX_def Byte_Text.strip_prefix_def starts_with_def resolve_def

lemma resolve_cycle: "resolve (cyclic_document s) ''#/$defs/d'' = Some cycle_schema"
  by (simp add: cyclic_document_def schema_evaluation)

lemma static_ref: "static_name ''$ref'' = Some ''$ref''" "static_name ''not'' = Some ''not''" "static_name ''anyOf'' = Some ''anyOf''"
  "static_name ''$defs'' = Some ''$defs''" "static_name ''maximum'' = Some ''maximum''"
  by (simp_all add: static_name_def keyword_row_def KEYWORDS_def)

lemma evaluate_object:
  "0 < wk_steps w \<Longrightarrow> evaluate_levels debug (Suc n) (Object m) v w =
     walk_each (\<lambda>(keyword, spec). case static_name keyword of
         None \<Rightarrow> if debug then eff_throw Panics else eff_return ()
       | Some named \<Rightarrow> apply_keyword debug (evaluate_levels debug n) m named spec v) m (w\<lparr>wk_steps := wk_steps w - 1\<rparr>)"
  by (simp add: spend_def eff_bind_def as_bool_def as_object_def)

lemma two_levels: obtains k where "MAX_SCHEMA_DEPTH = Suc k" and "k < 100"
  by (rule that [of 31]) (simp_all add: MAX_SCHEMA_DEPTH_def)

lemma validate_schema_of:
  assumes "MAX_SCHEMA_DEPTH = Suc k"
  shows "schema_validate debug (\<lambda>_. Some v) (schema_of doc) a =
     fst (evaluate_levels debug (Suc (Suc k)) doc v \<lparr>wk_steps = 200000, wk_path = [], wk_document = doc\<rparr>)"
  by (simp add: schema_validate_def schema_evaluate_def schema_of_def walk_start_def assms MAX_SCHEMA_STEPS_def
      del: evaluate_levels.simps)

lemma cycle_too_deep:
  "wk_document w = cyclic_document s \<Longrightarrow> n \<le> wk_steps w \<Longrightarrow>
     evaluate_levels debug n cycle_schema v w = (Err (Fails TooDeep), w\<lparr>wk_steps := wk_steps w - n\<rparr>)"
proof (induction n arbitrary: w)
  case (Suc n)
  then show ?case
    unfolding cycle_schema_def [THEN arg_cong, where f = "evaluate_levels debug (Suc n)"]
    by (simp add: evaluate_object static_ref apply_keyword_def as_str_def resolve_cycle del: evaluate_levels.simps)
qed (simp add: eff_throw_def)

text \<open>A limit of the validator can pass for an answer: \<open>not\<close> hands a depth refusal on, but the
  combinators and \<open>if\<close> count it as a branch that does not match, so under one \<open>anyOf\<close> more the same
  unfinished check is inverted into acceptance.\<close>

theorem swallowed_limit_is_acceptance:
  "schema_validate debug (\<lambda>_. Some Null) (schema_of (cyclic_document cycle_schema)) a = Err (Fails TooDeep) \<and>
   schema_validate debug (\<lambda>_. Some Null)
     (schema_of (cyclic_document (Object [(''anyOf'', Array [cycle_schema])]))) a = Ok ()"
proof
  note evaluation = cyclic_document_def evaluate_object static_ref apply_keyword_def invert_def eff_try_def eff_bind_def
    check_logic_def as_array_def u32_or_max_def require_def violation_def render_path_def
    cycle_too_deep [unfolded cyclic_document_def]
  obtain k where k: "MAX_SCHEMA_DEPTH = Suc k" "k < 100" by (rule two_levels)
  show "schema_validate debug (\<lambda>_. Some Null) (schema_of (cyclic_document cycle_schema)) a = Err (Fails TooDeep)"
    unfolding validate_schema_of [OF k(1)] using k(2) by (simp add: evaluation del: evaluate_levels.simps)
  show "schema_validate debug (\<lambda>_. Some Null)
      (schema_of (cyclic_document (Object [(''anyOf'', Array [cycle_schema])]))) a = Ok ()"
    unfolding validate_schema_of [OF k(1)] using k(2) by (simp add: evaluation del: evaluate_levels.simps)
qed

text \<open>A bound above two to the 53rd is not exact: both sides are read as \<open>f64\<close>, so the integer after
  the bound passes \<open>maximum\<close>.\<close>

theorem large_integer_passes_its_bound:
  "schema_validate debug (\<lambda>_. Some (Number (PosInt 9007199254740993)))
     (schema_of (Object [(''maximum'', Number (PosInt 9007199254740992))])) a = Ok ()"
proof -
  have "f64_of_nonneg 9007199254740993 = 9007199254740992" "f64_of_nonneg 9007199254740992 = 9007199254740992"
    by (simp_all add: f64_of_nonneg_def round_even_def eval_nat_numeral Let_def)
  moreover obtain k where k: "MAX_SCHEMA_DEPTH = Suc k" by (rule two_levels)
  ultimately show ?thesis
    unfolding validate_schema_of [OF k]
    by (simp add: evaluate_object static_ref apply_keyword_def check_numeric_def as_f64_def number_as_f64_def
        numeric_holds_def require_def eff_bind_def del: evaluate_levels.simps)
qed

definition long_name :: string where
  "long_name = replicate 254 CHR ''a'' @ [CHR 0xC3, CHR 0xA9]"

lemma long_name_path: "render_path [long_name] = None"
proof -
  have e: "escape_segment long_name = long_name" by (simp add: escape_segment_def long_name_def map_replicate concat_replicate_trivial)
  show ?thesis
    unfolding render_path_def render_from.simps e
    by (simp add: MAX_VIOLATION_PATH_BYTES_def str_truncate_def is_char_boundary_def long_name_def nth_append
        continuation_def byte_def Let_def)
qed

text \<open>A long member name can panic the validator: the path of a violation is cut at 256 bytes without
  regard to characters, so an undeclared member whose name puts a two-byte character on that boundary is
  not refused but ends the walk in a panic.\<close>

theorem long_member_name_panics:
  "valid_utf8 long_name \<and>
   schema_validate debug (\<lambda>_. Some (Object [(long_name, Null)]))
     (schema_of (Object [(''additionalProperties'', Bool False)])) a = Err Panics"
proof
  have "list_all (\<lambda>c. byte c < 128) (replicate 254 CHR ''a'')" by (simp add: list_all_iff byte_def)
  from valid_utf8_ascii [OF this] show "valid_utf8 long_name" by (simp add: long_name_def continuation_def byte_def)
  obtain k where k: "MAX_SCHEMA_DEPTH = Suc k" by (rule two_levels)
  show "schema_validate debug (\<lambda>_. Some (Object [(long_name, Null)]))
     (schema_of (Object [(''additionalProperties'', Bool False)])) a = Err Panics"
    unfolding validate_schema_of [OF k]
    by (simp add: evaluate_object static_names apply_keyword_def check_object_def as_object_def declared_names_def
        below_name_def spend_def eff_bind_def as_bool_def require_def violation_def long_name_path del: evaluate_levels.simps(1))
qed

section \<open>A sample schema\<close>

definition sample_document :: Value where
  "sample_document = Object [(''additionalProperties'', Bool False), (''properties'', Object [(''p'', Bool True)]),
     (''required'', Array [String ''p'']), (''type'', String ''object'')]"

lemma sample_shapes: "shape_of ''required'' = Some NonEmptyStringArray"
  by (simp add: shape_of_def keyword_row_def KEYWORDS_def)

lemma sample_parsed: "tool_schema_parse (\<lambda>_. Some sample_document) (\<lambda>_. []) [] = Ok (schema_of sample_document)"
proof -
  obtain k where k: "MAX_SCHEMA_DEPTH = Suc k" by (rule two_levels)
  have "check_levels (Suc (Suc k)) sample_document sample_document [] = Ok ()"
    by (simp add: sample_document_def is_boolean_def as_object_def check_keyword_def subschema_shapes sample_shapes plain_shapes
        shape_matches_def is_object_def as_array_def non_empty_unique_strings_def as_str_def check_type_spec_def TYPE_NAMES_def
        at_path_def schema_path_def MAX_VIOLATION_PATH_BYTES_def Let_def)
  then show ?thesis
    by (simp add: tool_schema_parse_def MAX_SCHEMA_BYTES_def check_root_def check_schema_def k schema_of_def
        del: check_levels.simps) (simp add: sample_document_def is_object_def)
qed

lemma sample_valid: "schema_validate debug (\<lambda>_. Some (Object [(''p'', Null)])) (schema_of sample_document) a = Ok ()"
proof -
  obtain k where k: "MAX_SCHEMA_DEPTH = Suc k" by (rule two_levels)
  show ?thesis
    unfolding validate_schema_of [OF k] sample_document_def
    by (simp add: evaluate_object static_names apply_keyword_def check_object_def as_object_def declared_names_def as_array_def
        below_name_def spend_def eff_bind_def as_bool_def require_def check_type_def matches_one_def map_filter_def as_str_def)
qed

theorem validated_object_is_closed_witness:
  "accepts False MAX_SCHEMA_DEPTH sample_document (Bool True) Null"
proof -
  let ?from = "\<lambda>_. Some (Object [(''p'', Null)])"
  have "sc_document (schema_of sample_document) = Object [(''additionalProperties'', Bool False),
      (''properties'', Object [(''p'', Bool True)]), (''required'', Array [String ''p'']), (''type'', String ''object'')]"
    by (simp add: schema_of_def sample_document_def)
  from validated_object_is_closed [OF sample_valid refl this] show ?thesis
    by (simp add: schema_of_def declared_schema_def declared_names_def as_object_def)
qed

theorem loaded_schema_ignores_no_keyword_witness:
  "schema_validate True (\<lambda>_. Some sample_document) (schema_of sample_document) (ToolArguments []) =
   schema_validate False (\<lambda>_. Some sample_document) (schema_of sample_document) (ToolArguments [])"
  by (rule loaded_schema_ignores_no_keyword [OF sample_parsed])

end
