(* ===== verification/Run_Store.thy ===== *)
theory Run_Store
  imports Run_Budget Run_Recovery Repository
begin

text \<open>
  The run repository: its values (\<open>jarvis-application/src/repository/run.rs\<close>) and its SQLite implementation
  (\<open>jarvis-infrastructure/src/storage/repositories.rs\<close>). A row keeps the spellings and the integers the
  code writes; identifiers, instants and the budget, whose texts other libraries make and read, are kept
  as the values they denote. The primary keys, unique indexes, foreign keys and \<open>CHECK\<close> clauses of the
  migrations are checked where a statement writes. The identifier a new row gets is an argument, and so
  is the text of an instant, which \<open>ORDER BY\<close> compares.
\<close>

definition MAX_REFERENCE_BYTES :: nat where "MAX_REFERENCE_BYTES = 512"
definition MAX_RUNTIME_ID_BYTES :: nat where "MAX_RUNTIME_ID_BYTES = 128"
definition MAX_INCOMPLETE_RUNS :: nat where "MAX_INCOMPLETE_RUNS = 500"
definition MAX_EVENT_PAGE :: nat where "MAX_EVENT_PAGE = 500"
definition MAX_IDEMPOTENCY_KEY_BYTES :: nat where "MAX_IDEMPOTENCY_KEY_BYTES = 255"
definition API_MAJOR :: int where "API_MAJOR = 1"

section \<open>Values of the port\<close>

record RunRuntime =
  ri_id :: string
  ri_version :: string

definition bad_reference :: "nat \<Rightarrow> string \<Rightarrow> bool" where
  "bad_reference n value \<longleftrightarrow> value = [] \<or> length value > n \<or> contains_nul value"

definition run_runtime_new :: "string \<Rightarrow> string \<Rightarrow> RepositoryError + RunRuntime" where
  "run_runtime_new ident version =
     (if bad_reference MAX_RUNTIME_ID_BYTES ident \<or> bad_reference MAX_RUNTIME_ID_BYTES version
      then Err (RepositoryError.Conflict ''run_runtime_identity'')
      else Ok \<lparr>ri_id = ident, ri_version = version\<rparr>)"

record NewRun =
  nr_id :: RunId
  nr_workspace_id :: WorkspaceId
  nr_conversation_id :: uuid
  nr_principal_id :: PrincipalId
  nr_parent_run_id :: "RunId option"
  nr_objective_ref :: "string option"
  nr_created_at :: instant
  nr_runtime :: RunRuntime
  nr_deadline_at :: "instant option"
  nr_budget :: RunBudget

definition new_run_with_budget ::
  "RunRuntime \<Rightarrow> RunId \<Rightarrow> WorkspaceId \<Rightarrow> uuid \<Rightarrow> PrincipalId \<Rightarrow> string option \<Rightarrow> instant \<Rightarrow> RunBudget \<Rightarrow> RepositoryError + NewRun"
where
  "new_run_with_budget native ident workspace conversation who objective_ref created_at budget =
     (if is_some_and objective_ref (bad_reference MAX_REFERENCE_BYTES)
      then Err (RepositoryError.Conflict ''run_objective_ref'')
      else Ok \<lparr>nr_id = ident, nr_workspace_id = workspace, nr_conversation_id = conversation, nr_principal_id = who,
               nr_parent_run_id = None, nr_objective_ref = objective_ref, nr_created_at = created_at,
               nr_runtime = native, nr_deadline_at = rb_deadline budget, nr_budget = budget\<rparr>)"

record StoredRun =
  st_id :: RunId
  st_workspace_id :: WorkspaceId
  st_conversation_id :: uuid
  st_principal_id :: PrincipalId
  st_parent_run_id :: "RunId option"
  st_state :: RunState
  st_version :: RunVersion
  st_objective_ref :: "string option"
  st_created_at :: instant
  st_started_at :: "instant option"
  st_updated_at :: instant
  st_completed_at :: "instant option"
  st_error_code :: "string option"
  st_deadline_at :: "instant option"
  st_runtime :: "RunRuntime option"
  st_budget :: RunBudget

record WaitingOn =
  wo_kind :: string
  wo_reference :: string

definition waiting_on_new :: "string \<Rightarrow> string \<Rightarrow> RepositoryError + WaitingOn" where
  "waiting_on_new kind reference =
     (if bad_reference MAX_REFERENCE_BYTES kind \<or> bad_reference MAX_REFERENCE_BYTES reference
      then Err (RepositoryError.Conflict ''waiting_on'')
      else Ok \<lparr>wo_kind = kind, wo_reference = reference\<rparr>)"

datatype EventVisibility = Public | Operator

primrec event_visibility_as_str :: "EventVisibility \<Rightarrow> string" where
  "event_visibility_as_str EventVisibility.Public = ''public''"
| "event_visibility_as_str EventVisibility.Operator = ''operator''"

definition event_visibility_parse :: "string \<Rightarrow> RepositoryError + EventVisibility" where
  "event_visibility_parse value =
     (if value = ''public'' then Ok EventVisibility.Public
      else if value = ''operator'' then Ok EventVisibility.Operator
      else Err (Corrupted ''visibility''))"

record NewActivityEvent =
  ne_run_id :: RunId
  ne_sequence :: u64
  ne_event_type :: string
  ne_payload_json :: "string option"
  ne_visibility :: EventVisibility
  ne_occurred_at :: instant

definition run_received_event :: "RunId \<Rightarrow> instant \<Rightarrow> NewActivityEvent" where
  "run_received_event run occurred_at =
     \<lparr>ne_run_id = run, ne_sequence = 1, ne_event_type = ''run.received'', ne_payload_json = None,
      ne_visibility = EventVisibility.Public, ne_occurred_at = occurred_at\<rparr>"

record RunWrite =
  rw_transition :: RunTransition
  rw_waiting :: "WaitingOn option"
  rw_outcome :: "string option"
  rw_event :: NewActivityEvent

definition run_write_new :: "RunTransition \<Rightarrow> NewActivityEvent \<Rightarrow> RunWrite" where
  "run_write_new transition event =
     \<lparr>rw_transition = transition, rw_waiting = None, rw_outcome = None, rw_event = event\<rparr>"

definition write_is_consistent :: "RunWrite \<Rightarrow> bool" where
  "write_is_consistent self \<longleftrightarrow>
     run_state_is_waiting (rt_to (rw_transition self)) = (rw_waiting self \<noteq> None) \<and>
     (rt_to (rw_transition self) = RunState.Failed) = (rw_outcome self \<noteq> None)"

record NewIdempotencyRecord =
  ni_key :: string
  ni_workspace_id :: WorkspaceId
  ni_principal_id :: PrincipalId
  ni_client_credential :: string
  ni_operation :: string
  ni_request_digest :: string
  ni_run_id :: RunId
  ni_created_at :: instant

datatype IdempotencyClaim = Claimed | Replay RunId | ClaimConflict

definition validate_idempotency_key :: "string \<Rightarrow> RepositoryError + unit" where
  "validate_idempotency_key key =
     (if key = [] \<or> length key > MAX_IDEMPOTENCY_KEY_BYTES \<or> contains_nul key
      then Err (RepositoryError.Conflict ''idempotency_key'') else Ok ())"

section \<open>Rows\<close>

text \<open>The version column holds what \<open>version + 1\<close> computes: past the range of \<open>i64\<close> SQLite turns the sum
  into a real, which no longer reads as an integer.\<close>

record RunRow =
  ru_id :: RunId
  ru_workspace_id :: WorkspaceId
  ru_conversation_id :: uuid
  ru_parent_run_id :: "RunId option"
  ru_principal_id :: PrincipalId
  ru_objective_ref :: "string option"
  ru_state :: string
  ru_version :: int
  ru_runtime_id :: "string option"
  ru_runtime_version :: "string option"
  ru_waiting_kind :: "string option"
  ru_waiting_ref :: "string option"
  ru_deadline_at :: "instant option"
  ru_budget :: "RunBudget option"
  ru_error_code :: "string option"
  ru_created_at :: instant
  ru_started_at :: "instant option"
  ru_updated_at :: instant
  ru_completed_at :: "instant option"

record EventRow =
  er_id :: uuid
  er_workspace_id :: WorkspaceId
  er_run_id :: RunId
  er_sequence :: int
  er_event_type :: string
  er_payload_json :: "string option"
  er_visibility :: string
  er_occurred_at :: instant

record IdempotencyRow =
  ir_id :: uuid
  ir_key :: string
  ir_workspace_id :: WorkspaceId
  ir_principal_id :: PrincipalId
  ir_client_credential :: string
  ir_operation :: string
  ir_api_major :: int
  ir_request_digest :: string
  ir_run_id :: RunId
  ir_created_at :: instant

record RunStore =
  sr_faults :: "bool list"
  sr_conversations :: "uuid list"
  sr_runs :: "RunRow list"
  sr_events :: "EventRow list"
  sr_records :: "IdempotencyRow list"
  sr_parked :: "(WorkspaceId \<times> RunId) list"

definition TERMINAL_TEXTS :: "string list" where
  "TERMINAL_TEXTS = [''completed'', ''failed'', ''cancelled'']"

text \<open>The \<open>CHECK\<close> clauses of \<open>agent_runs\<close>.\<close>

definition run_state_all :: "RunState list" where
  "run_state_all = [RunState.Received, RunState.ContextBuilding, RunState.Planning, RunState.AwaitingModel,
     RunState.AwaitingApproval, RunState.ExecutingTool, RunState.Observing, RunState.Waiting, RunState.Responding,
     RunState.Completed, RunState.Failed, RunState.Cancelled]"

definition run_row_check :: "RunRow \<Rightarrow> bool" where
  "run_row_check row \<longleftrightarrow>
     ru_state row \<in> set (map run_state_display run_state_all) \<and> ru_version row \<ge> 1 \<and>
     (if ru_state row \<in> {''awaiting_approval'', ''waiting''}
      then ru_waiting_kind row \<noteq> None \<and> ru_waiting_ref row \<noteq> None
      else ru_waiting_kind row = None \<and> ru_waiting_ref row = None) \<and>
     (ru_state row \<in> set TERMINAL_TEXTS) = (ru_completed_at row \<noteq> None)"

section \<open>Statements\<close>

definition run_statement :: "(RunStore, RepositoryError, unit) eff" where
  "run_statement s =
     (case sr_faults s of
        [] \<Rightarrow> (Ok (), s)
      | f # fs \<Rightarrow> (if f then Err Query else Ok (), s\<lparr>sr_faults := fs\<rparr>))"

text \<open>A write the code only asks whether it affected its row: \<open>None\<close> of \<open>f\<close> is a constraint that
  refuses it.\<close>

definition run_execute :: "(RunStore \<Rightarrow> RunStore option) \<Rightarrow> (RunStore, RepositoryError, bool) eff" where
  "run_execute f =
     eff_try run_statement (\<lambda>r s.
       if isl r then (Ok False, s)
       else case f s of None \<Rightarrow> (Ok False, s) | Some s' \<Rightarrow> (Ok True, s'))"

definition run_transaction :: "(RunStore, RepositoryError, 'a) eff \<Rightarrow> (RunStore, RepositoryError, 'a) eff" where
  "run_transaction m s =
     (case m s of
        (Ok x, s') \<Rightarrow> (Ok x, s')
      | (Err e, s') \<Rightarrow> (Err e, s\<lparr>sr_faults := sr_faults s'\<rparr>))"

section \<open>Reading a row\<close>

definition run_parse_state :: "string \<Rightarrow> RepositoryError + RunState" where
  "run_parse_state value = ok_or (find (\<lambda>s. run_state_display s = value) run_state_all) (Corrupted ''state'')"

interpretation run_state_spelling: spelling run_state_all run_state_display "\<lambda>s. ok (run_parse_state s)"
proof unfold_locales
  show "x \<in> set run_state_all" for x by (cases x) (simp_all add: run_state_all_def)
  show "distinct (map run_state_display run_state_all)" by (simp add: run_state_all_def)
qed (simp_all add: run_parse_state_def)

definition stored_run :: "RunRow \<Rightarrow> RepositoryError + StoredRun" where
  "stored_run row =
     and_then (run_parse_state (ru_state row)) (\<lambda>state.
     if ru_version row < 1 \<or> ru_version row \<ge> 2 ^ 63 then Err (Corrupted ''version'')
     else
     and_then (parse_id ''id'' (ru_id row)) (\<lambda>ident.
     and_then (parse_id ''workspace_id'' (ru_workspace_id row)) (\<lambda>workspace.
     and_then (parse_id ''conversation_id'' (ru_conversation_id row)) (\<lambda>conversation.
     and_then (parse_id ''principal_id'' (ru_principal_id row)) (\<lambda>who.
     and_then (case ru_parent_run_id row of
                 None \<Rightarrow> Ok None
               | Some p \<Rightarrow> and_then (parse_id ''parent_run_id'' p) (\<lambda>p. Ok (Some p))) (\<lambda>parent.
     and_then (case (ru_runtime_id row, ru_runtime_version row) of
                 (Some i, Some v) \<Rightarrow> Ok (Some \<lparr>ri_id = i, ri_version = v\<rparr>)
               | (None, None) \<Rightarrow> Ok None
               | _ \<Rightarrow> Err (Corrupted ''runtime_id'')) (\<lambda>runtime.
       Ok \<lparr>st_id = ident, st_workspace_id = workspace, st_conversation_id = conversation, st_principal_id = who,
           st_parent_run_id = parent, st_state = state, st_version = word_of_int (ru_version row),
           st_objective_ref = ru_objective_ref row, st_created_at = ru_created_at row, st_started_at = ru_started_at row,
           st_updated_at = ru_updated_at row, st_completed_at = ru_completed_at row, st_error_code = ru_error_code row,
           st_deadline_at = ru_deadline_at row, st_runtime = runtime,
           st_budget = (case ru_budget row of Some b \<Rightarrow> b | None \<Rightarrow> run_budget_default)\<rparr>)))))))"

definition run_at :: "WorkspaceId \<Rightarrow> RunId \<Rightarrow> RunRow \<Rightarrow> bool" where
  "run_at workspace run row \<longleftrightarrow> ru_workspace_id row = workspace \<and> ru_id row = run"

definition read_run :: "WorkspaceId \<Rightarrow> RunId \<Rightarrow> (RunStore, RepositoryError, StoredRun option) eff" where
  "read_run workspace run =
     eff_bind run_statement (\<lambda>_ s.
       (case find (run_at workspace run) (sr_runs s) of
          None \<Rightarrow> (Ok None, s)
        | Some row \<Rightarrow> (case stored_run row of Err e \<Rightarrow> (Err e, s) | Ok r \<Rightarrow> (Ok (Some r), s))))"

section \<open>Creating a run\<close>

definition new_run_row :: "NewRun \<Rightarrow> RunRow" where
  "new_run_row run =
     \<lparr>ru_id = nr_id run, ru_workspace_id = nr_workspace_id run, ru_conversation_id = nr_conversation_id run,
      ru_parent_run_id = nr_parent_run_id run, ru_principal_id = nr_principal_id run,
      ru_objective_ref = nr_objective_ref run, ru_state = ''received'', ru_version = 1,
      ru_runtime_id = Some (ri_id (nr_runtime run)), ru_runtime_version = Some (ri_version (nr_runtime run)),
      ru_waiting_kind = None, ru_waiting_ref = None, ru_deadline_at = nr_deadline_at run,
      ru_budget = Some (nr_budget run), ru_error_code = None, ru_created_at = nr_created_at run,
      ru_started_at = None, ru_updated_at = nr_created_at run, ru_completed_at = None\<rparr>"

definition sql_insert_run :: "NewRun \<Rightarrow> RunStore \<Rightarrow> RunStore option" where
  "sql_insert_run run s =
     (if list_ex (\<lambda>row. ru_id row = nr_id run) (sr_runs s) \<or> nr_conversation_id run \<notin> set (sr_conversations s)
      then None else Some (s\<lparr>sr_runs := sr_runs s @ [new_run_row run]\<rparr>))"

text \<open>The insert into \<open>run_activity_events\<close>: a positive sequence, unique in its run, of a run that exists.\<close>

definition event_row :: "uuid \<Rightarrow> WorkspaceId \<Rightarrow> int \<Rightarrow> NewActivityEvent \<Rightarrow> EventRow" where
  "event_row fresh workspace sequence event =
     \<lparr>er_id = fresh, er_workspace_id = workspace, er_run_id = ne_run_id event, er_sequence = sequence,
      er_event_type = ne_event_type event, er_payload_json = ne_payload_json event,
      er_visibility = event_visibility_as_str (ne_visibility event), er_occurred_at = ne_occurred_at event\<rparr>"

definition sql_insert_event :: "EventRow \<Rightarrow> RunStore \<Rightarrow> RunStore option" where
  "sql_insert_event row s =
     (if er_sequence row < 1 \<or>
         list_ex (\<lambda>r. er_id r = er_id row \<or> er_run_id r = er_run_id row \<and> er_sequence r = er_sequence row) (sr_events s) \<or>
         \<not> list_ex (\<lambda>r. ru_id r = er_run_id row) (sr_runs s)
      then None else Some (s\<lparr>sr_events := sr_events s @ [row]\<rparr>))"

definition insert_run :: "uuid \<Rightarrow> NewRun \<Rightarrow> NewActivityEvent \<Rightarrow> (RunStore, RepositoryError, unit) eff" where
  "insert_run fresh run opening_event =
     (if ne_run_id opening_event \<noteq> nr_id run then eff_throw (RepositoryError.Conflict ''opening_event'')
      else if ne_sequence opening_event \<noteq> 1 then eff_throw (RepositoryError.Conflict ''opening_event'')
      else
        eff_bind (run_execute (sql_insert_run run)) (\<lambda>created.
          if \<not> created then eff_throw (RepositoryError.Conflict ''run'')
          else
            eff_bind (run_execute (sql_insert_event (event_row fresh (nr_workspace_id run) 1 opening_event))) (\<lambda>inserted.
              if inserted then eff_return () else eff_throw (RepositoryError.Conflict ''activity_sequence''))))"

definition run_create :: "uuid \<Rightarrow> NewRun \<Rightarrow> NewActivityEvent \<Rightarrow> (RunStore, RepositoryError, unit) eff" where
  "run_create fresh run opening_event =
     run_transaction (
     eff_bind run_statement (\<lambda>_.
     eff_bind (insert_run fresh run opening_event) (\<lambda>_.
     run_statement)))"

definition run_load :: "WorkspaceId \<Rightarrow> RunId \<Rightarrow> (RunStore, RepositoryError, StoredRun) eff" where
  "run_load workspace run =
     eff_bind (read_run workspace run) (\<lambda>found. eff_lift (ok_or found RepositoryError.NotFound))"

record RunResumeState =
  rz_run :: StoredRun
  rz_waiting_kind :: "string option"
  rz_waiting_ref :: "string option"

definition load_for_resume :: "WorkspaceId \<Rightarrow> RunId \<Rightarrow> (RunStore, RepositoryError, RunResumeState) eff" where
  "load_for_resume workspace run =
     eff_bind run_statement (\<lambda>_ s.
       (case find (run_at workspace run) (sr_runs s) of
          None \<Rightarrow> (Err RepositoryError.NotFound, s)
        | Some row \<Rightarrow>
            (and_then (stored_run row) (\<lambda>r.
               Ok \<lparr>rz_run = r, rz_waiting_kind = ru_waiting_kind row, rz_waiting_ref = ru_waiting_ref row\<rparr>), s)))"

section \<open>A transition\<close>

definition u64_to_i64 :: "string \<Rightarrow> u64 \<Rightarrow> RepositoryError + int" where
  "u64_to_i64 column v = (if unat v < 2 ^ 63 then Ok (uint v) else Err (Corrupted column))"

text \<open>The \<open>SET\<close> and the \<open>WHERE\<close> clause.\<close>

definition transitioned_row :: "RunWrite \<Rightarrow> RunRow \<Rightarrow> RunRow" where
  "transitioned_row write row =
     (let t = rw_transition write in
      row\<lparr>ru_state := run_state_display (rt_to t), ru_version := ru_version row + 1, ru_updated_at := rt_occurred_at t,
          ru_completed_at := (if run_state_is_terminal (rt_to t) then Some (rt_occurred_at t) else ru_completed_at row),
          ru_waiting_kind := map_option wo_kind (rw_waiting write),
          ru_waiting_ref := map_option wo_reference (rw_waiting write),
          ru_error_code := rw_outcome write\<rparr>)"

definition transition_where :: "WorkspaceId \<Rightarrow> RunId \<Rightarrow> int \<Rightarrow> string \<Rightarrow> RunRow \<Rightarrow> bool" where
  "transition_where workspace run version state row \<longleftrightarrow>
     run_at workspace run row \<and> ru_version row = version \<and> ru_state row = state \<and> ru_state row \<notin> set TERMINAL_TEXTS"

text \<open>The checks on the row as it was read, and the guarded \<open>UPDATE\<close>.\<close>

definition update_run :: "WorkspaceId \<Rightarrow> RunWrite \<Rightarrow> StoredRun \<Rightarrow> (RunStore, RepositoryError, unit) eff" where
  "update_run workspace write current =
     (let transition = rw_transition write; run = ne_run_id (rw_event write) in
      if run_state_is_terminal (st_state current)
        then eff_throw (TransitionRefused ''jarvis.run_already_terminal'')
      else if st_version current \<noteq> rt_expected_version transition
        then eff_throw (VersionConflict (rt_expected_version transition) (st_version current))
      else if \<not> run_can_transition_to (st_state current) (rt_to transition)
        then eff_throw (TransitionRefused ''jarvis.run_transition_not_allowed'')
      else
        eff_bind (eff_lift (u64_to_i64 ''version'' (rt_expected_version transition))) (\<lambda>expected.
        eff_bind run_statement (\<lambda>_ s.
          (let selected = transition_where workspace run expected (run_state_display (st_state current)) in
           case sql_update selected (transitioned_row write) (sr_runs s) of
             (affected, rows) \<Rightarrow>
               if list_ex (\<lambda>row. selected row \<and> \<not> run_row_check (transitioned_row write row)) (sr_runs s) then (Err Query, s)
               else if affected = 0
                 then (Err (VersionConflict (rt_expected_version transition) (rt_expected_version transition + 1)), s)
               else (Ok (), s\<lparr>sr_runs := rows\<rparr>)))))"

text \<open>The event of the transition, the row read back, and the commit.\<close>

definition record_transition :: "uuid \<Rightarrow> WorkspaceId \<Rightarrow> NewActivityEvent \<Rightarrow> (RunStore, RepositoryError, StoredRun) eff" where
  "record_transition fresh workspace event =
     eff_bind (eff_lift (u64_to_i64 ''sequence'' (ne_sequence event))) (\<lambda>sequence.
     eff_bind (run_execute (sql_insert_event (event_row fresh workspace sequence event))) (\<lambda>inserted.
       if \<not> inserted then eff_throw (RepositoryError.Conflict ''activity_sequence'')
       else
         eff_bind (read_run workspace (ne_run_id event)) (\<lambda>updated.
           case updated of
             None \<Rightarrow> eff_throw (Corrupted ''id'')
           | Some r \<Rightarrow> eff_bind run_statement (\<lambda>_. eff_return r))))"

definition run_transition :: "uuid \<Rightarrow> WorkspaceId \<Rightarrow> RunWrite \<Rightarrow> (RunStore, RepositoryError, StoredRun) eff" where
  "run_transition fresh workspace write =
     (if \<not> write_is_consistent write then eff_throw (RepositoryError.Conflict ''run_write_inconsistent'')
      else
      run_transaction (
      eff_bind run_statement (\<lambda>_.
      eff_bind (read_run workspace (ne_run_id (rw_event write))) (\<lambda>found.
        case found of
          None \<Rightarrow> eff_throw RepositoryError.NotFound
        | Some current \<Rightarrow>
            eff_bind (update_run workspace write current) (\<lambda>_. record_transition fresh workspace (rw_event write))))))"

section \<open>Events\<close>

definition run_exists :: "WorkspaceId \<Rightarrow> RunId \<Rightarrow> (RunStore, RepositoryError, unit) eff" where
  "run_exists workspace run =
     eff_bind run_statement (\<lambda>_ s.
       if list_ex (run_at workspace run) (sr_runs s) then (Ok (), s) else (Err RepositoryError.NotFound, s))"

definition max_sequence :: "RunId \<Rightarrow> RunStore \<Rightarrow> int option" where
  "max_sequence run s =
     (case map er_sequence (filter (\<lambda>r. er_run_id r = run) (sr_events s)) of
        [] \<Rightarrow> None | x # xs \<Rightarrow> Some (fold max xs x))"

definition next_event_sequence :: "WorkspaceId \<Rightarrow> RunId \<Rightarrow> (RunStore, RepositoryError, u64) eff" where
  "next_event_sequence workspace run =
     eff_bind (run_exists workspace run) (\<lambda>_.
     eff_bind run_statement (\<lambda>_ s.
       (let next = (case max_sequence run s of None \<Rightarrow> 1 | Some m \<Rightarrow> min (m + 1) (2 ^ 63 - 1)) in
        (if next < 0 then Err (Corrupted ''sequence'') else Ok (word_of_int next), s))))"

definition append_event :: "uuid \<Rightarrow> WorkspaceId \<Rightarrow> NewActivityEvent \<Rightarrow> (RunStore, RepositoryError, u64) eff" where
  "append_event fresh workspace event =
     eff_bind (run_exists workspace (ne_run_id event)) (\<lambda>_.
     eff_bind (eff_lift (u64_to_i64 ''sequence'' (ne_sequence event))) (\<lambda>sequence.
     eff_bind (run_execute (sql_insert_event (event_row fresh workspace sequence event))) (\<lambda>inserted.
       if inserted then eff_return (ne_sequence event) else eff_throw (RepositoryError.Conflict ''activity_sequence''))))"

text \<open>The delta sink of a stream: the next place is read and taken in one transaction. The text of the payload is
  an argument, a JSON document of the item and the delta.\<close>

definition output_text_delta :: "uuid \<Rightarrow> WorkspaceId \<Rightarrow> RunId \<Rightarrow> string \<Rightarrow> instant \<Rightarrow> (RunStore, RepositoryError, u64) eff" where
  "output_text_delta fresh workspace run payload occurred_at =
     eff_bind (run_exists workspace run) (\<lambda>_.
     run_transaction (
       eff_bind run_statement (\<lambda>_.
       eff_bind run_statement (\<lambda>_ s.
         (let next = (case max_sequence run s of None \<Rightarrow> 1 | Some m \<Rightarrow> min (m + 1) (2 ^ 63 - 1)) in
          if next < 0 then (Err (Corrupted ''sequence''), s)
          else
            eff_bind (run_execute (sql_insert_event
              \<lparr>er_id = fresh, er_workspace_id = workspace, er_run_id = run, er_sequence = next,
               er_event_type = ''run.output_text.delta'', er_payload_json = Some payload, er_visibility = ''public'',
               er_occurred_at = occurred_at\<rparr>)) (\<lambda>inserted.
              if \<not> inserted then eff_throw (RepositoryError.Conflict ''activity_sequence'')
              else eff_bind run_statement (\<lambda>_. eff_return (word_of_int next))) s)))))"

record StoredActivityEvent =
  sa_id :: uuid
  sa_run_id :: RunId
  sa_sequence :: u64
  sa_event_type :: string
  sa_payload_json :: "string option"
  sa_visibility :: EventVisibility
  sa_occurred_at :: instant

definition stored_event :: "EventRow \<Rightarrow> RepositoryError + StoredActivityEvent" where
  "stored_event row =
     (if er_sequence row < 0 \<or> er_sequence row \<ge> 2 ^ 63 then Err (Corrupted ''sequence'')
      else
      and_then (parse_id ''event_id'' (er_id row)) (\<lambda>ident.
      and_then (parse_id ''run_id'' (er_run_id row)) (\<lambda>run.
      and_then (event_visibility_parse (er_visibility row)) (\<lambda>visibility.
        Ok \<lparr>sa_id = ident, sa_run_id = run, sa_sequence = word_of_int (er_sequence row),
            sa_event_type = er_event_type row, sa_payload_json = er_payload_json row, sa_visibility = visibility,
            sa_occurred_at = er_occurred_at row\<rparr>))))"

fun collect :: "('e + 'a) list \<Rightarrow> 'e + 'a list" where
  "collect [] = Ok []"
| "collect (r # rs) = and_then r (\<lambda>x. and_then (collect rs) (\<lambda>xs. Ok (x # xs)))"

record RunEventPage =
  ep_events :: "StoredActivityEvent list"
  ep_terminal_state :: "RunState option"

definition clamp_page :: "nat \<Rightarrow> nat \<Rightarrow> nat" where
  "clamp_page limit bound = max 1 (min limit bound)"

definition load_events :: "WorkspaceId \<Rightarrow> RunId \<Rightarrow> u64 \<Rightarrow> nat \<Rightarrow> (RunStore, RepositoryError, RunEventPage) eff" where
  "load_events workspace run from_sequence limit =
     eff_bind (read_run workspace run) (\<lambda>found.
       case found of
         None \<Rightarrow> eff_throw RepositoryError.NotFound
       | Some stored \<Rightarrow>
           eff_bind (eff_lift (u64_to_i64 ''sequence'' from_sequence)) (\<lambda>first.
           eff_bind run_statement (\<lambda>_ s.
             (and_then (collect (map stored_event
                (take (clamp_page limit MAX_EVENT_PAGE)
                  (sort_key er_sequence
                    (filter (\<lambda>r. er_workspace_id r = workspace \<and> er_run_id r = run \<and> er_visibility r = ''public'' \<and>
                       er_sequence r \<ge> first) (sr_events s)))))) (\<lambda>events.
                Ok \<lparr>ep_events = events,
                    ep_terminal_state = (if run_state_is_terminal (st_state stored) then Some (st_state stored) else None)\<rparr>), s))))"

section \<open>Idempotency\<close>

definition record_has_scope :: "WorkspaceId \<Rightarrow> PrincipalId \<Rightarrow> string \<Rightarrow> string \<Rightarrow> IdempotencyRow \<Rightarrow> bool" where
  "record_has_scope workspace who operation key row \<longleftrightarrow>
     ir_workspace_id row = workspace \<and> ir_principal_id row = who \<and> ir_operation row = operation \<and>
     ir_api_major row = API_MAJOR \<and> ir_key row = key"

definition read_idempotency ::
  "WorkspaceId \<Rightarrow> PrincipalId \<Rightarrow> string \<Rightarrow> string \<Rightarrow> (RunStore, RepositoryError, (string \<times> RunId) option) eff"
where
  "read_idempotency workspace who operation key =
     eff_bind run_statement (\<lambda>_.
     eff_get (\<lambda>s. map_option (\<lambda>r. (ir_request_digest r, ir_run_id r))
                   (find (record_has_scope workspace who operation key) (sr_records s))))"

definition idempotency_row :: "uuid \<Rightarrow> NewIdempotencyRecord \<Rightarrow> IdempotencyRow" where
  "idempotency_row fresh new_record =
     \<lparr>ir_id = fresh, ir_key = ni_key new_record, ir_workspace_id = ni_workspace_id new_record,
      ir_principal_id = ni_principal_id new_record, ir_client_credential = ni_client_credential new_record,
      ir_operation = ni_operation new_record, ir_api_major = API_MAJOR, ir_request_digest = ni_request_digest new_record,
      ir_run_id = ni_run_id new_record, ir_created_at = ni_created_at new_record\<rparr>"

definition sql_insert_record :: "IdempotencyRow \<Rightarrow> RunStore \<Rightarrow> RunStore option" where
  "sql_insert_record row s =
     (if list_ex (\<lambda>r. ir_id r = ir_id row \<or>
            record_has_scope (ir_workspace_id row) (ir_principal_id row) (ir_operation row) (ir_key row) r \<and>
            ir_client_credential r = ir_client_credential row) (sr_records s) \<or>
         \<not> list_ex (\<lambda>r. ru_id r = ir_run_id row) (sr_runs s)
      then None else Some (s\<lparr>sr_records := sr_records s @ [row]\<rparr>))"

definition claim_of :: "NewIdempotencyRecord \<Rightarrow> string \<times> RunId \<Rightarrow> RepositoryError + IdempotencyClaim" where
  "claim_of new_record existing =
     (case existing of (digest, run) \<Rightarrow>
        if digest = ni_request_digest new_record then and_then (parse_id ''run_id'' run) (\<lambda>run. Ok (Replay run))
        else Ok ClaimConflict)"

definition claim_idempotency :: "uuid \<Rightarrow> NewIdempotencyRecord \<Rightarrow> (RunStore, RepositoryError, IdempotencyClaim) eff" where
  "claim_idempotency fresh new_record =
     eff_bind (eff_lift (validate_idempotency_key (ni_key new_record))) (\<lambda>_.
     eff_bind (read_idempotency (ni_workspace_id new_record) (ni_principal_id new_record) (ni_operation new_record)
                 (ni_key new_record)) (\<lambda>existing.
       case existing of
         Some e \<Rightarrow> eff_lift (claim_of new_record e)
       | None \<Rightarrow>
           eff_bind (run_exists (ni_workspace_id new_record) (ni_run_id new_record)) (\<lambda>_.
           eff_bind (run_execute (sql_insert_record (idempotency_row fresh new_record))) (\<lambda>inserted.
             eff_return (if inserted then Claimed else ClaimConflict)))))"

text \<open>A transaction that decides itself whether to commit: dropped without a commit it is rolled back, also
  when the code goes on to return a value.\<close>

definition run_unit_of_work :: "(RunStore, RepositoryError, bool \<times> 'a) eff \<Rightarrow> (RunStore, RepositoryError, 'a) eff" where
  "run_unit_of_work m s =
     (case m s of
        (Ok (commit, x), s') \<Rightarrow> (Ok x, if commit then s' else s\<lparr>sr_faults := sr_faults s'\<rparr>)
      | (Err e, s') \<Rightarrow> (Err e, s\<lparr>sr_faults := sr_faults s'\<rparr>))"

definition create_or_replay ::
  "uuid \<Rightarrow> uuid \<Rightarrow> NewRun \<Rightarrow> NewActivityEvent \<Rightarrow> NewIdempotencyRecord \<Rightarrow> (RunStore, RepositoryError, bool \<times> IdempotencyClaim) eff"
where
  "create_or_replay fresh_event fresh_record run opening_event new_record =
     eff_bind run_statement (\<lambda>_.
     eff_bind (read_idempotency (ni_workspace_id new_record) (ni_principal_id new_record) (ni_operation new_record)
                 (ni_key new_record)) (\<lambda>existing.
       case existing of
         Some e \<Rightarrow>
           eff_bind run_statement (\<lambda>_.
           eff_bind (eff_lift (claim_of new_record e)) (\<lambda>claim. eff_return (False, claim)))
       | None \<Rightarrow>
           eff_bind (insert_run fresh_event run opening_event) (\<lambda>_.
           eff_bind (run_execute (sql_insert_record (idempotency_row fresh_record new_record))) (\<lambda>inserted.
             if \<not> inserted then eff_return (False, ClaimConflict)
             else eff_bind run_statement (\<lambda>_. eff_return (True, Claimed))))))"

definition create_run_idempotent ::
  "uuid \<Rightarrow> uuid \<Rightarrow> NewRun \<Rightarrow> NewActivityEvent \<Rightarrow> NewIdempotencyRecord \<Rightarrow> (RunStore, RepositoryError, IdempotencyClaim) eff"
where
  "create_run_idempotent fresh_event fresh_record run opening_event new_record =
     eff_bind (eff_lift (validate_idempotency_key (ni_key new_record))) (\<lambda>_.
     if ni_run_id new_record \<noteq> nr_id run then eff_throw (RepositoryError.Conflict ''idempotency_run'')
     else run_unit_of_work (create_or_replay fresh_event fresh_record run opening_event new_record))"

definition lookup_idempotency ::
  "WorkspaceId \<Rightarrow> PrincipalId \<Rightarrow> string \<Rightarrow> string \<Rightarrow> (RunStore, RepositoryError, (string \<times> RunId) option) eff"
where
  "lookup_idempotency workspace who operation key =
     eff_bind (read_idempotency workspace who operation key) (\<lambda>found.
       eff_lift (case found of
         None \<Rightarrow> Ok None
       | Some (digest, run) \<Rightarrow> and_then (parse_id ''run_id'' run) (\<lambda>run. Ok (Some (digest, run)))))"

section \<open>Scans\<close>

record IncompleteRun =
  ic_workspace_id :: WorkspaceId
  ic_run :: StoredRun
  ic_waiting_kind :: "string option"
  ic_waiting_ref :: "string option"

record RecoveryPage =
  rp_runs :: "IncompleteRun list"
  rp_bounded :: bool

text \<open>The \<open>WHERE\<close> clause of the recovery scan: not ended, and not waiting for an approval with a resume
  record to continue from.\<close>

definition is_incomplete :: "RunStore \<Rightarrow> RunRow \<Rightarrow> bool" where
  "is_incomplete s row \<longleftrightarrow>
     ru_state row \<notin> set TERMINAL_TEXTS \<and>
     \<not> (ru_state row = ''awaiting_approval'' \<and> (ru_workspace_id row, ru_id row) \<in> set (sr_parked s))"

definition incomplete_run :: "RunRow \<Rightarrow> RepositoryError + IncompleteRun" where
  "incomplete_run row =
     and_then (stored_run row) (\<lambda>run.
       Ok \<lparr>ic_workspace_id = st_workspace_id run, ic_run = run, ic_waiting_kind = ru_waiting_kind row,
           ic_waiting_ref = ru_waiting_ref row\<rparr>)"

definition incomplete_runs :: "(instant \<Rightarrow> string) \<Rightarrow> (RunStore, RepositoryError, RecoveryPage) eff" where
  "incomplete_runs time_text =
     eff_bind run_statement (\<lambda>_ s.
       (let rows = take (MAX_INCOMPLETE_RUNS + 1)
              (sort_key (\<lambda>row. time_text (ru_created_at row)) (filter (is_incomplete s) (sr_runs s))) in
        (and_then (collect (map incomplete_run (take MAX_INCOMPLETE_RUNS rows))) (\<lambda>runs.
           Ok \<lparr>rp_runs = runs, rp_bounded = length rows > MAX_INCOMPLETE_RUNS\<rparr>), s)))"

end
