(* ===== verification/Run_Store_Laws.thy ===== *)
theory Run_Store_Laws
  imports Run_Store
begin

text \<open>
  What the run store promises: an invariant every write keeps, the refinement of \<open>transition\<close> to the
  lifecycle of \<open>run/lifecycle.rs\<close> under every schedule of faults, and the idempotency of a creation over
  any later history of writes.
\<close>

section \<open>Statements and transactions\<close>

definition only_faults :: "RunStore \<Rightarrow> RunStore \<Rightarrow> bool" where
  "only_faults s s' \<longleftrightarrow> s' = s\<lparr>sr_faults := sr_faults s'\<rparr>"

lemma only_faults_fields:
  "only_faults s s' \<Longrightarrow>
     sr_conversations s' = sr_conversations s \<and> sr_runs s' = sr_runs s \<and> sr_events s' = sr_events s \<and>
     sr_records s' = sr_records s \<and> sr_parked s' = sr_parked s"
  unfolding only_faults_def by (cases s; cases s') simp

lemma only_faultsI:
  "sr_conversations s' = sr_conversations s \<Longrightarrow> sr_runs s' = sr_runs s \<Longrightarrow> sr_events s' = sr_events s \<Longrightarrow>
     sr_records s' = sr_records s \<Longrightarrow> sr_parked s' = sr_parked s \<Longrightarrow> only_faults s s'"
  unfolding only_faults_def by (cases s; cases s') simp

lemma only_faults_refl [simp]: "only_faults s s"
  by (simp add: only_faults_def)

lemma only_faults_set [simp]: "only_faults s (s\<lparr>sr_faults := fs\<rparr>)"
  by (simp add: only_faults_def)

lemma reflp_only_faults [effect_rules]: "reflp only_faults"
  by (simp add: reflp_def)

lemma transp_only_faults [effect_rules]: "transp only_faults"
proof (rule transpI)
  fix a b c assume "only_faults a b" and "only_faults b c"
  from only_faults_fields [OF this(1)] only_faults_fields [OF this(2)] show "only_faults a c"
    by (intro only_faultsI) simp_all
qed

lemma only_faults_trans: "only_faults a b \<Longrightarrow> only_faults b c \<Longrightarrow> only_faults a c"
  using transp_only_faults by (rule transpD)

lemma run_statement_faults: "run_statement s = (r, s') \<Longrightarrow> only_faults s s'"
  by (auto simp: run_statement_def split: list.split_asm)

lemma read_run_faults: "read_run ws i s = (r, s') \<Longrightarrow> only_faults s s'"
  by (auto simp: read_run_def eff_bind_def dest: run_statement_faults
      split: prod.split_asm option.split_asm sum.split_asm)

lemma read_run_SomeD:
  "read_run ws i s = (Ok (Some r), s') \<Longrightarrow>
     \<exists>row. find (run_at ws i) (sr_runs s) = Some row \<and> stored_run row = Ok r"
  by (auto simp: read_run_def eff_bind_def dest!: run_statement_faults only_faults_fields
      split: prod.split_asm option.split_asm sum.split_asm)

lemma run_transaction_ErrD: "run_transaction m s = (Err e, s') \<Longrightarrow> only_faults s s'"
  by (auto simp: run_transaction_def split: prod.split_asm sum.split_asm)

lemma run_transaction_OkD: "run_transaction m s = (Ok x, s') \<Longrightarrow> m s = (Ok x, s')"
  by (auto simp: run_transaction_def split: prod.split_asm sum.split_asm)

lemma run_execute_cases:
  assumes "run_execute f s = (r, s')"
  obtains "r = Ok False" and "only_faults s s'"
    | t where "r = Ok True" and "only_faults s t" and "f t = Some s'"
  using assms
  by (auto simp: run_execute_def eff_try_def dest: run_statement_faults
      split: prod.split_asm if_split_asm option.split_asm)


lemma collect_Ok_iff: "collect rs = Ok xs \<longleftrightarrow> list_all2 (\<lambda>r x. r = Ok x) rs xs"
  by (induction rs arbitrary: xs) (auto simp: and_then_Ok_iff list_all2_Cons1)

section \<open>The invariant\<close>

text \<open>What the keys, indexes and clauses of the migrations say of the three tables together.\<close>

definition event_key :: "EventRow \<Rightarrow> RunId \<times> int" where
  "event_key row = (er_run_id row, er_sequence row)"

definition run_store_ok :: "RunStore \<Rightarrow> bool" where
  "run_store_ok s \<longleftrightarrow>
     distinct (map ru_id (sr_runs s)) \<and> list_all run_row_check (sr_runs s) \<and>
     distinct (map event_key (sr_events s)) \<and>
     list_all (\<lambda>e. er_sequence e \<ge> 1 \<and> list_ex (\<lambda>r. ru_id r = er_run_id e) (sr_runs s)) (sr_events s) \<and>
     list_all (\<lambda>k. list_ex (\<lambda>r. ru_id r = ir_run_id k) (sr_runs s)) (sr_records s)"

lemma run_store_ok_faults: "only_faults s s' \<Longrightarrow> run_store_ok s' = run_store_ok s"
  by (drule only_faults_fields) (simp add: run_store_ok_def)

text \<open>No run is ever deleted, none changes what it was created with, and events and records are only
  appended.\<close>

definition run_origin :: "RunRow \<Rightarrow> RunId \<times> WorkspaceId \<times> uuid \<times> PrincipalId \<times> RunId option \<times> instant \<times> RunBudget option" where
  "run_origin row =
     (ru_id row, ru_workspace_id row, ru_conversation_id row, ru_principal_id row, ru_parent_run_id row, ru_created_at row,
      ru_budget row)"

definition run_store_grows :: "RunStore \<Rightarrow> RunStore \<Rightarrow> bool" where
  "run_store_grows s s' \<longleftrightarrow>
     sr_conversations s' = sr_conversations s \<and>
     (\<exists>runs. map run_origin (sr_runs s') = map run_origin (sr_runs s) @ runs) \<and>
     (\<exists>events. sr_events s' = sr_events s @ events) \<and> (\<exists>records. sr_records s' = sr_records s @ records)"

lemma reflp_run_store_grows [effect_rules]: "reflp run_store_grows"
  by (simp add: reflp_def run_store_grows_def)

lemma transp_run_store_grows [effect_rules]: "transp run_store_grows"
  by (auto simp: transp_def run_store_grows_def)

lemma run_store_grows_refl [simp]: "run_store_grows s s"
  using reflp_run_store_grows by (rule reflpD)

lemma run_store_grows_trans: "run_store_grows a b \<Longrightarrow> run_store_grows b c \<Longrightarrow> run_store_grows a c"
  using transp_run_store_grows by (rule transpD)

lemma run_store_grows_faults: "only_faults s s' \<Longrightarrow> run_store_grows s s'"
  by (drule only_faults_fields) (simp add: run_store_grows_def)

text \<open>A step keeps both: it only extends the store, and extends it to one the invariant holds of.\<close>

definition extends_ok :: "RunStore \<Rightarrow> RunStore \<Rightarrow> bool" where
  "extends_ok s s' \<longleftrightarrow> (run_store_ok s \<longrightarrow> run_store_ok s') \<and> run_store_grows s s'"

lemma reflp_extends_ok [effect_rules]: "reflp extends_ok"
  by (simp add: reflp_def extends_ok_def)

lemma transp_extends_ok [effect_rules]: "transp extends_ok"
  by (auto simp: transp_def extends_ok_def intro: run_store_grows_trans)

lemma extends_ok_faults: "only_faults s s' \<Longrightarrow> extends_ok s s'"
  by (simp add: extends_ok_def run_store_ok_faults run_store_grows_faults)

lemma new_run_row_check: "run_row_check (new_run_row run)"
  by (simp add: run_row_check_def new_run_row_def run_state_all_def TERMINAL_TEXTS_def)

lemma list_ex_key: "list_ex (\<lambda>r. f r = x) rows \<longleftrightarrow> x \<in> f ` set rows"
  by (auto simp: list_ex_iff)

lemma new_run_row_id [simp]: "ru_id (new_run_row run) = nr_id run"
  by (simp add: new_run_row_def)

lemma extends_ok_insert_run: "sql_insert_run run s = Some s' \<Longrightarrow> extends_ok s s'"
  by (auto simp: sql_insert_run_def extends_ok_def run_store_ok_def run_store_grows_def new_run_row_check
      list_ex_key list_all_iff simp del: list_ex_append split: if_split_asm)

lemma event_key_fresh:
  assumes "\<not> list_ex (\<lambda>r. er_id r = i \<or> er_run_id r = er_run_id row \<and> er_sequence r = er_sequence row) events"
  shows "event_key row \<notin> event_key ` set events"
  using assms by (auto simp: list_ex_iff event_key_def)

lemma extends_ok_insert_event: "sql_insert_event row s = Some s' \<Longrightarrow> extends_ok s s'"
  by (auto simp: sql_insert_event_def extends_ok_def run_store_ok_def run_store_grows_def
      list_ex_key list_all_iff split: if_split_asm dest: event_key_fresh)

lemma extends_ok_insert_record: "sql_insert_record row s = Some s' \<Longrightarrow> extends_ok s s'"
  by (auto simp: sql_insert_record_def extends_ok_def run_store_ok_def run_store_grows_def
      list_ex_key list_all_iff split: if_split_asm)

lemma run_statement_extends [effect_rules]: "advances extends_ok run_statement"
  unfolding advances_def
  by (metis extends_ok_faults run_statement_faults surjective_pairing)

lemma run_execute_extends:
  assumes "\<And>s s'. f s = Some s' \<Longrightarrow> extends_ok s s'"
  shows "advances extends_ok (run_execute f)"
  unfolding advances_def
proof
  fix s
  obtain r s' where run: "run_execute f s = (r, s')" by (cases "run_execute f s")
  then have "extends_ok s s'"
  proof (cases rule: run_execute_cases)
    case 1 then show ?thesis by (simp add: extends_ok_faults)
  next
    case (2 t)
    then show ?thesis using assms transpD [OF transp_extends_ok] extends_ok_faults by blast
  qed
  with run show "extends_ok s (snd (run_execute f s))" by simp
qed

lemma inserts_extend [effect_rules]:
  "advances extends_ok (run_execute (sql_insert_run run))"
  "advances extends_ok (run_execute (sql_insert_event event))"
  "advances extends_ok (run_execute (sql_insert_record new_record))"
  by (intro run_execute_extends extends_ok_insert_run extends_ok_insert_event extends_ok_insert_record, assumption)+

lemma run_transaction_extends [effect_rules]: "advances extends_ok m \<Longrightarrow> advances extends_ok (run_transaction m)"
  unfolding advances_def run_transaction_def
  by (auto split: prod.split sum.split intro: extends_ok_faults) (metis snd_conv)

lemma run_unit_of_work_extends [effect_rules]:
  "advances extends_ok m \<Longrightarrow> advances extends_ok (run_unit_of_work m)"
  unfolding advances_def run_unit_of_work_def
  by (auto split: prod.split sum.split intro: extends_ok_faults) (metis snd_conv)

lemma read_run_extends [effect_rules]: "advances extends_ok (read_run ws i)"
  unfolding advances_def by (metis extends_ok_faults read_run_faults surjective_pairing)

lemma run_exists_faults: "run_exists ws i s = (r, s') \<Longrightarrow> only_faults s s'"
  by (auto simp: run_exists_def eff_bind_def dest: run_statement_faults
      split: prod.split_asm sum.split_asm if_split_asm)

lemma run_exists_extends [effect_rules]: "advances extends_ok (run_exists ws i)"
  unfolding advances_def by (metis extends_ok_faults run_exists_faults surjective_pairing)

lemma insert_run_extends [effect_rules]: "advances extends_ok (insert_run u run e)"
  unfolding insert_run_def by (auto intro!: effect_rules)

lemma run_create_extends [effect_rules]: "advances extends_ok (run_create u run e)"
  unfolding run_create_def by (intro effect_rules)

lemma append_event_extends [effect_rules]: "advances extends_ok (append_event u ws e)"
  unfolding append_event_def by (auto intro!: effect_rules)

lemma advances_at: "(\<And>s. advances R (f s)) \<Longrightarrow> advances R (\<lambda>s. f s s)"
  by (simp add: advances_def)

lemma advances_if_at:
  "(\<And>s. advances R (f s)) \<Longrightarrow> reflp R \<Longrightarrow> advances R (\<lambda>s. if P s then (Err (e s), s) else f s s)"
  by (simp add: advances_def reflp_def)

lemma output_text_delta_extends [effect_rules]: "advances extends_ok (output_text_delta u ws run p at)"
  unfolding output_text_delta_def Let_def by (intro effect_rules advances_if_at) (auto intro!: effect_rules)

lemma read_idempotency_extends [effect_rules]: "advances extends_ok (read_idempotency ws p op k)"
  unfolding read_idempotency_def by (intro effect_rules)

lemma claim_idempotency_extends [effect_rules]: "advances extends_ok (claim_idempotency u k)"
  unfolding claim_idempotency_def by (auto intro!: effect_rules split: option.split)

lemma create_run_idempotent_extends [effect_rules]:
  "advances extends_ok (create_run_idempotent u u' run e k)"
  unfolding create_run_idempotent_def create_or_replay_def by (auto intro!: effect_rules split: option.split)


section \<open>The transition\<close>

lemma u64_to_i64_Ok_iff: "u64_to_i64 column v = Ok i \<longleftrightarrow> unat v < 2 ^ 63 \<and> i = uint v"
  by (auto simp: u64_to_i64_def)

lemma stored_run_OkD:
  assumes "stored_run row = Ok r"
  shows "run_state_display (st_state r) = ru_state row" and "st_version r = word_of_int (ru_version row)"
    and "1 \<le> ru_version row" and "ru_version row < 2 ^ 63" and "st_completed_at r = ru_completed_at row"
    and "st_id r = ru_id row" and "st_workspace_id r = ru_workspace_id row"
  using assms
  by (auto simp: stored_run_def run_parse_state_def and_then_Ok_iff parse_id_Ok_iff dest: find_SomeD
      split: if_split_asm)

lemma run_state_display_inj: "run_state_display a = run_state_display b \<longleftrightarrow> a = b"
  by (cases a; cases b) simp_all

lemma terminal_text_iff: "run_state_display st \<in> set TERMINAL_TEXTS \<longleftrightarrow> run_state_is_terminal st"
  by (cases st) (simp_all add: TERMINAL_TEXTS_def)

text \<open>The \<open>UPDATE\<close> of the checked request, and what it does to a store whose run identifiers are unique.\<close>

lemma update_run_OkD:
  assumes "update_run ws w current s = (Ok x, s')"
  shows "\<not> run_state_is_terminal (st_state current)" and "st_version current = rt_expected_version (rw_transition w)"
    and "run_can_transition_to (st_state current) (rt_to (rw_transition w))"
    and "unat (st_version current) < 2 ^ 63"
    and "let selected = transition_where ws (ne_run_id (rw_event w)) (uint (st_version current))
                          (run_state_display (st_state current)) in
         only_faults (s\<lparr>sr_runs := map (\<lambda>row. if selected row then transitioned_row w row else row) (sr_runs s)\<rparr>) s' \<and>
         list_all (\<lambda>row. selected row \<longrightarrow> run_row_check (transitioned_row w row)) (sr_runs s)"
  using assms
  by (auto simp: update_run_def Let_def eff_bind_run u64_to_i64_Ok_iff sql_update_def list_ex_iff list_all_iff
      dest!: run_statement_faults only_faults_fields intro!: only_faultsI split: if_split_asm)

lemma update_run_faults: "update_run ws w current s = (Err e, s') \<Longrightarrow> only_faults s s'"
  by (auto simp: update_run_def Let_def eff_bind_run sql_update_def dest: run_statement_faults split: if_split_asm)

lemma record_transition_OkD:
  assumes "record_transition u ws event s = (Ok r, s')"
  shows "unat (ne_sequence event) < 2 ^ 63"
    and "\<exists>a b. only_faults s a \<and> only_faults b s' \<and>
           sql_insert_event (event_row u ws (uint (ne_sequence event)) event) a = Some b"
    and "\<exists>row. find (run_at ws (ne_run_id event)) (sr_runs s') = Some row \<and> stored_run row = Ok r"
proof -
  from assms obtain a b c where seq: "unat (ne_sequence event) < 2 ^ 63"
    and ins: "run_execute (sql_insert_event (event_row u ws (uint (ne_sequence event)) event)) s = (Ok True, a)"
    and reread: "read_run ws (ne_run_id event) a = (Ok (Some r), b)" and commit: "run_statement b = (Ok c, s')"
    by (auto simp: record_transition_def u64_to_i64_Ok_iff elim!: eff_bind_OkE split: if_split_asm option.split_asm)
  from seq show "unat (ne_sequence event) < 2 ^ 63" .
  have "only_faults a s'"
    using read_run_faults [OF reread] run_statement_faults [OF commit] by (rule only_faults_trans)
  then show "\<exists>row. find (run_at ws (ne_run_id event)) (sr_runs s') = Some row \<and> stored_run row = Ok r"
    using read_run_SomeD [OF reread] only_faults_fields by metis
  from ins \<open>only_faults a s'\<close> show "\<exists>a b. only_faults s a \<and> only_faults b s' \<and>
           sql_insert_event (event_row u ws (uint (ne_sequence event)) event) a = Some b"
    by (cases rule: run_execute_cases) auto
qed

lemma run_transition_OkD:
  assumes "run_transition u ws w s = (Ok r, s')"
  obtains row current a b where "find (run_at ws (ne_run_id (rw_event w))) (sr_runs s) = Some row"
    and "stored_run row = Ok current" and "only_faults s a" and "update_run ws w current a = (Ok (), b)"
    and "record_transition u ws (rw_event w) b = (Ok r, s')" and "write_is_consistent w"
proof -
  from assms obtain a b c current where w: "write_is_consistent w" and a: "run_statement s = (Ok (), a)"
    and b: "read_run ws (ne_run_id (rw_event w)) a = (Ok (Some current), b)"
    and c: "update_run ws w current b = (Ok (), c)" and d: "record_transition u ws (rw_event w) c = (Ok r, s')"
    by (auto simp: run_transition_def dest!: run_transaction_OkD elim!: eff_bind_OkE
        split: if_split_asm option.split_asm)
  have "only_faults s b" and "sr_runs a = sr_runs s"
    using only_faults_trans [OF run_statement_faults [OF a] read_run_faults [OF b]]
      only_faults_fields [OF run_statement_faults [OF a]] by simp_all
  with that w c d read_run_SomeD [OF b] show thesis by auto
qed

lemma run_transition_ErrD: "run_transition u ws w s = (Err e, s') \<Longrightarrow> only_faults s s'"
  by (auto simp: run_transition_def dest: run_transaction_ErrD split: if_split_asm)

lemma find_run_unique:
  assumes "distinct (map ru_id rows)" and "find (run_at ws i) rows = Some row" and "x \<in> set rows" and "run_at ws i x"
  shows "x = row"
proof -
  from find_SomeD [OF assms(2)] have "row \<in> set rows" and "ru_id row = ru_id x"
    using assms(4) by (simp_all add: run_at_def)
  with assms(1,3) show ?thesis by (simp add: distinct_map inj_on_def)
qed

text \<open>The row a version guard selects is the one that was read.\<close>

lemma read_is_selected:
  assumes "find (run_at ws i) rows = Some row" and "stored_run row = Ok current"
    and "\<not> run_state_is_terminal (st_state current)"
  shows "transition_where ws i (uint (st_version current)) (run_state_display (st_state current)) row"
proof -
  note row = stored_run_OkD [OF assms(2)]
  have "uint (st_version current) = ru_version row"
    using row(2-4) by (simp add: uint_word_of_int_eq take_bit_int_eq_self)
  then show ?thesis
    using find_SomeD [OF assms(1)] row(1) assms(3) terminal_text_iff [of "st_state current"]
    by (auto simp: transition_where_def)
qed

lemma selected_is_read:
  assumes "distinct (map ru_id rows)" and "find (run_at ws i) rows = Some row" and "stored_run row = Ok current"
    and "\<not> run_state_is_terminal (st_state current)" and "x \<in> set rows"
  shows "transition_where ws i (uint (st_version current)) (run_state_display (st_state current)) x \<longleftrightarrow> run_at ws i x"
  using read_is_selected [OF assms(2-4)] find_run_unique [OF assms(1,2,5)] by (auto simp: transition_where_def)

definition lifecycle_of :: "StoredRun \<Rightarrow> RunLifecycle" where
  "lifecycle_of r = \<lparr>rl_state = st_state r, rl_version = st_version r, rl_terminal_at = st_completed_at r\<rparr>"

lemma transitioned_row_fields [simp]:
  "ru_id (transitioned_row w row) = ru_id row" "ru_workspace_id (transitioned_row w row) = ru_workspace_id row"
  "ru_version (transitioned_row w row) = ru_version row + 1"
  "ru_state (transitioned_row w row) = run_state_display (rt_to (rw_transition w))"
  "run_origin (transitioned_row w row) = run_origin row"
  by (simp_all add: transitioned_row_def Let_def run_origin_def)

lemma run_at_transitioned [simp]: "run_at ws i (transitioned_row w row) = run_at ws i row"
  by (simp add: run_at_def)

text \<open>The store after a transition: the row of the run as the write says, one event more, nothing else.\<close>

definition transition_effect :: "uuid \<Rightarrow> WorkspaceId \<Rightarrow> RunWrite \<Rightarrow> RunStore \<Rightarrow> RunStore" where
  "transition_effect u ws w s =
     s\<lparr>sr_runs := map (\<lambda>row. if run_at ws (ne_run_id (rw_event w)) row then transitioned_row w row else row) (sr_runs s),
       sr_events := sr_events s @ [event_row u ws (uint (ne_sequence (rw_event w))) (rw_event w)]\<rparr>"

lemma update_run_effect:
  assumes "distinct (map ru_id (sr_runs s))" and "find (run_at ws (ne_run_id (rw_event w))) (sr_runs s) = Some row"
    and "stored_run row = Ok current" and "update_run ws w current s = (Ok x, s')"
  shows "only_faults (s\<lparr>sr_runs := map (\<lambda>row. if run_at ws (ne_run_id (rw_event w)) row then transitioned_row w row else row)
           (sr_runs s)\<rparr>) s'"
    and "run_row_check (transitioned_row w row)"
proof -
  note up = update_run_OkD [OF assms(4)]
  note sel = selected_is_read [OF assms(1-3) up(1)]
  show "only_faults (s\<lparr>sr_runs := map (\<lambda>row. if run_at ws (ne_run_id (rw_event w)) row then transitioned_row w row else row)
           (sr_runs s)\<rparr>) s'"
    using up(5) sel by (simp add: Let_def cong: map_cong)
  show "run_row_check (transitioned_row w row)"
    using up(5) sel [of row] find_SomeD [OF assms(2)] by (auto simp: Let_def list_all_iff)
qed

lemma sql_insert_event_SomeD: "sql_insert_event row s = Some s' \<Longrightarrow> s' = s\<lparr>sr_events := sr_events s @ [row]\<rparr>"
  by (simp add: sql_insert_event_def split: if_split_asm)

lemma sql_insert_event_elsewhere:
  "sql_insert_event row s = Some s' \<Longrightarrow> sr_events t = sr_events s \<Longrightarrow> sr_runs t = sr_runs s \<Longrightarrow>
     sql_insert_event row t = Some (t\<lparr>sr_events := sr_events t @ [row]\<rparr>)"
  by (simp add: sql_insert_event_def split: if_split_asm)

lemma run_transition_effect:
  assumes "distinct (map ru_id (sr_runs s))" and "run_transition u ws w s = (Ok r, s')"
  obtains row current where "find (run_at ws (ne_run_id (rw_event w))) (sr_runs s) = Some row"
    and "stored_run row = Ok current" and "only_faults (transition_effect u ws w s) s'"
    and "stored_run (transitioned_row w row) = Ok r" and "run_row_check (transitioned_row w row)"
    and "\<not> run_state_is_terminal (st_state current)" and "st_version current = rt_expected_version (rw_transition w)"
    and "run_can_transition_to (st_state current) (rt_to (rw_transition w))"
    and "sql_insert_event (event_row u ws (uint (ne_sequence (rw_event w))) (rw_event w))
           (transition_effect u ws w s\<lparr>sr_events := sr_events s\<rparr>) = Some (transition_effect u ws w s)"
proof -
  let ?i = "ne_run_id (rw_event w)"
  let ?e = "event_row u ws (uint (ne_sequence (rw_event w))) (rw_event w)"
  from assms(2) obtain row current a b
    where row: "find (run_at ws ?i) (sr_runs s) = Some row" "stored_run row = Ok current"
      and a: "only_faults s a" and up: "update_run ws w current a = (Ok (), b)"
      and rec: "record_transition u ws (rw_event w) b = (Ok r, s')" by (rule run_transition_OkD)
  note fa = only_faults_fields [OF a]
  note upd = update_run_OkD [OF up]
  from fa assms(1) row have eff: "only_faults (a\<lparr>sr_runs := map (\<lambda>row. if run_at ws ?i row then transitioned_row w row else row)
           (sr_runs a)\<rparr>) b" and chk: "run_row_check (transitioned_row w row)"
    using update_run_effect [OF _ _ row(2) up] by simp_all
  from record_transition_OkD(2) [OF rec] obtain c d where cd: "only_faults b c" "only_faults d s'"
    "sql_insert_event ?e c = Some d" by blast
  note fb = only_faults_fields [OF eff] only_faults_fields [OF cd(1)] only_faults_fields [OF cd(2)]
  have all: "only_faults (transition_effect u ws w s) s'"
    using sql_insert_event_SomeD [OF cd(3)] fa fb by (intro only_faultsI) (simp_all add: transition_effect_def)
  have ins: "sql_insert_event ?e (transition_effect u ws w s\<lparr>sr_events := sr_events s\<rparr>) = Some (transition_effect u ws w s)"
    using sql_insert_event_elsewhere [OF cd(3), of "transition_effect u ws w s\<lparr>sr_events := sr_events s\<rparr>"] fa fb
    by (simp add: transition_effect_def)
  have "find (run_at ws ?i) (sr_runs s') = Some (transitioned_row w row)"
    using row(1) only_faults_fields [OF all]
    by (simp add: transition_effect_def find_map_same) (use find_SomeD [OF row(1)] in simp)
  then have "stored_run (transitioned_row w row) = Ok r"
    using record_transition_OkD(3) [OF rec] by simp
  from that [OF row all this chk upd(1-3) ins] show thesis .
qed

lemma run_row_check_completed:
  "run_row_check row \<Longrightarrow> stored_run row = Ok r \<Longrightarrow> run_state_is_terminal (st_state r) = (st_completed_at r \<noteq> None)"
  using terminal_text_iff [of "st_state r"] by (simp add: run_row_check_def stored_run_OkD)


lemma update_run_extends [effect_rules]: "advances extends_ok (update_run ws w current)"
  unfolding advances_def
proof
  fix s
  obtain r s' where run: "update_run ws w current s = (r, s')" by (cases "update_run ws w current s")
  have "extends_ok s s'"
  proof (cases r)
    case (Inl e)
    with run show ?thesis by (simp add: update_run_faults extends_ok_faults)
  next
    case (Inr x)
    define selected where "selected = transition_where ws (ne_run_id (rw_event w)) (uint (st_version current))
                          (run_state_display (st_state current))"
    let ?f = "\<lambda>row. if selected row then transitioned_row w row else row"
    from update_run_OkD(5) [OF run [unfolded Inr]]
    have rows: "sr_runs s' = map ?f (sr_runs s)" "sr_events s' = sr_events s" "sr_records s' = sr_records s"
      "sr_conversations s' = sr_conversations s"
      and chk: "list_all (\<lambda>row. selected row \<longrightarrow> run_row_check (transitioned_row w row)) (sr_runs s)"
      by (auto simp: Let_def selected_def dest: only_faults_fields)
    have "map ru_id (sr_runs s') = map ru_id (sr_runs s)" "map run_origin (sr_runs s') = map run_origin (sr_runs s)"
      by (simp_all add: rows)
    moreover from this(1) have "ru_id ` set (sr_runs s') = ru_id ` set (sr_runs s)"
      by (metis image_set)
    moreover from chk have "list_all run_row_check (sr_runs s) \<Longrightarrow> list_all run_row_check (sr_runs s')"
      by (auto simp: rows list_all_iff)
    ultimately show ?thesis using rows(2-4)
      by (simp add: extends_ok_def run_store_ok_def run_store_grows_def list_ex_key)
  qed
  with run show "extends_ok s (snd (update_run ws w current s))" by simp
qed

lemma record_transition_extends [effect_rules]: "advances extends_ok (record_transition u ws e)"
  unfolding record_transition_def by (auto intro!: effect_rules split: option.split)

lemma run_transition_extends [effect_rules]: "advances extends_ok (run_transition u ws w)"
  unfolding run_transition_def by (auto intro!: effect_rules split: option.split)

section \<open>Histories of writes\<close>

inductive run_store_step :: "RunStore \<Rightarrow> RunStore \<Rightarrow> bool" where
  create: "run_create u run e s = (r, s') \<Longrightarrow> run_store_step s s'"
| create_idempotent: "create_run_idempotent u u' run e k s = (c, s') \<Longrightarrow> run_store_step s s'"
| transition: "run_transition u ws w s = (t, s') \<Longrightarrow> run_store_step s s'"
| append: "append_event u ws e s = (n, s') \<Longrightarrow> run_store_step s s'"
| claim: "claim_idempotency u k s = (c, s') \<Longrightarrow> run_store_step s s'"
| delta: "output_text_delta u ws run p at s = (n, s') \<Longrightarrow> run_store_step s s'"

abbreviation run_store_history :: "RunStore \<Rightarrow> RunStore \<Rightarrow> bool" where
  "run_store_history \<equiv> run_store_step\<^sup>*\<^sup>*"

lemma run_store_step_extends: "run_store_step s s' \<Longrightarrow> extends_ok s s'"
  by (induction rule: run_store_step.induct) (auto elim!: advancesD [rotated] intro: effect_rules)

lemma run_store_history_extends: "run_store_history s s' \<Longrightarrow> extends_ok s s'"
proof (induction rule: rtranclp_induct)
  case base show ?case by (rule reflpD [OF reflp_extends_ok])
next
  case (step t s')
  then show ?case using transpD [OF transp_extends_ok] run_store_step_extends by blast
qed

lemma find_record_grows:
  "run_store_grows s s' \<Longrightarrow> find p (sr_records s) = Some k \<Longrightarrow> find p (sr_records s') = Some k"
  by (auto simp: run_store_grows_def find_append)

lemma read_idempotency_faults: "read_idempotency ws p op k s = (r, s') \<Longrightarrow> only_faults s s'"
  by (auto simp: read_idempotency_def eff_bind_run dest: run_statement_faults)

lemma read_idempotency_OkD:
  "read_idempotency ws p op k s = (Ok x, s') \<Longrightarrow>
     x = map_option (\<lambda>r. (ir_request_digest r, ir_run_id r)) (find (record_has_scope ws p op k) (sr_records s))"
  by (auto simp: read_idempotency_def eff_bind_run dest!: run_statement_faults only_faults_fields)

abbreviation has_scope_of :: "NewIdempotencyRecord \<Rightarrow> IdempotencyRow \<Rightarrow> bool" where
  "has_scope_of k \<equiv> record_has_scope (ni_workspace_id k) (ni_principal_id k) (ni_operation k) (ni_key k)"

lemma has_scope_own [simp]: "has_scope_of k (idempotency_row u k)"
  by (simp add: record_has_scope_def idempotency_row_def)

lemma run_execute_records:
  assumes "run_execute f s = (r, s')" and "\<And>s s'. f s = Some s' \<Longrightarrow> sr_records s' = sr_records s"
  shows "sr_records s' = sr_records s"
  using assms(1) by (cases rule: run_execute_cases) (auto dest!: only_faults_fields assms(2))

lemma insert_run_records:
  assumes "insert_run u run e s = (Ok x, s')"
  shows "sr_records s' = sr_records s"
proof -
  from assms obtain a where a: "run_execute (sql_insert_run run) s = (Ok True, a)"
    and b: "run_execute (sql_insert_event (event_row u (nr_workspace_id run) 1 e)) a = (Ok True, s')"
    by (auto simp: insert_run_def elim!: eff_bind_OkE split: if_split_asm)
  from a have "sr_records a = sr_records s"
    by (rule run_execute_records) (auto simp: sql_insert_run_def split: if_split_asm)
  moreover from b have "sr_records s' = sr_records a"
    by (rule run_execute_records) (auto dest: sql_insert_event_SomeD)
  ultimately show ?thesis by simp
qed

text \<open>The transaction of a creation, and what the two answers that matter say about it.\<close>

lemma run_unit_of_work_cases:
  assumes "run_unit_of_work m s = (r, s')"
  obtains x where "m s = (Ok (True, x), s')" and "r = Ok x"
    | x t where "m s = (Ok (False, x), t)" and "r = Ok x" and "only_faults s s'"
    | e t where "m s = (Err e, t)" and "r = Err e" and "only_faults s s'"
  using assms by (auto simp: run_unit_of_work_def split: prod.split_asm sum.split_asm if_split_asm)

lemma claim_of_not_Claimed: "claim_of k e \<noteq> Ok Claimed"
  by (auto simp: claim_of_def and_then_Ok_iff split: prod.split)

lemma create_or_replay_ClaimedD:
  assumes "create_or_replay u u' run e k s = (Ok (c, Claimed), s')"
  shows "find (has_scope_of k) (sr_records s') = Some (idempotency_row u' k)" and c
proof -
  from assms obtain a b d x y z where a: "run_statement s = (Ok (), a)"
    and b: "read_idempotency (ni_workspace_id k) (ni_principal_id k) (ni_operation k) (ni_key k) a = (Ok None, b)"
    and d: "insert_run u run e b = (Ok x, d)"
    and y: "run_execute (sql_insert_record (idempotency_row u' k)) d = (Ok True, y)"
    and z: "run_statement y = (Ok z, s')" and c: c
    by (auto simp: create_or_replay_def claim_of_not_Claimed elim!: eff_bind_OkE split: option.split_asm if_split_asm)
  from c show c .
  have "find (has_scope_of k) (sr_records a) = None" using read_idempotency_OkD [OF b] by simp
  moreover have "sr_records d = sr_records a"
    using insert_run_records [OF d] only_faults_fields [OF read_idempotency_faults [OF b]] by simp
  moreover from y have "sr_records y = sr_records d @ [idempotency_row u' k]"
    by (cases rule: run_execute_cases)
       (auto simp: sql_insert_record_def dest: only_faults_fields split: if_split_asm)
  moreover have "sr_records s' = sr_records y"
    using only_faults_fields [OF run_statement_faults [OF z]] by simp
  ultimately show "find (has_scope_of k) (sr_records s') = Some (idempotency_row u' k)"
    by (simp add: find_append)
qed

lemma create_ClaimedD:
  assumes "create_run_idempotent u u' run e k s = (Ok Claimed, s')"
  shows "find (has_scope_of k) (sr_records s') = Some (idempotency_row u' k)" and "ni_run_id k = nr_id run"
proof -
  from assms have run: "run_unit_of_work (create_or_replay u u' run e k) s = (Ok Claimed, s')"
    and "ni_run_id k = nr_id run"
    by (auto simp: create_run_idempotent_def elim!: eff_bind_OkE split: if_split_asm)
  then show "ni_run_id k = nr_id run" by simp
  from run show "find (has_scope_of k) (sr_records s') = Some (idempotency_row u' k)"
    by (cases rule: run_unit_of_work_cases) (auto dest: create_or_replay_ClaimedD)
qed

lemma create_or_replay_OkD:
  assumes "find (has_scope_of k) (sr_records s) = Some row" and "create_or_replay u u' run e k s = (Ok (c, x), s')"
  shows "\<not> c" and "claim_of k (ir_request_digest row, ir_run_id row) = Ok x"
proof -
  from assms(2) obtain a b found where a: "run_statement s = (Ok (), a)"
    and b: "read_idempotency (ni_workspace_id k) (ni_principal_id k) (ni_operation k) (ni_key k) a = (Ok found, b)"
    and rest: "(case found of
         Some e \<Rightarrow> eff_bind run_statement (\<lambda>_. eff_bind (eff_lift (claim_of k e)) (\<lambda>claim. eff_return (False, claim)))
       | None \<Rightarrow>
           eff_bind (insert_run u run e) (\<lambda>_.
           eff_bind (run_execute (sql_insert_record (idempotency_row u' k))) (\<lambda>inserted.
             if \<not> inserted then eff_return (False, ClaimConflict)
             else eff_bind run_statement (\<lambda>_. eff_return (True, Claimed))))) b = (Ok (c, x), s')"
    by (auto simp: create_or_replay_def elim!: eff_bind_OkE)
  have "found = Some (ir_request_digest row, ir_run_id row)"
    using read_idempotency_OkD [OF b] assms(1) only_faults_fields [OF run_statement_faults [OF a]] by simp
  with rest show "\<not> c" and "claim_of k (ir_request_digest row, ir_run_id row) = Ok x"
    by (auto elim!: eff_bind_OkE)
qed

text \<open>A statement that ran between two states of the store failed.\<close>

definition statement_failed :: "RunStore \<Rightarrow> RunStore \<Rightarrow> bool" where
  "statement_failed s s' \<longleftrightarrow> (\<exists>used. sr_faults s = used @ sr_faults s' \<and> True \<in> set used)"

lemma run_statement_ErrD: "run_statement s = (Err e, s') \<Longrightarrow> sr_faults s = True # sr_faults s'"
  by (auto simp: run_statement_def split: list.split_asm if_split_asm)

lemma run_statement_OkD: "run_statement s = (Ok x, s') \<Longrightarrow> sr_faults s = sr_faults s' \<or> sr_faults s = False # sr_faults s'"
  by (auto simp: run_statement_def split: list.split_asm if_split_asm)

lemma statement_failed_first: "sr_faults s = True # sr_faults s' \<Longrightarrow> statement_failed s s'"
  by (auto simp: statement_failed_def intro: exI [of _ "[True]"])

lemma statement_failed_later:
  assumes "run_statement s = (Ok x, t)" and "statement_failed t s'"
  shows "statement_failed s s'"
proof -
  obtain used where "sr_faults t = used @ sr_faults s'" "True \<in> set used" using assms(2) by (auto simp: statement_failed_def)
  with run_statement_OkD [OF assms(1)] have "sr_faults s = used @ sr_faults s' \<or> sr_faults s = (False # used) @ sr_faults s'"
    by auto
  with \<open>True \<in> set used\<close> show ?thesis unfolding statement_failed_def by (metis list.set_intros(2))
qed

lemma statement_failed_faults:
  "sr_faults a = sr_faults s \<Longrightarrow> sr_faults b = sr_faults s' \<Longrightarrow> statement_failed a b \<longleftrightarrow> statement_failed s s'"
  by (simp add: statement_failed_def)

text \<open>A request whose key is claimed is refused only when a statement fails or the claim cannot be read.\<close>

lemma create_or_replay_ErrD:
  assumes "find (has_scope_of k) (sr_records s) = Some row" and "create_or_replay u u' run e k s = (Err x, s')"
  shows "statement_failed s s' \<or> isl (claim_of k (ir_request_digest row, ir_run_id row))"
proof -
  have later: "statement_failed s s'" if "run_statement s = (Ok y, a)" "run_statement a = (Err z, s')" for y z a
    using that by (blast intro: statement_failed_later statement_failed_first run_statement_ErrD)
  have last: "statement_failed s s'"
    if "run_statement s = (Ok y, a)" "run_statement a = (Ok z, b)" "run_statement b = (Err v, s')" for y z v a b
    using that by (blast intro: statement_failed_later statement_failed_first run_statement_ErrD)
  have same: "sr_records a = sr_records s" if "run_statement s = (Ok y, a)" for y a s
    using only_faults_fields [OF run_statement_faults [OF that]] by simp
  show ?thesis
    using assms same
    by (auto simp: create_or_replay_def read_idempotency_def eff_bind_run
        dest: later last statement_failed_first [OF run_statement_ErrD])
qed

lemma create_again_ErrD:
  assumes "find (has_scope_of k) (sr_records s) = Some row" and "create_run_idempotent u u' run e k s = (Err x, s')"
    and "validate_idempotency_key (ni_key k) = Ok ()"
  shows "statement_failed s s' \<or> ni_run_id k \<noteq> nr_id run \<or> isl (claim_of k (ir_request_digest row, ir_run_id row))"
proof (cases "ni_run_id k = nr_id run")
  case True
  with assms(2,3) have "run_unit_of_work (create_or_replay u u' run e k) s = (Err x, s')"
    by (simp add: create_run_idempotent_def eff_bind_def)
  then obtain t where "create_or_replay u u' run e k s = (Err x, t)" "sr_faults s' = sr_faults t"
    by (auto simp: run_unit_of_work_def split: prod.split_asm sum.split_asm if_split_asm)
  with create_or_replay_ErrD [OF assms(1)] show ?thesis by (metis statement_failed_faults)
qed simp

lemma create_again:
  assumes "find (has_scope_of k) (sr_records s) = Some row" and "create_run_idempotent u u' run e k s = (r, s')"
  shows "only_faults s s'" and "r = Ok c \<Longrightarrow> claim_of k (ir_request_digest row, ir_run_id row) = Ok c"
proof -
  from assms(2) consider "only_faults s s'" "isl r"
    | "run_unit_of_work (create_or_replay u u' run e k) s = (r, s')"
    by (auto simp: create_run_idempotent_def eff_bind_run split: if_split_asm)
  then have "only_faults s s' \<and> (\<forall>c. r = Ok c \<longrightarrow> claim_of k (ir_request_digest row, ir_run_id row) = Ok c)"
  proof cases
    case 2
    then show ?thesis
      by (cases rule: run_unit_of_work_cases) (auto dest: create_or_replay_OkD [OF assms(1)])
  qed auto
  then show "only_faults s s'" and "r = Ok c \<Longrightarrow> claim_of k (ir_request_digest row, ir_run_id row) = Ok c" by auto
qed


text \<open>A transition the store accepts is one the lifecycle of the stored run accepts when it is asked from the state the run
  is in: the store does not look at the state the request names.\<close>

lemma run_transition_accepted:
  assumes "run_store_ok s" and "run_transition u ws w s = (Ok r, s')"
  obtains row current where "find (run_at ws (ne_run_id (rw_event w))) (sr_runs s) = Some row" and "stored_run row = Ok current"
    and "only_faults (transition_effect u ws w s) s'"
    and "rt_expected_version (rw_transition w) = rl_version (lifecycle_of current)" and "rl_terminal_at (lifecycle_of current) = None"
    and "is_ok (fst (run_apply (lifecycle_of current) ((rw_transition w)\<lparr>rt_expected_from := st_state current\<rparr>)))"
    and "snd (run_apply (lifecycle_of current) ((rw_transition w)\<lparr>rt_expected_from := st_state current\<rparr>)) = lifecycle_of r"
proof -
  from assms(1) have "distinct (map ru_id (sr_runs s))" by (simp add: run_store_ok_def)
  from run_transition_effect [OF this assms(2)] obtain row current where row: "find (run_at ws (ne_run_id (rw_event w))) (sr_runs s) = Some row"
    and cur: "stored_run row = Ok current" and eff: "only_faults (transition_effect u ws w s) s'"
    and r: "stored_run (transitioned_row w row) = Ok r" and chk: "run_row_check (transitioned_row w row)"
    and ok: "\<not> run_state_is_terminal (st_state current)" "st_version current = rt_expected_version (rw_transition w)"
      "run_can_transition_to (st_state current) (rt_to (rw_transition w))"
    by metis
  have "run_row_check row"
    using assms(1) find_SomeD [OF row] by (simp add: run_store_ok_def list_all_iff)
  from run_row_check_completed [OF this cur] ok(1) have open_run: "st_completed_at current = None" by simp
  note before = stored_run_OkD [OF cur]
  note after = stored_run_OkD [OF r]
  have ver: "st_version r = st_version current + 1"
    using before(2) after(2) by (simp add: wi_hom_syms)
  have "uint (st_version current) = ru_version row"
    using before(2-4) by (simp add: uint_word_of_int_eq take_bit_int_eq_self)
  with before(4) have "st_version current \<noteq> - 1" by (auto simp: unsigned_minus_1_eq_mask mask_eq_exp_minus_1)
  then have "run_version_next (st_version current) = Ok (st_version current + 1)"
    using checked_add_one_Some_iff [of "st_version current"]
    by (auto simp: run_version_next_def checked_add_def split: if_split_asm)
  moreover have "st_state r = rt_to (rw_transition w)"
    using after(1) by (simp add: run_state_display_inj)
  moreover have "st_completed_at r =
      (if run_state_is_terminal (rt_to (rw_transition w)) then Some (rt_occurred_at (rw_transition w)) else None)"
    using before(5) after(5) open_run by (simp add: transitioned_row_def Let_def)
  ultimately have "is_ok (fst (run_apply (lifecycle_of current) ((rw_transition w)\<lparr>rt_expected_from := st_state current\<rparr>)))"
    and "snd (run_apply (lifecycle_of current) ((rw_transition w)\<lparr>rt_expected_from := st_state current\<rparr>)) = lifecycle_of r"
    using ok open_run ver by (simp_all add: run_apply_def lifecycle_of_def Let_def)
  with that [OF row cur eff] ok(2) open_run show thesis by (simp add: lifecycle_of_def)
qed

lemma expected_state_not_compared:
  "run_transition u ws (w\<lparr>rw_transition := (rw_transition w)\<lparr>rt_expected_from := x\<rparr>\<rparr>) s = run_transition u ws w s"
proof -
  let ?w = "w\<lparr>rw_transition := (rw_transition w)\<lparr>rt_expected_from := x\<rparr>\<rparr>"
  have fields: "rt_to (rw_transition ?w) = rt_to (rw_transition w)" "rw_event ?w = rw_event w" "rw_waiting ?w = rw_waiting w"
      "rt_expected_version (rw_transition ?w) = rt_expected_version (rw_transition w)" "rw_outcome ?w = rw_outcome w"
      "transitioned_row ?w = transitioned_row w"
    by (simp_all add: fun_eq_iff transitioned_row_def Let_def)
  then show ?thesis by (simp only: run_transition_def update_run_def write_is_consistent_def Let_def)
qed

section \<open>Properties\<close>

text \<open>C35: \<open>SqliteRunRepository::transition\<close> on a consistent store implements the lifecycle but for one check,
  wherever the database fails. When it answers \<open>Ok\<close> and the request names the state the run is in, the lifecycle of the stored run accepts that
  request and the returned run has the lifecycle it leads to. When it answers \<open>Ok\<close> and the request names another
  state, the lifecycle refuses the request and the store has carried it out as if it had named the right one, since it
  never compares \<open>expected_from\<close>. Either way the store differs from before in the row of that run and in one event
  appended. When it answers with an error, no table has changed.\<close>

theorem stored_transition_refines_lifecycle:
  assumes "run_store_ok s" and "run_transition u ws w s = (answer, s')"
  shows "case answer of
           Err _ \<Rightarrow> only_faults s s'
         | Ok r \<Rightarrow>
             only_faults (transition_effect u ws w s) s' \<and>
             (\<exists>row current.
                find (run_at ws (ne_run_id (rw_event w))) (sr_runs s) = Some row \<and> stored_run row = Ok current \<and>
                (if rt_expected_from (rw_transition w) = st_state current
                 then is_ok (fst (run_apply (lifecycle_of current) (rw_transition w))) \<and>
                      snd (run_apply (lifecycle_of current) (rw_transition w)) = lifecycle_of r
                 else run_apply (lifecycle_of current) (rw_transition w) =
                        (Err (RunTransitionNotAllowed (st_state current) (rt_to (rw_transition w))), lifecycle_of current) \<and>
                      snd (run_apply (lifecycle_of current) ((rw_transition w)\<lparr>rt_expected_from := st_state current\<rparr>)) =
                        lifecycle_of r))"
proof (cases answer)
  case (Inl e)
  with assms(2) show ?thesis by (simp add: run_transition_ErrD)
next
  case (Inr r)
  with assms obtain row current where row: "find (run_at ws (ne_run_id (rw_event w))) (sr_runs s) = Some row"
      "stored_run row = Ok current" "only_faults (transition_effect u ws w s) s'"
    and live: "rt_expected_version (rw_transition w) = rl_version (lifecycle_of current)" "rl_terminal_at (lifecycle_of current) = None"
    and app: "is_ok (fst (run_apply (lifecycle_of current) ((rw_transition w)\<lparr>rt_expected_from := st_state current\<rparr>)))"
      "snd (run_apply (lifecycle_of current) ((rw_transition w)\<lparr>rt_expected_from := st_state current\<rparr>)) = lifecycle_of r"
    by (auto elim: run_transition_accepted)
  show ?thesis
  proof (cases "rt_expected_from (rw_transition w) = st_state current")
    case True
    then have "(rw_transition w)\<lparr>rt_expected_from := st_state current\<rparr> = rw_transition w" by (cases "rw_transition w") simp
    with Inr row app True show ?thesis by auto
  next
    case False
    then have "run_apply (lifecycle_of current) (rw_transition w) =
        (Err (RunTransitionNotAllowed (st_state current) (rt_to (rw_transition w))), lifecycle_of current)"
      using live run_apply_illegal [of "lifecycle_of current" "rw_transition w"] by (simp add: lifecycle_of_def)
    with Inr row app(2) False show ?thesis by auto
  qed
qed

text \<open>C13: A client that retries a creation does not start a second run. Once \<open>create_run_idempotent\<close> has
  claimed a key, then after any further writes to the store a request with the same workspace, principal,
  operation and key changes no table, whatever run it carries. It is answered with the first run when its digest
  is the same and with a conflict when it is not; it fails only if a statement of the database failed, if its
  own key names another run than the one it carries, or, for the same digest, if the first run has an identifier
  the store does not read back.\<close>

theorem claimed_key_creates_no_second_run:
  assumes "create_run_idempotent u u' run e k s = (Ok Claimed, s1)" and "run_store_history s1 s2"
    and "create_run_idempotent v v' run' e' k' s2 = (answer, s3)"
    and "(ni_workspace_id k', ni_principal_id k', ni_operation k', ni_key k') =
         (ni_workspace_id k, ni_principal_id k, ni_operation k, ni_key k)"
  shows "only_faults s2 s3 \<and>
         (case answer of
            Err _ \<Rightarrow> statement_failed s2 s3 \<or> ni_run_id k' \<noteq> nr_id run' \<or>
                     ni_request_digest k' = ni_request_digest k \<and> \<not> canonical_id (nr_id run)
          | Ok c \<Rightarrow> c = (if ni_request_digest k' = ni_request_digest k then Replay (nr_id run) else ClaimConflict))"
proof -
  from create_ClaimedD(1) [OF assms(1)] run_store_history_extends [OF assms(2)]
  have "find (has_scope_of k) (sr_records s2) = Some (idempotency_row u' k)"
    by (auto simp: extends_ok_def intro: find_record_grows)
  with assms(4) have found: "find (has_scope_of k') (sr_records s2) = Some (idempotency_row u' k)" by simp
  have row: "ir_request_digest (idempotency_row u' k) = ni_request_digest k" "ir_run_id (idempotency_row u' k) = nr_id run"
    using create_ClaimedD(2) [OF assms(1)] by (simp_all add: idempotency_row_def)
  have "validate_idempotency_key (ni_key k') = Ok ()"
    using assms(1,4) by (auto simp: create_run_idempotent_def eff_bind_run)
  note refused = create_again_ErrD [OF found _ this] and again = create_again [OF found assms(3)]
  show ?thesis
  proof (cases answer)
    case (Inl x)
    with again(1) refused assms(3) row show ?thesis
      by (fastforce simp: claim_of_def and_then_def parse_id_def split: if_split_asm)
  next
    case (Inr c)
    with again row show ?thesis by (auto simp: claim_of_def and_then_Ok_iff parse_id_Ok_iff)
  qed
qed

text \<open>C17: Whatever sequence of writes runs, and wherever the database fails, the tables keep the invariant
  (one row per run, each in a state its waiting and completion columns agree with; one event per sequence
  number of a run; every event and idempotency record of a run that exists) and only grow: no run is
  removed or changes its origin or its budget, and events and records are appended at the end.\<close>

theorem run_store_only_grows:
  assumes "run_store_ok s" and "run_store_history s s'"
  shows "run_store_ok s' \<and> run_store_grows s s'"
  using assms run_store_history_extends by (auto simp: extends_ok_def)


section \<open>Witnesses\<close>

definition sample_new_run :: NewRun where
  "sample_new_run =
     \<lparr>nr_id = 1, nr_workspace_id = 2, nr_conversation_id = 9, nr_principal_id = 3, nr_parent_run_id = None,
      nr_objective_ref = None, nr_created_at = 5, nr_runtime = \<lparr>ri_id = ''native'', ri_version = ''1''\<rparr>,
      nr_deadline_at = None, nr_budget = run_budget_default\<rparr>"

definition sample_key :: NewIdempotencyRecord where
  "sample_key =
     \<lparr>ni_key = ''k'', ni_workspace_id = 2, ni_principal_id = 3, ni_client_credential = ''c'', ni_operation = ''op'',
      ni_request_digest = ''d'', ni_run_id = 1, ni_created_at = 5\<rparr>"

definition sample_run_store :: RunStore where
  "sample_run_store =
     \<lparr>sr_faults = [], sr_conversations = [9], sr_runs = [], sr_events = [], sr_records = [], sr_parked = []\<rparr>"

definition sample_created :: RunStore where
  "sample_created =
     sample_run_store\<lparr>sr_runs := [new_run_row sample_new_run], sr_events := [event_row 6 2 1 (run_received_event 1 5)],
       sr_records := [idempotency_row 7 sample_key]\<rparr>"

definition sample_write :: RunWrite where
  "sample_write =
     run_write_new (run_transition_new RunState.Received RunState.ContextBuilding 1 TransitionActor.Controller
                      (TransitionReason ''start'') 10)
       \<lparr>ne_run_id = 1, ne_sequence = 2, ne_event_type = ''run.context'', ne_payload_json = None,
        ne_visibility = EventVisibility.Public, ne_occurred_at = 10\<rparr>"

lemmas run_store_eval =
  sample_created_def sample_run_store_def sample_new_run_def sample_key_def sample_write_def
  create_run_idempotent_def create_or_replay_def run_unit_of_work_def insert_run_def run_execute_def run_statement_def
  read_idempotency_def sql_insert_run_def sql_insert_event_def sql_insert_record_def eff_bind_def eff_try_def
  new_run_row_def event_row_def run_received_event_def idempotency_row_def validate_idempotency_key_def
  record_has_scope_def claim_of_def parse_id_def canonical_id_def MAX_IDEMPOTENCY_KEY_BYTES_def API_MAJOR_def

lemma sample_creates:
  "create_run_idempotent 6 7 sample_new_run (run_received_event 1 5) sample_key sample_run_store =
     (Ok Claimed, sample_created)"
  by (simp add: run_store_eval contains_nul_def byte_def)

lemma sample_created_ok: "run_store_ok sample_created"
  by (simp add: sample_created_def sample_run_store_def run_store_ok_def new_run_row_check event_row_def run_received_event_def
      idempotency_row_def sample_key_def) (simp add: sample_new_run_def)

lemma sample_transitions:
  "is_ok (fst (run_transition 8 2 sample_write sample_created))"
  by (simp add: run_store_eval run_transition_def run_transaction_def update_run_def record_transition_def read_run_def
      write_is_consistent_def run_write_new_def run_transition_new_def run_at_def stored_run_def run_parse_state_def
      run_state_all_def u64_to_i64_def sql_update_def transition_where_def transitioned_row_def run_row_check_def
      TERMINAL_TEXTS_def Let_def)


theorem stored_transition_refines_lifecycle_witness:
  "run_store_ok sample_created \<and>
   (\<exists>r current. fst (run_transition 8 2 sample_write sample_created) = Ok r \<and>
      stored_run (new_run_row sample_new_run) = Ok current \<and>
      is_ok (fst (run_apply (lifecycle_of current) (rw_transition sample_write))) \<and>
      snd (run_apply (lifecycle_of current) (rw_transition sample_write)) = lifecycle_of r)"
proof -
  obtain r s' where run: "run_transition 8 2 sample_write sample_created = (Ok r, s')"
    using sample_transitions by (cases "run_transition 8 2 sample_write sample_created") (auto simp: is_ok_iff)
  have row: "find (run_at 2 (ne_run_id (rw_event sample_write))) (sr_runs sample_created) = Some (new_run_row sample_new_run)"
    by (simp add: run_store_eval run_at_def run_write_new_def)
  have state: "stored_run (new_run_row sample_new_run) = Ok current \<Longrightarrow> st_state current = RunState.Received" for current
    by (auto simp: run_store_eval stored_run_def run_parse_state_def run_state_all_def and_then_Ok_iff ok_or_def)
  have "rt_expected_from (rw_transition sample_write) = RunState.Received"
    by (simp add: sample_write_def run_write_new_def run_transition_new_def)
  with stored_transition_refines_lifecycle [OF sample_created_ok run] row state sample_created_ok run
  show ?thesis by auto
qed

theorem claimed_key_creates_no_second_run_witness:
  "create_run_idempotent 6 7 sample_new_run (run_received_event 1 5) sample_key sample_run_store = (Ok Claimed, sample_created) \<and>
   fst (create_run_idempotent 16 17 (sample_new_run\<lparr>nr_id := 4\<rparr>) (run_received_event 4 5) (sample_key\<lparr>ni_run_id := 4\<rparr>)
          sample_created) = Ok (Replay 1) \<and>
   only_faults sample_created
     (snd (create_run_idempotent 16 17 (sample_new_run\<lparr>nr_id := 4\<rparr>) (run_received_event 4 5) (sample_key\<lparr>ni_run_id := 4\<rparr>)
          sample_created))"
  using claimed_key_creates_no_second_run [OF sample_creates rtranclp.rtrancl_refl surjective_pairing,
      of "sample_key\<lparr>ni_run_id := 4\<rparr>" 16 17 "sample_new_run\<lparr>nr_id := 4\<rparr>" "run_received_event 4 5"] sample_creates
  by (auto simp: run_store_eval contains_nul_def byte_def)

theorem run_store_only_grows_witness:
  "run_store_ok sample_created \<and> run_store_history sample_created (snd (run_transition 8 2 sample_write sample_created)) \<and>
   run_store_ok (snd (run_transition 8 2 sample_write sample_created)) \<and>
   run_store_grows sample_created (snd (run_transition 8 2 sample_write sample_created))"
proof -
  have "run_store_history sample_created (snd (run_transition 8 2 sample_write sample_created))"
    by (intro r_into_rtranclp run_store_step.transition [OF surjective_pairing])
  then show ?thesis using run_store_only_grows [OF sample_created_ok] sample_created_ok by simp
qed

end
