(* ===== verification/Run_Startup.thy ===== *)
theory Run_Startup
  imports Run_Store_Laws
begin

text \<open>
  \<open>jarvis-application/src/recovery.rs\<close>: the pass that ends the runs a restart interrupted, over the run store.
  The loop over the pages is a total function: a page that asks for another one has ended a run. The
  identifier of each new event is an argument, a function of the store it is made for.
\<close>

record RecoverySummary =
  rs_abandoned :: u64
  rs_parked :: u64

definition recovery_total :: "RecoverySummary \<Rightarrow> u64" where
  "recovery_total self = rs_abandoned self + rs_parked self"

record ReconciliationReport =
  rn_summary :: RecoverySummary
  rn_failures :: "(RunId \<times> string) list"
  rn_incomplete_store :: bool

definition reconciliation_is_complete :: "ReconciliationReport \<Rightarrow> bool" where
  "reconciliation_is_complete self \<longleftrightarrow> rn_failures self = [] \<and> \<not> rn_incomplete_store self"

definition reconciliation_examined :: "ReconciliationReport \<Rightarrow> u64" where
  "reconciliation_examined self =
     recovery_total (rn_summary self) +
     (if length (rn_failures self) < 2 ^ 64 then of_nat (length (rn_failures self)) else - 1)"

definition terminal_event_for :: "RecoveryAction \<Rightarrow> string" where
  "terminal_event_for action = ''run.failed''"

definition recovery_payload :: "RecoveryAction \<Rightarrow> RunState \<Rightarrow> string" where
  "recovery_payload action was_in =
     (case (case action of
              Resumable _ \<Rightarrow> (''resumable'', [CHR 0x22] @ run_state_display was_in @ [CHR 0x22])
            | Abandoned _ \<Rightarrow> (''abandoned'', ''null'')) of
        (classification, parked_in) \<Rightarrow>
          ''{\"classification\":\"'' @ classification @ ''\",\"was_in\":\"'' @ run_state_display was_in @
          ''\",\"parked_in\":'' @ parked_in @ '',\"code\":\"'' @ recovery_error_code action @ ''\"}'')"

datatype PagePass = PageDrained | PageMore | PageStalled

definition page_outcome :: "bool \<Rightarrow> u64 \<Rightarrow> PagePass" where
  "page_outcome bounded settled =
     (if \<not> bounded then PageDrained else if settled = 0 then PageStalled else PageMore)"

text \<open>The write that ends one run.\<close>

definition recovery_write :: "IncompleteRun \<Rightarrow> RecoveryAction \<Rightarrow> u64 \<Rightarrow> TransitionReason \<Rightarrow> instant \<Rightarrow> RunWrite" where
  "recovery_write entry action sequence reason at =
     (let transition = run_transition_new (st_state (ic_run entry)) (recovery_target_state action) (st_version (ic_run entry))
                         TransitionActor.Supervisor reason at;
          event = \<lparr>ne_run_id = st_id (ic_run entry), ne_sequence = sequence, ne_event_type = terminal_event_for action,
                   ne_payload_json = Some (recovery_payload action (st_state (ic_run entry))),
                   ne_visibility = EventVisibility.Public, ne_occurred_at = at\<rparr> in
      if recovery_target_state action = RunState.Failed
      then (run_write_new transition event)\<lparr>rw_outcome := Some (recovery_error_code action)\<rparr>
      else run_write_new transition event)"

definition report_failure :: "ReconciliationReport \<Rightarrow> RunId \<Rightarrow> string \<Rightarrow> ReconciliationReport" where
  "report_failure report run code = report\<lparr>rn_failures := rn_failures report @ [(run, code)]\<rparr>"

definition count_recovered :: "RecoveryAction \<Rightarrow> RecoverySummary \<Rightarrow> RecoverySummary" where
  "count_recovered action summary =
     (if was_resumable action then summary\<lparr>rs_parked := saturating_add (rs_parked summary) 1\<rparr>
      else summary\<lparr>rs_abandoned := saturating_add (rs_abandoned summary) 1\<rparr>)"

definition recover_run ::
  "(RunStore \<Rightarrow> uuid) \<Rightarrow> instant \<Rightarrow> IncompleteRun \<Rightarrow> ReconciliationReport \<times> RunStore \<Rightarrow> ReconciliationReport \<times> RunStore"
where
  "recover_run fresh at entry rs =
     (case rs of (report, s) \<Rightarrow>
       (let run = st_id (ic_run entry) in
        case classify (st_state (ic_run entry)) of
          None \<Rightarrow> (report, s)
        | Some action \<Rightarrow>
            (case next_event_sequence (ic_workspace_id entry) run s of
               (Err error, s1) \<Rightarrow> (report_failure report run (repository_error_code error), s1)
             | (Ok sequence, s1) \<Rightarrow>
                 (case transition_reason_new (recovery_reason action) of
                    Err _ \<Rightarrow> (report_failure report run ''jarvis.invalid_transition_reason'', s1)
                  | Ok reason \<Rightarrow>
                      (case run_transition (fresh s1) (ic_workspace_id entry) (recovery_write entry action sequence reason at) s1 of
                         (Ok _, s2) \<Rightarrow> (report\<lparr>rn_summary := count_recovered action (rn_summary report)\<rparr>, s2)
                       | (Err error, s2) \<Rightarrow> (report_failure report run (repository_error_code error), s2))))))"

definition recover_page ::
  "(RunStore \<Rightarrow> uuid) \<Rightarrow> instant \<Rightarrow> IncompleteRun list \<Rightarrow> ReconciliationReport \<Rightarrow> RunStore \<Rightarrow> ReconciliationReport \<times> RunStore"
where
  "recover_page fresh at entries report s = fold (recover_run fresh at) entries (report, s)"

section \<open>Progress\<close>

definition live_runs :: "RunStore \<Rightarrow> nat" where
  "live_runs s = length (filter (\<lambda>row. ru_state row \<notin> set TERMINAL_TEXTS) (sr_runs s))"

lemma live_runs_faults: "only_faults s s' \<Longrightarrow> live_runs s' = live_runs s"
  by (drule only_faults_fields) (simp add: live_runs_def)

lemma next_event_sequence_faults: "next_event_sequence ws i s = (r, s') \<Longrightarrow> only_faults s s'"
  by (auto simp: next_event_sequence_def eff_bind_def Let_def dest!: run_exists_faults run_statement_faults
      intro: only_faults_trans split: prod.split_asm sum.split_asm if_split_asm)

lemma recovery_write_fields [simp]:
  "rt_to (rw_transition (recovery_write e a n r at)) = RunState.Failed"
  "rt_occurred_at (rw_transition (recovery_write e a n r at)) = at"
  "ne_run_id (rw_event (recovery_write e a n r at)) = st_id (ic_run e)"
  "rw_outcome (recovery_write e a n r at) = Some ''run.interrupted_by_restart''"
  "rw_waiting (recovery_write e a n r at) = None"
  by (simp_all add: recovery_write_def Let_def run_write_new_def run_transition_new_def recovery_target_state_def
      recovery_error_code_def)


lemma record_transition_runs: "record_transition u ws e s = (Ok r, s') \<Longrightarrow> sr_runs s' = sr_runs s"
  using record_transition_OkD(2) [of u ws e s r s']
  by (auto dest!: sql_insert_event_SomeD only_faults_fields)

lemma transition_to_terminal_progress:
  assumes "run_transition u ws w s = (Ok r, s')" and "run_state_is_terminal (rt_to (rw_transition w))"
  shows "live_runs s' < live_runs s"
proof -
  from assms(1) obtain row current a b where row: "find (run_at ws (ne_run_id (rw_event w))) (sr_runs s) = Some row"
      "stored_run row = Ok current" and a: "only_faults s a" and up: "update_run ws w current a = (Ok (), b)"
      and rec: "record_transition u ws (rw_event w) b = (Ok r, s')"
    by (rule run_transition_OkD)
  define selected where "selected = transition_where ws (ne_run_id (rw_event w)) (uint (st_version current))
                          (run_state_display (st_state current))"
  let ?live = "\<lambda>row. ru_state row \<notin> set TERMINAL_TEXTS"
  have rows: "sr_runs s' = map (\<lambda>row. if selected row then transitioned_row w row else row) (sr_runs s)"
    using update_run_OkD(5) [OF up] record_transition_runs [OF rec] only_faults_fields [OF a]
    by (auto simp: Let_def selected_def dest: only_faults_fields)
  have "selected row"
    unfolding selected_def by (rule read_is_selected [OF row update_run_OkD(1) [OF up]])
  then have "?live row" unfolding selected_def transition_where_def by blast
  moreover have "\<not> ?live (transitioned_row w x)" for x
    using assms(2) terminal_text_iff [of "rt_to (rw_transition w)"] by simp
  ultimately show ?thesis
    unfolding live_runs_def rows using find_SomeD [OF row(1)] \<open>selected row\<close>
    by (intro length_filter_map_less [of _ _ row]) (auto split: if_split_asm)
qed

definition recovered_count :: "ReconciliationReport \<Rightarrow> u64" where
  "recovered_count report = recovery_total (rn_summary report)"

text \<open>One run of a page: its recovery changes nothing, or ends it.\<close>

lemma recover_run_cases:
  assumes "recover_run fresh at e (report, s) = (report', s')"
  obtains "only_faults s s'" and "recovered_count report' = recovered_count report"
    | a u n r t where "only_faults s t" and "classify (st_state (ic_run e)) = Some a"
      and "run_transition u (ic_workspace_id e) (recovery_write e a n (TransitionReason (recovery_reason a)) at) t = (Ok r, s')"
      and "report' = report\<lparr>rn_summary := count_recovered a (rn_summary report)\<rparr>"
  using assms
  by (auto simp: recover_run_def Let_def report_failure_def recovered_count_def recovery_reason_accepted
      dest!: next_event_sequence_faults split: option.split_asm prod.split_asm sum.split_asm)
     (meson only_faults_trans run_transition_ErrD)

lemma recover_run_progress:
  assumes "recover_run fresh at e (report, s) = (report', s')"
  shows "(recovered_count report' = recovered_count report \<and> live_runs s' = live_runs s) \<or> live_runs s' < live_runs s"
  using assms
proof (cases rule: recover_run_cases)
  case 1
  then show ?thesis by (simp add: live_runs_faults)
next
  case (2 a u n r t)
  then show ?thesis using transition_to_terminal_progress [OF 2(3)] by (simp add: live_runs_faults)
qed

lemma recover_page_progress:
  assumes "recover_page fresh at es report s = (report', s')"
  shows "(recovered_count report' = recovered_count report \<and> live_runs s' = live_runs s) \<or> live_runs s' < live_runs s"
  using assms
proof (induction es arbitrary: report s)
  case (Cons e es)
  obtain r1 s1 where 1: "recover_run fresh at e (report, s) = (r1, s1)" by fastforce
  with Cons.prems have "recover_page fresh at es r1 s1 = (report', s')" by (simp add: recover_page_def)
  with Cons.IH [of r1 s1] recover_run_progress [OF 1] show ?case by auto
qed (simp add: recover_page_def)

lemma incomplete_runs_faults: "incomplete_runs tt s = (r, s') \<Longrightarrow> only_faults s s'"
  by (auto simp: incomplete_runs_def Let_def eff_bind_def dest: run_statement_faults
      split: prod.split_asm sum.split_asm)

section \<open>The loop\<close>

lemma run_page_more_progress:
  assumes "incomplete_runs tt s = (Ok page, s1)" and "recover_page fresh at (rp_runs page) report s1 = (report', s2)"
    and "page_outcome b (recovered_count report' - recovered_count report) = PageMore"
  shows "live_runs s2 < live_runs s"
  using recover_page_progress [OF assms(2)] live_runs_faults [OF incomplete_runs_faults [OF assms(1)]] assms(3)
  by (auto simp: page_outcome_def split: if_split_asm)

function reconcile_runs_loop ::
  "(instant \<Rightarrow> string) \<Rightarrow> (RunStore \<Rightarrow> uuid) \<Rightarrow> instant \<Rightarrow> ReconciliationReport \<Rightarrow>
   (RunStore, RepositoryError, ReconciliationReport) eff"
where
  "reconcile_runs_loop time_text fresh at report s =
     (case incomplete_runs time_text s of
        (Err error, s1) \<Rightarrow> (Err error, s1)
      | (Ok page, s1) \<Rightarrow>
          (case recover_page fresh at (rp_runs page) report s1 of
             (report', s2) \<Rightarrow>
               (case page_outcome (rp_bounded page) (recovered_count report' - recovered_count report) of
                  PageDrained \<Rightarrow> (Ok (report'\<lparr>rn_incomplete_store := False\<rparr>), s2)
                | PageMore \<Rightarrow> reconcile_runs_loop time_text fresh at report' s2
                | PageStalled \<Rightarrow> (Ok (report'\<lparr>rn_incomplete_store := True\<rparr>), s2))))"
  by pat_completeness auto
termination
  by (relation "measure (\<lambda>(_, _, _, _, s). live_runs s)")
     (simp_all, metis run_page_more_progress case_prod_conv)

definition reconcile_runs ::
  "(instant \<Rightarrow> string) \<Rightarrow> (RunStore \<Rightarrow> uuid) \<Rightarrow> instant \<Rightarrow> (RunStore, RepositoryError, ReconciliationReport) eff"
where
  "reconcile_runs time_text fresh at =
     reconcile_runs_loop time_text fresh at
       \<lparr>rn_summary = \<lparr>rs_abandoned = 0, rs_parked = 0\<rparr>, rn_failures = [], rn_incomplete_store = False\<rparr>"

declare reconcile_runs_loop.simps [simp del]


section \<open>What becomes of a run\<close>

definition ended_run :: "instant \<Rightarrow> RunRow \<Rightarrow> RunRow" where
  "ended_run at row =
     row\<lparr>ru_state := ''failed'', ru_version := ru_version row + 1, ru_updated_at := at, ru_completed_at := Some at,
         ru_waiting_kind := None, ru_waiting_ref := None, ru_error_code := Some ''run.interrupted_by_restart''\<rparr>"

definition failure_event :: "instant \<Rightarrow> EventRow \<Rightarrow> bool" where
  "failure_event at e \<longleftrightarrow> er_event_type e = ''run.failed'' \<and> er_visibility e = ''public'' \<and> er_occurred_at e = at"

text \<open>The runs named by the new events, and no others, were interrupted and have ended.\<close>

definition runs_recovered :: "instant \<Rightarrow> RunStore \<Rightarrow> EventRow list \<Rightarrow> RunStore \<Rightarrow> bool" where
  "runs_recovered at s new s' \<longleftrightarrow>
     sr_events s' = sr_events s @ new \<and> list_all (failure_event at) new \<and> distinct (map er_run_id new) \<and>
     set (map er_run_id new) \<subseteq> ru_id ` set (filter (is_incomplete s) (sr_runs s)) \<and>
     sr_runs s' = map (\<lambda>row. if ru_id row \<in> set (map er_run_id new) then ended_run at row else row) (sr_runs s) \<and>
     sr_records s' = sr_records s \<and> sr_conversations s' = sr_conversations s \<and> sr_parked s' = sr_parked s"

lemma runs_recovered_none: "only_faults s s' \<Longrightarrow> runs_recovered at s [] s'"
  by (drule only_faults_fields) (simp add: runs_recovered_def)

lemma runs_recovered_faults: "runs_recovered at s new s' \<Longrightarrow> only_faults s' s'' \<Longrightarrow> runs_recovered at s new s''"
  by (drule only_faults_fields) (simp add: runs_recovered_def)

lemma transitioned_is_ended: "transitioned_row (recovery_write e a n r at) row = ended_run at row"
  by (simp add: transitioned_row_def ended_run_def Let_def)

lemma ended_not_incomplete: "\<not> is_incomplete s (ended_run at row)"
  by (simp add: is_incomplete_def ended_run_def TERMINAL_TEXTS_def)

lemma ended_run_id [simp]: "ru_id (ended_run at row) = ru_id row" "ru_workspace_id (ended_run at row) = ru_workspace_id row"
  by (simp_all add: ended_run_def)

definition page_entry :: "RunStore \<Rightarrow> IncompleteRun \<Rightarrow> bool" where
  "page_entry s e \<longleftrightarrow> (\<exists>row \<in> set (sr_runs s). is_incomplete s row \<and> incomplete_run row = Ok e)"

lemma page_entry_row:
  assumes "page_entry s e"
  obtains row where "row \<in> set (sr_runs s)" and "is_incomplete s row" and "stored_run row = Ok (ic_run e)"
    and "ru_id row = st_id (ic_run e)" and "ru_workspace_id row = ic_workspace_id e"
  using assms stored_run_OkD(6,7) by (auto simp: page_entry_def incomplete_run_def and_then_Ok_iff)

lemma transition_ends_run:
  assumes ok: "run_store_ok s0" and rec: "runs_recovered at s0 new s" and page: "page_entry s0 e" and sok: "run_store_ok s"
    and run: "run_transition u (ic_workspace_id e) (recovery_write e a n reason at) s = (Ok r, s')"
  obtains event where "runs_recovered at s0 (new @ [event]) s'"
proof -
  let ?w = "recovery_write e a n reason at"
  let ?i = "st_id (ic_run e)"
  let ?ev = "event_row u (ic_workspace_id e) (uint (ne_sequence (rw_event ?w))) (rw_event ?w)"
  from page obtain row0 where row0: "row0 \<in> set (sr_runs s0)" "is_incomplete s0 row0" "ru_id row0 = ?i"
      "ru_workspace_id row0 = ic_workspace_id e" by (rule page_entry_row)
  from sok have "distinct (map ru_id (sr_runs s))" by (simp add: run_store_ok_def)
  from run_transition_effect [OF this run] obtain row current
    where row: "find (run_at (ic_workspace_id e) ?i) (sr_runs s) = Some row" "stored_run row = Ok current"
      "\<not> run_state_is_terminal (st_state current)"
      and eff: "only_faults (transition_effect u (ic_workspace_id e) ?w s) s'" by (metis recovery_write_fields(3))
  have ev: "failure_event at ?ev" "er_run_id ?ev = ?i"
    by (simp_all add: failure_event_def event_row_def recovery_write_def Let_def run_write_new_def terminal_event_for_def
        recovery_target_state_def)
  have "ru_state row \<notin> set TERMINAL_TEXTS"
    using row(3) stored_run_OkD(1) [OF row(2)] terminal_text_iff [of "st_state current"] by auto
  then have fresh: "?i \<notin> set (map er_run_id new)"
    using find_SomeD [OF row(1)] rec by (auto simp: runs_recovered_def run_at_def ended_run_def TERMINAL_TEXTS_def)
  have here: "run_at (ic_workspace_id e) ?i x \<longleftrightarrow> ru_id x = ?i" if "x \<in> set (sr_runs s)" for x
  proof -
    from that rec obtain x0 where "x0 \<in> set (sr_runs s0)" "ru_id x0 = ru_id x" "ru_workspace_id x0 = ru_workspace_id x"
      by (auto simp: runs_recovered_def)
    with row0 ok show ?thesis by (auto simp: run_at_def run_store_ok_def distinct_map inj_on_def)
  qed
  have "sr_runs s' = map (\<lambda>x. if ru_id x = ?i then ended_run at x else x) (sr_runs s)"
    using only_faults_fields [OF eff] here
    by (auto simp: transition_effect_def transitioned_is_ended)
  also have "\<dots> = map (\<lambda>x. if ru_id x \<in> set (map er_run_id (new @ [?ev])) then ended_run at x else x) (sr_runs s0)"
    using rec fresh ev(2) by (auto simp: runs_recovered_def)
  finally have "runs_recovered at s0 (new @ [?ev]) s'"
    using rec only_faults_fields [OF eff] ev fresh row0
    by (simp add: runs_recovered_def transition_effect_def) (metis (mono_tags, lifting) imageI mem_Collect_eq)
  then show thesis by (rule that)
qed


lemma recover_run_effect:
  assumes "run_store_ok s0" and "runs_recovered at s0 new s" and "page_entry s0 e" and "run_store_ok s"
    and "recover_run fresh at e (report, s) = (report', s')"
  shows "run_store_ok s' \<and> (\<exists>new'. runs_recovered at s0 new' s')"
  using assms(5)
proof (cases rule: recover_run_cases)
  case 1
  then show ?thesis using assms(2,4) run_store_ok_faults runs_recovered_faults by blast
next
  case (2 a u n r t)
  have t: "run_store_ok t" "runs_recovered at s0 new t"
    using assms(2,4) 2(1) run_store_ok_faults runs_recovered_faults by blast+
  have "extends_ok t s'" by (rule advancesD [OF run_transition_extends 2(3)])
  with t(1) have "run_store_ok s'" by (simp add: extends_ok_def)
  moreover obtain event where "runs_recovered at s0 (new @ [event]) s'"
    by (rule transition_ends_run [OF assms(1) t(2) assms(3) t(1) 2(3)])
  ultimately show ?thesis by blast
qed

lemma recover_page_effect:
  assumes "run_store_ok s0" and "runs_recovered at s0 new s" and "list_all (page_entry s0) es" and "run_store_ok s"
    and "recover_page fresh at es report s = (report', s')"
  shows "run_store_ok s' \<and> (\<exists>new'. runs_recovered at s0 new' s')"
  using assms(2-)
proof (induction es arbitrary: report s new)
  case Nil
  then show ?case by (auto simp: recover_page_def)
next
  case (Cons e es)
  obtain r1 s1 where 1: "recover_run fresh at e (report, s) = (r1, s1)" by fastforce
  from Cons.prems(2) have "page_entry s0 e" by simp
  with recover_run_effect [OF assms(1) Cons.prems(1) _ Cons.prems(3) 1]
  obtain new1 where "run_store_ok s1" "runs_recovered at s0 new1 s1" by blast
  moreover from Cons.prems 1 have "recover_page fresh at es r1 s1 = (report', s')" by (simp add: recover_page_def)
  ultimately show ?case using Cons.IH [of new1 s1 r1] Cons.prems(2) by simp
qed

lemma incomplete_runs_OkD:
  assumes "incomplete_runs tt s = (Ok page, s')"
  shows "list_all2 (\<lambda>row e. incomplete_run row = Ok e)
           (take MAX_INCOMPLETE_RUNS (sort_key (\<lambda>row. tt (ru_created_at row)) (filter (is_incomplete s) (sr_runs s)))) (rp_runs page)"
    and "rp_bounded page \<longleftrightarrow> MAX_INCOMPLETE_RUNS < length (filter (is_incomplete s) (sr_runs s))"
proof -
  have same: "is_incomplete t = is_incomplete s" if "only_faults s t" for t
    using only_faults_fields [OF that] by (simp add: is_incomplete_def fun_eq_iff)
  show "list_all2 (\<lambda>row e. incomplete_run row = Ok e)
           (take MAX_INCOMPLETE_RUNS (sort_key (\<lambda>row. tt (ru_created_at row)) (filter (is_incomplete s) (sr_runs s)))) (rp_runs page)"
    and "rp_bounded page \<longleftrightarrow> MAX_INCOMPLETE_RUNS < length (filter (is_incomplete s) (sr_runs s))"
  proof -
    from assms obtain t where t: "run_statement s = (Ok (), t)"
      and page: "list_all2 (\<lambda>row e. incomplete_run row = Ok e) (take MAX_INCOMPLETE_RUNS (take (MAX_INCOMPLETE_RUNS + 1)
            (sort_key (\<lambda>row. tt (ru_created_at row)) (filter (is_incomplete t) (sr_runs t))))) (rp_runs page)"
        "rp_bounded page \<longleftrightarrow> length (take (MAX_INCOMPLETE_RUNS + 1)
            (sort_key (\<lambda>row. tt (ru_created_at row)) (filter (is_incomplete t) (sr_runs t)))) > MAX_INCOMPLETE_RUNS"
      by (auto simp: incomplete_runs_def eff_bind_run Let_def and_then_Ok_iff collect_Ok_iff list_all2_map1)
    note t = run_statement_faults [OF t]
    have rows: "filter (is_incomplete t) (sr_runs t) = filter (is_incomplete s) (sr_runs s)"
      by (simp add: same [OF t] only_faults_fields [OF t])
    show "list_all2 (\<lambda>row e. incomplete_run row = Ok e)
           (take MAX_INCOMPLETE_RUNS (sort_key (\<lambda>row. tt (ru_created_at row)) (filter (is_incomplete s) (sr_runs s)))) (rp_runs page)"
      using page(1) by (simp only: rows take_take min_def) simp
    show "rp_bounded page \<longleftrightarrow> MAX_INCOMPLETE_RUNS < length (filter (is_incomplete s) (sr_runs s))"
      using page(2) by (simp add: rows)
  qed
qed

lemma incomplete_runs_page:
  assumes "incomplete_runs tt s = (Ok page, s')"
  shows "list_all (page_entry s) (rp_runs page)"
  using incomplete_runs_OkD(1) [OF assms]
  by (auto simp: list_all_iff page_entry_def dest!: list_all2_in_set in_set_takeD)

lemma page_entry_faults: "only_faults s s' \<Longrightarrow> page_entry s' e = page_entry s e"
  by (drule only_faults_fields) (simp add: page_entry_def is_incomplete_def)

lemma runs_recovered_trans:
  assumes "runs_recovered at s new s1" and "runs_recovered at s1 new' s2"
  shows "runs_recovered at s (new @ new') s2"
proof -
  let ?ids = "set (map er_run_id new)" and ?ids' = "set (map er_run_id new')"
  have parked: "is_incomplete s1 = is_incomplete s"
    using assms(1) by (simp add: runs_recovered_def is_incomplete_def fun_eq_iff)
  have later: "\<exists>row \<in> set (sr_runs s). is_incomplete s row \<and> ru_id row = i \<and> i \<notin> ?ids" if "i \<in> ?ids'" for i
  proof -
    from that assms(2) obtain row1 where "row1 \<in> set (sr_runs s1)" "is_incomplete s row1" "ru_id row1 = i"
      by (auto simp: runs_recovered_def parked)
    with assms(1) show ?thesis by (auto simp: runs_recovered_def ended_not_incomplete split: if_split_asm)
  qed
  then have "?ids \<inter> ?ids' = {}" by auto
  moreover have "sr_runs s2 =
      map (\<lambda>row. if ru_id row \<in> set (map er_run_id (new @ new')) then ended_run at row else row) (sr_runs s)"
  proof -
    have "sr_runs s1 = map (\<lambda>row. if ru_id row \<in> ?ids then ended_run at row else row) (sr_runs s)"
      and "sr_runs s2 = map (\<lambda>row. if ru_id row \<in> ?ids' then ended_run at row else row) (sr_runs s1)"
      using assms unfolding runs_recovered_def by blast+
    then show ?thesis using \<open>?ids \<inter> ?ids' = {}\<close>
      by (simp only: list.map_comp) (rule map_cong [OF refl], auto)
  qed
  moreover have "set (map er_run_id (new @ new')) \<subseteq> ru_id ` set (filter (is_incomplete s) (sr_runs s))"
  proof -
    have "?ids \<subseteq> ru_id ` set (filter (is_incomplete s) (sr_runs s))"
      using assms(1) unfolding runs_recovered_def by blast
    moreover have "i \<in> ru_id ` set (filter (is_incomplete s) (sr_runs s))" if "i \<in> ?ids'" for i
      using later [OF that] by auto
    ultimately show ?thesis by (simp only: map_append set_append) blast
  qed
  ultimately show ?thesis using assms by (simp add: runs_recovered_def)
qed

lemma reconcile_runs_loop_effect:
  assumes "run_store_ok s" and "reconcile_runs_loop tt fresh at report s = (res, s')"
  shows "\<exists>new. runs_recovered at s new s'"
  using assms
proof (induction tt fresh at report s rule: reconcile_runs_loop.induct)
  case (1 tt fresh at report s)
  obtain q s1 where scan: "incomplete_runs tt s = (q, s1)" by fastforce
  note f1 = incomplete_runs_faults [OF scan]
  show ?case
  proof (cases q)
    case (Inl e)
    with scan 1(3) show ?thesis
      using runs_recovered_none [OF f1] by (auto simp: reconcile_runs_loop.simps [of tt fresh at report s])
  next
    case (Inr page)
    obtain rep2 s2 where pg: "recover_page fresh at (rp_runs page) report s1 = (rep2, s2)" by fastforce
    have "list_all (page_entry s1) (rp_runs page)"
      using incomplete_runs_page [OF scan [unfolded Inr]] page_entry_faults [OF f1] by (simp add: list_all_iff)
    moreover have ok1: "run_store_ok s1" using 1(2) run_store_ok_faults [OF f1] by simp
    ultimately obtain new where ok2: "run_store_ok s2" and eff: "runs_recovered at s1 new s2"
      using recover_page_effect [OF ok1 runs_recovered_none [OF only_faults_refl] _ ok1 pg] by blast
    then have here: "runs_recovered at s new s2"
      using runs_recovered_trans [OF runs_recovered_none [OF f1] eff] by simp
    show ?thesis
    proof (cases "page_outcome (rp_bounded page) (recovered_count rep2 - recovered_count report)")
      case PageMore
      with 1(3) scan Inr pg have "reconcile_runs_loop tt fresh at rep2 s2 = (res, s')"
        by (simp add: reconcile_runs_loop.simps [of tt fresh at report s])
      then show ?thesis
        using 1(1) [OF scan [unfolded Inr, symmetric]] PageMore ok2 pg scan Inr here runs_recovered_trans by metis
    qed (use 1(3) scan Inr pg here in \<open>auto simp: reconcile_runs_loop.simps [of tt fresh at report s]\<close>)
  qed
qed


section \<open>A store that answers\<close>

text \<open>No statement fails, the identifiers made for stores of fewer than \<open>N\<close> events are new and \<open>N\<close> is enough for
  one event more per run, and every interrupted run decodes and has room for one more version and one
  more event.\<close>

definition recoverable :: "nat \<Rightarrow> (RunStore \<Rightarrow> uuid) \<Rightarrow> RunStore \<Rightarrow> bool" where
  "recoverable N fresh s \<longleftrightarrow>
     sr_faults s = [] \<and> run_store_ok s \<and> (\<forall>t. length (sr_events t) < N \<longrightarrow> fresh t \<notin> er_id ` set (sr_events t)) \<and>
     length (sr_events s) + live_runs s \<le> N \<and>
     (\<forall>row \<in> set (sr_runs s). is_incomplete s row \<longrightarrow>
        is_ok (stored_run row) \<and> ru_version row < 2 ^ 63 - 1 \<and>
        (\<forall>e \<in> set (sr_events s). er_run_id e = ru_id row \<longrightarrow> er_sequence e < 2 ^ 63 - 1))"

lemma run_statement_quiet [simp]: "sr_faults s = [] \<Longrightarrow> run_statement s = (Ok (), s)"
  by (simp add: run_statement_def)

lemma fold_max_ge: "(x :: int) \<le> fold max xs x" "y \<in> set xs \<Longrightarrow> (y :: int) \<le> fold max xs x"
  by (simp_all add: Max.set_eq_fold [symmetric])

lemma fold_max_in: "fold max xs (x :: int) \<in> insert x (set xs)"
  by (metis Max.set_eq_fold Max_in List.finite_set list.simps(15) empty_not_insert)

lemma next_event_sequence_quiet:
  assumes "sr_faults s = []" and "list_ex (run_at ws i) (sr_runs s)"
    and "\<And>e. e \<in> set (sr_events s) \<Longrightarrow> er_run_id e = i \<Longrightarrow> 1 \<le> er_sequence e \<and> er_sequence e < 2 ^ 63 - 1"
  obtains n where "next_event_sequence ws i s = (Ok (word_of_int n), s)" and "1 \<le> n" and "n < 2 ^ 63"
    and "\<And>e. e \<in> set (sr_events s) \<Longrightarrow> er_run_id e = i \<Longrightarrow> er_sequence e \<noteq> n"
proof -
  define seqs where "seqs = map er_sequence (filter (\<lambda>r. er_run_id r = i) (sr_events s))"
  have in_seqs: "er_sequence e \<in> set seqs" if "e \<in> set (sr_events s)" "er_run_id e = i" for e
    using that by (simp add: seqs_def)
  have range: "1 \<le> q \<and> q < 2 ^ 63 - 1" if "q \<in> set seqs" for q
    using that assms(3) by (auto simp: seqs_def)
  have "run_exists ws i s = (Ok (), s)" using assms(1,2) by (simp add: run_exists_def)
  then have step: "next_event_sequence ws i s =
      (let n = (case seqs of [] \<Rightarrow> 1 | x # xs \<Rightarrow> min (fold max xs x + 1) (2 ^ 63 - 1)) in
       (if n < 0 then Err (Corrupted ''sequence'') else Ok (word_of_int n), s))"
    using assms(1) by (simp add: next_event_sequence_def max_sequence_def seqs_def [symmetric] split: list.split)
  show thesis
  proof (cases seqs)
    case Nil
    with step in_seqs show thesis by (intro that [of 1]) auto
  next
    case (Cons x xs)
    let ?m = "fold max xs x"
    have m: "1 \<le> ?m \<and> ?m < 2 ^ 63 - 1" using fold_max_in [of xs x] range [of ?m] Cons by auto
    have "er_sequence e \<noteq> ?m + 1" if "e \<in> set (sr_events s)" "er_run_id e = i" for e
      using in_seqs [OF that] fold_max_ge(1) [of x xs] fold_max_ge(2) [of "er_sequence e" xs x] Cons by auto
    with m step Cons show thesis by (intro that [of "?m + 1"]) (simp_all add: min_def)
  qed
qed

lemma run_transition_quiet:
  assumes "sr_faults s = []" and "distinct (map ru_id (sr_runs s))" and "write_is_consistent w"
    and row: "find (run_at ws (ne_run_id (rw_event w))) (sr_runs s) = Some row" "stored_run row = Ok current"
    and ok: "\<not> run_state_is_terminal (st_state current)" "st_version current = rt_expected_version (rw_transition w)"
      "run_can_transition_to (st_state current) (rt_to (rw_transition w))"
    and after: "run_row_check (transitioned_row w row)" "stored_run (transitioned_row w row) = Ok r"
    and seq: "unat (ne_sequence (rw_event w)) < 2 ^ 63"
    and ins: "sql_insert_event (event_row u ws (uint (ne_sequence (rw_event w))) (rw_event w))
           (transition_effect u ws w s\<lparr>sr_events := sr_events s\<rparr>) = Some (transition_effect u ws w s)"
  shows "run_transition u ws w s = (Ok r, transition_effect u ws w s)"
proof -
  let ?i = "ne_run_id (rw_event w)"
  let ?mid = "transition_effect u ws w s\<lparr>sr_events := sr_events s\<rparr>"
  note before = stored_run_OkD [OF row(2)]
  note sel = selected_is_read [OF assms(2) row ok(1)]
  have v: "u64_to_i64 c (st_version current) = Ok (uint (st_version current))" for c
  proof -
    have "uint (st_version current) = ru_version row"
      using before(2-4) by (simp add: uint_word_of_int_eq take_bit_int_eq_self)
    with before(4) have "unat (st_version current) < 2 ^ 63" by (simp add: unat_eq_nat_uint nat_less_iff)
    then show ?thesis by (simp add: u64_to_i64_def)
  qed
  have one: "x = row" if "x \<in> set (sr_runs s)" "run_at ws ?i x" for x
    by (rule find_run_unique [OF assms(2) row(1) that])
  have up: "update_run ws w current s = (Ok (), ?mid)"
  proof -
    have "filter (transition_where ws ?i (uint (st_version current)) (run_state_display (st_state current))) (sr_runs s) \<noteq> []"
      using read_is_selected [OF row ok(1)] find_SomeD [OF row(1)] by (auto simp: filter_empty_conv)
    moreover have "map (\<lambda>x. if transition_where ws ?i (uint (st_version current)) (run_state_display (st_state current)) x
        then transitioned_row w x else x) (sr_runs s) = sr_runs ?mid"
      using sel by (auto simp: transition_effect_def)
    moreover have "\<not> list_ex (\<lambda>x. transition_where ws ?i (uint (st_version current)) (run_state_display (st_state current)) x \<and>
        \<not> run_row_check (transitioned_row w x)) (sr_runs s)"
      using sel one after(1) by (auto simp: list_ex_iff)
    moreover have "s\<lparr>sr_runs := sr_runs ?mid\<rparr> = ?mid" by (simp add: transition_effect_def)
    ultimately show ?thesis
      using ok v [of "''version''"] assms(1)
      by (simp add: update_run_def Let_def sql_update_def del: run_state_is_terminal_def)
  qed
  have "find (run_at ws ?i) (sr_runs (transition_effect u ws w s)) = Some (transitioned_row w row)"
    using row(1) find_SomeD [OF row(1)] by (simp add: transition_effect_def find_map_same)
  then have "record_transition u ws (rw_event w) ?mid = (Ok r, transition_effect u ws w s)"
    using seq ins after(2) assms(1)
    by (simp add: record_transition_def u64_to_i64_def run_execute_def eff_try_def read_run_def transition_effect_def)
  with up row assms(1,3) show ?thesis
    by (simp add: run_transition_def run_transaction_def read_run_def)
qed


definition report_counts :: "ReconciliationReport \<Rightarrow> nat" where
  "report_counts report = unat (rs_abandoned (rn_summary report)) + unat (rs_parked (rn_summary report))"

lemma report_counts_recovered:
  assumes "report_counts report < 2 ^ 64 - 1"
  shows "report_counts (report\<lparr>rn_summary := count_recovered a (rn_summary report)\<rparr>) = Suc (report_counts report)"
  using assms by (simp add: report_counts_def count_recovered_def saturating_add_def unat_word_ariths)

lemma recovered_count_counts: "report_counts report < 2 ^ 64 \<Longrightarrow> unat (recovered_count report) = report_counts report"
  by (simp add: report_counts_def recovered_count_def recovery_total_def unat_word_ariths)

text \<open>The write of the recovery is one the store accepts.\<close>

lemma stored_run_ended:
  assumes "stored_run row = Ok r" and "ru_version row < 2 ^ 63 - 1"
  shows "is_ok (stored_run (ended_run at row))"
proof -
  have "run_parse_state ''failed'' = Ok RunState.Failed" by (simp add: run_parse_state_def run_state_all_def)
  with assms show ?thesis
    by (auto simp: stored_run_def ended_run_def is_ok_iff and_then_Ok_iff split: if_split_asm)
qed

lemma recovery_write_consistent: "write_is_consistent (recovery_write e a n reason at)"
  by (simp add: write_is_consistent_def)

lemma recovery_write_event:
  "ne_sequence (rw_event (recovery_write e a n reason at)) = n"
  "rt_expected_version (rw_transition (recovery_write e a n reason at)) = st_version (ic_run e)"
  by (simp_all add: recovery_write_def Let_def run_write_new_def run_transition_new_def recovery_target_state_def)

lemma ended_run_check: "run_row_check row \<Longrightarrow> run_row_check (ended_run at row)"
  by (simp add: run_row_check_def ended_run_def run_state_all_def TERMINAL_TEXTS_def)

lemma recoverable_recovered:
  assumes "recoverable N fresh s" and "runs_recovered at s new s'" and "sr_faults s' = []" and "run_store_ok s'"
    and "length (sr_events s') + live_runs s' \<le> N"
  shows "recoverable N fresh s'"
proof -
  have inc: "is_incomplete s' = is_incomplete s"
    using assms(2) by (simp add: runs_recovered_def is_incomplete_def fun_eq_iff)
  have "is_ok (stored_run row) \<and> ru_version row < 2 ^ 63 - 1 \<and>
      (\<forall>e \<in> set (sr_events s'). er_run_id e = ru_id row \<longrightarrow> er_sequence e < 2 ^ 63 - 1)"
    if "row \<in> set (sr_runs s')" "is_incomplete s row" for row
  proof -
    from that assms(2) have "row \<in> set (sr_runs s)" "ru_id row \<notin> set (map er_run_id new)"
      by (auto simp: runs_recovered_def ended_not_incomplete)
    moreover have "set (sr_events s') = set (sr_events s) \<union> set new" using assms(2) by (simp add: runs_recovered_def)
    ultimately show ?thesis using assms(1) that(2) by (force simp: recoverable_def)
  qed
  with assms show ?thesis by (simp add: recoverable_def inc)
qed

lemma recover_run_quiet:
  assumes "recoverable N fresh s" and row: "row \<in> set (sr_runs s)" "is_incomplete s row" "incomplete_run row = Ok e"
    and run: "recover_run fresh at e (report, s) = (report', s')"
  obtains a event where "report' = report\<lparr>rn_summary := count_recovered a (rn_summary report)\<rparr>"
    and "recoverable N fresh s'" and "runs_recovered at s [event] s'" and "er_run_id event = ru_id row"
proof -
  have ok: "run_store_ok s" and quiet: "sr_faults s = []" and small: "ru_version row < 2 ^ 63 - 1"
    and evs: "\<And>x. x \<in> set (sr_events s) \<Longrightarrow> er_run_id x = ru_id row \<Longrightarrow> er_sequence x < 2 ^ 63 - 1"
    using assms(1) row by (auto simp: recoverable_def)
  have "row \<in> set (filter (\<lambda>row. ru_state row \<notin> set TERMINAL_TEXTS) (sr_runs s))"
    using row by (auto simp: is_incomplete_def)
  then have "0 < live_runs s" unfolding live_runs_def by (rule length_pos_if_in_set)
  then have new: "fresh s \<notin> er_id ` set (sr_events s)" using assms(1) by (auto simp: recoverable_def)
  have cur: "stored_run row = Ok (ic_run e)" and ids: "st_id (ic_run e) = ru_id row" "ic_workspace_id e = ru_workspace_id row"
    using row(3) stored_run_OkD(6,7) by (auto simp: incomplete_run_def and_then_Ok_iff)
  have dist: "distinct (map ru_id (sr_runs s))" and chk: "run_row_check row"
    using ok row(1) by (auto simp: run_store_ok_def list_all_iff)
  let ?ws = "ru_workspace_id row" and ?i = "ru_id row"
  have find: "find (run_at ?ws ?i) (sr_runs s) = Some row"
  proof (cases "find (run_at ?ws ?i) (sr_runs s)")
    case None
    with row(1) show ?thesis by (auto simp: find_None_iff run_at_def)
  next
    case (Some x)
    from find_run_unique [OF dist this row(1)] Some show ?thesis by (simp add: run_at_def)
  qed
  have seqs: "1 \<le> er_sequence x \<and> er_sequence x < 2 ^ 63 - 1" if "x \<in> set (sr_events s)" "er_run_id x = ?i" for x
    using that ok evs by (simp add: run_store_ok_def list_all_iff)
  have "list_ex (run_at ?ws ?i) (sr_runs s)" using row(1) by (auto simp: list_ex_iff run_at_def)
  with seqs obtain n where n: "next_event_sequence ?ws ?i s = (Ok (word_of_int n), s)" "1 \<le> n" "n < 2 ^ 63"
      "\<And>x. x \<in> set (sr_events s) \<Longrightarrow> er_run_id x = ?i \<Longrightarrow> er_sequence x \<noteq> n"
    using next_event_sequence_quiet [OF quiet] by metis
  have live: "\<not> run_state_is_terminal (st_state (ic_run e))"
    using row(2) stored_run_OkD(1) [OF cur] terminal_text_iff [of "st_state (ic_run e)"] by (simp add: is_incomplete_def)
  then obtain a where a: "classify (st_state (ic_run e)) = Some a"
    using classify_None_iff [of "st_state (ic_run e)"] by (cases "classify (st_state (ic_run e))") auto
  let ?w = "recovery_write e a (word_of_int n) (TransitionReason (recovery_reason a)) at"
  let ?ev = "event_row (fresh s) ?ws (uint (ne_sequence (rw_event ?w))) (rw_event ?w)"
  have un: "uint (word_of_int n :: u64) = n" using n(2,3) by (simp add: uint_word_of_int_eq take_bit_int_eq_self)
  obtain r where r: "stored_run (transitioned_row ?w row) = Ok r"
    using stored_run_ended [OF cur small] by (auto simp: transitioned_is_ended is_ok_iff)
  have ev: "er_run_id ?ev = ?i" "er_sequence ?ev = n" "er_id ?ev = fresh s"
    by (simp_all add: event_row_def recovery_write_event un ids)
  have ins: "sql_insert_event ?ev (transition_effect (fresh s) ?ws ?w s\<lparr>sr_events := sr_events s\<rparr>) =
      Some (transition_effect (fresh s) ?ws ?w s)"
  proof -
    have "map ru_id (sr_runs (transition_effect (fresh s) ?ws ?w s)) = map ru_id (sr_runs s)"
      by (simp add: transition_effect_def)
    then have "list_ex (\<lambda>r. ru_id r = ?i) (sr_runs (transition_effect (fresh s) ?ws ?w s))"
      unfolding list_ex_key using row(1) by (metis image_eqI image_set)
    moreover have "\<not> list_ex (\<lambda>r. er_id r = fresh s \<or> er_run_id r = ?i \<and> er_sequence r = n) (sr_events s)"
      using new n(4) by (auto simp: list_ex_iff image_iff)
    ultimately show ?thesis
      using n(2) by (simp add: sql_insert_event_def ev) (simp add: transition_effect_def)
  qed
  have "run_transition (fresh s) ?ws ?w s = (Ok r, transition_effect (fresh s) ?ws ?w s)"
    by (rule run_transition_quiet [OF quiet dist recovery_write_consistent _ cur live _ _ _ r _ ins])
       (use find ids live live_can_fail [OF live] chk n(3) un in \<open>simp_all add: recovery_write_event transitioned_is_ended
          ended_run_check unat_eq_nat_uint nat_less_iff del: run_state_is_terminal_def\<close>)
  with run a n(1) ids have res: "s' = transition_effect (fresh s) ?ws ?w s"
      "report' = report\<lparr>rn_summary := count_recovered a (rn_summary report)\<rparr>"
    and tr: "run_transition (fresh s) (ic_workspace_id e) ?w s = (Ok r, s')"
    by (auto simp: recover_run_def Let_def recovery_reason_accepted)
  have page: "page_entry s e" using row by (auto simp: page_entry_def)
  obtain event where event: "runs_recovered at s ([] @ [event]) s'"
    by (rule transition_ends_run [OF ok runs_recovered_none [OF only_faults_refl] page ok tr])
  have "event = ?ev" using event res(1) by (simp add: runs_recovered_def transition_effect_def)
  have "run_store_ok s'"
    using advancesD [OF run_transition_extends tr] ok by (simp add: extends_ok_def)
  moreover have "sr_faults s' = []" using quiet res(1) by (simp add: transition_effect_def)
  moreover have "length (sr_events s') + live_runs s' \<le> N"
    using transition_to_terminal_progress [OF tr] assms(1) event by (auto simp: runs_recovered_def recoverable_def)
  ultimately have "recoverable N fresh s'"
    using recoverable_recovered [OF assms(1)] event by simp
  with that [of a event] res(2) event \<open>event = ?ev\<close> ev(1) show thesis by simp
qed


lemma recover_page_quiet:
  assumes "recoverable N fresh s" and "list_all2 (\<lambda>row e. incomplete_run row = Ok e) rows es"
    and "distinct (map ru_id rows)" and "set rows \<subseteq> set (filter (is_incomplete s) (sr_runs s))"
    and "report_counts report + length rows < 2 ^ 64" and "recover_page fresh at es report s = (report', s')"
  shows "\<exists>new. runs_recovered at s new s' \<and> map er_run_id new = map ru_id rows \<and> recoverable N fresh s' \<and>
           rn_failures report' = rn_failures report \<and> report_counts report' = report_counts report + length rows"
  using assms(2,1,3-)
proof (induction arbitrary: s report rule: list_all2_induct)
  case Nil
  then show ?case by (intro exI [of _ "[]"]) (simp add: recover_page_def runs_recovered_none)
next
  case (Cons row rows e es)
  obtain r1 s1 where 1: "recover_run fresh at e (report, s) = (r1, s1)" by fastforce
  have row: "row \<in> set (sr_runs s)" "is_incomplete s row" using Cons.prems by auto
  from recover_run_quiet [OF Cons.prems(1) row Cons.hyps(1) 1] obtain a event
    where r1: "r1 = report\<lparr>rn_summary := count_recovered a (rn_summary report)\<rparr>" and ok1: "recoverable N fresh s1"
      and rec1: "runs_recovered at s [event] s1" and ev: "er_run_id event = ru_id row" by metis
  have counts: "report_counts r1 = Suc (report_counts report)" "rn_failures r1 = rn_failures report"
    using Cons.prems(4) report_counts_recovered [of report a] by (simp_all add: r1)
  have same: "is_incomplete s1 = is_incomplete s"
    using rec1 by (simp add: runs_recovered_def is_incomplete_def fun_eq_iff)
  have sub: "set rows \<subseteq> set (filter (is_incomplete s1) (sr_runs s1))"
  proof
    fix x assume x: "x \<in> set rows"
    with Cons.prems(2) have "ru_id x \<noteq> ru_id row" by (auto simp: image_iff)
    moreover from x Cons.prems(3) have "x \<in> set (sr_runs s)" "is_incomplete s x" by auto
    ultimately show "x \<in> set (filter (is_incomplete s1) (sr_runs s1))"
      using rec1 ev by (force simp: runs_recovered_def same)
  qed
  have rest: "recover_page fresh at es r1 s1 = (report', s')" using Cons.prems(5) 1 by (simp add: recover_page_def)
  have room: "report_counts r1 + length rows < 2 ^ 64" using Cons.prems(4) counts(1) by simp
  have "distinct (map ru_id rows)" using Cons.prems(2) by simp
  from Cons.IH [OF ok1 this sub room rest] obtain new where "runs_recovered at s1 new s'" "map er_run_id new = map ru_id rows" "recoverable N fresh s'"
      "rn_failures report' = rn_failures r1" "report_counts report' = report_counts r1 + length rows"
    by blast
  then show ?case
    using runs_recovered_trans [OF rec1] ev counts by (intro exI [of _ "event # new"]) simp
qed

lemma incomplete_after:
  assumes "runs_recovered at s new s'"
  shows "filter (is_incomplete s') (sr_runs s') =
           filter (\<lambda>row. ru_id row \<notin> set (map er_run_id new)) (filter (is_incomplete s) (sr_runs s))"
proof -
  have "is_incomplete s' = is_incomplete s"
    using assms by (simp add: runs_recovered_def is_incomplete_def fun_eq_iff)
  moreover have "sr_runs s' = map (\<lambda>row. if ru_id row \<in> set (map er_run_id new) then ended_run at row else row) (sr_runs s)"
    using assms by (simp add: runs_recovered_def)
  moreover have "filter (is_incomplete s) (map (\<lambda>row. if ru_id row \<in> N then ended_run at row else row) rows) =
      filter (\<lambda>row. ru_id row \<notin> N) (filter (is_incomplete s) rows)" for N rows
    by (induction rows) (auto simp: ended_not_incomplete)
  ultimately show ?thesis by simp
qed

lemma incomplete_runs_quiet:
  assumes "recoverable N fresh s"
  obtains page where "incomplete_runs tt s = (Ok page, s)"
proof -
  let ?rows = "take MAX_INCOMPLETE_RUNS (take (MAX_INCOMPLETE_RUNS + 1)
      (sort_key (\<lambda>row. tt (ru_created_at row)) (filter (is_incomplete s) (sr_runs s))))"
  have "is_ok (incomplete_run row)" if "row \<in> set ?rows" for row
    using that assms by (force simp: recoverable_def incomplete_run_def is_ok_iff dest!: in_set_takeD)
  then have "\<exists>xs. collect (map incomplete_run rows) = Ok xs" if "set rows \<subseteq> set ?rows" for rows
    using that by (induction rows) (force simp: is_ok_iff)+
  then obtain xs where "collect (map incomplete_run ?rows) = Ok xs" by blast
  then show thesis
    using assms that by (simp add: recoverable_def incomplete_runs_def Let_def)
qed


text \<open>One page of a store that answers: everything on it is ended.\<close>

lemma page_quiet:
  assumes "recoverable N fresh s" and "incomplete_runs tt s = (Ok page, s)"
    and "report_counts report + length (filter (is_incomplete s) (sr_runs s)) < 2 ^ 64"
    and "recover_page fresh at (rp_runs page) report s = (report', s')"
  shows "recoverable N fresh s'" and "rn_failures report' = rn_failures report"
    and "report_counts report' = report_counts report + min MAX_INCOMPLETE_RUNS (length (filter (is_incomplete s) (sr_runs s)))"
    and "length (filter (is_incomplete s') (sr_runs s')) =
           length (filter (is_incomplete s) (sr_runs s)) - MAX_INCOMPLETE_RUNS"
proof -
  let ?inc = "filter (is_incomplete s) (sr_runs s)"
  define rows where "rows = take MAX_INCOMPLETE_RUNS (sort_key (\<lambda>row. tt (ru_created_at row)) ?inc)"
  have "distinct (map ru_id (sr_runs s))" using assms(1) by (simp add: recoverable_def run_store_ok_def)
  then have inj: "inj_on ru_id (set (sr_runs s))" and dist: "distinct (sr_runs s)" by (simp_all add: distinct_map)
  have sub: "set rows \<subseteq> set ?inc" unfolding rows_def by (auto dest!: in_set_takeD)
  have rows: "distinct rows" "distinct (map ru_id rows)"
    using dist inj sub by (auto simp: rows_def distinct_map intro: inj_on_subset)
  have len: "length rows = min MAX_INCOMPLETE_RUNS (length ?inc)" by (simp add: rows_def min.commute)
  have room: "report_counts report + length rows < 2 ^ 64" using assms(3) len by linarith
  from recover_page_quiet [OF assms(1) incomplete_runs_OkD(1) [OF assms(2), folded rows_def] rows(2) sub room assms(4)]
  obtain new where new: "runs_recovered at s new s'" "map er_run_id new = map ru_id rows" "recoverable N fresh s'"
      "rn_failures report' = rn_failures report" "report_counts report' = report_counts report + length rows"
    by blast
  show "recoverable N fresh s'" "rn_failures report' = rn_failures report"
    "report_counts report' = report_counts report + min MAX_INCOMPLETE_RUNS (length ?inc)"
    using new len by simp_all
  have "filter (is_incomplete s') (sr_runs s') = filter (\<lambda>row. row \<notin> set rows) ?inc"
    unfolding incomplete_after [OF new(1)] new(2)
    by (rule filter_cong) (use inj sub in \<open>auto dest: inj_onD\<close>)
  then show "length (filter (is_incomplete s') (sr_runs s')) = length ?inc - MAX_INCOMPLETE_RUNS"
    using length_filter_notin [OF _ rows(1) sub] dist len by simp
qed

lemma reconcile_runs_loop_quiet:
  assumes "recoverable N fresh s" and "report_counts report + length (filter (is_incomplete s) (sr_runs s)) < 2 ^ 64"
  shows "\<exists>report' s'. reconcile_runs_loop tt fresh at report s = (Ok report', s') \<and>
           rn_failures report' = rn_failures report \<and> \<not> rn_incomplete_store report' \<and>
           report_counts report' = report_counts report + length (filter (is_incomplete s) (sr_runs s)) \<and>
           filter (is_incomplete s') (sr_runs s') = []"
  using assms
proof (induction "length (filter (is_incomplete s) (sr_runs s))" arbitrary: report s rule: less_induct)
  case less
  let ?inc = "filter (is_incomplete s) (sr_runs s)"
  obtain page where scan: "incomplete_runs tt s = (Ok page, s)" by (rule incomplete_runs_quiet [OF less.prems(1)])
  obtain rep1 s1 where pg: "recover_page fresh at (rp_runs page) report s = (rep1, s1)" by fastforce
  note q = page_quiet [OF less.prems(1) scan less.prems(2) pg]
  have bounded: "rp_bounded page \<longleftrightarrow> MAX_INCOMPLETE_RUNS < length ?inc" by (rule incomplete_runs_OkD(2) [OF scan])
  show ?case
  proof (cases "rp_bounded page")
    case False
    then have "reconcile_runs_loop tt fresh at report s = (Ok (rep1\<lparr>rn_incomplete_store := False\<rparr>), s1)"
      using scan pg by (simp add: reconcile_runs_loop.simps [of tt fresh at report s] page_outcome_def)
    with q False bounded show ?thesis by (simp add: report_counts_def)
  next
    case True
    have "recovered_count rep1 \<noteq> recovered_count report"
      using q(3) True bounded less.prems(2) recovered_count_counts [of rep1] recovered_count_counts [of report]
      by (auto simp: MAX_INCOMPLETE_RUNS_def)
    then have "reconcile_runs_loop tt fresh at report s = reconcile_runs_loop tt fresh at rep1 s1"
      using scan pg True by (simp add: reconcile_runs_loop.simps [of tt fresh at report s] page_outcome_def)
    moreover have "length (filter (is_incomplete s1) (sr_runs s1)) < length ?inc"
      "report_counts rep1 + length (filter (is_incomplete s1) (sr_runs s1)) = report_counts report + length ?inc"
      using q(3,4) True bounded by (simp_all add: MAX_INCOMPLETE_RUNS_def)
    ultimately show ?thesis using less.hyps [OF _ q(1), of rep1] q(2) less.prems(2) by simp
  qed
qed

section \<open>Properties\<close>

text \<open>Startup recovery touches only interrupted runs, whatever the database answers. There is one public
  \<open>run.failed\<close> event per run the pass ended and no other new event; each of these runs had not ended and was
  not parked on an approval it can resume from, and is now failed at the instant of the pass with the code
  of an interruption; every other run, the idempotency records and the parked runs are as before.\<close>

theorem restart_ends_only_interrupted_runs:
  assumes "run_store_ok s" and "reconcile_runs tt fresh at s = (answer, s')"
  shows "\<exists>new. runs_recovered at s new s'"
  using reconcile_runs_loop_effect [OF assms(1)] assms(2) by (simp add: reconcile_runs_def)

text \<open>C14: Startup recovery leaves no run behind: in a store whose statements all run and whose interrupted runs
  decode, the pass succeeds, reports itself complete and counts exactly the interrupted runs, however
  many pages they fill, and afterwards no run is interrupted.\<close>

theorem restart_ends_every_interrupted_run:
  assumes "recoverable N fresh s" and "length (sr_runs s) < 2 ^ 64"
  shows "\<exists>report s'. reconcile_runs tt fresh at s = (Ok report, s') \<and> reconciliation_is_complete report \<and>
    unat (recovery_total (rn_summary report)) = length (filter (is_incomplete s) (sr_runs s)) \<and>
    filter (is_incomplete s') (sr_runs s') = []"
proof -
  let ?start = "\<lparr>rn_summary = \<lparr>rs_abandoned = 0, rs_parked = 0\<rparr>, rn_failures = [], rn_incomplete_store = False\<rparr>"
  let ?n = "length (filter (is_incomplete s) (sr_runs s))"
  have n: "?n < 2 ^ 64" using assms(2) length_filter_le [of "is_incomplete s" "sr_runs s"] by linarith
  have 0: "report_counts ?start = 0" by (simp add: report_counts_def)
  obtain report s' where run: "reconcile_runs_loop tt fresh at ?start s = (Ok report, s')" "rn_failures report = []"
      "\<not> rn_incomplete_store report" "report_counts report = ?n" "filter (is_incomplete s') (sr_runs s') = []"
    using reconcile_runs_loop_quiet [OF assms(1), of ?start tt at] n 0 by auto
  then have "unat (recovery_total (rn_summary report)) = ?n"
    using n recovered_count_counts [of report] by (simp add: recovered_count_def)
  with run show ?thesis by (auto simp: reconcile_runs_def reconciliation_is_complete_def)
qed


section \<open>Witnesses\<close>

text \<open>The first number that is not yet an identifier.\<close>

definition first_unused :: "uuid list \<Rightarrow> uuid" where
  "first_unused ids = hd (filter (\<lambda>u. u \<notin> set ids) (map of_nat [0..<Suc (length ids)]))"

lemma first_unused_new:
  assumes "length ids < 2 ^ 128"
  shows "first_unused ids \<notin> set ids"
proof -
  let ?new = "filter (\<lambda>u. u \<notin> set ids) (map of_nat [0..<Suc (length ids)])"
  have un: "unat (of_nat i :: uuid) = i" if "i < Suc (length ids)" for i
    using that assms by (simp add: unat_of_nat)
  have "inj_on (of_nat :: nat \<Rightarrow> uuid) {0..<Suc (length ids)}"
    by (rule inj_onI) (metis atLeastLessThan_iff un)
  then have "card (of_nat ` {0..<Suc (length ids)} :: uuid set) = Suc (length ids)"
    by (simp add: card_image del: upt_Suc)
  moreover have "card (set ids) \<le> length ids" by (rule card_length)
  ultimately have "\<not> of_nat ` {0..<Suc (length ids)} \<subseteq> set ids"
    using card_mono [of "set ids" "of_nat ` {0..<Suc (length ids)}"] by auto
  then have "?new \<noteq> []" by (auto simp: filter_empty_conv simp del: upt_Suc)
  then have "hd ?new \<in> set ?new" by (rule hd_in_set)
  then show ?thesis by (simp add: first_unused_def del: upt_Suc)
qed

definition new_identifier :: "RunStore \<Rightarrow> uuid" where
  "new_identifier s = first_unused (map er_id (sr_events s))"

lemma sample_created_row: "sr_runs sample_created = [new_run_row sample_new_run]" "sr_parked sample_created = []"
  by (simp_all add: sample_created_def sample_run_store_def)

lemma sample_created_recoverable: "recoverable 2 new_identifier sample_created"
proof -
  have "new_identifier t \<notin> er_id ` set (sr_events t)" if "length (sr_events t) < 2" for t
    using first_unused_new [of "map er_id (sr_events t)"] that by (simp add: new_identifier_def)
  moreover have "is_ok (stored_run (new_run_row sample_new_run))"
    by (simp add: stored_run_def new_run_row_def sample_new_run_def run_parse_state_def run_state_all_def parse_id_def
        canonical_id_def)
  ultimately show ?thesis
    using sample_created_ok
    by (simp add: recoverable_def sample_created_row live_runs_def)
       (simp add: sample_created_def sample_run_store_def new_run_row_def event_row_def TERMINAL_TEXTS_def)
qed

theorem restart_ends_only_interrupted_runs_witness:
  "\<exists>new. runs_recovered 9 sample_created new (snd (reconcile_runs (\<lambda>_. ''t'') new_identifier 9 sample_created))"
  using restart_ends_only_interrupted_runs [OF sample_created_ok surjective_pairing] by blast

theorem restart_ends_every_interrupted_run_witness:
  "\<exists>report s'. reconcile_runs (\<lambda>_. ''t'') new_identifier 9 sample_created = (Ok report, s') \<and>
     unat (recovery_total (rn_summary report)) = 1 \<and> filter (is_incomplete s') (sr_runs s') = []"
proof -
  have "filter (is_incomplete sample_created) (sr_runs sample_created) = [new_run_row sample_new_run]"
    by (simp add: sample_created_row is_incomplete_def new_run_row_def TERMINAL_TEXTS_def)
  then show ?thesis
    using restart_ends_every_interrupted_run [OF sample_created_recoverable, of "\<lambda>_. ''t''" 9]
    by (auto simp: sample_created_row)
qed

end
