(* ===== verification/Run_Feed.thy ===== *)
theory Run_Feed
  imports Run_Store_Laws
begin

text \<open>
  What a workspace is shown of its runs: the runs in progress and the feed of their events (the same files as
  the run store). A client of the feed that follows \<open>next_cursor\<close> sees every event it may see, once.
\<close>

section \<open>Runs in progress\<close>

definition MAX_ACTIVE_RUNS :: nat where "MAX_ACTIVE_RUNS = 100"

record ActiveRuns =
  ac_runs :: "StoredRun list"
  ac_bounded :: bool

text \<open>\<open>ORDER BY created_at DESC\<close>: SQL leaves the order of equal instants open, the model takes the later row first.\<close>

definition active_runs :: "(instant \<Rightarrow> string) \<Rightarrow> WorkspaceId \<Rightarrow> (RunStore, RepositoryError, ActiveRuns) eff" where
  "active_runs time_text workspace =
     eff_bind run_statement (\<lambda>_ s.
       (let rows = take (MAX_ACTIVE_RUNS + 1)
              (rev (sort_key (\<lambda>row. time_text (ru_created_at row))
                (filter (\<lambda>row. ru_workspace_id row = workspace \<and> ru_state row \<notin> set TERMINAL_TEXTS) (sr_runs s)))) in
        (and_then (collect (map stored_run (take MAX_ACTIVE_RUNS rows))) (\<lambda>runs.
           Ok \<lparr>ac_runs = runs, ac_bounded = length rows > MAX_ACTIVE_RUNS\<rparr>), s)))"

section \<open>The feed of a workspace\<close>

definition load_event_sequence :: "WorkspaceId \<Rightarrow> RunId \<Rightarrow> uuid \<Rightarrow> (RunStore, RepositoryError, u64) eff" where
  "load_event_sequence workspace run event =
     eff_bind (read_run workspace run) (\<lambda>found.
       if found = None then eff_throw RepositoryError.NotFound
       else
         eff_bind run_statement (\<lambda>_ s.
           (case find (\<lambda>r. er_workspace_id r = workspace \<and> er_run_id r = run \<and> er_visibility r = ''public'' \<and> er_id r = event)
                   (sr_events s) of
              None \<Rightarrow> (Err RepositoryError.NotFound, s)
            | Some r \<Rightarrow>
                (if er_sequence r < 0 \<or> er_sequence r \<ge> 2 ^ 63 then Err (Corrupted ''sequence'')
                 else Ok (word_of_int (er_sequence r)), s))))"

definition MAX_ACTIVITY_PAGE :: nat where "MAX_ACTIVITY_PAGE = 200"

record FeedEvent =
  fe_cursor :: u64
  fe_event :: StoredActivityEvent

record ActivityPage =
  ap_events :: "FeedEvent list"
  ap_next_cursor :: u64

text \<open>Rows are only ever appended to the table of events, so the \<open>rowid\<close> of a row is its place, from 1.\<close>

definition event_rowids :: "RunStore \<Rightarrow> (nat \<times> EventRow) list" where
  "event_rowids s = zip [1..<Suc (length (sr_events s))] (sr_events s)"

definition last_rowid :: "WorkspaceId \<Rightarrow> RunStore \<Rightarrow> nat" where
  "last_rowid workspace s = fold max (map fst (filter (\<lambda>(_, r). er_workspace_id r = workspace) (event_rowids s))) 0"

definition feed_selects :: "WorkspaceId \<Rightarrow> bool \<Rightarrow> EventRow \<Rightarrow> bool" where
  "feed_selects workspace include_deltas r \<longleftrightarrow>
     er_workspace_id r = workspace \<and> er_visibility r = ''public'' \<and>
     (include_deltas \<or> er_event_type r \<noteq> ''run.output_text.delta'')"

definition feed_event :: "nat \<times> EventRow \<Rightarrow> RepositoryError + FeedEvent" where
  "feed_event row = and_then (stored_event (snd row)) (\<lambda>event. Ok \<lparr>fe_cursor = of_nat (fst row), fe_event = event\<rparr>)"

text \<open>The newest place and the page are two reads on the pool, with no transaction around them: \<open>meanwhile\<close> is what other
  connections commit in between.\<close>

definition activity_after ::
  "(RunStore \<Rightarrow> RunStore) \<Rightarrow> WorkspaceId \<Rightarrow> u64 option \<Rightarrow> nat \<Rightarrow> bool \<Rightarrow> (RunStore, RepositoryError, ActivityPage) eff"
where
  "activity_after meanwhile workspace after limit include_deltas =
     eff_bind run_statement (\<lambda>_ s.
       (let newest = last_rowid workspace s in
        case after of
          None \<Rightarrow> (Ok \<lparr>ap_events = [], ap_next_cursor = of_nat newest\<rparr>, s)
        | Some after \<Rightarrow>
            (let bounded = clamp_page limit MAX_ACTIVITY_PAGE in
             if unat after \<ge> 2 ^ 63 then (Err (Corrupted ''rowid''), s)
             else
               eff_bind run_statement (\<lambda>_ s.
                 (let rows = take bounded
                        (filter (\<lambda>(n, r). feed_selects workspace include_deltas r \<and> unat after < n \<and> n \<le> newest)
                          (event_rowids s)) in
                  (and_then (collect (map feed_event rows)) (\<lambda>events.
                     Ok \<lparr>ap_events = events,
                         ap_next_cursor =
                           (if length rows \<ge> bounded then (if events = [] then after else fe_cursor (last events))
                            else max (of_nat newest) after)\<rparr>), s))) (meanwhile s))))"

section \<open>A page has no gap\<close>

lemma filter_below_last:
  assumes "sorted_wrt (\<lambda>a b. f a < (f b :: nat)) ys" and "0 < k" and "k \<le> length ys"
  shows "filter (\<lambda>y. f y \<le> f (last (take k ys))) ys = take k ys"
proof -
  from assms have le: "f y \<le> f (last (take k ys))" if "y \<in> set (take k ys)" for y
  proof -
    from that obtain i where i: "i < k" "i < length ys" "y = ys ! i" by (auto simp: in_set_conv_nth)
    have "last (take k ys) = ys ! (k - 1)"
      using assms(2,3) by (subst last_conv_nth) (auto simp: min_absorb2)
    moreover have "i = k - 1 \<or> i < k - 1 \<and> k - 1 < length ys" using i(1) assms(3) by auto
    ultimately show ?thesis
      using sorted_wrt_nth_less [OF assms(1), of i "k - 1"] i(3) by auto
  qed
  have gt: "f (last (take k ys)) < f y" if "y \<in> set (drop k ys)" for y
  proof -
    have "last (take k ys) \<in> set (take k ys)" using assms(2,3) by (intro last_in_set) auto
    moreover have "sorted_wrt (\<lambda>a b. f a < f b) (take k ys @ drop k ys)" using assms(1) by simp
    ultimately show ?thesis using that by (auto simp only: sorted_wrt_append)
  qed
  have "filter (\<lambda>y. f y \<le> f (last (take k ys))) (take k ys @ drop k ys) = take k ys"
    unfolding filter_append using le gt by (auto simp: filter_id_conv filter_empty_conv not_le)
  then show ?thesis by simp
qed

lemma event_rowids_sorted: "sorted_wrt (\<lambda>a b. fst a < fst b) (event_rowids s)"
  unfolding event_rowids_def
  by (simp add: sorted_wrt_iff_nth_less nth_append del: upt_Suc)

lemma fold_max_nat: "(x :: nat) \<le> fold max xs x" "y \<in> set xs \<Longrightarrow> (y :: nat) \<le> fold max xs x"
  by (simp_all add: Max.set_eq_fold [symmetric])

lemma fold_max_nat_le: "(\<And>y. y \<in> set xs \<Longrightarrow> y \<le> b) \<Longrightarrow> x \<le> b \<Longrightarrow> fold max xs (x :: nat) \<le> b"
  by (induction xs arbitrary: x) auto

lemma last_rowid_le: "last_rowid ws s \<le> length (sr_events s)"
  unfolding last_rowid_def event_rowids_def
  by (rule fold_max_nat_le) (auto dest!: set_zip_leftD simp del: upt_Suc)

lemma rowid_le_last: "(n, r) \<in> set (event_rowids s) \<Longrightarrow> er_workspace_id r = ws \<Longrightarrow> n \<le> last_rowid ws s"
  unfolding last_rowid_def by (rule fold_max_nat(2)) force

lemma feed_cursor: "n < 2 ^ 63 \<Longrightarrow> unat (of_nat n :: u64) = n"
  by (simp add: unat_of_nat)

lemma feed_events_cursors:
  assumes "list_all2 (\<lambda>row e. feed_event row = Ok e) rows events" and "\<forall>(n, r) \<in> set rows. n < 2 ^ 63"
  shows "map (\<lambda>e. unat (fe_cursor e)) events = map fst rows"
  using assms by (induction rule: list_all2_induct) (auto simp: feed_event_def and_then_Ok_iff feed_cursor)


lemma clamp_page_pos: "1 \<le> clamp_page limit bound"
  by (simp add: clamp_page_def)

lemma last_map_eq: "map f xs = map g ys \<Longrightarrow> xs \<noteq> [] \<Longrightarrow> f (last xs) = g (last ys)"
  by (metis last_map map_is_Nil_conv)

text \<open>Rows appended later do not change what lies up to a place of before.\<close>

lemma event_rowids_grow:
  assumes "sr_events t = sr_events s @ later" and "m \<le> length (sr_events s)"
  shows "filter (\<lambda>(n, r). P r \<and> Q n \<and> n \<le> m) (event_rowids t) = filter (\<lambda>(n, r). P r \<and> Q n \<and> n \<le> m) (event_rowids s)"
proof -
  let ?a = "length (sr_events s)" and ?b = "length later"
  have "[1..<Suc (?a + ?b)] = [1..<Suc ?a] @ [Suc ?a..<Suc ?a + ?b]"
    using upt_add_eq_append [of 1 "Suc ?a" ?b] by simp
  then have "event_rowids t = event_rowids s @ zip [Suc ?a..<Suc ?a + ?b] later"
    using assms(1) by (simp add: event_rowids_def del: upt_Suc)
  moreover have "filter (\<lambda>(n, r). P r \<and> Q n \<and> n \<le> m) (zip [Suc ?a..<Suc ?a + ?b] later) = []"
    using assms(2) by (auto simp: filter_empty_conv simp del: upt_Suc dest!: set_zip_leftD)
  ultimately show ?thesis by simp
qed

lemma activity_after_OkD:
  assumes "activity_after meanwhile ws (Some after) limit d s = (Ok page, s')"
    and grow: "\<And>t. \<exists>later. sr_events (meanwhile t) = sr_events t @ later"
    and "rows = filter (\<lambda>(n, r). feed_selects ws d r \<and> unat after < n \<and> n \<le> last_rowid ws s) (event_rowids s)"
    and "k = clamp_page limit MAX_ACTIVITY_PAGE"
  shows "list_all2 (\<lambda>row e. feed_event row = Ok e) (take k rows) (ap_events page)"
    and "ap_next_cursor page =
           (if k \<le> length rows then (if ap_events page = [] then after else fe_cursor (last (ap_events page)))
            else max (of_nat (last_rowid ws s)) after)"
    and "\<exists>later. sr_events s' = sr_events s @ later"
proof -
  from assms(1) obtain a b where a: "run_statement s = (Ok (), a)"
    and b: "run_statement (meanwhile a) = (Ok (), b)" and s': "s' = b"
    and page: "list_all2 (\<lambda>row e. feed_event row = Ok e)
        (take k (filter (\<lambda>(n, r). feed_selects ws d r \<and> unat after < n \<and> n \<le> last_rowid ws a) (event_rowids b)))
        (ap_events page)"
      "ap_next_cursor page =
        (if length (take k (filter (\<lambda>(n, r). feed_selects ws d r \<and> unat after < n \<and> n \<le> last_rowid ws a) (event_rowids b))) \<ge> k
         then (if ap_events page = [] then after else fe_cursor (last (ap_events page)))
         else max (of_nat (last_rowid ws a)) after)"
    by (auto simp: activity_after_def Let_def eff_bind_run and_then_Ok_iff collect_Ok_iff list_all2_map1 assms(4)
        split: if_split_asm)
  obtain later where ev: "sr_events (meanwhile a) = sr_events a @ later" using grow by blast
  then show "\<exists>later. sr_events s' = sr_events s @ later"
    using only_faults_fields [OF run_statement_faults [OF a]] only_faults_fields [OF run_statement_faults [OF b]] s' by simp
  have newest: "last_rowid ws a = last_rowid ws s" and "sr_events b = sr_events s @ later"
    using only_faults_fields [OF run_statement_faults [OF a]] only_faults_fields [OF run_statement_faults [OF b]] ev
    by (simp_all add: event_rowids_def last_rowid_def)
  then have same: "filter (\<lambda>(n, r). feed_selects ws d r \<and> unat after < n \<and> n \<le> last_rowid ws a) (event_rowids b) = rows"
    unfolding assms(3) newest by (intro event_rowids_grow last_rowid_le)
  show "list_all2 (\<lambda>row e. feed_event row = Ok e) (take k rows) (ap_events page)"
    using page(1) by (simp only: same)
  show "ap_next_cursor page =
           (if k \<le> length rows then (if ap_events page = [] then after else fe_cursor (last (ap_events page)))
            else max (of_nat (last_rowid ws s)) after)"
    using page(2) by (simp only: same) (simp add: newest min_def)
qed

lemma rows_up_to:
  assumes "\<exists>later. sr_events s' = sr_events s @ later" and "m \<le> max (last_rowid ws s) (unat after)"
  shows "filter (\<lambda>(n, r). feed_selects ws d r \<and> unat after < n \<and> n \<le> m) (event_rowids s') =
    filter (\<lambda>(n, r). feed_selects ws d r \<and> unat after < n \<and> n \<le> m) (event_rowids s)"
proof (cases "m \<le> length (sr_events s)")
  case True
  with assms(1) event_rowids_grow [of s' s _ m "feed_selects ws d" "\<lambda>n. unat after < n"] show ?thesis by auto
next
  case False
  with assms(2) last_rowid_le [of ws s] have "m \<le> unat after" by linarith
  then have "filter (\<lambda>(n, r). feed_selects ws d r \<and> unat after < n \<and> n \<le> m) xs = []" for xs
    by (auto simp: filter_empty_conv)
  then show ?thesis by simp
qed

text \<open>C39: The activity feed has no gap and no repetition, whatever events are appended between its two reads: a page read
  after a cursor holds exactly the events of the workspace it may show (public, and without output deltas unless asked
  for) whose place lies after that cursor and not after the next one, in order, and an event committed in between is left
  to the next page; the next cursor never goes back, and a page with no event says that there was none up to the
  newest.\<close>

theorem feed_page_has_no_gap:
  assumes "activity_after meanwhile ws (Some after) limit d s = (Ok page, s')" and "length (sr_events s) < 2 ^ 63"
    and "\<And>t. \<exists>later. sr_events (meanwhile t) = sr_events t @ later"
  shows "map (\<lambda>e. unat (fe_cursor e)) (ap_events page) =
           map fst (filter (\<lambda>(n, r). feed_selects ws d r \<and> unat after < n \<and> n \<le> unat (ap_next_cursor page)) (event_rowids s)) \<and>
         filter (\<lambda>(n, r). feed_selects ws d r \<and> unat after < n \<and> n \<le> unat (ap_next_cursor page)) (event_rowids s') =
           filter (\<lambda>(n, r). feed_selects ws d r \<and> unat after < n \<and> n \<le> unat (ap_next_cursor page)) (event_rowids s) \<and>
         after \<le> ap_next_cursor page \<and> (ap_events page = [] \<longrightarrow> last_rowid ws s \<le> unat (ap_next_cursor page))"
proof -
  define rows where "rows = filter (\<lambda>(n, r). feed_selects ws d r \<and> unat after < n \<and> n \<le> last_rowid ws s) (event_rowids s)"
  define k where "k = clamp_page limit MAX_ACTIVITY_PAGE"
  note page = activity_after_OkD [OF assms(1,3) rows_def k_def]
  have later: "filter (\<lambda>(n, r). feed_selects ws d r \<and> unat after < n \<and> n \<le> m) (event_rowids s') =
      filter (\<lambda>(n, r). feed_selects ws d r \<and> unat after < n \<and> n \<le> m) (event_rowids s)" if "m \<le> max (last_rowid ws s) (unat after)" for m
    using page(3) rows_up_to [OF _ that] by blast
  have small: "last_rowid ws s < 2 ^ 63" using last_rowid_le [of ws s] assms(2) by simp
  have cursors: "map (\<lambda>e. unat (fe_cursor e)) (ap_events page) = map fst (take k rows)"
    by (rule feed_events_cursors [OF page(1)]) (use small in \<open>auto simp: rows_def dest!: in_set_takeD\<close>)
  have all: "rows = filter (\<lambda>(n, r). feed_selects ws d r \<and> unat after < n) (event_rowids s)"
    unfolding rows_def by (rule filter_cong [OF refl]) (auto simp: feed_selects_def dest: rowid_le_last)
  have sorted: "sorted_wrt (\<lambda>a b. fst a < fst b) rows" unfolding rows_def by (intro sorted_wrt_filter event_rowids_sorted)
  have k: "0 < k" unfolding k_def using clamp_page_pos [of limit MAX_ACTIVITY_PAGE] by simp
  show ?thesis
  proof (cases "k \<le> length rows")
    case True
    then have nonempty: "take k rows \<noteq> []" "ap_events page \<noteq> []" using k cursors by auto
    have nxt: "unat (ap_next_cursor page) = fst (last (take k rows))"
      using page(2) True nonempty(2) last_map_eq [OF cursors nonempty(2)] by simp
    have "filter (\<lambda>(n, r). feed_selects ws d r \<and> unat after < n \<and> n \<le> unat (ap_next_cursor page)) (event_rowids s) =
        filter (\<lambda>y. fst y \<le> fst (last (take k rows))) rows"
      unfolding all filter_filter nxt by (rule filter_cong [OF refl]) auto
    also have "\<dots> = take k rows" by (rule filter_below_last [OF sorted k True])
    finally have "map (\<lambda>e. unat (fe_cursor e)) (ap_events page) =
        map fst (filter (\<lambda>(n, r). feed_selects ws d r \<and> unat after < n \<and> n \<le> unat (ap_next_cursor page)) (event_rowids s))"
      by (simp only: cursors)
    moreover have "unat after < unat (ap_next_cursor page)"
      unfolding nxt using last_in_set [OF nonempty(1)] by (auto simp: rows_def dest!: in_set_takeD)
    moreover have "unat (ap_next_cursor page) \<le> max (last_rowid ws s) (unat after)"
      unfolding nxt using last_in_set [OF nonempty(1)] by (auto simp: rows_def dest!: in_set_takeD)
    ultimately show ?thesis using nonempty later by (simp add: word_le_nat_alt)
  next
    case False
    then have nxt: "unat (ap_next_cursor page) = max (last_rowid ws s) (unat after)"
      using page(2) small by (simp add: max_def word_le_nat_alt feed_cursor)
    have "filter (\<lambda>(n, r). feed_selects ws d r \<and> unat after < n \<and> n \<le> unat (ap_next_cursor page)) (event_rowids s) = rows"
      unfolding rows_def nxt by (rule filter_cong [OF refl]) auto
    then show ?thesis using cursors False nxt later [of "unat (ap_next_cursor page)"] by (simp add: word_le_nat_alt)
  qed
qed

text \<open>Another connection records the next event of the run between the two reads.\<close>

definition sample_meanwhile :: "RunStore \<Rightarrow> RunStore" where
  "sample_meanwhile t = t\<lparr>sr_events := sr_events t @ [event_row 7 2 2 (run_received_event 1 6)]\<rparr>"

theorem feed_page_has_no_gap_witness:
  "\<exists>page s'. activity_after sample_meanwhile 2 (Some 0) 10 False sample_created = (Ok page, s') \<and>
     map (\<lambda>e. unat (fe_cursor e)) (ap_events page) = [1] \<and> length (event_rowids s') = 2 \<and> 0 \<le> ap_next_cursor page"
proof -
  let ?s = "sample_meanwhile sample_created"
  have rowids: "event_rowids sample_created = [(1, event_row 6 2 1 (run_received_event 1 5))]"
      "event_rowids ?s = [(1, event_row 6 2 1 (run_received_event 1 5)), (2, event_row 7 2 2 (run_received_event 1 6))]"
    by (simp_all add: event_rowids_def sample_meanwhile_def sample_created_def sample_run_store_def)
  have ev: "stored_event (event_row 6 2 1 (run_received_event 1 5)) =
      Ok \<lparr>sa_id = 6, sa_run_id = 1, sa_sequence = 1, sa_event_type = ''run.received'', sa_payload_json = None,
          sa_visibility = EventVisibility.Public, sa_occurred_at = 5\<rparr>"
    by (simp add: stored_event_def event_row_def run_received_event_def parse_id_def canonical_id_def event_visibility_parse_def)
  have sel: "feed_selects 2 False (event_row 6 2 1 (run_received_event 1 5))" "last_rowid 2 sample_created = 1"
    by (simp_all add: feed_selects_def last_rowid_def rowids event_row_def run_received_event_def)
  have quiet: "run_statement sample_created = (Ok (), sample_created)" "run_statement ?s = (Ok (), ?s)"
    by (simp_all add: run_statement_def sample_meanwhile_def sample_created_def sample_run_store_def)
  obtain page where run: "activity_after sample_meanwhile 2 (Some 0) 10 False sample_created = (Ok page, ?s)"
    and events: "map (\<lambda>e. unat (fe_cursor e)) (ap_events page) = [1]"
    using quiet sel ev by (simp add: activity_after_def Let_def rowids clamp_page_def MAX_ACTIVITY_PAGE_def feed_event_def)
  have "length (sr_events sample_created) < 2 ^ 63" by (simp add: sample_created_def)
  moreover have "\<exists>later. sr_events (sample_meanwhile t) = sr_events t @ later" for t by (simp add: sample_meanwhile_def)
  ultimately have "0 \<le> ap_next_cursor page" using feed_page_has_no_gap [OF run] by blast
  with run events rowids show ?thesis by (intro exI [of _ page] exI [of _ ?s]) simp
qed

end
