(* ===== verification/Context_Budget.thy ===== *)
theory Context_Budget
  imports Complex_Main Run_Budget Ordered_Map "HOL-Library.Multiset" "HOL-Library.Sublist"
begin

text \<open>
  The context of a model call (\<open>context/source.rs\<close>, \<open>context/budget.rs\<close>, \<open>context/manifest.rs\<close>): candidates are
  refused by sensitivity and validity, ranked, deduplicated and packed into a token budget, and a manifest
  accounts for each. A score is an \<open>f64\<close>; all the code asks of it is whether it is finite and
  \<open>total_cmp\<close>, which the key below orders (the payloads of NaNs are not kept).
\<close>

section \<open>Scores\<close>

datatype F64 = Nan bool | Infinite bool | Finite bool rat

definition f64_is_finite :: "F64 \<Rightarrow> bool" where
  "f64_is_finite x \<longleftrightarrow> (case x of Finite _ _ \<Rightarrow> True | _ \<Rightarrow> False)"

text \<open>\<open>total_cmp\<close>: negative NaN, negative infinity, negative numbers with the negative zero last, then the
  positive ones.\<close>

definition total_key :: "F64 \<Rightarrow> int \<times> rat" where
  "total_key x =
     (case x of
        Nan n \<Rightarrow> (if n then - 3 else 3, 0)
      | Infinite n \<Rightarrow> (if n then - 2 else 2, 0)
      | Finite n m \<Rightarrow> if n then (- 1, - m) else (1, m))"

definition f64_of_u32 :: "u32 \<Rightarrow> F64" where
  "f64_of_u32 w = Finite False (of_nat (unat w))"

section \<open>Candidates\<close>

datatype SourcePriority =
  SystemPolicy | WorkspacePolicyAndTask | Conversation | Memory | RetrievedContent | ToolObservation | StylePreference

primrec source_band :: "SourcePriority \<Rightarrow> nat" where
  "source_band SourcePriority.SystemPolicy = 0"
| "source_band SourcePriority.WorkspacePolicyAndTask = 1"
| "source_band SourcePriority.Conversation = 2"
| "source_band SourcePriority.Memory = 3"
| "source_band SourcePriority.RetrievedContent = 4"
| "source_band SourcePriority.ToolObservation = 5"
| "source_band SourcePriority.StylePreference = 6"

definition source_priority_is_untrusted :: "SourcePriority \<Rightarrow> bool" where
  "source_priority_is_untrusted p \<longleftrightarrow>
     p = SourcePriority.RetrievedContent \<or> p = SourcePriority.ToolObservation \<or> p = SourcePriority.Memory"

datatype CandidateSource =
  SystemPolicy | ActiveTask | Conversation | Memory | RetrievedContent | ToolObservation | StylePreference

primrec candidate_source_priority :: "CandidateSource \<Rightarrow> SourcePriority" where
  "candidate_source_priority CandidateSource.SystemPolicy = SourcePriority.SystemPolicy"
| "candidate_source_priority CandidateSource.ActiveTask = SourcePriority.WorkspacePolicyAndTask"
| "candidate_source_priority CandidateSource.Conversation = SourcePriority.Conversation"
| "candidate_source_priority CandidateSource.Memory = SourcePriority.Memory"
| "candidate_source_priority CandidateSource.RetrievedContent = SourcePriority.RetrievedContent"
| "candidate_source_priority CandidateSource.ToolObservation = SourcePriority.ToolObservation"
| "candidate_source_priority CandidateSource.StylePreference = SourcePriority.StylePreference"

definition candidate_source_is_untrusted :: "CandidateSource \<Rightarrow> bool" where
  "candidate_source_is_untrusted s = source_priority_is_untrusted (candidate_source_priority s)"

primrec candidate_source_display :: "CandidateSource \<Rightarrow> string" where
  "candidate_source_display CandidateSource.SystemPolicy = ''system_policy''"
| "candidate_source_display CandidateSource.ActiveTask = ''active_task''"
| "candidate_source_display CandidateSource.Conversation = ''conversation''"
| "candidate_source_display CandidateSource.Memory = ''memory''"
| "candidate_source_display CandidateSource.RetrievedContent = ''retrieved_content''"
| "candidate_source_display CandidateSource.ToolObservation = ''tool_observation''"
| "candidate_source_display CandidateSource.StylePreference = ''style_preference''"

datatype InclusionReason =
  MandatoryPolicy | ActiveObjective | RecentTurn | RelevantMemory | RetrievedForTask | ToolObservationRequired | UserPreference

record ContextCandidate =
  cc_reference :: string
  cc_source :: CandidateSource
  cc_sensitivity :: Sensitivity
  cc_tokens :: u64
  cc_reason :: InclusionReason
  cc_score :: F64
  cc_occurred_at :: instant
  cc_valid_until :: "instant option"

definition MAX_CANDIDATE_REFERENCE_BYTES :: nat where "MAX_CANDIDATE_REFERENCE_BYTES = 512"

definition candidate_validated :: "ContextCandidate \<Rightarrow> DomainError + ContextCandidate" where
  "candidate_validated self =
     (if cc_reference self = [] \<or> length (cc_reference self) > MAX_CANDIDATE_REFERENCE_BYTES \<or>
         contains_nul (cc_reference self) then Err ContextCandidateInvalid
      else if \<not> f64_is_finite (cc_score self) then Err ContextCandidateInvalid
      else if cc_tokens self = 0 then Err ContextCandidateInvalid
      else Ok self)"

section \<open>The budget\<close>

definition MAX_CONTEXT_CANDIDATES :: nat where "MAX_CONTEXT_CANDIDATES = 10000"

record ContextBudget =
  cb_tokens :: u64

definition context_budget_new :: "u64 \<Rightarrow> DomainError + ContextBudget" where
  "context_budget_new tokens =
     (if tokens = 0 \<or> tokens > MAX_CONTEXT_BUDGET_TOKENS then Err ContextBudgetInvalid else Ok \<lparr>cb_tokens = tokens\<rparr>)"

definition remaining_after :: "ContextBudget \<Rightarrow> u64 \<Rightarrow> u64" where
  "remaining_after self used = saturating_sub (cb_tokens self) used"

datatype ExclusionReason = ExcludedSensitivity | OverBudget | ExcludedExpired | ExcludedDuplicate

primrec exclusion_reason_as_str :: "ExclusionReason \<Rightarrow> string" where
  "exclusion_reason_as_str ExcludedSensitivity = ''sensitivity''"
| "exclusion_reason_as_str OverBudget = ''over_budget''"
| "exclusion_reason_as_str ExcludedExpired = ''expired''"
| "exclusion_reason_as_str ExcludedDuplicate = ''duplicate''"

definition EXCLUSION_REASON_COUNT :: nat where "EXCLUSION_REASON_COUNT = 4"

type_synonym ExclusionSummary = "(string \<times> u64) list"

definition summary_count :: "ExclusionSummary \<Rightarrow> ExclusionReason \<Rightarrow> u64" where
  "summary_count self reason = (case map_of self (exclusion_reason_as_str reason) of None \<Rightarrow> 0 | Some n \<Rightarrow> n)"

definition summary_from_reasons :: "ExclusionReason list \<Rightarrow> ExclusionSummary" where
  "summary_from_reasons reasons =
     fold (\<lambda>reason counts. btree_insert id (exclusion_reason_as_str reason) (summary_count counts reason + 1) counts) reasons []"

definition summary_total :: "ExclusionSummary \<Rightarrow> u64" where
  "summary_total self = sum_list (map snd self)"

definition has_only_known_reasons :: "ExclusionSummary \<Rightarrow> bool" where
  "has_only_known_reasons self \<longleftrightarrow> self \<noteq> [] \<and> length self \<le> EXCLUSION_REASON_COUNT"

record ContextManifestItem =
  mi_reference :: string
  mi_source :: CandidateSource
  mi_sensitivity :: Sensitivity
  mi_tokens :: u64
  mi_reason :: InclusionReason
  mi_score :: F64

record ContextManifest =
  mf_budget_tokens :: u64
  mf_used_tokens :: u64
  mf_offered_candidates :: u64
  mf_included :: "ContextManifestItem list"
  mf_exclusions :: ExclusionSummary
  mf_assembled_at :: instant

definition manifest_is_consistent :: "ContextManifest \<Rightarrow> bool" where
  "manifest_is_consistent self \<longleftrightarrow>
     saturating_add (of_nat (length (mf_included self))) (summary_total (mf_exclusions self)) = mf_offered_candidates self \<and>
     sum_list (map mi_tokens (mf_included self)) = mf_used_tokens self \<and> mf_used_tokens self \<le> mf_budget_tokens self"

record IncludedItem =
  ii_reference :: string
  ii_source :: CandidateSource
  ii_sensitivity :: Sensitivity
  ii_tokens :: u64

record AssembledContext =
  as_included :: "IncludedItem list"
  as_manifest :: ContextManifest
  as_used_tokens :: u64

text \<open>The four passes of \<open>assemble\<close>: what each keeps, and the reasons it pushes.\<close>

fun admit_candidates :: "Sensitivity \<Rightarrow> instant \<Rightarrow> ContextCandidate list \<Rightarrow> ContextCandidate list \<times> ExclusionReason list" where
  "admit_candidates bound now [] = ([], [])"
| "admit_candidates bound now (c # cs) =
     (case admit_candidates bound now cs of (eligible, excluded) \<Rightarrow>
        if cc_sensitivity c > bound then (eligible, ExcludedSensitivity # excluded)
        else if is_some_and (cc_valid_until c) (\<lambda>validity. validity < now) then (eligible, ExcludedExpired # excluded)
        else (c # eligible, excluded))"

text \<open>The ranking: band, then score, newest first, then reference, as a key in ascending order.\<close>

definition rank_key :: "ContextCandidate \<Rightarrow> nat \<times> (int \<times> rat) \<times> int \<times> string" where
  "rank_key c =
     (source_band (candidate_source_priority (cc_source c)),
      (case total_key (cc_score c) of (k, m) \<Rightarrow> (- k, - m)), - cc_occurred_at c, cc_reference c)"

definition rank_candidates :: "ContextCandidate list \<Rightarrow> ContextCandidate list" where
  "rank_candidates cs = sort_key rank_key cs"

fun dedup_candidates :: "string list \<Rightarrow> ContextCandidate list \<Rightarrow> ContextCandidate list \<times> ExclusionReason list" where
  "dedup_candidates seen [] = ([], [])"
| "dedup_candidates seen (c # cs) =
     (if cc_reference c \<in> set seen
      then (case dedup_candidates seen cs of (kept, excluded) \<Rightarrow> (kept, ExcludedDuplicate # excluded))
      else (case dedup_candidates (cc_reference c # seen) cs of (kept, excluded) \<Rightarrow> (c # kept, excluded)))"

fun pack_candidates :: "ContextBudget \<Rightarrow> u64 \<Rightarrow> ContextCandidate list \<Rightarrow> ContextCandidate list \<times> u64 \<times> ExclusionReason list" where
  "pack_candidates self used [] = ([], used, [])"
| "pack_candidates self used (c # cs) =
     (if cc_tokens c > remaining_after self used
      then (case pack_candidates self used cs of (kept, total_used, excluded) \<Rightarrow> (kept, total_used, OverBudget # excluded))
      else (case pack_candidates self (used + cc_tokens c) cs of (kept, total_used, excluded) \<Rightarrow> (c # kept, total_used, excluded)))"

definition manifest_item :: "ContextCandidate \<Rightarrow> ContextManifestItem" where
  "manifest_item c =
     \<lparr>mi_reference = cc_reference c, mi_source = cc_source c, mi_sensitivity = cc_sensitivity c, mi_tokens = cc_tokens c,
      mi_reason = cc_reason c, mi_score = cc_score c\<rparr>"

definition included_item :: "ContextCandidate \<Rightarrow> IncludedItem" where
  "included_item c =
     \<lparr>ii_reference = cc_reference c, ii_source = cc_source c, ii_sensitivity = cc_sensitivity c, ii_tokens = cc_tokens c\<rparr>"

definition context_assemble :: "ContextBudget \<Rightarrow> ContextCandidate list \<Rightarrow> Sensitivity \<Rightarrow> instant \<Rightarrow> DomainError + AssembledContext" where
  "context_assemble self candidates bound now =
     (if length candidates > MAX_CONTEXT_CANDIDATES then Err ContextCandidatesUnbounded
      else
        (case admit_candidates bound now candidates of (eligible, refused) \<Rightarrow>
         (case dedup_candidates [] (rank_candidates eligible) of (deduplicated, repeated) \<Rightarrow>
          (case pack_candidates self 0 deduplicated of (kept, used, dropped) \<Rightarrow>
             Ok \<lparr>as_included = map included_item kept,
                 as_manifest =
                   \<lparr>mf_budget_tokens = cb_tokens self, mf_used_tokens = used,
                    mf_offered_candidates = of_nat (length candidates), mf_included = map manifest_item kept,
                    mf_exclusions = summary_from_reasons (refused @ repeated @ dropped), mf_assembled_at = now\<rparr>,
                 as_used_tokens = used\<rparr>))))"

definition assembled_is_full :: "AssembledContext \<Rightarrow> bool" where
  "assembled_is_full self \<longleftrightarrow> as_used_tokens self \<ge> mf_budget_tokens (as_manifest self)"

definition refused_for_sensitivity :: "AssembledContext \<Rightarrow> u64" where
  "refused_for_sensitivity self = summary_count (mf_exclusions (as_manifest self)) ExcludedSensitivity"


section \<open>What each pass keeps\<close>

lemma admit_candidates_eq:
  "fst (admit_candidates bound now cs) =
     filter (\<lambda>c. cc_sensitivity c \<le> bound \<and> \<not> is_some_and (cc_valid_until c) (\<lambda>validity. validity < now)) cs"
  by (induction cs) (auto split: prod.split simp: not_le)

lemma admit_candidates_count:
  "length (fst (admit_candidates bound now cs)) + length (snd (admit_candidates bound now cs)) = length cs"
  by (induction cs) (auto split: prod.split)

lemma dedup_candidates_spec:
  assumes "dedup_candidates seen cs = (kept, excluded)"
  shows "length kept + length excluded = length cs \<and> set kept \<subseteq> set cs \<and> distinct (map cc_reference kept) \<and>
         set (map cc_reference kept) \<inter> set seen = {} \<and> subseq kept cs"
  using assms
proof (induction seen cs arbitrary: kept excluded rule: dedup_candidates.induct)
  case (2 seen c cs)
  show ?case
  proof (cases "cc_reference c \<in> set seen")
    case True
    obtain k e where r: "dedup_candidates seen cs = (k, e)" by fastforce
    with 2(1) [OF True r] 2(3) True show ?thesis by auto
  next
    case False
    obtain k e where r: "dedup_candidates (cc_reference c # seen) cs = (k, e)" by fastforce
    with 2(2) [OF False r] 2(3) False show ?thesis by (auto simp: disjoint_iff)
  qed
qed simp

lemma dedup_candidates_distinct:
  "distinct (map cc_reference cs) \<Longrightarrow> set (map cc_reference cs) \<inter> set seen = {} \<Longrightarrow> dedup_candidates seen cs = (cs, [])"
  by (induction cs arbitrary: seen) auto

lemma pack_candidates_spec:
  assumes "pack_candidates self used cs = (kept, total_used, excluded)" and "used \<le> cb_tokens self"
  shows "unat total_used = unat used + sum_list (map (\<lambda>c. unat (cc_tokens c)) kept) \<and> total_used \<le> cb_tokens self \<and>
         length kept + length excluded = length cs \<and> subseq kept cs \<and>
         total_used = used + sum_list (map cc_tokens kept)"
  using assms
proof (induction self used cs arbitrary: kept total_used excluded rule: pack_candidates.induct)
  case (2 self used c cs)
  show ?case
  proof (cases "cc_tokens c > remaining_after self used")
    case True
    obtain k t e where r: "pack_candidates self used cs = (k, t, e)" by (metis prod_cases3)
    with 2(1) [OF True r] 2(3,4) True show ?thesis by auto
  next
    case False
    from False have "unat (cc_tokens c) \<le> unat (cb_tokens self) - unat used"
      by (simp add: remaining_after_def not_less word_le_nat_alt unat_saturating_sub)
    then have le: "unat used + unat (cc_tokens c) \<le> unat (cb_tokens self)"
      using 2(4) by (simp add: word_le_nat_alt)
    moreover have "unat (cb_tokens self) < 2 ^ LENGTH(64)" by (rule unsigned_less)
    ultimately have "unat used + unat (cc_tokens c) < 2 ^ 64" by simp
    then have un: "unat (used + cc_tokens c) = unat used + unat (cc_tokens c)" by (simp add: unat_word_ariths)
    then have "used + cc_tokens c \<le> cb_tokens self" using le by (simp add: word_le_nat_alt)
    moreover obtain k t e where r: "pack_candidates self (used + cc_tokens c) cs = (k, t, e)" by (metis prod_cases3)
    ultimately show ?thesis using 2(2) [OF False r] 2(3) False un by (auto simp: add.assoc)
  qed
qed simp

lemma summary_insert_total:
  assumes "btree_ok id m"
  shows "summary_total (btree_insert id (exclusion_reason_as_str r) (summary_count m r + 1) m) = summary_total m + 1"
proof -
  have "sum_list (map snd (btree_insert id k ((case map_of m k of None \<Rightarrow> 0 | Some n \<Rightarrow> n) + 1) m)) =
      sum_list (map snd m) + (1 :: u64)" if "btree_ok id m" for k :: string and m
    using that
  proof (induction m)
    case (Cons e m)
    have "map_of m k = None" if "k < fst e"
      using that Cons.prems by (auto simp: btree_ok_def map_of_eq_None_iff)
    with Cons show ?case by (auto simp: btree_ok_def)
  qed simp
  from this [OF assms] show ?thesis by (simp add: summary_total_def summary_count_def)
qed

lemma summary_fold:
  "btree_ok id m \<Longrightarrow>
     summary_total (fold (\<lambda>r counts. btree_insert id (exclusion_reason_as_str r) (summary_count counts r + 1) counts) rs m) =
       summary_total m + of_nat (length rs)"
  by (induction rs arbitrary: m) (simp_all add: btree_ok_insert summary_insert_total add.assoc)

lemma summary_total_reasons: "summary_total (summary_from_reasons rs) = of_nat (length rs)"
  using summary_fold [of "[]" rs] by (simp add: summary_from_reasons_def summary_total_def btree_ok_def)


text \<open>The check of a summary counts its keys and does not read them.\<close>

lemma unknown_reason_passes:
  "has_only_known_reasons [(''made_up'', 1)] \<and> \<not> has_only_known_reasons (summary_from_reasons [])"
  by (simp add: has_only_known_reasons_def EXCLUSION_REASON_COUNT_def summary_from_reasons_def)

lemma distinct_subseq: "subseq xs ys \<Longrightarrow> distinct ys \<Longrightarrow> distinct xs"
  by (induction rule: list_emb.induct) (auto dest: list_emb_set)

lemma context_assemble_OkD:
  assumes "context_assemble self candidates bound now = Ok a"
  shows "\<exists>kept excluded. as_included a = map included_item kept \<and>
    subseq kept (fst (dedup_candidates [] (rank_candidates (fst (admit_candidates bound now candidates))))) \<and>
    distinct (map cc_reference kept) \<and> set kept \<subseteq> set candidates \<and>
    list_all (\<lambda>c. cc_sensitivity c \<le> bound \<and> \<not> is_some_and (cc_valid_until c) (\<lambda>validity. validity < now)) kept \<and>
    as_used_tokens a \<le> cb_tokens self \<and> unat (as_used_tokens a) = sum_list (map (\<lambda>c. unat (cc_tokens c)) kept) \<and>
    length kept + length excluded = length candidates \<and> length candidates \<le> MAX_CONTEXT_CANDIDATES \<and>
    as_used_tokens a = sum_list (map cc_tokens kept) \<and>
    as_manifest a = \<lparr>mf_budget_tokens = cb_tokens self, mf_used_tokens = as_used_tokens a,
                    mf_offered_candidates = of_nat (length candidates), mf_included = map manifest_item kept,
                    mf_exclusions = summary_from_reasons excluded, mf_assembled_at = now\<rparr>"
proof -
  obtain eligible refused where adm: "admit_candidates bound now candidates = (eligible, refused)" by fastforce
  obtain dd repeated where dup: "dedup_candidates [] (rank_candidates eligible) = (dd, repeated)" by fastforce
  obtain kept used dropped where pk: "pack_candidates self 0 dd = (kept, used, dropped)" by (metis prod_cases3)
  from assms adm dup pk have a: "a = \<lparr>as_included = map included_item kept,
                 as_manifest =
                   \<lparr>mf_budget_tokens = cb_tokens self, mf_used_tokens = used,
                    mf_offered_candidates = of_nat (length candidates), mf_included = map manifest_item kept,
                    mf_exclusions = summary_from_reasons (refused @ repeated @ dropped), mf_assembled_at = now\<rparr>,
                 as_used_tokens = used\<rparr>" and len: "length candidates \<le> MAX_CONTEXT_CANDIDATES"
    by (auto simp: context_assemble_def split: if_split_asm)
  note d = dedup_candidates_spec [OF dup]
  have p: "unat used = sum_list (map (\<lambda>c. unat (cc_tokens c)) kept)" "used \<le> cb_tokens self" "subseq kept dd"
    "length kept + length dropped = length dd" "used = sum_list (map cc_tokens kept)"
    using pack_candidates_spec [OF pk] by auto
  have el: "eligible = filter (\<lambda>c. cc_sensitivity c \<le> bound \<and> \<not> is_some_and (cc_valid_until c) (\<lambda>validity. validity < now)) candidates"
    using admit_candidates_eq [of bound now candidates] by (simp add: adm)
  have "set kept \<subseteq> set dd" using p(3) by (auto dest: list_emb_set [of "(=)"])
  then have sub: "set kept \<subseteq> set eligible" using d by (auto simp: rank_candidates_def)
  have "distinct (map cc_reference kept)" using p(3) d distinct_subseq [OF subseq_map [of kept dd cc_reference]] by auto
  moreover have "length kept + length (refused @ repeated @ dropped) = length candidates"
    using p(4) d admit_candidates_count [of bound now candidates] by (simp add: adm rank_candidates_def)
  moreover have "set kept \<subseteq> set candidates"
    and "list_all (\<lambda>c. cc_sensitivity c \<le> bound \<and> \<not> is_some_and (cc_valid_until c) (\<lambda>validity. validity < now)) kept"
    using sub by (auto simp: el list_all_iff)
  moreover have "subseq kept (fst (dedup_candidates [] (rank_candidates (fst (admit_candidates bound now candidates)))))"
    using p(3) by (simp add: adm dup)
  ultimately show ?thesis
    using len p(1,2,5) by (intro exI [of _ kept] exI [of _ "refused @ repeated @ dropped"]) (simp add: a)
qed

section \<open>Properties\<close>

text \<open>C29: A context never exceeds its budget and holds nothing it may not: what is included adds up to the tokens
  reported, which are within the budget; every included item was offered, is at most as sensitive as the
  ceiling, has not expired, and is included once; and the manifest accounts for every candidate.\<close>

theorem assembled_context_is_bounded:
  assumes "context_assemble self candidates bound now = Ok a"
  shows "as_used_tokens a \<le> cb_tokens self \<and>
         unat (as_used_tokens a) = sum_list (map (\<lambda>i. unat (ii_tokens i)) (as_included a)) \<and>
         distinct (map ii_reference (as_included a)) \<and>
         list_all (\<lambda>i. ii_sensitivity i \<le> bound) (as_included a) \<and>
         (\<exists>kept. as_included a = map included_item kept \<and> set kept \<subseteq> set candidates \<and>
            list_all (\<lambda>c. case cc_valid_until c of None \<Rightarrow> True | Some validity \<Rightarrow> now \<le> validity) kept) \<and>
         manifest_is_consistent (as_manifest a)"
proof -
  from context_assemble_OkD [OF assms] obtain kept excluded where k: "as_included a = map included_item kept"
    and k': "distinct (map cc_reference kept)" "set kept \<subseteq> set candidates"
    "list_all (\<lambda>c. cc_sensitivity c \<le> bound \<and> \<not> is_some_and (cc_valid_until c) (\<lambda>validity. validity < now)) kept"
    "as_used_tokens a \<le> cb_tokens self" "unat (as_used_tokens a) = sum_list (map (\<lambda>c. unat (cc_tokens c)) kept)"
    "length kept + length excluded = length candidates" "length candidates \<le> MAX_CONTEXT_CANDIDATES"
    "as_used_tokens a = sum_list (map cc_tokens kept)"
    "as_manifest a = \<lparr>mf_budget_tokens = cb_tokens self, mf_used_tokens = as_used_tokens a,
                    mf_offered_candidates = of_nat (length candidates), mf_included = map manifest_item kept,
                    mf_exclusions = summary_from_reasons excluded, mf_assembled_at = now\<rparr>"
    by blast
  have items: "map ii_reference (map included_item kept) = map cc_reference kept"
    "map (\<lambda>i. unat (ii_tokens i)) (map included_item kept) = map (\<lambda>c. unat (cc_tokens c)) kept"
    "map mi_tokens (map manifest_item kept) = map cc_tokens kept"
    by (simp_all add: included_item_def manifest_item_def)
  have "saturating_add (of_nat (length kept)) (of_nat (length excluded)) = (of_nat (length candidates) :: u64)"
  proof -
    have small: "length kept + length excluded \<le> 10000" using k'(6,7) by (simp add: MAX_CONTEXT_CANDIDATES_def)
    then have "unat (of_nat (length kept) :: u64) = length kept" "unat (of_nat (length excluded) :: u64) = length excluded"
      by (simp_all add: unat_of_nat)
    with small show ?thesis using k'(6) [symmetric] by (simp add: saturating_add_def)
  qed
  then have "manifest_is_consistent (as_manifest a)"
    using k'(4,8) by (simp add: manifest_is_consistent_def k'(9) summary_total_reasons items(3) del: map_map)
  moreover have "list_all (\<lambda>c. case cc_valid_until c of None \<Rightarrow> True | Some validity \<Rightarrow> now \<le> validity) kept"
    using k'(3) by (force simp: list_all_iff split: option.split)
  moreover have "list_all (\<lambda>i. ii_sensitivity i \<le> bound) (as_included a)"
    using k k'(3) by (auto simp: list_all_iff included_item_def)
  ultimately show ?thesis using k k'(1,2,4,5) items(1,2) by (simp del: map_map) blast
qed

text \<open>The assembly does not depend on the order in which its candidates arrive: offered in any other order,
  candidates with different references give the same items in the same order and use the same tokens.\<close>

theorem assembly_ignores_offer_order:
  assumes "mset candidates' = mset candidates" and "distinct (map cc_reference candidates)"
    and "context_assemble self candidates bound now = Ok a"
  shows "\<exists>a'. context_assemble self candidates' bound now = Ok a' \<and> as_included a' = as_included a \<and>
              as_used_tokens a' = as_used_tokens a \<and> mf_included (as_manifest a') = mf_included (as_manifest a)"
proof -
  let ?p = "\<lambda>c. cc_sensitivity c \<le> bound \<and> \<not> is_some_and (cc_valid_until c) (\<lambda>validity. validity < now)"
  have el: "fst (admit_candidates bound now cs) = filter ?p cs" for cs by (rule admit_candidates_eq)
  have inj: "inj_on rank_key (set (filter ?p candidates'))"
    using assms(1,2) mset_eq_setD [OF assms(1)]
    by (auto simp: rank_key_def inj_on_def distinct_map split: prod.split_asm)
  have "rank_candidates (filter ?p candidates') = rank_candidates (filter ?p candidates)"
    unfolding rank_candidates_def
    by (rule sort_key_inj_key_eq [OF _ inj]) (use assms(1) in \<open>simp_all add: mset_filter\<close>)
  moreover have "length candidates' = length candidates" using assms(1) by (metis size_mset)
  ultimately show ?thesis
    using assms(3) el [of candidates] el [of candidates']
    by (auto simp: context_assemble_def split: prod.split prod.split_asm if_split_asm)
qed


definition sample_candidate :: "string \<Rightarrow> u32 \<Rightarrow> ContextCandidate" where
  "sample_candidate ref n =
     \<lparr>cc_reference = ref, cc_source = CandidateSource.Conversation, cc_sensitivity = Sensitivity.Internal, cc_tokens = 5,
      cc_reason = RecentTurn, cc_score = f64_of_u32 n, cc_occurred_at = 3, cc_valid_until = None\<rparr>"

lemma sample_assembles:
  "is_ok (context_assemble \<lparr>cb_tokens = 8\<rparr> [sample_candidate ''a'' 1, sample_candidate ''b'' 2] Sensitivity.Restricted 9)"
  by (simp add: context_assemble_def MAX_CONTEXT_CANDIDATES_def split: prod.split)

theorem assembled_context_is_bounded_witness:
  "\<exists>a. context_assemble \<lparr>cb_tokens = 8\<rparr> [sample_candidate ''a'' 1, sample_candidate ''b'' 2] Sensitivity.Restricted 9 = Ok a \<and>
     as_used_tokens a \<le> 8 \<and> manifest_is_consistent (as_manifest a)"
proof -
  obtain a where a: "context_assemble \<lparr>cb_tokens = 8\<rparr> [sample_candidate ''a'' 1, sample_candidate ''b'' 2] Sensitivity.Restricted 9 = Ok a"
    using sample_assembles by (auto simp: is_ok_iff)
  from assembled_context_is_bounded [OF this] a show ?thesis by auto
qed

theorem assembly_ignores_offer_order_witness:
  "\<exists>a a'. context_assemble \<lparr>cb_tokens = 8\<rparr> [sample_candidate ''a'' 1, sample_candidate ''b'' 2] Sensitivity.Restricted 9 = Ok a \<and>
     context_assemble \<lparr>cb_tokens = 8\<rparr> [sample_candidate ''b'' 2, sample_candidate ''a'' 1] Sensitivity.Restricted 9 = Ok a' \<and>
     as_included a' = as_included a"
proof -
  obtain a where a: "context_assemble \<lparr>cb_tokens = 8\<rparr> [sample_candidate ''a'' 1, sample_candidate ''b'' 2] Sensitivity.Restricted 9 = Ok a"
    using sample_assembles by (auto simp: is_ok_iff)
  have "mset [sample_candidate ''b'' 2, sample_candidate ''a'' 1] = mset [sample_candidate ''a'' 1, sample_candidate ''b'' 2]"
    and "distinct (map cc_reference [sample_candidate ''a'' 1, sample_candidate ''b'' 2])"
    by (simp_all add: sample_candidate_def)
  from assembly_ignores_offer_order [OF this a] a show ?thesis by blast
qed

end
