(* ===== verification/Conversation_Store.thy ===== *)
theory Conversation_Store
  imports Run_Store_Laws Context_Assembly Model_Capability
begin

text \<open>
  The database a run works on, and its conversation repository: \<open>jarvis-application/src/repository/conversation.rs\<close>
  and its implementation in \<open>jarvis-infrastructure/src/storage/repositories.rs\<close>. The tables of conversations, messages,
  model calls and parked runs stand beside those of the run store, which carries the schedule of failing statements. As there,
  a row keeps spellings and integers as the code writes them, and identifiers, instants, usages and finish
  reasons as the values they denote.
\<close>

section \<open>Values of the port\<close>

definition MAX_TITLE_BYTES :: nat where "MAX_TITLE_BYTES = 512"
definition MAX_CONTENT_BYTES :: nat where "MAX_CONTENT_BYTES = 64 * 1024"

record NewConversation =
  nc_id :: ConversationId
  nc_workspace_id :: WorkspaceId
  nc_owner_user_id :: PrincipalId
  nc_title :: "string option"
  nc_channel_origin :: string
  nc_created_at :: instant

definition new_conversation ::
  "ConversationId \<Rightarrow> WorkspaceId \<Rightarrow> PrincipalId \<Rightarrow> string option \<Rightarrow> string \<Rightarrow> instant \<Rightarrow> RepositoryError + NewConversation"
where
  "new_conversation ident workspace owner title channel_origin created_at =
     (if is_some_and title (\<lambda>t. length t > MAX_TITLE_BYTES \<or> contains_nul t) then Err (RepositoryError.Conflict ''title'')
      else if channel_origin = [] \<or> contains_nul channel_origin then Err (RepositoryError.Conflict ''channel_origin'')
      else Ok \<lparr>nc_id = ident, nc_workspace_id = workspace, nc_owner_user_id = owner, nc_title = title,
               nc_channel_origin = channel_origin, nc_created_at = created_at\<rparr>)"

record StoredConversation =
  sc_id :: ConversationId
  sc_workspace_id :: WorkspaceId
  sc_owner_user_id :: PrincipalId
  sc_title :: "string option"
  sc_archived :: bool
  sc_created_at :: instant
  sc_updated_at :: instant

record NewMessage =
  nm_id :: MessageId
  nm_conversation_id :: ConversationId
  nm_role :: Role
  nm_content :: string
  nm_content_schema_version :: int
  nm_sensitivity :: string
  nm_source :: string
  nm_created_at :: instant

definition new_message_validated :: "NewMessage \<Rightarrow> RepositoryError + NewMessage" where
  "new_message_validated self =
     (if nm_content self = [] \<or> length (nm_content self) > MAX_CONTENT_BYTES \<or> contains_nul (nm_content self)
        then Err (RepositoryError.Conflict ''message_content'')
      else if nm_sensitivity self = [] \<or> nm_source self = [] then Err (RepositoryError.Conflict ''message_label'')
      else if nm_content_schema_version self < 1 then Err (RepositoryError.Conflict ''content_schema_version'')
      else Ok self)"

section \<open>Rows\<close>

record ConversationRow =
  vr_id :: ConversationId
  vr_workspace_id :: WorkspaceId
  vr_owner_user_id :: PrincipalId
  vr_title :: "string option"
  vr_status :: string
  vr_channel_origin :: string
  vr_created_at :: instant
  vr_updated_at :: instant
  vr_archived_at :: "instant option"

record MessageRow =
  mg_id :: MessageId
  mg_workspace_id :: WorkspaceId
  mg_conversation_id :: ConversationId
  mg_role :: string
  mg_content_schema_version :: int
  mg_content :: string
  mg_sensitivity :: string
  mg_source :: string
  mg_sequence :: int
  mg_created_at :: instant
  mg_deleted_at :: "instant option"

type_synonym ModelCallId = uuid

record ModelCallRow =
  ml_id :: ModelCallId
  ml_workspace_id :: WorkspaceId
  ml_run_id :: RunId
  ml_logical_call_id :: ModelCallId
  ml_attempt :: int
  ml_provider_id :: string
  ml_model_id :: string
  ml_model_revision :: "string option"
  ml_route_decision_id :: "ModelRouteDecisionId option"
  ml_state :: string
  ml_request_fingerprint :: "string option"
  ml_provider_request_id :: "string option"
  ml_continuation_ref :: "string option"
  ml_usage :: "Usage option"
  ml_estimated_cost_microunits :: "int option"
  ml_finish_reason :: "FinishReason option"
  ml_error_code :: "string option"
  ml_started_at :: instant
  ml_first_output_at :: "instant option"
  ml_last_output_at :: "instant option"
  ml_output_delta_count :: "int option"
  ml_completed_at :: "instant option"

text \<open>What a parked run continues from (\<open>repository/resume.rs\<close>). The row keeps the record itself, whose text is JSON.\<close>

record ResumeCall =
  rc_call_id :: string
  rc_capability :: string
  rc_arguments :: string

record ResumeObservation =
  rv_call_id :: string
  rv_capability :: string
  rv_arguments :: string
  rv_is_error :: bool
  rv_content :: string

record ResumeRecord =
  re_version :: u32
  re_run :: RunId
  re_workspace :: WorkspaceId
  re_conversation :: ConversationId
  re_approval :: uuid
  re_turn_index :: u32
  re_objective :: string
  re_objective_message :: "MessageId option"
  re_calls :: "ResumeCall list"
  re_waiting_index :: u32
  re_settled :: "ResumeObservation list"

record ResumeRow =
  rs_workspace_id :: WorkspaceId
  rs_run_id :: RunId
  rs_approval_id :: uuid
  rs_state_version :: int
  rs_state :: ResumeRecord
  rs_created_at :: string

record Database =
  db_runs :: RunStore
  db_conversations :: "ConversationRow list"
  db_messages :: "MessageRow list"
  db_calls :: "ModelCallRow list"
  db_resumes :: "ResumeRow list"

text \<open>An operation of the run store, and a statement on the other tables.\<close>

definition on_runs :: "(RunStore, 'e, 'a) eff \<Rightarrow> (Database, 'e, 'a) eff" where
  "on_runs m d = (case m (db_runs d) of (r, s) \<Rightarrow> (r, d\<lparr>db_runs := s\<rparr>))"

definition db_statement :: "(Database, RepositoryError, unit) eff" where
  "db_statement = on_runs run_statement"

definition db_execute :: "(Database \<Rightarrow> Database option) \<Rightarrow> (Database, RepositoryError, bool) eff" where
  "db_execute f =
     eff_try db_statement (\<lambda>r d.
       if isl r then (Ok False, d)
       else case f d of None \<Rightarrow> (Ok False, d) | Some d' \<Rightarrow> (Ok True, d'))"

section \<open>Conversations\<close>

definition new_conversation_row :: "NewConversation \<Rightarrow> ConversationRow" where
  "new_conversation_row conversation =
     \<lparr>vr_id = nc_id conversation, vr_workspace_id = nc_workspace_id conversation,
      vr_owner_user_id = nc_owner_user_id conversation, vr_title = nc_title conversation, vr_status = ''active'',
      vr_channel_origin = nc_channel_origin conversation, vr_created_at = nc_created_at conversation,
      vr_updated_at = nc_created_at conversation, vr_archived_at = None\<rparr>"

text \<open>The table of conversations is also what the foreign key of \<open>agent_runs\<close> refers to.\<close>

definition sql_insert_conversation :: "NewConversation \<Rightarrow> Database \<Rightarrow> Database option" where
  "sql_insert_conversation conversation d =
     (if list_ex (\<lambda>row. vr_id row = nc_id conversation) (db_conversations d) then None
      else Some (d\<lparr>db_conversations := db_conversations d @ [new_conversation_row conversation],
                    db_runs := (db_runs d)\<lparr>sr_conversations := sr_conversations (db_runs d) @ [nc_id conversation]\<rparr>\<rparr>))"

definition create_conversation :: "NewConversation \<Rightarrow> (Database, RepositoryError, unit) eff" where
  "create_conversation conversation =
     eff_bind (db_execute (sql_insert_conversation conversation)) (\<lambda>created.
       if created then eff_return () else eff_throw (RepositoryError.Conflict ''conversation''))"

definition conversation_at :: "WorkspaceId \<Rightarrow> ConversationId \<Rightarrow> ConversationRow \<Rightarrow> bool" where
  "conversation_at workspace conversation row \<longleftrightarrow> vr_workspace_id row = workspace \<and> vr_id row = conversation"

definition stored_conversation :: "ConversationRow \<Rightarrow> RepositoryError + StoredConversation" where
  "stored_conversation row =
     and_then (if vr_status row = ''archived'' then Ok True
               else if vr_status row = ''active'' then Ok False else Err (Corrupted ''status'')) (\<lambda>archived.
     and_then (parse_id ''id'' (vr_id row)) (\<lambda>ident.
     and_then (parse_id ''workspace_id'' (vr_workspace_id row)) (\<lambda>workspace.
     and_then (parse_id ''owner_user_id'' (vr_owner_user_id row)) (\<lambda>owner.
       Ok \<lparr>sc_id = ident, sc_workspace_id = workspace, sc_owner_user_id = owner, sc_title = vr_title row,
           sc_archived = archived, sc_created_at = vr_created_at row, sc_updated_at = vr_updated_at row\<rparr>))))"

definition load_conversation :: "WorkspaceId \<Rightarrow> ConversationId \<Rightarrow> (Database, RepositoryError, StoredConversation) eff" where
  "load_conversation workspace conversation =
     eff_bind db_statement (\<lambda>_ d.
       (case find (conversation_at workspace conversation) (db_conversations d) of
          None \<Rightarrow> (Err RepositoryError.NotFound, d)
        | Some row \<Rightarrow> (stored_conversation row, d)))"

section \<open>Messages\<close>

primrec role_str :: "Role \<Rightarrow> string" where
  "role_str Role.System = ''system''"
| "role_str Role.User = ''user''"
| "role_str Role.Assistant = ''assistant''"
| "role_str Role.Tool = ''tool''"

definition parse_role :: "string \<Rightarrow> RepositoryError + Role" where
  "parse_role value =
     (if value = ''system'' then Ok Role.System
      else if value = ''user'' then Ok Role.User
      else if value = ''assistant'' then Ok Role.Assistant
      else if value = ''tool'' then Ok Role.Tool
      else Err (Corrupted ''role''))"

text \<open>\<open>COALESCE(MAX(sequence), 0) + 1\<close> over the rows of the conversation, in whatever workspace.\<close>

definition next_message_sequence :: "ConversationId \<Rightarrow> Database \<Rightarrow> int" where
  "next_message_sequence conversation d =
     (case map mg_sequence (filter (\<lambda>r. mg_conversation_id r = conversation) (db_messages d)) of
        [] \<Rightarrow> 0 | x # xs \<Rightarrow> fold max xs x) + 1"

definition new_message_row :: "WorkspaceId \<Rightarrow> int \<Rightarrow> NewMessage \<Rightarrow> MessageRow" where
  "new_message_row workspace sequence message =
     \<lparr>mg_id = nm_id message, mg_workspace_id = workspace, mg_conversation_id = nm_conversation_id message,
      mg_role = role_str (nm_role message), mg_content_schema_version = nm_content_schema_version message,
      mg_content = nm_content message, mg_sensitivity = nm_sensitivity message, mg_source = nm_source message,
      mg_sequence = sequence, mg_created_at = nm_created_at message, mg_deleted_at = None\<rparr>"

definition sql_insert_message :: "WorkspaceId \<Rightarrow> NewMessage \<Rightarrow> Database \<Rightarrow> Database option" where
  "sql_insert_message workspace message d =
     (let row = new_message_row workspace (next_message_sequence (nm_conversation_id message) d) message in
      if mg_sequence row < 1 \<or>
         list_ex (\<lambda>r. mg_id r = mg_id row \<or>
            mg_conversation_id r = mg_conversation_id row \<and> mg_sequence r = mg_sequence row) (db_messages d) \<or>
         \<not> list_ex (\<lambda>r. vr_id r = nm_conversation_id message) (db_conversations d)
      then None else Some (d\<lparr>db_messages := db_messages d @ [row]\<rparr>))"

definition conversation_visible :: "WorkspaceId \<Rightarrow> ConversationId \<Rightarrow> (Database, RepositoryError, bool) eff" where
  "conversation_visible workspace conversation =
     eff_bind db_statement (\<lambda>_. eff_get (\<lambda>d. list_ex (conversation_at workspace conversation) (db_conversations d)))"

definition append_message :: "WorkspaceId \<Rightarrow> NewMessage \<Rightarrow> (Database, RepositoryError, u64) eff" where
  "append_message workspace message =
     eff_bind (db_execute (sql_insert_message workspace message)) (\<lambda>inserted.
       if \<not> inserted then
         eff_bind (conversation_visible workspace (nm_conversation_id message)) (\<lambda>visible.
           eff_throw (if visible then RepositoryError.Conflict ''message_sequence'' else RepositoryError.NotFound))
       else
         eff_bind db_statement (\<lambda>_ d.
           (case find (\<lambda>r. mg_id r = nm_id message \<and> mg_workspace_id r = workspace) (db_messages d) of
              None \<Rightarrow> (Err Query, d)
            | Some row \<Rightarrow>
                (if mg_sequence row \<ge> 2 ^ 63 then Err Query
                 else if mg_sequence row < 0 then Err (Corrupted ''sequence'')
                 else Ok (word_of_int (mg_sequence row)), d))))"

definition stored_message :: "MessageRow \<Rightarrow> RepositoryError + StoredMessage" where
  "stored_message row =
     (if mg_sequence row \<ge> 2 ^ 63 then Err (Corrupted ''sequence'')
      else
      and_then (parse_id ''id'' (mg_id row)) (\<lambda>ident.
      and_then (parse_id ''workspace_id'' (mg_workspace_id row)) (\<lambda>workspace.
      and_then (parse_id ''conversation_id'' (mg_conversation_id row)) (\<lambda>conversation.
      and_then (parse_role (mg_role row)) (\<lambda>role.
        if mg_sequence row < 0 then Err (Corrupted ''sequence'')
        else Ok \<lparr>sm_id = ident, sm_workspace_id = workspace, sm_conversation_id = conversation, sm_role = role,
                 sm_content = mg_content row, sm_sequence = word_of_int (mg_sequence row),
                 sm_sensitivity = mg_sensitivity row, sm_created_at = mg_created_at row\<rparr>)))))"

definition message_selected :: "WorkspaceId \<Rightarrow> ConversationId \<Rightarrow> int \<Rightarrow> MessageRow \<Rightarrow> bool" where
  "message_selected workspace conversation after row \<longleftrightarrow>
     mg_workspace_id row = workspace \<and> mg_conversation_id row = conversation \<and> mg_sequence row > after \<and>
     mg_deleted_at row = None"

definition load_messages ::
  "WorkspaceId \<Rightarrow> ConversationId \<Rightarrow> u64 option \<Rightarrow> u32 \<Rightarrow> (Database, RepositoryError, StoredMessage list) eff"
where
  "load_messages workspace conversation after_sequence limit =
     eff_bind (conversation_visible workspace conversation) (\<lambda>visible.
       if \<not> visible then eff_throw RepositoryError.NotFound
       else
         eff_bind (eff_lift (u64_to_i64 ''sequence'' (case after_sequence of None \<Rightarrow> 0 | Some n \<Rightarrow> n))) (\<lambda>after.
         eff_bind db_statement (\<lambda>_ d.
           (collect (map stored_message
              (take (clamp_page (unat limit) 500)
                (sort_key mg_sequence (filter (message_selected workspace conversation after) (db_messages d))))), d))))"

text \<open>The delete takes with it what refers to the conversation: its runs, and their events, idempotency
  records and model calls.\<close>

definition delete_conversation :: "WorkspaceId \<Rightarrow> ConversationId \<Rightarrow> Database \<Rightarrow> Database" where
  "delete_conversation workspace conversation d =
     (let s = db_runs d;
          gone = (\<lambda>run. list_ex (\<lambda>r. ru_id r = run \<and> ru_conversation_id r = conversation) (sr_runs s)) in
      d\<lparr>db_conversations := filter (\<lambda>r. \<not> conversation_at workspace conversation r) (db_conversations d),
        db_messages := filter (\<lambda>r. mg_conversation_id r \<noteq> conversation) (db_messages d),
        db_calls := filter (\<lambda>r. \<not> gone (ml_run_id r)) (db_calls d),
        db_runs := s\<lparr>sr_conversations := filter (\<lambda>c. c \<noteq> conversation) (sr_conversations s),
                    sr_runs := filter (\<lambda>r. ru_conversation_id r \<noteq> conversation) (sr_runs s),
                    sr_events := filter (\<lambda>r. \<not> gone (er_run_id r)) (sr_events s),
                    sr_records := filter (\<lambda>r. \<not> gone (ir_run_id r)) (sr_records s)\<rparr>\<rparr>)"

definition discard_if_empty :: "WorkspaceId \<Rightarrow> ConversationId \<Rightarrow> (Database, RepositoryError, bool) eff" where
  "discard_if_empty workspace conversation =
     eff_bind db_statement (\<lambda>_ d.
       if list_ex (conversation_at workspace conversation) (db_conversations d) \<and>
          \<not> list_ex (\<lambda>r. mg_conversation_id r = conversation) (db_messages d)
       then (Ok True, delete_conversation workspace conversation d)
       else (Ok False, d))"

section \<open>The positions of a conversation\<close>

definition messages_of :: "ConversationId \<Rightarrow> Database \<Rightarrow> MessageRow list" where
  "messages_of conversation d = filter (\<lambda>r. mg_conversation_id r = conversation) (db_messages d)"

definition numbered :: "MessageRow list \<Rightarrow> bool" where
  "numbered rows \<longleftrightarrow> map mg_sequence rows = map (\<lambda>i. int (Suc i)) [0..<length rows]"

definition conversations_ok :: "Database \<Rightarrow> bool" where
  "conversations_ok d \<longleftrightarrow>
     distinct (map vr_id (db_conversations d)) \<and> sr_conversations (db_runs d) = map vr_id (db_conversations d) \<and>
     distinct (map mg_id (db_messages d)) \<and> mg_conversation_id ` set (db_messages d) \<subseteq> vr_id ` set (db_conversations d) \<and>
     (\<forall>c. numbered (messages_of c d))"

lemma conversations_unique:
  "conversations_ok d \<Longrightarrow> r \<in> set (db_conversations d) \<Longrightarrow> r' \<in> set (db_conversations d) \<Longrightarrow> vr_id r = vr_id r' \<Longrightarrow> r = r'"
  by (simp add: conversations_ok_def distinct_map inj_on_def)

lemma numbered_Nil [simp]: "numbered []"
  by (simp add: numbered_def)

lemma numbered_snoc: "numbered rows \<Longrightarrow> mg_sequence row = int (Suc (length rows)) \<Longrightarrow> numbered (rows @ [row])"
  by (simp add: numbered_def)

lemma numbered_sorted: "numbered rows \<Longrightarrow> sorted (map mg_sequence rows)"
  by (simp add: numbered_def sorted_iff_nth_mono)

lemma numbered_bounds: "numbered rows \<Longrightarrow> r \<in> set rows \<Longrightarrow> 1 \<le> mg_sequence r \<and> mg_sequence r \<le> int (length rows)"
proof -
  assume "numbered rows" "r \<in> set rows"
  then have "mg_sequence r \<in> set (map (\<lambda>i. int (Suc i)) [0..<length rows])"
    unfolding numbered_def by (metis image_eqI set_map)
  then show ?thesis by auto
qed

lemma fold_max_sorted: "sorted (x # xs) \<Longrightarrow> fold max xs x = last (x # xs)" for x :: int
  by (induction xs arbitrary: x) (auto simp: max_def)

lemma next_message_sequence_numbered:
  assumes "numbered (messages_of c d)"
  shows "next_message_sequence c d = int (Suc (length (messages_of c d)))"
proof (cases "messages_of c d")
  case (Cons r rows)
  let ?seqs = "map mg_sequence (messages_of c d)"
  have "fold max (map mg_sequence rows) (mg_sequence r) = last ?seqs"
    using numbered_sorted [OF assms] fold_max_sorted by (simp add: Cons)
  also have "\<dots> = int (length (messages_of c d))"
    using assms Cons by (simp add: numbered_def last_map del: map_map)
  finally show ?thesis using Cons by (simp add: next_message_sequence_def messages_of_def)
qed (simp add: next_message_sequence_def messages_of_def)

text \<open>What the statements of the repository leave alone.\<close>

definition only_db_faults :: "Database \<Rightarrow> Database \<Rightarrow> bool" where
  "only_db_faults d d' \<longleftrightarrow>
     only_faults (db_runs d) (db_runs d') \<and> db_conversations d' = db_conversations d \<and>
     db_messages d' = db_messages d \<and> db_calls d' = db_calls d \<and> db_resumes d' = db_resumes d"

lemma reflp_only_db_faults [effect_rules]: "reflp only_db_faults"
  by (simp add: reflp_def only_db_faults_def)

lemma transp_only_db_faults [effect_rules]: "transp only_db_faults"
  by (rule transpI) (auto simp: only_db_faults_def intro: only_faults_trans)

lemma db_statement_faults [effect_rules]: "advances only_db_faults db_statement"
  by (auto simp: advances_def db_statement_def on_runs_def only_db_faults_def split: prod.split dest: run_statement_faults)

lemma only_db_faults_ok: "only_db_faults d d' \<Longrightarrow> conversations_ok d' = conversations_ok d"
  using only_faults_fields [of "db_runs d" "db_runs d'"]
  by (simp add: only_db_faults_def conversations_ok_def messages_of_def)

lemma db_execute_cases:
  assumes "db_execute f d = (r, d')"
  shows "(r = Ok False \<and> only_db_faults d d') \<or> (r = Ok True \<and> (\<exists>m. only_db_faults d m \<and> f m = Some d'))"
proof -
  obtain t m where t: "db_statement d = (t, m)" by fastforce
  then have "only_db_faults d m" using advancesD [OF db_statement_faults] by blast
  with assms t show ?thesis
    by (auto simp: db_execute_def eff_try_def split: if_split_asm option.split_asm)
qed

lemma insert_conversation_ok: "sql_insert_conversation c d = Some d' \<Longrightarrow> conversations_ok d \<Longrightarrow> conversations_ok d'"
  by (auto 0 3 simp: sql_insert_conversation_def conversations_ok_def messages_of_def new_conversation_row_def list_ex_key
      split: if_split_asm)

lemma insert_message_SomeD:
  "sql_insert_message ws m d = Some d' \<Longrightarrow>
     d' = d\<lparr>db_messages := db_messages d @ [new_message_row ws (next_message_sequence (nm_conversation_id m) d) m]\<rparr> \<and>
     nm_id m \<notin> mg_id ` set (db_messages d) \<and> nm_conversation_id m \<in> vr_id ` set (db_conversations d)"
  unfolding list_ex_key [symmetric]
  by (auto simp: sql_insert_message_def Let_def new_message_row_def list_ex_iff split: if_split_asm)

lemma insert_message_ok:
  assumes "sql_insert_message ws m d = Some d'" and "conversations_ok d"
  shows "conversations_ok d'"
proof -
  note s = insert_message_SomeD [OF assms(1)]
  have num: "numbered (messages_of c d)" for c using assms(2) by (simp add: conversations_ok_def)
  have "numbered (messages_of c d')" for c
  proof (cases "c = nm_conversation_id m")
    case True
    then have "messages_of c d' = messages_of c d @ [new_message_row ws (next_message_sequence c d) m]"
      using s by (simp add: messages_of_def new_message_row_def)
    with num [of c] show ?thesis
      by (simp add: numbered_snoc next_message_sequence_numbered new_message_row_def)
  next
    case False
    then have "messages_of c d' = messages_of c d" using s by (simp add: messages_of_def new_message_row_def)
    with num [of c] show ?thesis by simp
  qed
  with s assms(2) show ?thesis by (auto simp: conversations_ok_def new_message_row_def)
qed

lemma db_execute_ok:
  assumes "\<And>m d'. f m = Some d' \<Longrightarrow> conversations_ok m \<Longrightarrow> conversations_ok d'"
  shows "preserves conversations_ok (db_execute f)"
  unfolding preserves_def using db_execute_cases [of f] only_db_faults_ok assms by (metis prod.collapse)

lemma faults_only_ok: "advances only_db_faults m \<Longrightarrow> preserves conversations_ok m"
  unfolding advances_def preserves_def using only_db_faults_ok by blast

lemma db_statement_ok [effect_rules]: "preserves conversations_ok db_statement"
  by (rule faults_only_ok [OF db_statement_faults])

lemma conversation_visible_faults [effect_rules]: "advances only_db_faults (conversation_visible ws c)"
  unfolding conversation_visible_def by (intro effect_rules)

lemma create_conversation_ok: "preserves conversations_ok (create_conversation c)"
  unfolding create_conversation_def
  by (rule preserves_bind [OF db_execute_ok]) (auto intro: insert_conversation_ok effect_rules)

lemma advances_read: "(\<And>d. snd (f d) = d) \<Longrightarrow> reflp R \<Longrightarrow> advances R f"
  by (simp add: advances_def reflp_def)

lemma preserves_read: "(\<And>d. snd (f d) = d) \<Longrightarrow> preserves I f"
  by (simp add: preserves_def)

lemma append_message_ok: "preserves conversations_ok (append_message ws m)"
proof -
  have "preserves conversations_ok (db_execute (sql_insert_message ws m))"
    by (rule db_execute_ok) (rule insert_message_ok)
  moreover have "preserves conversations_ok (conversation_visible ws (nm_conversation_id m))"
    by (rule faults_only_ok [OF conversation_visible_faults])
  ultimately show ?thesis
    unfolding append_message_def
    by (intro preserves_bind [of conversations_ok "db_execute (sql_insert_message ws m)"])
       (simp_all add: preserves_bind preserves_throw preserves_bind [OF db_statement_ok] preserves_read split: option.split)
qed

lemma load_messages_faults: "advances only_db_faults (load_messages ws c after limit)"
proof -
  have "advances only_db_faults (\<lambda>d. (g d, d))" for g :: "Database \<Rightarrow> RepositoryError + StoredMessage list"
    by (rule advances_read) (simp_all add: effect_rules)
  then show ?thesis
    unfolding load_messages_def
    by (intro advances_bind transp_only_db_faults conversation_visible_faults)
       (simp add: advances_throw advances_lift advances_bind reflp_only_db_faults transp_only_db_faults db_statement_faults)
qed

lemma delete_conversation_ok:
  assumes "conversations_ok d" and "list_ex (conversation_at ws c) (db_conversations d)"
  shows "conversations_ok (delete_conversation ws c d)"
proof -
  have same: "conversation_at ws c r \<longleftrightarrow> vr_id r = c" if "r \<in> set (db_conversations d)" for r
    using assms that by (auto simp: conversations_ok_def list_ex_iff conversation_at_def distinct_map inj_on_def)
  then have rows: "filter (\<lambda>r. \<not> conversation_at ws c r) (db_conversations d) = filter (\<lambda>r. vr_id r \<noteq> c) (db_conversations d)"
    by (intro filter_cong) auto
  have "messages_of c' (delete_conversation ws c d) = (if c' = c then [] else messages_of c' d)" for c'
    by (auto simp: messages_of_def delete_conversation_def Let_def filter_empty_conv intro!: filter_cong)
  with assms(1) show ?thesis
    by (auto simp: conversations_ok_def delete_conversation_def Let_def rows distinct_map_filter filter_map comp_def)
qed

lemma discard_if_empty_ok: "preserves conversations_ok (discard_if_empty ws c)"
  unfolding discard_if_empty_def
  by (intro preserves_bind db_statement_ok) (auto simp: preserves_def delete_conversation_ok)

section \<open>Reading a conversation\<close>

lemma stored_message_OkD:
  "stored_message row = Ok m \<Longrightarrow>
     sm_id m = mg_id row \<and> sm_content m = mg_content row \<and> sm_sequence m = word_of_int (mg_sequence row) \<and>
     0 \<le> mg_sequence row \<and> mg_sequence row < 2 ^ 63 \<and> uint (sm_sequence m) = mg_sequence row"
  by (auto simp: stored_message_def and_then_Ok_iff parse_id_Ok_iff uint_word_of_int split: if_split_asm)

lemma load_messages_OkD:
  assumes "load_messages ws c after limit d = (Ok page, d')"
  shows "list_ex (conversation_at ws c) (db_conversations d) \<and>
    collect (map stored_message (take (clamp_page (unat limit) 500)
      (sort_key mg_sequence (filter (message_selected ws c (uint (case after of None \<Rightarrow> 0 | Some n \<Rightarrow> n))) (db_messages d))))) =
      Ok page"
proof -
  obtain r d1 where v: "db_statement d = (r, d1)" by fastforce
  have same: "only_db_faults d d1" using advancesD [OF db_statement_faults v] .
  from assms v obtain d2 where "db_statement d1 = (Ok (), d2)"
    and vis: "list_ex (conversation_at ws c) (db_conversations d1)"
    and col: "collect (map stored_message (take (clamp_page (unat limit) 500)
      (sort_key mg_sequence (filter (message_selected ws c (uint (case after of None \<Rightarrow> 0 | Some n \<Rightarrow> n))) (db_messages d2))))) =
      Ok page"
    by (auto simp: load_messages_def conversation_visible_def eff_bind_def u64_to_i64_Ok_iff
        split: sum.split_asm prod.split_asm if_split_asm)
  then have "only_db_faults d1 d2" using advancesD [OF db_statement_faults] by blast
  with same vis col show ?thesis by (simp add: only_db_faults_def)
qed

lemma selected_of_conversation:
  assumes "conversations_ok d"
  shows "sort_key mg_sequence (filter (message_selected ws c after) (db_messages d)) =
         filter (message_selected ws c after) (messages_of c d)"
proof -
  have "filter (message_selected ws c after) (db_messages d) = filter (message_selected ws c after) (messages_of c d)"
    by (auto simp: messages_of_def message_selected_def intro!: filter_cong)
  moreover have "sorted (map mg_sequence (filter (message_selected ws c after) (messages_of c d)))"
    using assms by (intro sorted_filter numbered_sorted) (simp add: conversations_ok_def)
  ultimately show ?thesis by (simp add: sorted_sort_id sort_key_id_if_sorted)
qed

lemma oldest_page:
  assumes "conversations_ok d" and "load_messages ws c None limit d = (Ok page, d')"
    and "list_all (\<lambda>r. mg_workspace_id r = ws \<and> mg_deleted_at r = None) (messages_of c d)"
  shows "map (\<lambda>m. uint (sm_sequence m)) page = map mg_sequence (take (clamp_page (unat limit) 500) (messages_of c d)) \<and>
         map sm_id page = map mg_id (take (clamp_page (unat limit) 500) (messages_of c d))"
proof -
  have num: "numbered (messages_of c d)" using assms(1) by (simp add: conversations_ok_def)
  have "filter (message_selected ws c 0) (messages_of c d) = messages_of c d"
  proof (rule filter_True, rule ballI)
    fix r assume r: "r \<in> set (messages_of c d)"
    with assms(3) numbered_bounds [OF num r] show "message_selected ws c 0 r"
      by (simp add: message_selected_def list_all_iff) (simp add: messages_of_def)
  qed
  with load_messages_OkD [OF assms(2)] selected_of_conversation [OF assms(1), of ws c 0]
  have "collect (map stored_message (take (clamp_page (unat limit) 500) (messages_of c d))) = Ok page" by simp
  then have "list_all2 (\<lambda>r m. stored_message r = Ok m) (take (clamp_page (unat limit) 500) (messages_of c d)) page"
    by (simp add: collect_Ok_iff list_all2_map1)
  then show ?thesis
    by (induction rule: list_all2_induct) (auto dest: stored_message_OkD)
qed

lemma uint_small: "0 \<le> i \<Longrightarrow> i < 2 ^ 63 \<Longrightarrow> uint (word_of_int i :: u64) = i"
  by (simp add: uint_word_of_int)

lemma find_fresh: "x \<notin> f ` set rows \<Longrightarrow> find (\<lambda>r. f r = x \<and> q r) rows = None"
  by (induction rows) auto

lemma append_message_OkD:
  assumes "conversations_ok d" and "append_message ws m d = (Ok n, d1)"
  shows "db_messages d1 = db_messages d @ [new_message_row ws (int (Suc (length (messages_of (nm_conversation_id m) d)))) m] \<and>
    nm_id m \<notin> mg_id ` set (db_messages d) \<and> db_conversations d1 = db_conversations d \<and>
    uint n = int (Suc (length (messages_of (nm_conversation_id m) d))) \<and> uint n < 2 ^ 63"
proof -
  let ?c = "nm_conversation_id m"
  let ?row = "new_message_row ws (int (Suc (length (messages_of ?c d)))) m"
  obtain r d0 where r: "db_execute (sql_insert_message ws m) d = (r, d0)" by fastforce
  with assms(2) have "r = Ok True"
    using db_execute_cases [OF r] by (auto simp: append_message_def eff_bind_run)
  with db_execute_cases [OF r] obtain e where e: "only_db_faults d e" "sql_insert_message ws m e = Some d0" by auto
  from assms(2) r \<open>r = Ok True\<close> obtain row where row:
    "find (\<lambda>r. mg_id r = nm_id m \<and> mg_workspace_id r = ws) (db_messages d1) = Some row"
    "0 \<le> mg_sequence row" "mg_sequence row < 2 ^ 63" "n = word_of_int (mg_sequence row)" and "db_statement d0 = (Ok (), d1)"
    by (auto simp: append_message_def eff_bind_def split: sum.split_asm prod.split_asm option.split_asm if_split_asm)
  then have e': "only_db_faults d0 d1" using advancesD [OF db_statement_faults] by blast
  have "numbered (messages_of ?c e)" "messages_of ?c e = messages_of ?c d"
    using assms(1) e(1) only_db_faults_ok [OF e(1)] by (simp_all add: conversations_ok_def only_db_faults_def messages_of_def)
  then have rows: "db_messages d1 = db_messages d @ [?row]" and fresh: "nm_id m \<notin> mg_id ` set (db_messages d)"
    and same: "db_conversations d1 = db_conversations d"
    using insert_message_SomeD [OF e(2)] e(1) e' next_message_sequence_numbered [of ?c e]
    by (simp_all add: only_db_faults_def)
  have "row = ?row"
    using row(1) find_fresh [OF fresh] by (simp add: rows find_append new_message_row_def)
  moreover have "uint n = mg_sequence row" using row(2-4) by (simp add: uint_small)
  ultimately show ?thesis using row(3) rows fresh same by (simp add: new_message_row_def)
qed

lemma no_fault: "sr_faults (db_runs d) = [] \<Longrightarrow> db_statement d = (Ok (), d)"
  by (simp add: db_statement_def on_runs_def run_statement_def)

lemma load_messages_runs:
  assumes "sr_faults (db_runs d) = []" and "list_ex (conversation_at ws c) (db_conversations d)" and "unat n < 2 ^ 63"
  shows "load_messages ws c (Some n) limit d =
    (collect (map stored_message (take (clamp_page (unat limit) 500)
       (sort_key mg_sequence (filter (message_selected ws c (uint n)) (db_messages d))))), d)"
  using assms by (simp add: load_messages_def conversation_visible_def eff_bind_def no_fault u64_to_i64_def)

lemma append_message_runs:
  assumes "sr_faults (db_runs d) = []" and "conversations_ok d" and "nm_id m \<notin> mg_id ` set (db_messages d)"
    and "nm_conversation_id m \<in> vr_id ` set (db_conversations d)" and "length (messages_of (nm_conversation_id m) d) < 2 ^ 63 - 1"
  shows "append_message ws m d =
    (Ok (of_nat (Suc (length (messages_of (nm_conversation_id m) d)))),
     d\<lparr>db_messages := db_messages d @
        [new_message_row ws (int (Suc (length (messages_of (nm_conversation_id m) d)))) m]\<rparr>)"
proof -
  let ?c = "nm_conversation_id m"
  let ?n = "length (messages_of ?c d)"
  let ?row = "new_message_row ws (int (Suc ?n)) m"
  let ?d = "d\<lparr>db_messages := db_messages d @ [?row]\<rparr>"
  have num: "numbered (messages_of ?c d)" using assms(2) by (simp add: conversations_ok_def)
  have "\<not> list_ex (\<lambda>r. mg_id r = nm_id m \<or> mg_conversation_id r = ?c \<and> mg_sequence r = int (Suc ?n)) (db_messages d)"
  proof -
    have "mg_sequence r \<noteq> int (Suc ?n)" if "r \<in> set (db_messages d)" "mg_conversation_id r = ?c" for r
      using numbered_bounds [OF num, of r] that by (simp add: messages_of_def)
    with assms(3) show ?thesis by (auto simp: list_ex_iff image_iff)
  qed
  then have "sql_insert_message ws m d = Some ?d"
    using assms(4) next_message_sequence_numbered [OF num]
    by (simp add: sql_insert_message_def Let_def new_message_row_def list_ex_key)
  moreover have "find (\<lambda>r. mg_id r = nm_id m \<and> mg_workspace_id r = ws) (db_messages d @ [?row]) = Some ?row"
  proof -
    have "find (\<lambda>r. mg_id r = nm_id m \<and> mg_workspace_id r = ws) (db_messages d) = None"
      by (rule find_fresh [OF assms(3)])
    then show ?thesis by (simp add: find_append new_message_row_def)
  qed
  moreover have "int (Suc ?n) < 2 ^ 63" using assms(5) by simp
  ultimately show ?thesis
    using assms(1)
    by (simp add: append_message_def db_execute_def eff_try_def eff_bind_def no_fault new_message_row_def)
qed

section \<open>Properties\<close>

definition empty_database :: "bool list \<Rightarrow> Database" where
  "empty_database faults =
     \<lparr>db_runs = \<lparr>sr_faults = faults, sr_conversations = [], sr_runs = [], sr_events = [], sr_records = [], sr_parked = []\<rparr>,
      db_conversations = [], db_messages = [], db_calls = [], db_resumes = []\<rparr>"

inductive conversation_step :: "Database \<Rightarrow> Database \<Rightarrow> bool" where
  step_create: "create_conversation c d = (r, d') \<Longrightarrow> conversation_step d d'"
| step_append: "append_message ws m d = (r, d') \<Longrightarrow> conversation_step d d'"
| step_load: "load_messages ws c after limit d = (r, d') \<Longrightarrow> conversation_step d d'"
| step_discard: "discard_if_empty ws c d = (r, d') \<Longrightarrow> conversation_step d d'"

lemma conversation_step_ok: "conversation_step d d' \<Longrightarrow> conversations_ok d \<Longrightarrow> conversations_ok d'"
  by (induction rule: conversation_step.induct)
     (auto dest: preservesD [OF create_conversation_ok] preservesD [OF append_message_ok]
        preservesD [OF discard_if_empty_ok] preservesD [OF faults_only_ok [OF load_messages_faults]])

lemma conversation_history_ok: "conversation_step\<^sup>*\<^sup>* d d' \<Longrightarrow> conversations_ok d \<Longrightarrow> conversations_ok d'"
  by (induction rule: rtranclp_induct) (auto intro: conversation_step_ok)

text \<open>C30: However the operations of the conversation store follow each other, and wherever a statement fails,
  the messages of every conversation are numbered 1, 2, 3, without a gap in the order of their insertion, no
  message has two rows, and each belongs to a conversation that exists.\<close>

theorem message_positions_are_dense:
  assumes "conversation_step\<^sup>*\<^sup>* (empty_database faults) d"
  shows "map mg_sequence (messages_of c d) = map (\<lambda>i. int (Suc i)) [0..<length (messages_of c d)] \<and>
         distinct (map mg_id (db_messages d)) \<and>
         mg_conversation_id ` set (db_messages d) \<subseteq> set (sr_conversations (db_runs d))"
proof -
  have "conversations_ok (empty_database faults)"
    by (simp add: conversations_ok_def empty_database_def messages_of_def)
  from conversation_history_ok [OF assms this] show ?thesis
    by (simp add: conversations_ok_def numbered_def)
qed

text \<open>C31: A message appended to a conversation of the caller's own workspace is read back: on a consistent database,
  when the identifiers of the message, the workspace and the conversation are ones the store reads back (neither nil
  nor maximal) and no statement fails after the append, the page after the position before the one the message was
  given holds exactly that message, with the content, the role, the label and the instant it was appended with.\<close>

theorem appended_message_is_read_back:
  assumes "conversations_ok d" and "append_message ws m d = (Ok n, d1)" and "sr_faults (db_runs d1) = []"
    and "list_ex (conversation_at ws (nm_conversation_id m)) (db_conversations d)"
    and "list_all canonical_id [nm_id m, ws, nm_conversation_id m]"
  shows "load_messages ws (nm_conversation_id m) (Some (n - 1)) limit d1 =
    (Ok [\<lparr>sm_id = nm_id m, sm_workspace_id = ws, sm_conversation_id = nm_conversation_id m, sm_role = nm_role m,
          sm_content = nm_content m, sm_sequence = n, sm_sensitivity = nm_sensitivity m, sm_created_at = nm_created_at m\<rparr>], d1)"
proof -
  let ?c = "nm_conversation_id m"
  let ?n = "length (messages_of ?c d)"
  let ?row = "new_message_row ws (int (Suc ?n)) m"
  have ok1: "conversations_ok d1" using preservesD [OF append_message_ok assms(1,2)] .
  note a = append_message_OkD [OF assms(1,2)]
  have before: "uint (n - 1) = int ?n"
  proof -
    have "n = word_of_int (int (Suc ?n))" using a by (metis word_of_int_uint)
    then have "n - 1 = word_of_int (int ?n)" by (simp add: wi_hom_sub [symmetric])
    moreover have "int ?n < 2 ^ 63" using a by simp
    ultimately show ?thesis using uint_small [of "int ?n"] by simp
  qed
  have num: "numbered (messages_of ?c d)" using assms(1) by (simp add: conversations_ok_def)
  have "filter (message_selected ws ?c (int ?n)) (messages_of ?c d) = []"
    using numbered_bounds [OF num] by (force simp: filter_empty_conv message_selected_def)
  then have "filter (message_selected ws ?c (uint (n - 1))) (messages_of ?c d1) = [?row]"
    using a by (simp add: before messages_of_def) (simp add: message_selected_def new_message_row_def)
  moreover have "stored_message ?row = Ok \<lparr>sm_id = nm_id m, sm_workspace_id = ws, sm_conversation_id = ?c,
      sm_role = nm_role m, sm_content = nm_content m, sm_sequence = n, sm_sensitivity = nm_sensitivity m,
      sm_created_at = nm_created_at m\<rparr>"
  proof -
    have "parse_role (role_str (nm_role m)) = Ok (nm_role m)" by (cases "nm_role m") (simp_all add: parse_role_def)
    moreover have "n = word_of_int (int (Suc ?n))" using a by (metis word_of_int_uint)
    ultimately show ?thesis using a assms(5) by (simp add: stored_message_def new_message_row_def)
  qed
  ultimately have page: "collect (map stored_message (take (clamp_page (unat limit) 500)
      (sort_key mg_sequence (filter (message_selected ws ?c (uint (n - 1))) (db_messages d1))))) =
      Ok [\<lparr>sm_id = nm_id m, sm_workspace_id = ws, sm_conversation_id = ?c,
      sm_role = nm_role m, sm_content = nm_content m, sm_sequence = n, sm_sensitivity = nm_sensitivity m,
      sm_created_at = nm_created_at m\<rparr>]"
    by (simp add: selected_of_conversation [OF ok1] clamp_page_def take_Cons')
  have "unat (n - 1) < 2 ^ 63" using before a by (simp add: unat_eq_nat_uint nat_less_iff)
  then have "load_messages ws ?c (Some (n - 1)) limit d1 = (collect (map stored_message (take (clamp_page (unat limit) 500)
      (sort_key mg_sequence (filter (message_selected ws ?c (uint (n - 1))) (db_messages d1))))), d1)"
    using assms(3,4) a by (intro load_messages_runs) simp_all
  with page show ?thesis by simp
qed

text \<open>C32: A message is accepted for a conversation of another workspace: the foreign key names the conversation
  alone, so the append of a caller who cannot see the conversation succeeds, takes the next position there, and
  leaves a row that neither workspace reads.\<close>

theorem foreign_append_is_accepted:
  assumes "sr_faults (db_runs d) = []" and "conversations_ok d" and "nm_id m \<notin> mg_id ` set (db_messages d)"
    and "list_ex (conversation_at owner (nm_conversation_id m)) (db_conversations d)" and "ws \<noteq> owner"
    and "length (messages_of (nm_conversation_id m) d) < 2 ^ 63 - 1"
  shows "\<exists>d'. append_message ws m d = (Ok (of_nat (Suc (length (messages_of (nm_conversation_id m) d)))), d') \<and>
     load_messages ws (nm_conversation_id m) after limit d' = (Err RepositoryError.NotFound, d') \<and>
     filter (message_selected owner (nm_conversation_id m) 0) (db_messages d') =
       filter (message_selected owner (nm_conversation_id m) 0) (db_messages d) \<and>
     next_message_sequence (nm_conversation_id m) d' = next_message_sequence (nm_conversation_id m) d + 1"
proof -
  let ?c = "nm_conversation_id m"
  let ?n = "length (messages_of ?c d)"
  let ?d = "d\<lparr>db_messages := db_messages d @ [new_message_row ws (int (Suc ?n)) m]\<rparr>"
  have "?c \<in> vr_id ` set (db_conversations d)" using assms(4) by (force simp: list_ex_iff conversation_at_def)
  from append_message_runs [OF assms(1-3) this assms(6)]
  have run: "append_message ws m d = (Ok (of_nat (Suc ?n)), ?d)" .
  have "conversations_ok ?d" using preservesD [OF append_message_ok assms(2) run] .
  then have "next_message_sequence ?c ?d = int (Suc (length (messages_of ?c ?d)))"
    by (intro next_message_sequence_numbered) (simp only: conversations_ok_def)
  moreover have "next_message_sequence ?c d = int (Suc ?n)"
    using assms(2) by (intro next_message_sequence_numbered) (simp only: conversations_ok_def)
  moreover have "length (messages_of ?c ?d) = Suc ?n" by (simp add: messages_of_def new_message_row_def)
  ultimately have "next_message_sequence ?c ?d = next_message_sequence ?c d + 1" by (simp only: of_nat_Suc)
  moreover have "\<not> list_ex (conversation_at ws ?c) (db_conversations d)"
  proof
    assume "list_ex (conversation_at ws ?c) (db_conversations d)"
    then obtain r where "r \<in> set (db_conversations d)" "vr_id r = ?c" "vr_workspace_id r = ws"
      by (auto simp: list_ex_iff conversation_at_def)
    moreover from assms(4) obtain r' where "r' \<in> set (db_conversations d)" "vr_id r' = ?c" "vr_workspace_id r' = owner"
      by (auto simp: list_ex_iff conversation_at_def)
    ultimately show False using conversations_unique [OF assms(2)] assms(5) by metis
  qed
  then have "load_messages ws ?c after limit ?d = (Err RepositoryError.NotFound, ?d)"
    using assms(1) by (simp add: load_messages_def conversation_visible_def eff_bind_def no_fault)
  moreover have "filter (message_selected owner ?c 0) (db_messages ?d) = filter (message_selected owner ?c 0) (db_messages d)"
    using assms(5) by (simp add: message_selected_def new_message_row_def)
  ultimately show ?thesis using run by blast
qed

section \<open>Witnesses\<close>

definition sample_conversation :: NewConversation where
  "sample_conversation =
     \<lparr>nc_id = 7, nc_workspace_id = 3, nc_owner_user_id = 4, nc_title = None, nc_channel_origin = ''cli'', nc_created_at = 1\<rparr>"

definition sample_new_message :: "uuid \<Rightarrow> NewMessage" where
  "sample_new_message ident =
     \<lparr>nm_id = ident, nm_conversation_id = 7, nm_role = Role.User, nm_content = ''hi'', nm_content_schema_version = 1,
      nm_sensitivity = ''internal'', nm_source = ''cli'', nm_created_at = 2\<rparr>"

definition sample_database :: Database where
  "sample_database = snd (create_conversation sample_conversation (empty_database []))"

lemma sample_database_eq:
  "sample_database = (empty_database [])\<lparr>db_conversations := [new_conversation_row sample_conversation],
     db_runs := (db_runs (empty_database []))\<lparr>sr_conversations := [7]\<rparr>\<rparr>"
  by (simp add: sample_database_def create_conversation_def db_execute_def eff_try_def eff_bind_def no_fault
      sql_insert_conversation_def empty_database_def sample_conversation_def)

lemma sample_database_reached: "conversation_step\<^sup>*\<^sup>* (empty_database []) sample_database"
  unfolding sample_database_def by (metis prod.collapse r_into_rtranclp step_create)

lemma sample_database_facts:
  "sr_faults (db_runs sample_database) = []" "conversations_ok sample_database" "db_messages sample_database = []"
  "list_ex (conversation_at 3 7) (db_conversations sample_database)"
  using conversation_history_ok [OF sample_database_reached]
  by (simp_all add: sample_database_eq empty_database_def conversations_ok_def messages_of_def conversation_at_def
      new_conversation_row_def sample_conversation_def)

theorem message_positions_are_dense_witness:
  "\<exists>d. conversation_step\<^sup>*\<^sup>* (empty_database []) d \<and> map mg_sequence (messages_of 7 d) = [1, 2]"
proof -
  define d1 where "d1 = snd (append_message 3 (sample_new_message 11) sample_database)"
  define d2 where "d2 = snd (append_message 3 (sample_new_message 12) d1)"
  have "conversation_step sample_database d1" "conversation_step d1 d2"
    unfolding d1_def d2_def by (rule step_append, rule prod.collapse [symmetric])+
  then have h: "conversation_step\<^sup>*\<^sup>* (empty_database []) d2"
    using sample_database_reached by (meson rtranclp.rtrancl_into_rtrancl)
  have "length (messages_of 7 d2) = 2"
    by (simp add: d2_def d1_def sample_database_eq empty_database_def append_message_def db_execute_def eff_try_def
        eff_bind_def no_fault sql_insert_message_def Let_def next_message_sequence_def new_message_row_def
        sample_new_message_def new_conversation_row_def sample_conversation_def messages_of_def)
  with message_positions_are_dense [OF h, of 7] h show ?thesis by (auto simp: numeral_2_eq_2)
qed

theorem appended_message_is_read_back_witness:
  "\<exists>d1. append_message 3 (sample_new_message 11) sample_database = (Ok 1, d1) \<and>
     (\<exists>m. load_messages 3 7 (Some 0) 10 d1 = (Ok [m], d1) \<and> sm_content m = ''hi'')"
proof -
  let ?m = "sample_new_message 11"
  have c: "nm_conversation_id ?m = 7" "nm_id ?m = 11" "nm_content ?m = ''hi''" by (simp_all add: sample_new_message_def)
  obtain d1 where d1: "append_message 3 ?m sample_database = (Ok 1, d1)" "sr_faults (db_runs d1) = []"
    using append_message_runs [of sample_database ?m 3] sample_database_facts
    by (auto simp: c messages_of_def list_ex_iff conversation_at_def)
  have "list_all canonical_id [nm_id ?m, 3, nm_conversation_id ?m]" by (simp add: c canonical_id_def)
  from appended_message_is_read_back [OF sample_database_facts(2) d1 _ this, of 10] sample_database_facts(4) d1(1)
  show ?thesis by (simp add: c)
qed

theorem foreign_append_is_accepted_witness:
  "\<exists>d'. append_message 5 (sample_new_message 11) sample_database = (Ok 1, d') \<and>
     load_messages 5 7 None 10 d' = (Err RepositoryError.NotFound, d')"
proof -
  let ?m = "sample_new_message 11"
  have c: "nm_conversation_id ?m = 7" "nm_id ?m = 11" by (simp_all add: sample_new_message_def)
  from foreign_append_is_accepted [of sample_database ?m 3 5 None 10] sample_database_facts
  show ?thesis by (auto simp: c messages_of_def)
qed

end
