(* ===== verification/Model_Call_Store.thy ===== *)
theory Model_Call_Store
  imports Conversation_Store
begin

text \<open>
  The record of model calls: \<open>jarvis-application/src/repository/model_call.rs\<close> and its implementation in
  \<open>jarvis-infrastructure/src/storage/repositories.rs\<close>. One row is one attempt of a logical call; it is inserted pending
  and given its outcome once. The text of an instant, which \<open>ORDER BY\<close> compares, is an argument, and so are
  the texts of identifiers and the milliseconds of an instant.
\<close>

section \<open>Values of the port\<close>

definition MAX_PROVIDER_REF_BYTES :: nat where "MAX_PROVIDER_REF_BYTES = 256"

datatype ModelCallState = Pending | Started | Streaming | Completed | Failed | Cancelled

primrec model_call_state_as_str :: "ModelCallState \<Rightarrow> string" where
  "model_call_state_as_str ModelCallState.Pending = ''pending''"
| "model_call_state_as_str ModelCallState.Started = ''started''"
| "model_call_state_as_str ModelCallState.Streaming = ''streaming''"
| "model_call_state_as_str ModelCallState.Completed = ''completed''"
| "model_call_state_as_str ModelCallState.Failed = ''failed''"
| "model_call_state_as_str ModelCallState.Cancelled = ''cancelled''"

definition model_call_state_all :: "ModelCallState list" where
  "model_call_state_all = [ModelCallState.Pending, ModelCallState.Started, ModelCallState.Streaming,
     ModelCallState.Completed, ModelCallState.Failed, ModelCallState.Cancelled]"

definition model_call_state_parse :: "string \<Rightarrow> RepositoryError + ModelCallState" where
  "model_call_state_parse value =
     ok_or (find (\<lambda>s. model_call_state_as_str s = value) model_call_state_all) (Corrupted ''state'')"

interpretation model_call_state_spelling:
  spelling model_call_state_all model_call_state_as_str "\<lambda>s. ok (model_call_state_parse s)"
proof unfold_locales
  show "x \<in> set model_call_state_all" for x by (cases x) (simp_all add: model_call_state_all_def)
  show "distinct (map model_call_state_as_str model_call_state_all)" by (simp add: model_call_state_all_def)
qed (simp_all add: model_call_state_parse_def)

definition model_call_state_is_terminal :: "ModelCallState \<Rightarrow> bool" where
  "model_call_state_is_terminal s \<longleftrightarrow>
     s = ModelCallState.Completed \<or> s = ModelCallState.Failed \<or> s = ModelCallState.Cancelled"

record NewModelCall =
  nk_id :: ModelCallId
  nk_workspace_id :: WorkspaceId
  nk_run_id :: RunId
  nk_logical_call_id :: ModelCallId
  nk_attempt :: u32
  nk_model :: ModelRef
  nk_route_decision :: "ModelRouteDecisionId option"
  nk_request_fingerprint :: "string option"
  nk_started_at :: instant

definition bad_provider_ref :: "string \<Rightarrow> bool" where
  "bad_provider_ref value \<longleftrightarrow> value = [] \<or> length value > MAX_PROVIDER_REF_BYTES"

definition new_model_call_validated :: "NewModelCall \<Rightarrow> RepositoryError + NewModelCall" where
  "new_model_call_validated self =
     (if nk_attempt self = 0 then Err (RepositoryError.Conflict ''attempt'')
      else if is_some_and (nk_request_fingerprint self) bad_provider_ref
        then Err (RepositoryError.Conflict ''request_fingerprint'')
      else Ok self)"

record ModelCallOutcome =
  mo_state :: ModelCallState
  mo_provider_request_id :: "string option"
  mo_continuation_ref :: "string option"
  mo_usage :: "Usage option"
  mo_estimated_cost_microunits :: "u64 option"
  mo_finish_reason :: "FinishReason option"
  mo_error_code :: "string option"
  mo_first_output_at :: "instant option"
  mo_last_output_at :: "instant option"
  mo_output_delta_count :: "u32 option"
  mo_completed_at :: "instant option"

definition outcome_validated :: "ModelCallOutcome \<Rightarrow> RepositoryError + ModelCallOutcome" where
  "outcome_validated self =
     (if list_ex (\<lambda>reference. is_some_and reference bad_provider_ref) [mo_provider_request_id self, mo_continuation_ref self]
        then Err (RepositoryError.Conflict ''provider_reference'')
      else if model_call_state_is_terminal (mo_state self) \<and> mo_completed_at self = None
        then Err (RepositoryError.Conflict ''completed_at'')
      else if mo_last_output_at self \<noteq> None \<and> mo_first_output_at self = None
        then Err (RepositoryError.Conflict ''last_output_at'')
      else if is_some_and (mo_output_delta_count self) (\<lambda>deltas. deltas > 0) \<and> mo_first_output_at self = None
        then Err (RepositoryError.Conflict ''output_delta_count'')
      else Ok self)"

record StoredModelCall =
  sk_id :: ModelCallId
  sk_run_id :: RunId
  sk_logical_call_id :: ModelCallId
  sk_attempt :: u32
  sk_provider_id :: ProviderId
  sk_model_id :: ModelId
  sk_revision :: "ModelRevision option"
  sk_route_decision :: "ModelRouteDecisionId option"
  sk_finish_reason :: "FinishReason option"
  sk_state :: ModelCallState
  sk_provider_request_id :: "string option"
  sk_started_at :: instant
  sk_first_output_at :: "instant option"
  sk_last_output_at :: "instant option"
  sk_output_delta_count :: "u32 option"
  sk_usage :: "Usage option"
  sk_estimated_cost_microunits :: "u64 option"
  sk_completed_at :: "instant option"

record ModelDeliverySamples =
  dg_provider_id :: ProviderId
  dg_model_id :: ModelId
  dg_revision :: "ModelRevision option"
  dg_samples :: "IncrementalDelivery list"

section \<open>Reading a row\<close>

definition name_column :: "string \<Rightarrow> string \<Rightarrow> RepositoryError + string" where
  "name_column column value =
     (case owner_name_parse column value of Err _ \<Rightarrow> Err (Corrupted column) | Ok name \<Rightarrow> Ok name)"

definition opt_column :: "('a \<Rightarrow> RepositoryError + 'b) \<Rightarrow> 'a option \<Rightarrow> RepositoryError + 'b option" where
  "opt_column f value =
     (case value of None \<Rightarrow> Ok None | Some v \<Rightarrow> and_then (f v) (\<lambda>x. Ok (Some x)))"

definition u32_column :: "string \<Rightarrow> int \<Rightarrow> RepositoryError + u32" where
  "u32_column column i = (if 0 \<le> i \<and> i < 2 ^ 32 then Ok (word_of_int i) else Err (Corrupted column))"

definition u64_column :: "string \<Rightarrow> int \<Rightarrow> RepositoryError + u64" where
  "u64_column column i = (if 0 \<le> i \<and> i < 2 ^ 63 then Ok (word_of_int i) else Err (Corrupted column))"

definition stored_model_call :: "ModelCallRow \<Rightarrow> RepositoryError + StoredModelCall" where
  "stored_model_call row =
     and_then (parse_id ''id'' (ml_id row)) (\<lambda>ident.
     and_then (parse_id ''run_id'' (ml_run_id row)) (\<lambda>run.
     and_then (parse_id ''logical_call_id'' (ml_logical_call_id row)) (\<lambda>logical.
     and_then (u32_column ''attempt'' (ml_attempt row)) (\<lambda>attempt.
     and_then (name_column ''provider_id'' (ml_provider_id row)) (\<lambda>provider.
     and_then (name_column ''model_id'' (ml_model_id row)) (\<lambda>model.
     and_then (opt_column (name_column ''model_revision'') (ml_model_revision row)) (\<lambda>revision.
     and_then (opt_column (parse_id ''route_decision_id'') (ml_route_decision_id row)) (\<lambda>decision.
     and_then (model_call_state_parse (ml_state row)) (\<lambda>state.
     and_then (opt_column (u32_column ''output_delta_count'') (ml_output_delta_count row)) (\<lambda>deltas.
     and_then (opt_column (u64_column ''estimated_cost_microunits'') (ml_estimated_cost_microunits row)) (\<lambda>cost.
       Ok \<lparr>sk_id = ident, sk_run_id = run, sk_logical_call_id = logical, sk_attempt = attempt, sk_provider_id = provider,
           sk_model_id = model, sk_revision = revision, sk_route_decision = decision,
           sk_finish_reason = ml_finish_reason row, sk_state = state, sk_provider_request_id = ml_provider_request_id row,
           sk_started_at = ml_started_at row, sk_first_output_at = ml_first_output_at row,
           sk_last_output_at = ml_last_output_at row, sk_output_delta_count = deltas, sk_usage = ml_usage row,
           sk_estimated_cost_microunits = cost, sk_completed_at = ml_completed_at row\<rparr>)))))))))))"

section \<open>An attempt and its outcome\<close>

definition new_call_row :: "NewModelCall \<Rightarrow> ModelCallRow" where
  "new_call_row call =
     \<lparr>ml_id = nk_id call, ml_workspace_id = nk_workspace_id call, ml_run_id = nk_run_id call,
      ml_logical_call_id = nk_logical_call_id call, ml_attempt = uint (nk_attempt call),
      ml_provider_id = mr_provider_id (nk_model call), ml_model_id = mr_model_id (nk_model call),
      ml_model_revision = mr_revision (nk_model call), ml_route_decision_id = nk_route_decision call,
      ml_state = ''pending'', ml_request_fingerprint = nk_request_fingerprint call, ml_provider_request_id = None,
      ml_continuation_ref = None, ml_usage = None, ml_estimated_cost_microunits = None, ml_finish_reason = None,
      ml_error_code = None, ml_started_at = nk_started_at call, ml_first_output_at = None, ml_last_output_at = None,
      ml_output_delta_count = None, ml_completed_at = None\<rparr>"

definition sql_insert_call :: "NewModelCall \<Rightarrow> Database \<Rightarrow> Database option" where
  "sql_insert_call call d =
     (if nk_attempt call = 0 \<or>
         list_ex (\<lambda>r. ml_id r = nk_id call \<or>
            ml_logical_call_id r = nk_logical_call_id call \<and> ml_attempt r = uint (nk_attempt call)) (db_calls d) \<or>
         \<not> list_ex (\<lambda>r. ru_id r = nk_run_id call) (sr_runs (db_runs d))
      then None else Some (d\<lparr>db_calls := db_calls d @ [new_call_row call]\<rparr>))"

definition record_attempt :: "NewModelCall \<Rightarrow> (Database, RepositoryError, unit) eff" where
  "record_attempt call =
     eff_bind (db_execute (sql_insert_call call)) (\<lambda>inserted.
       if inserted then eff_return () else eff_throw (RepositoryError.Conflict ''logical_call_attempt''))"

definition call_at :: "WorkspaceId \<Rightarrow> ModelCallId \<Rightarrow> ModelCallRow \<Rightarrow> bool" where
  "call_at workspace call row \<longleftrightarrow> ml_workspace_id row = workspace \<and> ml_id row = call"

definition load_attempt :: "WorkspaceId \<Rightarrow> ModelCallId \<Rightarrow> (Database, RepositoryError, StoredModelCall) eff" where
  "load_attempt workspace call =
     eff_bind db_statement (\<lambda>_ d.
       (case find (call_at workspace call) (db_calls d) of
          None \<Rightarrow> (Err RepositoryError.NotFound, d)
        | Some row \<Rightarrow> (stored_model_call row, d)))"

definition outcome_row :: "ModelCallOutcome \<Rightarrow> ModelCallRow \<Rightarrow> ModelCallRow" where
  "outcome_row outcome row =
     row\<lparr>ml_state := model_call_state_as_str (mo_state outcome), ml_provider_request_id := mo_provider_request_id outcome,
         ml_continuation_ref := mo_continuation_ref outcome, ml_usage := mo_usage outcome,
         ml_estimated_cost_microunits :=
           Option.bind (mo_estimated_cost_microunits outcome) (\<lambda>v. if unat v < 2 ^ 63 then Some (uint v) else None),
         ml_finish_reason := mo_finish_reason outcome, ml_error_code := mo_error_code outcome,
         ml_first_output_at := mo_first_output_at outcome, ml_last_output_at := mo_last_output_at outcome,
         ml_output_delta_count := map_option uint (mo_output_delta_count outcome),
         ml_completed_at := mo_completed_at outcome\<rparr>"

definition call_row_open :: "WorkspaceId \<Rightarrow> ModelCallId \<Rightarrow> ModelCallRow \<Rightarrow> bool" where
  "call_row_open workspace call row \<longleftrightarrow>
     call_at workspace call row \<and> ml_state row \<notin> {''completed'', ''failed'', ''cancelled''}"

definition record_outcome :: "WorkspaceId \<Rightarrow> ModelCallId \<Rightarrow> ModelCallOutcome \<Rightarrow> (Database, RepositoryError, unit) eff" where
  "record_outcome workspace call outcome =
     eff_bind (eff_lift (outcome_validated outcome)) (\<lambda>outcome.
     eff_bind db_statement (\<lambda>_ d.
       (case sql_update (call_row_open workspace call) (outcome_row outcome) (db_calls d) of
          (affected, rows) \<Rightarrow>
            if affected \<noteq> 0 then (Ok (), d\<lparr>db_calls := rows\<rparr>)
            else
              eff_bind db_statement (\<lambda>_ d.
                (case find (call_at workspace call) (db_calls d) of
                   None \<Rightarrow> (Err RepositoryError.NotFound, d)
                 | Some row \<Rightarrow>
                     (and_then (model_call_state_parse (ml_state row)) (\<lambda>state.
                        Err (if model_call_state_is_terminal state then VersionConflict 0 1 else RepositoryError.NotFound)), d))) d)))"

section \<open>Scans\<close>

definition load_attempts :: "WorkspaceId \<Rightarrow> ModelCallId \<Rightarrow> (Database, RepositoryError, StoredModelCall list) eff" where
  "load_attempts workspace logical_call_id =
     eff_bind db_statement (\<lambda>_ d.
       (collect (map stored_model_call
          (sort_key ml_attempt
            (filter (\<lambda>r. ml_workspace_id r = workspace \<and> ml_logical_call_id r = logical_call_id) (db_calls d)))), d))"

definition load_run_calls ::
  "(instant \<Rightarrow> string) \<Rightarrow> (uuid \<Rightarrow> string) \<Rightarrow> WorkspaceId \<Rightarrow> RunId \<Rightarrow> (Database, RepositoryError, StoredModelCall list) eff"
where
  "load_run_calls time_text uuid_text workspace run =
     eff_bind db_statement (\<lambda>_ d.
       (collect (map stored_model_call
          (sort_key (\<lambda>r. (time_text (ml_started_at r), ml_attempt r, uuid_text (ml_id r)))
            (filter (\<lambda>r. ml_workspace_id r = workspace \<and> ml_run_id r = run) (db_calls d)))), d))"

definition delivery_sample :: "(instant \<Rightarrow> int) \<Rightarrow> ModelCallRow \<Rightarrow> RepositoryError + IncrementalDelivery" where
  "delivery_sample as_millisecond row =
     (case (ml_first_output_at row, ml_last_output_at row, ml_output_delta_count row) of
        (Some first, Some last_at, Some deltas) \<Rightarrow>
          and_then (u32_column ''output_delta_count'' deltas) (\<lambda>deltas.
            Ok (delivery_profile as_millisecond
              \<lparr>dm_started_at = ml_started_at row, dm_first_output_at = first, dm_last_output_at = last_at,
               dm_delta_count = deltas\<rparr>))
      | (None, _, _) \<Rightarrow> Err (Corrupted ''first_output_at'')
      | (Some _, None, _) \<Rightarrow> Err (Corrupted ''last_output_at'')
      | (Some _, Some _, None) \<Rightarrow> Err (Corrupted ''output_delta_count''))"

text \<open>The loop over the ordered rows: a sample joins the last group when provider, model and revision agree.\<close>

fun delivery_groups ::
  "(instant \<Rightarrow> int) \<Rightarrow> ModelDeliverySamples list \<Rightarrow> ModelCallRow list \<Rightarrow> RepositoryError + ModelDeliverySamples list"
where
  "delivery_groups as_millisecond groups [] = Ok groups"
| "delivery_groups as_millisecond groups (row # rows) =
     and_then (delivery_sample as_millisecond row) (\<lambda>sample.
       if groups \<noteq> [] \<and> dg_provider_id (last groups) = ml_provider_id row \<and> dg_model_id (last groups) = ml_model_id row \<and>
          dg_revision (last groups) = ml_model_revision row
       then delivery_groups as_millisecond
              (butlast groups @ [(last groups)\<lparr>dg_samples := dg_samples (last groups) @ [sample]\<rparr>]) rows
       else
         and_then (name_column ''provider_id'' (ml_provider_id row)) (\<lambda>provider.
         and_then (name_column ''model_id'' (ml_model_id row)) (\<lambda>model.
         and_then (opt_column (name_column ''model_revision'') (ml_model_revision row)) (\<lambda>revision.
           delivery_groups as_millisecond
             (groups @ [\<lparr>dg_provider_id = provider, dg_model_id = model, dg_revision = revision, dg_samples = [sample]\<rparr>]) rows))))"

text \<open>\<open>NULL\<close> sorts before every text, as \<open>None\<close> does.\<close>

definition delivery_campaigns ::
  "(instant \<Rightarrow> int) \<Rightarrow> (instant \<Rightarrow> string) \<Rightarrow> WorkspaceId \<Rightarrow> (Database, RepositoryError, ModelDeliverySamples list) eff"
where
  "delivery_campaigns as_millisecond time_text workspace =
     eff_bind db_statement (\<lambda>_ d.
       (delivery_groups as_millisecond []
          (sort_key (\<lambda>r. (ml_provider_id r, ml_model_id r, ml_model_revision r, time_text (ml_started_at r)))
            (filter (\<lambda>r. ml_workspace_id r = workspace \<and> ml_first_output_at r \<noteq> None \<and> ml_last_output_at r \<noteq> None \<and>
               ml_output_delta_count r \<noteq> None) (db_calls d))), d))"

section \<open>An attempt has one outcome\<close>

lemma terminal_spelling:
  "model_call_state_as_str s \<in> {''completed'', ''failed'', ''cancelled''} \<longleftrightarrow> model_call_state_is_terminal s"
  by (cases s) (simp_all add: model_call_state_is_terminal_def)

definition call_ended :: "ModelCallRow \<Rightarrow> bool" where
  "call_ended row \<longleftrightarrow> ml_state row \<in> {''completed'', ''failed'', ''cancelled''}"

definition calls_ok :: "Database \<Rightarrow> bool" where
  "calls_ok d \<longleftrightarrow> distinct (map ml_id (db_calls d)) \<and>
     distinct (map (\<lambda>r. (ml_logical_call_id r, ml_attempt r)) (db_calls d))"

definition call_kept :: "ModelCallRow \<Rightarrow> ModelCallRow \<Rightarrow> bool" where
  "call_kept r r' \<longleftrightarrow>
     ml_id r' = ml_id r \<and> ml_logical_call_id r' = ml_logical_call_id r \<and> ml_attempt r' = ml_attempt r \<and>
     (call_ended r \<longrightarrow> r' = r)"

lemma call_kept_refl [simp]: "call_kept r r"
  by (simp add: call_kept_def)

text \<open>What the repository may do to the table: keep it well formed, add rows, and change rows that have not ended.\<close>

definition calls_advance :: "Database \<Rightarrow> Database \<Rightarrow> bool" where
  "calls_advance d d' \<longleftrightarrow>
     (calls_ok d \<longrightarrow> calls_ok d') \<and>
     (\<exists>rows added. db_calls d' = rows @ added \<and>
        list_all2 call_kept (db_calls d) rows)"

lemma calls_advanceI:
  "(calls_ok d \<Longrightarrow> calls_ok d') \<Longrightarrow> db_calls d' = rows @ added \<Longrightarrow> list_all2 call_kept (db_calls d) rows \<Longrightarrow> calls_advance d d'"
  by (auto simp: calls_advance_def)

lemma calls_advance_same: "db_calls d' = db_calls d \<Longrightarrow> calls_advance d d'"
  by (rule calls_advanceI [of _ _ "db_calls d" "[]"]) (simp_all add: calls_ok_def list.rel_refl)

lemma reflp_calls_advance [effect_rules]: "reflp calls_advance"
  by (rule reflpI) (simp add: calls_advance_same)

lemma transp_calls_advance [effect_rules]: "transp calls_advance"
proof (rule transpI)
  fix a b c assume ab: "calls_advance a b" and bc: "calls_advance b c"
  from ab obtain rows added where 1: "db_calls b = rows @ added" "list_all2 call_kept (db_calls a) rows"
    by (auto simp: calls_advance_def)
  from bc obtain rows' added' where 2: "db_calls c = rows' @ added'" "list_all2 call_kept (rows @ added) rows'"
    by (auto simp: calls_advance_def 1(1))
  from 2(2) obtain u v where uv: "rows' = u @ v" "list_all2 call_kept rows u"
    by (auto simp: list_all2_append1)
  have "list_all2 call_kept (db_calls a) u"
    by (rule list_all2_trans [OF _ 1(2) uv(2)]) (auto simp: call_kept_def)
  moreover have "calls_ok c" if "calls_ok a" using that ab bc by (simp add: calls_advance_def)
  ultimately show "calls_advance a c"
    using 2(1) uv(1) by (intro calls_advanceI [of a c u "v @ added'"]) simp_all
qed

lemma db_statement_calls [effect_rules]: "advances calls_advance db_statement"
  using db_statement_faults by (auto simp: advances_def only_db_faults_def calls_advance_same)

lemma insert_call_advances: "sql_insert_call call d = Some d' \<Longrightarrow> calls_advance d d'"
proof -
  assume s: "sql_insert_call call d = Some d'"
  then have d': "db_calls d' = db_calls d @ [new_call_row call]"
    and new: "\<not> list_ex (\<lambda>r. ml_id r = nk_id call \<or>
      ml_logical_call_id r = nk_logical_call_id call \<and> ml_attempt r = uint (nk_attempt call)) (db_calls d)"
    by (auto simp: sql_insert_call_def split: if_split_asm)
  from new have "nk_id call \<notin> ml_id ` set (db_calls d)"
    and "(nk_logical_call_id call, uint (nk_attempt call)) \<notin> (\<lambda>r. (ml_logical_call_id r, ml_attempt r)) ` set (db_calls d)"
    by (auto simp: list_ex_iff)
  then have "calls_ok d'" if "calls_ok d"
    using that by (simp add: calls_ok_def d' new_call_row_def)
  then show ?thesis
    by (rule calls_advanceI [OF _ d']) (simp_all add: list.rel_refl)
qed

lemma record_attempt_advances [effect_rules]: "advances calls_advance (record_attempt call)"
proof -
  have "advances calls_advance (db_execute (sql_insert_call call))"
    unfolding advances_def
  proof (rule allI)
    fix d
    obtain r d' where "db_execute (sql_insert_call call) d = (r, d')" by fastforce
    with db_execute_cases [OF this] show "calls_advance d (snd (db_execute (sql_insert_call call) d))"
      using insert_call_advances transpD [OF transp_calls_advance] calls_advance_same
      by (auto simp: only_db_faults_def) metis
  qed
  then show ?thesis
    unfolding record_attempt_def
    by (intro advances_bind transp_calls_advance)
       (auto intro: effect_rules)
qed

lemma update_call_advances:
  "sql_update (call_row_open ws call) (outcome_row outcome) (db_calls d) = (n, rows) \<Longrightarrow> calls_advance d (d\<lparr>db_calls := rows\<rparr>)"
proof -
  assume s: "sql_update (call_row_open ws call) (outcome_row outcome) (db_calls d) = (n, rows)"
  let ?f = "\<lambda>r. if call_row_open ws call r then outcome_row outcome r else r"
  have rows: "rows = map ?f (db_calls d)" using s by (simp add: sql_update_def)
  have kept: "call_kept r (?f r)" for r
    by (simp add: call_kept_def outcome_row_def call_row_open_def call_ended_def)
  then have keys: "map ml_id rows = map ml_id (db_calls d)"
    "map (\<lambda>r. (ml_logical_call_id r, ml_attempt r)) rows = map (\<lambda>r. (ml_logical_call_id r, ml_attempt r)) (db_calls d)"
    by (simp_all add: rows outcome_row_def)
  show ?thesis
    by (rule calls_advanceI [of _ _ rows "[]"])
       (simp_all add: calls_ok_def keys, simp add: rows list_all2_map2 kept list.rel_refl)
qed

lemma record_outcome_advances [effect_rules]: "advances calls_advance (record_outcome ws call outcome)"
proof -
  let ?last = "eff_bind db_statement (\<lambda>_ d.
                (case find (call_at ws call) (db_calls d) of
                   None \<Rightarrow> (Err RepositoryError.NotFound, d)
                 | Some row \<Rightarrow>
                     (and_then (model_call_state_parse (ml_state row)) (\<lambda>state.
                        Err (if model_call_state_is_terminal state then VersionConflict 0 1 else RepositoryError.NotFound)), d)))"
  have "advances calls_advance (?last :: (Database, RepositoryError, unit) eff)"
    by (intro advances_bind transp_calls_advance db_statement_calls advances_read reflp_calls_advance)
       (simp split: option.split)
  then have "calls_advance d (snd ((case sql_update (call_row_open ws call) (outcome_row outcome) (db_calls d) of
          (affected, rows) \<Rightarrow> if affected \<noteq> 0 then (Ok (), d\<lparr>db_calls := rows\<rparr>) else ?last d)))" for d outcome
    using update_call_advances by (auto simp: advances_def split: prod.split)
  then show ?thesis
    unfolding record_outcome_def
    by (intro advances_bind transp_calls_advance db_statement_calls advances_lift reflp_calls_advance)
       (simp add: advances_def)
qed

inductive call_step :: "Database \<Rightarrow> Database \<Rightarrow> bool" where
  step_attempt: "record_attempt call d = (r, d') \<Longrightarrow> call_step d d'"
| step_outcome: "record_outcome ws call outcome d = (r, d') \<Longrightarrow> call_step d d'"

lemma call_history_advances: "call_step\<^sup>*\<^sup>* d d' \<Longrightarrow> calls_advance d d'"
proof (induction rule: rtranclp_induct)
  case (step b c)
  from step.hyps(2) have "calls_advance b c"
    by cases (auto dest: advancesD [OF record_attempt_advances] advancesD [OF record_outcome_advances])
  with step.IH show ?case using transpD [OF transp_calls_advance] by blast
qed (simp add: calls_advance_same)

lemma ended_row_stays:
  assumes "calls_advance d e" and "row \<in> set (db_calls d)" and "call_ended row"
  shows "row \<in> set (db_calls e)"
proof -
  from assms(1) obtain rows added where r: "db_calls e = rows @ added" "list_all2 call_kept (db_calls d) rows"
    by (auto simp: calls_advance_def)
  from assms(2) obtain i where "i < length (db_calls d)" "db_calls d ! i = row" by (auto simp: in_set_conv_nth)
  with r(2) have "rows ! i = row" "i < length rows"
    using assms(3) by (auto simp: list_all2_conv_all_nth call_kept_def)
  with r(1) show ?thesis by (metis UnCI nth_mem set_append)
qed

lemma call_row_found:
  assumes "calls_ok d" and "row \<in> set (db_calls d)"
  shows "find (call_at (ml_workspace_id row) (ml_id row)) (db_calls d) = Some row"
proof (cases "find (call_at (ml_workspace_id row) (ml_id row)) (db_calls d)")
  case None
  with assms(2) have False by (auto simp: find_None_iff call_at_def)
  then show ?thesis ..
next
  case (Some r)
  with find_SomeD [OF Some] assms show ?thesis by (auto simp: calls_ok_def call_at_def distinct_map inj_on_def)
qed

text \<open>C26: What a model call cost and how it ended is written once: whatever attempts and outcomes follow, and
  wherever a statement fails, the row of an ended attempt stays as it is, and a second outcome for it is refused
  as a conflict when the database answers.\<close>

theorem model_call_ends_once:
  assumes "calls_ok d" and "call_step\<^sup>*\<^sup>* d d'" and "row \<in> set (db_calls d)"
    and "ml_state row = model_call_state_as_str state" and "model_call_state_is_terminal state"
  shows "row \<in> set (db_calls d') \<and> calls_ok d' \<and>
    (case record_outcome (ml_workspace_id row) (ml_id row) outcome d' of
       (Ok _, _) \<Rightarrow> False
     | (Err e, d'') \<Rightarrow> row \<in> set (db_calls d'') \<and>
         (sr_faults (db_runs d') = [] \<and> is_ok (outcome_validated outcome) \<longrightarrow> e = VersionConflict 0 1))"
proof -
  have ended: "call_ended row" using assms(4,5) terminal_spelling [of state] by (simp add: call_ended_def)
  note stays = ended_row_stays [OF _ assms(3) ended]
  have adv: "calls_advance d d'" by (rule call_history_advances [OF assms(2)])
  then have row': "row \<in> set (db_calls d')" and ok': "calls_ok d'"
    using stays assms(1) by (auto simp: calls_advance_def)
  obtain r d'' where o: "record_outcome (ml_workspace_id row) (ml_id row) outcome d' = (r, d'')" by fastforce
  have row'': "row \<in> set (db_calls d'')"
    using stays transpD [OF transp_calls_advance adv advancesD [OF record_outcome_advances o]] by blast
  have only: "r = row" if "r \<in> set (db_calls d')" "call_at (ml_workspace_id row) (ml_id row) r" for r
    using that row' ok' by (auto simp: calls_ok_def call_at_def distinct_map inj_on_def)
  then have none: "filter (call_row_open (ml_workspace_id row) (ml_id row)) (db_calls d') = []"
    using ended by (auto simp: filter_empty_conv call_row_open_def call_ended_def)
  note found = call_row_found [OF ok' row']
  have parsed: "model_call_state_parse (ml_state row) = Ok state"
    using model_call_state_spelling.parse_as_str [of state] assms(4)
    by (cases "model_call_state_parse (ml_state row)") simp_all
  have same: "db_calls t = db_calls d'" if "db_statement d' = (x, t)" for x t
    using advancesD [OF db_statement_faults that] by (simp add: only_db_faults_def)
  show ?thesis
  proof (cases r)
    case (Inl e)
    moreover have "e = VersionConflict 0 1" if "sr_faults (db_runs d') = []" "is_ok (outcome_validated outcome)"
      using o that Inl none found parsed assms(5)
      by (auto simp: record_outcome_def eff_bind_def no_fault sql_update_def is_ok_iff)
    ultimately show ?thesis using o row' row'' ok' by simp
  next
    case (Inr u)
    with o have False
      by (auto simp: record_outcome_def eff_bind_def sql_update_def none and_then_Ok_iff
          dest!: same split: sum.split_asm prod.split_asm option.split_asm if_split_asm)
    then show ?thesis ..
  qed
qed

definition sample_call_row :: ModelCallRow where
  "sample_call_row = new_call_row \<lparr>nk_id = 21, nk_workspace_id = 3, nk_run_id = 5, nk_logical_call_id = 20, nk_attempt = 1,
     nk_model = \<lparr>mr_provider_id = ''local'', mr_model_id = ''m'', mr_revision = None\<rparr>, nk_route_decision = None,
     nk_request_fingerprint = None, nk_started_at = 1\<rparr>"

definition sample_outcome :: ModelCallOutcome where
  "sample_outcome =
     \<lparr>mo_state = ModelCallState.Completed, mo_provider_request_id = None, mo_continuation_ref = None, mo_usage = None,
      mo_estimated_cost_microunits = Some 4, mo_finish_reason = None, mo_error_code = None, mo_first_output_at = None,
      mo_last_output_at = None, mo_output_delta_count = None, mo_completed_at = Some 9\<rparr>"

definition sample_calls :: Database where
  "sample_calls = (empty_database [])\<lparr>db_calls := [outcome_row sample_outcome sample_call_row]\<rparr>"

theorem model_call_ends_once_witness:
  "outcome_row sample_outcome sample_call_row \<in> set (db_calls sample_calls) \<and>
   fst (record_outcome 3 21 sample_outcome sample_calls) = Err (VersionConflict 0 1)"
proof -
  let ?row = "outcome_row sample_outcome sample_call_row"
  have "calls_ok sample_calls" "?row \<in> set (db_calls sample_calls)"
    "ml_state ?row = model_call_state_as_str ModelCallState.Completed" "model_call_state_is_terminal ModelCallState.Completed"
    "ml_workspace_id ?row = 3" "ml_id ?row = 21" "sr_faults (db_runs sample_calls) = []" "is_ok (outcome_validated sample_outcome)"
    by (simp_all add: calls_ok_def sample_calls_def outcome_row_def sample_outcome_def model_call_state_is_terminal_def
        sample_call_row_def new_call_row_def empty_database_def outcome_validated_def)
  with model_call_ends_once [of sample_calls sample_calls ?row ModelCallState.Completed sample_outcome]
  show ?thesis by (auto split: prod.split_asm sum.split_asm)
qed

end
