(* ===== verification/Resume_Store.thy ===== *)
theory Resume_Store
  imports Model_Call_Store
begin

text \<open>
  The record a run waiting for an approval continues from (\<open>repository/resume.rs\<close>) and its SQLite table
  (\<open>storage/resume_repository.rs\<close>). The length of the JSON text of a record is an argument, and so are the
  instant SQLite stamps a new row with and the text of an identifier, which the scan orders by. The recovery scan of
  the run store leaves out the runs of this table, so their keys are kept there too.
\<close>

definition MAX_RESUME_RECORD_BYTES :: nat where "MAX_RESUME_RECORD_BYTES = 1048576"
definition MAX_PARKED_SCAN :: nat where "MAX_PARKED_SCAN = 200"
definition RESUME_RECORD_VERSION :: u32 where "RESUME_RECORD_VERSION = 1"

definition resume_at :: "WorkspaceId \<Rightarrow> RunId \<Rightarrow> ResumeRow \<Rightarrow> bool" where
  "resume_at workspace run row \<longleftrightarrow> rs_workspace_id row = workspace \<and> rs_run_id row = run"

text \<open>The row changed or the row added, and the keys as the recovery scan reads them.\<close>

definition with_resumes :: "ResumeRow list \<Rightarrow> Database \<Rightarrow> Database" where
  "with_resumes rows d =
     d\<lparr>db_resumes := rows,
       db_runs := (db_runs d)\<lparr>sr_parked := map (\<lambda>r. (rs_workspace_id r, rs_run_id r)) rows\<rparr>\<rparr>"

definition upsert_resume :: "string \<Rightarrow> ResumeRecord \<Rightarrow> Database \<Rightarrow> Database" where
  "upsert_resume stamped record d =
     (let selected = resume_at (re_workspace record) (re_run record);
          changed = (\<lambda>row. row\<lparr>rs_approval_id := re_approval record, rs_state_version := uint (re_version record),
                               rs_state := record\<rparr>);
          fresh = \<lparr>rs_workspace_id = re_workspace record, rs_run_id = re_run record, rs_approval_id = re_approval record,
                   rs_state_version = uint (re_version record), rs_state = record, rs_created_at = stamped\<rparr> in
      with_resumes
        (if list_ex selected (db_resumes d) then map (\<lambda>r. if selected r then changed r else r) (db_resumes d)
         else db_resumes d @ [fresh]) d)"

definition resume_save :: "(ResumeRecord \<Rightarrow> nat) \<Rightarrow> string \<Rightarrow> ResumeRecord \<Rightarrow> (Database, RepositoryError, unit) eff" where
  "resume_save json_bytes stamped record =
     (if json_bytes record > MAX_RESUME_RECORD_BYTES then eff_throw (RepositoryError.Conflict ''resume_record_too_large'')
      else eff_bind db_statement (\<lambda>_. eff_update (upsert_resume stamped record)))"

definition parse_record :: "ResumeRow \<Rightarrow> RepositoryError + ResumeRecord" where
  "parse_record row =
     (if rs_state_version row \<noteq> uint RESUME_RECORD_VERSION then Err (Corrupted ''state_version'') else Ok (rs_state row))"

definition resume_load :: "WorkspaceId \<Rightarrow> RunId \<Rightarrow> (Database, RepositoryError, ResumeRecord option) eff" where
  "resume_load workspace run =
     eff_bind db_statement (\<lambda>_ d.
       (case find (resume_at workspace run) (db_resumes d) of
          None \<Rightarrow> (Ok None, d)
        | Some row \<Rightarrow>
            (and_then (parse_record row) (\<lambda>record.
               if re_workspace record \<noteq> workspace \<or> re_run record \<noteq> run then Err (Corrupted ''state_json'')
               else Ok (Some record)), d)))"

definition resume_parked :: "(uuid \<Rightarrow> string) \<Rightarrow> (Database, RepositoryError, ResumeRecord list) eff" where
  "resume_parked uuid_text =
     eff_bind db_statement (\<lambda>_ d.
       (collect (map parse_record
          (take MAX_PARKED_SCAN (sort_key (\<lambda>r. (rs_created_at r, uuid_text (rs_run_id r))) (db_resumes d)))), d))"

definition resume_discard :: "WorkspaceId \<Rightarrow> RunId \<Rightarrow> (Database, RepositoryError, unit) eff" where
  "resume_discard workspace run =
     eff_bind db_statement (\<lambda>_.
       eff_update (\<lambda>d. with_resumes (filter (\<lambda>r. \<not> resume_at workspace run r) (db_resumes d)) d))"

section \<open>A record is read back\<close>

definition resumes_ok :: "Database \<Rightarrow> bool" where
  "resumes_ok d \<longleftrightarrow>
     distinct (map (\<lambda>r. (rs_workspace_id r, rs_run_id r)) (db_resumes d)) \<and>
     sr_parked (db_runs d) = map (\<lambda>r. (rs_workspace_id r, rs_run_id r)) (db_resumes d)"

lemma db_statement_resumes: "db_statement d = (r, d') \<Longrightarrow> db_resumes d' = db_resumes d \<and> sr_parked (db_runs d') = sr_parked (db_runs d)"
  using advancesD [OF db_statement_faults, of d r d'] only_faults_fields [of "db_runs d" "db_runs d'"]
  by (auto simp: only_db_faults_def)

lemma saved_row_found:
  "find (resume_at (re_workspace record) (re_run record)) (db_resumes (upsert_resume stamped record d)) =
     Some \<lparr>rs_workspace_id = re_workspace record, rs_run_id = re_run record, rs_approval_id = re_approval record,
           rs_state_version = uint (re_version record), rs_state = record,
           rs_created_at = (case find (resume_at (re_workspace record) (re_run record)) (db_resumes d) of
              None \<Rightarrow> stamped | Some row \<Rightarrow> rs_created_at row)\<rparr>"
proof -
  let ?p = "resume_at (re_workspace record) (re_run record)"
  show ?thesis
  proof (cases "list_ex ?p (db_resumes d)")
    case True
    let ?f = "\<lambda>r. if ?p r then r\<lparr>rs_approval_id := re_approval record, rs_state_version := uint (re_version record),
        rs_state := record\<rparr> else r"
    have *: "find ?p (map ?f (db_resumes d)) = map_option ?f (find ?p (db_resumes d))"
      by (rule find_map_same) (simp add: resume_at_def)
    from True obtain row where "find ?p (db_resumes d) = Some row"
      by (cases "find ?p (db_resumes d)") (auto simp: find_None_iff list_ex_iff)
    moreover from this have "?p row" by (rule find_SomeD [THEN conjunct1])
    ultimately show ?thesis using True * by (simp add: upsert_resume_def with_resumes_def Let_def) (simp add: resume_at_def)
  next
    case False
    then have "find ?p (db_resumes d) = None" by (auto simp: find_None_iff list_ex_iff)
    with False show ?thesis by (simp add: upsert_resume_def with_resumes_def find_append resume_at_def)
  qed
qed

lemma saved_record_is_loaded:
  assumes "resume_save json_bytes stamped record d = (Ok (), d1)" and "re_version record = RESUME_RECORD_VERSION"
    and "resume_load (re_workspace record) (re_run record) d1 = (Ok found, d2)"
  shows "found = Some record"
proof -
  from assms(1) obtain d0 where d1: "d1 = upsert_resume stamped record d0"
    by (auto simp: resume_save_def eff_bind_def split: if_split_asm sum.split_asm prod.split_asm)
  obtain r t where t: "db_statement d1 = (r, t)" by fastforce
  then have "db_resumes t = db_resumes d1" using db_statement_resumes by blast
  with assms(3) t show ?thesis
    using saved_row_found [of "record" stamped d0] assms(2)
    by (auto simp: resume_load_def eff_bind_def d1 parse_record_def split: sum.split_asm)
qed

lemma upsert_resume_ok: "resumes_ok d \<Longrightarrow> resumes_ok (upsert_resume stamped record d)"
proof -
  assume ok: "resumes_ok d"
  let ?p = "resume_at (re_workspace record) (re_run record)"
  have keys: "map (\<lambda>r. (rs_workspace_id r, rs_run_id r))
      (map (\<lambda>r. if ?p r then r\<lparr>rs_approval_id := a, rs_state_version := v, rs_state := st\<rparr> else r) rows) =
    map (\<lambda>r. (rs_workspace_id r, rs_run_id r)) rows" for a v st rows
    by simp
  have "(re_workspace record, re_run record) \<notin> (\<lambda>r. (rs_workspace_id r, rs_run_id r)) ` set (db_resumes d)"
    if "\<not> list_ex ?p (db_resumes d)"
    using that by (auto simp: list_ex_iff resume_at_def)
  then show ?thesis
    using ok keys by (auto simp: resumes_ok_def upsert_resume_def with_resumes_def Let_def simp del: map_map)
qed

lemma resume_save_ok: "preserves resumes_ok (resume_save json_bytes stamped record)"
  unfolding preserves_def
  using db_statement_resumes upsert_resume_ok
  by (auto simp: resume_save_def eff_bind_def resumes_ok_def split: sum.split prod.split)

end
