(* ===== verification/Run_Turn.thy ===== *)
theory Run_Turn
  imports Resume_Store Tool_Call_Service Model_Port Text_Codec
begin

text \<open>
  The values of the run controller (\<open>jarvis-application/src/run_controller.rs\<close>): its errors, the steps it takes through
  the lifecycle with the payloads they publish, what a turn collects from a stream, the observations of tools, and
  the request a turn sends.
\<close>

definition MAX_TRANSCRIPT_MESSAGES :: u32 where "MAX_TRANSCRIPT_MESSAGES = 200"
definition MEMORY_RECALL_LIMIT :: u32 where "MEMORY_RECALL_LIMIT = 5"
definition DEFAULT_CONTEXT_TOKENS :: u64 where "DEFAULT_CONTEXT_TOKENS = 8192"
definition MAX_MODEL_TURNS :: u32 where "MAX_MODEL_TURNS = 10"

definition effective_context_ceiling :: "RunBudget \<Rightarrow> u64" where
  "effective_context_ceiling budget = (case rb_max_context_tokens budget of Some n \<Rightarrow> n | None \<Rightarrow> DEFAULT_CONTEXT_TOKENS)"

section \<open>Errors\<close>

datatype ControllerError =
    Repository RepositoryError
  | Provider ProviderError
  | NoModelServed
  | ToolsNotImplemented string
  | StreamInterrupted
  | ModelCallFailed
  | StreamRejected string
  | OutputNotPersisted
  | ClockUnavailable
  | DeadlineExceeded
  | BudgetExceeded BudgetLimit
  | ContextUnassembled string
  | Cancelled
  | TurnBudgetExceeded
  | ToolRefused string
  | ResumeStateMissing

primrec controller_error_retryable :: "ControllerError \<Rightarrow> bool" where
  "controller_error_retryable (ControllerError.Provider e) = provider_error_retryable e"
| "controller_error_retryable (ControllerError.Repository e) = repository_error_retryable e"
| "controller_error_retryable ControllerError.NoModelServed = False"
| "controller_error_retryable (ControllerError.ToolsNotImplemented _) = False"
| "controller_error_retryable ControllerError.StreamInterrupted = False"
| "controller_error_retryable ControllerError.ModelCallFailed = False"
| "controller_error_retryable (ControllerError.StreamRejected _) = False"
| "controller_error_retryable ControllerError.OutputNotPersisted = False"
| "controller_error_retryable ControllerError.ClockUnavailable = False"
| "controller_error_retryable ControllerError.DeadlineExceeded = False"
| "controller_error_retryable (ControllerError.BudgetExceeded _) = False"
| "controller_error_retryable (ControllerError.ContextUnassembled _) = False"
| "controller_error_retryable ControllerError.Cancelled = False"
| "controller_error_retryable ControllerError.TurnBudgetExceeded = False"
| "controller_error_retryable (ControllerError.ToolRefused _) = False"
| "controller_error_retryable ControllerError.ResumeStateMissing = False"

primrec controller_error_code :: "ControllerError \<Rightarrow> string" where
  "controller_error_code (ControllerError.Repository e) = repository_error_code e"
| "controller_error_code (ControllerError.Provider e) = provider_error_code e"
| "controller_error_code ControllerError.NoModelServed = ''run.no_model_served''"
| "controller_error_code (ControllerError.ToolsNotImplemented _) = ''run.tools_not_implemented''"
| "controller_error_code ControllerError.StreamInterrupted = ''run.stream_interrupted''"
| "controller_error_code ControllerError.ModelCallFailed = ''run.model_call_failed''"
| "controller_error_code (ControllerError.StreamRejected _) = ''run.stream_rejected''"
| "controller_error_code ControllerError.OutputNotPersisted = ''run.output_not_persisted''"
| "controller_error_code ControllerError.ClockUnavailable = ''run.clock_unavailable''"
| "controller_error_code ControllerError.DeadlineExceeded = ''run.deadline_exceeded''"
| "controller_error_code (ControllerError.BudgetExceeded limit) = budget_limit_code limit"
| "controller_error_code (ControllerError.ContextUnassembled code) = code"
| "controller_error_code ControllerError.Cancelled = ''run.cancelled''"
| "controller_error_code ControllerError.TurnBudgetExceeded = ''run.turn_budget_exhausted''"
| "controller_error_code (ControllerError.ToolRefused code) = code"
| "controller_error_code ControllerError.ResumeStateMissing = ''run.resume_state_missing''"

definition controller_terminal_state :: "ControllerError \<Rightarrow> RunState" where
  "controller_terminal_state e =
     (if e = ControllerError.Cancelled \<or> e = ControllerError.Provider ProviderError.Cancelled then RunState.Cancelled
      else RunState.Failed)"

definition is_unimplemented :: "ControllerError \<Rightarrow> bool" where
  "is_unimplemented e \<longleftrightarrow> (case e of ControllerError.ToolsNotImplemented _ \<Rightarrow> True | _ \<Rightarrow> False)"

record RunOutcome =
  ou_run_id :: RunId
  ou_state :: RunState
  ou_answer :: "string option"
  ou_error_code :: "string option"

record RunRef =
  rf_workspace :: WorkspaceId
  rf_run_id :: RunId

section \<open>Steps\<close>

record Step =
  sp_from :: RunState
  sp_to :: RunState
  sp_event_type :: string
  sp_reason :: string
  sp_outcome :: "string option"
  sp_requester_reason :: "string option"
  sp_waiting :: "WaitingOn option"

definition step_new :: "RunState \<Rightarrow> RunState \<Rightarrow> string \<Rightarrow> string \<Rightarrow> Step" where
  "step_new from to event_type reason =
     \<lparr>sp_from = from, sp_to = to, sp_event_type = event_type, sp_reason = reason, sp_outcome = None,
      sp_requester_reason = None, sp_waiting = None\<rparr>"

definition step_parked_on :: "RunState \<Rightarrow> RunState \<Rightarrow> string \<Rightarrow> string \<Rightarrow> WaitingOn \<Rightarrow> Step" where
  "step_parked_on from to event_type reason waiting = (step_new from to event_type reason)\<lparr>sp_waiting := Some waiting\<rparr>"

definition step_failed :: "RunState \<Rightarrow> string \<Rightarrow> string \<Rightarrow> string \<Rightarrow> Step" where
  "step_failed from event_type reason code =
     \<lparr>sp_from = from, sp_to = RunState.Failed, sp_event_type = event_type, sp_reason = reason, sp_outcome = Some code,
      sp_requester_reason = None, sp_waiting = None\<rparr>"

definition cancelled_from :: "RunState \<Rightarrow> string \<Rightarrow> Step" where
  "cancelled_from from reason =
     \<lparr>sp_from = from, sp_to = RunState.Cancelled, sp_event_type = ''run.cancelled'', sp_reason = reason, sp_outcome = None,
      sp_requester_reason = None, sp_waiting = None\<rparr>"

definition with_requester_reason :: "Step \<Rightarrow> string option \<Rightarrow> Step" where
  "with_requester_reason self reason = self\<lparr>sp_requester_reason := reason\<rparr>"

text \<open>The bytes of a character above ASCII are written as they are.\<close>

definition escape_json_byte :: "char \<Rightarrow> string" where
  "escape_json_byte c =
     (if c = CHR 0x22 then [CHR 0x5C, CHR 0x22]
      else if c = CHR 0x5C then [CHR 0x5C, CHR 0x5C]
      else if c = CHR 0x0A then [CHR 0x5C, CHR ''n'']
      else if c = CHR 0x0D then [CHR 0x5C, CHR ''r'']
      else if c = CHR 0x09 then [CHR 0x5C, CHR ''t'']
      else if c = CHR 0x08 then [CHR 0x5C, CHR ''b'']
      else if c = CHR 0x0C then [CHR 0x5C, CHR ''f'']
      else if byte c < 0x20 then CHR 0x5C # ''u00'' @ show_hex_byte (of_nat (byte c))
      else [c])"

definition escape_json_string :: "string \<Rightarrow> string" where
  "escape_json_string value = concat (map escape_json_byte value)"

definition json_quoted :: "string \<Rightarrow> string" where
  "json_quoted value = CHR 0x22 # value @ [CHR 0x22]"

definition json_member :: "string \<Rightarrow> string \<Rightarrow> string" where
  "json_member name value = json_quoted name @ '':'' @ json_quoted value"

definition step_payload :: "Step \<Rightarrow> string option" where
  "step_payload self =
     (case sp_outcome self of
        Some code \<Rightarrow> Some (''{'' @ json_member ''code'' code @ '','' @ json_quoted ''retryable'' @ '':false}'')
      | None \<Rightarrow>
          if sp_to self = RunState.Cancelled \<and> sp_event_type self = ''run.cancelled'' then
            Some (case sp_requester_reason self of
              Some requester \<Rightarrow>
                ''{'' @ json_member ''reason'' (escape_json_string requester) @ '','' @
                json_member ''label'' (sp_reason self) @ ''}''
            | None \<Rightarrow> ''{'' @ json_member ''reason'' (sp_reason self) @ ''}'')
          else None)"

section \<open>Tool calls and observations\<close>

record CapturedToolCall =
  ct_call_id :: string
  ct_capability :: string
  ct_arguments :: string

record ToolObservation =
  to_call_id :: string
  to_capability :: string
  to_arguments :: string
  to_is_error :: bool
  to_content :: string

primrec refusal_detail :: "ToolErrorClass \<Rightarrow> string" where
  "refusal_detail ToolErrorClass.NotFound = ''no such tool is registered''"
| "refusal_detail ToolErrorClass.Unavailable = ''the tool is unavailable''"
| "refusal_detail ToolErrorClass.SchemaInvalid = ''the arguments did not match the tool's schema''"
| "refusal_detail ToolErrorClass.PermissionDenied = ''this action is not permitted''"
| "refusal_detail ToolErrorClass.ApprovalRequired = ''this action needs approval''"
| "refusal_detail ToolErrorClass.ApprovalRejected = ''approval was refused''"
| "refusal_detail ToolErrorClass.ApprovalExpired = ''approval expired''"
| "refusal_detail ToolErrorClass.Conflict = ''the call conflicts with an existing one''"
| "refusal_detail ToolErrorClass.RateLimited = ''the tool is rate limited''"
| "refusal_detail ToolErrorClass.Timeout = ''the call timed out''"
| "refusal_detail ToolErrorClass.Cancelled = ''the call was cancelled''"
| "refusal_detail ToolErrorClass.ProviderAuth = ''the tool's credentials were rejected''"
| "refusal_detail ToolErrorClass.ProviderError = ''the tool failed''"
| "refusal_detail ToolErrorClass.OutputInvalid = ''the result did not validate''"
| "refusal_detail ToolErrorClass.OutcomeAmbiguous = ''the outcome is unknown and must be reconciled''"
| "refusal_detail ToolErrorClass.LimitExceeded = ''a bound was exceeded''"

primrec render_block :: "ContentBlock \<Rightarrow> string" where
  "render_block (ContentBlock.Json value) = payload_as_str value"
| "render_block (ContentBlock.Text text) = payload_as_str text"
| "render_block (ContentBlock.Artifact ident media_type bytes) =
     ''{'' @ json_member ''artifact'' ident @ '','' @ json_member ''media_type'' media_type @ '','' @
     json_quoted ''size'' @ '':'' @ show_nat (unat bytes) @ '','' @
     json_member ''note'' ''content is stored outside this result'' @ ''}''"

fun join_lines :: "string list \<Rightarrow> string" where
  "join_lines [] = []"
| "join_lines [part] = part"
| "join_lines (part # parts) = part @ [CHR 0x0A] @ join_lines parts"

definition render_result :: "ToolResultBody \<Rightarrow> string" where
  "render_result result = join_lines (map render_block (rb_content result))"

definition refused_content :: "string \<Rightarrow> string \<Rightarrow> string" where
  "refused_content class detail =
     ''{'' @ json_member ''refused'' class @ '','' @ json_member ''detail'' detail @ ''}''"

definition observed :: "CapturedToolCall \<Rightarrow> bool \<Rightarrow> string \<Rightarrow> ToolObservation" where
  "observed call is_error content =
     \<lparr>to_call_id = ct_call_id call, to_capability = ct_capability call, to_arguments = ct_arguments call,
      to_is_error = is_error, to_content = content\<rparr>"

definition observation_of :: "CapturedToolCall \<Rightarrow> ToolCallOutcome \<Rightarrow> ToolObservation" where
  "observation_of call outcome =
     (case outcome of
        ToolCallOutcome.Completed result \<Rightarrow> observed call False (render_result result)
      | ToolCallOutcome.Refused class _ \<Rightarrow>
          observed call True (refused_content (error_class_as_contract_str class) (refusal_detail class))
      | ToolCallOutcome.WaitingApproval _ \<Rightarrow>
          observed call True
            (''{'' @ json_member ''pending'' ''a human decision is required before this call can run'' @ ''}'')
      | ToolCallOutcome.Duplicate state _ \<Rightarrow>
          observed call True (refused_content (error_class_as_contract_str ToolErrorClass.Conflict)
            (''an equivalent call is already '' @ tool_call_state_as_contract_str state)))"

definition resume_call :: "CapturedToolCall \<Rightarrow> ResumeCall" where
  "resume_call call = \<lparr>rc_call_id = ct_call_id call, rc_capability = ct_capability call, rc_arguments = ct_arguments call\<rparr>"

definition captured_call :: "ResumeCall \<Rightarrow> CapturedToolCall" where
  "captured_call call = \<lparr>ct_call_id = rc_call_id call, ct_capability = rc_capability call, ct_arguments = rc_arguments call\<rparr>"

definition resume_observation :: "ToolObservation \<Rightarrow> ResumeObservation" where
  "resume_observation ob =
     \<lparr>rv_call_id = to_call_id ob, rv_capability = to_capability ob, rv_arguments = to_arguments ob,
      rv_is_error = to_is_error ob, rv_content = to_content ob\<rparr>"

definition tool_observation :: "ResumeObservation \<Rightarrow> ToolObservation" where
  "tool_observation ob =
     \<lparr>to_call_id = rv_call_id ob, to_capability = rv_capability ob, to_arguments = rv_arguments ob,
      to_is_error = rv_is_error ob, to_content = rv_content ob\<rparr>"

section \<open>What a stream leaves\<close>

record DrainedTurn =
  dr_answer :: string
  dr_tool_intent :: "string option"
  dr_tool_calls :: "CapturedToolCall list"
  dr_tool_names :: "(string \<times> string) list"
  dr_usage :: "Usage option"
  dr_usage_reported :: bool
  dr_finish_reason :: "FinishReason option"
  dr_provider_request_id :: "string option"
  dr_first_output_at :: "instant option"
  dr_last_output_at :: "instant option"
  dr_output_delta_count :: u32

definition drained_default :: DrainedTurn where
  "drained_default =
     \<lparr>dr_answer = [], dr_tool_intent = None, dr_tool_calls = [], dr_tool_names = [], dr_usage = None,
      dr_usage_reported = False, dr_finish_reason = None, dr_provider_request_id = None, dr_first_output_at = None,
      dr_last_output_at = None, dr_output_delta_count = 0\<rparr>"

definition completed_reason :: "FinishReason \<Rightarrow> bool \<Rightarrow> FinishReason" where
  "completed_reason provider_reason refused =
     (if refused \<and> provider_reason = FinishReason.Stop then FinishReason.Refusal else provider_reason)"

definition capture_request_id :: "DrainedTurn \<Rightarrow> ModelStreamEvent \<Rightarrow> DrainedTurn" where
  "capture_request_id drained event =
     (case Option.bind (se_provider_metadata event) pm_request_id of
        Some request_id \<Rightarrow> drained\<lparr>dr_provider_request_id := Some request_id\<rparr>
      | None \<Rightarrow> drained)"

definition capture :: "DrainedTurn \<Rightarrow> ModelStreamEvent \<Rightarrow> DrainedTurn" where
  "capture earlier event =
     (let drained = capture_request_id earlier event in
      case se_kind event of
        ToolCallAdded call_id tool_name \<Rightarrow>
          drained\<lparr>dr_tool_intent := (case dr_tool_intent drained of Some t \<Rightarrow> Some t | None \<Rightarrow> Some tool_name),
                  dr_tool_names := AList.update call_id tool_name (dr_tool_names drained)\<rparr>
      | ToolCallCompleted call_id arguments \<Rightarrow>
          drained\<lparr>dr_tool_calls := dr_tool_calls drained @
                    [\<lparr>ct_call_id = call_id,
                      ct_capability = (case map_of (dr_tool_names drained) call_id of Some n \<Rightarrow> n | None \<Rightarrow> []),
                      ct_arguments = arguments\<rparr>]\<rparr>
      | UsageUpdated usage \<Rightarrow> drained\<lparr>dr_usage := Some usage, dr_usage_reported := True\<rparr>
      | CallCompleted finish_reason usage refused \<Rightarrow>
          (let drained = drained\<lparr>dr_finish_reason := Some (completed_reason finish_reason refused)\<rparr> in
           case usage of
             Some usage \<Rightarrow> drained\<lparr>dr_usage := Some usage, dr_usage_reported := True\<rparr>
           | None \<Rightarrow> drained)
      | CallFailed _ _ \<Rightarrow> drained\<lparr>dr_finish_reason := Some FinishReason.ProviderError\<rparr>
      | CallCancelled _ \<Rightarrow> drained\<lparr>dr_finish_reason := Some FinishReason.Cancelled\<rparr>
      | _ \<Rightarrow> drained)"

definition capture_delta :: "DrainedTurn \<Rightarrow> instant \<Rightarrow> string \<Rightarrow> DrainedTurn" where
  "capture_delta drained occurred_at delta =
     drained\<lparr>dr_first_output_at := (case dr_first_output_at drained of Some t \<Rightarrow> Some t | None \<Rightarrow> Some occurred_at),
             dr_last_output_at := Some occurred_at,
             dr_output_delta_count := saturating_add (dr_output_delta_count drained) 1,
             dr_answer := dr_answer drained @ delta\<rparr>"

record DeliveryTiming =
  dt_first_output_at :: "instant option"
  dt_last_output_at :: "instant option"
  dt_output_delta_count :: u32

definition delivery_default :: DeliveryTiming where
  "delivery_default = \<lparr>dt_first_output_at = None, dt_last_output_at = None, dt_output_delta_count = 0\<rparr>"

definition delivery_of :: "DrainedTurn \<Rightarrow> DeliveryTiming" where
  "delivery_of drained =
     \<lparr>dt_first_output_at = dr_first_output_at drained, dt_last_output_at = dr_last_output_at drained,
      dt_output_delta_count = dr_output_delta_count drained\<rparr>"

record RecordedOutcome =
  ro_usage :: "Usage option"
  ro_finish_reason :: "FinishReason option"
  ro_delivery :: DeliveryTiming
  ro_provider_request_id :: "string option"

definition recorded_default :: RecordedOutcome where
  "recorded_default =
     \<lparr>ro_usage = None, ro_finish_reason = None, ro_delivery = delivery_default, ro_provider_request_id = None\<rparr>"

definition USAGE_EVENT :: string where "USAGE_EVENT = ''run.usage''"

definition usage_member :: "string \<Rightarrow> u64 option \<Rightarrow> string list" where
  "usage_member name value = (case value of None \<Rightarrow> [] | Some n \<Rightarrow> [json_quoted name @ '':'' @ show_nat (unat n)])"

fun join_commas :: "string list \<Rightarrow> string" where
  "join_commas [] = []"
| "join_commas [part] = part"
| "join_commas (part # parts) = part @ '','' @ join_commas parts"

definition usage_payload :: "(uuid \<Rightarrow> string) \<Rightarrow> Usage \<Rightarrow> ModelCallId option \<Rightarrow> string" where
  "usage_payload uuid_text usage call_id =
     ''{'' @ join_commas
       ((case call_id of None \<Rightarrow> [] | Some c \<Rightarrow> [json_member ''call_id'' (uuid_text c)]) @
        usage_member ''input_tokens'' (us_input_tokens usage) @ usage_member ''output_tokens'' (us_output_tokens usage) @
        usage_member ''cached_input_tokens'' (us_cached_input_tokens usage) @
        usage_member ''reasoning_tokens'' (us_reasoning_tokens usage)) @ ''}''"

section \<open>The request of a turn\<close>

record ToolOffer =
  of_name :: string
  of_description :: string
  of_input_schema :: "string option"

record ModelCallRequest =
  mq_call_id :: ModelCallId
  mq_run_id :: RunId
  mq_model :: ModelRef
  mq_route_requirements :: RouteRequirements
  mq_input :: "InputItem list"
  mq_tools :: "string list"
  mq_tool_offers :: "ToolOffer list"
  mq_output_schema :: "JsonText option"
  mq_settings :: PortableSettings
  mq_limits :: CallLimits

definition observation_items :: "ToolObservation \<Rightarrow> InputItem list" where
  "observation_items ob =
     [ToolCall (to_call_id ob) (to_capability ob) (Complete (to_arguments ob)),
      ToolResult (to_call_id ob) (to_is_error ob) (to_content ob)]"

definition request_input :: "RetainedItem list \<Rightarrow> ToolObservation list \<Rightarrow> InputItem list" where
  "request_input items observations =
     SystemPolicyRef ''system/default'' # map to_input_item items @ concat (map observation_items observations)"

definition build_request ::
  "RunId \<Rightarrow> ModelCallId \<Rightarrow> ModelRef \<Rightarrow> RetainedItem list \<Rightarrow> ToolObservation list \<Rightarrow> ToolOffer list \<Rightarrow> RunBudget \<Rightarrow>
   ControllerError + ModelCallRequest"
where
  "build_request run_id call_id model items observations offers budget =
     (case input_items_new (request_input items observations) of
        Err e \<Rightarrow> Err (ControllerError.StreamRejected (domain_error_code e))
      | Ok input \<Rightarrow>
          Ok \<lparr>mq_call_id = call_id, mq_run_id = run_id, mq_model = model, mq_route_requirements = route_requirements_text,
              mq_input = input, mq_tools = map of_name offers, mq_tool_offers = offers, mq_output_schema = None,
              mq_settings = \<lparr>ps_temperature_millis = None, ps_top_p_millis = None, ps_reasoning_effort = None\<rparr>,
              mq_limits = budget_call_limits budget\<rparr>)"

definition classify_failure :: "ProviderError \<Rightarrow> FailureClass" where
  "classify_failure error = (if provider_error_retryable error then Transient else Permanent)"

definition selected_model :: "ModelRef list \<Rightarrow> ControllerError + ModelRef" where
  "selected_model models = (case models of [] \<Rightarrow> Err ControllerError.NoModelServed | m # _ \<Rightarrow> Ok m)"

end
