(* ===== verification/Run_Controller.thy ===== *)
theory Run_Controller
  imports Run_Turn
begin

text \<open>
  The run controller (\<open>jarvis-application/src/run_controller.rs\<close> and \<open>run_controller/resume.rs\<close>): one run from its
  first step to an answer, a failure or a pending approval, over the database and the tool-call service. The model
  provider, the memories, the cancellation of the caller and the elapsed timeouts are arguments: the provider's
  answer to the \<open>n\<close>-th request is the list of frames its stream yields, the \<open>n\<close>-th look at the cancellation
  scope and the \<open>n\<close>-th bounded wait have given results. The clock and the identifiers are those of the tool
  service. Notifying live readers changes no state here.
\<close>

record RequestContext =
  rx_workspace_id :: WorkspaceId
  rx_principal_id :: PrincipalId

type_synonym Frame = "ProviderError + ModelStreamEvent"

record ControllerPorts =
  kp_service :: ToolPorts
  kp_has_tools :: bool
  kp_offers :: "ToolOffer list"
  kp_models :: "ModelRef list"
  kp_open :: "nat \<Rightarrow> ModelCallRequest \<Rightarrow> ProviderError + Frame list"
  kp_elapsed :: "nat \<Rightarrow> bool"
  kp_cancelled :: "nat \<Rightarrow> bool"
  kp_cancel_reason :: "string option"
  kp_memories :: "(WorkspaceId \<Rightarrow> string \<Rightarrow> u32 \<Rightarrow> RepositoryError + MemoryHit list) option"
  kp_has_resumes :: bool
  kp_record_bytes :: "ResumeRecord \<Rightarrow> nat"
  kp_stamp :: string
  kp_duration_since :: "instant \<Rightarrow> instant \<Rightarrow> int"
  kp_millis :: "int \<Rightarrow> int"
  kp_delta_payload :: "string \<Rightarrow> string \<Rightarrow> string"

record ControllerWorld =
  kw_db :: Database
  kw_service :: ToolWorld
  kw_requests :: "ModelCallRequest list"
  kw_polls :: nat
  kw_waits :: nat

type_synonym 'a controller = "(ControllerWorld, ControllerError, 'a) eff"

section \<open>Reaching the ports\<close>

definition on_db :: "(Database, RepositoryError, 'a) eff \<Rightarrow> 'a controller" where
  "on_db m w =
     (case m (kw_db w) of
        (Ok x, d) \<Rightarrow> (Ok x, w\<lparr>kw_db := d\<rparr>)
      | (Err e, d) \<Rightarrow> (Err (ControllerError.Repository e), w\<lparr>kw_db := d\<rparr>))"

definition on_service :: "'a service \<Rightarrow> (ToolServiceError + 'a) controller" where
  "on_service m w = (case m (kw_service w) of (r, t) \<Rightarrow> (Ok r, w\<lparr>kw_service := t\<rparr>))"

definition controller_now :: "ControllerPorts \<Rightarrow> instant controller" where
  "controller_now p =
     eff_bind (on_service (service_now (kp_service p))) (\<lambda>r.
       case r of Ok t \<Rightarrow> eff_return t | Err _ \<Rightarrow> eff_throw ControllerError.ClockUnavailable)"

definition controller_id :: "ControllerPorts \<Rightarrow> uuid controller" where
  "controller_id p w =
     (Ok (tp_fresh_id (kp_service p) (tw_ids_drawn (kw_service w))),
      w\<lparr>kw_service := (kw_service w)\<lparr>tw_ids_drawn := Suc (tw_ids_drawn (kw_service w))\<rparr>\<rparr>)"

definition is_cancelled :: "ControllerPorts \<Rightarrow> bool controller" where
  "is_cancelled p w = (Ok (kp_cancelled p (kw_polls w)), w\<lparr>kw_polls := Suc (kw_polls w)\<rparr>)"

definition provider_open :: "ControllerPorts \<Rightarrow> ModelCallRequest \<Rightarrow> (ProviderError + Frame list) controller" where
  "provider_open p request w =
     (Ok (kp_open p (length (kw_requests w)) request), w\<lparr>kw_requests := kw_requests w @ [request]\<rparr>)"

definition has_elapsed :: "ControllerPorts \<Rightarrow> bool controller" where
  "has_elapsed p w = (Ok (kp_elapsed p (kw_waits w)), w\<lparr>kw_waits := Suc (kw_waits w)\<rparr>)"

definition wait_bound :: "ControllerPorts \<Rightarrow> RunBudget \<Rightarrow> u64 option controller" where
  "wait_bound p budget =
     eff_bind (controller_now p) (\<lambda>now.
       let deadline_bound =
             (case status_at (kp_duration_since p) (kp_millis p) budget now of
                BudgetStatus.Expired _ \<Rightarrow> Some 0 | BudgetStatus.Remaining _ millis \<Rightarrow> Some millis
              | BudgetStatus.Unbounded \<Rightarrow> None) in
       eff_return
         (case (deadline_bound, rb_step_timeout_ms budget) of
            (Some deadline, Some step) \<Rightarrow> Some (min deadline step)
          | (Some bound, None) \<Rightarrow> Some bound
          | (None, Some bound) \<Rightarrow> Some bound
          | (None, None) \<Rightarrow> None))"

definition wait_bounded :: "ControllerPorts \<Rightarrow> RunBudget \<Rightarrow> 'a controller \<Rightarrow> 'a option controller" where
  "wait_bounded p budget future =
     eff_bind (wait_bound p budget) (\<lambda>bound.
     eff_bind future (\<lambda>x.
       case bound of
         None \<Rightarrow> eff_return (Some x)
       | Some _ \<Rightarrow> eff_bind (has_elapsed p) (\<lambda>elapsed. eff_return (if elapsed then None else Some x))))"

section \<open>Steps of the lifecycle\<close>

definition controller_load :: "RunRef \<Rightarrow> StoredRun controller" where
  "controller_load run = on_db (on_runs (run_load (rf_workspace run) (rf_run_id run)))"

definition advance :: "ControllerPorts \<Rightarrow> RunRef \<Rightarrow> RunVersion \<Rightarrow> Step \<Rightarrow> StoredRun controller" where
  "advance p run version step =
     eff_bind (controller_now p) (\<lambda>now.
     eff_bind (eff_lift (case transition_reason_new (sp_reason step) of
                 Err e \<Rightarrow> Err (ControllerError.StreamRejected (domain_error_code e)) | Ok r \<Rightarrow> Ok r)) (\<lambda>reason.
     let transition = run_transition_new (sp_from step) (sp_to step) version TransitionActor.Controller reason now in
     eff_bind (on_db (on_runs (next_event_sequence (rf_workspace run) (rf_run_id run)))) (\<lambda>sequence.
     let event = \<lparr>ne_run_id = rf_run_id run, ne_sequence = sequence, ne_event_type = sp_event_type step,
                  ne_payload_json = step_payload step, ne_visibility = EventVisibility.Public, ne_occurred_at = now\<rparr>;
         write = (run_write_new transition event)\<lparr>rw_outcome := sp_outcome step, rw_waiting := sp_waiting step\<rparr> in
     eff_bind (controller_id p) (\<lambda>fresh.
     on_db (on_runs (run_transition fresh (rf_workspace run) write))))))"

definition controller_step :: "ControllerPorts \<Rightarrow> RunRef \<Rightarrow> Step \<Rightarrow> unit controller" where
  "controller_step p run step =
     eff_bind (controller_load run) (\<lambda>stored.
     eff_bind (advance p run (st_version stored) step) (\<lambda>_. eff_return ()))"

definition controller_finish :: "ControllerPorts \<Rightarrow> RunRef \<Rightarrow> Step \<Rightarrow> unit controller" where
  "controller_finish p run step = controller_step p run step"

text \<open>The run is moved to its end and the error returned.\<close>

definition finish_with :: "ControllerPorts \<Rightarrow> RunRef \<Rightarrow> Step \<Rightarrow> ControllerError \<Rightarrow> 'a controller" where
  "finish_with p run step error = eff_bind (controller_finish p run step) (\<lambda>_. eff_throw error)"

definition step_unless_cancelled :: "ControllerPorts \<Rightarrow> RunRef \<Rightarrow> Step \<Rightarrow> unit controller" where
  "step_unless_cancelled p run step =
     eff_bind (controller_step p run step) (\<lambda>_.
     eff_bind (is_cancelled p) (\<lambda>cancelled.
       if \<not> cancelled then eff_return ()
       else finish_with p run
              (with_requester_reason (cancelled_from (sp_to step) ''cancelled_during_step'') (kp_cancel_reason p))
              ControllerError.Cancelled))"

section \<open>The outcome of a model call\<close>

definition record_call_outcome_with ::
  "ControllerPorts \<Rightarrow> RunRef \<Rightarrow> ModelCallId \<Rightarrow> ModelCallState \<Rightarrow> RecordedOutcome \<Rightarrow> unit controller"
where
  "record_call_outcome_with p run call_id state recorded =
     eff_bind (controller_now p) (\<lambda>completed_at.
     on_db (record_outcome (rf_workspace run) call_id
       \<lparr>mo_state = state, mo_provider_request_id = ro_provider_request_id recorded, mo_continuation_ref = None,
        mo_usage = ro_usage recorded,
        mo_estimated_cost_microunits = Option.bind (ro_usage recorded) us_estimated_cost_microunits,
        mo_finish_reason = ro_finish_reason recorded, mo_error_code = None,
        mo_first_output_at = dt_first_output_at (ro_delivery recorded),
        mo_last_output_at = dt_last_output_at (ro_delivery recorded),
        mo_output_delta_count =
          map_option (\<lambda>_. dt_output_delta_count (ro_delivery recorded)) (dt_first_output_at (ro_delivery recorded)),
        mo_completed_at = Some completed_at\<rparr>))"

definition record_call_outcome :: "ControllerPorts \<Rightarrow> RunRef \<Rightarrow> ModelCallId \<Rightarrow> ModelCallState \<Rightarrow> unit controller" where
  "record_call_outcome p run call_id state = record_call_outcome_with p run call_id state recorded_default"

definition finish_expired ::
  "ControllerPorts \<Rightarrow> RunRef \<Rightarrow> ModelCallId option \<Rightarrow> DeliveryTiming \<Rightarrow> Usage option \<Rightarrow> string \<Rightarrow> string \<Rightarrow> unit controller"
where
  "finish_expired p run call_id delivery usage reason code =
     eff_bind (controller_finish p run (step_failed RunState.AwaitingModel ''run.failed'' reason code)) (\<lambda>_.
       case call_id of
         None \<Rightarrow> eff_return ()
       | Some call_id \<Rightarrow>
           record_call_outcome_with p run call_id ModelCallState.Failed
             (recorded_default\<lparr>ro_usage := usage, ro_delivery := delivery\<rparr>))"

definition finish_deadline_exceeded ::
  "ControllerPorts \<Rightarrow> RunRef \<Rightarrow> ModelCallId option \<Rightarrow> DeliveryTiming \<Rightarrow> unit controller"
where
  "finish_deadline_exceeded p run call_id delivery =
     finish_expired p run call_id delivery None ''deadline_exceeded''
       (controller_error_code ControllerError.DeadlineExceeded)"

definition publish_usage :: "ControllerPorts \<Rightarrow> RunRef \<Rightarrow> ModelCallId \<Rightarrow> Usage \<Rightarrow> unit controller" where
  "publish_usage p run call_id usage =
     eff_bind (on_db (on_runs (next_event_sequence (rf_workspace run) (rf_run_id run)))) (\<lambda>sequence.
     eff_bind (controller_now p) (\<lambda>now.
     eff_bind (controller_id p) (\<lambda>fresh.
     eff_bind (on_db (on_runs (append_event fresh (rf_workspace run)
       \<lparr>ne_run_id = rf_run_id run, ne_sequence = sequence, ne_event_type = USAGE_EVENT,
        ne_payload_json = Some (usage_payload (tp_show_id (kp_service p)) usage (Some call_id)),
        ne_visibility = EventVisibility.Public, ne_occurred_at = now\<rparr>))) (\<lambda>_.
     eff_return ()))))"

text \<open>Published when the provider reported a counter.\<close>

definition publish_counters :: "ControllerPorts \<Rightarrow> RunRef \<Rightarrow> ModelCallId \<Rightarrow> Usage option \<Rightarrow> unit controller" where
  "publish_counters p run call_id usage =
     (case usage of
        None \<Rightarrow> eff_return ()
      | Some reported \<Rightarrow> if has_any_counter reported then publish_usage p run call_id reported else eff_return ())"

section \<open>The context of a run\<close>

definition fail_context_building :: "ControllerPorts \<Rightarrow> RunRef \<Rightarrow> RunState \<Rightarrow> string \<Rightarrow> string \<Rightarrow> unit controller" where
  "fail_context_building p run origin reason code =
     controller_finish p run (step_failed origin ''run.failed'' reason code)"

definition refuse_a_context_without_its_objective ::
  "ControllerPorts \<Rightarrow> RunRef \<Rightarrow> RunState \<Rightarrow> ContextManifest \<Rightarrow> unit controller"
where
  "refuse_a_context_without_its_objective p run origin manifest =
     (if list_ex (\<lambda>item. mi_reference item = OBJECTIVE_REFERENCE) (mf_included manifest) then eff_return ()
      else
        eff_bind (fail_context_building p run origin ''context_objective_dropped'' ''run.context_objective_dropped'') (\<lambda>_.
        eff_throw (ControllerError.ContextUnassembled ''run.context_objective_dropped'')))"

definition recalled_memories :: "ControllerPorts \<Rightarrow> WorkspaceId \<Rightarrow> string \<Rightarrow> MemoryHit list" where
  "recalled_memories p workspace objective =
     (case kp_memories p of
        None \<Rightarrow> []
      | Some search \<Rightarrow> (case search workspace objective MEMORY_RECALL_LIMIT of Ok hits \<Rightarrow> hits | Err _ \<Rightarrow> []))"

definition build_context ::
  "ControllerPorts \<Rightarrow> RunRef \<Rightarrow> ConversationId \<Rightarrow> string \<Rightarrow> MessageId option \<Rightarrow> RunState \<Rightarrow> (RunBudget \<times> AssembledInput) controller"
where
  "build_context p run conversation_id objective objective_message origin =
     eff_bind (controller_load run) (\<lambda>stored.
     let budget = st_budget stored in
     eff_bind (on_db (load_messages (rf_workspace run) conversation_id None MAX_TRANSCRIPT_MESSAGES)) (\<lambda>transcript.
     eff_bind (controller_now p) (\<lambda>now.
       case assemble_with_memories (tp_show_id (kp_service p)) transcript
              (recalled_memories p (rf_workspace run) objective) objective objective_message
              (effective_context_ceiling budget)
              (case rb_max_context_sensitivity budget of Some s \<Rightarrow> s | None \<Rightarrow> Sensitivity.Restricted) now of
         Err error \<Rightarrow>
           eff_bind (fail_context_building p run origin ''context_unassembled'' (assembly_error_code error)) (\<lambda>_.
           eff_throw (ControllerError.ContextUnassembled (assembly_error_code error)))
       | Ok assembled \<Rightarrow>
           eff_bind (refuse_a_context_without_its_objective p run origin (ai_manifest assembled)) (\<lambda>_.
           eff_return (budget, assembled)))))"

definition resolve_model :: "ControllerPorts \<Rightarrow> RunRef \<Rightarrow> ModelRef controller" where
  "resolve_model p run =
     eff_bind (controller_load run) (\<lambda>stored.
       case rb_route (st_budget stored) of
         Some route \<Rightarrow>
           if ro_model route \<in> set (kp_models p) then eff_return (ro_model route) else eff_throw ControllerError.NoModelServed
       | None \<Rightarrow> eff_lift (selected_model (kp_models p)))"

section \<open>Reading a stream\<close>

definition fail_after_acceptance ::
  "ControllerPorts \<Rightarrow> RunRef \<Rightarrow> ModelCallId \<Rightarrow> DeliveryTiming \<Rightarrow> ProviderError \<Rightarrow> (ControllerError + DrainedTurn) controller"
where
  "fail_after_acceptance p run call_id delivery error =
     eff_bind (controller_finish p run
       (step_failed RunState.AwaitingModel ''run.failed'' ''provider_failed_after_acceptance''
          (controller_error_code (ControllerError.Provider error)))) (\<lambda>_.
     eff_bind (record_call_outcome_with p run call_id ModelCallState.Failed
       (recorded_default\<lparr>ro_delivery := delivery\<rparr>)) (\<lambda>_.
     eff_return (Err (ControllerError.Provider error))))"

text \<open>The three ways a stream is refused share their shape.\<close>

definition reject_stream ::
  "ControllerPorts \<Rightarrow> RunRef \<Rightarrow> ModelCallId \<Rightarrow> string \<Rightarrow> ControllerError \<Rightarrow> (ControllerError + DrainedTurn) controller"
where
  "reject_stream p run call_id reason error =
     eff_bind (controller_finish p run
       (step_failed RunState.AwaitingModel ''run.failed'' reason (controller_error_code error))) (\<lambda>_.
     eff_bind (record_call_outcome p run call_id ModelCallState.Failed) (\<lambda>_.
     eff_return (Err error)))"

definition end_stream ::
  "ControllerPorts \<Rightarrow> RunRef \<Rightarrow> ModelCallId \<Rightarrow> ModelStreamState \<Rightarrow> DrainedTurn \<Rightarrow> (ControllerError + DrainedTurn) controller"
where
  "end_stream p run call_id state drained =
     (case stream_finish state of
        Ok (Terminal _) \<Rightarrow> eff_return (Ok drained)
      | Ok (Interrupted _) \<Rightarrow> reject_stream p run call_id ''stream_interrupted'' ControllerError.StreamInterrupted
      | Err error \<Rightarrow>
          reject_stream p run call_id ''stream_unfinished'' (ControllerError.StreamRejected (domain_error_code error)))"

text \<open>A piece of the answer is stored before it is kept.\<close>

definition persist_delta :: "ControllerPorts \<Rightarrow> RunRef \<Rightarrow> string \<Rightarrow> string \<Rightarrow> instant controller" where
  "persist_delta p run item_id delta =
     eff_bind (controller_now p) (\<lambda>occurred_at.
     eff_bind (controller_id p) (\<lambda>fresh w.
       case on_db (on_runs (output_text_delta fresh (rf_workspace run) (rf_run_id run)
              (kp_delta_payload p item_id delta) occurred_at)) w of
         (Ok _, w') \<Rightarrow> (Ok occurred_at, w')
       | (Err _, w') \<Rightarrow> (Err ControllerError.OutputNotPersisted, w')))"

fun drain_turn_frames ::
  "ControllerPorts \<Rightarrow> RunRef \<Rightarrow> ModelCallId \<Rightarrow> RunBudget \<Rightarrow> ModelStreamState \<Rightarrow> DrainedTurn \<Rightarrow> Frame list \<Rightarrow>
   (ControllerError + DrainedTurn) controller"
where
  "drain_turn_frames p run call_id budget state drained [] =
     eff_bind (wait_bounded p budget (eff_return ())) (\<lambda>awaited.
       if awaited = None then
         eff_bind (finish_deadline_exceeded p run (Some call_id) (delivery_of drained)) (\<lambda>_.
         eff_return (Err ControllerError.DeadlineExceeded))
       else end_stream p run call_id state drained)"
| "drain_turn_frames p run call_id budget state drained (frame # frames) =
     eff_bind (wait_bounded p budget (eff_return ())) (\<lambda>awaited.
       if awaited = None then
         eff_bind (finish_deadline_exceeded p run (Some call_id) (delivery_of drained)) (\<lambda>_.
         eff_return (Err ControllerError.DeadlineExceeded))
       else
         (case frame of
            Err error \<Rightarrow> fail_after_acceptance p run call_id (delivery_of drained) error
          | Ok event \<Rightarrow>
              (case stream_accept state event of
                 (Ok IgnoredAfterTerminal, state') \<Rightarrow> drain_turn_frames p run call_id budget state' drained frames
               | (Err error, _) \<Rightarrow>
                   reject_stream p run call_id ''stream_frame_rejected''
                     (ControllerError.StreamRejected (domain_error_code error))
               | (Ok Accepted, state') \<Rightarrow>
                   (case se_kind event of
                      OutputTextDelta item_id delta \<Rightarrow>
                        eff_bind (persist_delta p run item_id delta) (\<lambda>occurred_at.
                        drain_turn_frames p run call_id budget state' (capture_delta drained occurred_at delta) frames)
                    | _ \<Rightarrow> drain_turn_frames p run call_id budget state' (capture drained event) frames))))"

definition drain_stream ::
  "ControllerPorts \<Rightarrow> RunRef \<Rightarrow> ModelCallId \<Rightarrow> Frame list \<Rightarrow> RunBudget \<Rightarrow> (ControllerError + DrainedTurn) controller"
where
  "drain_stream p run call_id stream budget =
     drain_turn_frames p run call_id budget (stream_state_new call_id) drained_default stream"

section \<open>Tools\<close>

datatype DispatchStep = Observed ToolObservation | Waiting uuid

datatype DispatchOutcome = Observations "ToolObservation list" | WaitingApproval uuid nat "ToolObservation list"

record DispatchPlan =
  pl_calls :: "CapturedToolCall list"
  pl_first :: nat
  pl_decided :: "DurableApproval option"
  pl_settled :: "ToolObservation list"

definition plan_fresh :: "CapturedToolCall list \<Rightarrow> DispatchPlan" where
  "plan_fresh calls = \<lparr>pl_calls = calls, pl_first = 0, pl_decided = None, pl_settled = []\<rparr>"

definition dispatch_one ::
  "ControllerPorts \<Rightarrow> RunRef \<Rightarrow> RequestContext \<Rightarrow> CapturedToolCall \<Rightarrow> DurableApproval option \<Rightarrow> DispatchStep controller"
where
  "dispatch_one p run context call released =
     (case tool_arguments_new (ct_arguments call) of
        Err _ \<Rightarrow>
          eff_return (Observed (observed call True
            (refused_content (error_class_as_contract_str ToolErrorClass.SchemaInvalid)
               ''the arguments were empty or exceeded the accepted size'')))
      | Ok arguments \<Rightarrow>
          eff_bind (controller_id p) (\<lambda>fresh.
          eff_bind (eff_lift (case tool_call_intent_new fresh (ct_capability call) arguments None of
              Err e \<Rightarrow> Err (ControllerError.StreamRejected (domain_error_code e)) | Ok i \<Rightarrow> Ok i)) (\<lambda>intent.
          eff_bind (on_service (case released of
              Some approval \<Rightarrow>
                resume (kp_service p) (rx_workspace_id context) (rx_principal_id context) (rf_run_id run) approval intent
            | None \<Rightarrow>
                invoke (kp_service p) (rx_workspace_id context) (rx_principal_id context) (rf_run_id run) intent
                  (ct_call_id call))) (\<lambda>r.
            case r of
              Err error \<Rightarrow> eff_throw (ControllerError.ToolRefused (service_error_code error))
            | Ok (ToolCallOutcome.WaitingApproval approval) \<Rightarrow> eff_return (DispatchStep.Waiting approval)
            | Ok outcome \<Rightarrow> eff_return (Observed (observation_of call outcome))))))"

text \<open>The loop over the calls from \<open>first\<close> on; only the first of them may be released by a decision.\<close>

fun dispatch_calls ::
  "ControllerPorts \<Rightarrow> RunRef \<Rightarrow> RequestContext \<Rightarrow> DurableApproval option \<Rightarrow> ToolObservation list \<Rightarrow> nat \<Rightarrow>
   CapturedToolCall list \<Rightarrow> DispatchOutcome controller"
where
  "dispatch_calls p run context released observations index [] = eff_return (Observations observations)"
| "dispatch_calls p run context released observations index (call # calls) =
     eff_try (dispatch_one p run context call released) (\<lambda>r.
       case r of
         Err error \<Rightarrow>
           finish_with p run
             (step_failed RunState.ExecutingTool ''run.failed'' ''tool_dispatch_failed'' (controller_error_code error)) error
       | Ok (Observed ob) \<Rightarrow> dispatch_calls p run context None (observations @ [ob]) (Suc index) calls
       | Ok (DispatchStep.Waiting approval) \<Rightarrow> eff_return (DispatchOutcome.WaitingApproval approval index observations))"

definition dispatch_tools :: "ControllerPorts \<Rightarrow> RunRef \<Rightarrow> RequestContext \<Rightarrow> DispatchPlan \<Rightarrow> DispatchOutcome controller" where
  "dispatch_tools p run context plan =
     (if \<not> kp_has_tools p then
        (let error = ControllerError.ToolsNotImplemented (case pl_calls plan of [] \<Rightarrow> [] | c # _ \<Rightarrow> ct_capability c) in
         finish_with p run
           (step_failed RunState.ExecutingTool ''run.failed'' ''tool_fabric_unavailable'' (controller_error_code error)) error)
      else
        dispatch_calls p run context (pl_decided plan) (pl_settled plan) (pl_first plan)
          (drop (pl_first plan) (pl_calls plan)))"

section \<open>A turn\<close>

record ParkedBatch =
  pk_approval :: uuid
  pk_calls :: "CapturedToolCall list"
  pk_waiting_index :: nat
  pk_settled :: "ToolObservation list"

datatype TurnOutcome = Answer RunOutcome | ToolResults "ToolObservation list" | TurnWaiting ParkedBatch

datatype AttemptOutcome = AttemptCompleted TurnOutcome | Retryable FailureClass ProviderError

record ModelTurn =
  mt_context :: RequestContext
  mt_conversation_id :: ConversationId
  mt_items :: "RetainedItem list"
  mt_observations :: "ToolObservation list"
  mt_model :: ModelRef
  mt_budget :: RunBudget

definition settle_tool_calls ::
  "ControllerPorts \<Rightarrow> RunRef \<Rightarrow> ModelTurn \<Rightarrow> ModelCallId \<Rightarrow> DrainedTurn \<Rightarrow> Usage option \<Rightarrow> DeliveryTiming \<Rightarrow> AttemptOutcome controller"
where
  "settle_tool_calls p run turn call_id drained usage delivery =
     eff_bind (controller_step p run
       (step_new RunState.AwaitingModel RunState.ExecutingTool ''run.tool_executing'' ''tool_calls_proposed'')) (\<lambda>_.
     eff_bind (dispatch_tools p run (mt_context turn) (plan_fresh (dr_tool_calls drained))) (\<lambda>dispatched.
     eff_bind (record_call_outcome_with p run call_id ModelCallState.Completed
       \<lparr>ro_usage = usage, ro_finish_reason = dr_finish_reason drained, ro_delivery = delivery,
        ro_provider_request_id = dr_provider_request_id drained\<rparr>) (\<lambda>_.
     eff_bind (publish_counters p run call_id usage) (\<lambda>_.
       case dispatched of
         Observations observations \<Rightarrow>
           eff_bind (controller_step p run
             (step_new RunState.ExecutingTool RunState.Observing ''run.observing'' ''tool_calls_settled'')) (\<lambda>_.
           eff_return (AttemptCompleted (ToolResults observations)))
       | DispatchOutcome.WaitingApproval approval waiting_index settled \<Rightarrow>
           eff_return (AttemptCompleted (TurnWaiting
             \<lparr>pk_approval = approval, pk_calls = dr_tool_calls drained, pk_waiting_index = waiting_index,
              pk_settled = settled\<rparr>))))))"

definition settle_provider_terminal ::
  "ControllerPorts \<Rightarrow> RunRef \<Rightarrow> ModelCallId \<Rightarrow> Usage option \<Rightarrow> DrainedTurn \<Rightarrow> unit controller"
where
  "settle_provider_terminal p run call_id usage drained =
     (let settle = (\<lambda>outcome step error.
            eff_bind (controller_finish p run step) (\<lambda>_.
            eff_bind (record_call_outcome_with p run call_id outcome
              \<lparr>ro_usage = usage, ro_finish_reason = dr_finish_reason drained, ro_delivery = delivery_of drained,
               ro_provider_request_id = dr_provider_request_id drained\<rparr>) (\<lambda>_. eff_throw error))) in
      if dr_finish_reason drained = Some FinishReason.ProviderError then
        settle ModelCallState.Failed
          (step_failed RunState.AwaitingModel ''run.failed'' ''provider_reported_call_failed''
             (controller_error_code ControllerError.ModelCallFailed)) ControllerError.ModelCallFailed
      else if dr_finish_reason drained = Some FinishReason.Cancelled then
        settle ModelCallState.Cancelled
          (cancelled_from RunState.AwaitingModel ''provider_reported_call_cancelled'') ControllerError.Cancelled
      else eff_return ())"

definition store_answer :: "ControllerPorts \<Rightarrow> RunRef \<Rightarrow> ConversationId \<Rightarrow> string \<Rightarrow> instant \<Rightarrow> unit controller" where
  "store_answer p run conversation_id answer at' =
     (if answer = [] then eff_return ()
      else
        eff_bind (controller_id p) (\<lambda>fresh.
        eff_bind (eff_lift (case new_message_validated
            \<lparr>nm_id = fresh, nm_conversation_id = conversation_id, nm_role = Role.Assistant, nm_content = answer,
             nm_content_schema_version = 1, nm_sensitivity = ''internal'', nm_source = ''daemon'', nm_created_at = at'\<rparr> of
            Err e \<Rightarrow> Err (ControllerError.Repository e) | Ok m \<Rightarrow> Ok m)) (\<lambda>message.
        eff_bind (on_db (append_message (rf_workspace run) message)) (\<lambda>_. eff_return ()))))"

definition complete_run ::
  "ControllerPorts \<Rightarrow> RunRef \<Rightarrow> DrainedTurn \<Rightarrow> ConversationId \<Rightarrow> instant \<Rightarrow> RunOutcome controller"
where
  "complete_run p run drained conversation_id at' =
     eff_bind (controller_step p run
       (step_new RunState.AwaitingModel RunState.Responding ''run.responding'' ''final_response'')) (\<lambda>_.
     eff_bind (is_cancelled p) (\<lambda>cancelled.
       if cancelled then
         finish_with p run
           (with_requester_reason (cancelled_from RunState.Responding ''cancelled_during_delivery'') (kp_cancel_reason p))
           ControllerError.Cancelled
       else
         eff_try (store_answer p run conversation_id (dr_answer drained) at') (\<lambda>stored.
           case stored of
             Err error \<Rightarrow>
               finish_with p run
                 (step_failed RunState.Responding ''run.failed'' ''answer_not_stored'' (controller_error_code error)) error
           | Ok _ \<Rightarrow>
               eff_bind (controller_step p run
                 (step_new RunState.Responding RunState.Completed ''run.completed'' ''answer_delivered'')) (\<lambda>_.
               eff_return \<lparr>ou_run_id = rf_run_id run, ou_state = RunState.Completed,
                           ou_answer = Some (dr_answer drained), ou_error_code = None\<rparr>))))"

definition finish_attempt ::
  "ControllerPorts \<Rightarrow> RunRef \<Rightarrow> ModelTurn \<Rightarrow> ModelCallId \<Rightarrow> DrainedTurn \<Rightarrow> AttemptOutcome controller"
where
  "finish_attempt p run turn call_id drained =
     (let usage = dr_usage drained; delivery = delivery_of drained in
      if dr_tool_calls drained \<noteq> [] then settle_tool_calls p run turn call_id drained usage delivery
      else
        (case Option.bind usage (exceeded_by (mt_budget turn)) of
           Some limit \<Rightarrow>
             eff_bind (finish_expired p run (Some call_id) delivery usage ''consumption_budget_exceeded''
                         (controller_error_code (ControllerError.BudgetExceeded limit))) (\<lambda>_.
             eff_throw (ControllerError.BudgetExceeded limit))
         | None \<Rightarrow>
             eff_bind (settle_provider_terminal p run call_id usage drained) (\<lambda>_.
             eff_bind (controller_now p) (\<lambda>completed_at.
             eff_bind (record_call_outcome_with p run call_id ModelCallState.Completed
               \<lparr>ro_usage = usage, ro_finish_reason = dr_finish_reason drained, ro_delivery = delivery,
                ro_provider_request_id = dr_provider_request_id drained\<rparr>) (\<lambda>_.
             eff_bind (publish_counters p run call_id usage) (\<lambda>_.
             eff_bind (complete_run p run drained (mt_conversation_id turn) completed_at) (\<lambda>outcome.
             eff_return (AttemptCompleted (Answer outcome)))))))))"

definition fail_open :: "ControllerPorts \<Rightarrow> RunRef \<Rightarrow> ModelCallId \<Rightarrow> ProviderError \<Rightarrow> AttemptOutcome controller" where
  "fail_open p run call_id error =
     (let cancelled = (error = ProviderError.Cancelled); timed_out = (error = ProviderError.Timeout);
          class = classify_failure error in
      if \<not> cancelled \<and> \<not> timed_out \<and> class = Transient then
        eff_bind (record_call_outcome p run call_id ModelCallState.Failed) (\<lambda>_. eff_return (Retryable class error))
      else
        (let reason = (if timed_out then ''deadline_exceeded'' else ''provider_refused'');
             returned = (if cancelled then ControllerError.Cancelled
                         else if timed_out then ControllerError.DeadlineExceeded else ControllerError.Provider error);
             outcome = (if cancelled then ModelCallState.Cancelled else ModelCallState.Failed);
             step = (if cancelled then cancelled_from RunState.AwaitingModel ''cancelled_before_acceptance''
                     else step_failed RunState.AwaitingModel ''run.failed'' reason (controller_error_code returned)) in
         eff_bind (controller_finish p run step) (\<lambda>_.
         eff_bind (record_call_outcome p run call_id outcome) (\<lambda>_. eff_throw returned))))"

definition cancel_after_output :: "ControllerPorts \<Rightarrow> RunRef \<Rightarrow> ModelCallId \<Rightarrow> DrainedTurn \<Rightarrow> AttemptOutcome controller" where
  "cancel_after_output p run call_id drained =
     eff_bind (controller_finish p run
       (with_requester_reason (cancelled_from RunState.AwaitingModel ''cancelled_after_output'') (kp_cancel_reason p))) (\<lambda>_.
     eff_bind (record_call_outcome_with p run call_id ModelCallState.Cancelled
       (recorded_default\<lparr>ro_usage := dr_usage drained, ro_provider_request_id := dr_provider_request_id drained,
                         ro_delivery := delivery_of drained\<rparr>)) (\<lambda>_.
     eff_throw ControllerError.Cancelled))"

definition attempt_call ::
  "ControllerPorts \<Rightarrow> RunRef \<Rightarrow> ModelTurn \<Rightarrow> ModelCallId \<Rightarrow> u32 \<Rightarrow> RunRoute option \<Rightarrow> AttemptOutcome controller"
where
  "attempt_call p run turn logical_call_id attempt route =
     eff_bind (controller_id p) (\<lambda>call_id.
     eff_bind (controller_now p) (\<lambda>started_at.
     eff_bind (on_db (record_attempt
       \<lparr>nk_id = call_id, nk_workspace_id = rf_workspace run, nk_run_id = rf_run_id run,
        nk_logical_call_id = logical_call_id, nk_attempt = attempt, nk_model = mt_model turn,
        nk_route_decision = map_option ro_decision route, nk_request_fingerprint = None, nk_started_at = started_at\<rparr>)) (\<lambda>_.
     eff_bind (eff_lift (build_request (rf_run_id run) call_id (mt_model turn) (mt_items turn) (mt_observations turn)
                           (if kp_has_tools p then kp_offers p else []) (mt_budget turn))) (\<lambda>request.
     eff_bind (wait_bounded p (mt_budget turn) (provider_open p request)) (\<lambda>opened.
       case opened of
         None \<Rightarrow>
           eff_bind (finish_deadline_exceeded p run (Some call_id) delivery_default) (\<lambda>_.
           eff_throw ControllerError.DeadlineExceeded)
       | Some (Err error) \<Rightarrow> fail_open p run call_id error
       | Some (Ok stream) \<Rightarrow>
           eff_bind (drain_stream p run call_id stream (mt_budget turn)) (\<lambda>result.
             case result of
               Err error \<Rightarrow> eff_throw error
             | Ok drained \<Rightarrow>
                 eff_bind (is_cancelled p) (\<lambda>cancelled.
                   if cancelled then cancel_after_output p run call_id drained
                   else finish_attempt p run turn call_id drained)))))))"

text \<open>What follows a failure that may be repeated: the next attempt's number after its pause, or the end of the run.\<close>

definition before_retry ::
  "ControllerPorts \<Rightarrow> RunRef \<Rightarrow> ModelTurn \<Rightarrow> u32 \<Rightarrow> FailureClass \<Rightarrow> ProviderError \<Rightarrow> u32 controller"
where
  "before_retry p run turn attempt class error =
     eff_bind (controller_now p) (\<lambda>now.
       let decision = retry_decide (kp_duration_since p) (kp_millis p) (rb_retry (mt_budget turn)) class BeforeAcceptance
                        attempt (mt_budget turn) now in
       (case decision of
          Retry next_attempt _ \<Rightarrow>
            eff_bind (wait_bounded p (mt_budget turn) (eff_return ())) (\<lambda>waited.
              if waited = None then
                eff_bind (finish_expired p run None delivery_default None ''deadline_exceeded''
                            (controller_error_code ControllerError.DeadlineExceeded)) (\<lambda>_.
                eff_throw ControllerError.DeadlineExceeded)
              else eff_return next_attempt)
        | GiveUp _ \<Rightarrow>
            (let reason = (if refused_by_budget decision then ''retry_refused_by_budget'' else ''retry_refused'');
                 returned = (if refused_by_budget decision then ControllerError.DeadlineExceeded
                             else ControllerError.Provider error) in
             finish_with p run
               (step_failed RunState.AwaitingModel ''run.failed'' reason (controller_error_code returned)) returned)))"

lemma retry_decide_next:
  "retry_decide ds ms policy class site attempt budget now = Retry next_attempt delay \<Longrightarrow>
   next_attempt = saturating_add attempt 1 \<and> permits_attempt policy next_attempt"
  by (auto simp: retry_decide_def Let_def split: if_split_asm BudgetStatus.split_asm)

lemma before_retry_next:
  "before_retry p run turn attempt class error w = (Ok next_attempt, w') \<Longrightarrow>
   next_attempt = saturating_add attempt 1 \<and> permits_attempt (rb_retry (mt_budget turn)) next_attempt"
  by (auto simp: before_retry_def finish_with_def Let_def elim!: eff_bind_OkE
      split: RetryDecision.split_asm if_split_asm dest!: retry_decide_next)

text \<open>
  The loop over attempts. The fuel is the number of attempts the policy permits, and one more; it is never used up
  (\<open>ask_attempts_enough\<close> in \<open>Run_Controller_Laws\<close>): a policy, made and read through its constructor, permits five attempts at most, so
  the saturation of the attempt counter is out of reach.
\<close>

primrec ask_attempts ::
  "nat \<Rightarrow> ControllerPorts \<Rightarrow> RunRef \<Rightarrow> ModelTurn \<Rightarrow> ModelCallId \<Rightarrow> RunRoute option \<Rightarrow> u32 \<Rightarrow> TurnOutcome controller"
where
  "ask_attempts 0 p run turn logical_call_id route attempt = eff_throw ControllerError.DeadlineExceeded"
| "ask_attempts (Suc fuel) p run turn logical_call_id route attempt =
     eff_bind (attempt_call p run turn logical_call_id attempt route) (\<lambda>attempted.
       case attempted of
         AttemptCompleted outcome \<Rightarrow> eff_return outcome
       | Retryable class error \<Rightarrow>
           eff_bind (before_retry p run turn attempt class error) (\<lambda>next_attempt.
           ask_attempts fuel p run turn logical_call_id route next_attempt))"

definition ask_model :: "ControllerPorts \<Rightarrow> RunRef \<Rightarrow> ModelTurn \<Rightarrow> TurnOutcome controller" where
  "ask_model p run turn =
     eff_bind (controller_now p) (\<lambda>now.
       if \<not> permits_step_at (kp_duration_since p) (kp_millis p) (mt_budget turn) now then
         finish_with p run
           (step_failed RunState.AwaitingModel ''run.failed'' ''deadline_exceeded_before_call''
              (controller_error_code ControllerError.DeadlineExceeded)) ControllerError.DeadlineExceeded
       else
         eff_bind (controller_load run) (\<lambda>stored.
         eff_bind (controller_id p) (\<lambda>logical_call_id.
         ask_attempts (Suc (unat (rp_max_attempts (rb_retry (mt_budget turn))))) p run turn logical_call_id
           (rb_route (st_budget stored)) 1)))"

section \<open>A run\<close>

record TurnInputs =
  ti_context :: RequestContext
  ti_conversation_id :: ConversationId
  ti_objective :: string
  ti_objective_message :: "MessageId option"
  ti_items :: "RetainedItem list"
  ti_model :: ModelRef
  ti_budget :: RunBudget

record TurnStart =
  ts_turn_index :: u32
  ts_observations :: "ToolObservation list"
  ts_after_tools :: bool

definition turn_first :: TurnStart where
  "turn_first = \<lparr>ts_turn_index = 1, ts_observations = [], ts_after_tools = False\<rparr>"

definition resume_record :: "RunRef \<Rightarrow> TurnInputs \<Rightarrow> u32 \<Rightarrow> ParkedBatch \<Rightarrow> ResumeRecord" where
  "resume_record run turn turn_index parked =
     \<lparr>re_version = RESUME_RECORD_VERSION, re_run = rf_run_id run, re_workspace = rf_workspace run,
      re_conversation = ti_conversation_id turn, re_approval = pk_approval parked, re_turn_index = turn_index,
      re_objective = ti_objective turn, re_objective_message = ti_objective_message turn,
      re_calls = map resume_call (pk_calls parked),
      re_waiting_index = (if pk_waiting_index parked < 2 ^ 32 then of_nat (pk_waiting_index parked) else - 1),
      re_settled = map resume_observation (pk_settled parked)\<rparr>"

definition park :: "ControllerPorts \<Rightarrow> RunRef \<Rightarrow> TurnInputs \<Rightarrow> u32 \<Rightarrow> ParkedBatch \<Rightarrow> RunOutcome controller" where
  "park p run turn turn_index parked =
     eff_try (if kp_has_resumes p
              then on_db (resume_save (kp_record_bytes p) (kp_stamp p) (resume_record run turn turn_index parked))
              else eff_return ()) (\<lambda>saved.
       case saved of
         Err error \<Rightarrow>
           finish_with p run
             (step_failed RunState.ExecutingTool ''run.failed'' ''resume_state_unsaved'' (controller_error_code error)) error
       | Ok _ \<Rightarrow>
           eff_bind (eff_lift (case waiting_on_new ''approval'' (tp_show_id (kp_service p) (pk_approval parked)) of
               Err e \<Rightarrow> Err (ControllerError.Repository e) | Ok waiting \<Rightarrow> Ok waiting)) (\<lambda>waiting.
           eff_bind (controller_finish p run
             (step_parked_on RunState.ExecutingTool RunState.AwaitingApproval ''run.approval_requested''
                ''tool_approval_pending'' waiting)) (\<lambda>_.
           eff_return \<lparr>ou_run_id = rf_run_id run, ou_state = RunState.AwaitingApproval, ou_answer = None,
                       ou_error_code = None\<rparr>)))"

text \<open>One round of the loop over turns: the run ends or waits, or goes on with the observations of its tools.\<close>

datatype Round = Ended RunOutcome | Continue u32 "ToolObservation list"

definition enter_turn :: "ControllerPorts \<Rightarrow> RunRef \<Rightarrow> TurnStart \<Rightarrow> u32 controller" where
  "enter_turn p run start =
     (if \<not> ts_after_tools start then eff_return (ts_turn_index start)
      else
        (let turn_index = saturating_add (ts_turn_index start) 1 in
         if turn_index > MAX_MODEL_TURNS then
           finish_with p run
             (step_failed RunState.Observing ''run.failed'' ''turn_budget_exhausted''
                (controller_error_code ControllerError.TurnBudgetExceeded)) ControllerError.TurnBudgetExceeded
         else
           eff_bind (step_unless_cancelled p run
             (step_new RunState.Observing RunState.Planning ''run.planning'' ''observation_ready'')) (\<lambda>_.
           eff_bind (step_unless_cancelled p run
             (step_new RunState.Planning RunState.AwaitingModel ''run.model_started'' ''model_call_requested'')) (\<lambda>_.
           eff_return turn_index))))"

definition model_turn :: "TurnInputs \<Rightarrow> ToolObservation list \<Rightarrow> ModelTurn" where
  "model_turn turn observations =
     \<lparr>mt_context = ti_context turn, mt_conversation_id = ti_conversation_id turn, mt_items = ti_items turn,
      mt_observations = observations, mt_model = ti_model turn, mt_budget = ti_budget turn\<rparr>"

definition turn_round :: "ControllerPorts \<Rightarrow> RunRef \<Rightarrow> TurnInputs \<Rightarrow> TurnStart \<Rightarrow> Round controller" where
  "turn_round p run turn start =
     eff_bind (enter_turn p run start) (\<lambda>turn_index.
     eff_bind (ask_model p run (model_turn turn (ts_observations start))) (\<lambda>outcome.
       case outcome of
         Answer outcome \<Rightarrow> eff_return (Ended outcome)
       | ToolResults produced \<Rightarrow> eff_return (Continue turn_index produced)
       | TurnWaiting parked \<Rightarrow> eff_bind (park p run turn turn_index parked) (\<lambda>outcome. eff_return (Ended outcome))))"

lemma turn_round_continues:
  "turn_round p run turn start w = (Ok (Continue turn_index produced), w') \<Longrightarrow>
   turn_index = (if ts_after_tools start then saturating_add (ts_turn_index start) 1 else ts_turn_index start) \<and>
   (ts_after_tools start \<longrightarrow> turn_index \<le> MAX_MODEL_TURNS)"
  by (auto simp: turn_round_def enter_turn_def finish_with_def Let_def elim!: eff_bind_OkE
      split: TurnOutcome.split_asm if_split_asm)

definition turns_left :: "TurnStart \<Rightarrow> nat" where
  "turns_left start = 2 * (unat MAX_MODEL_TURNS - unat (ts_turn_index start)) + (if ts_after_tools start then 0 else 1)"

lemma turns_left_decreases:
  assumes "turn_round p run turn start w = (Ok (Continue turn_index produced), w')"
  shows "turns_left \<lparr>ts_turn_index = turn_index, ts_observations = produced, ts_after_tools = True\<rparr> < turns_left start"
  using turn_round_continues [OF assms]
  by (auto simp: turns_left_def MAX_MODEL_TURNS_def unat_saturating_add word_le_nat_alt split: if_split_asm)

function drive_turns :: "ControllerPorts \<Rightarrow> RunRef \<Rightarrow> TurnInputs \<Rightarrow> TurnStart \<Rightarrow> RunOutcome controller" where
  "drive_turns p run turn start w =
     (case turn_round p run turn start w of
        (Err e, w') \<Rightarrow> (Err e, w')
      | (Ok (Ended outcome), w') \<Rightarrow> (Ok outcome, w')
      | (Ok (Continue turn_index produced), w') \<Rightarrow>
          drive_turns p run turn \<lparr>ts_turn_index = turn_index, ts_observations = produced, ts_after_tools = True\<rparr> w')"
  by pat_completeness auto
termination
  by (relation "measure (\<lambda>(p, run, turn, start, w). turns_left start)") (auto dest: turns_left_decreases [OF sym])

definition resolve_or_fail :: "ControllerPorts \<Rightarrow> RunRef \<Rightarrow> RunState \<Rightarrow> ModelRef controller" where
  "resolve_or_fail p run origin =
     eff_try (resolve_model p run) (\<lambda>r.
       case r of
         Ok model \<Rightarrow> eff_return model
       | Err error \<Rightarrow>
           finish_with p run (step_failed origin ''run.failed'' ''no_model_served'' (controller_error_code error)) error)"

definition turn_inputs ::
  "RequestContext \<Rightarrow> ConversationId \<Rightarrow> string \<Rightarrow> MessageId option \<Rightarrow> AssembledInput \<Rightarrow> ModelRef \<Rightarrow> RunBudget \<Rightarrow> TurnInputs"
where
  "turn_inputs context conversation_id objective objective_message assembled model budget =
     \<lparr>ti_context = context, ti_conversation_id = conversation_id, ti_objective = objective,
      ti_objective_message = objective_message, ti_items = ai_items assembled, ti_model = model, ti_budget = budget\<rparr>"

definition controller_execute ::
  "ControllerPorts \<Rightarrow> RequestContext \<Rightarrow> RunId \<Rightarrow> ConversationId \<Rightarrow> string \<Rightarrow> MessageId option \<Rightarrow> RunOutcome controller"
where
  "controller_execute p context run_id conversation_id objective objective_message =
     (let run = \<lparr>rf_workspace = rx_workspace_id context, rf_run_id = run_id\<rparr> in
      eff_bind (is_cancelled p) (\<lambda>cancelled.
        if cancelled then
          eff_bind (controller_load run) (\<lambda>stored.
          eff_bind
            (if run_state_is_terminal (st_state stored) then eff_return ()
             else controller_finish p run
                    (with_requester_reason (cancelled_from (st_state stored) ''cancelled_before_start'') (kp_cancel_reason p)))
            (\<lambda>_. eff_throw ControllerError.Cancelled))
        else
          eff_bind (step_unless_cancelled p run
            (step_new RunState.Received RunState.ContextBuilding ''run.context_building'' ''context_build_requested'')) (\<lambda>_.
          eff_bind (build_context p run conversation_id objective objective_message RunState.ContextBuilding) (\<lambda>(budget, assembled).
          eff_bind (step_unless_cancelled p run
            (step_new RunState.ContextBuilding RunState.Planning ''run.planning'' ''context_ready'')) (\<lambda>_.
          eff_bind (resolve_or_fail p run RunState.Planning) (\<lambda>model.
          eff_bind (step_unless_cancelled p run
            (step_new RunState.Planning RunState.AwaitingModel ''run.model_started'' ''model_call_requested'')) (\<lambda>_.
          drive_turns p run
            (turn_inputs context conversation_id objective objective_message assembled model budget) turn_first)))))))"

section \<open>A parked run\<close>

definition parked_record :: "ControllerPorts \<Rightarrow> RunRef \<Rightarrow> DurableApproval \<Rightarrow> ResumeRecord option controller" where
  "parked_record p run approval =
     (if \<not> kp_has_resumes p then eff_return None
      else
        eff_bind (controller_load run) (\<lambda>stored.
          if st_state stored \<noteq> RunState.AwaitingApproval then eff_return None
          else
            eff_bind (on_db (resume_load (rf_workspace run) (rf_run_id run))) (\<lambda>found.
              case found of
                None \<Rightarrow>
                  finish_with p run
                    (step_failed RunState.AwaitingApproval ''run.failed'' ''resume_state_missing''
                       (controller_error_code ControllerError.ResumeStateMissing)) ControllerError.ResumeStateMissing
              | Some record \<Rightarrow> eff_return (if re_approval record = da_id approval then Some record else None))))"

text \<open>\<open>let _ = \<dots>\<close>: the result of the discard is not looked at.\<close>

definition discard_quietly :: "ControllerPorts \<Rightarrow> RunRef \<Rightarrow> unit controller" where
  "discard_quietly p run =
     (if kp_has_resumes p
      then eff_try (on_db (resume_discard (rf_workspace run) (rf_run_id run))) (\<lambda>_. eff_return ())
      else eff_return ())"

definition continue_batch ::
  "ControllerPorts \<Rightarrow> RunRef \<Rightarrow> TurnInputs \<Rightarrow> DurableApproval \<Rightarrow> ResumeRecord \<Rightarrow> RunOutcome controller"
where
  "continue_batch p run inputs approval record =
     (let calls = map captured_call (re_calls record); first = unat (re_waiting_index record) in
      if first \<ge> length calls then
        finish_with p run
          (step_failed RunState.ExecutingTool ''run.failed'' ''resume_state_missing''
             (controller_error_code ControllerError.ResumeStateMissing)) ControllerError.ResumeStateMissing
      else
        eff_bind (dispatch_tools p run (ti_context inputs)
          \<lparr>pl_calls = calls, pl_first = first, pl_decided = Some approval,
           pl_settled = map tool_observation (re_settled record)\<rparr>) (\<lambda>dispatched.
          case dispatched of
            DispatchOutcome.WaitingApproval approval waiting_index settled \<Rightarrow>
              park p run inputs (re_turn_index record)
                \<lparr>pk_approval = approval, pk_calls = calls, pk_waiting_index = waiting_index, pk_settled = settled\<rparr>
          | Observations observations \<Rightarrow>
              eff_bind (discard_quietly p run) (\<lambda>_.
              eff_bind (controller_step p run
                (step_new RunState.ExecutingTool RunState.Observing ''run.observing'' ''tool_calls_settled'')) (\<lambda>_.
              drive_turns p run inputs
                \<lparr>ts_turn_index = re_turn_index record, ts_observations = observations, ts_after_tools = True\<rparr>))))"

definition controller_resume ::
  "ControllerPorts \<Rightarrow> RequestContext \<Rightarrow> RunId \<Rightarrow> DurableApproval \<Rightarrow> RunOutcome option controller"
where
  "controller_resume p context run_id approval =
     (let run = \<lparr>rf_workspace = rx_workspace_id context, rf_run_id = run_id\<rparr> in
      eff_bind (parked_record p run approval) (\<lambda>parked.
        case parked of
          None \<Rightarrow> eff_return None
        | Some record \<Rightarrow>
            eff_bind (build_context p run (re_conversation record) (re_objective record) (re_objective_message record)
                        RunState.AwaitingApproval) (\<lambda>(budget, assembled).
            eff_bind (resolve_or_fail p run RunState.AwaitingApproval) (\<lambda>model.
            eff_bind (controller_now p) (\<lambda>now.
              if \<not> permits_step_at (kp_duration_since p) (kp_millis p) budget now then
                finish_with p run
                  (step_failed RunState.AwaitingApproval ''run.failed'' ''deadline_exceeded_before_resume''
                     (controller_error_code ControllerError.DeadlineExceeded)) ControllerError.DeadlineExceeded
              else
                eff_bind (step_unless_cancelled p run
                  (step_new RunState.AwaitingApproval RunState.ExecutingTool ''run.tool_executing'' ''approval_decided'')) (\<lambda>_.
                eff_bind (continue_batch p run
                  (turn_inputs context (re_conversation record) (re_objective record) (re_objective_message record)
                     assembled model budget) approval record) (\<lambda>outcome.
                eff_return (Some outcome))))))))"

definition cancel_parked :: "ControllerPorts \<Rightarrow> WorkspaceId \<Rightarrow> RunId \<Rightarrow> string \<Rightarrow> unit controller" where
  "cancel_parked p workspace run_id requester_reason =
     (let run = \<lparr>rf_workspace = workspace, rf_run_id = run_id\<rparr> in
      eff_bind (if kp_has_resumes p
                then eff_try (on_db (resume_load workspace run_id)) (\<lambda>r. eff_return (case r of Ok found \<Rightarrow> found | Err _ \<Rightarrow> None))
                else eff_return None) (\<lambda>parked.
      eff_bind (controller_finish p run
        (with_requester_reason (cancelled_from RunState.AwaitingApproval ''cancelled_while_waiting'')
           (Some requester_reason))) (\<lambda>_.
      eff_bind (case parked of
                  Some record \<Rightarrow>
                    if kp_has_tools p then
                      eff_bind (on_service (abandon_waiting (kp_service p) workspace (re_approval record))) (\<lambda>_. eff_return ())
                    else eff_return ()
                | None \<Rightarrow> eff_return ()) (\<lambda>_.
      discard_quietly p run))))"

end
