(* ===== verification/Run_Controller_Laws.thy ===== *)
theory Run_Controller_Laws
  imports Run_Controller
begin

text \<open>
  What the run controller guarantees: which requests reach the model provider and how many, what the stored run says
  when the controller returns an outcome, and where the consumption ceilings and the ledger of model calls are left
  behind.
\<close>

section \<open>What every operation of the controller keeps\<close>

lemma advances_answered:
  assumes "advances R m"
  shows "advances R (\<lambda>w. case m w of (Ok x, w') \<Rightarrow> (Ok y, w') | (Err e, w') \<Rightarrow> (Err e', w'))"
  using advancesD [OF assms] by (auto simp: advances_def split: prod.split sum.split)

declare drive_turns.simps [simp del]

text \<open>
  A relation between the world before and after that the repository operations respect is respected by every
  operation of the controller that does not reach the provider; if opening a stream respects it as well, so do the
  whole run and its continuation.
\<close>

locale repository_steps =
  fixes R :: "ControllerWorld \<Rightarrow> ControllerWorld \<Rightarrow> bool"
  assumes refl: "reflp R" and trans: "transp R"
    and service_steps: "advances R (on_service (clock :: instant service))" "advances R (on_service (dispatched :: ToolCallOutcome service))"
      "advances R (on_service (abandoned :: unit service))"
    and controller_id_step: "advances R (controller_id p)"
    and is_cancelled_step: "advances R (is_cancelled p)"
    and has_elapsed_step: "advances R (has_elapsed p)"
    and run_steps: "advances R (on_db (on_runs (run_load ws i)))"
      "advances R (on_db (on_runs (next_event_sequence ws i)))"
      "advances R (on_db (on_runs (run_transition u ws rw)))"
      "advances R (on_db (on_runs (append_event u ws ne)))"
      "advances R (on_db (on_runs (output_text_delta u ws i text t)))"
    and call_steps: "advances R (on_db (record_attempt nk))" "advances R (on_db (record_outcome ws ci mo))"
    and message_steps: "advances R (on_db (load_messages ws conv before page))" "advances R (on_db (append_message ws nm))"
    and resume_steps: "advances R (on_db (resume_save byte_count stamped re))" "advances R (on_db (resume_load ws i))"
      "advances R (on_db (resume_discard ws i))"
begin

lemmas step_rules =
  refl trans service_steps controller_id_step is_cancelled_step has_elapsed_step run_steps call_steps message_steps
  resume_steps advances_return advances_throw advances_lift advances_bind advances_try

lemma controller_now_step: "advances R (controller_now p)"
  by (auto simp: controller_now_def intro!: step_rules split: sum.split)

lemma wait_steps:
  "advances R (wait_bound p b)"
  "advances R m \<Longrightarrow> advances R (wait_bounded p b m)"
  by (auto simp: wait_bound_def wait_bounded_def Let_def intro!: step_rules controller_now_step split: option.split)

lemma lifecycle_steps:
  "advances R (controller_load run)"
  "advances R (advance p run v st)"
  "advances R (controller_step p run st)"
  "advances R (controller_finish p run st)"
  "advances R (finish_with p run st e)"
  "advances R (step_unless_cancelled p run st)"
  by (auto simp: controller_load_def advance_def controller_step_def controller_finish_def finish_with_def
      step_unless_cancelled_def Let_def intro!: step_rules controller_now_step split: sum.split)

lemmas turn_rules = step_rules controller_now_step wait_steps lifecycle_steps

lemma outcome_steps:
  "advances R (record_call_outcome_with p run c s ro)"
  "advances R (record_call_outcome p run c s)"
  "advances R (finish_expired p run co d u reason code)"
  "advances R (finish_deadline_exceeded p run co d)"
  "advances R (publish_usage p run c us)"
  "advances R (publish_counters p run c u)"
  by (auto simp: record_call_outcome_with_def record_call_outcome_def finish_expired_def finish_deadline_exceeded_def
      publish_usage_def publish_counters_def intro!: turn_rules split: option.split)

lemma context_steps:
  "advances R (build_context p run conv obj msg st)"
  "advances R (resolve_or_fail p run st)"
  by (auto simp: build_context_def fail_context_building_def refuse_a_context_without_its_objective_def resolve_model_def
      resolve_or_fail_def Let_def intro!: turn_rules split: sum.split option.split)

lemma persist_delta_step: "advances R (persist_delta p run i d)"
  by (auto simp: persist_delta_def intro!: turn_rules advances_answered)

lemma stream_end_steps:
  "advances R (fail_after_acceptance p run c d e)"
  "advances R (reject_stream p run c reason ce)"
  "advances R (end_stream p run c state drained)"
  by (auto simp: fail_after_acceptance_def reject_stream_def end_stream_def intro!: turn_rules outcome_steps
      split: sum.split StreamOutcome.split)

lemma drain_stream_step: "advances R (drain_stream p run c stream b)"
proof -
  have "advances R (drain_turn_frames p run c b state drained frames)" for state drained frames
    by (induction frames arbitrary: state drained)
      (auto intro!: turn_rules outcome_steps stream_end_steps persist_delta_step
        split: sum.split prod.split StreamAdmission.split ModelStreamEventKind.split)
  then show ?thesis by (simp add: drain_stream_def)
qed

lemma dispatch_step: "advances R (dispatch_tools p run context plan)"
proof -
  have one: "advances R (dispatch_one p run context call released)" for call released
    by (auto simp: dispatch_one_def intro!: turn_rules split: sum.split ToolCallOutcome.split)
  have "advances R (dispatch_calls p run context released obs index calls)" for released obs index calls
    by (induction calls arbitrary: released obs index)
      (auto intro!: turn_rules one split: sum.split DispatchStep.split)
  then show ?thesis by (auto simp: dispatch_tools_def Let_def intro!: turn_rules)
qed

lemma complete_run_step: "advances R (complete_run p run drained conv t)"
  by (auto simp: complete_run_def store_answer_def intro!: turn_rules split: sum.split)

lemma attempt_end_steps:
  "advances R (settle_tool_calls p run turn c drained u d)"
  "advances R (settle_provider_terminal p run c u drained)"
  "advances R (fail_open p run c e)"
  "advances R (cancel_after_output p run c drained)"
  by (auto simp: settle_tool_calls_def settle_provider_terminal_def fail_open_def cancel_after_output_def Let_def
      intro!: turn_rules outcome_steps dispatch_step split: DispatchOutcome.split)

lemma finish_attempt_step: "advances R (finish_attempt p run turn c drained)"
  by (auto simp: finish_attempt_def Let_def intro!: turn_rules outcome_steps attempt_end_steps complete_run_step
      split: option.split)

lemma before_retry_step: "advances R (before_retry p run turn attempt cl e)"
  by (auto simp: before_retry_def Let_def intro!: turn_rules outcome_steps split: RetryDecision.split)

lemma turn_steps:
  "advances R (park p run inputs index parked)"
  "advances R (enter_turn p run start)"
  "advances R (parked_record p run approval)"
  "advances R (discard_quietly p run)"
  by (auto simp: park_def enter_turn_def parked_record_def discard_quietly_def Let_def intro!: turn_rules
      split: sum.split option.split)

lemma cancel_parked_step: "advances R (cancel_parked p ws i reason)"
  by (auto simp: cancel_parked_def Let_def intro!: turn_rules turn_steps split: sum.split option.split)

end

locale provider_steps = repository_steps +
  assumes provider_open_step: "advances R (provider_open p request)"
begin

lemma attempt_call_step: "advances R (attempt_call p run turn l a route)"
  by (auto simp: attempt_call_def
      intro!: turn_rules outcome_steps attempt_end_steps finish_attempt_step drain_stream_step provider_open_step
      split: option.split sum.split)

lemma ask_model_step: "advances R (ask_model p run turn)"
proof -
  have "advances R (ask_attempts fuel p run turn l route a)" for fuel l route a
    by (induction fuel arbitrary: a)
      (auto intro!: turn_rules attempt_call_step before_retry_step split: AttemptOutcome.split)
  then show ?thesis by (auto simp: ask_model_def simp del: ask_attempts.simps intro!: turn_rules)
qed

lemma turn_round_step: "advances R (turn_round p run inputs start)"
  by (auto simp: turn_round_def intro!: turn_rules turn_steps ask_model_step split: TurnOutcome.split)

lemma drive_turns_related: "drive_turns p run inputs start w = (r, w') \<Longrightarrow> R w w'"
proof (induction p run inputs start w arbitrary: r w' rule: drive_turns.induct)
  case (1 p run inputs start w)
  obtain x v where round: "turn_round p run inputs start w = (x, v)" by fastforce
  note step = advancesD [OF turn_round_step round]
  show ?case
  proof (cases x)
    case (Inl e)
    with 1(2) round step show ?thesis by (simp add: drive_turns.simps [of p run inputs start w])
  next
    case (Inr y)
    then show ?thesis
    proof (cases y)
      case (Ended outcome)
      with 1(2) Inr round step show ?thesis by (simp add: drive_turns.simps [of p run inputs start w])
    next
      case (Continue turn_index produced)
      with 1(2) Inr round have "drive_turns p run inputs
          \<lparr>ts_turn_index = turn_index, ts_observations = produced, ts_after_tools = True\<rparr> v = (r, w')"
        by (simp add: drive_turns.simps [of p run inputs start w])
      from 1(1) [OF round [symmetric] Inr Continue this] have "R v w'" by simp
      with step show ?thesis by (rule transpD [OF trans])
    qed
  qed
qed

lemma drive_turns_step: "advances R (drive_turns p run inputs start)"
  unfolding advances_def by (metis drive_turns_related prod.collapse)

lemma controller_execute_step: "advances R (controller_execute p context i conv obj msg)"
  by (auto simp: controller_execute_def Let_def intro!: turn_rules context_steps drive_turns_step split: prod.split)

lemma controller_resume_step: "advances R (controller_resume p context i approval)"
  by (auto simp: controller_resume_def continue_batch_def Let_def
      intro!: turn_rules context_steps turn_steps dispatch_step drive_turns_step
      split: prod.split option.split DispatchOutcome.split)

end

section \<open>The requests of a run\<close>

definition same_requests :: "ControllerWorld \<Rightarrow> ControllerWorld \<Rightarrow> bool" where
  "same_requests w w' \<longleftrightarrow> kw_requests w' = kw_requests w"

lemma on_db_quiet: "advances same_requests (on_db m)"
  by (auto simp: advances_def same_requests_def on_db_def split: prod.split sum.split)

interpretation quiet: repository_steps same_requests
  by unfold_locales
    (auto simp: advances_def same_requests_def on_service_def controller_id_def is_cancelled_def has_elapsed_def
      on_db_quiet [unfolded advances_def same_requests_def] split: prod.split intro!: reflpI transpI)

definition sends_at :: "(ModelCallRequest \<Rightarrow> bool) \<Rightarrow> nat \<Rightarrow> 'a controller \<Rightarrow> ControllerWorld \<Rightarrow> bool" where
  "sends_at P n m w \<longleftrightarrow> (\<exists>sent. kw_requests (snd (m w)) = kw_requests w @ sent \<and> length sent \<le> n \<and> list_all P sent)"

definition sends :: "(ModelCallRequest \<Rightarrow> bool) \<Rightarrow> nat \<Rightarrow> 'a controller \<Rightarrow> bool" where
  "sends P n m \<longleftrightarrow> (\<forall>w. sends_at P n m w)"

lemma sends_at_quiet: "advances same_requests m \<Longrightarrow> sends_at P n m w"
  by (simp add: sends_at_def advances_def same_requests_def)

lemma sends_at_bind:
  assumes "advances same_requests m" and "\<And>x v. m w = (Ok x, v) \<Longrightarrow> sends_at P n (f x) v"
  shows "sends_at P n (eff_bind m f) w"
proof -
  obtain r v where m: "m w = (r, v)" by fastforce
  with advancesD [OF assms(1) m] assms(2) show ?thesis by (cases r) (auto simp: same_requests_def sends_at_def)
qed

lemma sendsD:
  "sends P n m \<Longrightarrow> m w = (r, w') \<Longrightarrow>
   \<exists>sent. kw_requests w' = kw_requests w @ sent \<and> length sent \<le> n \<and> list_all P sent"
  unfolding sends_def sends_at_def by (metis snd_conv)

lemma sends_quiet: "advances same_requests m \<Longrightarrow> sends P n m"
  by (simp add: sends_def sends_at_quiet)

lemma sends_mono: "sends P a m \<Longrightarrow> a \<le> b \<Longrightarrow> (\<And>q. P q \<Longrightarrow> Q q) \<Longrightarrow> sends Q b m"
  unfolding sends_def sends_at_def by (metis list.pred_mono_strong order_trans)

lemma sends_quiet_bind:
  assumes "advances same_requests m" and "\<And>w x w'. m w = (Ok x, w') \<Longrightarrow> sends P n (f x)"
  shows "sends P n (eff_bind m f)"
  using assms(2) unfolding sends_def by (blast intro: sends_at_bind [OF assms(1)])

lemma sends_then_quiet:
  assumes "sends P n m" and "\<And>x. advances same_requests (f x)"
  shows "sends P n (eff_bind m f)"
  unfolding sends_def sends_at_def
proof
  fix w
  obtain r v where m: "m w = (r, v)" by fastforce
  from sendsD [OF assms(1) m] show "\<exists>sent. kw_requests (snd (eff_bind m f w)) = kw_requests w @ sent \<and>
      length sent \<le> n \<and> list_all P sent"
    using m assms(2) by (cases r) (auto simp: advances_def same_requests_def)
qed

lemma sends_bind:
  assumes "sends P a m" and "\<And>w x w'. m w = (Ok x, w') \<Longrightarrow> sends P b (f x)"
  shows "sends P (a + b) (eff_bind m f)"
  unfolding sends_def sends_at_def
proof
  fix w
  obtain r v where m: "m w = (r, v)" by fastforce
  from sendsD [OF assms(1) m] obtain sent where sent: "kw_requests v = kw_requests w @ sent" "length sent \<le> a" "list_all P sent"
    by blast
  show "\<exists>sent. kw_requests (snd (eff_bind m f w)) = kw_requests w @ sent \<and> length sent \<le> a + b \<and> list_all P sent"
  proof (cases r)
    case (Inr x)
    with assms(2) m obtain more where "kw_requests (snd (f x v)) = kw_requests v @ more" "length more \<le> b" "list_all P more"
      unfolding sends_def sends_at_def by blast
    with Inr m sent show ?thesis by (intro exI [of _ "sent @ more"]) simp
  qed (use m sent in auto)
qed

text \<open>A request for a turn: it belongs to the run, goes to the turn's model and carries every item of the context.\<close>

definition request_of_turn :: "RunRef \<Rightarrow> ModelTurn \<Rightarrow> ModelCallRequest \<Rightarrow> bool" where
  "request_of_turn run turn q \<longleftrightarrow>
     mq_run_id q = rf_run_id run \<and> mq_model q = mt_model turn \<and> mq_input q = request_input (mt_items turn) (mt_observations turn)"

lemma built_request_of_turn:
  "build_request (rf_run_id run) c (mt_model turn) (mt_items turn) (mt_observations turn) offers b = Ok q \<Longrightarrow>
   request_of_turn run turn q"
  by (auto simp: build_request_def request_of_turn_def input_items_new_def and_then_Ok_iff split: sum.split_asm)

lemma wait_sends: "sends P n m \<Longrightarrow> sends P n (wait_bounded p b m)"
  unfolding wait_bounded_def
  by (intro sends_quiet_bind [OF quiet.wait_steps(1)] sends_then_quiet) (auto intro!: quiet.turn_rules split: option.split)

lemma attempt_sends_one: "sends (request_of_turn run turn) 1 (attempt_call p run turn l a route)"
proof -
  have opened: "sends (request_of_turn run turn) 1 (provider_open p q)" if "request_of_turn run turn q" for q
    using that by (simp add: sends_def sends_at_def provider_open_def)
  show ?thesis
    unfolding attempt_call_def
    by (intro sends_quiet_bind sends_then_quiet wait_sends opened quiet.turn_rules)
      (auto intro!: quiet.turn_rules quiet.outcome_steps quiet.attempt_end_steps quiet.finish_attempt_step
        quiet.drain_stream_step simp: built_request_of_turn split: option.split sum.split)
qed

text \<open>
  The loop over attempts sends one request per attempt; the policy permits \<open>rp_max_attempts\<close> of them, and the fuel of
  the loop is never used up.
\<close>

lemma next_attempt_below:
  assumes "before_retry p run turn attempt cl e w = (Ok next_attempt, w')"
    and "unat (rp_max_attempts (rb_retry (mt_budget turn))) < 2 ^ 32 - 1"
  shows "unat next_attempt = Suc (unat attempt) \<and> unat next_attempt \<le> unat (rp_max_attempts (rb_retry (mt_budget turn)))"
proof -
  from before_retry_next [OF assms(1)] have "next_attempt = saturating_add attempt 1"
    and le: "unat next_attempt \<le> unat (rp_max_attempts (rb_retry (mt_budget turn)))"
    by (auto simp: permits_attempt_def word_le_nat_alt)
  with assms(2) show ?thesis by (simp add: unat_saturating_add min_def split: if_split_asm)
qed

lemma ask_attempts_sends:
  assumes "unat (rp_max_attempts (rb_retry (mt_budget turn))) < 2 ^ 32 - 1"
  shows "sends (request_of_turn run turn) (Suc (unat (rp_max_attempts (rb_retry (mt_budget turn))) - unat attempt))
           (ask_attempts fuel p run turn l route attempt)"
proof (induction fuel arbitrary: attempt)
  case 0
  show ?case by (simp add: sends_def sends_at_def)
next
  case (Suc fuel)
  let ?max = "unat (rp_max_attempts (rb_retry (mt_budget turn)))"
  have again: "sends (request_of_turn run turn) (?max - unat attempt)
      (eff_bind (before_retry p run turn attempt cl e) (\<lambda>next_attempt. ask_attempts fuel p run turn l route next_attempt))"
    for cl e
  proof (rule sends_quiet_bind [OF quiet.before_retry_step])
    fix w next_attempt w'
    assume "before_retry p run turn attempt cl e w = (Ok next_attempt, w')"
    from next_attempt_below [OF this assms] Suc.IH [of next_attempt]
    show "sends (request_of_turn run turn) (?max - unat attempt) (ask_attempts fuel p run turn l route next_attempt)"
      by (simp add: Suc_diff_Suc Suc_le_eq)
  qed
  have "sends (request_of_turn run turn) (1 + (?max - unat attempt)) (ask_attempts (Suc fuel) p run turn l route attempt)"
    unfolding ask_attempts.simps
    by (rule sends_bind [OF attempt_sends_one])
      (auto intro!: again sends_quiet quiet.turn_rules split: AttemptOutcome.split)
  then show ?case by simp
qed

lemma ask_attempts_enough:
  assumes "unat (rp_max_attempts (rb_retry (mt_budget turn))) < 2 ^ 32 - 1"
    and "unat (rp_max_attempts (rb_retry (mt_budget turn))) < fuel + unat attempt" and "0 < fuel"
  shows "ask_attempts (fuel + extra) p run turn l route attempt w = ask_attempts fuel p run turn l route attempt w"
  using assms(2,3)
proof (induction fuel arbitrary: attempt w)
  case (Suc fuel)
  obtain r v where at1: "attempt_call p run turn l attempt route w = (r, v)" by fastforce
  show ?case
  proof (cases r)
    case (Inr y)
    show ?thesis
    proof (cases y)
      case (Retryable cl e)
      obtain q u where b: "before_retry p run turn attempt cl e v = (q, u)" by fastforce
      show ?thesis
      proof (cases q)
        case (Inr next_attempt)
        note nx = next_attempt_below [OF b [unfolded Inr] assms(1)]
        with Suc.prems have "0 < fuel" "unat (rp_max_attempts (rb_retry (mt_budget turn))) < fuel + unat next_attempt" by auto
        from Suc.IH [OF this(2,1)] show ?thesis using \<open>r = Ok y\<close> Retryable Inr at1 b by simp
      qed (use \<open>r = Ok y\<close> Retryable at1 b in simp)
    qed (use Inr at1 in simp)
  qed (use at1 in simp)
qed simp

definition attempts_of :: "RunBudget \<Rightarrow> nat" where
  "attempts_of budget = max 1 (unat (rp_max_attempts (rb_retry budget)))"

lemma ask_model_sends:
  assumes "rp_max_attempts (rb_retry (mt_budget turn)) \<le> MAX_ATTEMPTS"
  shows "sends (request_of_turn run turn) (attempts_of (mt_budget turn)) (ask_model p run turn)"
proof -
  have few: "unat (rp_max_attempts (rb_retry (mt_budget turn))) \<le> 5"
    using assms by (simp add: MAX_ATTEMPTS_def word_le_nat_alt)
  have "sends (request_of_turn run turn) (attempts_of (mt_budget turn))
      (ask_attempts (Suc (unat (rp_max_attempts (rb_retry (mt_budget turn))))) p run turn l route 1)" for l route
    by (rule sends_mono [OF ask_attempts_sends]) (use few in \<open>auto simp: attempts_of_def\<close>)
  then show ?thesis
    unfolding ask_model_def
    by (auto simp del: ask_attempts.simps intro!: sends_quiet_bind quiet.turn_rules sends_quiet [OF quiet.lifecycle_steps(5)])
qed

definition request_for :: "RunRef \<Rightarrow> TurnInputs \<Rightarrow> ModelCallRequest \<Rightarrow> bool" where
  "request_for run inputs q \<longleftrightarrow>
     mq_run_id q = rf_run_id run \<and> mq_model q = ti_model inputs \<and>
     list_all (\<lambda>item. to_input_item item \<in> set (mq_input q)) (ti_items inputs)"

definition rounds_left :: "TurnStart \<Rightarrow> nat" where
  "rounds_left start = (unat MAX_MODEL_TURNS - unat (ts_turn_index start)) + (if ts_after_tools start then 0 else 1)"

lemma turn_round_sends:
  assumes "rp_max_attempts (rb_retry (ti_budget inputs)) \<le> MAX_ATTEMPTS"
  shows "sends (request_for run inputs) (if rounds_left start = 0 then 0 else attempts_of (ti_budget inputs)) (turn_round p run inputs start)"
proof -
  have asked: "sends (request_for run inputs) (attempts_of (ti_budget inputs)) (ask_model p run (model_turn inputs obs))" for obs
    by (rule sends_mono [OF ask_model_sends])
      (use assms in \<open>auto simp: model_turn_def request_of_turn_def request_for_def request_input_def list_all_iff\<close>)
  have late: False if "rounds_left start = 0" and "enter_turn p run start w = (Ok i, w')" for w i w'
    using that by (auto simp: rounds_left_def enter_turn_def finish_with_def Let_def MAX_MODEL_TURNS_def word_less_nat_alt
        unat_saturating_add elim!: eff_bind_OkE split: if_split_asm)
  show ?thesis
    unfolding turn_round_def
    by (rule sends_quiet_bind [OF quiet.turn_steps(2)], cases "rounds_left start = 0")
      (auto dest: late intro!: sends_then_quiet asked quiet.turn_rules quiet.turn_steps split: TurnOutcome.split)
qed

lemma drive_turns_sends:
  assumes "rp_max_attempts (rb_retry (ti_budget inputs)) \<le> MAX_ATTEMPTS" and "drive_turns p run inputs start w = (r, w')"
  shows "\<exists>sent. kw_requests w' = kw_requests w @ sent \<and> length sent \<le> rounds_left start * attempts_of (ti_budget inputs) \<and>
           list_all (request_for run inputs) sent"
  using assms
proof (induction p run inputs start w arbitrary: r w' rule: drive_turns.induct)
  case (1 p run inputs start w)
  obtain x v where round: "turn_round p run inputs start w = (x, v)" by fastforce
  from sendsD [OF turn_round_sends [OF 1(2)] round] obtain sent where sent: "kw_requests v = kw_requests w @ sent"
      "length sent \<le> rounds_left start * attempts_of (ti_budget inputs)" "length sent \<le> attempts_of (ti_budget inputs)" "list_all (request_for run inputs) sent"
    by (cases "rounds_left start") (auto intro: order_trans [OF _ le_add1])
  show ?case
  proof (cases "\<exists>i obs. x = Ok (Continue i obs)")
    case True
    then obtain i obs where x: "x = Ok (Continue i obs)" by blast
    let ?next = "\<lparr>ts_turn_index = i, ts_observations = obs, ts_after_tools = True\<rparr>"
    from 1(3) x round have rest: "drive_turns p run inputs ?next v = (r, w')"
      by (simp add: drive_turns.simps [of p run inputs start w])
    have less: "Suc (rounds_left ?next) \<le> rounds_left start"
      using turn_round_continues [OF round [unfolded x]]
      by (auto simp: rounds_left_def MAX_MODEL_TURNS_def unat_saturating_add word_le_nat_alt split: if_split_asm)
    from 1(1) [OF round [symmetric] x refl 1(2) rest] obtain more where
      "kw_requests w' = kw_requests v @ more" "length more \<le> rounds_left ?next * attempts_of (ti_budget inputs)" "list_all (request_for run inputs) more"
      by blast
    moreover have "attempts_of (ti_budget inputs) + rounds_left ?next * attempts_of (ti_budget inputs) \<le>
        rounds_left start * attempts_of (ti_budget inputs)"
      using mult_le_mono1 [OF less, of "attempts_of (ti_budget inputs)"] by simp
    ultimately show ?thesis using sent by (intro exI [of _ "sent @ more"]) simp
  next
    case False
    with 1(3) round sent show ?thesis
      by (auto simp: drive_turns.simps [of p run inputs start w] split: sum.split_asm Round.split_asm)
  qed
qed

lemma drive_turns_bound:
  assumes "rp_max_attempts (rb_retry (ti_budget inputs)) \<le> MAX_ATTEMPTS"
  shows "sends (request_for run inputs) (rounds_left start * attempts_of (ti_budget inputs)) (drive_turns p run inputs start)"
  unfolding sends_def sends_at_def using drive_turns_sends [OF assms] by (metis prod.collapse)

section \<open>The stores under the controller\<close>

text \<open>
  Whatever the controller does to the database, the run store only grows and keeps its invariant, no model call loses
  its recorded end, and messages are appended in dense order.
\<close>

lemma advances_ask:
  assumes "reflp R" and "transp R" and "advances R m" and "\<And>x d. snd (f x d) = d"
  shows "advances R (eff_bind m f)"
  by (rule advances_bind [OF assms(2,3)]) (rule advances_read [OF assms(4,1)])

definition db_advance :: "Database \<Rightarrow> Database \<Rightarrow> bool" where
  "db_advance d d' \<longleftrightarrow>
     extends_ok (db_runs d) (db_runs d') \<and> calls_advance d d' \<and> (conversations_ok d \<longrightarrow> conversations_ok d') \<and>
     db_conversations d' = db_conversations d \<and> (\<exists>added. db_messages d' = db_messages d @ added)"

lemma reflp_db_advance [effect_rules]: "reflp db_advance"
  using reflp_extends_ok reflp_calls_advance by (simp add: reflp_def db_advance_def)

lemma transp_db_advance [effect_rules]: "transp db_advance"
  using transp_extends_ok transp_calls_advance unfolding transp_def db_advance_def by (metis append_assoc)

lemma faults_advance: "only_db_faults d d' \<Longrightarrow> db_advance d d'"
  using only_db_faults_ok [of d d']
  by (simp add: db_advance_def only_db_faults_def extends_ok_faults calls_advance_same)

lemma faults_only_advance: "advances only_db_faults m \<Longrightarrow> advances db_advance m"
  unfolding advances_def by (blast intro: faults_advance)

lemma db_statement_advance [effect_rules]: "advances db_advance db_statement"
  by (rule faults_only_advance [OF db_statement_faults])

lemma on_runs_advance:
  assumes "advances extends_ok m"
  shows "advances db_advance (on_runs m)"
  using assms
  by (auto simp: advances_def on_runs_def db_advance_def calls_advance_same conversations_ok_def messages_of_def
      extends_ok_def run_store_grows_def split: prod.split)
    (metis snd_conv)+

lemma db_execute_advance:
  assumes "\<And>d d'. f d = Some d' \<Longrightarrow> db_advance d d'"
  shows "advances db_advance (db_execute f)"
  unfolding advances_def
proof (rule allI)
  fix d
  obtain r d' where run: "db_execute f d = (r, d')" by fastforce
  from db_execute_cases [OF run] have "db_advance d d'"
    using assms faults_advance transpD [OF transp_db_advance] by blast
  with run show "db_advance d (snd (db_execute f d))" by simp
qed

lemma record_attempt_advance: "advances db_advance (record_attempt call)"
proof -
  have "db_advance d d'" if "sql_insert_call call d = Some d'" for d d'
    using that insert_call_advances [OF that] reflp_extends_ok
    by (simp add: db_advance_def sql_insert_call_def conversations_ok_def messages_of_def reflp_def split: if_split_asm)
      (elim conjE; hypsubst; simp)
  then show ?thesis
    unfolding record_attempt_def by (auto intro!: effect_rules db_execute_advance)
qed

lemma append_message_advance: "advances db_advance (append_message ws m)"
proof -
  have "db_advance d d'" if "sql_insert_message ws m d = Some d'" for d d'
    using insert_message_SomeD [OF that] insert_message_ok [OF that] reflp_extends_ok
    by (auto simp: db_advance_def reflp_def calls_advance_same)
  then show ?thesis
    unfolding append_message_def
    by (intro advances_bind [OF transp_db_advance db_execute_advance])
      (auto intro!: effect_rules faults_only_advance [OF conversation_visible_faults]
        advances_ask [OF reflp_db_advance transp_db_advance db_statement_advance] split: option.split)
qed

lemma record_outcome_advance: "advances db_advance (record_outcome ws call outcome)"
proof -
  have "db_advance d (d\<lparr>db_calls := rows\<rparr>)"
    if "sql_update (call_row_open ws call) (outcome_row out) (db_calls d) = (n, rows)" for d out n rows
    using update_call_advances [OF that] reflp_extends_ok
    by (auto simp: db_advance_def conversations_ok_def messages_of_def reflp_def)
  moreover have "advances db_advance (eff_bind db_statement (\<lambda>_ d.
                (case find (call_at ws call) (db_calls d) of
                   None \<Rightarrow> (Err RepositoryError.NotFound, d)
                 | Some row \<Rightarrow>
                     (and_then (model_call_state_parse (ml_state row)) (\<lambda>state.
                        Err (if model_call_state_is_terminal state then VersionConflict 0 1 else RepositoryError.NotFound)), d)))
        :: (Database, RepositoryError, unit) eff)"
    by (rule advances_ask [OF reflp_db_advance transp_db_advance db_statement_advance]) (simp split: option.split)
  ultimately have "advances db_advance (\<lambda>d. case sql_update (call_row_open ws call) (outcome_row out) (db_calls d) of
          (affected, rows) \<Rightarrow>
            if affected \<noteq> 0 then (Ok (), d\<lparr>db_calls := rows\<rparr>)
            else
              eff_bind db_statement (\<lambda>_ d.
                (case find (call_at ws call) (db_calls d) of
                   None \<Rightarrow> (Err RepositoryError.NotFound, d)
                 | Some row \<Rightarrow>
                     (and_then (model_call_state_parse (ml_state row)) (\<lambda>state.
                        Err (if model_call_state_is_terminal state then VersionConflict 0 1 else RepositoryError.NotFound)), d))) d)"
    for out by (auto simp: advances_def split: prod.split)
  then show ?thesis unfolding record_outcome_def by (intro effect_rules)
qed

lemma with_resumes_advance: "db_advance d (with_resumes rows d)"
  by (auto simp: db_advance_def with_resumes_def extends_ok_def run_store_ok_def run_store_grows_def calls_advance_same
      conversations_ok_def messages_of_def)

lemma resumes_advance:
  "advances db_advance (resume_save byte_count stamped re)" "advances db_advance (resume_load ws i)"
  "advances db_advance (resume_discard ws i)"
proof -
  have up: "advances db_advance (eff_update (upsert_resume stamped re) :: (Database, RepositoryError, unit) eff)"
    "advances db_advance (eff_update (\<lambda>d. with_resumes (g d) d) :: (Database, RepositoryError, unit) eff)" for g
    by (simp_all add: advances_def upsert_resume_def Let_def with_resumes_advance)
  show "advances db_advance (resume_save byte_count stamped re)" "advances db_advance (resume_discard ws i)"
    by (auto simp: resume_save_def resume_discard_def intro!: effect_rules up)
  show "advances db_advance (resume_load ws i)"
    unfolding resume_load_def
    by (rule advances_ask [OF reflp_db_advance transp_db_advance db_statement_advance]) (simp split: option.split)
qed

definition stores_advance :: "ControllerWorld \<Rightarrow> ControllerWorld \<Rightarrow> bool" where
  "stores_advance w w' \<longleftrightarrow> db_advance (kw_db w) (kw_db w')"

lemma on_db_advance: "advances db_advance m \<Longrightarrow> advances stores_advance (on_db m)"
  by (auto simp: advances_def stores_advance_def on_db_def split: prod.split sum.split) (metis snd_conv)+

lemma run_load_extends: "advances extends_ok (run_load ws i)"
  by (auto simp: run_load_def intro!: effect_rules)

lemma next_event_sequence_extends: "advances extends_ok (next_event_sequence ws i)"
  unfolding next_event_sequence_def
  by (intro advances_bind [OF transp_extends_ok run_exists_extends]
      advances_ask [OF reflp_extends_ok transp_extends_ok run_statement_extends]) (simp add: Let_def)

lemma stores_advance_same: "advances stores_advance m" if "\<And>w. kw_db (snd (m w)) = kw_db w"
  using that reflpD [OF reflp_db_advance] by (simp add: advances_def stores_advance_def)

interpretation stores: provider_steps stores_advance
proof unfold_locales
  show "reflp stores_advance"
    using reflp_db_advance by (simp add: reflp_def stores_advance_def)
  show "transp stores_advance"
    using transp_db_advance unfolding transp_def stores_advance_def by blast
  show "advances stores_advance (on_db (load_messages ws conv after page))" for ws conv after page
    by (rule on_db_advance [OF faults_only_advance [OF load_messages_faults]])
qed (simp_all add: stores_advance_same on_service_def controller_id_def is_cancelled_def has_elapsed_def provider_open_def
      on_db_advance on_runs_advance run_load_extends next_event_sequence_extends run_transition_extends append_event_extends
      output_text_delta_extends record_attempt_advance record_outcome_advance append_message_advance resumes_advance
      split: prod.split)

section \<open>What a run asks its provider\<close>

definition row_budget :: "RunRow \<Rightarrow> RunBudget" where
  "row_budget row = (case ru_budget row of Some b \<Rightarrow> b | None \<Rightarrow> run_budget_default)"

definition row_of :: "RunRef \<Rightarrow> ControllerWorld \<Rightarrow> RunRow option" where
  "row_of run w = find (run_at (rf_workspace run) (rf_run_id run)) (sr_runs (db_runs (kw_db w)))"

lemma find_origin:
  "find (run_at ws i) rows = Some row \<Longrightarrow> map run_origin rows' = map run_origin rows @ more_origins \<Longrightarrow>
   \<exists>row'. find (run_at ws i) rows' = Some row' \<and> run_origin row' = run_origin row"
proof (induction rows arbitrary: rows')
  case (Cons r rows)
  then obtain r' rest where rows': "rows' = r' # rest" "run_origin r' = run_origin r"
    "map run_origin rest = map run_origin rows @ more_origins" by (cases rows') auto
  then have "run_at ws i r' = run_at ws i r" by (simp add: run_origin_def run_at_def)
  with Cons rows' show ?case by (cases "run_at ws i r") auto
qed simp

lemma row_budget_kept:
  assumes "stores_advance w w'" and "row_of run w = Some row"
  shows "\<exists>row'. row_of run w' = Some row' \<and> row_budget row' = row_budget row"
  using assms find_origin [of "rf_workspace run" "rf_run_id run" "sr_runs (db_runs (kw_db w))" row "sr_runs (db_runs (kw_db w'))"]
  by (fastforce simp: stores_advance_def db_advance_def extends_ok_def run_store_grows_def row_of_def row_budget_def run_origin_def)

lemma on_db_OkD: "on_db m w = (Ok x, w') \<Longrightarrow> \<exists>d. m (kw_db w) = (Ok x, d) \<and> w' = w\<lparr>kw_db := d\<rparr>"
  by (auto simp: on_db_def split: prod.split_asm sum.split_asm)

lemma on_runs_OkD: "on_runs m d = (r, d') \<Longrightarrow> \<exists>s. m (db_runs d) = (r, s) \<and> d' = d\<lparr>db_runs := s\<rparr>"
  by (auto simp: on_runs_def split: prod.split_asm)

lemma controller_load_OkD:
  assumes "controller_load run w = (Ok stored, w')"
  shows "\<exists>row. row_of run w = Some row \<and> stored_run row = Ok stored \<and> row_of run w' = Some row"
proof -
  from assms obtain s where load: "run_load (rf_workspace run) (rf_run_id run) (db_runs (kw_db w)) = (Ok stored, s)"
    and w': "w' = w\<lparr>kw_db := (kw_db w)\<lparr>db_runs := s\<rparr>\<rparr>"
    by (auto simp: controller_load_def dest!: on_db_OkD on_runs_OkD)
  from load have read: "read_run (rf_workspace run) (rf_run_id run) (db_runs (kw_db w)) = (Ok (Some stored), s)"
    by (auto simp: run_load_def ok_or_def elim!: eff_bind_OkE split: option.split_asm)
  from read_run_SomeD [OF read] only_faults_fields [OF read_run_faults [OF read]] show ?thesis
    by (auto simp: row_of_def w')
qed

lemma stored_budget: "stored_run row = Ok stored \<Longrightarrow> st_budget stored = row_budget row"
  by (auto simp: stored_run_def and_then_Ok_iff row_budget_def split: if_split_asm)

lemma assembled_objective:
  assumes "assemble_with_memories uuid_text transcript memories objective msg bound data_bound now = Ok a"
    and "list_ex (\<lambda>item. mi_reference item = OBJECTIVE_REFERENCE) (mf_included (ai_manifest a))"
  shows "RetainedObjective objective \<in> set (ai_items a)"
proof -
  from assemble_with_memories_OkD [OF assms(1)] obtain candidates assembled where
    c: "context_assemble \<lparr>cb_tokens = bound\<rparr> candidates data_bound now = Ok assembled"
    and items: "ai_items a = sort_key retained_place
      (List.map_filter (retained_item uuid_text transcript memories objective) (as_included assembled))"
    and m: "ai_manifest a = as_manifest assembled" by blast
  from context_assemble_OkD [OF c] obtain kept where "as_included assembled = map included_item kept"
    "mf_included (as_manifest assembled) = map manifest_item kept" by auto
  with assms(2) m have "\<exists>i \<in> set (as_included assembled). ii_reference i = OBJECTIVE_REFERENCE"
    by (auto simp: list_ex_iff manifest_item_def included_item_def)
  then show ?thesis by (simp only: items objective_retained_iff)
qed

lemma build_context_OkD:
  assumes "build_context p run conv objective msg origin w = (Ok (budget, assembled), w')"
  shows "RetainedObjective objective \<in> set (ai_items assembled) \<and> (\<exists>row. row_of run w = Some row \<and> budget = row_budget row)"
proof -
  from assms obtain stored v transcript now data_bound where load: "controller_load run w = (Ok stored, v)"
    and budget: "budget = st_budget stored"
    and built: "assemble_with_memories (tp_show_id (kp_service p)) transcript
        (recalled_memories p (rf_workspace run) objective) objective msg (effective_context_ceiling budget) data_bound now =
        Ok assembled"
    and kept: "list_ex (\<lambda>item. mi_reference item = OBJECTIVE_REFERENCE) (mf_included (ai_manifest assembled))"
    by (auto simp: build_context_def refuse_a_context_without_its_objective_def Let_def elim!: eff_bind_OkE
        split: sum.split_asm if_split_asm)
  from controller_load_OkD [OF load] budget assembled_objective [OF built kept] show ?thesis
    by (auto dest: stored_budget)
qed

lemma resolve_or_fail_OkD: "resolve_or_fail p run origin w = (Ok model, w') \<Longrightarrow> model \<in> set (kp_models p)"
  by (auto simp: resolve_or_fail_def resolve_model_def finish_with_def selected_model_def eff_try_def elim!: eff_bind_OkE
      split: sum.split_asm prod.split_asm option.split_asm if_split_asm list.split_asm)

lemma execute_sends:
  assumes run_def: "run = \<lparr>rf_workspace = rx_workspace_id context, rf_run_id = run_id\<rparr>" and "row_of run w = Some row" and "rp_max_attempts (rb_retry (row_budget row)) \<le> MAX_ATTEMPTS"
  shows "sends_at (\<lambda>q. mq_run_id q = run_id \<and> mq_model q \<in> set (kp_models p) \<and>
             to_input_item (RetainedObjective objective) \<in> set (mq_input q))
           (unat MAX_MODEL_TURNS * attempts_of (row_budget row)) (controller_execute p context run_id conv objective msg) w"
    (is "sends_at ?P ?n _ w")
proof -
  have turns: "sends_at ?P ?n (drive_turns p run (turn_inputs context conv objective msg assembled model budget) turn_first) v"
    if "RetainedObjective objective \<in> set (ai_items assembled)" "model \<in> set (kp_models p)" "budget = row_budget row"
    for assembled model budget v
  proof -
    let ?inputs = "turn_inputs context conv objective msg assembled model budget"
    have "sends (request_for run ?inputs) (rounds_left turn_first * attempts_of (ti_budget ?inputs))
        (drive_turns p run ?inputs turn_first)"
      by (rule drive_turns_bound) (simp add: turn_inputs_def that assms)
    then have "sends ?P ?n (drive_turns p run ?inputs turn_first)"
      by (rule sends_mono)
        (use that in \<open>auto simp: request_for_def turn_inputs_def rounds_left_def turn_first_def MAX_MODEL_TURNS_def
          run_def list_all_iff\<close>)
    then show ?thesis by (simp add: sends_def)
  qed
  have kept: "\<exists>row'. row_of run v = Some row' \<and> row_budget row' = row_budget row"
    if "is_cancelled p w = (Ok c, u)" "step_unless_cancelled p run st u = (Ok x, v)" for c u st x v
    using that transpD [OF stores.trans advancesD [OF stores.is_cancelled_step that(1)] advancesD [OF stores.lifecycle_steps(6) that(2)]]
    by (intro row_budget_kept [OF _ assms(2)]) simp
  show ?thesis
    unfolding controller_execute_def Let_def run_def [symmetric]
    apply (rule sends_at_bind [OF quiet.is_cancelled_step])
    apply (split if_split, intro conjI impI)
    subgoal by (rule sends_at_quiet) (auto intro!: quiet.turn_rules)
    apply (intro sends_at_bind [OF quiet.lifecycle_steps(6)] sends_at_bind [OF quiet.context_steps(1)])
    apply (split prod.split, intro allI impI)
    apply (intro sends_at_bind [OF quiet.lifecycle_steps(6)] sends_at_bind [OF quiet.context_steps(2)])
    apply (rule turns)
      apply (auto dest!: build_context_OkD kept resolve_or_fail_OkD)
    done
qed

text \<open>C7: A run cannot keep asking: executing a run sends at most ten turns of requests to the provider, each at most
  as often as its retry policy permits, whatever the provider answers and wherever the database, the clock or a tool
  fails. Every request that is sent belongs to the run, goes to a model the provider serves, and carries the task the
  run was given.\<close>

theorem run_requests_are_bounded:
  assumes "find (run_at (rx_workspace_id context) run_id) (sr_runs (db_runs (kw_db w))) = Some row"
    and "rp_max_attempts (rb_retry (row_budget row)) \<le> MAX_ATTEMPTS"
    and "controller_execute p context run_id conv objective msg w = (r, w')"
  shows "\<exists>sent. kw_requests w' = kw_requests w @ sent \<and>
           length sent \<le> unat MAX_MODEL_TURNS * max 1 (unat (rp_max_attempts (rb_retry (row_budget row)))) \<and>
           list_all (\<lambda>q. mq_run_id q = run_id \<and> mq_model q \<in> set (kp_models p) \<and>
             to_input_item (RetainedObjective objective) \<in> set (mq_input q)) sent"
  using execute_sends [OF refl, of "context" run_id w row p objective conv msg] assms
  by (simp add: row_of_def sends_at_def attempts_of_def)

section \<open>What a returned outcome says of the stores\<close>

definition run_ok :: "ControllerWorld \<Rightarrow> bool" where
  "run_ok w \<longleftrightarrow> run_store_ok (db_runs (kw_db w))"

lemma stores_keep_run_ok: "advances stores_advance m \<Longrightarrow> m w = (r, w') \<Longrightarrow> run_ok w \<Longrightarrow> run_ok w'"
  by (drule (1) advancesD) (simp add: run_ok_def stores_advance_def db_advance_def extends_ok_def)

definition returns :: "('a \<Rightarrow> ControllerWorld \<Rightarrow> bool) \<Rightarrow> 'a controller \<Rightarrow> bool" where
  "returns Q m \<longleftrightarrow> (\<forall>w x w'. run_ok w \<longrightarrow> m w = (Ok x, w') \<longrightarrow> Q x w')"

lemma returnsD: "returns Q m \<Longrightarrow> run_ok w \<Longrightarrow> m w = (Ok x, w') \<Longrightarrow> Q x w'"
  by (auto simp: returns_def)

lemma returns_bind:
  assumes "advances stores_advance m" and "\<And>x. returns Q (f x)"
  shows "returns Q (eff_bind m f)"
  unfolding returns_def
proof (intro allI impI)
  fix w y w' assume "run_ok w" "eff_bind m f w = (Ok y, w')"
  then obtain x v where "m w = (Ok x, v)" "f x v = (Ok y, w')" by (elim eff_bind_OkE) blast
  with \<open>run_ok w\<close> show "Q y w'" using stores_keep_run_ok [OF assms(1)] returnsD [OF assms(2)] by blast
qed

lemma returns_try:
  assumes "advances stores_advance m" and "\<And>x. returns Q (f x)"
  shows "returns Q (eff_try m f)"
  unfolding returns_def
proof (intro allI impI)
  fix w y w' assume "run_ok w" "eff_try m f w = (Ok y, w')"
  then obtain x v where "m w = (x, v)" "f x v = (Ok y, w')" by (auto simp: eff_try_def split: prod.split_asm)
  with \<open>run_ok w\<close> show "Q y w'" using stores_keep_run_ok [OF assms(1)] returnsD [OF assms(2)] by blast
qed

lemma returns_end [simp]:
  "returns Q (eff_throw e)" "returns Q (finish_with p run st e)"
  by (auto simp: returns_def finish_with_def elim!: eff_bind_OkE)

lemma returns_always: "(\<And>w. Q x w) \<Longrightarrow> returns Q (eff_return x)"
  by (simp add: returns_def)

text \<open>What a load of the run finds.\<close>

definition stored_state :: "RunRef \<Rightarrow> ControllerWorld \<Rightarrow> RunState option" where
  "stored_state run w =
     Option.bind (row_of run w) (\<lambda>row. case stored_run row of Ok stored \<Rightarrow> Some (st_state stored) | Err _ \<Rightarrow> None)"

lemma transitioned_to:
  assumes "distinct (map ru_id (sr_runs s))" and "run_transition u ws write s = (Ok r, s')"
  shows "st_state r = rt_to (rw_transition write) \<and>
    (\<exists>row. find (run_at ws (ne_run_id (rw_event write))) (sr_runs s') = Some row \<and> stored_run row = Ok r)"
proof -
  from assms obtain row where "stored_run (transitioned_row write row) = Ok r" by (rule run_transition_effect)
  from stored_run_OkD(1) [OF this] have "st_state r = rt_to (rw_transition write)"
    by (simp add: transitioned_row_def Let_def run_state_display_inj)
  moreover from assms(2) obtain b where "record_transition u ws (rw_event write) b = (Ok r, s')"
    by (rule run_transition_OkD)
  ultimately show ?thesis using record_transition_OkD(3) by blast
qed

lemma advance_writes:
  assumes "advance p run v st w = (Ok stored, w')"
  shows "\<exists>u fresh write. stores_advance w u \<and> rt_to (rw_transition write) = sp_to st \<and> ne_run_id (rw_event write) = rf_run_id run \<and>
    on_db (on_runs (run_transition fresh (rf_workspace run) write)) u = (Ok stored, w')"
proof -
  from assms obtain now a reason sq b fresh c where
    "controller_now p w = (Ok now, a)" "on_db (on_runs (next_event_sequence (rf_workspace run) (rf_run_id run))) a = (Ok sq, b)"
    "controller_id p b = (Ok fresh, c)"
    and t: "on_db (on_runs (run_transition fresh (rf_workspace run)
      ((run_write_new (run_transition_new (sp_from st) (sp_to st) v TransitionActor.Controller reason now)
         \<lparr>ne_run_id = rf_run_id run, ne_sequence = sq, ne_event_type = sp_event_type st, ne_payload_json = step_payload st,
          ne_visibility = EventVisibility.Public, ne_occurred_at = now\<rparr>)
         \<lparr>rw_outcome := sp_outcome st, rw_waiting := sp_waiting st\<rparr>))) c = (Ok stored, w')"
    by (auto simp: advance_def Let_def elim!: eff_bind_OkE)
  then have c: "stores_advance w c"
    by (blast dest: advancesD [OF stores.controller_now_step] advancesD [OF stores.run_steps(2)]
        advancesD [OF stores.controller_id_step] intro: transpD [OF stores.trans])
  show ?thesis
    by (intro exI conjI, rule c, rule_tac [3] t) (simp_all add: run_write_new_def run_transition_new_def)
qed

lemma advance_stores:
  assumes "run_ok w" and "advance p run v st w = (Ok stored, w')"
  shows "stored_state run w' = Some (sp_to st)"
proof -
  from advance_writes [OF assms(2)] obtain u fresh wr where u: "stores_advance w u"
    and wr: "rt_to (rw_transition wr) = sp_to st" "ne_run_id (rw_event wr) = rf_run_id run"
    and t: "on_db (on_runs (run_transition fresh (rf_workspace run) wr)) u = (Ok stored, w')" by blast
  from u assms(1) have "run_store_ok (db_runs (kw_db u))"
    by (simp add: run_ok_def stores_advance_def db_advance_def extends_ok_def)
  then have d: "distinct (map ru_id (sr_runs (db_runs (kw_db u))))" by (simp add: run_store_ok_def)
  from t obtain s where s: "run_transition fresh (rf_workspace run) wr (db_runs (kw_db u)) = (Ok stored, s)"
    and w': "w' = u\<lparr>kw_db := (kw_db u)\<lparr>db_runs := s\<rparr>\<rparr>"
    by (auto dest!: on_db_OkD on_runs_OkD)
  from transitioned_to [OF d s] wr show ?thesis by (auto simp: stored_state_def row_of_def w')
qed

lemma step_stores: "returns (\<lambda>_ w'. stored_state run w' = Some (sp_to st)) (controller_step p run st)"
  unfolding controller_step_def
  by (rule returns_bind [OF stores.lifecycle_steps(1)]) (auto simp: returns_def elim!: eff_bind_OkE dest: advance_stores)

text \<open>A completed run has its answer among the messages of its conversation; a parked one has none yet.\<close>

definition answer_stored :: "ConversationId \<Rightarrow> string \<Rightarrow> ControllerWorld \<Rightarrow> bool" where
  "answer_stored conv answer w \<longleftrightarrow>
     answer = [] \<or> list_ex (\<lambda>m. mg_conversation_id m = conv \<and> mg_content m = answer \<and> mg_role m = role_str Role.Assistant)
                    (db_messages (kw_db w))"

definition delivered :: "RunRef \<Rightarrow> ConversationId \<Rightarrow> RunOutcome \<Rightarrow> ControllerWorld \<Rightarrow> bool" where
  "delivered run conv outcome w \<longleftrightarrow>
     ou_run_id outcome = rf_run_id run \<and> stored_state run w = Some (ou_state outcome) \<and>
     (case ou_answer outcome of
        Some answer \<Rightarrow> ou_state outcome = RunState.Completed \<and> answer_stored conv answer w
      | None \<Rightarrow> ou_state outcome = RunState.AwaitingApproval)"

lemma answer_stays: "stores_advance w w' \<Longrightarrow> answer_stored conv answer w \<Longrightarrow> answer_stored conv answer w'"
  by (auto simp: answer_stored_def stores_advance_def db_advance_def list_ex_iff)

lemma append_message_stores:
  assumes "append_message ws m d = (Ok sq, d')"
  shows "\<exists>row \<in> set (db_messages d'). mg_conversation_id row = nm_conversation_id m \<and> mg_content row = nm_content m \<and>
           mg_role row = role_str (nm_role m)"
proof -
  from assms obtain e x f where ex: "db_execute (sql_insert_message ws m) d = (Ok True, e)"
    and st: "db_statement e = (Ok x, f)" and "d' = f"
    by (auto simp: append_message_def elim!: eff_bind_OkE split: if_split_asm option.split_asm)
  then have rest: "only_db_faults e d'" using advancesD [OF db_statement_faults st] by simp
  from db_execute_cases [OF ex] obtain b where "sql_insert_message ws m b = Some e" by auto
  from insert_message_SomeD [OF this] rest show ?thesis
    by (auto simp: only_db_faults_def new_message_row_def)
qed

lemma store_answer_stores:
  assumes "store_answer p run conv answer t w = (Ok x, w')"
  shows "answer_stored conv answer w'"
proof (cases "answer = []")
  case False
  with assms obtain m v sq where "on_db (append_message (rf_workspace run) m) v = (Ok sq, w')"
    and "nm_conversation_id m = conv \<and> nm_role m = Role.Assistant \<and> nm_content m = answer"
    by (fastforce simp: store_answer_def new_message_validated_def elim!: eff_bind_OkE split: if_split_asm)
  then show ?thesis using append_message_stores by (fastforce simp: answer_stored_def list_ex_iff dest!: on_db_OkD)
qed (simp add: answer_stored_def)

lemma store_answer_step: "advances stores_advance (store_answer p run conv answer t)"
  unfolding store_answer_def by (auto intro!: stores.turn_rules)

lemma complete_run_OkD:
  assumes "complete_run p run drained conv t w = (Ok outcome, w')"
  shows "\<exists>a b c. controller_step p run (step_new RunState.AwaitingModel RunState.Responding ''run.responding'' ''final_response'') w =
      (Ok (), a) \<and> is_cancelled p a = (Ok False, b) \<and> store_answer p run conv (dr_answer drained) t b = (Ok (), c) \<and>
      controller_step p run (step_new RunState.Responding RunState.Completed ''run.completed'' ''answer_delivered'') c =
      (Ok (), w') \<and>
      outcome = \<lparr>ou_run_id = rf_run_id run, ou_state = RunState.Completed, ou_answer = Some (dr_answer drained), ou_error_code = None\<rparr>"
  using assms
  by (auto simp: complete_run_def finish_with_def eff_try_def elim!: eff_bind_OkE
      split: if_split_asm prod.split_asm sum.split_asm)

lemma complete_run_delivers: "returns (delivered run conv) (complete_run p run drained conv t)"
  unfolding returns_def
proof (intro allI impI)
  fix w outcome w'
  assume ok: "run_ok w" and ran: "complete_run p run drained conv t w = (Ok outcome, w')"
  from complete_run_OkD [OF ran] obtain a b c where
    a: "controller_step p run (step_new RunState.AwaitingModel RunState.Responding ''run.responding'' ''final_response'') w = (Ok (), a)"
    and b: "is_cancelled p a = (Ok False, b)" and c: "store_answer p run conv (dr_answer drained) t b = (Ok (), c)"
    and s: "controller_step p run (step_new RunState.Responding RunState.Completed ''run.completed'' ''answer_delivered'') c = (Ok (), w')"
    and out: "outcome = \<lparr>ou_run_id = rf_run_id run, ou_state = RunState.Completed, ou_answer = Some (dr_answer drained), ou_error_code = None\<rparr>"
    by blast
  have "run_ok c"
    using ok stores_keep_run_ok [OF stores.lifecycle_steps(3) a] stores_keep_run_ok [OF stores.is_cancelled_step b]
      stores_keep_run_ok [OF store_answer_step c] by blast
  from returnsD [OF step_stores this s] show "delivered run conv outcome w'"
    using answer_stays [OF advancesD [OF stores.lifecycle_steps(3) s] store_answer_stores [OF c]]
    by (simp add: delivered_def out step_new_def)
qed

lemma park_delivers: "returns (delivered run conv) (park p run inputs index parked)"
proof -
  have "returns (delivered run conv) (eff_bind (controller_finish p run
             (step_parked_on RunState.ExecutingTool RunState.AwaitingApproval ''run.approval_requested''
                ''tool_approval_pending'' waiting)) (\<lambda>_.
           eff_return \<lparr>ou_run_id = rf_run_id run, ou_state = RunState.AwaitingApproval, ou_answer = None,
                       ou_error_code = None\<rparr>))" for waiting
    by (auto simp: returns_def delivered_def controller_finish_def step_parked_on_def step_new_def elim!: eff_bind_OkE
        dest!: returnsD [OF step_stores])
  note parked = this
  show ?thesis
    unfolding park_def
    by (intro returns_try)
      (auto intro!: stores.turn_rules returns_bind [OF advances_lift [OF stores.refl]] parked split: sum.split)
qed

text \<open>The outcome is carried up through the attempts and the turns.\<close>

primrec turn_delivers :: "RunRef \<Rightarrow> ConversationId \<Rightarrow> TurnOutcome \<Rightarrow> ControllerWorld \<Rightarrow> bool" where
  "turn_delivers run conv (Answer outcome) w = delivered run conv outcome w"
| "turn_delivers run conv (ToolResults _) w = True"
| "turn_delivers run conv (TurnWaiting _) w = True"

primrec attempt_delivers :: "RunRef \<Rightarrow> ConversationId \<Rightarrow> AttemptOutcome \<Rightarrow> ControllerWorld \<Rightarrow> bool" where
  "attempt_delivers run conv (AttemptCompleted outcome) w = turn_delivers run conv outcome w"
| "attempt_delivers run conv (Retryable _ _) w = True"

lemma settle_delivers: "returns (attempt_delivers run conv) (settle_tool_calls p run turn c drained u d)"
  by (auto simp: settle_tool_calls_def returns_def elim!: eff_bind_OkE split: DispatchOutcome.split_asm)

lemma finish_attempt_delivers:
  "returns (attempt_delivers run (mt_conversation_id turn)) (finish_attempt p run turn c drained)"
proof -
  have "returns (attempt_delivers run conv) (eff_bind (complete_run p run drained conv t) (\<lambda>outcome.
             eff_return (AttemptCompleted (Answer outcome))))" for conv t
    using complete_run_delivers by (fastforce simp: returns_def elim!: eff_bind_OkE)
  note answered = this
  show ?thesis
    unfolding finish_attempt_def Let_def
    by (auto simp: settle_delivers split: option.split
        intro!: returns_bind [OF stores.outcome_steps(3)] returns_bind [OF stores.attempt_end_steps(2)] answered
          returns_bind [OF stores.controller_now_step] returns_bind [OF stores.outcome_steps(1)]
          returns_bind [OF stores.outcome_steps(6)])
qed

lemma attempt_call_delivers:
  "returns (attempt_delivers run (mt_conversation_id turn)) (attempt_call p run turn l a route)"
proof -
  have "returns (attempt_delivers run conv) (fail_open p run c e)" "returns (attempt_delivers run conv) (cancel_after_output p run c d)"
    for conv c e d
    by (auto simp: returns_def fail_open_def cancel_after_output_def Let_def elim!: eff_bind_OkE split: if_split_asm)
  then show ?thesis
    unfolding attempt_call_def
    by (auto intro!: finish_attempt_delivers returns_bind stores.turn_rules stores.outcome_steps stores.drain_stream_step
        stores.provider_open_step split: option.split sum.split)
qed

lemma ask_model_delivers: "returns (turn_delivers run (mt_conversation_id turn)) (ask_model p run turn)"
proof -
  have "returns (turn_delivers run (mt_conversation_id turn)) (ask_attempts fuel p run turn l route a)" for fuel l route a
  proof (induction fuel arbitrary: a)
    case (Suc fuel)
    have "returns (turn_delivers run (mt_conversation_id turn)) (eff_bind (before_retry p run turn a cl e)
        (\<lambda>next_attempt. ask_attempts fuel p run turn l route next_attempt))" for cl e
      by (intro returns_bind stores.before_retry_step Suc)
    note again = this
    show ?case
      unfolding returns_def
    proof (intro allI impI)
      fix w y w'
      assume ok: "run_ok w" and "ask_attempts (Suc fuel) p run turn l route a w = (Ok y, w')"
      then obtain x v where x: "attempt_call p run turn l a route w = (Ok x, v)"
        and rest: "(case x of AttemptCompleted outcome \<Rightarrow> eff_return outcome
          | Retryable cl e \<Rightarrow> eff_bind (before_retry p run turn a cl e)
              (\<lambda>next_attempt. ask_attempts fuel p run turn l route next_attempt)) v = (Ok y, w')"
        by (auto elim: eff_bind_OkE)
      show "turn_delivers run (mt_conversation_id turn) y w'"
        using rest returnsD [OF attempt_call_delivers ok x] returnsD [OF again]
          stores_keep_run_ok [OF stores.attempt_call_step x ok]
        by (cases x) auto
    qed
  qed (simp add: returns_def)
  then show ?thesis
    unfolding ask_model_def by (auto simp del: ask_attempts.simps intro!: returns_bind stores.turn_rules)
qed

lemma turn_round_delivers:
  assumes "run_ok w" and "turn_round p run inputs start w = (Ok (Ended outcome), w')"
  shows "delivered run (ti_conversation_id inputs) outcome w'"
proof -
  from assms(2) obtain i u x v where u: "enter_turn p run start w = (Ok i, u)"
    and x: "ask_model p run (model_turn inputs (ts_observations start)) u = (Ok x, v)"
    and rest: "x = Answer outcome \<and> v = w' \<or> (\<exists>parked. park p run inputs i parked v = (Ok outcome, w'))"
    by (fastforce simp: turn_round_def elim!: eff_bind_OkE split: TurnOutcome.split_asm)
  have ok: "run_ok u" using stores_keep_run_ok [OF stores.turn_steps(2) u assms(1)] .
  from stores_keep_run_ok [OF stores.ask_model_step x ok] have "run_ok v" .
  with returnsD [OF ask_model_delivers ok x] rest returnsD [OF park_delivers] show ?thesis
    by (auto simp: model_turn_def)
qed

lemma drive_turns_delivers:
  "run_ok w \<Longrightarrow> drive_turns p run inputs start w = (Ok outcome, w') \<Longrightarrow> delivered run (ti_conversation_id inputs) outcome w'"
proof (induction p run inputs start w rule: drive_turns.induct)
  case (1 p run inputs start w)
  obtain x v where round: "turn_round p run inputs start w = (x, v)" by fastforce
  note ok = stores_keep_run_ok [OF stores.turn_round_step round 1(2)]
  note unfolded = 1(3) [unfolded drive_turns.simps [of p run inputs start w] round prod.case]
  from unfolded obtain y where y: "x = Ok y" by (cases x) auto
  show ?case
  proof (cases y)
    case (Ended o1)
    with unfolded y round turn_round_delivers [OF 1(2)] show ?thesis by simp
  next
    case (Continue i obs)
    from unfolded y Continue have "drive_turns p run inputs
        \<lparr>ts_turn_index = i, ts_observations = obs, ts_after_tools = True\<rparr> v = (Ok outcome, w')" by simp
    from 1(1) [OF round [symmetric] y Continue ok this] show ?thesis .
  qed
qed

section \<open>Histories of the controller\<close>

inductive controller_call :: "ControllerWorld \<Rightarrow> ControllerWorld \<Rightarrow> bool" where
  executed: "controller_execute p context run_id conv objective msg w = (r, w') \<Longrightarrow> controller_call w w'"
| resumed: "controller_resume p context run_id approval w = (r', w') \<Longrightarrow> controller_call w w'"
| cancelled: "cancel_parked p ws run_id reason w = (r'', w') \<Longrightarrow> controller_call w w'"

lemma controller_history_advances: "controller_call\<^sup>*\<^sup>* w w' \<Longrightarrow> stores_advance w w'"
proof (induction rule: rtranclp_induct)
  case base
  show ?case using stores.refl by (rule reflpD)
next
  case (step u v)
  from step.hyps(2) have "stores_advance u v"
    by cases (auto dest: advancesD [OF stores.controller_execute_step] advancesD [OF stores.controller_resume_step]
        advancesD [OF stores.cancel_parked_step])
  with step.IH show ?case by (rule transpD [OF stores.trans])
qed

text \<open>C8: Whatever runs are executed, resumed and cancelled, with whatever providers, tools, clocks and cancellations,
  and wherever the database fails, the stores stay consistent with each other: the tables of runs, events, model calls
  and messages keep their invariants, no run is removed or changes its origin or budget, no event or message is lost, and
  no conversation is touched.\<close>

theorem controller_keeps_the_stores:
  assumes "controller_call\<^sup>*\<^sup>* w w'" and "run_store_ok (db_runs (kw_db w))" and "calls_ok (kw_db w)"
    and "conversations_ok (kw_db w)"
  shows "run_store_ok (db_runs (kw_db w')) \<and> calls_ok (kw_db w') \<and> conversations_ok (kw_db w') \<and>
    run_store_grows (db_runs (kw_db w)) (db_runs (kw_db w')) \<and> db_conversations (kw_db w') = db_conversations (kw_db w) \<and>
    prefix (db_messages (kw_db w)) (db_messages (kw_db w'))"
  using controller_history_advances [OF assms(1)] assms(2-4)
  by (auto simp: stores_advance_def db_advance_def extends_ok_def calls_advance_def prefix_def)

section \<open>What escapes the budget and the ledger\<close>

text \<open>C24: The consumption ceilings of a run bind only its final answer. A turn that answers over a ceiling never
  succeeds; a turn that asks for tools is settled exactly as if the run had no ceiling at all, so its tools are
  dispatched and the run goes on.\<close>

theorem tool_turns_escape_the_ceilings:
  assumes "Option.bind (dr_usage drained) (exceeded_by (mt_budget turn)) = Some limit"
  shows "(dr_tool_calls drained = [] \<longrightarrow> \<not> is_ok (fst (finish_attempt p run turn call_id drained w))) \<and>
    (dr_tool_calls drained \<noteq> [] \<longrightarrow>
       finish_attempt p run turn call_id drained w =
       finish_attempt p run (turn\<lparr>mt_budget := run_budget_default\<rparr>) call_id drained w)"
proof -
  obtain r v where fin: "finish_expired p run (Some call_id) (delivery_of drained) (dr_usage drained)
      ''consumption_budget_exceeded'' (controller_error_code (ControllerError.BudgetExceeded limit)) w = (r, v)" by fastforce
  show ?thesis
    using assms fin by (cases r) (simp_all add: finish_attempt_def settle_tool_calls_def Let_def)
qed

lemma record_attempt_pending:
  assumes "record_attempt call d = (r, d')"
  shows "sr_runs (db_runs d') = sr_runs (db_runs d) \<and>
    (\<exists>rows. db_calls d' = db_calls d @ rows \<and> list_all (\<lambda>row. ml_state row = ''pending'') rows)"
proof -
  obtain ins e where ins: "db_execute (sql_insert_call call) d = (ins, e)" by fastforce
  with assms db_execute_cases [OF ins] have "d' = e" by (auto simp: record_attempt_def eff_bind_def)
  with db_execute_cases [OF ins] show ?thesis
    by (auto simp: only_db_faults_def sql_insert_call_def new_call_row_def dest!: only_faults_fields split: if_split_asm)
qed

lemma observation_calls: "calls_in (concat (map observation_items obs)) = map to_call_id obs"
  by (induction obs) (simp_all add: observation_items_def)

lemma retained_calls: "calls_in (map to_input_item items) = []"
  by (induction items) (simp_all add: to_input_item_def Let_def)

lemma repeated_call_unsendable:
  "\<not> distinct (map to_call_id obs) \<Longrightarrow> \<exists>e. build_request run_id c model items obs offers b = Err e"
proof -
  assume "\<not> distinct (map to_call_id obs)"
  then have "check_items [] (request_input items obs) \<noteq> Ok ()"
    by (simp add: check_items_Ok_iff request_input_def observation_calls retained_calls)
  then show ?thesis
    by (cases "check_items [] (request_input items obs)") (auto simp: build_request_def input_items_new_def)
qed

text \<open>C25: Two observations of one call identifier strand a run. A stream may complete the same identifier twice, both
  calls are dispatched, and the next request is refused by the rule that identifiers are unique. The refusal comes after
  the attempt was recorded: nothing reaches the provider, no run changes, and the row of the attempt, when there is one,
  stays pending.\<close>

theorem repeated_call_id_strands_the_turn:
  assumes "\<not> distinct (map to_call_id (mt_observations turn))"
    and "attempt_call p run turn logical_call_id attempt route w = (r, w')"
  shows "\<not> is_ok r \<and> kw_requests w' = kw_requests w \<and> sr_runs (db_runs (kw_db w')) = sr_runs (db_runs (kw_db w)) \<and>
    (\<exists>rows. db_calls (kw_db w') = db_calls (kw_db w) @ rows \<and> list_all (\<lambda>row. ml_state row = ''pending'') rows)"
proof -
  obtain fresh a where a: "controller_id p w = (Ok fresh, a)" by (simp add: controller_id_def)
  obtain now b where b: "controller_now p a = (now, b)" by fastforce
  have same: "kw_requests b = kw_requests w" "kw_db b = kw_db w"
    using a b by (auto simp: controller_id_def controller_now_def on_service_def eff_bind_def split: prod.split_asm sum.split_asm)
  show ?thesis
  proof (cases now)
    case (Inr started)
    let ?call = "\<lparr>nk_id = fresh, nk_workspace_id = rf_workspace run, nk_run_id = rf_run_id run,
        nk_logical_call_id = logical_call_id, nk_attempt = attempt, nk_model = mt_model turn,
        nk_route_decision = map_option ro_decision route, nk_request_fingerprint = None, nk_started_at = started\<rparr>"
    obtain res c where c: "on_db (record_attempt ?call) b = (res, c)" by fastforce
    obtain e where "build_request (rf_run_id run) fresh (mt_model turn) (mt_items turn) (mt_observations turn)
        (if kp_has_tools p then kp_offers p else []) (mt_budget turn) = Err e"
      using repeated_call_unsendable [OF assms(1)] by blast
    with assms(2) a b c Inr have "r = Err (case res of Err x \<Rightarrow> x | Ok _ \<Rightarrow> e)" "w' = c"
      by (cases res; simp add: attempt_call_def)+
    moreover have "sr_runs (db_runs (kw_db c)) = sr_runs (db_runs (kw_db b)) \<and> kw_requests c = kw_requests b \<and>
        (\<exists>rows. db_calls (kw_db c) = db_calls (kw_db b) @ rows \<and> list_all (\<lambda>row. ml_state row = ''pending'') rows)"
      using record_attempt_pending [of ?call "kw_db b"] c
      by (auto simp: on_db_def split: prod.split_asm sum.split_asm)
    ultimately show ?thesis using same by (simp split: sum.split)
  qed (use assms(2) a b same in \<open>auto simp: attempt_call_def\<close>)
qed

section \<open>Witnesses\<close>

text \<open>A provider that sends pieces of text and stops.\<close>

definition text_event :: "ModelCallId \<Rightarrow> u64 \<Rightarrow> ModelStreamEventKind \<Rightarrow> ModelStreamEvent" where
  "text_event call_id n kind =
     \<lparr>se_call_id = call_id, se_event_id = 1, se_sequence = n, se_kind = kind, se_provider_metadata = None\<rparr>"

primrec text_events :: "ModelCallId \<Rightarrow> u64 \<Rightarrow> string list \<Rightarrow> ModelStreamEvent list" where
  "text_events call_id n [] = [text_event call_id n (CallCompleted FinishReason.Stop None False)]"
| "text_events call_id n (piece # pieces) =
     text_event call_id n (OutputTextDelta ''0'' piece) # text_events call_id (n + 1) pieces"

definition text_stream :: "string list \<Rightarrow> ModelCallRequest \<Rightarrow> Frame list" where
  "text_stream pieces request =
     map Ok (text_event (mq_call_id request) 1 (CallStarted None) # text_events (mq_call_id request) 2 pieces)"

definition sample_model :: ModelRef where
  "sample_model = \<lparr>mr_provider_id = ''p'', mr_model_id = ''m'', mr_revision = None\<rparr>"

definition sample_controller :: ControllerPorts where
  "sample_controller =
     \<lparr>kp_service = sample_ports, kp_has_tools = False, kp_offers = [], kp_models = [sample_model],
      kp_open = \<lambda>_ q. Ok (text_stream [''hi''] q), kp_elapsed = \<lambda>_. False, kp_cancelled = \<lambda>_. False,
      kp_cancel_reason = None, kp_memories = None, kp_has_resumes = False, kp_record_bytes = \<lambda>_. 0, kp_stamp = ''t'',
      kp_duration_since = \<lambda>a b. a - b, kp_millis = \<lambda>d. d, kp_delta_payload = \<lambda>_ d. d\<rparr>"

definition sample_controller_world :: ControllerWorld where
  "sample_controller_world =
     \<lparr>kw_db = \<lparr>db_runs = sample_created,
        db_conversations = [new_conversation_row (sample_conversation\<lparr>nc_id := 9, nc_workspace_id := 2\<rparr>)],
        db_messages = [], db_calls = [], db_resumes = []\<rparr>,
      kw_service = sample_world, kw_requests = [], kw_polls = 0, kw_waits = 0\<rparr>"

lemma sample_controller_world_ok:
  "run_store_ok (db_runs (kw_db sample_controller_world))" "calls_ok (kw_db sample_controller_world)"
  "conversations_ok (kw_db sample_controller_world)"
  "find (run_at 2 1) (sr_runs (db_runs (kw_db sample_controller_world))) = Some (new_run_row sample_new_run)"
  "row_budget (new_run_row sample_new_run) = run_budget_default" "kw_requests sample_controller_world = []"
  using sample_created_ok
  by (simp_all add: sample_controller_world_def calls_ok_def conversations_ok_def messages_of_def sample_created_def
      sample_run_store_def new_conversation_row_def sample_conversation_def run_at_def row_budget_def)
    (simp_all add: new_run_row_def sample_new_run_def)

theorem run_requests_are_bounded_witness:
  "\<exists>sent. kw_requests (snd (controller_execute sample_controller \<lparr>rx_workspace_id = 2, rx_principal_id = 3\<rparr> 1 9 ''go'' None
             sample_controller_world)) = sent \<and> length sent \<le> 10 \<and>
     list_all (\<lambda>q. mq_run_id q = 1 \<and> mq_model q = sample_model \<and> to_input_item (RetainedObjective ''go'') \<in> set (mq_input q)) sent"
  using run_requests_are_bounded [OF _ _ surjective_pairing, of "\<lparr>rx_workspace_id = 2, rx_principal_id = 3\<rparr>" 1
      sample_controller_world "new_run_row sample_new_run" sample_controller 9 "''go''" None] sample_controller_world_ok(4-6)
  by (simp add: run_budget_default_def retry_policy_none_def MAX_ATTEMPTS_def MAX_MODEL_TURNS_def sample_controller_def)

theorem controller_keeps_the_stores_witness:
  "\<exists>w'. controller_call\<^sup>*\<^sup>* sample_controller_world w' \<and> run_store_ok (db_runs (kw_db w')) \<and> calls_ok (kw_db w') \<and>
     conversations_ok (kw_db w') \<and> run_store_grows sample_created (db_runs (kw_db w'))"
proof -
  have call: "controller_call\<^sup>*\<^sup>* sample_controller_world (snd (controller_execute sample_controller
      \<lparr>rx_workspace_id = 2, rx_principal_id = 3\<rparr> 1 9 ''go'' None sample_controller_world))"
    by (intro r_into_rtranclp executed [OF surjective_pairing])
  have "db_runs (kw_db sample_controller_world) = sample_created" by (simp add: sample_controller_world_def)
  with controller_keeps_the_stores [OF call sample_controller_world_ok(1-3)] call show ?thesis by auto
qed

definition sample_turn :: "ToolObservation list \<Rightarrow> ModelTurn" where
  "sample_turn observations =
     \<lparr>mt_context = \<lparr>rx_workspace_id = 2, rx_principal_id = 3\<rparr>, mt_conversation_id = 9, mt_items = [],
      mt_observations = observations, mt_model = sample_model,
      mt_budget = run_budget_default\<lparr>rb_max_output_tokens := Some 1\<rparr>\<rparr>"

definition sample_drained :: DrainedTurn where
  "sample_drained =
     drained_default\<lparr>dr_tool_calls := [\<lparr>ct_call_id = ''c'', ct_capability = ''files.read'', ct_arguments = ''{}''\<rparr>],
       dr_usage := Some \<lparr>us_input_tokens = None, us_output_tokens = Some 9000, us_cached_input_tokens = None,
         us_reasoning_tokens = None, us_provider_reported = True, us_estimated_cost_microunits = None, us_currency = None\<rparr>\<rparr>"

theorem tool_turns_escape_the_ceilings_witness:
  "Option.bind (dr_usage sample_drained) (exceeded_by (mt_budget (sample_turn []))) = Some OutputTokens \<and>
   finish_attempt sample_controller \<lparr>rf_workspace = 2, rf_run_id = 1\<rparr> (sample_turn []) 5 sample_drained sample_controller_world =
   finish_attempt sample_controller \<lparr>rf_workspace = 2, rf_run_id = 1\<rparr> (sample_turn []\<lparr>mt_budget := run_budget_default\<rparr>) 5
     sample_drained sample_controller_world"
proof -
  have "Option.bind (dr_usage sample_drained) (exceeded_by (mt_budget (sample_turn []))) = Some OutputTokens"
    by (simp add: sample_drained_def sample_turn_def exceeded_by_def over_cap_def run_budget_default_def)
  moreover have "dr_tool_calls sample_drained \<noteq> []" by (simp add: sample_drained_def)
  ultimately show ?thesis using tool_turns_escape_the_ceilings by blast
qed

text \<open>A stream that completes one identifier twice is admitted to its end.\<close>

definition sample_twice :: "ModelStreamEvent list" where
  "sample_twice =
     [text_event 5 1 (CallStarted None), text_event 5 2 (ToolCallAdded ''c'' ''files.read''),
      text_event 5 3 (ToolCallCompleted ''c'' []), text_event 5 4 (ToolCallAdded ''c'' ''files.read''),
      text_event 5 5 (ToolCallCompleted ''c'' []), text_event 5 6 (CallCompleted FinishReason.ToolCalls None False)]"

lemma sample_twice_admitted:
  "stream_finish (fold (\<lambda>e state. snd (stream_accept state e)) sample_twice (stream_state_new 5)) = Ok (Terminal FinishReason.ToolCalls)"
  "map ct_call_id (dr_tool_calls (fold (\<lambda>e drained. capture drained e) sample_twice drained_default)) = [''c'', ''c'']"
  by code_simp+

theorem repeated_call_id_strands_the_turn_witness:
  "\<exists>obs. map to_call_id obs = map ct_call_id (dr_tool_calls (fold (\<lambda>e drained. capture drained e) sample_twice drained_default)) \<and>
     \<not> is_ok (fst (attempt_call sample_controller \<lparr>rf_workspace = 2, rf_run_id = 1\<rparr> (sample_turn obs) 6 1 None
                    sample_controller_world)) \<and>
     kw_requests (snd (attempt_call sample_controller \<lparr>rf_workspace = 2, rf_run_id = 1\<rparr> (sample_turn obs) 6 1 None
                    sample_controller_world)) = []"
proof -
  let ?ob = "\<lparr>to_call_id = ''c'', to_capability = ''files.read'', to_arguments = [], to_is_error = True, to_content = ''refused''\<rparr>"
  have "\<not> distinct (map to_call_id (mt_observations (sample_turn [?ob, ?ob])))" by (simp add: sample_turn_def)
  from repeated_call_id_strands_the_turn [OF this surjective_pairing, of sample_controller "\<lparr>rf_workspace = 2, rf_run_id = 1\<rparr>" 6 1
      None sample_controller_world] sample_controller_world_ok(6)
  show ?thesis by (intro exI [of _ "[?ob, ?ob]"]) (simp add: sample_twice_admitted)
qed

end
