(* ===== verification/Run_Controller_Live.thy ===== *)
theory Run_Controller_Live
  imports Run_Controller_Laws Run_Startup
begin

text \<open>
  A run that meets no fault is carried through: every step of the controller succeeds on a database that answers, with
  a clock that answers and identifiers that are new, and a provider that sends text leads to a stored answer.
\<close>

section \<open>Steps that succeed\<close>

lemma sequence_new:
  assumes events: "\<And>e. e \<in> set (sr_events s) \<Longrightarrow> er_run_id e = i \<Longrightarrow> 1 \<le> er_sequence e \<and> er_sequence e + int (Suc k) < 2 ^ 63 - 1"
    and small: "int (Suc k) < 2 ^ 63 - 2" and n: "n = (case max_sequence i s of None \<Rightarrow> 1 | Some m \<Rightarrow> min (m + 1) (2 ^ 63 - 1))"
  shows "1 \<le> n" and "n + int k < 2 ^ 63 - 1" and "\<And>e. e \<in> set (sr_events s) \<Longrightarrow> er_run_id e = i \<Longrightarrow> er_sequence e \<noteq> n"
proof -
  define seqs where "seqs = map er_sequence (filter (\<lambda>r. er_run_id r = i) (sr_events s))"
  have in_seqs: "er_sequence e \<in> set seqs" if "e \<in> set (sr_events s)" "er_run_id e = i" for e
    using that by (simp add: seqs_def)
  have range: "1 \<le> q \<and> q + int (Suc k) < 2 ^ 63 - 1" if "q \<in> set seqs" for q
    using that events by (auto simp: seqs_def)
  have "1 \<le> n \<and> n + int k < 2 ^ 63 - 1 \<and> n \<notin> set seqs"
  proof (cases seqs)
    case Nil
    with small n show ?thesis by (simp add: max_sequence_def seqs_def [symmetric])
  next
    case (Cons x xs)
    let ?m = "fold max xs x"
    have m: "1 \<le> ?m \<and> ?m + int (Suc k) < 2 ^ 63 - 1" using fold_max_in [of xs x] range [of ?m] Cons by auto
    then have "n = ?m + 1" using n Cons by (simp add: max_sequence_def seqs_def [symmetric] min_def)
    moreover have "?m + 1 \<notin> set seqs"
      using fold_max_ge(1) [of x xs] fold_max_ge(2) [of "?m + 1" xs x] Cons by auto
    ultimately show ?thesis using m by simp
  qed
  then show "1 \<le> n" "n + int k < 2 ^ 63 - 1" "\<And>e. e \<in> set (sr_events s) \<Longrightarrow> er_run_id e = i \<Longrightarrow> er_sequence e \<noteq> n"
    using in_seqs by metis+
qed

definition used_ids :: "Database \<Rightarrow> uuid set" where
  "used_ids d = er_id ` set (sr_events (db_runs d)) \<union> mg_id ` set (db_messages d) \<union> ml_id ` set (db_calls d) \<union>
     ml_logical_call_id ` set (db_calls d)"

text \<open>The run is in a state, the database answers, and there is room for so many more versions and events; as many
  identifiers can still be drawn before the horizon up to which they are new and distinct.\<close>

definition steady :: "ControllerPorts \<Rightarrow> nat \<Rightarrow> RunRef \<Rightarrow> RunState \<Rightarrow> nat \<Rightarrow> ControllerWorld \<Rightarrow> bool" where
  "steady p h run state k w \<longleftrightarrow>
     sr_faults (db_runs (kw_db w)) = [] \<and> run_ok w \<and> conversations_ok (kw_db w) \<and>
     (\<exists>row stored. row_of run w = Some row \<and> stored_run row = Ok stored \<and> st_state stored = state \<and>
        ru_version row + int k < 2 ^ 63 - 1) \<and>
     (\<forall>e \<in> set (sr_events (db_runs (kw_db w))). er_run_id e = rf_run_id run \<longrightarrow> er_sequence e + int k < 2 ^ 63 - 1) \<and>
     inj_on (tp_fresh_id (kp_service p)) {..<h} \<and> tw_ids_drawn (kw_service w) + k \<le> h \<and>
     (\<forall>n. tw_ids_drawn (kw_service w) \<le> n \<longrightarrow> n < h \<longrightarrow> tp_fresh_id (kp_service p) n \<notin> used_ids (kw_db w))"

lemma drawn_new:
  assumes "steady p h run state (Suc k) w"
  shows "tp_fresh_id (kp_service p) (tw_ids_drawn (kw_service w)) \<notin> used_ids (kw_db w)"
    and "\<And>n. tw_ids_drawn (kw_service w) < n \<Longrightarrow> n < h \<Longrightarrow>
      tp_fresh_id (kp_service p) n \<noteq> tp_fresh_id (kp_service p) (tw_ids_drawn (kw_service w))"
  using assms by (auto simp: steady_def dest: inj_onD)

definition answering_ports :: "ControllerPorts \<Rightarrow> bool" where
  "answering_ports p \<longleftrightarrow>
     (\<forall>n. tp_now (kp_service p) n \<noteq> None) \<and> (\<forall>n. \<not> kp_cancelled p n) \<and> (\<forall>n. \<not> kp_elapsed p n)"

text \<open>What stays the same while a run moves on.\<close>

definition moved :: "RunRef \<Rightarrow> ControllerWorld \<Rightarrow> ControllerWorld \<Rightarrow> bool" where
  "moved run w w' \<longleftrightarrow>
     db_messages (kw_db w') = db_messages (kw_db w) \<and> db_conversations (kw_db w') = db_conversations (kw_db w) \<and>
     db_calls (kw_db w') = db_calls (kw_db w) \<and> map_option row_budget (row_of run w') = map_option row_budget (row_of run w)"

lemma moved_refl [simp]: "moved run w w"
  by (simp add: moved_def)

lemma moved_trans: "moved run a b \<Longrightarrow> moved run b c \<Longrightarrow> moved run a c"
  by (simp add: moved_def)

lemma controller_now_answers:
  assumes "answering_ports p"
  obtains t w' where "controller_now p w = (Ok t, w')" and "kw_db w' = kw_db w"
    and "tw_ids_drawn (kw_service w') = tw_ids_drawn (kw_service w)"
proof -
  obtain t where "tp_now (kp_service p) (tw_clock_reads (kw_service w)) = Some t"
    using assms unfolding answering_ports_def by (metis not_None_eq)
  then show thesis
    by (intro that [of t "w\<lparr>kw_service := (kw_service w)\<lparr>tw_clock_reads := Suc (tw_clock_reads (kw_service w))\<rparr>\<rparr>"])
      (simp_all add: controller_now_def on_service_def service_now_def eff_bind_def)
qed

lemma steady_same:
  assumes "steady p h run state k w" and "kw_db w' = kw_db w" and "tw_ids_drawn (kw_service w) \<le> tw_ids_drawn (kw_service w')"
    and "tw_ids_drawn (kw_service w') + k' \<le> h" and "k' \<le> k"
  shows "steady p h run state k' w'" and "moved run w w'"
  using assms by (force simp: steady_def row_of_def run_ok_def, simp add: moved_def row_of_def)

lemma is_cancelled_answers:
  assumes "answering_ports p"
  shows "is_cancelled p w = (Ok False, w\<lparr>kw_polls := Suc (kw_polls w)\<rparr>)"
  using assms by (simp add: is_cancelled_def answering_ports_def)

lemma controller_load_answers:
  assumes "steady p h run state k w"
  shows "\<exists>row stored. controller_load run w = (Ok stored, w) \<and> row_of run w = Some row \<and> stored_run row = Ok stored \<and>
    st_state stored = state \<and> ru_version row + int k < 2 ^ 63 - 1 \<and> st_budget stored = row_budget row"
  using assms
  by (auto simp: steady_def controller_load_def on_db_def on_runs_def run_load_def read_run_def row_of_def ok_or_def eff_bind_def
      stored_budget)

text \<open>A transition the table allows, to a state that neither waits nor fails.\<close>

definition plain_step :: "RunState \<Rightarrow> Step \<Rightarrow> bool" where
  "plain_step state step \<longleftrightarrow>
     run_can_transition_to state (sp_to step) \<and> \<not> run_state_is_terminal state \<and> \<not> run_state_is_waiting (sp_to step) \<and>
     sp_to step \<noteq> RunState.Failed \<and> sp_waiting step = None \<and> sp_outcome step = None \<and> is_ok (transition_reason_new (sp_reason step))"

lemma transition_accepted:
  assumes s: "sr_faults s = []" "run_store_ok s" and row: "find (run_at ws i) (sr_runs s) = Some row" "stored_run row = Ok current"
    and small: "ru_version row + 1 < 2 ^ 63"
    and to: "run_can_transition_to (st_state current) to" "\<not> run_state_is_terminal (st_state current)" "\<not> run_state_is_waiting to"
      "to \<noteq> RunState.Failed"
    and seq: "1 \<le> n" "n < 2 ^ 63" "\<And>e. e \<in> set (sr_events s) \<Longrightarrow> er_run_id e = i \<Longrightarrow> er_sequence e \<noteq> n"
    and fresh: "u \<notin> er_id ` set (sr_events s)"
    and wr: "rw_transition wr = run_transition_new from to (st_version current) actor reason now" "rw_waiting wr = None"
      "rw_outcome wr = None" "ne_run_id (rw_event wr) = i" "ne_sequence (rw_event wr) = word_of_int n"
  shows "\<exists>r. run_transition u ws wr s = (Ok r, transition_effect u ws wr s) \<and>
    stored_run (transitioned_row wr row) = Ok r \<and> st_state r = to"
proof -
  have in_rows: "row \<in> set (sr_runs s)" "run_at ws i row" using find_SomeD [OF row(1)] by auto
  note cur = stored_run_OkD [OF row(2)]
  have chk: "run_row_check row" using s(2) in_rows(1) by (simp add: run_store_ok_def list_all_iff)
  from run_row_check_completed [OF chk row(2)] to(2) have open_row: "ru_completed_at row = None" using cur(5) by simp
  have n: "uint (word_of_int n :: u64) = n" using seq(1,2) by (simp add: uint_word_of_int_eq take_bit_int_eq_self)
  have "run_parse_state (run_state_display to) = Ok to" by (cases to) (simp_all add: run_parse_state_def run_state_all_def)
  with row(2) small obtain r where r: "stored_run (transitioned_row wr row) = Ok r" "st_state r = to"
    by (auto simp: stored_run_def transitioned_row_def Let_def wr run_transition_new_def and_then_Ok_iff split: if_split_asm)
  have check: "run_row_check (transitioned_row wr row)"
    using to(3) chk open_row
    by (cases to) (auto simp: run_row_check_def transitioned_row_def Let_def wr run_transition_new_def run_state_all_def
        TERMINAL_TEXTS_def)
  have "transitioned_row wr row \<in> set (sr_runs (transition_effect u ws wr s))" "ru_id (transitioned_row wr row) = i"
    using in_rows by (auto simp: transition_effect_def wr run_at_def image_iff)
  then have there: "list_ex (\<lambda>r. ru_id r = i) (sr_runs (transition_effect u ws wr s))"
    unfolding list_ex_iff by blast
  have ins: "sql_insert_event (event_row u ws (uint (ne_sequence (rw_event wr))) (rw_event wr))
      (transition_effect u ws wr s\<lparr>sr_events := sr_events s\<rparr>) = Some (transition_effect u ws wr s)"
    using seq fresh n there
    by (auto simp: sql_insert_event_def event_row_def transition_effect_def wr list_ex_iff image_iff)
  have "run_transition u ws wr s = (Ok r, transition_effect u ws wr s)"
    by (rule run_transition_quiet [OF s(1) _ _ _ row(2) _ _ _ check r(1) _ ins])
      (use s(2) row to seq n in \<open>auto simp: run_store_ok_def write_is_consistent_def wr run_transition_new_def unat_eq_nat_uint\<close>)
  with r show ?thesis by blast
qed

lemma steady_sequence:
  assumes "steady p h run state (Suc k) w"
  shows "\<exists>n. next_event_sequence (rf_workspace run) (rf_run_id run) (db_runs (kw_db w)) = (Ok (word_of_int n), db_runs (kw_db w)) \<and>
    n = (case max_sequence (rf_run_id run) (db_runs (kw_db w)) of None \<Rightarrow> 1 | Some m \<Rightarrow> min (m + 1) (2 ^ 63 - 1)) \<and>
    1 \<le> n \<and> n + int k < 2 ^ 63 - 1 \<and>
    (\<forall>e \<in> set (sr_events (db_runs (kw_db w))). er_run_id e = rf_run_id run \<longrightarrow> er_sequence e \<noteq> n)"
proof -
  let ?s = "db_runs (kw_db w)"
  define n where n: "n = (case max_sequence (rf_run_id run) ?s of None \<Rightarrow> 1 | Some m \<Rightarrow> min (m + 1) (2 ^ 63 - 1))"
  from assms obtain row stored where row: "row_of run w = Some row" "stored_run row = Ok stored"
    "ru_version row + int (Suc k) < 2 ^ 63 - 1" by (auto simp: steady_def)
  have small: "int (Suc k) < 2 ^ 63 - 2" using row(3) stored_run_OkD(3) [OF row(2)] by linarith
  have ev: "1 \<le> er_sequence e \<and> er_sequence e + int (Suc k) < 2 ^ 63 - 1" if "e \<in> set (sr_events ?s)" "er_run_id e = rf_run_id run" for e
    using assms that by (auto simp: steady_def run_ok_def run_store_ok_def list_all_iff)
  note new = sequence_new [of ?s "rf_run_id run" k n, OF ev small n]
  have "list_ex (run_at (rf_workspace run) (rf_run_id run)) (sr_runs ?s)"
    using find_SomeD [OF row(1) [unfolded row_of_def]] by (auto simp: list_ex_iff)
  then have "next_event_sequence (rf_workspace run) (rf_run_id run) ?s = (Ok (word_of_int n), ?s)"
    using assms new(1) by (simp add: next_event_sequence_def run_exists_def steady_def n [symmetric])
  with new n show ?thesis by blast
qed

lemma step_succeeds:
  assumes "steady p h run state (Suc k) w" and "answering_ports p" and "plain_step state step"
  shows "\<exists>w'. controller_step p run step w = (Ok (), w') \<and> steady p h run (sp_to step) k w' \<and> moved run w w'"
proof -
  let ?s = "db_runs (kw_db w)"
  from controller_load_answers [OF assms(1)] obtain row stored where load: "controller_load run w = (Ok stored, w)"
    and row: "row_of run w = Some row" "stored_run row = Ok stored" "st_state stored = state"
      "ru_version row + int (Suc k) < 2 ^ 63 - 1" by blast
  obtain now a where a: "controller_now p w = (Ok now, a)" "kw_db a = kw_db w"
    "tw_ids_drawn (kw_service a) = tw_ids_drawn (kw_service w)" by (rule controller_now_answers [OF assms(2)])
  obtain reason where reason: "transition_reason_new (sp_reason step) = Ok reason"
    using assms(3) by (auto simp: plain_step_def is_ok_iff)
  from steady_sequence [OF assms(1)] obtain n where n:
    "next_event_sequence (rf_workspace run) (rf_run_id run) ?s = (Ok (word_of_int n), ?s)" "1 \<le> n" "n + int k < 2 ^ 63 - 1"
    "\<And>e. e \<in> set (sr_events ?s) \<Longrightarrow> er_run_id e = rf_run_id run \<Longrightarrow> er_sequence e \<noteq> n" by blast
  let ?u = "tp_fresh_id (kp_service p) (tw_ids_drawn (kw_service w))"
  define wr where "wr = (run_write_new (run_transition_new (sp_from step) (sp_to step) (st_version stored) TransitionActor.Controller reason now)
      \<lparr>ne_run_id = rf_run_id run, ne_sequence = word_of_int n, ne_event_type = sp_event_type step,
       ne_payload_json = step_payload step, ne_visibility = EventVisibility.Public, ne_occurred_at = now\<rparr>)
      \<lparr>rw_outcome := sp_outcome step, rw_waiting := sp_waiting step\<rparr>"
  have wr: "rw_transition wr = run_transition_new (sp_from step) (sp_to step) (st_version stored) TransitionActor.Controller reason now"
    "rw_waiting wr = None" "rw_outcome wr = None" "ne_run_id (rw_event wr) = rf_run_id run" "ne_sequence (rw_event wr) = word_of_int n"
    using assms(3) by (simp_all add: wr_def run_write_new_def plain_step_def)
  have new: "?u \<notin> er_id ` set (sr_events ?s)" using drawn_new(1) [OF assms(1)] by (simp add: used_ids_def)
  have ok: "sr_faults ?s = []" "run_store_ok ?s" using assms(1) by (simp_all add: steady_def run_ok_def)
  have lim: "ru_version row + 1 < 2 ^ 63" "n < 2 ^ 63" using row(4) n(3) by simp_all
  have to: "run_can_transition_to (st_state stored) (sp_to step)" "\<not> run_state_is_terminal (st_state stored)"
    "\<not> run_state_is_waiting (sp_to step)" "sp_to step \<noteq> RunState.Failed"
    using assms(3) unfolding plain_step_def row(3) by blast+
  obtain r where r: "run_transition ?u (rf_workspace run) wr ?s = (Ok r, transition_effect ?u (rf_workspace run) wr ?s)"
    "stored_run (transitioned_row wr row) = Ok r" "st_state r = sp_to step"
    using transition_accepted [OF ok row(1) [unfolded row_of_def] row(2) lim(1) to n(2) lim(2) n(4) new wr] by blast
  define w' where "w' = a\<lparr>kw_service := (kw_service a)\<lparr>tw_ids_drawn := Suc (tw_ids_drawn (kw_service a))\<rparr>,
      kw_db := (kw_db w)\<lparr>db_runs := transition_effect ?u (rf_workspace run) wr ?s\<rparr>\<rparr>"
  have run': "controller_step p run step w = (Ok (), w')"
    using load a reason n(1) r(1)
    by (simp add: controller_step_def advance_def Let_def controller_id_def on_db_def on_runs_def wr_def [symmetric] w'_def)
  have adv: "stores_advance w w'" by (rule advancesD [OF stores.lifecycle_steps(3) run'])
  have row': "row_of run w' = Some (transitioned_row wr row)"
    using row(1) find_SomeD [OF row(1) [unfolded row_of_def]]
    by (simp add: row_of_def w'_def transition_effect_def wr find_map_same)
  have "steady p h run (sp_to step) k w'"
    unfolding steady_def
  proof (intro conjI ballI allI impI)
    show "sr_faults (db_runs (kw_db w')) = []" using ok(1) by (simp add: w'_def transition_effect_def)
    show "run_ok w'" "conversations_ok (kw_db w')"
      using adv assms(1) by (simp_all add: steady_def run_ok_def stores_advance_def db_advance_def extends_ok_def)
    show "\<exists>row stored. row_of run w' = Some row \<and> stored_run row = Ok stored \<and> st_state stored = sp_to step \<and>
        ru_version row + int k < 2 ^ 63 - 1"
      using row' r(2,3) row(4) by (auto simp: transitioned_row_def Let_def)
    show "inj_on (tp_fresh_id (kp_service p)) {..<h}" "tw_ids_drawn (kw_service w') + k \<le> h"
      using assms(1) a(3) by (simp_all add: steady_def w'_def)
  next
    fix e assume "e \<in> set (sr_events (db_runs (kw_db w')))" "er_run_id e = rf_run_id run"
    then have "e \<in> set (sr_events ?s) \<or> er_sequence e = n"
      using n(2) lim(2) by (auto simp: w'_def transition_effect_def event_row_def wr uint_word_of_int_eq take_bit_int_eq_self)
    then show "er_sequence e + int k < 2 ^ 63 - 1"
      using n(3) assms(1) \<open>er_run_id e = rf_run_id run\<close> by (force simp: steady_def)
  next
    fix m assume "tw_ids_drawn (kw_service w') \<le> m" "m < h"
    then have m: "tw_ids_drawn (kw_service w) < m" "m < h" using a(3) by (simp_all add: w'_def)
    with assms(1) have "tp_fresh_id (kp_service p) m \<notin> used_ids (kw_db w)" by (simp add: steady_def)
    moreover note drawn_new(2) [OF assms(1) m]
    ultimately show "tp_fresh_id (kp_service p) m \<notin> used_ids (kw_db w')"
      by (auto simp: used_ids_def w'_def transition_effect_def event_row_def)
  qed
  moreover have "moved run w w'"
    using row' row(1) by (simp add: moved_def w'_def row_budget_def transitioned_row_def Let_def)
  ultimately show ?thesis using run' by blast
qed

definition same_db :: "ControllerWorld \<Rightarrow> ControllerWorld \<Rightarrow> bool" where
  "same_db w w' \<longleftrightarrow> kw_db w' = kw_db w \<and> tw_ids_drawn (kw_service w') = tw_ids_drawn (kw_service w)"

lemma steady_same_db:
  assumes "steady p h run state k w" and "same_db w w'"
  shows "steady p h run state k w'" and "moved run w w'"
  using steady_same [OF assms(1), of w' k] assms by (auto simp: same_db_def steady_def)

lemma identifier_drawn:
  assumes "steady p h run state (Suc k) w"
  shows "\<exists>w'. controller_id p w = (Ok (tp_fresh_id (kp_service p) (tw_ids_drawn (kw_service w))), w') \<and>
    tw_ids_drawn (kw_service w') = Suc (tw_ids_drawn (kw_service w)) \<and> kw_db w' = kw_db w \<and>
    steady p h run state k w' \<and> moved run w w'"
proof -
  let ?w = "w\<lparr>kw_service := (kw_service w)\<lparr>tw_ids_drawn := Suc (tw_ids_drawn (kw_service w))\<rparr>\<rparr>"
  have "tw_ids_drawn (kw_service w) + Suc k \<le> h" using assms by (simp add: steady_def)
  then show ?thesis using steady_same [OF assms, of ?w k] by (auto simp: controller_id_def)
qed

lemma same_db_trans: "same_db a b \<Longrightarrow> same_db b c \<Longrightarrow> same_db a c"
  by (simp add: same_db_def)

lemma now_answers: "answering_ports p \<Longrightarrow> \<exists>t w'. controller_now p w = (Ok t, w') \<and> same_db w w'"
  by (metis controller_now_answers same_db_def)

lemma step_unless_cancelled_succeeds:
  assumes "steady p h run state (Suc k) w" and "answering_ports p" and "plain_step state step"
  shows "\<exists>w'. step_unless_cancelled p run step w = (Ok (), w') \<and> steady p h run (sp_to step) k w' \<and> moved run w w'"
proof -
  from step_succeeds [OF assms] obtain v where v: "controller_step p run step w = (Ok (), v)" "steady p h run (sp_to step) k v"
    "moved run w v" by blast
  let ?w = "v\<lparr>kw_polls := Suc (kw_polls v)\<rparr>"
  have "step_unless_cancelled p run step w = (Ok (), ?w)"
    using v(1) is_cancelled_answers [OF assms(2), of v] by (simp add: step_unless_cancelled_def eff_bind_def)
  moreover have "same_db v ?w" by (simp add: same_db_def)
  ultimately show ?thesis using v(2,3) steady_same_db [OF v(2)] moved_trans by blast
qed

lemma wait_answers:
  assumes "answering_ports p" and "\<And>v. \<exists>v'. m v = (Ok x, v') \<and> same_db v v'"
  shows "\<exists>w'. wait_bounded p budget m w = (Ok (Some x), w') \<and> same_db w w'"
proof -
  obtain bound a where a: "wait_bound p budget w = (Ok bound, a)" "same_db w a"
    using now_answers [OF assms(1), of w] by (auto simp: wait_bound_def Let_def)
  obtain b where b: "m a = (Ok x, b)" "same_db a b" using assms(2) by blast
  let ?b = "b\<lparr>kw_waits := Suc (kw_waits b)\<rparr>"
  have el: "has_elapsed p b = (Ok False, ?b)"
    using assms(1) by (simp add: has_elapsed_def answering_ports_def)
  have "wait_bounded p budget m w = (Ok (Some x), if bound = None then b else ?b)"
    using a(1) b(1) el by (cases bound) (simp_all add: wait_bounded_def eff_bind_def)
  moreover have "same_db w (if bound = None then b else ?b)"
    using same_db_trans [OF a(2) b(2)] by (simp add: same_db_def)
  ultimately show ?thesis by blast
qed

lemma wait_unit_answers:
  "answering_ports p \<Longrightarrow> \<exists>w'. wait_bounded p budget (eff_return ()) w = (Ok (Some ()), w') \<and> same_db w w'"
  by (rule wait_answers) (auto simp: same_db_def)

section \<open>Reading a text\<close>

lemma delta_persists:
  assumes "steady p h run state (Suc k) w" and "answering_ports p"
  shows "\<exists>t w'. persist_delta p run i d w = (Ok t, w') \<and> steady p h run state k w' \<and> moved run w w'"
proof -
  let ?s = "db_runs (kw_db w)" and ?u = "tp_fresh_id (kp_service p) (tw_ids_drawn (kw_service w))"
  obtain t a where a: "controller_now p w = (Ok t, a)" "same_db w a" using now_answers [OF assms(2)] by blast
  from steady_sequence [OF assms(1)] obtain n where n:
    "n = (case max_sequence (rf_run_id run) ?s of None \<Rightarrow> 1 | Some m \<Rightarrow> min (m + 1) (2 ^ 63 - 1))" "1 \<le> n" "n + int k < 2 ^ 63 - 1"
    "\<And>e. e \<in> set (sr_events ?s) \<Longrightarrow> er_run_id e = rf_run_id run \<Longrightarrow> er_sequence e \<noteq> n" by blast
  from assms(1) obtain row where row: "row_of run w = Some row" by (auto simp: steady_def)
  note at_row = find_SomeD [OF row [unfolded row_of_def]]
  define event where "event = \<lparr>er_id = ?u, er_workspace_id = rf_workspace run, er_run_id = rf_run_id run, er_sequence = n,
      er_event_type = ''run.output_text.delta'', er_payload_json = Some (kp_delta_payload p i d), er_visibility = ''public'',
      er_occurred_at = t\<rparr>"
  let ?s' = "?s\<lparr>sr_events := sr_events ?s @ [event]\<rparr>"
  have quiet: "sr_faults ?s = []" and new: "?u \<notin> er_id ` set (sr_events ?s)"
    using assms(1) drawn_new(1) [OF assms(1)] by (auto simp: steady_def used_ids_def)
  have "sql_insert_event event ?s = Some ?s'"
    using n(2,4) new at_row by (auto simp: sql_insert_event_def event_def list_ex_iff run_at_def image_iff)
  moreover have "list_ex (run_at (rf_workspace run) (rf_run_id run)) (sr_runs ?s)" using at_row by (auto simp: list_ex_iff)
  ultimately have out: "output_text_delta ?u (rf_workspace run) (rf_run_id run) (kp_delta_payload p i d) t ?s = (Ok (word_of_int n), ?s')"
    using quiet n(2)
    by (simp add: output_text_delta_def run_exists_def run_transaction_def run_execute_def eff_try_def Let_def n(1) [symmetric]
        event_def)
  define w' where "w' = a\<lparr>kw_service := (kw_service a)\<lparr>tw_ids_drawn := Suc (tw_ids_drawn (kw_service a))\<rparr>,
      kw_db := (kw_db w)\<lparr>db_runs := ?s'\<rparr>\<rparr>"
  have run': "persist_delta p run i d w = (Ok t, w')"
    using a out by (simp add: persist_delta_def controller_id_def on_db_def on_runs_def same_db_def w'_def)
  have "stores_advance w w'" by (rule advancesD [OF stores.persist_delta_step run'])
  then have "run_ok w'" "conversations_ok (kw_db w')"
    using assms(1) by (simp_all add: steady_def run_ok_def stores_advance_def db_advance_def extends_ok_def)
  moreover have "tp_fresh_id (kp_service p) m \<notin> used_ids (kw_db w')" if "tw_ids_drawn (kw_service w') \<le> m" "m < h" for m
  proof -
    from that a(2) have m: "tw_ids_drawn (kw_service w) < m" "m < h" by (simp_all add: w'_def same_db_def)
    with assms(1) have "tp_fresh_id (kp_service p) m \<notin> used_ids (kw_db w)" by (simp add: steady_def)
    moreover note drawn_new(2) [OF assms(1) m]
    ultimately show ?thesis by (auto simp: used_ids_def w'_def event_def)
  qed
  moreover have "tw_ids_drawn (kw_service w') + k \<le> h" using assms(1) a(2) by (simp add: steady_def w'_def same_db_def)
  ultimately have "steady p h run state k w'"
    using assms(1) n(3) by (auto simp: steady_def w'_def row_of_def event_def)
  moreover have "moved run w w'" by (simp add: moved_def w'_def row_of_def)
  ultimately show ?thesis using run' by blast
qed

text \<open>What the turn has read so far, and what reading a text adds.\<close>

definition text_read :: "string \<Rightarrow> DrainedTurn \<Rightarrow> bool" where
  "text_read answer drained \<longleftrightarrow>
     dr_answer drained = answer \<and> dr_tool_calls drained = [] \<and> dr_usage drained = None \<and>
     dr_provider_request_id drained = None \<and> (dr_first_output_at drained = None \<longrightarrow> dr_last_output_at drained = None)"

definition reading :: "ModelCallId \<Rightarrow> u64 \<Rightarrow> ModelStreamState \<Rightarrow> bool" where
  "reading call_id n state \<longleftrightarrow>
     ss_call_id state = call_id \<and> ss_terminal state = None \<and> ss_open_tool_calls state = [] \<and> ss_last_sequence state < n"

lemma reading_accepts_text:
  assumes "reading c n state" and "n < n + 1"
  shows "\<exists>state'. stream_accept state (text_event c n (OutputTextDelta i d)) = (Ok Accepted, state') \<and> reading c (n + 1) state'"
  using assms by (auto simp: reading_def text_event_def stream_accept_def stream_apply_def kind_is_terminal_def)

lemma reading_accepts_end:
  assumes "reading c n state"
  shows "\<exists>state'. stream_accept state (text_event c n (CallCompleted FinishReason.Stop None False)) = (Ok Accepted, state') \<and>
    stream_finish state' = Ok (Terminal FinishReason.Stop)"
  using assms
  by (auto simp: reading_def text_event_def stream_accept_def stream_apply_def kind_is_terminal_def kind_terminal_reason_def
      stream_finish_def)

lemma drain_text:
  assumes "answering_ports p" and "steady p h run state (length pieces + k) w" and "reading c n stream"
    and "unat n + length pieces < 2 ^ 64 - 1" and "text_read answer drained"
  shows "\<exists>w' drained'. drain_turn_frames p run c budget stream drained (map Ok (text_events c n pieces)) w = (Ok (Ok drained'), w') \<and>
    steady p h run state k w' \<and> moved run w w' \<and> text_read (answer @ concat pieces) drained' \<and>
    dr_finish_reason drained' = Some FinishReason.Stop"
  using assms(2-5)
proof (induction pieces arbitrary: w n stream drained answer)
  case Nil
  obtain a where a: "wait_bounded p budget (eff_return ()) w = (Ok (Some ()), a)" "same_db w a"
    using wait_unit_answers [OF assms(1)] by blast
  obtain b where b: "wait_bounded p budget (eff_return ()) a = (Ok (Some ()), b)" "same_db a b"
    using wait_unit_answers [OF assms(1)] by blast
  let ?e = "text_event c n (CallCompleted FinishReason.Stop None False)"
  obtain stream' where acc: "stream_accept stream ?e = (Ok Accepted, stream')"
    "stream_finish stream' = Ok (Terminal FinishReason.Stop)" using reading_accepts_end [OF Nil.prems(2)] by blast
  have kind: "se_kind ?e = CallCompleted FinishReason.Stop None False" "se_provider_metadata ?e = None" by (simp_all add: text_event_def)
  have "drain_turn_frames p run c budget stream drained (map Ok (text_events c n [])) w = (Ok (Ok (capture drained ?e)), b)"
    using a(1) b(1) acc kind(1) by (simp add: eff_bind_def end_stream_def)
  moreover have "text_read (answer @ concat []) (capture drained ?e)" "dr_finish_reason (capture drained ?e) = Some FinishReason.Stop"
    using Nil.prems(4) kind by (simp_all add: text_read_def capture_def capture_request_id_def completed_reason_def Let_def)
  moreover have "steady p h run state k b" "moved run w b"
    using steady_same_db [OF _ same_db_trans [OF a(2) b(2)]] Nil.prems(1) by simp_all
  ultimately show ?case by blast
next
  case (Cons piece pieces)
  obtain a where a: "wait_bounded p budget (eff_return ()) w = (Ok (Some ()), a)" "same_db w a"
    using wait_unit_answers [OF assms(1)] by blast
  let ?e = "text_event c n (OutputTextDelta ''0'' piece)"
  have less: "n < n + 1" "unat (n + 1) = Suc (unat n)"
    using Cons.prems(3) by (simp_all add: word_less_nat_alt unat_word_ariths)
  obtain stream' where acc: "stream_accept stream ?e = (Ok Accepted, stream')" "reading c (n + 1) stream'"
    using reading_accepts_text [OF Cons.prems(2) less(1)] by blast
  have st: "steady p h run state (Suc (length pieces + k)) a" using steady_same_db(1) [OF Cons.prems(1) a(2)] by simp
  from delta_persists [OF st assms(1)] obtain t b where b: "persist_delta p run ''0'' piece a = (Ok t, b)"
    "steady p h run state (length pieces + k) b" "moved run a b" by blast
  let ?d = "capture_delta drained t piece"
  have "text_read (answer @ piece) ?d"
    using Cons.prems(4) by (auto simp: text_read_def capture_delta_def split: option.split)
  moreover have "unat (n + 1) + length pieces < 2 ^ 64 - 1" using Cons.prems(3) less(2) by simp
  ultimately obtain w' drained' where ih:
    "drain_turn_frames p run c budget stream' ?d (map Ok (text_events c (n + 1) pieces)) b = (Ok (Ok drained'), w')"
    "steady p h run state k w'" "moved run b w'" "text_read ((answer @ piece) @ concat pieces) drained'"
    "dr_finish_reason drained' = Some FinishReason.Stop"
    using Cons.IH [OF b(2) acc(2)] by blast
  have "drain_turn_frames p run c budget stream drained (map Ok (text_events c n (piece # pieces))) w = (Ok (Ok drained'), w')"
    using a(1) acc(1) b(1) ih(1) by (simp add: eff_bind_def text_event_def)
  moreover have "moved run w w'"
    using steady_same_db(2) [OF Cons.prems(1) a(2)] b(3) ih(3) moved_trans by blast
  ultimately show ?case using ih(2,4,5) by auto
qed

lemma stream_text_read:
  assumes "answering_ports p" and "steady p h run state (length pieces + k) w" and "length pieces < 2 ^ 63"
  shows "\<exists>w' drained. drain_stream p run (mq_call_id q) (text_stream pieces q) budget w = (Ok (Ok drained), w') \<and>
    steady p h run state k w' \<and> moved run w w' \<and> text_read (concat pieces) drained \<and>
    dr_finish_reason drained = Some FinishReason.Stop"
proof -
  let ?c = "mq_call_id q"
  let ?e = "text_event ?c 1 (CallStarted None)"
  obtain a where a: "wait_bounded p budget (eff_return ()) w = (Ok (Some ()), a)" "same_db w a"
    using wait_unit_answers [OF assms(1)] by blast
  obtain stream where acc: "stream_accept (stream_state_new ?c) ?e = (Ok Accepted, stream)" "reading ?c 2 stream"
    by (simp add: stream_accept_def stream_state_new_def text_event_def stream_apply_def kind_is_terminal_def sequence_first_def
        reading_def)
  have "text_read [] (capture drained_default ?e)"
    by (simp add: text_read_def capture_def capture_request_id_def drained_default_def text_event_def Let_def)
  from drain_text [OF assms(1) steady_same_db(1) [OF assms(2) a(2)] acc(2) _ this, of budget] assms(3)
  obtain w' drained where d: "drain_turn_frames p run ?c budget stream (capture drained_default ?e) (map Ok (text_events ?c 2 pieces)) a =
      (Ok (Ok drained), w')" "steady p h run state k w'" "moved run a w'" "text_read (concat pieces) drained"
      "dr_finish_reason drained = Some FinishReason.Stop" by auto
  have "drain_stream p run ?c (text_stream pieces q) budget w = (Ok (Ok drained), w')"
    using a(1) acc(1) d(1) by (simp add: drain_stream_def text_stream_def eff_bind_def text_event_def)
  moreover have "moved run w w'" using steady_same_db(2) [OF assms(2) a(2)] d(3) moved_trans by blast
  ultimately show ?thesis using d(2,4,5) by blast
qed

section \<open>A call and its record\<close>

lemma check_items_texts: "check_items seen (map to_input_item items) = Ok ()"
  by (induction items) (simp_all add: to_input_item_def Let_def)

lemma first_request:
  "\<exists>q. build_request i c model items [] offers b = Ok q \<and> mq_call_id q = c"
  by (simp add: build_request_def input_items_new_def request_input_def check_items_texts)

text \<open>The world with other rows of model calls and messages is steady when no identifier yet to be drawn is among theirs.\<close>

lemma steady_rows:
  assumes "steady p h run state k w" and "db_runs (kw_db w') = db_runs (kw_db w)" and "conversations_ok (kw_db w')"
    and "tw_ids_drawn (kw_service w') + k' \<le> h" and "k' \<le> k"
    and "\<And>n. tw_ids_drawn (kw_service w') \<le> n \<Longrightarrow> n < h \<Longrightarrow> tp_fresh_id (kp_service p) n \<notin> used_ids (kw_db w')"
  shows "steady p h run state k' w'"
  using assms by (force simp: steady_def row_of_def run_ok_def)

lemma attempt_recorded:
  assumes "steady p h run state k w" and "nk_attempt call \<noteq> 0" and "nk_run_id call = rf_run_id run"
    and "nk_id call \<notin> used_ids (kw_db w)" and "nk_logical_call_id call \<notin> used_ids (kw_db w)"
    and "\<And>n. tw_ids_drawn (kw_service w) \<le> n \<Longrightarrow> n < h \<Longrightarrow>
      tp_fresh_id (kp_service p) n \<noteq> nk_id call \<and> tp_fresh_id (kp_service p) n \<noteq> nk_logical_call_id call"
  shows "\<exists>w'. on_db (record_attempt call) w = (Ok (), w') \<and> steady p h run state k w' \<and>
    kw_db w' = (kw_db w)\<lparr>db_calls := db_calls (kw_db w) @ [new_call_row call]\<rparr> \<and> kw_service w' = kw_service w"
proof -
  let ?d = "kw_db w"
  let ?w = "w\<lparr>kw_db := ?d\<lparr>db_calls := db_calls ?d @ [new_call_row call]\<rparr>\<rparr>"
  obtain row where row: "row_of run w = Some row" using assms(1) by (auto simp: steady_def)
  note at_row = find_SomeD [OF row [unfolded row_of_def]]
  have "nk_id call \<notin> ml_id ` set (db_calls ?d)" "nk_logical_call_id call \<notin> ml_logical_call_id ` set (db_calls ?d)"
    using assms(4,5) by (auto simp: used_ids_def)
  then have "\<not> list_ex (\<lambda>r. ml_id r = nk_id call \<or>
      ml_logical_call_id r = nk_logical_call_id call \<and> ml_attempt r = uint (nk_attempt call)) (db_calls ?d)"
    unfolding list_ex_iff by (metis imageI)
  moreover have "list_ex (\<lambda>r. ru_id r = nk_run_id call) (sr_runs (db_runs ?d))"
    using at_row assms(3) unfolding list_ex_iff run_at_def by metis
  ultimately have "sql_insert_call call ?d = Some (?d\<lparr>db_calls := db_calls ?d @ [new_call_row call]\<rparr>)"
    using assms(2) by (simp add: sql_insert_call_def)
  then have run': "on_db (record_attempt call) w = (Ok (), ?w)"
    using assms(1)
    by (simp add: on_db_def record_attempt_def db_execute_def eff_try_def db_statement_def on_runs_def steady_def eff_bind_def)
  have "stores_advance w ?w" by (rule advancesD [OF stores.call_steps(1) run'])
  then have "conversations_ok (kw_db ?w)" using assms(1) by (simp add: steady_def stores_advance_def db_advance_def)
  moreover have "tp_fresh_id (kp_service p) n \<notin> used_ids (kw_db ?w)" if "tw_ids_drawn (kw_service ?w) \<le> n" "n < h" for n
    using that assms(1,6) by (auto simp: steady_def used_ids_def new_call_row_def)
  ultimately have "steady p h run state k ?w"
    using assms(1) by (intro steady_rows [OF assms(1)]) (simp_all add: steady_def)
  with run' show ?thesis by auto
qed

lemma outcome_recorded:
  assumes "answering_ports p" and "steady p h run state k w" and "text_read answer drained"
    and "row \<in> set (db_calls (kw_db w))" and "call_row_open (rf_workspace run) call_id row"
  shows "\<exists>w'. record_call_outcome_with p run call_id ModelCallState.Completed
      \<lparr>ro_usage = dr_usage drained, ro_finish_reason = dr_finish_reason drained, ro_delivery = delivery_of drained,
       ro_provider_request_id = dr_provider_request_id drained\<rparr> w = (Ok (), w') \<and>
    steady p h run state k w' \<and> db_messages (kw_db w') = db_messages (kw_db w) \<and>
    db_conversations (kw_db w') = db_conversations (kw_db w)"
proof -
  obtain t a where a: "controller_now p w = (Ok t, a)" "same_db w a" using now_answers [OF assms(1)] by blast
  let ?recorded = "\<lparr>ro_usage = dr_usage drained, ro_finish_reason = dr_finish_reason drained, ro_delivery = delivery_of drained,
       ro_provider_request_id = dr_provider_request_id drained\<rparr>"
  define out where "out = \<lparr>mo_state = ModelCallState.Completed, mo_provider_request_id = dr_provider_request_id drained,
        mo_continuation_ref = None, mo_usage = dr_usage drained,
        mo_estimated_cost_microunits = Option.bind (dr_usage drained) us_estimated_cost_microunits,
        mo_finish_reason = dr_finish_reason drained, mo_error_code = None,
        mo_first_output_at = dt_first_output_at (delivery_of drained),
        mo_last_output_at = dt_last_output_at (delivery_of drained),
        mo_output_delta_count =
          map_option (\<lambda>_. dt_output_delta_count (delivery_of drained)) (dt_first_output_at (delivery_of drained)),
        mo_completed_at = Some t\<rparr>"
  have valid: "outcome_validated out = Ok out"
    using assms(3)
    by (cases "dr_first_output_at drained")
      (simp_all add: outcome_validated_def out_def text_read_def delivery_of_def is_some_and_def)
  obtain count' rows where up: "sql_update (call_row_open (rf_workspace run) call_id) (outcome_row out) (db_calls (kw_db w)) = (count', rows)"
    by fastforce
  have "count' \<noteq> 0" using up assms(4,5) by (auto simp: sql_update_def filter_empty_conv)
  define w' where "w' = a\<lparr>kw_db := (kw_db w)\<lparr>db_calls := rows\<rparr>\<rparr>"
  have run': "record_call_outcome_with p run call_id ModelCallState.Completed ?recorded w = (Ok (), w')"
    using a valid up \<open>count' \<noteq> 0\<close> assms(2)
    by (simp add: record_call_outcome_with_def eff_bind_def on_db_def record_outcome_def out_def [symmetric] db_statement_def
        on_runs_def steady_def same_db_def w'_def)
  have "stores_advance w w'" by (rule advancesD [OF stores.outcome_steps(1) run'])
  then have conv: "conversations_ok (kw_db w')" using assms(2) by (simp add: steady_def stores_advance_def db_advance_def)
  have "map ml_id rows = map ml_id (db_calls (kw_db w))" "map ml_logical_call_id rows = map ml_logical_call_id (db_calls (kw_db w))"
    using up by (auto simp: sql_update_def outcome_row_def)
  then have "ml_id ` set rows = ml_id ` set (db_calls (kw_db w))" "ml_logical_call_id ` set rows = ml_logical_call_id ` set (db_calls (kw_db w))"
    by (metis image_set)+
  then have "used_ids (kw_db w') = used_ids (kw_db w)" by (simp add: used_ids_def w'_def)
  then have "steady p h run state k w'"
    using assms(2) a(2) conv by (intro steady_rows [OF assms(2)]) (simp_all add: w'_def same_db_def steady_def)
  with run' show ?thesis by (auto simp: w'_def)
qed

section \<open>A run that is answered\<close>

lemma plain_steps:
  "plain_step RunState.Received (step_new RunState.Received RunState.ContextBuilding ''run.context_building'' ''context_build_requested'')"
  "plain_step RunState.ContextBuilding (step_new RunState.ContextBuilding RunState.Planning ''run.planning'' ''context_ready'')"
  "plain_step RunState.Planning (step_new RunState.Planning RunState.AwaitingModel ''run.model_started'' ''model_call_requested'')"
  "plain_step RunState.AwaitingModel (step_new RunState.AwaitingModel RunState.Responding ''run.responding'' ''final_response'')"
  "plain_step RunState.Responding (step_new RunState.Responding RunState.Completed ''run.completed'' ''answer_delivered'')"
  by (simp_all add: plain_step_def step_new_def run_can_transition_to_def transition_reason_new_def MAX_REASON_BYTES_def
      contains_nul_def byte_def is_ok_def)

lemma step_new_to [simp]: "sp_to (step_new a b e r) = b"
  by (simp add: step_new_def)

text \<open>An answer the conversation can take.\<close>

definition storable_answer :: "RunRef \<Rightarrow> ConversationId \<Rightarrow> string \<Rightarrow> ControllerWorld \<Rightarrow> bool" where
  "storable_answer run conv answer w \<longleftrightarrow>
     length answer \<le> MAX_CONTENT_BYTES \<and> \<not> contains_nul answer \<and>
     list_ex (conversation_at (rf_workspace run) conv) (db_conversations (kw_db w)) \<and>
     length (messages_of conv (kw_db w)) < 2 ^ 63 - 1"

lemma storable_moved: "storable_answer run conv answer w \<Longrightarrow> moved run w w' \<Longrightarrow> storable_answer run conv answer w'"
  by (simp add: storable_answer_def moved_def messages_of_def)

lemma answer_succeeds:
  assumes "steady p h run state (Suc k) w" and "storable_answer run conv answer w"
  shows "\<exists>w'. store_answer p run conv answer t w = (Ok (), w') \<and> steady p h run state k w'"
proof (cases "answer = []")
  case False
  let ?u = "tp_fresh_id (kp_service p) (tw_ids_drawn (kw_service w))" and ?d = "kw_db w"
  define m where "m = \<lparr>nm_id = ?u, nm_conversation_id = conv, nm_role = Role.Assistant, nm_content = answer,
      nm_content_schema_version = 1, nm_sensitivity = ''internal'', nm_source = ''daemon'', nm_created_at = t\<rparr>"
  have valid: "new_message_validated m = Ok m"
    using False assms(2) by (simp add: new_message_validated_def m_def storable_answer_def)
  let ?row = "new_message_row (rf_workspace run) (int (Suc (length (messages_of conv ?d)))) m"
  have "conv \<in> vr_id ` set (db_conversations ?d)" "?u \<notin> mg_id ` set (db_messages ?d)"
    using assms(2) drawn_new(1) [OF assms(1)] by (auto simp: storable_answer_def list_ex_iff conversation_at_def used_ids_def)
  then obtain x where app: "append_message (rf_workspace run) m ?d = (Ok x, ?d\<lparr>db_messages := db_messages ?d @ [?row]\<rparr>)"
    using append_message_runs [of ?d m "rf_workspace run"] assms(1,2) by (simp add: m_def steady_def storable_answer_def)
  define w' where "w' = w\<lparr>kw_service := (kw_service w)\<lparr>tw_ids_drawn := Suc (tw_ids_drawn (kw_service w))\<rparr>,
      kw_db := ?d\<lparr>db_messages := db_messages ?d @ [?row]\<rparr>\<rparr>"
  have run': "store_answer p run conv answer t w = (Ok (), w')"
    using False valid app
    by (simp add: store_answer_def controller_id_def eff_bind_def m_def [symmetric] on_db_def w'_def)
  have "stores_advance w w'" by (rule advancesD [OF store_answer_step run'])
  then have conv: "conversations_ok (kw_db w')" using assms(1) by (simp add: steady_def stores_advance_def db_advance_def)
  have "tp_fresh_id (kp_service p) n \<notin> used_ids (kw_db w')" if "tw_ids_drawn (kw_service w') \<le> n" "n < h" for n
  proof -
    from that have n: "tw_ids_drawn (kw_service w) < n" "n < h" by (simp_all add: w'_def)
    with drawn_new(2) [OF assms(1) n] show ?thesis using assms(1) by (auto simp: steady_def used_ids_def w'_def new_message_row_def m_def)
  qed
  with conv have "steady p h run state k w'"
    using assms(1) by (intro steady_rows [OF assms(1)]) (simp_all add: w'_def steady_def)
  with run' show ?thesis by blast
next
  case True
  have "steady p h run state k w" using steady_same(1) [OF assms(1) refl order_refl, of k] assms(1) by (simp add: steady_def)
  with True show ?thesis by (simp add: store_answer_def)
qed

lemma completion_succeeds:
  assumes "answering_ports p" and "steady p h run RunState.AwaitingModel (Suc (Suc (Suc k))) w"
    and "storable_answer run conv (dr_answer drained) w"
  shows "\<exists>w'. complete_run p run drained conv t w =
    (Ok \<lparr>ou_run_id = rf_run_id run, ou_state = RunState.Completed, ou_answer = Some (dr_answer drained), ou_error_code = None\<rparr>, w')"
proof -
  from step_succeeds [OF assms(2,1) plain_steps(4)] obtain a where
    a: "controller_step p run (step_new RunState.AwaitingModel RunState.Responding ''run.responding'' ''final_response'') w = (Ok (), a)"
    "steady p h run RunState.Responding (Suc (Suc k)) a" "moved run w a" by auto
  let ?b = "a\<lparr>kw_polls := Suc (kw_polls a)\<rparr>"
  have "same_db a ?b" by (simp add: same_db_def)
  note b = steady_same_db [OF a(2) this]
  from answer_succeeds [OF b(1) storable_moved [OF storable_moved [OF assms(3) a(3)] b(2)]] obtain c where
    c: "store_answer p run conv (dr_answer drained) t ?b = (Ok (), c)" "steady p h run RunState.Responding (Suc k) c" by blast
  from step_succeeds [OF c(2) assms(1) plain_steps(5)] obtain w' where
    "controller_step p run (step_new RunState.Responding RunState.Completed ''run.completed'' ''answer_delivered'') c = (Ok (), w')"
    by auto
  with a(1) c(1) is_cancelled_answers [OF assms(1), of a] show ?thesis
    by (simp add: complete_run_def eff_bind_def eff_try_def)
qed

lemma finish_succeeds:
  assumes "answering_ports p" and "steady p h run RunState.AwaitingModel (Suc (Suc (Suc k))) w" and "text_read answer drained"
    and "dr_finish_reason drained = Some FinishReason.Stop" and "storable_answer run (mt_conversation_id turn) answer w"
    and "row \<in> set (db_calls (kw_db w))" and "call_row_open (rf_workspace run) call_id row"
  shows "\<exists>w'. finish_attempt p run turn call_id drained w = (Ok (AttemptCompleted (Answer
    \<lparr>ou_run_id = rf_run_id run, ou_state = RunState.Completed, ou_answer = Some answer, ou_error_code = None\<rparr>)), w')"
proof -
  obtain t a where a: "controller_now p w = (Ok t, a)" "same_db w a" using now_answers [OF assms(1)] by blast
  from outcome_recorded [OF assms(1) steady_same_db(1) [OF assms(2) a(2)] assms(3), of row call_id] assms(6,7) a(2) obtain b where
    b: "record_call_outcome_with p run call_id ModelCallState.Completed
      \<lparr>ro_usage = dr_usage drained, ro_finish_reason = dr_finish_reason drained, ro_delivery = delivery_of drained,
       ro_provider_request_id = dr_provider_request_id drained\<rparr> a = (Ok (), b)"
    "steady p h run RunState.AwaitingModel (Suc (Suc (Suc k))) b" "db_messages (kw_db b) = db_messages (kw_db w)"
    "db_conversations (kw_db b) = db_conversations (kw_db w)"
    by (auto simp: same_db_def)
  have answer: "dr_answer drained = answer" "dr_usage drained = None" "dr_tool_calls drained = []"
    using assms(3) by (simp_all add: text_read_def)
  have "storable_answer run (mt_conversation_id turn) (dr_answer drained) b"
    using assms(5) b(3,4) answer by (simp add: storable_answer_def messages_of_def)
  from completion_succeeds [OF assms(1) b(2) this, of t] obtain w' where
    "complete_run p run drained (mt_conversation_id turn) t b =
      (Ok \<lparr>ou_run_id = rf_run_id run, ou_state = RunState.Completed, ou_answer = Some answer, ou_error_code = None\<rparr>, w')"
    using answer(1) by auto
  with a(1) b(1) answer assms(4) show ?thesis
    by (simp add: finish_attempt_def settle_provider_terminal_def publish_counters_def eff_bind_def Let_def)
qed

lemma attempt_succeeds:
  assumes "answering_ports p" and "steady p h run RunState.AwaitingModel (Suc (length pieces + Suc (Suc (Suc k)))) w"
    and "length pieces < 2 ^ 63" and "\<And>n q. kp_open p n q = Ok (text_stream pieces q)"
    and "mt_observations turn = []" and "storable_answer run (mt_conversation_id turn) (concat pieces) w"
    and "l \<notin> used_ids (kw_db w)" and "\<And>n. tw_ids_drawn (kw_service w) \<le> n \<Longrightarrow> n < h \<Longrightarrow> tp_fresh_id (kp_service p) n \<noteq> l"
  shows "\<exists>w'. attempt_call p run turn l 1 route w = (Ok (AttemptCompleted (Answer
    \<lparr>ou_run_id = rf_run_id run, ou_state = RunState.Completed, ou_answer = Some (concat pieces), ou_error_code = None\<rparr>)), w')"
proof -
  let ?u = "tp_fresh_id (kp_service p) (tw_ids_drawn (kw_service w))"
  let ?k = "length pieces + Suc (Suc (Suc k))"
  from identifier_drawn [OF assms(2)] obtain a where a: "controller_id p w = (Ok ?u, a)"
    "tw_ids_drawn (kw_service a) = Suc (tw_ids_drawn (kw_service w))" "kw_db a = kw_db w"
    and sa: "steady p h run RunState.AwaitingModel ?k a" "moved run w a" by blast
  obtain t b where b: "controller_now p a = (Ok t, b)" "same_db a b" using now_answers [OF assms(1)] by blast
  note sb = steady_same_db [OF sa(1) b(2)]
  define call where "call = \<lparr>nk_id = ?u, nk_workspace_id = rf_workspace run, nk_run_id = rf_run_id run,
        nk_logical_call_id = l, nk_attempt = 1, nk_model = mt_model turn,
        nk_route_decision = map_option ro_decision route, nk_request_fingerprint = None, nk_started_at = t\<rparr>"
  have ids: "kw_db b = kw_db w" "tw_ids_drawn (kw_service b) = Suc (tw_ids_drawn (kw_service w))"
    using b(2) a(2,3) by (simp_all add: same_db_def)
  have "tp_fresh_id (kp_service p) n \<noteq> nk_id call \<and> tp_fresh_id (kp_service p) n \<noteq> nk_logical_call_id call"
    if "tw_ids_drawn (kw_service b) \<le> n" "n < h" for n
    using that assms(8) [of n] drawn_new(2) [OF assms(2), of n] ids(2) by (simp add: call_def)
  moreover have "nk_id call \<notin> used_ids (kw_db b)" "nk_logical_call_id call \<notin> used_ids (kw_db b)"
    using drawn_new(1) [OF assms(2)] assms(7) ids(1) by (simp_all add: call_def)
  ultimately obtain c where c: "on_db (record_attempt call) b = (Ok (), c)" "steady p h run RunState.AwaitingModel ?k c"
    "kw_db c = (kw_db b)\<lparr>db_calls := db_calls (kw_db b) @ [new_call_row call]\<rparr>"
    using attempt_recorded [OF sb(1), of call] by (auto simp: call_def)
  obtain q where q: "build_request (rf_run_id run) ?u (mt_model turn) (mt_items turn) (mt_observations turn)
      (if kp_has_tools p then kp_offers p else []) (mt_budget turn) = Ok q" "mq_call_id q = ?u"
    using first_request assms(5) by metis
  obtain d where d: "wait_bounded p (mt_budget turn) (provider_open p q) c = (Ok (Some (Ok (text_stream pieces q))), d)" "same_db c d"
  proof -
    have "\<exists>v'. provider_open p q v = (Ok (Ok (text_stream pieces q)), v') \<and> same_db v v'" for v
      by (simp add: provider_open_def same_db_def assms(4))
    from wait_answers [OF assms(1) this] that show thesis by blast
  qed
  from stream_text_read [OF assms(1) steady_same_db(1) [OF c(2) d(2)] assms(3), of q "mt_budget turn"] obtain e drained where
    e: "drain_stream p run ?u (text_stream pieces q) (mt_budget turn) d = (Ok (Ok drained), e)"
    "steady p h run RunState.AwaitingModel (Suc (Suc (Suc k))) e" "moved run d e" "text_read (concat pieces) drained"
    "dr_finish_reason drained = Some FinishReason.Stop"
    unfolding q(2) by blast
  define f where "f = e\<lparr>kw_polls := Suc (kw_polls e)\<rparr>"
  have f: "is_cancelled p e = (Ok False, f)" "same_db e f"
    using is_cancelled_answers [OF assms(1)] by (simp_all add: f_def same_db_def)
  have rows: "db_calls (kw_db f) = db_calls (kw_db b) @ [new_call_row call]" "db_messages (kw_db f) = db_messages (kw_db w)"
    "db_conversations (kw_db f) = db_conversations (kw_db w)"
    using f(2) e(3) d(2) c(3) ids(1) by (simp_all add: same_db_def moved_def)
  have "new_call_row call \<in> set (db_calls (kw_db f))" "call_row_open (rf_workspace run) ?u (new_call_row call)"
    using rows(1) by (simp_all add: call_row_open_def call_at_def new_call_row_def call_def)
  moreover have "storable_answer run (mt_conversation_id turn) (concat pieces) f"
    using assms(6) rows(2,3) by (simp add: storable_answer_def messages_of_def)
  ultimately obtain w' where "finish_attempt p run turn ?u drained f = (Ok (AttemptCompleted (Answer
      \<lparr>ou_run_id = rf_run_id run, ou_state = RunState.Completed, ou_answer = Some (concat pieces), ou_error_code = None\<rparr>)), w')"
    using finish_succeeds [OF assms(1) steady_same_db(1) [OF e(2) f(2)] e(4,5)] by blast
  then show ?thesis
    using a(1) b(1) c(1) q(1) d(1) e(1) f(1) by (simp add: attempt_call_def eff_bind_def call_def [symmetric])
qed

lemma ask_succeeds:
  assumes "answering_ports p" and "steady p h run RunState.AwaitingModel (Suc (Suc (length pieces + Suc (Suc (Suc k))))) w"
    and "length pieces < 2 ^ 63" and "\<And>n q. kp_open p n q = Ok (text_stream pieces q)"
    and "mt_observations turn = []" and "rb_deadline (mt_budget turn) = None"
    and "storable_answer run (mt_conversation_id turn) (concat pieces) w"
  shows "\<exists>w'. ask_model p run turn w = (Ok (Answer
    \<lparr>ou_run_id = rf_run_id run, ou_state = RunState.Completed, ou_answer = Some (concat pieces), ou_error_code = None\<rparr>), w')"
proof -
  obtain t a where a: "controller_now p w = (Ok t, a)" "same_db w a" using now_answers [OF assms(1)] by blast
  note sa = steady_same_db [OF assms(2) a(2)]
  from controller_load_answers [OF sa(1)] obtain stored where load: "controller_load run a = (Ok stored, a)" by blast
  let ?l = "tp_fresh_id (kp_service p) (tw_ids_drawn (kw_service a))"
  from identifier_drawn [OF sa(1)] obtain b where b: "controller_id p a = (Ok ?l, b)"
    "tw_ids_drawn (kw_service b) = Suc (tw_ids_drawn (kw_service a))" "kw_db b = kw_db a"
    and sb: "steady p h run RunState.AwaitingModel (Suc (length pieces + Suc (Suc (Suc k)))) b" "moved run a b" by blast
  have "?l \<notin> used_ids (kw_db b)" using drawn_new(1) [OF sa(1)] b(3) by simp
  moreover have "tp_fresh_id (kp_service p) n \<noteq> ?l" if "tw_ids_drawn (kw_service b) \<le> n" "n < h" for n
    using that drawn_new(2) [OF sa(1)] b(2) by simp
  ultimately obtain w' where att: "attempt_call p run turn ?l 1 (rb_route (st_budget stored)) b = (Ok (AttemptCompleted (Answer
    \<lparr>ou_run_id = rf_run_id run, ou_state = RunState.Completed, ou_answer = Some (concat pieces), ou_error_code = None\<rparr>)), w')"
    using attempt_succeeds [OF assms(1) sb(1) assms(3-5) storable_moved [OF storable_moved [OF assms(7) sa(2)] sb(2)]] by blast
  have "permits_step_at (kp_duration_since p) (kp_millis p) (mt_budget turn) t"
    using assms(6) by (simp add: permits_step_at_def status_at_def is_permitted_def)
  with a(1) load b(1) att show ?thesis by (simp add: ask_model_def eff_bind_def)
qed

text \<open>The context can be read and assembled, and holds the objective.\<close>

definition context_ready ::
  "ControllerPorts \<Rightarrow> RunRef \<Rightarrow> ConversationId \<Rightarrow> string \<Rightarrow> MessageId option \<Rightarrow> RunBudget \<Rightarrow> ControllerWorld \<Rightarrow> bool"
where
  "context_ready p run conv objective msg budget w \<longleftrightarrow>
     (\<exists>transcript. fst (load_messages (rf_workspace run) conv None MAX_TRANSCRIPT_MESSAGES (kw_db w)) = Ok transcript \<and>
        (\<forall>now. \<exists>a. assemble_with_memories (tp_show_id (kp_service p)) transcript
              (recalled_memories p (rf_workspace run) objective) objective msg (effective_context_ceiling budget)
              (case rb_max_context_sensitivity budget of Some s \<Rightarrow> s | None \<Rightarrow> Sensitivity.Restricted) now = Ok a \<and>
           list_ex (\<lambda>item. mi_reference item = OBJECTIVE_REFERENCE) (mf_included (ai_manifest a))))"

lemma load_messages_answers:
  assumes "sr_faults (db_runs d) = []" and "sr_faults (db_runs d') = []" and "db_messages d' = db_messages d"
    and "db_conversations d' = db_conversations d"
  shows "load_messages ws c None page d' = (fst (load_messages ws c None page d), d')"
  using assms by (simp add: load_messages_def conversation_visible_def eff_bind_def no_fault u64_to_i64_def)

lemma context_succeeds:
  assumes "answering_ports p" and "steady p h run state k w" and "row_of run w = Some row"
    and "context_ready p run conv objective msg (row_budget row) w"
  shows "\<exists>a w'. build_context p run conv objective msg origin w = (Ok (row_budget row, a), w') \<and> same_db w w'"
proof -
  from controller_load_answers [OF assms(2)] assms(3) obtain stored where load: "controller_load run w = (Ok stored, w)"
    "st_budget stored = row_budget row" by auto
  from assms(4) obtain transcript where tr: "fst (load_messages (rf_workspace run) conv None MAX_TRANSCRIPT_MESSAGES (kw_db w)) = Ok transcript"
    and built: "\<And>now. \<exists>a. assemble_with_memories (tp_show_id (kp_service p)) transcript
              (recalled_memories p (rf_workspace run) objective) objective msg (effective_context_ceiling (row_budget row))
              (case rb_max_context_sensitivity (row_budget row) of Some s \<Rightarrow> s | None \<Rightarrow> Sensitivity.Restricted) now = Ok a \<and>
           list_ex (\<lambda>item. mi_reference item = OBJECTIVE_REFERENCE) (mf_included (ai_manifest a))"
    by (auto simp: context_ready_def)
  have msgs: "on_db (load_messages (rf_workspace run) conv None MAX_TRANSCRIPT_MESSAGES) w = (Ok transcript, w)"
  proof -
    have "sr_faults (db_runs (kw_db w)) = []" using assms(2) by (simp add: steady_def)
    from load_messages_answers [OF this this refl refl, of "rf_workspace run" conv MAX_TRANSCRIPT_MESSAGES] tr
    show ?thesis by (auto simp: on_db_def split: prod.split sum.split)
  qed
  obtain t b where b: "controller_now p w = (Ok t, b)" "same_db w b" using now_answers [OF assms(1)] by blast
  from built [of t] obtain a where a: "assemble_with_memories (tp_show_id (kp_service p)) transcript
              (recalled_memories p (rf_workspace run) objective) objective msg (effective_context_ceiling (row_budget row))
              (case rb_max_context_sensitivity (row_budget row) of Some s \<Rightarrow> s | None \<Rightarrow> Sensitivity.Restricted) t = Ok a"
    "list_ex (\<lambda>item. mi_reference item = OBJECTIVE_REFERENCE) (mf_included (ai_manifest a))" by blast
  have "build_context p run conv objective msg origin w = (Ok (row_budget row, a), b)"
    using load msgs b(1) a by (simp add: build_context_def eff_bind_def Let_def refuse_a_context_without_its_objective_def)
  with b(2) show ?thesis by blast
qed

lemma context_moved:
  assumes "context_ready p run conv objective msg budget w" and "moved run w w'" and "steady p h run s k w" and "steady p h run s' k' w'"
  shows "context_ready p run conv objective msg budget w'"
  using assms load_messages_answers [of "kw_db w" "kw_db w'"] by (auto simp: context_ready_def moved_def steady_def)

text \<open>The model a run is sent to: the one its route names, if the provider serves it, and without a route the first one
  served.\<close>

definition served_model :: "ControllerPorts \<Rightarrow> RunBudget \<Rightarrow> ModelRef option" where
  "served_model p budget =
     (case rb_route budget of
        Some route \<Rightarrow> if ro_model route \<in> set (kp_models p) then Some (ro_model route) else None
      | None \<Rightarrow> (case kp_models p of [] \<Rightarrow> None | m # _ \<Rightarrow> Some m))"

lemma model_resolves:
  assumes "steady p h run state k w" and "row_of run w = Some row" and "served_model p (row_budget row) = Some model"
  shows "resolve_or_fail p run origin w = (Ok model, w)"
  using controller_load_answers [OF assms(1)] assms(2,3)
  by (auto simp: resolve_or_fail_def resolve_model_def eff_try_def eff_bind_def selected_model_def served_model_def
      split: list.split_asm option.split_asm if_split_asm)

text \<open>The run reaches its first turn.\<close>

lemma execute_reaches_the_model:
  assumes "answering_ports p" and run_def: "run = \<lparr>rf_workspace = rx_workspace_id context, rf_run_id = run_id\<rparr>"
    and "steady p h run RunState.Received (Suc (Suc (Suc k))) w"
    and "row_of run w = Some row" and "served_model p (row_budget row) = Some model"
    and "context_ready p run conv objective msg (row_budget row) w"
  shows "\<exists>items w'. controller_execute p context run_id conv objective msg w = drive_turns p run
      (turn_inputs context conv objective msg items model (row_budget row)) turn_first w' \<and>
    steady p h run RunState.AwaitingModel k w' \<and> moved run w w'"
proof -
  define a where "a = w\<lparr>kw_polls := Suc (kw_polls w)\<rparr>"
  have "same_db w a" by (simp add: a_def same_db_def)
  note a = steady_same_db [OF assms(3) this]
  from step_unless_cancelled_succeeds [OF a(1) assms(1) plain_steps(1)] obtain b where
    b: "step_unless_cancelled p run (step_new RunState.Received RunState.ContextBuilding ''run.context_building'' ''context_build_requested'') a = (Ok (), b)"
      "steady p h run RunState.ContextBuilding (Suc (Suc k)) b" "moved run a b" by auto
  have mb: "moved run w b" using a(2) b(3) by (rule moved_trans)
  then obtain row_b where row_b: "row_of run b = Some row_b" "row_budget row_b = row_budget row"
    using assms(4) by (auto simp: moved_def)
  have "context_ready p run conv objective msg (row_budget row_b) b"
    using context_moved [OF assms(6) mb assms(3) b(2)] row_b(2) by simp
  from context_succeeds [OF assms(1) b(2) row_b(1) this] row_b(2) obtain items c where
    c: "build_context p run conv objective msg RunState.ContextBuilding b = (Ok (row_budget row, items), c)" "same_db b c" by metis
  note sc = steady_same_db [OF b(2) c(2)]
  from step_unless_cancelled_succeeds [OF sc(1) assms(1) plain_steps(2)] obtain d where
    d: "step_unless_cancelled p run (step_new RunState.ContextBuilding RunState.Planning ''run.planning'' ''context_ready'') c = (Ok (), d)"
      "steady p h run RunState.Planning (Suc k) d" "moved run c d" by auto
  have md: "moved run w d" using mb sc(2) d(3) moved_trans by blast
  then obtain row_d where row_d: "row_of run d = Some row_d" "row_budget row_d = row_budget row"
    using assms(4) by (auto simp: moved_def)
  have model: "resolve_or_fail p run RunState.Planning d = (Ok model, d)"
    using model_resolves [OF d(2) row_d(1)] row_d(2) assms(5) by simp
  from step_unless_cancelled_succeeds [OF d(2) assms(1) plain_steps(3)] obtain e where
    e: "step_unless_cancelled p run (step_new RunState.Planning RunState.AwaitingModel ''run.model_started'' ''model_call_requested'') d = (Ok (), e)"
      "steady p h run RunState.AwaitingModel k e" "moved run d e" by auto
  have "controller_execute p context run_id conv objective msg w = drive_turns p run
      (turn_inputs context conv objective msg items model (row_budget row)) turn_first e"
    using is_cancelled_answers [OF assms(1), of w] b(1) c(1) d(1) model e(1)
    by (simp add: controller_execute_def Let_def run_def [symmetric] eff_bind_def a_def)
  with e(2,3) md moved_trans show ?thesis by blast
qed

lemma undisturbed_run_is_answered:
  assumes "answering_ports p" and run_def: "run = \<lparr>rf_workspace = rx_workspace_id context, rf_run_id = run_id\<rparr>"
    and "steady p h run RunState.Received (length pieces + 8) w" and "row_of run w = Some row"
    and "rb_deadline (row_budget row) = None" and "served_model p (row_budget row) = Some model"
    and "context_ready p run conv objective msg (row_budget row) w"
    and "\<And>n q. kp_open p n q = Ok (text_stream pieces q)" and "storable_answer run conv (concat pieces) w"
  shows "\<exists>w'. controller_execute p context run_id conv objective msg w =
    (Ok \<lparr>ou_run_id = run_id, ou_state = RunState.Completed, ou_answer = Some (concat pieces), ou_error_code = None\<rparr>, w')"
proof -
  note start = assms(3,4,7,9)
  have small: "length pieces < 2 ^ 63" using start(1) stored_run_OkD(3) by (fastforce simp: steady_def)
  have room: "length pieces + 8 = Suc (Suc (Suc (Suc (Suc (length pieces + Suc (Suc (Suc 0)))))))" by simp
  from execute_reaches_the_model [OF assms(1) run_def start(1) [unfolded room] start(2) assms(6) start(3)] obtain items e where
    ex: "controller_execute p context run_id conv objective msg w = drive_turns p run
      (turn_inputs context conv objective msg items model (row_budget row)) turn_first e"
    and e: "steady p h run RunState.AwaitingModel (Suc (Suc (length pieces + Suc (Suc (Suc 0))))) e" "moved run w e" by blast
  let ?inputs = "turn_inputs context conv objective msg items model (row_budget row)"
  let ?turn = "model_turn ?inputs []"
  have "rb_deadline (mt_budget ?turn) = None" "mt_observations ?turn = []" "mt_conversation_id ?turn = conv"
    using assms(5) by (simp_all add: model_turn_def turn_inputs_def)
  with ask_succeeds [OF assms(1) e(1) small assms(8), of ?turn] storable_moved [OF start(4) e(2)] obtain w' where
    "ask_model p run ?turn e = (Ok (Answer
      \<lparr>ou_run_id = rf_run_id run, ou_state = RunState.Completed, ou_answer = Some (concat pieces), ou_error_code = None\<rparr>), w')"
    by auto
  then have "drive_turns p run ?inputs turn_first e =
      (Ok \<lparr>ou_run_id = rf_run_id run, ou_state = RunState.Completed, ou_answer = Some (concat pieces), ou_error_code = None\<rparr>, w')"
    unfolding drive_turns.simps [of p run ?inputs turn_first e]
    by (simp add: turn_round_def enter_turn_def turn_first_def eff_bind_def)
  with ex show ?thesis by (simp add: run_def)
qed

text \<open>C9: A run that nothing disturbs is answered. Suppose every statement of the database runs and its tables are
  consistent, the clock answers, fresh identifiers are new and distinct, versions and sequence numbers have room, nothing
  is cancelled and no timeout elapses. Then a run ends completed, with the text the provider sent as its answer, if it was
  received and has no deadline; the model its route names is served, or it has no route and some model is served; its
  context can be read and assembled with the objective in it; the provider sends pieces of text and stops; and the answer
  can be stored: it is within the size of a message and holds no NUL, and the conversation is one of the workspace with
  room for a message.\<close>

theorem answered_run_completes:
  assumes "answering_ports p"
    and "steady p h \<lparr>rf_workspace = rx_workspace_id context, rf_run_id = run_id\<rparr> RunState.Received (length pieces + 8) w"
    and "row_of \<lparr>rf_workspace = rx_workspace_id context, rf_run_id = run_id\<rparr> w = Some row"
    and "rb_deadline (row_budget row) = None" and "served_model p (row_budget row) = Some model"
    and "context_ready p \<lparr>rf_workspace = rx_workspace_id context, rf_run_id = run_id\<rparr> conv objective msg (row_budget row) w"
    and "\<And>n q. kp_open p n q = Ok (text_stream pieces q)"
    and "storable_answer \<lparr>rf_workspace = rx_workspace_id context, rf_run_id = run_id\<rparr> conv (concat pieces) w"
  shows "\<exists>w'. controller_execute p context run_id conv objective msg w =
    (Ok \<lparr>ou_run_id = run_id, ou_state = RunState.Completed, ou_answer = Some (concat pieces), ou_error_code = None\<rparr>, w')"
  by (rule undisturbed_run_is_answered [OF assms(1) refl assms(2-8)])

text \<open>C10: An outcome the controller returns is what is stored: when executing a run returns, the run's row holds the
  state the outcome names. That state is either completed, and then the answer, unless it is empty, is a message of the
  assistant in the run's conversation, or the run waits for an approval and there is no answer. Every other end of a
  run is an error.\<close>

theorem returned_outcome_is_stored:
  assumes "run_store_ok (db_runs (kw_db w))"
    and "controller_execute p context run_id conv objective msg w = (Ok outcome, w')"
  shows "delivered \<lparr>rf_workspace = rx_workspace_id context, rf_run_id = run_id\<rparr> conv outcome w'"
proof -
  let ?run = "\<lparr>rf_workspace = rx_workspace_id context, rf_run_id = run_id\<rparr>"
  have turns: "returns (delivered ?run conv)
      (drive_turns p ?run (turn_inputs context conv objective msg assembled model budget) turn_first)" for assembled model budget
    by (auto simp: returns_def turn_inputs_def dest: drive_turns_delivers)
  have "returns (delivered ?run conv) (controller_execute p context run_id conv objective msg)"
    unfolding controller_execute_def Let_def
    apply (rule returns_bind [OF stores.is_cancelled_step])
    apply (split if_split, intro conjI impI)
    subgoal by (intro returns_bind) (auto intro!: stores.turn_rules)
    apply (intro returns_bind [OF stores.lifecycle_steps(6)] returns_bind [OF stores.context_steps(1)])
    apply (split prod.split, intro allI impI)
    apply (intro returns_bind [OF stores.lifecycle_steps(6)] returns_bind [OF stores.context_steps(2)] turns)
    done
  with assms show ?thesis by (auto simp: returns_def run_ok_def)
qed

section \<open>Witnesses\<close>

abbreviation sample_run :: RunRef where
  "sample_run \<equiv> \<lparr>rf_workspace = 2, rf_run_id = 1\<rparr>"

lemma sample_answers: "answering_ports sample_controller"
  by (simp add: answering_ports_def sample_controller_def sample_ports_def)

lemma sample_row: "row_of sample_run sample_controller_world = Some (new_run_row sample_new_run)"
  using sample_controller_world_ok(4) by (simp add: row_of_def)

lemma sample_id_number: "n < 50 \<Longrightarrow> unat (tp_fresh_id (kp_service sample_controller) n) = n + 100"
  by (simp add: sample_controller_def sample_ports_def unat_word_ariths unsigned_of_nat take_bit_nat_eq_self_iff take_bit_nat_eq_self)

lemma sample_ids: "inj_on (tp_fresh_id (kp_service sample_controller)) {..<50}"
  by (rule inj_onI) (metis sample_id_number lessThan_iff add_right_cancel)

lemma sample_used: "used_ids (kw_db sample_controller_world) = {6}"
  by (simp add: used_ids_def sample_controller_world_def sample_created_def event_row_def)

lemma sample_unused: "n < 50 \<Longrightarrow> tp_fresh_id (kp_service sample_controller) n \<notin> used_ids (kw_db sample_controller_world)"
  using sample_id_number [of n] by (auto simp: sample_used)

lemma sample_steady: "steady sample_controller 50 sample_run RunState.Received (length [''hi''] + 8) sample_controller_world"
proof -
  have "\<exists>stored. stored_run (new_run_row sample_new_run) = Ok stored \<and> st_state stored = RunState.Received"
    by (simp add: stored_run_def new_run_row_def sample_new_run_def run_parse_state_def run_state_all_def parse_id_def
        canonical_id_def)
  moreover have "ru_version (new_run_row sample_new_run) = 1" by (simp add: new_run_row_def)
  moreover have "er_sequence e = 1" if "e \<in> set (sr_events (db_runs (kw_db sample_controller_world)))" for e
    using that by (simp add: sample_controller_world_def sample_created_def event_row_def)
  moreover have "sr_faults (db_runs (kw_db sample_controller_world)) = []" "tw_ids_drawn (kw_service sample_controller_world) = 0"
    by (simp_all add: sample_controller_world_def sample_created_def sample_run_store_def sample_world_def)
  ultimately show ?thesis
    using sample_controller_world_ok(1,3) sample_row sample_ids sample_unused
    by (auto simp: steady_def run_ok_def)
qed

lemma sample_context:
  "context_ready sample_controller sample_run 9 ''go'' None run_budget_default sample_controller_world"
proof -
  have "fst (load_messages 2 9 None MAX_TRANSCRIPT_MESSAGES (kw_db sample_controller_world)) = Ok []"
    by (simp add: load_messages_def conversation_visible_def eff_bind_def no_fault u64_to_i64_def sample_controller_world_def
        sample_created_def sample_run_store_def conversation_at_def new_conversation_row_def sample_conversation_def)
  moreover have "recalled_memories sample_controller 2 ''go'' = []" by (simp add: recalled_memories_def sample_controller_def)
  moreover have "effective_context_ceiling run_budget_default = 8192"
    by (simp add: effective_context_ceiling_def run_budget_default_def DEFAULT_CONTEXT_TOKENS_def)
  moreover have "\<exists>a. assemble_with_memories ut [] [] ''go'' None 8192 Sensitivity.Restricted now = Ok a \<and>
      list_ex (\<lambda>item. mi_reference item = OBJECTIVE_REFERENCE) (mf_included (ai_manifest a))" for ut now
    by (simp add: assemble_with_memories_def context_budget_new_def MAX_CONTEXT_BUDGET_TOKENS_def
        estimate_tokens_def BYTES_PER_ESTIMATED_TOKEN_def context_candidate_def candidate_validated_def
        MAX_CANDIDATE_REFERENCE_BYTES_def contains_nul_def f64_is_finite_def f64_of_u32_def
        OBJECTIVE_REFERENCE_def context_assemble_def MAX_CONTEXT_CANDIDATES_def rank_candidates_def
        remaining_after_def saturating_sub_def manifest_item_def and_then_def ok_or_def byte_def less_Sensitivity_def)
  ultimately show ?thesis by (simp add: context_ready_def run_budget_default_def)
qed

lemma sample_storable: "storable_answer sample_run 9 ''hi'' sample_controller_world"
  by (simp add: storable_answer_def MAX_CONTENT_BYTES_def contains_nul_def byte_def sample_controller_world_def messages_of_def
      conversation_at_def new_conversation_row_def sample_conversation_def)

lemma sample_budget:
  "rb_deadline (row_budget (new_run_row sample_new_run)) = None"
  "served_model sample_controller (row_budget (new_run_row sample_new_run)) = Some sample_model"
  "kp_open sample_controller n q = Ok (text_stream [''hi''] q)"
  "context_ready sample_controller sample_run 9 ''go'' None (row_budget (new_run_row sample_new_run)) sample_controller_world"
  using sample_context by (simp_all add: sample_controller_world_ok(5)) (simp_all add: run_budget_default_def sample_controller_def served_model_def)

theorem answered_run_completes_witness:
  "\<exists>w'. controller_execute sample_controller \<lparr>rx_workspace_id = 2, rx_principal_id = 3\<rparr> 1 9 ''go'' None sample_controller_world =
     (Ok \<lparr>ou_run_id = 1, ou_state = RunState.Completed, ou_answer = Some ''hi'', ou_error_code = None\<rparr>, w')"
  using answered_run_completes [of sample_controller 50 "\<lparr>rx_workspace_id = 2, rx_principal_id = 3\<rparr>" 1 "[''hi'']"
      sample_controller_world "new_run_row sample_new_run" sample_model 9 "''go''" None]
    sample_answers sample_steady sample_row sample_budget sample_storable by simp

theorem returned_outcome_is_stored_witness:
  "\<exists>outcome w'. controller_execute sample_controller \<lparr>rx_workspace_id = 2, rx_principal_id = 3\<rparr> 1 9 ''go'' None sample_controller_world =
     (Ok outcome, w') \<and> ou_state outcome = RunState.Completed \<and> delivered sample_run 9 outcome w'"
proof -
  let ?out = "\<lparr>ou_run_id = 1, ou_state = RunState.Completed, ou_answer = Some ''hi'', ou_error_code = None\<rparr>"
  obtain w' where ex: "controller_execute sample_controller \<lparr>rx_workspace_id = 2, rx_principal_id = 3\<rparr> 1 9 ''go'' None
      sample_controller_world = (Ok ?out, w')"
    using undisturbed_run_is_answered [of sample_controller sample_run "\<lparr>rx_workspace_id = 2, rx_principal_id = 3\<rparr>" 1 50 "[''hi'']"
        sample_controller_world "new_run_row sample_new_run" sample_model 9 "''go''" None]
      sample_answers sample_steady sample_row sample_budget sample_storable by auto
  from returned_outcome_is_stored [OF sample_controller_world_ok(1) ex] ex show ?thesis by auto
qed

end
