(* ===== verification/Spec2Isabelle.thy ===== *)
theory Spec2Isabelle
  imports Run_Budget Run_Recovery Tool_Call_Body Tool_Policy Tool_Call_Service Tool_Recovery
    Model_Capability Model_Stream Model_Routing Model_Port Provider_Exchange
    Tool_Path_Grant Tool_Discovery Schema_Rules Run_Startup Run_Feed Run_Controller_Live
begin

text \<open>
  A model of the core of JARVIS, a local assistant daemon that runs a language model and lets it
  call tools under the control of its user. The program is a Rust workspace: \<open>jarvis-domain\<close>
  (pure decisions and state machines), \<open>jarvis-application\<close> (services over ports),
  \<open>jarvis-infrastructure\<close> (storage, HTTP, model providers, MCP servers) and two binaries. What
  the program promises is decided in the domain crate; it is modelled here with the SQLite stores, the
  tool-call service, the run controller and the provider client that its promises go through. The paths below are relative to
  \<open>src/crates/jarvis-domain/src\<close> unless another crate is named.

  \<^bold>\<open>How the parts interact.\<close> A \<^emph>\<open>run\<close> is a versioned state machine that every writer changes by
  compare-and-set; budgets and the retry decision bound it, recovery settles what a restart
  interrupted. A model call is admitted by a resolved policy, which exceptions may relax. A tool
  call names a definition by its identity, has its action reduced to a canonical text that is
  hashed, is allowed, denied or put to the user by the tool policy, waits on a durable approval
  of exactly that text, and is recorded in a ledger that grants each idempotency key once.
  The \<^emph>\<open>run controller\<close> drives a run: it moves the run through its states in the run store, assembles
  the context from the conversation and the memories under a token budget, records each attempt of a
  model call, reads the provider's stream frame by frame through the stream state machine, dispatches
  the tools the model asks for through the tool-call service, parks the run on a pending approval in the
  resume store, and stores the answer. The provider client turns bytes of an HTTP response into those
  frames. Startup passes settle the runs and the tool calls that a crash left behind.

  \<^bold>\<open>Theories.\<close>
  \<^item> Prelude: results and options as the code uses them, checked and saturating machine
    arithmetic, iterated steps of a machine. Text\_Codec: decimal and hexadecimal numerals.
  \<^item> Interfaces: the contracts several components share, as locales. \<open>spelling\<close>: an enumeration
    with a text form and a parser; \<open>edge_table\<close>: a finite transition table with terminal states;
    \<open>version_counter\<close> and \<open>versioned\<close>: a row or an aggregate changed by compare-and-set; \<open>staged\<close>: a machine whose accepted steps
    climb a bounded ladder. Each is interpreted on the model's own definitions where they are
    defined, and the run, ledger and approval properties rest on those interpretations.
  \<^item> Domain\_Error (\<open>error.rs\<close>): the error type and its codes.
  \<^item> Run\_State, Run\_Lifecycle (\<open>run/state.rs\<close>, \<open>run/lifecycle.rs\<close>): twelve states, their edges,
    versions and \<open>apply\<close>. One winner per version, a history that is a chain along the table,
    absorbing terminal states, and what an exhausted version counter leaves behind.
  \<^item> Run\_Recovery (\<open>run/recovery.rs\<close>): classification; recovery settles every live run.
  \<^item> Run\_Budget (\<open>run/budget.rs\<close>, \<open>run/retry.rs\<close>): deadlines, ceilings, capped doubling backoff and
    the retry decision, each characterised exactly.
  \<^item> Model\_Identity, Model\_Policy, Model\_Exception, Model\_Usage (\<open>model/identity.rs\<close>,
    \<open>model/policy.rs\<close>, \<open>model/exception.rs\<close>, the usage part of \<open>model/stream.rs\<close>): references, rule
    sets and their merge (the resolved policy is the conjunction of its layers), exceptions that
    need the right assurance, usage sums that saturate.
  \<^item> Tool\_Identity, Tool\_Classification, Tool\_Definition, Tool\_Call\_Body (\<open>tool/identity.rs\<close>,
    \<open>tool/classification.rs\<close>, \<open>tool/error_class.rs\<close>, \<open>tool/definition.rs\<close>, \<open>tool/call.rs\<close>): the
    vocabulary of tools, with round trips of their texts and the bounds of their bodies.
  \<^item> Tool\_Canonical (\<open>tool/canonical.rs\<close>): the text that is hashed identifies the action.
  \<^item> Tool\_Ledger (\<open>tool/ledger.rs\<close>): the record of one call, the keyed ledger and the verdict on
    interrupted calls: dispatched at most once, granted at most once, never forgetting an effect.
  \<^item> Tool\_Approval (\<open>tool/approval.rs\<close>): durable approvals, consumed at most once and covering
    only the action they were approved for.
  \<^item> Tool\_Policy (\<open>tool/policy.rs\<close>): the decision on a tool call, characterised exactly.

  \<^item> Effects: fallible operations on a state, with the two judgements their proofs are made of,
    \<open>preserves\<close> (an invariant) and \<open>advances\<close> (a preorder between before and after). Repository
    (\<open>repository/mod.rs\<close> of the application crate): the errors of the stores.
  \<^item> Tool\_Store, Approval\_Store (\<open>storage/tool_call_repository.rs\<close>,
    \<open>storage/approval_repository.rs\<close> of the infrastructure crate): the tables as row lists with their
    constraints, each statement able to fail. The call store refines the ledger; both read back
    what they wrote, up to the one column the approvals rewrite.
  \<^item> Tool\_Call\_Service (\<open>tool_call.rs\<close> of the application crate): \<open>invoke\<close>, \<open>resume\<close> and
    \<open>abandon_waiting\<close> over the two stores, the catalogue, the grants, the validator, the fingerprint,
    the executor and the clock. No tool runs without permission, no record is executed twice, of
    concurrent writers one dispatches, a permitted call completes; a one-shot approval can be
    spent by two calls at once, and the record of a call that succeeded does not load.

  \<^item> Tool\_Recovery (\<open>tool_recovery.rs\<close> of the application crate): the paged pass over stranded calls;
    it ends, drains the ledger and touches nothing else.
  \<^item> Tool\_Path\_Grant (\<open>tool/path_grant.rs\<close>), Ordered\_Map, Tool\_Registry, Tool\_Discovery
    (\<open>tool/registry.rs\<close>, \<open>tool/discovery.rs\<close>): granted paths and their confinement; the registry and the
    bounded discovery cache over ordered maps (locale \<open>btree_key\<close>).
  \<^item> Json\_Value, Tool\_Schema, Schema\_Eval, Schema\_Rules (\<open>tool_schema/mod.rs\<close> of the infrastructure
    crate): the walk that admits a schema, the evaluation of every keyword under its limits, and what
    an accepted object satisfies.
  \<^item> Model\_Capability, Model\_Stream, Model\_Routing (\<open>model/capability.rs\<close>, \<open>model/stream.rs\<close>,
    \<open>model/routing.rs\<close>): evidence of capabilities, the admission of stream frames and input items, and
    the choice of a compliant route. Model\_Port (\<open>model.rs\<close> of the application crate).
  \<^item> Byte\_Text, Sse\_Framing, Tool\_Names, Json\_Access, Chunk\_Translator, Http\_Body, Provider\_Exchange
    (\<open>model_providers/openai_compatible\<close> of the infrastructure crate): framing of the byte stream,
    decoding of bodies, translation of provider chunks and the whole exchange, whose events the stream
    state machine admits and whose completed tool calls are those the chunks spell out.
  \<^item> Run\_Store, Run\_Store\_Laws, Run\_Feed, Conversation\_Store, Model\_Call\_Store, Resume\_Store
    (\<open>storage/repositories.rs\<close>, \<open>storage/resume_repository.rs\<close> and the ports \<open>repository/*.rs\<close>): runs,
    events, idempotency keys, conversations, messages, attempts and parked runs as rows with their
    constraints; a stored transition refines the lifecycle but for the expected state, which the store
    never compares, tables only grow, positions are dense, an attempt ends once, and a page of the feed
    has no gap, whatever is committed between the two reads it is made of.
  \<^item> Run\_Startup (\<open>recovery.rs\<close> of the application crate): a restart ends every interrupted run.
  \<^item> Context\_Budget, Context\_Assembly (\<open>context/*.rs\<close>, \<open>context_assembly.rs\<close>): ranking, packing and the
    manifest; the items of a request, the objective among them.
  \<^item> Run\_Turn, Run\_Controller, Run\_Controller\_Laws, Run\_Controller\_Live (\<open>run_controller.rs\<close> and
    \<open>run_controller/resume.rs\<close> of the application crate): \<open>execute\<close>, \<open>resume\<close> and \<open>cancel_parked\<close>. The
    locales \<open>repository_steps\<close> and \<open>provider_steps\<close> carry any relation that the repository operations
    respect through the whole controller; they are interpreted for the requests sent and for the growth
    of the stores. A run's requests are bounded and carry its task, the stores stay consistent, the
    outcome a run returns is the one that is stored, and a run that nothing disturbs is answered; the
    ceilings do not bind turns with tools, and a repeated call identifier strands a run.

  \<^bold>\<open>Correspondence.\<close> A struct is a record with prefixed fields, an enum a datatype whose
  constructors are qualified by its name, a method a function of the same name (prefixed by its
  type where names repeat). \<open>Result\<close> is a sum with \<open>Err\<close> on the left; a method taking
  \<open>&mut self\<close> returns its result together with the aggregate on every branch, so a refusal that
  leaves a changed aggregate behind is visible. Machine integers are words. A \<open>String\<close> is its list
  of UTF-8 bytes. Maps and sets of the standard library are association lists and lists, ordered
  where the code depends on the order. Identifiers are 128-bit words and instants integers; the
  arithmetic of the time library, the text of an identifier, fresh identifiers and the hash are
  arguments of the definitions that use them, with the laws relied on as hypotheses.

  \<^bold>\<open>Effects.\<close> Stateful services are functions from a world to a result and the world after. A store
  carries a schedule of which of its statements fail; the clock, fresh identifiers, the provider's
  answers, cancellation and elapsed timeouts are functions of how often they were asked, so that every
  interleaving of failures is covered by the theorems that quantify over them.

  \<^bold>\<open>Bounds.\<close> Every function is total. Most are structurally recursive; loops whose end is not
  structural are functions with a measure: the recovery passes (the rows still to settle), the drains of
  byte buffers (their length), free names, eviction, the comparison of JSON values and the turns of a run
  (those its budget leaves). Three definitions count down a number that their theorems show to be enough:
  the walk and the evaluation of a schema count the nesting levels that remain below \<open>MAX_SCHEMA_DEPTH\<close>,
  and the attempts of a model call have one more than the retry policy permits
  (\<open>ask_attempts_enough\<close>). The constants of the code keep their values.

  \<^bold>\<open>Not modelled.\<close> HTTP routing and serialisation, MCP processes, native tools, configuration,
  installation, diagnostics and the binaries are input and output. The run service, the approval, grant,
  policy and memory services and the repositories of policies and grants are thin layers over what is
  modelled; memories enter the controller as an argument.
\<close>

end
